(* ===== verification/Reac_Prelude.thy ===== *)
theory Reac_Prelude
  imports Main "HOL-Library.Word" "HOL-Library.Signed_Division"
begin

text \<open>
  Shared vocabulary of the libreac development.

  C's \<^verbatim>\<open>uint8_t\<close>, \<^verbatim>\<open>uint16_t\<close>, \<^verbatim>\<open>uint32_t\<close> and \<^verbatim>\<open>uint64_t\<close> are words of that
  width; \<^verbatim>\<open>int\<close> is HOL's \<open>int\<close>, with C's truncating division written \<open>sdiv\<close> and \<open>smod\<close>;
  \<^verbatim>\<open>size_t\<close> is \<open>nat\<close>. A byte buffer together with its length argument is a list of bytes,
  so \<^verbatim>\<open>(frame, len)\<close> is one list and \<^verbatim>\<open>len\<close> is its \<open>length\<close>. A pointer the code tests
  against \<^verbatim>\<open>NULL\<close> is an \<open>option\<close>; a pointer that is only an out-parameter is a component of
  the result.

  \<open>poke\<close> is \<^verbatim>\<open>memcpy(dst + off, src, n)\<close>, \<open>peek\<close> is the block of bytes such a copy reads.
  Their laws are stated once, as the locale \<open>byte_store\<close>, and the list buffers interpret it.
\<close>

unbundle bit_operations_syntax

type_synonym u8 = "8 word"
type_synonym u16 = "16 word"
type_synonym u32 = "32 word"
type_synonym u64 = "64 word"
type_synonym bytes = "u8 list"
type_synonym mac = bytes

named_theorems buf_simps "reads of written byte buffers"
named_theorems fsm_defs "unfolding of state-machine steps"

section \<open>Byte buffers\<close>

definition poke :: "nat \<Rightarrow> 'a list \<Rightarrow> 'a list \<Rightarrow> 'a list" where
  "poke off src dst = take off dst @ src @ drop (off + length src) dst"

definition peek :: "nat \<Rightarrow> nat \<Rightarrow> 'a list \<Rightarrow> 'a list" where
  "peek off n xs = take n (drop off xs)"

lemma length_poke [simp]:
  "off + length src \<le> length dst \<Longrightarrow> length (poke off src dst) = length dst"
  by (simp add: poke_def)

lemma nth_poke:
  assumes "off + length src \<le> length dst" and "i < length dst"
  shows "poke off src dst ! i =
           (if off \<le> i \<and> i < off + length src then src ! (i - off) else dst ! i)"
  using assms by (auto simp: poke_def nth_append min_def)

lemma length_peek [simp]: "off + n \<le> length xs \<Longrightarrow> length (peek off n xs) = n"
  by (simp add: peek_def)

lemma nth_peek [simp]: "off + n \<le> length xs \<Longrightarrow> i < n \<Longrightarrow> peek off n xs ! i = xs ! (off + i)"
  by (simp add: peek_def)

lemma poke_append:
  "length pre = off \<Longrightarrow> length old = length src \<Longrightarrow> poke off src (pre @ old @ post) = pre @ src @ post"
  by (simp add: poke_def)

lemma peek_append: "length pre = off \<Longrightarrow> length xs = n \<Longrightarrow> peek off n (pre @ xs @ post) = xs"
  by (simp add: peek_def)

lemma peek_eqI:
  assumes "off + n \<le> length xs" and "length ys = n"
    and "\<And>i. i < n \<Longrightarrow> xs ! (off + i) = ys ! i"
  shows "peek off n xs = ys"
  using assms by (auto intro!: nth_equalityI)

lemma peek_poke_same:
  "off + length src \<le> length dst \<Longrightarrow> peek off (length src) (poke off src dst) = src"
  by (auto intro!: peek_eqI simp: nth_poke)

lemma peek_poke_other:
  assumes "off + length src \<le> length dst" and "off' + n \<le> length dst"
    and "off' + n \<le> off \<or> off + length src \<le> off'"
  shows "peek off' n (poke off src dst) = peek off' n dst"
  using assms by (auto intro!: peek_eqI simp: nth_poke)

lemma peek_update_other:
  "i < off \<or> off + n \<le> i \<Longrightarrow> peek off n (xs[i := v]) = peek off n xs"
  by (auto simp: peek_def drop_update_swap take_update_swap intro!: nth_equalityI)

lemma peek_cong:
  assumes "length xs = length ys" and "off + n \<le> length xs"
    and "\<And>i. off \<le> i \<Longrightarrow> i < off + n \<Longrightarrow> xs ! i = ys ! i"
  shows "peek off n xs = peek off n ys"
  using assms by (auto intro!: peek_eqI)

text \<open>The contract of a byte store the builders and parsers rely on.\<close>

locale byte_store =
  fixes wr :: "nat \<Rightarrow> 'b list \<Rightarrow> 's \<Rightarrow> 's"
    and rd :: "nat \<Rightarrow> nat \<Rightarrow> 's \<Rightarrow> 'b list"
    and size_of :: "'s \<Rightarrow> nat"
  assumes rd_wr_same: "off + length b \<le> size_of s \<Longrightarrow> rd off (length b) (wr off b s) = b"
    and rd_wr_other: "\<lbrakk>off + length b \<le> size_of s; o' + n \<le> size_of s;
        o' + n \<le> off \<or> off + length b \<le> o'\<rbrakk> \<Longrightarrow> rd o' n (wr off b s) = rd o' n s"
    and size_wr: "off + length b \<le> size_of s \<Longrightarrow> size_of (wr off b s) = size_of s"
begin

lemma wr_commute_rd:
  assumes "o1 + length b1 \<le> size_of s" and "o2 + length b2 \<le> size_of s"
    and "o1 + length b1 \<le> o2"
  shows "rd o1 (length b1) (wr o2 b2 (wr o1 b1 s)) = b1"
    and "rd o2 (length b2) (wr o2 b2 (wr o1 b1 s)) = b2"
  using assms by (auto simp: rd_wr_same rd_wr_other size_wr)

lemma overwrite_wins:
  assumes "off + length b1 \<le> size_of s" and "length b2 = length b1"
  shows "rd off (length b1) (wr off b2 (wr off b1 s)) = b2"
  using assms by (metis rd_wr_same size_wr)

end

interpretation buf: byte_store "poke :: nat \<Rightarrow> 'a list \<Rightarrow> 'a list \<Rightarrow> 'a list" peek length
  by unfold_locales (simp_all add: peek_poke_same peek_poke_other)

section \<open>Bytes and words\<close>

definition u16le :: "u8 \<Rightarrow> u8 \<Rightarrow> u16" where
  "u16le lo hi = ucast lo OR push_bit 8 (ucast hi)"

definition u16be :: "u8 \<Rightarrow> u8 \<Rightarrow> u16" where
  "u16be hi lo = push_bit 8 (ucast hi) OR ucast lo"

definition lo8 :: "u16 \<Rightarrow> u8" where
  "lo8 w = ucast (w AND 0xff)"

definition hi8 :: "u16 \<Rightarrow> u8" where
  "hi8 w = ucast (drop_bit 8 w)"

lemma u8_bit_high [simp]: "8 \<le> n \<Longrightarrow> \<not> bit (p :: u8) n"
  using bit_imp_le_length [of p n] by auto

lemma word_take_bit_add:
  "take_bit n (take_bit n a + take_bit n b) = take_bit n (a + b :: 'a :: len word)"
  by (transfer, simp add: take_bit_take_bit) (metis take_bit_add take_bit_take_bit min.idem min.commute)

lemma u16_255_mask: "(255 :: u16) = mask 8"
  by (simp add: mask_eq_exp_minus_1)

lemma u16_and_ffff [simp]: "(w :: u16) AND 65535 = w"
proof -
  have "(65535 :: u16) = - 1" by simp
  then show ?thesis by (simp only: and_minus_numerals bit.conj_one_right)
qed

lemma u16le_lo8_hi8 [simp]: "u16le (lo8 w) (hi8 w) = w"
  by (rule bit_word_eqI)
    (auto simp: u16le_def lo8_def hi8_def u16_255_mask bit_simps not_le)

lemma u16be_hi8_lo8 [simp]: "u16be (hi8 w) (lo8 w) = w"
  by (rule bit_word_eqI)
    (auto simp: u16be_def lo8_def hi8_def u16_255_mask bit_simps not_le)

text \<open>The byte a C character stands for.\<close>

definition char_byte :: "char \<Rightarrow> u8" where
  "char_byte c = of_nat (of_char c)"

lemma char_byte_eq_0_iff: "char_byte c = 0 \<longleftrightarrow> c = CHR 0x00"
proof
  assume "char_byte c = 0"
  then have "unat (of_nat (of_char c) :: u8) = 0" by (simp add: char_byte_def)
  moreover have "(of_char c :: nat) < 256" by (rule nat_of_char_less_256)
  ultimately have "of_char c = (0 :: nat)"
    by (simp only: unat_of_nat) (simp add: take_bit_nat_eq_self)
  moreover have "c = char_of (of_char c :: nat)" by simp
  ultimately have "c = char_of (0 :: nat)" by (simp only:)
  then show "c = CHR 0x00" by (simp add: char_of_def)
qed (simp add: char_byte_def)

section \<open>C division on non-negative operands\<close>

lemma sdiv_nonneg: "0 \<le> a \<Longrightarrow> 0 < b \<Longrightarrow> a sdiv b = a div (b :: int)"
  by (cases "a = 0") (simp_all add: signed_divide_int_def)

lemma smod_nonneg: "0 \<le> a \<Longrightarrow> 0 < b \<Longrightarrow> a smod b = a mod (b :: int)"
  by (cases "a = 0") (simp_all add: signed_modulo_int_def)

section \<open>Searching\<close>

text \<open>The index of the first element a loop stops at.\<close>

fun find_index :: "('a \<Rightarrow> bool) \<Rightarrow> 'a list \<Rightarrow> nat option" where
  "find_index p [] = None"
| "find_index p (x # xs) = (if p x then Some 0 else map_option Suc (find_index p xs))"

lemma find_index_None: "find_index p xs = None \<longleftrightarrow> (\<forall>x \<in> set xs. \<not> p x)"
  by (induction xs) auto

lemma find_index_SomeD:
  "find_index p xs = Some i \<Longrightarrow> i < length xs \<and> p (xs ! i) \<and> (\<forall>j < i. \<not> p (xs ! j))"
proof (induction xs arbitrary: i)
  case (Cons x xs)
  then show ?case by (auto simp: less_Suc_eq_0_disj split: if_splits)
qed simp

lemma find_index_SomeI:
  "i < length xs \<Longrightarrow> p (xs ! i) \<Longrightarrow> (\<And>j. j < i \<Longrightarrow> \<not> p (xs ! j)) \<Longrightarrow> find_index p xs = Some i"
proof (induction xs arbitrary: i)
  case (Cons x xs)
  show ?case
  proof (cases i)
    case 0
    then show ?thesis using Cons.prems by simp
  next
    case (Suc k)
    then have "find_index p xs = Some k"
      using Cons.prems(1,2) Cons.prems(3) [of "Suc _"] by (intro Cons.IH) auto
    then show ?thesis using Suc Cons.prems(3) [of 0] by simp
  qed
qed simp

lemma find_upt_least:
  assumes "List.find p [a..<b] = Some i"
  shows "a \<le> i \<and> i < b \<and> p i \<and> (\<forall>j. a \<le> j \<longrightarrow> j < i \<longrightarrow> \<not> p j)"
proof -
  obtain k where k: "k < length [a..<b]" "p ([a..<b] ! k)" "i = [a..<b] ! k" "\<forall>j<k. \<not> p ([a..<b] ! j)"
    using assms by (auto simp: find_Some_iff)
  have "\<not> p j" if "a \<le> j" "j < i" for j
  proof -
    have "j - a < k" using that k(1,3) by auto
    then show ?thesis using k(4) that k(1,3) by (auto dest!: spec [of _ "j - a"])
  qed
  then show ?thesis using k by auto
qed

section \<open>State machines\<close>

text \<open>A machine whose step keeps an invariant under the events its environment may send.\<close>

locale invariant_machine =
  fixes step :: "'s \<Rightarrow> 'e \<Rightarrow> 's"
    and inv :: "'s \<Rightarrow> bool"
    and allowed :: "'e \<Rightarrow> bool"
  assumes inv_step: "inv s \<Longrightarrow> allowed e \<Longrightarrow> inv (step s e)"
begin

lemma inv_run: "inv s \<Longrightarrow> list_all allowed es \<Longrightarrow> inv (foldl step s es)"
  by (induction es arbitrary: s) (auto intro: inv_step)

lemma inv_run_prefix:
  assumes "inv s" and "list_all allowed es"
  shows "\<forall>k \<le> length es. inv (foldl step s (take k es))"
  using assms by (auto intro!: inv_run simp: list_all_iff) (meson in_set_takeD)

end

text \<open>An implementation that answers every operation as its specification does.\<close>

fun trace_of :: "('o \<Rightarrow> 's \<Rightarrow> 's \<times> 'r) \<Rightarrow> 'o list \<Rightarrow> 's \<Rightarrow> 's \<times> 'r list" where
  "trace_of step [] s = (s, [])"
| "trace_of step (q # qs) s =
     (let (s', r) = step q s; (s'', rs) = trace_of step qs s' in (s'', r # rs))"

locale data_refinement =
  fixes inv :: "'s \<Rightarrow> bool"
    and abs :: "'s \<Rightarrow> 'q"
    and step :: "'o \<Rightarrow> 's \<Rightarrow> 's \<times> 'r"
    and spec :: "'o \<Rightarrow> 'q \<Rightarrow> 'q \<times> 'r"
    and ok :: "'o \<Rightarrow> bool"
  assumes inv_step: "inv s \<Longrightarrow> ok q \<Longrightarrow> inv (fst (step q s))"
    and sim_step: "inv s \<Longrightarrow> ok q \<Longrightarrow> spec q (abs s) = (abs (fst (step q s)), snd (step q s))"
begin

lemma inv_trace: "inv s \<Longrightarrow> list_all ok qs \<Longrightarrow> inv (fst (trace_of step qs s))"
  by (induction qs arbitrary: s) (auto simp: split_beta Let_def intro: inv_step)

lemma sim_trace:
  "inv s \<Longrightarrow> list_all ok qs \<Longrightarrow>
     trace_of spec qs (abs s) = (abs (fst (trace_of step qs s)), snd (trace_of step qs s))"
proof (induction qs arbitrary: s)
  case (Cons q qs)
  then have "trace_of spec qs (abs (fst (step q s))) =
      (abs (fst (trace_of step qs (fst (step q s)))), snd (trace_of step qs (fst (step q s))))"
    by (intro Cons.IH) (auto intro: inv_step)
  then show ?case using Cons.prems sim_step [of s q] by (simp add: split_beta Let_def)
qed simp

end

end
