(* ===== verification/Reac_Frame.thy ===== *)
theory Reac_Frame
  imports Complex_Main Reac_Prelude
begin

text \<open>
  The wire constants and frame helpers of \<^verbatim>\<open>include/reac/reac.h\<close> and \<^verbatim>\<open>src/reac.c\<close>:
  frame geometry, EtherType and counter, the strip of the capture residue, sample-rate
  descriptors, the pace code, and the live rate detection. The socket loop of
  \<^verbatim>\<open>reac_detect_rate_fd\<close> is modelled on the packets it receives, each with the time read after
  it; \<^verbatim>\<open>double\<close> values are rationals.
\<close>

section \<open>Wire constants\<close>

abbreviation (input) REAC_FRAME_BYTES :: nat where "REAC_FRAME_BYTES \<equiv> 1492"
abbreviation (input) REAC_AUDIO_BYTES :: nat where "REAC_AUDIO_BYTES \<equiv> 1440"
abbreviation (input) REAC_L2_HEADER_LEN :: nat where "REAC_L2_HEADER_LEN \<equiv> 50"
abbreviation (input) REAC_AUDIO_OFFSET :: nat where "REAC_AUDIO_OFFSET \<equiv> 50"
abbreviation (input) REAC_MAX_CHANNELS :: int where "REAC_MAX_CHANNELS \<equiv> 40"
abbreviation (input) REAC_SAMPLES_PER_PKT :: int where "REAC_SAMPLES_PER_PKT \<equiv> 12"
abbreviation (input) REAC_RESOLUTION :: nat where "REAC_RESOLUTION \<equiv> 3"
abbreviation (input) REAC_HDR_COUNTER_OFF :: nat where "REAC_HDR_COUNTER_OFF \<equiv> 14"
abbreviation (input) REAC_END_MARKER_0 :: u8 where "REAC_END_MARKER_0 \<equiv> 0xC2"
abbreviation (input) REAC_END_MARKER_1 :: u8 where "REAC_END_MARKER_1 \<equiv> 0xEA"
abbreviation (input) REAC_UPSTREAM_OVERHEAD :: nat where "REAC_UPSTREAM_OVERHEAD \<equiv> 52"
abbreviation (input) REAC_UPSTREAM_BYTES_PER_CH :: nat where "REAC_UPSTREAM_BYTES_PER_CH \<equiv> 36"
abbreviation (input) REAC_BOX_MIN_CHANNELS :: int where "REAC_BOX_MIN_CHANNELS \<equiv> 2"
abbreviation (input) REAC_BOX_MAX_CHANNELS :: int where "REAC_BOX_MAX_CHANNELS \<equiv> 40"
abbreviation (input) REAC_CFG_RATE_44100 :: int where "REAC_CFG_RATE_44100 \<equiv> 44100"
abbreviation (input) REAC_CFG_RATE_48000 :: int where "REAC_CFG_RATE_48000 \<equiv> 48000"
abbreviation (input) REAC_CFG_RATE_96000 :: int where "REAC_CFG_RATE_96000 \<equiv> 96000"

section \<open>Frame geometry\<close>

definition reac_box_width_ok :: "int \<Rightarrow> bool" where
  "reac_box_width_ok n \<longleftrightarrow>
     n \<ge> REAC_BOX_MIN_CHANNELS \<and> n \<le> REAC_BOX_MAX_CHANNELS \<and> n AND 1 = 0"

definition reac_frame_is_master_downstream :: "nat \<Rightarrow> bool" where
  "reac_frame_is_master_downstream len \<longleftrightarrow> len = REAC_FRAME_BYTES"

definition reac_frame_channels :: "nat \<Rightarrow> nat" where
  "reac_frame_channels len =
     (if len < REAC_UPSTREAM_OVERHEAD then 0
      else let len' = len - REAC_UPSTREAM_OVERHEAD
           in if len' mod REAC_UPSTREAM_BYTES_PER_CH \<noteq> 0 then 0
              else len' div REAC_UPSTREAM_BYTES_PER_CH)"

definition reac_frame_clean_len :: "nat \<Rightarrow> nat" where
  "reac_frame_clean_len len =
     (if len \<ge> REAC_UPSTREAM_OVERHEAD + 2 \<and>
         (len - REAC_UPSTREAM_OVERHEAD) mod REAC_UPSTREAM_BYTES_PER_CH = 2
      then len - 2 else len)"

section \<open>Rates\<close>

record reac_mode =
  sample_rate :: int
  n_channels :: int
  samples_per_pkt :: int

definition REAC_MODE_44K1 :: reac_mode where
  "REAC_MODE_44K1 = \<lparr>sample_rate = REAC_CFG_RATE_44100, n_channels = REAC_MAX_CHANNELS,
     samples_per_pkt = REAC_SAMPLES_PER_PKT\<rparr>"

definition REAC_MODE_48K :: reac_mode where
  "REAC_MODE_48K = \<lparr>sample_rate = REAC_CFG_RATE_48000, n_channels = REAC_MAX_CHANNELS,
     samples_per_pkt = REAC_SAMPLES_PER_PKT\<rparr>"

definition REAC_MODE_96K :: reac_mode where
  "REAC_MODE_96K = \<lparr>sample_rate = REAC_CFG_RATE_96000, n_channels = REAC_MAX_CHANNELS,
     samples_per_pkt = REAC_SAMPLES_PER_PKT\<rparr>"

definition reac_mode_for :: "int \<Rightarrow> reac_mode" where
  "reac_mode_for rate =
     (if rate = REAC_CFG_RATE_96000 then REAC_MODE_96K
      else if rate = REAC_CFG_RATE_44100 then REAC_MODE_44K1
      else REAC_MODE_48K)"

definition reac_rate_snap :: "rat \<Rightarrow> int" where
  "reac_rate_snap pps =
     (let p44 = of_int REAC_CFG_RATE_44100 / of_int REAC_SAMPLES_PER_PKT;
          p48 = of_int REAC_CFG_RATE_48000 / of_int REAC_SAMPLES_PER_PKT;
          p96 = of_int REAC_CFG_RATE_96000 / of_int REAC_SAMPLES_PER_PKT
      in if pps < (p44 + p48) / 2 then REAC_CFG_RATE_44100
         else if pps < (p48 + p96) / 2 then REAC_CFG_RATE_48000
         else REAC_CFG_RATE_96000)"

definition reac_pace_code :: "int \<Rightarrow> u8" where
  "reac_pace_code fps = (if fps \<ge> 8000 then 1 else if fps \<le> 3700 then 2 else 0)"

section \<open>Frame recognition and the sequence counter\<close>

definition reac_frame_is_reac :: "bytes option \<Rightarrow> bool" where
  "reac_frame_is_reac frame \<longleftrightarrow>
     (case frame of None \<Rightarrow> False
      | Some f \<Rightarrow> \<not> length f < 14 \<and> f ! 12 = 0x88 \<and> f ! 13 = 0x19)"

definition reac_frame_counter :: "bytes \<Rightarrow> u16" where
  "reac_frame_counter frame =
     ucast (frame ! REAC_HDR_COUNTER_OFF)
       OR push_bit 8 (ucast (frame ! (REAC_HDR_COUNTER_OFF + 1)))"

definition reac_counter_gap :: "u16 \<Rightarrow> u16 \<Rightarrow> u16" where
  "reac_counter_gap lst cur = (cur - lst - 1) AND 0xFFFF"

section \<open>Live rate detection\<close>

record rate_track =
  rt_have :: bool
  rt_mac :: mac
  rt_last_counter :: u16
  rt_advance :: nat
  rt_first :: rat
  rt_last :: rat

definition rate_track_init :: rate_track where
  "rate_track_init = \<lparr>rt_have = False, rt_mac = replicate 6 0, rt_last_counter = 0,
     rt_advance = 0, rt_first = 0, rt_last = 0\<rparr>"

definition rate_track_feed :: "rate_track \<Rightarrow> bytes \<Rightarrow> rat \<Rightarrow> rate_track" where
  "rate_track_feed t f now =
     (let c = reac_frame_counter f in
      if \<not> rt_have t then
        t\<lparr>rt_mac := peek 6 6 f, rt_last_counter := c, rt_first := now, rt_last := now,
          rt_have := True\<rparr>
      else if rt_mac t \<noteq> peek 6 6 f then t
      else let step = c - rt_last_counter t in
        if step = 0 \<or> step > 0x8000 then t
        else t\<lparr>rt_advance := rt_advance t + unat step, rt_last_counter := c, rt_last := now\<rparr>)"

text \<open>One packet of the receive loop: too short or not REAC is skipped, a broadcast one feeds
  the downstream track, any other one the second track.\<close>

definition detect_rate_recv ::
    "rate_track \<times> rate_track \<Rightarrow> bytes \<times> rat \<Rightarrow> rate_track \<times> rate_track" where
  "detect_rate_recv dt pkt =
     (let (down, other) = dt; (buf, now) = pkt in
      if length buf < REAC_HDR_COUNTER_OFF + 2 \<or> \<not> reac_frame_is_reac (Some buf) then dt
      else if take 6 buf = replicate 6 0xff then (rate_track_feed down buf now, other)
      else (down, rate_track_feed other buf now))"

definition reac_detect_rate_fd :: "int \<Rightarrow> (bytes \<times> rat) list \<Rightarrow> int" where
  "reac_detect_rate_fd fd pkts =
     (if fd < 0 then 0
      else let (down, other) = foldl detect_rate_recv (rate_track_init, rate_track_init) pkts;
               t = (if rt_advance down \<ge> 50 then down else other)
           in if rt_advance t < 50 then 0
              else let span = rt_last t - rt_first t
                   in if span \<le> 0 then 0
                      else reac_rate_snap (of_nat (rt_advance t) / span))"

section \<open>Geometry lemmas\<close>

lemma and_one_int: "(n :: int) AND 1 = n mod 2"
  by (simp add: and_one_eq)

lemma reac_box_width_ok_iff:
  "reac_box_width_ok n \<longleftrightarrow> 2 \<le> n \<and> n \<le> 40 \<and> even n"
  by (auto simp: reac_box_width_ok_def and_one_int)

lemma reac_frame_channels_geometry:
  "reac_frame_channels (REAC_UPSTREAM_OVERHEAD + n * REAC_UPSTREAM_BYTES_PER_CH) = n"
  by (simp add: reac_frame_channels_def)

lemma reac_frame_channels_pos:
  "0 < reac_frame_channels len \<Longrightarrow>
     len = REAC_UPSTREAM_OVERHEAD + reac_frame_channels len * REAC_UPSTREAM_BYTES_PER_CH"
  by (auto simp: reac_frame_channels_def Let_def split: if_splits)

lemma reac_frame_clean_len_residue:
  "reac_frame_clean_len (52 + n * 36 + 2) = 52 + n * 36"
proof -
  have "(n * 36 + 2) mod 36 = (2 :: nat)" by presburger
  then show ?thesis by (simp add: reac_frame_clean_len_def)
qed

lemma reac_frame_clean_len_clean: "reac_frame_clean_len (52 + n * 36) = 52 + n * 36"
  by (simp add: reac_frame_clean_len_def)

lemma reac_frame_clean_len_cases:
  "reac_frame_clean_len len = len \<or> (\<exists>n. len = 52 + n * 36 + 2 \<and> reac_frame_clean_len len = 52 + n * 36)"
proof (cases "len \<ge> 54 \<and> (len - 52) mod 36 = 2")
  case True
  then obtain q where "len - 52 = q * 36 + 2"
    by (metis div_mult_mod_eq)
  with True have q: "len = 52 + q * 36 + 2" by simp
  show ?thesis unfolding q reac_frame_clean_len_residue by blast
next
  case False
  then show ?thesis by (auto simp: reac_frame_clean_len_def)
qed

lemma reac_frame_clean_len_idem:
  "reac_frame_clean_len (reac_frame_clean_len len) = reac_frame_clean_len len"
  using reac_frame_clean_len_cases [of len] by (metis reac_frame_clean_len_clean)

lemma reac_frame_counter_u16le: "reac_frame_counter f = u16le (f ! 14) (f ! 15)"
  by (simp add: reac_frame_counter_def u16le_def)

section \<open>The tracked stream\<close>

text \<open>Unwrapped sequence numbers a stream may carry while the track follows it: every frame is
  at most half a counter turn ahead of the highest number seen, or less than half a turn
  behind it.\<close>

fun in_turn :: "nat \<Rightarrow> nat list \<Rightarrow> bool" where
  "in_turn h [] = True"
| "in_turn h (n # ns) = (n \<le> h + 0x8000 \<and> h \<le> n + 0x7fff \<and> in_turn (max h n) ns)"

lemma unat_of_nat_diff_ge:
  assumes "h \<le> n" and "n - h < 65536"
  shows "unat (of_nat n - of_nat h :: u16) = n - h"
proof -
  have "of_nat n - of_nat h = (of_nat (n - h) :: u16)" using assms(1) by (simp add: of_nat_diff)
  then show ?thesis using assms(2) by (simp add: unat_of_nat take_bit_eq_mod)
qed

lemma unat_of_nat_diff_lt:
  assumes "n < h" and "h \<le> n + 0x7fff"
  shows "0x8000 < (of_nat n - of_nat h :: u16)"
proof -
  have "(of_nat n - of_nat h :: u16) = of_nat (65536 + n) - of_nat h" by simp
  also have "unat \<dots> = 65536 + n - h"
    using assms by (intro unat_of_nat_diff_ge) auto
  finally show ?thesis using assms by (simp add: word_less_nat_alt)
qed

abbreviation (input) pkt_mac :: "bytes \<Rightarrow> mac" where "pkt_mac f \<equiv> peek 6 6 f"

lemma rate_track_feed_other:
  "rt_have t \<Longrightarrow> pkt_mac f \<noteq> rt_mac t \<Longrightarrow> rate_track_feed t f now = t"
  by (simp add: rate_track_feed_def Let_def)

lemma rate_track_feed_own:
  assumes "rt_have t" and "pkt_mac f = rt_mac t" and "rt_last_counter t = of_nat h"
    and "reac_frame_counter f = of_nat n" and "n \<le> h + 0x8000" and "h \<le> n + 0x7fff"
  shows "rt_have (rate_track_feed t f now) \<and> rt_mac (rate_track_feed t f now) = rt_mac t
    \<and> rt_last_counter (rate_track_feed t f now) = of_nat (max h n)
    \<and> rt_advance (rate_track_feed t f now) = rt_advance t + (max h n - h)"
proof (cases "n < h")
  case True
  then have "0x8000 < (of_nat n - of_nat h :: u16)"
    using assms(6) by (rule unat_of_nat_diff_lt)
  then show ?thesis using assms True by (simp add: rate_track_feed_def Let_def max_def)
next
  case False
  then have u: "unat (of_nat n - of_nat h :: u16) = n - h"
    using assms(5) by (intro unat_of_nat_diff_ge) auto
  then have "\<not> 0x8000 < (of_nat n - of_nat h :: u16)"
    using assms(5) by (simp add: word_less_nat_alt)
  then show ?thesis
    using assms False u by (cases "n = h") (auto simp: rate_track_feed_def Let_def max_def)
qed

lemma foldl_max_ge: "(h :: nat) \<le> foldl max h ns"
  by (induction ns arbitrary: h) (simp, metis foldl_Cons max.bounded_iff)

lemma rate_track_run:
  assumes "rt_have t" and "rt_last_counter t = of_nat h"
    and "\<forall>x \<in> set xs. pkt_mac (fst x) = rt_mac t \<longrightarrow> reac_frame_counter (fst x) = of_nat (snd (snd x))"
    and "in_turn h (map (\<lambda>x. snd (snd x)) (filter (\<lambda>x. pkt_mac (fst x) = rt_mac t) xs))"
  shows "rt_advance (foldl (\<lambda>t x. rate_track_feed t (fst x) (fst (snd x))) t xs) =
    rt_advance t + (foldl max h (map (\<lambda>x. snd (snd x)) (filter (\<lambda>x. pkt_mac (fst x) = rt_mac t) xs)) - h)"
  using assms
proof (induction xs arbitrary: t h)
  case Nil
  then show ?case by simp
next
  case (Cons x xs)
  obtain f now n where x: "x = (f, now, n)" by (cases x)
  let ?t' = "rate_track_feed t f now"
  show ?case
  proof (cases "pkt_mac f = rt_mac t")
    case False
    then have "?t' = t" using Cons.prems(1) by (simp add: rate_track_feed_other)
    then show ?thesis using Cons.IH [of t h] Cons.prems x False by simp
  next
    case True
    have own: "rt_have ?t' \<and> rt_mac ?t' = rt_mac t \<and> rt_last_counter ?t' = of_nat (max h n)
        \<and> rt_advance ?t' = rt_advance t + (max h n - h)"
      using Cons.prems x True by (intro rate_track_feed_own) auto
    have IH: "rt_advance (foldl (\<lambda>t x. rate_track_feed t (fst x) (fst (snd x))) ?t' xs) =
      rt_advance ?t' + (foldl max (max h n) (map (\<lambda>x. snd (snd x))
        (filter (\<lambda>x. pkt_mac (fst x) = rt_mac ?t') xs)) - max h n)"
      using Cons.prems x True own by (intro Cons.IH) auto
    show ?thesis using IH own x True foldl_max_ge [of "max h n"] by simp
  qed
qed

section \<open>Properties\<close>

text \<open>The ingest strip removes the two residue bytes exactly from the lengths
  \<^verbatim>\<open>52 + n*36 + 2\<close>, leaves every clean length and every other length as it is, and a
  second strip never removes more.\<close>

theorem frame_clean_len_strips:
  "reac_frame_clean_len (52 + n * 36 + 2) = 52 + n * 36 \<and> reac_frame_clean_len (52 + n * 36) = 52 + n * 36
   \<and> ((\<nexists>m. len = 52 + m * 36 + 2) \<longrightarrow> reac_frame_clean_len len = len)
   \<and> reac_frame_clean_len (reac_frame_clean_len len) = reac_frame_clean_len len"
  using reac_frame_clean_len_residue reac_frame_clean_len_clean reac_frame_clean_len_idem
    reac_frame_clean_len_cases [of len] by blast

theorem frame_clean_len_strips_witness:
  "reac_frame_clean_len 1494 = 1492 \<and> reac_frame_clean_len 1000 = 1000"
proof -
  have "(\<nexists>m. 1000 = 52 + m * 36 + (2 :: nat))" by presburger
  then show ?thesis
    using frame_clean_len_strips [of 40 1000] by simp
qed

text \<open>The counter gap counts the frames lost between two counters, across the 16-bit wrap:
  after \<open>k\<close> lost frames it is \<open>k\<close> (modulo the turn), and it is zero exactly for consecutive
  counters.\<close>

theorem counter_gap_counts_losses:
  "unat (reac_counter_gap c (c + of_nat (Suc k))) = k mod 65536
   \<and> (reac_counter_gap c d = 0 \<longleftrightarrow> d = c + 1)"
proof -
  have "reac_counter_gap c (c + of_nat (Suc k)) = of_nat k" by (simp add: reac_counter_gap_def)
  moreover have "reac_counter_gap c d = 0 \<longleftrightarrow> d = c + 1"
    by (simp add: reac_counter_gap_def diff_eq_eq add.commute)
  ultimately show ?thesis by (simp add: unat_of_nat take_bit_eq_mod)
qed

text \<open>A measured packet rate snaps to the REAC rate whose packet rate is nearest to it.\<close>

theorem rate_snap_nearest:
  assumes "rate \<in> {44100, 48000, 96000}"
  shows "reac_rate_snap pps \<in> {44100, 48000, 96000}
    \<and> \<bar>pps - of_int (reac_rate_snap pps) / 12\<bar> \<le> \<bar>pps - of_int rate / 12\<bar>
    \<and> reac_rate_snap (of_int rate / 12) = rate"
  using assms by (auto simp: reac_rate_snap_def Let_def abs_if)

theorem rate_snap_nearest_witness:
  "\<bar>(3900 :: rat) - of_int (reac_rate_snap 3900) / 12\<bar> \<le> \<bar>3900 - 44100 / 12\<bar>"
  using rate_snap_nearest [of 44100 3900] by simp

text \<open>C39: the rate track measures one stream by its own counter. Whatever frames of other
  sources are interleaved, and however often the stream's own frames are repeated, lost or
  reordered, as long as each one's sequence number stays within half a turn of the 16-bit counter
  of the highest one seen before it (\<open>in_turn\<close>: at most 32768 ahead, at most 32767 behind), the
  accumulated advance is the distance from the first sequence number to the highest one. A longer
  loss looks like a reordering to the modular difference and is not measured.\<close>

theorem rate_track_measures_stream:
  assumes "rt_have t" and "rt_last_counter t = of_nat h"
    and "\<forall>x \<in> set xs. pkt_mac (fst x) = rt_mac t \<longrightarrow> reac_frame_counter (fst x) = of_nat (snd (snd x))"
    and "in_turn h (map (\<lambda>x. snd (snd x)) (filter (\<lambda>x. pkt_mac (fst x) = rt_mac t) xs))"
  shows "rt_advance (foldl (\<lambda>t x. rate_track_feed t (fst x) (fst (snd x))) t xs) =
    rt_advance t + (foldl max h (map (\<lambda>x. snd (snd x)) (filter (\<lambda>x. pkt_mac (fst x) = rt_mac t) xs)) - h)"
  using assms by (rule rate_track_run)

definition wit_frame :: "u8 \<Rightarrow> u8 \<Rightarrow> bytes" where
  "wit_frame m c = replicate 6 0xff @ [0, 0x40, 0xab, 0, 0, m, 0x88, 0x19, c, 0]"

lemma wit_frame_fields [simp]:
  "pkt_mac (wit_frame m c) = [0, 0x40, 0xab, 0, 0, m]" "reac_frame_counter (wit_frame m c) = ucast c"
  by (simp_all add: wit_frame_def peek_def reac_frame_counter_def nth_append)

theorem rate_track_measures_stream_witness:
  "rt_advance (foldl (\<lambda>t x. rate_track_feed t (fst x) (fst (snd x)))
      (rate_track_feed rate_track_init (wit_frame 7 10) 0)
      [(wit_frame 7 11, 1, 11 :: nat), (wit_frame 7 11, 1, 11), (wit_frame 9 200, 1, 0), (wit_frame 7 14, 2, 14)]) = 4"
proof -
  let ?t = "rate_track_feed rate_track_init (wit_frame 7 10) 0"
  have t: "rt_have ?t" "rt_last_counter ?t = of_nat 10" "rt_advance ?t = 0"
      "rt_mac ?t = [0, 0x40, 0xab, 0, 0, 7]"
    by (simp_all add: rate_track_feed_def rate_track_init_def Let_def)
  show ?thesis
    using rate_track_measures_stream [OF t(1,2), of
        "[(wit_frame 7 11, 1, 11), (wit_frame 7 11, 1, 11), (wit_frame 9 200, 1, 0), (wit_frame 7 14, 2, 14)]"]
    by (simp add: t)
qed

end
