(* ===== verification/Reac_Braid.thy ===== *)
theory Reac_Braid
  imports Reac_Frame
begin

text \<open>
  The audio-region byte layout (\<^verbatim>\<open>include/reac/reac_braid.h\<close>) and the sample conversion pair
  (\<^verbatim>\<open>include/reac/reac_sample.h\<close>). A finite \<^verbatim>\<open>float\<close> is the rational it denotes: the two
  conversions only scale by \<open>2 ^ 23\<close> (exact in binary32), compare with integers and round with
  \<^verbatim>\<open>lrintf\<close> (to nearest, ties to even), so no further rounding is involved. NaN is not modelled.

  The locale \<open>region_layout\<close> states what encoder and decoder need of the layout: for each time
  sample, channel and byte lane a position, all different and all inside the region. The braid
  interprets it.
\<close>

section \<open>The layout oracle\<close>

definition reac_braid_pos :: "int \<Rightarrow> int \<Rightarrow> int \<Rightarrow> nat \<times> nat \<times> nat" where
  "reac_braid_pos s ch n_ch =
     (let g = nat (s * n_ch + (ch AND NOT 1)) * 3 in
      if ch AND 1 = 0 then (g + 3, g + 0, g + 1) else (g + 4, g + 5, g + 2))"

text \<open>Lane \<open>k\<close> (0 = lo, 1 = mid, 2 = hi) of a position triple, as \<^verbatim>\<open>pos[k]\<close>.\<close>

definition lane :: "nat \<times> nat \<times> nat \<Rightarrow> nat \<Rightarrow> nat" where
  "lane p k = (case p of (a, b, c) \<Rightarrow> if k = 0 then a else if k = 1 then b else c)"

definition bpos :: "nat \<Rightarrow> nat \<Rightarrow> nat \<Rightarrow> nat \<Rightarrow> nat" where
  "bpos n s ch k = lane (reac_braid_pos (int s) (int ch) (int n)) k"

lemma and_not_one_int: "(x :: int) AND - 2 = 2 * (x div 2)"
  using unset_bit_0 [of x] by (simp add: unset_bit_eq_and_not)

lemma braid_group:
  "nat (int s * int n + (int ch AND NOT 1)) * 3 = (s * n + 2 * (ch div 2)) * 3"
proof -
  have "int s * int n + (int ch AND NOT 1) = int (s * n + 2 * (ch div 2))"
    by (simp add: and_not_one_int zdiv_int)
  then show ?thesis by (simp only: nat_int)
qed

lemma six_split:
  "6 * a + x = 6 * b + (y :: nat) \<Longrightarrow> x < 6 \<Longrightarrow> y < 6 \<Longrightarrow> a = b \<and> x = y"
  by presburger

definition lane_off :: "nat \<Rightarrow> nat \<Rightarrow> nat" where
  "lane_off ch k = (if even ch then [3, 0, 1] ! k else [4, 5, 2] ! k)"

lemma bpos_eq:
  assumes "k < 3"
  shows "bpos n s ch k = 3 * (s * n + 2 * (ch div 2)) + lane_off ch k"
proof -
  have odd: "int ch AND 1 = 0 \<longleftrightarrow> even ch"
    by (simp add: and_one_int) presburger
  from assms consider "k = 0" | "k = 1" | "k = 2" by linarith
  then show ?thesis
    unfolding bpos_def lane_def reac_braid_pos_def Let_def braid_group lane_off_def odd
    by cases auto
qed

lemma six_group: "3 * (a * (2 * b) + 2 * c) + d = 6 * (a * b + c) + (d :: nat)"
  by (simp add: algebra_simps)

lemma lane_off_lt: "k < 3 \<Longrightarrow> lane_off ch k < 6"
  by (auto simp: lane_off_def less_Suc_eq numeral_3_eq_3)

lemma lane_off_inj:
  assumes "lane_off c1 k1 = lane_off c2 k2" and "k1 < 3" and "k2 < 3"
  shows "k1 = k2 \<and> (even c1 \<longleftrightarrow> even c2)"
  using assms by (auto simp: lane_off_def less_Suc_eq numeral_3_eq_3 split: if_splits)

lemma lane_off_surj:
  assumes "r < 6"
  shows "\<exists>e k. k < 3 \<and> (\<forall>c. even c = e \<longrightarrow> lane_off c k = r)"
proof -
  from assms consider "r = 0" | "r = 1" | "r = 2" | "r = 3" | "r = 4" | "r = 5" by linarith
  then show ?thesis
  proof cases
    case 1 then show ?thesis by (intro exI [of _ True] exI [of _ 1]) (auto simp: lane_off_def)
  next
    case 2 then show ?thesis by (intro exI [of _ True] exI [of _ 2]) (auto simp: lane_off_def)
  next
    case 3 then show ?thesis by (intro exI [of _ False] exI [of _ 2]) (auto simp: lane_off_def)
  next
    case 4 then show ?thesis by (intro exI [of _ True] exI [of _ 0]) (auto simp: lane_off_def)
  next
    case 5 then show ?thesis by (intro exI [of _ False] exI [of _ 0]) (auto simp: lane_off_def)
  next
    case 6 then show ?thesis by (intro exI [of _ False] exI [of _ 1]) (auto simp: lane_off_def)
  qed
qed

section \<open>The braid is a bijection\<close>

lemma braid_pair_lt:
  assumes "even (n :: nat)" and "ch < n" and "s < ns"
  shows "s * n + 2 * (ch div 2) + 2 \<le> ns * n"
proof -
  have "2 * (ch div 2) + 2 \<le> n" using assms(1,2) by presburger
  moreover have "s * n + n \<le> ns * n"
    using assms(3) by (metis Suc_leI add.commute mult_Suc mult_le_mono1)
  ultimately show ?thesis by linarith
qed

lemma bpos_lt:
  assumes "even n" and "ch < n" and "s < ns" and "k < 3"
  shows "bpos n s ch k < 3 * (ns * n)"
  using braid_pair_lt [OF assms(1-3)] lane_off_lt [OF assms(4), of ch] assms(4)
  by (simp add: bpos_eq)

lemma bpos_inj:
  assumes eq: "bpos n s1 c1 k1 = bpos n s2 c2 k2"
    and n: "even n" "c1 < n" "c2 < n" and k: "k1 < 3" "k2 < 3"
  shows "s1 = s2 \<and> c1 = c2 \<and> k1 = k2"
proof -
  obtain m where m: "n = 2 * m" using n(1) by (elim evenE)
  let ?p1 = "s1 * m + c1 div 2" and ?p2 = "s2 * m + c2 div 2"
  have e: "6 * ?p1 + lane_off c1 k1 = 6 * ?p2 + lane_off c2 k2"
    using eq k by (simp add: bpos_eq m algebra_simps)
  from six_split [OF e lane_off_lt [OF k(1)] lane_off_lt [OF k(2)]]
  have p: "?p1 = ?p2" and l: "lane_off c1 k1 = lane_off c2 k2" by simp_all
  have lt: "c1 div 2 < m" "c2 div 2 < m" using n m by auto
  then have mp: "0 < m" by simp
  have "s1 = ?p1 div m" "c1 div 2 = ?p1 mod m" using lt by simp_all
  moreover have "s2 = ?p2 div m" "c2 div 2 = ?p2 mod m" using lt by simp_all
  ultimately have sc: "s1 = s2" "c1 div 2 = c2 div 2" using p by simp_all
  from lane_off_inj [OF l k] have "k1 = k2" "even c1 \<longleftrightarrow> even c2" by auto
  moreover from this(2) sc(2) have "c1 = c2" by presburger
  ultimately show ?thesis using sc by simp
qed

lemma bpos_surj:
  assumes "even n" and "p < 3 * (ns * n)"
  shows "\<exists>s ch k. s < ns \<and> ch < n \<and> k < 3 \<and> bpos n s ch k = p"
proof -
  obtain m where m: "n = 2 * m" using assms(1) by (elim evenE)
  let ?g = "p div 6"
  obtain e k where ek: "k < 3" "\<And>c. even c = e \<Longrightarrow> lane_off c k = p mod 6"
    using lane_off_surj [of "p mod 6"] by auto
  define q where "q = (if e then 0 else 1 :: nat)"
  let ?s = "?g div m" and ?c = "2 * (?g mod m) + q"
  have g: "?g < ns * m" using assms(2) by (simp add: m less_mult_imp_div_less algebra_simps)
  then have mp: "0 < m" by (cases m) auto
  have s: "?s < ns" using g mp by (simp add: less_mult_imp_div_less mult.commute)
  have q: "q < 2" by (simp add: q_def)
  have c: "?c < n" using mp q m mod_less_divisor [OF mp, of ?g] by linarith
  have cdiv: "?c div 2 = ?g mod m" and ceven: "even ?c = e" using q by (auto simp: q_def)
  have "bpos n ?s ?c k = 3 * (?s * (2 * m) + 2 * (?g mod m)) + p mod 6"
    using ek(1) ek(2) [OF ceven] by (simp only: bpos_eq cdiv m)
  also have "\<dots> = 6 * (?s * m + ?g mod m) + p mod 6" by (rule six_group)
  also have "\<dots> = p" by (simp only: div_mult_mod_eq mult_div_mod_eq)
  finally show ?thesis using s c ek(1) by blast
qed

text \<open>What encoder and decoder rely on.\<close>

locale region_layout =
  fixes pos :: "nat \<Rightarrow> nat \<Rightarrow> nat \<Rightarrow> nat \<Rightarrow> nat"
    and ok :: "nat \<Rightarrow> bool"
  assumes pos_in: "\<lbrakk>ok n; ch < n; s < ns; k < 3\<rbrakk> \<Longrightarrow> pos n s ch k < 3 * (ns * n)"
    and pos_inj: "\<lbrakk>pos n s1 c1 k1 = pos n s2 c2 k2; ok n; c1 < n; c2 < n; k1 < 3; k2 < 3\<rbrakk>
        \<Longrightarrow> s1 = s2 \<and> c1 = c2 \<and> k1 = k2"
    and pos_onto: "\<lbrakk>ok n; p < 3 * (ns * n)\<rbrakk>
        \<Longrightarrow> \<exists>s ch k. s < ns \<and> ch < n \<and> k < 3 \<and> pos n s ch k = p"
begin

text \<open>Writing the three lanes of one cell leaves every other cell's bytes alone.\<close>

definition put_cell :: "nat \<Rightarrow> nat \<times> nat \<Rightarrow> 'b list \<Rightarrow> 'b list \<Rightarrow> 'b list" where
  "put_cell n sc b a =
     (let p = pos n (fst sc) (snd sc) in a[p 0 := b ! 0, p 1 := b ! 1, p 2 := b ! 2])"

lemma length_put_cell [simp]: "length (put_cell n sc b a) = length a"
  by (simp add: put_cell_def Let_def)

lemma length_fold_put [simp]:
  "length (fold (\<lambda>sc. put_cell n sc (val sc)) cells a) = length a"
  by (induction cells arbitrary: a) simp_all

lemma put_cell_same:
  assumes "ok n" and "c < n" and "s < ns" and "k < 3" and "3 * (ns * n) \<le> length a"
  shows "put_cell n (s, c) b a ! pos n s c k = b ! k"
proof -
  have lt: "pos n s c j < length a" if "j < 3" for j
    using pos_in [OF assms(1-3) that] assms(5) by simp
  have ne: "pos n s c i \<noteq> pos n s c j" if "i < 3" "j < 3" "i \<noteq> j" for i j
    using pos_inj [of n s c i s c j] assms(1,2) that by blast
  from assms(4) consider "k = 0" | "k = 1" | "k = 2" by linarith
  then show ?thesis
    by cases (auto simp: put_cell_def Let_def lt ne nth_list_update)
qed

lemma put_cell_other:
  assumes "ok n" and "c < n" and "c' < n" and "k < 3" and "(s, c) \<noteq> (s', c')"
  shows "put_cell n (s', c') b a ! pos n s c k = a ! pos n s c k"
proof -
  have "pos n s c k \<noteq> pos n s' c' j" if "j < 3" for j
    using pos_inj [of n s c k s' c' j] assms that by auto
  from this [of 0] this [of 1] this [of 2] show ?thesis by (simp add: put_cell_def Let_def)
qed

text \<open>A loop that writes every cell once leaves each cell with its own value.\<close>

lemma fold_put_cell:
  assumes "ok n" and "set cells \<subseteq> {0..<ns} \<times> {0..<n}" and "3 * (ns * n) \<le> length a"
    and "c < n" and "s < ns" and "k < 3"
  shows "fold (\<lambda>sc. put_cell n sc (val sc)) cells a ! pos n s c k =
           (if (s, c) \<in> set cells then val (s, c) ! k else a ! pos n s c k)"
  using assms(2,3)
proof (induction cells arbitrary: a)
  case Nil
  then show ?case by simp
next
  case (Cons x cells)
  obtain s' c' where x: "x = (s', c')" by (cases x)
  show ?case
  proof (cases "x = (s, c)")
    case True
    then show ?thesis
      using Cons assms put_cell_same [OF assms(1,4,5,6), of a "val (s, c)"] by simp
  next
    case False
    then show ?thesis
      using Cons assms x put_cell_other [OF assms(1,4), of c' k s s' "val x" a] by auto
  qed
qed

end

interpretation braid: region_layout bpos even
  by unfold_locales (fact bpos_lt, fact bpos_inj, fact bpos_surj)

section \<open>The sample conversion pair\<close>

definition reac_s24le_to_f32 :: "u8 \<Rightarrow> u8 \<Rightarrow> u8 \<Rightarrow> rat" where
  "reac_s24le_to_f32 p0 p1 p2 =
     (let v = (ucast p0 :: u32) OR push_bit 8 (ucast p1) OR push_bit 16 (ucast p2);
          v' = (if v AND 0x00800000 \<noteq> 0 then v OR NOT 0x00FFFFFF else v)
      in of_int (sint v') / 8388608)"

definition lrintf :: "rat \<Rightarrow> int" where
  "lrintf x = (let f = \<lfloor>x\<rfloor>; d = x - of_int f in
     if d < 1/2 then f else if d > 1/2 then f + 1 else if even f then f else f + 1)"

definition reac_f32_to_s24le :: "rat \<Rightarrow> u8 list" where
  "reac_f32_to_s24le v =
     (let x = v * 8388608;
          x1 = (if x > 8388607 then 8388607 else x);
          x2 = (if x1 < -8388608 then -8388608 else x1);
          s = (word_of_int (lrintf x2) :: u32)
      in [ucast (s AND 0xFF), ucast (signed_drop_bit 8 s AND 0xFF),
          ucast (signed_drop_bit 16 s AND 0xFF)])"

subsection \<open>Conversion lemmas\<close>

lemma lrintf_of_int [simp]: "lrintf (of_int z) = z"
  by (simp add: lrintf_def)

lemma lrintf_nearest: "\<bar>x - of_int (lrintf x)\<bar> \<le> 1 / 2"
proof -
  have "of_int \<lfloor>x\<rfloor> \<le> x" "x < of_int \<lfloor>x\<rfloor> + 1" using floor_correct [of x] by simp_all
  then show ?thesis by (simp add: lrintf_def Let_def abs_if del: of_int_floor_le)
qed

lemma lrintf_bounds:
  assumes "of_int a \<le> x" and "x \<le> of_int b"
  shows "a \<le> lrintf x \<and> lrintf x \<le> b"
proof -
  have n: "\<bar>x - of_int (lrintf x)\<bar> \<le> 1 / 2" by (rule lrintf_nearest)
  then have "of_int (a - 1) < (of_int (lrintf x) :: rat)"
    using assms by (auto simp: abs_if split: if_splits)
  moreover from n have "(of_int (lrintf x) :: rat) < of_int (b + 1)"
    using assms by (auto simp: abs_if split: if_splits)
  ultimately show ?thesis unfolding of_int_less_iff by linarith
qed

text \<open>The raw 24 bits of three bytes, and their two's complement value.\<close>

definition raw24 :: "u8 \<Rightarrow> u8 \<Rightarrow> u8 \<Rightarrow> u32" where
  "raw24 p0 p1 p2 = ucast p0 OR push_bit 8 (ucast p1) OR push_bit 16 (ucast p2)"

definition s24_value :: "u8 \<Rightarrow> u8 \<Rightarrow> u8 \<Rightarrow> int" where
  "s24_value p0 p1 p2 = signed_take_bit 23 (uint (raw24 p0 p1 p2))"

lemma s24_value_bounds: "- 8388608 \<le> s24_value a b c \<and> s24_value a b c \<le> 8388607"
proof -
  have "s24_value a b c < 2 ^ 23" unfolding s24_value_def
    by (rule signed_take_bit_int_less_exp)
  moreover have "- (2 ^ 23) \<le> s24_value a b c" unfolding s24_value_def
    by (rule signed_take_bit_int_greater_eq_minus_exp)
  ultimately show ?thesis by simp
qed

lemma raw24_sign_extend:
  "(if raw24 a b c AND 0x00800000 \<noteq> 0 then raw24 a b c OR NOT 0x00FFFFFF else raw24 a b c)
     = word_of_int (s24_value a b c)"
proof -
  have t: "raw24 a b c AND 0x00800000 \<noteq> 0 \<longleftrightarrow> bit (raw24 a b c) 23"
    using and_exp_eq_0_iff_not_bit [of "raw24 a b c" 23] by simp
  have m: "(0x00FFFFFF :: u32) = mask 24" by (simp add: mask_eq_exp_minus_1)
  have hi: "\<not> bit (raw24 a b c) n" if "24 \<le> n" for n
    using that by (auto simp: raw24_def bit_simps)
  show ?thesis unfolding t m
  proof (rule bit_word_eqI)
    fix n
    assume n: "n < LENGTH(32)"
    have "bit (word_of_int (s24_value a b c) :: u32) n = bit (raw24 a b c) (min 23 n)"
      using n by (simp add: s24_value_def bit_simps bit_uint_iff)
    moreover have "min 23 n = n \<or> min 23 n = 23 \<and> 24 \<le> n" by linarith
    ultimately show "bit (if bit (raw24 a b c) 23 then raw24 a b c OR NOT (mask 24)
        else raw24 a b c) n = bit (word_of_int (s24_value a b c) :: u32) n"
      using n hi [of n] by (cases "24 \<le> n") (auto simp: bit_or_iff bit_not_iff bit_mask_iff)
  qed
qed

lemma reac_s24le_to_f32_eq: "reac_s24le_to_f32 a b c = of_int (s24_value a b c) / 8388608"
proof -
  have "sint (word_of_int (s24_value a b c) :: u32) = s24_value a b c"
    by (simp add: signed_of_int s24_value_def signed_take_bit_signed_take_bit)
  then show ?thesis
    unfolding reac_s24le_to_f32_def Let_def raw24_def [symmetric] raw24_sign_extend by (simp only:)
qed

lemma s24_bytes:
  "[ucast ((word_of_int (s24_value a b c) :: u32) AND 0xFF),
    ucast (signed_drop_bit 8 (word_of_int (s24_value a b c) :: u32) AND 0xFF),
    ucast (signed_drop_bit 16 (word_of_int (s24_value a b c) :: u32) AND 0xFF)] = [a, b, c]"
proof -
  have m: "(0xFF :: u32) = mask 8" by (simp add: mask_eq_exp_minus_1)
  show ?thesis unfolding m
    by (auto intro!: bit_word_eqI simp: s24_value_def raw24_def bit_simps min_def not_le
        split: if_splits dest!: le_neq_implies_less elim!: less_SucE)
qed

lemma reac_f32_to_s24le_in_range:
  assumes "- 8388608 \<le> z" and "z \<le> 8388607"
  shows "reac_f32_to_s24le (of_int z / 8388608) =
    [ucast ((word_of_int z :: u32) AND 0xFF), ucast (signed_drop_bit 8 (word_of_int z :: u32) AND 0xFF),
     ucast (signed_drop_bit 16 (word_of_int z :: u32) AND 0xFF)]"
proof -
  have "\<not> (of_int z :: rat) > 8388607" "\<not> (of_int z :: rat) < -8388608"
    using assms by (metis not_less of_int_le_iff of_int_numeral of_int_neg_numeral)+
  then show ?thesis by (simp add: reac_f32_to_s24le_def Let_def)
qed

lemma f32_s24_inverse: "reac_f32_to_s24le (reac_s24le_to_f32 a b c) = [a, b, c]"
  using s24_value_bounds [of a b c] s24_bytes [of a b c]
  by (simp add: reac_s24le_to_f32_eq reac_f32_to_s24le_in_range)

lemma s24_value_bytes:
  assumes "- 8388608 \<le> z" and "z \<le> 8388607"
  shows "s24_value (ucast ((word_of_int z :: u32) AND 0xFF))
    (ucast (signed_drop_bit 8 (word_of_int z :: u32) AND 0xFF))
    (ucast (signed_drop_bit 16 (word_of_int z :: u32) AND 0xFF)) = z"
proof -
  let ?w = "word_of_int z :: u32"
  have m: "(0xFF :: u32) = mask 8" by (simp add: mask_eq_exp_minus_1)
  have r: "raw24 (ucast (?w AND 0xFF)) (ucast (signed_drop_bit 8 ?w AND 0xFF))
      (ucast (signed_drop_bit 16 ?w AND 0xFF)) = take_bit 24 ?w"
  proof (rule bit_word_eqI)
    fix n
    assume "n < LENGTH(32)"
    then consider "n < 8" | "8 \<le> n" "n < 16" | "16 \<le> n" "n < 24" | "24 \<le> n" "n < 32"
      by simp linarith
    then show "bit (raw24 (ucast (?w AND 0xFF)) (ucast (signed_drop_bit 8 ?w AND 0xFF))
      (ucast (signed_drop_bit 16 ?w AND 0xFF))) n = bit (take_bit 24 ?w) n"
      unfolding m by cases (simp_all add: raw24_def bit_simps, auto)
  qed
  have u: "uint (take_bit 24 ?w) = take_bit 24 z"
    by (rule bit_eqI) (auto simp: bit_simps bit_uint_iff)
  have "signed_take_bit 23 (take_bit 24 z) = signed_take_bit 23 z"
    by (rule bit_eqI) (auto simp: bit_simps min_def)
  also have "\<dots> = z" using assms by (intro signed_take_bit_int_eq_self) auto
  finally show ?thesis unfolding s24_value_def r u .
qed

definition s24_round :: "rat \<Rightarrow> int" where
  "s24_round v = lrintf (max (- 8388608) (min 8388607 (v * 8388608)))"

lemma s24_round_range: "- 8388608 \<le> s24_round v \<and> s24_round v \<le> 8388607"
  unfolding s24_round_def by (rule lrintf_bounds) (auto simp: max_def min_def)

lemma reac_f32_to_s24le_round:
  "reac_f32_to_s24le v =
    [ucast ((word_of_int (s24_round v) :: u32) AND 0xFF),
     ucast (signed_drop_bit 8 (word_of_int (s24_round v) :: u32) AND 0xFF),
     ucast (signed_drop_bit 16 (word_of_int (s24_round v) :: u32) AND 0xFF)]"
proof -
  have "(if (if v * 8388608 > 8388607 then 8388607 else v * 8388608) < -8388608 then -8388608
      else (if v * 8388608 > 8388607 then 8388607 else v * 8388608)) =
      max (- 8388608) (min 8388607 (v * 8388608))"
    by (auto simp: max_def min_def)
  then show ?thesis by (simp only: reac_f32_to_s24le_def Let_def s24_round_def)
qed

lemma s24_decode_encode:
  "(case reac_f32_to_s24le v of [a, b, c] \<Rightarrow> reac_s24le_to_f32 a b c) = of_int (s24_round v) / 8388608"
  using s24_value_bytes [OF s24_round_range [THEN conjunct1] s24_round_range [THEN conjunct2], of v]
  by (simp add: reac_f32_to_s24le_round reac_s24le_to_f32_eq)

section \<open>Properties\<close>

text \<open>The braid layout is a bijection between the (sample, channel, byte lane) cells of an
  even-width region and the bytes of that region: no two cells share a byte, none lies outside
  the region, and no byte is left unused.\<close>

theorem braid_bijective:
  assumes "even n"
  shows "bij_betw (\<lambda>(s, ch, k). lane (reac_braid_pos (int s) (int ch) (int n)) k)
    ({0..<ns} \<times> {0..<n} \<times> {0..<3}) {0..<3 * (ns * n)}"
  unfolding bpos_def [symmetric]
proof (rule bij_betw_imageI)
  show "inj_on (\<lambda>(s, ch, k). bpos n s ch k) ({0..<ns} \<times> {0..<n} \<times> {0..<3})"
  proof (rule inj_onI)
    fix x y
    assume x: "x \<in> {0..<ns} \<times> {0..<n} \<times> {0..<3}" and y: "y \<in> {0..<ns} \<times> {0..<n} \<times> {0..<3}"
      and e: "(case x of (s, ch, k) \<Rightarrow> bpos n s ch k) = (case y of (s, ch, k) \<Rightarrow> bpos n s ch k)"
    obtain s c k s' c' k' where "x = (s, c, k)" "y = (s', c', k')" by (cases x, cases y)
    with x y e assms show "x = y" using braid.pos_inj [of n s c k s' c' k'] by simp
  qed
  show "(\<lambda>(s, ch, k). bpos n s ch k) ` ({0..<ns} \<times> {0..<n} \<times> {0..<3}) = {0..<3 * (ns * n)}"
  proof (intro equalityI subsetI)
    fix p
    assume "p \<in> {0..<3 * (ns * n)}"
    then obtain s ch k where "s < ns" "ch < n" "k < 3" "bpos n s ch k = p"
      using braid.pos_onto [OF assms, of p ns] by auto
    then show "p \<in> (\<lambda>(s, ch, k). bpos n s ch k) ` ({0..<ns} \<times> {0..<n} \<times> {0..<3})"
      by (intro image_eqI [of _ _ "(s, ch, k)"]) auto
  next
    fix p
    assume "p \<in> (\<lambda>(s, ch, k). bpos n s ch k) ` ({0..<ns} \<times> {0..<n} \<times> {0..<3})"
    then obtain s ch k where "p = bpos n s ch k" "s < ns" "ch < n" "k < 3" by auto
    then show "p \<in> {0..<3 * (ns * n)}" using braid.pos_in [OF assms, of ch s ns k] by simp
  qed
qed

theorem braid_bijective_witness:
  "even (40 :: nat) \<and> bij_betw (\<lambda>(s, ch, k). lane (reac_braid_pos (int s) (int ch) (int 40)) k)
     ({0..<12} \<times> {0..<40} \<times> {0..<3}) {0..<1440}"
  using braid_bijective [of 40 12] by simp

text \<open>The sample pair is lossless towards the wire: converting any three wire bytes to a float
  and back gives the same three bytes.\<close>

theorem sample_bytes_roundtrip: "reac_f32_to_s24le (reac_s24le_to_f32 lo mid hi) = [lo, mid, hi]"
  by (rule f32_s24_inverse)

text \<open>In the other direction a float inside the 24-bit range comes back within half a
  quantisation step (one part in 2^24); outside the range it comes back as the nearest end of it.\<close>

theorem sample_quantisation:
  "(let r = (case reac_f32_to_s24le v of [a, b, c] \<Rightarrow> reac_s24le_to_f32 a b c)
    in if v > 8388607 / 8388608 then r = 8388607 / 8388608
       else if v < - 1 then r = - 1
       else \<bar>r - v\<bar> \<le> 1 / 16777216)"
proof -
  consider "v > 8388607 / 8388608" | "v < - 1" | "- 1 \<le> v" "v \<le> 8388607 / 8388608" by linarith
  then show ?thesis
  proof cases
    case 1
    then have "max (- 8388608) (min 8388607 (v * 8388608)) = of_int 8388607" by simp
    then have "s24_round v = 8388607" unfolding s24_round_def by (simp only: lrintf_of_int)
    with 1 show ?thesis by (simp add: s24_decode_encode)
  next
    case 2
    then have "max (- 8388608) (min 8388607 (v * 8388608)) = of_int (- 8388608)" by simp
    then have "s24_round v = - 8388608" unfolding s24_round_def by (simp only: lrintf_of_int)
    with 2 show ?thesis by (simp add: s24_decode_encode)
  next
    case 3
    then have "s24_round v = lrintf (v * 8388608)" by (simp add: s24_round_def max_def min_def)
    then have "\<bar>v * 8388608 - of_int (s24_round v)\<bar> \<le> 1 / 2"
      using lrintf_nearest [of "v * 8388608"] by simp
    then have "\<bar>of_int (s24_round v) / 8388608 - v\<bar> \<le> 1 / 16777216"
      by (simp add: abs_if field_simps split: if_splits)
    with 3 show ?thesis by (auto simp: s24_decode_encode)
  qed
qed

end
