(* ===== verification/Reac_Codec.thy ===== *)
theory Reac_Codec
  imports Reac_Braid
begin

text \<open>
  Reading and writing audio: \<^verbatim>\<open>src/reac_decode.c\<close>, \<^verbatim>\<open>src/reac_upstream.c\<close> and
  \<^verbatim>\<open>src/reac_encode.c\<close>. A failing decode (return value -1) is \<open>None\<close>; a successful one is the
  returned sample count with the bytes written to \<^verbatim>\<open>out\<close>, in order. Planar input is a pointer to
  channel pointers, either of which may be \<^verbatim>\<open>NULL\<close>: an optional function from channels to optional
  functions from time to samples. The nested loops over samples and channels are folds over the
  index lists in the loops' order.
\<close>

section \<open>Decoding\<close>

record reac_frame =
  fr_counter :: u16
  fr_valid :: bool

definition reac_frame_inspect :: "bytes \<Rightarrow> reac_mode \<Rightarrow> reac_frame" where
  "reac_frame_inspect raw mode =
     (let f = \<lparr>fr_counter = 0, fr_valid = False\<rparr>; len = length raw in
      if len \<noteq> REAC_FRAME_BYTES then f
      else if raw ! 12 \<noteq> 0x88 \<or> raw ! 13 \<noteq> 0x19 then f
      else if raw ! (len - 2) \<noteq> REAC_END_MARKER_0 \<or> raw ! (len - 1) \<noteq> REAC_END_MARKER_1 then f
      else \<lparr>fr_counter = ucast (raw ! 14) OR push_bit 8 (ucast (raw ! 15)), fr_valid = True\<rparr>)"

text \<open>The un-braiding loop both decoders share: channel by channel, sample by sample.\<close>

definition unbraid :: "bytes \<Rightarrow> nat \<Rightarrow> nat \<Rightarrow> bytes" where
  "unbraid audio nch ns =
     concat (map (\<lambda>ch. concat (map (\<lambda>s.
       let (p0, p1, p2) = reac_braid_pos (int s) (int ch) (int nch)
       in [audio ! p0, audio ! p1, audio ! p2]) [0..<ns])) [0..<nch])"

definition reac_decode :: "bytes \<Rightarrow> reac_mode \<Rightarrow> (int \<times> bytes) option" where
  "reac_decode raw mode =
     (let f = reac_frame_inspect raw mode in
      if \<not> fr_valid f then None
      else let audio = drop REAC_L2_HEADER_LEN raw; nch = n_channels mode; ns = samples_per_pkt mode
        in if nch \<le> 0 \<or> nch AND 1 \<noteq> 0 \<or> ns \<le> 0 \<or>
              nat nch * nat ns * REAC_RESOLUTION > REAC_AUDIO_BYTES
           then None
           else Some (ns, unbraid audio (nat nch) (nat ns)))"

definition reac_decode_plain_le :: "bytes \<Rightarrow> reac_mode \<Rightarrow> (int \<times> bytes) option" where
  "reac_decode_plain_le raw mode =
     (let f = reac_frame_inspect raw mode in
      if \<not> fr_valid f then None
      else let audio = drop REAC_L2_HEADER_LEN raw; nch = n_channels mode; ns = samples_per_pkt mode
        in if nch \<le> 0 \<or> ns \<le> 0 \<or> nat nch * nat ns * REAC_RESOLUTION > REAC_AUDIO_BYTES
           then None
           else Some (ns, concat (map (\<lambda>ch. concat (map (\<lambda>s.
               let sptr = (s * nat nch + ch) * REAC_RESOLUTION
               in [audio ! sptr, audio ! (sptr + 1), audio ! (sptr + 2)]) [0..<nat ns])) [0..<nat nch])))"

definition reac_upstream_channels :: "nat \<Rightarrow> int" where
  "reac_upstream_channels len =
     (if len < REAC_UPSTREAM_OVERHEAD + 2 * REAC_UPSTREAM_BYTES_PER_CH then -1
      else if (len - REAC_UPSTREAM_OVERHEAD) mod REAC_UPSTREAM_BYTES_PER_CH \<noteq> 0 then -1
      else let nch = (len - REAC_UPSTREAM_OVERHEAD) div REAC_UPSTREAM_BYTES_PER_CH
        in if \<not> reac_box_width_ok (int nch) then -1 else int nch)"

definition reac_upstream_decode :: "bytes option \<Rightarrow> (int \<times> bytes) option" where
  "reac_upstream_decode raw' =
     (case raw' of None \<Rightarrow> None
      | Some raw \<Rightarrow>
        let len = length raw; nch = reac_upstream_channels len in
        if nch < 0 then None
        else if raw ! 12 \<noteq> 0x88 \<or> raw ! 13 \<noteq> 0x19 then None
        else if raw ! (len - 2) \<noteq> REAC_END_MARKER_0 \<or> raw ! (len - 1) \<noteq> REAC_END_MARKER_1 then None
        else let audio = drop REAC_L2_HEADER_LEN raw
          in Some (REAC_SAMPLES_PER_PKT, unbraid audio (nat nch) (nat REAC_SAMPLES_PER_PKT)))"

section \<open>Encoding\<close>

type_synonym planes = "(nat \<Rightarrow> (nat \<Rightarrow> rat) option) option"

definition plane_sample :: "planes \<Rightarrow> int \<Rightarrow> nat \<Rightarrow> nat \<Rightarrow> rat" where
  "plane_sample planar n_src ch s =
     (case planar of None \<Rightarrow> 0
      | Some pl \<Rightarrow> if int ch < n_src then (case pl ch of None \<Rightarrow> 0 | Some plane \<Rightarrow> plane s) else 0)"

definition reac_braid_encode :: "bytes \<Rightarrow> int \<Rightarrow> planes \<Rightarrow> int \<Rightarrow> int \<Rightarrow> bytes" where
  "reac_braid_encode audio n_ch planar n_src ns =
     (let frames = (if ns < REAC_SAMPLES_PER_PKT then ns else REAC_SAMPLES_PER_PKT) in
      fold (\<lambda>(s, ch) a.
        let v = plane_sample planar n_src ch s;
            b = reac_f32_to_s24le v;
            (p0, p1, p2) = reac_braid_pos (int s) (int ch) n_ch
        in a[p0 := b ! 0, p1 := b ! 1, p2 := b ! 2])
        (List.product [0..<nat frames] [0..<nat n_ch]) audio)"

definition reac_downstream_build :: "planes \<Rightarrow> int \<Rightarrow> int \<Rightarrow> u16 \<Rightarrow> mac \<Rightarrow> bytes" where
  "reac_downstream_build planar nch ns counter src =
     (let o0 = replicate REAC_FRAME_BYTES 0;
          o1 = poke 0 (replicate 6 0xFF) o0;
          o2 = poke 6 src o1;
          o3 = o2[12 := hi8 0x8819, 13 := lo8 0x8819];
          o4 = o3[REAC_HDR_COUNTER_OFF := lo8 counter, REAC_HDR_COUNTER_OFF + 1 := hi8 counter];
          o5 = poke REAC_AUDIO_OFFSET
                 (reac_braid_encode (peek REAC_AUDIO_OFFSET REAC_AUDIO_BYTES o4) REAC_MAX_CHANNELS
                    planar nch ns) o4
      in o5[REAC_FRAME_BYTES - 2 := REAC_END_MARKER_0, REAC_FRAME_BYTES - 1 := REAC_END_MARKER_1])"

section \<open>Un-braiding what was braided\<close>

text \<open>The planar bytes of a region: for each channel its samples in time order, three bytes each.\<close>

definition planar_bytes :: "(nat \<Rightarrow> nat \<Rightarrow> bytes) \<Rightarrow> nat \<Rightarrow> nat \<Rightarrow> bytes" where
  "planar_bytes cell nch ns =
     concat (map (\<lambda>ch. concat (map (cell ch) [0..<ns])) [0..<nch])"

lemma planar_bytes_cong:
  assumes "\<And>ch s. ch < nch \<Longrightarrow> s < ns \<Longrightarrow> f ch s = g ch s"
  shows "planar_bytes f nch ns = planar_bytes g nch ns"
proof -
  have "map (\<lambda>ch. concat (map (f ch) [0..<ns])) [0..<nch] =
        map (\<lambda>ch. concat (map (g ch) [0..<ns])) [0..<nch]"
    using assms by (intro map_cong arg_cong [of _ _ concat] refl) auto
  then show ?thesis by (simp only: planar_bytes_def)
qed

lemma unbraid_planar:
  "unbraid a nch ns = planar_bytes (\<lambda>ch s. map (\<lambda>k. a ! bpos nch s ch k) [0, 1, 2]) nch ns"
  by (auto simp: unbraid_def planar_bytes_def bpos_def lane_def split: prod.splits
      intro!: arg_cong [of _ _ concat])

lemma length_concat_const:
  "(\<And>x. x \<in> set xs \<Longrightarrow> length (f x) = c) \<Longrightarrow> length (concat (map f xs)) = length xs * c"
  by (induction xs) auto

lemma length_unbraid [simp]: "length (unbraid a nch ns) = nch * (ns * 3)"
  unfolding unbraid_planar planar_bytes_def
  by (subst length_concat_const [where c = "ns * 3"]) (auto simp: length_concat_const [where c = 3])

lemma length_s24 [simp]: "length (reac_f32_to_s24le v) = 3"
  by (simp add: reac_f32_to_s24le_def Let_def)

lemma braid_put_cell_eq:
  "braid.put_cell n (s, ch) b a =
     (let (p0, p1, p2) = reac_braid_pos (int s) (int ch) (int n)
      in a[p0 := b ! 0, p1 := b ! 1, p2 := b ! 2])"
  by (simp add: braid.put_cell_def bpos_def lane_def split: prod.splits)

lemma reac_braid_encode_fold:
  "reac_braid_encode audio (int n) planar n_src ns =
     fold (\<lambda>sc. braid.put_cell n sc (reac_f32_to_s24le (plane_sample planar n_src (snd sc) (fst sc))))
       (List.product [0..<nat (min ns 12)] [0..<n]) audio"
  unfolding reac_braid_encode_def Let_def
  by (intro fold_cong) (auto simp: min_def fun_eq_iff braid_put_cell_eq split: prod.splits)

lemma length_reac_braid_encode [simp]:
  "length (reac_braid_encode audio (int n) planar n_src ns) = length audio"
  by (simp add: reac_braid_encode_fold)

lemma nth_reac_braid_encode:
  assumes "even n" and "length audio = 36 * n" and "ch < n" and "s < 12" and "k < 3"
  shows "reac_braid_encode audio (int n) planar n_src ns ! bpos n s ch k =
    (if int s < ns then reac_f32_to_s24le (plane_sample planar n_src ch s) ! k
     else audio ! bpos n s ch k)"
proof -
  let ?cells = "List.product [0..<nat (min ns 12)] [0..<n]"
  have "set ?cells \<subseteq> {0..<12} \<times> {0..<n}" by auto
  moreover have "3 * (12 * n) \<le> length audio" using assms(2) by simp
  ultimately have "fold (\<lambda>sc. braid.put_cell n sc
        (reac_f32_to_s24le (plane_sample planar n_src (snd sc) (fst sc)))) ?cells audio ! bpos n s ch k =
      (if (s, ch) \<in> set ?cells then
         reac_f32_to_s24le (plane_sample planar n_src (snd (s, ch)) (fst (s, ch))) ! k
       else audio ! bpos n s ch k)"
    using assms by (intro braid.fold_put_cell [where ns = 12]) auto
  moreover have "(s, ch) \<in> set ?cells \<longleftrightarrow> int s < ns" using assms(3,4) by auto
  ultimately show ?thesis by (simp add: reac_braid_encode_fold)
qed

text \<open>The encoder's cell as planar bytes: the sample, or what the region held where the caller
  supplied fewer than twelve samples.\<close>

definition enc_cell :: "bytes \<Rightarrow> nat \<Rightarrow> planes \<Rightarrow> int \<Rightarrow> int \<Rightarrow> nat \<Rightarrow> nat \<Rightarrow> bytes" where
  "enc_cell audio n planar n_src ns ch s =
     (if int s < ns then reac_f32_to_s24le (plane_sample planar n_src ch s)
      else map (\<lambda>k. audio ! bpos n s ch k) [0, 1, 2])"

lemma map_nth_three: "length xs = 3 \<Longrightarrow> map (\<lambda>k. xs ! k) [0, 1, 2] = xs"
  by (auto simp: numeral_3_eq_3 length_Suc_conv)

lemma unbraid_encode:
  assumes "even n" and "length audio = 36 * n"
  shows "unbraid (reac_braid_encode audio (int n) planar n_src ns) n 12 =
    planar_bytes (enc_cell audio n planar n_src ns) n 12"
  unfolding unbraid_planar
proof (rule planar_bytes_cong)
  fix ch s :: nat
  assume "ch < n" and "s < 12"
  then have "reac_braid_encode audio (int n) planar n_src ns ! bpos n s ch k =
      enc_cell audio n planar n_src ns ch s ! k" if "k < 3" for k
    using assms that by (subst nth_reac_braid_encode)
      (auto simp: enc_cell_def less_Suc_eq numeral_3_eq_3 numeral_2_eq_2)
  then show "map (\<lambda>k. reac_braid_encode audio (int n) planar n_src ns ! bpos n s ch k) [0, 1, 2] =
      enc_cell audio n planar n_src ns ch s"
    by (subst map_nth_three [symmetric]) (auto simp: enc_cell_def)
qed

lemma nth_encode_inside:
  assumes "even n" and "length audio = 36 * n" and "p < 36 * n"
  obtains s ch k where "s < 12" "ch < n" "k < 3" "p = bpos n s ch k"
  using bpos_surj [of n p 12] assms by auto

section \<open>Upstream width and length\<close>

lemma reac_upstream_channels_len:
  assumes "reac_box_width_ok (int n)"
  shows "reac_upstream_channels (52 + n * 36) = int n"
proof -
  have "2 \<le> n" using assms by (simp add: reac_box_width_ok_iff)
  then have "\<not> 52 + n * 36 < 52 + 2 * 36" by simp
  then show ?thesis using assms by (simp add: reac_upstream_channels_def)
qed

lemma reac_upstream_channels_nonneg:
  assumes "0 \<le> reac_upstream_channels len"
  shows "len = 52 + nat (reac_upstream_channels len) * 36 \<and> reac_box_width_ok (reac_upstream_channels len)"
  using assms by (auto simp: reac_upstream_channels_def Let_def split: if_splits)

section \<open>The built downstream frame\<close>

lemma hi8_8819 [simp]: "hi8 0x8819 = 0x88" and lo8_8819 [simp]: "lo8 0x8819 = 0x19"
  by (simp_all add: hi8_def lo8_def)

lemma zero_frame_split:
  "replicate REAC_FRAME_BYTES (0 :: u8) =
     replicate 6 0 @ replicate 6 0 @ [0, 0, 0, 0] @ replicate 34 0 @ replicate 1440 0 @ [0, 0]"
  by (rule replicate_eqI [symmetric]) auto

text \<open>The frame \<^verbatim>\<open>reac_downstream_build\<close> writes, field by field.\<close>

lemma reac_downstream_build_bytes:
  assumes "length src = 6"
  shows "reac_downstream_build planar nch ns counter src =
    replicate 6 0xFF @ src @ [0x88, 0x19, lo8 counter, hi8 counter] @ replicate 34 0 @
    reac_braid_encode (replicate 1440 0) 40 planar nch ns @ [0xC2, 0xEA]"
proof -
  have enc: "length (reac_braid_encode (replicate 1440 0) 40 planar nch ns) = 1440"
    using length_reac_braid_encode [of "replicate 1440 0" 40] by simp
  let ?h = "replicate 6 0xFF @ src @ [0x88, 0x19, lo8 counter, hi8 counter] @ replicate 34 0"
  have hl: "length ?h = 50" using assms by simp
  have o2: "poke 6 src (poke 0 (replicate 6 0xFF) (replicate REAC_FRAME_BYTES 0)) =
      replicate 6 0xFF @ src @ [0, 0, 0, 0] @ replicate 34 0 @ replicate 1440 0 @ [0, 0]"
    unfolding zero_frame_split using assms
    by (simp add: poke_append [where pre = "[]", simplified] poke_append)
  have o4: "(replicate 6 0xFF @ src @ [0, 0, 0, 0] @ replicate 34 0 @ replicate 1440 0 @ [0, 0])
      [12 := hi8 0x8819, 13 := lo8 0x8819, 14 := lo8 counter, Suc 14 := hi8 counter] =
      ?h @ replicate 1440 0 @ [0, 0]"
    using assms by (simp add: list_update_append)
  have o5: "poke 50 (reac_braid_encode (replicate 1440 0) 40 planar nch ns) (?h @ replicate 1440 0 @ [0, 0])
      = ?h @ reac_braid_encode (replicate 1440 0) 40 planar nch ns @ [0, 0]"
    using hl enc by (intro poke_append) auto
  have pk: "peek 50 1440 (?h @ replicate 1440 0 @ [0, 0]) = replicate 1440 0"
    using hl by (intro peek_append) auto
  show ?thesis
    unfolding reac_downstream_build_def Let_def
    by (simp only: o2 o4 pk o5 Suc_eq_plus1 [symmetric]) (use hl enc in \<open>simp add: list_update_append\<close>)
qed

lemma unbraid_prefix:
  assumes "even n" and "length a = 36 * n"
  shows "unbraid (a @ b) n 12 = unbraid a n 12"
  unfolding unbraid_planar
proof (rule planar_bytes_cong)
  fix ch s :: nat
  assume "ch < n" and "s < 12"
  then have "bpos n s ch k < length a" if "k < 3" for k
    using bpos_lt [of n ch s 12 k] assms that by simp
  from this [of 0] this [of 1] this [of 2]
  show "map (\<lambda>k. (a @ b) ! bpos n s ch k) [0, 1, 2] = map (\<lambda>k. a ! bpos n s ch k) [0, 1, 2]"
    by (simp add: nth_append)
qed

lemma unbraid_encode_silence:
  assumes "even n"
  shows "unbraid (reac_braid_encode (replicate (36 * n) 0) (int n) planar n_src ns @ tail) n 12 =
    planar_bytes (\<lambda>ch s. if int s < ns then reac_f32_to_s24le (plane_sample planar n_src ch s) else [0, 0, 0]) n 12"
proof -
  have "bpos n s ch k < 36 * n" if "ch < n" "s < 12" "k < 3" for s ch k
    using bpos_lt [of n ch s 12 k] assms that by simp
  then show ?thesis
    by (subst unbraid_prefix) (auto simp: assms unbraid_encode enc_cell_def intro!: planar_bytes_cong)
qed

lemma reac_frame_inspect_build:
  assumes "length src = 6"
  shows "reac_frame_inspect (reac_downstream_build planar nch ns counter src) mode =
    \<lparr>fr_counter = counter, fr_valid = True\<rparr>"
proof -
  have "length (reac_braid_encode (replicate 1440 0) 40 planar nch ns) = 1440"
    using length_reac_braid_encode [of "replicate 1440 0" 40] by simp
  moreover have "ucast (lo8 counter) OR push_bit 8 (ucast (hi8 counter)) = counter"
    using u16le_lo8_hi8 [of counter] by (simp only: u16le_def)
  ultimately show ?thesis
    using assms by (simp add: reac_frame_inspect_def Let_def reac_downstream_build_bytes nth_append)
qed

section \<open>Properties\<close>

text \<open>C22: what the downstream builder writes, the decoder reads back. Decoding a built frame
  succeeds for every input, recovers the counter, and returns for each of the 40 channels the
  24-bit bytes of the caller's samples, with silence on missing planes, on channels past the
  caller's count and on samples past the caller's sample count.\<close>

theorem downstream_roundtrip:
  assumes "length src = 6" and "n_channels mode = 40" and "samples_per_pkt mode = 12"
  shows "reac_decode (reac_downstream_build planar nch ns counter src) mode =
      Some (12, planar_bytes (\<lambda>ch s. if int s < ns then reac_f32_to_s24le (plane_sample planar nch ch s)
                                     else [0, 0, 0]) 40 12)
    \<and> reac_frame_counter (reac_downstream_build planar nch ns counter src) = counter"
proof -
  let ?f = "reac_downstream_build planar nch ns counter src"
  have d: "drop 50 ?f = reac_braid_encode (replicate 1440 0) 40 planar nch ns @ [0xC2, 0xEA]"
    using assms(1) by (simp add: reac_downstream_build_bytes)
  have "reac_frame_counter ?f = counter"
    using assms(1) by (simp add: reac_frame_counter_u16le reac_downstream_build_bytes nth_append)
  then show ?thesis
    using unbraid_encode_silence [of 40 planar nch ns "[0xC2, 0xEA]"] assms
    by (simp add: reac_decode_def Let_def reac_frame_inspect_build d)
qed

theorem downstream_roundtrip_witness:
  "reac_decode (reac_downstream_build (Some (\<lambda>ch. Some (\<lambda>s. of_nat s / 16))) 2 12 0xBEEF [0, 0x40, 0xab, 1, 2, 3])
      REAC_MODE_96K =
    Some (12, planar_bytes (\<lambda>ch s. if int s < 12 then reac_f32_to_s24le
      (plane_sample (Some (\<lambda>ch. Some (\<lambda>s. of_nat s / 16))) 2 ch s) else [0, 0, 0]) 40 12)"
  using downstream_roundtrip [of "[0, 0x40, 0xab, 1, 2, 3]" REAC_MODE_96K
      "Some (\<lambda>ch. Some (\<lambda>s. of_nat s / 16))" 2 12 "0xBEEF"]
  by (simp add: REAC_MODE_96K_def)

text \<open>Length and channel width of a box frame determine each other. A frame length is
  accepted exactly when it is \<^verbatim>\<open>52 + 36*n\<close> for an even \<open>n\<close> from 2 to 40, and the answer is that
  \<open>n\<close>; in particular a length with the capture residue is refused.\<close>

theorem upstream_width_iff:
  "reac_upstream_channels len = int n \<longleftrightarrow> len = 52 + n * 36 \<and> 2 \<le> n \<and> n \<le> 40 \<and> even n"
proof
  assume a: "reac_upstream_channels len = int n"
  then show "len = 52 + n * 36 \<and> 2 \<le> n \<and> n \<le> 40 \<and> even n"
    using reac_upstream_channels_nonneg [of len] by (auto simp: reac_box_width_ok_iff)
next
  assume "len = 52 + n * 36 \<and> 2 \<le> n \<and> n \<le> 40 \<and> even n"
  then show "reac_upstream_channels len = int n"
    using reac_upstream_channels_len [of n] by (simp add: reac_box_width_ok_iff)
qed

end
