(* ===== verification/Reac_Checksum.thy ===== *)
theory Reac_Checksum
  imports Reac_Frame
begin

text \<open>
  The two nested checksums of \<^verbatim>\<open>src/reac_ctrlblk.c\<close> (the 32-byte control block sums to zero
  modulo 256, a DT1 record to zero modulo 128) and the frame header writer. The C code sums in
  \<^verbatim>\<open>unsigned\<close>, a 32-bit word here. Return codes 0 and -1 are kept as integers.

  The locale \<open>stamped_sum\<close> is the contract both checksums share: a stamp writes one byte and
  makes the verification succeed.
\<close>

section \<open>Definitions\<close>

abbreviation (input) REAC_CTRL_BLOCK_OFF :: nat where "REAC_CTRL_BLOCK_OFF \<equiv> 18"
abbreviation (input) REAC_CTRL_BLOCK_END :: nat where "REAC_CTRL_BLOCK_END \<equiv> 50"
abbreviation (input) REAC_CTRL_BLOCK_LEN :: nat where "REAC_CTRL_BLOCK_LEN \<equiv> 32"

definition byte_sum :: "bytes \<Rightarrow> u32" where
  "byte_sum bs = sum_list (map ucast bs)"

definition put_hdr :: "bytes \<Rightarrow> mac \<Rightarrow> mac \<Rightarrow> u16 \<Rightarrow> u8 \<Rightarrow> u8 \<Rightarrow> bytes" where
  "put_hdr f dst src counter t0 t1 =
     (let f1 = poke 6 src (poke 0 dst f) in
      f1[12 := 0x88, 13 := 0x19, 14 := lo8 counter, 15 := hi8 counter, 16 := t0, 17 := t1])"

definition reac_ctrl_block_cksum_stamp :: "bytes \<Rightarrow> bytes" where
  "reac_ctrl_block_cksum_stamp block =
     (let s = byte_sum (take (REAC_CTRL_BLOCK_LEN - 1) block)
      in block[REAC_CTRL_BLOCK_LEN - 1 := ucast ((256 - (s AND 0xff)) AND 0xff)])"

text \<open>The stamp applied in place at an offset of a larger buffer, as the C pointer
  \<^verbatim>\<open>frame + off\<close> does.\<close>

definition cksum_stamp_at :: "nat \<Rightarrow> bytes \<Rightarrow> bytes" where
  "cksum_stamp_at off f =
     poke off (reac_ctrl_block_cksum_stamp (peek off REAC_CTRL_BLOCK_LEN f)) f"

definition reac_ctrl_checksum_apply :: "bytes \<Rightarrow> bytes" where
  "reac_ctrl_checksum_apply frame = cksum_stamp_at REAC_CTRL_BLOCK_OFF frame"

definition reac_ctrl_checksum_verify :: "bytes \<Rightarrow> int" where
  "reac_ctrl_checksum_verify frame =
     (let s = byte_sum (peek REAC_CTRL_BLOCK_OFF (REAC_CTRL_BLOCK_END - REAC_CTRL_BLOCK_OFF) frame)
      in if s AND 0xff = 0 then 0 else -1)"

definition reac_ctrl_record_cksum_stamp :: "bytes \<Rightarrow> nat \<Rightarrow> bytes" where
  "reac_ctrl_record_cksum_stamp rec n =
     (let s = byte_sum (take (n - 1) rec)
      in rec[n - 1 := ucast ((0x80 - (s AND 0x7f)) AND 0x7f)])"

definition reac_ctrl_record_cksum_verify :: "bytes \<Rightarrow> nat \<Rightarrow> int" where
  "reac_ctrl_record_cksum_verify rec n =
     (let s = byte_sum (take n rec) in if s AND 0x7f = 0 then 0 else -1)"

section \<open>Sums of bytes\<close>

lemma sum_list_update_group:
  "i < length xs \<Longrightarrow> sum_list (xs[i := v]) = sum_list xs - xs ! i + (v :: 'a :: ab_group_add)"
  by (induction xs arbitrary: i) (auto split: nat.splits simp: algebra_simps)

lemma and_mask_u32: "(w :: u32) AND 0xff = take_bit 8 w" "(w :: u32) AND 0x7f = take_bit 7 w"
  by (simp_all add: take_bit_eq_mask mask_eq_exp_minus_1)

lemma byte_sum_update:
  "i < length bs \<Longrightarrow> byte_sum (bs[i := v]) = byte_sum bs - ucast (bs ! i) + ucast v"
  by (simp add: byte_sum_def map_update sum_list_update_group)

lemma byte_sum_append [simp]: "byte_sum (a @ b) = byte_sum a + byte_sum b"
  by (simp add: byte_sum_def)

lemma byte_sum_Nil [simp]: "byte_sum [] = 0"
  by (simp add: byte_sum_def)

lemma byte_sum_Cons [simp]: "byte_sum (x # xs) = ucast x + byte_sum xs"
  by (simp add: byte_sum_def)

lemma dvd_sub_take_bit: "2 ^ k dvd (s :: u32) - take_bit k s"
proof -
  have "s - take_bit k s = push_bit k (drop_bit k s)"
    using bits_ident [of k s] by (simp add: algebra_simps)
  then show ?thesis by (simp add: push_bit_eq_mult)
qed

lemma take_bit_eqI:
  assumes "2 ^ k dvd (a :: u32) - b"
  shows "take_bit k a = take_bit k b"
proof -
  have "take_bit k (b + (a - b)) = take_bit k (take_bit k b + take_bit k (a - b))"
    by (rule word_take_bit_add [symmetric])
  moreover have "take_bit k (a - b) = 0" using assms by (simp add: take_bit_eq_0_iff)
  ultimately show ?thesis by simp
qed

lemma take_bit_neg_cancel:
  assumes "k \<le> 8"
  shows "take_bit k (s + ucast (ucast (take_bit k (2 ^ k - take_bit k s)) :: u8)) = (0 :: u32)"
proof -
  have "ucast (ucast (take_bit k (2 ^ k - take_bit k s)) :: u8) = (take_bit k (2 ^ k - take_bit k s) :: u32)"
    using assms by (intro bit_word_eqI) (auto simp: bit_simps)
  then have "s + ucast (ucast (take_bit k (2 ^ k - take_bit k s)) :: u8) =
      (s - take_bit k s) - ((2 ^ k - take_bit k s) - take_bit k (2 ^ k - take_bit k s)) + 2 ^ k"
    by simp
  also have "2 ^ k dvd \<dots>" by (intro dvd_add dvd_diff dvd_sub_take_bit) simp
  finally show ?thesis by (simp add: take_bit_eq_0_iff)
qed

section \<open>Stamp and verify\<close>

text \<open>What a stamped buffer promises its reader.\<close>

locale stamped_sum =
  fixes stamp :: "bytes \<Rightarrow> bytes"
    and ok :: "bytes \<Rightarrow> bool"
    and pos_of :: "bytes \<Rightarrow> nat"
    and fits :: "bytes \<Rightarrow> bool"
  assumes ok_stamp: "fits b \<Longrightarrow> ok (stamp b)"
    and stamp_only: "fits b \<Longrightarrow> i \<noteq> pos_of b \<Longrightarrow> stamp b ! i = b ! i"
    and length_stamp: "fits b \<Longrightarrow> length (stamp b) = length b"
begin

lemma stamp_prefix: "fits b \<Longrightarrow> pos_of b < length b \<Longrightarrow> take (pos_of b) (stamp b) = take (pos_of b) b"
  by (rule nth_equalityI) (auto simp: length_stamp stamp_only)

end

lemma length_block_stamp [simp]: "length (reac_ctrl_block_cksum_stamp b) = length b"
  by (simp add: reac_ctrl_block_cksum_stamp_def Let_def)

lemma block_stamp_nth:
  "i \<noteq> 31 \<Longrightarrow> reac_ctrl_block_cksum_stamp b ! i = b ! i"
  by (simp add: reac_ctrl_block_cksum_stamp_def Let_def)

lemma split_last: "length b = Suc n \<Longrightarrow> b = take n b @ [b ! n]"
  by (metis lessI take_Suc_conv_app_nth take_all order_refl)

lemma block_stamp_sum:
  assumes "length b = 32"
  shows "take_bit 8 (byte_sum (reac_ctrl_block_cksum_stamp b)) = 0"
proof -
  let ?s = "byte_sum (take 31 b)"
  have "reac_ctrl_block_cksum_stamp b = take 31 b @ [ucast (take_bit 8 (2 ^ 8 - take_bit 8 ?s))]"
    using split_last [of b 31] assms
    by (subst split_last [of _ 31]) (simp_all add: reac_ctrl_block_cksum_stamp_def Let_def and_mask_u32)
  then show ?thesis using take_bit_neg_cancel [of 8 ?s] by simp
qed

interpretation block_ck: stamped_sum reac_ctrl_block_cksum_stamp
  "\<lambda>b. byte_sum b AND 0xff = 0" "\<lambda>_. 31" "\<lambda>b. length b = 32"
  by unfold_locales (simp_all add: and_mask_u32 block_stamp_sum block_stamp_nth)

lemma record_stamp_sum:
  assumes "0 < n" and "n \<le> length r"
  shows "take_bit 7 (byte_sum (take n (reac_ctrl_record_cksum_stamp r n))) = 0"
proof -
  let ?s = "byte_sum (take (n - 1) r)"
  obtain m where m: "n = Suc m" using assms(1) by (cases n) auto
  have "take n (reac_ctrl_record_cksum_stamp r n) =
      take m r @ [ucast (take_bit 7 (2 ^ 7 - take_bit 7 ?s))]"
    using assms m by (simp add: reac_ctrl_record_cksum_stamp_def Let_def and_mask_u32
        take_Suc_conv_app_nth)
  then show ?thesis using take_bit_neg_cancel [of 7 ?s] m by simp
qed

interpretation record_ck: stamped_sum "\<lambda>r. reac_ctrl_record_cksum_stamp r 7"
  "\<lambda>r. reac_ctrl_record_cksum_verify r 7 = 0" "\<lambda>_. 6" "\<lambda>r. 7 \<le> length r"
proof unfold_locales
  fix b :: bytes
  assume "7 \<le> length b"
  then show "reac_ctrl_record_cksum_verify (reac_ctrl_record_cksum_stamp b 7) 7 = 0"
    using record_stamp_sum [of 7 b] by (simp add: reac_ctrl_record_cksum_verify_def Let_def and_mask_u32)
qed (simp_all add: reac_ctrl_record_cksum_stamp_def Let_def)

lemma length_checksum_apply [simp]:
  "50 \<le> length f \<Longrightarrow> length (reac_ctrl_checksum_apply f) = length f"
  by (simp add: reac_ctrl_checksum_apply_def cksum_stamp_at_def)

lemma nth_checksum_apply:
  assumes "50 \<le> length f" and "i < length f" and "i \<noteq> 49"
  shows "reac_ctrl_checksum_apply f ! i = f ! i"
  using assms
  by (auto simp: reac_ctrl_checksum_apply_def cksum_stamp_at_def nth_poke block_stamp_nth)

lemma checksum_verify_apply:
  assumes "50 \<le> length f"
  shows "reac_ctrl_checksum_verify (reac_ctrl_checksum_apply f) = 0"
proof -
  let ?b = "reac_ctrl_block_cksum_stamp (peek 18 32 f)"
  have "peek 18 32 (reac_ctrl_checksum_apply f) = ?b"
    using peek_poke_same [of 18 ?b f] assms by (simp add: reac_ctrl_checksum_apply_def cksum_stamp_at_def)
  then show ?thesis
    using block_ck.ok_stamp [of "peek 18 32 f"] assms by (simp add: reac_ctrl_checksum_verify_def Let_def)
qed

lemma checksum_verify_iff:
  "reac_ctrl_checksum_verify f = 0 \<longleftrightarrow> take_bit 8 (byte_sum (peek 18 32 f)) = 0"
  by (simp add: reac_ctrl_checksum_verify_def Let_def and_mask_u32)

section \<open>Properties\<close>

text \<open>C28: the control-block checksum. Applying it to any frame makes verification succeed and
  changes no byte but the checksum byte 49; and any change to any one of the 32 block bytes of a
  verifying frame makes verification fail.\<close>

theorem block_checksum_sound:
  assumes "50 \<le> length f"
  shows "reac_ctrl_checksum_verify (reac_ctrl_checksum_apply f) = 0
    \<and> (\<forall>i < length f. i \<noteq> 49 \<longrightarrow> reac_ctrl_checksum_apply f ! i = f ! i)
    \<and> (reac_ctrl_checksum_verify f = 0 \<longrightarrow>
        (\<forall>i v. 18 \<le> i \<longrightarrow> i < 50 \<longrightarrow> v \<noteq> f ! i \<longrightarrow> reac_ctrl_checksum_verify (f[i := v]) = - 1))"
proof (intro conjI allI impI)
  show "reac_ctrl_checksum_verify (reac_ctrl_checksum_apply f) = 0"
    using assms by (rule checksum_verify_apply)
next
  fix i
  assume "i < length f" "i \<noteq> 49"
  then show "reac_ctrl_checksum_apply f ! i = f ! i" using assms by (intro nth_checksum_apply)
next
  fix i and v :: u8
  assume ok: "reac_ctrl_checksum_verify f = 0" and i: "18 \<le> i" "i < 50" and v: "v \<noteq> f ! i"
  let ?b = "peek 18 32 f"
  have b: "peek 18 32 (f[i := v]) = ?b[i - 18 := v]"
    using assms i by (intro peek_eqI) (auto simp: nth_list_update)
  have s: "byte_sum (?b[i - 18 := v]) = byte_sum ?b - ucast (f ! i) + ucast v"
    using assms i by (subst byte_sum_update) auto
  have "reac_ctrl_checksum_verify (f[i := v]) \<noteq> 0"
  proof
    assume "reac_ctrl_checksum_verify (f[i := v]) = 0"
    then have "take_bit 8 (byte_sum ?b - ucast (f ! i) + ucast v) = 0"
      by (simp add: checksum_verify_iff b s)
    moreover have "take_bit 8 (byte_sum ?b) = 0" using ok by (simp add: checksum_verify_iff)
    ultimately have "2 ^ 8 dvd (byte_sum ?b - ucast (f ! i) + ucast v) - byte_sum ?b"
      unfolding take_bit_eq_0_iff by (rule dvd_diff)
    also have "(byte_sum ?b - ucast (f ! i) + ucast v) - byte_sum ?b = ucast v - ucast (f ! i)" by simp
    finally have "2 ^ 8 dvd (ucast v - ucast (f ! i) :: u32)" .
    then have e: "take_bit 8 (ucast v :: u32) = take_bit 8 (ucast (f ! i))" by (rule take_bit_eqI)
    have "v = f ! i"
    proof (rule bit_word_eqI)
      fix n
      assume "n < LENGTH(8)"
      then show "bit v n = bit (f ! i) n"
        using arg_cong [OF e, of "\<lambda>w. bit w n"] by (simp add: bit_simps)
    qed
    with v show False by simp
  qed
  then show "reac_ctrl_checksum_verify (f[i := v]) = - 1"
    by (auto simp: reac_ctrl_checksum_verify_def Let_def)
qed

theorem block_checksum_sound_witness:
  "reac_ctrl_checksum_verify (reac_ctrl_checksum_apply (replicate 60 3)) = 0
   \<and> reac_ctrl_checksum_verify ((replicate 60 (0 :: u8))[20 := 1]) = - 1"
proof -
  have "reac_ctrl_checksum_verify (replicate 60 0) = 0"
    by (simp add: reac_ctrl_checksum_verify_def peek_def byte_sum_def sum_list_replicate)
  then show ?thesis
    using block_checksum_sound [of "replicate 60 3"] block_checksum_sound [of "replicate 60 0"] by simp
qed

end
