(* ===== verification/Reac_Scene.thy ===== *)
theory Reac_Scene
  imports Reac_Checksum
begin

text \<open>
  The scene transfer of \<^verbatim>\<open>src/reac_ctrlblk.c\<close>: 8904 body bytes cut into a head, 341 chunks and a
  tail, each a 34-byte type-and-block image with its checksum; and the SENS conversions of the
  same file. A refused step (-1) is \<open>None\<close>.
\<close>

section \<open>Scene blocks\<close>

abbreviation (input) REAC_SCENE_BYTES :: nat where "REAC_SCENE_BYTES \<equiv> 8904"
abbreviation (input) REAC_SCENE_HEAD_BYTES :: nat where "REAC_SCENE_HEAD_BYTES \<equiv> 24"
abbreviation (input) REAC_SCENE_CHUNK_BYTES :: nat where "REAC_SCENE_CHUNK_BYTES \<equiv> 26"
abbreviation (input) REAC_SCENE_TAIL_BYTES :: nat where "REAC_SCENE_TAIL_BYTES \<equiv> 14"
abbreviation (input) REAC_SCENE_CHUNKS :: int where "REAC_SCENE_CHUNKS \<equiv> 341"
abbreviation (input) REAC_SCENE_STEPS :: int where "REAC_SCENE_STEPS \<equiv> 343"
abbreviation (input) REAC_SCENE_MAC_OFF :: nat where "REAC_SCENE_MAC_OFF \<equiv> 0x340"
abbreviation (input) REAC_SCENE_REVISION_OFF :: nat where "REAC_SCENE_REVISION_OFF \<equiv> 0x014"

abbreviation (input) REAC_LINK_CTRL :: u8 where "REAC_LINK_CTRL \<equiv> 1"
abbreviation (input) REAC_LINK_SECOND :: u8 where "REAC_LINK_SECOND \<equiv> 2"
abbreviation (input) REAC_LINK_RECORD :: u8 where "REAC_LINK_RECORD \<equiv> 4"
abbreviation (input) REAC_SEG_MIDDLE :: u8 where "REAC_SEG_MIDDLE \<equiv> 0"
abbreviation (input) REAC_SEG_FIRST :: u8 where "REAC_SEG_FIRST \<equiv> 1"
abbreviation (input) REAC_SEG_LAST :: u8 where "REAC_SEG_LAST \<equiv> 2"
abbreviation (input) REAC_SEG_SINGLE :: u8 where "REAC_SEG_SINGLE \<equiv> 3"
abbreviation (input) REAC_OP_BULK :: u8 where "REAC_OP_BULK \<equiv> 0x00"

definition TAIL_TRAILER :: bytes where
  "TAIL_TRAILER = [0x00, 0x00, 0x03, 0x00, 0x00, 0x00, 0x01, 0x00, 0x00, 0x00, 0x00, 0x00]"

definition reac_ctrl_build_scene_step :: "bytes option \<Rightarrow> int \<Rightarrow> bytes option" where
  "reac_ctrl_build_scene_step body' step =
     (case body' of None \<Rightarrow> None
      | Some body \<Rightarrow>
        if length body \<noteq> REAC_SCENE_BYTES then None
        else if step < 0 \<or> step \<ge> REAC_SCENE_STEPS then None
        else let z = (replicate 34 0)[0 := 0xcd, 1 := 0xea];
          blk =
            (if step = 0 then
               poke 9 (take REAC_SCENE_HEAD_BYTES body)
                 (z[2 := REAC_LINK_CTRL, 3 := REAC_SEG_FIRST, 6 := REAC_OP_BULK,
                    4 := hi8 (of_nat REAC_SCENE_HEAD_BYTES), 5 := lo8 (of_nat REAC_SCENE_HEAD_BYTES),
                    7 := hi8 (of_nat REAC_SCENE_BYTES), 8 := lo8 (of_nat REAC_SCENE_BYTES)])
             else if step \<le> REAC_SCENE_CHUNKS then
               let off = REAC_SCENE_HEAD_BYTES + nat (step - 1) * REAC_SCENE_CHUNK_BYTES in
               poke 7 (peek off REAC_SCENE_CHUNK_BYTES body)
                 (z[2 := REAC_LINK_CTRL, 3 := REAC_SEG_MIDDLE, 6 := REAC_OP_BULK,
                    4 := hi8 (of_nat REAC_SCENE_CHUNK_BYTES), 5 := lo8 (of_nat REAC_SCENE_CHUNK_BYTES)])
             else
               let off = REAC_SCENE_BYTES - REAC_SCENE_TAIL_BYTES in
               poke (7 + REAC_SCENE_TAIL_BYTES) TAIL_TRAILER
                 (poke 7 (peek off REAC_SCENE_TAIL_BYTES body)
                   (z[2 := REAC_LINK_CTRL, 3 := REAC_SEG_LAST, 6 := REAC_OP_BULK,
                      4 := hi8 (of_nat REAC_SCENE_TAIL_BYTES), 5 := lo8 (of_nat REAC_SCENE_TAIL_BYTES)])))
          in Some (cksum_stamp_at 2 blk))"

definition reac_ctrl_scene_set_mac :: "bytes \<Rightarrow> mac \<Rightarrow> bytes option" where
  "reac_ctrl_scene_set_mac body mac =
     (if length body \<noteq> REAC_SCENE_BYTES then None else Some (poke REAC_SCENE_MAC_OFF mac body))"

definition reac_ctrl_scene_build :: "bytes \<Rightarrow> mac \<Rightarrow> bytes option" where
  "reac_ctrl_scene_build body mac =
     (if length body \<noteq> REAC_SCENE_BYTES then None
      else Some (poke REAC_SCENE_MAC_OFF mac
        (poke 0x37c [0x53, 0x43, 0x45, 0x4e]
          (poke 0x368 [0x53, 0x59, 0x53, 0x50]
            (poke 0x000 [0x31, 0x32, 0x33, 0x34] (replicate REAC_SCENE_BYTES 0))))))"

section \<open>SENS conversions\<close>

abbreviation (input) REAC_HEADAMP_SENS_MAX :: u8 where "REAC_HEADAMP_SENS_MAX \<equiv> 0x37"

definition reac_headamp_sens_cdb :: "u8 \<Rightarrow> bool \<Rightarrow> int" where
  "reac_headamp_sens_cdb v pad_on =
     (let v' = (if v > REAC_HEADAMP_SENS_MAX then REAC_HEADAMP_SENS_MAX else v)
      in - 1000 - uint v' * 100 + (if pad_on then 2000 else 0))"

definition reac_headamp_sens_value_cdb :: "int \<Rightarrow> bool \<Rightarrow> u8" where
  "reac_headamp_sens_value_cdb cdb pad_on =
     (let want = - 1000 + (if pad_on then 2000 else 0) - cdb in
      if want \<le> 0 then 0
      else let step = (want + 100 sdiv 2) sdiv 100;
               step' = (if step > uint REAC_HEADAMP_SENS_MAX then uint REAC_HEADAMP_SENS_MAX else step)
           in word_of_int step')"

definition reac_headamp_sens_db :: "u8 \<Rightarrow> bool \<Rightarrow> int" where
  "reac_headamp_sens_db v pad_on =
     (let c = reac_headamp_sens_cdb v pad_on
      in if c \<ge> 0 then (c + 50) sdiv 100 else - ((- c + 50) sdiv 100))"

definition reac_headamp_sens_value :: "int \<Rightarrow> bool \<Rightarrow> u8" where
  "reac_headamp_sens_value db pad_on = reac_headamp_sens_value_cdb (db * 100) pad_on"

section \<open>What a scene block carries\<close>

text \<open>The payload a receiver takes out of a scene block: the length field says how many bytes,
  and the first block has the 16-bit total before them.\<close>

definition scene_payload :: "bytes \<Rightarrow> bytes" where
  "scene_payload blk =
     peek (if blk ! 3 = REAC_SEG_FIRST then 9 else 7) (unat (u16be (blk ! 4) (blk ! 5))) blk"

lemma cksum_stamp_at_nth:
  assumes "off + 32 \<le> length f" and "i < length f" and "i \<noteq> off + 31"
  shows "cksum_stamp_at off f ! i = f ! i"
  using assms by (auto simp: cksum_stamp_at_def nth_poke block_stamp_nth)

lemma length_cksum_stamp_at [simp]: "off + 32 \<le> length f \<Longrightarrow> length (cksum_stamp_at off f) = length f"
  by (simp add: cksum_stamp_at_def)

lemma peek_cksum_stamp_at:
  assumes "off + 32 \<le> length f" and "o' + n \<le> off + 31"
  shows "peek o' n (cksum_stamp_at off f) = peek o' n f"
  using assms by (auto intro!: peek_cong simp: cksum_stamp_at_nth)

lemma cksum_stamp_at_sum:
  assumes "off + 32 \<le> length f"
  shows "byte_sum (peek off 32 (cksum_stamp_at off f)) AND 0xff = 0"
proof -
  let ?b = "reac_ctrl_block_cksum_stamp (peek off 32 f)"
  have "peek off 32 (cksum_stamp_at off f) = ?b"
    using peek_poke_same [of off ?b f] assms by (simp add: cksum_stamp_at_def)
  then show ?thesis using block_ck.ok_stamp [of "peek off 32 f"] assms by simp
qed

lemma hi8_lo8_small [simp]:
  "hi8 (24 :: u16) = 0" "lo8 (24 :: u16) = 24" "hi8 (26 :: u16) = 0" "lo8 (26 :: u16) = 26"
  "hi8 (14 :: u16) = 0" "lo8 (14 :: u16) = 14"
  by (simp_all add: hi8_def lo8_def)

lemma u16be_small [simp]: "u16be 0 b = ucast b"
  by (simp add: u16be_def)

text \<open>The block before the checksum, by step.\<close>

lemma scene_step_head:
  assumes "length body = 8904"
  shows "\<exists>blk. reac_ctrl_build_scene_step (Some body) 0 = Some blk \<and> length blk = 34
    \<and> byte_sum (peek 2 32 blk) AND 0xff = 0 \<and> scene_payload blk = take 24 body"
proof -
  let ?z = "(replicate 34 0)[0 := 0xcd, 1 := 0xea, 2 := REAC_LINK_CTRL, 3 := REAC_SEG_FIRST,
      6 := REAC_OP_BULK, 4 := 0, 5 := 24, 7 := hi8 8904, 8 := lo8 8904] :: bytes"
  let ?b = "poke 9 (take 24 body) ?z"
  have e: "reac_ctrl_build_scene_step (Some body) 0 = Some (cksum_stamp_at 2 ?b)"
    using assms by (simp add: reac_ctrl_build_scene_step_def)
  have lb: "length ?b = 34" using assms by simp
  have h: "cksum_stamp_at 2 ?b ! 3 = 1" "cksum_stamp_at 2 ?b ! 4 = 0" "cksum_stamp_at 2 ?b ! 5 = 24"
    using assms lb by (simp_all add: cksum_stamp_at_nth nth_poke)
  have "scene_payload (cksum_stamp_at 2 ?b) = peek 9 24 ?b"
    unfolding scene_payload_def using h lb by (simp add: peek_cksum_stamp_at)
  also have "\<dots> = take 24 body" using peek_poke_same [of 9 "take 24 body" ?z] assms by simp
  finally show ?thesis using e lb by (auto simp: cksum_stamp_at_sum)
qed

lemma scene_step_chunk:
  assumes "length body = 8904" and "k < 341"
  shows "\<exists>blk. reac_ctrl_build_scene_step (Some body) (int (Suc k)) = Some blk \<and> length blk = 34
    \<and> byte_sum (peek 2 32 blk) AND 0xff = 0 \<and> scene_payload blk = peek (24 + k * 26) 26 body"
proof -
  let ?z = "(replicate 34 0)[0 := 0xcd, 1 := 0xea, 2 := REAC_LINK_CTRL, 3 := REAC_SEG_MIDDLE,
      6 := REAC_OP_BULK, 4 := 0, 5 := 26] :: bytes"
  let ?p = "peek (24 + k * 26) 26 body"
  let ?b = "poke 7 ?p ?z"
  have lp: "length ?p = 26" using assms by simp
  have e: "reac_ctrl_build_scene_step (Some body) (int (Suc k)) = Some (cksum_stamp_at 2 ?b)"
    using assms by (simp add: reac_ctrl_build_scene_step_def nat_add_distrib)
  have lb: "length ?b = 34" using lp by simp
  have h: "cksum_stamp_at 2 ?b ! 3 = 0" "cksum_stamp_at 2 ?b ! 4 = 0" "cksum_stamp_at 2 ?b ! 5 = 26"
    using lp lb by (simp_all add: cksum_stamp_at_nth nth_poke)
  have "scene_payload (cksum_stamp_at 2 ?b) = peek 7 26 ?b"
    unfolding scene_payload_def using h lb by (simp add: peek_cksum_stamp_at)
  also have "\<dots> = ?p" using peek_poke_same [of 7 ?p ?z] lp by simp
  finally show ?thesis using e lb by (auto simp: cksum_stamp_at_sum)
qed

lemma scene_step_tail:
  assumes "length body = 8904"
  shows "\<exists>blk. reac_ctrl_build_scene_step (Some body) 342 = Some blk \<and> length blk = 34
    \<and> byte_sum (peek 2 32 blk) AND 0xff = 0 \<and> scene_payload blk = drop 8890 body"
proof -
  let ?z = "(replicate 34 0)[0 := 0xcd, 1 := 0xea, 2 := REAC_LINK_CTRL, 3 := REAC_SEG_LAST,
      6 := REAC_OP_BULK, 4 := 0, 5 := 14] :: bytes"
  let ?p = "peek 8890 14 body"
  let ?b = "poke 21 TAIL_TRAILER (poke 7 ?p ?z)"
  have lp: "length ?p = 14" and lt: "length TAIL_TRAILER = 12" using assms by (simp_all add: TAIL_TRAILER_def)
  have e: "reac_ctrl_build_scene_step (Some body) 342 = Some (cksum_stamp_at 2 ?b)"
    using assms by (simp add: reac_ctrl_build_scene_step_def)
  have lb: "length ?b = 34" using lp lt by simp
  have h: "cksum_stamp_at 2 ?b ! 3 = 2" "cksum_stamp_at 2 ?b ! 4 = 0" "cksum_stamp_at 2 ?b ! 5 = 14"
    using lp lb lt by (simp_all add: cksum_stamp_at_nth nth_poke)
  have "scene_payload (cksum_stamp_at 2 ?b) = peek 7 14 ?b"
    unfolding scene_payload_def using h lb by (simp add: peek_cksum_stamp_at)
  also have "\<dots> = peek 7 14 (poke 7 ?p ?z)" using lp lt by (intro peek_poke_other) auto
  also have "\<dots> = ?p" using peek_poke_same [of 7 ?p ?z] lp by simp
  also have "\<dots> = drop 8890 body" using assms by (simp add: peek_def)
  finally show ?thesis using e lb by (auto simp: cksum_stamp_at_sum)
qed

lemma concat_chunks:
  "length xs = n * w \<Longrightarrow> concat (map (\<lambda>k. peek (k * w) w xs) [0..<n]) = xs"
proof (induction n arbitrary: xs)
  case 0
  then show ?case by simp
next
  case (Suc n)
  have "concat (map (\<lambda>k. peek (k * w) w xs) [0..<n]) =
      concat (map (\<lambda>k. peek (k * w) w (take (n * w) xs)) [0..<n])"
  proof (rule arg_cong [of _ _ concat], rule map_cong [OF refl])
    fix k
    assume "k \<in> set [0..<n]"
    then have "k * w + w \<le> n * w" by (metis Suc_leI add.commute atLeastLessThan_iff mult_Suc mult_le_mono1 set_upt)
    then show "peek (k * w) w xs = peek (k * w) w (take (n * w) xs)"
      using Suc.prems by (simp add: peek_def drop_take min_def)
  qed
  also have "\<dots> = take (n * w) xs" using Suc.prems by (intro Suc.IH) simp
  finally show ?case using Suc.prems by (simp add: peek_def)
qed

lemma scene_steps_built:
  assumes "length body = 8904"
  shows "\<forall>step \<in> {0..<343}. \<exists>blk. reac_ctrl_build_scene_step (Some body) step = Some blk
      \<and> length blk = 34 \<and> byte_sum (peek 2 32 blk) AND 0xff = 0"
proof
  fix step :: int
  assume "step \<in> {0..<343}"
  then have "step = 0 \<or> step = int (Suc (nat (step - 1))) \<and> nat (step - 1) < 341 \<or> step = 342"
    by auto
  then consider "step = 0" | "step = int (Suc (nat (step - 1)))" "nat (step - 1) < 341" | "step = 342"
    by blast
  then show "\<exists>blk. reac_ctrl_build_scene_step (Some body) step = Some blk
      \<and> length blk = 34 \<and> byte_sum (peek 2 32 blk) AND 0xff = 0"
  proof cases
    case 1
    then show ?thesis using scene_step_head [OF assms] by blast
  next
    case 2
    then show ?thesis using scene_step_chunk [OF assms 2(2)] unfolding 2(1) [symmetric] by blast
  next
    case 3
    then show ?thesis using scene_step_tail [OF assms] by blast
  qed
qed

lemma scene_payloads:
  assumes "length body = 8904"
  shows "concat (map (\<lambda>k. scene_payload (the (reac_ctrl_build_scene_step (Some body) (int k)))) [0..<343]) = body"
proof -
  let ?pl = "\<lambda>k. scene_payload (the (reac_ctrl_build_scene_step (Some body) (int k)))"
  have idx: "[0..<343] = 0 # map Suc [0..<341] @ [342]"
  proof -
    have "[0..<Suc 342] = [0..<342] @ [342]" by (rule upt_Suc_append) simp
    moreover have "[0..<Suc 341] = 0 # map Suc [0..<341]" by (subst upt_conv_Cons) (simp_all only: map_Suc_upt zero_less_Suc)
    ultimately show ?thesis by (simp del: upt_Suc upt_rec_numeral)
  qed
  have chunks: "map (\<lambda>k. ?pl (Suc k)) [0..<341] = map (\<lambda>k. peek (k * 26) 26 (take 8866 (drop 24 body))) [0..<341]"
  proof (rule map_cong [OF refl])
    fix k
    assume "k \<in> set [0..<341]"
    then have k: "k < 341" by simp
    then have "peek (24 + k * 26) 26 body = peek (k * 26) 26 (take 8866 (drop 24 body))"
      by (simp add: peek_def drop_take min_def add.commute)
    then show "?pl (Suc k) = peek (k * 26) 26 (take 8866 (drop 24 body))"
      using scene_step_chunk [OF assms k] by auto
  qed
  have mid: "concat (map (\<lambda>k. ?pl (Suc k)) [0..<341]) = take 8866 (drop 24 body)"
    unfolding chunks using assms by (intro concat_chunks) simp
  have "?pl 0 = take 24 body" using scene_step_head [OF assms] by auto
  moreover have "?pl 342 = drop 8890 body" using scene_step_tail [OF assms] by auto
  ultimately have "concat (map ?pl [0..<343]) = take 24 body @ take 8866 (drop 24 body) @ drop 8890 body"
    unfolding idx using mid by (simp add: comp_def del: upt_Suc upt_rec_numeral)
  also have "\<dots> = body"
    using append_take_drop_id [of 8866 "drop 24 body"] append_take_drop_id [of 24 body] by simp
  finally show "concat (map ?pl [0..<343]) = body" .
qed

section \<open>Properties\<close>

text \<open>The scene transfer loses nothing. All 343 steps build a 34-byte block whose control
  block checksums to zero, and the payloads of the blocks, in step order, are the scene body.\<close>

theorem scene_transfer_complete:
  assumes "length body = 8904"
  shows "(\<forall>step \<in> {0..<343}. \<exists>blk. reac_ctrl_build_scene_step (Some body) step = Some blk
      \<and> length blk = 34 \<and> byte_sum (peek 2 32 blk) AND 0xff = 0)
    \<and> concat (map (\<lambda>k. scene_payload (the (reac_ctrl_build_scene_step (Some body) (int k)))) [0..<343]) = body"
  using scene_steps_built [OF assms] scene_payloads [OF assms] by blast

theorem scene_transfer_complete_witness:
  "concat (map (\<lambda>k. scene_payload (the (reac_ctrl_build_scene_step
      (Some (replicate 8904 (0xa5 :: u8))) (int k)))) [0..<343]) = replicate 8904 0xa5"
  using scene_transfer_complete [of "replicate 8904 (0xa5 :: u8)"]
  by (simp only: length_replicate simp_thms)

lemma sens_step_range:
  assumes "0 < want"
  defines "s \<equiv> (want + 100 sdiv 2) sdiv (100 :: int)"
  shows "s = (want + 50) div 100" and "0 \<le> s"
  using assms(1) unfolding s_def by (simp_all add: signed_divide_int_def)

definition sens_step :: "int \<Rightarrow> int" where
  "sens_step want = (if want \<le> 0 then 0 else min 55 ((want + 50) div 100))"

lemma sens_value_step:
  "uint (reac_headamp_sens_value_cdb c p) = sens_step (- 1000 + (if p then 2000 else 0) - c)"
proof -
  define want where "want = - 1000 + (if p then 2000 else 0) - c"
  have "reac_headamp_sens_value_cdb c p = word_of_int (sens_step want)"
    unfolding reac_headamp_sens_value_cdb_def want_def [symmetric] sens_step_def Let_def
    using sens_step_range [of want] by simp
  moreover have "0 \<le> sens_step want" "sens_step want \<le> 55" by (auto simp: sens_step_def)
  ultimately show ?thesis by (simp add: want_def uint_word_of_int)
qed

lemma sens_step_nearest:
  assumes "0 \<le> x" and "x \<le> 55"
  shows "\<bar>want - sens_step want * 100\<bar> \<le> \<bar>want - x * 100\<bar>"
proof (cases "want \<le> 0")
  case True
  then show ?thesis using assms by (simp add: sens_step_def)
next
  case False
  define q where "q = (want + 50) div 100"
  have q: "100 * q \<le> want + 50" "want + 50 < 100 * q + 100" unfolding q_def by simp_all
  have s: "sens_step want = min 55 q" using False by (simp add: sens_step_def q_def)
  consider "x < q" | "x = q" | "x > q" by linarith
  then show ?thesis unfolding s using q assms by cases (auto simp: min_def abs_if)
qed

text \<open>The SENS conversions. Every legal register value is recovered from the
  sensitivity it stands for, and the value chosen for any wanted sensitivity is the nearest
  legal one, at either pad setting.\<close>

theorem sens_value_nearest:
  "(v \<le> 0x37 \<longrightarrow> reac_headamp_sens_value_cdb (reac_headamp_sens_cdb v p) p = v)
    \<and> reac_headamp_sens_value_cdb c p \<le> 0x37
    \<and> (\<forall>u \<le> 0x37. \<bar>reac_headamp_sens_cdb (reac_headamp_sens_value_cdb c p) p - c\<bar>
        \<le> \<bar>reac_headamp_sens_cdb u p - c\<bar>)"
proof (intro conjI allI impI)
  let ?off = "- 1000 + (if p then 2000 else 0) :: int"
  have le: "w \<le> 0x37 \<longleftrightarrow> uint w \<le> 55" for w :: u8 by (simp add: word_le_def)
  have cdb: "reac_headamp_sens_cdb w p = ?off - uint w * 100" if "w \<le> 0x37" for w
    using that by (simp add: reac_headamp_sens_cdb_def not_less [symmetric])
  show r: "reac_headamp_sens_value_cdb c p \<le> 0x37"
    unfolding le sens_value_step by (simp add: sens_step_def)
  show "reac_headamp_sens_value_cdb (reac_headamp_sens_cdb v p) p = v" if "v \<le> 0x37"
  proof (rule word_uint_eqI)
    have "0 \<le> uint v" "uint v \<le> 55" using that by (simp_all add: le)
    then show "uint (reac_headamp_sens_value_cdb (reac_headamp_sens_cdb v p) p) = uint v"
      unfolding sens_value_step cdb [OF that] by (auto simp: sens_step_def min_def)
  qed
  show "\<bar>reac_headamp_sens_cdb (reac_headamp_sens_value_cdb c p) p - c\<bar>
      \<le> \<bar>reac_headamp_sens_cdb u p - c\<bar>" if "u \<le> 0x37" for u
  proof -
    have "0 \<le> uint u" "uint u \<le> 55" using that by (simp_all add: le)
    note near = sens_step_nearest [OF this, of "?off - c"]
    have shift: "?off - k * 100 - c = ?off - c - k * 100" for k by simp
    show ?thesis unfolding cdb [OF r] cdb [OF that] sens_value_step shift by (rule near)
  qed
qed

theorem sens_value_nearest_witness:
  "reac_headamp_sens_value_cdb (reac_headamp_sens_cdb 0x37 True) True = 0x37
    \<and> reac_headamp_sens_value_cdb (- 3049) False \<le> 0x37"
  using sens_value_nearest [of "0x37" True] sens_value_nearest [of "0x37" False "- 3049"] by simp

end
