(* ===== verification/Reac_Ctrl_Parse.thy ===== *)
theory Reac_Ctrl_Parse
  imports Reac_Scene
begin

text \<open>
  Reading control blocks: \<^verbatim>\<open>reac_ctrl_parse\<close>, the identity replies and their two-fragment
  form of \<^verbatim>\<open>src/reac_ctrlblk.c\<close>, and the classification of a box's frame into the events of the
  master's state machine of \<^verbatim>\<open>src/reac_ctrl.c\<close>.

  An out-parameter is part of the result; a return code is kept as an integer, with the out
  values beside it as an option that is \<open>None\<close> where the code leaves them unwritten.
\<close>

section \<open>Constants and data\<close>

abbreviation (input) REAC_OP_SLOT_MAP :: u8 where "REAC_OP_SLOT_MAP \<equiv> 0x01"
abbreviation (input) REAC_OP_GROUP_MAP :: u8 where "REAC_OP_GROUP_MAP \<equiv> 0x10"
abbreviation (input) REAC_OP_DECL_ALT :: u8 where "REAC_OP_DECL_ALT \<equiv> 0x80"
abbreviation (input) REAC_OP_BOX_HB :: u8 where "REAC_OP_BOX_HB \<equiv> 0x81"
abbreviation (input) REAC_OP_DECL :: u8 where "REAC_OP_DECL \<equiv> 0x82"
abbreviation (input) REAC_OP_DECL_OTHER :: u8 where "REAC_OP_DECL_OTHER \<equiv> 0x84"
abbreviation (input) REAC_DT1_MODEL_LO :: u8 where "REAC_DT1_MODEL_LO \<equiv> 0x12"
abbreviation (input) REAC_DT1_CMD_DT1 :: u8 where "REAC_DT1_CMD_DT1 \<equiv> 0x12"
abbreviation (input) REAC_DT1_TAG_HEAD_MARK :: u16 where "REAC_DT1_TAG_HEAD_MARK \<equiv> 0x0000"
abbreviation (input) REAC_DT1_TAG_JOIN :: u16 where "REAC_DT1_TAG_JOIN \<equiv> 0x0100"
abbreviation (input) REAC_DT1_TAG_HEADAMP :: u16 where "REAC_DT1_TAG_HEADAMP \<equiv> 0x0101"
abbreviation (input) REAC_DT1_TAG_BOX_READY :: u16 where "REAC_DT1_TAG_BOX_READY \<equiv> 0x0302"
abbreviation (input) REAC_DT1_TAG_IDENTITY :: u16 where "REAC_DT1_TAG_IDENTITY \<equiv> 0x0500"
abbreviation (input) BCAST :: mac where "BCAST \<equiv> [0xff, 0xff, 0xff, 0xff, 0xff, 0xff]"

datatype reac_ctrl_kind =
    REAC_CTRL_NONE | REAC_CTRL_FILLER | REAC_CTRL_SCENE_TRANSFER | REAC_CTRL_MASTER_HB
  | REAC_CTRL_MASTER_ANNOUNCE | REAC_CTRL_GRANT | REAC_CTRL_HEADAMP | REAC_CTRL_BOX_HB
  | REAC_CTRL_SPLIT_ANNOUNCE | REAC_CTRL_CONFIG_ANNOUNCE | REAC_CTRL_GROUP_MAP
  | REAC_CTRL_RECORD_FRAGMENT | REAC_CTRL_LINK2 | REAC_CTRL_UNKNOWN_CTRL

fun reac_ctrl_kind_name :: "reac_ctrl_kind \<Rightarrow> string" where
  "reac_ctrl_kind_name REAC_CTRL_NONE = ''none''"
| "reac_ctrl_kind_name REAC_CTRL_FILLER = ''filler''"
| "reac_ctrl_kind_name REAC_CTRL_SCENE_TRANSFER = ''scene_transfer''"
| "reac_ctrl_kind_name REAC_CTRL_MASTER_HB = ''master_hb''"
| "reac_ctrl_kind_name REAC_CTRL_MASTER_ANNOUNCE = ''master_announce''"
| "reac_ctrl_kind_name REAC_CTRL_GRANT = ''grant''"
| "reac_ctrl_kind_name REAC_CTRL_HEADAMP = ''headamp''"
| "reac_ctrl_kind_name REAC_CTRL_BOX_HB = ''box_hb''"
| "reac_ctrl_kind_name REAC_CTRL_SPLIT_ANNOUNCE = ''split_announce''"
| "reac_ctrl_kind_name REAC_CTRL_CONFIG_ANNOUNCE = ''config_announce''"
| "reac_ctrl_kind_name REAC_CTRL_GROUP_MAP = ''group_map''"
| "reac_ctrl_kind_name REAC_CTRL_RECORD_FRAGMENT = ''record_fragment''"
| "reac_ctrl_kind_name REAC_CTRL_LINK2 = ''link2''"
| "reac_ctrl_kind_name REAC_CTRL_UNKNOWN_CTRL = ''unknown_ctrl''"

record reac_ctrl_parsed =
  pc_kind :: reac_ctrl_kind
  pc_src :: mac
  pc_dst :: mac
  pc_is_broadcast :: bool
  pc_counter :: u16
  pc_link :: u8
  pc_seg :: u8
  pc_blk_len :: u16
  pc_opcode :: u8
  pc_dt1_tag :: u16
  pc_ch :: u8
  pc_param :: u8
  pc_value :: u8

definition parsed_zero :: reac_ctrl_parsed where
  "parsed_zero = \<lparr> pc_kind = REAC_CTRL_NONE, pc_src = replicate 6 0, pc_dst = replicate 6 0,
     pc_is_broadcast = False, pc_counter = 0, pc_link = 0, pc_seg = 0, pc_blk_len = 0,
     pc_opcode = 0, pc_dt1_tag = 0, pc_ch = 0, pc_param = 0, pc_value = 0 \<rparr>"

section \<open>Parsing\<close>

definition kind_of_link1 :: "u8 \<Rightarrow> reac_ctrl_kind" where
  "kind_of_link1 opcode =
     (if opcode = REAC_OP_BULK then REAC_CTRL_SCENE_TRANSFER
      else if opcode = REAC_OP_SLOT_MAP then REAC_CTRL_MASTER_HB
      else if opcode = REAC_OP_GROUP_MAP then REAC_CTRL_GROUP_MAP
      else if opcode = REAC_OP_BOX_HB then REAC_CTRL_BOX_HB
      else if opcode = REAC_OP_DECL \<or> opcode = REAC_OP_DECL_ALT \<or> opcode = REAC_OP_DECL_OTHER
        then REAC_CTRL_CONFIG_ANNOUNCE
      else REAC_CTRL_UNKNOWN_CTRL)"

text \<open>The header fields, filled before the type is looked at.\<close>

definition parse_hdr :: "bytes \<Rightarrow> reac_ctrl_parsed" where
  "parse_hdr frame =
     (let block = drop REAC_CTRL_BLOCK_OFF frame in
      parsed_zero \<lparr> pc_dst := peek 0 6 frame, pc_src := peek 6 6 frame,
        pc_is_broadcast := (peek 0 6 frame = BCAST),
        pc_counter := u16le (frame ! 14) (frame ! 15),
        pc_link := block ! 0, pc_seg := block ! 1,
        pc_blk_len := u16be (block ! 2) (block ! 3), pc_opcode := block ! 4 \<rparr>)"

definition reac_ctrl_parse :: "bytes \<Rightarrow> reac_ctrl_parsed" where
  "reac_ctrl_parse frame =
     (if length frame < 50 \<or> frame ! 12 \<noteq> 0x88 \<or> frame ! 13 \<noteq> 0x19 then parsed_zero
      else let block = drop REAC_CTRL_BLOCK_OFF frame;
        out = parse_hdr frame;
        t0 = frame ! 16; t1 = frame ! 17
        in if t0 = 0x00 \<and> t1 = 0x00 then out \<lparr> pc_kind := REAC_CTRL_FILLER \<rparr>
           else if t0 = 0xcf \<and> t1 = 0xea then out \<lparr> pc_kind := REAC_CTRL_MASTER_ANNOUNCE \<rparr>
           else if t0 = 0xce \<and> t1 = 0xea then out \<lparr> pc_kind := REAC_CTRL_SPLIT_ANNOUNCE \<rparr>
           else if t0 \<noteq> 0xcd \<or> t1 \<noteq> 0xea then out \<lparr> pc_kind := REAC_CTRL_UNKNOWN_CTRL \<rparr>
           else if pc_link out = REAC_LINK_CTRL then out \<lparr> pc_kind := kind_of_link1 (pc_opcode out) \<rparr>
           else if pc_link out = REAC_LINK_SECOND then out \<lparr> pc_kind := REAC_CTRL_LINK2 \<rparr>
           else if pc_link out = REAC_LINK_RECORD then
             (if pc_seg out \<noteq> REAC_SEG_SINGLE then out \<lparr> pc_kind := REAC_CTRL_RECORD_FRAGMENT \<rparr>
              else let out' = out \<lparr> pc_dt1_tag := u16be (block ! 16) (block ! 17) \<rparr>
                in if block ! 14 = REAC_DT1_MODEL_LO \<and> block ! 15 = REAC_DT1_CMD_DT1
                      \<and> pc_dt1_tag out' = REAC_DT1_TAG_HEADAMP
                   then out' \<lparr> pc_kind := REAC_CTRL_HEADAMP, pc_ch := block ! 18,
                               pc_param := block ! 19, pc_value := block ! 20 \<rparr>
                   else out' \<lparr> pc_kind := REAC_CTRL_GRANT \<rparr>)
           else out \<lparr> pc_kind := REAC_CTRL_UNKNOWN_CTRL \<rparr>)"

definition reac_ctrl_identity_reply :: "bytes option \<Rightarrow> int \<times> (u16 \<times> bytes) option" where
  "reac_ctrl_identity_reply frame' =
     (case frame' of None \<Rightarrow> (- 1, None)
      | Some frame \<Rightarrow>
        let p = reac_ctrl_parse frame; block = drop REAC_CTRL_BLOCK_OFF frame in
        if pc_kind p \<noteq> REAC_CTRL_GRANT then (0, None)
        else if pc_dt1_tag p \<noteq> REAC_DT1_TAG_IDENTITY then (0, None)
        else if block ! 14 \<noteq> REAC_DT1_MODEL_LO \<or> block ! 15 \<noteq> REAC_DT1_CMD_DT1 then (0, None)
        else let sysex_len = unat (block ! 8) in
          if sysex_len < 14 \<or> 9 + sysex_len > REAC_CTRL_BLOCK_LEN then (0, None)
          else if block ! 9 \<noteq> 0xf0 \<or> block ! (9 + sysex_len - 1) \<noteq> 0xf7 then (0, None)
          else if reac_ctrl_checksum_verify frame \<noteq> 0 then (0, None)
          else if reac_ctrl_record_cksum_verify (drop 16 block) (sysex_len - 8) \<noteq> 0 then (0, None)
          else (1, Some (u16be (block ! 18) (block ! 19), peek 20 (sysex_len - 13) block)))"

section \<open>Identity records in two fragments\<close>

record reac_identity_frag =
  if_src :: mac
  if_have_first :: bool
  if_len :: u8
  if_buf :: bytes

text \<open>The checks on a reassembled record, and what it says when they pass.\<close>

definition identity_record_out :: "bytes \<Rightarrow> nat \<Rightarrow> (u16 \<times> bytes) option" where
  "identity_record_out r tot =
     (if tot < 14 \<or> r ! 0 \<noteq> 0xf0 \<or> r ! 1 \<noteq> 0x41 \<or> r ! 3 \<noteq> 0x00 \<or> r ! 4 \<noteq> 0x00
         \<or> r ! 5 \<noteq> REAC_DT1_MODEL_LO \<or> r ! 6 \<noteq> REAC_DT1_CMD_DT1
         \<or> r ! 7 \<noteq> 0x05 \<or> r ! 8 \<noteq> 0x00 \<or> r ! (tot - 1) \<noteq> 0xf7 then None
      else if reac_ctrl_record_cksum_verify (drop 7 r) (tot - 8) \<noteq> 0 then None
      else Some (u16be (r ! 9) (r ! 10), peek 11 (tot - 13) r))"

definition reac_ctrl_identity_fragment ::
  "reac_identity_frag \<Rightarrow> bytes \<Rightarrow> reac_identity_frag \<times> int \<times> (u16 \<times> bytes) option" where
  "reac_ctrl_identity_fragment f frame =
     (if length frame < REAC_CTRL_BLOCK_OFF + REAC_CTRL_BLOCK_LEN then (f, 0, None)
      else let blk = drop REAC_CTRL_BLOCK_OFF frame in
      if frame ! 16 \<noteq> 0xcd \<or> frame ! 17 \<noteq> 0xea \<or> blk ! 0 \<noteq> 0x04
         \<or> (blk ! 1 \<noteq> 0x01 \<and> blk ! 1 \<noteq> 0x02) then (f, 0, None)
      else if blk ! 4 \<noteq> 0x00 \<or> blk ! 5 \<noteq> 0x02 \<or> blk ! 6 \<noteq> 0x00 \<or> blk ! 7 \<noteq> 0xfe then (f, 0, None)
      else let n = unat (blk ! 8) in
      if n = 0 \<or> 9 + n > REAC_CTRL_BLOCK_LEN - 1 then (f, 0, None)
      else if reac_ctrl_checksum_verify frame \<noteq> 0 then (f, 0, None)
      else if blk ! 1 = 0x01 then
        (f \<lparr> if_src := peek 6 6 frame, if_buf := poke 0 (peek 9 n blk) (if_buf f),
             if_len := of_nat n, if_have_first := True \<rparr>, 0, None)
      else if \<not> if_have_first f \<or> if_src f \<noteq> peek 6 6 frame \<or> unat (if_len f) + n > 64 then
        (f \<lparr> if_have_first := False \<rparr>, 0, None)
      else let r = poke (unat (if_len f)) (peek 9 n blk) (if_buf f);
               out = identity_record_out r (unat (if_len f) + n)
        in (f \<lparr> if_buf := r, if_have_first := False \<rparr>, if out = None then 0 else 1, out))"

section \<open>Classification of a box's frame\<close>

datatype reac_master_rx_event =
    REAC_M_RX_BOX_BCAST_FILLER | REAC_M_RX_BOX_JOIN | REAC_M_RX_BOX_UNICAST
  | REAC_M_RX_BOX_HEARTBEAT | REAC_M_RX_BOX_BYE | REAC_M_RX_BOX_CONFIG

definition reac_ctrl_classify_box_frame ::
  "bytes \<Rightarrow> mac \<Rightarrow> reac_ctrl_parsed \<times> reac_master_rx_event option" where
  "reac_ctrl_classify_box_frame frame our_mac =
     (let out = reac_ctrl_parse frame;
          to_us = (pc_dst out = our_mac) in
      (out,
       if pc_kind out = REAC_CTRL_NONE then None
       else if pc_src out ! 0 \<noteq> 0x00 \<or> pc_src out ! 1 \<noteq> 0x40 \<or> pc_src out ! 2 \<noteq> 0xab then None
       else if pc_src out = our_mac then None
       else if pc_kind out \<noteq> REAC_CTRL_FILLER \<and> reac_ctrl_checksum_verify frame \<noteq> 0 then None
       else if pc_kind out = REAC_CTRL_GRANT then
         (if pc_opcode out = 0x00 \<and> (pc_dt1_tag out = REAC_DT1_TAG_JOIN
             \<or> pc_dt1_tag out = REAC_DT1_TAG_BOX_READY)
          then Some REAC_M_RX_BOX_JOIN else None)
       else if pc_is_broadcast out then
         (if pc_kind out = REAC_CTRL_FILLER then Some REAC_M_RX_BOX_BCAST_FILLER else None)
       else if \<not> to_us then None
       else if pc_kind out = REAC_CTRL_BOX_HB then Some REAC_M_RX_BOX_HEARTBEAT
       else if pc_kind out = REAC_CTRL_SCENE_TRANSFER \<and> pc_seg out = REAC_SEG_SINGLE
         then Some REAC_M_RX_BOX_BYE
       else if pc_kind out = REAC_CTRL_CONFIG_ANNOUNCE then Some REAC_M_RX_BOX_CONFIG
       else Some REAC_M_RX_BOX_UNICAST))"

text \<open>The pin is a C string whose token ends at the first colon.\<close>

definition reac_box_pin_notice :: "string option \<Rightarrow> string option \<Rightarrow> string option \<times> bool" where
  "reac_box_pin_notice pin recognized_token =
     (case (pin, recognized_token) of
        (Some p, Some t) \<Rightarrow>
          (let toklen = length (takeWhile (\<lambda>c. c \<noteq> CHR '':'') p)
           in (None, length t \<noteq> toklen \<or> take toklen p \<noteq> take toklen t))
      | _ \<Rightarrow> (pin, False))"

section \<open>Lemmas on parsing\<close>

lemma parse_hdr_fields [simp]:
  assumes "50 \<le> length f"
  shows "pc_dst (parse_hdr f) = peek 0 6 f" "pc_src (parse_hdr f) = peek 6 6 f"
    "pc_is_broadcast (parse_hdr f) \<longleftrightarrow> peek 0 6 f = BCAST"
    "pc_counter (parse_hdr f) = u16le (f ! 14) (f ! 15)"
    "pc_link (parse_hdr f) = f ! 18" "pc_seg (parse_hdr f) = f ! 19"
    "pc_blk_len (parse_hdr f) = u16be (f ! 20) (f ! 21)" "pc_opcode (parse_hdr f) = f ! 22"
  using assms by (simp_all add: parse_hdr_def)

lemma pc_kind_none_iff:
  "pc_kind (reac_ctrl_parse f) = REAC_CTRL_NONE \<longleftrightarrow> length f < 50 \<or> f ! 12 \<noteq> 0x88 \<or> f ! 13 \<noteq> 0x19"
  by (simp add: reac_ctrl_parse_def parsed_zero_def Let_def kind_of_link1_def)

text \<open>A parse sees the header and the block and nothing of the audio behind them.\<close>

lemma parse_hdr_cong:
  assumes "\<And>i. i < 50 \<Longrightarrow> f ! i = g ! i" and "50 \<le> length f" and "50 \<le> length g"
  shows "parse_hdr f = parse_hdr g"
proof -
  have "peek 0 6 f = peek 0 6 g" "peek 6 6 f = peek 6 6 g"
    using assms by (auto intro!: peek_eqI)
  then show ?thesis using assms by (simp add: parse_hdr_def)
qed

lemma reac_ctrl_parse_cong:
  assumes "take 50 f = take 50 g" and "50 \<le> length f" and "50 \<le> length g"
  shows "reac_ctrl_parse f = reac_ctrl_parse g"
proof -
  have n: "f ! i = g ! i" if "i < 50" for i
    using that assms(1) by (metis nth_take)
  then have d: "drop 18 f ! i = drop 18 g ! i" if "i < 32" for i
    using that assms by simp
  have l: "(length f < 50) = (length g < 50)" using assms by simp
  have h: "parse_hdr f = parse_hdr g" using n assms(2,3) by (intro parse_hdr_cong)
  show ?thesis
    unfolding reac_ctrl_parse_def Let_def l h
    by (simp only: n d numeral_less_iff rel_simps semiring_norm)
qed

text \<open>The events a unicast, a broadcast and a record frame can give.\<close>

lemma classify_gate:
  assumes "reac_ctrl_classify_box_frame f our = (out, Some ev)"
  shows "out = reac_ctrl_parse f" and "pc_kind out \<noteq> REAC_CTRL_NONE"
    and "take 3 (pc_src out) = [0x00, 0x40, 0xab]" and "pc_src out \<noteq> our"
    and "pc_kind out \<noteq> REAC_CTRL_FILLER \<Longrightarrow> reac_ctrl_checksum_verify f = 0"
    and "pc_kind out \<noteq> REAC_CTRL_GRANT \<Longrightarrow> pc_dst out = our \<or> pc_is_broadcast out"
proof -
  show o: "out = reac_ctrl_parse f" and k: "pc_kind out \<noteq> REAC_CTRL_NONE"
    and "pc_src out \<noteq> our"
    and "pc_kind out \<noteq> REAC_CTRL_FILLER \<Longrightarrow> reac_ctrl_checksum_verify f = 0"
    and "pc_kind out \<noteq> REAC_CTRL_GRANT \<Longrightarrow> pc_dst out = our \<or> pc_is_broadcast out"
    using assms by (auto simp: reac_ctrl_classify_box_frame_def Let_def split: if_splits)
  have l: "length (pc_src out) = 6"
    using k by (auto simp: o pc_kind_none_iff) (auto simp: reac_ctrl_parse_def parsed_zero_def Let_def)
  have "pc_src out ! 0 = 0x00" "pc_src out ! 1 = 0x40" "pc_src out ! 2 = 0xab"
    using assms by (auto simp: reac_ctrl_classify_box_frame_def Let_def split: if_splits)
  then show "take 3 (pc_src out) = [0x00, 0x40, 0xab]"
    using l by (auto intro!: nth_equalityI simp: less_Suc_eq numeral_3_eq_3 numeral_2_eq_2)
qed

end
