(* ===== verification/Reac_Master_Fsm.thy ===== *)
theory Reac_Master_Fsm
  imports Reac_Ctrl_Parse
begin

text \<open>
  The master's transition table, \<^verbatim>\<open>src/reac_master_fsm.c\<close>: the events derived from a box's
  frame and the 4 by 12 table of edges. The out-of-range guard of \<^verbatim>\<open>reac_master_fsm_step\<close> has no
  case here: the two datatypes have no other values.
\<close>

datatype reac_master_state = REAC_M_IDLE | REAC_M_PROBING | REAC_M_GRANTING | REAC_M_ESTABLISHED

datatype reac_master_drop_reason = REAC_M_DROP_NONE | REAC_M_DROP_PEER_GONE | REAC_M_DROP_BYE
  | REAC_M_DROP_MAC_CHANGE | REAC_M_DROP_GRANT_TIMEOUT | REAC_M_DROP_BOX_UNKNOWN

datatype reac_master_ev = REAC_M_EV_START | REAC_M_EV_PRESENCE | REAC_M_EV_JOIN_NEW | REAC_M_EV_JOIN_SAME
  | REAC_M_EV_CONFIG | REAC_M_EV_CONFIG_EARLY | REAC_M_EV_ACCEPT | REAC_M_EV_ACCEPT_EARLY | REAC_M_EV_BYE
  | REAC_M_EV_GRANT_DELIVERED | REAC_M_EV_LINK_LOST | REAC_M_EV_BOX_UNKNOWN

record reac_master_edge =
  me_next :: reac_master_state
  me_enter :: bool
  me_drop :: reac_master_drop_reason
  me_transitioned :: bool

fun reac_master_fsm_classify :: "reac_master_rx_event \<Rightarrow> bool \<Rightarrow> bool \<Rightarrow> bool \<Rightarrow> reac_master_ev" where
  "reac_master_fsm_classify REAC_M_RX_BOX_BCAST_FILLER have_blk same_box grant_delivered = REAC_M_EV_PRESENCE"
| "reac_master_fsm_classify REAC_M_RX_BOX_JOIN have_blk same_box grant_delivered =
     (if \<not> have_blk then REAC_M_EV_PRESENCE
      else if same_box then REAC_M_EV_JOIN_SAME else REAC_M_EV_JOIN_NEW)"
| "reac_master_fsm_classify REAC_M_RX_BOX_CONFIG have_blk same_box grant_delivered =
     (if grant_delivered then REAC_M_EV_CONFIG else REAC_M_EV_CONFIG_EARLY)"
| "reac_master_fsm_classify REAC_M_RX_BOX_UNICAST have_blk same_box grant_delivered =
     (if grant_delivered then REAC_M_EV_ACCEPT else REAC_M_EV_ACCEPT_EARLY)"
| "reac_master_fsm_classify REAC_M_RX_BOX_HEARTBEAT have_blk same_box grant_delivered =
     (if grant_delivered then REAC_M_EV_ACCEPT else REAC_M_EV_ACCEPT_EARLY)"
| "reac_master_fsm_classify REAC_M_RX_BOX_BYE have_blk same_box grant_delivered = REAC_M_EV_BYE"

definition HOLD :: "reac_master_state \<Rightarrow> reac_master_edge" where
  "HOLD s = \<lparr> me_next = s, me_enter = False, me_drop = REAC_M_DROP_NONE, me_transitioned = False \<rparr>"

definition GO :: "reac_master_state \<Rightarrow> reac_master_drop_reason \<Rightarrow> bool \<Rightarrow> reac_master_edge" where
  "GO n d r = \<lparr> me_next = n, me_enter = True, me_drop = d, me_transitioned = r \<rparr>"

fun EDGE_idle :: "reac_master_ev \<Rightarrow> reac_master_edge" where
  "EDGE_idle REAC_M_EV_START = GO REAC_M_PROBING REAC_M_DROP_NONE False"
| "EDGE_idle REAC_M_EV_PRESENCE = HOLD REAC_M_IDLE"
| "EDGE_idle REAC_M_EV_JOIN_NEW = HOLD REAC_M_IDLE"
| "EDGE_idle REAC_M_EV_JOIN_SAME = HOLD REAC_M_IDLE"
| "EDGE_idle REAC_M_EV_CONFIG = HOLD REAC_M_IDLE"
| "EDGE_idle REAC_M_EV_CONFIG_EARLY = HOLD REAC_M_IDLE"
| "EDGE_idle REAC_M_EV_ACCEPT = HOLD REAC_M_IDLE"
| "EDGE_idle REAC_M_EV_ACCEPT_EARLY = HOLD REAC_M_IDLE"
| "EDGE_idle REAC_M_EV_BYE = HOLD REAC_M_IDLE"
| "EDGE_idle REAC_M_EV_GRANT_DELIVERED = HOLD REAC_M_IDLE"
| "EDGE_idle REAC_M_EV_LINK_LOST = HOLD REAC_M_IDLE"
| "EDGE_idle REAC_M_EV_BOX_UNKNOWN = HOLD REAC_M_IDLE"

fun EDGE_probing :: "reac_master_ev \<Rightarrow> reac_master_edge" where
  "EDGE_probing REAC_M_EV_START = HOLD REAC_M_PROBING"
| "EDGE_probing REAC_M_EV_PRESENCE = HOLD REAC_M_PROBING"
| "EDGE_probing REAC_M_EV_JOIN_NEW = GO REAC_M_GRANTING REAC_M_DROP_NONE True"
| "EDGE_probing REAC_M_EV_JOIN_SAME = GO REAC_M_GRANTING REAC_M_DROP_NONE True"
| "EDGE_probing REAC_M_EV_CONFIG = GO REAC_M_GRANTING REAC_M_DROP_NONE True"
| "EDGE_probing REAC_M_EV_CONFIG_EARLY = GO REAC_M_GRANTING REAC_M_DROP_NONE True"
| "EDGE_probing REAC_M_EV_ACCEPT = HOLD REAC_M_PROBING"
| "EDGE_probing REAC_M_EV_ACCEPT_EARLY = HOLD REAC_M_PROBING"
| "EDGE_probing REAC_M_EV_BYE = HOLD REAC_M_PROBING"
| "EDGE_probing REAC_M_EV_GRANT_DELIVERED = HOLD REAC_M_PROBING"
| "EDGE_probing REAC_M_EV_LINK_LOST = HOLD REAC_M_PROBING"
| "EDGE_probing REAC_M_EV_BOX_UNKNOWN = HOLD REAC_M_PROBING"

fun EDGE_granting :: "reac_master_ev \<Rightarrow> reac_master_edge" where
  "EDGE_granting REAC_M_EV_START = HOLD REAC_M_GRANTING"
| "EDGE_granting REAC_M_EV_PRESENCE = HOLD REAC_M_GRANTING"
| "EDGE_granting REAC_M_EV_JOIN_NEW = GO REAC_M_GRANTING REAC_M_DROP_NONE True"
| "EDGE_granting REAC_M_EV_JOIN_SAME = HOLD REAC_M_GRANTING"
| "EDGE_granting REAC_M_EV_CONFIG = GO REAC_M_ESTABLISHED REAC_M_DROP_NONE True"
| "EDGE_granting REAC_M_EV_CONFIG_EARLY = HOLD REAC_M_GRANTING"
| "EDGE_granting REAC_M_EV_ACCEPT = GO REAC_M_ESTABLISHED REAC_M_DROP_NONE True"
| "EDGE_granting REAC_M_EV_ACCEPT_EARLY = HOLD REAC_M_GRANTING"
| "EDGE_granting REAC_M_EV_BYE = GO REAC_M_PROBING REAC_M_DROP_BYE True"
| "EDGE_granting REAC_M_EV_GRANT_DELIVERED = GO REAC_M_ESTABLISHED REAC_M_DROP_NONE True"
| "EDGE_granting REAC_M_EV_LINK_LOST = HOLD REAC_M_GRANTING"
| "EDGE_granting REAC_M_EV_BOX_UNKNOWN = GO REAC_M_PROBING REAC_M_DROP_BOX_UNKNOWN True"

fun EDGE_established :: "reac_master_ev \<Rightarrow> reac_master_edge" where
  "EDGE_established REAC_M_EV_START = HOLD REAC_M_ESTABLISHED"
| "EDGE_established REAC_M_EV_PRESENCE = HOLD REAC_M_ESTABLISHED"
| "EDGE_established REAC_M_EV_JOIN_NEW = GO REAC_M_GRANTING REAC_M_DROP_MAC_CHANGE True"
| "EDGE_established REAC_M_EV_JOIN_SAME = HOLD REAC_M_ESTABLISHED"
| "EDGE_established REAC_M_EV_CONFIG = HOLD REAC_M_ESTABLISHED"
| "EDGE_established REAC_M_EV_CONFIG_EARLY = HOLD REAC_M_ESTABLISHED"
| "EDGE_established REAC_M_EV_ACCEPT = HOLD REAC_M_ESTABLISHED"
| "EDGE_established REAC_M_EV_ACCEPT_EARLY = HOLD REAC_M_ESTABLISHED"
| "EDGE_established REAC_M_EV_BYE = GO REAC_M_PROBING REAC_M_DROP_BYE True"
| "EDGE_established REAC_M_EV_GRANT_DELIVERED = HOLD REAC_M_ESTABLISHED"
| "EDGE_established REAC_M_EV_LINK_LOST = GO REAC_M_PROBING REAC_M_DROP_PEER_GONE True"
| "EDGE_established REAC_M_EV_BOX_UNKNOWN = HOLD REAC_M_ESTABLISHED"

fun reac_master_fsm_step :: "reac_master_state \<Rightarrow> reac_master_ev \<Rightarrow> reac_master_edge" where
  "reac_master_fsm_step REAC_M_IDLE ev = EDGE_idle ev"
| "reac_master_fsm_step REAC_M_PROBING ev = EDGE_probing ev"
| "reac_master_fsm_step REAC_M_GRANTING ev = EDGE_granting ev"
| "reac_master_fsm_step REAC_M_ESTABLISHED ev = EDGE_established ev"

lemmas edge_defs = HOLD_def GO_def

section \<open>Properties\<close>

text \<open>C35: what a frame may do to the master. An edge that does not enter a state leaves the state
  alone and reports nothing; the established state is entered only from granting, and by a frame
  only when the grant has been delivered in full; a presence frame never moves a started master;
  and a same-box join never restarts a grant in progress or tears an established link down.\<close>

theorem master_edges_guarded:
  "(\<not> me_enter (reac_master_fsm_step s ev) \<longrightarrow> me_next (reac_master_fsm_step s ev) = s
      \<and> \<not> me_transitioned (reac_master_fsm_step s ev) \<and> me_drop (reac_master_fsm_step s ev) = REAC_M_DROP_NONE)
   \<and> (me_enter (reac_master_fsm_step s ev) \<and> me_next (reac_master_fsm_step s ev) = REAC_M_ESTABLISHED \<longrightarrow> s = REAC_M_GRANTING)
   \<and> (me_enter (reac_master_fsm_step s (reac_master_fsm_classify rx have_blk same_box delivered))
        \<and> me_next (reac_master_fsm_step s (reac_master_fsm_classify rx have_blk same_box delivered)) = REAC_M_ESTABLISHED
        \<longrightarrow> delivered)
   \<and> \<not> me_enter (reac_master_fsm_step s (reac_master_fsm_classify REAC_M_RX_BOX_BCAST_FILLER have_blk same_box delivered))
   \<and> (s \<in> {REAC_M_GRANTING, REAC_M_ESTABLISHED} \<longrightarrow>
        \<not> me_enter (reac_master_fsm_step s (reac_master_fsm_classify REAC_M_RX_BOX_JOIN have_blk True delivered)))"
proof (intro conjI)
  show "\<not> me_enter (reac_master_fsm_step s ev) \<longrightarrow> me_next (reac_master_fsm_step s ev) = s
      \<and> \<not> me_transitioned (reac_master_fsm_step s ev) \<and> me_drop (reac_master_fsm_step s ev) = REAC_M_DROP_NONE"
    and "me_enter (reac_master_fsm_step s ev) \<and> me_next (reac_master_fsm_step s ev) = REAC_M_ESTABLISHED \<longrightarrow> s = REAC_M_GRANTING"
    by (cases s; cases ev; simp add: edge_defs)+
  show "me_enter (reac_master_fsm_step s (reac_master_fsm_classify rx have_blk same_box delivered))
        \<and> me_next (reac_master_fsm_step s (reac_master_fsm_classify rx have_blk same_box delivered)) = REAC_M_ESTABLISHED
        \<longrightarrow> delivered"
    by (cases s; cases rx; simp add: edge_defs)
  show "\<not> me_enter (reac_master_fsm_step s (reac_master_fsm_classify REAC_M_RX_BOX_BCAST_FILLER have_blk same_box delivered))"
    by (cases s; simp add: edge_defs)
  show "s \<in> {REAC_M_GRANTING, REAC_M_ESTABLISHED} \<longrightarrow>
        \<not> me_enter (reac_master_fsm_step s (reac_master_fsm_classify REAC_M_RX_BOX_JOIN have_blk True delivered))"
    by (cases s; simp add: edge_defs)
qed

theorem master_edges_guarded_witness:
  "\<not> me_enter (reac_master_fsm_step REAC_M_GRANTING (reac_master_fsm_classify REAC_M_RX_BOX_JOIN True True False))
   \<and> \<not> me_transitioned (reac_master_fsm_step REAC_M_GRANTING REAC_M_EV_CONFIG_EARLY)"
  using master_edges_guarded [of REAC_M_GRANTING REAC_M_EV_CONFIG_EARLY REAC_M_RX_BOX_JOIN True True False]
  by (simp add: edge_defs)

end
