(* ===== verification/Reac_Ports.thy ===== *)
theory Reac_Ports
  imports Reac_Ctrl_Parse
begin

text \<open>
  The port table of a configuration block, \<^verbatim>\<open>src/reac_ports.c\<close>: twelve slots of four channels
  each, counted by direction, and the codes that are not understood.
\<close>

abbreviation (input) REAC_PORTS_TABLE_OFF :: nat where "REAC_PORTS_TABLE_OFF \<equiv> 8"
abbreviation (input) REAC_PORTS_TABLE_SLOTS :: nat where "REAC_PORTS_TABLE_SLOTS \<equiv> 12"
abbreviation (input) REAC_PORTS_CH_PER_SLOT :: int where "REAC_PORTS_CH_PER_SLOT \<equiv> 4"
abbreviation (input) REAC_PORT_SLOT_OUT :: u8 where "REAC_PORT_SLOT_OUT \<equiv> 1"
abbreviation (input) REAC_PORT_SLOT_IN :: u8 where "REAC_PORT_SLOT_IN \<equiv> 2"
abbreviation (input) REAC_PORT_SLOT_EMPTY :: u8 where "REAC_PORT_SLOT_EMPTY \<equiv> 3"
abbreviation (input) REAC_PORT_SLOT_IN_SPLIT :: u8 where "REAC_PORT_SLOT_IN_SPLIT \<equiv> 0"
abbreviation (input) REAC_HEADAMP_BASE_OFF :: nat where "REAC_HEADAMP_BASE_OFF \<equiv> 7"

record reac_box_ports =
  bp_in_ch :: int
  bp_out_ch :: int
  bp_headamp_base :: int

text \<open>The guard both functions open with.\<close>

definition ports_block_ok :: "bytes \<Rightarrow> bool" where
  "ports_block_ok block \<longleftrightarrow>
     block ! 0 = REAC_LINK_CTRL \<and> block ! 1 = REAC_SEG_SINGLE \<and>
     (block ! 4 = REAC_OP_DECL \<or> block ! 4 = REAC_OP_DECL_ALT \<or> block ! 4 = REAC_OP_DECL_OTHER)"

text \<open>One turn of the counting loop, on the pair of slot counters.\<close>

definition ports_count :: "int \<times> int \<Rightarrow> u8 \<Rightarrow> int \<times> int" where
  "ports_count c code =
     (if code = REAC_PORT_SLOT_IN \<or> code = REAC_PORT_SLOT_IN_SPLIT then (fst c + 1, snd c)
      else if code = REAC_PORT_SLOT_OUT then (fst c, snd c + 1)
      else c)"

definition reac_ports_parse :: "bytes option \<Rightarrow> reac_box_ports option" where
  "reac_ports_parse block' =
     (case block' of None \<Rightarrow> None
      | Some block \<Rightarrow>
        if \<not> ports_block_ok block then None
        else let (in_slots, out_slots) =
               foldl ports_count (0, 0) (peek REAC_PORTS_TABLE_OFF REAC_PORTS_TABLE_SLOTS block)
          in Some \<lparr> bp_in_ch = in_slots * REAC_PORTS_CH_PER_SLOT,
                    bp_out_ch = out_slots * REAC_PORTS_CH_PER_SLOT,
                    bp_headamp_base = uint (block ! REAC_HEADAMP_BASE_OFF) * 0x10 \<rparr>)"

definition port_code_known :: "u8 \<Rightarrow> bool" where
  "port_code_known code \<longleftrightarrow> code = REAC_PORT_SLOT_IN \<or> code = REAC_PORT_SLOT_IN_SPLIT
     \<or> code = REAC_PORT_SLOT_OUT \<or> code = REAC_PORT_SLOT_EMPTY"

text \<open>Returns the count (or -1) and the first unknown code (0 when there is none).\<close>

definition reac_ports_unknown :: "bytes option \<Rightarrow> int \<times> u8" where
  "reac_ports_unknown block' =
     (case block' of None \<Rightarrow> (- 1, 0)
      | Some block \<Rightarrow>
        if \<not> ports_block_ok block then (- 1, 0)
        else let (unknown, first) =
               foldl (\<lambda>(u, f) code. if port_code_known code then (u, f)
                        else (u + 1, if u = 0 then code else f)) (0 :: int, 0 :: u8)
                 (peek REAC_PORTS_TABLE_OFF REAC_PORTS_TABLE_SLOTS block)
          in (unknown * REAC_PORTS_CH_PER_SLOT, first))"

section \<open>Counting\<close>

definition in_code :: "u8 \<Rightarrow> bool" where
  "in_code c \<longleftrightarrow> c = REAC_PORT_SLOT_IN \<or> c = REAC_PORT_SLOT_IN_SPLIT"

lemma foldl_ports_count:
  "foldl ports_count (a, b) cs =
     (a + int (length (filter in_code cs)), b + int (length (filter (\<lambda>c. c = 1) cs)))"
  by (induction cs arbitrary: a b) (auto simp: ports_count_def in_code_def)

lemma foldl_unknown:
  fixes cs :: bytes and u :: int
  shows "0 \<le> u \<Longrightarrow>
    foldl (\<lambda>(u, f) code. if port_code_known code then (u, f) else (u + 1, if u = 0 then code else f))
      (u, f) cs =
    (u + int (length (filter (\<lambda>c. \<not> port_code_known c) cs)),
     if u = 0 then (case filter (\<lambda>c. \<not> port_code_known c) cs of [] \<Rightarrow> f | c # _ \<Rightarrow> c) else f)"
  by (induction cs arbitrary: u f) (auto split: list.splits)

lemma port_codes_partition:
  "length (filter in_code cs) + length (filter (\<lambda>c. c = 1) cs) +
    length (filter (\<lambda>c. \<not> port_code_known c) cs) + length (filter (\<lambda>c. c = 3) cs) = length cs"
  by (induction cs) (auto simp: in_code_def port_code_known_def)

text \<open>The port table accounts for every slot. A block that is not a declaration is refused by
  both functions; otherwise the inputs, the outputs, the unknown channels and four per empty slot
  add up to the 48 channels of the table, so no count can leave the range 0..48.\<close>

theorem ports_account_for_table:
  assumes "length block = 32"
  shows "case reac_ports_parse (Some block) of
      None \<Rightarrow> fst (reac_ports_unknown (Some block)) = - 1
    | Some p \<Rightarrow> 0 \<le> bp_in_ch p \<and> 0 \<le> bp_out_ch p \<and> 0 \<le> fst (reac_ports_unknown (Some block))
        \<and> bp_in_ch p + bp_out_ch p + fst (reac_ports_unknown (Some block))
          + 4 * int (length (filter (\<lambda>c. c = 3) (peek 8 12 block))) = 48
        \<and> (fst (reac_ports_unknown (Some block)) = 0 \<longleftrightarrow> (\<forall>c \<in> set (peek 8 12 block). port_code_known c))"
proof (cases "ports_block_ok block")
  case True
  let ?t = "peek 8 12 block"
  note port_codes_partition [of ?t]
  then have "int (length (filter in_code ?t)) + int (length (filter (\<lambda>c. c = 1) ?t)) +
      int (length (filter (\<lambda>c. \<not> port_code_known c) ?t)) + int (length (filter (\<lambda>c. c = 3) ?t)) = 12"
    using assms by simp
  then show ?thesis using True
    by (auto simp: reac_ports_parse_def reac_ports_unknown_def foldl_ports_count foldl_unknown filter_empty_conv)
next
  case False
  then show ?thesis by (simp add: reac_ports_parse_def reac_ports_unknown_def)
qed

theorem ports_account_for_table_witness:
  "reac_ports_parse (Some ([1, 3, 0, 16, 0x82, 0, 0, 2, 2, 2, 2, 2, 1, 1, 3, 3, 3, 3, 3, 9] @ replicate 12 0))
     = Some \<lparr> bp_in_ch = 16, bp_out_ch = 8, bp_headamp_base = 32 \<rparr>
   \<and> 0 \<le> fst (reac_ports_unknown
       (Some ([1, 3, 0, 16, 0x82, 0, 0, 2, 2, 2, 2, 2, 1, 1, 3, 3, 3, 3, 3, 9] @ replicate 12 0)))"
proof -
  let ?b = "[1, 3, 0, 16, 0x82, 0, 0, 2, 2, 2, 2, 2, 1, 1, 3, 3, 3, 3, 3, 9] @ replicate 12 0 :: bytes"
  have e: "reac_ports_parse (Some ?b) = Some \<lparr> bp_in_ch = 16, bp_out_ch = 8, bp_headamp_base = 32 \<rparr>"
    by (simp add: reac_ports_parse_def ports_block_ok_def ports_count_def peek_def)
  have "length ?b = 32" by simp
  from ports_account_for_table [OF this] e show ?thesis by simp
qed

end
