(* ===== verification/Reac_Identity.thy ===== *)
theory Reac_Identity
  imports Reac_Ctrl_Parse
begin

text \<open>
  What a box says of itself, \<^verbatim>\<open>src/reac_identity.c\<close>: ingesting the identity page's replies and
  printing the two versions. A return of -1 of a printer is \<open>None\<close>; otherwise the string written
  is returned (its length is the C result).
\<close>

abbreviation (input) REAC_IDENTITY_TAG :: u16 where "REAC_IDENTITY_TAG \<equiv> 0x0500"
abbreviation (input) REAC_IDENTITY_ADDR_FIRMWARE :: u16 where "REAC_IDENTITY_ADDR_FIRMWARE \<equiv> 0x0000"
abbreviation (input) REAC_IDENTITY_ADDR_REAC_VERSION :: u16 where "REAC_IDENTITY_ADDR_REAC_VERSION \<equiv> 0x0600"
abbreviation (input) REAC_IDENTITY_ADDR_MODEL_NAME :: u16 where "REAC_IDENTITY_ADDR_MODEL_NAME \<equiv> 0x1000"
abbreviation (input) REAC_IDENTITY_NAME_CAP :: nat where "REAC_IDENTITY_NAME_CAP \<equiv> 17"
abbreviation (input) REAC_IDENTITY_REAC_VER_LEN :: nat where "REAC_IDENTITY_REAC_VER_LEN \<equiv> 8"
abbreviation (input) REAC_IDENTITY_FW_STR_CAP :: nat where "REAC_IDENTITY_FW_STR_CAP \<equiv> 8"
abbreviation (input) REAC_IDENTITY_REAC_VER_STR_CAP :: nat where "REAC_IDENTITY_REAC_VER_STR_CAP \<equiv> 20"

record reac_identity =
  id_fw_milli :: u16
  id_has_fw :: bool
  id_model_name :: bytes
  id_has_model_name :: bool
  id_reac_version_major :: u16
  id_reac_version_minor :: u16
  id_reac_version_patch :: u16
  id_reac_version_raw :: bytes
  id_has_reac_version :: bool

definition reac_identity_init :: reac_identity where
  "reac_identity_init = \<lparr> id_fw_milli = 0, id_has_fw = False,
     id_model_name = replicate REAC_IDENTITY_NAME_CAP 0, id_has_model_name = False,
     id_reac_version_major = 0, id_reac_version_minor = 0, id_reac_version_patch = 0,
     id_reac_version_raw = replicate REAC_IDENTITY_REAC_VER_LEN 0, id_has_reac_version = False \<rparr>"

definition firmware_milli :: "bytes \<Rightarrow> u16 option" where
  "firmware_milli p =
     (if length p < 4 then None
      else if \<exists>b \<in> set (take 4 p). b > 9 then None
      else Some (word_of_int (uint (p ! 0) * 1000 + uint (p ! 1) * 100 + uint (p ! 2) * 10 + uint (p ! 3))))"

definition store_model_name :: "reac_identity \<Rightarrow> bytes \<Rightarrow> reac_identity \<times> int" where
  "store_model_name ident p =
     (if length p < 2 then (ident, 0)
      else let n = min (length p - 1) (REAC_IDENTITY_NAME_CAP - 1);
               nm = takeWhile (\<lambda>b. b \<noteq> 0x00) (peek 1 n p)
           in if nm = [] then (ident, 0)
              else (ident \<lparr> id_model_name := (poke 0 nm (id_model_name ident))[length nm := 0],
                            id_has_model_name := True \<rparr>, 1))"

definition reac_identity_ingest :: "reac_identity \<Rightarrow> u16 \<Rightarrow> bytes \<Rightarrow> reac_identity \<times> int" where
  "reac_identity_ingest ident addr_lo payload =
     (if addr_lo = REAC_IDENTITY_ADDR_FIRMWARE then
        (case firmware_milli payload of None \<Rightarrow> (ident, 0)
         | Some milli \<Rightarrow> (ident \<lparr> id_fw_milli := milli, id_has_fw := True \<rparr>, 1))
      else if addr_lo = REAC_IDENTITY_ADDR_MODEL_NAME then store_model_name ident payload
      else if addr_lo = REAC_IDENTITY_ADDR_REAC_VERSION then
        (if length payload < REAC_IDENTITY_REAC_VER_LEN then (ident, 0)
         else (ident \<lparr> id_reac_version_raw := take REAC_IDENTITY_REAC_VER_LEN payload,
                 id_reac_version_major := u16be (payload ! 2) (payload ! 3),
                 id_reac_version_minor := u16be (payload ! 4) (payload ! 5),
                 id_reac_version_patch := u16be (payload ! 6) (payload ! 7),
                 id_has_reac_version := True \<rparr>, 1))
      else (ident, 0))"

definition digit_char :: "nat \<Rightarrow> char" where
  "digit_char d = char_of (48 + d)"

definition reac_identity_fw_str :: "u16 \<Rightarrow> nat \<Rightarrow> string option" where
  "reac_identity_fw_str fw_milli cap =
     (if cap < REAC_IDENTITY_FW_STR_CAP then None
      else let whole = unat fw_milli div 1000; frac = unat fw_milli mod 1000
      in Some ((if whole \<ge> 10 then [digit_char ((whole div 10) mod 10)] else []) @
           [digit_char (whole mod 10), CHR ''.'', digit_char ((frac div 100) mod 10),
            digit_char ((frac div 10) mod 10), digit_char (frac mod 10)]))"

text \<open>The digits in the order the loop produces them, least significant first.\<close>

fun write_uint_tmp :: "nat \<Rightarrow> nat list" where
  "write_uint_tmp v = v mod 10 # (if v div 10 = 0 then [] else write_uint_tmp (v div 10))"

definition write_uint :: "u16 \<Rightarrow> string" where
  "write_uint v = map digit_char (rev (write_uint_tmp (unat v)))"

definition reac_identity_reac_ver_str :: "u16 \<Rightarrow> u16 \<Rightarrow> u16 \<Rightarrow> nat \<Rightarrow> string option" where
  "reac_identity_reac_ver_str major minor patch cap =
     (if cap < REAC_IDENTITY_REAC_VER_STR_CAP then None
      else Some (write_uint major @ [CHR ''.''] @ write_uint minor
             @ (if patch < 10 then [CHR ''0''] else []) @ write_uint patch))"

section \<open>Decimal digits\<close>

declare write_uint_tmp.simps [simp del]

definition digits_val :: "nat list \<Rightarrow> nat" where
  "digits_val ds = foldr (\<lambda>d a. d + 10 * a) ds 0"

lemma digits_val_simps [simp]:
  "digits_val [] = 0" "digits_val (d # ds) = d + 10 * digits_val ds"
  by (simp_all add: digits_val_def)

lemma write_uint_tmp_val [simp]: "digits_val (write_uint_tmp v) = v"
proof (induction v rule: write_uint_tmp.induct)
  case (1 v)
  then show ?case by (subst write_uint_tmp.simps) auto
qed

lemma write_uint_tmp_digit: "d \<in> set (write_uint_tmp v) \<Longrightarrow> d < 10"
proof (induction v rule: write_uint_tmp.induct)
  case (1 v)
  then show ?case by (subst (asm) write_uint_tmp.simps) (auto split: if_splits)
qed

lemma write_uint_tmp_length:
  "v < 10 ^ k \<Longrightarrow> 0 < k \<Longrightarrow> length (write_uint_tmp v) \<le> k"
proof (induction v arbitrary: k rule: write_uint_tmp.induct)
  case (1 v)
  show ?case
  proof (cases "v div 10 = 0")
    case True
    then show ?thesis using 1(3) by (subst write_uint_tmp.simps) simp
  next
    case False
    obtain j where k: "k = Suc j" using 1(3) by (cases k) auto
    have j: "0 < j" using False 1(2) k by (cases j) auto
    have "v div 10 < 10 ^ j" using 1(2) k by (simp add: less_mult_imp_div_less)
    from 1(1) [OF False this j] show ?thesis using k by (subst write_uint_tmp.simps) simp
  qed
qed

lemma digit_char_code: "d < 10 \<Longrightarrow> of_char (digit_char d) = 48 + d"
  by (simp add: digit_char_def take_bit_nat_eq_self)

lemma digit_char_zero: "digit_char 0 = CHR ''0''"
  by (simp add: digit_char_def char_of_eq_iff take_bit_nat_eq_self)

lemma inj_digit_char: "d < 10 \<Longrightarrow> e < 10 \<Longrightarrow> digit_char d = digit_char e \<longleftrightarrow> d = e"
  by (metis digit_char_code add_left_cancel)

lemma digit_char_not_dot: "d < 10 \<Longrightarrow> digit_char d \<noteq> CHR ''.''"
  by (auto dest!: digit_char_code)

lemma write_uint_inj: "write_uint v = write_uint w \<longleftrightarrow> v = w"
proof
  assume "write_uint v = write_uint w"
  then have m: "map digit_char (write_uint_tmp (unat v)) = map digit_char (write_uint_tmp (unat w))"
    by (simp add: write_uint_def rev_map [symmetric])
  have "inj_on digit_char {..<10}" by (auto intro!: inj_onI simp: inj_digit_char)
  then have "inj_on digit_char (set (write_uint_tmp (unat v)) \<union> set (write_uint_tmp (unat w)))"
    by (rule inj_on_subset) (auto dest: write_uint_tmp_digit)
  then have "write_uint_tmp (unat v) = write_uint_tmp (unat w)"
    using m inj_on_map_eq_map by blast
  then have "digits_val (write_uint_tmp (unat v)) = digits_val (write_uint_tmp (unat w))" by simp
  then show "v = w" by (simp add: word_unat_eq_iff)
qed simp

lemma write_uint_no_dot: "CHR ''.'' \<notin> set (write_uint v)"
  unfolding write_uint_def set_map set_rev using write_uint_tmp_digit digit_char_not_dot by fastforce

lemma write_uint_length: "length (write_uint v) \<le> 5"
proof -
  have "unat v < 10 ^ 5" using unsigned_less [of v, where ?'a = nat] by simp
  then show ?thesis using write_uint_tmp_length [of "unat v" 5] by (simp add: write_uint_def)
qed

lemma padded_patch:
  assumes "patch < 100"
  shows "length ((if patch < 10 then [CHR ''0''] else []) @ write_uint patch) = 2"
proof -
  have p: "unat patch < 100" using assms by (simp add: word_less_nat_alt)
  show ?thesis
  proof (cases "unat patch < 10")
    case True
    then have "patch < 10" by (simp add: word_less_nat_alt)
    then show ?thesis using True by (simp add: write_uint_def write_uint_tmp.simps)
  next
    case False
    then have "\<not> patch < 10" by (simp add: word_less_nat_alt)
    moreover have "unat patch div 10 \<noteq> 0" "unat patch div 10 div 10 = 0" using False p by simp_all
    ultimately show ?thesis
      by (simp add: write_uint_def write_uint_tmp.simps [of "unat patch"] write_uint_tmp.simps [of "unat patch div 10"])
  qed
qed

section \<open>Properties\<close>

text \<open>The console's spelling of a REAC version is unambiguous for patches below 100, and it
  always fits the 20-byte buffer with its terminator.\<close>

theorem reac_ver_str_injective:
  assumes "patch < 100" and "patch' < 100" and "20 \<le> cap"
    and "reac_identity_reac_ver_str major minor patch cap = reac_identity_reac_ver_str major' minor' patch' cap"
  shows "major = major' \<and> minor = minor' \<and> patch = patch'
    \<and> (\<exists>s. reac_identity_reac_ver_str major minor patch cap = Some s \<and> length s < 20)"
proof -
  define pad where "pad p = (if p < 10 then [CHR ''0''] else []) @ write_uint p" for p
  have e: "write_uint major @ CHR ''.'' # write_uint minor @ pad patch =
      write_uint major' @ CHR ''.'' # write_uint minor' @ pad patch'"
    using assms(3,4) by (simp add: reac_identity_reac_ver_str_def pad_def split: if_splits)
  have "takeWhile (\<lambda>c. c \<noteq> CHR ''.'') (write_uint v @ CHR ''.'' # r) = write_uint v" for v r
    using write_uint_no_dot [of v] by (subst takeWhile_append2) auto
  then have ma: "major = major'" using arg_cong [OF e, of "takeWhile (\<lambda>c. c \<noteq> CHR ''.'')"]
    by (simp add: write_uint_inj)
  then have "write_uint minor @ pad patch = write_uint minor' @ pad patch'" using e by simp
  then have "write_uint minor = write_uint minor'" and p: "pad patch = pad patch'"
    using padded_patch [OF assms(1)] padded_patch [OF assms(2)]
    by (simp_all add: append_eq_append_conv pad_def)
  then have mi: "minor = minor'" by (simp add: write_uint_inj)
  have z: "hd (write_uint v) = CHR ''0'' \<and> length (write_uint v) = 2 \<longrightarrow> unat v < 10" for v
  proof
    assume h: "hd (write_uint v) = CHR ''0'' \<and> length (write_uint v) = 2"
    then obtain a b where ab: "write_uint_tmp (unat v) = [a, b]"
      by (auto simp: write_uint_def length_Suc_conv numeral_2_eq_2)
    then have "digit_char b = digit_char 0" using h by (simp add: write_uint_def digit_char_zero)
    then have "b = 0" using ab write_uint_tmp_digit [of b "unat v"] by (simp add: inj_digit_char)
    then show "unat v < 10" using ab write_uint_tmp_val [of "unat v"] write_uint_tmp_digit [of a "unat v"] by simp
  qed
  have "patch = patch'"
  proof (cases "(patch < 10) = (patch' < 10)")
    case True
    then show ?thesis using p by (simp add: pad_def write_uint_inj split: if_splits)
  next
    case False
    then show ?thesis
      using p padded_patch [OF assms(1)] padded_patch [OF assms(2)] z [of patch] z [of patch']
      by (auto simp: pad_def word_less_nat_alt split: if_splits) (metis list.sel(1))+
  qed
  moreover have "length (write_uint major @ CHR ''.'' # write_uint minor @ pad patch) < 20"
    using write_uint_length [of major] write_uint_length [of minor] padded_patch [OF assms(1)]
    by (simp add: pad_def)
  ultimately show ?thesis using ma mi assms(3) by (simp add: reac_identity_reac_ver_str_def pad_def)
qed

theorem reac_ver_str_injective_witness:
  "reac_identity_reac_ver_str 2 3 2 20 = Some ''2.302'' \<and> length ''2.302'' < 20"
proof -
  have e: "reac_identity_reac_ver_str 2 3 2 20 = Some ''2.302''" by code_simp
  show ?thesis using reac_ver_str_injective [of 2 2 20 2 3 2 3] e by simp
qed

end
