(* ===== verification/Reac_Box_Model.thy ===== *)
theory Reac_Box_Model
  imports Reac_Ports Reac_Identity
begin

text \<open>
  The catalogue of stage boxes (\<^verbatim>\<open>BOX_CATALOGUE\<close> and its lookups in \<^verbatim>\<open>src/reac_ctrlblk.c\<close>) and the
  generator of a box's own blocks, \<^verbatim>\<open>src/reac_box_synth.c\<close>. The generator's out buffer is the
  second component of its result, zeroed first as the code does.
\<close>

section \<open>Models\<close>

datatype reac_box_origin = REAC_BOX_CAPTURED | REAC_BOX_DERIVED
datatype reac_box_port_layout = REAC_BOX_PORTS_IN_FIRST | REAC_BOX_PORTS_SPLIT_OUT_FIRST
datatype reac_box_identity_shape = REAC_BOX_IDENTITY_ROLAND | REAC_BOX_IDENTITY_FREEREAC
datatype reac_box_block =
    REAC_BOX_BLOCK_CONFIG | REAC_BOX_BLOCK_CC0014 | REAC_BOX_BLOCK_CC0013 | REAC_BOX_BLOCK_CC0016
  | REAC_BOX_BLOCK_CC001A | REAC_BOX_BLOCK_IDENT_FIRST | REAC_BOX_BLOCK_IDENT_LAST

record reac_box_model =
  bm_token :: string
  bm_display :: string
  bm_in_ch :: int
  bm_out_ch :: int
  bm_config_block :: bytes
  bm_has_identity_record :: bool
  bm_identity_first :: bytes
  bm_identity_last :: bytes
  bm_cc0014 :: bytes
  bm_cc0013 :: bytes
  bm_cc0016 :: bytes
  bm_cc001a :: bytes
  bm_selector :: u8
  bm_headamp_strap :: u8
  bm_tail :: bytes
  bm_fw_milli :: u16
  bm_reac_major :: u16
  bm_reac_minor :: u16
  bm_reac_patch :: u16
  bm_name :: "string option"
  bm_origin :: reac_box_origin
  bm_identity_shape :: reac_box_identity_shape
  bm_port_layout :: reac_box_port_layout

section \<open>The catalogue\<close>

text \<open>One definition per row; a field a row does not initialise is zero, as in C.\<close>

definition BOX_S1608 :: reac_box_model where
  "BOX_S1608 = \<lparr>
    bm_token = ''s1608'', bm_display = ''S-1608 (16 in / 8 out)'',
    bm_in_ch = 16, bm_out_ch = 8,
    bm_config_block = [0x01, 0x03, 0x00, 0x10, 0x82, 0x00, 0x00, 0x02, 0x02, 0x02, 0x02, 0x02, 0x01, 0x01, 0x03, 0x03,
      0x03, 0x03, 0x03, 0x03, 0x00, 0x00, 0x00, 0x00, 0x00, 0x00, 0x00, 0x00, 0x00, 0x00, 0x00, 0x4c],
    bm_has_identity_record = False,
    bm_identity_first = replicate 32 0,
    bm_identity_last = replicate 32 0,
    bm_cc0014 = [0x04, 0x03, 0x00, 0x14, 0x00, 0x02, 0x00, 0xfe, 0x0f, 0xf0, 0x41, 0x0a, 0x00, 0x00, 0x12, 0x12,
      0x01, 0x00, 0x06, 0x00, 0x01, 0x00, 0x78, 0xf7, 0x00, 0x00, 0x00, 0x00, 0x00, 0x00, 0x00, 0x00],
    bm_cc0013 = [0x04, 0x03, 0x00, 0x13, 0x00, 0x02, 0x00, 0xfe, 0x0e, 0xf0, 0x41, 0x0a, 0x00, 0x00, 0x12, 0x12,
      0x03, 0x02, 0x00, 0x01, 0x00, 0x7a, 0xf7, 0x00, 0x00, 0x00, 0x00, 0x00, 0x00, 0x00, 0x00, 0x02],
    bm_cc0016 = [0x04, 0x03, 0x00, 0x16, 0x00, 0x02, 0x00, 0xfe, 0x11, 0xf0, 0x41, 0x0a, 0x00, 0x00, 0x12, 0x12,
      0x05, 0x00, 0x00, 0x00, 0x02, 0x02, 0x00, 0x00, 0x77, 0xf7, 0x00, 0x00, 0x00, 0x00, 0x00, 0xfc],
    bm_cc001a = [0x04, 0x03, 0x00, 0x1a, 0x00, 0x02, 0x00, 0xfe, 0x15, 0xf0, 0x41, 0x0a, 0x00, 0x00, 0x12, 0x12,
      0x05, 0x00, 0x06, 0x00, 0x00, 0x00, 0x00, 0x02, 0x00, 0x03, 0x00, 0x02, 0x6e, 0xf7, 0x00, 0xf4],
    bm_selector = 0x82, bm_headamp_strap = 0x02,
    bm_tail = replicate 11 0,
    bm_fw_milli = 2200, bm_reac_major = 2, bm_reac_minor = 3, bm_reac_patch = 2,
    bm_name = None,
    bm_origin = REAC_BOX_CAPTURED, bm_identity_shape = REAC_BOX_IDENTITY_ROLAND,
    bm_port_layout = REAC_BOX_PORTS_IN_FIRST \<rparr>"

definition BOX_S0808 :: reac_box_model where
  "BOX_S0808 = \<lparr>
    bm_token = ''s0808'', bm_display = ''S-0808 (8 in / 8 out)'',
    bm_in_ch = 8, bm_out_ch = 8,
    bm_config_block = [0x01, 0x03, 0x00, 0x10, 0x84, 0x00, 0x00, 0x00, 0x02, 0x02, 0x01, 0x01, 0x03, 0x03, 0x03, 0x03,
      0x03, 0x03, 0x03, 0x03, 0x00, 0x00, 0x00, 0x00, 0x00, 0x00, 0x00, 0x00, 0x00, 0x00, 0x00, 0x4a],
    bm_has_identity_record = True,
    bm_identity_first = [0x04, 0x01, 0x00, 0x1b, 0x00, 0x02, 0x00, 0xfe, 0x16, 0xf0, 0x41, 0x0a, 0x00, 0x00, 0x12, 0x12,
      0x05, 0x00, 0x10, 0x00, 0x01, 0x53, 0x2d, 0x30, 0x38, 0x30, 0x38, 0x00, 0x00, 0x00, 0x00, 0x05],
    bm_identity_last = [0x04, 0x02, 0x00, 0x0d, 0x00, 0x02, 0x00, 0xfe, 0x08, 0x00, 0x00, 0x00, 0x00, 0x00, 0x00, 0x1a,
      0xf7, 0x00, 0x00, 0x00, 0x00, 0x00, 0x00, 0x00, 0x00, 0x00, 0x00, 0x00, 0x00, 0x00, 0x00, 0xd4],
    bm_cc0014 = [0x04, 0x03, 0x00, 0x14, 0x00, 0x02, 0x00, 0xfe, 0x0f, 0xf0, 0x41, 0x0a, 0x00, 0x00, 0x12, 0x12,
      0x01, 0x00, 0x06, 0x00, 0x01, 0x00, 0x78, 0xf7, 0x00, 0x00, 0x00, 0x00, 0x00, 0x00, 0x00, 0x00],
    bm_cc0013 = [0x04, 0x03, 0x00, 0x13, 0x00, 0x02, 0x00, 0xfe, 0x0e, 0xf0, 0x41, 0x0a, 0x00, 0x00, 0x12, 0x12,
      0x03, 0x02, 0x00, 0x01, 0x00, 0x7a, 0xf7, 0x00, 0x00, 0x00, 0x00, 0x00, 0x00, 0x00, 0x00, 0x02],
    bm_cc0016 = [0x04, 0x03, 0x00, 0x16, 0x00, 0x02, 0x00, 0xfe, 0x11, 0xf0, 0x41, 0x0a, 0x00, 0x00, 0x12, 0x12,
      0x05, 0x00, 0x00, 0x00, 0x01, 0x00, 0x00, 0x03, 0x77, 0xf7, 0x00, 0x00, 0x00, 0x00, 0x00, 0xfc],
    bm_cc001a = [0x04, 0x03, 0x00, 0x1a, 0x00, 0x02, 0x00, 0xfe, 0x15, 0xf0, 0x41, 0x0a, 0x00, 0x00, 0x12, 0x12,
      0x05, 0x00, 0x06, 0x00, 0x00, 0x00, 0x00, 0x01, 0x00, 0x00, 0x00, 0x00, 0x74, 0xf7, 0x00, 0xf4],
    bm_selector = 0x84, bm_headamp_strap = 0x00,
    bm_tail = replicate 11 0,
    bm_fw_milli = 1003, bm_reac_major = 1, bm_reac_minor = 0, bm_reac_patch = 0,
    bm_name = Some ''S-0808'',
    bm_origin = REAC_BOX_CAPTURED, bm_identity_shape = REAC_BOX_IDENTITY_ROLAND,
    bm_port_layout = REAC_BOX_PORTS_IN_FIRST \<rparr>"

definition BOX_S4000S :: reac_box_model where
  "BOX_S4000S = \<lparr>
    bm_token = ''s4000s'', bm_display = ''S-4000S-3208 (32 in / 8 out)'',
    bm_in_ch = 32, bm_out_ch = 8,
    bm_config_block = [0x01, 0x03, 0x00, 0x10, 0x84, 0x00, 0x00, 0x00, 0x02, 0x02, 0x02, 0x02, 0x02, 0x02, 0x02, 0x02,
      0x01, 0x01, 0x03, 0x03, 0x00, 0x03, 0x00, 0x00, 0x00, 0x01, 0x00, 0x00, 0x00, 0x00, 0x00, 0x4c],
    bm_has_identity_record = False,
    bm_identity_first = replicate 32 0,
    bm_identity_last = replicate 32 0,
    bm_cc0014 = [0x04, 0x03, 0x00, 0x14, 0x00, 0x02, 0x00, 0xfe, 0x0f, 0xf0, 0x41, 0x0a, 0x00, 0x00, 0x12, 0x12,
      0x01, 0x00, 0x06, 0x00, 0x01, 0x00, 0x78, 0xf7, 0x00, 0x00, 0x00, 0x00, 0x00, 0x00, 0x00, 0x00],
    bm_cc0013 = [0x04, 0x03, 0x00, 0x13, 0x00, 0x02, 0x00, 0xfe, 0x0e, 0xf0, 0x41, 0x0a, 0x00, 0x00, 0x12, 0x12,
      0x03, 0x02, 0x00, 0x01, 0x00, 0x7a, 0xf7, 0x00, 0x00, 0x00, 0x00, 0x00, 0x00, 0x00, 0x00, 0x02],
    bm_cc0016 = [0x04, 0x03, 0x00, 0x16, 0x00, 0x02, 0x00, 0xfe, 0x11, 0xf0, 0x41, 0x0a, 0x00, 0x00, 0x12, 0x12,
      0x05, 0x00, 0x00, 0x00, 0x02, 0x05, 0x00, 0x00, 0x74, 0xf7, 0x00, 0x00, 0x00, 0x00, 0x00, 0xfc],
    bm_cc001a = [0x04, 0x03, 0x00, 0x1a, 0x00, 0x02, 0x00, 0xfe, 0x15, 0xf0, 0x41, 0x0a, 0x00, 0x00, 0x12, 0x12,
      0x05, 0x00, 0x06, 0x00, 0x00, 0x00, 0x00, 0x02, 0x00, 0x01, 0x00, 0x02, 0x70, 0xf7, 0x00, 0xf4],
    bm_selector = 0x84, bm_headamp_strap = 0x00,
    bm_tail = [0x00, 0x03, 0x00, 0x00, 0x00, 0x01, 0x00, 0x00, 0x00, 0x00, 0x00],
    bm_fw_milli = 2500, bm_reac_major = 2, bm_reac_minor = 1, bm_reac_patch = 2,
    bm_name = None,
    bm_origin = REAC_BOX_CAPTURED, bm_identity_shape = REAC_BOX_IDENTITY_ROLAND,
    bm_port_layout = REAC_BOX_PORTS_IN_FIRST \<rparr>"

definition BOX_S4000S_0832 :: reac_box_model where
  "BOX_S4000S_0832 = \<lparr>
    bm_token = ''s4000s-0832'', bm_display = ''S-4000S-0832 (8 in / 32 out)'',
    bm_in_ch = 8, bm_out_ch = 32,
    bm_config_block = [0x01, 0x03, 0x00, 0x10, 0x84, 0x00, 0x00, 0x00, 0x01, 0x01, 0x01, 0x01, 0x01, 0x01, 0x01, 0x01,
      0x00, 0x00, 0x03, 0x03, 0x00, 0x03, 0x00, 0x00, 0x00, 0x01, 0x00, 0x00, 0x00, 0x00, 0x00, 0x56],
    bm_has_identity_record = False,
    bm_identity_first = replicate 32 0,
    bm_identity_last = replicate 32 0,
    bm_cc0014 = [0x04, 0x03, 0x00, 0x14, 0x00, 0x02, 0x00, 0xfe, 0x0f, 0xf0, 0x41, 0x0a, 0x00, 0x00, 0x12, 0x12,
      0x01, 0x00, 0x06, 0x00, 0x01, 0x00, 0x78, 0xf7, 0x00, 0x00, 0x00, 0x00, 0x00, 0x00, 0x00, 0x00],
    bm_cc0013 = [0x04, 0x03, 0x00, 0x13, 0x00, 0x02, 0x00, 0xfe, 0x0e, 0xf0, 0x41, 0x0a, 0x00, 0x00, 0x12, 0x12,
      0x03, 0x02, 0x00, 0x01, 0x00, 0x7a, 0xf7, 0x00, 0x00, 0x00, 0x00, 0x00, 0x00, 0x00, 0x00, 0x02],
    bm_cc0016 = [0x04, 0x03, 0x00, 0x16, 0x00, 0x02, 0x00, 0xfe, 0x11, 0xf0, 0x41, 0x0a, 0x00, 0x00, 0x12, 0x12,
      0x05, 0x00, 0x00, 0x00, 0x02, 0x05, 0x00, 0x00, 0x74, 0xf7, 0x00, 0x00, 0x00, 0x00, 0x00, 0xfc],
    bm_cc001a = [0x04, 0x03, 0x00, 0x1a, 0x00, 0x02, 0x00, 0xfe, 0x15, 0xf0, 0x41, 0x0a, 0x00, 0x00, 0x12, 0x12,
      0x05, 0x00, 0x06, 0x00, 0x00, 0x00, 0x00, 0x02, 0x00, 0x01, 0x00, 0x02, 0x70, 0xf7, 0x00, 0xf4],
    bm_selector = 0x84, bm_headamp_strap = 0x00,
    bm_tail = [0x00, 0x03, 0x00, 0x00, 0x00, 0x01, 0x00, 0x00, 0x00, 0x00, 0x00],
    bm_fw_milli = 2500, bm_reac_major = 2, bm_reac_minor = 1, bm_reac_patch = 2,
    bm_name = None,
    bm_origin = REAC_BOX_CAPTURED, bm_identity_shape = REAC_BOX_IDENTITY_ROLAND,
    bm_port_layout = REAC_BOX_PORTS_SPLIT_OUT_FIRST \<rparr>"

definition BOX_S0816 :: reac_box_model where
  "BOX_S0816 = \<lparr>
    bm_token = ''s0816'', bm_display = ''S-0816 (8 in / 16 out)'',
    bm_in_ch = 8, bm_out_ch = 16,
    bm_config_block = replicate 32 0,
    bm_has_identity_record = True,
    bm_identity_first = replicate 32 0,
    bm_identity_last = replicate 32 0,
    bm_cc0014 = replicate 32 0,
    bm_cc0013 = replicate 32 0,
    bm_cc0016 = replicate 32 0,
    bm_cc001a = replicate 32 0,
    bm_selector = 0x84, bm_headamp_strap = 0x00,
    bm_tail = replicate 11 0,
    bm_fw_milli = 1014, bm_reac_major = 9, bm_reac_minor = 0, bm_reac_patch = 14,
    bm_name = Some ''FR-0816'',
    bm_origin = REAC_BOX_DERIVED, bm_identity_shape = REAC_BOX_IDENTITY_FREEREAC,
    bm_port_layout = REAC_BOX_PORTS_IN_FIRST \<rparr>"

definition BOX_S2416 :: reac_box_model where
  "BOX_S2416 = \<lparr>
    bm_token = ''s2416'', bm_display = ''S-2416 (24 in / 16 out)'',
    bm_in_ch = 24, bm_out_ch = 16,
    bm_config_block = replicate 32 0,
    bm_has_identity_record = True,
    bm_identity_first = replicate 32 0,
    bm_identity_last = replicate 32 0,
    bm_cc0014 = replicate 32 0,
    bm_cc0013 = replicate 32 0,
    bm_cc0016 = replicate 32 0,
    bm_cc001a = replicate 32 0,
    bm_selector = 0x84, bm_headamp_strap = 0x00,
    bm_tail = replicate 11 0,
    bm_fw_milli = 1014, bm_reac_major = 9, bm_reac_minor = 0, bm_reac_patch = 14,
    bm_name = Some ''FR-2416'',
    bm_origin = REAC_BOX_DERIVED, bm_identity_shape = REAC_BOX_IDENTITY_FREEREAC,
    bm_port_layout = REAC_BOX_PORTS_IN_FIRST \<rparr>"

definition BOX_S4000D :: reac_box_model where
  "BOX_S4000D = \<lparr>
    bm_token = ''s4000d'', bm_display = ''S-4000D (0 in / 32 out)'',
    bm_in_ch = 0, bm_out_ch = 32,
    bm_config_block = replicate 32 0,
    bm_has_identity_record = True,
    bm_identity_first = replicate 32 0,
    bm_identity_last = replicate 32 0,
    bm_cc0014 = replicate 32 0,
    bm_cc0013 = replicate 32 0,
    bm_cc0016 = replicate 32 0,
    bm_cc001a = replicate 32 0,
    bm_selector = 0x84, bm_headamp_strap = 0x00,
    bm_tail = replicate 11 0,
    bm_fw_milli = 1014, bm_reac_major = 9, bm_reac_minor = 0, bm_reac_patch = 14,
    bm_name = Some ''FR-4000D'',
    bm_origin = REAC_BOX_DERIVED, bm_identity_shape = REAC_BOX_IDENTITY_FREEREAC,
    bm_port_layout = REAC_BOX_PORTS_IN_FIRST \<rparr>"

definition BOX_S4000M :: reac_box_model where
  "BOX_S4000M = \<lparr>
    bm_token = ''s4000m'', bm_display = ''S-4000M (32 in / 0 out)'',
    bm_in_ch = 32, bm_out_ch = 0,
    bm_config_block = replicate 32 0,
    bm_has_identity_record = True,
    bm_identity_first = replicate 32 0,
    bm_identity_last = replicate 32 0,
    bm_cc0014 = replicate 32 0,
    bm_cc0013 = replicate 32 0,
    bm_cc0016 = replicate 32 0,
    bm_cc001a = replicate 32 0,
    bm_selector = 0x84, bm_headamp_strap = 0x00,
    bm_tail = replicate 11 0,
    bm_fw_milli = 1014, bm_reac_major = 9, bm_reac_minor = 0, bm_reac_patch = 14,
    bm_name = Some ''FR-4000M'',
    bm_origin = REAC_BOX_DERIVED, bm_identity_shape = REAC_BOX_IDENTITY_FREEREAC,
    bm_port_layout = REAC_BOX_PORTS_IN_FIRST \<rparr>"

definition BOX_FR4000 :: reac_box_model where
  "BOX_FR4000 = \<lparr>
    bm_token = ''fr4000'', bm_display = ''FreeREAC 40 in / 0 out'',
    bm_in_ch = 40, bm_out_ch = 0,
    bm_config_block = replicate 32 0,
    bm_has_identity_record = True,
    bm_identity_first = replicate 32 0,
    bm_identity_last = replicate 32 0,
    bm_cc0014 = replicate 32 0,
    bm_cc0013 = replicate 32 0,
    bm_cc0016 = replicate 32 0,
    bm_cc001a = replicate 32 0,
    bm_selector = 0x84, bm_headamp_strap = 0x00,
    bm_tail = replicate 11 0,
    bm_fw_milli = 1014, bm_reac_major = 9, bm_reac_minor = 0, bm_reac_patch = 14,
    bm_name = Some ''FR-4000'',
    bm_origin = REAC_BOX_DERIVED, bm_identity_shape = REAC_BOX_IDENTITY_FREEREAC,
    bm_port_layout = REAC_BOX_PORTS_IN_FIRST \<rparr>"

definition BOX_FR0040 :: reac_box_model where
  "BOX_FR0040 = \<lparr>
    bm_token = ''fr0040'', bm_display = ''FreeREAC 0 in / 40 out'',
    bm_in_ch = 0, bm_out_ch = 40,
    bm_config_block = replicate 32 0,
    bm_has_identity_record = True,
    bm_identity_first = replicate 32 0,
    bm_identity_last = replicate 32 0,
    bm_cc0014 = replicate 32 0,
    bm_cc0013 = replicate 32 0,
    bm_cc0016 = replicate 32 0,
    bm_cc001a = replicate 32 0,
    bm_selector = 0x84, bm_headamp_strap = 0x00,
    bm_tail = replicate 11 0,
    bm_fw_milli = 1014, bm_reac_major = 9, bm_reac_minor = 0, bm_reac_patch = 14,
    bm_name = Some ''FR-0040'',
    bm_origin = REAC_BOX_DERIVED, bm_identity_shape = REAC_BOX_IDENTITY_FREEREAC,
    bm_port_layout = REAC_BOX_PORTS_IN_FIRST \<rparr>"

definition BOX_FR2020 :: reac_box_model where
  "BOX_FR2020 = \<lparr>
    bm_token = ''fr2020'', bm_display = ''FreeREAC 20 in / 20 out'',
    bm_in_ch = 20, bm_out_ch = 20,
    bm_config_block = replicate 32 0,
    bm_has_identity_record = True,
    bm_identity_first = replicate 32 0,
    bm_identity_last = replicate 32 0,
    bm_cc0014 = replicate 32 0,
    bm_cc0013 = replicate 32 0,
    bm_cc0016 = replicate 32 0,
    bm_cc001a = replicate 32 0,
    bm_selector = 0x84, bm_headamp_strap = 0x00,
    bm_tail = replicate 11 0,
    bm_fw_milli = 1014, bm_reac_major = 9, bm_reac_minor = 0, bm_reac_patch = 14,
    bm_name = Some ''FR-2020'',
    bm_origin = REAC_BOX_DERIVED, bm_identity_shape = REAC_BOX_IDENTITY_FREEREAC,
    bm_port_layout = REAC_BOX_PORTS_IN_FIRST \<rparr>"

definition BOX_CATALOGUE :: "reac_box_model list" where
  "BOX_CATALOGUE = [BOX_S1608, BOX_S0808, BOX_S4000S, BOX_S4000S_0832, BOX_S0816, BOX_S2416, BOX_S4000D, BOX_S4000M, BOX_FR4000, BOX_FR0040, BOX_FR2020]"

definition reac_box_catalogue_by_token :: "string option \<Rightarrow> reac_box_model option" where
  "reac_box_catalogue_by_token token = List.find (\<lambda>m. token = Some (bm_token m)) BOX_CATALOGUE"

definition reac_box_catalogue_by_width :: "int \<Rightarrow> reac_box_model" where
  "reac_box_catalogue_by_width in_ch =
     (case List.find (\<lambda>m. bm_in_ch m = in_ch \<and> bm_origin m = REAC_BOX_CAPTURED) BOX_CATALOGUE of
        Some m \<Rightarrow> m | None \<Rightarrow> BOX_CATALOGUE ! 0)"

section \<open>The block generator\<close>

definition block_check :: "bytes \<Rightarrow> bytes" where
  "block_check b = (let s = byte_sum (take 31 b) in b[31 := ucast ((256 - (s AND 0xff)) AND 0xff)])"

definition dt1_check :: "bytes \<Rightarrow> u8" where
  "dt1_check p = (let s = byte_sum p in ucast ((128 - (s AND 0x7f)) AND 0x7f))"

definition dt1_head :: "bytes \<Rightarrow> u8 \<Rightarrow> nat \<Rightarrow> u16 \<Rightarrow> bytes" where
  "dt1_head out frag sysex_len addr_lo =
     (let hdr = (of_nat (sysex_len + 5) :: u16) in
      poke 0 [0x04, frag, hi8 hdr, lo8 hdr, 0x00, 0x02, 0x00, 0xfe, of_nat sysex_len, 0xf0, 0x41, 0x0a,
        0x00, 0x00, 0x12, 0x12, hi8 REAC_IDENTITY_TAG, lo8 REAC_IDENTITY_TAG, hi8 addr_lo, lo8 addr_lo] out)"

definition JOIN_0014 :: bytes where
  "JOIN_0014 = [0x04, 0x03, 0x00, 0x14, 0x00, 0x02, 0x00, 0xfe, 0x0f, 0xf0, 0x41, 0x0a, 0x00, 0x00, 0x12, 0x12,
     0x01, 0x00, 0x06, 0x00, 0x01, 0x00, 0x78, 0xf7, 0x00, 0x00, 0x00, 0x00, 0x00, 0x00, 0x00, 0x00]"

definition JOIN_0013 :: bytes where
  "JOIN_0013 = [0x04, 0x03, 0x00, 0x13, 0x00, 0x02, 0x00, 0xfe, 0x0e, 0xf0, 0x41, 0x0a, 0x00, 0x00, 0x12, 0x12,
     0x03, 0x02, 0x00, 0x01, 0x00, 0x7a, 0xf7, 0x00, 0x00, 0x00, 0x00, 0x00, 0x00, 0x00, 0x00, 0x02]"

text \<open>The slot codes the counting loops of \<^verbatim>\<open>build_config\<close> lay down, before the padding.\<close>

definition config_slots :: "reac_box_port_layout \<Rightarrow> nat \<Rightarrow> nat \<Rightarrow> bytes" where
  "config_slots layout in_slots out_slots =
     (if layout = REAC_BOX_PORTS_SPLIT_OUT_FIRST
      then replicate out_slots REAC_PORT_SLOT_OUT @ replicate in_slots REAC_PORT_SLOT_IN_SPLIT
      else replicate in_slots REAC_PORT_SLOT_IN @ replicate out_slots REAC_PORT_SLOT_OUT)"

definition build_config :: "reac_box_model \<Rightarrow> bytes \<Rightarrow> int \<times> bytes" where
  "build_config m out =
     (if bm_in_ch m < 0 \<or> bm_out_ch m < 0 then (- 1, out)
      else if bm_in_ch m smod REAC_PORTS_CH_PER_SLOT \<noteq> 0 \<or> bm_out_ch m smod REAC_PORTS_CH_PER_SLOT \<noteq> 0
        then (- 1, out)
      else let in_slots = bm_in_ch m sdiv REAC_PORTS_CH_PER_SLOT;
               out_slots = bm_out_ch m sdiv REAC_PORTS_CH_PER_SLOT in
        if in_slots + out_slots > int REAC_PORTS_TABLE_SLOTS then (- 1, out)
        else let slots = config_slots (bm_port_layout m) (nat in_slots) (nat out_slots);
                 table = slots @ replicate (REAC_PORTS_TABLE_SLOTS - length slots) REAC_PORT_SLOT_EMPTY
          in (1, block_check
               (poke (REAC_PORTS_TABLE_OFF + REAC_PORTS_TABLE_SLOTS) (bm_tail m)
                 (poke REAC_PORTS_TABLE_OFF table
                   (poke 0 [0x01, 0x03, 0x00, 0x10, bm_selector m, 0x00, 0x00, bm_headamp_strap m] out)))))"

definition build_dt1_single :: "bytes \<Rightarrow> u16 \<Rightarrow> bytes \<Rightarrow> int \<times> bytes" where
  "build_dt1_single out addr_lo data =
     (let dlen = length data;
          o1 = poke 20 data (dt1_head out 0x03 (7 + 4 + dlen + 2) addr_lo);
          o2 = o1[20 + dlen := dt1_check (peek 16 (4 + dlen) o1), 21 + dlen := 0xf7]
      in (1, block_check o2))"

definition build_firmware :: "reac_box_model \<Rightarrow> bytes \<Rightarrow> int \<times> bytes" where
  "build_firmware m out =
     (let v = bm_fw_milli m in
      if v > 9999 then (- 1, out)
      else build_dt1_single out REAC_IDENTITY_ADDR_FIRMWARE
        [ucast (v div 1000), ucast ((v div 100) mod 10), ucast ((v div 10) mod 10), ucast (v mod 10)])"

definition build_reac_version :: "reac_box_model \<Rightarrow> bytes \<Rightarrow> int \<times> bytes" where
  "build_reac_version m out =
     build_dt1_single out REAC_IDENTITY_ADDR_REAC_VERSION
       [0x00, 0x00, hi8 (bm_reac_major m), lo8 (bm_reac_major m), hi8 (bm_reac_minor m),
        lo8 (bm_reac_minor m), hi8 (bm_reac_patch m), lo8 (bm_reac_patch m)]"

abbreviation (input) NAME_KIND :: u8 where "NAME_KIND \<equiv> 0x01"
abbreviation (input) NAME_LEN :: nat where "NAME_LEN \<equiv> 16"
abbreviation (input) NAME_IN_FIRST :: nat where "NAME_IN_FIRST \<equiv> 10"

definition name_field :: "reac_box_model \<Rightarrow> bytes" where
  "name_field m =
     (case bm_name m of None \<Rightarrow> replicate NAME_LEN 0
      | Some s \<Rightarrow>
        let c = map char_byte (takeWhile (\<lambda>c. c \<noteq> CHR 0x00) (take NAME_LEN s))
        in c @ replicate (NAME_LEN - length c) 0)"

definition build_ident_first :: "reac_box_model \<Rightarrow> bytes \<Rightarrow> int \<times> bytes" where
  "build_ident_first m out =
     (let nm = name_field m;
          o1 = dt1_head out 0x01 (7 + 4 + 1 + NAME_IN_FIRST) REAC_IDENTITY_ADDR_MODEL_NAME
      in (1, block_check (poke 21 (take NAME_IN_FIRST nm) (o1[20 := NAME_KIND]))))"

definition build_ident_last :: "reac_box_model \<Rightarrow> bytes \<Rightarrow> int \<times> bytes" where
  "build_ident_last m out =
     (let nm = name_field m;
          rec = [hi8 REAC_IDENTITY_TAG, lo8 REAC_IDENTITY_TAG, hi8 REAC_IDENTITY_ADDR_MODEL_NAME,
                 lo8 REAC_IDENTITY_ADDR_MODEL_NAME, NAME_KIND] @ nm;
          o1 = poke 0 [0x04, 0x02, 0x00, of_nat ((NAME_LEN - NAME_IN_FIRST) + 2 + 5), 0x00, 0x02, 0x00, 0xfe,
                       of_nat ((NAME_LEN - NAME_IN_FIRST) + 2)] out;
          o2 = poke 9 (drop NAME_IN_FIRST nm) o1
      in (1, block_check (o2[15 := dt1_check rec, 16 := 0xf7])))"

fun reac_box_model_block :: "reac_box_model \<Rightarrow> reac_box_block \<Rightarrow> int \<times> bytes" where
  "reac_box_model_block m REAC_BOX_BLOCK_CONFIG = build_config m (replicate 32 0)"
| "reac_box_model_block m REAC_BOX_BLOCK_CC0014 = (1, JOIN_0014)"
| "reac_box_model_block m REAC_BOX_BLOCK_CC0013 = (1, JOIN_0013)"
| "reac_box_model_block m REAC_BOX_BLOCK_CC0016 = build_firmware m (replicate 32 0)"
| "reac_box_model_block m REAC_BOX_BLOCK_CC001A = build_reac_version m (replicate 32 0)"
| "reac_box_model_block m REAC_BOX_BLOCK_IDENT_FIRST =
     (if \<not> bm_has_identity_record m then (0, replicate 32 0) else build_ident_first m (replicate 32 0))"
| "reac_box_model_block m REAC_BOX_BLOCK_IDENT_LAST =
     (if \<not> bm_has_identity_record m then (0, replicate 32 0) else build_ident_last m (replicate 32 0))"

definition reac_box_model_upstream_width :: "reac_box_model \<Rightarrow> int" where
  "reac_box_model_upstream_width m =
     (if bm_in_ch m < 0 \<or> bm_out_ch m < 0 then 0
      else if (bm_in_ch m \<noteq> 0 \<and> \<not> reac_box_width_ok (bm_in_ch m))
           \<or> (bm_out_ch m \<noteq> 0 \<and> \<not> reac_box_width_ok (bm_out_ch m)) then 0
      else if bm_in_ch m < 2 then 2 else bm_in_ch m)"

definition reac_box_catalogue_match :: "bytes \<Rightarrow> reac_box_model option" where
  "reac_box_catalogue_match frame =
     (if length frame < REAC_CTRL_BLOCK_OFF + 32 then None
      else if frame ! 12 \<noteq> 0x88 \<or> frame ! 13 \<noteq> 0x19 then None
      else if frame ! 16 \<noteq> 0xcd \<or> frame ! 17 \<noteq> 0xea then None
      else if pc_kind (reac_ctrl_parse frame) \<noteq> REAC_CTRL_CONFIG_ANNOUNCE then None
      else List.find (\<lambda>m. case reac_box_model_block m REAC_BOX_BLOCK_CONFIG of
             (rc, blk) \<Rightarrow> rc = 1 \<and> peek REAC_CTRL_BLOCK_OFF 32 frame = blk) BOX_CATALOGUE)"

section \<open>Captured rows\<close>

definition captured_block :: "reac_box_model \<Rightarrow> reac_box_block \<Rightarrow> bytes" where
  "captured_block m b = (case b of REAC_BOX_BLOCK_CONFIG \<Rightarrow> bm_config_block m
     | REAC_BOX_BLOCK_CC0014 \<Rightarrow> bm_cc0014 m | REAC_BOX_BLOCK_CC0013 \<Rightarrow> bm_cc0013 m
     | REAC_BOX_BLOCK_CC0016 \<Rightarrow> bm_cc0016 m | REAC_BOX_BLOCK_CC001A \<Rightarrow> bm_cc001a m
     | REAC_BOX_BLOCK_IDENT_FIRST \<Rightarrow> bm_identity_first m | REAC_BOX_BLOCK_IDENT_LAST \<Rightarrow> bm_identity_last m)"

definition all_blocks :: "reac_box_block list" where
  "all_blocks = [REAC_BOX_BLOCK_CONFIG, REAC_BOX_BLOCK_CC0014, REAC_BOX_BLOCK_CC0013, REAC_BOX_BLOCK_CC0016,
     REAC_BOX_BLOCK_CC001A, REAC_BOX_BLOCK_IDENT_FIRST, REAC_BOX_BLOCK_IDENT_LAST]"

lemma captured_rows_ok:
  "list_all (\<lambda>m. bm_origin m = REAC_BOX_CAPTURED \<longrightarrow>
     list_all (\<lambda>b. snd (reac_box_model_block m b) = captured_block m b) all_blocks) BOX_CATALOGUE"
  by code_simp

lemma catalogue_rows_distinct:
  "distinct (map (\<lambda>m. reac_box_model_block m REAC_BOX_BLOCK_CONFIG) BOX_CATALOGUE)
   \<and> list_all (\<lambda>m. fst (reac_box_model_block m REAC_BOX_BLOCK_CONFIG) = 1
        \<and> take 2 (snd (reac_box_model_block m REAC_BOX_BLOCK_CONFIG)) = [1, 3]
        \<and> snd (reac_box_model_block m REAC_BOX_BLOCK_CONFIG) ! 4 \<in> {0x82, 0x84}) BOX_CATALOGUE
   \<and> distinct (map bm_token BOX_CATALOGUE)"
  by code_simp

section \<open>Blocks in frames\<close>

text \<open>A frame that carries a block under the record type.\<close>

definition carries :: "bytes \<Rightarrow> bytes \<Rightarrow> bool" where
  "carries f blk \<longleftrightarrow> 50 \<le> length f \<and> f ! 12 = 0x88 \<and> f ! 13 = 0x19 \<and> f ! 16 = 0xcd \<and> f ! 17 = 0xea
     \<and> peek REAC_CTRL_BLOCK_OFF 32 f = blk"

lemma carries_nth: "carries f blk \<Longrightarrow> i < 32 \<Longrightarrow> f ! (18 + i) = blk ! i"
  by (auto simp: carries_def)

lemma carries_nthE:
  assumes "carries f blk"
  shows "f ! 18 = blk ! 0" "f ! 19 = blk ! 1" "f ! 22 = blk ! 4" "f ! 32 = blk ! 14" "f ! 33 = blk ! 15"
    "f ! 34 = blk ! 16" "f ! 35 = blk ! 17"
  using carries_nth [OF assms, of 0] carries_nth [OF assms, of 1] carries_nth [OF assms, of 4]
    carries_nth [OF assms, of 14] carries_nth [OF assms, of 15] carries_nth [OF assms, of 16]
    carries_nth [OF assms, of 17] by simp_all

lemma carries_drop:
  assumes "carries f blk" and "i < 32"
  shows "drop 18 f ! i = blk ! i"
  using assms carries_nth [OF assms] by (simp add: carries_def)

lemma carries_peek:
  assumes "carries f blk" and "i + n \<le> 32"
  shows "peek i n (drop 18 f) = peek i n blk"
proof -
  have "take n (drop i (take 32 (drop 18 f))) = take n (drop i (drop 18 f))"
    using assms(2) by (simp add: drop_take min_def)
  then show ?thesis using assms by (auto simp: carries_def peek_def)
qed

lemma carries_checksum:
  "carries f blk \<Longrightarrow> reac_ctrl_checksum_verify f = 0 \<longleftrightarrow> take_bit 8 (byte_sum blk) = 0"
  by (auto simp: carries_def checksum_verify_iff)

text \<open>The generator's checksum is the control block's.\<close>

lemma block_check_stamp: "block_check b = reac_ctrl_block_cksum_stamp b"
  by (simp add: block_check_def reac_ctrl_block_cksum_stamp_def)

lemma length_block_check [simp]: "length (block_check b) = length b"
  by (simp add: block_check_stamp)

lemma nth_block_check: "i \<noteq> 31 \<Longrightarrow> block_check b ! i = b ! i"
  by (simp add: block_check_stamp block_stamp_nth)

lemma block_check_sum: "length b = 32 \<Longrightarrow> take_bit 8 (byte_sum (block_check b)) = 0"
  by (simp add: block_check_stamp block_stamp_sum)

lemma peek_block_check:
  assumes "length b = 32" and "i + n \<le> 31"
  shows "peek i n (block_check b) = peek i n b"
  using assms by (auto intro!: peek_cong simp: nth_block_check)

lemma dt1_check_sum: "byte_sum (p @ [dt1_check p]) AND 0x7f = 0"
  using take_bit_neg_cancel [of 7 "byte_sum p"] by (simp add: dt1_check_def and_mask_u32 Let_def)

section \<open>Configuration blocks\<close>

lemma config_slots_counts:
  "length (config_slots l i k) = i + k"
  "length (filter in_code (config_slots l i k)) = i"
  "length (filter (\<lambda>c. c = 1) (config_slots l i k)) = k"
  by (auto simp: config_slots_def in_code_def filter_replicate)

lemma config_table_parse:
  assumes "i + k \<le> 12"
  shows "foldl ports_count (0, 0) (config_slots l i k @ replicate (12 - (i + k)) 3) = (int i, int k)"
  using assms by (simp add: foldl_ports_count config_slots_counts filter_replicate in_code_def)

text \<open>A box's declaration says what the box is. For every model with whole slots that fit the
  twelve-slot table, the generated configuration block parses back to the model's input count,
  output count and head-amp base, in either slot order.\<close>

theorem config_ports_roundtrip:
  assumes "0 \<le> bm_in_ch m" and "0 \<le> bm_out_ch m" and "4 dvd bm_in_ch m" and "4 dvd bm_out_ch m"
    and "bm_in_ch m + bm_out_ch m \<le> 48" and "length (bm_tail m) = 11"
    and "bm_selector m \<in> {0x80, 0x82, 0x84}"
  shows "\<exists>blk. reac_box_model_block m REAC_BOX_BLOCK_CONFIG = (1, blk)
    \<and> reac_ports_parse (Some blk) = Some \<lparr> bp_in_ch = bm_in_ch m, bp_out_ch = bm_out_ch m,
        bp_headamp_base = uint (bm_headamp_strap m) * 16 \<rparr>
    \<and> take_bit 8 (byte_sum blk) = 0"
proof -
  obtain i k where i: "bm_in_ch m = 4 * int i" and k: "bm_out_ch m = 4 * int k"
    using assms(1-4) by (metis dvd_def int_nat_eq nonneg_int_cases zero_le_mult_iff zero_le_numeral
        not_numeral_le_zero)
  have ik: "i + k \<le> 12" using assms(5) i k by simp
  let ?sl = "config_slots (bm_port_layout m) i k"
  let ?t = "?sl @ replicate (12 - (i + k)) 3"
  let ?h = "poke 0 [0x01, 0x03, 0x00, 0x10, bm_selector m, 0x00, 0x00, bm_headamp_strap m] (replicate 32 0)"
  let ?b = "poke 20 (bm_tail m) (poke 8 ?t ?h)"
  have lt: "length ?t = 12" using ik by (simp add: config_slots_counts)
  have lb: "length ?b = 32" using lt assms(6) by simp
  have blk: "reac_box_model_block m REAC_BOX_BLOCK_CONFIG = (1, block_check ?b)"
    using ik by (simp add: build_config_def i k sdiv_nonneg smod_nonneg config_slots_counts)
  have hd: "?b ! j = [0x01, 0x03, 0x00, 0x10, bm_selector m, 0x00, 0x00, bm_headamp_strap m] ! j" if "j < 8" for j
    using that lt assms(6) by (simp add: nth_poke)
  have "peek 8 12 (block_check ?b) = peek 8 12 ?b" using lb by (simp add: peek_block_check)
  also have "\<dots> = peek 8 12 (poke 8 ?t ?h)" using lt assms(6) by (intro peek_poke_other) auto
  also have "\<dots> = ?t" using peek_poke_same [of 8 ?t ?h] lt by simp
  finally have tab: "peek 8 12 (block_check ?b) = ?t" .
  have "ports_block_ok (block_check ?b)"
    using assms(7) hd [of 0] hd [of 1] hd [of 4] by (auto simp: ports_block_ok_def nth_block_check)
  then have "reac_ports_parse (Some (block_check ?b)) = Some \<lparr> bp_in_ch = bm_in_ch m, bp_out_ch = bm_out_ch m,
        bp_headamp_base = uint (bm_headamp_strap m) * 16 \<rparr>"
    using hd [of 7] by (simp add: reac_ports_parse_def tab config_table_parse [OF ik] i k nth_block_check
        del: foldl_append)
  then show ?thesis using blk block_check_sum [OF lb] by blast
qed

theorem config_ports_roundtrip_witness:
  "\<exists>blk. reac_box_model_block BOX_S4000S_0832 REAC_BOX_BLOCK_CONFIG = (1, blk)
    \<and> reac_ports_parse (Some blk) = Some \<lparr> bp_in_ch = 8, bp_out_ch = 32, bp_headamp_base = 0 \<rparr>
    \<and> take_bit 8 (byte_sum blk) = 0"
  using config_ports_roundtrip [of BOX_S4000S_0832] by (simp add: BOX_S4000S_0832_def)

text \<open>The generator reproduces every captured block. For each row of the catalogue that was
  recorded from a real box, each of the seven blocks the generator writes is, byte for byte, the
  recorded one.\<close>

theorem captured_blocks_reproduced:
  assumes "m \<in> set BOX_CATALOGUE" and "bm_origin m = REAC_BOX_CAPTURED"
  shows "snd (reac_box_model_block m b) = captured_block m b"
proof -
  have "b \<in> set all_blocks" by (cases b) (auto simp: all_blocks_def)
  then show ?thesis using captured_rows_ok assms by (auto simp: list_all_iff)
qed

theorem captured_blocks_reproduced_witness:
  "snd (reac_box_model_block BOX_S0808 REAC_BOX_BLOCK_IDENT_LAST) = bm_identity_last BOX_S0808"
  using captured_blocks_reproduced [of BOX_S0808 REAC_BOX_BLOCK_IDENT_LAST]
  by (simp add: BOX_CATALOGUE_def captured_block_def BOX_S0808_def del: reac_box_model_block.simps)

lemma find_distinct_key:
  assumes "distinct (map g xs)" and "x \<in> set xs"
  shows "List.find (\<lambda>y. g y = g x) xs = Some x"
  using assms by (induction xs) auto

text \<open>Recognition. A frame that announces the configuration of a catalogue row is matched
  to that row, and to no other; every row is found by its own token.\<close>

theorem catalogue_match_recognises:
  assumes "m \<in> set BOX_CATALOGUE" and "carries f (snd (reac_box_model_block m REAC_BOX_BLOCK_CONFIG))"
  shows "reac_box_catalogue_match f = Some m \<and> reac_box_catalogue_by_token (Some (bm_token m)) = Some m"
proof -
  let ?b = "\<lambda>m. reac_box_model_block m REAC_BOX_BLOCK_CONFIG"
  have row: "fst (?b m) = 1" "take 2 (snd (?b m)) = [1, 3]" "snd (?b m) ! 4 \<in> {0x82, 0x84}"
    using catalogue_rows_distinct assms(1) by (auto simp: list_all_iff)
  have one: "fst (?b y) = 1" if "y \<in> set BOX_CATALOGUE" for y
    using catalogue_rows_distinct that by (auto simp: list_all_iff)
  have "snd (?b m) ! 0 = 1" using row(2) by (metis nth_Cons_0 nth_take zero_less_numeral)
  then have k: "pc_kind (reac_ctrl_parse f) = REAC_CTRL_CONFIG_ANNOUNCE"
    using assms(2) row(3) carries_nthE [OF assms(2)]
    by (auto simp: reac_ctrl_parse_def carries_def Let_def kind_of_link1_def)
  have p: "peek 18 32 f = snd (?b m)" using assms(2) by (simp add: carries_def)
  have "List.find (\<lambda>y. case ?b y of (rc, blk) \<Rightarrow> rc = 1 \<and> peek 18 32 f = blk) BOX_CATALOGUE =
      List.find (\<lambda>y. ?b y = ?b m) BOX_CATALOGUE"
    using one row(1) by (intro find_cong) (auto simp: p prod_eq_iff split: prod.splits)
  also have "\<dots> = Some m" using catalogue_rows_distinct assms(1) by (intro find_distinct_key) auto
  finally have "reac_box_catalogue_match f = Some m"
    using assms(2) k by (simp add: reac_box_catalogue_match_def carries_def)
  moreover have "List.find (\<lambda>y. bm_token y = bm_token m) BOX_CATALOGUE = Some m"
    using catalogue_rows_distinct assms(1) by (intro find_distinct_key) auto
  ultimately show ?thesis by (simp add: reac_box_catalogue_by_token_def eq_commute)
qed

theorem catalogue_match_recognises_witness:
  "reac_box_catalogue_match (replicate 12 0 @ [0x88, 0x19, 0, 0, 0xcd, 0xea] @ bm_config_block BOX_S1608)
     = Some BOX_S1608"
proof -
  have b: "snd (reac_box_model_block BOX_S1608 REAC_BOX_BLOCK_CONFIG) = bm_config_block BOX_S1608"
    by code_simp
  have "carries (replicate 12 0 @ [0x88, 0x19, 0, 0, 0xcd, 0xea] @ bm_config_block BOX_S1608)
      (bm_config_block BOX_S1608)"
    by (simp add: carries_def peek_def nth_append BOX_S1608_def)
  moreover have "BOX_S1608 \<in> set BOX_CATALOGUE" by (simp add: BOX_CATALOGUE_def)
  ultimately show ?thesis using catalogue_match_recognises [of BOX_S1608] b by simp
qed

section \<open>Identity records\<close>

text \<open>A single-record block before its checksum: twenty header bytes, the data, the record
  checksum and the end mark.\<close>

definition dt1_image :: "u16 \<Rightarrow> bytes \<Rightarrow> bytes" where
  "dt1_image addr d =
     [0x04, 0x03, hi8 (of_nat (18 + length d)), lo8 (of_nat (18 + length d)), 0x00, 0x02, 0x00, 0xfe,
      of_nat (13 + length d), 0xf0, 0x41, 0x0a, 0x00, 0x00, 0x12, 0x12, 0x05, 0x00, hi8 addr, lo8 addr]
     @ d @ [dt1_check ([0x05, 0x00, hi8 addr, lo8 addr] @ d), 0xf7] @ replicate (10 - length d) 0"

lemma hi8_lo8_tag [simp]: "hi8 (0x0500 :: u16) = 5" "lo8 (0x0500 :: u16) = 0"
  by (simp_all add: hi8_def lo8_def)

lemma dt1_head_replicate:
  "dt1_head (replicate 32 0) frag n addr =
     [0x04, frag, hi8 (of_nat (n + 5)), lo8 (of_nat (n + 5)), 0x00, 0x02, 0x00, 0xfe,
      of_nat n, 0xf0, 0x41, 0x0a, 0x00, 0x00, 0x12, 0x12, 0x05, 0x00, hi8 addr, lo8 addr] @ replicate 12 0"
  by (simp add: dt1_head_def poke_def numeral_eq_Suc Let_def)

lemma build_dt1_single_image:
  assumes "length d \<le> 9"
  shows "build_dt1_single (replicate 32 0) addr d = (1, block_check (dt1_image addr d))"
proof -
  let ?n = "length d"
  let ?h = "[0x04, 0x03, hi8 (of_nat (18 + ?n)), lo8 (of_nat (18 + ?n)), 0x00, 0x02, 0x00, 0xfe,
      of_nat (13 + ?n), 0xf0, 0x41, 0x0a, 0x00, 0x00, 0x12, 0x12, 0x05, 0x00, hi8 addr, lo8 addr] :: bytes"
  have lh: "length ?h = 20" by simp
  have e18: "7 + 4 + ?n + 2 + 5 = 18 + ?n" "7 + 4 + ?n + 2 = 13 + ?n" by simp_all
  have z: "replicate 12 (0::u8) = replicate ?n 0 @ [0, 0] @ replicate (10 - ?n) 0"
    using assms by (simp add: replicate_add [symmetric] replicate_Suc [symmetric] del: replicate_Suc)
  have o1: "poke 20 d (dt1_head (replicate 32 0) 0x03 (7 + 4 + ?n + 2) addr) =
      ?h @ d @ [0, 0] @ replicate (10 - ?n) 0"
    unfolding dt1_head_replicate e18 z
    using poke_append [of ?h 20 "replicate ?n 0" d "[0, 0] @ replicate (10 - ?n) 0"] by simp
  have pk: "peek 16 (4 + ?n) (?h @ d @ [0, 0] @ replicate (10 - ?n) 0) = [0x05, 0x00, hi8 addr, lo8 addr] @ d"
    using peek_append [of "take 16 ?h" 16 "[0x05, 0x00, hi8 addr, lo8 addr] @ d" "4 + ?n" "[0, 0] @ replicate (10 - ?n) 0"]
    by simp
  show ?thesis
    unfolding build_dt1_single_def Let_def o1 pk dt1_image_def
    using lh by (simp add: list_update_append del: append_Cons)
qed

text \<open>A reply is recognised for any address and any one to nine bytes of data.\<close>

lemma identity_reply_dt1_image:
  assumes "carries f (block_check (dt1_image addr d))" and "1 \<le> length d" and "length d \<le> 9"
  shows "reac_ctrl_identity_reply (Some f) = (1, Some (addr, d))"
proof -
  let ?B = "block_check (dt1_image addr d)" and ?n = "length d"
  have l: "length (dt1_image addr d) = 32" using assms(3) by (simp add: dt1_image_def)
  have b: "drop 18 f ! i = dt1_image addr d ! i" if "i < 31" for i
    using that carries_drop [OF assms(1), of i] by (simp add: nth_block_check)
  have ln: "unat (of_nat (13 + ?n) :: u8) = 13 + ?n" using assms(3)
    by (subst unat_of_nat) (simp add: take_bit_nat_eq_self)
  have hdr: "drop 18 f ! 0 = 4" "drop 18 f ! 1 = 3" "drop 18 f ! 8 = of_nat (13 + ?n)" "drop 18 f ! 9 = 0xf0"
    "drop 18 f ! 14 = 0x12" "drop 18 f ! 15 = 0x12" "drop 18 f ! 16 = 5" "drop 18 f ! 17 = 0"
    "drop 18 f ! 18 = hi8 addr" "drop 18 f ! 19 = lo8 addr"
    by (simp_all only: b) (simp_all add: dt1_image_def)
  have e: "drop 18 f ! (9 + (13 + ?n) - 1) = 0xf7"
    using assms(3) by (subst b) (simp_all add: dt1_image_def nth_append)
  have ck: "reac_ctrl_checksum_verify f = 0"
    using carries_checksum [OF assms(1)] block_check_sum [OF l] by simp
  have pk: "peek i n (drop 18 f) = peek i n (dt1_image addr d)" if "i + n \<le> 31" for i n
    using that carries_peek [OF assms(1), of i n] peek_block_check [OF l that] by simp
  have "take (5 + ?n) (drop 16 (drop 18 f)) = peek 16 (5 + ?n) (dt1_image addr d)"
    using pk [of 16 "5 + ?n"] assms(3) by (simp add: peek_def)
  also have "\<dots> = [0x05, 0x00, hi8 addr, lo8 addr] @ d @ [dt1_check ([0x05, 0x00, hi8 addr, lo8 addr] @ d)]"
    by (simp add: dt1_image_def peek_def numeral_eq_Suc)
  finally have rc: "reac_ctrl_record_cksum_verify (drop 16 (drop 18 f)) (13 + ?n - 8) = 0"
    using dt1_check_sum [of "[0x05, 0x00, hi8 addr, lo8 addr] @ d"]
    by (simp add: reac_ctrl_record_cksum_verify_def)
  have data: "peek 20 ?n (drop 18 f) = d"
    using pk [of 20 ?n] assms(3) by (simp add: dt1_image_def peek_def)
  have fl: "50 \<le> length f" "f ! 12 = 0x88" "f ! 13 = 0x19" "f ! 16 = 0xcd" "f ! 17 = 0xea"
    using assms(1) by (simp_all add: carries_def)
  have "f ! 18 = 4" "f ! 19 = 3" using hdr(1,2) fl(1) by simp_all
  then have p: "pc_kind (reac_ctrl_parse f) = REAC_CTRL_GRANT" "pc_dt1_tag (reac_ctrl_parse f) = 0x0500"
    using fl hdr unfolding reac_ctrl_parse_def Let_def by (simp_all add: u16be_def)
  show ?thesis
    using assms(2,3) rc unfolding reac_ctrl_identity_reply_def option.case Let_def p hdr ln e
    by (auto simp: ck data)
qed

lemma uint_ucast_small: "uint (w :: u16) < 256 \<Longrightarrow> uint (ucast w :: u8) = uint w"
  by (simp add: unsigned_ucast_eq take_bit_int_eq_self)

lemma decimal_chain:
  fixes u :: int
  assumes "10 * a + r0 = u" and "10 * b + r1 = a" and "10 * c + r2 = b"
  shows "c * 1000 + r2 * 100 + r1 * 10 + r0 = u"
  using assms by simp

lemma fw_digits:
  assumes "v \<le> (9999 :: u16)"
  shows "firmware_milli [ucast (v div 1000), ucast ((v div 100) mod 10), ucast ((v div 10) mod 10), ucast (v mod 10)]
    = Some v"
proof -
  have u: "0 \<le> uint v" "uint v \<le> 9999" using assms by (simp_all add: word_le_def)
  have d: "uint (v div 1000) = uint v div 1000" "uint (v div 100 mod 10) = uint v div 100 mod 10"
    "uint (v div 10 mod 10) = uint v div 10 mod 10" "uint (v mod 10) = uint v mod 10"
    by (simp_all add: uint_div uint_mod)
  have k: "uint v div 1000 < 10" using u by simp
  have e: "uint (ucast (v div 1000) :: u8) = uint v div 1000"
    "uint (ucast (v div 100 mod 10) :: u8) = uint v div 100 mod 10"
    "uint (ucast (v div 10 mod 10) :: u8) = uint v div 10 mod 10"
    "uint (ucast (v mod 10) :: u8) = uint v mod 10"
    using k by (simp_all add: uint_ucast_small d)
  have q: "uint v div 100 = uint v div 10 div 10" "uint v div 1000 = uint v div 10 div 10 div 10"
    by (simp_all add: div_mult2_eq [symmetric])
  have "uint v div 1000 * 1000 + uint v div 100 mod 10 * 100 + uint v div 10 mod 10 * 10 + uint v mod 10 = uint v"
    unfolding q by (rule decimal_chain) (rule mult_div_mod_eq)+
  moreover have "x mod 10 \<le> 9" for x :: int using pos_mod_bound [of 10 x] by simp
  ultimately show ?thesis using k by (simp add: firmware_milli_def e word_less_def not_less)
qed

text \<open>The model name travels in two fragments; the images of both, and the buffer they fill.\<close>

lemma length_name_field [simp]: "length (name_field m) = 16"
proof -
  have "length (takeWhile p (take 16 s)) \<le> 16" for p and s :: string
    using length_takeWhile_le [of p "take 16 s"] by simp
  then show ?thesis by (simp add: name_field_def Let_def split: option.splits)
qed

definition ident_first_image :: "reac_box_model \<Rightarrow> bytes" where
  "ident_first_image m =
     [0x04, 0x01, 0x00, 0x1b, 0x00, 0x02, 0x00, 0xfe, 22, 0xf0, 0x41, 0x0a, 0x00, 0x00, 0x12, 0x12,
      0x05, 0x00, 0x10, 0x00, 0x01] @ take 10 (name_field m) @ [0]"

definition ident_last_image :: "reac_box_model \<Rightarrow> bytes" where
  "ident_last_image m =
     [0x04, 0x02, 0x00, 13, 0x00, 0x02, 0x00, 0xfe, 8] @ drop 10 (name_field m)
     @ [dt1_check ([0x05, 0x00, 0x10, 0x00, 0x01] @ name_field m), 0xf7] @ replicate 15 0"

lemma hi8_lo8_name [simp]:
  "hi8 (0x1000 :: u16) = 0x10" "lo8 (0x1000 :: u16) = 0" "hi8 (27 :: u16) = 0" "lo8 (27 :: u16) = 27"
  by (simp_all add: hi8_def lo8_def)

lemma build_ident_first_image: "build_ident_first m (replicate 32 0) = (1, block_check (ident_first_image m))"
proof -
  let ?h = "[0x04, 0x01, 0x00, 0x1b, 0x00, 0x02, 0x00, 0xfe, 22, 0xf0, 0x41, 0x0a, 0x00, 0x00, 0x12, 0x12,
      0x05, 0x00, 0x10, 0x00, 0x01] :: bytes"
  have "(dt1_head (replicate 32 0) 0x01 22 0x1000)[20 := 0x01] = ?h @ replicate 10 0 @ [0]"
    unfolding dt1_head_replicate by (simp add: numeral_eq_Suc)
  then show ?thesis
    using poke_append [of ?h 21 "replicate 10 0" "take 10 (name_field m)" "[0]"]
    by (simp add: build_ident_first_def ident_first_image_def Let_def)
qed

lemma build_ident_last_image: "build_ident_last m (replicate 32 0) = (1, block_check (ident_last_image m))"
proof -
  let ?h = "[0x04, 0x02, 0x00, 13, 0x00, 0x02, 0x00, 0xfe, 8] :: bytes"
  have "poke 0 ?h (replicate 32 0) = ?h @ replicate 6 0 @ replicate 17 0"
    by (simp add: poke_def numeral_eq_Suc)
  then have "poke 9 (drop 10 (name_field m)) (poke 0 ?h (replicate 32 0)) =
      (?h @ drop 10 (name_field m)) @ 0 # 0 # replicate 15 0"
    using poke_append [of ?h 9 "replicate 6 0" "drop 10 (name_field m)" "replicate 17 0"]
    by (simp add: numeral_eq_Suc)
  then show ?thesis
    by (simp add: build_ident_last_def ident_last_image_def Let_def list_update_append del: append_Cons) simp
qed

lemma fragment_guard:
  assumes "carries f (block_check b)" and "length b = 32" and "b ! 0 = 4"
    and "b ! 4 = 0" and "b ! 5 = 2" and "b ! 6 = 0" and "b ! 7 = 0xfe" and "b ! 8 = of_nat n" and "1 \<le> n" and "n \<le> 22"
  shows "b ! 1 = 1 \<Longrightarrow> reac_ctrl_identity_fragment fr f =
      (fr \<lparr> if_src := peek 6 6 f, if_buf := poke 0 (peek 9 n b) (if_buf fr), if_len := of_nat n,
            if_have_first := True \<rparr>, 0, None)"
    and "b ! 1 = 2 \<Longrightarrow> if_have_first fr \<Longrightarrow> if_src fr = peek 6 6 f \<Longrightarrow> unat (if_len fr) + n \<le> 64 \<Longrightarrow>
      reac_ctrl_identity_fragment fr f =
      (let r = poke (unat (if_len fr)) (peek 9 n b) (if_buf fr);
           out = identity_record_out r (unat (if_len fr) + n)
       in (fr \<lparr> if_buf := r, if_have_first := False \<rparr>, if out = None then 0 else 1, out))"
proof -
  have d: "drop 18 f ! i = b ! i" if "i < 31" for i
    using that carries_drop [OF assms(1), of i] by (simp add: nth_block_check)
  have ck: "reac_ctrl_checksum_verify f = 0"
    using carries_checksum [OF assms(1)] block_check_sum [OF assms(2)] by simp
  have n: "unat (of_nat n :: u8) = n" using assms(10) by (subst unat_of_nat) (simp add: take_bit_nat_eq_self)
  have pk: "peek 9 n (drop 18 f) = peek 9 n b"
    using carries_peek [OF assms(1), of 9 n] peek_block_check [OF assms(2), of 9 n] assms(10) by simp
  have fl: "\<not> length f < 18 + 32" "f ! 16 = 0xcd" "f ! 17 = 0xea" using assms(1) by (simp_all add: carries_def)
  have n2: "n \<noteq> 0" "\<not> 9 + n > 32 - 1" using assms(9,10) by simp_all
  note gd = d [of 0] d [of 1] d [of 4] d [of 5] d [of 6] d [of 7] d [of 8]
  show "reac_ctrl_identity_fragment fr f =
      (fr \<lparr> if_src := peek 6 6 f, if_buf := poke 0 (peek 9 n b) (if_buf fr), if_len := of_nat n,
            if_have_first := True \<rparr>, 0, None)" if "b ! 1 = 1"
    unfolding reac_ctrl_identity_fragment_def Let_def using fl n2 gd that assms(3-8) ck
    by (simp add: n pk del: nth_drop drop_drop)
  show "reac_ctrl_identity_fragment fr f =
      (let r = poke (unat (if_len fr)) (peek 9 n b) (if_buf fr);
           out = identity_record_out r (unat (if_len fr) + n)
       in (fr \<lparr> if_buf := r, if_have_first := False \<rparr>, if out = None then 0 else 1, out))"
    if "b ! 1 = 2" "if_have_first fr" "if_src fr = peek 6 6 f" "unat (if_len fr) + n \<le> 64"
    unfolding reac_ctrl_identity_fragment_def using fl n2 gd that assms(3-8) ck
    by (simp add: n pk del: nth_drop drop_drop cong: if_cong)
qed

lemma ident_images [simp]:
  "length (ident_first_image m) = 32" "length (ident_last_image m) = 32"
  by (simp_all add: ident_first_image_def ident_last_image_def)

text \<open>Two fragments of one source make the whole name record.\<close>

lemma ident_fragments_join:
  assumes "carries fa (block_check (ident_first_image m))" and "carries fb (block_check (ident_last_image m))"
    and "peek 6 6 fa = peek 6 6 fb" and "length (if_buf fr) = 64"
  shows "snd (reac_ctrl_identity_fragment (fst (reac_ctrl_identity_fragment fr fa)) fb)
    = (1, Some (0x1000, 1 # name_field m))"
proof -
  let ?nm = "name_field m"
  let ?ck = "dt1_check ([0x05, 0x00, 0x10, 0x00, 0x01] @ ?nm)"
  let ?p1 = "[0xf0, 0x41, 0x0a, 0x00, 0x00, 0x12, 0x12, 0x05, 0x00, 0x10, 0x00, 0x01] @ take 10 ?nm"
  let ?p2 = "drop 10 ?nm @ [?ck, 0xf7]"
  have a: "peek 9 22 (ident_first_image m) = ?p1" by (simp add: ident_first_image_def peek_def)
  have b: "peek 9 8 (ident_last_image m) = ?p2" by (simp add: ident_last_image_def peek_def)
  have f1: "fst (reac_ctrl_identity_fragment fr fa) =
      fr \<lparr> if_src := peek 6 6 fb, if_buf := poke 0 ?p1 (if_buf fr), if_len := 22, if_have_first := True \<rparr>"
    using fragment_guard(1) [OF assms(1), of 22 fr] a assms(3) by (simp add: ident_first_image_def)
  define R where "R = poke 22 ?p2 (poke 0 ?p1 (if_buf fr))"
  have "R = ?p1 @ ?p2 @ drop 30 (if_buf fr)" by (simp add: poke_def R_def)
  also have "\<dots> = [0xf0, 0x41, 0x0a, 0x00, 0x00, 0x12, 0x12, 0x05, 0x00, 0x10, 0x00, 0x01] @ ?nm @ [?ck, 0xf7] @ drop 30 (if_buf fr)"
    by (metis append.assoc append_take_drop_id)
  finally have r: "R = [0xf0, 0x41, 0x0a, 0x00, 0x00, 0x12, 0x12, 0x05, 0x00, 0x10, 0x00, 0x01] @ ?nm @ [?ck, 0xf7] @ drop 30 (if_buf fr)" .
  have "take 22 (drop 7 R) = [0x05, 0x00, 0x10, 0x00, 0x01] @ ?nm @ [?ck]" unfolding r by (simp add: numeral_eq_Suc)
  then have v: "reac_ctrl_record_cksum_verify (drop 7 R) 22 = 0"
    using dt1_check_sum [of "[0x05, 0x00, 0x10, 0x00, 0x01] @ ?nm"] by (simp add: reac_ctrl_record_cksum_verify_def)
  have h: "R ! 0 = 0xf0" "R ! 1 = 0x41" "R ! 3 = 0" "R ! 4 = 0" "R ! 5 = 0x12" "R ! 6 = 0x12"
    "R ! 7 = 5" "R ! 8 = 0" "R ! 9 = 0x10" "R ! 10 = 0" "R ! 29 = 0xf7"
    unfolding r by (simp_all add: nth_append)
  have pl: "peek 11 17 R = 1 # ?nm" unfolding r by (simp add: peek_def)
  have out: "identity_record_out R 30 = Some (0x1000, 1 # ?nm)"
    unfolding identity_record_out_def using v h by (simp add: pl u16be_def)
  have u: "unat (22 :: u8) = 22" by simp
  show ?thesis unfolding f1
    using fragment_guard(2) [OF assms(2), of 8] b out by (simp add: ident_last_image_def Let_def R_def)
qed

lemma store_model_name_field:
  assumes "bm_name m = Some s" and "s \<noteq> []" and "length s \<le> 16" and "CHR 0x00 \<notin> set s"
    and "length (id_model_name ident) = 17"
  shows "store_model_name ident (1 # name_field m) =
    (ident \<lparr> id_model_name := (poke 0 (map char_byte s) (id_model_name ident))[length s := 0],
            id_has_model_name := True \<rparr>, 1)"
proof -
  have nf: "name_field m = map char_byte s @ replicate (16 - length s) 0"
  proof -
    have tw: "takeWhile (\<lambda>c. c \<noteq> CHR 0x00) s = s"
      using assms(4) by (simp only: takeWhile_eq_all_conv) blast
    show ?thesis using assms(1,3) by (simp only: name_field_def Let_def option.case tw take_all length_map)
  qed
  have nz: "char_byte c \<noteq> 0" if "c \<in> set s" for c
    using that assms(4) by (auto simp: char_byte_eq_0_iff)
  have "takeWhile (\<lambda>b. b \<noteq> 0) (name_field m) = map char_byte s"
    unfolding nf using nz by (subst takeWhile_append2) (auto simp: takeWhile_replicate)
  then show ?thesis using assms(2) by (simp add: store_model_name_def Let_def peek_def)
qed

section \<open>The identity property\<close>

text \<open>A box's identity survives the wire. For a model with a printable name, the master reads
  back, from the four frames that carry the generated identity blocks, the model's firmware number,
  the three parts of its REAC version and its name, whatever the identity and the fragment buffer
  held before.\<close>

theorem box_identity_roundtrip:
  assumes "bm_fw_milli m \<le> 9999" and "bm_has_identity_record m"
    and "bm_name m = Some s" and "s \<noteq> []" and "length s \<le> 16" and "CHR 0x00 \<notin> set s"
    and "carries f16 (snd (reac_box_model_block m REAC_BOX_BLOCK_CC0016))"
    and "carries f1a (snd (reac_box_model_block m REAC_BOX_BLOCK_CC001A))"
    and "carries fa (snd (reac_box_model_block m REAC_BOX_BLOCK_IDENT_FIRST))"
    and "carries fb (snd (reac_box_model_block m REAC_BOX_BLOCK_IDENT_LAST))"
    and "peek 6 6 fa = peek 6 6 fb" and "length (if_buf fr) = 64" and "length (id_model_name ident) = 17"
  shows "\<exists>d16 d1a dn. reac_ctrl_identity_reply (Some f16) = (1, Some (0x0000, d16))
    \<and> reac_ctrl_identity_reply (Some f1a) = (1, Some (0x0600, d1a))
    \<and> snd (reac_ctrl_identity_fragment (fst (reac_ctrl_identity_fragment fr fa)) fb) = (1, Some (0x1000, dn))
    \<and> (let i1 = fst (reac_identity_ingest ident 0x0000 d16);
            i2 = fst (reac_identity_ingest i1 0x0600 d1a);
            i3 = fst (reac_identity_ingest i2 0x1000 dn)
        in id_has_fw i3 \<and> id_fw_milli i3 = bm_fw_milli m
         \<and> id_has_reac_version i3 \<and> id_reac_version_major i3 = bm_reac_major m
         \<and> id_reac_version_minor i3 = bm_reac_minor m \<and> id_reac_version_patch i3 = bm_reac_patch m
         \<and> id_has_model_name i3 \<and> take (length s) (id_model_name i3) = map char_byte s
         \<and> id_model_name i3 ! length s = 0)"
proof -
  let ?v = "bm_fw_milli m"
  let ?d16 = "[ucast (?v div 1000), ucast ((?v div 100) mod 10), ucast ((?v div 10) mod 10), ucast (?v mod 10)] :: bytes"
  let ?d1a = "[0x00, 0x00, hi8 (bm_reac_major m), lo8 (bm_reac_major m), hi8 (bm_reac_minor m),
        lo8 (bm_reac_minor m), hi8 (bm_reac_patch m), lo8 (bm_reac_patch m)]"
  have b: "carries f16 (block_check (dt1_image 0x0000 ?d16))" "carries f1a (block_check (dt1_image 0x0600 ?d1a))"
    "carries fa (block_check (ident_first_image m))" "carries fb (block_check (ident_last_image m))"
    using assms(1,2,7-10)
    by (simp_all add: build_firmware_def build_reac_version_def build_dt1_single_image not_less [symmetric]
        build_ident_first_image build_ident_last_image Let_def)
  have r: "reac_ctrl_identity_reply (Some f16) = (1, Some (0x0000, ?d16))"
    "reac_ctrl_identity_reply (Some f1a) = (1, Some (0x0600, ?d1a))"
    using b(1,2) by (simp_all add: identity_reply_dt1_image)
  note j = ident_fragments_join [OF b(3,4) assms(11,12)]
  let ?i1 = "fst (reac_identity_ingest ident 0x0000 ?d16)"
  let ?i2 = "fst (reac_identity_ingest ?i1 0x0600 ?d1a)"
  have i1: "?i1 = ident \<lparr> id_fw_milli := ?v, id_has_fw := True \<rparr>"
    using fw_digits [OF assms(1)] by (simp add: reac_identity_ingest_def)
  have i2: "id_has_fw ?i2" "id_fw_milli ?i2 = ?v" "id_has_reac_version ?i2"
    "id_reac_version_major ?i2 = bm_reac_major m" "id_reac_version_minor ?i2 = bm_reac_minor m"
    "id_reac_version_patch ?i2 = bm_reac_patch m" "id_model_name ?i2 = id_model_name ident"
    unfolding i1 by (simp_all add: reac_identity_ingest_def)
  have i3: "fst (reac_identity_ingest ?i2 0x1000 (1 # name_field m)) =
      ?i2 \<lparr> id_model_name := (poke 0 (map char_byte s) (id_model_name ident))[length s := 0],
            id_has_model_name := True \<rparr>"
    using store_model_name_field [OF assms(3-6), of ?i2] i2(7) assms(13) by (simp add: reac_identity_ingest_def)
  have nm: "take (length s) ((poke 0 (map char_byte s) (id_model_name ident))[length s := 0]) = map char_byte s"
    "(poke 0 (map char_byte s) (id_model_name ident))[length s := 0] ! length s = 0"
    using assms(5,13) by (simp_all add: poke_def)
  let ?i3 = "fst (reac_identity_ingest ?i2 0x1000 (1 # name_field m))"
  have f3: "id_has_fw ?i3" "id_fw_milli ?i3 = ?v" "id_has_reac_version ?i3"
    "id_reac_version_major ?i3 = bm_reac_major m" "id_reac_version_minor ?i3 = bm_reac_minor m"
    "id_reac_version_patch ?i3 = bm_reac_patch m" "id_has_model_name ?i3"
    "id_model_name ?i3 = (poke 0 (map char_byte s) (id_model_name ident))[length s := 0]"
    unfolding i3 using i2 by simp_all
  show ?thesis
    by (rule exI [of _ ?d16], rule exI [of _ ?d1a], rule exI [of _ "1 # name_field m"])
      (simp only: r j Let_def f3 nm simp_thms)
qed

text \<open>The frame that carries a block, for the instance.\<close>

definition frame_of :: "bytes \<Rightarrow> bytes" where
  "frame_of blk = replicate 12 0 @ [0x88, 0x19, 0, 0, 0xcd, 0xea] @ blk"

lemma carries_frame_of: "length blk = 32 \<Longrightarrow> carries (frame_of blk) blk"
  by (simp add: carries_def frame_of_def peek_def nth_append)

theorem box_identity_roundtrip_witness:
  "snd (reac_ctrl_identity_fragment (fst (reac_ctrl_identity_fragment
      \<lparr> if_src = [], if_have_first = False, if_len = 0, if_buf = replicate 64 0 \<rparr>
      (frame_of (snd (reac_box_model_block BOX_S0808 REAC_BOX_BLOCK_IDENT_FIRST)))))
      (frame_of (snd (reac_box_model_block BOX_S0808 REAC_BOX_BLOCK_IDENT_LAST)))) \<noteq> (0, None)"
proof -
  let ?b = "\<lambda>b. snd (reac_box_model_block BOX_S0808 b)"
  have f: "bm_fw_milli BOX_S0808 \<le> 9999" "bm_has_identity_record BOX_S0808" "bm_name BOX_S0808 = Some ''S-0808''"
    by (simp_all add: BOX_S0808_def)
  have l: "length (?b b) = 32" for b
  proof -
    have "list_all (\<lambda>b. length (?b b) = 32) all_blocks" by code_simp
    moreover have "b \<in> set all_blocks" by (cases b) (auto simp: all_blocks_def)
    ultimately show ?thesis by (simp add: list_all_iff)
  qed
  have n: "''S-0808'' \<noteq> []" "length ''S-0808'' \<le> 16" "CHR 0x00 \<notin> set ''S-0808''" by simp_all
  have p: "peek 6 6 (frame_of x) = peek 6 6 (frame_of y)" for x y by (simp add: frame_of_def peek_def)
  have u: "length (if_buf \<lparr> if_src = [], if_have_first = False, if_len = 0, if_buf = replicate 64 0 \<rparr>) = 64" by simp
  have i: "length (id_model_name reac_identity_init) = 17" by (simp add: reac_identity_init_def)
  note c = carries_frame_of [OF l]
  from box_identity_roundtrip [OF f n c c c c p u i] show ?thesis by auto
qed

end
