(* ===== verification/Reac_Ctrl_Emit.thy ===== *)
theory Reac_Ctrl_Emit
  imports Reac_Box_Model Reac_Codec
begin

text \<open>
  The control-frame writers of \<^verbatim>\<open>src/reac_ctrlblk.c\<close>: the table of frames, the one function that
  lays a frame out from a row of it, every builder on top, and the head-amp and grant-sweep
  writers. A builder that refuses (returns 0 or -1) is \<open>None\<close>; a frame it writes is a list whose
  length is the C result.
\<close>

section \<open>The frame table\<close>

datatype ctrl_block = BLOCK_ZERO | BLOCK_DESC | BLOCK_TMPL | BLOCK_CONFIG | BLOCK_IDENT_FIRST
  | BLOCK_CC0014 | BLOCK_CC0013 | BLOCK_CC0016 | BLOCK_CC001A | BLOCK_IDENT_LAST

datatype ctrl_len = LEN_ARG_WIDTH | LEN_MODEL_WIDTH | LEN_DOWNSTREAM
datatype ctrl_gate = GATE_ALWAYS | GATE_HAS_IDENTITY
datatype ctrl_cksum = CKSUM_NONE | CKSUM_BLOCK | CKSUM_RECORD

record ctrl_frame =
  cf_type0 :: u8
  cf_type1 :: u8
  cf_block :: ctrl_block
  cf_tmpl :: bytes
  cf_arg_off :: nat
  cf_arg_len :: nat
  cf_rec_off :: nat
  cf_rec_len :: nat
  cf_cksum :: ctrl_cksum
  cf_len :: ctrl_len
  cf_gate :: ctrl_gate
  cf_audio :: bool

definition TMPL_BOX_HB :: bytes where
  "TMPL_BOX_HB = [0x01, 0x03, 0x00, 0x01, 0x81] @ replicate 27 0"

definition TMPL_HEADAMP :: bytes where
  "TMPL_HEADAMP = [0x04, 0x03, 0x00, 0x13, 0x00, 0x02, 0x00, 0xfe, 0x13 - 5, 0xf0, 0x41, 0x0a, 0x00, 0x00,
     0x12, 0x12, 0x01, 0x01, 0x00, 0x00, 0x00, 0x00, 0xf7] @ replicate 9 0"

abbreviation (input) HEADAMP_ARG_OFF :: nat where "HEADAMP_ARG_OFF \<equiv> 18"
abbreviation (input) HEADAMP_ARG_LEN :: nat where "HEADAMP_ARG_LEN \<equiv> 3"
abbreviation (input) HEADAMP_REC_OFF :: nat where "HEADAMP_REC_OFF \<equiv> 16"
abbreviation (input) HEADAMP_REC_LEN :: nat where "HEADAMP_REC_LEN \<equiv> 6"
abbreviation (input) DESC_WORD_HI :: u8 where "DESC_WORD_HI \<equiv> 0x00"
abbreviation (input) DESC_WORD_LO :: u8 where "DESC_WORD_LO \<equiv> 0x7a"

datatype ctrl_frame_id = CTRL_BOX_HB | CTRL_UPSTREAM_FILLER | CTRL_FLOOD_FILLER | CTRL_CONFIG_ANNOUNCE
  | CTRL_IDENT_FIRST | CTRL_COLDCONNECT | CTRL_COLDCONNECT_0013 | CTRL_COLDCONNECT_0016
  | CTRL_COLDCONNECT_001A | CTRL_IDENT_LAST | CTRL_HEADAMP

text \<open>A row with every field it does not name at zero.\<close>

definition ctrl_row :: "u8 \<Rightarrow> u8 \<Rightarrow> ctrl_block \<Rightarrow> ctrl_cksum \<Rightarrow> ctrl_len \<Rightarrow> ctrl_frame" where
  "ctrl_row t0 t1 b k l = \<lparr> cf_type0 = t0, cf_type1 = t1, cf_block = b, cf_tmpl = [], cf_arg_off = 0,
     cf_arg_len = 0, cf_rec_off = 0, cf_rec_len = 0, cf_cksum = k, cf_len = l, cf_gate = GATE_ALWAYS,
     cf_audio = False \<rparr>"

fun CTRL_FRAMES :: "ctrl_frame_id \<Rightarrow> ctrl_frame" where
  "CTRL_FRAMES CTRL_BOX_HB =
     (ctrl_row 0xcd 0xea BLOCK_TMPL CKSUM_BLOCK LEN_ARG_WIDTH) \<lparr> cf_tmpl := TMPL_BOX_HB \<rparr>"
| "CTRL_FRAMES CTRL_UPSTREAM_FILLER =
     (ctrl_row 0x00 0x00 BLOCK_DESC CKSUM_NONE LEN_ARG_WIDTH) \<lparr> cf_audio := True \<rparr>"
| "CTRL_FRAMES CTRL_FLOOD_FILLER =
     (ctrl_row 0x00 0x00 BLOCK_ZERO CKSUM_NONE LEN_ARG_WIDTH) \<lparr> cf_audio := True \<rparr>"
| "CTRL_FRAMES CTRL_CONFIG_ANNOUNCE = ctrl_row 0xcd 0xea BLOCK_CONFIG CKSUM_BLOCK LEN_MODEL_WIDTH"
| "CTRL_FRAMES CTRL_IDENT_FIRST =
     (ctrl_row 0xcd 0xea BLOCK_IDENT_FIRST CKSUM_NONE LEN_MODEL_WIDTH) \<lparr> cf_gate := GATE_HAS_IDENTITY \<rparr>"
| "CTRL_FRAMES CTRL_COLDCONNECT =
     (ctrl_row 0xcd 0xea BLOCK_CC0014 CKSUM_BLOCK LEN_ARG_WIDTH) \<lparr> cf_audio := True \<rparr>"
| "CTRL_FRAMES CTRL_COLDCONNECT_0013 =
     (ctrl_row 0xcd 0xea BLOCK_CC0013 CKSUM_NONE LEN_ARG_WIDTH) \<lparr> cf_audio := True \<rparr>"
| "CTRL_FRAMES CTRL_COLDCONNECT_0016 =
     (ctrl_row 0xcd 0xea BLOCK_CC0016 CKSUM_NONE LEN_ARG_WIDTH) \<lparr> cf_audio := True \<rparr>"
| "CTRL_FRAMES CTRL_COLDCONNECT_001A =
     (ctrl_row 0xcd 0xea BLOCK_CC001A CKSUM_NONE LEN_ARG_WIDTH) \<lparr> cf_audio := True \<rparr>"
| "CTRL_FRAMES CTRL_IDENT_LAST =
     (ctrl_row 0xcd 0xea BLOCK_IDENT_LAST CKSUM_NONE LEN_MODEL_WIDTH) \<lparr> cf_gate := GATE_HAS_IDENTITY \<rparr>"
| "CTRL_FRAMES CTRL_HEADAMP =
     (ctrl_row 0xcd 0xea BLOCK_TMPL CKSUM_RECORD LEN_DOWNSTREAM)
       \<lparr> cf_tmpl := TMPL_HEADAMP, cf_arg_off := HEADAMP_ARG_OFF, cf_arg_len := HEADAMP_ARG_LEN,
         cf_rec_off := HEADAMP_REC_OFF, cf_rec_len := HEADAMP_REC_LEN \<rparr>"

section \<open>Laying a frame out\<close>

definition reac_ctrl_box_frame_len :: "int \<Rightarrow> nat" where
  "reac_ctrl_box_frame_len n_ch = 50 + nat n_ch * 12 * 3 + 2"

fun ctrl_block_to_box_block :: "ctrl_block \<Rightarrow> reac_box_block option" where
  "ctrl_block_to_box_block BLOCK_CONFIG = Some REAC_BOX_BLOCK_CONFIG"
| "ctrl_block_to_box_block BLOCK_IDENT_FIRST = Some REAC_BOX_BLOCK_IDENT_FIRST"
| "ctrl_block_to_box_block BLOCK_CC0014 = Some REAC_BOX_BLOCK_CC0014"
| "ctrl_block_to_box_block BLOCK_CC0013 = Some REAC_BOX_BLOCK_CC0013"
| "ctrl_block_to_box_block BLOCK_CC0016 = Some REAC_BOX_BLOCK_CC0016"
| "ctrl_block_to_box_block BLOCK_CC001A = Some REAC_BOX_BLOCK_CC001A"
| "ctrl_block_to_box_block BLOCK_IDENT_LAST = Some REAC_BOX_BLOCK_IDENT_LAST"
| "ctrl_block_to_box_block _ = None"

definition ctrl_gate_ok :: "reac_box_model \<Rightarrow> ctrl_gate \<Rightarrow> bool" where
  "ctrl_gate_ok m g = (case g of GATE_HAS_IDENTITY \<Rightarrow> bm_has_identity_record m | _ \<Rightarrow> True)"

text \<open>The 32 bytes a row puts down; a generated block the model refuses stays zero.\<close>

definition lay_bytes :: "ctrl_frame \<Rightarrow> reac_box_model option \<Rightarrow> bytes" where
  "lay_bytes f m' =
     (case cf_block f of
        BLOCK_ZERO \<Rightarrow> replicate 32 0
      | BLOCK_DESC \<Rightarrow> concat (replicate 16 [DESC_WORD_HI, DESC_WORD_LO])
      | BLOCK_TMPL \<Rightarrow> cf_tmpl f
      | b \<Rightarrow> (case (m', ctrl_block_to_box_block b) of
               (Some m, Some bb) \<Rightarrow>
                 (case reac_box_model_block m bb of (rc, gen) \<Rightarrow> if rc = 1 then gen else replicate 32 0)
             | _ \<Rightarrow> replicate 32 0))"

definition laid_block :: "ctrl_frame \<Rightarrow> reac_box_model option \<Rightarrow> bytes option \<Rightarrow> bytes" where
  "laid_block f m args =
     (let block = lay_bytes f m in
      case args of None \<Rightarrow> block
      | Some a \<Rightarrow> if cf_arg_len f \<noteq> 0 then poke (cf_arg_off f) (take (cf_arg_len f) a) block else block)"

definition ctrl_lay_block :: "bytes \<Rightarrow> ctrl_frame \<Rightarrow> reac_box_model option \<Rightarrow> bytes option \<Rightarrow> bytes" where
  "ctrl_lay_block frame f m args = poke REAC_CTRL_BLOCK_OFF (laid_block f m args) frame"

text \<open>The record checksum is stamped first, then the block's, over it.\<close>

definition finish_block :: "ctrl_frame \<Rightarrow> bytes \<Rightarrow> bytes" where
  "finish_block f b =
     (case cf_cksum f of
        CKSUM_RECORD \<Rightarrow> reac_ctrl_block_cksum_stamp
          (poke (cf_rec_off f) (reac_ctrl_record_cksum_stamp (drop (cf_rec_off f) b) (cf_rec_len f)) b)
      | CKSUM_BLOCK \<Rightarrow> reac_ctrl_block_cksum_stamp b
      | CKSUM_NONE \<Rightarrow> b)"

definition ctrl_finish :: "bytes \<Rightarrow> ctrl_frame \<Rightarrow> bytes" where
  "ctrl_finish frame f =
     poke REAC_CTRL_BLOCK_OFF (finish_block f (peek REAC_CTRL_BLOCK_OFF REAC_CTRL_BLOCK_LEN frame)) frame"

definition ctrl_emit_as :: "ctrl_frame \<Rightarrow> reac_box_model option \<Rightarrow> mac \<Rightarrow> mac \<Rightarrow> u16 \<Rightarrow> int \<Rightarrow>
    bytes option \<Rightarrow> planes \<Rightarrow> int \<Rightarrow> bytes option" where
  "ctrl_emit_as f model dst src counter n_ch args planar ns =
     (if cf_len f = LEN_ARG_WIDTH \<and> \<not> reac_box_width_ok n_ch then None
      else if cf_len f \<noteq> LEN_DOWNSTREAM \<and> (model \<noteq> None \<or> cf_len f = LEN_MODEL_WIDTH)
              \<and> \<not> reac_box_width_ok n_ch then None
      else let m = (case model of Some mm \<Rightarrow> mm | None \<Rightarrow> reac_box_catalogue_by_width n_ch) in
      if \<not> ctrl_gate_ok m (cf_gate f) then None
      else let model_w = (if model \<noteq> None then n_ch else bm_in_ch m);
               len = (if cf_len f = LEN_DOWNSTREAM then REAC_FRAME_BYTES
                      else reac_ctrl_box_frame_len (if cf_len f = LEN_MODEL_WIDTH then model_w else n_ch));
               o1 = put_hdr (replicate len 0) dst src counter (cf_type0 f) (cf_type1 f);
               o2 = ctrl_lay_block o1 f (Some m) args;
               o3 = (if cf_audio f
                     then poke 50 (reac_braid_encode (peek 50 (nat n_ch * 36) o2) n_ch planar n_ch ns) o2
                     else o2);
               o4 = ctrl_finish o3 f
           in Some (o4[len - 2 := REAC_END_MARKER_0, len - 1 := REAC_END_MARKER_1]))"

definition ctrl_emit :: "ctrl_frame \<Rightarrow> mac \<Rightarrow> mac \<Rightarrow> u16 \<Rightarrow> int \<Rightarrow> bytes option \<Rightarrow> planes \<Rightarrow> int \<Rightarrow> bytes option" where
  "ctrl_emit f dst src counter n_ch args planar ns = ctrl_emit_as f None dst src counter n_ch args planar ns"

definition ctrl_stamp :: "bytes \<Rightarrow> ctrl_frame \<Rightarrow> bytes option \<Rightarrow> bytes" where
  "ctrl_stamp frame f args =
     ctrl_finish (ctrl_lay_block (frame[16 := cf_type0 f, 17 := cf_type1 f]) f None args) f"

section \<open>Builders\<close>

definition reac_ctrl_build_box_hb :: "mac \<Rightarrow> mac \<Rightarrow> u16 \<Rightarrow> int \<Rightarrow> bytes option" where
  "reac_ctrl_build_box_hb master src counter n_ch =
     ctrl_emit (CTRL_FRAMES CTRL_BOX_HB) master src counter n_ch None None 0"

definition reac_ctrl_build_upstream_filler :: "mac \<Rightarrow> mac \<Rightarrow> u16 \<Rightarrow> int \<Rightarrow> planes \<Rightarrow> int \<Rightarrow> bytes option" where
  "reac_ctrl_build_upstream_filler master src counter n_ch planar ns =
     ctrl_emit (CTRL_FRAMES CTRL_UPSTREAM_FILLER) master src counter n_ch None planar ns"

definition reac_ctrl_build_flood_filler :: "mac \<Rightarrow> mac \<Rightarrow> u16 \<Rightarrow> int \<Rightarrow> planes \<Rightarrow> int \<Rightarrow> bytes option" where
  "reac_ctrl_build_flood_filler bcast src counter n_ch planar ns =
     ctrl_emit (CTRL_FRAMES CTRL_FLOOD_FILLER) bcast src counter n_ch None planar ns"

definition reac_ctrl_build_config_announce :: "mac \<Rightarrow> mac \<Rightarrow> u16 \<Rightarrow> int \<Rightarrow> bytes option" where
  "reac_ctrl_build_config_announce master src counter in_ch =
     ctrl_emit (CTRL_FRAMES CTRL_CONFIG_ANNOUNCE) master src counter in_ch None None 0"

definition reac_ctrl_build_identity_first :: "mac \<Rightarrow> mac \<Rightarrow> u16 \<Rightarrow> int \<Rightarrow> bytes option" where
  "reac_ctrl_build_identity_first master src counter in_ch =
     ctrl_emit (CTRL_FRAMES CTRL_IDENT_FIRST) master src counter in_ch None None 0"

definition reac_ctrl_build_coldconnect :: "mac \<Rightarrow> mac \<Rightarrow> u16 \<Rightarrow> int \<Rightarrow> planes \<Rightarrow> int \<Rightarrow> bytes option" where
  "reac_ctrl_build_coldconnect master src counter n_ch planar ns =
     ctrl_emit (CTRL_FRAMES CTRL_COLDCONNECT) master src counter n_ch None planar ns"

definition CFG_BLK8 :: bytes where
  "CFG_BLK8 = [0x01, 0x03, 0x00, 0x10, 0x80, 0x00, 0x00, 0x00, 0x01, 0x01, 0x01, 0x01, 0x02, 0x02, 0x03, 0x03,
     0x03, 0x03, 0x03, 0x03, 0x00, 0x00, 0x00, 0x00, 0x00, 0x00, 0x00, 0x00, 0x00, 0x00, 0x00, 0x52]"

definition CFG_BLK16 :: bytes where
  "CFG_BLK16 = [0x01, 0x03, 0x00, 0x10, 0x80, 0x00, 0x00, 0x00, 0x02, 0x02, 0x02, 0x02, 0x01, 0x01, 0x03, 0x03,
     0x03, 0x03, 0x03, 0x03, 0x00, 0x00, 0x00, 0x00, 0x00, 0x00, 0x00, 0x00, 0x00, 0x00, 0x00, 0x50]"

definition reac_ctrl_build_config_announce_box_master :: "mac \<Rightarrow> mac \<Rightarrow> u16 \<Rightarrow> int \<Rightarrow> bytes option" where
  "reac_ctrl_build_config_announce_box_master master src counter n_ch =
     (let blk = (if n_ch \<ge> 16 then CFG_BLK16 else CFG_BLK8) in
      case ctrl_emit (CTRL_FRAMES CTRL_CONFIG_ANNOUNCE) master src counter n_ch None None 0 of
        None \<Rightarrow> None | Some out \<Rightarrow> Some (poke REAC_CTRL_BLOCK_OFF blk out))"

definition HEAD_REC :: bytes where
  "HEAD_REC = [hi8 REAC_DT1_TAG_HEAD_MARK, lo8 REAC_DT1_TAG_HEAD_MARK, 0x03, 0x00, 0x00, 0x00]"

definition reac_ctrl_build_coldconnect_head :: "mac \<Rightarrow> mac \<Rightarrow> u16 \<Rightarrow> int \<Rightarrow> planes \<Rightarrow> int \<Rightarrow> bytes option" where
  "reac_ctrl_build_coldconnect_head master src counter n_ch planar ns =
     (case ctrl_emit (CTRL_FRAMES CTRL_COLDCONNECT) master src counter n_ch None planar ns of
        None \<Rightarrow> None
      | Some out \<Rightarrow>
        let o1 = poke (REAC_CTRL_BLOCK_OFF + 16) HEAD_REC out;
            o2 = poke (REAC_CTRL_BLOCK_OFF + 16)
                   (reac_ctrl_record_cksum_stamp (drop (REAC_CTRL_BLOCK_OFF + 16) o1) (length HEAD_REC + 1)) o1
        in Some (reac_ctrl_checksum_apply o2))"

definition reac_ctrl_build_coldconnect_0013 :: "mac \<Rightarrow> mac \<Rightarrow> u16 \<Rightarrow> int \<Rightarrow> planes \<Rightarrow> int \<Rightarrow> bytes option" where
  "reac_ctrl_build_coldconnect_0013 master src counter n_ch planar ns =
     ctrl_emit (CTRL_FRAMES CTRL_COLDCONNECT_0013) master src counter n_ch None planar ns"

definition reac_ctrl_build_coldconnect_0016 :: "mac \<Rightarrow> mac \<Rightarrow> u16 \<Rightarrow> int \<Rightarrow> planes \<Rightarrow> int \<Rightarrow> bytes option" where
  "reac_ctrl_build_coldconnect_0016 master src counter n_ch planar ns =
     ctrl_emit (CTRL_FRAMES CTRL_COLDCONNECT_0016) master src counter n_ch None planar ns"

definition reac_ctrl_build_coldconnect_001a :: "mac \<Rightarrow> mac \<Rightarrow> u16 \<Rightarrow> int \<Rightarrow> planes \<Rightarrow> int \<Rightarrow> bytes option" where
  "reac_ctrl_build_coldconnect_001a master src counter n_ch planar ns =
     ctrl_emit (CTRL_FRAMES CTRL_COLDCONNECT_001A) master src counter n_ch None planar ns"

definition reac_ctrl_build_identity_last :: "mac \<Rightarrow> mac \<Rightarrow> u16 \<Rightarrow> int \<Rightarrow> bytes option" where
  "reac_ctrl_build_identity_last master src counter in_ch =
     ctrl_emit (CTRL_FRAMES CTRL_IDENT_LAST) master src counter in_ch None None 0"

fun box_block_to_ctrl_frame :: "reac_box_block \<Rightarrow> ctrl_frame_id" where
  "box_block_to_ctrl_frame REAC_BOX_BLOCK_CONFIG = CTRL_CONFIG_ANNOUNCE"
| "box_block_to_ctrl_frame REAC_BOX_BLOCK_CC0014 = CTRL_COLDCONNECT"
| "box_block_to_ctrl_frame REAC_BOX_BLOCK_CC0013 = CTRL_COLDCONNECT_0013"
| "box_block_to_ctrl_frame REAC_BOX_BLOCK_CC0016 = CTRL_COLDCONNECT_0016"
| "box_block_to_ctrl_frame REAC_BOX_BLOCK_CC001A = CTRL_COLDCONNECT_001A"
| "box_block_to_ctrl_frame REAC_BOX_BLOCK_IDENT_FIRST = CTRL_IDENT_FIRST"
| "box_block_to_ctrl_frame REAC_BOX_BLOCK_IDENT_LAST = CTRL_IDENT_LAST"

definition reac_ctrl_build_as :: "reac_box_model option \<Rightarrow> reac_box_block \<Rightarrow> mac \<Rightarrow> mac \<Rightarrow> u16 \<Rightarrow> planes \<Rightarrow> int \<Rightarrow> bytes option" where
  "reac_ctrl_build_as m' b master src counter planar ns =
     (case m' of None \<Rightarrow> None
      | Some m \<Rightarrow> ctrl_emit_as (CTRL_FRAMES (box_block_to_ctrl_frame b)) (Some m) master src counter
                   (reac_box_model_upstream_width m) None planar ns)"

section \<open>Head-amp frames and the grant sweep\<close>

abbreviation (input) REAC_HEADAMP_PHANTOM :: u8 where "REAC_HEADAMP_PHANTOM \<equiv> 0"
abbreviation (input) REAC_HEADAMP_PAD :: u8 where "REAC_HEADAMP_PAD \<equiv> 1"
abbreviation (input) REAC_HEADAMP_SENS :: u8 where "REAC_HEADAMP_SENS \<equiv> 2"
abbreviation (input) REAC_HEADAMP_MAX_CH :: int where "REAC_HEADAMP_MAX_CH \<equiv> 48"
abbreviation (input) REAC_HEADAMP_NPARAMS :: nat where "REAC_HEADAMP_NPARAMS \<equiv> 3"

definition headamp_args_ok :: "u8 \<Rightarrow> u8 \<Rightarrow> bool" where
  "headamp_args_ok param val =
     (if param = REAC_HEADAMP_PHANTOM \<or> param = REAC_HEADAMP_PAD then val \<le> 0x01
      else if param = REAC_HEADAMP_SENS then val \<le> REAC_HEADAMP_SENS_MAX
      else False)"

definition reac_ctrl_build_headamp :: "mac \<Rightarrow> mac \<Rightarrow> u16 \<Rightarrow> u8 \<Rightarrow> u8 \<Rightarrow> u8 \<Rightarrow> bytes option" where
  "reac_ctrl_build_headamp master src counter ch param val =
     (if \<not> headamp_args_ok param val then None
      else ctrl_emit (CTRL_FRAMES CTRL_HEADAMP) master src counter 0 (Some [ch, param, val]) None 0)"

definition reac_ctrl_stamp_headamp :: "bytes \<Rightarrow> u8 \<Rightarrow> u8 \<Rightarrow> u8 \<Rightarrow> bytes option" where
  "reac_ctrl_stamp_headamp frame ch param val =
     (if \<not> headamp_args_ok param val then None
      else Some (ctrl_stamp frame (CTRL_FRAMES CTRL_HEADAMP) (Some [ch, param, val])))"

definition reac_headamp_param_name :: "u8 \<Rightarrow> string" where
  "reac_headamp_param_name param =
     (if param = REAC_HEADAMP_PHANTOM then ''phantom'' else if param = REAC_HEADAMP_PAD then ''pad''
      else if param = REAC_HEADAMP_SENS then ''SENS'' else ''?'')"

definition reac_ctrl_headamp_record_verify :: "bytes \<Rightarrow> int" where
  "reac_ctrl_headamp_record_verify frame =
     (if frame ! REAC_CTRL_BLOCK_OFF \<noteq> REAC_LINK_RECORD \<or> frame ! (REAC_CTRL_BLOCK_OFF + 1) \<noteq> REAC_SEG_SINGLE
      then - 1
      else reac_ctrl_record_cksum_verify (drop (REAC_CTRL_BLOCK_OFF + HEADAMP_REC_OFF) frame) HEADAMP_REC_LEN)"

definition GRANT_HEAD_ACK :: bytes where
  "GRANT_HEAD_ACK = [0xcd, 0xea, 0x04, 0x03, 0x00, 0x14, 0x00, 0x02, 0x00, 0xfe, 0x0f, 0xf0, 0x41, 0x0a, 0x00, 0x00, 0x12, 0x12,
     0x01, 0x00, 0x06, 0x00, 0x01, 0x00, 0x78, 0xf7, 0x00, 0x00, 0x00, 0x00, 0x00, 0x00, 0x00, 0x00]"

definition GRANT_HEAD_MARK :: bytes where
  "GRANT_HEAD_MARK = [0xcd, 0xea, 0x04, 0x03, 0x00, 0x14, 0x00, 0x02, 0x00, 0xfe, 0x0f, 0xf0, 0x41, 0x0a, 0x00, 0x00, 0x12, 0x12,
     0x00, 0x00, 0x03, 0x00, 0x00, 0x00, 0x7d, 0xf7, 0x00, 0x00, 0x00, 0x00, 0x00, 0x00, 0x00, 0x00]"

definition GRANT_GROUPB :: "bytes list" where
  "GRANT_GROUPB = [
    [0xcd, 0xea, 0x04, 0x03, 0x00, 0x13, 0x00, 0x02, 0x00, 0xfe, 0x0e, 0xf0, 0x41, 0x0a, 0x00, 0x00, 0x12, 0x11,
     0x05, 0x00, 0x00, 0x00, 0x04, 0x77, 0xf7, 0x00, 0x00, 0x00, 0x00, 0x00, 0x00, 0x00, 0x00, 0x03],
    [0xcd, 0xea, 0x04, 0x03, 0x00, 0x13, 0x00, 0x02, 0x00, 0xfe, 0x0e, 0xf0, 0x41, 0x0a, 0x00, 0x00, 0x12, 0x11,
     0x05, 0x00, 0x06, 0x00, 0x08, 0x6d, 0xf7, 0x00, 0x00, 0x00, 0x00, 0x00, 0x00, 0x00, 0x00, 0x03],
    [0xcd, 0xea, 0x04, 0x03, 0x00, 0x13, 0x00, 0x02, 0x00, 0xfe, 0x0e, 0xf0, 0x41, 0x0a, 0x00, 0x00, 0x12, 0x11,
     0x05, 0x00, 0x10, 0x00, 0x11, 0x5a, 0xf7, 0x00, 0x00, 0x00, 0x00, 0x00, 0x00, 0x00, 0x00, 0x03],
    [0xcd, 0xea, 0x04, 0x03, 0x00, 0x13, 0x00, 0x02, 0x00, 0xfe, 0x0e, 0xf0, 0x41, 0x0a, 0x00, 0x00, 0x12, 0x11,
     0x05, 0x00, 0x10, 0x11, 0x09, 0x51, 0xf7, 0x00, 0x00, 0x00, 0x00, 0x00, 0x00, 0x00, 0x00, 0x03],
    [0xcd, 0xea, 0x04, 0x03, 0x00, 0x13, 0x00, 0x02, 0x00, 0xfe, 0x0e, 0xf0, 0x41, 0x0a, 0x00, 0x00, 0x12, 0x11,
     0x05, 0x00, 0x11, 0x00, 0x11, 0x59, 0xf7, 0x00, 0x00, 0x00, 0x00, 0x00, 0x00, 0x00, 0x00, 0x03],
    [0xcd, 0xea, 0x04, 0x03, 0x00, 0x13, 0x00, 0x02, 0x00, 0xfe, 0x0e, 0xf0, 0x41, 0x0a, 0x00, 0x00, 0x12, 0x11,
     0x05, 0x00, 0x11, 0x11, 0x09, 0x50, 0xf7, 0x00, 0x00, 0x00, 0x00, 0x00, 0x00, 0x00, 0x00, 0x03]]"

definition reac_ctrl_identity_poll_block :: "int \<Rightarrow> bytes option" where
  "reac_ctrl_identity_poll_block i = (if i < 0 \<or> i \<ge> 6 then None else Some (GRANT_GROUPB ! nat i))"

definition put_groupa :: "u8 \<Rightarrow> u8 \<Rightarrow> u8 \<Rightarrow> bytes option" where
  "put_groupa ch param val =
     (case reac_ctrl_stamp_headamp (replicate REAC_FRAME_BYTES 0) ch param val of
        None \<Rightarrow> None | Some scratch \<Rightarrow> Some (peek 16 34 scratch))"

text \<open>A run of rows; the first refused one abandons the sweep.\<close>

fun put_rows :: "(u8 \<times> u8 \<times> u8) list \<Rightarrow> bytes list option" where
  "put_rows [] = Some []"
| "put_rows ((ch, p, v) # rs) =
     (case put_groupa ch p v of None \<Rightarrow> None
      | Some r \<Rightarrow> (case put_rows rs of None \<Rightarrow> None | Some rest \<Rightarrow> Some (r # rest)))"

definition sweep_cells :: "u8 \<Rightarrow> bytes \<Rightarrow> nat \<Rightarrow> (u8 \<times> u8 \<times> u8) list" where
  "sweep_cells base vals c =
     map (\<lambda>p. (base + of_nat c, of_nat p, vals ! (c * REAC_HEADAMP_NPARAMS + p))) [0..<REAC_HEADAMP_NPARAMS]"

definition REAC_GRANT_SWEEP_LEN :: "int \<Rightarrow> int" where
  "REAC_GRANT_SWEEP_LEN w = 8 + w * 3"

definition reac_ctrl_build_grant_sweep :: "int \<Rightarrow> u8 \<Rightarrow> int \<Rightarrow> bytes \<Rightarrow> bytes list option" where
  "reac_ctrl_build_grant_sweep max_rows base width vals =
     (if width \<le> 0 then None
      else if uint base + width > REAC_HEADAMP_MAX_CH then None
      else if max_rows < REAC_GRANT_SWEEP_LEN width then None
      else case put_rows (sweep_cells base vals 0) of None \<Rightarrow> None
      | Some head \<Rightarrow>
        (case put_rows (concat (map (sweep_cells base vals) [1..<nat width])) of None \<Rightarrow> None
         | Some rest \<Rightarrow> Some ([GRANT_HEAD_ACK] @ head @ [GRANT_HEAD_MARK] @ GRANT_GROUPB @ rest)))"

definition reac_headamp_group_of :: "u8 \<Rightarrow> u8 \<Rightarrow> int" where
  "reac_headamp_group_of ch param =
     (if param = REAC_HEADAMP_SENS then uint (drop_bit 0 ch)
      else if param = REAC_HEADAMP_PAD then uint (drop_bit 0 ch)
      else if param = REAC_HEADAMP_PHANTOM then uint (drop_bit 0 ch)
      else - 1)"

definition reac_headamp_record_carries :: "u8 \<Rightarrow> u8 \<Rightarrow> int" where
  "reac_headamp_record_carries ch param =
     (if param = REAC_HEADAMP_SENS \<or> param = REAC_HEADAMP_PAD \<or> param = REAC_HEADAMP_PHANTOM then 1 else - 1)"

section \<open>The emitted frame, field by field\<close>

definition frame_image :: "mac \<Rightarrow> mac \<Rightarrow> u16 \<Rightarrow> u8 \<Rightarrow> u8 \<Rightarrow> bytes \<Rightarrow> bytes \<Rightarrow> bytes" where
  "frame_image dst src counter t0 t1 blk audio =
     dst @ src @ [0x88, 0x19, lo8 counter, hi8 counter, t0, t1] @ blk @ audio @ [0xC2, 0xEA]"

lemma put_hdr_zero:
  assumes "length dst = 6" and "length src = 6"
  shows "put_hdr (replicate (52 + a) 0) dst src counter t0 t1 =
    (dst @ src @ [0x88, 0x19, lo8 counter, hi8 counter, t0, t1]) @ replicate 32 0 @ replicate a 0 @ [0, 0]"
proof -
  have z: "replicate (52 + a) (0 :: u8) = replicate 6 0 @ replicate 6 0 @ [0, 0, 0, 0, 0, 0] @
      replicate 32 0 @ replicate a 0 @ [0, 0]"
    by (rule replicate_eqI [symmetric]) auto
  have "poke 6 src (poke 0 dst (replicate (52 + a) 0)) =
      dst @ src @ [0, 0, 0, 0, 0, 0] @ replicate 32 0 @ replicate a 0 @ [0, 0]"
    unfolding z using assms by (simp add: poke_append [where pre = "[]", simplified] poke_append)
  then show ?thesis using assms by (simp add: put_hdr_def Let_def list_update_append)
qed

lemma length_finish_block:
  "length b = 32 \<Longrightarrow> cf_rec_off f \<le> 32 \<Longrightarrow> length (finish_block f b) = 32"
  by (simp add: finish_block_def reac_ctrl_record_cksum_stamp_def Let_def split: ctrl_cksum.splits)

lemma ctrl_lay_append:
  "length h = 18 \<Longrightarrow> length old = 32 \<Longrightarrow> length (laid_block f m args) = 32 \<Longrightarrow>
     ctrl_lay_block (h @ old @ r) f m args = h @ laid_block f m args @ r"
  by (simp add: ctrl_lay_block_def poke_append)

lemma ctrl_finish_append:
  assumes "length h = 18" and "length b = 32" and "cf_rec_off f \<le> 32"
  shows "ctrl_finish (h @ b @ r) f = h @ finish_block f b @ r"
  using assms length_finish_block [of b f] by (simp add: ctrl_finish_def poke_append peek_append)

text \<open>What a row emits when its width and gate allow it.\<close>

lemma ctrl_emit_as_image:
  fixes n_ch :: int
  assumes d: "length dst = 6" "length src = 6"
    and m: "m = (case model of Some mm \<Rightarrow> mm | None \<Rightarrow> reac_box_catalogue_by_width n_ch)"
    and g: "ctrl_gate_ok m (cf_gate f)"
    and w: "cf_len f \<noteq> LEN_DOWNSTREAM \<Longrightarrow> reac_box_width_ok n_ch"
    and au: "cf_audio f \<Longrightarrow> cf_len f = LEN_ARG_WIDTH"
    and l: "length (laid_block f (Some m) args) = 32" and ro: "cf_rec_off f \<le> 32"
    and a: "a = (if cf_len f = LEN_DOWNSTREAM then 1440
      else nat (if cf_len f = LEN_MODEL_WIDTH \<and> model = None then bm_in_ch m else n_ch) * 36)"
  shows "ctrl_emit_as f model dst src counter n_ch args planar ns =
    Some (frame_image dst src counter (cf_type0 f) (cf_type1 f) (finish_block f (laid_block f (Some m) args))
      (if cf_audio f then reac_braid_encode (replicate a 0) n_ch planar n_ch ns else replicate a 0))"
proof -
  let ?h = "dst @ src @ [0x88, 0x19, lo8 counter, hi8 counter, cf_type0 f, cf_type1 f]"
  let ?b = "laid_block f (Some m) args"
  define au' where "au' = (if cf_audio f then reac_braid_encode (replicate a 0) n_ch planar n_ch ns else replicate a 0)"
  have h: "length ?h = 18" using d by simp
  have hb: "length (?h @ ?b) = 50" using h l by simp
  have len: "(if cf_len f = LEN_DOWNSTREAM then REAC_FRAME_BYTES
      else reac_ctrl_box_frame_len (if cf_len f = LEN_MODEL_WIDTH then (if model \<noteq> None then n_ch else bm_in_ch m) else n_ch))
      = 52 + a" by (auto simp: a reac_ctrl_box_frame_len_def)
  have wok: "\<not> (cf_len f = LEN_ARG_WIDTH \<and> \<not> reac_box_width_ok n_ch)"
    "\<not> (cf_len f \<noteq> LEN_DOWNSTREAM \<and> (model \<noteq> None \<or> cf_len f = LEN_MODEL_WIDTH) \<and> \<not> reac_box_width_ok n_ch)"
    using w by (cases "cf_len f"; simp)+
  have la: "length au' = a"
  proof (cases "cf_audio f")
    case True
    then have "0 \<le> n_ch" using w au by (simp add: reac_box_width_ok_iff)
    then show ?thesis using length_reac_braid_encode [of "replicate a 0" "nat n_ch"] True by (simp add: au'_def)
  qed (simp add: au'_def)
  have o2: "ctrl_lay_block (put_hdr (replicate (52 + a) 0) dst src counter (cf_type0 f) (cf_type1 f)) f (Some m) args
      = ?h @ ?b @ replicate a 0 @ [0, 0]"
    unfolding put_hdr_zero [OF d] by (rule ctrl_lay_append [OF h _ l]) simp
  have o3: "(if cf_audio f then poke 50 (reac_braid_encode (peek 50 (nat n_ch * 36) (?h @ ?b @ replicate a 0 @ [0, 0]))
        n_ch planar n_ch ns) (?h @ ?b @ replicate a 0 @ [0, 0]) else ?h @ ?b @ replicate a 0 @ [0, 0])
      = ?h @ ?b @ au' @ [0, 0]"
  proof (cases "cf_audio f")
    case True
    have an: "nat n_ch * 36 = a" using au [OF True] by (simp add: a)
    have "peek 50 a ((?h @ ?b) @ replicate a 0 @ [0, 0]) = replicate a 0" using hb by (intro peek_append) simp_all
    moreover have "poke 50 au' ((?h @ ?b) @ replicate a 0 @ [0, 0]) = (?h @ ?b) @ au' @ [0, 0]"
      using hb la by (intro poke_append) simp_all
    ultimately show ?thesis using True by (simp add: an au'_def)
  qed (simp add: au'_def)
  have o4: "ctrl_finish (?h @ ?b @ au' @ [0, 0]) f = ?h @ finish_block f ?b @ au' @ [0, 0]"
    by (rule ctrl_finish_append [OF h l ro])
  have fb: "length (finish_block f ?b) = 32" by (rule length_finish_block [OF l ro])
  have o5: "(?h @ finish_block f ?b @ au' @ [0, 0])[52 + a - 2 := 0xC2, 52 + a - 1 := 0xEA] =
      frame_image dst src counter (cf_type0 f) (cf_type1 f) (finish_block f ?b) au'"
    using h fb la d by (simp add: frame_image_def list_update_append)
  show ?thesis
    unfolding ctrl_emit_as_def Let_def m [symmetric] len o2 o3 o4 o5 using wok g
    by (simp add: au'_def)
qed

lemma frame_image_fields:
  fixes counter :: u16 and t0 t1 :: u8 and audio :: bytes
  assumes "length dst = 6" and "length src = 6" and "length blk = 32"
  defines "f \<equiv> frame_image dst src counter t0 t1 blk audio"
  shows "length f = 52 + length audio" "peek 0 6 f = dst" "peek 6 6 f = src" "f ! 12 = 0x88" "f ! 13 = 0x19"
    "f ! 14 = lo8 counter" "f ! 15 = hi8 counter" "f ! 16 = t0" "f ! 17 = t1" "peek 18 32 f = blk"
    "drop 50 f = audio @ [0xC2, 0xEA]" "f ! (length f - 2) = 0xC2" "f ! (length f - 1) = 0xEA"
proof -
  note s = f_def frame_image_def
  show "length f = 52 + length audio" using assms(1-3) by (simp add: s)
  show "peek 0 6 f = dst" "peek 6 6 f = src" using assms(1-3) by (simp_all add: s peek_def)
  show "f ! 12 = 0x88" "f ! 13 = 0x19" "f ! 14 = lo8 counter" "f ! 15 = hi8 counter" "f ! 16 = t0" "f ! 17 = t1"
    using assms(1,2) by (simp_all add: s nth_append)
  show "peek 18 32 f = blk" "drop 50 f = audio @ [0xC2, 0xEA]" using assms(1-3) by (simp_all add: s peek_def)
  have "f = (dst @ src @ [0x88, 0x19, lo8 counter, hi8 counter, t0, t1] @ blk @ audio) @ [0xC2, 0xEA]"
    by (simp add: s)
  then show "f ! (length f - 2) = 0xC2" "f ! (length f - 1) = 0xEA"
    using assms(1-3) by (simp_all add: nth_append)
qed

lemma frame_image_carries:
  assumes "length dst = 6" and "length src = 6" and "length blk = 32"
  shows "carries (frame_image dst src counter 0xcd 0xea blk audio) blk"
  using frame_image_fields [OF assms] by (simp add: carries_def)

section \<open>Head-amp blocks\<close>

definition headamp_block :: "u8 \<Rightarrow> u8 \<Rightarrow> u8 \<Rightarrow> bytes" where
  "headamp_block ch param val =
     reac_ctrl_block_cksum_stamp ([0x04, 0x03, 0x00, 0x13, 0x00, 0x02, 0x00, 0xfe, 0x0e, 0xf0, 0x41, 0x0a, 0x00, 0x00,
       0x12, 0x12] @ [0x01, 0x01, ch, param, val, dt1_check [0x01, 0x01, ch, param, val]] @ [0xf7] @ replicate 9 0)"

lemma headamp_laid:
  "laid_block (CTRL_FRAMES CTRL_HEADAMP) m (Some [ch, param, val]) =
     [0x04, 0x03, 0x00, 0x13, 0x00, 0x02, 0x00, 0xfe, 0x0e, 0xf0, 0x41, 0x0a, 0x00, 0x00,
       0x12, 0x12] @ [0x01, 0x01, ch, param, val, 0] @ [0xf7] @ replicate 9 0"
  by (simp add: laid_block_def lay_bytes_def ctrl_row_def TMPL_HEADAMP_def poke_def)

lemma headamp_finish:
  "finish_block (CTRL_FRAMES CTRL_HEADAMP) (laid_block (CTRL_FRAMES CTRL_HEADAMP) m (Some [ch, param, val])) =
     headamp_block ch param val"
proof -
  have "poke 16 (reac_ctrl_record_cksum_stamp (drop 16 (laid_block (CTRL_FRAMES CTRL_HEADAMP) m (Some [ch, param, val]))) 6)
      (laid_block (CTRL_FRAMES CTRL_HEADAMP) m (Some [ch, param, val])) =
      [0x04, 0x03, 0x00, 0x13, 0x00, 0x02, 0x00, 0xfe, 0x0e, 0xf0, 0x41, 0x0a, 0x00, 0x00,
       0x12, 0x12] @ [0x01, 0x01, ch, param, val, dt1_check [0x01, 0x01, ch, param, val]] @ [0xf7] @ replicate 9 0"
    unfolding headamp_laid
    by (simp add: reac_ctrl_record_cksum_stamp_def poke_def dt1_check_def Let_def)
  then show ?thesis by (simp add: finish_block_def headamp_block_def ctrl_row_def)
qed

lemma headamp_block_fields:
  shows "length (headamp_block ch param val) = 32"
    and "headamp_block ch param val ! 0 = 4" "headamp_block ch param val ! 1 = 3"
    and "headamp_block ch param val ! 14 = 0x12" "headamp_block ch param val ! 15 = 0x12"
    and "headamp_block ch param val ! 16 = 1" "headamp_block ch param val ! 17 = 1"
    and "headamp_block ch param val ! 18 = ch" "headamp_block ch param val ! 19 = param"
    and "headamp_block ch param val ! 20 = val"
    and "peek 16 6 (headamp_block ch param val) = [0x01, 0x01, ch, param, val, dt1_check [0x01, 0x01, ch, param, val]]"
    and "take_bit 8 (byte_sum (headamp_block ch param val)) = 0"
proof -
  show "take_bit 8 (byte_sum (headamp_block ch param val)) = 0"
    unfolding headamp_block_def by (rule block_stamp_sum) simp
  show "peek 16 6 (headamp_block ch param val) = [0x01, 0x01, ch, param, val, dt1_check [0x01, 0x01, ch, param, val]]"
    unfolding headamp_block_def block_check_stamp [symmetric] by (subst peek_block_check) (simp_all add: peek_def)
qed (simp_all add: headamp_block_def block_stamp_nth)

text \<open>What a reader makes of any frame that carries a head-amp block.\<close>

lemma headamp_carried:
  assumes "carries f (headamp_block ch param val)"
  shows "reac_ctrl_checksum_verify f = 0" and "reac_ctrl_headamp_record_verify f = 0"
    and "pc_kind (reac_ctrl_parse f) = REAC_CTRL_HEADAMP" and "pc_ch (reac_ctrl_parse f) = ch"
    and "pc_param (reac_ctrl_parse f) = param" and "pc_value (reac_ctrl_parse f) = val"
proof -
  note hb = headamp_block_fields [of ch param val]
  show "reac_ctrl_checksum_verify f = 0" using carries_checksum [OF assms] hb(12) by simp
  have b: "f ! 18 = 4" "f ! 19 = 3" using carries_nthE(1,2) [OF assms] hb by simp_all
  have d: "drop 18 f ! 14 = 0x12" "drop 18 f ! 15 = 0x12" "drop 18 f ! 16 = 1" "drop 18 f ! 17 = 1"
    "drop 18 f ! 18 = ch" "drop 18 f ! 19 = param" "drop 18 f ! 20 = val"
    using carries_drop [OF assms] hb by simp_all
  have "take 6 (drop 34 f) = [0x01, 0x01, ch, param, val, dt1_check [0x01, 0x01, ch, param, val]]"
    using carries_peek [OF assms, of 16 6] hb(11) by (simp add: peek_def)
  then show "reac_ctrl_headamp_record_verify f = 0"
    using b dt1_check_sum [of "[0x01, 0x01, ch, param, val]"]
    by (simp add: reac_ctrl_headamp_record_verify_def reac_ctrl_record_cksum_verify_def)
  have fl: "50 \<le> length f" "f ! 12 = 0x88" "f ! 13 = 0x19" "f ! 16 = 0xcd" "f ! 17 = 0xea"
    using assms by (simp_all add: carries_def)
  show "pc_kind (reac_ctrl_parse f) = REAC_CTRL_HEADAMP" "pc_ch (reac_ctrl_parse f) = ch"
    "pc_param (reac_ctrl_parse f) = param" "pc_value (reac_ctrl_parse f) = val"
    using fl b d unfolding reac_ctrl_parse_def Let_def by (simp_all add: u16be_def)
qed

lemma build_headamp_image:
  assumes "length dst = 6" and "length src = 6" and "headamp_args_ok param val"
  shows "reac_ctrl_build_headamp dst src counter ch param val =
    Some (frame_image dst src counter 0xcd 0xea (headamp_block ch param val) (replicate 1440 0))"
proof -
  let ?F = "CTRL_FRAMES CTRL_HEADAMP" and ?m = "reac_box_catalogue_by_width 0"
  have l: "length (laid_block ?F (Some ?m) (Some [ch, param, val])) = 32" by (simp only: headamp_laid) simp
  have "ctrl_emit_as ?F None dst src counter 0 (Some [ch, param, val]) None 0 =
      Some (frame_image dst src counter (cf_type0 ?F) (cf_type1 ?F)
        (finish_block ?F (laid_block ?F (Some ?m) (Some [ch, param, val]))) (replicate 1440 0))"
    using assms(1,2) l
    by (subst ctrl_emit_as_image [where m = ?m and a = 1440]) (simp_all add: ctrl_gate_ok_def ctrl_row_def)
  then show ?thesis
    using assms(3) by (simp add: reac_ctrl_build_headamp_def ctrl_emit_def headamp_finish ctrl_row_def
        del: CTRL_FRAMES.simps) (simp add: ctrl_row_def)
qed

lemma ctrl_stamp_headamp:
  assumes "50 \<le> length f"
  shows "ctrl_stamp f (CTRL_FRAMES CTRL_HEADAMP) (Some [ch, param, val]) =
    take 16 f @ [0xcd, 0xea] @ headamp_block ch param val @ drop 50 f"
proof -
  let ?F = "CTRL_FRAMES CTRL_HEADAMP" and ?a = "Some [ch, param, val]"
  have "f[16 := 0xcd, 17 := 0xea] = take 17 (f[16 := 0xcd]) @ 0xea # drop 18 f"
    using assms by (subst upd_conv_take_nth_drop) simp_all
  also have "take 17 (f[16 := 0xcd]) = take 16 f @ [0xcd]"
    using assms take_Suc_conv_app_nth [of 16 "f[16 := 0xcd]"] by simp
  finally have f: "f[16 := 0xcd, 17 := 0xea] = (take 16 f @ [0xcd, 0xea]) @ take 32 (drop 18 f) @ drop 50 f"
    using append_take_drop_id [of 32 "drop 18 f"] by simp
  have h: "length (take 16 f @ [0xcd, 0xea]) = 18" using assms by simp
  have l: "length (laid_block ?F None ?a) = 32" by (simp only: headamp_laid) simp
  have "ctrl_stamp f ?F ?a = ctrl_finish (ctrl_lay_block (f[16 := 0xcd, 17 := 0xea]) ?F None ?a) ?F"
    by (simp add: ctrl_stamp_def ctrl_row_def)
  also have "\<dots> = (take 16 f @ [0xcd, 0xea]) @ finish_block ?F (laid_block ?F None ?a) @ drop 50 f"
    unfolding f using assms l h
    by (subst ctrl_lay_append [OF h _ l], simp, subst ctrl_finish_append [OF h l]) simp_all
  finally show ?thesis by (simp add: headamp_finish del: CTRL_FRAMES.simps)
qed

section \<open>Generated blocks in frames\<close>

lemma length_reac_box_model_block:
  assumes "length (bm_tail m) = 11"
  shows "length (snd (reac_box_model_block m b)) = 32"
proof (cases b)
  case REAC_BOX_BLOCK_CONFIG
  have s: "0 \<le> a \<Longrightarrow> 0 \<le> b \<Longrightarrow> a + b \<le> 12 \<Longrightarrow> nat a + nat b \<le> 12" for a b :: int by simp
  show ?thesis
    using assms REAC_BOX_BLOCK_CONFIG by (auto simp: build_config_def Let_def config_slots_counts sdiv_nonneg intro!: s)
qed (simp_all add: JOIN_0014_def JOIN_0013_def build_firmware_def build_reac_version_def
    build_dt1_single_image build_ident_first_image build_ident_last_image dt1_image_def Let_def)

lemma stamp_id: "length b = 32 \<Longrightarrow> take_bit 8 (byte_sum b) = 0 \<Longrightarrow> reac_ctrl_block_cksum_stamp b = b"
proof -
  assume l: "length b = 32" and z: "take_bit 8 (byte_sum b) = 0"
  let ?s = "byte_sum (take 31 b)" and ?c = "reac_ctrl_block_cksum_stamp b ! 31"
  have sp: "b = take 31 b @ [b ! 31]" using split_last [of b 31] l by simp
  have sq: "reac_ctrl_block_cksum_stamp b = take 31 b @ [?c]"
    using split_last [of "reac_ctrl_block_cksum_stamp b" 31] block_ck.stamp_prefix [of b] l by simp
  have "take_bit 8 (?s + ucast (b ! 31)) = 0" using z by (subst (asm) sp) simp
  moreover have "take_bit 8 (?s + ucast ?c) = 0" using block_stamp_sum [OF l] by (subst (asm) sq) simp
  ultimately have "2 ^ 8 dvd (?s + ucast ?c) - (?s + ucast (b ! 31))"
    unfolding take_bit_eq_0_iff by (rule dvd_diff [rotated])
  then have e: "take_bit 8 (ucast ?c :: u32) = take_bit 8 (ucast (b ! 31))" by (intro take_bit_eqI) simp
  have "?c = b ! 31"
  proof (rule bit_word_eqI)
    fix n
    assume "n < LENGTH(8)"
    then show "bit ?c n = bit (b ! 31) n" using arg_cong [OF e, of "\<lambda>w. bit w n"] by (simp add: bit_simps)
  qed
  then show ?thesis using sp sq by simp
qed

lemma model_block_sum:
  assumes "length (bm_tail m) = 11" and "fst (reac_box_model_block m b) = 1"
  shows "take_bit 8 (byte_sum (snd (reac_box_model_block m b))) = 0"
proof (cases b)
  case REAC_BOX_BLOCK_CONFIG
  have "\<exists>x. snd (build_config m (replicate 32 0)) = block_check x"
    using assms(2) REAC_BOX_BLOCK_CONFIG by (auto simp: build_config_def Let_def split: if_splits)
  then obtain x where x: "snd (build_config m (replicate 32 0)) = block_check x" ..
  then have "length x = 32" using length_reac_box_model_block [OF assms(1), of b] REAC_BOX_BLOCK_CONFIG by simp
  then show ?thesis using x REAC_BOX_BLOCK_CONFIG by (simp add: block_check_sum)
qed (use assms(2) in \<open>auto simp: JOIN_0014_def JOIN_0013_def build_firmware_def build_reac_version_def
    build_dt1_single_image build_ident_first_image build_ident_last_image Let_def
    intro!: block_check_sum split: if_splits\<close>, simp_all add: dt1_image_def)

lemma upstream_width_ok: "reac_box_model_upstream_width m \<noteq> 0 \<Longrightarrow> reac_box_width_ok (reac_box_model_upstream_width m)"
  by (auto simp: reac_box_model_upstream_width_def reac_box_width_ok_iff split: if_splits)

lemma row_of_block:
  assumes "fst (reac_box_model_block m b) = 1"
  defines "F \<equiv> CTRL_FRAMES (box_block_to_ctrl_frame b)"
  shows "laid_block F (Some m) None = snd (reac_box_model_block m b)" "ctrl_gate_ok m (cf_gate F)"
    "cf_type0 F = 0xcd" "cf_type1 F = 0xea" "cf_len F \<noteq> LEN_DOWNSTREAM" "cf_audio F \<Longrightarrow> cf_len F = LEN_ARG_WIDTH"
    "cf_rec_off F = 0" "cf_cksum F \<noteq> CKSUM_RECORD"
  using assms(1) unfolding F_def
  by (cases b; auto simp: laid_block_def lay_bytes_def ctrl_row_def ctrl_gate_ok_def split: prod.splits if_splits)+

section \<open>Properties\<close>

text \<open>A box that speaks as a catalogue model says exactly what the model is. Whenever the
  generator produces a block and the model has a wire width, the frame built for it carries that
  block unchanged behind the sender's header, passes the checksum, and has the length of the
  model's upstream width.\<close>

theorem build_as_carries_block:
  assumes "length dst = 6" and "length src = 6" and "length (bm_tail m) = 11"
    and "fst (reac_box_model_block m b) = 1" and "reac_box_model_upstream_width m \<noteq> 0"
  shows "\<exists>f. reac_ctrl_build_as (Some m) b dst src counter planar ns = Some f
    \<and> carries f (snd (reac_box_model_block m b)) \<and> reac_ctrl_checksum_verify f = 0
    \<and> peek 0 6 f = dst \<and> peek 6 6 f = src
    \<and> reac_upstream_channels (length f) = reac_box_model_upstream_width m"
proof -
  let ?F = "CTRL_FRAMES (box_block_to_ctrl_frame b)" and ?w = "reac_box_model_upstream_width m"
  let ?blk = "snd (reac_box_model_block m b)"
  note row = row_of_block [OF assms(4)]
  note ok = upstream_width_ok [OF assms(5)]
  have lb: "length ?blk = 32" by (rule length_reac_box_model_block [OF assms(3)])
  have w0: "0 \<le> ?w" using ok by (simp add: reac_box_width_ok_iff)
  define audio where "audio = (if cf_audio ?F then reac_braid_encode (replicate (nat ?w * 36) 0) ?w planar ?w ns
    else replicate (nat ?w * 36) 0)"
  have la: "length audio = nat ?w * 36"
    using length_reac_braid_encode [of "replicate (nat ?w * 36) 0" "nat ?w"] w0 by (simp add: audio_def)
  have fin: "finish_block ?F ?blk = ?blk"
    using row(8) stamp_id [OF lb model_block_sum [OF assms(3,4)]]
    by (auto simp: finish_block_def split: ctrl_cksum.splits)
  have "ctrl_emit_as ?F (Some m) dst src counter ?w None planar ns =
      Some (frame_image dst src counter (cf_type0 ?F) (cf_type1 ?F) (finish_block ?F (laid_block ?F (Some m) None)) audio)"
    unfolding audio_def using assms(1,2) row ok lb
    by (intro ctrl_emit_as_image) (simp_all del: CTRL_FRAMES.simps)
  then have e: "reac_ctrl_build_as (Some m) b dst src counter planar ns =
      Some (frame_image dst src counter 0xcd 0xea ?blk audio)"
    using row fin by (simp add: reac_ctrl_build_as_def del: CTRL_FRAMES.simps)
  let ?f = "frame_image dst src counter 0xcd 0xea ?blk audio"
  have c: "carries ?f ?blk" by (rule frame_image_carries [OF assms(1,2) lb])
  moreover have "reac_ctrl_checksum_verify ?f = 0"
    using carries_checksum [OF c] model_block_sum [OF assms(3,4)] by simp
  moreover have "reac_upstream_channels (length ?f) = ?w"
    using reac_upstream_channels_len [of "nat ?w"] ok w0 la frame_image_fields(1) [OF assms(1,2) lb] by simp
  ultimately show ?thesis using e frame_image_fields(2,3) [OF assms(1,2) lb] by blast
qed

theorem build_as_carries_block_witness:
  "\<exists>f. reac_ctrl_build_as (Some BOX_S4000D) REAC_BOX_BLOCK_CONFIG BCAST [0, 0x40, 0xab, 1, 2, 3] 7 None 0 = Some f
    \<and> reac_ctrl_checksum_verify f = 0 \<and> reac_upstream_channels (length f) = 2"
proof -
  have b: "fst (reac_box_model_block BOX_S4000D REAC_BOX_BLOCK_CONFIG) = 1"
    and w: "reac_box_model_upstream_width BOX_S4000D = 2" by code_simp+
  have t: "length (bm_tail BOX_S4000D) = 11" by (simp add: BOX_S4000D_def)
  show ?thesis
    using build_as_carries_block [of BCAST "[0, 0x40, 0xab, 1, 2, 3]" BOX_S4000D _ 7 None 0, OF _ _ t b] w by auto
qed

text \<open>Head-amp commands are read back. A legal parameter and value builds a 1492-byte frame
  that parses to that channel, parameter and value with the sender's addresses and counter, under
  both checksums; an illegal one builds nothing.\<close>

theorem headamp_roundtrip:
  assumes "length dst = 6" and "length src = 6"
  shows "if headamp_args_ok param val
    then \<exists>f. reac_ctrl_build_headamp dst src counter ch param val = Some f \<and> length f = 1492
      \<and> reac_ctrl_checksum_verify f = 0 \<and> reac_ctrl_headamp_record_verify f = 0
      \<and> pc_kind (reac_ctrl_parse f) = REAC_CTRL_HEADAMP \<and> pc_ch (reac_ctrl_parse f) = ch
      \<and> pc_param (reac_ctrl_parse f) = param \<and> pc_value (reac_ctrl_parse f) = val
      \<and> reac_frame_is_master_downstream (length f)
    else reac_ctrl_build_headamp dst src counter ch param val = None"
proof (cases "headamp_args_ok param val")
  case True
  let ?f = "frame_image dst src counter 0xcd 0xea (headamp_block ch param val) (replicate 1440 0)"
  have l: "length (headamp_block ch param val) = 32" by (rule headamp_block_fields)
  note c = headamp_carried [OF frame_image_carries [OF assms l]]
  have "length ?f = 1492" using frame_image_fields(1) [OF assms l] by simp
  then show ?thesis
    using True build_headamp_image [OF assms True] c by (simp add: reac_frame_is_master_downstream_def)
qed (simp add: reac_ctrl_build_headamp_def)

theorem headamp_roundtrip_witness:
  "\<exists>f. reac_ctrl_build_headamp BCAST [0, 0x40, 0xab, 1, 2, 3] 9 5 2 0x37 = Some f
    \<and> reac_ctrl_checksum_verify f = 0 \<and> pc_value (reac_ctrl_parse f) = 0x37"
proof -
  have "headamp_args_ok 2 0x37" by (simp add: headamp_args_ok_def)
  then show ?thesis
    using headamp_roundtrip [of BCAST "[0, 0x40, 0xab, 1, 2, 3]" 2 "0x37" 9 5] by auto
qed

text \<open>Upstream audio survives. The filler frame a box sends for a legal width decodes to the
  sample bytes supplied for every channel and sample (silence beyond them), and an illegal width
  sends nothing.\<close>

theorem upstream_filler_roundtrip:
  assumes "length dst = 6" and "length src = 6"
  shows "if reac_box_width_ok n_ch
    then reac_upstream_decode (reac_ctrl_build_upstream_filler dst src counter n_ch planar ns) =
      Some (12, planar_bytes (\<lambda>ch s. if int s < ns then reac_f32_to_s24le (plane_sample planar n_ch ch s)
                 else [0, 0, 0]) (nat n_ch) 12)
    else reac_ctrl_build_upstream_filler dst src counter n_ch planar ns = None"
proof (cases "reac_box_width_ok n_ch")
  case True
  let ?F = "CTRL_FRAMES CTRL_UPSTREAM_FILLER" and ?m = "reac_box_catalogue_by_width n_ch"
  have n: "0 \<le> n_ch" "even (nat n_ch)" using True by (auto simp: reac_box_width_ok_iff even_nat_iff)
  define audio where "audio = reac_braid_encode (replicate (36 * nat n_ch) 0) n_ch planar n_ch ns"
  have la: "length audio = nat n_ch * 36"
    using length_reac_braid_encode [of "replicate (36 * nat n_ch) 0" "nat n_ch"] n by (simp add: audio_def)
  let ?b = "concat (replicate 16 [0x00, 0x7a]) :: bytes"
  have lb: "length ?b = 32" by (simp add: numeral_eq_Suc)
  have laid: "laid_block ?F (Some ?m) None = ?b" "finish_block ?F ?b = ?b"
    by (simp_all add: laid_block_def lay_bytes_def ctrl_row_def finish_block_def)
  have e: "reac_ctrl_build_upstream_filler dst src counter n_ch planar ns = Some (frame_image dst src counter 0 0 ?b audio)"
    unfolding reac_ctrl_build_upstream_filler_def ctrl_emit_def using assms True laid lb
    by (subst ctrl_emit_as_image [where m = ?m and a = "36 * nat n_ch"])
      (simp_all add: audio_def, simp_all add: ctrl_row_def ctrl_gate_ok_def)
  let ?f = "frame_image dst src counter 0 0 ?b audio"
  note fi = frame_image_fields [OF assms lb, of counter 0 0 audio]
  have ch: "reac_upstream_channels (length ?f) = n_ch"
    using reac_upstream_channels_len [of "nat n_ch"] True n la fi(1) by simp
  have "unbraid (drop 50 ?f) (nat n_ch) 12 =
      planar_bytes (\<lambda>ch s. if int s < ns then reac_f32_to_s24le (plane_sample planar n_ch ch s) else [0, 0, 0]) (nat n_ch) 12"
    unfolding fi(11) unfolding audio_def using unbraid_encode_silence [OF n(2), of planar n_ch ns] n by simp
  then show ?thesis using True e ch n fi(4,5,12,13) by (simp add: reac_upstream_decode_def Let_def)
next
  case False
  then show ?thesis by (simp add: reac_ctrl_build_upstream_filler_def ctrl_emit_def ctrl_emit_as_def ctrl_row_def)
qed

theorem upstream_filler_roundtrip_witness:
  "reac_upstream_decode (reac_ctrl_build_upstream_filler BCAST [0, 0x40, 0xab, 1, 2, 3] 3 8 (Some (\<lambda>_. Some (\<lambda>s. 1 / 2))) 6) =
     Some (12, planar_bytes (\<lambda>ch s. if int s < 6 then reac_f32_to_s24le (plane_sample (Some (\<lambda>_. Some (\<lambda>s. 1 / 2))) 8 ch s)
                 else [0, 0, 0]) 8 12)"
proof -
  have "reac_box_width_ok 8" by (simp add: reac_box_width_ok_iff)
  then show ?thesis
    using upstream_filler_roundtrip [of BCAST "[0, 0x40, 0xab, 1, 2, 3]" 8 3 "Some (\<lambda>_. Some (\<lambda>s. 1 / 2))" 6] by simp
qed

section \<open>The grant sweep\<close>

lemma put_groupa_row:
  "put_groupa ch param val = (if headamp_args_ok param val then Some ([0xcd, 0xea] @ headamp_block ch param val) else None)"
proof -
  have "peek 16 34 (take 16 (replicate 1492 0) @ [0xcd, 0xea] @ headamp_block ch param val @ drop 50 (replicate 1492 0))
      = [0xcd, 0xea] @ headamp_block ch param val"
    using peek_append [of "take 16 (replicate 1492 0)" 16 "[0xcd, 0xea] @ headamp_block ch param val" 34 "drop 50 (replicate 1492 0)"]
    by (simp add: headamp_block_fields)
  then show ?thesis
    by (simp add: put_groupa_def reac_ctrl_stamp_headamp_def ctrl_stamp_headamp del: CTRL_FRAMES.simps)
qed

lemma put_rows_all:
  "(\<forall>(ch, p, v) \<in> set cells. headamp_args_ok p v) \<Longrightarrow>
     put_rows cells = Some (map (\<lambda>(ch, p, v). [0xcd, 0xea] @ headamp_block ch p v) cells)"
  by (induction cells rule: put_rows.induct) (auto simp: put_groupa_row)

text \<open>A sweep row as the frame it becomes, and the head-amp cell that frame sets.\<close>

definition row_cells :: "bytes \<Rightarrow> (u8 \<times> u8 \<times> u8) list" where
  "row_cells row = (let p = reac_ctrl_parse (frame_of (drop 2 row))
     in if pc_kind p = REAC_CTRL_HEADAMP then [(pc_ch p, pc_param p, pc_value p)] else [])"

definition row_ok :: "bytes \<Rightarrow> bool" where
  "row_ok row \<longleftrightarrow> length row = 34 \<and> take 2 row = [0xcd, 0xea] \<and> row ! 2 = 0x04 \<and> row ! 3 = 0x03 \<and> byte_sum (drop 2 row) AND 0xff = 0"

lemma fixed_rows:
  "row_cells GRANT_HEAD_ACK = []" "row_cells GRANT_HEAD_MARK = []"
  "concat (map row_cells GRANT_GROUPB) = []"
  "row_ok GRANT_HEAD_ACK" "row_ok GRANT_HEAD_MARK" "list_all row_ok GRANT_GROUPB" "length GRANT_GROUPB = 6"
  by code_simp+

lemma groupa_row:
  "row_cells ([0xcd, 0xea] @ headamp_block ch p v) = [(ch, p, v)]" "row_ok ([0xcd, 0xea] @ headamp_block ch p v)"
  using headamp_carried [OF carries_frame_of [of "headamp_block ch p v"]] headamp_block_fields [of ch p v]
  by (simp_all add: row_cells_def row_ok_def and_mask_u32)

lemma groupa_rows:
  "concat (map row_cells (map (\<lambda>(ch, p, v). [0xcd, 0xea] @ headamp_block ch p v) cells)) = cells"
  "list_all row_ok (map (\<lambda>(ch, p, v). [0xcd, 0xea] @ headamp_block ch p v) cells)"
  by (induction cells) (auto simp: groupa_row simp del: append_Cons append_Nil)

lemma grant_sweep_rows:
  assumes "0 < width" and "uint base + width \<le> 48" and "8 + width * 3 \<le> max_rows"
    and "\<forall>c < nat width. \<forall>p < 3. headamp_args_ok (of_nat p) (vals ! (c * 3 + p))"
  shows "\<exists>rows. reac_ctrl_build_grant_sweep max_rows base width vals = Some rows
    \<and> int (length rows) = 8 + width * 3 \<and> (\<forall>r \<in> set rows. row_ok r)
    \<and> concat (map row_cells rows) = concat (map (sweep_cells base vals) [0..<nat width])"
proof -
  let ?row = "\<lambda>(ch, p, v). [0xcd, 0xea] @ headamp_block ch p v"
  let ?c0 = "sweep_cells base vals 0" and ?cs = "concat (map (sweep_cells base vals) [1..<nat width])"
  have legal: "\<forall>(ch, p, v) \<in> set (sweep_cells base vals c). headamp_args_ok p v" if "c < nat width" for c
    using assms(4) that by (auto simp: sweep_cells_def)
  have w: "0 < nat width" using assms(1) by simp
  have r0: "put_rows ?c0 = Some (map ?row ?c0)" using legal [OF w] by (rule put_rows_all)
  have rs: "put_rows ?cs = Some (map ?row ?cs)" using legal by (intro put_rows_all) fastforce
  let ?rows = "[GRANT_HEAD_ACK] @ map ?row ?c0 @ [GRANT_HEAD_MARK] @ GRANT_GROUPB @ map ?row ?cs"
  have e: "reac_ctrl_build_grant_sweep max_rows base width vals = Some ?rows"
    using assms(1-3) r0 rs by (simp add: reac_ctrl_build_grant_sweep_def REAC_GRANT_SWEEP_LEN_def)
  have l3: "length (sweep_cells base vals c) = 3" for c by (simp add: sweep_cells_def)
  then have "length ?cs = length [1..<nat width] * 3" by (intro length_concat_const) simp
  then have len: "int (length ?rows) = 8 + width * 3" using l3 [of 0] w fixed_rows(7) by simp
  have ok: "list_all row_ok ?rows" using fixed_rows groupa_rows(2) by simp
  have "[0..<nat width] = 0 # [1..<nat width]" using w by (simp add: upt_conv_Cons)
  then have "concat (map row_cells ?rows) = concat (map (sweep_cells base vals) [0..<nat width])"
    using fixed_rows(1-3) groupa_rows(1) [of ?c0] groupa_rows(1) [of ?cs] by simp
  then show ?thesis using e len ok by (auto simp: list_all_iff)
qed

end
