(* ===== verification/Reac_Headamp.thy ===== *)
theory Reac_Headamp
  imports Reac_Ctrl_Emit
begin

text \<open>
  The head-amp transmitter, \<^verbatim>\<open>src/reac_headamp_tx.c\<close>, and the grant of head-amp slots,
  \<^verbatim>\<open>src/reac_grant.c\<close>. The C arrays \<^verbatim>\<open>value\<close>, \<^verbatim>\<open>set\<close> and \<^verbatim>\<open>dirty\<close> of 48 channels by three parameters
  are functions of channel and parameter.
\<close>

type_synonym 'a grid = "nat \<Rightarrow> nat \<Rightarrow> 'a"

definition put_grid :: "'a grid \<Rightarrow> nat \<Rightarrow> nat \<Rightarrow> 'a \<Rightarrow> 'a grid" where
  "put_grid g c p v = g(c := (g c)(p := v))"

lemma put_grid_apply [simp]: "put_grid g c p v c' p' = (if c' = c \<and> p' = p then v else g c' p')"
  by (simp add: put_grid_def)

abbreviation (input) REAC_HEADAMP_SWEEP_STRIDE :: int where "REAC_HEADAMP_SWEEP_STRIDE \<equiv> 12"
abbreviation (input) REAC_HEADAMP_NCELLS :: nat where "REAC_HEADAMP_NCELLS \<equiv> 144"
abbreviation (input) HEADAMP_CHANNELS :: nat where "HEADAMP_CHANNELS \<equiv> 48"

record reac_headamp_setting =
  hs_ch :: u8
  hs_param :: u8
  hs_value :: u8

definition reac_headamp_pack :: "u8 \<Rightarrow> u8 \<Rightarrow> u8 \<Rightarrow> u32" where
  "reac_headamp_pack ch param val = push_bit 16 (ucast ch) OR push_bit 8 (ucast param) OR ucast val"

definition reac_headamp_unpack :: "u32 \<Rightarrow> u8 \<times> u8 \<times> u8" where
  "reac_headamp_unpack w =
     (ucast (drop_bit 16 w AND 0xFF), ucast (drop_bit 8 w AND 0xFF), ucast (w AND 0xFF))"

record reac_headamp_tx =
  ht_value :: "u8 grid"
  ht_set :: "bool grid"
  ht_dirty :: "bool grid"
  ht_active :: bool
  ht_replay_base :: u8
  ht_replay_width :: u8
  ht_replay_idx :: int
  ht_replay_wait :: int
  ht_replay_set_only :: bool
  ht_scene_base :: u8
  ht_scene_width :: u8
  ht_resweep_period :: u32
  ht_resweep_wait :: u32

definition reac_headamp_tx_init :: reac_headamp_tx where
  "reac_headamp_tx_init = \<lparr> ht_value = (\<lambda>_ _. 0), ht_set = (\<lambda>_ _. False), ht_dirty = (\<lambda>_ _. False),
     ht_active = False, ht_replay_base = 0, ht_replay_width = 0, ht_replay_idx = 0, ht_replay_wait = 0,
     ht_replay_set_only = False, ht_scene_base = 0, ht_scene_width = 0, ht_resweep_period = 0,
     ht_resweep_wait = 0 \<rparr>"

definition param_value_ok :: "u8 \<Rightarrow> u8 \<Rightarrow> bool" where
  "param_value_ok param val =
     (if param = REAC_HEADAMP_PHANTOM \<or> param = REAC_HEADAMP_PAD then val \<le> 0x01
      else if param = REAC_HEADAMP_SENS then val \<le> REAC_HEADAMP_SENS_MAX
      else False)"

definition reac_headamp_tx_set :: "reac_headamp_tx \<Rightarrow> u8 \<Rightarrow> u8 \<Rightarrow> u8 \<Rightarrow> reac_headamp_tx \<times> int" where
  "reac_headamp_tx_set t ch param val =
     (if ch \<ge> 48 \<or> \<not> param_value_ok param val then (t, - 1)
      else (t \<lparr> ht_value := put_grid (ht_value t) (unat ch) (unat param) val,
               ht_set := put_grid (ht_set t) (unat ch) (unat param) True,
               ht_dirty := put_grid (ht_dirty t) (unat ch) (unat param) True,
               ht_active := True \<rparr>, 0))"

definition reac_headamp_default :: "u8 \<Rightarrow> u8" where
  "reac_headamp_default param =
     (if param = REAC_HEADAMP_PHANTOM then 0x00 else if param = REAC_HEADAMP_PAD then 0x00
      else if param = REAC_HEADAMP_SENS then 0x20 else 0)"

definition reac_headamp_tx_effective :: "reac_headamp_tx option \<Rightarrow> u8 \<Rightarrow> u8 \<Rightarrow> u8" where
  "reac_headamp_tx_effective t' ch param =
     (if param \<ge> 3 then 0
      else case t' of
          Some t \<Rightarrow> if ch < 48 \<and> ht_set t (unat ch) (unat param) then ht_value t (unat ch) (unat param)
                     else reac_headamp_default param
        | None \<Rightarrow> reac_headamp_default param)"

definition reac_headamp_tx_arm_scene :: "reac_headamp_tx \<Rightarrow> u8 \<Rightarrow> u8 \<Rightarrow> reac_headamp_tx" where
  "reac_headamp_tx_arm_scene t base width =
     (if width = 0 \<or> base \<ge> 48 then t
      else let width' = (if uint base + uint width > REAC_HEADAMP_MAX_CH then 48 - base else width)
           in t \<lparr> ht_replay_base := base, ht_replay_width := width', ht_replay_idx := 0, ht_replay_wait := 0,
                  ht_replay_set_only := False, ht_scene_base := base, ht_scene_width := width',
                  ht_resweep_wait := 0 \<rparr>)"

definition reac_headamp_tx_set_resweep :: "reac_headamp_tx \<Rightarrow> u32 \<Rightarrow> reac_headamp_tx" where
  "reac_headamp_tx_set_resweep t frames = t \<lparr> ht_resweep_period := frames, ht_resweep_wait := 0 \<rparr>"

text \<open>The three stages of \<^verbatim>\<open>reac_headamp_tx_next\<close>: the first dirty cell; the armed replay, whose
  loop skips cells never set when it is a resweep; and the resweep timer.\<close>

definition next_dirty :: "reac_headamp_tx \<Rightarrow> nat option" where
  "next_dirty t = List.find (\<lambda>idx. ht_dirty t (idx div REAC_HEADAMP_NPARAMS) (idx mod REAC_HEADAMP_NPARAMS))
     [0..<REAC_HEADAMP_NCELLS]"

definition replay_cell :: "reac_headamp_tx \<Rightarrow> nat \<Rightarrow> nat \<times> nat" where
  "replay_cell t idx = (unat (ht_replay_base t) + idx div REAC_HEADAMP_NPARAMS, idx mod REAC_HEADAMP_NPARAMS)"

definition replay_emits :: "reac_headamp_tx \<Rightarrow> nat \<Rightarrow> bool" where
  "replay_emits t idx =
     (let (c, p) = replay_cell t idx
      in \<not> (ht_replay_set_only t \<and> \<not> (c < HEADAMP_CHANNELS \<and> ht_set t c p)))"

definition resweep_tick :: "reac_headamp_tx \<Rightarrow> reac_headamp_tx" where
  "resweep_tick t =
     (if ht_resweep_period t \<noteq> 0 \<and> ht_scene_width t \<noteq> 0 then
        let t1 = t \<lparr> ht_resweep_wait := ht_resweep_wait t + 1 \<rparr> in
        if ht_resweep_wait t1 \<ge> ht_resweep_period t1 then
          t1 \<lparr> ht_resweep_wait := 0, ht_replay_base := ht_scene_base t, ht_replay_width := ht_scene_width t,
               ht_replay_idx := 0, ht_replay_wait := 0, ht_replay_set_only := True \<rparr>
        else t1
      else t)"

definition reac_headamp_tx_next :: "reac_headamp_tx \<Rightarrow> reac_headamp_tx \<times> (u8 \<times> u8 \<times> u8) option" where
  "reac_headamp_tx_next t =
     (if \<not> ht_active t \<and> ht_replay_width t = 0 then (t, None)
      else case next_dirty t of
        Some idx \<Rightarrow>
          let c = idx div REAC_HEADAMP_NPARAMS; p = idx mod REAC_HEADAMP_NPARAMS in
          (t \<lparr> ht_dirty := put_grid (ht_dirty t) c p False, ht_resweep_wait := 0 \<rparr>,
           Some (of_nat c, of_nat p, ht_value t c p))
      | None \<Rightarrow>
        if ht_replay_width t \<noteq> 0 \<and> ht_replay_wait t > 0 then
          (t \<lparr> ht_replay_wait := ht_replay_wait t - 1 \<rparr>, None)
        else if ht_replay_width t \<noteq> 0 then
          let tot = unat (ht_replay_width t) * REAC_HEADAMP_NPARAMS in
          (case List.find (replay_emits t) [nat (ht_replay_idx t)..<tot] of
             Some idx \<Rightarrow>
               let (c, p) = replay_cell t idx;
                   t1 = t \<lparr> ht_replay_idx := int idx + 1, ht_resweep_wait := 0 \<rparr>;
                   t2 = (if int idx + 1 \<ge> int tot then t1 \<lparr> ht_replay_width := 0 \<rparr>
                         else t1 \<lparr> ht_replay_wait := REAC_HEADAMP_SWEEP_STRIDE - 1 \<rparr>)
               in (t2, Some (of_nat c, of_nat p, reac_headamp_tx_effective (Some t) (of_nat c) (of_nat p)))
           | None \<Rightarrow> (resweep_tick (t \<lparr> ht_replay_idx := max (ht_replay_idx t) (int tot), ht_replay_width := 0 \<rparr>), None))
        else (resweep_tick t, None))"

section \<open>Grants\<close>

abbreviation (input) REAC_GRANT_MAX_WIDTH :: int where "REAC_GRANT_MAX_WIDTH \<equiv> 40"
abbreviation (input) REAC_HEADAMP_CEILING :: int where "REAC_HEADAMP_CEILING \<equiv> 47"
abbreviation (input) REAC_GRANT_SWEEP_MAX :: int where "REAC_GRANT_SWEEP_MAX \<equiv> 128"

record reac_grant_alloc =
  ga_base :: u8
  ga_width :: u8

definition reac_grant_alloc_fits :: "int \<Rightarrow> int \<Rightarrow> bool" where
  "reac_grant_alloc_fits base width =
     (if width \<le> 0 \<or> width > REAC_GRANT_MAX_WIDTH then False
      else if base < 0 then False
      else base + width - 1 \<le> REAC_HEADAMP_CEILING)"

definition reac_grant_allocate :: "int \<Rightarrow> int \<Rightarrow> reac_grant_alloc option" where
  "reac_grant_allocate base in_ch =
     (if in_ch \<le> 0 \<or> in_ch > REAC_GRANT_MAX_WIDTH then None
      else if \<not> reac_grant_alloc_fits base in_ch then None
      else Some \<lparr> ga_base = word_of_int base, ga_width = word_of_int in_ch \<rparr>)"

definition reac_grant_headamp_value :: "reac_headamp_tx option \<Rightarrow> u8 \<Rightarrow> u8 \<Rightarrow> u8" where
  "reac_grant_headamp_value tx ch param = reac_headamp_tx_effective tx ch param"

definition grant_values :: "reac_grant_alloc \<Rightarrow> reac_headamp_tx option \<Rightarrow> bytes" where
  "grant_values alloc tx =
     concat (map (\<lambda>c. map (\<lambda>p. reac_grant_headamp_value tx (ga_base alloc + of_nat c) (of_nat p))
                   [0..<REAC_HEADAMP_NPARAMS]) [0..<unat (ga_width alloc)])"

definition reac_grant_build_sweep :: "int \<Rightarrow> reac_grant_alloc \<Rightarrow> reac_headamp_tx option \<Rightarrow> bytes list option" where
  "reac_grant_build_sweep max_rows alloc tx =
     (let w = uint (ga_width alloc) in
      if \<not> reac_grant_alloc_fits (uint (ga_base alloc)) w then None
      else if w \<le> 0 \<or> w > REAC_GRANT_MAX_WIDTH then None
      else reac_ctrl_build_grant_sweep max_rows (ga_base alloc) w (grant_values alloc tx))"

section \<open>Legal values\<close>

lemma param_value_ok_args: "param_value_ok = headamp_args_ok"
  by (simp add: fun_eq_iff param_value_ok_def headamp_args_ok_def)

definition headamp_inv :: "reac_headamp_tx \<Rightarrow> bool" where
  "headamp_inv t \<longleftrightarrow>
     (\<forall>c p. ht_set t c p \<longrightarrow> c < 48 \<and> p < 3 \<and> headamp_args_ok (of_nat p) (ht_value t c p))
     \<and> (\<forall>c p. ht_dirty t c p \<longrightarrow> ht_set t c p \<and> ht_active t)
     \<and> unat (ht_replay_base t) + unat (ht_replay_width t) \<le> 48
     \<and> unat (ht_scene_base t) + unat (ht_scene_width t) \<le> 48
     \<and> 0 \<le> ht_replay_idx t"

lemma headamp_param_lt: "headamp_args_ok param val \<Longrightarrow> unat param < 3"
  by (auto simp: headamp_args_ok_def split: if_splits)

lemma effective_legal:
  assumes "headamp_inv t" and "p < 3"
  shows "headamp_args_ok (of_nat p) (reac_headamp_tx_effective (Some t) ch (of_nat p))"
proof -
  have "p = 0 \<or> p = 1 \<or> p = 2" using assms(2) by auto
  then show ?thesis
    using assms(1) by (auto simp: reac_headamp_tx_effective_def headamp_inv_def reac_headamp_default_def headamp_args_ok_def)
qed

lemma headamp_inv_set: "headamp_inv t \<Longrightarrow> headamp_inv (fst (reac_headamp_tx_set t ch param val))"
  by (auto simp: reac_headamp_tx_set_def headamp_inv_def param_value_ok_args word_le_nat_alt
      dest: headamp_param_lt)

lemma arm_width: "base < (48 :: u8) \<Longrightarrow> unat base + unat (48 - base) = 48"
  by (simp add: unat_sub word_less_nat_alt word_le_nat_alt)

lemma headamp_inv_arm: "headamp_inv t \<Longrightarrow> headamp_inv (reac_headamp_tx_arm_scene t base width)"
proof -
  assume t: "headamp_inv t"
  have "unat base + unat (if uint base + uint width > 48 then 48 - base else width) \<le> 48" if "\<not> base \<ge> 48"
  proof (cases "uint base + uint width > 48")
    case True
    then show ?thesis using arm_width [of base] that by simp
  next
    case False
    then have "int (unat base) + int (unat width) \<le> 48" by simp
    then show ?thesis using False by (simp only: if_False)
  qed
  then show ?thesis using t by (simp add: reac_headamp_tx_arm_scene_def headamp_inv_def Let_def)
qed

lemma headamp_inv_resweep: "headamp_inv t \<Longrightarrow> headamp_inv (reac_headamp_tx_set_resweep t n)"
  by (simp add: reac_headamp_tx_set_resweep_def headamp_inv_def)

lemma headamp_inv_tick: "headamp_inv t \<Longrightarrow> headamp_inv (resweep_tick t)"
  by (simp add: resweep_tick_def headamp_inv_def Let_def)

lemma next_dirty_SomeD:
  assumes "next_dirty t = Some idx"
  shows "idx < 144" "ht_dirty t (idx div 3) (idx mod 3)"
    "\<And>j. j < idx \<Longrightarrow> \<not> ht_dirty t (j div 3) (j mod 3)"
  using find_upt_least [OF assms [unfolded next_dirty_def]] by auto

text \<open>The cases of one turn.\<close>

lemma headamp_next_cases:
  obtains (idle) "\<not> ht_active t" "ht_replay_width t = 0" "reac_headamp_tx_next t = (t, None)"
  | (dirty) idx where "next_dirty t = Some idx"
      "reac_headamp_tx_next t = (t \<lparr> ht_dirty := put_grid (ht_dirty t) (idx div 3) (idx mod 3) False, ht_resweep_wait := 0 \<rparr>,
         Some (of_nat (idx div 3), of_nat (idx mod 3), ht_value t (idx div 3) (idx mod 3)))"
  | (wait) "next_dirty t = None" "ht_replay_width t \<noteq> 0" "ht_replay_wait t > 0"
      "reac_headamp_tx_next t = (t \<lparr> ht_replay_wait := ht_replay_wait t - 1 \<rparr>, None)"
  | (emit) idx c p where "next_dirty t = None" "ht_replay_width t \<noteq> 0" "\<not> ht_replay_wait t > 0"
      "List.find (replay_emits t) [nat (ht_replay_idx t)..<unat (ht_replay_width t) * 3] = Some idx"
      "(c, p) = replay_cell t idx"
      "reac_headamp_tx_next t =
         ((if idx + 1 \<ge> unat (ht_replay_width t) * 3
           then t \<lparr> ht_replay_idx := int idx + 1, ht_resweep_wait := 0, ht_replay_width := 0 \<rparr>
           else t \<lparr> ht_replay_idx := int idx + 1, ht_resweep_wait := 0, ht_replay_wait := 11 \<rparr>),
          Some (of_nat c, of_nat p, reac_headamp_tx_effective (Some t) (of_nat c) (of_nat p)))"
  | (spent) "next_dirty t = None" "ht_replay_width t \<noteq> 0" "\<not> ht_replay_wait t > 0"
      "List.find (replay_emits t) [nat (ht_replay_idx t)..<unat (ht_replay_width t) * 3] = None"
      "reac_headamp_tx_next t = (resweep_tick (t \<lparr> ht_replay_idx := max (ht_replay_idx t) (int (unat (ht_replay_width t) * 3)),
         ht_replay_width := 0 \<rparr>), None)"
  | (quiet) "next_dirty t = None" "ht_replay_width t = 0" "ht_active t" "reac_headamp_tx_next t = (resweep_tick t, None)"
proof (cases "\<not> ht_active t \<and> ht_replay_width t = 0")
  case True
  then show ?thesis by (intro idle) (simp_all add: reac_headamp_tx_next_def)
next
  case act: False
  show ?thesis
  proof (cases "next_dirty t")
    case (Some idx)
    then show ?thesis using act by (intro dirty [of idx]) (simp_all add: reac_headamp_tx_next_def Let_def)
  next
    case None
    show ?thesis
    proof (cases "ht_replay_width t = 0")
      case True
      then show ?thesis using act None by (intro quiet) (simp_all add: reac_headamp_tx_next_def)
    next
      case w: False
      show ?thesis
      proof (cases "ht_replay_wait t > 0")
        case True
        then show ?thesis using w None by (intro wait) (simp_all add: reac_headamp_tx_next_def)
      next
        case nw: False
        show ?thesis
        proof (cases "List.find (replay_emits t) [nat (ht_replay_idx t)..<unat (ht_replay_width t) * 3]")
          case (Some idx)
          obtain c p where cp: "replay_cell t idx = (c, p)" by (cases "replay_cell t idx")
          have "int (unat (ht_replay_width t) * 3) \<le> int idx + 1 \<longleftrightarrow> unat (ht_replay_width t) * 3 \<le> idx + 1" by linarith
          then show ?thesis
            using w nw None Some cp by (intro emit [of idx c p]) (simp_all add: reac_headamp_tx_next_def Let_def)
        next
          case nf: None
          then show ?thesis using w nw None by (intro spent) (simp_all add: reac_headamp_tx_next_def Let_def)
        qed
      qed
    qed
  qed
qed

lemma replay_idx_cell:
  assumes "headamp_inv t" and "List.find (replay_emits t) [a..<unat (ht_replay_width t) * 3] = Some idx"
    and "(c, p) = replay_cell t idx"
  shows "c < 48" "p < 3" "a \<le> idx" "idx < unat (ht_replay_width t) * 3"
proof -
  note f = find_upt_least [OF assms(2)]
  show "a \<le> idx" "idx < unat (ht_replay_width t) * 3" using f by auto
  then have "idx div 3 < unat (ht_replay_width t)" by (simp add: less_mult_imp_div_less)
  then show "c < 48" "p < 3" using assms(1,3) by (auto simp: replay_cell_def headamp_inv_def)
qed

lemma headamp_inv_next: "headamp_inv t \<Longrightarrow> headamp_inv (fst (reac_headamp_tx_next t))"
proof (cases t rule: headamp_next_cases)
  case idle
  then show "headamp_inv t \<Longrightarrow> ?thesis" by simp
next
  case (dirty idx)
  then show "headamp_inv t \<Longrightarrow> ?thesis" by (auto simp: headamp_inv_def)
next
  case wait
  then show "headamp_inv t \<Longrightarrow> ?thesis" by (simp add: headamp_inv_def)
next
  case (emit idx c p)
  then show "headamp_inv t \<Longrightarrow> ?thesis" by (auto simp: headamp_inv_def)
next
  case spent
  have "headamp_inv t \<Longrightarrow> headamp_inv (t \<lparr> ht_replay_idx := max (ht_replay_idx t) (int (unat (ht_replay_width t) * 3)),
      ht_replay_width := 0 \<rparr>)" by (auto simp: headamp_inv_def)
  then show "headamp_inv t \<Longrightarrow> ?thesis" unfolding spent(5) fst_conv by (rule headamp_inv_tick)
next
  case quiet
  then show "headamp_inv t \<Longrightarrow> ?thesis" by (auto intro!: headamp_inv_tick)
qed

text \<open>Whatever a turn emits, the frame writer accepts.\<close>

lemma headamp_next_legal:
  assumes "headamp_inv t" and "snd (reac_headamp_tx_next t) = Some (ch, param, val)"
  shows "headamp_args_ok param val \<and> ch < 48"
proof (cases t rule: headamp_next_cases)
  case (dirty idx)
  have s: "ht_set t (idx div 3) (idx mod 3)" using next_dirty_SomeD(2) [OF dirty(1)] assms(1) by (simp add: headamp_inv_def)
  then have "idx div 3 < 48" "headamp_args_ok (of_nat (idx mod 3)) (ht_value t (idx div 3) (idx mod 3))"
    using assms(1) by (auto simp: headamp_inv_def)
  then show ?thesis using assms(2) dirty by (auto simp: word_less_nat_alt unat_of_nat take_bit_nat_eq_self)
next
  case (emit idx c p)
  note b = replay_idx_cell [OF assms(1) emit(4,5)]
  then show ?thesis
    using assms(2) emit effective_legal [OF assms(1) b(2)] by (auto simp: word_less_nat_alt unat_of_nat take_bit_nat_eq_self)
qed (use assms(2) in auto)

text \<open>The transmitter as a machine: the operator sets cells, scenes are armed, turns are taken.\<close>

datatype headamp_op = HSet u8 u8 u8 | HArm u8 u8 | HResweep u32 | HNext

definition headamp_step :: "reac_headamp_tx \<Rightarrow> headamp_op \<Rightarrow> reac_headamp_tx" where
  "headamp_step t op = (case op of HSet ch p v \<Rightarrow> fst (reac_headamp_tx_set t ch p v)
     | HArm b w \<Rightarrow> reac_headamp_tx_arm_scene t b w
     | HResweep n \<Rightarrow> reac_headamp_tx_set_resweep t n
     | HNext \<Rightarrow> fst (reac_headamp_tx_next t))"

interpretation headamp_machine: invariant_machine headamp_step headamp_inv "\<lambda>_. True"
  by unfold_locales
    (auto simp: headamp_step_def headamp_inv_set headamp_inv_arm headamp_inv_resweep headamp_inv_next split: headamp_op.splits)

lemma headamp_inv_init: "headamp_inv reac_headamp_tx_init"
  by (simp add: headamp_inv_def reac_headamp_tx_init_def)

section \<open>Turns\<close>

fun headamp_run :: "nat \<Rightarrow> reac_headamp_tx \<Rightarrow> reac_headamp_tx \<times> (u8 \<times> u8 \<times> u8) list" where
  "headamp_run 0 t = (t, [])"
| "headamp_run (Suc n) t =
     (let (t1, x) = reac_headamp_tx_next t; (t2, xs) = headamp_run n t1
      in (t2, (case x of None \<Rightarrow> xs | Some c \<Rightarrow> c # xs)))"

lemma headamp_run_Suc:
  "snd (headamp_run (Suc n) t) = (case snd (reac_headamp_tx_next t) of None \<Rightarrow> [] | Some c \<Rightarrow> [c])
     @ snd (headamp_run n (fst (reac_headamp_tx_next t)))"
  "fst (headamp_run (Suc n) t) = fst (headamp_run n (fst (reac_headamp_tx_next t)))"
  by (simp_all add: split_beta Let_def split: option.splits)

declare headamp_run.simps(2) [simp del]

definition dirty_cells :: "reac_headamp_tx \<Rightarrow> nat list" where
  "dirty_cells t = filter (\<lambda>i. ht_dirty t (i div 3) (i mod 3)) [0..<144]"

lemma dirty_cells_cong: "ht_dirty t' = ht_dirty t \<Longrightarrow> dirty_cells t' = dirty_cells t"
  by (simp only: dirty_cells_def)

definition cell_of :: "reac_headamp_tx \<Rightarrow> nat \<Rightarrow> u8 \<times> u8 \<times> u8" where
  "cell_of t i = (of_nat (i div 3), of_nat (i mod 3), ht_value t (i div 3) (i mod 3))"

lemma find_filter: "List.find p xs = (case filter p xs of [] \<Rightarrow> None | x # _ \<Rightarrow> Some x)"
  by (induction xs) auto

lemma filter_drop_first:
  assumes "distinct xs" and "filter p xs = y # ys"
  shows "filter (\<lambda>i. p i \<and> i \<noteq> y) xs = ys"
  using assms by (induction xs) (auto split: if_splits intro: filter_cong)

lemma next_dirty_first:
  assumes "dirty_cells t = i # is" and "headamp_inv t"
  shows "snd (reac_headamp_tx_next t) = Some (cell_of t i)" "dirty_cells (fst (reac_headamp_tx_next t)) = is"
    "ht_value (fst (reac_headamp_tx_next t)) = ht_value t"
proof -
  have n: "next_dirty t = Some i" using assms(1) by (simp only: next_dirty_def find_filter dirty_cells_def list.case)
  have a: "ht_active t" using next_dirty_SomeD(2) [OF n] assms(2) by (auto simp: headamp_inv_def)
  have e: "reac_headamp_tx_next t = (t \<lparr> ht_dirty := put_grid (ht_dirty t) (i div 3) (i mod 3) False, ht_resweep_wait := 0 \<rparr>,
      Some (cell_of t i))"
    using n a by (simp add: reac_headamp_tx_next_def Let_def cell_of_def)
  have "(j div 3 = i div 3 \<and> j mod 3 = i mod 3) = (j = i)" for j :: nat by (metis div_mult_mod_eq)
  then have "dirty_cells (fst (reac_headamp_tx_next t)) =
      filter (\<lambda>j. ht_dirty t (j div 3) (j mod 3) \<and> j \<noteq> i) [0..<144]"
    unfolding dirty_cells_def by (intro filter_cong) (auto simp: e)
  then show "dirty_cells (fst (reac_headamp_tx_next t)) = is"
    using filter_drop_first [OF _ assms(1) [unfolded dirty_cells_def]] by simp
  show "snd (reac_headamp_tx_next t) = Some (cell_of t i)" "ht_value (fst (reac_headamp_tx_next t)) = ht_value t"
    by (simp_all add: e)
qed

lemma headamp_drain:
  "headamp_inv t \<Longrightarrow> dirty_cells t = is \<Longrightarrow>
     snd (headamp_run (length is) t) = map (cell_of t) is \<and> dirty_cells (fst (headamp_run (length is) t)) = []"
proof (induction "is" arbitrary: t)
  case (Cons i "is")
  note nd = next_dirty_first [OF Cons.prems(2,1)]
  have c: "cell_of (fst (reac_headamp_tx_next t)) = cell_of t" by (simp add: fun_eq_iff cell_of_def nd(3))
  show ?case
    using Cons.IH [OF headamp_inv_next [OF Cons.prems(1)] nd(2)] nd(1) c by (simp add: headamp_run_Suc)
qed simp

section \<open>Replay\<close>

definition replay_ready :: "reac_headamp_tx \<Rightarrow> nat \<Rightarrow> bool" where
  "replay_ready t j \<longleftrightarrow> headamp_inv t \<and> dirty_cells t = [] \<and> \<not> ht_replay_set_only t
     \<and> ht_replay_idx t = int j \<and> j < unat (ht_replay_width t) * 3"

definition sweep_cell :: "reac_headamp_tx \<Rightarrow> nat \<Rightarrow> u8 \<times> u8 \<times> u8" where
  "sweep_cell t i = (of_nat (unat (ht_replay_base t) + i div 3), of_nat (i mod 3),
     reac_headamp_tx_effective (Some t) (of_nat (unat (ht_replay_base t) + i div 3)) (of_nat (i mod 3)))"

lemma next_dirty_None: "dirty_cells t = [] \<Longrightarrow> next_dirty t = None"
  by (simp only: next_dirty_def dirty_cells_def find_filter list.case)

lemma replay_ready_upd:
  assumes "replay_ready t j" and "i < unat (ht_replay_width t) * 3"
  shows "replay_ready (t \<lparr> ht_replay_idx := int i, ht_resweep_wait := a, ht_replay_wait := b \<rparr>) i"
    "replay_ready (t \<lparr> ht_replay_wait := b \<rparr>) j"
proof -
  have d: "dirty_cells (t \<lparr> ht_replay_idx := int i, ht_resweep_wait := a, ht_replay_wait := b \<rparr>) = dirty_cells t"
    "dirty_cells (t \<lparr> ht_replay_wait := b \<rparr>) = dirty_cells t"
    by (rule dirty_cells_cong, simp)+
  show "replay_ready (t \<lparr> ht_replay_idx := int i, ht_resweep_wait := a, ht_replay_wait := b \<rparr>) i"
    "replay_ready (t \<lparr> ht_replay_wait := b \<rparr>) j"
    using assms unfolding replay_ready_def d by (simp_all add: headamp_inv_def)
qed

lemma headamp_wait_run:
  "replay_ready t j \<Longrightarrow> ht_replay_wait t = int k \<Longrightarrow>
     headamp_run k t = (t \<lparr> ht_replay_wait := 0 \<rparr>, [])"
proof (induction k arbitrary: t)
  case (Suc k)
  have w: "ht_replay_width t \<noteq> 0" using Suc.prems(1) by (auto simp: replay_ready_def)
  have e: "reac_headamp_tx_next t = (t \<lparr> ht_replay_wait := int k \<rparr>, None)"
    using Suc.prems w next_dirty_None by (simp add: reac_headamp_tx_next_def replay_ready_def)
  have "replay_ready (t \<lparr> ht_replay_wait := int k \<rparr>) j"
    using Suc.prems(1) by (intro replay_ready_upd(2) [of t j j]) (simp_all add: replay_ready_def)
  from Suc.IH [OF this] show ?case by (simp add: headamp_run.simps(2) e)
qed simp

lemma find_upt_hd: "a < b \<Longrightarrow> p a \<Longrightarrow> List.find p [a..<b] = Some a"
  by (simp add: upt_conv_Cons)

lemma replay_turn:
  assumes "replay_ready t j" and "ht_replay_wait t = 0"
  shows "snd (reac_headamp_tx_next t) = Some (sweep_cell t j)"
    and "fst (reac_headamp_tx_next t) = (if Suc j = unat (ht_replay_width t) * 3
      then t \<lparr> ht_replay_idx := int j + 1, ht_resweep_wait := 0, ht_replay_width := 0 \<rparr>
      else t \<lparr> ht_replay_idx := int j + 1, ht_resweep_wait := 0, ht_replay_wait := 11 \<rparr>)"
proof -
  have w: "ht_replay_width t \<noteq> 0" and j: "j < unat (ht_replay_width t) * 3" "nat (ht_replay_idx t) = j"
    using assms(1) by (auto simp: replay_ready_def)
  have f: "List.find (replay_emits t) [j..<unat (ht_replay_width t) * 3] = Some j"
    using j assms(1) by (intro find_upt_hd) (auto simp: replay_emits_def replay_ready_def split: prod.splits)
  have le: "(int (unat (ht_replay_width t) * 3) \<le> int j + 1) = (Suc j = unat (ht_replay_width t) * 3)"
    using j(1) by linarith
  have n: "next_dirty t = None" using assms(1) next_dirty_None by (simp add: replay_ready_def)
  show "snd (reac_headamp_tx_next t) = Some (sweep_cell t j)"
    using w n f j(2) assms(2) by (simp add: reac_headamp_tx_next_def Let_def replay_cell_def sweep_cell_def)
  show "fst (reac_headamp_tx_next t) = (if Suc j = unat (ht_replay_width t) * 3
      then t \<lparr> ht_replay_idx := int j + 1, ht_resweep_wait := 0, ht_replay_width := 0 \<rparr>
      else t \<lparr> ht_replay_idx := int j + 1, ht_resweep_wait := 0, ht_replay_wait := 11 \<rparr>)"
    using w n f j(2) assms(2) le by (simp add: reac_headamp_tx_next_def Let_def replay_cell_def)
qed

lemma headamp_run_add:
  "snd (headamp_run (m + n) t) = snd (headamp_run m t) @ snd (headamp_run n (fst (headamp_run m t)))"
  by (induction m arbitrary: t) (simp_all add: headamp_run_Suc)

lemma sweep_cell_cong:
  "ht_replay_base t' = ht_replay_base t \<Longrightarrow> ht_set t' = ht_set t \<Longrightarrow> ht_value t' = ht_value t \<Longrightarrow>
     sweep_cell t' = sweep_cell t"
  by (simp add: fun_eq_iff sweep_cell_def reac_headamp_tx_effective_def)

lemma replay_run:
  assumes "replay_ready t j" and "ht_replay_wait t = 0" and "unat (ht_replay_width t) * 3 - j = Suc d"
  shows "snd (headamp_run (12 * d + 1) t) = map (sweep_cell t) [j..<unat (ht_replay_width t) * 3]"
  using assms
proof (induction d arbitrary: t j)
  case 0
  then have "Suc j = unat (ht_replay_width t) * 3" by simp
  then have "[j..<unat (ht_replay_width t) * 3] = [j]" by (metis upt_conv_Cons lessI upt_rec not_less_iff_gr_or_eq)
  then show ?case using replay_turn(1) [OF 0(1,2)] by (simp add: headamp_run_Suc)
next
  case (Suc d)
  let ?tot = "unat (ht_replay_width t) * 3"
  let ?u = "t \<lparr> ht_replay_idx := int j + 1, ht_resweep_wait := 0, ht_replay_wait := 11 \<rparr>"
  let ?v = "t \<lparr> ht_replay_idx := int j + 1, ht_resweep_wait := 0, ht_replay_wait := 0 \<rparr>"
  have j: "j < ?tot" "Suc j \<noteq> ?tot" using Suc.prems by auto
  have u: "fst (reac_headamp_tx_next t) = ?u" using replay_turn(2) [OF Suc.prems(1,2)] j by simp
  have ru: "replay_ready ?u (Suc j)" and rv: "replay_ready ?v (Suc j)"
    using replay_ready_upd(1) [OF Suc.prems(1), of "Suc j"] j by (simp_all add: add.commute)
  have r11: "headamp_run 11 ?u = (?v, [])" using headamp_wait_run [OF ru, of 11] by simp
  have iv: "snd (headamp_run (12 * d + 1) ?v) = map (sweep_cell ?v) [Suc j..<?tot]"
    using Suc.IH [OF rv] Suc.prems(3) by simp
  have sv: "sweep_cell ?v = sweep_cell t" by (rule sweep_cell_cong) simp_all
  have "snd (headamp_run (12 * Suc d + 1) t) = sweep_cell t j # snd (headamp_run (11 + (12 * d + 1)) ?u)"
    using replay_turn(1) [OF Suc.prems(1,2)] u headamp_run_Suc(1) [of "11 + (12 * d + 1)" t] by simp
  also have "\<dots> = sweep_cell t j # map (sweep_cell t) [Suc j..<?tot]"
    using headamp_run_add [of 11 "12 * d + 1" ?u] r11 iv sv by simp
  also have "\<dots> = map (sweep_cell t) [j..<?tot]" using j(1) by (simp add: upt_conv_Cons)
  finally show ?case .
qed

section \<open>Properties\<close>

text \<open>The head-amp transmitter never offers an illegal command. From power-up, after any
  sequence of operator settings, armed scenes, resweeps and turns, whatever a turn emits is a
  channel below 48 with a value the frame writer accepts.\<close>

theorem headamp_emits_legal:
  assumes "snd (reac_headamp_tx_next (foldl headamp_step reac_headamp_tx_init ops)) = Some (ch, param, val)"
  shows "ch < 48 \<and> headamp_args_ok param val"
proof -
  have "headamp_inv (foldl headamp_step reac_headamp_tx_init ops)"
    by (rule headamp_machine.inv_run) (simp_all add: headamp_inv_init list_all_iff)
  from headamp_next_legal [OF this assms] show ?thesis by simp
qed

theorem headamp_emits_legal_witness:
  "snd (reac_headamp_tx_next (foldl headamp_step reac_headamp_tx_init [HSet 5 2 0x30])) = Some (5, 2, 0x30)
   \<and> (5 :: u8) < 48 \<and> headamp_args_ok 2 0x30"
proof -
  have e: "snd (reac_headamp_tx_next (foldl headamp_step reac_headamp_tx_init [HSet 5 2 0x30])) = Some (5, 2, 0x30)"
    by code_simp
  then show ?thesis using headamp_emits_legal [OF e] by simp
qed

text \<open>Every pending setting is delivered, once, and promptly. With k cells pending, the next k
  turns emit exactly those cells in channel order with their current values, and none is left.\<close>

theorem headamp_pending_delivered:
  assumes "headamp_inv t"
  shows "snd (headamp_run (length (dirty_cells t)) t) = map (cell_of t) (dirty_cells t)
    \<and> dirty_cells (fst (headamp_run (length (dirty_cells t)) t)) = []"
  using headamp_drain [OF assms refl] .

theorem headamp_pending_delivered_witness:
  "snd (headamp_run (length (dirty_cells (headamp_step reac_headamp_tx_init (HSet 5 2 0x30))))
      (headamp_step reac_headamp_tx_init (HSet 5 2 0x30))) =
     map (cell_of (headamp_step reac_headamp_tx_init (HSet 5 2 0x30)))
       (dirty_cells (headamp_step reac_headamp_tx_init (HSet 5 2 0x30)))"
  using headamp_pending_delivered [of "headamp_step reac_headamp_tx_init (HSet 5 2 0x30)"]
    headamp_inv_set [OF headamp_inv_init, of 5 2 "0x30"] by (simp add: headamp_step_def)

text \<open>An armed scene is replayed whole. With nothing pending, arming a range that fits the 48
  channels makes the transmitter emit all three parameters of each of its channels, in order and
  with their effective values, one per twelve turns.\<close>

theorem headamp_scene_replayed:
  assumes "headamp_inv t" and "dirty_cells t = []" and "width \<noteq> 0" and "unat base + unat width \<le> 48"
  shows "snd (headamp_run (12 * (3 * unat width - 1) + 1) (reac_headamp_tx_arm_scene t base width)) =
    map (\<lambda>i. (of_nat (unat base + i div 3), of_nat (i mod 3),
        reac_headamp_tx_effective (Some t) (of_nat (unat base + i div 3)) (of_nat (i mod 3)))) [0..<3 * unat width]"
proof -
  let ?t = "reac_headamp_tx_arm_scene t base width"
  have w: "0 < unat width" using assms(3) by (simp add: unat_gt_0)
  have b: "\<not> base \<ge> 48" using assms(4) w by (simp add: word_le_nat_alt)
  have "int (unat base) + int (unat width) \<le> 48" using assms(4) by linarith
  then have "\<not> uint base + uint width > 48" by simp
  then have e: "?t = t \<lparr> ht_replay_base := base, ht_replay_width := width, ht_replay_idx := 0, ht_replay_wait := 0,
      ht_replay_set_only := False, ht_scene_base := base, ht_scene_width := width, ht_resweep_wait := 0 \<rparr>"
    using assms(3) b by (simp add: reac_headamp_tx_arm_scene_def Let_def)
  have r: "replay_ready ?t 0"
  proof -
    have "dirty_cells ?t = dirty_cells t" by (rule dirty_cells_cong) (simp add: e)
    then show ?thesis using headamp_inv_arm [OF assms(1), of base width] assms(2) w
      by (simp add: replay_ready_def) (simp add: e)
  qed
  have "snd (headamp_run (12 * (3 * unat width - 1) + 1) ?t) = map (sweep_cell ?t) [0..<unat (ht_replay_width ?t) * 3]"
    using w by (intro replay_run [OF r]) (simp_all add: e)
  then show ?thesis by (simp add: e sweep_cell_def reac_headamp_tx_effective_def mult.commute)
qed

theorem headamp_scene_replayed_witness:
  "length (snd (headamp_run (12 * (3 * unat (8 :: u8) - 1) + 1) (reac_headamp_tx_arm_scene reac_headamp_tx_init 0x20 8))) = 24"
proof -
  have d: "dirty_cells reac_headamp_tx_init = []" by code_simp
  show ?thesis using headamp_scene_replayed [OF headamp_inv_init d, of 8 "0x20"] by simp
qed

section \<open>Granted slots\<close>

lemma nth_concat_rows:
  assumes "\<And>c. c < w \<Longrightarrow> length (g c) = 3" and "c < w" and "p < 3"
  shows "concat (map g [0..<w]) ! (c * 3 + p) = g c ! p"
  using assms
proof (induction w)
  case (Suc w)
  have l: "length (concat (map g [0..<w])) = w * 3"
    using Suc.prems(1) by (subst length_concat_const [where c = 3]) auto
  show ?case
  proof (cases "c = w")
    case True
    then show ?thesis using l by (simp add: nth_append)
  next
    case False
    then have "c * 3 + p < w * 3" using Suc.prems by linarith
    then show ?thesis using Suc l False by (simp add: nth_append)
  qed
qed simp

lemma grant_values_nth:
  assumes "c < unat (ga_width a)" and "p < 3"
  shows "grant_values a tx ! (c * 3 + p) = reac_headamp_tx_effective tx (ga_base a + of_nat c) (of_nat p)"
  unfolding grant_values_def reac_grant_headamp_value_def
  by (subst nth_concat_rows) (use assms in simp_all)

lemma grant_allocate_fields:
  assumes "reac_grant_allocate base in_ch = Some a"
  shows "uint (ga_base a) = base" "uint (ga_width a) = in_ch" "0 < in_ch" "in_ch \<le> 40" "0 \<le> base" "base + in_ch \<le> 48"
  using assms by (auto simp: reac_grant_allocate_def reac_grant_alloc_fits_def uint_word_of_int split: if_splits)

lemma effective_legal_option:
  assumes "\<And>t. tx = Some t \<Longrightarrow> headamp_inv t" and "p < 3"
  shows "headamp_args_ok (of_nat p) (reac_headamp_tx_effective tx ch (of_nat p))"
proof (cases tx)
  case None
  have "p = 0 \<or> p = 1 \<or> p = 2" using assms(2) by auto
  with None show ?thesis by (auto simp: reac_headamp_tx_effective_def reac_headamp_default_def headamp_args_ok_def)
qed (use assms effective_legal in blast)

lemma grant_rows:
  assumes "reac_grant_allocate base in_ch = Some a" and "\<And>t. tx = Some t \<Longrightarrow> headamp_inv t"
  shows "\<exists>rows. reac_grant_build_sweep 128 a tx = Some rows \<and> int (length rows) = 8 + in_ch * 3
    \<and> (\<forall>r \<in> set rows. row_ok r)
    \<and> concat (map row_cells rows) = concat (map (\<lambda>c. map (\<lambda>p. (ga_base a + of_nat c, of_nat p,
          reac_headamp_tx_effective tx (ga_base a + of_nat c) (of_nat p))) [0..<3]) [0..<nat in_ch])"
proof -
  note f = grant_allocate_fields [OF assms(1)]
  have w: "unat (ga_width a) = nat in_ch" using f(2) by (simp flip: nat_uint_eq)
  have fits: "reac_grant_alloc_fits (uint (ga_base a)) (uint (ga_width a))"
    using f by (simp add: reac_grant_alloc_fits_def)
  have legal: "\<forall>c < nat in_ch. \<forall>p < 3. headamp_args_ok (of_nat p) (grant_values a tx ! (c * 3 + p))"
    using effective_legal_option [OF assms(2)] by (simp add: grant_values_nth w)
  have cells: "concat (map (sweep_cells (ga_base a) (grant_values a tx)) [0..<nat in_ch]) =
      concat (map (\<lambda>c. map (\<lambda>p. (ga_base a + of_nat c, of_nat p,
          reac_headamp_tx_effective tx (ga_base a + of_nat c) (of_nat p))) [0..<3]) [0..<nat in_ch])"
    by (intro arg_cong [of _ _ concat] map_cong refl) (simp add: sweep_cells_def grant_values_nth w)
  show ?thesis
    using grant_sweep_rows [of "uint (ga_width a)" "ga_base a" 128 "grant_values a tx"] f legal fits cells
    by (simp add: reac_grant_build_sweep_def Let_def)
qed

text \<open>C32: an allocation can always be granted. Whatever the operator has set, an allocation the
  allocator hands out yields a sweep of 8 + 3 * width rows that checksum and that set, for each
  channel of the allocation in order, its three effective head-amp values.\<close>

theorem grant_covers_allocation:
  assumes "reac_grant_allocate base in_ch = Some a" and "headamp_inv t"
  shows "\<exists>rows. reac_grant_build_sweep 128 a (Some t) = Some rows \<and> int (length rows) = 8 + in_ch * 3
    \<and> (\<forall>r \<in> set rows. row_ok r)
    \<and> concat (map row_cells rows) = concat (map (\<lambda>c. map (\<lambda>p. (ga_base a + of_nat c, of_nat p,
          reac_headamp_tx_effective (Some t) (ga_base a + of_nat c) (of_nat p))) [0..<3]) [0..<nat in_ch])"
  using assms grant_rows [of base in_ch a "Some t"] by simp

theorem grant_covers_allocation_witness:
  "\<exists>rows. reac_grant_build_sweep 128 \<lparr> ga_base = 0x20, ga_width = 16 \<rparr> (Some reac_headamp_tx_init) = Some rows
    \<and> int (length rows) = 56"
proof -
  have "reac_grant_allocate 32 16 = Some \<lparr> ga_base = 0x20, ga_width = 16 \<rparr>"
    by (simp add: reac_grant_allocate_def reac_grant_alloc_fits_def)
  from grant_covers_allocation [OF this headamp_inv_init] show ?thesis by auto
qed

text \<open>A head-amp setting packed into a word for the lock-free hand-over is unpacked unchanged.\<close>

theorem headamp_pack_roundtrip:
  "reac_headamp_unpack (reac_headamp_pack ch param val) = (ch, param, val)"
proof -
  have m: "(255 :: u32) = mask 8" by (simp add: mask_eq_exp_minus_1)
  have "ucast (drop_bit 16 (reac_headamp_pack ch param val) AND 0xFF) = ch"
    "ucast (drop_bit 8 (reac_headamp_pack ch param val) AND 0xFF) = param"
    "ucast (reac_headamp_pack ch param val AND 0xFF) = val"
    unfolding reac_headamp_pack_def m by (rule bit_word_eqI; auto simp: bit_simps)+
  then show ?thesis by (simp add: reac_headamp_unpack_def)
qed

end
