(* ===== verification/Reac_Master.thy ===== *)
theory Reac_Master
  imports Reac_Master_Fsm Reac_Headamp Reac_Scene
begin

text \<open>
  The master of a link, \<^verbatim>\<open>src/reac_master.c\<close>: the blocks it announces, enrols and grants with,
  the cadence that decides which block each frame slot carries, and the session it runs with one
  box on top of the transition table of \<open>Reac_Master_Fsm\<close>.

  The record \<open>reac_master\<close> has the fields of the C struct; flags are \<open>bool\<close>, the free-running
  counters are words of their width. Two things the code reads from outside the struct are the
  argument \<open>env\<close>: the process-wide tunables and the head-amp states that \<^verbatim>\<open>headamp_src\<close> may
  point to (the pointer is an address into \<open>en_headamp\<close>, so a change made through the owner is seen
  at the next rebuild). The scene body the master starts from is generated data and an argument of
  \<open>reac_master_init\<close>. \<^verbatim>\<open>reac_master_next\<close> returns the counter, the kind of frame and the template
  index beside the new state.
\<close>

section \<open>Tunables and configuration\<close>

record reac_master_tunables =
  tn_grant_on_declare :: int
  tn_grant_dwell_ms :: int
  tn_grant_dwell_s :: int
  tn_no_enroll :: int
  tn_est_scene :: int

definition REAC_MASTER_TUNABLES_DEFAULT :: reac_master_tunables where
  "REAC_MASTER_TUNABLES_DEFAULT =
     \<lparr> tn_grant_on_declare = 1, tn_grant_dwell_ms = 0, tn_grant_dwell_s = 0, tn_no_enroll = 0, tn_est_scene = 0 \<rparr>"

record master_env =
  en_tunables :: reac_master_tunables
  en_headamp :: "nat \<Rightarrow> reac_headamp_tx"

record reac_console_cfg =
  cc_out_channels :: u8
  cc_console_field :: u8

definition REAC_CONSOLE_CFG_IDLE :: reac_console_cfg where
  "REAC_CONSOLE_CFG_IDLE = \<lparr> cc_out_channels = 8, cc_console_field = 0 \<rparr>"

record reac_mixer_profile =
  mp_name :: string
  mp_display :: string
  mp_console_field :: u8

definition MIXER_PROFILES :: "reac_mixer_profile list" where
  "MIXER_PROFILES =
     [\<lparr> mp_name = ''m200'', mp_display = ''M-200'', mp_console_field = 0 \<rparr>,
      \<lparr> mp_name = ''m300'', mp_display = ''M-300'', mp_console_field = 0 \<rparr>,
      \<lparr> mp_name = ''m5000'', mp_display = ''M-5000'', mp_console_field = 1 \<rparr>]"

definition reac_mixer_profile_by_name :: "string option \<Rightarrow> reac_mixer_profile option" where
  "reac_mixer_profile_by_name name' =
     (case name' of None \<Rightarrow> None | Some name \<Rightarrow> List.find (\<lambda>p. name = mp_name p) MIXER_PROFILES)"

definition reac_mixer_profile_at :: "int \<Rightarrow> reac_mixer_profile option" where
  "reac_mixer_profile_at i =
     (if i < 0 \<or> nat i \<ge> length MIXER_PROFILES then None else Some (MIXER_PROFILES ! nat i))"

text \<open>The rate and the clamped flag; the profile is not consulted.\<close>

definition reac_mixer_resolve_rate :: "reac_mixer_profile option \<Rightarrow> int \<Rightarrow> int \<times> bool" where
  "reac_mixer_resolve_rate mixer requested =
     (if requested = 0 then (48000, False)
      else if requested \<noteq> 44100 \<and> requested \<noteq> 48000 \<and> requested \<noteq> 96000 then (48000, True)
      else (requested, False))"

section \<open>The state of a master\<close>

datatype reac_master_emit = REAC_M_EMIT_FILLER | REAC_M_EMIT_SCENE_CHUNK | REAC_M_EMIT_SCENE_HEAD
  | REAC_M_EMIT_SCENE_TAIL | REAC_M_EMIT_GRANT | REAC_M_EMIT_ENROLL | REAC_M_EMIT_CHANMAP
  | REAC_M_EMIT_ANNOUNCE | REAC_M_EMIT_IDENTITY_POLL

record reac_master =
  ma_state :: reac_master_state
  ma_src :: mac
  ma_counter :: u16
  ma_fps :: int
  ma_grant_frames :: int
  ma_grant_stride :: int
  ma_cfg :: reac_console_cfg
  ma_chanmap_nframes :: int
  ma_chanmap :: "bytes list"
  ma_cycle_len :: int
  ma_cycle_pos :: int
  ma_probe_stride :: int
  ma_burst_end :: int
  ma_sub02_off :: int
  ma_chanmap_off :: int
  ma_sub01_off :: int
  ma_scene_step :: int
  ma_announce_tick :: int
  ma_scene :: bytes
  ma_scene_blk :: bytes
  ma_filler_desc :: u8
  ma_commit_seen :: bool
  ma_scene_inflight :: bool
  ma_scene_complete :: u32
  ma_join_held :: bool
  ma_join_ev :: reac_master_rx_event
  ma_join_src :: mac
  ma_join_hold_blk :: bytes
  ma_join_has_blk :: bool
  ma_grant_ticks :: int
  ma_enroll_sent_tick :: int
  ma_dwell_ended_tick :: int
  ma_enroll_pending :: bool
  ma_grant_dwell :: int
  ma_alloc :: reac_grant_alloc
  ma_grant_burst :: "bytes list"
  ma_grant_burst_len :: int
  ma_headamp_src :: "nat option"
  ma_join_blk :: bytes
  ma_box_mac :: mac
  ma_session_seq :: u32
  ma_grant_attempts :: u32
  ma_chanmap_cursor :: int
  ma_est_chanmap_tick :: int
  ma_link_check :: int
  ma_link_check_reload :: int
  ma_box_seen :: bool
  ma_presence_tick :: int
  ma_drop_reason :: reac_master_drop_reason
  ma_announce_blk :: bytes
  ma_enroll_blk :: bytes
  ma_identity_complete :: bool
  ma_identity_polls :: int
  ma_identity_poll_left :: int
  ma_identity_poll_slot :: int

abbreviation (input) REAC_M_LINKCHECK_SECONDS_X10 :: int where "REAC_M_LINKCHECK_SECONDS_X10 \<equiv> 65"
abbreviation (input) REAC_M_PRESENCE_TIMEOUT :: int where "REAC_M_PRESENCE_TIMEOUT \<equiv> 600"
abbreviation (input) REAC_M_BURST_PER_SEC :: int where "REAC_M_BURST_PER_SEC \<equiv> 500"
abbreviation (input) REAC_M_GRANT_STRIDE :: int where "REAC_M_GRANT_STRIDE \<equiv> 12"
abbreviation (input) REAC_M_GRANT_DWELL_SECONDS_X10 :: int where "REAC_M_GRANT_DWELL_SECONDS_X10 \<equiv> 16"
abbreviation (input) REAC_M_CHANMAP_RING :: int where "REAC_M_CHANMAP_RING \<equiv> 49"
abbreviation (input) REAC_M_IDENTITY_POLLS :: int where "REAC_M_IDENTITY_POLLS \<equiv> 10"
abbreviation (input) REAC_GRANT_GROUPB_LEN :: int where "REAC_GRANT_GROUPB_LEN \<equiv> 6"
abbreviation (input) ANNOUNCE_MAC_IDX :: nat where "ANNOUNCE_MAC_IDX \<equiv> 11"
abbreviation (input) REAC_ENROLL_CONSOLE_IDX :: nat where "REAC_ENROLL_CONSOLE_IDX \<equiv> 8"
abbreviation (input) REAC_ENROLL_DEFAULT_WIDTH :: int where "REAC_ENROLL_DEFAULT_WIDTH \<equiv> 32"
abbreviation (input) REAC_CHANMAP_MARKER :: u8 where "REAC_CHANMAP_MARKER \<equiv> 0xfe"
abbreviation (input) REAC_CHANMAP_SLOTS :: nat where "REAC_CHANMAP_SLOTS \<equiv> 8"

section \<open>Blocks\<close>

definition stamp_block_cksum :: "bytes \<Rightarrow> bytes" where
  "stamp_block_cksum blk = cksum_stamp_at 2 blk"

definition ENROLL_BLK :: bytes where
  "ENROLL_BLK = [0xcd, 0xea, 0x01, 0x03, 0x00, 0x0d, 0x10, 0x04, 0x00, 0x41, 0x00, 0x00,
     0x00, 0x00, 0x00, 0xc3, 0xc3, 0xc3, 0xc3, 0x00, 0x00, 0x00, 0x00, 0x00,
     0x00, 0x00, 0x00, 0x00, 0x00, 0x00, 0x00, 0x00, 0x00, 0x8e]"

definition pace_code :: "reac_console_cfg option \<Rightarrow> u8" where
  "pace_code cfg' = (case cfg' of Some cfg \<Rightarrow> cc_console_field cfg | None \<Rightarrow> 0)"

definition set_enroll_width :: "bytes \<Rightarrow> int \<Rightarrow> bytes" where
  "set_enroll_width blk in_ch =
     (let n0 = (if in_ch \<le> 16 then 1 else in_ch sdiv 8);
          n1 = (if n0 < 1 then 1 else n0);
          n_in = (if n1 > 5 then 5 else n1)
      in stamp_block_cksum (foldl (\<lambda>b i. b[9 + i := (if int i < n_in then 0x41 else 0x00),
                                           14 + i := (if int i \<ge> n_in then 0xc3 else 0x00)]) blk [0..<5]))"

definition scene_prepare :: "reac_master \<Rightarrow> reac_master" where
  "scene_prepare m =
     (case reac_ctrl_build_scene_step (Some (ma_scene m)) (ma_scene_step m) of
        None \<Rightarrow> m
      | Some blk \<Rightarrow> m\<lparr> ma_scene_blk := blk, ma_filler_desc := blk ! 33 \<rparr>)"

definition gen_cfea :: "mac \<Rightarrow> reac_console_cfg \<Rightarrow> u16 \<Rightarrow> bytes" where
  "gen_cfea src cfg box_count =
     (let out = poke 0 [0xcf, 0xea, 0xff, 0xff, 0x01, 0x00, 0x01, 0x03, 0x0d, 0x01, 0x04] (replicate 34 0);
          out = poke ANNOUNCE_MAC_IDX src out
      in stamp_block_cksum (out[17 := 0x28, 18 := cc_out_channels cfg, 19 := pace_code (Some cfg),
           20 := ucast (drop_bit 8 box_count), 21 := ucast (box_count AND 0xff)]))"

definition ring_at :: "int \<Rightarrow> u8" where
  "ring_at i = (let j = i smod REAC_M_CHANMAP_RING
     in if j = REAC_M_CHANMAP_RING - 1 then REAC_CHANMAP_MARKER else word_of_int j)"

definition chanmap_start :: "int \<Rightarrow> int" where
  "chanmap_start f = (if f = 0 then REAC_M_CHANMAP_RING - 1
     else let i = f - 1; base = 7 - i sdiv 6; k = i smod 6 in base + 8 * k)"

definition chanmap_cell :: "u8 \<Rightarrow> u8 \<Rightarrow> bytes" where
  "chanmap_cell marker_family ch =
     (if ch = REAC_CHANMAP_MARKER then [0xfe, marker_family, 0x00]
      else [ch, (if ch \<ge> 0x28 \<and> ch \<le> 0x2f then 0x38 else 0x28), 0x00])"

definition chanmap_frame :: "u8 \<Rightarrow> nat \<Rightarrow> bytes" where
  "chanmap_frame marker_family f =
     (let z = (replicate 34 0)[0 := 0xcd, 1 := 0xea, 2 := 0x01, 3 := 0x03, 4 := 0x00, 5 := 0x19, 6 := 0x01];
          start = chanmap_start (int f);
          blk = foldl (\<lambda>b s. poke (7 + s * 3) (chanmap_cell marker_family (ring_at (start + int s))) b)
                  z [0..<REAC_CHANMAP_SLOTS]
      in stamp_block_cksum (blk[31 := 0x00, 32 := 0x00]))"

definition gen_chanmap :: "reac_console_cfg \<Rightarrow> bytes list \<times> int" where
  "gen_chanmap cfg = (map (chanmap_frame (pace_code (Some cfg))) [0..<nat REAC_M_CHANMAP_RING], REAC_M_CHANMAP_RING)"

section \<open>The grant sweep\<close>

text \<open>The sweep is built in place: rows past its length keep what they held. A build that fails
  after its allocation succeeded is modelled as writing nothing; no well-formed head-amp state makes
  it fail (\<open>grant_rows\<close> below).\<close>

definition rebuild_grant_sweep :: "master_env \<Rightarrow> reac_master \<Rightarrow> int \<Rightarrow> int \<Rightarrow> reac_master \<times> int" where
  "rebuild_grant_sweep env m base in_ch =
     (case reac_grant_allocate base in_ch of None \<Rightarrow> (m, - 1)
      | Some a \<Rightarrow>
        (case reac_grant_build_sweep REAC_GRANT_SWEEP_MAX a (map_option (en_headamp env) (ma_headamp_src m)) of
           None \<Rightarrow> (m, - 1)
         | Some rows \<Rightarrow>
           if int (length rows) \<le> 0 then (m, - 1)
           else (m\<lparr> ma_grant_burst := poke 0 rows (ma_grant_burst m), ma_alloc := a,
                   ma_grant_burst_len := int (length rows) \<rparr>, 0)))"

fun reac_master_state_name :: "reac_master_state \<Rightarrow> string" where
  "reac_master_state_name REAC_M_IDLE = ''IDLE''"
| "reac_master_state_name REAC_M_PROBING = ''PROBING''"
| "reac_master_state_name REAC_M_GRANTING = ''GRANTING''"
| "reac_master_state_name REAC_M_ESTABLISHED = ''ESTABLISHED''"

fun reac_master_rx_event_name :: "reac_master_rx_event \<Rightarrow> string" where
  "reac_master_rx_event_name REAC_M_RX_BOX_BCAST_FILLER = ''BCAST-FILLER''"
| "reac_master_rx_event_name REAC_M_RX_BOX_JOIN = ''JOIN''"
| "reac_master_rx_event_name REAC_M_RX_BOX_UNICAST = ''UNICAST''"
| "reac_master_rx_event_name REAC_M_RX_BOX_HEARTBEAT = ''HEARTBEAT''"
| "reac_master_rx_event_name REAC_M_RX_BOX_BYE = ''BYE''"
| "reac_master_rx_event_name REAC_M_RX_BOX_CONFIG = ''CONFIG''"

fun reac_master_drop_name :: "reac_master_drop_reason \<Rightarrow> string" where
  "reac_master_drop_name REAC_M_DROP_NONE = ''none''"
| "reac_master_drop_name REAC_M_DROP_PEER_GONE = ''peer-gone''"
| "reac_master_drop_name REAC_M_DROP_BYE = ''explicit-BYE''"
| "reac_master_drop_name REAC_M_DROP_MAC_CHANGE = ''box-mac-change''"
| "reac_master_drop_name REAC_M_DROP_GRANT_TIMEOUT = ''grant-timeout''"
| "reac_master_drop_name REAC_M_DROP_BOX_UNKNOWN = ''box-undeclared''"

section \<open>Tunables in use\<close>

text \<open>The new value of the process-wide tunables.\<close>

definition reac_master_tunables_set :: "reac_master_tunables option \<Rightarrow> reac_master_tunables" where
  "reac_master_tunables_set t' = (case t' of Some t \<Rightarrow> t | None \<Rightarrow> REAC_MASTER_TUNABLES_DEFAULT)"

definition grant_on_declare :: "master_env \<Rightarrow> bool" where
  "grant_on_declare env \<longleftrightarrow> tn_grant_on_declare (en_tunables env) \<noteq> 0"

definition declare_settle_slots :: "reac_master \<Rightarrow> int" where
  "declare_settle_slots m = (let slots = ma_fps m sdiv 20 in if slots < 1 then 1 else slots)"

definition dwell_ends_now :: "master_env \<Rightarrow> reac_master \<Rightarrow> reac_master \<times> bool" where
  "dwell_ends_now env m =
     (if ma_dwell_ended_tick m > 0 then (m, True)
      else if \<not> (grant_on_declare env \<and> \<not> ma_enroll_pending m \<and> ma_enroll_sent_tick m > 0
                \<and> ma_grant_ticks m \<ge> ma_enroll_sent_tick m + declare_settle_slots m) then (m, False)
      else (m\<lparr> ma_dwell_ended_tick := ma_grant_ticks m \<rparr>, True))"

definition grant_dwell_override_ms :: "reac_master_tunables \<Rightarrow> int" where
  "grant_dwell_override_ms tu =
     (let ms = tn_grant_dwell_ms tu in if ms > 0 \<and> ms < 600000 then ms else - 1)"

definition grant_dwell_override_s :: "reac_master_tunables \<Rightarrow> int" where
  "grant_dwell_override_s tu =
     (let s = tn_grant_dwell_s tu in if s > 0 \<and> s \<le> 3600 then s else - 1)"

definition no_enroll :: "master_env \<Rightarrow> bool" where
  "no_enroll env \<longleftrightarrow> tn_no_enroll (en_tunables env) \<noteq> 0"

definition est_scene_stream :: "master_env \<Rightarrow> bool" where
  "est_scene_stream env \<longleftrightarrow> tn_est_scene (en_tunables env) \<noteq> 0"

section \<open>The scene burst's slots\<close>

definition burst_slot :: "reac_master \<Rightarrow> int \<Rightarrow> int" where
  "burst_slot m k =
     (let s = (k * ma_fps m + REAC_M_BURST_PER_SEC sdiv 2) sdiv REAC_M_BURST_PER_SEC
      in if s < k then k else s)"

definition burst_index_at :: "reac_master \<Rightarrow> int \<Rightarrow> int" where
  "burst_index_at m pos =
     (if pos < 0 \<or> pos > ma_burst_end m \<or> ma_fps m \<le> 0 then - 1
      else let k0 = (pos * REAC_M_BURST_PER_SEC + ma_fps m sdiv 2) sdiv ma_fps m;
               k = (if k0 > pos then pos else k0)
           in case List.find (\<lambda>c. c \<ge> 0 \<and> c < REAC_SCENE_CHUNKS \<and> burst_slot m c = pos) [k - 1, k, k + 1] of
                Some c \<Rightarrow> c | None \<Rightarrow> - 1)"

section \<open>Start of a master\<close>

definition master_zero :: reac_master where
  "master_zero = \<lparr> ma_state = REAC_M_IDLE, ma_src = replicate 6 0, ma_counter = 0, ma_fps = 0, ma_grant_frames = 0,
     ma_grant_stride = 0, ma_cfg = \<lparr> cc_out_channels = 0, cc_console_field = 0 \<rparr>, ma_chanmap_nframes = 0,
     ma_chanmap = replicate (nat REAC_M_CHANMAP_RING) (replicate 34 0), ma_cycle_len = 0, ma_cycle_pos = 0, ma_probe_stride = 0,
     ma_burst_end = 0, ma_sub02_off = 0, ma_chanmap_off = 0, ma_sub01_off = 0, ma_scene_step = 0,
     ma_announce_tick = 0, ma_scene = replicate REAC_SCENE_BYTES 0, ma_scene_blk = replicate 34 0, ma_filler_desc = 0,
     ma_commit_seen = False, ma_scene_inflight = False, ma_scene_complete = 0, ma_join_held = False,
     ma_join_ev = REAC_M_RX_BOX_BCAST_FILLER, ma_join_src = replicate 6 0, ma_join_hold_blk = replicate 32 0,
     ma_join_has_blk = False, ma_grant_ticks = 0, ma_enroll_sent_tick = 0, ma_dwell_ended_tick = 0,
     ma_enroll_pending = False, ma_grant_dwell = 0, ma_alloc = \<lparr> ga_base = 0, ga_width = 0 \<rparr>,
     ma_grant_burst = replicate (nat REAC_GRANT_SWEEP_MAX) (replicate 34 0), ma_grant_burst_len = 0, ma_headamp_src = None,
     ma_join_blk = replicate 32 0, ma_box_mac = replicate 6 0, ma_session_seq = 0, ma_grant_attempts = 0,
     ma_chanmap_cursor = 0, ma_est_chanmap_tick = 0, ma_link_check = 0, ma_link_check_reload = 0,
     ma_box_seen = False, ma_presence_tick = 0, ma_drop_reason = REAC_M_DROP_NONE,
     ma_announce_blk = replicate 34 0, ma_enroll_blk = replicate 34 0, ma_identity_complete = False,
     ma_identity_polls = 0, ma_identity_poll_left = 0, ma_identity_poll_slot = 0 \<rparr>"

definition init_dwell :: "reac_master_tunables \<Rightarrow> int \<Rightarrow> int" where
  "init_dwell tu fps =
     (let d0 = (fps * REAC_M_GRANT_DWELL_SECONDS_X10) sdiv 10;
          d1 = (if d0 < 1 then 1 else d0);
          dwell_ms = grant_dwell_override_ms tu;
          dwell_s = grant_dwell_override_s tu
      in if dwell_ms > 0 then (let d = (fps * dwell_ms) sdiv 1000 in if d < 1 then 1 else d)
         else if dwell_s > 0 then fps * dwell_s
         else d1)"

definition init_cadence :: "reac_master \<Rightarrow> reac_master" where
  "init_cadence m =
     (let fps = ma_fps m;
          cycle_len = (fps * 10778) sdiv 4000;
          ps = (fps + REAC_M_BURST_PER_SEC sdiv 2) sdiv REAC_M_BURST_PER_SEC;
          probe_stride = (if ps < 1 then 1 else ps);
          burst_end = burst_slot m (REAC_SCENE_CHUNKS - 1)
      in m\<lparr> ma_cycle_len := cycle_len, ma_probe_stride := probe_stride, ma_burst_end := burst_end,
            ma_sub02_off := burst_end + probe_stride, ma_chanmap_off := (fps * 5953) sdiv 4000,
            ma_sub01_off := cycle_len - 5 \<rparr>)"

definition init_scene :: "bytes \<Rightarrow> reac_master \<Rightarrow> reac_master" where
  "init_scene placeholder m =
     (let body = (case reac_ctrl_scene_set_mac placeholder (ma_src m) of Some b \<Rightarrow> b | None \<Rightarrow> placeholder)
      in scene_prepare (m\<lparr> ma_scene := body[REAC_SCENE_REVISION_OFF := pace_code (Some (ma_cfg m)),
                                          REAC_SCENE_REVISION_OFF + 1 := 0x00],
                           ma_scene_step := 0 \<rparr>))"

definition reac_master_init :: "reac_master_tunables \<Rightarrow> bytes \<Rightarrow> mac \<Rightarrow> reac_console_cfg option \<Rightarrow> int \<Rightarrow> reac_master" where
  "reac_master_init tu placeholder src cfg' fps' =
     (let fps = (if fps' > 0 then fps' else 8000);
          cfg = (case cfg' of Some c \<Rightarrow> c | None \<Rightarrow> REAC_CONSOLE_CFG_IDLE);
          m1 = init_cadence (master_zero\<lparr> ma_state := REAC_M_IDLE, ma_src := src, ma_fps := fps, ma_cfg := cfg \<rparr>);
          gf = (fps * 15) sdiv 100;
          lc = (fps * REAC_M_LINKCHECK_SECONDS_X10) sdiv 10;
          m2 = m1\<lparr> ma_grant_frames := (if gf < 1 then 1 else gf), ma_grant_stride := REAC_M_GRANT_STRIDE,
                 ma_grant_dwell := init_dwell tu fps, ma_headamp_src := None,
                 ma_alloc := \<lparr> ga_base = 0, ga_width = 0 \<rparr>, ma_grant_burst_len := 0,
                 ma_link_check_reload := (if lc < 1 then 1 else lc),
                 ma_chanmap := fst (gen_chanmap cfg), ma_chanmap_nframes := snd (gen_chanmap cfg),
                 ma_announce_blk := gen_cfea src cfg 0,
                 ma_enroll_blk := set_enroll_width (ENROLL_BLK[REAC_ENROLL_CONSOLE_IDX := pace_code (Some cfg)])
                                    REAC_ENROLL_DEFAULT_WIDTH,
                 ma_enroll_pending := False, ma_enroll_sent_tick := 0 \<rparr>
      in init_scene placeholder m2)"

section \<open>The box a master holds\<close>

definition reac_master_has_box :: "reac_master \<Rightarrow> bool" where
  "reac_master_has_box m \<longleftrightarrow> ga_width (ma_alloc m) > 0"

definition reac_master_peer_accepts :: "reac_master \<Rightarrow> mac \<Rightarrow> reac_master_rx_event \<Rightarrow> bool" where
  "reac_master_peer_accepts m src ev =
     (if ma_state m \<noteq> REAC_M_GRANTING \<and> ma_state m \<noteq> REAC_M_ESTABLISHED then True
      else if ma_box_mac m = replicate 6 0 \<or> src = ma_box_mac m then True
      else ev = REAC_M_RX_BOX_JOIN \<and> ma_state m = REAC_M_GRANTING)"

definition reac_master_forget_box :: "reac_master \<Rightarrow> reac_master" where
  "reac_master_forget_box m =
     (let m1 = m\<lparr> ma_alloc := \<lparr> ga_base = 0, ga_width = 0 \<rparr>, ma_grant_burst_len := 0, ma_enroll_pending := False,
               ma_enroll_sent_tick := 0, ma_box_mac := replicate 6 0,
               ma_enroll_blk := set_enroll_width (ma_enroll_blk m) REAC_ENROLL_DEFAULT_WIDTH,
               ma_cfg := (ma_cfg m)\<lparr> cc_out_channels := cc_out_channels REAC_CONSOLE_CFG_IDLE \<rparr> \<rparr>
      in m1\<lparr> ma_announce_blk := gen_cfea (ma_src m1) (ma_cfg m1) 0 \<rparr>)"

definition reac_master_set_box :: "master_env \<Rightarrow> reac_master \<Rightarrow> int \<Rightarrow> int \<Rightarrow> int \<Rightarrow> reac_master" where
  "reac_master_set_box env m in_ch out_ch headamp_base =
     (let had_box = reac_master_has_box m; (m1, rc) = rebuild_grant_sweep env m headamp_base in_ch in
      if rc \<noteq> 0 then m1
      else let m2 = m1\<lparr> ma_enroll_blk := set_enroll_width (ma_enroll_blk m1) in_ch, ma_enroll_pending := True \<rparr>;
               m3 = (if \<not> had_box \<and> ma_state m2 = REAC_M_GRANTING
                     then m2\<lparr> ma_grant_ticks := 0, ma_enroll_sent_tick := 0, ma_dwell_ended_tick := 0,
                             ma_announce_tick := 0, ma_enroll_pending := False \<rparr>
                     else m2);
               m4 = m3\<lparr> ma_cfg := (ma_cfg m3)\<lparr> cc_out_channels := word_of_int in_ch \<rparr> \<rparr>
           in m4\<lparr> ma_announce_blk := gen_cfea (ma_src m4) (ma_cfg m4) (if ma_state m4 = REAC_M_ESTABLISHED then 1 else 0) \<rparr>)"

definition reac_master_set_headamp_src :: "master_env \<Rightarrow> reac_master \<Rightarrow> nat option \<Rightarrow> reac_master" where
  "reac_master_set_headamp_src env m tx =
     fst (rebuild_grant_sweep env (m\<lparr> ma_headamp_src := tx \<rparr>) (uint (ga_base (ma_alloc m))) (uint (ga_width (ma_alloc m))))"

section \<open>Entering a state\<close>

definition reset_control_cadence :: "reac_master \<Rightarrow> reac_master" where
  "reset_control_cadence m = m\<lparr> ma_cycle_pos := ma_sub01_off m, ma_announce_tick := (3 * ma_fps m) sdiv 4,
     ma_chanmap_cursor := 0, ma_est_chanmap_tick := ma_fps m sdiv 4 \<rparr>"

definition enter_probing :: "reac_master \<Rightarrow> reac_master" where
  "enter_probing m =
     (let backward = ma_state m \<noteq> REAC_M_IDLE;
          m1 = (reset_control_cadence (m\<lparr> ma_state := REAC_M_PROBING \<rparr>))
                 \<lparr> ma_scene_inflight := False, ma_scene_complete := 0, ma_join_held := False, ma_commit_seen := False \<rparr>
      in if backward then reac_master_forget_box m1
         else m1\<lparr> ma_announce_blk := gen_cfea (ma_src m1) (ma_cfg m1) 0 \<rparr>)"

definition enter_granting :: "master_env \<Rightarrow> reac_master \<Rightarrow> mac \<Rightarrow> bytes option \<Rightarrow> reac_master" where
  "enter_granting env m box_src blk32 =
     (let m1 = m\<lparr> ma_state := REAC_M_GRANTING, ma_grant_ticks := 0, ma_enroll_sent_tick := 0, ma_dwell_ended_tick := 0,
               ma_grant_attempts := ma_grant_attempts m + 1, ma_box_mac := box_src,
               ma_join_blk := (case blk32 of Some b \<Rightarrow> b | None \<Rightarrow> ma_join_blk m) \<rparr>;
          m2 = fst (rebuild_grant_sweep env m1 (uint (ga_base (ma_alloc m1))) (uint (ga_width (ma_alloc m1))));
          m3 = (if reac_master_has_box m2 then m2\<lparr> ma_cfg := (ma_cfg m2)\<lparr> cc_out_channels := ga_width (ma_alloc m2) \<rparr> \<rparr> else m2)
      in m3\<lparr> ma_announce_blk := gen_cfea (ma_src m3) (ma_cfg m3) 0 \<rparr>)"

definition reac_master_regrant :: "master_env \<Rightarrow> reac_master \<Rightarrow> reac_master" where
  "reac_master_regrant env m = enter_granting env m (ma_box_mac m) None"

definition reac_master_identity_answered :: "reac_master \<Rightarrow> int \<Rightarrow> reac_master" where
  "reac_master_identity_answered m complete_flag = m\<lparr> ma_identity_complete := complete_flag \<noteq> 0 \<rparr>"

definition enter_established :: "reac_master \<Rightarrow> reac_master" where
  "enter_established m =
     (let m1 = reset_control_cadence (m\<lparr> ma_state := REAC_M_ESTABLISHED, ma_session_seq := ma_session_seq m + 1,
               ma_identity_polls := 0, ma_identity_poll_left := 0 \<rparr>)
      in m1\<lparr> ma_link_check := ma_link_check_reload m1, ma_announce_blk := gen_cfea (ma_src m1) (ma_cfg m1) 1 \<rparr>)"

definition reac_master_grant_anchor :: "reac_master \<Rightarrow> int" where
  "reac_master_grant_anchor m = (if ma_dwell_ended_tick m > 0 then ma_dwell_ended_tick m else ma_grant_dwell m)"

definition grant_delivered :: "reac_master \<Rightarrow> bool" where
  "grant_delivered m \<longleftrightarrow> reac_master_has_box m
     \<and> ma_grant_ticks m \<ge> reac_master_grant_anchor m + ma_grant_burst_len m * ma_grant_stride m + 1"

definition scene_transfer_ready :: "reac_master \<Rightarrow> bool" where
  "scene_transfer_ready m \<longleftrightarrow> ma_scene_complete m > 0 \<and> \<not> ma_scene_inflight m"

definition hold_join :: "reac_master \<Rightarrow> reac_master_rx_event \<Rightarrow> mac \<Rightarrow> bytes option \<Rightarrow> reac_master" where
  "hold_join m ev box_src blk32 = m\<lparr> ma_join_held := True, ma_join_ev := ev, ma_join_src := box_src,
     ma_join_has_blk := (blk32 \<noteq> None), ma_join_hold_blk := (case blk32 of Some b \<Rightarrow> b | None \<Rightarrow> ma_join_hold_blk m) \<rparr>"

text \<open>The edges taken without a box (\<^verbatim>\<open>NULL\<close> addresses) never enter granting, so the branch
  without an address has nothing to copy.\<close>

definition apply_edge :: "master_env \<Rightarrow> reac_master \<Rightarrow> reac_master_edge \<Rightarrow> mac option \<Rightarrow> bytes option \<Rightarrow> reac_master" where
  "apply_edge env m e box_src blk32 =
     (let m1 = (if me_drop e \<noteq> REAC_M_DROP_NONE then m\<lparr> ma_drop_reason := me_drop e \<rparr> else m) in
      if \<not> me_enter e then m1
      else case me_next e of
        REAC_M_PROBING \<Rightarrow> enter_probing m1
      | REAC_M_GRANTING \<Rightarrow> (case box_src of Some s \<Rightarrow> enter_granting env m1 s blk32 | None \<Rightarrow> m1)
      | REAC_M_ESTABLISHED \<Rightarrow> enter_established m1
      | REAC_M_IDLE \<Rightarrow> m1)"

definition join_block :: "reac_master_ev \<Rightarrow> bytes option \<Rightarrow> bytes option" where
  "join_block dev blk = (if dev = REAC_M_EV_JOIN_NEW \<or> dev = REAC_M_EV_JOIN_SAME then blk else None)"

definition release_held_join :: "master_env \<Rightarrow> reac_master \<Rightarrow> reac_master" where
  "release_held_join env m =
     (let ev = ma_join_ev m;
          blk = (if ma_join_has_blk m then Some (ma_join_hold_blk m) else None);
          src = ma_join_src m;
          m1 = m\<lparr> ma_join_held := False \<rparr>;
          dev = reac_master_fsm_classify ev (blk \<noteq> None) (src = ma_box_mac m1) (grant_delivered m1)
      in apply_edge env m1 (reac_master_fsm_step (ma_state m1) dev) (Some src) (join_block dev blk))"

definition start_if_idle :: "master_env \<Rightarrow> reac_master \<Rightarrow> reac_master" where
  "start_if_idle env m =
     (if ma_state m = REAC_M_IDLE then apply_edge env m (reac_master_fsm_step (ma_state m) REAC_M_EV_START) None None else m)"

definition reac_master_rx :: "master_env \<Rightarrow> reac_master \<Rightarrow> reac_master_rx_event \<Rightarrow> mac \<Rightarrow> bytes option \<Rightarrow> reac_master \<times> bool" where
  "reac_master_rx env m ev box_src blk32 =
     (if \<not> reac_master_peer_accepts m box_src ev then (m, False)
      else let m1 = start_if_idle env (m\<lparr> ma_box_seen := True, ma_presence_tick := REAC_M_PRESENCE_TIMEOUT \<rparr>);
               m2 = (if ev = REAC_M_RX_BOX_CONFIG then m1\<lparr> ma_commit_seen := True \<rparr> else m1);
               m3 = (if ma_state m2 = REAC_M_ESTABLISHED then m2\<lparr> ma_link_check := ma_link_check_reload m2 \<rparr> else m2);
               dev = reac_master_fsm_classify ev (blk32 \<noteq> None) (box_src = ma_box_mac m3) (grant_delivered m3);
               e = reac_master_fsm_step (ma_state m3) dev;
               jblk = join_block dev blk32
           in if me_transitioned e \<and> ma_state m3 = REAC_M_PROBING \<and> me_next e = REAC_M_GRANTING \<and> \<not> scene_transfer_ready m3
              then (hold_join m3 ev box_src jblk, False)
              else (apply_edge env m3 e (Some box_src) jblk, me_transitioned e))"

section \<open>What the next slot carries\<close>

definition granting_chanmap_due :: "reac_master \<Rightarrow> reac_master \<times> int option" where
  "granting_chanmap_due m =
     (let m1 = m\<lparr> ma_est_chanmap_tick := ma_est_chanmap_tick m + 1 \<rparr> in
      if ma_est_chanmap_tick m1 < ma_fps m1 then (m1, None)
      else (m1\<lparr> ma_est_chanmap_tick := 0, ma_chanmap_cursor := (ma_chanmap_cursor m1 + 1) smod ma_chanmap_nframes m1 \<rparr>,
            Some (ma_chanmap_cursor m1)))"

definition announce_due :: "reac_master \<Rightarrow> reac_master \<times> bool" where
  "announce_due m =
     (let m1 = m\<lparr> ma_announce_tick := ma_announce_tick m + 1 \<rparr> in
      if ma_announce_tick m1 \<ge> ma_fps m1 then (m1\<lparr> ma_announce_tick := 0 \<rparr>, True) else (m1, False))"

text \<open>The slots of the scene transfer, the same in the probing cycle and in the optional stream of
  an established link.\<close>

definition scene_slot :: "reac_master \<Rightarrow> int \<Rightarrow> (int \<times> reac_master_emit) option" where
  "scene_slot m pos =
     (let k = burst_index_at m pos in
      if k \<ge> 0 then Some (1 + k, REAC_M_EMIT_SCENE_CHUNK)
      else if pos = ma_sub02_off m then Some (REAC_SCENE_STEPS - 1, REAC_M_EMIT_SCENE_TAIL)
      else None)"

definition identity_poll_turn :: "reac_master \<Rightarrow> reac_master \<times> reac_master_emit \<times> int" where
  "identity_poll_turn m =
     (if ma_identity_poll_left m > 0 then
        let m1 = m\<lparr> ma_identity_poll_slot := ma_identity_poll_slot m + 1 \<rparr> in
        if ma_identity_poll_slot m1 \<ge> ma_grant_stride m1
        then (m1\<lparr> ma_identity_poll_slot := 0, ma_identity_poll_left := ma_identity_poll_left m1 - 1 \<rparr>,
              REAC_M_EMIT_IDENTITY_POLL, REAC_GRANT_GROUPB_LEN - ma_identity_poll_left m1)
        else (m1, REAC_M_EMIT_FILLER, 0)
      else if \<not> ma_identity_complete m \<and> ma_identity_polls m < REAC_M_IDENTITY_POLLS \<and> ma_announce_tick m = ma_fps m sdiv 4
      then (m\<lparr> ma_identity_polls := ma_identity_polls m + 1, ma_identity_poll_left := REAC_GRANT_GROUPB_LEN,
              ma_identity_poll_slot := 0 \<rparr>, REAC_M_EMIT_FILLER, 0)
      else (m, REAC_M_EMIT_FILLER, 0))"

definition established_cadence :: "master_env \<Rightarrow> reac_master \<Rightarrow> int \<Rightarrow> reac_master \<times> reac_master_emit \<times> int" where
  "established_cadence env m pos =
     (let m1 = m\<lparr> ma_est_chanmap_tick := ma_est_chanmap_tick m + 1 \<rparr> in
      if ma_announce_tick m1 \<ge> ma_fps m1 then (m1\<lparr> ma_announce_tick := 0 \<rparr>, REAC_M_EMIT_ANNOUNCE, 0)
      else if ma_est_chanmap_tick m1 \<ge> ma_fps m1
      then (m1\<lparr> ma_est_chanmap_tick := 0, ma_chanmap_cursor := (ma_chanmap_cursor m1 + 1) smod ma_chanmap_nframes m1 \<rparr>,
            REAC_M_EMIT_CHANMAP, ma_chanmap_cursor m1)
      else case (if est_scene_stream env then scene_slot m1 pos else None) of
        Some (step, emit) \<Rightarrow> (m1\<lparr> ma_scene_step := step \<rparr>, emit, 0)
      | None \<Rightarrow>
        if est_scene_stream env \<and> pos = ma_sub01_off m1 then (m1\<lparr> ma_scene_step := 0 \<rparr>, REAC_M_EMIT_SCENE_HEAD, 0)
        else identity_poll_turn m1)"

definition probing_cadence :: "reac_master \<Rightarrow> int \<Rightarrow> reac_master \<times> reac_master_emit \<times> int" where
  "probing_cadence m pos =
     (case scene_slot m pos of
        Some (step, emit) \<Rightarrow> (m\<lparr> ma_scene_step := step \<rparr>, emit, 0)
      | None \<Rightarrow>
        if pos = ma_chanmap_off m
        then (m\<lparr> ma_chanmap_cursor := (ma_chanmap_cursor m + 1) smod ma_chanmap_nframes m \<rparr>,
              REAC_M_EMIT_CHANMAP, ma_chanmap_cursor m)
        else if pos = ma_sub01_off m then (m\<lparr> ma_scene_step := 0 \<rparr>, REAC_M_EMIT_SCENE_HEAD, 0)
        else if ma_announce_tick m \<ge> ma_fps m then (m\<lparr> ma_announce_tick := 0 \<rparr>, REAC_M_EMIT_ANNOUNCE, 0)
        else (m, REAC_M_EMIT_FILLER, 0))"

definition control_cadence :: "master_env \<Rightarrow> reac_master \<Rightarrow> reac_master \<times> reac_master_emit \<times> int" where
  "control_cadence env m =
     (let pos = ma_cycle_pos m;
          m1 = m\<lparr> ma_cycle_pos := (pos + 1) smod ma_cycle_len m, ma_announce_tick := ma_announce_tick m + 1 \<rparr>
      in if ma_state m1 = REAC_M_ESTABLISHED then established_cadence env m1 pos else probing_cadence m1 pos)"

definition granting_hold :: "master_env \<Rightarrow> reac_master \<Rightarrow> reac_master \<times> reac_master_emit \<times> int" where
  "granting_hold env m =
     (let (m1, emit, idx) =
        (if ma_grant_ticks m = 0 then (m, REAC_M_EMIT_ENROLL, 0)
         else case granting_chanmap_due m of
           (m', Some i) \<Rightarrow> (m', REAC_M_EMIT_CHANMAP, i)
         | (m', None) \<Rightarrow> (case announce_due m' of (m'', b) \<Rightarrow> (m'', if b then REAC_M_EMIT_ANNOUNCE else REAC_M_EMIT_FILLER, 0)));
          m2 = m1\<lparr> ma_grant_ticks := ma_grant_ticks m1 + 1 \<rparr>
      in (if ma_grant_ticks m2 > ma_grant_dwell m2
          then apply_edge env m2 (reac_master_fsm_step (ma_state m2) REAC_M_EV_BOX_UNKNOWN) None None else m2,
          emit, idx))"

definition granting_dwell :: "master_env \<Rightarrow> reac_master \<Rightarrow> reac_master \<times> reac_master_emit \<times> int" where
  "granting_dwell env m =
     (if ma_enroll_pending m
      then (m\<lparr> ma_enroll_pending := False, ma_enroll_sent_tick := ma_grant_ticks m \<rparr>,
            if no_enroll env then REAC_M_EMIT_FILLER else REAC_M_EMIT_ENROLL, 0)
      else case granting_chanmap_due m of
        (m', Some i) \<Rightarrow> (m', REAC_M_EMIT_CHANMAP, i)
      | (m', None) \<Rightarrow> (case announce_due m' of (m'', b) \<Rightarrow> (m'', if b then REAC_M_EMIT_ANNOUNCE else REAC_M_EMIT_FILLER, 0)))"

definition granting_burst :: "reac_master \<Rightarrow> reac_master \<times> reac_master_emit \<times> int" where
  "granting_burst m =
     (let gt = ma_grant_ticks m - 1 - reac_master_grant_anchor m in
      if gt smod ma_grant_stride m = 0 \<and> gt sdiv ma_grant_stride m < ma_grant_burst_len m
      then (m, REAC_M_EMIT_GRANT, gt sdiv ma_grant_stride m)
      else case granting_chanmap_due m of
        (m', Some i) \<Rightarrow> (m', REAC_M_EMIT_CHANMAP, i)
      | (m', None) \<Rightarrow> (m', REAC_M_EMIT_FILLER, 0))"

definition granting_window :: "master_env \<Rightarrow> reac_master \<Rightarrow> reac_master \<times> reac_master_emit \<times> int" where
  "granting_window env m =
     (let (m1, emit, idx) =
        (if ma_grant_ticks m = 0 then (m, if no_enroll env then REAC_M_EMIT_FILLER else REAC_M_EMIT_ENROLL, 0)
         else if ma_grant_ticks m \<le> ma_grant_dwell m
         then (case dwell_ends_now env m of (m', ended) \<Rightarrow> if ended then granting_burst m' else granting_dwell env m')
         else granting_burst m);
          m2 = m1\<lparr> ma_grant_ticks := ma_grant_ticks m1 + 1 \<rparr>
      in (if grant_delivered m2
          then apply_edge env m2 (reac_master_fsm_step (ma_state m2) REAC_M_EV_GRANT_DELIVERED) None None else m2,
          emit, idx))"

definition established_turn :: "master_env \<Rightarrow> reac_master \<Rightarrow> reac_master \<times> reac_master_emit \<times> int" where
  "established_turn env m =
     (let (m1, emit, idx) = control_cadence env m;
          m2 = m1\<lparr> ma_link_check := ma_link_check m1 - 1 \<rparr>
      in (if ma_link_check m2 \<le> 0
          then apply_edge env m2 (reac_master_fsm_step (ma_state m2) REAC_M_EV_LINK_LOST) None None else m2,
          emit, idx))"

definition scene_account :: "master_env \<Rightarrow> reac_master_emit \<Rightarrow> reac_master \<Rightarrow> reac_master" where
  "scene_account env emit m =
     (let m1 = (if emit = REAC_M_EMIT_SCENE_HEAD \<or> emit = REAC_M_EMIT_SCENE_CHUNK \<or> emit = REAC_M_EMIT_SCENE_TAIL
                then scene_prepare m else m) in
      if emit = REAC_M_EMIT_SCENE_HEAD then m1\<lparr> ma_scene_inflight := True \<rparr>
      else if emit = REAC_M_EMIT_SCENE_TAIL \<and> ma_scene_inflight m1 then
        let m2 = m1\<lparr> ma_scene_inflight := False, ma_scene_complete := ma_scene_complete m1 + 1 \<rparr>
        in if ma_join_held m2 then release_held_join env m2 else m2
      else m1)"

definition reac_master_next :: "master_env \<Rightarrow> reac_master \<Rightarrow> reac_master \<times> u16 \<times> reac_master_emit \<times> int" where
  "reac_master_next env m =
     (let counter = ma_counter m;
          m1 = start_if_idle env (m\<lparr> ma_counter := ma_counter m + 1 \<rparr>);
          m2 = (if ma_box_seen m1
                then let m' = m1\<lparr> ma_presence_tick := ma_presence_tick m1 - 1 \<rparr>
                     in if ma_presence_tick m' \<le> 0 then m'\<lparr> ma_box_seen := False \<rparr> else m'
                else m1);
          (m3, emit, idx) =
            (case ma_state m2 of
               REAC_M_IDLE \<Rightarrow> control_cadence env m2
             | REAC_M_PROBING \<Rightarrow> control_cadence env m2
             | REAC_M_GRANTING \<Rightarrow> if \<not> reac_master_has_box m2 then granting_hold env m2 else granting_window env m2
             | REAC_M_ESTABLISHED \<Rightarrow> established_turn env m2)
      in (scene_account env emit m3, counter, emit, idx))"

section \<open>Stamping a frame\<close>

definition apply_block :: "bytes \<Rightarrow> bytes \<Rightarrow> bytes" where
  "apply_block frame blk = reac_ctrl_checksum_apply (poke 16 blk frame)"

definition stamp_filler_descriptor :: "bytes \<Rightarrow> u8 \<Rightarrow> bytes" where
  "stamp_filler_descriptor frame desc = foldl (\<lambda>f i. f[REAC_CTRL_BLOCK_OFF + 2 * i := 0x00, REAC_CTRL_BLOCK_OFF + 2 * i + 1 := desc])
     frame [0..<(REAC_CTRL_BLOCK_END - REAC_CTRL_BLOCK_OFF) div 2]"

fun reac_master_stamp :: "reac_master \<Rightarrow> bytes \<Rightarrow> reac_master_emit \<Rightarrow> int \<Rightarrow> bytes option" where
  "reac_master_stamp m frame REAC_M_EMIT_FILLER tmpl_idx = Some (stamp_filler_descriptor frame (ma_filler_desc m))"
| "reac_master_stamp m frame REAC_M_EMIT_SCENE_HEAD tmpl_idx = Some (apply_block frame (ma_scene_blk m))"
| "reac_master_stamp m frame REAC_M_EMIT_SCENE_CHUNK tmpl_idx = Some (apply_block frame (ma_scene_blk m))"
| "reac_master_stamp m frame REAC_M_EMIT_SCENE_TAIL tmpl_idx = Some (apply_block frame (ma_scene_blk m))"
| "reac_master_stamp m frame REAC_M_EMIT_GRANT tmpl_idx =
     (if tmpl_idx < 0 \<or> tmpl_idx \<ge> ma_grant_burst_len m then None
      else Some (apply_block frame (ma_grant_burst m ! nat tmpl_idx)))"
| "reac_master_stamp m frame REAC_M_EMIT_IDENTITY_POLL tmpl_idx =
     map_option (apply_block frame) (reac_ctrl_identity_poll_block tmpl_idx)"
| "reac_master_stamp m frame REAC_M_EMIT_ENROLL tmpl_idx = Some (apply_block frame (ma_enroll_blk m))"
| "reac_master_stamp m frame REAC_M_EMIT_CHANMAP tmpl_idx =
     (if tmpl_idx < 0 \<or> tmpl_idx \<ge> ma_chanmap_nframes m then None
      else Some (apply_block frame (ma_chanmap m ! nat tmpl_idx)))"
| "reac_master_stamp m frame REAC_M_EMIT_ANNOUNCE tmpl_idx = Some (apply_block frame (ma_announce_blk m))"

end
