(* ===== verification/Reac_Session.thy ===== *)
theory Reac_Session
  imports Reac_Master
begin

text \<open>
  What holds of a master at every moment, and that whatever it decides to send can be sent.

  \<open>master_inv\<close> is the well-formedness of the record: blocks of 34 bytes that checksum, template
  cursors inside their tables, and a grant sweep that enrols exactly the channels allocated to the
  box the master holds. Every operation keeps it, and \<open>master_machine\<close> interprets the machine
  contract of the prelude on the operations a driver of the master may call.
\<close>

section \<open>Well-formed blocks\<close>

definition blk_ok :: "bytes \<Rightarrow> bool" where
  "blk_ok b \<longleftrightarrow> length b = 34 \<and> byte_sum (drop 2 b) AND 0xff = 0"

lemma row_blk_ok: "row_ok r \<Longrightarrow> blk_ok r"
  by (simp add: row_ok_def blk_ok_def)

lemma stamp_blk_ok [simp]: "length b = 34 \<Longrightarrow> blk_ok (stamp_block_cksum b)"
  using cksum_stamp_at_sum [of 2 b] by (simp add: blk_ok_def stamp_block_cksum_def peek_def)

text \<open>A block of the control link with a given opcode, and an announce of a given master.\<close>

definition link1_blk :: "u8 \<Rightarrow> bytes \<Rightarrow> bool" where
  "link1_blk op b \<longleftrightarrow> blk_ok b \<and> b ! 0 = 0xcd \<and> b ! 1 = 0xea \<and> b ! 2 = 1 \<and> b ! 6 = op"

definition announce_blk :: "mac \<Rightarrow> bytes \<Rightarrow> bool" where
  "announce_blk src b \<longleftrightarrow> blk_ok b \<and> b ! 0 = 0xcf \<and> b ! 1 = 0xea \<and> peek 11 6 b = src"

lemma stamp_nth: "length b = 34 \<Longrightarrow> i < 33 \<Longrightarrow> stamp_block_cksum b ! i = b ! i"
  by (simp add: stamp_block_cksum_def cksum_stamp_at_nth)

lemma link1_stamp:
  "length b = 34 \<Longrightarrow> b ! 0 = 0xcd \<Longrightarrow> b ! 1 = 0xea \<Longrightarrow> b ! 2 = 1 \<Longrightarrow> b ! 6 = op \<Longrightarrow> link1_blk op (stamp_block_cksum b)"
  by (simp add: link1_blk_def stamp_nth)

lemma enroll_link1: "link1_blk 0x10 b \<Longrightarrow> link1_blk 0x10 (set_enroll_width b w)"
  unfolding set_enroll_width_def Let_def
  by (rule link1_stamp) (simp_all add: link1_blk_def blk_ok_def upt_rec)

lemma cfea_announce: "length src = 6 \<Longrightarrow> announce_blk src (gen_cfea src cfg n)"
proof -
  assume s: "length src = 6"
  let ?o = "poke 11 src (poke 0 [0xcf, 0xea, 0xff, 0xff, 0x01, 0x00, 0x01, 0x03, 0x0d, 0x01, 0x04] (replicate 34 0))"
  let ?b = "?o[17 := 0x28, 18 := cc_out_channels cfg, 19 := pace_code (Some cfg),
           20 := ucast (drop_bit 8 n), 21 := ucast (n AND 0xff)]"
  have "peek 11 6 (stamp_block_cksum ?b) = peek 11 6 ?b"
    using s by (simp add: stamp_block_cksum_def peek_cksum_stamp_at)
  also have "\<dots> = src" using s peek_poke_same [of 11 src] by (simp add: peek_update_other)
  finally show ?thesis
    using s by (simp add: announce_blk_def gen_cfea_def Let_def stamp_nth nth_poke)
qed

lemma length_chanmap_cell [simp]: "length (chanmap_cell fam ch) = 3"
  by (simp add: chanmap_cell_def)

lemma chanmap_link1: "link1_blk 0x01 (chanmap_frame fam f)"
  unfolding chanmap_frame_def Let_def
  by (rule link1_stamp) (simp_all add: upt_rec nth_poke)

lemma scene_link1:
  assumes "reac_ctrl_build_scene_step (Some body) step = Some blk"
  shows "link1_blk 0x00 blk"
proof -
  obtain z where z: "blk = stamp_block_cksum z" "length z = 34" "z ! 0 = 0xcd" "z ! 1 = 0xea" "z ! 2 = 1" "z ! 6 = 0"
    using assms
    by (auto simp: reac_ctrl_build_scene_step_def Let_def TAIL_TRAILER_def stamp_block_cksum_def nth_poke split: if_splits)
  then show ?thesis by (simp add: link1_stamp)
qed

lemma poll_blk_ok: "reac_ctrl_identity_poll_block i = Some b \<Longrightarrow> blk_ok b"
proof -
  assume "reac_ctrl_identity_poll_block i = Some b"
  then have "b \<in> set GRANT_GROUPB"
    using fixed_rows(7) by (auto simp: reac_ctrl_identity_poll_block_def split: if_splits)
  then show ?thesis using fixed_rows(6) by (auto simp: list_all_iff intro: row_blk_ok)
qed

section \<open>The invariant\<close>

definition enrols :: "reac_grant_alloc \<Rightarrow> bytes list \<Rightarrow> bool" where
  "enrols a rows \<longleftrightarrow> (\<forall>r \<in> set rows. row_ok r)
     \<and> map (\<lambda>(c, p, v). (c, p)) (concat (map row_cells rows)) =
       concat (map (\<lambda>c. map (\<lambda>p. (ga_base a + of_nat c, of_nat p)) [0..<3]) [0..<unat (ga_width a)])"

definition burst_inv :: "reac_grant_alloc \<Rightarrow> bytes list \<Rightarrow> int \<Rightarrow> bool" where
  "burst_inv a burst n \<longleftrightarrow> length burst = 128
     \<and> (if ga_width a = 0 then n = 0
        else n = 8 + 3 * uint (ga_width a) \<and> uint (ga_width a) \<le> 40 \<and> uint (ga_base a) + uint (ga_width a) \<le> 48
          \<and> enrols a (take (nat n) burst))"

text \<open>The geometry of the control cycle, fixed by the frame rate.\<close>

definition slot_of :: "int \<Rightarrow> int \<Rightarrow> int" where
  "slot_of fps k = max k ((k * fps + 250) div 500)"

definition cadence_geom :: "int \<Rightarrow> int \<Rightarrow> int \<Rightarrow> int \<Rightarrow> int \<Rightarrow> int \<Rightarrow> bool" where
  "cadence_geom fps cycle_len burst_end sub02 chanmap sub01 \<longleftrightarrow>
     cycle_len = fps * 10778 div 4000 \<and> burst_end = slot_of fps 340 \<and> sub02 = burst_end + max 1 ((fps + 250) div 500)
     \<and> chanmap = fps * 5953 div 4000 \<and> sub01 = cycle_len - 5"

definition master_inv :: "reac_master \<Rightarrow> bool" where
  "master_inv m \<longleftrightarrow> length (ma_src m) = 6 \<and> 0 < ma_fps m \<and> ma_grant_stride m = 12 \<and> ma_chanmap_nframes m = 49
     \<and> length (ma_chanmap m) = 49 \<and> list_all (link1_blk 0x01) (ma_chanmap m) \<and> 0 < ma_grant_dwell m
     \<and> 0 < ma_link_check_reload m \<and> length (ma_scene m) = 8904
     \<and> cadence_geom (ma_fps m) (ma_cycle_len m) (ma_burst_end m) (ma_sub02_off m) (ma_chanmap_off m) (ma_sub01_off m)
     \<and> (2 \<le> ma_fps m \<longrightarrow> 0 \<le> ma_cycle_pos m \<and> ma_cycle_pos m < ma_cycle_len m)
     \<and> 0 \<le> ma_chanmap_cursor m \<and> ma_chanmap_cursor m < 49
     \<and> link1_blk 0x00 (ma_scene_blk m) \<and> announce_blk (ma_src m) (ma_announce_blk m) \<and> link1_blk 0x10 (ma_enroll_blk m)
     \<and> 0 \<le> ma_identity_poll_left m \<and> ma_identity_poll_left m \<le> 6
     \<and> burst_inv (ma_alloc m) (ma_grant_burst m) (ma_grant_burst_len m)
     \<and> 0 \<le> ma_grant_ticks m \<and> 0 \<le> ma_enroll_sent_tick m \<and> ma_enroll_sent_tick m \<le> ma_grant_ticks m
     \<and> 0 \<le> ma_dwell_ended_tick m \<and> ma_dwell_ended_tick m \<le> ma_grant_ticks m"

definition env_ok :: "master_env \<Rightarrow> bool" where
  "env_ok env \<longleftrightarrow> (\<forall>a. headamp_inv (en_headamp env a))"

lemma blk_ok_length: "blk_ok b \<Longrightarrow> length b = 34"
  by (simp add: blk_ok_def)

lemma burst_inv_empty: "burst_inv a burst n \<Longrightarrow> burst_inv \<lparr> ga_base = 0, ga_width = 0 \<rparr> burst 0"
  by (simp add: burst_inv_def)

text \<open>Fields the invariant does not constrain, and what the others ask of a new value.\<close>

lemma inv_free [simp]:
  "master_inv (m\<lparr> ma_state := x0 \<rparr>) = master_inv m"
  "master_inv (m\<lparr> ma_counter := x1 \<rparr>) = master_inv m"
  "master_inv (m\<lparr> ma_cfg := x2 \<rparr>) = master_inv m"
  "master_inv (m\<lparr> ma_scene_step := x4 \<rparr>) = master_inv m"
  "master_inv (m\<lparr> ma_announce_tick := x5 \<rparr>) = master_inv m"
  "master_inv (m\<lparr> ma_filler_desc := x6 \<rparr>) = master_inv m"
  "master_inv (m\<lparr> ma_commit_seen := x7 \<rparr>) = master_inv m"
  "master_inv (m\<lparr> ma_scene_inflight := x8 \<rparr>) = master_inv m"
  "master_inv (m\<lparr> ma_scene_complete := x9 \<rparr>) = master_inv m"
  "master_inv (m\<lparr> ma_join_held := x10 \<rparr>) = master_inv m"
  "master_inv (m\<lparr> ma_join_ev := x11 \<rparr>) = master_inv m"
  "master_inv (m\<lparr> ma_join_src := x12 \<rparr>) = master_inv m"
  "master_inv (m\<lparr> ma_join_hold_blk := x13 \<rparr>) = master_inv m"
  "master_inv (m\<lparr> ma_join_has_blk := x14 \<rparr>) = master_inv m"
  "master_inv (m\<lparr> ma_enroll_pending := x15 \<rparr>) = master_inv m"
  "master_inv (m\<lparr> ma_headamp_src := x16 \<rparr>) = master_inv m"
  "master_inv (m\<lparr> ma_join_blk := x17 \<rparr>) = master_inv m"
  "master_inv (m\<lparr> ma_box_mac := x18 \<rparr>) = master_inv m"
  "master_inv (m\<lparr> ma_session_seq := x19 \<rparr>) = master_inv m"
  "master_inv (m\<lparr> ma_grant_attempts := x20 \<rparr>) = master_inv m"
  "master_inv (m\<lparr> ma_est_chanmap_tick := x21 \<rparr>) = master_inv m"
  "master_inv (m\<lparr> ma_link_check := x22 \<rparr>) = master_inv m"
  "master_inv (m\<lparr> ma_box_seen := x23 \<rparr>) = master_inv m"
  "master_inv (m\<lparr> ma_presence_tick := x24 \<rparr>) = master_inv m"
  "master_inv (m\<lparr> ma_drop_reason := x25 \<rparr>) = master_inv m"
  "master_inv (m\<lparr> ma_identity_complete := x26 \<rparr>) = master_inv m"
  "master_inv (m\<lparr> ma_identity_polls := x27 \<rparr>) = master_inv m"
  "master_inv (m\<lparr> ma_identity_poll_slot := x28 \<rparr>) = master_inv m"
  by (simp_all add: master_inv_def)

lemma inv_put:
  "master_inv m \<Longrightarrow> announce_blk (ma_src m) b \<Longrightarrow> master_inv (m\<lparr> ma_announce_blk := b \<rparr>)"
  "master_inv m \<Longrightarrow> link1_blk 0x10 b \<Longrightarrow> master_inv (m\<lparr> ma_enroll_blk := b \<rparr>)"
  "master_inv m \<Longrightarrow> link1_blk 0x00 b \<Longrightarrow> master_inv (m\<lparr> ma_scene_blk := b \<rparr>)"
  "master_inv m \<Longrightarrow> 0 \<le> c \<Longrightarrow> c < 49 \<Longrightarrow> master_inv (m\<lparr> ma_chanmap_cursor := c \<rparr>)"
  "master_inv m \<Longrightarrow> 0 \<le> n \<Longrightarrow> n \<le> 6 \<Longrightarrow> master_inv (m\<lparr> ma_identity_poll_left := n \<rparr>)"
  "master_inv m \<Longrightarrow> master_inv (m\<lparr> ma_grant_ticks := ma_grant_ticks m + 1 \<rparr>)"
  "master_inv m \<Longrightarrow> master_inv (m\<lparr> ma_grant_ticks := 0, ma_enroll_sent_tick := 0, ma_dwell_ended_tick := 0 \<rparr>)"
  "master_inv m \<Longrightarrow> master_inv (m\<lparr> ma_enroll_sent_tick := 0 \<rparr>)"
  by (simp_all add: master_inv_def)

lemma geom_range:
  assumes "cadence_geom fps cl be s2 ch s1"
  shows "0 < fps \<Longrightarrow> 0 < cl" and "2 \<le> fps \<Longrightarrow> 0 \<le> s1 \<and> s1 < cl"
  using assms by (auto simp: cadence_geom_def)

lemma inv_facts:
  assumes "master_inv m"
  shows "length (ma_src m) = 6" "0 < ma_fps m" "ma_grant_stride m = 12" "ma_chanmap_nframes m = 49" "0 < ma_grant_dwell m"
    "0 < ma_link_check_reload m" "length (ma_scene m) = 8904" "0 \<le> ma_chanmap_cursor m" "ma_chanmap_cursor m < 49"
    "link1_blk 0x10 (ma_enroll_blk m)" "0 \<le> ma_identity_poll_left m" "ma_identity_poll_left m \<le> 6"
  using assms by (simp_all add: master_inv_def)

lemma burst_inv_rebuild:
  assumes "env_ok env" and "burst_inv (ma_alloc m) (ma_grant_burst m) (ma_grant_burst_len m)"
    and "rebuild_grant_sweep env m base in_ch = (m', rc)"
  shows "burst_inv (ma_alloc m') (ma_grant_burst m') (ma_grant_burst_len m')"
proof (cases "reac_grant_allocate base in_ch")
  case (Some a)
  note f = grant_allocate_fields [OF Some]
  let ?tx = "map_option (en_headamp env) (ma_headamp_src m)"
  have inv: "headamp_inv t" if "?tx = Some t" for t using assms(1) that by (auto simp: env_ok_def)
  from grant_rows [OF Some inv] obtain rows where rows: "reac_grant_build_sweep 128 a ?tx = Some rows"
    "int (length rows) = 8 + in_ch * 3" "\<forall>r \<in> set rows. row_ok r"
    "concat (map row_cells rows) = concat (map (\<lambda>c. map (\<lambda>p. (ga_base a + of_nat c, of_nat p,
          reac_headamp_tx_effective ?tx (ga_base a + of_nat c) (of_nat p))) [0..<3]) [0..<nat in_ch])" by auto
  have len: "length rows \<le> 128" "0 < length rows" using rows(2) f by linarith+
  have w: "unat (ga_width a) = nat in_ch" "ga_width a \<noteq> 0" using f(2,3) by (auto simp flip: nat_uint_eq)
  have "map (\<lambda>(c, p, v). (c, p)) (concat (map row_cells rows)) =
      concat (map (\<lambda>c. map (\<lambda>p. (ga_base a + of_nat c, of_nat p)) [0..<3]) [0..<unat (ga_width a)])"
    unfolding rows(4) w(1) by (simp add: map_concat comp_def)
  moreover have "take (nat (int (length rows))) (poke 0 rows (ma_grant_burst m)) = rows" by (simp add: poke_def)
  moreover have "m' = m\<lparr> ma_grant_burst := poke 0 rows (ma_grant_burst m), ma_alloc := a,
                   ma_grant_burst_len := int (length rows) \<rparr>"
    using assms(3) Some rows(1) len(2) by (simp add: rebuild_grant_sweep_def)
  ultimately show ?thesis
    using rows f w(2) len assms(2) by (simp add: burst_inv_def enrols_def split: if_splits)
qed (use assms in \<open>simp add: rebuild_grant_sweep_def\<close>)

lemma rebuild_shape:
  obtains b a n where "fst (rebuild_grant_sweep env m base in_ch) =
    m\<lparr> ma_grant_burst := b, ma_alloc := a, ma_grant_burst_len := n \<rparr>"
proof (rule that)
  let ?m = "fst (rebuild_grant_sweep env m base in_ch)"
  show "?m = m\<lparr> ma_grant_burst := ma_grant_burst ?m, ma_alloc := ma_alloc ?m, ma_grant_burst_len := ma_grant_burst_len ?m \<rparr>"
    by (simp add: rebuild_grant_sweep_def split: option.split)
qed

lemma inv_rebuild:
  assumes "env_ok env" and "master_inv m"
  shows "master_inv (fst (rebuild_grant_sweep env m base in_ch))"
proof -
  obtain m' rc where e: "rebuild_grant_sweep env m base in_ch = (m', rc)" by fastforce
  obtain b a n where "fst (rebuild_grant_sweep env m base in_ch) =
      m\<lparr> ma_grant_burst := b, ma_alloc := a, ma_grant_burst_len := n \<rparr>" by (rule rebuild_shape)
  then have s: "m' = m\<lparr> ma_grant_burst := b, ma_alloc := a, ma_grant_burst_len := n \<rparr>" using e by simp
  have "burst_inv (ma_alloc m') (ma_grant_burst m') (ma_grant_burst_len m')"
    using burst_inv_rebuild [OF assms(1) _ e] assms(2) by (simp add: master_inv_def)
  then show ?thesis using assms(2) e s by (simp add: master_inv_def)
qed

section \<open>Every operation keeps the invariant\<close>

lemma inv_forget: "master_inv m \<Longrightarrow> master_inv (reac_master_forget_box m)"
proof -
  assume m: "master_inv m"
  then have "burst_inv \<lparr> ga_base = 0, ga_width = 0 \<rparr> (ma_grant_burst m) 0" by (auto simp: master_inv_def intro: burst_inv_empty)
  with m show ?thesis by (simp add: master_inv_def reac_master_forget_box_def Let_def enroll_link1 cfea_announce)
qed

lemma inv_set_box: "env_ok env \<Longrightarrow> master_inv m \<Longrightarrow> master_inv (reac_master_set_box env m in_ch out_ch base)"
proof -
  assume "env_ok env" "master_inv m"
  then have i: "master_inv (fst (rebuild_grant_sweep env m base in_ch))" by (rule inv_rebuild)
  obtain m1 rc where e: "rebuild_grant_sweep env m base in_ch = (m1, rc)" by fastforce
  then have m1: "master_inv m1" using i by simp
  define m2 where "m2 = m1\<lparr> ma_enroll_blk := set_enroll_width (ma_enroll_blk m1) in_ch, ma_enroll_pending := True \<rparr>"
  have "master_inv m2" using inv_put(2) [OF m1] inv_facts(10) [OF m1] by (simp add: m2_def enroll_link1)
  from this inv_put(7) [OF this] inv_facts(1) [OF this] show ?thesis
    unfolding reac_master_set_box_def e Let_def prod.case m2_def [symmetric]
    by (simp add: m1 inv_put(1) cfea_announce)
qed

lemma inv_set_headamp_src: "env_ok env \<Longrightarrow> master_inv m \<Longrightarrow> master_inv (reac_master_set_headamp_src env m tx)"
  unfolding reac_master_set_headamp_src_def by (rule inv_rebuild) (simp_all add: master_inv_def)

lemma inv_reset_cadence: "master_inv m \<Longrightarrow> master_inv (reset_control_cadence m)"
  using geom_range(2) by (fastforce simp: master_inv_def reset_control_cadence_def)

lemma inv_enter_probing: "master_inv m \<Longrightarrow> master_inv (enter_probing m)"
proof -
  assume m: "master_inv m"
  have "master_inv ((reset_control_cadence (m\<lparr> ma_state := REAC_M_PROBING \<rparr>))
        \<lparr> ma_scene_inflight := False, ma_scene_complete := 0, ma_join_held := False, ma_commit_seen := False \<rparr>)"
    using inv_reset_cadence [of "m\<lparr> ma_state := REAC_M_PROBING \<rparr>"] m by simp
  then show ?thesis
    using inv_forget inv_facts(1) by (simp add: enter_probing_def Let_def inv_put(1) cfea_announce)
qed

lemma inv_enter_granting:
  assumes "env_ok env" and "master_inv m"
  shows "master_inv (enter_granting env m s b)"
proof -
  define m1 where "m1 = m\<lparr> ma_state := REAC_M_GRANTING, ma_grant_ticks := 0, ma_enroll_sent_tick := 0, ma_dwell_ended_tick := 0,
               ma_grant_attempts := ma_grant_attempts m + 1, ma_box_mac := s,
               ma_join_blk := (case b of Some b \<Rightarrow> b | None \<Rightarrow> ma_join_blk m) \<rparr>"
  have "master_inv m1" using assms(2) by (simp add: master_inv_def m1_def)
  then have i: "master_inv (fst (rebuild_grant_sweep env m1 (uint (ga_base (ma_alloc m1))) (uint (ga_width (ma_alloc m1)))))"
    by (rule inv_rebuild [OF assms(1)])
  have e: "enter_granting env m s b =
      (let m2 = fst (rebuild_grant_sweep env m1 (uint (ga_base (ma_alloc m1))) (uint (ga_width (ma_alloc m1))));
          m3 = (if reac_master_has_box m2 then m2\<lparr> ma_cfg := (ma_cfg m2)\<lparr> cc_out_channels := ga_width (ma_alloc m2) \<rparr> \<rparr> else m2)
      in m3\<lparr> ma_announce_blk := gen_cfea (ma_src m3) (ma_cfg m3) 0 \<rparr>)"
    unfolding enter_granting_def m1_def Let_def ..
  show ?thesis using i inv_facts(1) [OF i] unfolding e Let_def by (simp add: inv_put(1) cfea_announce)
qed

lemma inv_enter_established: "master_inv m \<Longrightarrow> master_inv (enter_established m)"
proof -
  assume "master_inv m"
  then have "master_inv (m\<lparr> ma_state := REAC_M_ESTABLISHED, ma_session_seq := ma_session_seq m + 1,
               ma_identity_polls := 0, ma_identity_poll_left := 0 \<rparr>)"
    by (simp add: inv_put(5))
  from inv_reset_cadence [OF this] show ?thesis
    unfolding enter_established_def Let_def by (simp add: inv_put(1) inv_facts(1) cfea_announce)
qed

lemma inv_apply_edge: "env_ok env \<Longrightarrow> master_inv m \<Longrightarrow> master_inv (apply_edge env m e s b)"
proof -
  assume e: "env_ok env" and m: "master_inv m"
  have "master_inv (if me_drop e \<noteq> REAC_M_DROP_NONE then m\<lparr> ma_drop_reason := me_drop e \<rparr> else m)"
    using m by (simp add: master_inv_def)
  then show ?thesis
    using inv_enter_probing inv_enter_granting [OF e] inv_enter_established
    by (auto simp: apply_edge_def Let_def split: reac_master_state.splits option.splits)
qed

lemma inv_start: "env_ok env \<Longrightarrow> master_inv m \<Longrightarrow> master_inv (start_if_idle env m)"
  by (simp add: start_if_idle_def inv_apply_edge)

lemma inv_release: "env_ok env \<Longrightarrow> master_inv m \<Longrightarrow> master_inv (release_held_join env m)"
  unfolding release_held_join_def Let_def by (rule inv_apply_edge) (simp_all add: master_inv_def)

lemma inv_rx:
  assumes "env_ok env" and "master_inv m"
  shows "master_inv (fst (reac_master_rx env m ev s b))"
proof -
  define m1 where "m1 = start_if_idle env (m\<lparr> ma_box_seen := True, ma_presence_tick := 600 \<rparr>)"
  define m2 where "m2 = (if ev = REAC_M_RX_BOX_CONFIG then m1\<lparr> ma_commit_seen := True \<rparr> else m1)"
  define m3 where "m3 = (if ma_state m2 = REAC_M_ESTABLISHED then m2\<lparr> ma_link_check := ma_link_check_reload m2 \<rparr> else m2)"
  have "master_inv m1" unfolding m1_def by (rule inv_start [OF assms(1)]) (use assms(2) in \<open>simp add: master_inv_def\<close>)
  then have "master_inv m3" by (simp add: m3_def m2_def master_inv_def)
  moreover from this have "master_inv (hold_join m3 ev s j)" for j by (simp add: hold_join_def master_inv_def)
  ultimately show ?thesis using assms inv_apply_edge [OF assms(1)]
    unfolding reac_master_rx_def Let_def m1_def [symmetric] m2_def [symmetric] m3_def [symmetric]
    by simp
qed

section \<open>Every turn keeps the invariant and can be stamped\<close>

definition can_stamp :: "reac_master \<Rightarrow> reac_master_emit \<Rightarrow> int \<Rightarrow> bool" where
  "can_stamp m emit idx \<longleftrightarrow>
     (case emit of REAC_M_EMIT_GRANT \<Rightarrow> 0 \<le> idx \<and> idx < ma_grant_burst_len m
      | REAC_M_EMIT_IDENTITY_POLL \<Rightarrow> 0 \<le> idx \<and> idx < 6
      | REAC_M_EMIT_CHANMAP \<Rightarrow> 0 \<le> idx \<and> idx < 49
      | _ \<Rightarrow> True)"

definition turn_ok :: "reac_master \<times> reac_master_emit \<times> int \<Rightarrow> bool" where
  "turn_ok r \<longleftrightarrow> (case r of (m, emit, idx) \<Rightarrow> master_inv m \<and> can_stamp m emit idx)"

lemmas turn_defs = turn_ok_def can_stamp_def

lemma smod_ring: "0 \<le> c \<Longrightarrow> 0 \<le> (c + 1) smod (49 :: int) \<and> (c + 1) smod 49 < 49"
  by (simp add: smod_nonneg)

lemma chanmap_due_ok:
  assumes "master_inv m" and "granting_chanmap_due m = (m', i)"
  shows "master_inv m'" and "i = Some k \<Longrightarrow> 0 \<le> k \<and> k < 49"
    and "\<exists>t c. m' = m\<lparr> ma_est_chanmap_tick := t, ma_chanmap_cursor := c \<rparr>"
proof -
  have n: "ma_chanmap_nframes m = 49" using assms(1) by (simp add: master_inv_def)
  show "master_inv m'"
    using assms by (auto simp: granting_chanmap_due_def Let_def n smod_ring master_inv_def split: if_splits)
  show "i = Some k \<Longrightarrow> 0 \<le> k \<and> k < 49"
    using assms by (auto simp: granting_chanmap_due_def Let_def master_inv_def split: if_splits)
  have "m' = m\<lparr> ma_est_chanmap_tick := ma_est_chanmap_tick m', ma_chanmap_cursor := ma_chanmap_cursor m' \<rparr>"
    using assms(2) by (auto simp: granting_chanmap_due_def Let_def split: if_splits)
  then show "\<exists>t c. m' = m\<lparr> ma_est_chanmap_tick := t, ma_chanmap_cursor := c \<rparr>" by blast
qed

lemma announce_due_ok:
  assumes "announce_due m = (m', b)"
  shows "\<exists>t. m' = m\<lparr> ma_announce_tick := t \<rparr>" and "master_inv m \<Longrightarrow> master_inv m'"
proof -
  have "m' = m\<lparr> ma_announce_tick := ma_announce_tick m' \<rparr>"
    using assms by (auto simp: announce_due_def Let_def split: if_splits)
  then show "\<exists>t. m' = m\<lparr> ma_announce_tick := t \<rparr>" by blast
  show "master_inv m \<Longrightarrow> master_inv m'"
    using assms by (auto simp: announce_due_def Let_def master_inv_def split: if_splits)
qed

text \<open>The idle turn both granting phases share: the channel map when it is due, otherwise an
  announce or filler.\<close>

lemma idle_turn_ok:
  assumes "master_inv m"
  shows "turn_ok (case granting_chanmap_due m of
        (m', Some i) \<Rightarrow> (m', REAC_M_EMIT_CHANMAP, i)
      | (m', None) \<Rightarrow> (case announce_due m' of (m'', b) \<Rightarrow> (m'', if b then REAC_M_EMIT_ANNOUNCE else REAC_M_EMIT_FILLER, 0)))"
  and "turn_ok (case granting_chanmap_due m of
        (m', Some i) \<Rightarrow> (m', REAC_M_EMIT_CHANMAP, i) | (m', None) \<Rightarrow> (m', REAC_M_EMIT_FILLER, 0))"
  using chanmap_due_ok(1,2) [OF assms] announce_due_ok(2)
  by (auto simp: turn_defs split: prod.split option.split)

lemma granting_hold_ok:
  assumes "env_ok env" and "master_inv m" 
  shows "turn_ok (granting_hold env m)"
proof -
  define t where "t = (if ma_grant_ticks m = 0 then (m, REAC_M_EMIT_ENROLL, 0)
         else case granting_chanmap_due m of
           (m', Some i) \<Rightarrow> (m', REAC_M_EMIT_CHANMAP, i)
         | (m', None) \<Rightarrow> (case announce_due m' of (m'', b) \<Rightarrow> (m'', if b then REAC_M_EMIT_ANNOUNCE else REAC_M_EMIT_FILLER, 0)))"
  obtain m1 e i where ti: "t = (m1, e, i)" by (cases t)
  have "turn_ok t" unfolding t_def using assms(2) idle_turn_ok(1) [OF assms(2)] by (simp add: turn_defs)
  moreover have "e \<noteq> REAC_M_EMIT_GRANT" using ti unfolding t_def by (auto split: if_splits prod.splits option.splits)
  ultimately show ?thesis
    using inv_apply_edge [OF assms(1) inv_put(6) [of m1]] inv_put(6) [of m1] ti
    unfolding granting_hold_def t_def [symmetric] by (simp add: turn_defs Let_def split: reac_master_emit.splits)
qed

lemma dwell_ends_ok:
  assumes "dwell_ends_now env m = (m', b)" and "master_inv m"
  shows "master_inv m'" and "ma_grant_ticks m' = ma_grant_ticks m" and "b \<Longrightarrow> 0 < ma_grant_ticks m \<Longrightarrow> 0 < ma_dwell_ended_tick m'"
    and "\<not> b \<Longrightarrow> m' = m"
  using assms by (auto simp: dwell_ends_now_def master_inv_def split: if_splits)

lemma anchor_bound:
  assumes "master_inv m" and "0 < ma_dwell_ended_tick m \<or> ma_grant_dwell m < ma_grant_ticks m"
  shows "- 1 \<le> ma_grant_ticks m - 1 - reac_master_grant_anchor m"
  using assms by (auto simp: reac_master_grant_anchor_def master_inv_def)

lemma granting_burst_ok:
  assumes "master_inv m" and "0 < ma_dwell_ended_tick m \<or> ma_grant_dwell m < ma_grant_ticks m"
  shows "turn_ok (granting_burst m)"
proof -
  define gt where "gt = ma_grant_ticks m - 1 - reac_master_grant_anchor m"
  have g: "- 1 \<le> gt" using anchor_bound [OF assms] by (simp add: gt_def)
  have s: "ma_grant_stride m = 12" using assms(1) by (simp add: master_inv_def)
  have "0 \<le> gt sdiv 12" if "gt smod 12 = 0"
  proof (cases "gt = - 1")
    case True
    then show ?thesis using that by (simp add: signed_modulo_int_def signed_divide_int_def)
  next
    case False
    then show ?thesis using g by (simp add: sdiv_nonneg pos_imp_zdiv_nonneg_iff)
  qed
  then show ?thesis
    unfolding granting_burst_def gt_def [symmetric] Let_def s
    using assms(1) idle_turn_ok(2) [OF assms(1)] by (simp add: turn_defs)
qed

lemma granting_dwell_ok: "master_inv m \<Longrightarrow> turn_ok (granting_dwell env m)"
  using idle_turn_ok(1) [of m]
  by (cases "ma_enroll_pending m") (simp_all add: granting_dwell_def turn_defs master_inv_def)

lemma delivered_edge:
  "apply_edge env m (reac_master_fsm_step (ma_state m) REAC_M_EV_GRANT_DELIVERED) None None =
     (if ma_state m = REAC_M_GRANTING then enter_established m else m)"
  by (cases "ma_state m") (simp_all add: apply_edge_def edge_defs)

lemma lost_edge:
  "apply_edge env m (reac_master_fsm_step (ma_state m) REAC_M_EV_LINK_LOST) None None =
     (if ma_state m = REAC_M_ESTABLISHED then enter_probing (m\<lparr> ma_drop_reason := REAC_M_DROP_PEER_GONE \<rparr>) else m)"
  by (cases "ma_state m") (simp_all add: apply_edge_def edge_defs)

lemma unknown_edge:
  "apply_edge env m (reac_master_fsm_step (ma_state m) REAC_M_EV_BOX_UNKNOWN) None None =
     (if ma_state m = REAC_M_GRANTING then enter_probing (m\<lparr> ma_drop_reason := REAC_M_DROP_BOX_UNKNOWN \<rparr>) else m)"
  by (cases "ma_state m") (simp_all add: apply_edge_def edge_defs)

lemma enter_established_burst [simp]: "ma_grant_burst_len (enter_established m) = ma_grant_burst_len m"
  by (simp add: enter_established_def reset_control_cadence_def Let_def)

lemma granting_window_ok:
  assumes "env_ok env" and "master_inv m"
  shows "turn_ok (granting_window env m)"
proof -
  define t where "t = (if ma_grant_ticks m = 0 then (m, if no_enroll env then REAC_M_EMIT_FILLER else REAC_M_EMIT_ENROLL, 0)
         else if ma_grant_ticks m \<le> ma_grant_dwell m
         then (case dwell_ends_now env m of (m', ended) \<Rightarrow> if ended then granting_burst m' else granting_dwell env m')
         else granting_burst m)"
  obtain m1 e i where ti: "t = (m1, e, i)" by (cases t)
  have "turn_ok t"
  proof (cases "ma_grant_ticks m \<le> ma_grant_dwell m")
    case True
    obtain m' b where d: "dwell_ends_now env m = (m', b)" by fastforce
    note ok = dwell_ends_ok [OF d assms(2)]
    have "turn_ok (granting_burst m')" if "b" "ma_grant_ticks m \<noteq> 0"
      using that ok assms(2) by (intro granting_burst_ok) (auto simp: master_inv_def)
    then show ?thesis
      using True assms(2) d granting_dwell_ok [OF ok(1)] unfolding t_def by (auto simp: turn_defs)
  next
    case False
    then have "turn_ok (granting_burst m)" using assms(2) by (intro granting_burst_ok) auto
    moreover have "ma_grant_ticks m \<noteq> 0" using False assms(2) by (auto simp: master_inv_def)
    ultimately show ?thesis using False by (simp add: t_def)
  qed
  then have "master_inv (m1\<lparr> ma_grant_ticks := ma_grant_ticks m1 + 1 \<rparr>)" "can_stamp m1 e i"
    using ti inv_put(6) by (simp_all add: turn_ok_def)
  then show ?thesis
    using inv_enter_established [of "m1\<lparr> ma_grant_ticks := ma_grant_ticks m1 + 1 \<rparr>"] ti
    unfolding granting_window_def t_def [symmetric] delivered_edge
    by (simp add: turn_defs Let_def split: reac_master_emit.splits)
qed

lemma identity_poll_ok: "master_inv m \<Longrightarrow> turn_ok (identity_poll_turn m)"
  using inv_facts(11,12) [of m] by (auto simp: identity_poll_turn_def Let_def turn_defs inv_put(5))

lemma scene_slot_emit:
  "scene_slot m pos = Some (step, e) \<Longrightarrow> e = REAC_M_EMIT_SCENE_CHUNK \<or> e = REAC_M_EMIT_SCENE_TAIL"
  by (auto simp: scene_slot_def Let_def split: if_splits)

lemma probing_cadence_ok:
  assumes "master_inv m"
  shows "turn_ok (probing_cadence m pos)"
proof -
  have n: "ma_chanmap_nframes m = 49" using assms by (simp add: master_inv_def)
  show ?thesis using assms
    by (auto simp: probing_cadence_def turn_defs n smod_ring inv_facts inv_put(4) dest: scene_slot_emit split: option.split)
qed

lemma established_cadence_ok:
  assumes "master_inv m"
  shows "turn_ok (established_cadence env m pos)"
proof -
  define m1 where "m1 = m\<lparr> ma_est_chanmap_tick := ma_est_chanmap_tick m + 1 \<rparr>"
  have i: "master_inv m1" using assms by (simp add: m1_def)
  then have n: "ma_chanmap_nframes m1 = 49" by (rule inv_facts)
  have a: "turn_ok (m1\<lparr> ma_announce_tick := 0 \<rparr>, REAC_M_EMIT_ANNOUNCE, 0)"
    using i by (simp add: turn_defs)
  have c: "turn_ok (m1\<lparr> ma_est_chanmap_tick := 0, ma_chanmap_cursor := (ma_chanmap_cursor m1 + 1) smod 49 \<rparr>,
        REAC_M_EMIT_CHANMAP, ma_chanmap_cursor m1)"
    using i smod_ring [of "ma_chanmap_cursor m1"] by (simp add: turn_defs inv_facts inv_put(4))
  have s: "turn_ok (m1\<lparr> ma_scene_step := k \<rparr>, e, 0)"
    if "e = REAC_M_EMIT_SCENE_CHUNK \<or> e = REAC_M_EMIT_SCENE_TAIL \<or> e = REAC_M_EMIT_SCENE_HEAD" for k e
    using i that by (auto simp: turn_defs)
  have "turn_ok (case if est_scene_stream env then scene_slot m1 pos else None of
        None \<Rightarrow> if est_scene_stream env \<and> pos = ma_sub01_off m1 then (m1\<lparr> ma_scene_step := 0 \<rparr>, REAC_M_EMIT_SCENE_HEAD, 0)
          else identity_poll_turn m1
      | Some (step, emit) \<Rightarrow> (m1\<lparr> ma_scene_step := step \<rparr>, emit, 0))"
    using s scene_slot_emit [of m1 pos] identity_poll_ok [OF i] by (auto split: option.split)
  with a c show ?thesis
    unfolding established_cadence_def m1_def [symmetric] Let_def n by simp
qed

lemma control_cadence_ok:
  assumes "master_inv m"
  shows "turn_ok (control_cadence env m)"
proof -
  have "master_inv (m\<lparr> ma_cycle_pos := (ma_cycle_pos m + 1) smod ma_cycle_len m \<rparr>)"
    using assms geom_range(1) [of "ma_fps m" "ma_cycle_len m"] by (auto simp: master_inv_def smod_nonneg)
  then have "master_inv (m\<lparr> ma_cycle_pos := (ma_cycle_pos m + 1) smod ma_cycle_len m, ma_announce_tick := t \<rparr>)" for t
    by simp
  then show ?thesis unfolding control_cadence_def Let_def
    using established_cadence_ok probing_cadence_ok by simp
qed

lemma control_cadence_no_grant: "control_cadence env m = (m', e, i) \<Longrightarrow> e \<noteq> REAC_M_EMIT_GRANT"
  by (auto simp: control_cadence_def established_cadence_def probing_cadence_def identity_poll_turn_def Let_def
      dest: scene_slot_emit split: if_splits option.splits prod.splits)

lemma established_turn_ok:
  assumes "env_ok env" and "master_inv m"
  shows "turn_ok (established_turn env m)"
proof -
  obtain m1 e i where t: "control_cadence env m = (m1, e, i)" by (cases "control_cadence env m")
  have "master_inv (m1\<lparr> ma_link_check := c \<rparr>)" "can_stamp m1 e i" "e \<noteq> REAC_M_EMIT_GRANT" for c
    using control_cadence_ok [OF assms(2), of env] control_cadence_no_grant [OF t] t
    by (auto simp: turn_ok_def master_inv_def)
  then show ?thesis
    using inv_apply_edge [OF assms(1)] unfolding established_turn_def t
    by (simp add: turn_defs Let_def split: reac_master_emit.splits)
qed

lemma inv_scene_prepare: "master_inv m \<Longrightarrow> master_inv (scene_prepare m)"
  by (auto simp: scene_prepare_def inv_put(3) scene_link1 split: option.split)

lemma scene_account_ok:
  assumes "env_ok env" and "turn_ok (m, e, i)"
  shows "turn_ok (scene_account env e m, e, i)"
proof -
  have m: "master_inv m" using assms(2) by (simp add: turn_ok_def)
  then have s: "master_inv (scene_prepare m)" by (rule inv_scene_prepare)
  then show ?thesis using assms(2) m s inv_release [OF assms(1)]
    by (cases e) (simp_all add: scene_account_def Let_def turn_defs)
qed

lemma next_ok:
  assumes "env_ok env" and "master_inv m" and "reac_master_next env m = (m', c, e, i)"
  shows "master_inv m'" and "can_stamp m' e i"
proof -
  define m1 where "m1 = start_if_idle env (m\<lparr> ma_counter := ma_counter m + 1 \<rparr>)"
  define m2 where "m2 = (if ma_box_seen m1
                then let m' = m1\<lparr> ma_presence_tick := ma_presence_tick m1 - 1 \<rparr>
                     in if ma_presence_tick m' \<le> 0 then m'\<lparr> ma_box_seen := False \<rparr> else m'
                else m1)"
  define t where "t = (case ma_state m2 of
               REAC_M_IDLE \<Rightarrow> control_cadence env m2
             | REAC_M_PROBING \<Rightarrow> control_cadence env m2
             | REAC_M_GRANTING \<Rightarrow> if \<not> reac_master_has_box m2 then granting_hold env m2 else granting_window env m2
             | REAC_M_ESTABLISHED \<Rightarrow> established_turn env m2)"
  have "master_inv m1" unfolding m1_def by (rule inv_start [OF assms(1)]) (use assms(2) in \<open>simp add: master_inv_def\<close>)
  then have i2: "master_inv m2" by (simp add: m2_def Let_def master_inv_def)
  have "turn_ok t" unfolding t_def
    using control_cadence_ok [OF i2] granting_hold_ok [OF assms(1) i2] granting_window_ok [OF assms(1) i2]
      established_turn_ok [OF assms(1) i2] by (simp split: reac_master_state.split)
  moreover have "t = (m3, e3, i3) \<Longrightarrow> (m', c, e, i) = (scene_account env e3 m3, ma_counter m, e3, i3)" for m3 e3 i3
    using assms(3) unfolding reac_master_next_def Let_def m1_def [symmetric] m2_def [unfolded Let_def, symmetric] t_def [symmetric]
    by auto
  ultimately show "master_inv m'" "can_stamp m' e i"
    using scene_account_ok [OF assms(1)] by (cases t; force simp: turn_ok_def)+
qed

section \<open>From power-up\<close>

lemma init_geom:
  assumes "0 < ma_fps m"
  shows "cadence_geom (ma_fps m) (ma_cycle_len (init_cadence m)) (ma_burst_end (init_cadence m)) (ma_sub02_off (init_cadence m))
           (ma_chanmap_off (init_cadence m)) (ma_sub01_off (init_cadence m))"
  using assms
  by (auto simp: cadence_geom_def init_cadence_def burst_slot_def slot_of_def Let_def sdiv_nonneg max_def)

lemma ENROLL_link1: "link1_blk 0x10 (set_enroll_width (ENROLL_BLK[8 := c]) w)"
  unfolding set_enroll_width_def Let_def
  by (rule link1_stamp) (simp_all add: ENROLL_BLK_def upt_rec)

lemma init_dwell_pos: "0 < fps \<Longrightarrow> 0 < init_dwell tu fps"
  by (auto simp: init_dwell_def Let_def grant_dwell_override_s_def split: if_splits)

lemma inv_init:
  assumes "length src = 6" and "length body = 8904"
  shows "master_inv (reac_master_init tu body src cfg fps)"
proof -
  define c where "c = (case cfg of Some c \<Rightarrow> c | None \<Rightarrow> REAC_CONSOLE_CFG_IDLE)"
  define fp where "fp = (if fps > 0 then fps else 8000)"
  define m0 where "m0 = master_zero\<lparr> ma_state := REAC_M_IDLE, ma_src := src, ma_fps := fp, ma_cfg := c \<rparr>"
  define lc where "lc = (fp * 65) sdiv 10"
  define gf where "gf = (fp * 15) sdiv 100"
  define m2 where "m2 = (init_cadence m0)\<lparr> ma_grant_frames := (if gf < 1 then 1 else gf), ma_grant_stride := 12,
                 ma_grant_dwell := init_dwell tu fp, ma_headamp_src := None,
                 ma_alloc := \<lparr> ga_base = 0, ga_width = 0 \<rparr>, ma_grant_burst_len := 0,
                 ma_link_check_reload := (if lc < 1 then 1 else lc),
                 ma_chanmap := fst (gen_chanmap c), ma_chanmap_nframes := snd (gen_chanmap c),
                 ma_announce_blk := gen_cfea src c 0,
                 ma_enroll_blk := set_enroll_width (ENROLL_BLK[8 := pace_code (Some c)]) 32,
                 ma_enroll_pending := False, ma_enroll_sent_tick := 0 \<rparr>"
  define sc where "sc = (poke 0x340 src body)[0x14 := pace_code (Some c), 0x15 := 0x00]"
  have "fp > 0" by (simp add: fp_def)
  have e: "reac_master_init tu body src cfg fps = scene_prepare (m2\<lparr> ma_scene := sc, ma_scene_step := 0 \<rparr>)"
    unfolding reac_master_init_def init_scene_def Let_def c_def [symmetric] fp_def [symmetric] m0_def [symmetric]
      lc_def [symmetric] gf_def [symmetric] m2_def [symmetric]
    using assms by (simp add: reac_ctrl_scene_set_mac_def sc_def m2_def init_cadence_def Let_def m0_def)
  have sc: "length sc = 8904" using assms by (simp add: sc_def)
  obtain blk where blk: "reac_ctrl_build_scene_step (Some sc) 0 = Some blk"
    using sc by (simp add: reac_ctrl_build_scene_step_def Let_def)
  have b: "burst_inv \<lparr> ga_base = 0, ga_width = 0 \<rparr> (replicate 128 (replicate 34 0)) 0" by (simp add: burst_inv_def)
  have geom: "cadence_geom fp (ma_cycle_len (init_cadence m0)) (ma_burst_end (init_cadence m0)) (ma_sub02_off (init_cadence m0))
           (ma_chanmap_off (init_cadence m0)) (ma_sub01_off (init_cadence m0))"
    using init_geom [of m0] \<open>fp > 0\<close> by (simp add: m0_def)
  have pos: "ma_cycle_pos (init_cadence m0) = 0" "0 < ma_cycle_len (init_cadence m0)"
    using geom_range(1) [OF geom] \<open>fp > 0\<close> by (simp_all add: init_cadence_def m0_def master_zero_def Let_def)
  have rest: "ma_src (init_cadence m0) = src" "ma_fps (init_cadence m0) = fp" "ma_chanmap_cursor (init_cadence m0) = 0"
    "ma_identity_poll_left (init_cadence m0) = 0" "ma_grant_burst (init_cadence m0) = replicate 128 (replicate 34 0)"
    "ma_grant_ticks (init_cadence m0) = 0" "ma_dwell_ended_tick (init_cadence m0) = 0"
    by (simp_all add: init_cadence_def m0_def master_zero_def Let_def)
  have ch: "length (fst (gen_chanmap c)) = 49" "snd (gen_chanmap c) = 49" "list_all (link1_blk 0x01) (fst (gen_chanmap c))"
    by (simp_all add: gen_chanmap_def list_all_iff chanmap_link1)
  show ?thesis
    unfolding e scene_prepare_def
    using assms(1) sc \<open>fp > 0\<close> init_dwell_pos [OF \<open>fp > 0\<close>, of tu] ch b scene_link1 [OF blk] ENROLL_link1 cfea_announce
      geom pos rest
    by (simp add: blk master_inv_def m2_def)
qed

datatype master_op = MRx reac_master_rx_event mac "bytes option" | MNext | MSetBox int int int | MForget
  | MHeadamp "nat option" | MRegrant | MIdentity int

fun master_step :: "reac_master \<Rightarrow> master_env \<times> master_op \<Rightarrow> reac_master" where
  "master_step m (env, MRx ev src blk) = fst (reac_master_rx env m ev src blk)"
| "master_step m (env, MNext) = fst (reac_master_next env m)"
| "master_step m (env, MSetBox in_ch out_ch base) = reac_master_set_box env m in_ch out_ch base"
| "master_step m (env, MForget) = reac_master_forget_box m"
| "master_step m (env, MHeadamp tx) = reac_master_set_headamp_src env m tx"
| "master_step m (env, MRegrant) = reac_master_regrant env m"
| "master_step m (env, MIdentity n) = reac_master_identity_answered m n"

lemma inv_next: "env_ok env \<Longrightarrow> master_inv m \<Longrightarrow> master_inv (fst (reac_master_next env m))"
  using next_ok(1) by (metis fst_conv prod_cases4)

interpretation master_machine: invariant_machine master_step master_inv "\<lambda>(env, op). env_ok env"
proof
  fix m and e :: "master_env \<times> master_op"
  assume m: "master_inv m" and "case e of (env, op) \<Rightarrow> env_ok env"
  then obtain env op where e: "e = (env, op)" "env_ok env" by auto
  show "master_inv (master_step m e)"
    using m e(2) unfolding e(1)
    by (cases op) (simp_all add: inv_rx inv_next inv_set_box inv_forget inv_set_headamp_src inv_enter_granting
        reac_master_regrant_def reac_master_identity_answered_def)
qed

section \<open>Stamped frames\<close>

lemma apply_block_poke:
  assumes "50 \<le> length f" and "blk_ok b"
  shows "apply_block f b = poke 16 b f"
proof -
  let ?g = "poke 16 b f"
  have l: "length b = 34" using assms(2) by (rule blk_ok_length)
  have g: "length ?g = length f" "peek 18 32 ?g = drop 2 b"
    using assms(1) l by (auto intro!: peek_eqI simp: nth_poke)
  have "reac_ctrl_block_cksum_stamp (drop 2 b) = drop 2 b"
    using assms(2) by (intro stamp_id) (simp_all add: blk_ok_def and_mask_u32)
  moreover have "poke 18 (drop 2 b) ?g = ?g"
    using assms(1) l by (intro nth_equalityI) (auto simp: nth_poke intro: arg_cong [of _ _ "(!) b"])
  ultimately show ?thesis by (simp add: apply_block_def reac_ctrl_checksum_apply_def cksum_stamp_at_def g)
qed

lemma filler_stamp:
  assumes "50 \<le> length f"
  shows "length (stamp_filler_descriptor f d) = length f"
    "i < 18 \<or> 50 \<le> i \<Longrightarrow> i < length f \<Longrightarrow> stamp_filler_descriptor f d ! i = f ! i"
  by (auto simp: stamp_filler_descriptor_def upt_rec)

text \<open>What the receiver of a stamped frame takes it for.\<close>

fun emit_kinds :: "reac_master_emit \<Rightarrow> reac_ctrl_kind list" where
  "emit_kinds REAC_M_EMIT_FILLER = [REAC_CTRL_FILLER]"
| "emit_kinds REAC_M_EMIT_SCENE_CHUNK = [REAC_CTRL_SCENE_TRANSFER]"
| "emit_kinds REAC_M_EMIT_SCENE_HEAD = [REAC_CTRL_SCENE_TRANSFER]"
| "emit_kinds REAC_M_EMIT_SCENE_TAIL = [REAC_CTRL_SCENE_TRANSFER]"
| "emit_kinds REAC_M_EMIT_GRANT = [REAC_CTRL_GRANT, REAC_CTRL_HEADAMP]"
| "emit_kinds REAC_M_EMIT_ENROLL = [REAC_CTRL_GROUP_MAP]"
| "emit_kinds REAC_M_EMIT_CHANMAP = [REAC_CTRL_MASTER_HB]"
| "emit_kinds REAC_M_EMIT_ANNOUNCE = [REAC_CTRL_MASTER_ANNOUNCE]"
| "emit_kinds REAC_M_EMIT_IDENTITY_POLL = [REAC_CTRL_GRANT]"

lemma stamped_kind:
  assumes "50 \<le> length f" and "f ! 12 = 0x88" and "f ! 13 = 0x19" and "length b = 34" 
  shows "announce_blk src b \<Longrightarrow> pc_kind (reac_ctrl_parse (poke 16 b f)) = REAC_CTRL_MASTER_ANNOUNCE"
    and "link1_blk op b \<Longrightarrow> pc_kind (reac_ctrl_parse (poke 16 b f)) = kind_of_link1 op"
    and "row_ok b \<Longrightarrow> pc_kind (reac_ctrl_parse (poke 16 b f)) \<in> {REAC_CTRL_GRANT, REAC_CTRL_HEADAMP}"
proof -
  let ?g = "poke 16 b f"
  have g: "length ?g = length f" "?g ! 12 = 0x88" "?g ! 13 = 0x19" "?g ! 16 = b ! 0" "?g ! 17 = b ! 1"
    "drop 18 ?g ! 0 = b ! 2" "drop 18 ?g ! 4 = b ! 6" "drop 18 ?g ! Suc 0 = b ! 3"
    using assms by (simp_all add: nth_poke)
  show "announce_blk src b \<Longrightarrow> pc_kind (reac_ctrl_parse ?g) = REAC_CTRL_MASTER_ANNOUNCE"
    using g assms(1) by (simp add: reac_ctrl_parse_def announce_blk_def Let_def)
  show "link1_blk op b \<Longrightarrow> pc_kind (reac_ctrl_parse ?g) = kind_of_link1 op"
    using g assms(1) by (simp add: reac_ctrl_parse_def parse_hdr_def link1_blk_def Let_def)
  have two: "row_ok b \<Longrightarrow> b ! 0 = 0xcd \<and> b ! 1 = 0xea" if "row_ok b"
    using assms(4) that by (cases b; cases "tl b") (auto simp: row_ok_def)
  show "row_ok b \<Longrightarrow> pc_kind (reac_ctrl_parse ?g) \<in> {REAC_CTRL_GRANT, REAC_CTRL_HEADAMP}"
    using g assms(1) two by (simp add: reac_ctrl_parse_def parse_hdr_def row_ok_def Let_def)
qed

lemma poll_kind:
  assumes "50 \<le> length f" and "f ! 12 = 0x88" and "f ! 13 = 0x19" and "0 \<le> i" and "i < 6"
  shows "pc_kind (reac_ctrl_parse (poke 16 (GRANT_GROUPB ! nat i) f)) = REAC_CTRL_GRANT"
proof -
  let ?b = "GRANT_GROUPB ! nat i" and ?g = "poke 16 (GRANT_GROUPB ! nat i) f"
  have "list_all (\<lambda>b. length b = 34 \<and> b ! 0 = 0xcd \<and> b ! 1 = 0xea \<and> b ! 2 = 4 \<and> b ! 3 = 3 \<and> b ! 17 = 0x11) GRANT_GROUPB"
    by code_simp
  moreover have "?b \<in> set GRANT_GROUPB" using assms(4,5) fixed_rows(7) by (intro nth_mem) simp
  ultimately have b: "length ?b = 34" "?b ! 0 = 0xcd" "?b ! 1 = 0xea" "?b ! 2 = 4" "?b ! 3 = 3" "?b ! 17 = 0x11"
    by (auto simp: list_all_iff)
  then have g: "length ?g = length f" "?g ! 12 = 0x88" "?g ! 13 = 0x19" "?g ! 16 = 0xcd" "?g ! 17 = 0xea"
    "drop 18 ?g ! 0 = 4" "drop 18 ?g ! Suc 0 = 3" "drop 18 ?g ! 15 = 0x11"
    using assms by (simp_all add: nth_poke)
  show ?thesis using g assms(1) by (simp add: reac_ctrl_parse_def parse_hdr_def Let_def)
qed

text \<open>The block an emission puts on the wire.\<close>

fun emit_block :: "reac_master \<Rightarrow> reac_master_emit \<Rightarrow> int \<Rightarrow> bytes" where
  "emit_block m REAC_M_EMIT_FILLER i = []"
| "emit_block m REAC_M_EMIT_SCENE_CHUNK i = ma_scene_blk m"
| "emit_block m REAC_M_EMIT_SCENE_HEAD i = ma_scene_blk m"
| "emit_block m REAC_M_EMIT_SCENE_TAIL i = ma_scene_blk m"
| "emit_block m REAC_M_EMIT_GRANT i = ma_grant_burst m ! nat i"
| "emit_block m REAC_M_EMIT_ENROLL i = ma_enroll_blk m"
| "emit_block m REAC_M_EMIT_CHANMAP i = ma_chanmap m ! nat i"
| "emit_block m REAC_M_EMIT_ANNOUNCE i = ma_announce_blk m"
| "emit_block m REAC_M_EMIT_IDENTITY_POLL i = GRANT_GROUPB ! nat i"

lemma burst_row_ok:
  assumes "master_inv m" and "0 \<le> i" and "i < ma_grant_burst_len m"
  shows "row_ok (ma_grant_burst m ! nat i)"
proof -
  have b: "burst_inv (ma_alloc m) (ma_grant_burst m) (ma_grant_burst_len m)" using assms(1) by (simp add: master_inv_def)
  have "ma_grant_burst_len m \<le> 128" using b by (auto simp: burst_inv_def split: if_splits)
  then have "nat i < length (take (nat (ma_grant_burst_len m)) (ma_grant_burst m))"
    using assms(2,3) b by (simp add: burst_inv_def nat_less_iff)
  then have "take (nat (ma_grant_burst_len m)) (ma_grant_burst m) ! nat i \<in> set (take (nat (ma_grant_burst_len m)) (ma_grant_burst m))"
    by (rule nth_mem)
  then show ?thesis using b assms(2,3) by (auto simp: burst_inv_def enrols_def split: if_splits)
qed

lemma chanmap_row_ok: "master_inv m \<Longrightarrow> 0 \<le> i \<Longrightarrow> i < 49 \<Longrightarrow> link1_blk 0x01 (ma_chanmap m ! nat i)"
  by (simp add: master_inv_def list_all_length nat_less_iff)

lemma link1_blk_ok: "link1_blk op b \<Longrightarrow> blk_ok b" and announce_blk_ok: "announce_blk s b \<Longrightarrow> blk_ok b"
  by (simp_all add: link1_blk_def announce_blk_def)

lemma emit_block_ok:
  assumes "master_inv m" and "can_stamp m e i" and "e \<noteq> REAC_M_EMIT_FILLER"
  shows "blk_ok (emit_block m e i)"
    and "50 \<le> length f \<Longrightarrow> reac_master_stamp m f e i = Some (poke 16 (emit_block m e i) f)"
proof -
  have b: "link1_blk 0x00 (ma_scene_blk m)" "announce_blk (ma_src m) (ma_announce_blk m)" "link1_blk 0x10 (ma_enroll_blk m)"
    using assms(1) by (simp_all add: master_inv_def)
  have p: "reac_ctrl_identity_poll_block i = Some (GRANT_GROUPB ! nat i)" if "0 \<le> i" "i < 6"
    using that by (simp add: reac_ctrl_identity_poll_block_def)
  show ok: "blk_ok (emit_block m e i)"
    using assms(2,3) b burst_row_ok [OF assms(1)] chanmap_row_ok [OF assms(1)] poll_blk_ok [OF p]
    by (cases e) (auto simp: can_stamp_def intro: link1_blk_ok announce_blk_ok row_blk_ok)
  assume f: "50 \<le> length f"
  have "ma_chanmap_nframes m = 49" using assms(1) by (rule inv_facts)
  then show "reac_master_stamp m f e i = Some (poke 16 (emit_block m e i) f)"
    using ok assms(2,3) p f by (cases e) (simp_all add: can_stamp_def apply_block_poke)
qed

section \<open>Properties\<close>

text \<open>C1: whatever a master decides to send can be sent, and is understood. After any history of
  received frames, slots, declarations, head-amp bindings and regrants, the frame kind a slot
  chooses can be stamped; stamping leaves the header and the audio alone, every control block
  checksums, and a receiver reads the frame as the kind the master meant, an announce with the
  master's own address in it.\<close>

theorem master_slots_stamped:
  assumes "length src = 6" and "length body = 8904" and "list_all (\<lambda>(env, op). env_ok env) ops" and "env_ok env"
    and "reac_master_next env (foldl master_step (reac_master_init tu body src cfg fps) ops) = (m, c, e, i)"
    and "50 \<le> length f" and "f ! 12 = 0x88" and "f ! 13 = 0x19" and "f ! 16 = 0" and "f ! 17 = 0"
  shows "\<exists>g. reac_master_stamp m f e i = Some g \<and> length g = length f \<and> take 16 g = take 16 f \<and> drop 50 g = drop 50 f
    \<and> pc_kind (reac_ctrl_parse g) \<in> set (emit_kinds e)
    \<and> (e \<noteq> REAC_M_EMIT_FILLER \<longrightarrow> reac_ctrl_checksum_verify g = 0)
    \<and> (e = REAC_M_EMIT_ANNOUNCE \<longrightarrow> peek 27 6 g = ma_src m)"
proof -
  have "master_inv (foldl master_step (reac_master_init tu body src cfg fps) ops)"
    using inv_init [OF assms(1,2)] assms(3) by (rule master_machine.inv_run)
  note ok = next_ok [OF assms(4) this assms(5)]
  show ?thesis
  proof (cases "e = REAC_M_EMIT_FILLER")
    case True
    let ?g = "stamp_filler_descriptor f (ma_filler_desc m)"
    note g = filler_stamp [where d = "ma_filler_desc m", OF assms(6)]
    have "take 16 ?g = take 16 f" "drop 50 ?g = drop 50 f"
      using g assms(6) by (auto intro!: nth_equalityI)
    moreover have "pc_kind (reac_ctrl_parse ?g) = REAC_CTRL_FILLER"
      using g assms(6-10) by (simp add: reac_ctrl_parse_def Let_def)
    ultimately show ?thesis using True g(1) by auto
  next
    case False
    let ?b = "emit_block m e i"
    note b = emit_block_ok(1) [OF ok False]
    note st = emit_block_ok(2) [OF ok False assms(6)]
    have l: "length ?b = 34" using b by (rule blk_ok_length)
    have g: "length (poke 16 ?b f) = length f" "take 16 (poke 16 ?b f) = take 16 f" "drop 50 (poke 16 ?b f) = drop 50 f"
      using l assms(6) by (simp_all add: poke_def)
    have v: "reac_ctrl_checksum_verify (poke 16 ?b f) = 0"
      using checksum_verify_apply [of "poke 16 ?b f"] apply_block_poke [OF assms(6) b] l assms(6)
      by (simp add: apply_block_def)
    note k = stamped_kind [OF assms(6-8) l]
    have in_blk: "link1_blk 0x00 (ma_scene_blk m)" "announce_blk (ma_src m) (ma_announce_blk m)" "link1_blk 0x10 (ma_enroll_blk m)"
      using ok(1) by (simp_all add: master_inv_def)
    have kind: "pc_kind (reac_ctrl_parse (poke 16 ?b f)) \<in> set (emit_kinds e)"
      using False ok(2) k(1,3) k(2) [of "0x00"] k(2) [of "0x01"] k(2) [of "0x10"] in_blk burst_row_ok [OF ok(1)] chanmap_row_ok [OF ok(1)] poll_kind [OF assms(6-8), of i]
      by (cases e) (auto simp: can_stamp_def kind_of_link1_def)
    have "peek 27 6 (poke 16 ?b f) = ma_src m" if "e = REAC_M_EMIT_ANNOUNCE"
    proof -
      have "peek 27 6 (poke 16 ?b f) = peek 11 6 ?b"
        using l assms(6) by (intro nth_equalityI) (simp_all add: nth_poke add.commute)
      then show ?thesis using in_blk(2) that by (simp add: announce_blk_def)
    qed
    then show ?thesis using st g v kind by blast
  qed
qed

definition plain_env :: master_env where
  "plain_env = \<lparr> en_tunables = REAC_MASTER_TUNABLES_DEFAULT, en_headamp = (\<lambda>_. reac_headamp_tx_init) \<rparr>"

lemma plain_env_ok: "env_ok plain_env"
  by (simp add: env_ok_def plain_env_def headamp_inv_init)

theorem master_slots_stamped_witness:
  "\<exists>m c e i g. reac_master_next plain_env (foldl master_step
        (reac_master_init REAC_MASTER_TUNABLES_DEFAULT (replicate 8904 0) [0, 0x40, 0xab, 1, 2, 3] None 8000)
        [(plain_env, MNext), (plain_env, MSetBox 16 8 0)]) = (m, c, e, i)
    \<and> reac_master_stamp m ((replicate 1492 0)[12 := 0x88, 13 := 0x19]) e i = Some g
    \<and> pc_kind (reac_ctrl_parse g) \<in> set (emit_kinds e)"
proof -
  let ?m0 = "foldl master_step (reac_master_init REAC_MASTER_TUNABLES_DEFAULT (replicate 8904 0) [0, 0x40, 0xab, 1, 2, 3] None 8000)
        [(plain_env, MNext), (plain_env, MSetBox 16 8 0)]"
  obtain m c e i where n: "reac_master_next plain_env ?m0 = (m, c, e, i)" by (rule prod_cases4)
  from master_slots_stamped [OF _ _ _ plain_env_ok n, of "(replicate 1492 0)[12 := 0x88, 13 := 0x19]"] n
  show ?thesis by (auto simp: plain_env_ok)
qed

end
