(* ===== verification/Reac_Master_Run.thy ===== *)
theory Reac_Master_Run
  imports Reac_Session
begin

text \<open>
  What a master does over many slots when no frame arrives: it sends the whole scene to a box it
  courts, delivers the whole grant sweep and then establishes the link, and gives a silent box up.
  \<open>master_run\<close> is the driver loop of the pacer, one \<^verbatim>\<open>reac_master_next\<close> per slot, with the block the
  slot would be stamped with.
\<close>

fun master_run :: "master_env \<Rightarrow> nat \<Rightarrow> reac_master \<Rightarrow> reac_master \<times> (u16 \<times> reac_master_emit \<times> bytes) list" where
  "master_run env 0 m = (m, [])"
| "master_run env (Suc n) m =
     (case reac_master_next env m of (m', c, e, i) \<Rightarrow>
        (case master_run env n m' of (m'', slots) \<Rightarrow> (m'', (c, e, emit_block m' e i) # slots)))"

definition grant_blocks :: "(u16 \<times> reac_master_emit \<times> bytes) list \<Rightarrow> bytes list" where
  "grant_blocks slots = map (\<lambda>(c, e, b). b) (filter (\<lambda>(c, e, b). e = REAC_M_EMIT_GRANT) slots)"

definition is_scene :: "reac_master_emit \<Rightarrow> bool" where
  "is_scene e \<longleftrightarrow> e = REAC_M_EMIT_SCENE_HEAD \<or> e = REAC_M_EMIT_SCENE_CHUNK \<or> e = REAC_M_EMIT_SCENE_TAIL"

definition scene_blocks :: "(u16 \<times> reac_master_emit \<times> bytes) list \<Rightarrow> bytes list" where
  "scene_blocks slots = map (\<lambda>(c, e, b). b) (filter (\<lambda>(c, e, b). is_scene e) slots)"

lemma master_run_Suc:
  "reac_master_next env m = (m', c, e, i) \<Longrightarrow>
     master_run env (Suc n) m = (fst (master_run env n m'), (c, e, emit_block m' e i) # snd (master_run env n m'))"
  by (simp add: split_beta)

declare master_run.simps(2) [simp del]

lemma master_run_add:
  "master_run env (a + b) m =
     (let (m1, s1) = master_run env a m; (m2, s2) = master_run env b m1 in (m2, s1 @ s2))"
  by (induction a arbitrary: m) (auto simp: master_run.simps(2) Let_def split: prod.splits)

lemma blocks_append [simp]:
  "grant_blocks (s @ t) = grant_blocks s @ grant_blocks t" "scene_blocks (s @ t) = scene_blocks s @ scene_blocks t"
  "grant_blocks [] = []" "scene_blocks [] = []"
  by (simp_all add: grant_blocks_def scene_blocks_def)

lemma blocks_Cons [simp]:
  "grant_blocks ((c, e, b) # s) = (if e = REAC_M_EMIT_GRANT then b # grant_blocks s else grant_blocks s)"
  "scene_blocks ((c, e, b) # s) = (if is_scene e then b # scene_blocks s else scene_blocks s)"
  by (simp_all add: grant_blocks_def scene_blocks_def)

section \<open>Common to every slot\<close>

definition tick_head :: "reac_master \<Rightarrow> reac_master" where
  "tick_head m = (let m1 = m\<lparr> ma_counter := ma_counter m + 1 \<rparr> in
     if ma_box_seen m1
     then let m' = m1\<lparr> ma_presence_tick := ma_presence_tick m1 - 1 \<rparr>
          in if ma_presence_tick m' \<le> 0 then m'\<lparr> ma_box_seen := False \<rparr> else m'
     else m1)"

lemma tick_head_shape: "\<exists>c p b. tick_head m = m\<lparr> ma_counter := c, ma_presence_tick := p, ma_box_seen := b \<rparr>"
proof -
  have "tick_head m = m\<lparr> ma_counter := ma_counter m + 1, ma_presence_tick := ma_presence_tick (tick_head m),
      ma_box_seen := ma_box_seen (tick_head m) \<rparr>"
    by (simp add: tick_head_def Let_def)
  then show ?thesis by blast
qed

lemma inv_tick_head: "master_inv m \<Longrightarrow> master_inv (tick_head m)"
  using tick_head_shape [of m] by auto

lemma next_started:
  assumes "ma_state m \<noteq> REAC_M_IDLE"
  shows "reac_master_next env m =
    (let (m3, emit, idx) =
            (case ma_state m of
               REAC_M_IDLE \<Rightarrow> control_cadence env (tick_head m)
             | REAC_M_PROBING \<Rightarrow> control_cadence env (tick_head m)
             | REAC_M_GRANTING \<Rightarrow> if \<not> reac_master_has_box m then granting_hold env (tick_head m) else granting_window env (tick_head m)
             | REAC_M_ESTABLISHED \<Rightarrow> established_turn env (tick_head m))
      in (scene_account env emit m3, ma_counter m, emit, idx))"
proof -
  obtain c p b where t: "tick_head m = m\<lparr> ma_counter := c, ma_presence_tick := p, ma_box_seen := b \<rparr>"
    using tick_head_shape [of m] by auto
  then have s: "ma_state (tick_head m) = ma_state m" "reac_master_has_box (tick_head m) = reac_master_has_box m"
    by (simp_all add: reac_master_has_box_def)
  have "start_if_idle env (m\<lparr> ma_counter := ma_counter m + 1 \<rparr>) = m\<lparr> ma_counter := ma_counter m + 1 \<rparr>"
    using assms by (simp add: start_if_idle_def)
  then show ?thesis
    unfolding reac_master_next_def s(1) [symmetric] s(2) [symmetric] by (simp only: Let_def tick_head_def)
qed

section \<open>Delivering a grant\<close>

text \<open>What the slots of one grant window leave alone, and where the window stands.\<close>

definition window_of :: "reac_master \<Rightarrow> reac_grant_alloc \<times> bytes list \<times> int \<times> int \<times> int" where
  "window_of m = (ma_alloc m, ma_grant_burst m, ma_grant_burst_len m, ma_grant_dwell m, ma_fps m)"

definition clock_of :: "reac_master \<Rightarrow> reac_master_state \<times> int \<times> int" where
  "clock_of m = (ma_state m, ma_grant_ticks m, ma_dwell_ended_tick m)"

lemmas window_defs = window_of_def clock_of_def

lemma chanmap_due_window:
  "granting_chanmap_due m = (m', i) \<Longrightarrow> window_of m' = window_of m \<and> clock_of m' = clock_of m"
  by (auto simp: granting_chanmap_due_def window_defs Let_def split: if_splits)

lemma announce_due_window:
  "announce_due m = (m', b) \<Longrightarrow> window_of m' = window_of m \<and> clock_of m' = clock_of m"
  by (auto simp: announce_due_def window_defs Let_def split: if_splits)

lemma tick_head_window: "window_of (tick_head m) = window_of m" "clock_of (tick_head m) = clock_of m"
  using tick_head_shape [of m] by (auto simp: window_defs)

lemma granting_burst_window:
  assumes "granting_burst m = (m', e, i)"
  shows "window_of m' = window_of m \<and> clock_of m' = clock_of m \<and> \<not> is_scene e"
  using assms chanmap_due_window [of m]
  by (auto simp: granting_burst_def is_scene_def Let_def split: if_splits prod.splits option.splits)

lemma granting_burst_emit:
  assumes "granting_burst m = (m', e, i)" and "ma_grant_stride m = 12"
  defines "gt \<equiv> ma_grant_ticks m - 1 - reac_master_grant_anchor m"
  shows "if gt smod 12 = 0 \<and> gt sdiv 12 < ma_grant_burst_len m then e = REAC_M_EMIT_GRANT \<and> i = gt sdiv 12
         else e \<noteq> REAC_M_EMIT_GRANT"
  using assms(1) unfolding granting_burst_def assms(2) gt_def [symmetric] Let_def
  by (auto split: if_splits prod.splits option.splits)

lemma granting_dwell_window:
  assumes "granting_dwell env m = (m', e, i)"
  shows "window_of m' = window_of m \<and> clock_of m' = clock_of m \<and> \<not> is_scene e \<and> e \<noteq> REAC_M_EMIT_GRANT"
proof (cases "ma_enroll_pending m")
  case True
  then show ?thesis using assms by (auto simp: granting_dwell_def window_defs is_scene_def split: if_splits)
next
  case False
  obtain m1 k where c: "granting_chanmap_due m = (m1, k)" by fastforce
  obtain m2 b where a: "announce_due m1 = (m2, b)" by fastforce
  show ?thesis using assms False c a chanmap_due_window [OF c] announce_due_window [OF a]
    by (auto simp: granting_dwell_def is_scene_def split: option.splits if_splits)
qed

lemma scene_account_other: "\<not> is_scene e \<Longrightarrow> scene_account env e m = m"
  by (cases e) (simp_all add: scene_account_def is_scene_def)

lemma next_window:
  assumes "ma_state m = REAC_M_GRANTING" and "reac_master_has_box m"
    and "(if ma_grant_ticks m = 0 then (tick_head m, if no_enroll env then REAC_M_EMIT_FILLER else REAC_M_EMIT_ENROLL, 0)
         else if ma_grant_ticks m \<le> ma_grant_dwell m
         then (case dwell_ends_now env (tick_head m) of (m', ended) \<Rightarrow> if ended then granting_burst m' else granting_dwell env m')
         else granting_burst (tick_head m)) = (m1, e, i)"
    and "\<not> is_scene e"
  shows "reac_master_next env m =
    (let m2 = m1\<lparr> ma_grant_ticks := ma_grant_ticks m1 + 1 \<rparr>
     in if grant_delivered m2 \<and> ma_state m2 = REAC_M_GRANTING then enter_established m2 else m2, ma_counter m, e, i)"
proof -
  have t: "ma_grant_ticks (tick_head m) = ma_grant_ticks m" "ma_grant_dwell (tick_head m) = ma_grant_dwell m"
    using tick_head_window [of m] by (simp_all add: window_defs)
  have "granting_window env (tick_head m) =
    (let m2 = m1\<lparr> ma_grant_ticks := ma_grant_ticks m1 + 1 \<rparr>
     in if grant_delivered m2 \<and> ma_state m2 = REAC_M_GRANTING then enter_established m2 else m2, e, i)"
    unfolding granting_window_def delivered_edge assms(3) [folded t] by (simp add: Let_def)
  then show ?thesis
    using assms(1,2) scene_account_other [OF assms(4)] by (subst next_started) (simp_all add: Let_def)
qed

text \<open>A slot of the burst, at its place \<open>gt\<close> on the burst's own timeline.\<close>

lemma burst_slot_step:
  assumes "master_inv m" and "ma_state m = REAC_M_GRANTING" and "reac_master_has_box m"
    and "0 < ma_dwell_ended_tick m \<or> ma_grant_dwell m < ma_grant_ticks m" and "ma_grant_ticks m > 0"
    and "gt = ma_grant_ticks m - 1 - reac_master_grant_anchor m" and "0 \<le> gt"
  obtains m' e i where "reac_master_next env m = (m', ma_counter m, e, i)" and "window_of m' = window_of m"
    and "clock_of m' = (if gt + 1 \<ge> ma_grant_burst_len m * 12 then REAC_M_ESTABLISHED else REAC_M_GRANTING,
           ma_grant_ticks m + 1, ma_dwell_ended_tick m)"
    and "if gt mod 12 = 0 \<and> gt div 12 < ma_grant_burst_len m
         then e = REAC_M_EMIT_GRANT \<and> emit_block m' e i = ma_grant_burst m ! nat (gt div 12) else e \<noteq> REAC_M_EMIT_GRANT"
proof -
  let ?t = "tick_head m"
  have s: "ma_grant_stride ?t = 12" using inv_tick_head [OF assms(1)] by (rule inv_facts)
  have d: "dwell_ends_now env ?t = (?t, True)" if "0 < ma_dwell_ended_tick m"
    using that tick_head_window [of m] by (simp add: dwell_ends_now_def window_defs)
  obtain m1 e i where b: "granting_burst ?t = (m1, e, i)" by (cases "granting_burst ?t")
  note bw = granting_burst_window [OF b]
  have w: "window_of m1 = window_of m" "clock_of m1 = clock_of m"
    using bw tick_head_window [of m] by simp_all
  have g: "gt = ma_grant_ticks ?t - 1 - reac_master_grant_anchor ?t" "ma_grant_burst_len ?t = ma_grant_burst_len m"
    using assms(6) tick_head_window [of m] by (simp_all add: window_defs reac_master_grant_anchor_def)
  have ge: "if gt mod 12 = 0 \<and> gt div 12 < ma_grant_burst_len m then e = REAC_M_EMIT_GRANT \<and> i = gt div 12 else e \<noteq> REAC_M_EMIT_GRANT"
    using granting_burst_emit [OF b s] g assms(7) by (simp add: sdiv_nonneg smod_nonneg)
  define m2 where "m2 = m1\<lparr> ma_grant_ticks := ma_grant_ticks m1 + 1 \<rparr>"
  have st: "ma_grant_stride m1 = 12"
    using b s by (auto simp: granting_burst_def granting_chanmap_due_def Let_def split: if_splits)
  have n: "reac_master_next env m =
      (if grant_delivered m2 \<and> ma_state m2 = REAC_M_GRANTING then enter_established m2 else m2, ma_counter m, e, i)"
    using next_window [OF assms(2,3), of env m1 e i] bw b d assms(4,5) by (auto simp: m2_def Let_def)
  have dl: "grant_delivered m2 \<longleftrightarrow> gt + 1 \<ge> ma_grant_burst_len m * 12" "ma_state m2 = REAC_M_GRANTING"
    using w st assms(2,3,6) by (auto simp: m2_def grant_delivered_def reac_master_has_box_def reac_master_grant_anchor_def window_defs)
  let ?r = "if grant_delivered m2 then enter_established m2 else m2"
  have r: "window_of ?r = window_of m" "clock_of ?r = (if gt + 1 \<ge> ma_grant_burst_len m * 12 then REAC_M_ESTABLISHED else REAC_M_GRANTING,
           ma_grant_ticks m + 1, ma_dwell_ended_tick m)"
    using w dl by (auto simp: m2_def window_defs enter_established_def reset_control_cadence_def Let_def)
  show thesis
  proof (rule that)
    show "reac_master_next env m = (?r, ma_counter m, e, i)" using n dl(2) by simp
  qed (use r ge in \<open>auto simp: window_defs split: if_splits\<close>)
qed

lemma has_box_window: "window_of m' = window_of m \<Longrightarrow> reac_master_has_box m' = reac_master_has_box m"
  by (simp add: window_defs reac_master_has_box_def)

lemma upt_grid:
  fixes gt len :: int
  assumes "0 \<le> gt" and "gt < len * 12"
  shows "[nat ((gt + 11) div 12)..<nat len] =
    (if gt mod 12 = 0 then [nat (gt div 12)] else []) @ [nat ((gt + 12) div 12)..<nat len]"
proof (cases "gt mod 12 = 0")
  case True
  then obtain k where k: "gt = 12 * k" by (metis mod_0_imp_dvd dvdE)
  have "(12 * k + 11) div 12 = k" "(12 * k + 12) div 12 = k + 1" by linarith+
  moreover have "nat k < nat len" "0 \<le> k" using assms k by linarith+
  ultimately show ?thesis using True k by (simp add: upt_conv_Cons nat_add_distrib)
next
  case False
  then obtain q r where r: "gt = 12 * q + r" "0 < r" "r < 12"
    using pos_mod_sign [of 12 gt] pos_mod_bound [of 12 gt] div_mult_mod_eq [of gt 12]
    by (metis less_eq_int_code(1) mult.commute order_le_less zero_less_numeral)
  have "(12 * q + (r + 11)) div 12 = q + 1" using r(2,3) by linarith
  moreover have "(12 * q + (r + 12)) div 12 = q + 1" using r(2,3) by linarith
  ultimately have "(gt + 11) div 12 = (gt + 12) div 12" using r(1) by (simp add: algebra_simps)
  then show ?thesis using False by simp
qed

lemma burst_run:
  assumes "env_ok env" and "master_inv m" and "ma_state m = REAC_M_GRANTING" and "reac_master_has_box m"
    and "0 < ma_dwell_ended_tick m \<or> ma_grant_dwell m < ma_grant_ticks m" and "ma_grant_ticks m > 0"
    and "gt = ma_grant_ticks m - 1 - reac_master_grant_anchor m" and "0 \<le> gt" and "int n = ma_grant_burst_len m * 12 - gt" and "0 < n"
  shows "ma_state (fst (master_run env n m)) = REAC_M_ESTABLISHED
    \<and> window_of (fst (master_run env n m)) = window_of m
    \<and> grant_blocks (snd (master_run env n m)) = map ((!) (ma_grant_burst m)) [nat ((gt + 11) div 12)..<nat (ma_grant_burst_len m)]
    \<and> (\<forall>k < n. ma_state (fst (master_run env k m)) = REAC_M_GRANTING)"
  using assms(2-10)
proof (induction n arbitrary: m gt)
  case (Suc n)
  let ?len = "ma_grant_burst_len m"
  obtain m' e i where st: "reac_master_next env m = (m', ma_counter m, e, i)" "window_of m' = window_of m"
    "clock_of m' = (if gt + 1 \<ge> ?len * 12 then REAC_M_ESTABLISHED else REAC_M_GRANTING,
           ma_grant_ticks m + 1, ma_dwell_ended_tick m)"
    "if gt mod 12 = 0 \<and> gt div 12 < ?len
         then e = REAC_M_EMIT_GRANT \<and> emit_block m' e i = ma_grant_burst m ! nat (gt div 12) else e \<noteq> REAC_M_EMIT_GRANT"
    by (rule burst_slot_step [OF Suc.prems(1-5) Suc.prems(6,7), of env])
  have len: "gt < ?len * 12" using Suc.prems(8) by simp
  then have gd: "gt div 12 < ?len" by linarith
  have w: "ma_grant_burst_len m' = ?len" "ma_grant_burst m' = ma_grant_burst m" "ma_grant_dwell m' = ma_grant_dwell m"
    "ma_grant_ticks m' = ma_grant_ticks m + 1" "ma_dwell_ended_tick m' = ma_dwell_ended_tick m"
    using st(2,3) by (simp_all add: window_defs)
  have head: "grant_blocks [(ma_counter m, e, emit_block m' e i)] =
      map ((!) (ma_grant_burst m)) (if gt mod 12 = 0 then [nat (gt div 12)] else [])"
    using st(4) gd by (auto split: if_splits)
  show ?case
  proof (cases "n = 0")
    case True
    then have "gt = ?len * 12 - 1" using Suc.prems(8) by simp
    then show ?thesis using True st(1-3) head upt_grid [OF Suc.prems(7) len] Suc.prems(2)
      by (simp add: window_defs master_run_Suc)
  next
    case False
    have s: "ma_state m' = REAC_M_GRANTING" using st(3) Suc.prems(8) False by (auto simp: window_defs)
    have ih: "ma_state (fst (master_run env n m')) = REAC_M_ESTABLISHED
      \<and> window_of (fst (master_run env n m')) = window_of m'
      \<and> grant_blocks (snd (master_run env n m')) = map ((!) (ma_grant_burst m')) [nat ((gt + 1 + 11) div 12)..<nat ?len]
      \<and> (\<forall>k < n. ma_state (fst (master_run env k m')) = REAC_M_GRANTING)"
      unfolding w(1) [symmetric]
    proof (rule Suc.IH)
      show "master_inv m'" using next_ok(1) [OF assms(1) Suc.prems(1) st(1)] .
      show "reac_master_has_box m'" using has_box_window [OF st(2)] Suc.prems(3) by simp
      show "gt + 1 = ma_grant_ticks m' - 1 - reac_master_grant_anchor m'"
        using Suc.prems(6) w by (simp add: reac_master_grant_anchor_def)
    qed (use s w Suc.prems False in auto)
    have "gt + 1 + 11 = gt + 12" by simp
    moreover have "ma_state (fst (master_run env k m)) = REAC_M_GRANTING" if "k < Suc n" for k
      using that ih Suc.prems(2) by (cases k) (auto simp: master_run_Suc [OF st(1)])
    ultimately show ?thesis
      using ih st(2) head w(2) upt_grid [OF Suc.prems(7) len]
      by (simp add: master_run_Suc [OF st(1)] split: if_splits)
  qed
qed simp

lemma burst_inv_pos: "burst_inv a burst n \<Longrightarrow> ga_width a \<noteq> 0 \<Longrightarrow> 0 < n"
  by (simp add: burst_inv_def add_pos_nonneg)

lemma burst_len_pos: "master_inv m \<Longrightarrow> reac_master_has_box m \<Longrightarrow> 0 < ma_grant_burst_len m"
  using burst_inv_pos [of "ma_alloc m" "ma_grant_burst m" "ma_grant_burst_len m"]
  by (simp add: master_inv_def reac_master_has_box_def word_gt_0)

lemma dwell_ends_window:
  assumes "dwell_ends_now env m = (m', b)"
  shows "window_of m' = window_of m" and "ma_state m' = ma_state m" and "ma_grant_ticks m' = ma_grant_ticks m"
    and "ma_grant_stride m' = ma_grant_stride m"
    and "ma_dwell_ended_tick m = 0 \<Longrightarrow> ma_dwell_ended_tick m' = (if b then ma_grant_ticks m else 0)"
  using assms by (auto simp: dwell_ends_now_def window_defs split: if_splits)

text \<open>A slot before the burst: no grant row, and the dwell may end here.\<close>

lemma dwell_slot_step:
  assumes "master_inv m" and "ma_state m = REAC_M_GRANTING" and "reac_master_has_box m"
    and "ma_dwell_ended_tick m = 0" and "ma_grant_ticks m \<le> ma_grant_dwell m"
  obtains m' e i where "reac_master_next env m = (m', ma_counter m, e, i)" and "window_of m' = window_of m"
    and "ma_state m' = REAC_M_GRANTING" and "ma_grant_ticks m' = ma_grant_ticks m + 1"
    and "ma_dwell_ended_tick m' = 0 \<or> ma_dwell_ended_tick m' = ma_grant_ticks m \<and> 0 < ma_grant_ticks m"
    and "e \<noteq> REAC_M_EMIT_GRANT"
proof -
  let ?t = "tick_head m"
  note tw = tick_head_window [of m]
  have s: "ma_grant_stride ?t = 12" using inv_tick_head [OF assms(1)] by (rule inv_facts)
  obtain m0 b where d: "dwell_ends_now env ?t = (m0, b)" by fastforce
  note dw = dwell_ends_window [OF d]
  have d0: "ma_dwell_ended_tick m0 = (if b then ma_grant_ticks m else 0)" "ma_grant_ticks m0 = ma_grant_ticks m"
    "ma_state m0 = REAC_M_GRANTING" "window_of m0 = window_of m"
    using dw tw assms(2,4) by (simp_all add: window_defs)
  obtain m1 e i where q: "(if ma_grant_ticks m = 0 then (?t, if no_enroll env then REAC_M_EMIT_FILLER else REAC_M_EMIT_ENROLL, 0)
         else if ma_grant_ticks m \<le> ma_grant_dwell m
         then (case dwell_ends_now env ?t of (m', ended) \<Rightarrow> if ended then granting_burst m' else granting_dwell env m')
         else granting_burst ?t) = (m1, e, i)" by (rule prod_cases3)
  have nn: "0 \<le> ma_grant_ticks m" using assms(1) by (simp add: master_inv_def)
  have m1: "window_of m1 = window_of m \<and> ma_state m1 = REAC_M_GRANTING \<and> ma_grant_ticks m1 = ma_grant_ticks m
      \<and> (ma_dwell_ended_tick m1 = 0 \<or> ma_dwell_ended_tick m1 = ma_grant_ticks m \<and> 0 < ma_grant_ticks m)
      \<and> e \<noteq> REAC_M_EMIT_GRANT \<and> \<not> is_scene e \<and> ma_grant_stride m1 = 12"
  proof (cases "ma_grant_ticks m = 0")
    case True
    then show ?thesis using q tw s assms(2,4) by (auto simp: window_defs is_scene_def split: if_splits)
  next
    case False
    have st: "ma_grant_stride m0 = 12" using dw(4) s by simp
    show ?thesis
    proof (cases b)
      case True
      then have g: "granting_burst m0 = (m1, e, i)" using q False d assms(5) by simp
      have a: "ma_grant_ticks m0 - 1 - reac_master_grant_anchor m0 = - 1"
        using True False d0 nn by (simp add: reac_master_grant_anchor_def)
      have "e \<noteq> REAC_M_EMIT_GRANT"
        using granting_burst_emit [OF g st] unfolding a by (simp add: signed_modulo_int_def)
      moreover have "ma_grant_stride m1 = 12"
        using g st by (auto simp: granting_burst_def granting_chanmap_due_def Let_def split: if_splits)
      ultimately show ?thesis using granting_burst_window [OF g] d0 True False nn by (auto simp: window_defs)
    next
      case nb: False
      then have g: "granting_dwell env m0 = (m1, e, i)" using q False d assms(5) by simp
      have "ma_grant_stride m1 = 12"
        using g st by (auto simp: granting_dwell_def granting_chanmap_due_def announce_due_def Let_def split: if_splits)
      then show ?thesis using granting_dwell_window [OF g] d0 nb by (auto simp: window_defs)
    qed
  qed
  define m2 where "m2 = m1\<lparr> ma_grant_ticks := ma_grant_ticks m1 + 1 \<rparr>"
  have "ma_grant_ticks m2 < reac_master_grant_anchor m2 + ma_grant_burst_len m2 * ma_grant_stride m2 + 1"
    using m1 burst_len_pos [OF assms(1,3)] assms(5) by (auto simp: m2_def reac_master_grant_anchor_def window_defs)
  then have "\<not> grant_delivered m2" by (simp add: grant_delivered_def)
  then have "reac_master_next env m = (m2, ma_counter m, e, i)"
    using next_window [OF assms(2,3) q] m1 by (simp add: m2_def Let_def)
  then show thesis by (rule that) (use m1 in \<open>auto simp: m2_def window_defs\<close>)
qed

lemma grant_run:
  assumes "env_ok env" and "master_inv m" and "ma_state m = REAC_M_GRANTING" and "reac_master_has_box m"
    and "ma_dwell_ended_tick m = 0" and "ma_grant_ticks m \<le> ma_grant_dwell m + 1"
  shows "\<exists>n. int n \<le> ma_grant_dwell m + 1 - ma_grant_ticks m + ma_grant_burst_len m * 12
    \<and> ma_grant_burst_len m * 12 \<le> int n
    \<and> ma_state (fst (master_run env n m)) = REAC_M_ESTABLISHED
    \<and> window_of (fst (master_run env n m)) = window_of m
    \<and> grant_blocks (snd (master_run env n m)) = take (nat (ma_grant_burst_len m)) (ma_grant_burst m)
    \<and> (\<forall>k < n. ma_state (fst (master_run env k m)) = REAC_M_GRANTING)"
  using assms(2-6)
proof (induction "nat (ma_grant_dwell m + 1 - ma_grant_ticks m)" arbitrary: m rule: less_induct)
  case less
  let ?len = "ma_grant_burst_len m"
  have pos: "0 < ma_grant_dwell m" "0 < ?len" "?len \<le> 128" "length (ma_grant_burst m) = 128"
    using less.prems(1) burst_len_pos [OF less.prems(1,3)] inv_facts(5)
    by (auto simp: master_inv_def burst_inv_def split: if_splits)
  have rows: "map ((!) (ma_grant_burst m)) [0..<nat ?len] = take (nat ?len) (ma_grant_burst m)"
    using pos by (intro nth_equalityI) simp_all
  show ?case
  proof (cases "ma_grant_ticks m \<le> ma_grant_dwell m")
    case False
    then have t: "ma_grant_ticks m = ma_grant_dwell m + 1" using less.prems(5) by simp
    have a: "reac_master_grant_anchor m = ma_grant_dwell m" using less.prems(4) by (simp add: reac_master_grant_anchor_def)
    from burst_run [OF assms(1) less.prems(1-3), of 0 "nat (?len * 12)"] t a pos rows
    show ?thesis by (intro exI [of _ "nat (?len * 12)"]) auto
  next
    case True
    obtain m' e i where st: "reac_master_next env m = (m', ma_counter m, e, i)" "window_of m' = window_of m"
      "ma_state m' = REAC_M_GRANTING" "ma_grant_ticks m' = ma_grant_ticks m + 1"
      "ma_dwell_ended_tick m' = 0 \<or> ma_dwell_ended_tick m' = ma_grant_ticks m \<and> 0 < ma_grant_ticks m"
      "e \<noteq> REAC_M_EMIT_GRANT" by (rule dwell_slot_step [OF less.prems(1-4) True, of env])
    have w: "ma_grant_burst_len m' = ?len" "ma_grant_burst m' = ma_grant_burst m" "ma_grant_dwell m' = ma_grant_dwell m"
      using st(2) by (simp_all add: window_defs)
    have i': "master_inv m'" "reac_master_has_box m'"
      using next_ok(1) [OF assms(1) less.prems(1) st(1)] has_box_window [OF st(2)] less.prems(3) by simp_all
    have "\<exists>n. int n \<le> ma_grant_dwell m - ma_grant_ticks m + ?len * 12 \<and> ?len * 12 \<le> int n
      \<and> ma_state (fst (master_run env n m')) = REAC_M_ESTABLISHED
      \<and> window_of (fst (master_run env n m')) = window_of m
      \<and> grant_blocks (snd (master_run env n m')) = take (nat ?len) (ma_grant_burst m)
      \<and> (\<forall>k < n. ma_state (fst (master_run env k m')) = REAC_M_GRANTING)"
    proof (cases "ma_dwell_ended_tick m' = 0")
      case d: True
      have "nat (ma_grant_dwell m' + 1 - ma_grant_ticks m') < nat (ma_grant_dwell m + 1 - ma_grant_ticks m)"
        using True w st(4) by simp
      from less.hyps [OF this i'(1) st(3) i'(2) d] True w st(2,4) show ?thesis by simp
    next
      case d: False
      then have a: "ma_dwell_ended_tick m' = ma_grant_ticks m" "0 < ma_grant_ticks m" using st(5) by auto
      from burst_run [OF assms(1) i'(1) st(3) i'(2), of 0 "nat (?len * 12)"] a st(2,4) w pos rows True
      show ?thesis by (intro exI [of _ "nat (?len * 12)"]) (auto simp: reac_master_grant_anchor_def)
    qed
    then obtain n where n: "int n \<le> ma_grant_dwell m - ma_grant_ticks m + ?len * 12" "?len * 12 \<le> int n"
      "ma_state (fst (master_run env n m')) = REAC_M_ESTABLISHED" "window_of (fst (master_run env n m')) = window_of m"
      "grant_blocks (snd (master_run env n m')) = take (nat ?len) (ma_grant_burst m)"
      "\<forall>k < n. ma_state (fst (master_run env k m')) = REAC_M_GRANTING" by blast
    have "ma_state (fst (master_run env k m)) = REAC_M_GRANTING" if "k < Suc n" for k
      using that n(6) less.prems(2) by (cases k) (auto simp: master_run_Suc [OF st(1)])
    then show ?thesis
      using n st(6) by (intro exI [of _ "Suc n"]) (simp add: master_run_Suc [OF st(1)])
  qed
qed

lemma rebuild_success:
  assumes "env_ok env" and "reac_grant_allocate base in_ch = Some a"
  shows "\<exists>rows. rows \<noteq> [] \<and> rebuild_grant_sweep env m base in_ch =
    (m\<lparr> ma_grant_burst := poke 0 rows (ma_grant_burst m), ma_alloc := a, ma_grant_burst_len := int (length rows) \<rparr>, 0)"
proof -
  let ?tx = "map_option (en_headamp env) (ma_headamp_src m)"
  have "headamp_inv t" if "?tx = Some t" for t using assms(1) that by (auto simp: env_ok_def)
  from grant_rows [OF assms(2) this] obtain rows where "reac_grant_build_sweep 128 a ?tx = Some rows"
    "int (length rows) = 8 + in_ch * 3" by auto
  moreover have "0 < in_ch" using grant_allocate_fields [OF assms(2)] by simp
  ultimately have "reac_grant_build_sweep 128 a ?tx = Some rows" "rows \<noteq> []" by auto
  then show ?thesis using assms(2) by (intro exI [of _ rows]) (simp add: rebuild_grant_sweep_def)
qed

lemma allocate_width: "reac_grant_allocate base in_ch = Some a \<Longrightarrow> ga_width a \<noteq> 0"
  using grant_allocate_fields(2,3) [of base in_ch a] by auto

lemma set_box_has_box:
  assumes "env_ok env" and "reac_grant_allocate base in_ch = Some a"
  shows "reac_master_has_box (reac_master_set_box env m in_ch out_ch base)"
    and "ma_alloc (reac_master_set_box env m in_ch out_ch base) = a"
proof -
  show a: "ma_alloc (reac_master_set_box env m in_ch out_ch base) = a"
    using rebuild_success [OF assms, of m] by (auto simp: reac_master_set_box_def Let_def)
  then show "reac_master_has_box (reac_master_set_box env m in_ch out_ch base)"
    using allocate_width [OF assms(2)] by (simp add: reac_master_has_box_def word_gt_0)
qed

text \<open>A box whose allocation is known can be granted again: its slots are the same.\<close>

lemma realloc:
  assumes "master_inv m" and "reac_master_has_box m"
  shows "reac_grant_allocate (uint (ga_base (ma_alloc m))) (uint (ga_width (ma_alloc m))) = Some (ma_alloc m)"
proof -
  let ?a = "ma_alloc m"
  have "uint (ga_width ?a) \<noteq> 0" using assms(2) by (simp add: reac_master_has_box_def word_gt_0 uint_0_iff)
  then have "0 < uint (ga_width ?a)" using uint_ge_0 [of "ga_width ?a"] by linarith
  moreover have "uint (ga_width ?a) \<le> 40" "uint (ga_base ?a) + uint (ga_width ?a) \<le> 48"
    using assms by (auto simp: master_inv_def burst_inv_def reac_master_has_box_def split: if_splits)
  ultimately show ?thesis by (simp add: reac_grant_allocate_def reac_grant_alloc_fits_def)
qed

lemma enter_granting_window:
  fixes src :: mac and blk :: "bytes option"
  assumes "env_ok env" and "master_inv m" and "reac_master_has_box m"
  defines "g \<equiv> enter_granting env m src blk"
  shows "ma_state g = REAC_M_GRANTING" "reac_master_has_box g" "ma_dwell_ended_tick g = 0" "ma_grant_ticks g = 0"
    "ma_alloc g = ma_alloc m" "ma_grant_dwell g = ma_grant_dwell m" "ma_box_mac g = src" "ma_fps g = ma_fps m"
proof -
  define m1 where "m1 = m\<lparr> ma_state := REAC_M_GRANTING, ma_grant_ticks := 0, ma_enroll_sent_tick := 0, ma_dwell_ended_tick := 0,
               ma_grant_attempts := ma_grant_attempts m + 1, ma_box_mac := src,
               ma_join_blk := (case blk of Some b \<Rightarrow> b | None \<Rightarrow> ma_join_blk m) \<rparr>"
  have a: "ma_alloc m1 = ma_alloc m" by (simp add: m1_def)
  obtain rows where r: "rebuild_grant_sweep env m1 (uint (ga_base (ma_alloc m))) (uint (ga_width (ma_alloc m))) =
    (m1\<lparr> ma_grant_burst := poke 0 rows (ma_grant_burst m1), ma_alloc := ma_alloc m, ma_grant_burst_len := int (length rows) \<rparr>, 0)"
    using rebuild_success [OF assms(1) realloc [OF assms(2,3)], of m1] by auto
  have e: "g = (let m2 = fst (rebuild_grant_sweep env m1 (uint (ga_base (ma_alloc m1))) (uint (ga_width (ma_alloc m1))));
          m3 = (if reac_master_has_box m2 then m2\<lparr> ma_cfg := (ma_cfg m2)\<lparr> cc_out_channels := ga_width (ma_alloc m2) \<rparr> \<rparr> else m2)
      in m3\<lparr> ma_announce_blk := gen_cfea (ma_src m3) (ma_cfg m3) 0 \<rparr>)"
    unfolding g_def enter_granting_def m1_def Let_def ..
  show "ma_state g = REAC_M_GRANTING" "reac_master_has_box g" "ma_dwell_ended_tick g = 0" "ma_grant_ticks g = 0"
    "ma_alloc g = ma_alloc m" "ma_grant_dwell g = ma_grant_dwell m" "ma_box_mac g = src" "ma_fps g = ma_fps m"
    unfolding e a r Let_def using assms(3) by (simp_all add: m1_def reac_master_has_box_def)
qed

text \<open>C4: a grant is delivered whole, and only then is the link established. When a master that knows
  its box's width enters a grant and hears nothing, it stays granting for at most its dwell and one
  sweep, sends on its way head-amp rows that set all three parameters of every channel allocated to
  the box, in order and each once, and is established at the end with the allocation unchanged.\<close>

theorem grant_delivered_whole:
  assumes "env_ok env" and "master_inv m" and "reac_master_has_box m"
  shows "\<exists>n. int n \<le> ma_grant_dwell m + 1 + (8 + 3 * uint (ga_width (ma_alloc m))) * 12
    \<and> (\<forall>k < n. ma_state (fst (master_run env k (enter_granting env m src blk))) = REAC_M_GRANTING)
    \<and> ma_state (fst (master_run env n (enter_granting env m src blk))) = REAC_M_ESTABLISHED
    \<and> ma_alloc (fst (master_run env n (enter_granting env m src blk))) = ma_alloc m
    \<and> map (\<lambda>(c, p, v). (c, p)) (concat (map row_cells (grant_blocks (snd (master_run env n (enter_granting env m src blk)))))) =
        concat (map (\<lambda>c. map (\<lambda>p. (ga_base (ma_alloc m) + of_nat c, of_nat p)) [0..<3]) [0..<unat (ga_width (ma_alloc m))])"
proof -
  let ?g = "enter_granting env m src blk"
  note w = enter_granting_window [OF assms, where src = src and blk = blk]
  have i: "master_inv ?g" by (rule inv_enter_granting [OF assms(1,2)])
  have b: "ma_grant_burst_len ?g = 8 + 3 * uint (ga_width (ma_alloc m))"
    "enrols (ma_alloc m) (take (nat (ma_grant_burst_len ?g)) (ma_grant_burst ?g))" "0 < ma_grant_dwell m"
    using i w assms(3) by (auto simp: master_inv_def burst_inv_def reac_master_has_box_def split: if_splits)
  from grant_run [OF assms(1) i w(1-3)] w(4,6) b(3) obtain n where
    "int n \<le> ma_grant_dwell m + 1 + ma_grant_burst_len ?g * 12"
    "ma_state (fst (master_run env n ?g)) = REAC_M_ESTABLISHED" "window_of (fst (master_run env n ?g)) = window_of ?g"
    "grant_blocks (snd (master_run env n ?g)) = take (nat (ma_grant_burst_len ?g)) (ma_grant_burst ?g)"
    "\<forall>k < n. ma_state (fst (master_run env k ?g)) = REAC_M_GRANTING" by auto
  then show ?thesis using b w(5) by (intro exI [of _ n]) (simp add: enrols_def window_defs)
qed

theorem grant_delivered_whole_witness:
  "\<exists>n. ma_state (fst (master_run plain_env n (enter_granting plain_env
      (reac_master_set_box plain_env
        (reac_master_init REAC_MASTER_TUNABLES_DEFAULT (replicate 8904 0) [0, 0x40, 0xab, 1, 2, 3] None 8000) 16 8 0)
      [0, 0x40, 0xab, 9, 9, 9] None))) = REAC_M_ESTABLISHED"
proof -
  let ?m = "reac_master_set_box plain_env
        (reac_master_init REAC_MASTER_TUNABLES_DEFAULT (replicate 8904 0) [0, 0x40, 0xab, 1, 2, 3] None 8000) 16 8 0"
  have "master_inv ?m" by (intro inv_set_box inv_init plain_env_ok) simp_all
  moreover have "reac_grant_allocate 0 16 = Some \<lparr> ga_base = 0, ga_width = 16 \<rparr>"
    by (simp add: reac_grant_allocate_def reac_grant_alloc_fits_def)
  then have "reac_master_has_box ?m" by (rule set_box_has_box [OF plain_env_ok])
  ultimately show ?thesis
    using grant_delivered_whole [OF plain_env_ok, of ?m "[0, 0x40, 0xab, 9, 9, 9]" None] by blast
qed

section \<open>Losing a box\<close>

lemma established_cadence_frame:
  assumes "established_cadence env m pos = (m', e, i)" and "\<not> est_scene_stream env"
  shows "ma_state m' = ma_state m \<and> ma_link_check m' = ma_link_check m \<and> \<not> is_scene e"
  using assms
  by (auto simp: established_cadence_def identity_poll_turn_def is_scene_def Let_def split: if_splits)

lemma established_step:
  assumes "ma_state m = REAC_M_ESTABLISHED" and "\<not> est_scene_stream env"
  obtains m' c e i where "reac_master_next env m = (m', c, e, i)"
    and "1 < ma_link_check m \<Longrightarrow> ma_state m' = REAC_M_ESTABLISHED \<and> ma_link_check m' = ma_link_check m - 1"
    and "ma_link_check m \<le> 1 \<Longrightarrow> ma_state m' = REAC_M_PROBING \<and> \<not> reac_master_has_box m'
      \<and> ma_drop_reason m' = REAC_M_DROP_PEER_GONE"
proof -
  obtain c p b where t: "tick_head m = m\<lparr> ma_counter := c, ma_presence_tick := p, ma_box_seen := b \<rparr>"
    using tick_head_shape [of m] by auto
  have ts: "ma_state (tick_head m) = REAC_M_ESTABLISHED" "ma_link_check (tick_head m) = ma_link_check m"
    using t assms(1) by simp_all
  obtain m1 e i where cc: "control_cadence env (tick_head m) = (m1, e, i)" by (cases "control_cadence env (tick_head m)")
  have m1: "ma_state m1 = REAC_M_ESTABLISHED \<and> ma_link_check m1 = ma_link_check m \<and> \<not> is_scene e"
    using cc established_cadence_frame [OF _ assms(2)] ts unfolding control_cadence_def Let_def by fastforce
  define m2 where "m2 = m1\<lparr> ma_link_check := ma_link_check m1 - 1 \<rparr>"
  define m3 where "m3 = (if ma_link_check m2 \<le> 0 then enter_probing (m2\<lparr> ma_drop_reason := REAC_M_DROP_PEER_GONE \<rparr>) else m2)"
  have s2: "ma_state m2 = REAC_M_ESTABLISHED" using m1 by (simp add: m2_def)
  have "established_turn env (tick_head m) = (m3, e, i)"
    unfolding established_turn_def cc Let_def prod.case m2_def [symmetric] lost_edge
    using s2 by (simp add: m3_def)
  then have n: "reac_master_next env m = (m3, ma_counter m, e, i)"
    using assms(1) m1 by (simp add: next_started scene_account_other)
  show thesis
  proof (rule that [OF n])
    show "1 < ma_link_check m \<Longrightarrow> ma_state m3 = REAC_M_ESTABLISHED \<and> ma_link_check m3 = ma_link_check m - 1"
      using m1 s2 by (simp add: m3_def m2_def)
    show "ma_link_check m \<le> 1 \<Longrightarrow> ma_state m3 = REAC_M_PROBING \<and> \<not> reac_master_has_box m3 \<and> ma_drop_reason m3 = REAC_M_DROP_PEER_GONE"
      using m1 by (simp add: m3_def m2_def enter_probing_def reac_master_forget_box_def reset_control_cadence_def
          reac_master_has_box_def Let_def)
  qed
qed

lemma established_run:
  assumes "ma_state m = REAC_M_ESTABLISHED" and "\<not> est_scene_stream env" and "int (Suc n) = ma_link_check m"
  shows "ma_state (fst (master_run env (Suc n) m)) = REAC_M_PROBING \<and> \<not> reac_master_has_box (fst (master_run env (Suc n) m))
    \<and> ma_drop_reason (fst (master_run env (Suc n) m)) = REAC_M_DROP_PEER_GONE
    \<and> (\<forall>k \<le> n. ma_state (fst (master_run env k m)) = REAC_M_ESTABLISHED)"
  using assms(1,3)
proof (induction n arbitrary: m)
  case 0
  obtain m' c e i where "reac_master_next env m = (m', c, e, i)"
    "ma_link_check m \<le> 1 \<Longrightarrow> ma_state m' = REAC_M_PROBING \<and> \<not> reac_master_has_box m' \<and> ma_drop_reason m' = REAC_M_DROP_PEER_GONE"
    by (rule established_step [OF 0(1) assms(2)]) blast
  then show ?case using 0 by (simp add: master_run_Suc)
next
  case (Suc n)
  obtain m' c e i where st: "reac_master_next env m = (m', c, e, i)"
    "1 < ma_link_check m \<Longrightarrow> ma_state m' = REAC_M_ESTABLISHED \<and> ma_link_check m' = ma_link_check m - 1"
    by (rule established_step [OF Suc.prems(1) assms(2)]) blast
  have m': "ma_state m' = REAC_M_ESTABLISHED" "int (Suc n) = ma_link_check m'" using st(2) Suc.prems(2) by auto
  have "ma_state (fst (master_run env k m)) = REAC_M_ESTABLISHED" if "k \<le> Suc n" for k
    using that Suc.IH [OF m'] Suc.prems(1) by (cases k) (auto simp: master_run_Suc [OF st(1)])
  then show ?case using Suc.IH [OF m'] by (simp add: master_run_Suc [OF st(1)])
qed

lemma rx_foreign:
  assumes "ma_state m = REAC_M_ESTABLISHED" and "ma_box_mac m \<noteq> replicate 6 0" and "src \<noteq> ma_box_mac m"
  shows "reac_master_rx env m ev src blk = (m, False)"
  using assms by (simp add: reac_master_rx_def reac_master_peer_accepts_def)

lemma rx_own:
  assumes "ma_state m = REAC_M_ESTABLISHED" and "ev \<noteq> REAC_M_RX_BOX_BYE"
  shows "ma_state (fst (reac_master_rx env m ev (ma_box_mac m) blk)) = REAC_M_ESTABLISHED
    \<and> ma_link_check (fst (reac_master_rx env m ev (ma_box_mac m) blk)) = ma_link_check_reload m"
  using assms
  by (cases ev) (simp_all add: reac_master_rx_def reac_master_peer_accepts_def start_if_idle_def Let_def apply_edge_def edge_defs)

text \<open>C31: how an established link ends, when the tunable that streams the scene on it is off (its default). If its box falls silent, the link survives every slot but the
  last of its budget and is then dropped with reason peer-gone, the box and its slots forgotten; any
  frame of the box but a goodbye reloads the budget in full, and a frame of any other sender changes
  nothing at all.\<close>

theorem established_link_ends:
  assumes "ma_state m = REAC_M_ESTABLISHED" and "0 < ma_link_check m" and "\<not> est_scene_stream env"
  shows "(\<forall>k < nat (ma_link_check m). ma_state (fst (master_run env k m)) = REAC_M_ESTABLISHED)
    \<and> ma_state (fst (master_run env (nat (ma_link_check m)) m)) = REAC_M_PROBING
    \<and> \<not> reac_master_has_box (fst (master_run env (nat (ma_link_check m)) m))
    \<and> ma_drop_reason (fst (master_run env (nat (ma_link_check m)) m)) = REAC_M_DROP_PEER_GONE
    \<and> (\<forall>ev blk. ev \<noteq> REAC_M_RX_BOX_BYE \<longrightarrow>
        ma_state (fst (reac_master_rx env m ev (ma_box_mac m) blk)) = REAC_M_ESTABLISHED
        \<and> ma_link_check (fst (reac_master_rx env m ev (ma_box_mac m) blk)) = ma_link_check_reload m)
    \<and> (\<forall>ev src blk. ma_box_mac m \<noteq> replicate 6 0 \<longrightarrow> src \<noteq> ma_box_mac m \<longrightarrow> reac_master_rx env m ev src blk = (m, False))"
proof -
  obtain n where n: "nat (ma_link_check m) = Suc n" "int (Suc n) = ma_link_check m"
    using assms(2) by (cases "nat (ma_link_check m)") auto
  show ?thesis
    using established_run [OF assms(1,3) n(2)] rx_foreign [OF assms(1)] rx_own [OF assms(1)] unfolding n(1)
    by (auto simp: less_Suc_eq_le)
qed

theorem established_link_ends_witness:
  "let m = enter_established (reac_master_init REAC_MASTER_TUNABLES_DEFAULT (replicate 8904 0) [0, 0x40, 0xab, 1, 2, 3] None 8000)
   in 0 < ma_link_check m \<and> ma_state (fst (master_run plain_env (nat (ma_link_check m)) m)) = REAC_M_PROBING"
proof -
  let ?i = "reac_master_init REAC_MASTER_TUNABLES_DEFAULT (replicate 8904 0) [0, 0x40, 0xab, 1, 2, 3] None 8000"
  let ?m = "enter_established ?i"
  have "master_inv ?i" by (rule inv_init) simp_all
  then have l: "0 < ma_link_check ?m" "ma_state ?m = REAC_M_ESTABLISHED"
    using inv_facts(6) by (simp_all add: enter_established_def reset_control_cadence_def Let_def)
  moreover have "\<not> est_scene_stream plain_env"
    by (simp add: est_scene_stream_def plain_env_def REAC_MASTER_TUNABLES_DEFAULT_def)
  ultimately show ?thesis using established_link_ends [of ?m plain_env] by (simp add: Let_def)
qed

end
