(* ===== verification/Reac_Scene_Run.thy ===== *)
theory Reac_Scene_Run
  imports Reac_Master_Run
begin

text \<open>
  The scene a courting master sends: the slots of the control cycle, that the optimised inverse
  \<open>burst_index_at\<close> finds exactly the slots \<open>burst_slot\<close> lays out, and that one cycle carries the whole
  scene body, after which a join held meanwhile is acted on.
\<close>

section \<open>The slots of a burst\<close>

lemma slot_of_eq: "500 \<le> fps \<Longrightarrow> 0 \<le> k \<Longrightarrow> slot_of fps k = (k * fps + 250) div 500"
proof -
  assume "500 \<le> fps" "0 \<le> k"
  then have "k * 500 \<le> k * fps" by (rule mult_left_mono)
  then have "k \<le> (k * fps + 250) div 500" by linarith
  then show ?thesis by (simp add: slot_of_def)
qed

lemma slot_of_less:
  assumes "500 \<le> fps" and "0 \<le> k" and "k < l"
  shows "slot_of fps k < slot_of fps l"
proof -
  have "(k + 1) * fps \<le> l * fps" using assms by (intro mult_right_mono) auto
  then have "k * fps + 500 \<le> l * fps" using assms(1) by (simp add: algebra_simps)
  then have "(k * fps + 250) div 500 < (l * fps + 250) div 500" by linarith
  then show ?thesis using assms by (simp add: slot_of_eq)
qed

lemma slot_of_inj: "500 \<le> fps \<Longrightarrow> 0 \<le> k \<Longrightarrow> 0 \<le> l \<Longrightarrow> slot_of fps k = slot_of fps l \<Longrightarrow> k = l"
  using slot_of_less [of fps k l] slot_of_less [of fps l k] by (cases k l rule: linorder_cases) auto

lemma burst_slot_slot_of: "0 < ma_fps m \<Longrightarrow> 0 \<le> k \<Longrightarrow> burst_slot m k = slot_of (ma_fps m) k"
  by (auto simp: burst_slot_def slot_of_def Let_def sdiv_nonneg max_def)

lemma slot_estimate:
  fixes fps k :: int
  assumes "500 \<le> fps" and "0 \<le> k"
  defines "p \<equiv> slot_of fps k"
  shows "k \<le> p" and "(p * 500 + fps div 2) div fps \<in> {k, k + 1}"
proof -
  have p: "p = (k * fps + 250) div 500" using slot_of_eq [OF assms(1,2)] by (simp add: p_def)
  show "k \<le> p" by (simp add: p_def slot_of_def)
  have lo: "k * fps - 250 < p * 500" and hi: "p * 500 \<le> k * fps + 250" unfolding p by linarith+
  have "k * fps \<le> p * 500 + fps div 2" using lo assms(1) by linarith
  then have lower: "k \<le> (p * 500 + fps div 2) div fps" using assms(1) zdiv_mono1 [of "k * fps" "p * 500 + fps div 2" fps] by simp
  have "p * 500 + fps div 2 < (k + 2) * fps" using hi assms(1) by (simp add: algebra_simps)
  moreover have "(p * 500 + fps div 2) div fps * fps \<le> p * 500 + fps div 2"
    using assms(1) pos_mod_sign [of fps "p * 500 + fps div 2"] div_mult_mod_eq [of "p * 500 + fps div 2" fps] by linarith
  ultimately have "(p * 500 + fps div 2) div fps * fps < (k + 2) * fps" by linarith
  then have "(p * 500 + fps div 2) div fps < k + 2" using assms(1) by simp
  with lower show "(p * 500 + fps div 2) div fps \<in> {k, k + 1}" by auto
qed

text \<open>The inverse is exact at rates of at least 500 frames a second: it finds the chunk laid out at a
  slot, and nothing anywhere else.\<close>

lemma burst_index_exact:
  assumes "500 \<le> ma_fps m" and "ma_burst_end m = slot_of (ma_fps m) 340"
  shows "0 \<le> k \<Longrightarrow> k < 341 \<Longrightarrow> burst_index_at m (slot_of (ma_fps m) k) = k"
    and "0 \<le> burst_index_at m pos \<Longrightarrow> burst_index_at m pos < 341 \<and> slot_of (ma_fps m) (burst_index_at m pos) = pos"
proof -
  let ?f = "ma_fps m"
  define Q where "Q pos c \<longleftrightarrow> c \<ge> 0 \<and> c < 341 \<and> burst_slot m c = pos" for pos c
  have Q: "Q pos c \<longleftrightarrow> 0 \<le> c \<and> c < 341 \<and> slot_of ?f c = pos" for pos c
    using assms(1) by (auto simp: Q_def burst_slot_slot_of)
  have out: "burst_index_at m pos = - 1" if "pos < 0 \<or> pos > ma_burst_end m" for pos
    using that by (auto simp: burst_index_at_def)
  have idx: "burst_index_at m pos = (case List.find (Q pos) [k - 1, k, k + 1] of Some c \<Rightarrow> c | None \<Rightarrow> - 1)"
    if "0 \<le> pos" "pos \<le> ma_burst_end m" "k = min ((pos * 500 + ?f div 2) div ?f) pos" for pos k
  proof -
    have d: "(pos * 500 + ?f sdiv 2) sdiv ?f = (pos * 500 + ?f div 2) div ?f"
      using assms(1) that(1) by (simp add: sdiv_nonneg)
    have mn: "(if b < a then b else a) = min a b" for a b :: int by (simp add: min_def)
    have q: "(\<lambda>c. c \<ge> 0 \<and> c < 341 \<and> burst_slot m c = pos) = Q pos" by (simp add: fun_eq_iff Q_def)
    have "\<not> (pos < 0 \<or> pos > ma_burst_end m \<or> ?f \<le> 0)" using that(1,2) assms(1) by auto
    then show ?thesis unfolding burst_index_at_def Let_def q d mn that(3) by (simp only: if_False)
  qed
  show "burst_index_at m (slot_of ?f k) = k" if k: "0 \<le> k" "k < 341"
  proof -
    let ?p = "slot_of ?f k"
    note e = slot_estimate [OF assms(1) k(1)]
    have r: "?p \<le> ma_burst_end m" "0 \<le> ?p"
      using assms(2) k slot_of_less [OF assms(1) k(1), of 340] e(1) by (cases "k = 340"; simp)+
    define kk where "kk = min ((?p * 500 + ?f div 2) div ?f) ?p"
    have "kk = k \<or> kk = k + 1" using e unfolding kk_def min_def by auto
    moreover have "Q ?p c \<longleftrightarrow> c = k" for c
      unfolding Q using slot_of_inj [OF assms(1) _ k(1)] k by blast
    then have "Q ?p = (\<lambda>c. c = k)" by (rule ext)
    ultimately have "List.find (Q ?p) [kk - 1, kk, kk + 1] = Some k" by auto
    then show ?thesis using idx [OF r(2,1) kk_def] by simp
  qed
  show "burst_index_at m pos < 341 \<and> slot_of ?f (burst_index_at m pos) = pos" if "0 \<le> burst_index_at m pos"
  proof -
    have "\<not> (pos < 0 \<or> pos > ma_burst_end m)" using that out [of pos] by (intro notI) simp
    then have r: "0 \<le> pos" "pos \<le> ma_burst_end m" by simp_all
    let ?k = "min ((pos * 500 + ?f div 2) div ?f) pos"
    show ?thesis
    proof (cases "List.find (Q pos) [?k - 1, ?k, ?k + 1]")
      case (Some c)
      then have "Q pos c" by (auto simp only: find_Some_iff)
      then show ?thesis using idx [OF r refl] Some Q by simp
    qed (use that idx [OF r refl] in simp)
  qed
qed

section \<open>The geometry of a cycle\<close>

lemma geom_order:
  assumes "master_inv m" and "1000 \<le> ma_fps m"
  shows "ma_burst_end m = slot_of (ma_fps m) 340" "0 \<le> ma_burst_end m" "ma_burst_end m < ma_sub02_off m"
    "ma_sub02_off m < ma_chanmap_off m" "ma_chanmap_off m < ma_sub01_off m" "ma_sub01_off m = ma_cycle_len m - 5"
proof -
  have g: "cadence_geom (ma_fps m) (ma_cycle_len m) (ma_burst_end m) (ma_sub02_off m) (ma_chanmap_off m) (ma_sub01_off m)"
    using assms(1) by (simp add: master_inv_def)
  then show "ma_burst_end m = slot_of (ma_fps m) 340" "ma_sub01_off m = ma_cycle_len m - 5" by (simp_all add: cadence_geom_def)
  have s: "slot_of (ma_fps m) 340 = (340 * ma_fps m + 250) div 500" using assms(2) by (intro slot_of_eq) auto
  then show "0 \<le> ma_burst_end m" using g assms(2) by (simp add: cadence_geom_def)
  show "ma_burst_end m < ma_sub02_off m" using g by (simp add: cadence_geom_def)
  have "ma_sub02_off m = (340 * ma_fps m + 250) div 500 + (ma_fps m + 250) div 500"
    using g s assms(2) by (simp add: cadence_geom_def max_def)
  moreover have "ma_chanmap_off m = ma_fps m * 5953 div 4000" using g by (simp add: cadence_geom_def)
  ultimately show "ma_sub02_off m < ma_chanmap_off m" using assms(2) by linarith
  show "ma_chanmap_off m < ma_sub01_off m" using g assms(2) by (simp add: cadence_geom_def)
qed

text \<open>The step of the scene transfer a slot of the cycle carries, if any.\<close>

definition scene_at :: "reac_master \<Rightarrow> int \<Rightarrow> int option" where
  "scene_at m pos = (if pos = ma_sub01_off m then Some 0 else map_option fst (scene_slot m pos))"

definition scene_block :: "reac_master \<Rightarrow> int \<Rightarrow> bytes" where
  "scene_block m k = the (reac_ctrl_build_scene_step (Some (ma_scene m)) k)"

lemma scene_at_cases:
  assumes "master_inv m" and "1000 \<le> ma_fps m"
  shows "scene_at m (ma_sub01_off m) = Some 0" and "scene_at m (ma_sub02_off m) = Some 342"
    and "0 \<le> k \<Longrightarrow> k < 341 \<Longrightarrow> scene_at m (slot_of (ma_fps m) k) = Some (1 + k)"
    and "pos \<noteq> ma_sub01_off m \<Longrightarrow> pos \<noteq> ma_sub02_off m \<Longrightarrow> (\<And>k. 0 \<le> k \<Longrightarrow> k < 341 \<Longrightarrow> pos \<noteq> slot_of (ma_fps m) k) \<Longrightarrow>
      scene_at m pos = None"
    and "ma_burst_end m < pos \<Longrightarrow> burst_index_at m pos = - 1"
    and "0 \<le> k \<Longrightarrow> k < 341 \<Longrightarrow> slot_of (ma_fps m) k \<le> ma_burst_end m"
proof -
  note g = geom_order [OF assms]
  have f: "500 \<le> ma_fps m" using assms(2) by simp
  note b = burst_index_exact [OF f g(1)]
  show late: "burst_index_at m pos = - 1" if "ma_burst_end m < pos" for pos using that by (simp add: burst_index_at_def)
  show le: "slot_of (ma_fps m) k \<le> ma_burst_end m" if "0 \<le> k" "k < 341" for k
    using that slot_of_less [OF f that(1), of 340] g(1) by (cases "k = 340") auto
  show "scene_at m (ma_sub01_off m) = Some 0" by (simp add: scene_at_def)
  show "scene_at m (ma_sub02_off m) = Some 342" using g late by (simp add: scene_at_def scene_slot_def)
  show "scene_at m (slot_of (ma_fps m) k) = Some (1 + k)" if "0 \<le> k" "k < 341"
    using b(1) [OF that] le [OF that] g that by (simp add: scene_at_def scene_slot_def)
  show "scene_at m pos = None" if "pos \<noteq> ma_sub01_off m" "pos \<noteq> ma_sub02_off m"
    "\<And>k. 0 \<le> k \<Longrightarrow> k < 341 \<Longrightarrow> pos \<noteq> slot_of (ma_fps m) k"
    using that(1,2) that(3) [of "burst_index_at m pos"] b(2) [of pos] by (auto simp: scene_at_def scene_slot_def Let_def)
qed

section \<open>One slot of the cycle\<close>

text \<open>What the slots of a courtship leave alone.\<close>

definition court_of :: "reac_master \<Rightarrow> (reac_master_state \<times> int \<times> int \<times> int \<times> int \<times> int \<times> int) \<times> bytes
    \<times> bool \<times> reac_master_rx_event \<times> mac \<times> bytes \<times> bool" where
  "court_of m = ((ma_state m, ma_fps m, ma_cycle_len m, ma_burst_end m, ma_sub02_off m, ma_chanmap_off m, ma_sub01_off m),
     ma_scene m, ma_join_held m, ma_join_ev m, ma_join_src m, ma_join_hold_blk m, ma_join_has_blk m)"

definition transfer_of :: "reac_master \<Rightarrow> bool \<times> u32" where
  "transfer_of m = (ma_scene_inflight m, ma_scene_complete m)"

lemmas court_defs = court_of_def transfer_of_def

lemma scene_at_cong: "court_of m' = court_of m \<Longrightarrow> scene_at m' = scene_at m"
  by (simp add: fun_eq_iff scene_at_def scene_slot_def burst_index_at_def burst_slot_def court_defs)

lemma scene_block_cong: "court_of m' = court_of m \<Longrightarrow> scene_block m' = scene_block m"
  by (simp add: fun_eq_iff scene_block_def court_defs)

lemma probing_cadence_court:
  assumes "probing_cadence m pos = (m', e, i)"
  shows "court_of m' = court_of m \<and> transfer_of m' = transfer_of m \<and> ma_cycle_pos m' = ma_cycle_pos m"
  using assms by (auto simp: probing_cadence_def court_defs split: option.splits if_splits)

lemma probing_cadence_scene:
  assumes "probing_cadence m pos = (m', e, i)" and "ma_chanmap_off m \<noteq> ma_sub01_off m" and "ma_burst_end m < ma_sub01_off m"
    and "ma_sub02_off m \<noteq> ma_sub01_off m"
  shows "case scene_at m pos of None \<Rightarrow> \<not> is_scene e
    | Some k \<Rightarrow> ma_scene_step m' = k \<and> is_scene e
        \<and> (e = REAC_M_EMIT_SCENE_HEAD \<longleftrightarrow> pos = ma_sub01_off m)
        \<and> (e = REAC_M_EMIT_SCENE_TAIL \<longleftrightarrow> burst_index_at m pos < 0 \<and> pos = ma_sub02_off m)"
proof -
  have "scene_slot m (ma_sub01_off m) = None"
    using assms(3,4) by (simp add: scene_slot_def burst_index_at_def)
  then show ?thesis
    using assms(1,2)
    by (auto simp: probing_cadence_def scene_at_def scene_slot_def is_scene_def Let_def split: option.splits if_splits)
qed

lemma scene_step_range:
  assumes "master_inv m" and "1000 \<le> ma_fps m" and "scene_at m pos = Some k"
  shows "0 \<le> k \<and> k < 343"
  using assms(3) burst_index_exact(2) [of m pos] geom_order(1) [OF assms(1,2)] assms(2)
  by (auto simp: scene_at_def scene_slot_def Let_def split: if_splits)

lemma scene_prepare_court:
  "court_of (scene_prepare m) = court_of m" "transfer_of (scene_prepare m) = transfer_of m"
  "ma_cycle_pos (scene_prepare m) = ma_cycle_pos m" "ma_scene_step (scene_prepare m) = ma_scene_step m"
  "ma_box_mac (scene_prepare m) = ma_box_mac m"
  by (simp_all add: scene_prepare_def court_defs split: option.split)

lemma scene_prepare_blk:
  assumes "length (ma_scene m) = 8904" and "0 \<le> ma_scene_step m" and "ma_scene_step m < 343"
  shows "ma_scene_blk (scene_prepare m) = scene_block m (ma_scene_step m)"
proof -
  obtain b where "reac_ctrl_build_scene_step (Some (ma_scene m)) (ma_scene_step m) = Some b"
    using bspec [OF scene_steps_built [OF assms(1)], of "ma_scene_step m"] assms(2,3) by auto
  then show ?thesis by (simp add: scene_prepare_def scene_block_def)
qed

text \<open>Everything before the tail.\<close>

lemma probing_step:
  assumes "env_ok env" and "master_inv m" and "1000 \<le> ma_fps m" and "ma_state m = REAC_M_PROBING"
    and "ma_cycle_pos m \<noteq> ma_sub02_off m"
  obtains m' c e i where "reac_master_next env m = (m', c, e, i)" and "master_inv m'" and "court_of m' = court_of m"
    and "ma_cycle_pos m' = (ma_cycle_pos m + 1) mod ma_cycle_len m"
    and "transfer_of m' = (ma_scene_inflight m \<or> ma_cycle_pos m = ma_sub01_off m, ma_scene_complete m)"
    and "scene_blocks [(c, e, emit_block m' e i)] =
      (case scene_at m (ma_cycle_pos m) of None \<Rightarrow> [] | Some k \<Rightarrow> [scene_block m k])"
proof -
  note g = geom_order [OF assms(2,3)]
  obtain c p b where t: "tick_head m = m\<lparr> ma_counter := c, ma_presence_tick := p, ma_box_seen := b \<rparr>"
    using tick_head_shape [of m] by auto
  define pos where "pos = ma_cycle_pos m"
  define m0 where "m0 = (tick_head m)\<lparr> ma_cycle_pos := (pos + 1) smod ma_cycle_len m, ma_announce_tick := ma_announce_tick m + 1 \<rparr>"
  have m0: "court_of m0 = court_of m" "transfer_of m0 = transfer_of m" "ma_state m0 = REAC_M_PROBING"
    using t assms(4) by (simp_all add: m0_def court_defs)
  obtain m1 e i where pc: "probing_cadence m0 pos = (m1, e, i)" by (cases "probing_cadence m0 pos")
  have cc: "control_cadence env (tick_head m) = (m1, e, i)"
    using t pc m0(3) by (simp add: control_cadence_def Let_def m0_def pos_def)
  define m' where "m' = scene_account env e m1"
  have n: "reac_master_next env m = (m', ma_counter m, e, i)"
    using assms(4) cc by (simp add: next_started m'_def)
  note pcc = probing_cadence_court [OF pc]
  have at0: "scene_at m0 = scene_at m" using scene_at_cong [OF m0(1)] .
  have sc: "case scene_at m pos of None \<Rightarrow> \<not> is_scene e
    | Some k \<Rightarrow> ma_scene_step m1 = k \<and> is_scene e \<and> (e = REAC_M_EMIT_SCENE_HEAD \<longleftrightarrow> pos = ma_sub01_off m)
        \<and> (e \<noteq> REAC_M_EMIT_SCENE_TAIL)"
    using probing_cadence_scene [OF pc] m0(1) g assms(5) at0 by (auto simp: court_defs pos_def split: option.splits)
  have not_tail: "e \<noteq> REAC_M_EMIT_SCENE_TAIL" using sc by (auto simp: is_scene_def split: option.splits)
  have head: "e = REAC_M_EMIT_SCENE_HEAD \<longleftrightarrow> pos = ma_sub01_off m"
    using sc scene_at_cases(1) [OF assms(2,3)] by (auto simp: is_scene_def split: option.splits)
  have m': "m' = (if is_scene e then (if e = REAC_M_EMIT_SCENE_HEAD then (scene_prepare m1)\<lparr> ma_scene_inflight := True \<rparr> else scene_prepare m1) else m1)"
    using not_tail by (auto simp: m'_def scene_account_def is_scene_def Let_def)
  have court: "court_of m' = court_of m"
    using m' pcc m0(1) scene_prepare_court(1) [of m1] by (auto simp: court_defs split: if_splits)
  have tr: "transfer_of m' = (ma_scene_inflight m \<or> pos = ma_sub01_off m, ma_scene_complete m)"
    using m' pcc m0(2) head scene_prepare_court(2) [of m1] sc
    by (auto simp: court_defs is_scene_def split: if_splits option.splits)
  have "0 \<le> pos" "0 < ma_cycle_len m" using assms(2,3) by (auto simp: master_inv_def pos_def)
  then have cp: "ma_cycle_pos m' = (pos + 1) mod ma_cycle_len m"
    using m' pcc scene_prepare_court(3) [of m1] by (simp add: m0_def smod_nonneg)
  have blk: "ma_scene_blk m' = scene_block m k" if "scene_at m pos = Some k" for k
  proof -
    have r: "0 \<le> k" "k < 343" using scene_step_range [OF assms(2,3) that] by auto
    have c1: "court_of m1 = court_of m" using pcc m0(1) by simp
    have "ma_scene m1 = ma_scene m" using c1 by (simp add: court_defs)
    then have "length (ma_scene m1) = 8904" using inv_facts(7) [OF assms(2)] by simp
    moreover have s1: "ma_scene_step m1 = k" "is_scene e" using sc that by simp_all
    ultimately have "ma_scene_blk (scene_prepare m1) = scene_block m1 k" using scene_prepare_blk [of m1] r by simp
    then show ?thesis using m' s1(2) scene_block_cong [OF c1] by simp
  qed
  have "emit_block m' e i = ma_scene_blk m'" if "is_scene e" using that by (auto simp: is_scene_def)
  then have "scene_blocks [(ma_counter m, e, emit_block m' e i)] =
      (case scene_at m pos of None \<Rightarrow> [] | Some k \<Rightarrow> [scene_block m k])"
    using sc blk by (auto split: option.splits)
  with n show thesis
    using that next_ok(1) [OF assms(1,2) n] court cp tr unfolding pos_def by blast
qed

section \<open>A whole transfer\<close>

text \<open>The elements an increasing sequence marks, read off a range in order.\<close>

lemma map_filter_marked:
  fixes s :: "nat \<Rightarrow> nat"
  assumes "\<And>i j. i < j \<Longrightarrow> j < n \<Longrightarrow> s i < s j" and "\<And>i. i < n \<Longrightarrow> s i < b"
    and "\<And>i. i < n \<Longrightarrow> f (s i) = Some (g i)" and "\<And>p. p < b \<Longrightarrow> p \<notin> s ` {..<n} \<Longrightarrow> f p = None"
  shows "List.map_filter f [0..<b] = map g [0..<n]"
  using assms
proof (induction n arbitrary: b)
  case 0
  then have "\<forall>p \<in> set [0..<b]. f p = None" by auto
  then show ?case by (induction b) (simp_all add: map_filter_def)
next
  case (Suc n)
  have split: "[0..<b] = [0..<s n] @ s n # [Suc (s n)..<b]"
    using Suc.prems(2) [of n] upt_add_eq_append [of 0 "s n" "b - s n"] by (simp add: upt_conv_Cons)
  have "List.map_filter f [0..<s n] = map g [0..<n]"
  proof (rule Suc.IH)
    show "f p = None" if "p < s n" "p \<notin> s ` {..<n}" for p
    proof (rule Suc.prems(4))
      show "p < b" using that(1) Suc.prems(2) [of n] by simp
      show "p \<notin> s ` {..<Suc n}" using that by (auto simp: less_Suc_eq)
    qed
  qed (use Suc.prems in auto)
  moreover have "f p = None" if "s n < p" "p < b" for p
  proof (rule Suc.prems(4) [OF that(2)])
    show "p \<notin> s ` {..<Suc n}"
    proof
      assume "p \<in> s ` {..<Suc n}"
      then obtain x where "p = s x" "x \<le> n" by (auto simp: less_Suc_eq_le)
      then show False using that(1) Suc.prems(1) [of x n] by (cases "x = n") auto
    qed
  qed
  then have "List.map_filter f [Suc (s n)..<b] = []" by (auto simp: map_filter_def filter_empty_conv)
  ultimately show ?case
    unfolding split using Suc.prems(3) [of n] by (simp add: map_filter_def)
qed

lemma probing_run:
  assumes "env_ok env" and "master_inv m" and "1000 \<le> ma_fps m" and "ma_state m = REAC_M_PROBING"
    and "ma_cycle_pos m + int n \<le> ma_cycle_len m"
    and "\<And>j. j < n \<Longrightarrow> ma_cycle_pos m + int j \<noteq> ma_sub02_off m"
  shows "master_inv (fst (master_run env n m)) \<and> court_of (fst (master_run env n m)) = court_of m
    \<and> (n = 0 \<or> ma_cycle_pos (fst (master_run env n m)) = (ma_cycle_pos m + int n) mod ma_cycle_len m)
    \<and> transfer_of (fst (master_run env n m)) =
        (ma_scene_inflight m \<or> (\<exists>j < n. ma_cycle_pos m + int j = ma_sub01_off m), ma_scene_complete m)
    \<and> scene_blocks (snd (master_run env n m)) =
        map (scene_block m) (List.map_filter (\<lambda>j. scene_at m (ma_cycle_pos m + int j)) [0..<n])"
  using assms(2-6)
proof (induction n arbitrary: m)
  case 0
  then show ?case by (simp add: court_defs map_filter_def)
next
  case (Suc n)
  let ?p = "ma_cycle_pos m"
  have ne: "?p \<noteq> ma_sub02_off m" using Suc.prems(5) [of 0] by simp
  obtain m' c e i where st: "reac_master_next env m = (m', c, e, i)" "master_inv m'" "court_of m' = court_of m"
    "ma_cycle_pos m' = (?p + 1) mod ma_cycle_len m"
    "transfer_of m' = (ma_scene_inflight m \<or> ?p = ma_sub01_off m, ma_scene_complete m)"
    "scene_blocks [(c, e, emit_block m' e i)] = (case scene_at m ?p of None \<Rightarrow> [] | Some k \<Rightarrow> [scene_block m k])"
    by (rule probing_step [OF assms(1) Suc.prems(1-3) ne])
  have p0: "0 \<le> ?p" using Suc.prems(1,2) by (simp add: master_inv_def)
  have cg: "ma_cycle_len m' = ma_cycle_len m" "ma_sub02_off m' = ma_sub02_off m" "ma_sub01_off m' = ma_sub01_off m"
    "ma_fps m' = ma_fps m" "ma_state m' = ma_state m" using st(3) by (simp_all add: court_defs)
  have upt: "[0..<Suc n] = 0 # map Suc [0..<n]" by (simp add: upt_conv_Cons map_Suc_upt del: upt_Suc)
  have first: "List.map_filter (\<lambda>j. scene_at m (?p + int j)) [0..<Suc n] =
      (case scene_at m ?p of None \<Rightarrow> [] | Some k \<Rightarrow> [k]) @ List.map_filter (\<lambda>j. scene_at m (?p + 1 + int j)) [0..<n]"
    unfolding upt by (auto simp: map_filter_def filter_map comp_def add.assoc split: option.splits)
  show ?case
  proof (cases "n = 0")
    case True
    have "List.map_filter (\<lambda>j. scene_at m (?p + int j)) [0..<1] = (case scene_at m ?p of None \<Rightarrow> [] | Some k \<Rightarrow> [k])"
      by (simp add: map_filter_def split: option.split)
    then show ?thesis using True st(2-6) by (auto simp: master_run_Suc [OF st(1)] split: option.splits)
  next
    case False
    then have p1: "ma_cycle_pos m' = ?p + 1" using st(4) Suc.prems(4) p0 by simp
    have ih: "master_inv (fst (master_run env n m')) \<and> court_of (fst (master_run env n m')) = court_of m'
      \<and> (n = 0 \<or> ma_cycle_pos (fst (master_run env n m')) = (ma_cycle_pos m' + int n) mod ma_cycle_len m')
      \<and> transfer_of (fst (master_run env n m')) =
        (ma_scene_inflight m' \<or> (\<exists>j < n. ma_cycle_pos m' + int j = ma_sub01_off m'), ma_scene_complete m')
      \<and> scene_blocks (snd (master_run env n m')) =
        map (scene_block m') (List.map_filter (\<lambda>j. scene_at m' (ma_cycle_pos m' + int j)) [0..<n])"
    proof (rule Suc.IH)
      show "ma_cycle_pos m' + int j \<noteq> ma_sub02_off m'" if "j < n" for j
        using Suc.prems(5) [of "Suc j"] that p1 cg by simp
    qed (use st(2) cg p1 Suc.prems in auto)
    have ex: "(\<exists>j < Suc n. ?p + int j = s) \<longleftrightarrow> ?p = s \<or> (\<exists>j < n. ?p + 1 + int j = s)" for s
      by (auto simp: less_Suc_eq_0_disj algebra_simps)
    have blocks: "scene_blocks (snd (master_run env (Suc n) m)) =
        map (scene_block m) (List.map_filter (\<lambda>j. scene_at m (?p + int j)) [0..<Suc n])"
      unfolding first master_run_Suc [OF st(1)] snd_conv
      using st(6) ih p1 scene_at_cong [OF st(3)] scene_block_cong [OF st(3)] by (auto split: option.splits if_splits)
    have tr: "transfer_of (fst (master_run env (Suc n) m)) =
        (ma_scene_inflight m \<or> (\<exists>j < Suc n. ?p + int j = ma_sub01_off m), ma_scene_complete m)"
      unfolding ex master_run_Suc [OF st(1)] fst_conv using st(5) ih p1 cg by (auto simp: court_defs)
    show ?thesis
      using ih st(3) p1 cg False blocks tr by (simp add: master_run_Suc [OF st(1)] add.assoc)
  qed
qed

lemma enter_granting_scene:
  "ma_scene_blk (enter_granting env m s b) = ma_scene_blk m" "ma_state (enter_granting env m s b) = REAC_M_GRANTING"
  "ma_box_mac (enter_granting env m s b) = s"
proof -
  define m1 where "m1 = m\<lparr> ma_state := REAC_M_GRANTING, ma_grant_ticks := 0, ma_enroll_sent_tick := 0, ma_dwell_ended_tick := 0,
               ma_grant_attempts := ma_grant_attempts m + 1, ma_box_mac := s,
               ma_join_blk := (case b of Some b \<Rightarrow> b | None \<Rightarrow> ma_join_blk m) \<rparr>"
  obtain bu a n where r: "fst (rebuild_grant_sweep env m1 (uint (ga_base (ma_alloc m1))) (uint (ga_width (ma_alloc m1)))) =
      m1\<lparr> ma_grant_burst := bu, ma_alloc := a, ma_grant_burst_len := n \<rparr>" by (rule rebuild_shape)
  have e: "enter_granting env m s b =
      (let m2 = fst (rebuild_grant_sweep env m1 (uint (ga_base (ma_alloc m1))) (uint (ga_width (ma_alloc m1))));
          m3 = (if reac_master_has_box m2 then m2\<lparr> ma_cfg := (ma_cfg m2)\<lparr> cc_out_channels := ga_width (ma_alloc m2) \<rparr> \<rparr> else m2)
      in m3\<lparr> ma_announce_blk := gen_cfea (ma_src m3) (ma_cfg m3) 0 \<rparr>)"
    unfolding enter_granting_def m1_def Let_def ..
  show "ma_scene_blk (enter_granting env m s b) = ma_scene_blk m" "ma_state (enter_granting env m s b) = REAC_M_GRANTING"
    "ma_box_mac (enter_granting env m s b) = s"
    unfolding e r Let_def by (simp_all add: m1_def)
qed

text \<open>The joins a courting master holds while a scene is in flight, and what it makes of one.\<close>

definition join_pending :: "reac_master \<Rightarrow> bool" where
  "join_pending m \<longleftrightarrow> ma_join_held m \<and> (ma_join_ev m = REAC_M_RX_BOX_CONFIG \<or> ma_join_ev m = REAC_M_RX_BOX_JOIN \<and> ma_join_has_blk m)"

lemma release_pending:
  assumes "join_pending m" and "ma_state m = REAC_M_PROBING"
  shows "ma_state (release_held_join env m) = REAC_M_GRANTING \<and> ma_box_mac (release_held_join env m) = ma_join_src m
    \<and> ma_scene_blk (release_held_join env m) = ma_scene_blk m"
  using assms enter_granting_scene
  by (auto simp: join_pending_def release_held_join_def apply_edge_def edge_defs Let_def)

lemma tail_step:
  assumes "master_inv m" and "1000 \<le> ma_fps m" and "ma_state m = REAC_M_PROBING"
    and "ma_cycle_pos m = ma_sub02_off m" and "ma_scene_inflight m" and "ma_join_held m \<longrightarrow> join_pending m"
  obtains m' c e i where "reac_master_next env m = (m', c, e, i)"
    and "scene_blocks [(c, e, emit_block m' e i)] = [scene_block m 342]"
    and "if ma_join_held m then ma_state m' = REAC_M_GRANTING \<and> ma_box_mac m' = ma_join_src m
         else ma_state m' = REAC_M_PROBING \<and> ma_scene_complete m' = ma_scene_complete m + 1 \<and> \<not> ma_scene_inflight m'"
proof -
  note g = geom_order [OF assms(1,2)]
  obtain c p b where t: "tick_head m = m\<lparr> ma_counter := c, ma_presence_tick := p, ma_box_seen := b \<rparr>"
    using tick_head_shape [of m] by auto
  define m0 where "m0 = (tick_head m)\<lparr> ma_cycle_pos := (ma_cycle_pos m + 1) smod ma_cycle_len m, ma_announce_tick := ma_announce_tick m + 1 \<rparr>"
  have m0: "court_of m0 = court_of m" "transfer_of m0 = transfer_of m" "ma_state m0 = REAC_M_PROBING"
    using t assms(3) by (simp_all add: m0_def court_defs)
  have late: "burst_index_at m0 (ma_sub02_off m) = - 1"
    using g(3) m0(1) by (simp add: burst_index_at_def court_defs)
  define m1 where "m1 = m0\<lparr> ma_scene_step := 342 \<rparr>"
  have "probing_cadence m0 (ma_sub02_off m) = (m1, REAC_M_EMIT_SCENE_TAIL, 0)"
    using late m0(1) by (simp add: probing_cadence_def scene_slot_def Let_def m1_def court_defs)
  then have cc: "control_cadence env (tick_head m) = (m1, REAC_M_EMIT_SCENE_TAIL, 0)"
    using t m0(3) assms(4) by (simp add: control_cadence_def Let_def m0_def)
  have m1: "court_of m1 = court_of m" "transfer_of m1 = transfer_of m"
    using m0 by (simp_all add: m1_def court_defs)
  define m2 where "m2 = (scene_prepare m1)\<lparr> ma_scene_inflight := False, ma_scene_complete := ma_scene_complete (scene_prepare m1) + 1 \<rparr>"
  define m3 where "m3 = (if ma_join_held m2 then release_held_join env m2 else m2)"
  have c2: "court_of m2 = court_of m" "ma_scene_complete m2 = ma_scene_complete m + 1" "\<not> ma_scene_inflight m2"
    using m1 scene_prepare_court [of m1] by (simp_all add: m2_def court_defs)
  have "ma_scene_inflight (scene_prepare m1)" using scene_prepare_court(2) [of m1] m1(2) assms(5) by (simp add: court_defs)
  then have "scene_account env REAC_M_EMIT_SCENE_TAIL m1 = m3"
    by (simp add: scene_account_def Let_def m2_def [symmetric] m3_def)
  then have n: "reac_master_next env m = (m3, ma_counter m, REAC_M_EMIT_SCENE_TAIL, 0)"
    using assms(3) cc by (simp add: next_started)
  have "length (ma_scene m1) = 8904" using m1(1) inv_facts(7) [OF assms(1)] by (simp add: court_defs)
  then have "ma_scene_blk m2 = scene_block m1 342"
    using scene_prepare_blk [of m1] by (simp add: m2_def m1_def)
  then have b2: "ma_scene_blk m2 = scene_block m 342" using scene_block_cong [OF m1(1)] by simp
  have r: "ma_join_held m2 = ma_join_held m" "ma_join_src m2 = ma_join_src m" "ma_state m2 = REAC_M_PROBING"
    "join_pending m2 = join_pending m"
    using c2(1) assms(3) by (simp_all add: court_defs join_pending_def)
  have rel: "ma_join_held m \<Longrightarrow> ma_state m3 = REAC_M_GRANTING \<and> ma_box_mac m3 = ma_join_src m \<and> ma_scene_blk m3 = ma_scene_blk m2"
    using release_pending [of m2 env] r assms(6) by (simp add: m3_def)
  show thesis
  proof (rule that [OF n])
    show "scene_blocks [(ma_counter m, REAC_M_EMIT_SCENE_TAIL, emit_block m3 REAC_M_EMIT_SCENE_TAIL 0)] = [scene_block m 342]"
      using rel r(1) b2 by (cases "ma_join_held m") (simp_all add: is_scene_def m3_def)
    show "if ma_join_held m then ma_state m3 = REAC_M_GRANTING \<and> ma_box_mac m3 = ma_join_src m
         else ma_state m3 = REAC_M_PROBING \<and> ma_scene_complete m3 = ma_scene_complete m + 1 \<and> \<not> ma_scene_inflight m3"
      using rel r c2 by (simp add: m3_def)
  qed
qed

lemma cycle_chunks:
  assumes "master_inv m" and "1000 \<le> ma_fps m"
  shows "List.map_filter (\<lambda>j. scene_at m (int j)) [0..<nat (ma_sub02_off m)] = map (\<lambda>k. 1 + int k) [0..<341]"
proof (rule map_filter_marked [where s = "\<lambda>k. nat (slot_of (ma_fps m) (int k))"])
  note g = geom_order [OF assms] and sc = scene_at_cases [OF assms]
  have f: "500 \<le> ma_fps m" using assms(2) by simp
  have pos: "0 \<le> slot_of (ma_fps m) (int k)" for k by (simp add: slot_of_def le_max_iff_disj)
  show "nat (slot_of (ma_fps m) (int i)) < nat (slot_of (ma_fps m) (int j))" if "i < j" for i j
    using slot_of_less [OF f, of "int i" "int j"] that pos [of i] by simp
  show "nat (slot_of (ma_fps m) (int i)) < nat (ma_sub02_off m)" if "i < 341" for i
    using sc(6) [of "int i"] that g(3) pos [of i] by simp
  show "scene_at m (int (nat (slot_of (ma_fps m) (int i)))) = Some (1 + int i)" if "i < 341" for i
    using sc(3) [of "int i"] that pos [of i] by simp
  show "scene_at m (int p) = None" if "p < nat (ma_sub02_off m)" "p \<notin> (\<lambda>k. nat (slot_of (ma_fps m) (int k))) ` {..<341}" for p
  proof (rule sc(4))
    show "int p \<noteq> ma_sub01_off m" "int p \<noteq> ma_sub02_off m" using that(1) g by auto
    show "int p \<noteq> slot_of (ma_fps m) k" if "0 \<le> k" "k < 341" for k
      using \<open>p \<notin> _\<close> that by (auto intro!: image_eqI [of _ _ "nat k"])
  qed
qed

lemma head_slots:
  assumes "master_inv m" and "1000 \<le> ma_fps m"
  shows "List.map_filter (\<lambda>j. scene_at m (ma_sub01_off m + int j)) [0..<5] = [0]"
proof -
  note g = geom_order [OF assms] and sc = scene_at_cases [OF assms]
  have "scene_at m (ma_sub01_off m + int j) = None" if "0 < j" for j
  proof (rule sc(4))
    show "ma_sub01_off m + int j \<noteq> slot_of (ma_fps m) k" if "0 \<le> k" "k < 341" for k
      using sc(6) [OF that] g by linarith
  qed (use that g in auto)
  from this [of 1] this [of 2] this [of 3] this [of 4] show ?thesis
    using sc(1) by (simp add: map_filter_def upt_rec)
qed

lemma scene_blocks_payload:
  assumes "length (ma_scene m) = 8904"
  shows "concat (map scene_payload (map (scene_block m) ([0] @ map (\<lambda>k. 1 + int k) [0..<341] @ [342]))) = ma_scene m"
proof -
  have "[0..<343] = 0 # map Suc [0..<341] @ [342]"
  proof -
    have "[0..<Suc 342] = [0..<342] @ [342]" by (rule upt_Suc_append) simp
    moreover have "[0..<Suc 341] = 0 # map Suc [0..<341]" by (subst upt_conv_Cons) (simp_all only: map_Suc_upt zero_less_Suc)
    ultimately show ?thesis by (simp del: upt_Suc upt_rec_numeral)
  qed
  then have "map int [0..<343] = [0] @ map (\<lambda>k. 1 + int k) [0..<341] @ [342]"
    by (simp add: comp_def del: upt_Suc upt_rec_numeral)
  then have "map scene_payload (map (scene_block m) ([0] @ map (\<lambda>k. 1 + int k) [0..<341] @ [342])) =
      map (\<lambda>k. scene_payload (the (reac_ctrl_build_scene_step (Some (ma_scene m)) (int k)))) [0..<343]"
    by (simp only: map_map comp_def scene_block_def flip: \<open>map int [0..<343] = _\<close>)
  then show ?thesis using scene_payloads [OF assms] by (simp only:)
qed

text \<open>The transfer in three parts: the five slots from the header to the wrap, the burst, the tail.\<close>

lemma head_run:
  assumes "env_ok env" and "master_inv m" and "1000 \<le> ma_fps m" and "ma_state m = REAC_M_PROBING"
    and "ma_cycle_pos m = ma_sub01_off m"
  defines "a \<equiv> fst (master_run env 5 m)"
  shows "master_inv a" "court_of a = court_of m" "ma_cycle_pos a = 0" "transfer_of a = (True, ma_scene_complete m)"
    "scene_blocks (snd (master_run env 5 m)) = map (scene_block m) [0]"
proof -
  note g = geom_order [OF assms(2,3)]
  have "ma_cycle_pos m + int 5 \<le> ma_cycle_len m" "\<And>j. j < 5 \<Longrightarrow> ma_cycle_pos m + int j \<noteq> ma_sub02_off m"
    using assms(5) g by auto
  note R = probing_run [OF assms(1-4) this]
  show "master_inv a" "court_of a = court_of m" using R by (simp_all add: a_def)
  have "ma_sub01_off m + 5 = ma_cycle_len m" using g(6) by simp
  then show "ma_cycle_pos a = 0" using R assms(5) by (simp add: a_def)
  show "transfer_of a = (True, ma_scene_complete m)" using R assms(5) by (auto simp: a_def intro!: exI [of _ 0])
  show "scene_blocks (snd (master_run env 5 m)) = map (scene_block m) [0]"
    using R assms(5) head_slots [OF assms(2,3)] by simp
qed

lemma chunk_run:
  assumes "env_ok env" and "master_inv a" and "1000 \<le> ma_fps a" and "ma_state a = REAC_M_PROBING"
    and "ma_cycle_pos a = 0" and "transfer_of a = (True, k)"
  defines "b \<equiv> fst (master_run env (nat (ma_sub02_off a)) a)"
  shows "master_inv b" "court_of b = court_of a" "ma_cycle_pos b = ma_sub02_off a" "transfer_of b = (True, k)"
    "scene_blocks (snd (master_run env (nat (ma_sub02_off a)) a)) = map (scene_block a) (map (\<lambda>k. 1 + int k) [0..<341])"
proof -
  note g = geom_order [OF assms(2,3)]
  have "ma_cycle_pos a + int (nat (ma_sub02_off a)) \<le> ma_cycle_len a"
    "\<And>j. j < nat (ma_sub02_off a) \<Longrightarrow> ma_cycle_pos a + int j \<noteq> ma_sub02_off a"
    using assms(5) g by auto
  note R = probing_run [OF assms(1-4) this]
  show "master_inv b" "court_of b = court_of a" using R by (simp_all add: b_def)
  show "ma_cycle_pos b = ma_sub02_off a" using R assms(5) g by (auto simp: b_def)
  show "transfer_of b = (True, k)" using R assms(6) by (simp add: b_def transfer_of_def)
  show "scene_blocks (snd (master_run env (nat (ma_sub02_off a)) a)) = map (scene_block a) (map (\<lambda>k. 1 + int k) [0..<341])"
    using R assms(5) cycle_chunks [OF assms(2,3)] by simp
qed

text \<open>C6: a courting master sends its whole scene, then answers the box. From the header slot of the
  control cycle, at any frame rate of at least 1000 a second, the next slots up to the tail carry the
  343 blocks whose payloads are the scene body, in order and each once; a join that was held back
  because the scene was in flight is then granted to the box that sent it, and without one the
  transfer is counted and the courtship goes on.\<close>

theorem scene_transfer_delivered:
  assumes "env_ok env" and "master_inv m" and "1000 \<le> ma_fps m" and "ma_state m = REAC_M_PROBING"
    and "ma_cycle_pos m = ma_sub01_off m" and "ma_join_held m \<longrightarrow> join_pending m"
  defines "r \<equiv> master_run env (nat (ma_sub02_off m) + 6) m"
  shows "concat (map scene_payload (scene_blocks (snd r))) = ma_scene m
    \<and> (if ma_join_held m then ma_state (fst r) = REAC_M_GRANTING \<and> ma_box_mac (fst r) = ma_join_src m
       else ma_state (fst r) = REAC_M_PROBING \<and> ma_scene_complete (fst r) = ma_scene_complete m + 1 \<and> \<not> ma_scene_inflight (fst r))"
proof -
  let ?s2 = "nat (ma_sub02_off m)"
  define a where "a = fst (master_run env 5 m)"
  note A = head_run [OF assms(1-5), folded a_def]
  have ac: "1000 \<le> ma_fps a" "ma_state a = REAC_M_PROBING" "ma_sub02_off a = ma_sub02_off m"
    using A(2) assms(3,4) by (simp_all add: court_defs)
  define b where "b = fst (master_run env ?s2 a)"
  note B = chunk_run [OF assms(1) A(1) ac(1,2) A(3,4), unfolded ac(3), folded b_def]
  have bm: "court_of b = court_of m" using A(2) B(2) by simp
  have bc: "1000 \<le> ma_fps b" "ma_state b = REAC_M_PROBING" "ma_cycle_pos b = ma_sub02_off b" "ma_scene_inflight b"
    "ma_join_held b \<longrightarrow> join_pending b" "ma_join_held b = ma_join_held m" "ma_join_src b = ma_join_src m"
    "ma_scene_complete b = ma_scene_complete m"
    using bm B(3,4) assms(3,4,6) by (simp_all add: court_defs join_pending_def)
  obtain m' c e i where T: "reac_master_next env b = (m', c, e, i)"
    "scene_blocks [(c, e, emit_block m' e i)] = [scene_block b 342]"
    "if ma_join_held b then ma_state m' = REAC_M_GRANTING \<and> ma_box_mac m' = ma_join_src b
         else ma_state m' = REAC_M_PROBING \<and> ma_scene_complete m' = ma_scene_complete b + 1 \<and> \<not> ma_scene_inflight m'"
    by (rule tail_step [OF B(1) bc(1-5), of env])
  have "nat (ma_sub02_off m) + 6 = 5 + (?s2 + Suc 0)" by simp
  then have r: "r = (m', snd (master_run env 5 m) @ snd (master_run env ?s2 a) @ [(c, e, emit_block m' e i)])"
    unfolding r_def by (simp only: master_run_add) (simp add: split_beta Let_def a_def [symmetric] b_def [symmetric] master_run_Suc [OF T(1)])
  have "scene_blocks (snd r) = map (scene_block m) ([0] @ map (\<lambda>k. 1 + int k) [0..<341] @ [342])"
    using A(5) B(5) T(2) scene_block_cong [OF A(2)] scene_block_cong [OF bm] unfolding r by simp
  then have "concat (map scene_payload (scene_blocks (snd r))) = ma_scene m"
    using scene_blocks_payload [OF inv_facts(7) [OF assms(2)]] by simp
  then show ?thesis using T(3) bc unfolding r by simp
qed

theorem scene_transfer_delivered_witness:
  "let m = enter_probing (reac_master_init REAC_MASTER_TUNABLES_DEFAULT (replicate 8904 0) [0, 0x40, 0xab, 1, 2, 3] None 8000)
   in concat (map scene_payload (scene_blocks (snd (master_run plain_env (nat (ma_sub02_off m) + 6) m)))) = ma_scene m"
proof -
  let ?i = "reac_master_init REAC_MASTER_TUNABLES_DEFAULT (replicate 8904 0) [0, 0x40, 0xab, 1, 2, 3] None 8000"
  let ?m = "enter_probing ?i"
  have "master_inv ?i" by (rule inv_init) simp_all
  then have i: "master_inv ?m" by (rule inv_enter_probing)
  have f: "ma_fps (reac_master_init tu body src cfg 8000) = 8000" for tu body src cfg
    by (simp add: reac_master_init_def init_scene_def init_cadence_def scene_prepare_def Let_def split: option.split)
  have "ma_fps ?m = 8000" "ma_state ?m = REAC_M_PROBING" "ma_cycle_pos ?m = ma_sub01_off ?m" "\<not> ma_join_held ?m"
    using f by (simp_all add: enter_probing_def reset_control_cadence_def reac_master_forget_box_def Let_def)
  then show ?thesis using scene_transfer_delivered [OF plain_env_ok i] by (simp add: Let_def)
qed


end
