(* ===== verification/Reac_Fsm.thy ===== *)
theory Reac_Fsm
  imports Reac_Ctrl_Parse
begin

text \<open>
  The slave's link state machine, \<^verbatim>\<open>src/reac_fsm.c\<close>. A step returns the machine and the
  output \<^verbatim>\<open>struct reac_fsm_out\<close>; the received frame is an option, as the pointer \<^verbatim>\<open>rx\<close> is.
\<close>

abbreviation (input) REAC_FSM_LINKCHECK_RELOAD :: int where "REAC_FSM_LINKCHECK_RELOAD \<equiv> 600"
abbreviation (input) REAC_FSM_TXMUTE_DWELL :: int where "REAC_FSM_TXMUTE_DWELL \<equiv> 800"
abbreviation (input) REAC_FSM_FLOOD_BURST :: int where "REAC_FSM_FLOOD_BURST \<equiv> 5460"
abbreviation (input) REAC_FSM_JOIN_RETRY_PERIOD :: int where "REAC_FSM_JOIN_RETRY_PERIOD \<equiv> 800"
abbreviation (input) REAC_FSM_GRANT_ACK_FRAMES :: int where "REAC_FSM_GRANT_ACK_FRAMES \<equiv> 7200"
abbreviation (input) REAC_FSM_COLDCONNECT_BUDGET_S :: int where "REAC_FSM_COLDCONNECT_BUDGET_S \<equiv> 4"
abbreviation (input) REAC_FSM_BACKOFF_S :: int where "REAC_FSM_BACKOFF_S \<equiv> 10"
abbreviation (input) HEARTBEAT_PERIOD :: int where "HEARTBEAT_PERIOD \<equiv> 8000"

datatype reac_fsm_state = FSM_PHY_DOWN | FSM_FLOOD_ANNOUNCE | FSM_COLDCONNECT | FSM_TX_MUTE
  | FSM_ESTABLISHED | FSM_DROP | FSM_BACKOFF
datatype reac_fsm_action = FSM_ACT_NONE | FSM_ACT_FLOOD_BCAST | FSM_ACT_UNICAST_COLDCONNECT
  | FSM_ACT_SILENCE | FSM_ACT_UNICAST_AUDIO | FSM_ACT_STOP
datatype reac_fsm_event = FSM_EV_PHY_UP | FSM_EV_PHY_DOWN | FSM_EV_RX | FSM_EV_TICK
datatype reac_fsm_drop_reason = FSM_DROP_NONE | FSM_DROP_EXPLICIT | FSM_DROP_PEER_GONE | FSM_DROP_MAC_CHANGE

record reac_fsm =
  fs_state :: reac_fsm_state
  fs_master_mac :: mac
  fs_have_master :: bool
  fs_link_check :: int
  fs_txmute_dwell :: int
  fs_heartbeat_tick :: int
  fs_heartbeat_period :: int
  fs_counter :: u16
  fs_flood_frames :: int
  fs_drop_reason :: reac_fsm_drop_reason
  fs_emit_heartbeat :: bool
  fs_emit_join :: bool
  fs_join_retry_countdown :: int
  fs_grant_ack :: int
  fs_coldconnect_frames :: int
  fs_backoff :: int

record reac_fsm_out =
  fo_action :: reac_fsm_action
  fo_state :: reac_fsm_state
  fo_emit_heartbeat :: bool
  fo_emit_join :: bool

definition reac_fsm_init :: reac_fsm where
  "reac_fsm_init = \<lparr> fs_state = FSM_PHY_DOWN, fs_master_mac = replicate 6 0, fs_have_master = False,
     fs_link_check = 0, fs_txmute_dwell = 0, fs_heartbeat_tick = 0, fs_heartbeat_period = HEARTBEAT_PERIOD,
     fs_counter = 0, fs_flood_frames = 0, fs_drop_reason = FSM_DROP_NONE, fs_emit_heartbeat = False,
     fs_emit_join = False, fs_join_retry_countdown = 0, fs_grant_ack = 0, fs_coldconnect_frames = 0,
     fs_backoff = 0 \<rparr>"

definition hb_period :: "reac_fsm \<Rightarrow> int" where
  "hb_period fsm = (if fs_heartbeat_period fsm > 0 then fs_heartbeat_period fsm else HEARTBEAT_PERIOD)"

definition frames_per_s :: "reac_fsm \<Rightarrow> int" where
  "frames_per_s fsm = hb_period fsm"

definition is_master_frame :: "reac_ctrl_parsed \<Rightarrow> bool" where
  "is_master_frame rx \<longleftrightarrow> pc_kind rx = REAC_CTRL_MASTER_HB \<or> pc_kind rx = REAC_CTRL_MASTER_ANNOUNCE
     \<or> pc_kind rx = REAC_CTRL_SCENE_TRANSFER \<or> pc_kind rx = REAC_CTRL_GRANT \<or> pc_kind rx = REAC_CTRL_HEADAMP"

definition learn_master :: "reac_fsm \<Rightarrow> reac_ctrl_parsed \<Rightarrow> reac_fsm" where
  "learn_master fsm rx = fsm \<lparr> fs_master_mac := pc_src rx, fs_have_master := True \<rparr>"

definition fsm_out :: "reac_fsm \<Rightarrow> reac_fsm_action \<Rightarrow> reac_fsm \<times> reac_fsm_out" where
  "fsm_out fsm a = (fsm \<lparr> fs_emit_heartbeat := False, fs_emit_join := False \<rparr>,
     \<lparr> fo_action = a, fo_state = fs_state fsm, fo_emit_heartbeat = fs_emit_heartbeat fsm,
       fo_emit_join = fs_emit_join fsm \<rparr>)"

definition arm_flood :: "reac_fsm \<Rightarrow> reac_fsm" where
  "arm_flood fsm = fsm \<lparr> fs_state := FSM_FLOOD_ANNOUNCE, fs_flood_frames := 0, fs_grant_ack := 0 \<rparr>"

definition arm_coldconnect :: "reac_fsm \<Rightarrow> reac_fsm" where
  "arm_coldconnect fsm = fsm \<lparr> fs_join_retry_countdown := 0, fs_coldconnect_frames := 0 \<rparr>"

definition flood_tick :: "reac_fsm \<Rightarrow> reac_fsm \<times> reac_fsm_out" where
  "flood_tick fsm =
     (let f1 = fsm \<lparr> fs_counter := fs_counter fsm + 1 \<rparr>;
          f2 = (if fs_flood_frames f1 < REAC_FSM_FLOOD_BURST
                then f1 \<lparr> fs_flood_frames := fs_flood_frames f1 + 1 \<rparr> else f1)
      in fsm_out f2 FSM_ACT_FLOOD_BCAST)"

definition coldconnect_tick :: "reac_fsm \<Rightarrow> reac_fsm \<times> reac_fsm_out" where
  "coldconnect_tick fsm =
     (let f1 = fsm \<lparr> fs_counter := fs_counter fsm + 1, fs_coldconnect_frames := fs_coldconnect_frames fsm + 1,
                     fs_join_retry_countdown := fs_join_retry_countdown fsm - 1 \<rparr>;
          f2 = (if fs_join_retry_countdown f1 \<le> 0
                then f1 \<lparr> fs_emit_join := True, fs_join_retry_countdown := REAC_FSM_JOIN_RETRY_PERIOD \<rparr> else f1)
      in fsm_out f2 FSM_ACT_UNICAST_COLDCONNECT)"

text \<open>The states' handlers, in the order of the \<^verbatim>\<open>switch\<close>.\<close>

definition step_phy_down :: "reac_fsm \<Rightarrow> reac_fsm_event \<Rightarrow> reac_fsm \<times> reac_fsm_out" where
  "step_phy_down fsm ev =
     (if ev = FSM_EV_PHY_UP then flood_tick ((arm_flood fsm) \<lparr> fs_counter := 0 \<rparr>)
      else fsm_out fsm FSM_ACT_STOP)"

definition learn_if_master :: "reac_fsm \<Rightarrow> reac_fsm_event \<Rightarrow> reac_ctrl_parsed option \<Rightarrow> reac_fsm" where
  "learn_if_master fsm ev rx' =
     (case rx' of Some rx \<Rightarrow> if ev = FSM_EV_RX \<and> is_master_frame rx then learn_master fsm rx else fsm
      | None \<Rightarrow> fsm)"

definition rx_kind_is :: "reac_fsm_event \<Rightarrow> reac_ctrl_parsed option \<Rightarrow> reac_ctrl_kind \<Rightarrow> bool" where
  "rx_kind_is ev rx' k \<longleftrightarrow> ev = FSM_EV_RX \<and> (case rx' of Some rx \<Rightarrow> pc_kind rx = k | None \<Rightarrow> False)"

definition step_flood :: "reac_fsm \<Rightarrow> reac_fsm_event \<Rightarrow> reac_ctrl_parsed option \<Rightarrow> reac_fsm \<times> reac_fsm_out" where
  "step_flood fsm ev rx =
     (let f1 = learn_if_master fsm ev rx in
      if rx_kind_is ev rx REAC_CTRL_GRANT then
        coldconnect_tick (arm_coldconnect (f1 \<lparr> fs_state := FSM_COLDCONNECT \<rparr>))
      else let (f2, o') = flood_tick f1 in
        if fs_flood_frames f2 \<ge> REAC_FSM_FLOOD_BURST \<and> fs_have_master f2
        then (arm_coldconnect (f2 \<lparr> fs_state := FSM_COLDCONNECT \<rparr>), o') else (f2, o'))"

definition step_coldconnect :: "reac_fsm \<Rightarrow> reac_fsm_event \<Rightarrow> reac_ctrl_parsed option \<Rightarrow> reac_fsm \<times> reac_fsm_out" where
  "step_coldconnect fsm ev rx =
     (let f1 = learn_if_master fsm ev rx;
          f2 = (if rx_kind_is ev rx REAC_CTRL_GRANT \<and> fs_grant_ack f1 = 0
                then f1 \<lparr> fs_grant_ack := REAC_FSM_GRANT_ACK_FRAMES \<rparr> else f1) in
      if \<not> fs_have_master f2 then flood_tick (arm_flood f2)
      else let f3 = (if fs_grant_ack f2 > 0 then f2 \<lparr> fs_grant_ack := fs_grant_ack f2 - 1 \<rparr> else f2) in
      if fs_grant_ack f2 > 0 \<and> fs_grant_ack f3 = 0 then
        fsm_out (f3 \<lparr> fs_state := FSM_TX_MUTE, fs_txmute_dwell := REAC_FSM_TXMUTE_DWELL,
                     fs_link_check := REAC_FSM_LINKCHECK_RELOAD \<rparr>) FSM_ACT_SILENCE
      else if fs_grant_ack f3 = 0
              \<and> fs_coldconnect_frames f3 \<ge> REAC_FSM_COLDCONNECT_BUDGET_S * frames_per_s f3 then
        fsm_out (f3 \<lparr> fs_state := FSM_BACKOFF, fs_backoff := REAC_FSM_BACKOFF_S * frames_per_s f3 \<rparr>) FSM_ACT_STOP
      else coldconnect_tick f3)"

definition step_backoff :: "reac_fsm \<Rightarrow> reac_fsm \<times> reac_fsm_out" where
  "step_backoff fsm =
     (let f1 = fsm \<lparr> fs_backoff := fs_backoff fsm - 1 \<rparr> in
      if fs_backoff f1 \<le> 0 then flood_tick (arm_flood f1) else fsm_out f1 FSM_ACT_STOP)"

definition step_tx_mute :: "reac_fsm \<Rightarrow> reac_fsm_event \<Rightarrow> reac_fsm \<times> reac_fsm_out" where
  "step_tx_mute fsm ev =
     (if ev = FSM_EV_TICK \<or> ev = FSM_EV_RX then
        let f1 = fsm \<lparr> fs_counter := fs_counter fsm + 1, fs_txmute_dwell := fs_txmute_dwell fsm - 1 \<rparr> in
        if fs_txmute_dwell f1 \<le> 0 then
          fsm_out (f1 \<lparr> fs_state := FSM_ESTABLISHED, fs_link_check := REAC_FSM_LINKCHECK_RELOAD,
                       fs_heartbeat_tick := 0 \<rparr>) FSM_ACT_UNICAST_AUDIO
        else fsm_out f1 FSM_ACT_SILENCE
      else fsm_out fsm FSM_ACT_SILENCE)"

definition heartbeat_turn :: "reac_fsm \<Rightarrow> reac_fsm" where
  "heartbeat_turn fsm =
     (let f1 = fsm \<lparr> fs_heartbeat_tick := fs_heartbeat_tick fsm + 1 \<rparr> in
      if fs_heartbeat_tick f1 \<ge> hb_period f1
      then f1 \<lparr> fs_heartbeat_tick := 0, fs_emit_heartbeat := True \<rparr> else f1)"

definition step_established :: "reac_fsm \<Rightarrow> reac_fsm_event \<Rightarrow> reac_ctrl_parsed option \<Rightarrow> reac_fsm \<times> reac_fsm_out" where
  "step_established fsm ev rx' =
     (case (ev, rx') of
        (FSM_EV_RX, Some rx) \<Rightarrow>
          if fs_have_master fsm \<and> pc_src rx \<noteq> fs_master_mac fsm \<and> is_master_frame rx then
            fsm_out (fsm \<lparr> fs_state := FSM_DROP, fs_drop_reason := FSM_DROP_MAC_CHANGE \<rparr>) FSM_ACT_STOP
          else let f1 = (if pc_kind rx = REAC_CTRL_MASTER_HB \<or> pc_kind rx = REAC_CTRL_MASTER_ANNOUNCE
                         then fsm \<lparr> fs_link_check := REAC_FSM_LINKCHECK_RELOAD \<rparr> else fsm)
               in fsm_out (heartbeat_turn f1) FSM_ACT_UNICAST_AUDIO
      | _ \<Rightarrow>
          let f1 = fsm \<lparr> fs_counter := fs_counter fsm + 1, fs_link_check := fs_link_check fsm - 1 \<rparr> in
          if fs_link_check f1 \<le> 0 then
            fsm_out (f1 \<lparr> fs_state := FSM_DROP, fs_drop_reason := FSM_DROP_PEER_GONE \<rparr>) FSM_ACT_STOP
          else fsm_out (heartbeat_turn f1) FSM_ACT_UNICAST_AUDIO)"

definition step_drop :: "reac_fsm \<Rightarrow> reac_fsm_event \<Rightarrow> reac_fsm \<times> reac_fsm_out" where
  "step_drop fsm ev =
     (if ev = FSM_EV_PHY_UP \<or> ev = FSM_EV_TICK \<or> ev = FSM_EV_RX
      then flood_tick (arm_flood (fsm \<lparr> fs_have_master := False \<rparr>))
      else fsm_out fsm FSM_ACT_STOP)"

definition reac_fsm_step :: "reac_fsm \<Rightarrow> reac_fsm_event \<Rightarrow> reac_ctrl_parsed option \<Rightarrow> reac_fsm \<times> reac_fsm_out" where
  "reac_fsm_step fsm ev rx =
     (if ev = FSM_EV_PHY_DOWN
      then fsm_out (fsm \<lparr> fs_state := FSM_PHY_DOWN, fs_have_master := False \<rparr>) FSM_ACT_STOP
      else case fs_state fsm of
        FSM_PHY_DOWN \<Rightarrow> step_phy_down fsm ev
      | FSM_FLOOD_ANNOUNCE \<Rightarrow> step_flood fsm ev rx
      | FSM_COLDCONNECT \<Rightarrow> step_coldconnect fsm ev rx
      | FSM_BACKOFF \<Rightarrow> step_backoff fsm
      | FSM_TX_MUTE \<Rightarrow> step_tx_mute fsm ev
      | FSM_ESTABLISHED \<Rightarrow> step_established fsm ev rx
      | FSM_DROP \<Rightarrow> step_drop fsm ev)"

lemmas fsm_step_defs = reac_fsm_step_def step_phy_down_def step_flood_def step_coldconnect_def step_backoff_def
  step_tx_mute_def step_established_def step_drop_def flood_tick_def coldconnect_tick_def fsm_out_def
  arm_flood_def arm_coldconnect_def learn_if_master_def learn_master_def heartbeat_turn_def

section \<open>The invariant\<close>

definition fsm_counts :: "reac_fsm \<Rightarrow> bool" where
  "fsm_counts f \<longleftrightarrow> 0 \<le> fs_flood_frames f \<and> fs_flood_frames f \<le> 5460
     \<and> 0 \<le> fs_grant_ack f \<and> fs_grant_ack f \<le> 7200 \<and> \<not> fs_emit_heartbeat f \<and> \<not> fs_emit_join f"

text \<open>Per state: what the handlers rely on.\<close>

definition fsm_state_inv :: "reac_fsm \<Rightarrow> bool" where
  "fsm_state_inv f = (case fs_state f of
       FSM_COLDCONNECT \<Rightarrow> fs_have_master f \<and> 0 \<le> fs_join_retry_countdown f \<and> fs_join_retry_countdown f \<le> 800
         \<and> 0 \<le> fs_coldconnect_frames f
         \<and> fs_coldconnect_frames f + fs_grant_ack f \<le> 4 * hb_period f + 7200
         \<and> (fs_grant_ack f = 0 \<longrightarrow> fs_coldconnect_frames f \<le> 4 * hb_period f)
     | FSM_TX_MUTE \<Rightarrow> fs_have_master f \<and> 0 < fs_txmute_dwell f \<and> fs_txmute_dwell f \<le> 800
     | FSM_ESTABLISHED \<Rightarrow> fs_have_master f \<and> 0 < fs_link_check f \<and> fs_link_check f \<le> 600
         \<and> 0 \<le> fs_heartbeat_tick f \<and> fs_heartbeat_tick f < hb_period f
     | FSM_BACKOFF \<Rightarrow> 0 < fs_backoff f \<and> fs_backoff f \<le> 10 * hb_period f
     | FSM_FLOOD_ANNOUNCE \<Rightarrow> fs_grant_ack f = 0
     | FSM_PHY_DOWN \<Rightarrow> \<not> fs_have_master f
     | FSM_DROP \<Rightarrow> True)"

definition fsm_inv :: "reac_fsm \<Rightarrow> bool" where
  "fsm_inv f \<longleftrightarrow> fsm_counts f \<and> fsm_state_inv f"

lemmas fsm_inv_defs = fsm_inv_def fsm_counts_def fsm_state_inv_def hb_period_def

lemma fsm_inv_init: "fsm_inv reac_fsm_init"
  by (simp add: fsm_inv_defs reac_fsm_init_def)

lemma grant_is_master: "rx_kind_is ev rx REAC_CTRL_GRANT \<Longrightarrow> fs_have_master (learn_if_master f ev rx)"
  by (auto simp: rx_kind_is_def learn_if_master_def is_master_frame_def learn_master_def split: option.splits)

lemma learn_if_master_fields [simp]:
  "fs_state (learn_if_master f ev rx) = fs_state f" "fs_flood_frames (learn_if_master f ev rx) = fs_flood_frames f"
  "fs_grant_ack (learn_if_master f ev rx) = fs_grant_ack f"
  "fs_emit_heartbeat (learn_if_master f ev rx) = fs_emit_heartbeat f"
  "fs_emit_join (learn_if_master f ev rx) = fs_emit_join f"
  "fs_heartbeat_period (learn_if_master f ev rx) = fs_heartbeat_period f"
  "fs_join_retry_countdown (learn_if_master f ev rx) = fs_join_retry_countdown f"
  "fs_coldconnect_frames (learn_if_master f ev rx) = fs_coldconnect_frames f"
  "fs_have_master f \<Longrightarrow> fs_have_master (learn_if_master f ev rx)"
  by (auto simp: learn_if_master_def learn_master_def split: option.splits)

lemma inv_phy_down: "fsm_inv f \<Longrightarrow> fs_state f = FSM_PHY_DOWN \<Longrightarrow> fsm_inv (fst (step_phy_down f ev))"
  by (auto simp: fsm_inv_defs step_phy_down_def flood_tick_def arm_flood_def fsm_out_def Let_def)

lemma inv_flood: "fsm_inv f \<Longrightarrow> fs_state f = FSM_FLOOD_ANNOUNCE \<Longrightarrow> fsm_inv (fst (step_flood f ev rx))"
  using grant_is_master [of ev rx f]
  by (auto simp: fsm_inv_defs step_flood_def flood_tick_def coldconnect_tick_def arm_coldconnect_def fsm_out_def Let_def)

lemma inv_coldconnect: "fsm_inv f \<Longrightarrow> fs_state f = FSM_COLDCONNECT \<Longrightarrow> fsm_inv (fst (step_coldconnect f ev rx))"
  by (auto simp: fsm_inv_defs step_coldconnect_def coldconnect_tick_def frames_per_s_def fsm_out_def Let_def)

lemma inv_backoff: "fsm_inv f \<Longrightarrow> fs_state f = FSM_BACKOFF \<Longrightarrow> fsm_inv (fst (step_backoff f))"
  by (auto simp: fsm_inv_defs step_backoff_def flood_tick_def arm_flood_def fsm_out_def Let_def)

lemma inv_tx_mute: "fsm_inv f \<Longrightarrow> fs_state f = FSM_TX_MUTE \<Longrightarrow> fsm_inv (fst (step_tx_mute f ev))"
  by (auto simp: fsm_inv_defs step_tx_mute_def fsm_out_def Let_def)

lemma heartbeat_turn_inv:
  assumes "0 \<le> fs_heartbeat_tick f" and "fs_heartbeat_tick f < hb_period f"
  shows "0 \<le> fs_heartbeat_tick (heartbeat_turn f)" "fs_heartbeat_tick (heartbeat_turn f) < hb_period f"
    "fs_state (heartbeat_turn f) = fs_state f" "fs_link_check (heartbeat_turn f) = fs_link_check f"
    "fs_have_master (heartbeat_turn f) = fs_have_master f" "fs_flood_frames (heartbeat_turn f) = fs_flood_frames f"
    "fs_grant_ack (heartbeat_turn f) = fs_grant_ack f" "fs_heartbeat_period (heartbeat_turn f) = fs_heartbeat_period f"
    "fs_emit_join (heartbeat_turn f) = fs_emit_join f"
  using assms by (auto simp: heartbeat_turn_def Let_def hb_period_def)

lemma inv_established: "fsm_inv f \<Longrightarrow> fs_state f = FSM_ESTABLISHED \<Longrightarrow> fsm_inv (fst (step_established f ev rx))"
  by (auto simp: fsm_inv_defs step_established_def fsm_out_def Let_def heartbeat_turn_def
      split: reac_fsm_event.splits option.splits)

lemma inv_drop: "fsm_inv f \<Longrightarrow> fs_state f = FSM_DROP \<Longrightarrow> fsm_inv (fst (step_drop f ev))"
  by (auto simp: fsm_inv_defs step_drop_def flood_tick_def arm_flood_def fsm_out_def Let_def)

lemma fsm_inv_step: "fsm_inv f \<Longrightarrow> fsm_inv (fst (reac_fsm_step f ev rx))"
  by (cases "fs_state f")
    (auto simp: reac_fsm_step_def inv_phy_down inv_flood inv_coldconnect inv_backoff inv_tx_mute inv_established inv_drop,
     auto simp: fsm_inv_defs fsm_out_def)

definition fsm_next :: "reac_fsm \<Rightarrow> reac_fsm_event \<times> reac_ctrl_parsed option \<Rightarrow> reac_fsm" where
  "fsm_next f e = fst (reac_fsm_step f (fst e) (snd e))"

interpretation fsm_machine: invariant_machine fsm_next fsm_inv "\<lambda>_. True"
  by unfold_locales (simp add: fsm_next_def fsm_inv_step)

section \<open>Runs of ticks\<close>

fun tick_run :: "nat \<Rightarrow> reac_fsm \<Rightarrow> reac_fsm \<times> reac_fsm_out list" where
  "tick_run 0 f = (f, [])"
| "tick_run (Suc n) f =
     (let (f1, x) = reac_fsm_step f FSM_EV_TICK None; (f2, xs) = tick_run n f1 in (f2, x # xs))"

lemma tick_run_Suc:
  "fst (tick_run (Suc n) f) = fst (tick_run n (fst (reac_fsm_step f FSM_EV_TICK None)))"
  "snd (tick_run (Suc n) f) = snd (reac_fsm_step f FSM_EV_TICK None) # snd (tick_run n (fst (reac_fsm_step f FSM_EV_TICK None)))"
  by (simp_all add: split_beta Let_def)

declare tick_run.simps(2) [simp del]

lemma tick_run_add:
  "fst (tick_run (m + n) f) = fst (tick_run n (fst (tick_run m f)))"
  "snd (tick_run (m + n) f) = snd (tick_run m f) @ snd (tick_run n (fst (tick_run m f)))"
  by (induction m arbitrary: f) (simp_all add: tick_run_Suc)

lemma tick_run_inv: "fsm_inv f \<Longrightarrow> fsm_inv (fst (tick_run n f))"
  by (induction n arbitrary: f) (simp_all add: tick_run_Suc fsm_inv_step)

text \<open>A tick while waiting out the grant acknowledgement.\<close>

lemma cold_tick:
  assumes "fs_state f = FSM_COLDCONNECT" and "fs_have_master f" and "1 < fs_grant_ack f"
    and "\<not> fs_emit_join f" and "\<not> fs_emit_heartbeat f"
  defines "g \<equiv> fst (reac_fsm_step f FSM_EV_TICK None)" and "x \<equiv> snd (reac_fsm_step f FSM_EV_TICK None)"
  shows "fs_state g = FSM_COLDCONNECT" "fs_have_master g" "fs_grant_ack g = fs_grant_ack f - 1"
    "\<not> fs_emit_join g" "\<not> fs_emit_heartbeat g" "fo_action x = FSM_ACT_UNICAST_COLDCONNECT"
    "fo_emit_join x \<longleftrightarrow> fs_join_retry_countdown f \<le> 1"
    "fs_join_retry_countdown g = (if fs_join_retry_countdown f \<le> 1 then 800 else fs_join_retry_countdown f - 1)"
  using assms(1-5) unfolding g_def x_def by (simp_all add: fsm_step_defs rx_kind_is_def Let_def)

definition joins :: "reac_fsm_out list \<Rightarrow> nat" where
  "joins xs = length (filter fo_emit_join xs)"

lemma cold_run:
  assumes "fs_state f = FSM_COLDCONNECT" and "fs_have_master f" and "int n < fs_grant_ack f"
    and "\<not> fs_emit_join f" and "\<not> fs_emit_heartbeat f" and "fs_join_retry_countdown f \<le> 800"
  defines "g \<equiv> fst (tick_run n f)"
  shows "fs_state g = FSM_COLDCONNECT \<and> fs_have_master g \<and> fs_grant_ack g = fs_grant_ack f - int n
    \<and> \<not> fs_emit_join g \<and> \<not> fs_emit_heartbeat g \<and> fs_join_retry_countdown g \<le> 800
    \<and> (0 < n \<longrightarrow> 1 \<le> fs_join_retry_countdown g)
    \<and> int n + fs_join_retry_countdown g \<le> 800 * int (joins (snd (tick_run n f))) + max 1 (fs_join_retry_countdown f)"
  unfolding g_def using assms(1-6)
proof (induction n arbitrary: f)
  case (Suc n)
  let ?f1 = "fst (reac_fsm_step f FSM_EV_TICK None)"
  have g: "1 < fs_grant_ack f" using Suc.prems(3) by simp
  note t = cold_tick [OF Suc.prems(1,2) g Suc.prems(4,5)]
  have c1: "fs_join_retry_countdown ?f1 \<le> 800" using t(8) Suc.prems(6) by simp
  have n1: "int n < fs_grant_ack ?f1" using t(3) Suc.prems(3) by simp
  note ih = Suc.IH [OF t(1,2) n1 t(4,5) c1]
  have j: "joins (snd (tick_run (Suc n) f)) = (if fs_join_retry_countdown f \<le> 1 then 1 else 0) + joins (snd (tick_run n ?f1))"
    using t(7) by (simp add: joins_def tick_run_Suc)
  have k: "0 < n \<or> tick_run n ?f1 = (?f1, [])" by (cases n) simp_all
  show ?case using ih t(3,8) j k by (auto simp: tick_run_Suc split: if_splits)
qed (simp add: joins_def)

lemma mute_run:
  assumes "fs_state f = FSM_TX_MUTE" and "int n < fs_txmute_dwell f"
  shows "fs_state (fst (tick_run n f)) = FSM_TX_MUTE \<and> fs_txmute_dwell (fst (tick_run n f)) = fs_txmute_dwell f - int n"
  using assms
proof (induction n arbitrary: f)
  case (Suc n)
  have "fs_state (fst (reac_fsm_step f FSM_EV_TICK None)) = FSM_TX_MUTE"
    "fs_txmute_dwell (fst (reac_fsm_step f FSM_EV_TICK None)) = fs_txmute_dwell f - 1"
    using Suc.prems by (simp_all add: fsm_step_defs Let_def)
  then show ?case using Suc.IH [of "fst (reac_fsm_step f FSM_EV_TICK None)"] Suc.prems by (simp add: tick_run_Suc)
qed simp

text \<open>What a run of ticks puts on the wire while the slave acknowledges a grant and while it is mute.\<close>

lemma cold_actions:
  assumes "fs_state f = FSM_COLDCONNECT" and "fs_have_master f" and "int n < fs_grant_ack f"
    and "\<not> fs_emit_join f" and "\<not> fs_emit_heartbeat f"
  shows "map fo_action (snd (tick_run n f)) = replicate n FSM_ACT_UNICAST_COLDCONNECT"
  using assms
proof (induction n arbitrary: f)
  case (Suc n)
  have g: "1 < fs_grant_ack f" using Suc.prems(3) by simp
  note t = cold_tick [OF Suc.prems(1,2) g Suc.prems(4,5)]
  have "int n < fs_grant_ack (fst (reac_fsm_step f FSM_EV_TICK None))" using t(3) Suc.prems(3) by simp
  from Suc.IH [OF t(1,2) this t(4,5)] t(6) show ?case by (simp add: tick_run_Suc)
qed simp

lemma mute_actions:
  assumes "fs_state f = FSM_TX_MUTE" and "int n < fs_txmute_dwell f"
  shows "map fo_action (snd (tick_run n f)) = replicate n FSM_ACT_SILENCE"
  using assms
proof (induction n arbitrary: f)
  case (Suc n)
  have "fs_state (fst (reac_fsm_step f FSM_EV_TICK None)) = FSM_TX_MUTE"
    "fs_txmute_dwell (fst (reac_fsm_step f FSM_EV_TICK None)) = fs_txmute_dwell f - 1"
    "fo_action (snd (reac_fsm_step f FSM_EV_TICK None)) = FSM_ACT_SILENCE"
    using Suc.prems by (simp_all add: fsm_step_defs Let_def)
  then show ?case using Suc.IH [of "fst (reac_fsm_step f FSM_EV_TICK None)"] Suc.prems by (simp add: tick_run_Suc)
qed simp

text \<open>The mute from its first silent frame: 799 more of them, then audio.\<close>

lemma mute_to_established:
  assumes "fs_state f = FSM_TX_MUTE" and "fs_txmute_dwell f = 800"
  shows "i < 800 \<Longrightarrow> fs_state (fst (tick_run i f)) = FSM_TX_MUTE"
    and "fs_state (fst (tick_run 800 f)) = FSM_ESTABLISHED"
    and "map fo_action (snd (tick_run 800 f)) = replicate 799 FSM_ACT_SILENCE @ [FSM_ACT_UNICAST_AUDIO]"
proof -
  let ?h = "fst (tick_run 799 f)"
  have h: "fs_state ?h = FSM_TX_MUTE" "fs_txmute_dwell ?h = 1"
    using mute_run [OF assms(1), of 799] assms(2) by simp_all
  have l: "fs_state (fst (tick_run 1 ?h)) = FSM_ESTABLISHED"
    "map fo_action (snd (tick_run 1 ?h)) = [FSM_ACT_UNICAST_AUDIO]"
    using h tick_run_Suc [of 0 ?h] by (simp_all add: fsm_step_defs Let_def)
  show "i < 800 \<Longrightarrow> fs_state (fst (tick_run i f)) = FSM_TX_MUTE"
    using mute_run [OF assms(1), of i] assms(2) by simp
  show "fs_state (fst (tick_run 800 f)) = FSM_ESTABLISHED"
    using l(1) tick_run_add(1) [of 799 1 f] by simp
  show "map fo_action (snd (tick_run 800 f)) = replicate 799 FSM_ACT_SILENCE @ [FSM_ACT_UNICAST_AUDIO]"
    using l(2) tick_run_add(2) [of 799 1 f] mute_actions [OF assms(1), of 799] assms(2) by simp
qed

lemma grant_rx_step:
  fixes rx :: reac_ctrl_parsed
  assumes "fsm_inv f" and "fs_state f = FSM_COLDCONNECT" and "fs_grant_ack f = 0" and "pc_kind rx = REAC_CTRL_GRANT"
  defines "g \<equiv> fst (reac_fsm_step f FSM_EV_RX (Some rx))" and "x \<equiv> snd (reac_fsm_step f FSM_EV_RX (Some rx))"
  shows "fs_state g = FSM_COLDCONNECT" "fs_have_master g" "fs_grant_ack g = 7199" "\<not> fs_emit_join g"
    "\<not> fs_emit_heartbeat g" "fs_join_retry_countdown g \<le> 800"
    "1 + fs_join_retry_countdown g \<le> 800 * (if fo_emit_join x then 1 else 0) + 800"
    "1 \<le> fs_join_retry_countdown g" "fo_action x = FSM_ACT_UNICAST_COLDCONNECT"
  using assms(1-4) unfolding g_def x_def
  by (auto simp: fsm_step_defs rx_kind_is_def Let_def is_master_frame_def fsm_inv_defs split: option.splits)

section \<open>Properties\<close>

text \<open>The output of one step from a state of the invariant.\<close>

lemma fsm_step_output:
  assumes i: "fsm_inv f"
  shows "fo_action (snd (reac_fsm_step f ev rx)) = FSM_ACT_UNICAST_AUDIO \<longleftrightarrow> fs_state (fst (reac_fsm_step f ev rx)) = FSM_ESTABLISHED"
    and "fo_action (snd (reac_fsm_step f ev rx)) = FSM_ACT_UNICAST_COLDCONNECT \<Longrightarrow>
      fs_state (fst (reac_fsm_step f ev rx)) = FSM_COLDCONNECT \<and> fs_have_master (fst (reac_fsm_step f ev rx))"
    and "fo_action (snd (reac_fsm_step f ev rx)) = FSM_ACT_FLOOD_BCAST \<Longrightarrow> fo_state (snd (reac_fsm_step f ev rx)) = FSM_FLOOD_ANNOUNCE"
    and "fo_action (snd (reac_fsm_step f ev rx)) = FSM_ACT_STOP \<longleftrightarrow>
      fs_state (fst (reac_fsm_step f ev rx)) \<in> {FSM_PHY_DOWN, FSM_DROP, FSM_BACKOFF}"
    and "fo_emit_heartbeat (snd (reac_fsm_step f ev rx)) \<Longrightarrow> fo_action (snd (reac_fsm_step f ev rx)) = FSM_ACT_UNICAST_AUDIO"
    and "fo_emit_join (snd (reac_fsm_step f ev rx)) \<Longrightarrow> fo_action (snd (reac_fsm_step f ev rx)) = FSM_ACT_UNICAST_COLDCONNECT"
    and "fo_action (snd (reac_fsm_step f ev rx)) = FSM_ACT_SILENCE \<longleftrightarrow> fs_state (fst (reac_fsm_step f ev rx)) = FSM_TX_MUTE"
proof -
  have em: "\<not> fs_emit_heartbeat f" "\<not> fs_emit_join f" using i by (simp_all add: fsm_inv_def fsm_counts_def)
  have hm: "fs_state f = FSM_COLDCONNECT \<Longrightarrow> fs_have_master f" using i by (simp add: fsm_inv_def fsm_state_inv_def)
  note defs = reac_fsm_step_def step_phy_down_def step_flood_def step_coldconnect_def
        step_backoff_def step_tx_mute_def step_established_def step_drop_def flood_tick_def coldconnect_tick_def
        fsm_out_def arm_flood_def arm_coldconnect_def heartbeat_turn_def Let_def grant_is_master
  show "fo_action (snd (reac_fsm_step f ev rx)) = FSM_ACT_UNICAST_AUDIO \<longleftrightarrow> fs_state (fst (reac_fsm_step f ev rx)) = FSM_ESTABLISHED"
    "fo_action (snd (reac_fsm_step f ev rx)) = FSM_ACT_UNICAST_COLDCONNECT \<Longrightarrow>
      fs_state (fst (reac_fsm_step f ev rx)) = FSM_COLDCONNECT \<and> fs_have_master (fst (reac_fsm_step f ev rx))"
    "fo_action (snd (reac_fsm_step f ev rx)) = FSM_ACT_FLOOD_BCAST \<Longrightarrow> fo_state (snd (reac_fsm_step f ev rx)) = FSM_FLOOD_ANNOUNCE"
    "fo_action (snd (reac_fsm_step f ev rx)) = FSM_ACT_STOP \<longleftrightarrow>
      fs_state (fst (reac_fsm_step f ev rx)) \<in> {FSM_PHY_DOWN, FSM_DROP, FSM_BACKOFF}"
    "fo_emit_heartbeat (snd (reac_fsm_step f ev rx)) \<Longrightarrow> fo_action (snd (reac_fsm_step f ev rx)) = FSM_ACT_UNICAST_AUDIO"
    "fo_emit_join (snd (reac_fsm_step f ev rx)) \<Longrightarrow> fo_action (snd (reac_fsm_step f ev rx)) = FSM_ACT_UNICAST_COLDCONNECT"
    "fo_action (snd (reac_fsm_step f ev rx)) = FSM_ACT_SILENCE \<longleftrightarrow> fs_state (fst (reac_fsm_step f ev rx)) = FSM_TX_MUTE"
    using em hm by (cases "fs_state f"; cases ev; auto simp: defs split: option.splits if_splits)+
qed

text \<open>C25: the slave transmits only what its link state allows. From power-up, whatever events and
  frames arrive, a step's output is audio only in the established state, cold-connect frames only
  while courting a known master, broadcast flood only while announcing, and nothing at all when the
  link is down, dropped or backing off; the heartbeat and the join marks ride only on their own
  frames.\<close>

theorem fsm_output_matches_state:
  fixes es :: "(reac_fsm_event \<times> reac_ctrl_parsed option) list" and ev :: reac_fsm_event and rx :: "reac_ctrl_parsed option"
  defines "f \<equiv> foldl fsm_next reac_fsm_init es"
  defines "g \<equiv> fst (reac_fsm_step f ev rx)" and "x \<equiv> snd (reac_fsm_step f ev rx)"
  shows "fsm_inv g
    \<and> (fo_action x = FSM_ACT_UNICAST_AUDIO \<longleftrightarrow> fs_state g = FSM_ESTABLISHED)
    \<and> (fo_action x = FSM_ACT_UNICAST_COLDCONNECT \<longrightarrow> fs_state g = FSM_COLDCONNECT \<and> fs_have_master g)
    \<and> (fo_action x = FSM_ACT_FLOOD_BCAST \<longrightarrow> fo_state x = FSM_FLOOD_ANNOUNCE)
    \<and> (fo_action x = FSM_ACT_STOP \<longleftrightarrow> fs_state g \<in> {FSM_PHY_DOWN, FSM_DROP, FSM_BACKOFF})
    \<and> (fo_emit_heartbeat x \<longrightarrow> fo_action x = FSM_ACT_UNICAST_AUDIO)
    \<and> (fo_emit_join x \<longrightarrow> fo_action x = FSM_ACT_UNICAST_COLDCONNECT)"
proof -
  have i: "fsm_inv f" unfolding f_def
    by (rule fsm_machine.inv_run) (simp_all add: fsm_inv_init list_all_iff)
  then have ig: "fsm_inv g" unfolding g_def by (rule fsm_inv_step)
  show ?thesis using ig fsm_step_output [OF i, of ev rx] unfolding g_def x_def by blast
qed

theorem fsm_output_matches_state_witness:
  "fo_action (snd (reac_fsm_step (foldl fsm_next reac_fsm_init [(FSM_EV_PHY_UP, None)]) FSM_EV_TICK None)) = FSM_ACT_FLOOD_BCAST
   \<and> fo_state (snd (reac_fsm_step (foldl fsm_next reac_fsm_init [(FSM_EV_PHY_UP, None)]) FSM_EV_TICK None)) = FSM_FLOOD_ANNOUNCE"
proof -
  have "fo_action (snd (reac_fsm_step (foldl fsm_next reac_fsm_init [(FSM_EV_PHY_UP, None)]) FSM_EV_TICK None)) = FSM_ACT_FLOOD_BCAST"
    by code_simp
  with fsm_output_matches_state [of "[(FSM_EV_PHY_UP, None)]" FSM_EV_TICK None] show ?thesis by blast
qed

text \<open>From the grant on: what each tick leaves the slave in and what it sends.\<close>

lemma grant_ack_joins:
  assumes "fsm_inv f" and "fs_state f = FSM_COLDCONNECT" and "fs_grant_ack f = 0" and "pc_kind rx = REAC_CTRL_GRANT"
  defines "g \<equiv> fst (reac_fsm_step f FSM_EV_RX (Some rx))" and "x \<equiv> snd (reac_fsm_step f FSM_EV_RX (Some rx))"
  shows "8 \<le> joins (x # snd (tick_run 7198 g))"
proof -
  note r = grant_rx_step [OF assms(1-4), folded g_def x_def]
  let ?h = "fst (tick_run 7198 g)"
  note c = cold_run [OF r(1,2) _ r(4-6), of 7198, simplified r(3), simplified]
  have "7198 + fs_join_retry_countdown ?h \<le> 800 * int (joins (snd (tick_run 7198 g))) + fs_join_retry_countdown g"
    using c r(8) by (simp add: max_def split: if_splits)
  moreover have "1 \<le> fs_join_retry_countdown ?h" using c by simp
  moreover have "int (joins (x # snd (tick_run 7198 g))) = (if fo_emit_join x then 1 else 0) + int (joins (snd (tick_run 7198 g)))"
    by (simp add: joins_def)
  ultimately show ?thesis using r(7) by (auto split: if_splits)
qed

text \<open>C34: the first grant is answered in full, on an exact timetable, and the link comes up. From
  courting, the step that takes the grant and the 7198 ticks after it keep the slave courting and
  send 7199 cold-connect frames, at least eight of them with the join block, so that all eight
  escalation phases are re-sent whatever the alignment of the retry grid; the next 800 ticks send
  nothing at all, and the slave is in the mute state after each of them; the tick after those
  leaves it established and sends the first audio frame.\<close>

theorem grant_leads_to_established:
  assumes "fsm_inv f" and "fs_state f = FSM_COLDCONNECT" and "fs_grant_ack f = 0" and "pc_kind rx = REAC_CTRL_GRANT"
  defines "g \<equiv> fst (reac_fsm_step f FSM_EV_RX (Some rx))" and "x \<equiv> snd (reac_fsm_step f FSM_EV_RX (Some rx))"
  shows "8 \<le> joins (x # snd (tick_run 7198 g))
    \<and> (\<forall>n \<le> 7198. fs_state (fst (tick_run n g)) = FSM_COLDCONNECT)
    \<and> (\<forall>n. 7199 \<le> n \<and> n < 7999 \<longrightarrow> fs_state (fst (tick_run n g)) = FSM_TX_MUTE)
    \<and> fs_state (fst (tick_run 7999 g)) = FSM_ESTABLISHED
    \<and> map fo_action (x # snd (tick_run 7999 g)) =
        replicate 7199 FSM_ACT_UNICAST_COLDCONNECT @ replicate 800 FSM_ACT_SILENCE @ [FSM_ACT_UNICAST_AUDIO]"
proof -
  note r = grant_rx_step [OF assms(1-4), folded g_def x_def]
  let ?h = "fst (tick_run 7198 g)" and ?m = "fst (tick_run 7199 g)"
  have cold: "fs_state (fst (tick_run n g)) = FSM_COLDCONNECT \<and> fs_have_master (fst (tick_run n g))
      \<and> fs_grant_ack (fst (tick_run n g)) = 7199 - int n" if "n \<le> 7198" for n
    using cold_run [OF r(1,2) _ r(4-6), of n] r(3) that by simp
  have s: "tick_run 1 ?h = (?m, [snd (reac_fsm_step ?h FSM_EV_TICK None)])"
    using tick_run_add(1) [of 7198 1 g] tick_run_Suc(2) [of 0 ?h] by (simp add: prod_eq_iff)
  then have "?m = fst (reac_fsm_step ?h FSM_EV_TICK None)" using tick_run_Suc(1) [of 0 ?h] by simp
  then have m: "fs_state ?m = FSM_TX_MUTE" "fs_txmute_dwell ?m = 800"
    "fo_action (snd (reac_fsm_step ?h FSM_EV_TICK None)) = FSM_ACT_SILENCE"
    using cold [of 7198] by (simp_all add: fsm_step_defs rx_kind_is_def Let_def)
  note e = mute_to_established [OF m(1,2)]
  have mute: "fs_state (fst (tick_run n g)) = FSM_TX_MUTE" if "7199 \<le> n" "n < 7999" for n
    using e(1) [of "n - 7199"] tick_run_add(1) [of 7199 "n - 7199" g] that by simp
  have "map fo_action (snd (tick_run 7198 g)) = replicate 7198 FSM_ACT_UNICAST_COLDCONNECT"
    using cold_actions [OF r(1,2) _ r(4,5), of 7198] r(3) by simp
  then have a: "map fo_action (snd (tick_run 7199 g)) = replicate 7198 FSM_ACT_UNICAST_COLDCONNECT @ [FSM_ACT_SILENCE]"
    using tick_run_add(2) [of 7198 1 g] s m(3) by simp
  have "map fo_action (x # snd (tick_run 7999 g)) = FSM_ACT_UNICAST_COLDCONNECT #
      (replicate 7198 FSM_ACT_UNICAST_COLDCONNECT @ [FSM_ACT_SILENCE]) @ (replicate 799 FSM_ACT_SILENCE @ [FSM_ACT_UNICAST_AUDIO])"
    using tick_run_add(2) [of 7199 800 g] a e(3) r(9) by simp
  moreover have "FSM_ACT_UNICAST_COLDCONNECT # replicate 7198 FSM_ACT_UNICAST_COLDCONNECT = replicate 7199 FSM_ACT_UNICAST_COLDCONNECT"
    "FSM_ACT_SILENCE # replicate 799 FSM_ACT_SILENCE = replicate 800 FSM_ACT_SILENCE"
    by (simp_all add: replicate_Suc [symmetric] del: replicate_Suc)
  ultimately have w: "map fo_action (x # snd (tick_run 7999 g)) =
      replicate 7199 FSM_ACT_UNICAST_COLDCONNECT @ replicate 800 FSM_ACT_SILENCE @ [FSM_ACT_UNICAST_AUDIO]"
    by (metis append_Cons append_Nil append_assoc)
  have "fs_state (fst (tick_run 7999 g)) = FSM_ESTABLISHED" using e(2) tick_run_add(1) [of 7199 800 g] by simp
  then show ?thesis using grant_ack_joins [OF assms(1-4), folded g_def x_def] cold mute w by blast
qed

theorem grant_leads_to_established_witness:
  "let g = fst (reac_fsm_step (reac_fsm_init \<lparr> fs_state := FSM_COLDCONNECT, fs_have_master := True \<rparr>) FSM_EV_RX
      (Some (parsed_zero \<lparr> pc_kind := REAC_CTRL_GRANT \<rparr>)))
   in fs_state (fst (tick_run 7600 g)) = FSM_TX_MUTE \<and> fs_state (fst (tick_run 7999 g)) = FSM_ESTABLISHED"
proof -
  let ?f = "reac_fsm_init \<lparr> fs_state := FSM_COLDCONNECT, fs_have_master := True \<rparr>"
  let ?rx = "parsed_zero \<lparr> pc_kind := REAC_CTRL_GRANT \<rparr>"
  have i: "fsm_inv ?f" "fs_state ?f = FSM_COLDCONNECT" "fs_grant_ack ?f = 0" "pc_kind ?rx = REAC_CTRL_GRANT"
    by (simp_all add: fsm_inv_defs reac_fsm_init_def)
  define g where "g = fst (reac_fsm_step ?f FSM_EV_RX (Some ?rx))"
  have "\<forall>n. 7199 \<le> n \<and> n < 7999 \<longrightarrow> fs_state (fst (tick_run n g)) = FSM_TX_MUTE"
    "fs_state (fst (tick_run 7999 g)) = FSM_ESTABLISHED"
    using grant_leads_to_established [OF i] unfolding g_def by blast+
  then show ?thesis unfolding Let_def g_def by simp
qed

lemma est_tick:
  assumes "fs_state f = FSM_ESTABLISHED"
  defines "g \<equiv> fst (reac_fsm_step f FSM_EV_TICK None)"
  shows "1 < fs_link_check f \<Longrightarrow> fs_state g = FSM_ESTABLISHED \<and> fs_link_check g = fs_link_check f - 1
      \<and> fo_action (snd (reac_fsm_step f FSM_EV_TICK None)) = FSM_ACT_UNICAST_AUDIO"
    and "fs_link_check f \<le> 1 \<Longrightarrow> fs_state g = FSM_DROP \<and> fs_drop_reason g = FSM_DROP_PEER_GONE
      \<and> fo_action (snd (reac_fsm_step f FSM_EV_TICK None)) = FSM_ACT_STOP"
  using assms(1) unfolding g_def
  by (auto simp: reac_fsm_step_def step_established_def fsm_out_def heartbeat_turn_def Let_def)

lemma est_run:
  assumes "fs_state f = FSM_ESTABLISHED" and "int n < fs_link_check f"
  shows "fs_state (fst (tick_run n f)) = FSM_ESTABLISHED \<and> fs_link_check (fst (tick_run n f)) = fs_link_check f - int n"
  using assms
proof (induction n arbitrary: f)
  case (Suc n)
  have l: "1 < fs_link_check f" using Suc.prems(2) by simp
  note t = est_tick(1) [OF Suc.prems(1) l]
  show ?case using Suc.IH [of "fst (reac_fsm_step f FSM_EV_TICK None)"] t Suc.prems(2) by (simp add: tick_run_Suc)
qed simp

text \<open>A silent master is noticed exactly on the budget. With no frame received, an established
  slave stays established for one frame less than its remaining link budget and drops with reason
  peer-gone at the next; the budget never exceeds 600 frames, and a master heartbeat or announce
  from the known master reloads it in full.\<close>

theorem established_drops_when_silent:
  assumes "fsm_inv f" and "fs_state f = FSM_ESTABLISHED"
  shows "fs_link_check f \<le> 600
    \<and> (\<forall>n < nat (fs_link_check f). fs_state (fst (tick_run n f)) = FSM_ESTABLISHED)
    \<and> fs_state (fst (tick_run (nat (fs_link_check f)) f)) = FSM_DROP
    \<and> fs_drop_reason (fst (tick_run (nat (fs_link_check f)) f)) = FSM_DROP_PEER_GONE
    \<and> (\<forall>rx. pc_src rx = fs_master_mac f \<longrightarrow> pc_kind rx \<in> {REAC_CTRL_MASTER_HB, REAC_CTRL_MASTER_ANNOUNCE} \<longrightarrow>
        fs_state (fst (reac_fsm_step f FSM_EV_RX (Some rx))) = FSM_ESTABLISHED
        \<and> fs_link_check (fst (reac_fsm_step f FSM_EV_RX (Some rx))) = 600)"
proof -
  have l: "0 < fs_link_check f" "fs_link_check f \<le> 600" using assms by (simp_all add: fsm_inv_defs)
  let ?n = "nat (fs_link_check f) - 1"
  have n: "nat (fs_link_check f) = ?n + 1" using l by simp
  have r: "fs_state (fst (tick_run ?n f)) = FSM_ESTABLISHED \<and> fs_link_check (fst (tick_run ?n f)) = 1"
    using est_run [OF assms(2), of ?n] l by simp
  have "fst (tick_run (nat (fs_link_check f)) f) = fst (reac_fsm_step (fst (tick_run ?n f)) FSM_EV_TICK None)"
    using tick_run_add(1) [of ?n 1 f] n by (simp add: tick_run_Suc)
  then have "fs_state (fst (tick_run (nat (fs_link_check f)) f)) = FSM_DROP
      \<and> fs_drop_reason (fst (tick_run (nat (fs_link_check f)) f)) = FSM_DROP_PEER_GONE"
    using est_tick(2) [of "fst (tick_run ?n f)"] r by simp
  moreover have "fs_state (fst (tick_run n f)) = FSM_ESTABLISHED" if "n < nat (fs_link_check f)" for n
    using est_run [OF assms(2), of n] that by simp
  moreover have "fs_state (fst (reac_fsm_step f FSM_EV_RX (Some rx))) = FSM_ESTABLISHED
        \<and> fs_link_check (fst (reac_fsm_step f FSM_EV_RX (Some rx))) = 600"
    if "pc_src rx = fs_master_mac f" "pc_kind rx \<in> {REAC_CTRL_MASTER_HB, REAC_CTRL_MASTER_ANNOUNCE}" for rx
    using assms(2) that by (auto simp: reac_fsm_step_def step_established_def fsm_out_def heartbeat_turn_def Let_def)
  ultimately show ?thesis using l(2) by blast
qed

theorem established_drops_when_silent_witness:
  "fs_state (fst (tick_run 600 (reac_fsm_init \<lparr> fs_state := FSM_ESTABLISHED, fs_have_master := True, fs_link_check := 600 \<rparr>)))
     = FSM_DROP"
proof -
  let ?f = "reac_fsm_init \<lparr> fs_state := FSM_ESTABLISHED, fs_have_master := True, fs_link_check := 600 \<rparr>"
  have "fsm_inv ?f" "fs_state ?f = FSM_ESTABLISHED" by (simp_all add: fsm_inv_defs reac_fsm_init_def)
  from established_drops_when_silent [OF this] show ?thesis by simp
qed

section \<open>Courting without a grant\<close>

lemma court_tick:
  assumes "fs_state f = FSM_COLDCONNECT" and "fs_have_master f" and "fs_grant_ack f = 0"
  defines "g \<equiv> fst (reac_fsm_step f FSM_EV_TICK None)"
  shows "fs_coldconnect_frames f < 4 * hb_period f \<Longrightarrow> fs_state g = FSM_COLDCONNECT \<and> fs_have_master g
      \<and> fs_grant_ack g = 0 \<and> fs_coldconnect_frames g = fs_coldconnect_frames f + 1 \<and> hb_period g = hb_period f"
    and "4 * hb_period f \<le> fs_coldconnect_frames f \<Longrightarrow> fs_state g = FSM_BACKOFF
      \<and> fs_backoff g = 10 * hb_period f \<and> hb_period g = hb_period f
      \<and> fo_action (snd (reac_fsm_step f FSM_EV_TICK None)) = FSM_ACT_STOP"
  using assms(1-3) unfolding g_def
  by (auto simp: fsm_step_defs rx_kind_is_def Let_def frames_per_s_def hb_period_def split: option.splits)

lemma court_run:
  assumes "fs_state f = FSM_COLDCONNECT" and "fs_have_master f" and "fs_grant_ack f = 0"
    and "fs_coldconnect_frames f + int n \<le> 4 * hb_period f"
  shows "fs_state (fst (tick_run n f)) = FSM_COLDCONNECT \<and> fs_have_master (fst (tick_run n f))
    \<and> fs_grant_ack (fst (tick_run n f)) = 0 \<and> hb_period (fst (tick_run n f)) = hb_period f
    \<and> fs_coldconnect_frames (fst (tick_run n f)) = fs_coldconnect_frames f + int n"
  using assms
proof (induction n arbitrary: f)
  case (Suc n)
  have "fs_coldconnect_frames f < 4 * hb_period f" using Suc.prems(4) by simp
  note t = court_tick(1) [OF Suc.prems(1-3) this]
  show ?case using Suc.IH [of "fst (reac_fsm_step f FSM_EV_TICK None)"] t Suc.prems(4) by (simp add: tick_run_Suc)
qed simp

lemma backoff_tick:
  assumes "fs_state f = FSM_BACKOFF"
  defines "g \<equiv> fst (reac_fsm_step f FSM_EV_TICK None)" and "x \<equiv> snd (reac_fsm_step f FSM_EV_TICK None)"
  shows "1 < fs_backoff f \<Longrightarrow> fs_state g = FSM_BACKOFF \<and> fs_backoff g = fs_backoff f - 1 \<and> fo_action x = FSM_ACT_STOP"
    and "fs_backoff f \<le> 1 \<Longrightarrow> fs_state g = FSM_FLOOD_ANNOUNCE \<and> fo_action x = FSM_ACT_FLOOD_BCAST"
  using assms(1) unfolding g_def x_def by (auto simp: fsm_step_defs Let_def)

lemma backoff_run:
  assumes "fs_state f = FSM_BACKOFF" and "int n < fs_backoff f"
  shows "fs_state (fst (tick_run n f)) = FSM_BACKOFF \<and> fs_backoff (fst (tick_run n f)) = fs_backoff f - int n
    \<and> (\<forall>x \<in> set (snd (tick_run n f)). fo_action x = FSM_ACT_STOP)"
  using assms
proof (induction n arbitrary: f)
  case (Suc n)
  have "1 < fs_backoff f" using Suc.prems(2) by simp
  note t = backoff_tick(1) [OF Suc.prems(1) this]
  show ?case using Suc.IH [of "fst (reac_fsm_step f FSM_EV_TICK None)"] t Suc.prems(2) by (simp add: tick_run_Suc)
qed simp

text \<open>An ungranted courtship is bounded. A slave that is never granted stops courting when its
  budget of four seconds of frames is spent, then sends nothing for ten seconds of frames, and only
  then announces itself again.\<close>

theorem ungranted_slave_goes_silent:
  assumes "fsm_inv f" and "fs_state f = FSM_COLDCONNECT" and "fs_grant_ack f = 0"
  defines "court \<equiv> nat (4 * hb_period f - fs_coldconnect_frames f)" and "quiet \<equiv> nat (10 * hb_period f)"
  shows "fs_state (fst (tick_run court f)) = FSM_COLDCONNECT
    \<and> fs_state (fst (tick_run (court + 1) f)) = FSM_BACKOFF
    \<and> (\<forall>x \<in> set (drop court (snd (tick_run (court + quiet) f))). fo_action x = FSM_ACT_STOP)
    \<and> fs_state (fst (tick_run (court + 1 + quiet) f)) = FSM_FLOOD_ANNOUNCE"
proof -
  have hm: "fs_have_master f" "fs_coldconnect_frames f \<le> 4 * hb_period f"
    using assms(1-3) by (auto simp: fsm_inv_def fsm_state_inv_def)
  have hp: "0 < hb_period f" by (simp add: hb_period_def)
  let ?c = "fst (tick_run court f)" and ?b = "fst (tick_run (court + 1) f)"
  have c: "fs_state ?c = FSM_COLDCONNECT" "fs_have_master ?c" "fs_grant_ack ?c = 0" "hb_period ?c = hb_period f"
    "fs_coldconnect_frames ?c = 4 * hb_period f"
    using court_run [OF assms(2) hm(1) assms(3), of court] hm(2) by (simp_all add: court_def)
  note bt = court_tick(2) [OF c(1-3)]
  have bb: "?b = fst (reac_fsm_step ?c FSM_EV_TICK None)"
    using tick_run_add(1) [of court 1 f] by (simp add: tick_run_Suc)
  have b: "fs_state ?b = FSM_BACKOFF" "fs_backoff ?b = 10 * hb_period f" using bt c bb by simp_all
  define q where "q = quiet - 1"
  have q: "quiet = 1 + q" "int q < fs_backoff ?b" "fs_backoff ?b - int q = 1"
    using hp b(2) by (simp_all add: q_def quiet_def)
  note br = backoff_run [OF b(1) q(2)]
  have "snd (tick_run (court + quiet) f) = snd (tick_run court f) @ snd (reac_fsm_step ?c FSM_EV_TICK None) # snd (tick_run q ?b)"
    using tick_run_add(2) [of court quiet f] tick_run_Suc(2) [of q ?c] q(1) bb by simp
  moreover have "length (snd (tick_run court f)) = court"
  proof -
    have "length (snd (tick_run n g)) = n" for n g by (induction n arbitrary: g) (simp_all add: tick_run_Suc)
    then show ?thesis .
  qed
  ultimately have s: "drop court (snd (tick_run (court + quiet) f)) = snd (reac_fsm_step ?c FSM_EV_TICK None) # snd (tick_run q ?b)"
    by simp
  let ?e = "fst (tick_run q ?b)"
  have "fst (tick_run (court + 1 + quiet) f) = fst (reac_fsm_step ?e FSM_EV_TICK None)"
    using tick_run_add(1) [of "court + 1" quiet f] tick_run_add(1) [of q 1 ?b] q(1) by (simp add: tick_run_Suc add.commute)
  then have "fs_state (fst (tick_run (court + 1 + quiet) f)) = FSM_FLOOD_ANNOUNCE"
    using backoff_tick(2) [of ?e] br q(3) by simp
  then show ?thesis using c(1) b(1) s br bt c(4,5) by auto
qed

theorem ungranted_slave_goes_silent_witness:
  "fs_state (fst (tick_run (32000 + 1 + 80000) (reac_fsm_init \<lparr> fs_state := FSM_COLDCONNECT, fs_have_master := True \<rparr>)))
     = FSM_FLOOD_ANNOUNCE"
proof -
  let ?f = "reac_fsm_init \<lparr> fs_state := FSM_COLDCONNECT, fs_have_master := True \<rparr>"
  have f: "fsm_inv ?f" "fs_state ?f = FSM_COLDCONNECT" "fs_grant_ack ?f = 0" by (simp_all add: fsm_inv_defs reac_fsm_init_def)
  have "nat (4 * hb_period ?f - fs_coldconnect_frames ?f) = 32000" "nat (10 * hb_period ?f) = 80000"
    by (simp_all add: hb_period_def reac_fsm_init_def)
  then show ?thesis using ungranted_slave_goes_silent [OF f] by simp
qed

end
