(* ===== verification/Reac_Link.thy ===== *)
theory Reac_Link
  imports Reac_Fsm Reac_Ctrl_Emit
begin

text \<open>
  The glue between the slave's state machine and the frames it sends, \<^verbatim>\<open>src/reac_link.c\<close>: the
  descriptor words that fill an idle control block, and the cold-connect burst.
\<close>

datatype reac_link_desc = REAC_LINK_DESC_NONE | REAC_LINK_DESC_REQUESTING | REAC_LINK_DESC_ESTABLISHED

fun link_desc_code :: "reac_link_desc \<Rightarrow> u8" where
  "link_desc_code REAC_LINK_DESC_NONE = 0x00"
| "link_desc_code REAC_LINK_DESC_REQUESTING = 0x52"
| "link_desc_code REAC_LINK_DESC_ESTABLISHED = 0x7a"

definition reac_link_fill_descriptor :: "bytes \<Rightarrow> reac_link_desc \<Rightarrow> bytes" where
  "reac_link_fill_descriptor frame d =
     poke REAC_CTRL_BLOCK_OFF
       (if d = REAC_LINK_DESC_NONE then replicate 32 0 else concat (replicate 16 [0x00, link_desc_code d])) frame"

definition reac_link_desc_for :: "reac_fsm_state \<Rightarrow> bool \<Rightarrow> reac_link_desc" where
  "reac_link_desc_for st announced =
     (if st = FSM_ESTABLISHED then REAC_LINK_DESC_ESTABLISHED
      else if announced then REAC_LINK_DESC_REQUESTING
      else REAC_LINK_DESC_NONE)"

definition reac_link_slave_burst :: "int \<Rightarrow> mac \<Rightarrow> mac \<Rightarrow> u16 \<Rightarrow> int \<Rightarrow> planes \<Rightarrow> int \<Rightarrow> bytes option" where
  "reac_link_slave_burst step master src counter n_ch planar ns =
     (if step = 0 then reac_ctrl_build_coldconnect master src counter n_ch planar ns
      else if step = 1 then reac_ctrl_build_coldconnect_0013 master src counter n_ch planar ns
      else if step = 2 then reac_ctrl_build_box_hb master src counter n_ch
      else None)"

section \<open>What the master hears of a burst\<close>

lemma emit_row_carries:
  assumes "length dst = 6" and "length src = 6" and "reac_box_width_ok n_ch"
    and "cf_len F = LEN_ARG_WIDTH" and "cf_gate F = GATE_ALWAYS" and "cf_type0 F = 0xcd" and "cf_type1 F = 0xea"
    and "cf_rec_off F = 0" and "finish_block F (laid_block F (Some (reac_box_catalogue_by_width n_ch)) None) = blk"
    and "length (laid_block F (Some (reac_box_catalogue_by_width n_ch)) None) = 32" and "length blk = 32"
  shows "\<exists>f. ctrl_emit F dst src counter n_ch None planar ns = Some f \<and> carries f blk
    \<and> peek 0 6 f = dst \<and> peek 6 6 f = src \<and> reac_upstream_channels (length f) = n_ch"
proof -
  define audio where "audio = (if cf_audio F then reac_braid_encode (replicate (nat n_ch * 36) 0) n_ch planar n_ch ns
    else replicate (nat n_ch * 36) 0)"
  have n: "0 \<le> n_ch" using assms(3) by (simp add: reac_box_width_ok_iff)
  have la: "length audio = nat n_ch * 36"
    using length_reac_braid_encode [of "replicate (nat n_ch * 36) 0" "nat n_ch"] n by (simp add: audio_def)
  have "ctrl_emit F dst src counter n_ch None planar ns = Some (frame_image dst src counter 0xcd 0xea blk audio)"
    unfolding ctrl_emit_def audio_def using assms
    by (subst ctrl_emit_as_image [where m = "reac_box_catalogue_by_width n_ch" and a = "nat n_ch * 36"])
      (simp_all add: ctrl_gate_ok_def)
  moreover have "reac_upstream_channels (length (frame_image dst src counter 0xcd 0xea blk audio)) = n_ch"
    using reac_upstream_channels_len [of "nat n_ch"] assms(3) n la frame_image_fields(1) [OF assms(1,2,11)] by simp
  ultimately show ?thesis
    using frame_image_carries [OF assms(1,2,11)] frame_image_fields(2,3) [OF assms(1,2,11)] by blast
qed

definition hb_block :: bytes where
  "hb_block = reac_ctrl_block_cksum_stamp TMPL_BOX_HB"

lemma burst_blocks:
  "length JOIN_0014 = 32" "length JOIN_0013 = 32" "length hb_block = 32"
  "reac_ctrl_block_cksum_stamp JOIN_0014 = JOIN_0014"
  "take_bit 8 (byte_sum JOIN_0014) = 0" "take_bit 8 (byte_sum JOIN_0013) = 0" "take_bit 8 (byte_sum hb_block) = 0"
  by code_simp+

text \<open>The master recognises each step of a slave's burst. For a legal width and distinct
  Roland addresses, the three frames of the cold-connect burst are read by the master as a join, a
  join and a heartbeat from that slave, and there is no fourth.\<close>

theorem slave_burst_recognised:
  assumes "length master = 6" and "length src = 6" and "reac_box_width_ok n_ch"
    and "take 3 src = [0x00, 0x40, 0xab]" and "src \<noteq> master" and "master \<noteq> BCAST"
  shows "\<exists>f0 f1 f2. reac_link_slave_burst 0 master src counter n_ch planar ns = Some f0
    \<and> reac_link_slave_burst 1 master src counter n_ch planar ns = Some f1
    \<and> reac_link_slave_burst 2 master src counter n_ch planar ns = Some f2
    \<and> snd (reac_ctrl_classify_box_frame f0 master) = Some REAC_M_RX_BOX_JOIN
    \<and> snd (reac_ctrl_classify_box_frame f1 master) = Some REAC_M_RX_BOX_JOIN
    \<and> snd (reac_ctrl_classify_box_frame f2 master) = Some REAC_M_RX_BOX_HEARTBEAT
    \<and> reac_link_slave_burst 3 master src counter n_ch planar ns = None"
proof -
  note e = emit_row_carries [OF assms(1-3)]
  have s: "src ! 0 = 0x00" "src ! 1 = 0x40" "src ! 2 = 0xab"
    using assms(4) nth_take [of 0 3 src] nth_take [of 1 3 src] nth_take [of 2 3 src] by simp_all
  have hdr: "50 \<le> length f" "f ! 12 = 0x88" "f ! 13 = 0x19" "f ! 16 = 0xcd" "f ! 17 = 0xea" if "carries f b" for f b
    using that by (simp_all add: carries_def)
  obtain f0 where f0: "reac_ctrl_build_coldconnect master src counter n_ch planar ns = Some f0" "carries f0 JOIN_0014"
    "peek 0 6 f0 = master" "peek 6 6 f0 = src"
    using e [of "CTRL_FRAMES CTRL_COLDCONNECT" JOIN_0014 counter planar ns] burst_blocks
    by (auto simp: reac_ctrl_build_coldconnect_def ctrl_row_def finish_block_def laid_block_def lay_bytes_def)
  obtain f1 where f1: "reac_ctrl_build_coldconnect_0013 master src counter n_ch planar ns = Some f1" "carries f1 JOIN_0013"
    "peek 0 6 f1 = master" "peek 6 6 f1 = src"
    using e [of "CTRL_FRAMES CTRL_COLDCONNECT_0013" JOIN_0013 counter planar ns] burst_blocks
    by (auto simp: reac_ctrl_build_coldconnect_0013_def ctrl_row_def finish_block_def laid_block_def lay_bytes_def)
  obtain f2 where f2: "reac_ctrl_build_box_hb master src counter n_ch = Some f2" "carries f2 hb_block"
    "peek 0 6 f2 = master" "peek 6 6 f2 = src"
    using e [of "CTRL_FRAMES CTRL_BOX_HB" hb_block counter None 0] burst_blocks
    by (auto simp: reac_ctrl_build_box_hb_def ctrl_row_def finish_block_def laid_block_def lay_bytes_def
        hb_block_def TMPL_BOX_HB_def)
  have v: "reac_ctrl_checksum_verify f0 = 0" "reac_ctrl_checksum_verify f1 = 0" "reac_ctrl_checksum_verify f2 = 0"
    using carries_checksum [OF f0(2)] carries_checksum [OF f1(2)] carries_checksum [OF f2(2)] burst_blocks by simp_all
  have k0: "pc_kind (reac_ctrl_parse f0) = REAC_CTRL_GRANT" "pc_opcode (reac_ctrl_parse f0) = 0"
    "pc_dt1_tag (reac_ctrl_parse f0) = 0x0100" "pc_src (reac_ctrl_parse f0) = src"
    using hdr [OF f0(2)] carries_nthE [OF f0(2)] f0(3,4) unfolding reac_ctrl_parse_def Let_def
    by (simp_all add: JOIN_0014_def u16be_def)
  have k1: "pc_kind (reac_ctrl_parse f1) = REAC_CTRL_GRANT" "pc_opcode (reac_ctrl_parse f1) = 0"
    "pc_dt1_tag (reac_ctrl_parse f1) = 0x0302" "pc_src (reac_ctrl_parse f1) = src"
    using hdr [OF f1(2)] carries_nthE [OF f1(2)] f1(3,4) unfolding reac_ctrl_parse_def Let_def
    by (simp_all add: JOIN_0013_def u16be_def)
  have k2: "pc_kind (reac_ctrl_parse f2) = REAC_CTRL_BOX_HB" "pc_src (reac_ctrl_parse f2) = src"
    "pc_dst (reac_ctrl_parse f2) = master" "\<not> pc_is_broadcast (reac_ctrl_parse f2)"
    using hdr [OF f2(2)] carries_nthE [OF f2(2)] f2(3,4) assms(6) unfolding reac_ctrl_parse_def Let_def
    by (simp_all add: hb_block_def TMPL_BOX_HB_def block_stamp_nth kind_of_link1_def)
  show ?thesis
    using f0(1) f1(1) f2(1) v k0 k1 k2 s assms(5)
    by (simp add: reac_link_slave_burst_def reac_ctrl_classify_box_frame_def Let_def)
qed

theorem slave_burst_recognised_witness:
  "\<exists>f0. reac_link_slave_burst 0 [0, 0x40, 0xab, 9, 9, 9] [0, 0x40, 0xab, 1, 2, 3] 5 8 None 0 = Some f0
    \<and> snd (reac_ctrl_classify_box_frame f0 [0, 0x40, 0xab, 9, 9, 9]) = Some REAC_M_RX_BOX_JOIN"
proof -
  have "reac_box_width_ok 8" by (simp add: reac_box_width_ok_iff)
  then show ?thesis
    using slave_burst_recognised [of "[0, 0x40, 0xab, 9, 9, 9]" "[0, 0x40, 0xab, 1, 2, 3]" 8 5 None 0] by auto
qed

end
