(* ===== verification/Reac_Boxreg.thy ===== *)
theory Reac_Boxreg
  imports Reac_Frame
begin

text \<open>
  The registry of stage boxes on a segment, \<^verbatim>\<open>src/reac_boxreg.c\<close>: up to five boxes, each with a
  range of fabric slots. The C array of five with its count \<^verbatim>\<open>n\<close> is the list of the first \<^verbatim>\<open>n\<close>
  entries; an index of -1 is \<open>None\<close>.
\<close>

abbreviation (input) REAC_BOXREG_MAX_BOXES :: nat where "REAC_BOXREG_MAX_BOXES \<equiv> 5"
abbreviation (input) REAC_BOXREG_NAME_MAX :: nat where "REAC_BOXREG_NAME_MAX \<equiv> 32"
abbreviation (input) REAC_BOXREG_FABRIC :: int where "REAC_BOXREG_FABRIC \<equiv> 40"

record reac_box =
  rb_mac :: mac
  rb_base :: int
  rb_nch :: int
  rb_established :: bool
  rb_pinned :: bool
  rb_name :: string

record reac_boxreg =
  br_box :: "reac_box list"
  br_fabric :: int

definition reac_boxreg_init :: "int \<Rightarrow> reac_boxreg" where
  "reac_boxreg_init fabric = \<lparr> br_box = [],
     br_fabric = (if fabric > 0 \<and> fabric \<le> REAC_BOXREG_FABRIC then fabric else REAC_BOXREG_FABRIC) \<rparr>"

definition mac_is_zero :: "mac \<Rightarrow> bool" where
  "mac_is_zero mac \<longleftrightarrow> (\<forall>k \<in> set (take 6 mac). k = 0)"

definition reac_boxreg_find :: "reac_boxreg \<Rightarrow> mac \<Rightarrow> nat option" where
  "reac_boxreg_find r mac =
     (if mac_is_zero mac then None else find_index (\<lambda>b. rb_mac b = mac) (br_box r))"

definition range_taken :: "reac_boxreg \<Rightarrow> int \<Rightarrow> int \<Rightarrow> bool" where
  "range_taken r base nch \<longleftrightarrow>
     (\<exists>x \<in> set (br_box r). let b = rb_base x; e = b + rb_nch x in base < e \<and> b < base + nch)"

definition lowest_free_base :: "reac_boxreg \<Rightarrow> int \<Rightarrow> int option" where
  "lowest_free_base r nch =
     map_option int (List.find (\<lambda>base. \<not> range_taken r (int base) nch) [0..<nat (br_fabric r - nch + 1)])"

definition width_ok :: "reac_boxreg \<Rightarrow> int \<Rightarrow> bool" where
  "width_ok r nch \<longleftrightarrow> reac_box_width_ok nch \<and> nch \<le> br_fabric r"

text \<open>A slot of the array as \<^verbatim>\<open>memset\<close> leaves it, and the name \<^verbatim>\<open>snprintf\<close> keeps.\<close>

definition box_zero :: reac_box where
  "box_zero = \<lparr> rb_mac = replicate 6 0, rb_base = 0, rb_nch = 0, rb_established = False, rb_pinned = False,
     rb_name = '''' \<rparr>"

definition snprintf_name :: "string option \<Rightarrow> string" where
  "snprintf_name name = (case name of None \<Rightarrow> '''' | Some s \<Rightarrow> take (REAC_BOXREG_NAME_MAX - 1) s)"

definition reac_boxreg_declare :: "reac_boxreg \<Rightarrow> int \<Rightarrow> string option \<Rightarrow> int \<Rightarrow> reac_boxreg \<times> nat option" where
  "reac_boxreg_declare r nch name base =
     (if \<not> width_ok r nch \<or> length (br_box r) \<ge> REAC_BOXREG_MAX_BOXES then (r, None)
      else let pinned = base \<ge> 0;
               base' = (if pinned then (if base > br_fabric r - nch \<or> range_taken r base nch then None else Some base)
                        else lowest_free_base r nch)
           in case base' of None \<Rightarrow> (r, None)
              | Some b \<Rightarrow>
                (r \<lparr> br_box := br_box r @ [box_zero \<lparr> rb_base := b, rb_nch := nch, rb_pinned := pinned,
                                                    rb_name := snprintf_name name \<rparr>] \<rparr>,
                 Some (length (br_box r))))"

definition reac_boxreg_add :: "reac_boxreg \<Rightarrow> mac \<Rightarrow> int \<Rightarrow> reac_boxreg \<times> nat option" where
  "reac_boxreg_add r mac nch =
     (if \<not> width_ok r nch then (r, None)
      else if mac_is_zero mac then (r, None)
      else case reac_boxreg_find r mac of Some idx \<Rightarrow> (r, Some idx)
      | None \<Rightarrow>
        (case find_index (\<lambda>b. mac_is_zero (rb_mac b) \<and> rb_nch b = nch) (br_box r) of
           Some i \<Rightarrow> (r \<lparr> br_box := (br_box r)[i := (br_box r ! i) \<lparr> rb_mac := mac \<rparr>] \<rparr>, Some i)
         | None \<Rightarrow>
           if length (br_box r) \<ge> REAC_BOXREG_MAX_BOXES then (r, None)
           else case lowest_free_base r nch of None \<Rightarrow> (r, None)
             | Some base \<Rightarrow>
               (r \<lparr> br_box := br_box r @ [box_zero \<lparr> rb_mac := mac, rb_base := base, rb_nch := nch \<rparr>] \<rparr>,
                Some (length (br_box r)))))"

definition reac_boxreg_set_name :: "reac_boxreg \<Rightarrow> int \<Rightarrow> string option \<Rightarrow> reac_boxreg" where
  "reac_boxreg_set_name r idx name =
     (if idx < 0 \<or> idx \<ge> int (length (br_box r)) then r
      else r \<lparr> br_box := (br_box r)[nat idx := (br_box r ! nat idx) \<lparr> rb_name := snprintf_name name \<rparr>] \<rparr>)"

section \<open>Ranges\<close>

definition box_in_fabric :: "int \<Rightarrow> reac_box \<Rightarrow> bool" where
  "box_in_fabric fabric b \<longleftrightarrow> reac_box_width_ok (rb_nch b) \<and> 0 \<le> rb_base b \<and> rb_base b + rb_nch b \<le> fabric
     \<and> length (rb_mac b) = 6"

definition disjoint_boxes :: "reac_box \<Rightarrow> reac_box \<Rightarrow> bool" where
  "disjoint_boxes a b \<longleftrightarrow> rb_base a + rb_nch a \<le> rb_base b \<or> rb_base b + rb_nch b \<le> rb_base a"

text \<open>The registry's invariant: at most five boxes, each of a legal width inside the fabric, no
  two on a common slot, and no address bound twice.\<close>

definition boxreg_inv :: "reac_boxreg \<Rightarrow> bool" where
  "boxreg_inv r \<longleftrightarrow> length (br_box r) \<le> 5 \<and> 0 < br_fabric r \<and> br_fabric r \<le> 40
     \<and> (\<forall>b \<in> set (br_box r). box_in_fabric (br_fabric r) b)
     \<and> (\<forall>i < length (br_box r). \<forall>j < i. disjoint_boxes (br_box r ! i) (br_box r ! j))
     \<and> (\<forall>i < length (br_box r). \<forall>j < i. rb_mac (br_box r ! i) = rb_mac (br_box r ! j)
          \<longrightarrow> mac_is_zero (rb_mac (br_box r ! i)))"

lemma not_taken_disjoint:
  assumes "\<not> range_taken r base nch" and "x \<in> set (br_box r)"
  shows "base + nch \<le> rb_base x \<or> rb_base x + rb_nch x \<le> base"
  using assms by (force simp: range_taken_def Let_def)

lemma lowest_free_base_SomeD:
  assumes "lowest_free_base r nch = Some b"
  shows "0 \<le> b \<and> b + nch \<le> br_fabric r \<and> \<not> range_taken r b nch
    \<and> (\<forall>j. 0 \<le> j \<longrightarrow> j < b \<longrightarrow> range_taken r j nch)"
proof -
  obtain k where k: "b = int k" and f: "List.find (\<lambda>base. \<not> range_taken r (int base) nch)
      [0..<nat (br_fabric r - nch + 1)] = Some k"
    using assms by (auto simp: lowest_free_base_def)
  note l = find_upt_least [OF f]
  have "range_taken r j nch" if "0 \<le> j" "j < b" for j
    using l that k by (auto dest!: spec [of _ "nat j"])
  then show ?thesis using l k by auto
qed

lemma lowest_free_base_NoneD:
  assumes "lowest_free_base r nch = None" and "0 \<le> b" and "b + nch \<le> br_fabric r"
  shows "range_taken r b nch"
proof -
  have "\<forall>k \<in> set [0..<nat (br_fabric r - nch + 1)]. range_taken r (int k) nch"
    using assms(1) by (auto simp: lowest_free_base_def find_None_iff)
  then show ?thesis using assms(2,3) by (auto dest!: bspec [of _ _ "nat b"])
qed

section \<open>The invariant is kept\<close>

lemma boxreg_inv_append:
  assumes "boxreg_inv r" and "length (br_box r) < 5" and "box_in_fabric (br_fabric r) x"
    and "\<not> range_taken r (rb_base x) (rb_nch x)"
    and "mac_is_zero (rb_mac x) \<or> (\<forall>b \<in> set (br_box r). rb_mac b \<noteq> rb_mac x)"
  shows "boxreg_inv (r \<lparr> br_box := br_box r @ [x] \<rparr>)"
proof -
  have d: "disjoint_boxes x b" if "b \<in> set (br_box r)" for b
    using not_taken_disjoint [OF assms(4) that] by (simp add: disjoint_boxes_def)
  show ?thesis
    using assms(1-3,5) d unfolding boxreg_inv_def
    by (auto simp: nth_append less_Suc_eq)
qed

lemma boxreg_inv_update:
  assumes "boxreg_inv r" and "i < length (br_box r)" and "rb_base y = rb_base (br_box r ! i)"
    and "rb_nch y = rb_nch (br_box r ! i)" and "length (rb_mac y) = 6"
    and "rb_mac y = rb_mac (br_box r ! i) \<or> (\<forall>b \<in> set (br_box r). rb_mac b \<noteq> rb_mac y)"
  shows "boxreg_inv (r \<lparr> br_box := (br_box r)[i := y] \<rparr>)"
proof -
  have b: "box_in_fabric (br_fabric r) y"
    using assms(1-5) by (auto simp: boxreg_inv_def box_in_fabric_def)
  have m: "rb_mac y = rb_mac (br_box r ! k) \<Longrightarrow> k < length (br_box r) \<Longrightarrow> rb_mac y = rb_mac (br_box r ! i)" for k
    using assms(6) by (metis nth_mem)
  have p: "\<And>j k. j < k \<Longrightarrow> k < length (br_box r) \<Longrightarrow> rb_mac (br_box r ! k) = rb_mac (br_box r ! j) \<Longrightarrow>
      mac_is_zero (rb_mac (br_box r ! k))" using assms(1) by (simp add: boxreg_inv_def)
  have "mac_is_zero (rb_mac y)" if "k \<noteq> i" "k < length (br_box r)" "rb_mac y = rb_mac (br_box r ! k)" for k
    using p [of i k] p [of k i] m [OF that(3,2)] that assms(2) by (cases "k < i") auto
  then show ?thesis
    using assms(1-4) b unfolding boxreg_inv_def disjoint_boxes_def
    by (auto simp: nth_list_update dest!: set_update_subset_insert [THEN subsetD]) (metis less_irrefl less_trans)+
qed

lemma boxreg_inv_declare: "boxreg_inv r \<Longrightarrow> boxreg_inv (fst (reac_boxreg_declare r nch name base))"
  by (auto simp: reac_boxreg_declare_def Let_def box_zero_def mac_is_zero_def width_ok_def box_in_fabric_def
      intro!: boxreg_inv_append dest: lowest_free_base_SomeD split: option.splits)

lemma boxreg_inv_add: "boxreg_inv r \<Longrightarrow> length mac = 6 \<Longrightarrow> boxreg_inv (fst (reac_boxreg_add r mac nch))"
  by (auto simp: reac_boxreg_add_def reac_boxreg_find_def box_zero_def width_ok_def box_in_fabric_def find_index_None
      intro!: boxreg_inv_append boxreg_inv_update dest: lowest_free_base_SomeD find_index_SomeD split: option.splits)

lemma boxreg_inv_set_name: "boxreg_inv r \<Longrightarrow> boxreg_inv (reac_boxreg_set_name r idx name)"
  by (auto simp: reac_boxreg_set_name_def intro!: boxreg_inv_update) (auto simp: boxreg_inv_def box_in_fabric_def)

datatype boxreg_op = Declare int "string option" int | Add mac int | SetName int "string option"

definition boxreg_step :: "reac_boxreg \<Rightarrow> boxreg_op \<Rightarrow> reac_boxreg" where
  "boxreg_step r op = (case op of Declare nch name base \<Rightarrow> fst (reac_boxreg_declare r nch name base)
     | Add mac nch \<Rightarrow> fst (reac_boxreg_add r mac nch)
     | SetName idx name \<Rightarrow> reac_boxreg_set_name r idx name)"

fun op_mac_ok :: "boxreg_op \<Rightarrow> bool" where
  "op_mac_ok (Add mac nch) = (length mac = 6)"
| "op_mac_ok _ = True"

interpretation boxreg_machine: invariant_machine boxreg_step boxreg_inv op_mac_ok
  by unfold_locales
    (auto simp: boxreg_step_def boxreg_inv_declare boxreg_inv_add boxreg_inv_set_name split: boxreg_op.splits)

section \<open>Properties\<close>

text \<open>C29: no two boxes ever share a slot. From an empty registry, whatever boxes are declared,
  heard and named in whatever order, there are at most five, each has a legal width inside the
  fabric, their ranges are pairwise disjoint, and no hardware address is bound twice.\<close>

theorem boxreg_always_disjoint:
  assumes "list_all op_mac_ok ops"
  shows "boxreg_inv (foldl boxreg_step (reac_boxreg_init fabric) ops)"
  using assms by (intro boxreg_machine.inv_run) (simp_all add: boxreg_inv_def reac_boxreg_init_def)

theorem boxreg_always_disjoint_witness:
  "boxreg_inv (foldl boxreg_step (reac_boxreg_init 40)
     [Declare 16 (Some ''A'') (- 1), Add [0, 0x40, 0xab, 1, 2, 3] 16, Add [0, 0x40, 0xab, 1, 2, 4] 8, SetName 1 None])"
  by (rule boxreg_always_disjoint) simp

lemma find_after_append:
  assumes "reac_boxreg_find r mac = None" and "\<not> mac_is_zero mac" and "rb_mac x = mac"
  shows "reac_boxreg_find (r \<lparr> br_box := br_box r @ [x] \<rparr>) mac = Some (length (br_box r))"
proof -
  have "rb_mac b \<noteq> mac" if "b \<in> set (br_box r)" for b
    using assms(1,2) that by (auto simp: reac_boxreg_find_def find_index_None)
  then show ?thesis
    using assms(2,3) by (auto simp: reac_boxreg_find_def nth_append intro!: find_index_SomeI)
qed

lemma find_after_bind:
  assumes "reac_boxreg_find r mac = None" and "\<not> mac_is_zero mac" and "i < length (br_box r)"
  shows "reac_boxreg_find (r \<lparr> br_box := (br_box r)[i := (br_box r ! i) \<lparr> rb_mac := mac \<rparr>] \<rparr>) mac = Some i"
proof -
  have "rb_mac (br_box r ! j) \<noteq> mac" if "j < length (br_box r)" for j
    using assms(1,2) that by (auto simp: reac_boxreg_find_def find_index_None)
  then show ?thesis
    using assms(2,3) by (auto simp: reac_boxreg_find_def nth_list_update intro!: find_index_SomeI)
qed

text \<open>What adding a box does. A refusal changes nothing and means an illegal width or address,
  a full registry or no free range of that width. An accepted box is found again under its address,
  no other box moves, and a newly placed box has the width asked for at the lowest base where it
  fits.\<close>

theorem boxreg_add_outcome:
  assumes "reac_boxreg_add r mac nch = (r', res)"
  shows "case res of
      None \<Rightarrow> r' = r \<and> (\<not> width_ok r nch \<or> mac_is_zero mac \<or> 5 \<le> length (br_box r)
        \<or> (\<forall>b. 0 \<le> b \<longrightarrow> b + nch \<le> br_fabric r \<longrightarrow> range_taken r b nch))
    | Some i \<Rightarrow> reac_boxreg_find r' mac = Some i
        \<and> (\<forall>j < length (br_box r). j \<noteq> i \<longrightarrow> br_box r' ! j = br_box r ! j)
        \<and> (i < length (br_box r) \<longrightarrow> rb_base (br_box r' ! i) = rb_base (br_box r ! i))
        \<and> (i = length (br_box r) \<longrightarrow> rb_nch (br_box r' ! i) = nch
             \<and> (\<forall>b. 0 \<le> b \<longrightarrow> b < rb_base (br_box r' ! i) \<longrightarrow> range_taken r b nch))"
proof (cases "\<not> width_ok r nch \<or> mac_is_zero mac")
  case True
  then have "r' = r \<and> res = None" using assms by (auto simp: reac_boxreg_add_def split: if_splits)
  then show ?thesis using True by auto
next
  case False
  then have w: "width_ok r nch" "\<not> mac_is_zero mac" by simp_all
  show ?thesis
  proof (cases "reac_boxreg_find r mac")
    case (Some i)
    then have "i < length (br_box r)" by (auto simp: reac_boxreg_find_def dest: find_index_SomeD split: if_splits)
    moreover have "r' = r" "res = Some i" using assms w Some by (simp_all add: reac_boxreg_add_def)
    ultimately show ?thesis using Some by simp
  next
    case None
    show ?thesis
    proof (cases "find_index (\<lambda>b. mac_is_zero (rb_mac b) \<and> rb_nch b = nch) (br_box r)")
      case (Some i)
      note i = find_index_SomeD [OF Some]
      have "r' = r \<lparr> br_box := (br_box r)[i := (br_box r ! i) \<lparr> rb_mac := mac \<rparr>] \<rparr>" "res = Some i"
        using assms w None Some by (simp_all add: reac_boxreg_add_def)
      then show ?thesis using i find_after_bind [OF None w(2), of i] by simp
    next
      case nores: None
      show ?thesis
        using assms w None nores find_after_append [OF None w(2)]
        by (auto simp: reac_boxreg_add_def nth_append dest: lowest_free_base_SomeD lowest_free_base_NoneD
            split: if_splits option.splits)
    qed
  qed
qed

theorem boxreg_add_outcome_witness:
  "reac_boxreg_find (fst (reac_boxreg_add (reac_boxreg_init 40) [0, 0x40, 0xab, 1, 2, 3] 16)) [0, 0x40, 0xab, 1, 2, 3]
     = Some 0"
proof -
  have e: "snd (reac_boxreg_add (reac_boxreg_init 40) [0, 0x40, 0xab, 1, 2, 3] 16) = Some 0" by code_simp
  obtain r' where r: "reac_boxreg_add (reac_boxreg_init 40) [0, 0x40, 0xab, 1, 2, 3] 16 = (r', Some 0)"
    using e by (cases "reac_boxreg_add (reac_boxreg_init 40) [0, 0x40, 0xab, 1, 2, 3] 16") auto
  then show ?thesis using boxreg_add_outcome [OF r] by simp
qed

end
