(* ===== verification/Reac_Ring.thy ===== *)
theory Reac_Ring
  imports Reac_Prelude
begin

text \<open>
  The sample ring between the receive thread and the audio callback:
  \<^verbatim>\<open>transport/src/reac_ring.c\<close>.

  The planar buffer is one list, row \<open>c\<close> of it at \<open>c * capacity\<close>; samples are of any type
  with a zero. Indices, mask and counts stay 32-bit words and wrap as in the code, the two
  statistics are 64-bit. Whether \<^verbatim>\<open>calloc\<close> succeeds is an argument of \<open>reac_ring_init\<close>; an
  initialisation that fails leaves no ring. A read returns the output rows it wrote.

  The ring refines a bounded queue of frames, operation by operation. Theory \<open>Reac_Ring_Spsc\<close>
  splits one write and one read into their single loads, copies and stores and interleaves them.
\<close>

section \<open>The ring\<close>

record 'a ring =
  rg_buf :: "'a list"
  rg_capacity :: u32
  rg_mask :: u32
  rg_channels :: u32
  rg_wrote_channels :: u32
  rg_head :: u32
  rg_tail :: u32
  rg_underruns :: u64
  rg_overruns :: u64

definition next_pow2 :: "u32 \<Rightarrow> u32" where
  "next_pow2 v0 =
     (if v0 < 2 then 2
      else let v = v0 - 1;
               v = v OR drop_bit 1 v;
               v = v OR drop_bit 2 v;
               v = v OR drop_bit 4 v;
               v = v OR drop_bit 8 v;
               v = v OR drop_bit 16 v
           in v + 1)"

definition reac_ring_init :: "bool \<Rightarrow> u32 \<Rightarrow> u32 \<Rightarrow> ('a :: zero) ring option" where
  "reac_ring_init calloc_ok channels capacity_frames =
     (let cap = next_pow2 capacity_frames in
      if capacity_frames = 0 \<or> cap = 0 then None
      else if \<not> calloc_ok then None
      else Some \<lparr> rg_buf = replicate (unat cap * unat channels) 0, rg_capacity = cap,
        rg_mask = cap - 1, rg_channels = channels, rg_wrote_channels = 0,
        rg_head = 0, rg_tail = 0, rg_underruns = 0, rg_overruns = 0 \<rparr>)"

definition reac_ring_readable :: "'a ring \<Rightarrow> u32" where
  "reac_ring_readable r = (rg_head r - rg_tail r) AND rg_mask r"

definition reac_ring_writable :: "'a ring \<Rightarrow> u32" where
  "reac_ring_writable r = rg_mask r - reac_ring_readable r"

text \<open>The loop that zeroes the rows a narrower source leaves.\<close>

definition retire_rows :: "nat \<Rightarrow> nat \<Rightarrow> nat \<Rightarrow> ('a :: zero) list \<Rightarrow> 'a list" where
  "retire_rows cap c0 c1 buf = fold (\<lambda>c. poke (c * cap) (replicate cap 0)) [c0..<c1] buf"

text \<open>The inner copy loop of a write: from position \<open>pos\<close> of the row at \<open>base\<close>, wrapping.\<close>

fun copy_in :: "u32 \<Rightarrow> nat \<Rightarrow> u32 \<Rightarrow> 'a list \<Rightarrow> 'a list \<Rightarrow> 'a list" where
  "copy_in msk base pos [] buf = buf"
| "copy_in msk base pos (x # xs) buf =
     copy_in msk base ((pos + 1) AND msk) xs (buf[base + unat pos := x])"

text \<open>The inner copy loop of a read.\<close>

fun copy_out :: "u32 \<Rightarrow> nat \<Rightarrow> u32 \<Rightarrow> nat \<Rightarrow> 'a list \<Rightarrow> 'a list" where
  "copy_out msk base pos 0 buf = []"
| "copy_out msk base pos (Suc n) buf =
     buf ! (base + unat pos) # copy_out msk base ((pos + 1) AND msk) n buf"

text \<open>A write first clamps the source's width and retires the rows it vacates.\<close>

definition ring_set_width :: "('a :: zero) ring \<Rightarrow> u32 \<Rightarrow> 'a ring" where
  "ring_set_width r src_channels0 =
     (let src_channels = (if src_channels0 > rg_channels r then rg_channels r else src_channels0)
      in r\<lparr> rg_buf := (if src_channels < rg_wrote_channels r
                       then retire_rows (unat (rg_capacity r)) (unat src_channels)
                              (unat (rg_wrote_channels r)) (rg_buf r)
                       else rg_buf r),
            rg_wrote_channels := src_channels \<rparr>)"

definition reac_ring_write ::
    "('a :: zero) ring \<Rightarrow> 'a list \<Rightarrow> u32 \<Rightarrow> u32 \<Rightarrow> 'a ring \<times> u32" where
  "reac_ring_write r0 planar n src_channels0 =
     (let r = ring_set_width r0 src_channels0;
          src_channels = rg_wrote_channels r;
          free_slots = reac_ring_writable r;
          over = (if n > free_slots then n - free_slots else 0);
          w = (if n > free_slots then free_slots else n);
          r = r\<lparr> rg_overruns := rg_overruns r + ucast over \<rparr>
      in if n > free_slots \<and> w = 0 then (r, 0)
         else let h = rg_head r;
                  buf = fold (\<lambda>c. copy_in (rg_mask r) (c * unat (rg_capacity r)) h
                                    (peek (c * unat n) (unat w) planar))
                          [0..<unat src_channels] (rg_buf r)
              in (r\<lparr> rg_buf := buf, rg_head := (h + w) AND rg_mask r \<rparr>, w))"

definition reac_ring_read_planar ::
    "('a :: zero) ring \<Rightarrow> u32 \<Rightarrow> u32 \<Rightarrow> 'a ring \<times> 'a list list \<times> u32" where
  "reac_ring_read_planar r channels n =
     (let avail = reac_ring_readable r;
          real = (if avail < n then avail else n);
          t = rg_tail r;
          nch = (if channels < rg_channels r then channels else rg_channels r);
          out = map (\<lambda>c. copy_out (rg_mask r) (c * unat (rg_capacity r)) t (unat real) (rg_buf r)
                         @ replicate (unat (n - real)) 0) [0..<unat nch];
          r = r\<lparr> rg_tail := (t + real) AND rg_mask r \<rparr>;
          r = (if real < n then r\<lparr> rg_underruns := rg_underruns r + ucast (n - real) \<rparr> else r)
      in (r, out, real))"

definition reac_ring_trim :: "'a ring \<Rightarrow> u32 \<Rightarrow> 'a ring \<times> u32" where
  "reac_ring_trim r keep =
     (let avail = reac_ring_readable r in
      if avail \<le> keep then (r, 0)
      else let drop = avail - keep;
               t = rg_tail r
           in (r\<lparr> rg_tail := (t + drop) AND rg_mask r \<rparr>, drop))"

section \<open>Masked positions\<close>

lemma unat_masked: "unat (w AND (2 ^ k - 1 :: u32)) = unat w mod 2 ^ k"
proof -
  have "w AND (2 ^ k - 1 :: u32) = take_bit k w"
    by (simp add: take_bit_eq_mask mask_eq_exp_minus_1)
  then show ?thesis by (simp only: unsigned_take_bit_eq take_bit_nat_def)
qed

lemma unat_masked_add:
  assumes "k \<le> 32"
  shows "unat ((a + b :: u32) AND (2 ^ k - 1)) = (unat a + unat b) mod 2 ^ k"
proof -
  have d: "(2 :: nat) ^ k dvd 2 ^ 32" using assms by (rule le_imp_power_dvd)
  have "unat (a + b) mod 2 ^ k = ((unat a + unat b) mod 2 ^ 32) mod 2 ^ k"
    by (simp add: unat_word_ariths)
  also have "\<dots> = (unat a + unat b) mod 2 ^ k" using d by (rule mod_mod_cancel)
  finally show ?thesis by (simp only: unat_masked)
qed

lemma unat_masked_diff:
  assumes "k \<le> 32" and "unat b < 2 ^ k"
  shows "unat ((a - b :: u32) AND (2 ^ k - 1)) = (unat a + (2 ^ k - unat b)) mod 2 ^ k"
proof -
  have "unat ((a - b + b) AND (2 ^ k - 1)) = (unat (a - b) + unat b) mod 2 ^ k"
    by (rule unat_masked_add [OF assms(1)])
  then have e: "unat a mod 2 ^ k = (unat (a - b) + unat b) mod 2 ^ k"
    by (simp only: diff_add_cancel unat_masked)
  have "(unat a + (2 ^ k - unat b)) mod 2 ^ k = (unat (a - b) + unat b + (2 ^ k - unat b)) mod 2 ^ k"
    by (rule mod_add_cong [OF e refl])
  also have "unat (a - b) + unat b + (2 ^ k - unat b) = unat (a - b) + 2 ^ k" using assms(2) by simp
  finally show ?thesis by (simp add: unat_masked)
qed

section \<open>Rounding the capacity up\<close>

lemma smear_step:
  assumes "\<And>n. bit y n \<longleftrightarrow> (\<exists>j<d. bit x (n + j))"
  shows "bit (y OR drop_bit d y :: u32) n \<longleftrightarrow> (\<exists>j<2 * d. bit x (n + j))"
proof
  assume "bit (y OR drop_bit d y) n"
  then consider "bit y n" | "bit y (n + d)" by (auto simp: bit_simps add.commute)
  then show "\<exists>j<2 * d. bit x (n + j)"
  proof cases
    case 1
    then obtain j where "j < d" "bit x (n + j)" using assms by blast
    then show ?thesis by (intro exI [of _ j]) simp
  next
    case 2
    then obtain j where "j < d" "bit x (n + d + j)" using assms by blast
    then show ?thesis by (intro exI [of _ "d + j"]) (simp add: add.assoc)
  qed
next
  assume "\<exists>j<2 * d. bit x (n + j)"
  then obtain j where j: "j < 2 * d" "bit x (n + j)" by blast
  show "bit (y OR drop_bit d y) n"
  proof (cases "j < d")
    case True
    then show ?thesis using j assms by (auto simp: bit_simps)
  next
    case False
    then have "bit x ((n + d) + (j - d))" "j - d < d" using j by simp_all
    then have "bit y (n + d)" using assms by blast
    then show ?thesis by (simp add: bit_simps add.commute)
  qed
qed

lemma bit_unat_top:
  assumes "2 ^ b \<le> unat x" and "unat (x :: u32) < 2 ^ Suc b"
  shows "bit x b" and "b < m \<Longrightarrow> \<not> bit x m"
proof -
  have e: "bit x m \<longleftrightarrow> odd (unat x div 2 ^ m)" for m
    by (simp only: bit_iff_odd [symmetric] bit_unsigned_iff) (auto dest: bit_imp_le_length)
  have "unat x div 2 ^ b = 1" using assms by (intro div_nat_eqI) simp_all
  then show "bit x b" by (simp add: e)
  assume "b < m"
  then have "(2 :: nat) ^ Suc b \<le> 2 ^ m" by (intro power_increasing) simp_all
  then show "\<not> bit x m" using assms(2) by (simp add: e)
qed

lemma next_pow2_spec:
  "next_pow2 v = (if v < 2 then 2 else 2 ^ Suc b)"
  if "v < 2 \<or> 2 ^ b \<le> unat (v - 1) \<and> unat (v - 1) < 2 ^ Suc b"
proof (cases "v < 2")
  case False
  define x where "x = v - 1"
  have b: "bit x b" "\<And>m. b < m \<Longrightarrow> \<not> bit x m"
    using that False bit_unat_top [of b x] by (auto simp: x_def)
  define y1 where "y1 = x OR drop_bit 1 x"
  define y2 where "y2 = y1 OR drop_bit 2 y1"
  define y4 where "y4 = y2 OR drop_bit 4 y2"
  define y8 where "y8 = y4 OR drop_bit 8 y4"
  define y16 where "y16 = y8 OR drop_bit 16 y8"
  have s1: "bit y1 n \<longleftrightarrow> (\<exists>j<2. bit x (n + j))" for n
    using smear_step [of x 1 x n] by (simp add: y1_def)
  have s2: "bit y2 n \<longleftrightarrow> (\<exists>j<4. bit x (n + j))" for n
    using smear_step [OF s1, of n] by (simp add: y2_def)
  have s4: "bit y4 n \<longleftrightarrow> (\<exists>j<8. bit x (n + j))" for n
    using smear_step [OF s2, of n] by (simp add: y4_def)
  have s8: "bit y8 n \<longleftrightarrow> (\<exists>j<16. bit x (n + j))" for n
    using smear_step [OF s4, of n] by (simp add: y8_def)
  have s16: "bit y16 n \<longleftrightarrow> (\<exists>j<32. bit x (n + j))" for n
    using smear_step [OF s8, of n] by (simp add: y16_def)
  have b32: "b < 32" using bit_imp_le_length [OF b(1)] by simp
  have "y16 = mask (Suc b)"
  proof (rule bit_word_eqI)
    fix n
    have "bit y16 n \<longleftrightarrow> n \<le> b"
    proof
      assume "bit y16 n"
      then obtain j where "bit x (n + j)" using s16 by blast
      then show "n \<le> b" using b(2) [of "n + j"] by linarith
    next
      assume "n \<le> b"
      then show "bit y16 n" using s16 [of n] b(1) b32 by (auto intro!: exI [of _ "b - n"])
    qed
    then show "bit y16 n \<longleftrightarrow> bit (mask (Suc b) :: u32) n" using b32 by (auto simp: bit_mask_iff)
  qed
  moreover have "next_pow2 v = y16 + 1"
    using False by (simp add: next_pow2_def Let_def y16_def y8_def y4_def y2_def y1_def x_def)
  ultimately show ?thesis using False by (simp add: mask_eq_exp_minus_1)
qed (simp add: next_pow2_def)

text \<open>The capacity is a power of two that holds the request, or the request is refused.\<close>

lemma next_pow2_cases:
  assumes "v \<noteq> 0"
  obtains (refused) "next_pow2 v = 0" "2 ^ 31 < unat v"
  | (rounded) k where "next_pow2 v = 2 ^ k" "1 \<le> k" "k \<le> 31" "unat v \<le> 2 ^ k"
      "2 < unat v \<longrightarrow> 2 ^ k < 2 * unat v"
proof (cases "v < 2")
  case True
  then have "unat v < 2" by (simp add: word_less_nat_alt)
  then show ?thesis using that(2) [of 1] True by (simp add: next_pow2_def)
next
  case False
  then have v2: "2 \<le> unat v" by (simp add: word_less_nat_alt)
  then have x: "unat (v - 1) = unat v - 1"
    by (metis One_nat_def not_one_le_zero numeral_2_eq_2 unat_0 unat_minus_one Suc_leD)
  obtain b where b: "2 ^ b \<le> unat v - 1" "unat v - 1 < 2 ^ Suc b"
    using ex_power_ivl1 [of 2 "unat v - 1"] v2 by fastforce
  have p: "next_pow2 v = 2 ^ Suc b" using next_pow2_spec [of v b] False b x by simp
  have "unat v < 2 ^ 32" using unsigned_less [of v] by simp
  then have "(2 :: nat) ^ b < 2 ^ 32" using b by linarith
  then have "b < 32" using power_strict_increasing_iff [of "2 :: nat" b 32] by simp
  show ?thesis
  proof (cases "b = 31")
    case True
    then show ?thesis using that(1) p b by simp
  next
    case False
    have "unat v \<le> 2 ^ Suc b" and "2 ^ Suc b < 2 * unat v" using b v2 by simp_all
    then show ?thesis using that(2) [of "Suc b"] p False \<open>b < 32\<close> by simp
  qed
qed

section \<open>Positions on the circle\<close>

text \<open>How many slots \<open>p\<close> lies after \<open>h\<close> on a circle of \<open>K\<close> slots.\<close>

definition ring_dist :: "nat \<Rightarrow> nat \<Rightarrow> nat \<Rightarrow> nat" where
  "ring_dist K h p = (p + (K - h)) mod K"

lemma ring_dist_if:
  "h < K \<Longrightarrow> p < K \<Longrightarrow> ring_dist K h p = (if h \<le> p then p - h else p + (K - h))"
  by (auto simp: ring_dist_def mod_if)

lemma mod_add_if: "h < K \<Longrightarrow> s < K \<Longrightarrow> (h + s) mod K = (if h + s < K then h + s else h + s - K :: nat)"
  by (auto simp: mod_if)

lemma ring_dist_less: "0 < K \<Longrightarrow> ring_dist K h p < K"
  by (simp add: ring_dist_def)

lemma ring_dist_add: "h < K \<Longrightarrow> s < K \<Longrightarrow> ring_dist K h ((h + s) mod K) = s"
  by (auto simp: mod_add_if ring_dist_if)

lemma ring_dist_Suc:
  "h < K \<Longrightarrow> p < K \<Longrightarrow> ring_dist K (Suc h mod K) p = (if p = h then K - 1 else ring_dist K h p - 1)"
  by (cases "Suc h = K") (auto simp: ring_dist_if)

lemma ring_dist_eq_0: "h < K \<Longrightarrow> p < K \<Longrightarrow> ring_dist K h p = 0 \<longleftrightarrow> p = h"
  by (auto simp: ring_dist_if)

lemma ring_dist_self [simp]: "h < K \<Longrightarrow> ring_dist K h h = 0"
  by (simp add: ring_dist_if)

text \<open>Rows of \<open>K\<close> cells do not overlap.\<close>

lemma cell_inj: "p < K \<Longrightarrow> q < K \<Longrightarrow> c * K + p = d * K + q \<longleftrightarrow> c = d \<and> p = (q :: nat)"
  by (metis add.commute add_left_cancel div_mult_self3 div_less mult.commute add_0
      less_nat_zero_code mult_0_right)

lemma cell_bound: "c < m \<Longrightarrow> p < K \<Longrightarrow> c * K + p < m * (K :: nat)"
  using mult_le_mono1 [of "Suc c" m K] by simp

section \<open>The copy loops\<close>

lemma length_copy_in [simp]: "length (copy_in msk base pos xs buf) = length buf"
  by (induction xs arbitrary: pos buf) auto

lemma copy_in_cell:
  assumes "K = 2 ^ k" and "k \<le> 31" and "msk = 2 ^ k - 1"
    and "unat pos < K" and "p < K" and "length xs \<le> K" and "length buf = m * K" and "c < m" and "d < m"
  shows "copy_in msk (c * K) pos xs buf ! (d * K + p) =
           (if d = c \<and> ring_dist K (unat pos) p < length xs then xs ! ring_dist K (unat pos) p
            else buf ! (d * K + p))"
  using assms(4,6,7)
proof (induction xs arbitrary: pos buf)
  case (Cons x xs)
  let ?pos = "(pos + 1) AND msk"
  have u: "unat ?pos = (unat pos + 1) mod K" using assms(1-3) unat_masked_add [of k pos 1] by simp
  have "unat ?pos < K" using u Cons.prems(1) by simp
  moreover have "length xs \<le> K" using Cons.prems by simp
  ultimately have ih: "copy_in msk (c * K) ?pos xs (buf[c * K + unat pos := x]) ! (d * K + p) =
      (if d = c \<and> ring_dist K (unat ?pos) p < length xs then xs ! ring_dist K (unat ?pos) p
       else buf[c * K + unat pos := x] ! (d * K + p))"
    using Cons.prems by (intro Cons.IH) simp_all
  have b: "c * K + unat pos < length buf" using Cons.prems assms(8) by (simp add: cell_bound)
  have e: "buf[c * K + unat pos := x] ! (d * K + p) = (if d = c \<and> p = unat pos then x else buf ! (d * K + p))"
    using b cell_inj [OF assms(5) Cons.prems(1), of d c] by (auto simp: nth_list_update)
  show ?case
  proof (cases "p = unat pos")
    case True
    then show ?thesis using Cons.prems assms(5) ih e
      by (auto simp: u ring_dist_Suc ring_dist_eq_0)
  next
    case False
    then obtain j where "ring_dist K (unat pos) p = Suc j"
      using ring_dist_eq_0 [OF Cons.prems(1) assms(5)] by (cases "ring_dist K (unat pos) p") auto
    then show ?thesis using False Cons.prems assms(5) ih e by (auto simp: u ring_dist_Suc)
  qed
qed simp

lemma copy_out_eq:
  assumes "K = 2 ^ k" and "k \<le> 31" and "msk = 2 ^ k - 1" and "unat pos < K"
  shows "copy_out msk base pos n buf = map (\<lambda>s. buf ! (base + (unat pos + s) mod K)) [0..<n]"
  using assms(4)
proof (induction n arbitrary: pos)
  case (Suc n)
  let ?pos = "(pos + 1) AND msk"
  have u: "unat ?pos = (unat pos + 1) mod K" using assms(1-3) unat_masked_add [of k pos 1] by simp
  then have "unat ?pos < K" using Suc.prems by simp
  from Suc.IH [OF this] show ?case
    using Suc.prems by (simp add: u mod_simps upt_conv_Cons map_Suc_upt [symmetric] o_def
        del: upt_Suc)
qed simp

lemma rows_copied:
  assumes "K = 2 ^ k" and "k \<le> 31" and "msk = 2 ^ k - 1" and "unat h < K" and "p < K"
    and "\<And>c. c < j0 \<Longrightarrow> length (src c) = w" and "w \<le> K" and "length buf = m * K" and "j \<le> j0" and "d < m" and "j0 \<le> m"
  shows "fold (\<lambda>c. copy_in msk (c * K) h (src c)) [0..<j] buf ! (d * K + p) =
           (if d < j \<and> ring_dist K (unat h) p < w then src d ! ring_dist K (unat h) p
            else buf ! (d * K + p))"
    and "length (fold (\<lambda>c. copy_in msk (c * K) h (src c)) [0..<j] buf) = length buf"
  using assms(9)
proof (induction j)
  case (Suc j)
  {
    case 1
    then have "length (fold (\<lambda>c. copy_in msk (c * K) h (src c)) [0..<j] buf) = m * K"
      using Suc(2) assms(8) by simp
    then show ?case using 1 Suc(1) assms copy_in_cell [OF assms(1-5), of "src j" _ m j d]
      by (auto simp: less_Suc_eq)
  next
    case 2
    then show ?case using Suc(2) by simp
  }
qed simp_all

lemma rows_retired:
  assumes "p < K" and "length buf = m * K" and "c1 \<le> m" and "d < m"
  shows "retire_rows K c0 c1 buf ! (d * K + p) = (if c0 \<le> d \<and> d < c1 then 0 else buf ! (d * K + p))"
    and "length (retire_rows K c0 c1 buf) = length buf"
  using assms(3)
proof (induction c1)
  case (Suc c1)
  {
    case 1
    have l: "length (retire_rows K c0 c1 buf) = m * K" using Suc(2) 1 assms by simp
    have le: "c1 * K + length (replicate K (0 :: 'a)) \<le> m * K" using mult_le_mono1 [of "Suc c1" m K] 1 by simp
    have i: "d * K + p < m * K" using assms by (simp add: cell_bound)
    have in_row: "c1 * K \<le> d * K + p \<and> d * K + p < c1 * K + K \<longleftrightarrow> d = c1"
    proof
      assume a: "c1 * K \<le> d * K + p \<and> d * K + p < c1 * K + K"
      then have "d * K + p = c1 * K + (d * K + p - c1 * K)" "d * K + p - c1 * K < K" by linarith+
      then show "d = c1" using cell_inj [OF assms(1)] by metis
    qed (use assms(1) in simp)
    show ?case
      using Suc(1) 1 nth_poke [OF le [folded l] i [folded l]] in_row
      by (auto simp: retire_rows_def not_le less_Suc_eq)
  next
    case 2
    then show ?case using Suc(2) assms mult_le_mono1 [of "Suc c1" m K]
      by (auto simp: retire_rows_def)
  }
qed (simp_all add: retire_rows_def)

lemma ring_dist_extend:
  "t < K \<Longrightarrow> h < K \<Longrightarrow> ring_dist K t h + w < K \<Longrightarrow>
     ring_dist K t ((h + w) mod K) = ring_dist K t h + w"
  by (auto simp: ring_dist_if mod_add_if split: if_splits)

lemma ring_dist_shrink:
  "t < K \<Longrightarrow> h < K \<Longrightarrow> j \<le> ring_dist K t h \<Longrightarrow> ring_dist K ((t + j) mod K) h = ring_dist K t h - j"
  by (auto simp: ring_dist_if mod_add_if split: if_splits)

lemma ring_dist_before:
  "t < K \<Longrightarrow> h < K \<Longrightarrow> i < ring_dist K t h \<Longrightarrow>
     ring_dist K h ((t + i) mod K) = K - ring_dist K t h + i"
  by (auto simp: ring_dist_if mod_add_if split: if_splits)

lemma ring_dist_reach:
  "t < K \<Longrightarrow> h < K \<Longrightarrow> (t + (ring_dist K t h + s)) mod K = (h + s) mod K"
proof -
  assume "t < K" and "h < K"
  then have "(t + ring_dist K t h) mod K = h" by (auto simp: ring_dist_if)
  then have "(t + ring_dist K t h + s) mod K = (h + s) mod K" by (metis mod_add_left_eq)
  then show ?thesis by (simp add: add.assoc)
qed

section \<open>The bounded queue of frames\<close>

text \<open>A frame is one sample of every row. The queue holds the frames not yet read and the two
  statistics; its length never exceeds \<open>bound\<close>.\<close>

type_synonym 'a frame_queue = "'a list list \<times> u64 \<times> u64"

definition frame_of_planar :: "('a :: zero) list \<Rightarrow> nat \<Rightarrow> nat \<Rightarrow> nat \<Rightarrow> nat \<Rightarrow> 'a list" where
  "frame_of_planar planar n m ch s = map (\<lambda>c. if c < m then planar ! (c * n + s) else 0) [0..<ch]"

definition mute_above :: "nat \<Rightarrow> ('a :: zero) list \<Rightarrow> 'a list" where
  "mute_above m f = map (\<lambda>c. if c < m then f ! c else 0) [0..<length f]"

datatype 'a ring_op = Ring_Write "'a list" u32 u32 | Ring_Read u32 u32 | Ring_Trim u32

fun queue_step :: "nat \<Rightarrow> nat \<Rightarrow> ('a :: zero) ring_op \<Rightarrow> 'a frame_queue \<Rightarrow> 'a frame_queue \<times> 'a list list \<times> nat" where
  "queue_step bound ch (Ring_Write planar n src) (q, und, ovr) =
     (let m = min (unat src) ch;
          w = min (unat n) (bound - length q)
      in ((map (mute_above m) q @ map (frame_of_planar planar (unat n) m ch) [0..<w],
           und, ovr + of_nat (unat n - w)), [], w))"
| "queue_step bound ch (Ring_Read channels n) (q, und, ovr) =
     (let real = min (unat n) (length q)
      in ((drop real q, und + of_nat (unat n - real), ovr),
          map (\<lambda>c. map (\<lambda>f. f ! c) (take real q) @ replicate (unat n - real) 0)
            [0..<min (unat channels) ch], real))"
| "queue_step bound ch (Ring_Trim keep) (q, und, ovr) =
     (let n = length q - unat keep in ((drop n q, und, ovr), [], n))"

fun ring_step :: "('a :: zero) ring_op \<Rightarrow> 'a ring \<Rightarrow> 'a ring \<times> 'a list list \<times> nat" where
  "ring_step (Ring_Write planar n src) r = (let (r', w) = reac_ring_write r planar n src in (r', [], unat w))"
| "ring_step (Ring_Read channels n) r =
     (let (r', out, real) = reac_ring_read_planar r channels n in (r', out, unat real))"
| "ring_step (Ring_Trim keep) r = (let (r', n) = reac_ring_trim r keep in (r', [], unat n))"

definition ring_frames :: "'a ring \<Rightarrow> 'a list list" where
  "ring_frames r =
     map (\<lambda>i. map (\<lambda>c. rg_buf r ! (c * unat (rg_capacity r) + (unat (rg_tail r) + i) mod unat (rg_capacity r)))
                [0..<unat (rg_channels r)])
       [0..<unat (reac_ring_readable r)]"

definition ring_abs :: "'a ring \<Rightarrow> 'a frame_queue" where
  "ring_abs r = (ring_frames r, rg_underruns r, rg_overruns r)"

text \<open>The ring is well formed, and the rows the last source did not fill are silent.\<close>

definition ring_inv :: "nat \<Rightarrow> nat \<Rightarrow> ('a :: zero) ring \<Rightarrow> bool" where
  "ring_inv k ch r \<longleftrightarrow>
     1 \<le> k \<and> k \<le> 31 \<and> rg_capacity r = 2 ^ k \<and> rg_mask r = 2 ^ k - 1 \<and> unat (rg_channels r) = ch \<and>
     length (rg_buf r) = ch * 2 ^ k \<and> unat (rg_head r) < 2 ^ k \<and> unat (rg_tail r) < 2 ^ k \<and>
     unat (rg_wrote_channels r) \<le> ch \<and>
     (\<forall>c p. unat (rg_wrote_channels r) \<le> c \<longrightarrow> c < ch \<longrightarrow> p < 2 ^ k \<longrightarrow> rg_buf r ! (c * 2 ^ k + p) = 0)"

fun ring_op_ok :: "nat \<Rightarrow> 'a ring_op \<Rightarrow> bool" where
  "ring_op_ok ch (Ring_Write planar n src) = (min (unat src) ch * unat n \<le> length planar)"
| "ring_op_ok ch _ = True"

lemma unat_pow_word: "k \<le> 31 \<Longrightarrow> unat (2 ^ k :: u32) = 2 ^ k"
proof -
  assume "k \<le> 31"
  then have "(2 :: nat) ^ k < 2 ^ 32" by (intro power_strict_increasing) simp_all
  then show ?thesis
    using unat_of_nat [of "2 ^ k", where 'a = 32] by (simp add: take_bit_nat_eq_self)
qed

lemma unat_mask_word: "k \<le> 31 \<Longrightarrow> unat (2 ^ k - 1 :: u32) = 2 ^ k - 1"
  by (simp add: unat_minus_one unat_pow_word flip: unat_eq_zero)

lemma ring_inv_readable:
  assumes "ring_inv k ch r"
  shows "unat (reac_ring_readable r) = ring_dist (2 ^ k) (unat (rg_tail r)) (unat (rg_head r))"
    and "unat (reac_ring_writable r) = 2 ^ k - 1 - ring_dist (2 ^ k) (unat (rg_tail r)) (unat (rg_head r))"
proof -
  let ?d = "ring_dist (2 ^ k) (unat (rg_tail r)) (unat (rg_head r))"
  show d: "unat (reac_ring_readable r) = ?d"
    using assms unat_masked_diff [of k "rg_tail r" "rg_head r"]
    by (simp add: ring_inv_def reac_ring_readable_def ring_dist_def)
  have "?d < 2 ^ k" by (rule ring_dist_less) simp
  then show "unat (reac_ring_writable r) = 2 ^ k - 1 - ?d"
    using assms d unat_mask_word [of k]
    by (simp add: reac_ring_writable_def ring_inv_def unat_sub_if')
qed

text \<open>Initialisation yields the empty queue.\<close>

lemma reac_ring_init_ok:
  assumes "reac_ring_init True channels capacity_frames = Some r"
  obtains k where "ring_inv k (unat channels) r" and "unat capacity_frames \<le> 2 ^ k"
    and "ring_abs r = ([], 0, 0)"
proof -
  have nz: "capacity_frames \<noteq> 0" "next_pow2 capacity_frames \<noteq> 0"
    using assms by (auto simp: reac_ring_init_def Let_def split: if_splits)
  from nz(1) show ?thesis
  proof (cases rule: next_pow2_cases)
    case (rounded k)
    then have "ring_inv k (unat channels) r"
      using assms nz unat_pow_word [of k] cell_bound [of _ "unat channels" _ "2 ^ k"]
      by (auto simp: reac_ring_init_def Let_def ring_inv_def mult.commute)
    moreover have "ring_abs r = ([], 0, 0)"
      using assms nz by (auto simp: reac_ring_init_def Let_def ring_abs_def ring_frames_def
          reac_ring_readable_def)
    ultimately show ?thesis using that rounded by blast
  qed (use nz in simp)
qed

lemma ring_frames_eq:
  assumes "ring_inv k ch r"
  shows "ring_frames r = map (\<lambda>i. map (\<lambda>c. rg_buf r ! (c * 2 ^ k + (unat (rg_tail r) + i) mod 2 ^ k)) [0..<ch])
           [0..<ring_dist (2 ^ k) (unat (rg_tail r)) (unat (rg_head r))]"
  using assms unat_pow_word [of k] ring_inv_readable(1) [OF assms]
  by (simp add: ring_frames_def ring_inv_def)

lemma length_ring_frames:
  "ring_inv k ch r \<Longrightarrow> length (ring_frames r) = ring_dist (2 ^ k) (unat (rg_tail r)) (unat (rg_head r))"
  by (simp add: ring_frames_eq)

text \<open>The write after its width change: the rows above the source are silent, the frames in
  the queue keep what lies below.\<close>

lemma ring_narrow:
  assumes "ring_inv k ch r" and "m = min (unat src) ch" and "r' = ring_set_width r src"
  shows "ring_inv k ch r'" and "unat (rg_wrote_channels r') = m"
    and "ring_frames r' = map (mute_above m) (ring_frames r)"
proof -
  define src' where "src' = (if src > rg_channels r then rg_channels r else src)"
  have r': "r' = r\<lparr> rg_buf := (if src' < rg_wrote_channels r
                   then retire_rows (unat (rg_capacity r)) (unat src') (unat (rg_wrote_channels r)) (rg_buf r)
                   else rg_buf r), rg_wrote_channels := src' \<rparr>"
    by (simp add: assms(3) ring_set_width_def Let_def src'_def)
  have K: "unat (rg_capacity r) = 2 ^ k" using assms(1) unat_pow_word [of k] by (simp add: ring_inv_def)
  have l: "length (rg_buf r) = ch * 2 ^ k" and wr: "unat (rg_wrote_channels r) \<le> ch"
    using assms(1) by (simp_all add: ring_inv_def)
  have m: "unat src' = m"
    using assms by (auto simp: ring_inv_def word_less_nat_alt src'_def)
  then show "unat (rg_wrote_channels r') = m" by (simp add: r')
  have cell: "rg_buf r' ! (c * 2 ^ k + p) = (if c < m then rg_buf r ! (c * 2 ^ k + p) else 0)"
    if "c < ch" "p < 2 ^ k" for c p
    using assms(1) that m rows_retired(1) [OF that(2) l wr that(1), of m]
    by (auto simp: r' ring_inv_def word_less_nat_alt not_less unat_pow_word)
  have "length (rg_buf r') = ch * 2 ^ k"
    using rows_retired(2) [OF _ l wr, of 0] by (cases "ch = 0")
      (use l wr in \<open>auto simp: r' K retire_rows_def\<close>)
  then show inv': "ring_inv k ch r'"
    using assms(1) m cell assms(2) by (auto simp: ring_inv_def r')
  have "rg_tail r' = rg_tail r" "rg_head r' = rg_head r" by (simp_all add: r')
  then show "ring_frames r' = map (mute_above m) (ring_frames r)"
    by (auto simp: ring_frames_eq [OF assms(1)] ring_frames_eq [OF inv'] mute_above_def cell)
qed

text \<open>Storing \<open>w\<close> frames past the head appends them to the queue.\<close>

lemma ring_append:
  assumes inv: "ring_inv k ch r" and m: "unat (rg_wrote_channels r) = m"
    and w: "ring_dist (2 ^ k) (unat (rg_tail r)) (unat (rg_head r)) + unat w < 2 ^ k"
    and src: "\<And>c. c < m \<Longrightarrow> length (src c) = unat w"
    and r': "r' = r\<lparr> rg_buf := fold (\<lambda>c. copy_in (rg_mask r) (c * 2 ^ k) (rg_head r) (src c)) [0..<m] (rg_buf r),
               rg_head := (rg_head r + w) AND rg_mask r, rg_overruns := ov \<rparr>"
  shows "ring_inv k ch r'"
    and "ring_frames r' = ring_frames r @ map (\<lambda>s. map (\<lambda>c. if c < m then src c ! s else 0) [0..<ch]) [0..<unat w]"
proof -
  define K :: nat where "K = 2 ^ k"
  define t where "t = unat (rg_tail r)"
  define h where "h = unat (rg_head r)"
  have k: "k \<le> 31" "rg_mask r = 2 ^ k - 1" and lt: "h < K" "t < K" and l: "length (rg_buf r) = ch * K"
    and mch: "m \<le> ch"
    using inv m by (simp_all add: ring_inv_def K_def h_def t_def)
  have h': "unat (rg_head r') = (h + unat w) mod K"
    using k unat_masked_add [of k "rg_head r" w] by (simp add: r' h_def K_def)
  have cell: "rg_buf r' ! (c * K + p) =
      (if c < m \<and> ring_dist K h p < unat w then src c ! ring_dist K h p else rg_buf r ! (c * K + p))"
    if "c < ch" "p < K" for c p
    using rows_copied(1) [OF K_def k, of "rg_head r" p m src "unat w" "rg_buf r" ch m c] that lt src w mch l
    by (simp add: r' K_def h_def)
  have "length (rg_buf r') = ch * K"
    using rows_copied(2) [OF K_def k, of "rg_head r" 0 m src "unat w" "rg_buf r" ch m 0] lt src w mch l
    by (cases "ch = 0") (simp_all add: r' K_def h_def)
  then show i: "ring_inv k ch r'"
    using inv m cell h' lt by (auto simp: ring_inv_def r' K_def)
  have d: "ring_dist K t h + unat w < K" using w by (simp add: K_def t_def h_def)
  let ?d = "ring_dist K t h"
  have silent: "rg_buf r ! (c * K + p) = 0" if "m \<le> c" "c < ch" "p < K" for c p
    using inv that m by (simp add: ring_inv_def K_def)
  have old: "rg_buf r' ! (c * K + (t + i) mod K) = rg_buf r ! (c * K + (t + i) mod K)"
    if "i < ?d" "c < ch" for i c
  proof -
    have "\<not> K - ?d + i < unat w" using d by linarith
    then show ?thesis using that d lt by (simp add: cell ring_dist_before)
  qed
  have new: "rg_buf r' ! (c * K + (t + (?d + s)) mod K) = (if c < m then src c ! s else 0)"
    if "s < unat w" "c < ch" for s c
  proof -
    have "ring_dist K h ((h + s) mod K) = s" and "(h + s) mod K < K"
      using that d lt by (simp_all add: ring_dist_add)
    then show ?thesis
      using cell [OF that(2), of "(h + s) mod K"] silent [of c "(h + s) mod K"] that
      by (simp add: ring_dist_reach [OF lt(2,1)])
  qed
  have t': "unat (rg_tail r') = t" by (simp add: r' t_def)
  have f: "ring_frames r' = map (\<lambda>i. map (\<lambda>c. rg_buf r' ! (c * K + (t + i) mod K)) [0..<ch]) [0..<?d + unat w]"
    using ring_frames_eq [OF i] ring_dist_extend [OF lt(2,1) d] by (simp add: t' h' flip: K_def)
  have "[0..<?d + unat w] = [0..<?d] @ map ((+) ?d) [0..<unat w]"
    by (rule nth_equalityI) (auto simp: nth_append)
  then show "ring_frames r' = ring_frames r @ map (\<lambda>s. map (\<lambda>c. if c < m then src c ! s else 0) [0..<ch]) [0..<unat w]"
    using ring_frames_eq [OF inv] by (simp add: f old new K_def [symmetric] t_def [symmetric] h_def [symmetric])
qed

lemma ring_write_sim:
  assumes "ring_inv k ch r" and "ring_op_ok ch (Ring_Write planar n src)"
  shows "ring_inv k ch (fst (reac_ring_write r planar n src))"
    and "queue_step (2 ^ k - 1) ch (Ring_Write planar n src) (ring_abs r) =
           (ring_abs (fst (reac_ring_write r planar n src)), [], unat (snd (reac_ring_write r planar n src)))"
proof -
  define m where "m = min (unat src) ch"
  define r1 where "r1 = ring_set_width r src"
  define fr where "fr = reac_ring_writable r1"
  define w where "w = (if n > fr then fr else n)"
  define ov where "ov = rg_overruns r + ucast (if n > fr then n - fr else 0)"
  define r2 where "r2 = r1\<lparr> rg_buf := fold (\<lambda>c. copy_in (rg_mask r1) (c * 2 ^ k) (rg_head r1) (peek (c * unat n) (unat w) planar))
                [0..<m] (rg_buf r1), rg_head := (rg_head r1 + w) AND rg_mask r1, rg_overruns := ov \<rparr>"
  have inv1: "ring_inv k ch r1" and m: "unat (rg_wrote_channels r1) = m"
    and f1: "ring_frames r1 = map (mute_above m) (ring_frames r)"
    by (rule ring_narrow [OF assms(1) m_def r1_def])+
  have keep: "rg_overruns r1 = rg_overruns r" "rg_underruns r1 = rg_underruns r"
    by (simp_all add: r1_def ring_set_width_def Let_def)
  have K: "unat (rg_capacity r1) = 2 ^ k" using inv1 unat_pow_word [of k] by (simp add: ring_inv_def)
  have fr: "unat fr = 2 ^ k - 1 - length (ring_frames r)"
    using ring_inv_readable(2) [OF inv1] length_ring_frames [OF inv1] f1 by (simp add: fr_def)
  have ln: "length (ring_frames r) < 2 ^ k"
    using length_ring_frames [OF assms(1)] ring_dist_less [of "2 ^ k"] by simp
  have w: "unat w = min (unat n) (2 ^ k - 1 - length (ring_frames r))"
    using fr by (auto simp: w_def word_less_nat_alt min_def)
  have "unat (if n > fr then n - fr else 0) = unat n - unat w"
    by (auto simp: w_def word_less_nat_alt unat_sub_if')
  then have ov: "ov = rg_overruns r + of_nat (unat n - unat w)"
    unfolding ov_def using of_nat_unat by metis
  have pb: "c * unat n + unat w \<le> length planar" if "c < m" for c
    using assms(2) that w mult_le_mono1 [of "Suc c" m "unat n"] by (simp add: m_def)
  then have pl: "length (peek (c * unat n) (unat w) planar) = unat w" if "c < m" for c
    using that by simp
  have app: "ring_inv k ch r2" "ring_frames r2 = ring_frames r1 @
      map (\<lambda>s. map (\<lambda>c. if c < m then peek (c * unat n) (unat w) planar ! s else 0) [0..<ch]) [0..<unat w]"
  proof -
    have d: "ring_dist (2 ^ k) (unat (rg_tail r1)) (unat (rg_head r1)) + unat w < 2 ^ k"
      using length_ring_frames [OF inv1] f1 w ln by simp
    show "ring_inv k ch r2" by (rule ring_append(1) [OF inv1 m d pl r2_def])
    show "ring_frames r2 = ring_frames r1 @
      map (\<lambda>s. map (\<lambda>c. if c < m then peek (c * unat n) (unat w) planar ! s else 0) [0..<ch]) [0..<unat w]"
      by (rule ring_append(2) [OF inv1 m d pl r2_def])
  qed
  have frames: "map (\<lambda>s. map (\<lambda>c. if c < m then peek (c * unat n) (unat w) planar ! s else 0) [0..<ch]) [0..<unat w] =
      map (frame_of_planar planar (unat n) m ch) [0..<unat w]"
    using pb by (auto simp: frame_of_planar_def)
  have r: "reac_ring_write r planar n src =
      (if n > fr \<and> w = 0 then (r1\<lparr> rg_overruns := ov \<rparr>, 0) else (r2, w))"
    by (simp add: reac_ring_write_def Let_def r2_def w_def ov_def fr_def keep m K flip: r1_def)
  show "ring_inv k ch (fst (reac_ring_write r planar n src))"
    using inv1 app(1) by (auto simp: r ring_inv_def)
  have ab: "ring_abs (fst (reac_ring_write r planar n src)) =
      (map (mute_above m) (ring_frames r) @ map (frame_of_planar planar (unat n) m ch) [0..<unat w], rg_underruns r, ov)"
  proof (cases "n > fr \<and> w = 0")
    case True
    then have "ring_abs (fst (reac_ring_write r planar n src)) = (ring_frames r1, rg_underruns r, ov)"
      by (simp add: r ring_abs_def ring_frames_def reac_ring_readable_def keep)
    then show ?thesis using True f1 by simp
  next
    case False
    then have "ring_abs (fst (reac_ring_write r planar n src)) = (ring_frames r2, rg_underruns r, ov)"
      by (auto simp: r ring_abs_def r2_def keep)
    then show ?thesis using app(2) f1 frames by simp
  qed
  have "snd (reac_ring_write r planar n src) = w" by (simp add: r)
  then show "queue_step (2 ^ k - 1) ch (Ring_Write planar n src) (ring_abs r) =
      (ring_abs (fst (reac_ring_write r planar n src)), [], unat (snd (reac_ring_write r planar n src)))"
    unfolding ab by (simp add: ring_abs_def Let_def ov w flip: m_def)
qed

lemma ring_advance:
  assumes inv: "ring_inv k ch r" and j: "unat j \<le> length (ring_frames r)"
  shows "ring_inv k ch (r\<lparr> rg_tail := (rg_tail r + j) AND rg_mask r, rg_underruns := un \<rparr>)"
    and "ring_frames (r\<lparr> rg_tail := (rg_tail r + j) AND rg_mask r, rg_underruns := un \<rparr>) = drop (unat j) (ring_frames r)"
proof -
  let ?r = "r\<lparr> rg_tail := (rg_tail r + j) AND rg_mask r, rg_underruns := un \<rparr>"
  let ?t = "unat (rg_tail r)" and ?h = "unat (rg_head r)" and ?K = "2 ^ k :: nat"
  have k: "k \<le> 31" "rg_mask r = 2 ^ k - 1" "?t < ?K" "?h < ?K" using inv by (simp_all add: ring_inv_def)
  have t': "unat (rg_tail ?r) = (?t + unat j) mod ?K" using k unat_masked_add [of k "rg_tail r" j] by simp
  show i: "ring_inv k ch ?r" using inv t' by (simp add: ring_inv_def)
  have d: "ring_dist ?K (unat (rg_tail ?r)) ?h = ring_dist ?K ?t ?h - unat j"
    using j k length_ring_frames [OF inv] unfolding t' by (intro ring_dist_shrink) simp_all
  have "(unat (rg_tail ?r) + x) mod ?K = (?t + (unat j + x)) mod ?K" for x
    unfolding t' by (simp add: mod_simps add.assoc)
  then show "ring_frames ?r = drop (unat j) (ring_frames r)"
    using d ring_frames_eq [OF i] by (simp add: ring_frames_eq [OF inv] drop_map)
      (auto intro!: nth_equalityI)
qed

lemma ring_read_sim:
  assumes inv: "ring_inv k ch r"
  shows "ring_inv k ch (fst (reac_ring_read_planar r channels n))"
    and "queue_step bound ch (Ring_Read channels n) (ring_abs r) =
           (let (r', out, real) = reac_ring_read_planar r channels n in (ring_abs r', out, unat real))"
proof -
  define avail where "avail = reac_ring_readable r"
  define real where "real = (if avail < n then avail else n)"
  define un where "un = rg_underruns r + ucast (n - real)"
  define r' where "r' = r\<lparr> rg_tail := (rg_tail r + real) AND rg_mask r, rg_underruns := un \<rparr>"
  let ?t = "unat (rg_tail r)" and ?K = "2 ^ k :: nat"
  have k: "k \<le> 31" "rg_mask r = 2 ^ k - 1" "?t < ?K" "unat (rg_capacity r) = ?K" "unat (rg_channels r) = ch"
    using inv unat_pow_word [of k] by (simp_all add: ring_inv_def)
  have av: "unat avail = length (ring_frames r)"
    using ring_inv_readable(1) [OF inv] length_ring_frames [OF inv] by (simp add: avail_def)
  have real: "unat real = min (unat n) (length (ring_frames r))"
    using av by (auto simp: real_def word_less_nat_alt)
  have nr: "unat (n - real) = unat n - unat real"
    by (auto simp: real_def word_less_nat_alt unat_sub_if')
  have un: "un = rg_underruns r + of_nat (unat n - unat real)"
    unfolding un_def nr [symmetric] by simp
  have noop: "un = rg_underruns r" if "\<not> real < n"
    using that nr un by (simp add: word_less_nat_alt)
  have row: "copy_out (rg_mask r) (c * ?K) (rg_tail r) (unat real) (rg_buf r) =
      map (\<lambda>f. f ! c) (take (unat real) (ring_frames r))" if "c < ch" for c
    using that real by (simp add: copy_out_eq [OF refl k(1-3)] ring_frames_eq [OF inv] take_map)
  have r: "reac_ring_read_planar r channels n = (r',
      map (\<lambda>c. map (\<lambda>f. f ! c) (take (unat real) (ring_frames r)) @ replicate (unat n - unat real) 0)
        [0..<min (unat channels) ch], real)"
  proof -
    have nch: "unat (if channels < rg_channels r then channels else rg_channels r) = min (unat channels) ch"
      using k(5) by (auto simp: word_less_nat_alt)
    have "(if real < n then r\<lparr> rg_tail := (rg_tail r + real) AND rg_mask r, rg_underruns := un \<rparr>
           else r\<lparr> rg_tail := (rg_tail r + real) AND rg_mask r \<rparr>) = r'"
      using noop by (auto simp: r'_def)
    then have "reac_ring_read_planar r channels n = (r',
      map (\<lambda>c. copy_out (rg_mask r) (c * ?K) (rg_tail r) (unat real) (rg_buf r)
              @ replicate (unat n - unat real) 0) [0..<min (unat channels) ch], real)"
      unfolding reac_ring_read_planar_def Let_def avail_def [symmetric] real_def [symmetric] nch nr k(4)
      by (auto simp: un_def)
    then show ?thesis using row by simp
  qed
  have "unat real \<le> length (ring_frames r)" using real by simp
  note a = ring_advance [OF inv this, of un]
  show "ring_inv k ch (fst (reac_ring_read_planar r channels n))" using a(1) by (simp add: r r'_def)
  have "ring_abs r' = (drop (unat real) (ring_frames r), un, rg_overruns r)"
    unfolding ring_abs_def r'_def a(2) by simp
  then show "queue_step bound ch (Ring_Read channels n) (ring_abs r) =
      (let (r', out, real) = reac_ring_read_planar r channels n in (ring_abs r', out, unat real))"
    by (simp add: r real un ring_abs_def Let_def)
qed

lemma ring_trim_sim:
  assumes inv: "ring_inv k ch r"
  shows "ring_inv k ch (fst (reac_ring_trim r keep))"
    and "queue_step bound ch (Ring_Trim keep) (ring_abs r) =
           (ring_abs (fst (reac_ring_trim r keep)), [], unat (snd (reac_ring_trim r keep)))"
proof -
  have av: "unat (reac_ring_readable r) = length (ring_frames r)"
    using ring_inv_readable(1) [OF inv] length_ring_frames [OF inv] by simp
  let ?d = "reac_ring_readable r - keep"
  show "ring_inv k ch (fst (reac_ring_trim r keep))"
  proof (cases "reac_ring_readable r \<le> keep")
    case False
    then have "unat ?d \<le> length (ring_frames r)" using av by (simp add: unat_sub_if' word_le_nat_alt)
    from ring_advance(1) [OF inv this, of "rg_underruns r"] show ?thesis
      using False by (simp add: reac_ring_trim_def Let_def)
  qed (simp add: reac_ring_trim_def inv)
  show "queue_step bound ch (Ring_Trim keep) (ring_abs r) =
           (ring_abs (fst (reac_ring_trim r keep)), [], unat (snd (reac_ring_trim r keep)))"
  proof (cases "reac_ring_readable r \<le> keep")
    case True
    then show ?thesis using av by (simp add: reac_ring_trim_def ring_abs_def word_le_nat_alt)
  next
    case False
    then have d: "unat ?d = length (ring_frames r) - unat keep" using av by (simp add: unat_sub_if' word_le_nat_alt)
    then have "unat ?d \<le> length (ring_frames r)" by simp
    from ring_advance(2) [OF inv this, of "rg_underruns r"] show ?thesis
      using False d by (simp add: reac_ring_trim_def Let_def ring_abs_def)
  qed
qed

interpretation ring: data_refinement "ring_inv k ch :: ('a :: zero) ring \<Rightarrow> bool" ring_abs ring_step "queue_step (2 ^ k - 1) ch" "ring_op_ok ch"
  for k ch
proof
  fix s :: "'a ring" and q :: "'a ring_op"
  assume s: "ring_inv k ch s" and q: "ring_op_ok ch q"
  show "ring_inv k ch (fst (ring_step q s))"
    using ring_write_sim(1) [OF s] ring_read_sim(1) [OF s] ring_trim_sim(1) [OF s] q
    by (cases q) (simp_all add: split_beta Let_def)
  show "queue_step (2 ^ k - 1) ch q (ring_abs s) = (ring_abs (fst (ring_step q s)), snd (ring_step q s))"
    using ring_write_sim(2) [OF s] ring_read_sim(2) [OF s] ring_trim_sim(2) [OF s] q
    by (cases q) (simp_all add: split_beta Let_def del: queue_step.simps)
qed

text \<open>C5: a ring refuses to be made exactly for a zero capacity, one that does not round up to a
  32-bit power of two, or a failed allocation. A ring that is made answers every sequence of
  writes, reads and trims as the bounded queue of frames does: what is written comes out once, in
  order and unchanged, on the rows below the source's width, with silence above it; what does
  not fit is dropped from the newest end and counted; what is missing is read as zeros and counted.\<close>

theorem ring_refines_queue:
  "(reac_ring_init ok channels cap = (None :: ('a :: zero) ring option) \<longleftrightarrow>
      cap = 0 \<or> 2 ^ 31 < unat cap \<or> \<not> ok) \<and>
   (\<forall>r :: 'a ring. reac_ring_init True channels cap = Some r \<longrightarrow>
      (\<exists>k. unat cap \<le> 2 ^ k \<and> unat (rg_capacity r) = 2 ^ k \<and>
        (\<forall>ops. list_all (ring_op_ok (unat channels)) ops \<longrightarrow>
           trace_of (queue_step (2 ^ k - 1) (unat channels)) ops ([], 0, 0) =
             (ring_abs (fst (trace_of ring_step ops r)), snd (trace_of ring_step ops r)))))"
proof (intro conjI allI impI)
  show "reac_ring_init ok channels cap = (None :: 'a ring option) \<longleftrightarrow> cap = 0 \<or> 2 ^ 31 < unat cap \<or> \<not> ok"
  proof (cases "cap = 0")
    case False
    then show ?thesis
    proof (cases rule: next_pow2_cases)
      case (rounded k)
      then have "next_pow2 cap \<noteq> 0" using unat_pow_word [of k] by auto
      moreover have "(2 :: nat) ^ k \<le> 2 ^ 31" using rounded by (intro power_increasing) simp_all
      ultimately show ?thesis using False rounded by (auto simp: reac_ring_init_def Let_def)
    qed (auto simp: reac_ring_init_def Let_def)
  qed (simp add: reac_ring_init_def)
next
  fix r :: "'a ring"
  assume "reac_ring_init True channels cap = Some r"
  then obtain k where k: "ring_inv k (unat channels) r" "unat cap \<le> 2 ^ k" "ring_abs r = ([], 0, 0)"
    by (rule reac_ring_init_ok)
  then have "unat (rg_capacity r) = 2 ^ k" using unat_pow_word [of k] by (simp add: ring_inv_def)
  then show "\<exists>k. unat cap \<le> 2 ^ k \<and> unat (rg_capacity r) = 2 ^ k \<and>
        (\<forall>ops. list_all (ring_op_ok (unat channels)) ops \<longrightarrow>
           trace_of (queue_step (2 ^ k - 1) (unat channels)) ops ([], 0, 0) =
             (ring_abs (fst (trace_of ring_step ops r)), snd (trace_of ring_step ops r)))"
    using k ring.sim_trace [OF k(1)] by (intro exI [of _ k]) simp
qed

theorem ring_refines_queue_witness:
  "\<exists>(r :: int ring) k. reac_ring_init True 2 3 = Some r \<and> unat (rg_capacity r) = 2 ^ k \<and>
     trace_of (queue_step (2 ^ k - 1) 2) [Ring_Write [1, 2, 3, 4] 2 2, Ring_Read 2 3] ([], 0, 0) =
       (ring_abs (fst (trace_of ring_step [Ring_Write [1, 2, 3, 4] 2 2, Ring_Read 2 3] r)),
        snd (trace_of ring_step [Ring_Write [1, 2, 3, 4] 2 2, Ring_Read 2 3] r))"
proof -
  have "reac_ring_init True 2 3 \<noteq> (None :: int ring option)" by (simp add: reac_ring_init_def next_pow2_def)
  then obtain r :: "int ring" where r: "reac_ring_init True 2 3 = Some r" by auto
  from ring_refines_queue [of True 2 3, THEN conjunct2, THEN spec, THEN mp, OF r]
  obtain k where k: "unat (rg_capacity r) = 2 ^ k" "\<forall>ops. list_all (ring_op_ok (unat (2 :: u32))) ops \<longrightarrow>
      trace_of (queue_step (2 ^ k - 1) (unat (2 :: u32))) ops ([], 0, 0) =
        (ring_abs (fst (trace_of ring_step ops r)), snd (trace_of ring_step ops r))" by blast
  have "list_all (ring_op_ok (unat (2 :: u32))) [Ring_Write [1, 2, 3, 4 :: int] 2 2, Ring_Read 2 3]" by simp
  note k(2) [THEN spec, THEN mp, OF this]
  moreover have "unat (2 :: u32) = 2" by simp
  ultimately show ?thesis using r k(1) by (intro exI conjI) (simp_all only:)
qed

end
