(* ===== verification/Reac_Ring_Spsc.thy ===== *)
theory Reac_Ring_Spsc
  imports Reac_Ring
begin

text \<open>
  The ring under its two threads. One write is, when it narrows the source, one store of zero per cell of the
  \<^verbatim>\<open>memset\<close> of the rows it retires, then the load of the free space, one store per sample in the order of
  the copy loops, and the store of \<^verbatim>\<open>head\<close>; one read (of all channels) is the load of the fill, one load per
  sample, and the store of \<^verbatim>\<open>tail\<close>; one trim is the load of the fill and the store of \<^verbatim>\<open>tail\<close>. Steps of
  the two threads interleave freely, each atomic and in program order, which is what the acquire loads and
  release stores of the indices give for the cells they hand over. The \<^verbatim>\<open>memset\<close> runs over cells the reader
  may hold: the model lets the reader see each of them before or after its store of zero. \<open>run_write_alone\<close> and
  \<open>run_read_alone\<close> show that the single steps, run without interruption, are the functions of \<open>Reac_Ring\<close>.

  Four fields record the history: the frames published, the rows received with the numbers of the frames they
  come from, how many frames were trimmed, and for each channel how many frames had been published when it was
  last retired.
\<close>

section \<open>The stores of a write and the loads of a read\<close>

fun row_cells :: "u32 \<Rightarrow> nat \<Rightarrow> u32 \<Rightarrow> nat \<Rightarrow> nat list" where
  "row_cells msk base pos 0 = []"
| "row_cells msk base pos (Suc n) = (base + unat pos) # row_cells msk base ((pos + 1) AND msk) n"

definition write_stores :: "'a ring \<Rightarrow> 'a list \<Rightarrow> u32 \<Rightarrow> u32 \<Rightarrow> (nat \<times> 'a) list" where
  "write_stores r planar n w =
     concat (map (\<lambda>c. zip (row_cells (rg_mask r) (c * unat (rg_capacity r)) (rg_head r) (unat w))
                          (peek (c * unat n) (unat w) planar))
               [0..<unat (rg_wrote_channels r)])"

definition read_loads :: "'a ring \<Rightarrow> u32 \<Rightarrow> nat list" where
  "read_loads r real =
     concat (map (\<lambda>c. row_cells (rg_mask r) (c * unat (rg_capacity r)) (rg_tail r) (unat real))
               [0..<unat (rg_channels r)])"

text \<open>Where each thread is: between calls, with cells still to clear before the write of these samples, or with
  these stores (of these frames) still to do; with these loads (after these values) still to do, or with frames to
  drop.\<close>

datatype 'a producer = P_Idle | P_Clear "nat list" "'a list" u32 u32 | P_Store "(nat \<times> 'a) list" "'a list list" u32
datatype 'a consumer = C_Idle | C_Load "nat list" "'a list" u32 | C_Trim u32

record 'a spsc =
  sp_ring :: "'a ring"
  sp_prod :: "'a producer"
  sp_cons :: "'a consumer"
  sp_sent :: "'a list list"
  sp_rows :: "nat \<Rightarrow> 'a list"
  sp_got :: "nat list"
  sp_taken :: nat
  sp_dropped :: nat
  sp_cut :: "nat \<Rightarrow> nat"

definition clamp_width :: "'a ring \<Rightarrow> u32 \<Rightarrow> u32" where
  "clamp_width r src = (if src > rg_channels r then rg_channels r else src)"

definition clear_cells :: "'a ring \<Rightarrow> u32 \<Rightarrow> nat list" where
  "clear_cells r src = [unat src * unat (rg_capacity r)..<unat (rg_wrote_channels r) * unat (rg_capacity r)]"

definition write_begin :: "('a :: zero) ring \<Rightarrow> 'a list \<Rightarrow> u32 \<Rightarrow> u32 \<Rightarrow> 'a ring \<times> 'a producer" where
  "write_begin r0 planar n src =
     (let r = r0\<lparr> rg_wrote_channels := src \<rparr>;
          free_slots = reac_ring_writable r;
          w = (if n > free_slots then free_slots else n);
          r = r\<lparr> rg_overruns := rg_overruns r + ucast (if n > free_slots then n - free_slots else 0) \<rparr>
      in if n > free_slots \<and> w = 0 then (r, P_Idle)
         else (r, P_Store (write_stores r planar n w)
                    (map (frame_of_planar planar (unat n) (unat (rg_wrote_channels r)) (unat (rg_channels r))) [0..<unat w]) w))"

inductive spsc_step :: "('a :: zero) spsc \<Rightarrow> 'a spsc \<Rightarrow> bool" where
  producer_begin:
    "sp_prod s = P_Idle \<Longrightarrow> src' = clamp_width (sp_ring s) src \<Longrightarrow> \<not> src' < rg_wrote_channels (sp_ring s) \<Longrightarrow>
     ring_op_ok (unat (rg_channels (sp_ring s))) (Ring_Write planar n src) \<Longrightarrow>
     write_begin (sp_ring s) planar n src' = (r, p) \<Longrightarrow>
     spsc_step s (s\<lparr> sp_ring := r, sp_prod := p \<rparr>)"
| producer_narrow:
    "sp_prod s = P_Idle \<Longrightarrow> src' = clamp_width (sp_ring s) src \<Longrightarrow> src' < rg_wrote_channels (sp_ring s) \<Longrightarrow>
     ring_op_ok (unat (rg_channels (sp_ring s))) (Ring_Write planar n src) \<Longrightarrow>
     spsc_step s (s\<lparr> sp_prod := P_Clear (clear_cells (sp_ring s) src') planar n src',
                     sp_cut := (\<lambda>c. if unat src' \<le> c \<and> c < unat (rg_wrote_channels (sp_ring s))
                                   then length (sp_sent s) else sp_cut s c) \<rparr>)"
| producer_clear:
    "sp_prod s = P_Clear (i # cl) planar n src' \<Longrightarrow>
     spsc_step s (s\<lparr> sp_ring := (sp_ring s)\<lparr> rg_buf := (rg_buf (sp_ring s))[i := 0] \<rparr>,
                     sp_prod := P_Clear cl planar n src' \<rparr>)"
| producer_cleared:
    "sp_prod s = P_Clear [] planar n src' \<Longrightarrow> write_begin (sp_ring s) planar n src' = (r, p) \<Longrightarrow>
     spsc_step s (s\<lparr> sp_ring := r, sp_prod := p \<rparr>)"
| producer_store:
    "sp_prod s = P_Store ((i, x) # st) fs w \<Longrightarrow>
     spsc_step s (s\<lparr> sp_ring := (sp_ring s)\<lparr> rg_buf := (rg_buf (sp_ring s))[i := x] \<rparr>, sp_prod := P_Store st fs w \<rparr>)"
| producer_publish:
    "sp_prod s = P_Store [] fs w \<Longrightarrow>
     spsc_step s (s\<lparr> sp_ring := (sp_ring s)\<lparr> rg_head := (rg_head (sp_ring s) + w) AND rg_mask (sp_ring s) \<rparr>,
                     sp_prod := P_Idle, sp_sent := sp_sent s @ fs \<rparr>)"
| consumer_begin:
    "sp_cons s = C_Idle \<Longrightarrow> avail = reac_ring_readable (sp_ring s) \<Longrightarrow>
     real = (if avail < n then avail else n) \<Longrightarrow>
     spsc_step s (s\<lparr> sp_cons := C_Load (read_loads (sp_ring s) real) [] real \<rparr>)"
| consumer_load:
    "sp_cons s = C_Load (i # ld) acc real \<Longrightarrow>
     spsc_step s (s\<lparr> sp_cons := C_Load ld (acc @ [rg_buf (sp_ring s) ! i]) real \<rparr>)"
| consumer_publish:
    "sp_cons s = C_Load [] acc real \<Longrightarrow>
     spsc_step s (s\<lparr> sp_ring := (sp_ring s)\<lparr> rg_tail := (rg_tail (sp_ring s) + real) AND rg_mask (sp_ring s) \<rparr>,
                     sp_cons := C_Idle,
                     sp_rows := (\<lambda>c. sp_rows s c @ peek (c * unat real) (unat real) acc),
                     sp_got := sp_got s @ [sp_taken s..<sp_taken s + unat real],
                     sp_taken := sp_taken s + unat real \<rparr>)"
| consumer_trim:
    "sp_cons s = C_Idle \<Longrightarrow> avail = reac_ring_readable (sp_ring s) \<Longrightarrow> \<not> avail \<le> keep \<Longrightarrow>
     spsc_step s (s\<lparr> sp_cons := C_Trim (avail - keep) \<rparr>)"
| consumer_trimmed:
    "sp_cons s = C_Trim d \<Longrightarrow>
     spsc_step s (s\<lparr> sp_ring := (sp_ring s)\<lparr> rg_tail := (rg_tail (sp_ring s) + d) AND rg_mask (sp_ring s) \<rparr>,
                     sp_cons := C_Idle, sp_taken := sp_taken s + unat d, sp_dropped := sp_dropped s + unat d \<rparr>)"

definition spsc_start :: "('a :: zero) ring \<Rightarrow> 'a spsc" where
  "spsc_start r = \<lparr> sp_ring = r, sp_prod = P_Idle, sp_cons = C_Idle, sp_sent = [], sp_rows = (\<lambda>_. []), sp_got = [],
     sp_taken = 0, sp_dropped = 0, sp_cut = (\<lambda>_. 0) \<rparr>"

inductive spsc_reach :: "('a :: zero) ring \<Rightarrow> 'a spsc \<Rightarrow> bool" for r where
  spsc_init: "spsc_reach r (spsc_start r)"
| spsc_more: "spsc_reach r s \<Longrightarrow> spsc_step s s' \<Longrightarrow> spsc_reach r s'"

section \<open>The single steps are the functions\<close>

lemma length_row_cells [simp]: "length (row_cells msk base pos n) = n"
  by (induction n arbitrary: pos) auto

lemma row_cells_eq:
  assumes "k \<le> 31" and "msk = 2 ^ k - 1" and "unat pos < 2 ^ k"
  shows "row_cells msk base pos n = map (\<lambda>s. base + (unat pos + s) mod 2 ^ k) [0..<n]"
  using assms(3)
proof (induction n arbitrary: pos)
  case (Suc n)
  let ?pos = "(pos + 1) AND msk"
  have u: "unat ?pos = (unat pos + 1) mod 2 ^ k" using assms(1,2) unat_masked_add [of k pos 1] by simp
  then have "unat ?pos < 2 ^ k" by simp
  from Suc.IH [OF this] show ?case
    using Suc.prems by (simp add: u mod_simps upt_conv_Cons map_Suc_upt [symmetric] o_def del: upt_Suc)
qed simp

lemma stores_copy_in:
  "fold (\<lambda>(i, x) b. b[i := x]) (zip (row_cells msk base pos (length xs)) xs) buf = copy_in msk base pos xs buf"
  by (induction xs arbitrary: pos buf) auto

lemma stores_rows:
  assumes "\<And>c. c < m \<Longrightarrow> length (src c) = w"
  shows "fold (\<lambda>(i, x) b. b[i := x]) (concat (map (\<lambda>c. zip (row_cells msk (c * K) h w) (src c)) [0..<m])) buf =
           fold (\<lambda>c. copy_in msk (c * K) h (src c)) [0..<m] buf"
  using assms
proof (induction m)
  case (Suc m)
  then show ?case using stores_copy_in [of msk "m * K" h "src m"] by simp
qed simp

text \<open>An uninterrupted write and an uninterrupted read.\<close>

definition run_write_alone :: "('a :: zero) ring \<Rightarrow> 'a list \<Rightarrow> u32 \<Rightarrow> u32 \<Rightarrow> 'a ring" where
  "run_write_alone r planar n src =
     (let src' = clamp_width r src;
          r = (if src' < rg_wrote_channels r
               then r\<lparr> rg_buf := fold (\<lambda>i b. b[i := 0]) (clear_cells r src') (rg_buf r) \<rparr> else r)
      in case write_begin r planar n src' of
           (r', P_Store st fs w) \<Rightarrow>
             (let r'' = r'\<lparr> rg_buf := fold (\<lambda>(i, x) b. b[i := x]) st (rg_buf r') \<rparr>
              in r''\<lparr> rg_head := (rg_head r'' + w) AND rg_mask r'' \<rparr>)
         | (r', _) \<Rightarrow> r')"

lemma clear_nth:
  "length (fold (\<lambda>i b. b[i := z]) cl buf) = length buf"
  "j < length buf \<Longrightarrow> fold (\<lambda>i b. b[i := z]) cl buf ! j = (if j \<in> set cl then z else buf ! j)"
  by (induction cl arbitrary: buf) (auto simp: nth_list_update)

lemma clear_retires:
  assumes "length buf = m * K" and "c1 \<le> m" and "0 < K"
  shows "fold (\<lambda>i b. b[i := 0]) [c0 * K..<c1 * K] buf = retire_rows K c0 c1 buf"
proof (rule nth_equalityI)
  have "0 < m \<or> buf = []" using assms(1) by (cases m) auto
  then show l: "length (fold (\<lambda>i b. b[i := 0]) [c0 * K..<c1 * K] buf) = length (retire_rows K c0 c1 buf)"
    using rows_retired(2) [of 0 K buf m c1 0] assms by (auto simp: clear_nth retire_rows_def)
  fix j assume "j < length (fold (\<lambda>i b. b[i := 0]) [c0 * K..<c1 * K] buf)"
  then have j: "j < m * K" using assms(1) by (simp add: clear_nth)
  define d p where "d = j div K" and "p = j mod K"
  have e: "j = d * K + p" and p: "p < K" and d: "d < m"
    using j assms(3) by (simp_all add: d_def p_def less_mult_imp_div_less)
  have "c0 * K \<le> j \<longleftrightarrow> c0 \<le> d" and "j < c1 * K \<longleftrightarrow> d < c1"
    using assms(3) by (simp_all add: d_def less_eq_div_iff_mult_less_eq div_less_iff_less_mult)
  then show "fold (\<lambda>i b. b[i := 0]) [c0 * K..<c1 * K] buf ! j = retire_rows K c0 c1 buf ! j"
    using clear_nth(2) [of j buf 0] rows_retired(1) [OF p assms(1,2) d] j assms(1) by (simp add: e)
qed

lemma ring_set_width_clears:
  assumes "ring_inv k ch r" and "src' = clamp_width r src"
  shows "ring_set_width r src = (if src' < rg_wrote_channels r
     then r\<lparr> rg_buf := fold (\<lambda>i b. b[i := 0]) (clear_cells r src') (rg_buf r) \<rparr> else r)\<lparr> rg_wrote_channels := src' \<rparr>"
proof -
  have "fold (\<lambda>i b. b[i := 0]) (clear_cells r src') (rg_buf r) =
      retire_rows (unat (rg_capacity r)) (unat src') (unat (rg_wrote_channels r)) (rg_buf r)"
    unfolding clear_cells_def by (rule clear_retires [of _ ch]) (use assms(1) unat_pow_word [of k] in \<open>auto simp: ring_inv_def\<close>)
  then show ?thesis by (simp add: ring_set_width_def clamp_width_def assms(2) Let_def)
qed

lemma run_write_alone:
  assumes "ring_inv k ch r" and "ring_op_ok ch (Ring_Write planar n src)"
  shows "run_write_alone r planar n src = fst (reac_ring_write r planar n src)"
proof -
  define r1 where "r1 = ring_set_width r src"
  define w where "w = (if n > reac_ring_writable r1 then reac_ring_writable r1 else n)"
  define r0 where "r0 = (if clamp_width r src < rg_wrote_channels r
     then r\<lparr> rg_buf := fold (\<lambda>i b. b[i := 0]) (clear_cells r (clamp_width r src)) (rg_buf r) \<rparr> else r)"
  have r01: "r0\<lparr> rg_wrote_channels := clamp_width r src \<rparr> = r1"
    using ring_set_width_clears [OF assms(1) refl, of src] by (simp add: r1_def r0_def)
  have m: "unat (rg_wrote_channels r1) = min (unat src) ch"
    by (rule ring_narrow(2) [OF assms(1) refl r1_def])
  have "unat w \<le> unat n" by (auto simp: w_def word_less_nat_alt)
  then have "length (peek (c * unat n) (unat w) planar) = unat w" if "c < unat (rg_wrote_channels r1)" for c
    using assms(2) that mult_le_mono1 [of "Suc c" "min (unat src) ch" "unat n"] m by simp
  note st = stores_rows [OF this, where msk = "rg_mask r1" and K = "unat (rg_capacity r1)" and h = "rg_head r1" and buf = "rg_buf r1"]
  show ?thesis
    unfolding run_write_alone_def Let_def r0_def [symmetric] write_begin_def r01
    using st by (simp add: reac_ring_write_def write_stores_def Let_def w_def split: prod.splits flip: r1_def)
qed

lemma run_read_alone:
  assumes "ring_inv k ch r" and "reac_ring_read_planar r channels n = (r', out, real)"
    and "rg_channels r \<le> channels"
  shows "concat (map (take (unat real)) out) = map ((!) (rg_buf r)) (read_loads r real)"
proof -
  have k: "k \<le> 31" "rg_mask r = 2 ^ k - 1" "unat (rg_tail r) < 2 ^ k"
    using assms(1) by (simp_all add: ring_inv_def)
  have row: "map ((!) (rg_buf r)) (row_cells (rg_mask r) base (rg_tail r) m) =
      copy_out (rg_mask r) base (rg_tail r) m (rg_buf r)" for base m
    by (simp add: row_cells_eq [OF k] copy_out_eq [OF refl k])
  have l: "length (copy_out (rg_mask r) base (rg_tail r) m (rg_buf r)) = m" for base m
    by (simp add: copy_out_eq [OF refl k])
  have "(if channels < rg_channels r then channels else rg_channels r) = rg_channels r"
    using assms(3) by auto
  then show ?thesis
    using assms(2) by (auto simp: reac_ring_read_planar_def Let_def read_loads_def map_concat row l o_def)
qed

section \<open>The invariant\<close>

text \<open>What the reader may see of channel \<open>c\<close> of frame \<open>i\<close>: the sample published, or silence if the channel was
  retired after the frame was published.\<close>

definition cell_ok :: "('a :: zero) list list \<Rightarrow> (nat \<Rightarrow> nat) \<Rightarrow> nat \<Rightarrow> nat \<Rightarrow> 'a \<Rightarrow> bool" where
  "cell_ok sent ct i c v \<longleftrightarrow> v = sent ! i ! c \<or> i < ct c \<and> v = 0"

definition load_cells :: "nat \<Rightarrow> nat \<Rightarrow> nat \<Rightarrow> nat \<Rightarrow> nat list" where
  "load_cells K ch T real = concat (map (\<lambda>c. map (\<lambda>x. c * K + (T + x) mod K) [0..<real]) [0..<ch])"

definition producer_inv :: "nat \<Rightarrow> nat \<Rightarrow> ('a :: zero) spsc \<Rightarrow> bool" where
  "producer_inv K ch s = (case sp_prod s of
     P_Idle \<Rightarrow> True
   | P_Clear cl planar n src' \<Rightarrow>
       src' < rg_wrote_channels (sp_ring s) \<and> ring_op_ok ch (Ring_Write planar n src') \<and>
       set cl \<subseteq> {unat src' * K..<unat (rg_wrote_channels (sp_ring s)) * K} \<and>
       (\<forall>j \<in> {unat src' * K..<unat (rg_wrote_channels (sp_ring s)) * K}. j \<in> set cl \<or> rg_buf (sp_ring s) ! j = 0) \<and>
       (\<forall>c. unat src' \<le> c \<and> c < unat (rg_wrote_channels (sp_ring s)) \<longrightarrow> sp_cut s c = length (sp_sent s))
   | P_Store st fs w \<Rightarrow>
       unat w = length fs \<and> length (sp_sent s) + length fs < sp_taken s + K \<and>
       (\<forall>(i, x) \<in> set st. \<exists>c j. c < unat (rg_wrote_channels (sp_ring s)) \<and> j < length fs \<and>
          i = c * K + (length (sp_sent s) + j) mod K \<and> x = fs ! j ! c) \<and>
       (\<forall>c j. c < ch \<longrightarrow> j < length fs \<longrightarrow>
          (c * K + (length (sp_sent s) + j) mod K, fs ! j ! c) \<in> set st \<or>
          rg_buf (sp_ring s) ! (c * K + (length (sp_sent s) + j) mod K) = fs ! j ! c))"

definition consumer_inv :: "nat \<Rightarrow> nat \<Rightarrow> ('a :: zero) spsc \<Rightarrow> bool" where
  "consumer_inv K ch s = (case sp_cons s of
     C_Idle \<Rightarrow> True
   | C_Load ld acc real \<Rightarrow>
       sp_taken s + unat real \<le> length (sp_sent s) \<and> length acc + length ld = ch * unat real \<and>
       ld = drop (length acc) (load_cells K ch (sp_taken s) (unat real)) \<and>
       (\<forall>j < length acc. cell_ok (sp_sent s) (sp_cut s) (sp_taken s + j mod unat real) (j div unat real) (acc ! j))
   | C_Trim d \<Rightarrow> sp_taken s + unat d \<le> length (sp_sent s))"

text \<open>What was received: the rows in step with the numbers of their frames.\<close>

definition received_inv :: "nat \<Rightarrow> ('a :: zero) spsc \<Rightarrow> bool" where
  "received_inv ch s \<longleftrightarrow> sorted_wrt (<) (sp_got s) \<and> (\<forall>i \<in> set (sp_got s). i < sp_taken s) \<and>
     length (sp_got s) + sp_dropped s = sp_taken s \<and>
     (\<forall>c < ch. length (sp_rows s c) = length (sp_got s) \<and>
        (\<forall>j < length (sp_got s). cell_ok (sp_sent s) (sp_cut s) (sp_got s ! j) c (sp_rows s c ! j)))"

definition spsc_inv :: "nat \<Rightarrow> nat \<Rightarrow> ('a :: zero) spsc \<Rightarrow> bool" where
  "spsc_inv k ch s \<longleftrightarrow>
     ring_inv k ch (sp_ring s) \<and>
     unat (rg_head (sp_ring s)) = length (sp_sent s) mod 2 ^ k \<and>
     unat (rg_tail (sp_ring s)) = sp_taken s mod 2 ^ k \<and>
     sp_taken s \<le> length (sp_sent s) \<and> length (sp_sent s) < sp_taken s + 2 ^ k \<and>
     (\<forall>c. sp_cut s c \<le> length (sp_sent s)) \<and>
     (\<forall>i c. sp_taken s \<le> i \<longrightarrow> i < length (sp_sent s) \<longrightarrow> c < ch \<longrightarrow>
        cell_ok (sp_sent s) (sp_cut s) i c (rg_buf (sp_ring s) ! (c * 2 ^ k + i mod 2 ^ k))) \<and>
     received_inv ch s \<and> producer_inv (2 ^ k) ch s \<and> consumer_inv (2 ^ k) ch s"

lemma cell_ok_mono:
  assumes "cell_ok sent ct i c v" and "i < length sent" and "ct c \<le> ct' c"
  shows "cell_ok (sent @ fs) ct' i c v"
  using assms by (auto simp: cell_ok_def nth_append)

lemma length_load_cells: "length (load_cells K ch T real) = ch * real"
  by (induction ch) (simp_all add: load_cells_def)

lemma nth_load_cells:
  "j < ch * real \<Longrightarrow> load_cells K ch T real ! j = j div real * K + (T + j mod real) mod K"
proof (induction ch)
  case (Suc ch)
  have e: "load_cells K (Suc ch) T real = load_cells K ch T real @ map (\<lambda>x. ch * K + (T + x) mod K) [0..<real]"
    by (simp add: load_cells_def)
  show ?case
  proof (cases "j < ch * real")
    case True
    then show ?thesis using Suc.IH by (simp add: e nth_append length_load_cells)
  next
    case False
    define x where "x = j - ch * real"
    have x: "j = ch * real + x" "x < real" using False Suc.prems by (simp_all add: x_def)
    then have "j div real = ch" "j mod real = x" by simp_all
    then show ?thesis using x by (simp add: e nth_append length_load_cells)
  qed
qed simp

lemma received_mono:
  assumes "received_inv ch s" and "sp_taken s \<le> length (sp_sent s)" and "\<And>c. sp_cut s c \<le> sp_cut s' c"
    and "sp_sent s' = sp_sent s @ fs" and "sp_got s' = sp_got s" and "sp_rows s' = sp_rows s"
    and "sp_taken s' = sp_taken s" and "sp_dropped s' = sp_dropped s"
  shows "received_inv ch s'"
proof -
  have "cell_ok (sp_sent s') (sp_cut s') (sp_got s ! j) c (sp_rows s c ! j)" if "c < ch" "j < length (sp_got s)" for c j
  proof -
    have "sp_got s ! j < sp_taken s" using assms(1) that(2) by (simp add: received_inv_def)
    then have "sp_got s ! j < length (sp_sent s)" using assms(2) by simp
    then show ?thesis unfolding assms(4) using assms(1) that by (intro cell_ok_mono [where ct = "sp_cut s"] assms(3)) (simp_all add: received_inv_def)
  qed
  then show ?thesis using assms(1) unfolding received_inv_def assms(5-8) by blast
qed

lemma consumer_mono:
  assumes "consumer_inv K ch s" and "\<And>c. sp_cut s c \<le> sp_cut s' c"
    and "sp_sent s' = sp_sent s @ fs" and "sp_cons s' = sp_cons s" and "sp_taken s' = sp_taken s"
  shows "consumer_inv K ch s'"
proof (cases "sp_cons s")
  case (C_Load ld acc real)
  have "cell_ok (sp_sent s') (sp_cut s') (sp_taken s + j mod unat real) (j div unat real) (acc ! j)" if "j < length acc" for j
  proof -
    have "length acc \<le> ch * unat real" using assms(1) C_Load by (simp add: consumer_inv_def)
    then have "0 < unat real" using that by (cases "unat real = 0") auto
    then have "j mod unat real < unat real" by simp
    then have "sp_taken s + j mod unat real < length (sp_sent s)" using assms(1) C_Load by (simp add: consumer_inv_def)
    then show ?thesis unfolding assms(3) using assms(1) C_Load that by (intro cell_ok_mono [where ct = "sp_cut s"] assms(2)) (simp_all add: consumer_inv_def)
  qed
  moreover have "length acc \<le> ch * unat real" using assms(1) C_Load by (simp add: consumer_inv_def)
  ultimately show ?thesis using assms(1) C_Load by (simp add: consumer_inv_def assms(3-5) length_load_cells)
qed (use assms in \<open>auto simp: consumer_inv_def\<close>)

lemma mod_window:
  assumes "a < b" and "b < a + K"
  shows "a mod K \<noteq> b mod (K :: nat)"
proof
  assume "a mod K = b mod K"
  then have "K dvd b - a" using assms(1) mod_eq_dvd_iff_nat [of a b K] by simp
  then show False using assms dvd_imp_le [of K "b - a"] by linarith
qed

lemma mod_window_eq:
  assumes "a \<le> i" "i < a + K" "a \<le> j" "j < a + K" and "i mod K = j mod (K :: nat)"
  shows "i = j"
proof (rule linorder_cases [of i j])
  assume "i < j"
  then show ?thesis using mod_window [of i j K] assms by simp
next
  assume "j < i"
  then show ?thesis using mod_window [of j i K] assms by simp
qed

lemma ring_dist_mod:
  "t \<le> h \<Longrightarrow> h < t + K \<Longrightarrow> ring_dist K (t mod K) (h mod K) = h - (t :: nat)"
proof -
  assume a: "t \<le> h" "h < t + K"
  then have "h mod K = (t mod K + (h - t)) mod K" using mod_add_left_eq [of t K "h - t"] by simp
  moreover have "t mod K < K" "h - t < K" using a by (cases "K = 0", auto)
  ultimately show ?thesis using ring_dist_add by simp
qed

lemma spsc_readable:
  assumes "spsc_inv k ch s"
  shows "unat (reac_ring_readable (sp_ring s)) = length (sp_sent s) - sp_taken s"
  using assms ring_inv_readable(1) [of k ch "sp_ring s"] by (simp add: spsc_inv_def ring_dist_mod)

lemma producer_inv_cons [simp]: "producer_inv K ch (s\<lparr> sp_cons := q \<rparr>) = producer_inv K ch s"
  by (cases "sp_prod s") (simp_all add: producer_inv_def)

lemma received_inv_cons [simp]:
  "received_inv ch (s\<lparr> sp_cons := q \<rparr>) = received_inv ch s" "received_inv ch (s\<lparr> sp_prod := p \<rparr>) = received_inv ch s"
  "received_inv ch (s\<lparr> sp_ring := r \<rparr>) = received_inv ch s"
  by (simp_all add: received_inv_def)

lemma consumer_inv_prod [simp]:
  "consumer_inv K ch (s\<lparr> sp_prod := p \<rparr>) = consumer_inv K ch s" "consumer_inv K ch (s\<lparr> sp_ring := r \<rparr>) = consumer_inv K ch s"
  by (simp_all add: consumer_inv_def split: consumer.splits)

text \<open>Preservation, step by step.\<close>

lemma write_stores_cells:
  assumes inv: "ring_inv k ch r" and w: "\<And>c. c < unat (rg_wrote_channels r) \<Longrightarrow> c * unat n + unat w \<le> length planar"
    and h: "unat (rg_head r) = H mod 2 ^ k"
    and fs: "fs = map (frame_of_planar planar (unat n) (unat (rg_wrote_channels r)) ch) [0..<unat w]"
  shows "set (write_stores r planar n w) =
    {(c * 2 ^ k + (H + j) mod 2 ^ k, fs ! j ! c) | c j. c < unat (rg_wrote_channels r) \<and> j < unat w}"
proof -
  have k: "k \<le> 31" "rg_mask r = 2 ^ k - 1" "unat (rg_head r) < 2 ^ k" "unat (rg_capacity r) = 2 ^ k"
    and wr: "unat (rg_wrote_channels r) \<le> ch"
    using inv unat_pow_word [of k] by (simp_all add: ring_inv_def)
  have z: "set (zip (row_cells (rg_mask r) (c * 2 ^ k) (rg_head r) (unat w)) (peek (c * unat n) (unat w) planar)) =
      {(c * 2 ^ k + (H + j) mod 2 ^ k, fs ! j ! c) | j. j < unat w}" (is "?A = ?B")
    if "c < unat (rg_wrote_channels r)" for c
  proof -
    have "zip (row_cells (rg_mask r) (c * 2 ^ k) (rg_head r) (unat w)) (peek (c * unat n) (unat w) planar) =
        map (\<lambda>j. (c * 2 ^ k + (H + j) mod 2 ^ k, planar ! (c * unat n + j))) [0..<unat w]"
      using w [OF that] by (intro nth_equalityI) (simp_all add: row_cells_eq [OF k(1-3)] h mod_simps)
    then have "?A = {(c * 2 ^ k + (H + j) mod 2 ^ k, planar ! (c * unat n + j)) | j. j < unat w}"
      by auto
    moreover have "fs ! j ! c = planar ! (c * unat n + j)" if "j < unat w" for j
      using that \<open>c < unat _\<close> wr by (simp add: fs frame_of_planar_def)
    ultimately show ?thesis by auto
  qed
  show ?thesis by (auto simp: write_stores_def k(4) z) blast
qed

text \<open>The start of the copy, once no row above the new width holds anything.\<close>

lemma step_go:
  assumes inv: "spsc_inv k ch s" and inv1: "ring_inv k ch (sp_ring s\<lparr> rg_wrote_channels := src' \<rparr>)"
    and ok: "ring_op_ok ch (Ring_Write planar n src')"
    and wb: "write_begin (sp_ring s) planar n src' = (r, p)"
  shows "spsc_inv k ch (s\<lparr> sp_ring := r, sp_prod := p \<rparr>)"
proof -
  let ?r = "sp_ring s"
  define r1 where "r1 = ?r\<lparr> rg_wrote_channels := src' \<rparr>"
  define fr where "fr = reac_ring_writable r1"
  define w where "w = (if n > fr then fr else n)"
  define fs where "fs = map (frame_of_planar planar (unat n) (unat src') ch) [0..<unat w]"
  have H: "unat (rg_head r1) = length (sp_sent s) mod 2 ^ k"
    and TH: "sp_taken s \<le> length (sp_sent s)" "length (sp_sent s) < sp_taken s + 2 ^ k"
    using inv by (simp_all add: spsc_inv_def r1_def)
  note inv1 = inv1 [folded r1_def]
  have wr: "rg_wrote_channels r1 = src'" by (simp add: r1_def)
  have ch: "unat (rg_channels r1) = ch" and m1: "unat src' \<le> ch" using inv1 by (simp_all add: ring_inv_def wr)
  have "unat (reac_ring_readable r1) = length (sp_sent s) - sp_taken s"
    using spsc_readable [OF inv] by (simp add: reac_ring_readable_def r1_def)
  then have "unat fr = 2 ^ k - 1 - (length (sp_sent s) - sp_taken s)"
    using ring_inv_readable [OF inv1] by (simp add: fr_def)
  moreover have "unat w \<le> unat fr" and wn: "unat w \<le> unat n" by (auto simp: w_def word_less_nat_alt)
  ultimately have room: "length (sp_sent s) + unat w < sp_taken s + 2 ^ k" using TH by linarith
  have r: "\<exists>ov. r = r1\<lparr> rg_overruns := ov \<rparr> \<and> (p = P_Idle \<or> p = P_Store (write_stores r1 planar n w) fs w)"
    using wb ch by (intro exI [of _ "rg_overruns r"]) (auto simp: write_begin_def Let_def fs_def w_def fr_def write_stores_def wr
        split: if_splits simp flip: r1_def)
  have pl: "c * unat n + unat w \<le> length planar" if "c < unat (rg_wrote_channels r1)" for c
    using ok that m1 wn mult_le_mono1 [of "Suc c" "unat src'" "unat n"] by (simp add: wr)
  have cells: "set (write_stores r1 planar n w) =
      {(c * 2 ^ k + (length (sp_sent s) + j) mod 2 ^ k, fs ! j ! c) | c j. c < unat src' \<and> j < unat w}"
    using write_stores_cells [OF inv1 pl H, of fs] by (simp add: fs_def wr)
  have zero: "fs ! j ! c = rg_buf r1 ! (c * 2 ^ k + (length (sp_sent s) + j) mod 2 ^ k)"
    if "c < ch" "j < unat w" "\<not> c < unat src'" for c j
    using that inv1 by (simp add: fs_def frame_of_planar_def ring_inv_def wr)
  have "producer_inv (2 ^ k) ch (s\<lparr> sp_ring := r, sp_prod := p \<rparr>)"
  proof -
    let ?H = "length (sp_sent s)"
    have "(c * 2 ^ k + (?H + j) mod 2 ^ k, fs ! j ! c) \<in> set (write_stores r1 planar n w) \<or>
        rg_buf r1 ! (c * 2 ^ k + (?H + j) mod 2 ^ k) = fs ! j ! c" if "c < ch" "j < unat w" for c j
      using zero [OF that] that unfolding cells by (cases "c < unat src'") auto
    moreover have "\<exists>c j. c < unat src' \<and> j < unat w \<and> i = c * 2 ^ k + (?H + j) mod 2 ^ k \<and> x = fs ! j ! c"
      if "(i, x) \<in> set (write_stores r1 planar n w)" for i x
      using that unfolding cells by blast
    moreover have "length fs = unat w" by (simp add: fs_def)
    ultimately have "producer_inv (2 ^ k) ch (s\<lparr> sp_ring := r, sp_prod := P_Store (write_stores r1 planar n w) fs w \<rparr>)"
      using r room wr by (auto simp: producer_inv_def) blast+
    then show ?thesis using r by (auto simp: producer_inv_def)
  qed
  moreover have "ring_inv k ch r" using r inv1 by (auto simp: ring_inv_def)
  moreover have "rg_buf r1 = rg_buf ?r" "rg_tail r1 = rg_tail ?r" by (simp_all add: r1_def)
  ultimately show ?thesis using r inv H by (auto simp: spsc_inv_def)
qed

lemma clamp_width_unat:
  "ring_inv k ch r \<Longrightarrow> unat (clamp_width r src) = min (unat src) ch"
  by (auto simp: clamp_width_def ring_inv_def word_less_nat_alt)

lemma step_begin:
  assumes inv: "spsc_inv k ch s" and src: "src' = clamp_width (sp_ring s) src" "\<not> src' < rg_wrote_channels (sp_ring s)"
    and ok: "ring_op_ok (unat (rg_channels (sp_ring s))) (Ring_Write planar n src)"
    and wb: "write_begin (sp_ring s) planar n src' = (r, p)"
  shows "spsc_inv k ch (s\<lparr> sp_ring := r, sp_prod := p \<rparr>)"
proof -
  have rinv: "ring_inv k ch (sp_ring s)" using inv by (simp add: spsc_inv_def)
  have u: "unat src' = min (unat src) ch" unfolding src(1) by (rule clamp_width_unat [OF rinv])
  have "ring_inv k ch (sp_ring s\<lparr> rg_wrote_channels := src' \<rparr>)"
    using rinv src(2) u by (auto simp: ring_inv_def not_less word_le_nat_alt)
  moreover have "ring_op_ok ch (Ring_Write planar n src')" using ok u rinv by (simp add: ring_inv_def)
  ultimately show ?thesis using inv wb by (intro step_go)
qed

lemma step_narrow:
  assumes inv: "spsc_inv k ch s" and src: "src' = clamp_width (sp_ring s) src" "src' < rg_wrote_channels (sp_ring s)"
    and ok: "ring_op_ok (unat (rg_channels (sp_ring s))) (Ring_Write planar n src)"
    and ct: "ct = (\<lambda>c. if unat src' \<le> c \<and> c < unat (rg_wrote_channels (sp_ring s)) then length (sp_sent s) else sp_cut s c)"
  shows "spsc_inv k ch (s\<lparr> sp_prod := P_Clear (clear_cells (sp_ring s) src') planar n src', sp_cut := ct \<rparr>)" (is "spsc_inv k ch ?s'")
proof -
  have rinv: "ring_inv k ch (sp_ring s)" and cut: "\<And>c. sp_cut s c \<le> length (sp_sent s)"
    and TH: "sp_taken s \<le> length (sp_sent s)" and parts: "consumer_inv (2 ^ k) ch s" "received_inv ch s"
    using inv by (simp_all add: spsc_inv_def)
  have u: "unat src' = min (unat src) ch" unfolding src(1) by (rule clamp_width_unat [OF rinv])
  have cap: "unat (rg_capacity (sp_ring s)) = 2 ^ k" using rinv unat_pow_word [of k] by (simp add: ring_inv_def)
  have le: "sp_cut s c \<le> ct c" "ct c \<le> length (sp_sent s)" for c using cut by (simp_all add: ct)
  have new: "unat src' \<le> c \<and> c < unat (rg_wrote_channels (sp_ring s)) \<longrightarrow> ct c = length (sp_sent s)" for c by (simp add: ct)
  have op: "ring_op_ok ch (Ring_Write planar n src')" using ok u rinv by (simp add: ring_inv_def)
  have P: "producer_inv (2 ^ k) ch ?s'"
    using src(2) op new by (simp add: producer_inv_def clear_cells_def cap)
  have C: "consumer_inv (2 ^ k) ch ?s'"
    by (rule consumer_mono [OF parts(1), where fs = "[]"]) (simp_all add: le)
  have R: "received_inv ch ?s'"
    by (rule received_mono [OF parts(2) TH, where fs = "[]"]) (simp_all add: le)
  have K: "cell_ok (sp_sent s) ct i c v" if "cell_ok (sp_sent s) (sp_cut s) i c v" "i < length (sp_sent s)" for i c v
    using that le(1) [of c] by (auto simp: cell_ok_def)
  show ?thesis using inv P C R K le(2) unfolding spsc_inv_def by simp
qed

text \<open>One store of the \<^verbatim>\<open>memset\<close>.\<close>

lemma step_clear:
  assumes inv: "spsc_inv k ch s" and st: "sp_prod s = P_Clear (i # cl) planar n src'"
  shows "spsc_inv k ch (s\<lparr> sp_ring := (sp_ring s)\<lparr> rg_buf := (rg_buf (sp_ring s))[i := 0] \<rparr>,
           sp_prod := P_Clear cl planar n src' \<rparr>)" (is "spsc_inv k ch ?s'")
proof -
  let ?r = "sp_ring s" and ?K = "2 ^ k :: nat"
  have rinv: "ring_inv k ch ?r" and p: "producer_inv ?K ch s" using inv by (simp_all add: spsc_inv_def)
  have l: "length (rg_buf ?r) = ch * ?K" and wr: "unat (rg_wrote_channels ?r) \<le> ch" using rinv by (simp_all add: ring_inv_def)
  have i: "unat src' * ?K \<le> i" "i < unat (rg_wrote_channels ?r) * ?K" using p st by (simp_all add: producer_inv_def)
  then have il: "i < length (rg_buf ?r)" using l mult_le_mono1 [OF wr, of ?K] by linarith
  have upd: "(rg_buf ?r)[i := 0] ! j = (if j = i then 0 else rg_buf ?r ! j)" for j using il by (simp add: nth_list_update)
  have cells: "cell_ok (sp_sent s) (sp_cut s) a c ((rg_buf ?r)[i := 0] ! (c * ?K + a mod ?K))"
    if "sp_taken s \<le> a" "a < length (sp_sent s)" "c < ch" for a c
  proof (cases "c * ?K + a mod ?K = i")
    case True
    have m: "a mod ?K < ?K" by simp
    have "unat src' \<le> c"
    proof (rule ccontr)
      assume "\<not> unat src' \<le> c"
      then have "Suc c * ?K \<le> unat src' * ?K" by (intro mult_le_mono1) simp
      then show False using i(1) True m by simp
    qed
    moreover have "c < unat (rg_wrote_channels ?r)"
    proof (rule ccontr)
      assume "\<not> c < unat (rg_wrote_channels ?r)"
      then have "unat (rg_wrote_channels ?r) * ?K \<le> c * ?K" by (intro mult_le_mono1) simp
      with i(2) True show False by linarith
    qed
    ultimately have "sp_cut s c = length (sp_sent s)" using p st by (simp add: producer_inv_def)
    then show ?thesis using that(2) True upd by (simp add: cell_ok_def)
  next
    case False
    then show ?thesis using inv that upd by (simp add: spsc_inv_def)
  qed
  have "ring_inv k ch (?r\<lparr> rg_buf := (rg_buf ?r)[i := 0] \<rparr>)" using rinv by (simp add: ring_inv_def upd)
  moreover have "producer_inv ?K ch ?s'" using p st by (auto simp: producer_inv_def upd)
  ultimately show ?thesis using inv cells by (simp add: spsc_inv_def)
qed

lemma step_cleared:
  assumes inv: "spsc_inv k ch s" and st: "sp_prod s = P_Clear [] planar n src'"
    and wb: "write_begin (sp_ring s) planar n src' = (r, p)"
  shows "spsc_inv k ch (s\<lparr> sp_ring := r, sp_prod := p \<rparr>)"
proof -
  let ?r = "sp_ring s" and ?K = "2 ^ k :: nat"
  have rinv: "ring_inv k ch ?r" and p: "producer_inv ?K ch s" using inv by (simp_all add: spsc_inv_def)
  have z: "rg_buf ?r ! j = 0" if "unat src' * ?K \<le> j" "j < unat (rg_wrote_channels ?r) * ?K" for j
    using p st that by (simp add: producer_inv_def)
  have "rg_buf ?r ! (c * ?K + q) = 0" if "unat src' \<le> c" "c < ch" "q < ?K" for c q
  proof (cases "c < unat (rg_wrote_channels ?r)")
    case True
    then show ?thesis using z [of "c * ?K + q"] mult_le_mono1 [OF that(1), of ?K] cell_bound [of c "unat (rg_wrote_channels ?r)" q ?K] that by simp
  next
    case False
    then show ?thesis using rinv that by (simp add: ring_inv_def)
  qed
  moreover have "unat src' \<le> ch" using p st rinv by (auto simp: producer_inv_def ring_inv_def word_less_nat_alt)
  ultimately have "ring_inv k ch (?r\<lparr> rg_wrote_channels := src' \<rparr>)" using rinv by (simp add: ring_inv_def)
  then show ?thesis using inv wb p st by (intro step_go) (simp_all add: producer_inv_def)
qed

lemma step_store:
  assumes inv: "spsc_inv k ch s" and st: "sp_prod s = P_Store ((i, x) # st) fs w"
  shows "spsc_inv k ch (s\<lparr> sp_ring := (sp_ring s)\<lparr> rg_buf := (rg_buf (sp_ring s))[i := x] \<rparr>,
           sp_prod := P_Store st fs w \<rparr>)" (is "spsc_inv k ch ?s'")
proof -
  let ?r = "sp_ring s" and ?H = "length (sp_sent s)" and ?T = "sp_taken s" and ?K = "2 ^ k :: nat"
  have rinv: "ring_inv k ch ?r" and TH: "?T \<le> ?H" "?H < ?T + ?K" and p: "producer_inv ?K ch s"
    using inv by (simp_all add: spsc_inv_def)
  have l: "length (rg_buf ?r) = ch * ?K" and wr: "unat (rg_wrote_channels ?r) \<le> ch" using rinv by (simp_all add: ring_inv_def)
  obtain c j where c: "c < unat (rg_wrote_channels ?r)" and j: "j < length fs" and i: "i = c * ?K + (?H + j) mod ?K"
    and x: "x = fs ! j ! c" and room: "?H + length fs < ?T + ?K"
    using p st by (auto simp: producer_inv_def)
  have i_lt: "i < length (rg_buf ?r)" using c wr by (simp add: i l cell_bound)
  have upd: "(rg_buf ?r)[i := x] ! (d * ?K + q) = (if d = c \<and> q = (?H + j) mod ?K then x else rg_buf ?r ! (d * ?K + q))"
    if "q < ?K" for d q
    using i_lt that cell_inj [of q ?K "(?H + j) mod ?K" d c] by (auto simp: nth_list_update i)
  have unread: "(rg_buf ?r)[i := x] ! (d * ?K + a mod ?K) = rg_buf ?r ! (d * ?K + a mod ?K)"
    if "?T \<le> a" "a < ?H" for a d
    using mod_window [of a "?H + j" ?K] that j room by (simp add: upd)
  have "ring_inv k ch (?r\<lparr> rg_buf := (rg_buf ?r)[i := x] \<rparr>)"
    using rinv c by (auto simp: ring_inv_def upd)
  moreover have "producer_inv ?K ch ?s'"
  proof -
    have "(d * ?K + (?H + b) mod ?K, fs ! b ! d) \<in> set st \<or>
        (rg_buf ?r)[i := x] ! (d * ?K + (?H + b) mod ?K) = fs ! b ! d" if "d < ch" "b < length fs" for d b
    proof (cases "d = c \<and> (?H + b) mod ?K = (?H + j) mod ?K")
      case True
      then have "?H + b = ?H + j" using mod_window_eq [of ?T "?H + b" ?K "?H + j"] TH j room that by simp
      then show ?thesis using True x upd [of "(?H + j) mod ?K" c] by simp
    next
      case False
      then have "(d * ?K + (?H + b) mod ?K, fs ! b ! d) \<noteq> (i, x)"
        using cell_inj [of "(?H + b) mod ?K" ?K "(?H + j) mod ?K" d c] by (auto simp: i)
      then show ?thesis using False p st that by (auto simp: producer_inv_def upd)
    qed
    then show ?thesis using p st by (auto simp: producer_inv_def)
  qed
  ultimately show ?thesis using inv unread by (simp add: spsc_inv_def)
qed

lemma step_publish:
  assumes inv: "spsc_inv k ch s" and st: "sp_prod s = P_Store [] fs w"
  shows "spsc_inv k ch (s\<lparr> sp_ring := (sp_ring s)\<lparr> rg_head := (rg_head (sp_ring s) + w) AND rg_mask (sp_ring s) \<rparr>,
                     sp_prod := P_Idle, sp_sent := sp_sent s @ fs \<rparr>)" (is "spsc_inv k ch ?s'")
proof -
  let ?r = "sp_ring s" and ?H = "length (sp_sent s)" and ?T = "sp_taken s" and ?K = "2 ^ k :: nat"
  have rinv: "ring_inv k ch ?r" and H: "unat (rg_head ?r) = ?H mod ?K" and TH: "?T \<le> ?H" "?H < ?T + ?K"
    and p: "producer_inv ?K ch s" and parts: "consumer_inv ?K ch s" "received_inv ch s"
    and cut: "\<And>c. sp_cut s c \<le> ?H"
    using inv by (simp_all add: spsc_inv_def)
  have w: "unat w = length fs" and room: "?H + length fs < ?T + ?K"
    and fs: "\<And>c j. c < ch \<Longrightarrow> j < length fs \<Longrightarrow> rg_buf ?r ! (c * ?K + (?H + j) mod ?K) = fs ! j ! c"
    using p st by (auto simp: producer_inv_def)
  have h': "unat ((rg_head ?r + w) AND rg_mask ?r) = (?H + length fs) mod ?K"
    using unat_masked_add [of k "rg_head ?r" w] rinv H w by (simp add: ring_inv_def mod_simps)
  have cells: "cell_ok (sp_sent s @ fs) (sp_cut s) i c (rg_buf ?r ! (c * ?K + i mod ?K))"
    if i: "?T \<le> i" "i < ?H + length fs" "c < ch" for i c
  proof (cases "i < ?H")
    case True
    then show ?thesis using inv i by (intro cell_ok_mono [where ct = "sp_cut s"]) (simp_all add: spsc_inv_def)
  next
    case False
    then show ?thesis using fs [of c "i - ?H"] i by (simp add: cell_ok_def nth_append)
  qed
  have C: "consumer_inv ?K ch ?s'" by (rule consumer_mono [OF parts(1), where fs = fs]) simp_all
  have R: "received_inv ch ?s'" by (rule received_mono [OF parts(2) TH(1), where fs = fs]) simp_all
  have "ring_inv k ch (sp_ring ?s')" using rinv h' by (simp add: ring_inv_def)
  moreover have "sp_cut s c \<le> ?H + length fs" for c using cut [of c] by simp
  ultimately show ?thesis using inv h' room cells C R TH by (simp add: spsc_inv_def producer_inv_def)
qed

lemma read_loads_cells:
  assumes "ring_inv k ch r" and "unat (rg_tail r) = T mod 2 ^ k"
  shows "read_loads r real = concat (map (\<lambda>c. map (\<lambda>x. c * 2 ^ k + (T + x) mod 2 ^ k) [0..<unat real]) [0..<ch])"
proof -
  have "k \<le> 31" "rg_mask r = 2 ^ k - 1" "unat (rg_tail r) < 2 ^ k" "unat (rg_capacity r) = 2 ^ k" "unat (rg_channels r) = ch"
    using assms(1) unat_pow_word [of k] by (simp_all add: ring_inv_def)
  then show ?thesis using row_cells_eq [of k "rg_mask r" "rg_tail r"] assms(2)
    by (simp add: read_loads_def mod_simps)
qed

lemma step_read_begin:
  assumes inv: "spsc_inv k ch s" and "real = (if reac_ring_readable (sp_ring s) < n then reac_ring_readable (sp_ring s) else n)"
  shows "spsc_inv k ch (s\<lparr> sp_cons := C_Load (read_loads (sp_ring s) real) [] real \<rparr>)"
proof -
  let ?r = "sp_ring s" and ?H = "length (sp_sent s)" and ?T = "sp_taken s" and ?K = "2 ^ k :: nat"
  have "unat real \<le> unat (reac_ring_readable ?r)" using assms(2) by (auto simp: word_less_nat_alt)
  moreover have "?T \<le> ?H" using inv by (simp add: spsc_inv_def)
  ultimately have real: "?T + unat real \<le> ?H" using spsc_readable [OF inv] by linarith
  have ld: "read_loads ?r real = load_cells ?K ch ?T (unat real)"
    unfolding load_cells_def using inv by (intro read_loads_cells) (simp_all add: spsc_inv_def)
  show ?thesis using inv real by (simp add: spsc_inv_def consumer_inv_def ld length_load_cells)
qed

text \<open>A load gives the sample published or, in a channel that is being retired, silence.\<close>

lemma step_load:
  assumes inv: "spsc_inv k ch s" and c: "sp_cons s = C_Load (i # ld) acc real"
  shows "spsc_inv k ch (s\<lparr> sp_cons := C_Load ld (acc @ [rg_buf (sp_ring s) ! i]) real \<rparr>)"
proof -
  let ?T = "sp_taken s" and ?K = "2 ^ k :: nat" and ?m = "length acc"
  let ?cells = "load_cells ?K ch ?T (unat real)"
  have ci: "?T + unat real \<le> length (sp_sent s)" "?m + Suc (length ld) = ch * unat real" "i # ld = drop ?m ?cells"
    "\<And>j. j < ?m \<Longrightarrow> cell_ok (sp_sent s) (sp_cut s) (?T + j mod unat real) (j div unat real) (acc ! j)"
    using inv c by (simp_all add: spsc_inv_def consumer_inv_def)
  have m: "?m < ch * unat real" using ci(2) by simp
  then have r0: "0 < unat real" by (cases "unat real = 0") auto
  have i: "i = ?cells ! ?m" and ld: "ld = drop (Suc ?m) ?cells"
    using ci(3) m by (metis Cons_nth_drop_Suc length_load_cells list.inject)+
  have "?m div unat real < ch" using m by (simp add: less_mult_imp_div_less)
  moreover have "?m mod unat real < unat real" using r0 by simp
  ultimately have v: "cell_ok (sp_sent s) (sp_cut s) (?T + ?m mod unat real) (?m div unat real) (rg_buf (sp_ring s) ! i)"
    using inv ci(1) unfolding i nth_load_cells [OF m] by (simp add: spsc_inv_def)
  have "cell_ok (sp_sent s) (sp_cut s) (?T + j mod unat real) (j div unat real) ((acc @ [rg_buf (sp_ring s) ! i]) ! j)"
    if "j < Suc ?m" for j
    using that v ci(4) [of j] by (cases "j = ?m") (simp_all add: nth_append)
  then have "consumer_inv ?K ch (s\<lparr> sp_cons := C_Load ld (acc @ [rg_buf (sp_ring s) ! i]) real \<rparr>)"
    using ci(1,2) ld by (simp add: consumer_inv_def)
  then show ?thesis using inv by (simp add: spsc_inv_def)
qed

lemma step_consume:
  assumes inv: "spsc_inv k ch s" and ld: "sp_cons s = C_Load [] acc real"
  shows "spsc_inv k ch (s\<lparr> sp_ring := (sp_ring s)\<lparr> rg_tail := (rg_tail (sp_ring s) + real) AND rg_mask (sp_ring s) \<rparr>,
                     sp_cons := C_Idle,
                     sp_rows := (\<lambda>c. sp_rows s c @ peek (c * unat real) (unat real) acc),
                     sp_got := sp_got s @ [sp_taken s..<sp_taken s + unat real],
                     sp_taken := sp_taken s + unat real \<rparr>)" (is "spsc_inv k ch ?s'")
proof -
  let ?r = "sp_ring s" and ?H = "length (sp_sent s)" and ?T = "sp_taken s" and ?K = "2 ^ k :: nat" and ?n = "unat real"
  have rinv: "ring_inv k ch ?r" and T: "unat (rg_tail ?r) = ?T mod ?K" and rec: "received_inv ch s"
    and real: "?T + ?n \<le> ?H" and la: "length acc = ch * ?n"
    and acc: "\<And>j. j < length acc \<Longrightarrow> cell_ok (sp_sent s) (sp_cut s) (?T + j mod ?n) (j div ?n) (acc ! j)"
    using inv ld by (simp_all add: spsc_inv_def consumer_inv_def)
  have t': "unat ((rg_tail ?r + real) AND rg_mask ?r) = (?T + ?n) mod ?K"
    using unat_masked_add [of k "rg_tail ?r" real] rinv T by (simp add: ring_inv_def mod_simps)
  have lp: "length (peek (c * ?n) ?n acc) = ?n" if "c < ch" for c
    using that la mult_le_mono1 [of "Suc c" ch ?n] by simp
  have row: "cell_ok (sp_sent s) (sp_cut s) (?T + x) c (peek (c * ?n) ?n acc ! x)" if "c < ch" "x < ?n" for c x
  proof -
    have b: "c * ?n + x < ch * ?n" using that by (rule cell_bound)
    have "(c * ?n + x) div ?n = c" "(c * ?n + x) mod ?n = x" using that(2) by simp_all
    then show ?thesis
      using acc [of "c * ?n + x"] b la that mult_le_mono1 [of "Suc c" ch ?n] by (simp add: nth_peek)
  qed
  have "received_inv ch ?s'"
  proof -
    have "cell_ok (sp_sent s) (sp_cut s) ((sp_got s @ [?T..<?T + ?n]) ! j) c ((sp_rows s c @ peek (c * ?n) ?n acc) ! j)"
      if "c < ch" "j < length (sp_got s) + ?n" for c j
      using rec that row [of c "j - length (sp_got s)"]
      by (cases "j < length (sp_got s)") (simp_all add: received_inv_def nth_append)
    then show ?thesis using rec lp by (auto simp: received_inv_def sorted_wrt_append)
  qed
  moreover have "producer_inv ?K ch ?s'" using inv by (auto simp: spsc_inv_def producer_inv_def split: producer.splits)
  moreover have "ring_inv k ch (sp_ring ?s')" using rinv t' by (simp add: ring_inv_def)
  ultimately show ?thesis using inv t' real by (simp add: spsc_inv_def consumer_inv_def)
qed

lemma step_trim:
  assumes inv: "spsc_inv k ch s" and d: "avail = reac_ring_readable (sp_ring s)" "\<not> avail \<le> keep"
  shows "spsc_inv k ch (s\<lparr> sp_cons := C_Trim (avail - keep) \<rparr>)"
proof -
  have "unat (avail - keep) \<le> unat avail" using d(2) by (simp add: unat_sub_if' word_le_nat_alt)
  moreover have "unat avail = length (sp_sent s) - sp_taken s" using spsc_readable [OF inv] d(1) by simp
  moreover have "sp_taken s \<le> length (sp_sent s)" using inv by (simp add: spsc_inv_def)
  ultimately have "sp_taken s + unat (avail - keep) \<le> length (sp_sent s)" by linarith
  then show ?thesis using inv by (simp add: spsc_inv_def consumer_inv_def)
qed

lemma step_trimmed:
  assumes inv: "spsc_inv k ch s" and t: "sp_cons s = C_Trim d"
  shows "spsc_inv k ch (s\<lparr> sp_ring := (sp_ring s)\<lparr> rg_tail := (rg_tail (sp_ring s) + d) AND rg_mask (sp_ring s) \<rparr>,
                     sp_cons := C_Idle, sp_taken := sp_taken s + unat d, sp_dropped := sp_dropped s + unat d \<rparr>)" (is "spsc_inv k ch ?s'")
proof -
  let ?r = "sp_ring s" and ?T = "sp_taken s" and ?K = "2 ^ k :: nat"
  have rinv: "ring_inv k ch ?r" and T: "unat (rg_tail ?r) = ?T mod ?K" and d: "?T + unat d \<le> length (sp_sent s)"
    using inv t by (simp_all add: spsc_inv_def consumer_inv_def)
  have t': "unat ((rg_tail ?r + d) AND rg_mask ?r) = (?T + unat d) mod ?K"
    using unat_masked_add [of k "rg_tail ?r" d] rinv T by (simp add: ring_inv_def mod_simps)
  have "received_inv ch ?s'" using inv by (auto simp: spsc_inv_def received_inv_def)
  moreover have "producer_inv ?K ch ?s'" using inv by (auto simp: spsc_inv_def producer_inv_def split: producer.splits)
  moreover have "ring_inv k ch (sp_ring ?s')" using rinv t' by (simp add: ring_inv_def)
  ultimately show ?thesis using inv t' d by (simp add: spsc_inv_def consumer_inv_def)
qed

lemmas spsc_steps = step_begin step_narrow [OF _ _ _ _ refl] step_clear step_cleared step_store step_publish step_read_begin step_load
  step_consume step_trim step_trimmed

lemma spsc_inv_step: "spsc_step s s' \<Longrightarrow> spsc_inv k ch s \<Longrightarrow> spsc_inv k ch s'"
  by (induction rule: spsc_step.induct) (blast intro: spsc_steps)+

lemma spsc_inv_reach:
  assumes "spsc_reach r s" and "reac_ring_init True channels cap = Some r"
  shows "\<exists>k. spsc_inv k (unat channels) s"
proof -
  obtain k where k: "ring_inv k (unat channels) r" "ring_abs r = ([], 0, 0)"
    using assms(2) by (rule reac_ring_init_ok)
  have "rg_head r = 0" "rg_tail r = 0"
    using assms(2) by (auto simp: reac_ring_init_def Let_def split: if_splits)
  then have "spsc_inv k (unat channels) (spsc_start r)"
    using k(1) by (simp add: spsc_inv_def spsc_start_def producer_inv_def consumer_inv_def received_inv_def)
  with assms(1) have "spsc_inv k (unat channels) s"
    by (induction rule: spsc_reach.induct) (auto intro: spsc_inv_step)
  then show ?thesis ..
qed

lemma sorted_full:
  assumes "sorted_wrt (<) xs" and "\<forall>i \<in> set xs. i < n" and "length xs = n"
  shows "xs = [0..<n]"
  using assms
proof (induction xs arbitrary: n rule: rev_induct)
  case (snoc x xs)
  obtain m where n: "n = Suc m" "length xs = m" using snoc.prems(3) by (cases n) auto
  have "m \<le> x" using sorted_wrt_less_idx [OF snoc.prems(1), of m] n by (simp add: nth_append)
  then have x: "x = m" using snoc.prems(2) n by simp
  have "xs = [0..<m]" using snoc.prems n x by (intro snoc.IH) (auto simp: sorted_wrt_append)
  then show ?case using x n by simp
qed simp

text \<open>C9: the ring between its two threads, with writes of any width, reads of all channels and trims. However the
  single loads and stores of the writer (those of the memset of a narrowing write included) and of the reader
  interleave: the rows received come from published frames, each at most once and in their order, and the frames
  passed over are exactly as many as were trimmed, so without trims the frames received are the first ones
  published, with no gap. Every sample received is the one published in that frame and channel, with one exception:
  it may be silence if the channel was retired by a narrowing write that began after the frame was published. The
  reader is never ahead of the writer nor as far as the capacity behind it.\<close>

theorem spsc_fifo:
  assumes "reac_ring_init True channels cap = Some (r :: ('a :: zero) ring)" and "spsc_reach r s"
  shows "(\<forall>c. c < unat channels \<longrightarrow> length (sp_rows s c) = length (sp_got s) \<and>
      (\<forall>j < length (sp_got s). sp_rows s c ! j = sp_sent s ! (sp_got s ! j) ! c
         \<or> sp_got s ! j < sp_cut s c \<and> sp_rows s c ! j = 0)) \<and>
    sorted_wrt (<) (sp_got s) \<and> (\<forall>i \<in> set (sp_got s). i < sp_taken s) \<and>
    length (sp_got s) + sp_dropped s = sp_taken s \<and> (sp_dropped s = 0 \<longrightarrow> sp_got s = [0..<sp_taken s]) \<and>
    sp_taken s \<le> length (sp_sent s) \<and> length (sp_sent s) < sp_taken s + unat (rg_capacity (sp_ring s))"
proof -
  obtain k where k: "spsc_inv k (unat channels) s" using spsc_inv_reach [OF assms(2,1)] by blast
  then have "ring_inv k (unat channels) (sp_ring s)" and rec: "received_inv (unat channels) s" by (simp_all add: spsc_inv_def)
  then have cap: "unat (rg_capacity (sp_ring s)) = 2 ^ k" using unat_pow_word [of k] by (simp add: ring_inv_def)
  have "sp_dropped s = 0 \<longrightarrow> sp_got s = [0..<sp_taken s]"
    using rec sorted_full [of "sp_got s" "sp_taken s"] by (simp add: received_inv_def)
  moreover have "sp_taken s \<le> length (sp_sent s) \<and> length (sp_sent s) < sp_taken s + unat (rg_capacity (sp_ring s))"
    using k unfolding cap by (simp add: spsc_inv_def)
  ultimately show ?thesis using rec unfolding received_inv_def cell_ok_def by blast
qed

definition demo_ring :: "nat ring" where
  "demo_ring = \<lparr> rg_buf = [0, 0], rg_capacity = 2, rg_mask = 1, rg_channels = 1, rg_wrote_channels = 0,
     rg_head = 0, rg_tail = 0, rg_underruns = 0, rg_overruns = 0 \<rparr>"

definition demo_full :: "nat ring" where
  "demo_full = demo_ring\<lparr> rg_buf := [7, 0], rg_wrote_channels := 1, rg_head := 1 \<rparr>"

lemma demo_ring_init: "reac_ring_init True 1 1 = Some demo_ring"
  by (simp add: reac_ring_init_def demo_ring_def next_pow2_def) (simp add: eval_nat_numeral)

text \<open>One frame is published.\<close>

lemma demo_published: "spsc_reach demo_ring ((spsc_start demo_full)\<lparr> sp_sent := [[7]] \<rparr>)"
proof -
  let ?r1 = "demo_ring\<lparr> rg_wrote_channels := 1 \<rparr>"
  let ?s1 = "(spsc_start demo_ring)\<lparr> sp_ring := ?r1, sp_prod := P_Store [(0, 7)] [[7]] 1 \<rparr>"
  have "write_begin demo_ring [7] 1 1 = (?r1, P_Store [(0, 7)] [[7]] 1)"
    by (simp add: write_begin_def demo_ring_def reac_ring_writable_def
        reac_ring_readable_def write_stores_def peek_def frame_of_planar_def)
  then have "spsc_step (spsc_start demo_ring) ?s1"
    by (intro producer_begin [where src = 1]) (auto simp: spsc_start_def demo_ring_def clamp_width_def)
  then have "spsc_reach demo_ring ?s1" by (rule spsc_more [OF spsc_init])
  then have "spsc_reach demo_ring (?s1\<lparr> sp_ring := ?r1\<lparr> rg_buf := [7, 0] \<rparr>, sp_prod := P_Store [] [[7]] 1 \<rparr>)" (is "spsc_reach _ ?s2")
    by (rule spsc_more) (use producer_store [of ?s1 0 7 "[]" "[[7]]" 1] in \<open>simp add: demo_ring_def spsc_start_def\<close>)
  then show ?thesis
    by (rule spsc_more) (use producer_publish [of ?s2 "[[7]]" 1] in \<open>simp add: demo_full_def demo_ring_def spsc_start_def\<close>)
qed

lemma demo_ring_run: "\<exists>s. spsc_reach demo_ring s \<and> sp_sent s = [[7]] \<and> sp_taken s = 1 \<and> sp_dropped s = 0 \<and> sp_cut s 0 = 0"
proof -
  let ?s3 = "(spsc_start demo_full)\<lparr> sp_sent := [[7]] \<rparr>"
  have "spsc_reach demo_ring (?s3\<lparr> sp_cons := C_Load [0] [] 1 \<rparr>)" (is "spsc_reach _ ?s4")
    by (rule spsc_more [OF demo_published]) (use consumer_begin [of ?s3 1 1 1] in
      \<open>simp add: demo_full_def demo_ring_def spsc_start_def reac_ring_readable_def read_loads_def\<close>)
  then have "spsc_reach demo_ring (?s4\<lparr> sp_cons := C_Load [] [7] 1 \<rparr>)" (is "spsc_reach _ ?s5")
    by (rule spsc_more) (use consumer_load [of ?s4 0 "[]" "[]" 1] in \<open>simp add: demo_full_def demo_ring_def spsc_start_def\<close>)
  from spsc_more [OF this consumer_publish [of ?s5 "[7]" 1]] show ?thesis by (auto simp: spsc_start_def intro!: exI)
qed

theorem spsc_fifo_witness:
  "\<exists>(r :: nat ring) s. reac_ring_init True 1 1 = Some r \<and> spsc_reach r s \<and> sp_sent s = [[7]] \<and> sp_got s = [0] \<and>
     sp_rows s 0 = [7]"
proof -
  obtain s where s: "spsc_reach demo_ring s" "sp_sent s = [[7]]" "sp_taken s = 1" "sp_dropped s = 0" "sp_cut s 0 = 0"
    using demo_ring_run by blast
  note f = spsc_fifo [OF demo_ring_init s(1)]
  then have g: "sp_got s = [0]" using s by simp
  then have "length (sp_rows s 0) = 1" "sp_rows s 0 ! 0 = 7" using f s by simp_all
  then have "sp_rows s 0 = [7]" by (cases "sp_rows s 0") simp_all
  then show ?thesis using s(1,2) g demo_ring_init by (intro exI [of _ demo_ring] exI [of _ s]) simp
qed

text \<open>The exception is met: a frame published with a sample in channel 0 is received as silence when a write of
  width zero clears the row before the reader loads it.\<close>

lemma narrow_erases_unread: "\<exists>s. spsc_reach demo_ring s \<and> sp_sent s = [[7]] \<and> sp_got s = [0] \<and> sp_rows s 0 = [0]"
proof -
  let ?s3 = "(spsc_start demo_full)\<lparr> sp_sent := [[7]] \<rparr>"
  let ?ct = "\<lambda>c. if c < 1 then 1 else 0 :: nat"
  have "spsc_reach demo_ring (?s3\<lparr> sp_prod := P_Clear [0, 1] [] 0 0, sp_cut := ?ct \<rparr>)" (is "spsc_reach _ ?s4")
    by (rule spsc_more [OF demo_published]) (use producer_narrow [of ?s3 0 0 "[]" 0] in
      \<open>simp add: demo_full_def demo_ring_def spsc_start_def clamp_width_def clear_cells_def upt_conv_Cons cong: if_cong\<close>)
  then have "spsc_reach demo_ring (?s4\<lparr> sp_ring := demo_full\<lparr> rg_buf := [0, 0] \<rparr>, sp_prod := P_Clear [1] [] 0 0 \<rparr>)" (is "spsc_reach _ ?s5")
    by (rule spsc_more) (use producer_clear [of ?s4 0 "[1]" "[]" 0 0] in \<open>simp add: demo_full_def demo_ring_def spsc_start_def\<close>)
  then have "spsc_reach demo_ring (?s5\<lparr> sp_cons := C_Load [0] [] 1 \<rparr>)" (is "spsc_reach _ ?s6")
    by (rule spsc_more) (use consumer_begin [of ?s5 1 1 1] in
      \<open>simp add: demo_full_def demo_ring_def spsc_start_def reac_ring_readable_def read_loads_def\<close>)
  then have "spsc_reach demo_ring (?s6\<lparr> sp_cons := C_Load [] [0] 1 \<rparr>)" (is "spsc_reach _ ?s7")
    by (rule spsc_more) (use consumer_load [of ?s6 0 "[]" "[]" 1] in \<open>simp add: demo_full_def demo_ring_def spsc_start_def\<close>)
  from spsc_more [OF this consumer_publish [of ?s7 "[0]" 1]] show ?thesis
    by (auto simp: spsc_start_def peek_def intro!: exI)
qed

end
