(* ===== verification/Reac_Macaddr.thy ===== *)
theory Reac_Macaddr
  imports Reac_Prelude
begin

text \<open>
  Station addresses, \<^verbatim>\<open>src/reac_macaddr.c\<close>: composing the source address of our frames, and the
  48-bit packing of an address in a 64-bit word. Six-byte arrays are lists; the \<^verbatim>\<open>int\<close> result is
  kept beside the address written.
\<close>

abbreviation (input) ARPHRD_ETHER :: int where "ARPHRD_ETHER \<equiv> 1"

definition fallback_mac :: mac where
  "fallback_mac = [0x02, 0x00, 0x00, 0x00, 0x00, 0x01]"

definition reac_mac_compose :: "int \<Rightarrow> mac option \<Rightarrow> int \<times> mac" where
  "reac_mac_compose hw_family hwaddr =
     (case hwaddr of
        Some a \<Rightarrow> if hw_family = ARPHRD_ETHER then (0, take 6 a) else (- 1, fallback_mac)
      | None \<Rightarrow> (- 1, fallback_mac))"

definition reac_mac_fallback :: "int \<times> mac" where
  "reac_mac_fallback = (- 1, fallback_mac)"

definition reac_mac_roland_standin :: "mac \<Rightarrow> mac" where
  "reac_mac_roland_standin hwaddr = [0x00, 0x40, 0xab, hwaddr ! 3, hwaddr ! 4, hwaddr ! 5]"

definition reac_mac48_pack :: "mac option \<Rightarrow> u64" where
  "reac_mac48_pack m = (case m of None \<Rightarrow> 0
     | Some mac \<Rightarrow> fold (\<lambda>i v. push_bit 8 v OR ucast (mac ! i)) [0..<6] 0)"

text \<open>The loop from byte 5 down to byte 0.\<close>

definition reac_mac48_unpack :: "u64 \<Rightarrow> mac" where
  "reac_mac48_unpack packed =
     snd (fold (\<lambda>i (v, out). (drop_bit 8 v, out[i := ucast (v AND 0xff)])) (rev [0..<6])
           (packed, replicate 6 0))"

lemma upt6: "[0..<6] = [0, 1, 2, 3, 4, 5 :: nat]"
  by (simp add: upt_rec)

lemma list6:
  assumes "length xs = 6"
  obtains a b c d e f where "xs = [a, b, c, d, e, f]"
  using assms by (auto simp: eval_nat_numeral length_Suc_conv)

lemma mac48_unpack_eq:
  "reac_mac48_unpack v = map (\<lambda>i. ucast (drop_bit (40 - 8 * i) v)) [0..<6]"
proof -
  have byte: "ucast (w AND 0xff) = (ucast w :: u8)" for w :: u64
  proof -
    have ff: "(0xff :: u64) = mask 8" by (simp add: mask_eq_exp_minus_1)
    show ?thesis unfolding ff by (intro bit_word_eqI) (auto simp: bit_simps)
  qed
  show ?thesis by (simp add: reac_mac48_unpack_def upt6 byte) (simp add: numeral_eq_Suc)
qed

lemma mac48_pack_eq:
  "reac_mac48_pack (Some [a, b, c, d, e, f]) =
     push_bit 40 (ucast a) OR push_bit 32 (ucast b) OR push_bit 24 (ucast c) OR
     push_bit 16 (ucast d) OR push_bit 8 (ucast e) OR ucast f"
  by (simp add: reac_mac48_pack_def upt6 ac_simps)

text \<open>Packing and unpacking are inverse on six-byte addresses and on values below \<open>2 ^ 48\<close>; a
  composed source address is the card's on Ethernet and the fixed local one otherwise, and the
  stand-in keeps the card's last three bytes under the Roland prefix.\<close>

lemma mac48_unpack_pack:
  assumes "length mac = 6"
  shows "reac_mac48_unpack (reac_mac48_pack (Some mac)) = mac"
proof -
  obtain a b c d e f where m: "mac = [a, b, c, d, e, f]" using assms by (rule list6)
  show ?thesis
    unfolding m mac48_unpack_eq mac48_pack_eq upt6 list.map
    by (intro arg_cong2 [where f = Cons] refl bit_word_eqI) (auto simp: bit_simps)
qed

lemma mac48_pack_unpack:
  assumes "v < 2 ^ 48"
  shows "reac_mac48_pack (Some (reac_mac48_unpack v)) = v"
proof -
  have "unat v < 2 ^ 48" using assms by (simp add: word_less_nat_alt)
  then have "take_bit 48 (unat v) = unat v" by (rule take_bit_nat_eq_self)
  then have "unat (take_bit 48 v) = unat v" by (simp only: unsigned_take_bit_eq)
  then have "take_bit 48 v = v" by (simp only: word_unat_eq_iff)
  then have hi: "\<not> bit v n" if "48 \<le> n" for n using that bit_take_bit_iff [of 48 v n] by simp
  show ?thesis
    unfolding mac48_unpack_eq mac48_pack_eq upt6 list.map
  proof (rule bit_word_eqI)
    fix n :: nat
    show "bit (push_bit 40 (ucast (ucast (drop_bit (40 - 8 * 0) v) :: u8)) OR
        push_bit 32 (ucast (ucast (drop_bit (40 - 8 * 1) v) :: u8)) OR
        push_bit 24 (ucast (ucast (drop_bit (40 - 8 * 2) v) :: u8)) OR
        push_bit 16 (ucast (ucast (drop_bit (40 - 8 * 3) v) :: u8)) OR
        push_bit 8 (ucast (ucast (drop_bit (40 - 8 * 4) v) :: u8)) OR
        ucast (ucast (drop_bit (40 - 8 * 5) v) :: u8) :: u64) n \<longleftrightarrow> bit v n"
    proof -
      consider "n < 8" | "8 \<le> n" "n < 16" | "16 \<le> n" "n < 24" | "24 \<le> n" "n < 32"
        | "32 \<le> n" "n < 40" | "40 \<le> n" "n < 48" | "48 \<le> n" by linarith
      then show ?thesis using hi [of n] by cases (simp_all add: bit_simps less_diff_conv2)
    qed
  qed
qed

end
