(* ===== verification/Reac_Knock.thy ===== *)
theory Reac_Knock
  imports Reac_Prelude
begin

text \<open>
  The claim on a silent wire: \<^verbatim>\<open>src/reac_knock.c\<close> proves half a second of silence before the first
  frame is driven, \<^verbatim>\<open>src/reac_tapwait.c\<close> decides whether a tagged tap's traffic still binds a
  port. Times are 64-bit nanoseconds. A history of the knock is the list of what happened to it,
  a frame heard or a look at the clock, each with its time.
\<close>

abbreviation (input) REAC_KNOCK_LISTEN_NS :: u64 where "REAC_KNOCK_LISTEN_NS \<equiv> 500000000"

datatype reac_knock_state = REAC_KNOCK_LISTENING | REAC_KNOCK_PROVEN | REAC_KNOCK_CANCELLED
datatype reac_knock_act = REAC_KNOCK_ACT_NONE | REAC_KNOCK_ACT_DRIVE

record reac_knock =
  kn_state :: reac_knock_state
  kn_opened_ns :: u64
  kn_due_ns :: u64
  kn_heard_ns :: u64
  kn_granted :: bool

definition reac_knock_init :: "u64 \<Rightarrow> reac_knock" where
  "reac_knock_init now_ns =
     \<lparr> kn_state = REAC_KNOCK_LISTENING, kn_opened_ns = now_ns, kn_due_ns = now_ns + REAC_KNOCK_LISTEN_NS,
       kn_heard_ns = 0, kn_granted = False \<rparr>"

definition reac_knock_heard :: "reac_knock \<Rightarrow> u64 \<Rightarrow> reac_knock" where
  "reac_knock_heard k now_ns =
     (let k = k\<lparr> kn_heard_ns := now_ns \<rparr>
      in if kn_state k = REAC_KNOCK_LISTENING then k\<lparr> kn_state := REAC_KNOCK_CANCELLED \<rparr> else k)"

definition reac_knock_step :: "reac_knock \<Rightarrow> u64 \<Rightarrow> reac_knock \<times> reac_knock_act" where
  "reac_knock_step k now_ns =
     (if kn_state k = REAC_KNOCK_CANCELLED \<and>
         (now_ns \<le> kn_heard_ns k \<or> now_ns - kn_heard_ns k < REAC_KNOCK_LISTEN_NS)
      then (k, REAC_KNOCK_ACT_NONE)
      else let k = (if kn_state k = REAC_KNOCK_CANCELLED
                    then k\<lparr> kn_state := REAC_KNOCK_LISTENING, kn_due_ns := kn_heard_ns k + REAC_KNOCK_LISTEN_NS \<rparr>
                    else k)
           in if kn_state k \<noteq> REAC_KNOCK_LISTENING then (k, REAC_KNOCK_ACT_NONE)
              else if now_ns < kn_due_ns k then (k, REAC_KNOCK_ACT_NONE)
              else (k\<lparr> kn_state := REAC_KNOCK_PROVEN, kn_granted := True \<rparr>, REAC_KNOCK_ACT_DRIVE))"

section \<open>The tap's patience\<close>

abbreviation (input) REAC_HUNT_WINDOW_NS :: u64 where "REAC_HUNT_WINDOW_NS \<equiv> 3 * 1000 * 1000000"
abbreviation (input) REAC_TAPWAIT_NS :: u64 where "REAC_TAPWAIT_NS \<equiv> REAC_HUNT_WINDOW_NS"

record reac_tapwait_in =
  tw_tapped :: bool
  tw_untagged :: u64
  tw_last_heard_ns :: u64
  tw_now_ns :: u64

definition reac_tapwait_binds :: "reac_tapwait_in option \<Rightarrow> bool" where
  "reac_tapwait_binds inp =
     (case inp of None \<Rightarrow> False
      | Some i \<Rightarrow>
          if \<not> tw_tapped i then False
          else if tw_untagged i > 0 then False
          else if tw_last_heard_ns i = 0 then False
          else if tw_now_ns i \<le> tw_last_heard_ns i then True
          else tw_now_ns i - tw_last_heard_ns i < REAC_TAPWAIT_NS)"

section \<open>Histories\<close>

datatype knock_event = Knock_Heard u64 | Knock_Look u64

fun knock_time :: "knock_event \<Rightarrow> u64" where
  "knock_time (Knock_Heard t) = t"
| "knock_time (Knock_Look t) = t"

fun knock_apply :: "reac_knock \<Rightarrow> knock_event \<Rightarrow> reac_knock" where
  "knock_apply k (Knock_Heard t) = reac_knock_heard k t"
| "knock_apply k (Knock_Look t) = fst (reac_knock_step k t)"

definition knock_run :: "u64 \<Rightarrow> knock_event list \<Rightarrow> reac_knock" where
  "knock_run t0 es = foldl knock_apply (reac_knock_init t0) es"

text \<open>At \<open>t\<close> the wire has been listened to, and silent, for half a second.\<close>

definition quiet_at :: "u64 \<Rightarrow> knock_event list \<Rightarrow> u64 \<Rightarrow> bool" where
  "quiet_at t0 es t \<longleftrightarrow> unat t0 + 500000000 \<le> unat t \<and>
     (\<forall>h. Knock_Heard h \<in> set es \<longrightarrow> unat h + 500000000 \<le> unat t)"

definition looked_quiet :: "u64 \<Rightarrow> knock_event list \<Rightarrow> bool" where
  "looked_quiet t0 es \<longleftrightarrow> (\<exists>i < length es. \<exists>s. es ! i = Knock_Look s \<and> quiet_at t0 (take i es) s)"

text \<open>A history whose times do not run backwards and stay clear of the 64-bit end.\<close>

fun history_from :: "u64 \<Rightarrow> knock_event list \<Rightarrow> bool" where
  "history_from t [] = (unat t + 500000000 < 2 ^ 64)"
| "history_from t (e # es) = (t \<le> knock_time e \<and> history_from (knock_time e) es)"

lemma history_from_append:
  "history_from t (es @ [e]) \<longleftrightarrow>
     history_from t es \<and> (\<forall>x \<in> set es. knock_time x \<le> knock_time e) \<and> t \<le> knock_time e \<and>
     unat (knock_time e) + 500000000 < 2 ^ 64"
proof (induction es arbitrary: t)
  case Nil
  then show ?case by (auto simp: word_le_nat_alt)
qed (auto intro: order_trans)

lemma history_from_start: "history_from t es \<Longrightarrow> unat t + 500000000 < 2 ^ 64"
  by (induction es arbitrary: t) (fastforce simp: word_le_nat_alt)+

lemma looked_quiet_append:
  "looked_quiet t0 (es @ [e]) \<longleftrightarrow>
     looked_quiet t0 es \<or> (\<exists>s. e = Knock_Look s \<and> quiet_at t0 es s)"
  by (auto simp: looked_quiet_def nth_append less_Suc_eq split: if_splits)

lemma unat_plus_listen: "unat t + 500000000 < 2 ^ 64 \<Longrightarrow> unat (t + 500000000 :: u64) = unat t + 500000000"
  by (simp add: unat_word_ariths)

lemma listen_passed:
  "unat h \<le> unat t \<Longrightarrow> \<not> t - h < (500000000 :: u64) \<longleftrightarrow> unat h + 500000000 \<le> unat t"
  by (simp add: word_less_nat_alt unat_sub_if') linarith

definition knock_inv :: "u64 \<Rightarrow> knock_event list \<Rightarrow> reac_knock \<Rightarrow> bool" where
  "knock_inv t0 es k = (case kn_state k of
     REAC_KNOCK_PROVEN \<Rightarrow> looked_quiet t0 es \<and> kn_granted k
   | REAC_KNOCK_LISTENING \<Rightarrow> \<not> looked_quiet t0 es \<and> \<not> kn_granted k \<and> kn_due_ns k = t0 + REAC_KNOCK_LISTEN_NS \<and>
       (\<forall>h. Knock_Heard h \<notin> set es)
   | REAC_KNOCK_CANCELLED \<Rightarrow> \<not> looked_quiet t0 es \<and> \<not> kn_granted k \<and> Knock_Heard (kn_heard_ns k) \<in> set es \<and>
       t0 \<le> kn_heard_ns k \<and> (\<forall>h. Knock_Heard h \<in> set es \<longrightarrow> h \<le> kn_heard_ns k))"

lemma knock_step_drives:
  assumes "knock_inv t0 es k" and "unat t0 + 500000000 < 2 ^ 64" and "unat t + 500000000 < 2 ^ 64"
    and "\<And>x. x \<in> set es \<Longrightarrow> knock_time x \<le> t"
  shows "snd (reac_knock_step k t) = REAC_KNOCK_ACT_DRIVE \<longleftrightarrow> \<not> looked_quiet t0 es \<and> quiet_at t0 es t"
    and "knock_inv t0 (es @ [Knock_Look t]) (fst (reac_knock_step k t))"
proof (atomize (full), cases "kn_state k")
  case REAC_KNOCK_CANCELLED
  let ?h = "kn_heard_ns k"
  have h: "Knock_Heard ?h \<in> set es" and last: "\<And>h. Knock_Heard h \<in> set es \<Longrightarrow> h \<le> ?h"
    and inv: "\<not> looked_quiet t0 es" "t0 \<le> ?h"
    using assms(1) REAC_KNOCK_CANCELLED by (auto simp: knock_inv_def)
  have ht: "unat ?h \<le> unat t" using assms(4) [OF h] by (simp add: word_le_nat_alt)
  have q: "quiet_at t0 es t \<longleftrightarrow> unat ?h + 500000000 \<le> unat t"
    using h last inv(2) by (fastforce simp: quiet_at_def word_le_nat_alt)
  have due: "unat (?h + 500000000) = unat ?h + 500000000"
    using ht assms(3) by (intro unat_plus_listen) simp
  show "(snd (reac_knock_step k t) = REAC_KNOCK_ACT_DRIVE \<longleftrightarrow> \<not> looked_quiet t0 es \<and> quiet_at t0 es t) \<and>
      knock_inv t0 (es @ [Knock_Look t]) (fst (reac_knock_step k t))"
  proof (cases "quiet_at t0 es t")
    case True
    then have "\<not> t \<le> ?h" "\<not> t - ?h < 500000000" "\<not> t < ?h + 500000000"
      using q due listen_passed [OF ht] by (simp_all add: word_le_nat_alt word_less_nat_alt)
    then show ?thesis using True REAC_KNOCK_CANCELLED inv
      by (simp add: reac_knock_step_def knock_inv_def looked_quiet_append)
  next
    case False
    then have "t - ?h < 500000000" using q listen_passed [OF ht] by blast
    then show ?thesis using False REAC_KNOCK_CANCELLED assms(1)
      by (auto simp: reac_knock_step_def knock_inv_def looked_quiet_append)
  qed
next
  case REAC_KNOCK_LISTENING
  then have "quiet_at t0 es t \<longleftrightarrow> \<not> t < kn_due_ns k"
    using assms(1) unat_plus_listen [OF assms(2)] by (auto simp: quiet_at_def knock_inv_def word_less_nat_alt)
  then show "(snd (reac_knock_step k t) = REAC_KNOCK_ACT_DRIVE \<longleftrightarrow> \<not> looked_quiet t0 es \<and> quiet_at t0 es t) \<and>
      knock_inv t0 (es @ [Knock_Look t]) (fst (reac_knock_step k t))"
    using assms(1) REAC_KNOCK_LISTENING
    by (auto simp: reac_knock_step_def knock_inv_def looked_quiet_append)
qed (use assms(1) in \<open>simp add: reac_knock_step_def knock_inv_def looked_quiet_append\<close>)

lemma knock_inv_run: "history_from t0 es \<Longrightarrow> knock_inv t0 es (knock_run t0 es)"
proof (induction es rule: rev_induct)
  case Nil
  then show ?case by (simp add: knock_run_def knock_inv_def reac_knock_init_def looked_quiet_def)
next
  case (snoc e es)
  then have h: "history_from t0 es" "\<And>x. x \<in> set es \<Longrightarrow> knock_time x \<le> knock_time e" "t0 \<le> knock_time e"
    "unat (knock_time e) + 500000000 < 2 ^ 64"
    by (auto simp: history_from_append)
  have inv: "knock_inv t0 es (knock_run t0 es)" using h(1) by (rule snoc.IH)
  have run: "knock_run t0 (es @ [e]) = knock_apply (knock_run t0 es) e" by (simp add: knock_run_def)
  show ?case
  proof (cases e)
    case (Knock_Heard t)
    have "h \<le> t" if "Knock_Heard h \<in> set es" for h using h(2) [OF that] Knock_Heard by simp
    then show ?thesis unfolding run using inv Knock_Heard h(3)
      by (auto simp: knock_inv_def reac_knock_heard_def looked_quiet_append Let_def split: reac_knock_state.splits)
  next
    case (Knock_Look t)
    then show ?thesis unfolding run
      using knock_step_drives(2) [OF inv history_from_start [OF h(1)], of t] h by simp
  qed
qed

text \<open>C33: the knock claims the wire exactly once: a look at the clock answers "drive" if and only if
  it is the first look that finds the wire listened to for half a second and nothing heard in the
  half second before it; the claim is remembered from then on.\<close>

theorem knock_drives_once:
  assumes "history_from t0 (es @ [Knock_Look t])"
  shows "(snd (reac_knock_step (knock_run t0 es) t) = REAC_KNOCK_ACT_DRIVE \<longleftrightarrow>
           quiet_at t0 es t \<and> \<not> looked_quiet t0 es) \<and>
         (kn_granted (knock_run t0 es) \<longleftrightarrow> looked_quiet t0 es)"
proof -
  have h: "history_from t0 es" "\<And>x. x \<in> set es \<Longrightarrow> knock_time x \<le> t" "unat t + 500000000 < 2 ^ 64"
    using assms by (auto simp: history_from_append)
  note inv = knock_inv_run [OF h(1)]
  have "kn_granted (knock_run t0 es) \<longleftrightarrow> looked_quiet t0 es"
    using inv by (auto simp: knock_inv_def split: reac_knock_state.splits)
  then show ?thesis
    using knock_step_drives(1) [OF inv history_from_start [OF h(1)] h(3) h(2)] by blast
qed

theorem knock_drives_once_witness:
  "history_from 0 [Knock_Heard 100, Knock_Look 500000000, Knock_Look 500000100] \<and>
   snd (reac_knock_step (knock_run 0 [Knock_Heard 100, Knock_Look 500000000]) 500000100) = REAC_KNOCK_ACT_DRIVE"
proof -
  have h: "history_from 0 ([Knock_Heard 100, Knock_Look 500000000] @ [Knock_Look 500000100])" by simp
  have "quiet_at 0 [Knock_Heard 100, Knock_Look 500000000] 500000100"
    and "\<not> looked_quiet 0 [Knock_Heard 100, Knock_Look 500000000]"
    by (auto simp: quiet_at_def looked_quiet_def less_Suc_eq_0_disj nth_Cons' split: if_splits)
  then show ?thesis using h knock_drives_once [OF h] by simp
qed

end
