(* ===== verification/Reac_Box_Facts.thy ===== *)
theory Reac_Box_Facts
  imports Reac_Box_Model
begin

text \<open>
  Names of boxes from what they said: \<^verbatim>\<open>src/reac_box_facts.c\<close>. The bounded string builder
  \<^verbatim>\<open>struct sb\<close> is a record of the text so far, the capacity and the overflow flag; C strings are
  lists of characters without the final NUL. \<open>reac_box_name\<close> returns the three strings, \<open>None\<close>
  for -1.
\<close>

datatype reac_box_family =
    REAC_BOX_FAMILY_UNKNOWN | REAC_BOX_FAMILY_S0808 | REAC_BOX_FAMILY_S1608 | REAC_BOX_FAMILY_S4000S

abbreviation (input) REAC_BOX_NAME_MAX :: nat where "REAC_BOX_NAME_MAX \<equiv> 24"
abbreviation (input) REAC_BOX_NAME_TOKEN_MAX :: nat where "REAC_BOX_NAME_TOKEN_MAX \<equiv> 24"
abbreviation (input) REAC_BOX_NAME_DISPLAY_MAX :: nat where "REAC_BOX_NAME_DISPLAY_MAX \<equiv> 48"
abbreviation (input) REAC_BOX_DEFECT_WIDTH :: int where "REAC_BOX_DEFECT_WIDTH \<equiv> 1"
abbreviation (input) REAC_BOX_DEFECT_NAME :: int where "REAC_BOX_DEFECT_NAME \<equiv> 2"

definition HW_FAMILY :: "(reac_box_family \<times> bytes) list" where
  "HW_FAMILY =
     [(REAC_BOX_FAMILY_S0808, [0, 0, 0, 1, 0, 0, 0, 0]),
      (REAC_BOX_FAMILY_S1608, [0, 0, 0, 2, 0, 3, 0, 2]),
      (REAC_BOX_FAMILY_S4000S, [0, 0, 0, 2, 0, 1, 0, 2])]"

definition reac_box_family_of :: "reac_identity option \<Rightarrow> reac_box_family" where
  "reac_box_family_of ident =
     (case ident of None \<Rightarrow> REAC_BOX_FAMILY_UNKNOWN
      | Some i \<Rightarrow>
          if \<not> id_has_reac_version i then REAC_BOX_FAMILY_UNKNOWN
          else (case List.find (\<lambda>(f, hw). take 8 (id_reac_version_raw i) = hw) HW_FAMILY of
                  Some (f, hw) \<Rightarrow> f
                | None \<Rightarrow> REAC_BOX_FAMILY_UNKNOWN))"

fun reac_box_family_stem :: "reac_box_family \<Rightarrow> string" where
  "reac_box_family_stem REAC_BOX_FAMILY_S0808 = ''S-0808''"
| "reac_box_family_stem REAC_BOX_FAMILY_S1608 = ''S-1608''"
| "reac_box_family_stem REAC_BOX_FAMILY_S4000S = ''S-4000S''"
| "reac_box_family_stem REAC_BOX_FAMILY_UNKNOWN = ''REAC''"

section \<open>The bounded builder\<close>

record sb =
  sb_p :: string
  sb_cap :: nat
  sb_over :: bool

definition sb_new :: "nat \<Rightarrow> sb" where
  "sb_new cap = \<lparr> sb_p = [], sb_cap = cap, sb_over = False \<rparr>"

definition sb_ch :: "sb \<Rightarrow> char \<Rightarrow> sb" where
  "sb_ch b c = (if length (sb_p b) + 1 \<ge> sb_cap b then b\<lparr> sb_over := True \<rparr>
                else b\<lparr> sb_p := sb_p b @ [c] \<rparr>)"

definition sb_str :: "sb \<Rightarrow> string \<Rightarrow> sb" where
  "sb_str b s = foldl sb_ch b s"

text \<open>The digits \<^verbatim>\<open>d[0..k-1]\<close>, least significant first, at most three of them.\<close>

fun dec_digits :: "nat \<Rightarrow> nat \<Rightarrow> string" where
  "dec_digits 0 v = []"
| "dec_digits (Suc room) v =
     digit_char (v mod 10) # (if v div 10 \<noteq> 0 then dec_digits room (v div 10) else [])"

definition sb_dec :: "sb \<Rightarrow> nat \<Rightarrow> nat \<Rightarrow> sb" where
  "sb_dec b v min_digits =
     (let d = dec_digits 3 v;
          d = d @ replicate (min min_digits 3 - length d) (CHR ''0'')
      in sb_str b (rev d))"

definition ends_with_widths :: "string \<Rightarrow> string \<Rightarrow> bool" where
  "ends_with_widths stem w4 =
     (let n = length stem in n \<ge> 4 \<and> drop (n - 4) stem = take 4 w4)"

definition fold_upper :: "char \<Rightarrow> char" where
  "fold_upper c = (let v = of_char c :: nat in if 65 \<le> v \<and> v \<le> 90 then char_of (v - 65 + 97) else c)"

text \<open>The token's loop: the first hyphen is dropped, capitals are folded.\<close>

fun token_loop :: "sb \<Rightarrow> bool \<Rightarrow> string \<Rightarrow> sb" where
  "token_loop b dropped [] = b"
| "token_loop b dropped (c # cs) =
     (if c = CHR ''-'' \<and> \<not> dropped then token_loop b True cs
      else token_loop (sb_ch b (fold_upper c)) dropped cs)"

definition reac_box_name ::
    "reac_box_family \<Rightarrow> string option \<Rightarrow> int \<Rightarrow> int \<Rightarrow> nat \<Rightarrow> nat \<Rightarrow> nat \<Rightarrow> (string \<times> string \<times> string) option" where
  "reac_box_name f said_name in_ch out_ch name_len token_len display_len =
     (if name_len = 0 \<or> token_len = 0 \<or> display_len = 0 then None
      else if (in_ch \<noteq> 0 \<and> \<not> reac_box_width_ok in_ch) \<or> (out_ch \<noteq> 0 \<and> \<not> reac_box_width_ok out_ch)
              \<or> (in_ch = 0 \<and> out_ch = 0) then None
      else let stem = (case said_name of
                         Some (c # cs) \<Rightarrow> c # cs
                       | _ \<Rightarrow> reac_box_family_stem f);
               wb = sb_dec (sb_dec (sb_new 5) (nat in_ch) 2) (nat out_ch) 2;
               w4 = sb_p wb;
               nb = sb_str (sb_new REAC_BOX_NAME_MAX) stem;
               nb = (if \<not> (length (sb_p wb) = 4 \<and> ends_with_widths stem w4)
                     then sb_str (sb_ch nb (CHR ''-'')) w4 else nb);
               tb = token_loop (sb_new REAC_BOX_NAME_TOKEN_MAX) False (sb_p nb);
               db = sb_str (sb_new REAC_BOX_NAME_DISPLAY_MAX) (sb_p nb);
               db = sb_str db '' ('';
               db = sb_dec db (nat in_ch) 1;
               db = sb_str db '' in / '';
               db = sb_dec db (nat out_ch) 1;
               db = sb_str db '' out)''
           in if sb_over wb \<or> sb_over nb \<or> sb_over tb \<or> sb_over db \<or>
                 length (sb_p nb) \<ge> name_len \<or> length (sb_p tb) \<ge> token_len \<or>
                 length (sb_p db) \<ge> display_len then None
              else Some (sb_p nb, sb_p tb, sb_p db))"

definition reac_box_catalogue_defect :: "reac_box_model option \<Rightarrow> int \<Rightarrow> int \<Rightarrow> string option \<Rightarrow> int" where
  "reac_box_catalogue_defect entry in_ch out_ch display =
     (case entry of None \<Rightarrow> 0
      | Some e \<Rightarrow>
          (if bm_in_ch e \<noteq> in_ch \<or> bm_out_ch e \<noteq> out_ch then REAC_BOX_DEFECT_WIDTH else 0) OR
          (if (case display of Some d \<Rightarrow> bm_display e \<noteq> d | None \<Rightarrow> False) then REAC_BOX_DEFECT_NAME else 0))"

section \<open>What a name is\<close>

definition two_digits :: "int \<Rightarrow> string" where
  "two_digits v = [digit_char (nat v div 10), digit_char (nat v mod 10)]"

definition plain_digits :: "int \<Rightarrow> string" where
  "plain_digits v = (if v < 10 then [digit_char (nat v)] else two_digits v)"

definition name_of_box :: "string \<Rightarrow> int \<Rightarrow> int \<Rightarrow> string" where
  "name_of_box stem i out =
     (let w = two_digits i @ two_digits out
      in if 4 \<le> length stem \<and> drop (length stem - 4) stem = w then stem else stem @ ''-'' @ w)"

definition token_of_name :: "string \<Rightarrow> string" where
  "token_of_name nm = map fold_upper (remove1 (CHR ''-'') nm)"

definition display_of_name :: "string \<Rightarrow> int \<Rightarrow> int \<Rightarrow> string" where
  "display_of_name nm i out = nm @ '' ('' @ plain_digits i @ '' in / '' @ plain_digits out @ '' out)''"

definition stem_of :: "reac_box_family \<Rightarrow> string option \<Rightarrow> string" where
  "stem_of f said = (case said of Some (c # cs) \<Rightarrow> c # cs | _ \<Rightarrow> reac_box_family_stem f)"

lemma sb_str_eq:
  assumes "length (sb_p b) < sb_cap b"
  shows "sb_str b s = b\<lparr> sb_p := take (sb_cap b - 1) (sb_p b @ s),
           sb_over := (sb_over b \<or> sb_cap b \<le> length (sb_p b) + length s) \<rparr>"
  using assms
proof (induction s arbitrary: b)
  case (Cons c s)
  show ?case
  proof (cases "length (sb_p b) + 1 \<ge> sb_cap b")
    case True
    then have l: "sb_cap b = Suc (length (sb_p b))" using Cons.prems by simp
    have "sb_str b (c # s) = sb_str (b\<lparr> sb_over := True \<rparr>) s"
      using True by (simp add: sb_str_def sb_ch_def)
    then show ?thesis using Cons.IH [of "b\<lparr> sb_over := True \<rparr>"] Cons.prems l by simp
  next
    case False
    then have "sb_str b (c # s) = sb_str (b\<lparr> sb_p := sb_p b @ [c] \<rparr>) s"
      by (simp add: sb_str_def sb_ch_def)
    then show ?thesis using Cons.IH [of "b\<lparr> sb_p := sb_p b @ [c] \<rparr>"] False by simp
  qed
qed (simp add: sb_str_def)

lemma sb_str_take_le: "length (sb_p b) < sb_cap b \<Longrightarrow> length (sb_p (sb_str b s)) < sb_cap b \<and> sb_cap (sb_str b s) = sb_cap b"
  by (simp add: sb_str_eq)

lemma sb_ch_str: "sb_ch b c = sb_str b [c]"
  by (simp add: sb_str_def)

lemma sb_str_str: "sb_str (sb_str b s) t = sb_str b (s @ t)"
  by (simp add: sb_str_def)

lemma token_loop_eq:
  "token_loop b d s = sb_str b (map fold_upper (if d then s else remove1 (CHR ''-'') s))"
proof (induction s arbitrary: b d)
  case (Cons c s)
  show ?case
    by (cases d; cases "c = CHR ''-''") (simp_all add: Cons.IH sb_ch_str sb_str_str)
qed (simp add: sb_str_def)

lemma sb_dec_eq:
  assumes "0 \<le> v" and "v \<le> 40"
  shows "sb_dec b (nat v) 2 = sb_str b (two_digits v)" and "sb_dec b (nat v) 1 = sb_str b (plain_digits v)"
proof -
  have "nat v div 10 < 10" and "nat v mod 10 < 10" using assms by simp_all
  then have d: "dec_digits 3 (nat v) = (if v < 10 then [digit_char (nat v)] else [digit_char (nat v mod 10), digit_char (nat v div 10)])"
    using assms by (simp add: eval_nat_numeral(3) numeral_2_eq_2) linarith
  show "sb_dec b (nat v) 2 = sb_str b (two_digits v)"
    using assms by (simp add: sb_dec_def d two_digits_def digit_char_zero nat_less_iff)
  show "sb_dec b (nat v) 1 = sb_str b (plain_digits v)"
    by (simp add: sb_dec_def d two_digits_def plain_digits_def)
qed

lemma token_length_le: "length (token_of_name nm) \<le> length nm"
  by (simp add: token_of_name_def length_remove1)

lemma reac_box_name_eq:
  "reac_box_name f said i out nlen tlen dlen =
    (let nm = name_of_box (stem_of f said) i out
     in if (i = 0 \<or> reac_box_width_ok i) \<and> (out = 0 \<or> reac_box_width_ok out) \<and> \<not> (i = 0 \<and> out = 0) \<and>
        length nm < min 24 nlen \<and> length (token_of_name nm) < tlen \<and> length (display_of_name nm i out) < dlen
     then Some (nm, token_of_name nm, display_of_name nm i out) else None)"
proof (cases "nlen \<noteq> 0 \<and> tlen \<noteq> 0 \<and> dlen \<noteq> 0 \<and>
    (i = 0 \<or> reac_box_width_ok i) \<and> (out = 0 \<or> reac_box_width_ok out) \<and> (i \<noteq> 0 \<or> out \<noteq> 0)")
  case True
  then have w: "0 \<le> i" "i \<le> 40" "0 \<le> out" "out \<le> 40" by (auto simp: reac_box_width_ok_iff)
  define stem where "stem = stem_of f said"
  define nm where "nm = name_of_box stem i out"
  let ?w = "two_digits i @ two_digits out"
  have wb: "sb_dec (sb_dec (sb_new 5) (nat i) 2) (nat out) 2 = \<lparr> sb_p = ?w, sb_cap = 5, sb_over = False \<rparr>"
    using w by (simp add: sb_dec_eq sb_str_str sb_str_eq sb_new_def two_digits_def)
  have st: "(case said of Some (c # cs) \<Rightarrow> c # cs | _ \<Rightarrow> reac_box_family_stem f) = stem"
    by (simp add: stem_def stem_of_def)
  have nb: "(if \<not> (length ?w = 4 \<and> ends_with_widths stem ?w)
      then sb_str (sb_ch (sb_str (sb_new 24) stem) (CHR ''-'')) ?w else sb_str (sb_new 24) stem) = sb_str (sb_new 24) nm"
    by (simp add: nm_def name_of_box_def ends_with_widths_def Let_def two_digits_def sb_ch_str sb_str_str)
  let ?nb = "sb_str (sb_new 24) nm"
  have nb': "sb_p ?nb = take 23 nm" "sb_over ?nb \<longleftrightarrow> 24 \<le> length nm"
    by (simp_all add: sb_str_eq sb_new_def)
  have db: "sb_str (sb_dec (sb_str (sb_dec (sb_str (sb_str (sb_new 48) s) '' ('') (nat i) 1) '' in / '') (nat out) 1) '' out)'' =
      sb_str (sb_new 48) (display_of_name s i out)" for s
    using w by (simp add: sb_dec_eq [unfolded One_nat_def] sb_str_str display_of_name_def)
  have "length (plain_digits v) \<le> 2" for v by (simp add: plain_digits_def two_digits_def)
  from this [of i] this [of out]
  have dl: "length (display_of_name s i out) \<le> length s + 17" for s by (simp add: display_of_name_def)
  have "reac_box_name f said i out nlen tlen dlen =
     (if sb_over ?nb \<or> sb_over (sb_str (sb_new 24) (token_of_name (sb_p ?nb))) \<or>
         sb_over (sb_str (sb_new 48) (display_of_name (sb_p ?nb) i out)) \<or> length (sb_p ?nb) \<ge> nlen \<or>
         length (sb_p (sb_str (sb_new 24) (token_of_name (sb_p ?nb)))) \<ge> tlen \<or>
         length (sb_p (sb_str (sb_new 48) (display_of_name (sb_p ?nb) i out))) \<ge> dlen then None
      else Some (sb_p ?nb, sb_p (sb_str (sb_new 24) (token_of_name (sb_p ?nb))),
        sb_p (sb_str (sb_new 48) (display_of_name (sb_p ?nb) i out))))"
    unfolding reac_box_name_def Let_def wb st sb.simps nb db token_loop_eq
    using True by (auto simp: token_of_name_def)
  moreover have "sb_p (sb_str (sb_new 24) (token_of_name s)) = token_of_name s"
    "\<not> sb_over (sb_str (sb_new 24) (token_of_name s))"
    "sb_p (sb_str (sb_new 48) (display_of_name s i out)) = display_of_name s i out"
    "\<not> sb_over (sb_str (sb_new 48) (display_of_name s i out))" if "length s < 24" for s
    using that token_length_le [of s] dl [of s] by (simp_all add: sb_str_eq sb_new_def)
  ultimately show ?thesis using True nb'
    by (cases "length nm < 24") (simp_all add: Let_def flip: nm_def stem_def)
next
  case False
  then show ?thesis by (auto simp: reac_box_name_def)
qed

lemma box_name_token_length:
  "reac_box_name f said i out nlen tlen dlen = Some (nm, tok, disp) \<Longrightarrow> length tok < tlen"
  by (auto simp: reac_box_name_eq Let_def split: if_splits)

text \<open>The catalogue's recorded boxes carry the display name these rules give.\<close>

lemma catalogue_displays:
  "reac_box_name REAC_BOX_FAMILY_S1608 None 16 8 24 24 48 = Some (''S-1608'', ''s1608'', bm_display BOX_S1608)"
  "reac_box_name REAC_BOX_FAMILY_S0808 None 8 8 24 24 48 = Some (''S-0808'', ''s0808'', bm_display BOX_S0808)"
  "reac_box_name REAC_BOX_FAMILY_S4000S None 32 8 24 24 48 = Some (''S-4000S-3208'', ''s4000s-3208'', bm_display BOX_S4000S)"
  "reac_box_name REAC_BOX_FAMILY_S4000S None 8 32 24 24 48 = Some (''S-4000S-0832'', ''s4000s-0832'', bm_display BOX_S4000S_0832)"
  by code_simp+

text \<open>A box is named after what it says or after its family, with its widths appended in two
  digits each unless the name already ends in them; the token is the name without its first hyphen
  and in small letters, the display name spells the widths out. It is refused exactly when no width or
  an illegal one is given, or a name or one of the caller's buffers would overflow; nothing is ever
  truncated.\<close>

theorem box_name_outcome:
  "reac_box_name f said i out nlen tlen dlen =
    (let nm = name_of_box (stem_of f said) i out
     in if (i = 0 \<or> reac_box_width_ok i) \<and> (out = 0 \<or> reac_box_width_ok out) \<and> \<not> (i = 0 \<and> out = 0) \<and>
        length nm < min 24 nlen \<and> length (token_of_name nm) < tlen \<and> length (display_of_name nm i out) < dlen
     then Some (nm, token_of_name nm, display_of_name nm i out) else None)"
  by (rule reac_box_name_eq)

end
