(* ===== verification/Reac_Disco.thy ===== *)
theory Reac_Disco
  imports Reac_Box_Facts "HOL-Library.Multiset"
begin

text \<open>
  Discovery, \<^verbatim>\<open>src/reac_disco.c\<close>: what one frame says of its sender, the gate that thins the
  sightings a realtime thread hands over, and the table of stations with its JSON form.

  The first \<^verbatim>\<open>n\<close> elements of an entry array are a list; the elements after them are not read by
  the code. A classification returns the peer lock as it leaves it and \<open>None\<close> for -1. \<^verbatim>\<open>PUT\<close> is
  \<open>put\<close>, whose \<open>None\<close> is the early return.
\<close>

abbreviation (input) REAC_DISCO_MAX :: nat where "REAC_DISCO_MAX \<equiv> 8"
abbreviation (input) REAC_DISCO_STALE_NS :: u64 where "REAC_DISCO_STALE_NS \<equiv> 5000000000"
abbreviation (input) REAC_DISCO_REFRESH_NS :: u64 where "REAC_DISCO_REFRESH_NS \<equiv> 1000000000"
abbreviation (input) REAC_DISCO_JSON_MAX :: nat where "REAC_DISCO_JSON_MAX \<equiv> 1280"

datatype reac_disco_role = REAC_DISCO_ROLE_UNKNOWN | REAC_DISCO_ROLE_BOX | REAC_DISCO_ROLE_MASTER

fun reac_disco_role_name :: "reac_disco_role \<Rightarrow> string" where
  "reac_disco_role_name REAC_DISCO_ROLE_BOX = ''box''"
| "reac_disco_role_name REAC_DISCO_ROLE_MASTER = ''master''"
| "reac_disco_role_name REAC_DISCO_ROLE_UNKNOWN = ''unknown''"

record reac_disco_sighting =
  si_mac :: mac
  si_role :: reac_disco_role
  si_has_decl :: bool
  si_decl_in :: u8
  si_decl_out :: u8
  si_family :: u8
  si_announced_slots :: u8
  si_channels :: nat

record reac_disco_peer_lock =
  lk_mac :: mac
  lk_locked :: bool

definition reac_disco_peer_lock_init :: reac_disco_peer_lock where
  "reac_disco_peer_lock_init = \<lparr> lk_mac = replicate 6 0, lk_locked = False \<rparr>"

section \<open>Classifying a frame\<close>

definition is_box_join :: "reac_ctrl_parsed \<Rightarrow> bool" where
  "is_box_join p \<longleftrightarrow> pc_opcode p = 0x00 \<and>
     (pc_dt1_tag p = REAC_DT1_TAG_JOIN \<or> pc_dt1_tag p = REAC_DT1_TAG_BOX_READY \<or>
      pc_dt1_tag p = REAC_DT1_TAG_IDENTITY)"

definition role_of :: "reac_ctrl_parsed \<Rightarrow> reac_disco_role" where
  "role_of p = (case pc_kind p of
     REAC_CTRL_FILLER \<Rightarrow> if pc_is_broadcast p then REAC_DISCO_ROLE_UNKNOWN else REAC_DISCO_ROLE_BOX
   | REAC_CTRL_MASTER_ANNOUNCE \<Rightarrow> REAC_DISCO_ROLE_MASTER
   | REAC_CTRL_MASTER_HB \<Rightarrow> REAC_DISCO_ROLE_MASTER
   | REAC_CTRL_BOX_HB \<Rightarrow> REAC_DISCO_ROLE_BOX
   | REAC_CTRL_HEADAMP \<Rightarrow> REAC_DISCO_ROLE_MASTER
   | REAC_CTRL_GRANT \<Rightarrow> if is_box_join p then REAC_DISCO_ROLE_BOX else REAC_DISCO_ROLE_MASTER
   | REAC_CTRL_CONFIG_ANNOUNCE \<Rightarrow> REAC_DISCO_ROLE_BOX
   | REAC_CTRL_SCENE_TRANSFER \<Rightarrow> REAC_DISCO_ROLE_MASTER
   | _ \<Rightarrow> REAC_DISCO_ROLE_UNKNOWN)"

definition announced_slots_of :: "bytes \<Rightarrow> u8" where
  "announced_slots_of frame =
     (let cb = drop REAC_CTRL_BLOCK_OFF frame in
      if length frame \<ge> REAC_CTRL_BLOCK_OFF + REAC_CTRL_BLOCK_LEN \<and> frame ! 16 = 0xcf \<and> frame ! 17 = 0xea \<and>
         cb ! 4 = 0x01 \<and> cb ! 5 = 0x03 \<and> cb ! 6 = 0x0d \<and> cb ! 7 = 0x01 \<and> cb ! 8 = 0x04
      then cb ! 15 else 0)"

definition declared_ports :: "bytes \<Rightarrow> (u8 \<times> u8) option" where
  "declared_ports frame =
     (if length frame < REAC_CTRL_BLOCK_OFF + REAC_CTRL_BLOCK_LEN then None
      else case reac_ports_parse (Some (drop REAC_CTRL_BLOCK_OFF frame)) of
             None \<Rightarrow> None
           | Some ports \<Rightarrow>
               if bp_in_ch ports \<ge> 0 \<and> bp_in_ch ports \<le> REAC_MAX_CHANNELS \<and>
                  bp_out_ch ports \<ge> 0 \<and> bp_out_ch ports \<le> REAC_MAX_CHANNELS
               then Some (word_of_int (bp_in_ch ports), word_of_int (bp_out_ch ports)) else None)"

definition classify_core ::
    "reac_disco_peer_lock option \<Rightarrow> bytes \<Rightarrow> mac \<Rightarrow> reac_disco_peer_lock option \<times> reac_disco_sighting option" where
  "classify_core lock frame our_mac =
     (let p = reac_ctrl_parse frame in
      if pc_kind p = REAC_CTRL_NONE then (lock, None)
      else if pc_src p = our_mac then (lock, None)
      else if pc_kind p \<noteq> REAC_CTRL_FILLER \<and> reac_ctrl_checksum_verify frame \<noteq> 0 then (lock, None)
      else if pc_kind p = REAC_CTRL_FILLER \<and>
              (case lock of Some l \<Rightarrow> lk_locked l \<and> lk_mac l \<noteq> pc_src p | None \<Rightarrow> False) then (lock, None)
      else let lock = (if pc_kind p \<noteq> REAC_CTRL_FILLER
                       then map_option (\<lambda>l. if lk_locked l then l else \<lparr> lk_mac = pc_src p, lk_locked = True \<rparr>) lock
                       else lock);
               decl = declared_ports frame
           in (lock, Some \<lparr> si_mac = pc_src p, si_role = role_of p, si_has_decl = (decl \<noteq> None),
                 si_decl_in = (case decl of Some (i, out) \<Rightarrow> i | None \<Rightarrow> 0),
                 si_decl_out = (case decl of Some (i, out) \<Rightarrow> out | None \<Rightarrow> 0),
                 si_family = 0, si_announced_slots = announced_slots_of frame,
                 si_channels = reac_frame_channels (length frame) \<rparr>))"

definition reac_disco_classify :: "bytes \<Rightarrow> mac \<Rightarrow> reac_disco_sighting option" where
  "reac_disco_classify frame our_mac = snd (classify_core None frame our_mac)"

definition reac_disco_classify_on_segment ::
    "reac_disco_peer_lock \<Rightarrow> bytes \<Rightarrow> mac \<Rightarrow> reac_disco_peer_lock \<times> reac_disco_sighting option" where
  "reac_disco_classify_on_segment lock frame our_mac =
     (let (l, s) = classify_core (Some lock) frame our_mac in (the l, s))"

section \<open>The push gate\<close>

record reac_disco_gate_entry =
  ge_mac :: mac
  ge_role :: reac_disco_role
  ge_decl_key :: int
  ge_announced_slots :: u8
  ge_last_push_ns :: u64

type_synonym reac_disco_gate = "reac_disco_gate_entry list"

definition reac_disco_gate_init :: reac_disco_gate where
  "reac_disco_gate_init = []"

definition decl_key_of :: "reac_disco_sighting \<Rightarrow> int" where
  "decl_key_of s = (if si_has_decl s then push_bit 8 (uint (si_decl_in s)) OR uint (si_decl_out s) else - 1)"

definition gate_news :: "reac_disco_gate_entry \<Rightarrow> reac_disco_sighting \<Rightarrow> bool" where
  "gate_news e s \<longleftrightarrow>
     (si_role s \<noteq> REAC_DISCO_ROLE_UNKNOWN \<and> si_role s \<noteq> ge_role e) \<or>
     (decl_key_of s \<ge> 0 \<and> decl_key_of s \<noteq> ge_decl_key e) \<or>
     (si_announced_slots s \<noteq> 0 \<and> si_announced_slots s \<noteq> ge_announced_slots e)"

definition gate_refresh :: "reac_disco_gate_entry \<Rightarrow> reac_disco_sighting \<Rightarrow> u64 \<Rightarrow> reac_disco_gate_entry \<times> bool" where
  "gate_refresh e s now_ns =
     (if gate_news e s then
        (e\<lparr> ge_role := (if si_role s \<noteq> REAC_DISCO_ROLE_UNKNOWN then si_role s else ge_role e),
            ge_announced_slots := (if si_announced_slots s \<noteq> 0 then si_announced_slots s else ge_announced_slots e),
            ge_decl_key := (if decl_key_of s \<ge> 0 then decl_key_of s else ge_decl_key e),
            ge_last_push_ns := now_ns \<rparr>, True)
      else if now_ns < ge_last_push_ns e \<or> now_ns - ge_last_push_ns e \<ge> REAC_DISCO_REFRESH_NS
      then (e\<lparr> ge_last_push_ns := now_ns \<rparr>, True)
      else (e, False))"

definition reac_disco_gate_should_push ::
    "reac_disco_gate \<Rightarrow> reac_disco_sighting \<Rightarrow> u64 \<Rightarrow> reac_disco_gate \<times> bool" where
  "reac_disco_gate_should_push g s now_ns =
     (case find_index (\<lambda>e. ge_mac e = si_mac s) g of
        Some i \<Rightarrow> (let (e, push) = gate_refresh (g ! i) s now_ns in (g[i := e], push))
      | None \<Rightarrow>
          if length g \<ge> REAC_DISCO_MAX then (g, False)
          else (g @ [\<lparr> ge_mac = si_mac s, ge_role = si_role s, ge_decl_key = decl_key_of s,
                       ge_announced_slots = si_announced_slots s, ge_last_push_ns = now_ns \<rparr>], True))"

section \<open>The table of stations\<close>

record reac_disco_entry =
  de_mac :: mac
  de_role :: reac_disco_role
  de_has_decl :: bool
  de_decl_in :: u8
  de_decl_out :: u8
  de_family :: u8
  de_announced_slots :: u8
  de_channels :: nat
  de_owned :: bool
  de_frames :: u32
  de_first_seen_ns :: u64
  de_last_seen_ns :: u64

record reac_disco_table =
  dt_e :: "reac_disco_entry list"
  dt_overflowed :: bool
  dt_seq :: u32

definition reac_disco_table_init :: reac_disco_table where
  "reac_disco_table_init = \<lparr> dt_e = [], dt_overflowed = False, dt_seq = 0 \<rparr>"

definition entry_new :: "reac_disco_sighting \<Rightarrow> bool \<Rightarrow> u64 \<Rightarrow> reac_disco_entry" where
  "entry_new s owned now_ns =
     \<lparr> de_mac = si_mac s, de_role = si_role s, de_has_decl = si_has_decl s, de_decl_in = si_decl_in s,
       de_decl_out = si_decl_out s, de_family = si_family s, de_announced_slots = si_announced_slots s,
       de_channels = si_channels s, de_owned = owned, de_frames = 1, de_first_seen_ns = now_ns,
       de_last_seen_ns = now_ns \<rparr>"

text \<open>The fields a known station's sighting updates, in the order of the code, and whether one changed.\<close>

definition entry_seen :: "reac_disco_entry \<Rightarrow> u64 \<Rightarrow> reac_disco_entry" where
  "entry_seen e now_ns = e\<lparr> de_last_seen_ns := now_ns,
     de_frames := (if de_frames e \<noteq> 0xffffffff then de_frames e + 1 else de_frames e) \<rparr>"

definition role_moves :: "reac_disco_entry \<Rightarrow> reac_disco_sighting \<Rightarrow> bool" where
  "role_moves e s \<longleftrightarrow> si_role s \<noteq> REAC_DISCO_ROLE_UNKNOWN \<and> de_role e \<noteq> si_role s \<and>
     \<not> (de_role e = REAC_DISCO_ROLE_BOX \<and> si_role s = REAC_DISCO_ROLE_MASTER)"

definition decl_moves :: "reac_disco_entry \<Rightarrow> reac_disco_sighting \<Rightarrow> bool" where
  "decl_moves e s \<longleftrightarrow> si_has_decl s \<and>
     (\<not> de_has_decl e \<or> de_decl_in e \<noteq> si_decl_in s \<or> de_decl_out e \<noteq> si_decl_out s)"

definition slots_move :: "reac_disco_entry \<Rightarrow> reac_disco_sighting \<Rightarrow> bool" where
  "slots_move e s \<longleftrightarrow> si_announced_slots s \<noteq> 0 \<and> de_announced_slots e \<noteq> si_announced_slots s"

definition family_moves :: "reac_disco_entry \<Rightarrow> reac_disco_sighting \<Rightarrow> bool" where
  "family_moves e s \<longleftrightarrow> si_family s \<noteq> 0 \<and> de_family e \<noteq> si_family s"

definition entry_update :: "reac_disco_entry \<Rightarrow> reac_disco_sighting \<Rightarrow> bool \<Rightarrow> u64 \<Rightarrow> reac_disco_entry \<times> bool" where
  "entry_update e0 s owned now_ns =
     (let e = entry_seen e0 now_ns;
          c1 = role_moves e s; c2 = decl_moves e s; c3 = slots_move e s; c4 = family_moves e s;
          c5 = (si_channels s > de_channels e); c6 = (owned \<and> \<not> de_owned e);
          e = (if c1 then e\<lparr> de_role := si_role s \<rparr> else e);
          e = (if c2 then e\<lparr> de_has_decl := True, de_decl_in := si_decl_in s, de_decl_out := si_decl_out s \<rparr> else e);
          e = (if c3 then e\<lparr> de_announced_slots := si_announced_slots s \<rparr> else e);
          e = (if c4 then e\<lparr> de_family := si_family s \<rparr> else e);
          e = (if c5 then e\<lparr> de_channels := si_channels s \<rparr> else e);
          e = (if c6 then e\<lparr> de_owned := True \<rparr> else e)
      in (e, c1 \<or> c2 \<or> c3 \<or> c4 \<or> c5 \<or> c6))"

definition reac_disco_table_observe ::
    "reac_disco_table \<Rightarrow> reac_disco_sighting \<Rightarrow> bool \<Rightarrow> u64 \<Rightarrow> reac_disco_table \<times> bool" where
  "reac_disco_table_observe t s owned now_ns =
     (case find_index (\<lambda>e. de_mac e = si_mac s) (dt_e t) of
        Some i \<Rightarrow>
          (let (e, changed) = entry_update (dt_e t ! i) s owned now_ns;
               t = t\<lparr> dt_e := (dt_e t)[i := e] \<rparr>
           in (if changed then t\<lparr> dt_seq := dt_seq t + 1 \<rparr> else t, changed))
      | None \<Rightarrow>
          if length (dt_e t) \<ge> REAC_DISCO_MAX
          then (if \<not> dt_overflowed t then t\<lparr> dt_overflowed := True, dt_seq := dt_seq t + 1 \<rparr> else t, False)
          else (t\<lparr> dt_e := dt_e t @ [entry_new s owned now_ns], dt_seq := dt_seq t + 1 \<rparr>, True))"

definition entry_stale :: "u64 \<Rightarrow> reac_disco_entry \<Rightarrow> bool" where
  "entry_stale now_ns e \<longleftrightarrow> now_ns > de_last_seen_ns e \<and> now_ns - de_last_seen_ns e > REAC_DISCO_STALE_NS"

text \<open>The ageing loop: a stale entry is replaced by the last one, and the index stays.\<close>

function age_loop :: "u64 \<Rightarrow> nat \<Rightarrow> reac_disco_entry list \<Rightarrow> nat \<Rightarrow> reac_disco_entry list \<times> nat" where
  "age_loop now_ns i es removed =
     (if i < length es
      then if entry_stale now_ns (es ! i) then age_loop now_ns i (butlast (es[i := last es])) (removed + 1)
           else age_loop now_ns (i + 1) es removed
      else (es, removed))"
  by pat_completeness auto

termination
  by (relation "measure (\<lambda>(now_ns, i, es, removed). length es - i)") auto

definition reac_disco_table_age :: "reac_disco_table \<Rightarrow> u64 \<Rightarrow> reac_disco_table \<times> nat" where
  "reac_disco_table_age t now_ns =
     (let (es, removed) = age_loop now_ns 0 (dt_e t) 0;
          t = t\<lparr> dt_e := es \<rparr>
      in (if removed \<noteq> 0 then t\<lparr> dt_seq := dt_seq t + 1 \<rparr> else t, removed))"

section \<open>The table as JSON\<close>

definition hex_char :: "nat \<Rightarrow> char" where
  "hex_char d = (if d < 10 then digit_char d else char_of (87 + d))"

definition hex02 :: "u8 \<Rightarrow> string" where
  "hex02 b = [hex_char (unat b div 16), hex_char (unat b mod 16)]"

definition dec_nat :: "nat \<Rightarrow> string" where
  "dec_nat n = map digit_char (rev (write_uint_tmp n))"

definition mac_string :: "mac \<Rightarrow> string" where
  "mac_string m = hex02 (m ! 0) @ '':'' @ hex02 (m ! 1) @ '':'' @ hex02 (m ! 2) @ '':'' @ hex02 (m ! 3)
     @ '':'' @ hex02 (m ! 4) @ '':'' @ hex02 (m ! 5)"

definition put :: "nat \<Rightarrow> string \<Rightarrow> string \<Rightarrow> string option" where
  "put cap s buf = (if length s \<ge> cap - length buf then None else Some (buf @ s))"

fun family_of_code :: "nat \<Rightarrow> reac_box_family" where
  "family_of_code f = (if f = 1 then REAC_BOX_FAMILY_S0808 else if f = 2 then REAC_BOX_FAMILY_S1608
     else if f = 3 then REAC_BOX_FAMILY_S4000S else REAC_BOX_FAMILY_UNKNOWN)"

definition json_model :: "reac_disco_entry \<Rightarrow> string \<times> string" where
  "json_model e =
     (case (if de_has_decl e
            then reac_box_name (family_of_code (unat (de_family e))) None (uint (de_decl_in e)) (uint (de_decl_out e))
                   REAC_BOX_NAME_MAX REAC_BOX_NAME_TOKEN_MAX REAC_BOX_NAME_DISPLAY_MAX
            else None) of
        Some (nm, tok, disp) \<Rightarrow>
          ('',\"model\":\"'' @ tok @ ''\"'',
           '',\"width\":\"'' @ dec_nat (unat (de_decl_in e)) @ ''x'' @ dec_nat (unat (de_decl_out e)) @ ''\"'')
      | None \<Rightarrow> ('',\"model\":\"unknown\"'', '',\"width\":\"0x0\"''))"

definition json_entry :: "nat \<Rightarrow> u64 \<Rightarrow> bool \<Rightarrow> reac_disco_entry \<Rightarrow> string \<Rightarrow> string option" where
  "json_entry cap now_ns first e buf =
     (let age_ns = (if now_ns > de_last_seen_ns e then now_ns - de_last_seen_ns e else 0) in
      Option.bind (put cap ((if first then '''' else '','') @ ''{\"mac\":\"'' @ mac_string (de_mac e) @ ''\"'') buf)
        (\<lambda>buf. Option.bind (put cap ('',\"role\":\"'' @ reac_disco_role_name (de_role e) @ ''\"'') buf)
        (\<lambda>buf. Option.bind (put cap (fst (json_model e)) buf)
        (\<lambda>buf. Option.bind (put cap (snd (json_model e)) buf)
        (\<lambda>buf. Option.bind (put cap ('',\"owned\":'' @ (if de_owned e then ''true'' else ''false'')) buf)
        (\<lambda>buf. put cap ('',\"age_ms\":'' @ dec_nat (unat age_ns div 1000000) @ ''}'') buf))))))"

fun json_entries :: "nat \<Rightarrow> u64 \<Rightarrow> bool \<Rightarrow> reac_disco_entry list \<Rightarrow> string \<Rightarrow> string option" where
  "json_entries cap now_ns first [] buf = Some buf"
| "json_entries cap now_ns first (e # es) buf =
     Option.bind (json_entry cap now_ns first e buf) (json_entries cap now_ns False es)"

definition reac_disco_table_json :: "reac_disco_table \<Rightarrow> u64 \<Rightarrow> nat \<Rightarrow> string option" where
  "reac_disco_table_json t now_ns cap =
     (if cap < 3 then None
      else Option.bind (put cap ''['' '''')
        (\<lambda>buf. Option.bind (json_entries cap now_ns True (dt_e t) buf)
        (\<lambda>buf. put cap '']'' buf)))"

section \<open>The table's invariant\<close>

declare age_loop.simps [simp del]

lemma mset_swap_last:
  assumes "i < length es"
  shows "mset (drop i (butlast (es[i := last es]))) + {#es ! i#} = mset (drop i es)"
    and "take i (butlast (es[i := last es])) = take i es"
proof -
  have s: "es = take i es @ es ! i # drop (Suc i) es" using assms by (simp add: id_take_nth_drop [symmetric])
  show "take i (butlast (es[i := last es])) = take i es"
    using assms by (intro nth_equalityI) (auto simp: nth_butlast)
  show "mset (drop i (butlast (es[i := last es]))) + {#es ! i#} = mset (drop i es)"
  proof (cases "drop (Suc i) es" rule: rev_cases)
    case Nil
    then have "Suc i = length es" using assms by simp
    then show ?thesis using assms by (simp add: Cons_nth_drop_Suc [symmetric] butlast_list_update)
  next
    case (snoc ys y)
    then have l: "last es = y" by (subst s) simp
    have "es[i := last es] = take i es @ y # ys @ [y]"
      using assms l snoc upd_conv_take_nth_drop [of i es y] by simp
    then have "butlast (es[i := last es]) = take i es @ y # ys" by (simp add: butlast_append)
    then show ?thesis using assms snoc by (simp add: Cons_nth_drop_Suc [symmetric])
  qed
qed

lemma age_loop_mset:
  "i \<le> length es \<Longrightarrow>
   mset (fst (age_loop now_ns i es r)) = mset (take i es) + filter_mset (\<lambda>e. \<not> entry_stale now_ns e) (mset (drop i es)) \<and>
   snd (age_loop now_ns i es r) = r + length (filter (entry_stale now_ns) (drop i es))"
proof (induction now_ns i es r rule: age_loop.induct)
  case (1 now_ns i es r)
  show ?case
  proof (cases "i < length es")
    case True
    have d: "drop i es = es ! i # drop (Suc i) es" using True by (simp add: Cons_nth_drop_Suc)
    show ?thesis
    proof (cases "entry_stale now_ns (es ! i)")
      case stale: True
      let ?es = "butlast (es[i := last es])"
      have m: "mset (drop i ?es) = mset (drop (Suc i) es)" and t: "take i ?es = take i es"
        using mset_swap_last [OF True] d by simp_all
      have "size (filter_mset (entry_stale now_ns) (mset (drop i ?es))) =
          size (filter_mset (entry_stale now_ns) (mset (drop (Suc i) es)))" using m by simp
      then have "length (filter (entry_stale now_ns) (drop i ?es)) = length (filter (entry_stale now_ns) (drop (Suc i) es))"
        by (simp flip: size_mset mset_filter)
      moreover have "i \<le> length ?es" using True by simp
      ultimately show ?thesis
        using 1(1) [OF True stale] m t stale True d by (subst (1 2) age_loop.simps) simp
    next
      case False
      then show ?thesis
        using 1(2) [OF True False] True d by (subst (1 2) age_loop.simps) (simp add: take_Suc_conv_app_nth)
    qed
  next
    case False
    then show ?thesis using 1(3) by (subst (1 2) age_loop.simps) simp
  qed
qed

lemma distinct_submset:
  assumes "mset xs \<subseteq># mset ys" and "distinct ys"
  shows "distinct xs"
  unfolding distinct_count_atmost_1
proof
  fix a
  have "count (mset xs) a \<le> count (mset ys) a" using assms(1) by (rule mset_subset_eq_count)
  also have "\<dots> \<le> 1" using assms(2) by (simp add: distinct_count_atmost_1)
  finally have "count (mset xs) a \<le> 1" .
  then show "count (mset xs) a = (if a \<in> set xs then 1 else 0)"
    by (cases "a \<in> set xs") (simp_all add: le_Suc_eq)
qed

definition table_inv :: "reac_disco_table \<Rightarrow> bool" where
  "table_inv t \<longleftrightarrow> distinct (map de_mac (dt_e t)) \<and> length (dt_e t) \<le> REAC_DISCO_MAX"

datatype disco_op = Disco_Observe reac_disco_sighting bool u64 | Disco_Age u64

fun disco_step :: "reac_disco_table \<Rightarrow> disco_op \<Rightarrow> reac_disco_table" where
  "disco_step t (Disco_Observe s owned now_ns) = fst (reac_disco_table_observe t s owned now_ns)"
| "disco_step t (Disco_Age now_ns) = fst (reac_disco_table_age t now_ns)"

lemma entry_update_mac [simp]: "de_mac (fst (entry_update e s owned now_ns)) = de_mac e"
  by (simp add: entry_update_def entry_seen_def Let_def)

lemma table_age_mset:
  "mset (dt_e (fst (reac_disco_table_age t now_ns))) = filter_mset (\<lambda>e. \<not> entry_stale now_ns e) (mset (dt_e t))"
  "snd (reac_disco_table_age t now_ns) = length (filter (entry_stale now_ns) (dt_e t))"
  using age_loop_mset [of 0 "dt_e t" now_ns 0]
  by (simp_all add: reac_disco_table_age_def split_beta Let_def)

lemma table_inv_observe:
  assumes "table_inv t"
  shows "table_inv (fst (reac_disco_table_observe t s owned now_ns))"
proof (cases "find_index (\<lambda>e. de_mac e = si_mac s) (dt_e t)")
  case None
  then have "\<forall>e \<in> set (dt_e t). de_mac e \<noteq> si_mac s" by (simp add: find_index_None)
  then show ?thesis using assms None
    by (auto simp: reac_disco_table_observe_def table_inv_def entry_new_def)
next
  case (Some i)
  have i: "i < length (dt_e t)" using find_index_SomeD [OF Some] by blast
  have "map de_mac ((dt_e t)[i := fst (entry_update (dt_e t ! i) s owned now_ns)]) = map de_mac (dt_e t)"
    using i by (simp add: map_update list_update_same_conv)
  then show ?thesis using assms Some
    by (simp add: reac_disco_table_observe_def table_inv_def split_beta Let_def)
qed

lemma table_inv_age:
  assumes "table_inv t"
  shows "table_inv (fst (reac_disco_table_age t now_ns))"
proof -
  let ?es = "dt_e (fst (reac_disco_table_age t now_ns))"
  have sub: "mset ?es \<subseteq># mset (dt_e t)" by (simp add: table_age_mset)
  then have "image_mset de_mac (mset ?es) \<subseteq># image_mset de_mac (mset (dt_e t))" by (rule image_mset_subseteq_mono)
  then have "mset (map de_mac ?es) \<subseteq># mset (map de_mac (dt_e t))" by simp
  then have "distinct (map de_mac ?es)"
    by (rule distinct_submset) (use assms in \<open>simp add: table_inv_def\<close>)
  moreover have "length ?es \<le> length (dt_e t)" using size_mset_mono [OF sub] by simp
  ultimately show ?thesis using assms by (simp add: table_inv_def)
qed

interpretation disco: invariant_machine disco_step table_inv "\<lambda>_. True"
proof
  fix t q
  assume "table_inv t"
  then show "table_inv (disco_step t q)"
    by (cases q) (simp_all add: table_inv_observe table_inv_age)
qed

definition disco_run :: "disco_op list \<Rightarrow> reac_disco_table" where
  "disco_run ops = foldl disco_step reac_disco_table_init ops"

lemma table_inv_run: "table_inv (disco_run ops)"
  unfolding disco_run_def by (rule disco.inv_run) (simp_all add: table_inv_def reac_disco_table_init_def list_all_iff)

text \<open>What a sighting does to a table that knows or can hold its sender.\<close>

lemma entry_update_fields:
  shows "de_last_seen_ns (fst (entry_update e s owned now_ns)) = now_ns"
    and "de_first_seen_ns (fst (entry_update e s owned now_ns)) = de_first_seen_ns e"
    and "de_role (fst (entry_update e s owned now_ns)) = (if role_moves e s then si_role s else de_role e)"
    and "de_channels (fst (entry_update e s owned now_ns)) = max (de_channels e) (si_channels s)"
  by (simp_all add: entry_update_def entry_seen_def Let_def role_moves_def)

lemma observe_known:
  assumes "find_index (\<lambda>e. de_mac e = si_mac s) (dt_e t) = Some i"
  shows "dt_e (fst (reac_disco_table_observe t s owned now_ns)) =
           (dt_e t)[i := fst (entry_update (dt_e t ! i) s owned now_ns)]"
    and "snd (reac_disco_table_observe t s owned now_ns) = snd (entry_update (dt_e t ! i) s owned now_ns)"
  using assms by (simp_all add: reac_disco_table_observe_def split_beta Let_def)

lemma observe_age_sound:
  assumes inv: "table_inv t"
  shows "
    (\<forall>e \<in> set (dt_e t). de_mac e \<noteq> si_mac s \<longrightarrow> e \<in> set (dt_e (fst (reac_disco_table_observe t s owned now)))) \<and>
    (\<forall>e' \<in> set (dt_e (fst (reac_disco_table_observe t s owned now))).
       e' \<in> set (dt_e t) \<and> de_mac e' \<noteq> si_mac s \<or>
       de_mac e' = si_mac s \<and> de_last_seen_ns e' = now \<and>
         (\<forall>e \<in> set (dt_e t). de_mac e = si_mac s \<longrightarrow> de_role e = REAC_DISCO_ROLE_BOX \<longrightarrow> de_role e' \<noteq> REAC_DISCO_ROLE_MASTER)) \<and>
    (si_mac s \<in> de_mac ` set (dt_e (fst (reac_disco_table_observe t s owned now))) \<or>
       length (dt_e t) = 8 \<and> dt_e (fst (reac_disco_table_observe t s owned now)) = dt_e t \<and>
       dt_overflowed (fst (reac_disco_table_observe t s owned now))) \<and>
    mset (dt_e (fst (reac_disco_table_age t now))) = filter_mset (\<lambda>e. \<not> entry_stale now e) (mset (dt_e t)) \<and>
    snd (reac_disco_table_age t now) = length (filter (entry_stale now) (dt_e t))"
proof -
  have dist: "distinct (map de_mac (dt_e t))" and len: "length (dt_e t) \<le> 8" using inv by (simp_all add: table_inv_def)
  show ?thesis
  proof (cases "find_index (\<lambda>e. de_mac e = si_mac s) (dt_e t)")
    case None
    then have "\<forall>e \<in> set (dt_e t). de_mac e \<noteq> si_mac s" by (simp add: find_index_None)
    then show ?thesis using inv None len table_age_mset [of t now]
      by (auto simp: reac_disco_table_observe_def entry_new_def)
  next
    case (Some i)
    have i: "i < length (dt_e t)" "de_mac (dt_e t ! i) = si_mac s" using find_index_SomeD [OF Some] by simp_all
    let ?e = "fst (entry_update (dt_e t ! i) s owned now)"
    have only: "e = dt_e t ! i" if "e \<in> set (dt_e t)" "de_mac e = si_mac s" for e
      using that i dist by (metis distinct_map inj_onD nth_mem)
    have es: "dt_e (fst (reac_disco_table_observe t s owned now)) = (dt_e t)[i := ?e]" by (rule observe_known [OF Some])
    have kept: "e \<in> set ((dt_e t)[i := ?e])" if "e \<in> set (dt_e t)" "de_mac e \<noteq> si_mac s" for e
      using that i by (metis in_set_conv_nth length_list_update nth_list_update_neq)
    have bk: "e' = ?e \<or> e' \<in> set (dt_e t) \<and> de_mac e' \<noteq> si_mac s" if a: "e' \<in> set ((dt_e t)[i := ?e])" for e'
    proof -
      obtain j where j: "j < length (dt_e t)" "e' = (dt_e t)[i := ?e] ! j" using a by (auto simp: in_set_conv_nth)
      show ?thesis
      proof (cases "j = i")
        case False
        then have "de_mac (dt_e t ! j) \<noteq> de_mac (dt_e t ! i)"
          using dist i j nth_eq_iff_index_eq [of "map de_mac (dt_e t)" j i] by simp
        then show ?thesis using j i False by simp
      qed (use j in simp)
    qed
    have role: "de_role ?e \<noteq> REAC_DISCO_ROLE_MASTER" if "de_role (dt_e t ! i) = REAC_DISCO_ROLE_BOX"
      using that by (simp add: entry_update_fields role_moves_def)
    have mem: "?e \<in> set ((dt_e t)[i := ?e])" using i by (simp add: set_update_memI)
    have new: "de_mac ?e = si_mac s" "de_last_seen_ns ?e = now" using i(2) by (simp_all add: entry_update_fields)
    have img: "si_mac s \<in> de_mac ` set ((dt_e t)[i := ?e])" using mem new(1) by (metis imageI)
    have old: "de_role e = REAC_DISCO_ROLE_BOX \<Longrightarrow> de_role ?e \<noteq> REAC_DISCO_ROLE_MASTER"
      if "e \<in> set (dt_e t)" "de_mac e = si_mac s" for e
      using role only [OF that] by simp
    show ?thesis
      unfolding es
    proof (intro conjI ballI impI)
      fix e' assume "e' \<in> set ((dt_e t)[i := ?e])"
      from bk [OF this] show "e' \<in> set (dt_e t) \<and> de_mac e' \<noteq> si_mac s \<or>
          de_mac e' = si_mac s \<and> de_last_seen_ns e' = now \<and>
          (\<forall>e \<in> set (dt_e t). de_mac e = si_mac s \<longrightarrow> de_role e = REAC_DISCO_ROLE_BOX \<longrightarrow> de_role e' \<noteq> REAC_DISCO_ROLE_MASTER)"
        using new old by blast
    qed (use kept img table_age_mset [of t now] in simp_all)
  qed
qed

text \<open>C27: after any history of sightings and ageings the table holds at most eight stations, each under
  one address. A sighting touches no other station: its sender, when known, is marked seen now and
  never turns from box to master; a new one is entered while there is room and otherwise only the
  overflow flag is raised. Ageing removes exactly the stations silent for more than five seconds and
  counts them.\<close>

theorem disco_table_sound:
  "table_inv (disco_run ops) \<and>
    (\<forall>e \<in> set (dt_e (disco_run ops)). de_mac e \<noteq> si_mac s \<longrightarrow> e \<in> set (dt_e (fst (reac_disco_table_observe (disco_run ops) s owned now)))) \<and>
    (\<forall>e' \<in> set (dt_e (fst (reac_disco_table_observe (disco_run ops) s owned now))).
       e' \<in> set (dt_e (disco_run ops)) \<and> de_mac e' \<noteq> si_mac s \<or>
       de_mac e' = si_mac s \<and> de_last_seen_ns e' = now \<and>
         (\<forall>e \<in> set (dt_e (disco_run ops)). de_mac e = si_mac s \<longrightarrow> de_role e = REAC_DISCO_ROLE_BOX \<longrightarrow> de_role e' \<noteq> REAC_DISCO_ROLE_MASTER)) \<and>
    (si_mac s \<in> de_mac ` set (dt_e (fst (reac_disco_table_observe (disco_run ops) s owned now))) \<or>
       length (dt_e (disco_run ops)) = 8 \<and> dt_e (fst (reac_disco_table_observe (disco_run ops) s owned now)) = dt_e (disco_run ops) \<and>
       dt_overflowed (fst (reac_disco_table_observe (disco_run ops) s owned now))) \<and>
    mset (dt_e (fst (reac_disco_table_age (disco_run ops) now))) = filter_mset (\<lambda>e. \<not> entry_stale now e) (mset (dt_e (disco_run ops))) \<and>
    snd (reac_disco_table_age (disco_run ops) now) = length (filter (entry_stale now) (dt_e (disco_run ops)))"
  using table_inv_run [of ops] observe_age_sound [OF table_inv_run] by (intro conjI) blast+

definition wit_sighting :: reac_disco_sighting where
  "wit_sighting = \<lparr> si_mac = [0, 64, 171, 1, 2, 3], si_role = REAC_DISCO_ROLE_BOX, si_has_decl = False, si_decl_in = 0,
     si_decl_out = 0, si_family = 0, si_announced_slots = 0, si_channels = 8 \<rparr>"

theorem disco_table_sound_witness:
  "table_inv (disco_run [Disco_Observe wit_sighting False 5]) \<and>
   snd (reac_disco_table_age (disco_run [Disco_Observe wit_sighting False 5]) 5000000006) = 1 \<and>
   de_mac (entry_new wit_sighting False 5) = si_mac wit_sighting"
  using disco_table_sound [of "[Disco_Observe wit_sighting False 5]" wit_sighting False 5000000006]
  by (simp add: disco_run_def reac_disco_table_init_def reac_disco_table_observe_def wit_sighting_def entry_new_def entry_stale_def)

section \<open>The JSON form fits\<close>

lemma put_some: "length buf + length s < cap \<Longrightarrow> put cap s buf = Some (buf @ s)"
  by (simp add: put_def)

lemma length_dec_nat: "n < 10 ^ k \<Longrightarrow> 0 < k \<Longrightarrow> length (dec_nat n) \<le> k"
  by (simp add: dec_nat_def write_uint_tmp_length)

lemma length_mac_string [simp]: "length (mac_string m) = 17"
  by (simp add: mac_string_def hex02_def)

lemma length_stem: "length (stem_of f None) \<le> 7"
  by (cases f) (simp_all add: stem_of_def)

lemma length_json_model: "length (fst (json_model e)) \<le> 34" "length (snd (json_model e)) \<le> 18"
proof -
  have b: "length (dec_nat (unat b)) \<le> 3" for b :: u8
    using unsigned_less [of b, where ?'a = nat] by (intro length_dec_nat) simp_all
  show "length (fst (json_model e)) \<le> 34"
    by (auto simp: json_model_def split: option.splits prod.splits if_splits dest!: box_name_token_length)
  show "length (snd (json_model e)) \<le> 18"
    using b [of "de_decl_in e"] b [of "de_decl_out e"] by (auto simp: json_model_def split: option.splits prod.splits)
qed

text \<open>One entry takes at most 140 characters.\<close>

lemma json_entry_fits:
  assumes "length buf + 140 < cap"
  obtains out where "json_entry cap now_ns first e buf = Some out" and "length out \<le> length buf + 140"
proof -
  let ?age = "unat (if now_ns > de_last_seen_ns e then now_ns - de_last_seen_ns e else 0) div 1000000"
  have "unat x div 1000000 < 10 ^ 14" for x :: u64
    using unsigned_less [of x, where ?'a = nat] by simp
  then have age: "length (dec_nat ?age) \<le> 14" by (intro length_dec_nat) simp_all
  have role: "length (reac_disco_role_name (de_role e)) \<le> 7" by (cases "de_role e") simp_all
  let ?out = "buf @ ((if first then '''' else '','') @ ''{\"mac\":\"'' @ mac_string (de_mac e) @ ''\"'')
     @ ('',\"role\":\"'' @ reac_disco_role_name (de_role e) @ ''\"'') @ fst (json_model e) @ snd (json_model e)
     @ ('',\"owned\":'' @ (if de_owned e then ''true'' else ''false'')) @ ('',\"age_ms\":'' @ dec_nat ?age @ ''}'')"
  have "length ?out \<le> length buf + 140" using age role length_json_model [of e] by simp
  moreover have "json_entry cap now_ns first e buf = Some ?out"
    using assms age role length_json_model [of e] by (simp add: json_entry_def Let_def put_some)
  ultimately show ?thesis using that by blast
qed

lemma json_entries_fit:
  assumes "length buf + 140 * length es < cap"
  shows "\<exists>out. json_entries cap now_ns first es buf = Some out \<and> length out \<le> length buf + 140 * length es"
  using assms
proof (induction es arbitrary: first buf)
  case (Cons e es)
  have "length buf + 140 < cap" using Cons.prems by simp
  then obtain b where b: "json_entry cap now_ns first e buf = Some b" "length b \<le> length buf + 140" by (rule json_entry_fits)
  then show ?case using Cons.IH [of b False] Cons.prems by auto
qed simp

lemma put_prefix: "put cap s buf = Some out \<Longrightarrow> \<exists>x. out = buf @ x"
  by (auto simp: put_def split: if_splits)

lemma json_entries_prefix: "json_entries cap now_ns first es buf = Some out \<Longrightarrow> \<exists>x. out = buf @ x"
proof (induction es arbitrary: first buf)
  case (Cons e es)
  then obtain b where b: "json_entry cap now_ns first e buf = Some b" "json_entries cap now_ns False es b = Some out"
    by (auto split: Option.bind_splits)
  from b(1) have "\<exists>x. b = buf @ x"
    unfolding json_entry_def Let_def by (auto split: Option.bind_splits dest!: put_prefix)
  then show ?case using Cons.IH [OF b(2)] by auto
qed simp

text \<open>The buffer size the header promises is enough: after any history the table prints into 1280
  bytes, and what is printed is one bracketed text that, with its terminator, fits.\<close>

theorem disco_json_fits:
  "\<exists>js. reac_disco_table_json (disco_run ops) now REAC_DISCO_JSON_MAX = Some js \<and>
     length js < REAC_DISCO_JSON_MAX \<and> hd js = CHR ''['' \<and> last js = CHR '']''"
proof -
  let ?t = "disco_run ops"
  have n: "length (dt_e ?t) \<le> 8" using table_inv_run [of ops] by (simp add: table_inv_def)
  have p: "put 1280 ''['' '''' = Some ''[''" by (simp add: put_def)
  have "length ''['' + 140 * length (dt_e ?t) < 1280" using n by simp
  from json_entries_fit [OF this, of now True]
  obtain b where b: "json_entries 1280 now True (dt_e ?t) ''['' = Some b" "length b \<le> 1 + 140 * length (dt_e ?t)" by auto
  then have "put 1280 '']'' b = Some (b @ '']'')" using n by (simp add: put_def)
  moreover have "hd (b @ '']'') = CHR ''[''" using json_entries_prefix [OF b(1)] by auto
  ultimately show ?thesis using b n by (simp add: reac_disco_table_json_def p)
qed

end
