(* ===== verification/Reac_Role.thy ===== *)
theory Reac_Role
  imports Main
begin

text \<open>
  Roles and what the operator asked for: \<^verbatim>\<open>include/reac/reac_role.h\<close>. A parser's result is the
  value written with return code 0, \<open>None\<close> for -1; a null string is \<open>None\<close>.
\<close>

datatype reac_role = REAC_ROLE_MASTER | REAC_ROLE_SLAVE

datatype reac_role_intent =
    REAC_ROLE_INTENT_AUTO | REAC_ROLE_INTENT_MASTER | REAC_ROLE_INTENT_SLAVE
  | REAC_ROLE_INTENT_TAP | REAC_ROLE_INTENT_BOX

definition reac_role_parse :: "string option \<Rightarrow> reac_role option" where
  "reac_role_parse s =
     (if s = Some ''master'' then Some REAC_ROLE_MASTER
      else if s = Some ''slave'' then Some REAC_ROLE_SLAVE
      else None)"

definition reac_role_name :: "reac_role \<Rightarrow> string" where
  "reac_role_name r = (if r = REAC_ROLE_SLAVE then ''slave'' else ''master'')"

definition reac_role_intent_explicit_only :: "reac_role_intent \<Rightarrow> bool" where
  "reac_role_intent_explicit_only i \<longleftrightarrow> i = REAC_ROLE_INTENT_TAP \<or> i = REAC_ROLE_INTENT_BOX"

definition reac_role_intent_transmits :: "reac_role_intent \<Rightarrow> bool" where
  "reac_role_intent_transmits i \<longleftrightarrow> i \<noteq> REAC_ROLE_INTENT_TAP"

definition reac_role_intent_parse :: "string option \<Rightarrow> reac_role_intent option" where
  "reac_role_intent_parse s =
     (if s = Some ''auto'' then Some REAC_ROLE_INTENT_AUTO
      else if s = Some ''master'' then Some REAC_ROLE_INTENT_MASTER
      else if s = Some ''slave'' then Some REAC_ROLE_INTENT_SLAVE
      else if s = Some ''tap'' then Some REAC_ROLE_INTENT_TAP
      else if s = Some ''box'' then Some REAC_ROLE_INTENT_BOX
      else None)"

fun reac_role_intent_name :: "reac_role_intent \<Rightarrow> string" where
  "reac_role_intent_name REAC_ROLE_INTENT_MASTER = ''master''"
| "reac_role_intent_name REAC_ROLE_INTENT_SLAVE = ''slave''"
| "reac_role_intent_name REAC_ROLE_INTENT_TAP = ''tap''"
| "reac_role_intent_name REAC_ROLE_INTENT_BOX = ''box''"
| "reac_role_intent_name REAC_ROLE_INTENT_AUTO = ''auto''"

definition reac_role_from_intent :: "reac_role_intent \<Rightarrow> reac_role" where
  "reac_role_from_intent i =
     (if i = REAC_ROLE_INTENT_SLAVE \<or> i = REAC_ROLE_INTENT_BOX then REAC_ROLE_SLAVE else REAC_ROLE_MASTER)"

definition reac_role_validate :: "reac_role \<Rightarrow> bool \<Rightarrow> int" where
  "reac_role_validate r have_tx = (if r = REAC_ROLE_SLAVE \<and> \<not> have_tx then - 1 else 0)"

lemma reac_role_parse_name: "reac_role_parse (Some s) = Some r \<longleftrightarrow> s = reac_role_name r"
  by (cases r) (auto simp: reac_role_parse_def reac_role_name_def)

lemma reac_role_intent_parse_name:
  "reac_role_intent_parse (Some s) = Some i \<longleftrightarrow> s = reac_role_intent_name i"
  by (cases i) (auto simp: reac_role_intent_parse_def)

text \<open>Every role name is also an intent, and it resolves to that role.\<close>

lemma role_name_is_intent:
  "\<exists>i. reac_role_intent_parse (Some (reac_role_name r)) = Some i \<and> reac_role_from_intent i = r"
  by (cases r) (auto simp: reac_role_intent_parse_def reac_role_name_def reac_role_from_intent_def)

end
