(* ===== verification/Reac_Clock.thy ===== *)
theory Reac_Clock
  imports Complex_Main Reac_Prelude Reac_Role
begin

text \<open>
  Which clock paces the wire and how it is followed: \<^verbatim>\<open>src/reac_clock.c\<close>. A \<^verbatim>\<open>double\<close> is a real
  number, without rounding; a measurement is an \<open>option\<close>, whose \<open>None\<close> is the NaN that fails
  both comparisons of the sanity test. A text written by \<^verbatim>\<open>snprintf(out, cap, ...)\<close> is cut at
  \<open>cap - 1\<close> characters. The 64-bit event counts are naturals. The tables indexed by a source are functions of it.
\<close>

datatype reac_clock_source =
    REAC_CLOCK_SRC_FREERUN | REAC_CLOCK_SRC_BOX | REAC_CLOCK_SRC_GRAPH | REAC_CLOCK_SRC_PHC | REAC_CLOCK_SRC_WIRE

fun src_code :: "reac_clock_source \<Rightarrow> nat" where
  "src_code REAC_CLOCK_SRC_FREERUN = 0"
| "src_code REAC_CLOCK_SRC_BOX = 1"
| "src_code REAC_CLOCK_SRC_GRAPH = 2"
| "src_code REAC_CLOCK_SRC_PHC = 3"
| "src_code REAC_CLOCK_SRC_WIRE = 4"

datatype reac_clock_quality =
    REAC_CLOCK_Q_UNUSABLE | REAC_CLOCK_Q_MARGINAL | REAC_CLOCK_Q_UNGRADED | REAC_CLOCK_Q_GOOD
  | REAC_CLOCK_Q_DESIGNATED

fun q_code :: "reac_clock_quality \<Rightarrow> nat" where
  "q_code REAC_CLOCK_Q_UNUSABLE = 0"
| "q_code REAC_CLOCK_Q_MARGINAL = 1"
| "q_code REAC_CLOCK_Q_UNGRADED = 2"
| "q_code REAC_CLOCK_Q_GOOD = 3"
| "q_code REAC_CLOCK_Q_DESIGNATED = 4"

text \<open>The enumeration's order is the order of its codes.\<close>

instantiation reac_clock_quality :: linorder
begin

definition less_eq_reac_clock_quality :: "reac_clock_quality \<Rightarrow> reac_clock_quality \<Rightarrow> bool" where
  "less_eq_reac_clock_quality a b \<longleftrightarrow> q_code a \<le> q_code b"

definition less_reac_clock_quality :: "reac_clock_quality \<Rightarrow> reac_clock_quality \<Rightarrow> bool" where
  "less_reac_clock_quality a b \<longleftrightarrow> q_code a < q_code b"

instance
proof
  fix a b c :: reac_clock_quality
  show "a \<le> b \<Longrightarrow> b \<le> a \<Longrightarrow> a = b"
    by (cases a; cases b) (simp_all add: less_eq_reac_clock_quality_def)
qed (auto simp: less_eq_reac_clock_quality_def less_reac_clock_quality_def)

end

datatype reac_clock_stability = REAC_CLOCK_STAB_UNKNOWN | REAC_CLOCK_STAB_STABLE | REAC_CLOCK_STAB_UNSTABLE
datatype reac_clock_state = REAC_CLOCK_UNLOCKED | REAC_CLOCK_LOCKING | REAC_CLOCK_LOCKED | REAC_CLOCK_HOLDOVER

section \<open>Choosing a source\<close>

definition master_hier :: "reac_clock_source list" where
  "master_hier = [REAC_CLOCK_SRC_PHC, REAC_CLOCK_SRC_GRAPH, REAC_CLOCK_SRC_BOX]"

definition slave_hier :: "reac_clock_source list" where
  "slave_hier = [REAC_CLOCK_SRC_WIRE]"

definition reac_clock_hierarchy :: "reac_role \<Rightarrow> reac_clock_source list" where
  "reac_clock_hierarchy role = (if role = REAC_ROLE_SLAVE then slave_hier else master_hier)"

definition reac_clock_select_graded ::
    "reac_role \<Rightarrow> u32 \<Rightarrow> (reac_clock_source \<Rightarrow> reac_clock_quality) option \<Rightarrow> reac_clock_quality \<Rightarrow> reac_clock_source" where
  "reac_clock_select_graded role avail q min_q =
     (case List.find (\<lambda>h. avail AND push_bit (src_code h) 1 \<noteq> 0 \<and>
                          \<not> (case q of Some f \<Rightarrow> f h < min_q | None \<Rightarrow> False))
             (reac_clock_hierarchy role) of
        Some h \<Rightarrow> h
      | None \<Rightarrow> REAC_CLOCK_SRC_FREERUN)"

definition reac_clock_select :: "reac_role \<Rightarrow> u32 \<Rightarrow> reac_clock_source" where
  "reac_clock_select role avail = reac_clock_select_graded role avail None REAC_CLOCK_Q_UNUSABLE"

fun reac_clock_source_name :: "reac_clock_source \<Rightarrow> string" where
  "reac_clock_source_name REAC_CLOCK_SRC_WIRE = ''master cadence''"
| "reac_clock_source_name REAC_CLOCK_SRC_PHC = ''NIC/external PHC''"
| "reac_clock_source_name REAC_CLOCK_SRC_GRAPH = ''graph clock''"
| "reac_clock_source_name REAC_CLOCK_SRC_BOX = ''box counter slope''"
| "reac_clock_source_name REAC_CLOCK_SRC_FREERUN = ''host monotonic clock''"

fun reac_clock_quality_name :: "reac_clock_quality \<Rightarrow> string" where
  "reac_clock_quality_name REAC_CLOCK_Q_UNUSABLE = ''unusable''"
| "reac_clock_quality_name REAC_CLOCK_Q_MARGINAL = ''marginal''"
| "reac_clock_quality_name REAC_CLOCK_Q_UNGRADED = ''ungraded''"
| "reac_clock_quality_name REAC_CLOCK_Q_GOOD = ''good''"
| "reac_clock_quality_name REAC_CLOCK_Q_DESIGNATED = ''operator-designated''"

fun reac_clock_stability_name :: "reac_clock_stability \<Rightarrow> string" where
  "reac_clock_stability_name REAC_CLOCK_STAB_UNKNOWN = ''unknown''"
| "reac_clock_stability_name REAC_CLOCK_STAB_STABLE = ''stable''"
| "reac_clock_stability_name REAC_CLOCK_STAB_UNSTABLE = ''unstable''"

fun reac_clock_state_name :: "reac_clock_state \<Rightarrow> string" where
  "reac_clock_state_name REAC_CLOCK_UNLOCKED = ''unlocked''"
| "reac_clock_state_name REAC_CLOCK_LOCKING = ''locking''"
| "reac_clock_state_name REAC_CLOCK_LOCKED = ''locked''"
| "reac_clock_state_name REAC_CLOCK_HOLDOVER = ''holdover''"

definition reac_clock_quality_can_own :: "reac_clock_quality \<Rightarrow> bool" where
  "reac_clock_quality_can_own q \<longleftrightarrow> q \<ge> REAC_CLOCK_Q_UNGRADED"

section \<open>The loop filter\<close>

abbreviation (input) REAC_DLL_KP :: real where "REAC_DLL_KP \<equiv> 1 / 4"
abbreviation (input) REAC_DLL_MAX_PPM :: real where "REAC_DLL_MAX_PPM \<equiv> 200"
abbreviation (input) REAC_DLL_SLEW_PPM :: real where "REAC_DLL_SLEW_PPM \<equiv> 10"
abbreviation (input) REAC_DLL_SANE_PPM :: real where "REAC_DLL_SANE_PPM \<equiv> 2000"
abbreviation (input) REAC_DLL_LOCK_PPM :: real where "REAC_DLL_LOCK_PPM \<equiv> 2"
abbreviation (input) REAC_DLL_LOCK_UPDATES :: int where "REAC_DLL_LOCK_UPDATES \<equiv> 4"
abbreviation (input) REAC_DLL_RESID_ALPHA :: real where "REAC_DLL_RESID_ALPHA \<equiv> 1 / 10"
abbreviation (input) REAC_DLL_STAB_ALPHA :: real where "REAC_DLL_STAB_ALPHA \<equiv> 2 / 100"
abbreviation (input) REAC_DLL_STAB_MIN_N :: nat where "REAC_DLL_STAB_MIN_N \<equiv> 32"
abbreviation (input) REAC_DLL_STABLE_PPM :: real where "REAC_DLL_STABLE_PPM \<equiv> 1 / 2"
abbreviation (input) REAC_DLL_UNSTABLE_PPM :: real where "REAC_DLL_UNSTABLE_PPM \<equiv> 4"

record reac_dll =
  dl_nominal_ns :: int
  dl_applied_ppm :: real
  dl_last_residual :: real
  dl_resid_ema :: real
  dl_resid_mean :: real
  dl_resid_var :: real
  dl_stab_n :: nat
  dl_stab_verdict :: reac_clock_stability
  dl_updates :: nat
  dl_rejected :: nat
  dl_clamped :: nat

definition reac_dll_init :: "int \<Rightarrow> reac_dll" where
  "reac_dll_init nominal_period_ns =
     \<lparr> dl_nominal_ns = nominal_period_ns, dl_applied_ppm = 0, dl_last_residual = 0, dl_resid_ema = 0,
       dl_resid_mean = 0, dl_resid_var = 0, dl_stab_n = 0, dl_stab_verdict = REAC_CLOCK_STAB_UNKNOWN,
       dl_updates = 0, dl_rejected = 0, dl_clamped = 0 \<rparr>"

definition clamp :: "real \<Rightarrow> real \<Rightarrow> real" where
  "clamp m x = (if x > m then m else if x < - m then - m else x)"

text \<open>The control part of an update: residual, clamped target, slewed step, smoothed residual.\<close>

definition dll_track :: "reac_dll \<Rightarrow> real \<Rightarrow> reac_dll" where
  "dll_track d measured =
     (let residual = measured - dl_applied_ppm d;
          target = dl_applied_ppm d + REAC_DLL_KP * residual;
          clamped = (target > REAC_DLL_MAX_PPM \<or> target < - REAC_DLL_MAX_PPM);
          target = clamp REAC_DLL_MAX_PPM target;
          stp = clamp REAC_DLL_SLEW_PPM (target - dl_applied_ppm d);
          mag = (if residual < 0 then - residual else residual)
      in d\<lparr> dl_clamped := dl_clamped d + (if clamped then 1 else 0),
            dl_applied_ppm := dl_applied_ppm d + stp, dl_last_residual := residual,
            dl_resid_ema := (if dl_updates d = 0 then mag
                             else dl_resid_ema d + REAC_DLL_RESID_ALPHA * (mag - dl_resid_ema d)),
            dl_updates := dl_updates d + 1 \<rparr>)"

text \<open>The spread of the residual, kept only while the loop tracks.\<close>

definition dll_stability_note :: "reac_dll \<Rightarrow> real \<Rightarrow> reac_dll" where
  "dll_stability_note d residual =
     (let delta = residual - dl_resid_mean d;
          d = (if dl_stab_n d = 0 then d\<lparr> dl_resid_mean := residual, dl_resid_var := 0 \<rparr>
               else d\<lparr> dl_resid_mean := dl_resid_mean d + REAC_DLL_STAB_ALPHA * delta,
                       dl_resid_var := dl_resid_var d + REAC_DLL_STAB_ALPHA * (delta * delta - dl_resid_var d) \<rparr>);
          d = d\<lparr> dl_stab_n := dl_stab_n d + 1 \<rparr>
      in if dl_stab_n d \<ge> REAC_DLL_STAB_MIN_N
         then let sigma = sqrt (dl_resid_var d)
              in if sigma < REAC_DLL_STABLE_PPM then d\<lparr> dl_stab_verdict := REAC_CLOCK_STAB_STABLE \<rparr>
                 else if sigma > REAC_DLL_UNSTABLE_PPM then d\<lparr> dl_stab_verdict := REAC_CLOCK_STAB_UNSTABLE \<rparr>
                 else d
         else d)"

definition reac_dll_update :: "reac_dll \<Rightarrow> real option \<Rightarrow> reac_dll \<times> bool" where
  "reac_dll_update d measured_ppm =
     (case measured_ppm of
        None \<Rightarrow> (d\<lparr> dl_rejected := dl_rejected d + 1 \<rparr>, False)
      | Some m \<Rightarrow>
          if \<not> (m > - REAC_DLL_SANE_PPM \<and> m < REAC_DLL_SANE_PPM)
          then (d\<lparr> dl_rejected := dl_rejected d + 1 \<rparr>, False)
          else let tracking = (dl_updates d > 0 \<and> dl_resid_ema d < REAC_DLL_LOCK_PPM);
                   residual = m - dl_applied_ppm d;
                   d = dll_track d m
               in (if tracking then dll_stability_note d residual else d, True))"

definition reac_dll_resid_sigma :: "reac_dll \<Rightarrow> real" where
  "reac_dll_resid_sigma d = sqrt (dl_resid_var d)"

definition reac_dll_stability :: "reac_dll \<Rightarrow> reac_clock_stability" where
  "reac_dll_stability d =
     (if dl_stab_n d < REAC_DLL_STAB_MIN_N then REAC_CLOCK_STAB_UNKNOWN else dl_stab_verdict d)"

definition reac_dll_stability_reset :: "reac_dll \<Rightarrow> reac_dll" where
  "reac_dll_stability_reset d =
     d\<lparr> dl_resid_mean := 0, dl_resid_var := 0, dl_stab_n := 0, dl_stab_verdict := REAC_CLOCK_STAB_UNKNOWN \<rparr>"

definition reac_dll_applied_ppm :: "reac_dll \<Rightarrow> real" where
  "reac_dll_applied_ppm d = dl_applied_ppm d"

text \<open>C's conversion of a \<^verbatim>\<open>double\<close> to \<^verbatim>\<open>long\<close> truncates towards zero.\<close>

definition trunc_long :: "real \<Rightarrow> int" where
  "trunc_long x = (if x < 0 then \<lceil>x\<rceil> else \<lfloor>x\<rfloor>)"

definition reac_dll_period_ns :: "reac_dll \<Rightarrow> int" where
  "reac_dll_period_ns d =
     (let p = of_int (dl_nominal_ns d) / (1 + dl_applied_ppm d / 1000000);
          ns = trunc_long (p + 1 / 2)
      in if ns > 0 then ns else dl_nominal_ns d)"

definition reac_clock_quality_apply ::
    "reac_clock_source \<Rightarrow> reac_clock_quality \<Rightarrow> reac_clock_stability \<Rightarrow> reac_clock_quality" where
  "reac_clock_quality_apply src inferred measured =
     (if inferred = REAC_CLOCK_Q_UNUSABLE then REAC_CLOCK_Q_UNUSABLE
      else if measured = REAC_CLOCK_STAB_UNSTABLE then REAC_CLOCK_Q_MARGINAL
      else if measured = REAC_CLOCK_STAB_STABLE \<and> src \<noteq> REAC_CLOCK_SRC_BOX \<and> inferred < REAC_CLOCK_Q_GOOD
      then REAC_CLOCK_Q_GOOD
      else inferred)"

section \<open>The discipline\<close>

record reac_clock_disc =
  cd_role :: reac_role
  cd_dll :: reac_dll
  cd_src :: reac_clock_source
  cd_state :: reac_clock_state
  cd_in_band :: int
  cd_generation :: u32
  cd_holdovers :: nat
  cd_switches :: nat
  cd_quality :: "reac_clock_source \<Rightarrow> reac_clock_quality"
  cd_min_quality :: reac_clock_quality
  cd_src_quality :: reac_clock_quality

definition reac_clock_disc_init :: "reac_role \<Rightarrow> int \<Rightarrow> reac_clock_disc" where
  "reac_clock_disc_init role nominal_period_ns =
     \<lparr> cd_role = role, cd_dll = reac_dll_init nominal_period_ns, cd_src = REAC_CLOCK_SRC_FREERUN,
       cd_state = REAC_CLOCK_UNLOCKED, cd_in_band = 0, cd_generation = 0, cd_holdovers = 0, cd_switches = 0,
       cd_quality = (\<lambda>_. REAC_CLOCK_Q_UNGRADED), cd_min_quality = REAC_CLOCK_Q_MARGINAL,
       cd_src_quality = REAC_CLOCK_Q_UNGRADED \<rparr>"

definition reac_clock_disc_set_quality ::
    "reac_clock_disc \<Rightarrow> reac_clock_source \<Rightarrow> reac_clock_quality \<Rightarrow> reac_clock_disc" where
  "reac_clock_disc_set_quality c src q = c\<lparr> cd_quality := (cd_quality c)(src := q) \<rparr>"

definition reac_clock_disc_quality :: "reac_clock_disc \<Rightarrow> reac_clock_quality" where
  "reac_clock_disc_quality c = cd_src_quality c"

text \<open>The change of source, and what follows it: no reference, a measurement taken, or none.\<close>

definition disc_switch :: "reac_clock_disc \<Rightarrow> reac_clock_source \<Rightarrow> reac_clock_disc" where
  "disc_switch c src =
     (let c = (if src \<noteq> cd_src c
               then c\<lparr> cd_switches := cd_switches c + 1, cd_in_band := 0,
                       cd_dll := reac_dll_stability_reset (cd_dll c),
                       cd_state := (if src \<noteq> REAC_CLOCK_SRC_FREERUN then REAC_CLOCK_LOCKING else cd_state c) \<rparr>
               else c)
      in c\<lparr> cd_src := src \<rparr>)"

definition disc_follow :: "reac_clock_disc \<Rightarrow> reac_clock_state \<Rightarrow> real option \<Rightarrow> bool \<Rightarrow> reac_clock_disc" where
  "disc_follow c prev_state measured_ppm have_measurement =
     (if cd_src c = REAC_CLOCK_SRC_FREERUN then
        (if dl_updates (cd_dll c) > 0
         then c\<lparr> cd_holdovers := cd_holdovers c + (if prev_state \<noteq> REAC_CLOCK_HOLDOVER then 1 else 0),
                 cd_state := REAC_CLOCK_HOLDOVER \<rparr>
         else c\<lparr> cd_state := REAC_CLOCK_UNLOCKED \<rparr>)
      else let (d, took) = (if have_measurement then reac_dll_update (cd_dll c) measured_ppm
                            else (cd_dll c, False));
               c = c\<lparr> cd_dll := d \<rparr>
           in if took
              then let in_band = (if dl_resid_ema d < REAC_DLL_LOCK_PPM then cd_in_band c + 1 else 0)
                   in c\<lparr> cd_in_band := in_band,
                         cd_state := (if in_band \<ge> REAC_DLL_LOCK_UPDATES then REAC_CLOCK_LOCKED else REAC_CLOCK_LOCKING) \<rparr>
              else if cd_state c = REAC_CLOCK_UNLOCKED \<or> cd_state c = REAC_CLOCK_HOLDOVER
              then c\<lparr> cd_state := REAC_CLOCK_LOCKING \<rparr>
              else c)"

definition reac_clock_disc_update :: "reac_clock_disc \<Rightarrow> u32 \<Rightarrow> real option \<Rightarrow> bool \<Rightarrow> reac_clock_disc" where
  "reac_clock_disc_update c0 avail measured_ppm have_measurement =
     (let src = reac_clock_select_graded (cd_role c0) avail (Some (cd_quality c0)) (cd_min_quality c0);
          c = disc_follow (disc_switch c0 src) (cd_state c0) measured_ppm have_measurement;
          c = c\<lparr> cd_src_quality := (if src = REAC_CLOCK_SRC_FREERUN then REAC_CLOCK_Q_UNGRADED
                   else reac_clock_quality_apply src (cd_quality c src) (reac_dll_stability (cd_dll c))) \<rparr>
      in if cd_src c \<noteq> cd_src c0 \<or> cd_state c \<noteq> cd_state c0 \<or> cd_src_quality c \<noteq> cd_src_quality c0
         then c\<lparr> cd_generation := cd_generation c + 1 \<rparr> else c)"

definition reac_clock_disc_period_ns :: "reac_clock_disc \<Rightarrow> int" where
  "reac_clock_disc_period_ns c =
     (if cd_state c = REAC_CLOCK_UNLOCKED then dl_nominal_ns (cd_dll c) else reac_dll_period_ns (cd_dll c))"

section \<open>Describing and grading\<close>

definition DASH :: string where
  "DASH = [CHR 0xE2, CHR 0x80, CHR 0x94]"

definition reac_clock_describe_full ::
    "reac_role \<Rightarrow> reac_clock_source \<Rightarrow> reac_clock_state \<Rightarrow> reac_clock_quality \<Rightarrow> string option \<Rightarrow> nat \<Rightarrow> string" where
  "reac_clock_describe_full r src state q label cap =
     (let role = reac_role_name r;
          pace = (if r = REAC_ROLE_SLAVE then ''from the master'' else ''generated here'');
          dev = (case label of Some (c # cs) \<Rightarrow> take 95 ('' ('' @ (c # cs) @ '')'') | _ \<Rightarrow> '''');
          qual = (if q \<noteq> REAC_CLOCK_Q_UNGRADED then take 63 ('', quality: '' @ reac_clock_quality_name q) else '''');
          pre = role @ '' (pace: '' @ pace @ '') '' @ DASH;
          text = (case state of
            REAC_CLOCK_LOCKED \<Rightarrow> pre @ '' locked to '' @ reac_clock_source_name src @ dev @ qual
          | REAC_CLOCK_LOCKING \<Rightarrow> pre @ '' acquiring '' @ reac_clock_source_name src @ dev @ qual
          | REAC_CLOCK_HOLDOVER \<Rightarrow> pre @ '' holdover: reference lost, holding the last good rate''
          | REAC_CLOCK_UNLOCKED \<Rightarrow> pre @ '' free-running (no reference)'')
      in take (cap - 1) text)"

definition reac_clock_describe :: "reac_role \<Rightarrow> reac_clock_source \<Rightarrow> reac_clock_state \<Rightarrow> nat \<Rightarrow> string" where
  "reac_clock_describe r src state cap = reac_clock_describe_full r src state REAC_CLOCK_Q_UNGRADED None cap"

definition reac_clock_disc_describe :: "reac_clock_disc \<Rightarrow> nat \<Rightarrow> string" where
  "reac_clock_disc_describe c cap = reac_clock_describe (cd_role c) (cd_src c) (cd_state c) cap"

definition reac_clock_ppm_from_rate_diff :: "real \<Rightarrow> real" where
  "reac_clock_ppm_from_rate_diff rate_diff = (if rate_diff \<le> 0 then 0 else (rate_diff - 1) * 1000000)"

definition reac_clock_name_is_hardware :: "string option \<Rightarrow> bool" where
  "reac_clock_name_is_hardware name =
     (case name of None \<Rightarrow> False | Some s \<Rightarrow> s \<noteq> [] \<and> take 13 s \<noteq> ''clock.system.'')"

definition ci_fold :: "char \<Rightarrow> char" where
  "ci_fold c = (let v = of_char c :: nat in if 65 \<le> v \<and> v \<le> 90 then char_of (v - 65 + 97) else c)"

text \<open>Whether the needle matches at the start of the rest; the loop ends where either string does.\<close>

fun ci_prefix :: "string \<Rightarrow> string \<Rightarrow> bool" where
  "ci_prefix [] hay = True"
| "ci_prefix (n # ns) [] = False"
| "ci_prefix (n # ns) (h # hs) = (ci_fold h = ci_fold n \<and> ci_prefix ns hs)"

fun ci_scan :: "string \<Rightarrow> string \<Rightarrow> bool" where
  "ci_scan needle [] = False"
| "ci_scan needle (h # hs) = (ci_prefix needle (h # hs) \<or> ci_scan needle hs)"

definition ci_contains :: "string option \<Rightarrow> string option \<Rightarrow> bool" where
  "ci_contains hay needle =
     (case (hay, needle) of (Some h, Some n) \<Rightarrow> n \<noteq> [] \<and> ci_scan n h | _ \<Rightarrow> False)"

definition unusable_names :: "string list" where
  "unusable_names = [''dummy'', ''freewheel'', ''hdmi'', ''displayport'', ''display-port'']"

definition reac_clock_name_quality :: "string option \<Rightarrow> reac_clock_quality" where
  "reac_clock_name_quality name =
     (if name = None \<or> name = Some [] then REAC_CLOCK_Q_UNUSABLE
      else if \<not> reac_clock_name_is_hardware name then REAC_CLOCK_Q_UNUSABLE
      else if list_ex (\<lambda>n. ci_contains name (Some n)) unusable_names then REAC_CLOCK_Q_UNUSABLE
      else REAC_CLOCK_Q_UNGRADED)"

definition reac_clock_name_is_designated :: "string option \<Rightarrow> string option \<Rightarrow> bool" where
  "reac_clock_name_is_designated name designation =
     (if designation = None \<or> designation = Some [] then False else ci_contains name designation)"

definition reac_clock_grade_name :: "string option \<Rightarrow> string option \<Rightarrow> reac_clock_quality" where
  "reac_clock_grade_name name designation =
     (let q = reac_clock_name_quality name in
      if q = REAC_CLOCK_Q_UNUSABLE then q
      else if reac_clock_name_is_designated name designation then REAC_CLOCK_Q_DESIGNATED
      else q)"

section \<open>The filter is bounded\<close>

lemma clamp_bound: "0 \<le> b \<Longrightarrow> \<bar>clamp b x\<bar> \<le> b"
  by (auto simp: clamp_def)

lemma clamp_within: "\<bar>x\<bar> \<le> b \<Longrightarrow> clamp b x = x"
  by (auto simp: clamp_def)

lemma clamp_keeps_target:
  assumes "\<bar>a\<bar> \<le> B" and "\<bar>t\<bar> \<le> B"
    and "0 \<le> b"
  shows "\<bar>a + clamp b (t - a)\<bar> \<le> B"
  using assms unfolding clamp_def abs_le_iff by (simp split: if_splits)

lemma dll_note_keeps [simp]:
  "dl_applied_ppm (dll_stability_note d x) = dl_applied_ppm d"
  "dl_resid_ema (dll_stability_note d x) = dl_resid_ema d"
  "dl_updates (dll_stability_note d x) = dl_updates d"
  "dl_nominal_ns (dll_stability_note d x) = dl_nominal_ns d"
  by (auto simp: dll_stability_note_def Let_def)

lemma dll_track_keeps [simp]:
  "dl_updates (dll_track d m) = dl_updates d + 1"
  "dl_nominal_ns (dll_track d m) = dl_nominal_ns d"
  by (simp_all add: dll_track_def Let_def)

definition dll_inv :: "reac_dll \<Rightarrow> bool" where
  "dll_inv d \<longleftrightarrow> \<bar>dl_applied_ppm d\<bar> \<le> 200 \<and> 0 \<le> dl_resid_ema d \<and> dl_resid_ema d \<le> 2200"

lemma dll_track_bounds:
  assumes "dll_inv d" and "\<bar>m\<bar> \<le> 2000"
  shows "\<bar>dl_applied_ppm (dll_track d m)\<bar> \<le> 200"
    and "\<bar>dl_applied_ppm (dll_track d m) - dl_applied_ppm d\<bar> \<le> 10"
    and "0 \<le> dl_resid_ema (dll_track d m)" and "dl_resid_ema (dll_track d m) \<le> 2200"
proof -
  let ?a = "dl_applied_ppm d" and ?E = "dl_resid_ema d"
  have a: "\<bar>?a\<bar> \<le> 200" "0 \<le> ?E" "?E \<le> 2200" using assms(1) by (simp_all add: dll_inv_def)
  have ap: "dl_applied_ppm (dll_track d m) = ?a + clamp 10 (clamp 200 (?a + 1 / 4 * (m - ?a)) - ?a)"
    by (simp add: dll_track_def Let_def)
  show "\<bar>dl_applied_ppm (dll_track d m)\<bar> \<le> 200"
    unfolding ap using a by (intro clamp_keeps_target clamp_bound) simp_all
  show "\<bar>dl_applied_ppm (dll_track d m) - ?a\<bar> \<le> 10"
    unfolding ap using clamp_bound [of 10] by simp
  define r where "r = \<bar>m - ?a\<bar>"
  have r: "0 \<le> r" "r \<le> 2200" using a assms(2) by (simp add: r_def, unfold r_def, linarith)
  have "dl_resid_ema (dll_track d m) = (if dl_updates d = 0 then r else ?E + 1 / 10 * (r - ?E))"
    by (simp add: dll_track_def Let_def r_def abs_if)
  moreover have "0 \<le> ?E + 1 / 10 * (r - ?E)" "?E + 1 / 10 * (r - ?E) \<le> 2200" using a r by (simp_all add: field_simps)
  ultimately show "0 \<le> dl_resid_ema (dll_track d m)" and "dl_resid_ema (dll_track d m) \<le> 2200"
    using r by simp_all
qed

lemma dll_update_cases:
  obtains (rejected) "reac_dll_update d m = (d\<lparr> dl_rejected := dl_rejected d + 1 \<rparr>, False)"
  | (taken) x where "m = Some x" "\<bar>x\<bar> < 2000"
      "fst (reac_dll_update d m) = dll_track d x \<or>
       (\<exists>r. fst (reac_dll_update d m) = dll_stability_note (dll_track d x) r)" "snd (reac_dll_update d m)"
proof (cases m)
  case None
  then show ?thesis using rejected by (simp add: reac_dll_update_def)
next
  case (Some x)
  show ?thesis
  proof (cases "x > - 2000 \<and> x < 2000")
    case True
    then have "fst (reac_dll_update d m) = dll_track d x \<or>
        fst (reac_dll_update d m) = dll_stability_note (dll_track d x) (x - dl_applied_ppm d)"
      and "snd (reac_dll_update d m)" and "\<bar>x\<bar> < 2000"
      using Some by (simp_all add: reac_dll_update_def Let_def abs_less_iff)
    then show ?thesis using taken [of x] Some by blast
  next
    case False
    then show ?thesis using rejected Some by (auto simp: reac_dll_update_def)
  qed
qed

lemma dll_update_inv:
  assumes "dll_inv d"
  shows "dll_inv (fst (reac_dll_update d m))"
    and "\<bar>dl_applied_ppm (fst (reac_dll_update d m)) - dl_applied_ppm d\<bar> \<le> 10"
    and "dl_nominal_ns (fst (reac_dll_update d m)) = dl_nominal_ns d"
proof (atomize (full), cases rule: dll_update_cases [of d m])
  case rejected
  then show "dll_inv (fst (reac_dll_update d m)) \<and> \<bar>dl_applied_ppm (fst (reac_dll_update d m)) - dl_applied_ppm d\<bar> \<le> 10
      \<and> dl_nominal_ns (fst (reac_dll_update d m)) = dl_nominal_ns d"
    using assms by (simp add: dll_inv_def)
next
  case (taken x)
  then show "dll_inv (fst (reac_dll_update d m)) \<and> \<bar>dl_applied_ppm (fst (reac_dll_update d m)) - dl_applied_ppm d\<bar> \<le> 10
      \<and> dl_nominal_ns (fst (reac_dll_update d m)) = dl_nominal_ns d"
    using dll_track_bounds [OF assms, of x] by (auto simp: dll_inv_def)
qed

text \<open>The period is the nominal one corrected by the applied rate, rounded to the nearest nanosecond.\<close>

lemma dll_period:
  assumes "dll_inv d" and "0 < dl_nominal_ns d"
  shows "0 < reac_dll_period_ns d"
    and "\<bar>of_int (reac_dll_period_ns d) - of_int (dl_nominal_ns d) / (1 + dl_applied_ppm d / 1000000)\<bar> \<le> 1 / 2"
proof -
  define q where "q = 1 + dl_applied_ppm d / 1000000"
  let ?n = "of_int (dl_nominal_ns d) :: real"
  let ?p = "?n / q"
  have q: "0 < q" "q < 2" using assms(1) by (auto simp: dll_inv_def abs_le_iff q_def)
  have n: "1 \<le> ?n" using assms(2) by simp
  then have "q / 2 < ?n" using q by linarith
  then have p: "1 / 2 < ?p" using q by (simp add: field_simps)
  then have "\<not> ?p + 1 / 2 < 0" by linarith
  then have t: "trunc_long (?p + 1 / 2) = \<lfloor>?p + 1 / 2\<rfloor>" by (simp only: trunc_long_def if_False)
  have "1 \<le> ?p + 1 / 2" using p by linarith
  then have "1 \<le> \<lfloor>?p + 1 / 2\<rfloor>" by (simp only: one_le_floor)
  then have e: "reac_dll_period_ns d = \<lfloor>?p + 1 / 2\<rfloor>" "0 < \<lfloor>?p + 1 / 2\<rfloor>"
    using t by (simp_all add: reac_dll_period_ns_def Let_def flip: q_def)
  then show "0 < reac_dll_period_ns d" by simp
  show "\<bar>of_int (reac_dll_period_ns d) - ?n / (1 + dl_applied_ppm d / 1000000)\<bar> \<le> 1 / 2"
    unfolding e(1) q_def [symmetric] by linarith
qed

section \<open>The discipline's states\<close>

definition disc_inv :: "reac_clock_disc \<Rightarrow> bool" where
  "disc_inv c \<longleftrightarrow> dll_inv (cd_dll c) \<and> 0 \<le> cd_in_band c \<and>
     (cd_src c = REAC_CLOCK_SRC_FREERUN \<or> cd_src c \<in> set (reac_clock_hierarchy (cd_role c))) \<and>
     (case cd_state c of
        REAC_CLOCK_UNLOCKED \<Rightarrow> cd_src c = REAC_CLOCK_SRC_FREERUN \<and> dl_updates (cd_dll c) = 0
      | REAC_CLOCK_HOLDOVER \<Rightarrow> cd_src c = REAC_CLOCK_SRC_FREERUN \<and> 0 < dl_updates (cd_dll c)
      | REAC_CLOCK_LOCKING \<Rightarrow> cd_src c \<noteq> REAC_CLOCK_SRC_FREERUN \<and> cd_in_band c < 4
      | REAC_CLOCK_LOCKED \<Rightarrow> cd_src c \<noteq> REAC_CLOCK_SRC_FREERUN \<and> 4 \<le> cd_in_band c \<and>
          dl_resid_ema (cd_dll c) < 2 \<and> 0 < dl_updates (cd_dll c))"

lemma select_in_hierarchy:
  "reac_clock_select_graded role avail q min_q = REAC_CLOCK_SRC_FREERUN \<or>
   reac_clock_select_graded role avail q min_q \<in> set (reac_clock_hierarchy role)"
  by (auto simp: reac_clock_select_graded_def find_Some_iff split: option.splits)

lemma dll_reset_keeps [simp]:
  "dl_applied_ppm (reac_dll_stability_reset d) = dl_applied_ppm d"
  "dl_resid_ema (reac_dll_stability_reset d) = dl_resid_ema d"
  "dl_updates (reac_dll_stability_reset d) = dl_updates d"
  "dl_nominal_ns (reac_dll_stability_reset d) = dl_nominal_ns d"
  by (simp_all add: reac_dll_stability_reset_def)

lemma dll_inv_reset [simp]: "dll_inv (reac_dll_stability_reset d) = dll_inv d"
  by (simp add: dll_inv_def)

lemma dll_update_taken:
  "snd (reac_dll_update d m) \<Longrightarrow> 0 < dl_updates (fst (reac_dll_update d m))"
  "\<not> snd (reac_dll_update d m) \<Longrightarrow> dl_updates (fst (reac_dll_update d m)) = dl_updates d \<and>
     dl_resid_ema (fst (reac_dll_update d m)) = dl_resid_ema d"
  by (cases rule: dll_update_cases [of d m]; auto)+

definition switch_ok :: "reac_clock_disc \<Rightarrow> bool" where
  "switch_ok c \<longleftrightarrow> dll_inv (cd_dll c) \<and> 0 \<le> cd_in_band c \<and>
     (cd_src c = REAC_CLOCK_SRC_FREERUN \<or> cd_src c \<in> set (reac_clock_hierarchy (cd_role c)) \<and>
        (case cd_state c of
           REAC_CLOCK_LOCKING \<Rightarrow> cd_in_band c < 4
         | REAC_CLOCK_LOCKED \<Rightarrow> 4 \<le> cd_in_band c \<and> dl_resid_ema (cd_dll c) < 2 \<and> 0 < dl_updates (cd_dll c)
         | _ \<Rightarrow> False))"

lemma disc_switch_ok:
  assumes "disc_inv c" and "src = REAC_CLOCK_SRC_FREERUN \<or> src \<in> set (reac_clock_hierarchy (cd_role c))"
  shows "switch_ok (disc_switch c src)"
  using assms by (auto simp: disc_inv_def switch_ok_def disc_switch_def Let_def split: reac_clock_state.splits)

lemma disc_follow_inv:
  assumes "switch_ok c"
  shows "disc_inv (disc_follow c prev m hm)"
proof (cases "cd_src c = REAC_CLOCK_SRC_FREERUN")
  case True
  then show ?thesis using assms by (auto simp: switch_ok_def disc_follow_def disc_inv_def)
next
  case False
  define p where "p = (if hm then reac_dll_update (cd_dll c) m else (cd_dll c, False))"
  have d: "dll_inv (fst p)" using assms dll_update_inv(1) by (simp add: p_def switch_ok_def)
  have u: "snd p \<Longrightarrow> 0 < dl_updates (fst p)"
    "\<not> snd p \<Longrightarrow> dl_updates (fst p) = dl_updates (cd_dll c) \<and> dl_resid_ema (fst p) = dl_resid_ema (cd_dll c)"
    using dll_update_taken [of "cd_dll c" m] by (auto simp: p_def)
  have "disc_follow c prev m hm =
     (let c' = c\<lparr> cd_dll := fst p \<rparr> in
      if snd p then let b = (if dl_resid_ema (fst p) < 2 then cd_in_band c + 1 else 0)
        in c'\<lparr> cd_in_band := b, cd_state := (if b \<ge> 4 then REAC_CLOCK_LOCKED else REAC_CLOCK_LOCKING) \<rparr>
      else if cd_state c = REAC_CLOCK_UNLOCKED \<or> cd_state c = REAC_CLOCK_HOLDOVER
        then c'\<lparr> cd_state := REAC_CLOCK_LOCKING \<rparr> else c')"
    using False by (simp add: disc_follow_def p_def split_beta Let_def)
  then show ?thesis using assms False d u
    by (auto simp: disc_inv_def switch_ok_def Let_def split: reac_clock_state.splits if_splits)
qed

lemma disc_inv_cong:
  "disc_inv (c\<lparr> cd_src_quality := q \<rparr>) = disc_inv c"
  "disc_inv (c\<lparr> cd_generation := g \<rparr>) = disc_inv c"
  "disc_inv (c\<lparr> cd_quality := f \<rparr>) = disc_inv c"
  by (cases "cd_state c"; simp add: disc_inv_def)+

datatype clock_event = Clock_Update u32 "real option" bool | Clock_Quality reac_clock_source reac_clock_quality

fun clock_step :: "reac_clock_disc \<Rightarrow> clock_event \<Rightarrow> reac_clock_disc" where
  "clock_step c (Clock_Update avail m hm) = reac_clock_disc_update c avail m hm"
| "clock_step c (Clock_Quality src q) = reac_clock_disc_set_quality c src q"

lemma disc_update_inv:
  assumes "disc_inv c"
  shows "disc_inv (reac_clock_disc_update c avail m hm)"
proof -
  let ?src = "reac_clock_select_graded (cd_role c) avail (Some (cd_quality c)) (cd_min_quality c)"
  have "disc_inv (disc_follow (disc_switch c ?src) (cd_state c) m hm)"
    by (intro disc_follow_inv disc_switch_ok assms select_in_hierarchy)
  then show ?thesis by (simp add: reac_clock_disc_update_def Let_def disc_inv_cong)
qed

interpretation clock: invariant_machine clock_step disc_inv "\<lambda>_. True"
proof
  fix c e
  assume "disc_inv c"
  then show "disc_inv (clock_step c e)"
    by (cases e) (simp_all add: disc_update_inv reac_clock_disc_set_quality_def disc_inv_cong)
qed

lemma disc_inv_init: "disc_inv (reac_clock_disc_init role n)"
  by (simp add: disc_inv_def reac_clock_disc_init_def reac_dll_init_def dll_inv_def)

lemma disc_update_dll:
  "\<exists>d'. dl_applied_ppm d' = dl_applied_ppm (cd_dll c) \<and> dl_resid_ema d' = dl_resid_ema (cd_dll c) \<and>
     dl_updates d' = dl_updates (cd_dll c) \<and> dl_nominal_ns d' = dl_nominal_ns (cd_dll c) \<and>
     (cd_dll (reac_clock_disc_update c avail m hm) = d' \<or>
      cd_dll (reac_clock_disc_update c avail m hm) = fst (reac_dll_update d' m))"
proof -
  define src where "src = reac_clock_select_graded (cd_role c) avail (Some (cd_quality c)) (cd_min_quality c)"
  have u: "cd_dll (reac_clock_disc_update c avail m hm) = cd_dll (disc_follow (disc_switch c src) (cd_state c) m hm)"
    by (simp add: reac_clock_disc_update_def Let_def src_def)
  have "cd_dll (disc_follow c' st m hm) = cd_dll c' \<or> cd_dll (disc_follow c' st m hm) = fst (reac_dll_update (cd_dll c') m)" for c' st
    by (auto simp: disc_follow_def split_beta Let_def)
  moreover have "cd_dll (disc_switch c src) = cd_dll c \<or> cd_dll (disc_switch c src) = reac_dll_stability_reset (cd_dll c)"
    by (simp add: disc_switch_def Let_def)
  ultimately show ?thesis unfolding u
    by (intro exI [of _ "cd_dll (disc_switch c src)"]) auto
qed

lemma disc_update_step:
  assumes "disc_inv c"
  shows "\<bar>dl_applied_ppm (cd_dll (reac_clock_disc_update c avail m hm)) - dl_applied_ppm (cd_dll c)\<bar> \<le> 10"
proof -
  obtain d where d: "dl_applied_ppm d = dl_applied_ppm (cd_dll c)" "dl_resid_ema d = dl_resid_ema (cd_dll c)"
    "cd_dll (reac_clock_disc_update c avail m hm) = d \<or>
     cd_dll (reac_clock_disc_update c avail m hm) = fst (reac_dll_update d m)"
    using disc_update_dll by blast
  have "dll_inv d" using assms d(1,2) by (simp add: disc_inv_def dll_inv_def)
  then show ?thesis using d dll_update_inv(2) [of d m] by auto
qed

lemma disc_run_keeps:
  "cd_role (foldl clock_step (reac_clock_disc_init role n) es) = role \<and>
   dl_nominal_ns (cd_dll (foldl clock_step (reac_clock_disc_init role n) es)) = n"
proof (induction es rule: rev_induct)
  case (snoc e es)
  have nom: "dl_nominal_ns (fst (reac_dll_update d m)) = dl_nominal_ns d" for d m
    by (cases rule: dll_update_cases [of d m]) auto
  have "cd_role (reac_clock_disc_update c avail m hm) = cd_role c" for c avail m hm
    by (simp add: reac_clock_disc_update_def disc_follow_def disc_switch_def split_beta Let_def)
  moreover have "dl_nominal_ns (cd_dll (reac_clock_disc_update c avail m hm)) = dl_nominal_ns (cd_dll c)" for c avail m hm
    using disc_update_dll [of c avail m hm] nom by metis
  ultimately show ?case using snoc by (cases e) (simp_all add: reac_clock_disc_set_quality_def)
qed (simp add: reac_clock_disc_init_def reac_dll_init_def)

text \<open>C23: whatever sources come and go and whatever is measured, the discipline never reports what is not
  so: locked means a chosen reference and at least four consecutive updates with the smoothed residual
  below 2 ppm; holdover means the reference is gone and the last rate is held; unlocked means none was ever
  taken. A slave follows only the master's cadence, the applied rate stays within 200 ppm, one update moves
  it by at most 10, and the period is the nominal one so corrected to the nearest nanosecond.\<close>

theorem clock_never_lies:
  assumes "c = foldl clock_step (reac_clock_disc_init role n) es" and "0 < n"
  shows "(cd_state c = REAC_CLOCK_LOCKED \<longrightarrow> cd_src c \<noteq> REAC_CLOCK_SRC_FREERUN \<and> 4 \<le> cd_in_band c \<and> dl_resid_ema (cd_dll c) < 2) \<and>
    (cd_state c = REAC_CLOCK_HOLDOVER \<longrightarrow> cd_src c = REAC_CLOCK_SRC_FREERUN \<and> 0 < dl_updates (cd_dll c)) \<and>
    (cd_state c = REAC_CLOCK_UNLOCKED \<longleftrightarrow> cd_src c = REAC_CLOCK_SRC_FREERUN \<and> dl_updates (cd_dll c) = 0) \<and>
    (role = REAC_ROLE_SLAVE \<longrightarrow> cd_src c \<in> {REAC_CLOCK_SRC_FREERUN, REAC_CLOCK_SRC_WIRE}) \<and>
    (role = REAC_ROLE_MASTER \<longrightarrow> cd_src c \<noteq> REAC_CLOCK_SRC_WIRE) \<and>
    \<bar>dl_applied_ppm (cd_dll c)\<bar> \<le> 200 \<and>
    \<bar>dl_applied_ppm (cd_dll (reac_clock_disc_update c avail m hm)) - dl_applied_ppm (cd_dll c)\<bar> \<le> 10 \<and>
    0 < reac_clock_disc_period_ns c \<and>
    (cd_state c \<noteq> REAC_CLOCK_UNLOCKED \<longrightarrow>
       \<bar>of_int (reac_clock_disc_period_ns c) - of_int n / (1 + dl_applied_ppm (cd_dll c) / 1000000)\<bar> \<le> 1 / 2)"
proof -
  have inv: "disc_inv c"
    unfolding assms(1) by (rule clock.inv_run) (simp_all add: disc_inv_init list_all_iff)
  have rn: "cd_role c = role \<and> dl_nominal_ns (cd_dll c) = n"
    unfolding assms(1) by (rule disc_run_keeps)
  have d: "dll_inv (cd_dll c)" "0 < dl_nominal_ns (cd_dll c)" using inv rn assms(2) by (simp_all add: disc_inv_def)
  note p = dll_period [OF d]
  have st: "\<bar>dl_applied_ppm (cd_dll (reac_clock_disc_update c avail m hm)) - dl_applied_ppm (cd_dll c)\<bar> \<le> 10"
    by (rule disc_update_step [OF inv])
  have "cd_src c \<in> {REAC_CLOCK_SRC_FREERUN, REAC_CLOCK_SRC_WIRE}" if "role = REAC_ROLE_SLAVE"
    using inv rn that by (auto simp: disc_inv_def reac_clock_hierarchy_def slave_hier_def)
  moreover have "cd_src c \<noteq> REAC_CLOCK_SRC_WIRE" if "role = REAC_ROLE_MASTER"
    using inv rn that by (auto simp: disc_inv_def reac_clock_hierarchy_def master_hier_def)
  ultimately show ?thesis
    using inv p rn st d by (cases "cd_state c") (auto simp: disc_inv_def dll_inv_def reac_clock_disc_period_ns_def)
qed

theorem clock_never_lies_witness:
  "cd_src (foldl clock_step (reac_clock_disc_init REAC_ROLE_SLAVE 250000) [Clock_Update 0xff (Some 3) True])
     \<in> {REAC_CLOCK_SRC_FREERUN, REAC_CLOCK_SRC_WIRE} \<and>
   0 < reac_clock_disc_period_ns (foldl clock_step (reac_clock_disc_init REAC_ROLE_SLAVE 250000) [Clock_Update 0xff (Some 3) True])"
  using clock_never_lies [OF refl, of 250000 REAC_ROLE_SLAVE "[Clock_Update 0xff (Some 3) True]" 0 None False] by simp

section \<open>A steady reference is locked to\<close>

lemma track_residual:
  assumes "\<bar>a\<bar> \<le> 200" and "\<bar>m\<bar> \<le> 200" and "dl_applied_ppm d = a"
  shows "\<bar>m - dl_applied_ppm (dll_track d m)\<bar> = (if \<bar>m - a\<bar> \<le> 40 then 3 / 4 * \<bar>m - a\<bar> else \<bar>m - a\<bar> - 10)"
proof -
  have "\<bar>a + 1 / 4 * (m - a)\<bar> \<le> 200" using assms by (simp add: abs_le_iff field_simps)
  then have "dl_applied_ppm (dll_track d m) = a + clamp 10 (1 / 4 * (m - a))"
    using assms(3) by (simp add: dll_track_def Let_def clamp_within)
  then show ?thesis by (auto simp: clamp_def abs_if field_simps)
qed

lemma track_ema:
  "dl_resid_ema (dll_track d m) =
     (if dl_updates d = 0 then \<bar>m - dl_applied_ppm d\<bar>
      else 9 / 10 * dl_resid_ema d + 1 / 10 * \<bar>m - dl_applied_ppm d\<bar>)"
  by (auto simp: dll_track_def Let_def abs_if field_simps)

text \<open>One measured update of the whole discipline with the source unchanged.\<close>

definition residual_of :: "real \<Rightarrow> reac_clock_disc \<Rightarrow> real" where
  "residual_of m c = \<bar>m - dl_applied_ppm (cd_dll c)\<bar>"

definition ema_of :: "reac_clock_disc \<Rightarrow> real" where
  "ema_of c = dl_resid_ema (cd_dll c)"

lemma disc_measured:
  assumes "disc_inv c" and "\<bar>m\<bar> \<le> 200"
    and src: "reac_clock_select_graded (cd_role c) avail (Some (cd_quality c)) (cd_min_quality c) = src"
    and "src \<noteq> REAC_CLOCK_SRC_FREERUN"
  defines "c' \<equiv> reac_clock_disc_update c avail (Some m) True"
  shows "residual_of m c' = (if residual_of m c \<le> 40 then 3 / 4 * residual_of m c else residual_of m c - 10)"
    and "ema_of c' \<le> max (residual_of m c) (9 / 10 * ema_of c + 1 / 10 * residual_of m c)"
    and "0 < dl_updates (cd_dll c) \<Longrightarrow> ema_of c' = 9 / 10 * ema_of c + 1 / 10 * residual_of m c"
    and "0 < dl_updates (cd_dll c')" and "cd_src c' = src"
    and "cd_role c' = cd_role c" and "cd_quality c' = cd_quality c" and "cd_min_quality c' = cd_min_quality c"
    and "ema_of c' < 2 \<Longrightarrow> cd_in_band c' = (if cd_src c = src then cd_in_band c else 0) + 1"
    and "cd_state c' = (if 4 \<le> cd_in_band c' then REAC_CLOCK_LOCKED else REAC_CLOCK_LOCKING)"
proof -
  define c1 where "c1 = disc_switch c src"
  define d where "d = fst (reac_dll_update (cd_dll c1) (Some m))"
  have c1: "dl_applied_ppm (cd_dll c1) = dl_applied_ppm (cd_dll c)" "dl_resid_ema (cd_dll c1) = dl_resid_ema (cd_dll c)"
    "dl_updates (cd_dll c1) = dl_updates (cd_dll c)" "cd_src c1 = src" "cd_role c1 = cd_role c"
    "cd_quality c1 = cd_quality c" "cd_min_quality c1 = cd_min_quality c"
    "cd_in_band c1 = (if cd_src c = src then cd_in_band c else 0)"
    by (simp_all add: c1_def disc_switch_def Let_def)
  have m: "m > - 2000 \<and> m < 2000" using assms(2) by (auto simp: abs_le_iff)
  have took: "snd (reac_dll_update (cd_dll c1) (Some m))" using m by (simp add: reac_dll_update_def Let_def)
  have d: "dl_applied_ppm d = dl_applied_ppm (dll_track (cd_dll c1) m)" "dl_resid_ema d = dl_resid_ema (dll_track (cd_dll c1) m)"
    "dl_updates d = dl_updates (cd_dll c) + 1"
    using m c1 by (simp_all add: d_def reac_dll_update_def Let_def)
  have f: "disc_follow c1 st (Some m) True =
     (let b = (if dl_resid_ema d < 2 then cd_in_band c1 + 1 else 0)
      in c1\<lparr> cd_dll := d, cd_in_band := b, cd_state := (if b \<ge> 4 then REAC_CLOCK_LOCKED else REAC_CLOCK_LOCKING) \<rparr>)" for st
    using assms(4) took c1 by (simp add: disc_follow_def d_def split_beta Let_def)
  have c': "cd_dll c' = d" "cd_src c' = src" "cd_role c' = cd_role c" "cd_quality c' = cd_quality c"
    "cd_min_quality c' = cd_min_quality c" "cd_in_band c' = (if dl_resid_ema d < 2 then cd_in_band c1 + 1 else 0)"
    "cd_state c' = (if 4 \<le> cd_in_band c' then REAC_CLOCK_LOCKED else REAC_CLOCK_LOCKING)"
    using c1 assms(4) by (simp_all add: c'_def reac_clock_disc_update_def src f Let_def flip: c1_def)
  have a: "\<bar>dl_applied_ppm (cd_dll c)\<bar> \<le> 200" using assms(1) by (simp add: disc_inv_def dll_inv_def)
  show "residual_of m c' = (if residual_of m c \<le> 40 then 3 / 4 * residual_of m c else residual_of m c - 10)"
    using track_residual [OF a assms(2) c1(1)] by (simp add: residual_of_def c' d)
  show "ema_of c' \<le> max (residual_of m c) (9 / 10 * ema_of c + 1 / 10 * residual_of m c)"
    by (simp add: ema_of_def residual_of_def c' d track_ema c1)
  show "0 < dl_updates (cd_dll c) \<Longrightarrow> ema_of c' = 9 / 10 * ema_of c + 1 / 10 * residual_of m c"
    by (simp add: ema_of_def residual_of_def c' d track_ema c1)
  show "0 < dl_updates (cd_dll c')" by (simp add: c' d)
  show "ema_of c' < 2 \<Longrightarrow> cd_in_band c' = (if cd_src c = src then cd_in_band c else 0) + 1"
    by (simp add: c' c1 ema_of_def)
  show "cd_src c' = src" "cd_role c' = cd_role c" "cd_quality c' = cd_quality c" "cd_min_quality c' = cd_min_quality c"
    "cd_state c' = (if 4 \<le> cd_in_band c' then REAC_CLOCK_LOCKED else REAC_CLOCK_LOCKING)"
    by (rule c')+
qed

text \<open>The run under a steady reference.\<close>

definition steady :: "u32 \<Rightarrow> real \<Rightarrow> nat \<Rightarrow> reac_clock_disc \<Rightarrow> reac_clock_disc" where
  "steady avail m k c = ((\<lambda>c. reac_clock_disc_update c avail (Some m) True) ^^ k) c"

lemma steady_Suc: "steady avail m (Suc k) c = reac_clock_disc_update (steady avail m k c) avail (Some m) True"
  by (simp add: steady_def)

definition steady_ok :: "u32 \<Rightarrow> real \<Rightarrow> reac_clock_source \<Rightarrow> reac_clock_disc \<Rightarrow> bool" where
  "steady_ok avail m src c \<longleftrightarrow> disc_inv c \<and> \<bar>m\<bar> \<le> 200 \<and> src \<noteq> REAC_CLOCK_SRC_FREERUN \<and>
     reac_clock_select_graded (cd_role c) avail (Some (cd_quality c)) (cd_min_quality c) = src"

lemma steady_okD:
  assumes "steady_ok avail m src c"
  shows "disc_inv c" "\<bar>m\<bar> \<le> 200" "reac_clock_select_graded (cd_role c) avail (Some (cd_quality c)) (cd_min_quality c) = src"
    "src \<noteq> REAC_CLOCK_SRC_FREERUN"
  using assms by (simp_all add: steady_ok_def)

lemma steady_ok_run: "steady_ok avail m src c \<Longrightarrow> steady_ok avail m src (steady avail m k c)"
proof (induction k)
  case (Suc k)
  note d = steady_okD [OF Suc.IH [OF Suc.prems]]
  show ?case
    using disc_measured(6-8) [OF d] d disc_update_inv [OF d(1), of avail "Some m" True]
    by (simp add: steady_Suc steady_ok_def)
qed (simp add: steady_def)

lemma steady_next:
  assumes "steady_ok avail m src c"
  shows "residual_of m (steady avail m (Suc k) c) =
      (if residual_of m (steady avail m k c) \<le> 40 then 3 / 4 * residual_of m (steady avail m k c)
       else residual_of m (steady avail m k c) - 10)"
    and "0 < dl_updates (cd_dll (steady avail m k c)) \<Longrightarrow> ema_of (steady avail m (Suc k) c) =
      9 / 10 * ema_of (steady avail m k c) + 1 / 10 * residual_of m (steady avail m k c)"
    and "0 < dl_updates (cd_dll (steady avail m (Suc k) c))"
    and "cd_src (steady avail m (Suc k) c) = src"
    and "ema_of (steady avail m (Suc k) c) < 2 \<Longrightarrow> cd_in_band (steady avail m (Suc k) c) =
      (if cd_src (steady avail m k c) = src then cd_in_band (steady avail m k c) else 0) + 1"
    and "cd_state (steady avail m (Suc k) c) =
      (if 4 \<le> cd_in_band (steady avail m (Suc k) c) then REAC_CLOCK_LOCKED else REAC_CLOCK_LOCKING)"
proof -
  note d = disc_measured [OF steady_okD [OF steady_ok_run [OF assms, of k]], folded steady_Suc]
  show "residual_of m (steady avail m (Suc k) c) =
      (if residual_of m (steady avail m k c) \<le> 40 then 3 / 4 * residual_of m (steady avail m k c)
       else residual_of m (steady avail m k c) - 10)" by (rule d(1))
  show "0 < dl_updates (cd_dll (steady avail m k c)) \<Longrightarrow> ema_of (steady avail m (Suc k) c) =
      9 / 10 * ema_of (steady avail m k c) + 1 / 10 * residual_of m (steady avail m k c)" by (rule d(3))
  show "0 < dl_updates (cd_dll (steady avail m (Suc k) c))" by (rule d(4))
  show "cd_src (steady avail m (Suc k) c) = src" by (rule d(5))
  show "ema_of (steady avail m (Suc k) c) < 2 \<Longrightarrow> cd_in_band (steady avail m (Suc k) c) =
      (if cd_src (steady avail m k c) = src then cd_in_band (steady avail m k c) else 0) + 1" by (rule d(9))
  show "cd_state (steady avail m (Suc k) c) =
      (if 4 \<le> cd_in_band (steady avail m (Suc k) c) then REAC_CLOCK_LOCKED else REAC_CLOCK_LOCKING)" by (rule d(10))
qed

lemma steady_residual_linear:
  assumes "steady_ok avail m src c"
  shows "residual_of m (steady avail m k c) \<le> max 40 (400 - 10 * real k)"
proof (induction k)
  case 0
  have "\<bar>dl_applied_ppm (cd_dll c)\<bar> \<le> 200" "\<bar>m\<bar> \<le> 200" using assms by (simp_all add: steady_ok_def disc_inv_def dll_inv_def)
  then show ?case by (simp add: steady_def residual_of_def)
next
  case (Suc k)
  have "0 \<le> residual_of m (steady avail m k c)" by (simp add: residual_of_def)
  then show ?case using Suc steady_next(1) [OF assms, of k] by (auto simp: max_def split: if_splits)
qed

lemma steady_residual_geometric:
  assumes "steady_ok avail m src c"
  shows "residual_of m (steady avail m (36 + j) c) \<le> 40 * (3 / 4) ^ j"
proof (induction j)
  case 0
  then show ?case using steady_residual_linear [OF assms, of 36] by simp
next
  case (Suc j)
  have "(3 / 4 :: real) ^ j \<le> 1" by (rule power_le_one) simp_all
  then have "residual_of m (steady avail m (36 + j) c) \<le> 40" using Suc by linarith
  then show ?case using Suc steady_next(1) [OF assms, of "36 + j"] by simp
qed

lemma steady_ema:
  assumes "steady_ok avail m src c"
  shows "ema_of (steady avail m (36 + j) c) \<le> 2227 * (9 / 10) ^ j - 27 * (3 / 4) ^ j"
proof (induction j)
  case 0
  have "disc_inv (steady avail m 36 c)" by (rule steady_okD(1) [OF steady_ok_run [OF assms]])
  then show ?case by (simp add: disc_inv_def dll_inv_def ema_of_def)
next
  case (Suc j)
  have "0 < dl_updates (cd_dll (steady avail m (Suc (35 + j)) c))" by (rule steady_next(3) [OF assms])
  then have "ema_of (steady avail m (Suc (36 + j)) c) =
      9 / 10 * ema_of (steady avail m (36 + j) c) + 1 / 10 * residual_of m (steady avail m (36 + j) c)"
    by (intro steady_next(2) [OF assms]) simp
  moreover have "0 \<le> (3 / 4 :: real) ^ j" by simp
  moreover have "2227 * (9 / 10 :: real) ^ Suc j = 9 / 10 * (2227 * (9 / 10) ^ j)"
    "27 * (3 / 4 :: real) ^ Suc j = 81 / 4 * (3 / 4) ^ j" by simp_all
  ultimately have "ema_of (steady avail m (Suc (36 + j)) c) \<le> 2227 * (9 / 10) ^ Suc j - 27 * (3 / 4) ^ Suc j"
    using Suc steady_residual_geometric [OF assms, of j] by linarith
  then show ?case by (simp only: add_Suc_right)
qed

lemma steady_in_band:
  assumes "steady_ok avail m src c" and "103 \<le> k"
  shows "ema_of (steady avail m k c) < 2"
proof -
  define j where "j = k - 36"
  have j: "k = 36 + j" "67 \<le> j" using assms(2) by (simp_all add: j_def)
  have "(9 / 10 :: real) ^ j \<le> (9 / 10) ^ 67" using j(2) by (intro power_decreasing) simp_all
  moreover have "2227 * (9 / 10 :: real) ^ 67 < 2" by (simp add: power_divide)
  moreover have "0 \<le> (3 / 4 :: real) ^ j" by simp
  ultimately show ?thesis unfolding j(1) using steady_ema [OF assms(1), of j] by linarith
qed

text \<open>C30: a steady reference is locked to. Whatever the discipline went through before, once a source stays
  chosen and reports one constant rate of at most 200 ppm, it is reported locked after at most 107
  measured updates and stays so, and the applied rate has come within 1 ppm of the measured one.\<close>

theorem clock_locks:
  assumes "c = foldl clock_step (reac_clock_disc_init role n) es" and "\<bar>m\<bar> \<le> 200"
    and "reac_clock_select_graded (cd_role c) avail (Some (cd_quality c)) (cd_min_quality c) \<noteq> REAC_CLOCK_SRC_FREERUN"
    and "107 \<le> k"
  shows "cd_state (steady avail m k c) = REAC_CLOCK_LOCKED \<and>
    \<bar>m - dl_applied_ppm (cd_dll (steady avail m k c))\<bar> < 1"
proof -
  define src where "src = reac_clock_select_graded (cd_role c) avail (Some (cd_quality c)) (cd_min_quality c)"
  have inv: "disc_inv c"
    unfolding assms(1) by (rule clock.inv_run) (simp_all add: disc_inv_init list_all_iff)
  then have ok: "steady_ok avail m src c" using assms(2,3) by (simp add: steady_ok_def src_def)
  have s: "cd_src (steady avail m (Suc i) c) = src" for i by (rule steady_next(4) [OF ok])
  have band: "int j \<le> cd_in_band (steady avail m (103 + j) c)" for j
  proof (induction j)
    case 0
    have "disc_inv (steady avail m 103 c)" by (rule steady_okD(1) [OF steady_ok_run [OF ok]])
    then show ?case by (simp add: disc_inv_def)
  next
    case (Suc j)
    have "cd_in_band (steady avail m (Suc (103 + j)) c) = (if cd_src (steady avail m (103 + j) c) = src
        then cd_in_band (steady avail m (103 + j) c) else 0) + 1"
      using steady_in_band [OF ok, of "Suc (103 + j)"] by (intro steady_next(5) [OF ok]) simp_all
    then show ?case using Suc s [of "102 + j"] by simp
  qed
  define j where "j = k - 103"
  have j: "k = 103 + j" "4 \<le> j" using assms(4) by (simp_all add: j_def)
  then have "4 \<le> cd_in_band (steady avail m k c)" using band [of j] by simp
  moreover have "cd_state (steady avail m (Suc (102 + j)) c) =
      (if 4 \<le> cd_in_band (steady avail m (Suc (102 + j)) c) then REAC_CLOCK_LOCKED else REAC_CLOCK_LOCKING)"
    by (rule steady_next(6) [OF ok])
  ultimately have "cd_state (steady avail m k c) = REAC_CLOCK_LOCKED" using j(1) by simp
  moreover have "residual_of m (steady avail m k c) < 1"
  proof -
    have "(3 / 4 :: real) ^ (67 + j) \<le> (3 / 4) ^ 20" by (intro power_decreasing) simp_all
    moreover have "40 * (3 / 4 :: real) ^ 20 < 1" by (simp add: power_divide)
    moreover have "residual_of m (steady avail m (36 + (67 + j)) c) \<le> 40 * (3 / 4) ^ (67 + j)"
      by (rule steady_residual_geometric [OF ok])
    moreover have "k = 36 + (67 + j)" using j(1) by simp
    ultimately show ?thesis by (simp only:)
  qed
  ultimately show ?thesis by (simp add: residual_of_def)
qed

theorem clock_locks_witness:
  "cd_state (steady 2 50 200 (foldl clock_step (reac_clock_disc_init REAC_ROLE_MASTER 250000) [])) = REAC_CLOCK_LOCKED"
  using clock_locks [of _ REAC_ROLE_MASTER 250000 "[]" 50 2 200, OF refl]
  by (simp add: reac_clock_disc_init_def reac_clock_select_graded_def reac_clock_hierarchy_def master_hier_def
      less_reac_clock_quality_def)

end
