(* ===== verification/Reac_Arbitration.thy ===== *)
theory Reac_Arbitration
  imports Reac_Disco Reac_Clock Reac_Master_Fsm
begin

text \<open>
  Who masters the segment, \<^verbatim>\<open>src/reac_arbitration.c\<close>: the freshest foreign master of the discovery
  table, what kind of sender it is, and the published verdict. Our address is an \<open>option\<close> (the
  code tests it against \<^verbatim>\<open>NULL\<close>), and so is the rival.
\<close>

datatype reac_segment_master = REAC_SEGMENT_NONE | REAC_SEGMENT_US | REAC_SEGMENT_FOREIGN

datatype reac_pace_source =
    REAC_PACE_FREE_RUN | REAC_PACE_FOREIGN_MASTER | REAC_PACE_PHC | REAC_PACE_GRAPH_REF | REAC_PACE_BOX_SLOPE

datatype reac_rival_kind =
    REAC_RIVAL_NONE | REAC_RIVAL_DESK | REAC_RIVAL_BOX | REAC_RIVAL_UNKNOWN | REAC_RIVAL_PENDING

record reac_arbitration =
  ar_state :: reac_segment_master
  ar_mac :: mac
  ar_have_mac :: bool
  ar_pace :: reac_pace_source
  ar_conflict :: bool
  ar_rival :: reac_rival_kind
  ar_rival_channels :: nat

abbreviation (input) REAC_MASTER_ONLY_CADENCE_FRAMES_48K :: u32 where "REAC_MASTER_ONLY_CADENCE_FRAMES_48K \<equiv> 4000"
abbreviation (input) REAC_MASTER_ONLY_CADENCE_FRAMES_44K1 :: u32 where "REAC_MASTER_ONLY_CADENCE_FRAMES_44K1 \<equiv> 3675"
abbreviation (input) REAC_MASTER_ONLY_CADENCE_FRAMES_96K :: u32 where "REAC_MASTER_ONLY_CADENCE_FRAMES_96K \<equiv> 8000"

fun reac_segment_master_name :: "reac_segment_master \<Rightarrow> string" where
  "reac_segment_master_name REAC_SEGMENT_US = ''us''"
| "reac_segment_master_name REAC_SEGMENT_FOREIGN = ''foreign''"
| "reac_segment_master_name REAC_SEGMENT_NONE = ''none''"

fun reac_pace_source_name :: "reac_pace_source \<Rightarrow> string" where
  "reac_pace_source_name REAC_PACE_FOREIGN_MASTER = ''foreign-master''"
| "reac_pace_source_name REAC_PACE_PHC = ''phc''"
| "reac_pace_source_name REAC_PACE_GRAPH_REF = ''graph-ref''"
| "reac_pace_source_name REAC_PACE_BOX_SLOPE = ''box-slope''"
| "reac_pace_source_name REAC_PACE_FREE_RUN = ''free-run''"

definition reac_pace_from_clock :: "reac_clock_source \<Rightarrow> reac_clock_state \<Rightarrow> reac_pace_source" where
  "reac_pace_from_clock src state =
     (if src = REAC_CLOCK_SRC_WIRE then REAC_PACE_FOREIGN_MASTER
      else if state \<noteq> REAC_CLOCK_LOCKED then REAC_PACE_FREE_RUN
      else case src of
             REAC_CLOCK_SRC_PHC \<Rightarrow> REAC_PACE_PHC
           | REAC_CLOCK_SRC_GRAPH \<Rightarrow> REAC_PACE_GRAPH_REF
           | REAC_CLOCK_SRC_BOX \<Rightarrow> REAC_PACE_BOX_SLOPE
           | _ \<Rightarrow> REAC_PACE_FREE_RUN)"

definition is_foreign_master :: "mac option \<Rightarrow> u64 \<Rightarrow> reac_disco_entry \<Rightarrow> bool" where
  "is_foreign_master our_mac now_ns e \<longleftrightarrow>
     de_role e = REAC_DISCO_ROLE_MASTER \<and> our_mac \<noteq> Some (de_mac e) \<and> \<not> entry_stale now_ns e"

text \<open>The loop over the table: the best so far, replaced only by a strictly fresher entry.\<close>

definition foreign_master :: "reac_disco_table \<Rightarrow> mac option \<Rightarrow> u64 \<Rightarrow> reac_disco_entry option" where
  "foreign_master t our_mac now_ns =
     foldl (\<lambda>best e.
              if \<not> is_foreign_master our_mac now_ns e then best
              else case best of
                     None \<Rightarrow> Some e
                   | Some b \<Rightarrow> if de_last_seen_ns e > de_last_seen_ns b then Some e else best) None (dt_e t)"

definition reac_rival_kind_of :: "reac_disco_entry option \<Rightarrow> reac_rival_kind" where
  "reac_rival_kind_of entry =
     (case entry of None \<Rightarrow> REAC_RIVAL_NONE
      | Some e \<Rightarrow>
          if de_has_decl e \<or> de_role e = REAC_DISCO_ROLE_BOX then REAC_RIVAL_BOX
          else if de_announced_slots e \<noteq> 0 \<and> uint (de_announced_slots e) < REAC_MAX_CHANNELS then REAC_RIVAL_BOX
          else if de_channels e = 0 then REAC_RIVAL_UNKNOWN
          else if int (de_channels e) < REAC_MAX_CHANNELS then REAC_RIVAL_BOX
          else if de_role e \<noteq> REAC_DISCO_ROLE_MASTER then REAC_RIVAL_UNKNOWN
          else if uint (de_announced_slots e) = REAC_MAX_CHANNELS then REAC_RIVAL_DESK
          else REAC_RIVAL_PENDING)"

definition reac_arbitrate ::
    "reac_disco_table option \<Rightarrow> mac option \<Rightarrow> reac_master_state \<Rightarrow> reac_pace_source \<Rightarrow> u64 \<Rightarrow> reac_arbitration" where
  "reac_arbitrate tbl our_mac fsm own_pace now_ns =
     (let out = \<lparr> ar_state = REAC_SEGMENT_NONE, ar_mac = replicate 6 0, ar_have_mac = False, ar_pace = own_pace,
                  ar_conflict = False, ar_rival = REAC_RIVAL_NONE, ar_rival_channels = 0 \<rparr>;
          ours = (\<lambda>out. case our_mac of Some m \<Rightarrow> out\<lparr> ar_mac := m, ar_have_mac := True \<rparr> | None \<Rightarrow> out);
          established = (fsm = REAC_M_ESTABLISHED \<or> fsm = REAC_M_GRANTING);
          probing = (fsm = REAC_M_PROBING);
          rival = (case tbl of Some t \<Rightarrow> foreign_master t our_mac now_ns | None \<Rightarrow> None)
      in if established then
           ours (out\<lparr> ar_state := REAC_SEGMENT_US, ar_conflict := (rival \<noteq> None),
                      ar_rival := reac_rival_kind_of rival,
                      ar_rival_channels := (case rival of Some e \<Rightarrow> de_channels e | None \<Rightarrow> 0) \<rparr>)
         else case rival of
                Some e \<Rightarrow> out\<lparr> ar_state := REAC_SEGMENT_FOREIGN, ar_mac := de_mac e, ar_have_mac := True,
                              ar_rival := reac_rival_kind_of rival, ar_rival_channels := de_channels e,
                              ar_pace := REAC_PACE_FOREIGN_MASTER \<rparr>
              | None \<Rightarrow>
                  if probing then ours (out\<lparr> ar_state := REAC_SEGMENT_US \<rparr>)
                  else out)"

definition reac_master_only_cadence_frames :: "int \<Rightarrow> u32" where
  "reac_master_only_cadence_frames fps =
     (if fps \<le> 0 then 0
      else let r = reac_rate_snap (of_int fps)
           in if r = REAC_CFG_RATE_44100 then REAC_MASTER_ONLY_CADENCE_FRAMES_44K1
              else if r = REAC_CFG_RATE_96000 then REAC_MASTER_ONLY_CADENCE_FRAMES_96K
              else REAC_MASTER_ONLY_CADENCE_FRAMES_48K)"

definition frames_ns :: "u32 \<Rightarrow> int \<Rightarrow> u64" where
  "frames_ns frames rate = ucast frames * 1000000000 * 12 div word_of_int rate"

definition reac_master_only_cadence_ns :: "int \<Rightarrow> u64" where
  "reac_master_only_cadence_ns fps =
     (if fps > 0 then frames_ns (reac_master_only_cadence_frames fps) (reac_rate_snap (of_int fps))
      else foldl (\<lambda>longest r.
             let ns = frames_ns (reac_master_only_cadence_frames (r sdiv REAC_SAMPLES_PER_PKT)) r
             in if ns > longest then ns else longest) 0
             [REAC_CFG_RATE_44100, REAC_CFG_RATE_48000, REAC_CFG_RATE_96000])"

definition reac_sender_kind :: "reac_disco_entry option \<Rightarrow> u64 \<Rightarrow> int \<Rightarrow> reac_rival_kind" where
  "reac_sender_kind entry now_ns fps =
     (case entry of None \<Rightarrow> REAC_RIVAL_NONE
      | Some e \<Rightarrow>
          if de_has_decl e \<or> de_role e = REAC_DISCO_ROLE_BOX \<or> de_role e = REAC_DISCO_ROLE_MASTER
          then reac_rival_kind_of entry
          else if de_channels e = 0 then REAC_RIVAL_UNKNOWN
          else if now_ns \<le> de_first_seen_ns e \<or> now_ns - de_first_seen_ns e < reac_master_only_cadence_ns fps
          then REAC_RIVAL_UNKNOWN
          else REAC_RIVAL_BOX)"

definition reac_rival_kind_from_channels :: "nat \<Rightarrow> reac_rival_kind" where
  "reac_rival_kind_from_channels channels =
     (if channels = 0 then REAC_RIVAL_UNKNOWN
      else if int channels \<ge> REAC_MAX_CHANNELS then REAC_RIVAL_DESK else REAC_RIVAL_BOX)"

fun reac_rival_kind_name :: "reac_rival_kind \<Rightarrow> string" where
  "reac_rival_kind_name REAC_RIVAL_DESK = ''desk''"
| "reac_rival_kind_name REAC_RIVAL_BOX = ''box''"
| "reac_rival_kind_name REAC_RIVAL_UNKNOWN = ''unknown''"
| "reac_rival_kind_name REAC_RIVAL_PENDING = ''pending''"
| "reac_rival_kind_name REAC_RIVAL_NONE = ''none''"

fun reac_rival_refusal :: "reac_rival_kind \<Rightarrow> string" where
  "reac_rival_refusal REAC_RIVAL_BOX = ''rival-master-box''"
| "reac_rival_refusal REAC_RIVAL_UNKNOWN = ''rival-master-unknown''"
| "reac_rival_refusal REAC_RIVAL_DESK = ''none''"
| "reac_rival_refusal REAC_RIVAL_PENDING = ''none''"
| "reac_rival_refusal REAC_RIVAL_NONE = ''none''"

definition reac_segment_refusal :: "reac_rival_kind \<Rightarrow> bool \<Rightarrow> bool \<Rightarrow> u64 \<Rightarrow> string" where
  "reac_segment_refusal rival probing box_present joins =
     (let r = reac_rival_refusal rival in
      if r \<noteq> ''none'' then r
      else if probing \<and> box_present \<and> joins = 0 then ''box-present-not-joining''
      else ''none'')"

section \<open>The freshest foreign master\<close>

lemma foreign_master_props:
  "foreign_master t our_mac now_ns = None \<longleftrightarrow> (\<forall>e \<in> set (dt_e t). \<not> is_foreign_master our_mac now_ns e)"
  "foreign_master t our_mac now_ns = Some e \<Longrightarrow>
     e \<in> set (dt_e t) \<and> is_foreign_master our_mac now_ns e \<and>
     (\<forall>e' \<in> set (dt_e t). is_foreign_master our_mac now_ns e' \<longrightarrow> de_last_seen_ns e' \<le> de_last_seen_ns e)"
proof -
  define f where "f = (\<lambda>best e. if \<not> is_foreign_master our_mac now_ns e then best
              else case best of None \<Rightarrow> Some e
                   | Some b \<Rightarrow> if de_last_seen_ns e > de_last_seen_ns b then Some e else best)"
  have F: "case foldl f None es of
      None \<Rightarrow> \<forall>e \<in> set es. \<not> is_foreign_master our_mac now_ns e
    | Some b \<Rightarrow> b \<in> set es \<and> is_foreign_master our_mac now_ns b \<and>
        (\<forall>e' \<in> set es. is_foreign_master our_mac now_ns e' \<longrightarrow> de_last_seen_ns e' \<le> de_last_seen_ns b)" for es
  proof (induction es rule: rev_induct)
    case (snoc e es)
    then show ?case by (auto simp: f_def split: option.splits if_splits)
  qed simp
  have fm: "foreign_master t our_mac now_ns = foldl f None (dt_e t)" by (simp add: foreign_master_def f_def)
  show "foreign_master t our_mac now_ns = None \<longleftrightarrow> (\<forall>e \<in> set (dt_e t). \<not> is_foreign_master our_mac now_ns e)"
    using F [of "dt_e t"] by (auto simp: fm split: option.splits)
  show "foreign_master t our_mac now_ns = Some e \<Longrightarrow>
     e \<in> set (dt_e t) \<and> is_foreign_master our_mac now_ns e \<and>
     (\<forall>e' \<in> set (dt_e t). is_foreign_master our_mac now_ns e' \<longrightarrow> de_last_seen_ns e' \<le> de_last_seen_ns e)"
    using F [of "dt_e t"] by (simp add: fm)
qed

lemma cadence_unknown_rate: "reac_master_only_cadence_ns 0 = 1000000000"
  by (simp add: reac_master_only_cadence_ns_def reac_master_only_cadence_frames_def reac_rate_snap_def
      frames_ns_def Let_def)

end
