(* ===== verification/Reac_Hunt.thy ===== *)
theory Reac_Hunt
  imports Reac_Arbitration Reac_Knock
begin

text \<open>
  The hunt for a role, \<^verbatim>\<open>src/reac_hunt.c\<close>: frames feed the discovery table, a step ages it,
  arbitrates and decides whether to master the segment, follow its master, refuse or keep
  listening. \<open>reac_hunt_observe\<close> returns the state, the code's result and the sighting it fills in.
\<close>

abbreviation (input) REAC_HUNT_RIVAL_FRAMES :: u32 where "REAC_HUNT_RIVAL_FRAMES \<equiv> 8"
abbreviation (input) REAC_HUNT_RIVAL_SPAN_NS :: u64 where "REAC_HUNT_RIVAL_SPAN_NS \<equiv> 20000000"
abbreviation (input) REAC_HUNT_RIVAL_QUIET_NS :: u64 where "REAC_HUNT_RIVAL_QUIET_NS \<equiv> 100000000"

datatype reac_hunt_verdict = REAC_HUNT_HUNTING | REAC_HUNT_MASTER | REAC_HUNT_SLAVE | REAC_HUNT_REFUSED

fun reac_hunt_verdict_name :: "reac_hunt_verdict \<Rightarrow> string" where
  "reac_hunt_verdict_name REAC_HUNT_MASTER = ''master''"
| "reac_hunt_verdict_name REAC_HUNT_SLAVE = ''slave''"
| "reac_hunt_verdict_name REAC_HUNT_REFUSED = ''refused''"
| "reac_hunt_verdict_name REAC_HUNT_HUNTING = ''hunting''"

record reac_hunt =
  hu_table :: reac_disco_table
  hu_lock :: reac_disco_peer_lock
  hu_our_mac :: mac
  hu_silence_proven :: bool
  hu_opened_ns :: u64
  hu_pinned :: bool
  hu_pin :: reac_role
  hu_verdict :: reac_hunt_verdict
  hu_arb :: reac_arbitration

definition reac_hunt_init :: "mac option \<Rightarrow> u64 \<Rightarrow> reac_hunt" where
  "reac_hunt_init our_mac now_ns =
     \<lparr> hu_table = reac_disco_table_init, hu_lock = reac_disco_peer_lock_init,
       hu_our_mac = (case our_mac of Some m \<Rightarrow> m | None \<Rightarrow> replicate 6 0), hu_silence_proven = False,
       hu_opened_ns = now_ns, hu_pinned = False, hu_pin = REAC_ROLE_MASTER, hu_verdict = REAC_HUNT_HUNTING,
       hu_arb = \<lparr> ar_state = REAC_SEGMENT_NONE, ar_mac = replicate 6 0, ar_have_mac = False,
                  ar_pace = REAC_PACE_FREE_RUN, ar_conflict = False, ar_rival = REAC_RIVAL_NONE,
                  ar_rival_channels = 0 \<rparr> \<rparr>"

definition reac_hunt_pin :: "reac_hunt \<Rightarrow> reac_role \<Rightarrow> reac_hunt" where
  "reac_hunt_pin h role = h\<lparr> hu_pinned := True, hu_pin := role \<rparr>"

definition reac_hunt_silence_proven :: "reac_hunt \<Rightarrow> reac_hunt" where
  "reac_hunt_silence_proven h = h\<lparr> hu_silence_proven := True \<rparr>"

text \<open>The sighting handed out carries what the table now holds of its sender.\<close>

definition sighting_from_entry :: "reac_disco_sighting \<Rightarrow> reac_disco_entry \<Rightarrow> reac_disco_sighting" where
  "sighting_from_entry s e =
     s\<lparr> si_role := de_role e, si_has_decl := de_has_decl e, si_decl_in := de_decl_in e,
        si_decl_out := de_decl_out e, si_family := de_family e,
        si_announced_slots := de_announced_slots e, si_channels := de_channels e \<rparr>"

definition reac_hunt_observe ::
    "reac_hunt \<Rightarrow> bytes \<Rightarrow> u64 \<Rightarrow> reac_hunt \<times> int \<times> reac_disco_sighting option" where
  "reac_hunt_observe h frame0 now_ns =
     (let frame = take (reac_frame_clean_len (length frame0)) frame0;
          (lock, sighting) = reac_disco_classify_on_segment (hu_lock h) frame (hu_our_mac h);
          h = h\<lparr> hu_lock := lock \<rparr>
      in case sighting of
           None \<Rightarrow> (h, - 1, None)
         | Some s \<Rightarrow>
             let h = (if dt_e (hu_table h) = [] then h\<lparr> hu_opened_ns := now_ns \<rparr> else h);
                 (t, changed) = reac_disco_table_observe (hu_table h) s False now_ns;
                 h = h\<lparr> hu_table := t \<rparr>;
                 out = (case List.find (\<lambda>e. de_mac e = si_mac s) (dt_e t) of
                          Some e \<Rightarrow> sighting_from_entry s e | None \<Rightarrow> s)
             in (h, if changed then 1 else 0, Some out))"

definition live :: "reac_disco_entry \<Rightarrow> u64 \<Rightarrow> bool" where
  "live e now_ns \<longleftrightarrow> \<not> (now_ns > de_last_seen_ns e \<and> now_ns - de_last_seen_ns e > REAC_DISCO_STALE_NS)"

definition box_present :: "reac_disco_table \<Rightarrow> u64 \<Rightarrow> bool" where
  "box_present t now_ns =
     list_ex (\<lambda>e. live e now_ns \<and>
       (de_role e = REAC_DISCO_ROLE_BOX \<or>
        de_role e = REAC_DISCO_ROLE_UNKNOWN \<and> reac_sender_kind (Some e) now_ns 0 = REAC_RIVAL_BOX)) (dt_e t)"

definition desk_geometry_live :: "reac_disco_table \<Rightarrow> mac option \<Rightarrow> u64 \<Rightarrow> bool" where
  "desk_geometry_live t our_mac now_ns =
     list_ex (\<lambda>e. live e now_ns \<and> our_mac \<noteq> Some (de_mac e) \<and>
       de_role e = REAC_DISCO_ROLE_UNKNOWN \<and> de_channels e > 0 \<and>
       reac_sender_kind (Some e) now_ns 0 = REAC_RIVAL_UNKNOWN) (dt_e t)"

datatype rival_evidence_t = RIVAL_QUIET | RIVAL_WAIT | RIVAL_STREAMS

definition entry_streams :: "reac_disco_entry \<Rightarrow> bool" where
  "entry_streams e \<longleftrightarrow> de_frames e \<ge> REAC_HUNT_RIVAL_FRAMES \<and> de_last_seen_ns e \<ge> de_first_seen_ns e \<and>
     de_last_seen_ns e - de_first_seen_ns e \<ge> REAC_HUNT_RIVAL_SPAN_NS"

definition rival_evidence :: "reac_hunt \<Rightarrow> u64 \<Rightarrow> rival_evidence_t" where
  "rival_evidence h now_ns =
     (if \<not> ar_have_mac (hu_arb h) then RIVAL_QUIET
      else case List.find (\<lambda>e. de_mac e = ar_mac (hu_arb h)) (dt_e (hu_table h)) of
             None \<Rightarrow> RIVAL_QUIET
           | Some e \<Rightarrow>
               if entry_streams e then RIVAL_STREAMS
               else if now_ns \<ge> de_last_seen_ns e \<and> now_ns - de_last_seen_ns e \<le> REAC_HUNT_RIVAL_QUIET_NS
               then RIVAL_WAIT else RIVAL_QUIET)"

text \<open>The part of the decision after the foreign master has been dealt with.\<close>

definition decide_vacant :: "reac_hunt \<Rightarrow> u64 \<Rightarrow> reac_hunt_verdict" where
  "decide_vacant h now_ns =
     (if desk_geometry_live (hu_table h) (Some (hu_our_mac h)) now_ns then REAC_HUNT_HUNTING
      else if hu_silence_proven h then REAC_HUNT_MASTER
      else if now_ns - hu_opened_ns h < REAC_HUNT_WINDOW_NS then REAC_HUNT_HUNTING
      else if box_present (hu_table h) now_ns then REAC_HUNT_MASTER else REAC_HUNT_HUNTING)"

definition decide :: "reac_hunt \<Rightarrow> u64 \<Rightarrow> reac_hunt_verdict" where
  "decide h now_ns =
     (if hu_pinned h then
        (let by_pin = (if hu_pin h = REAC_ROLE_SLAVE then REAC_HUNT_SLAVE else REAC_HUNT_MASTER) in
         if hu_pin h = REAC_ROLE_MASTER \<and> ar_state (hu_arb h) = REAC_SEGMENT_FOREIGN \<and>
            ar_rival (hu_arb h) = REAC_RIVAL_BOX
         then (case rival_evidence h now_ns of
                 RIVAL_STREAMS \<Rightarrow> REAC_HUNT_SLAVE
               | RIVAL_WAIT \<Rightarrow> hu_verdict h
               | RIVAL_QUIET \<Rightarrow> by_pin)
         else by_pin)
      else if ar_state (hu_arb h) = REAC_SEGMENT_FOREIGN then
        (if ar_rival (hu_arb h) = REAC_RIVAL_PENDING then hu_verdict h
         else case rival_evidence h now_ns of
                RIVAL_WAIT \<Rightarrow> hu_verdict h
              | RIVAL_STREAMS \<Rightarrow>
                  if ar_rival (hu_arb h) = REAC_RIVAL_UNKNOWN then REAC_HUNT_REFUSED else REAC_HUNT_SLAVE
              | RIVAL_QUIET \<Rightarrow> decide_vacant h now_ns)
      else decide_vacant h now_ns)"

definition reac_hunt_step :: "reac_hunt \<Rightarrow> u64 \<Rightarrow> reac_hunt \<times> bool" where
  "reac_hunt_step h now_ns =
     (let h = h\<lparr> hu_table := fst (reac_disco_table_age (hu_table h) now_ns) \<rparr>;
          h = h\<lparr> hu_arb := reac_arbitrate (Some (hu_table h)) (Some (hu_our_mac h)) REAC_M_IDLE REAC_PACE_FREE_RUN now_ns \<rparr>;
          v = decide h now_ns
      in (h\<lparr> hu_verdict := v \<rparr>, v \<noteq> hu_verdict h))"

definition reac_hunt_role :: "reac_hunt \<Rightarrow> reac_role" where
  "reac_hunt_role h = (if hu_verdict h = REAC_HUNT_SLAVE then REAC_ROLE_SLAVE else REAC_ROLE_MASTER)"

definition reac_hunt_heard_anything :: "reac_hunt \<Rightarrow> bool" where
  "reac_hunt_heard_anything h \<longleftrightarrow> dt_e (hu_table h) \<noteq> []"

section \<open>What a verdict rests on\<close>

text \<open>A foreign master of the aged table that has streamed.\<close>

definition foreign_streams :: "reac_hunt \<Rightarrow> u64 \<Rightarrow> reac_disco_entry \<Rightarrow> bool" where
  "foreign_streams h now e \<longleftrightarrow> e \<in> set (dt_e (hu_table h)) \<and> is_foreign_master (Some (hu_our_mac h)) now e \<and> entry_streams e"

lemma arbitrate_idle:
  "reac_arbitrate (Some t) (Some m) REAC_M_IDLE p now =
     (case foreign_master t (Some m) now of
        Some e \<Rightarrow> \<lparr> ar_state = REAC_SEGMENT_FOREIGN, ar_mac = de_mac e, ar_have_mac = True,
                   ar_pace = REAC_PACE_FOREIGN_MASTER, ar_conflict = False, ar_rival = reac_rival_kind_of (Some e),
                   ar_rival_channels = de_channels e \<rparr>
      | None \<Rightarrow> \<lparr> ar_state = REAC_SEGMENT_NONE, ar_mac = replicate 6 0, ar_have_mac = False, ar_pace = p,
                 ar_conflict = False, ar_rival = REAC_RIVAL_NONE, ar_rival_channels = 0 \<rparr>)"
  by (simp add: reac_arbitrate_def Let_def split: option.splits)

datatype hunt_event = Hunt_Frame bytes u64 | Hunt_Tick u64 | Hunt_Pin reac_role | Hunt_Silence

fun hunt_apply :: "reac_hunt \<Rightarrow> hunt_event \<Rightarrow> reac_hunt" where
  "hunt_apply h (Hunt_Frame f now) = fst (reac_hunt_observe h f now)"
| "hunt_apply h (Hunt_Tick now) = fst (reac_hunt_step h now)"
| "hunt_apply h (Hunt_Pin role) = reac_hunt_pin h role"
| "hunt_apply h Hunt_Silence = reac_hunt_silence_proven h"

definition hunt_run :: "mac option \<Rightarrow> u64 \<Rightarrow> hunt_event list \<Rightarrow> reac_hunt" where
  "hunt_run our t0 es = foldl hunt_apply (reac_hunt_init our t0) es"

interpretation hunt: invariant_machine hunt_apply "\<lambda>h. table_inv (hu_table h)" "\<lambda>_. True"
proof
  fix h :: reac_hunt and e
  assume inv: "table_inv (hu_table h)"
  show "table_inv (hu_table (hunt_apply h e))"
  proof (cases e)
    case (Hunt_Frame f now)
    let ?f = "take (reac_frame_clean_len (length f)) f"
    obtain l s where c: "reac_disco_classify_on_segment (hu_lock h) ?f (hu_our_mac h) = (l, s)" by (cases "reac_disco_classify_on_segment (hu_lock h) ?f (hu_our_mac h)")
    show ?thesis
    proof (cases s)
      case None
      then show ?thesis using inv Hunt_Frame c by (simp add: reac_hunt_observe_def)
    next
      case (Some x)
      then have "hu_table (hunt_apply h e) = fst (reac_disco_table_observe (hu_table h) x False now)"
        using Hunt_Frame c by (simp add: reac_hunt_observe_def split_beta Let_def)
      then show ?thesis using table_inv_observe [OF inv] by simp
    qed
  qed (use inv in \<open>simp_all add: reac_hunt_step_def reac_hunt_pin_def reac_hunt_silence_proven_def table_inv_age Let_def\<close>)
qed

lemma hunt_run_inv: "table_inv (hu_table (hunt_run our t0 es))"
  unfolding hunt_run_def
  by (rule hunt.inv_run) (simp_all add: reac_hunt_init_def table_inv_def reac_disco_table_init_def list_all_iff)

text \<open>The hunt as a step leaves it: aged and arbitrated, the verdict still the old one.\<close>

definition arbitrated :: "reac_hunt \<Rightarrow> u64 \<Rightarrow> reac_hunt" where
  "arbitrated h now =
     (let h = h\<lparr> hu_table := fst (reac_disco_table_age (hu_table h) now) \<rparr>
      in h\<lparr> hu_arb := reac_arbitrate (Some (hu_table h)) (Some (hu_our_mac h)) REAC_M_IDLE REAC_PACE_FREE_RUN now \<rparr>)"

lemma hunt_step_eq:
  "reac_hunt_step h now = ((arbitrated h now)\<lparr> hu_verdict := decide (arbitrated h now) now \<rparr>,
     decide (arbitrated h now) now \<noteq> hu_verdict h)"
  by (simp add: reac_hunt_step_def arbitrated_def Let_def)

lemma arbitrated_keeps [simp]:
  "hu_our_mac (arbitrated h now) = hu_our_mac h" "hu_pinned (arbitrated h now) = hu_pinned h"
  "hu_pin (arbitrated h now) = hu_pin h" "hu_verdict (arbitrated h now) = hu_verdict h"
  "hu_silence_proven (arbitrated h now) = hu_silence_proven h" "hu_opened_ns (arbitrated h now) = hu_opened_ns h"
  by (simp_all add: arbitrated_def Let_def)

lemma arbitrated_foreign:
  assumes "table_inv (hu_table h)" and "ar_state (hu_arb (arbitrated h now)) = REAC_SEGMENT_FOREIGN"
  obtains e where "foreign_master (hu_table (arbitrated h now)) (Some (hu_our_mac h)) now = Some e"
    and "ar_rival (hu_arb (arbitrated h now)) = reac_rival_kind_of (Some e)"
    and "rival_evidence (arbitrated h now) now = RIVAL_STREAMS \<longleftrightarrow> entry_streams e"
proof -
  let ?a = "arbitrated h now"
  let ?t = "hu_table ?a"
  have arb: "hu_arb ?a = reac_arbitrate (Some ?t) (Some (hu_our_mac h)) REAC_M_IDLE REAC_PACE_FREE_RUN now"
    by (simp add: arbitrated_def Let_def)
  then obtain e where e: "foreign_master ?t (Some (hu_our_mac h)) now = Some e"
    using assms(2) by (auto simp: arbitrate_idle split: option.splits)
  then have a: "ar_rival (hu_arb ?a) = reac_rival_kind_of (Some e)" "ar_mac (hu_arb ?a) = de_mac e" "ar_have_mac (hu_arb ?a)"
    by (simp_all add: arb arbitrate_idle)
  have "table_inv ?t" using table_inv_age [OF assms(1)] by (simp add: arbitrated_def Let_def)
  then have dist: "distinct (map de_mac (dt_e ?t))" by (simp add: table_inv_def)
  have mem: "e \<in> set (dt_e ?t)" using foreign_master_props(2) [OF e] by blast
  have "List.find (\<lambda>x. de_mac x = de_mac e) (dt_e ?t) = Some e"
  proof (cases "List.find (\<lambda>x. de_mac x = de_mac e) (dt_e ?t)")
    case None
    then show ?thesis using mem by (auto simp: find_None_iff)
  next
    case (Some x)
    then have "x \<in> set (dt_e ?t)" "de_mac x = de_mac e" by (auto simp: find_Some_iff)
    then show ?thesis using Some dist mem by (metis distinct_map inj_onD)
  qed
  then have "rival_evidence ?a now = RIVAL_STREAMS \<longleftrightarrow> entry_streams e"
    using a by (simp add: rival_evidence_def)
  then show ?thesis using that e a(1) by blast
qed

text \<open>C24: A verdict is earned. Whatever frames arrived and however the operator pinned, a step of the hunt
  turns to following only when the freshest foreign master on the wire has streamed at least eight frames
  over twenty milliseconds and is not of an unreadable kind (or the operator pinned that role); it refuses
  only for such a stream of an unreadable kind; and it turns to mastering an unpinned wire only when no
  live desk-shaped sender is there and either silence was proven or three seconds passed and a box is
  present.\<close>

theorem hunt_verdict_earned:
  assumes "h = hunt_run our t0 es" and "h' = fst (reac_hunt_step h now)" and "hu_verdict h' \<noteq> hu_verdict h"
  shows "(hu_verdict h' = REAC_HUNT_SLAVE \<longrightarrow>
      hu_pinned h \<and> hu_pin h = REAC_ROLE_SLAVE \<or>
      (\<exists>e. foreign_streams h' now e \<and> reac_rival_kind_of (Some e) \<notin> {REAC_RIVAL_UNKNOWN, REAC_RIVAL_PENDING} \<and>
         (\<forall>e' \<in> set (dt_e (hu_table h')). is_foreign_master (Some (hu_our_mac h)) now e' \<longrightarrow> de_last_seen_ns e' \<le> de_last_seen_ns e))) \<and>
    (hu_verdict h' = REAC_HUNT_REFUSED \<longrightarrow>
      \<not> hu_pinned h \<and> (\<exists>e. foreign_streams h' now e \<and> reac_rival_kind_of (Some e) = REAC_RIVAL_UNKNOWN)) \<and>
    (hu_verdict h' = REAC_HUNT_MASTER \<longrightarrow>
      hu_pinned h \<and> hu_pin h = REAC_ROLE_MASTER \<or>
      \<not> hu_pinned h \<and> \<not> desk_geometry_live (hu_table h') (Some (hu_our_mac h)) now \<and>
      (hu_silence_proven h \<or> now - hu_opened_ns h \<ge> REAC_HUNT_WINDOW_NS \<and> box_present (hu_table h') now))"
proof -
  let ?a = "arbitrated h now"
  have inv: "table_inv (hu_table h)" unfolding assms(1) by (rule hunt_run_inv)
  have v: "hu_verdict h' = decide ?a now" and t: "hu_table h' = hu_table ?a" and m: "hu_our_mac h' = hu_our_mac h"
    by (simp_all add: assms(2) hunt_step_eq)
  have ne: "decide ?a now \<noteq> hu_verdict h" using assms(3) v by simp
  define S where "S = (\<exists>e. foreign_streams h' now e \<and> reac_rival_kind_of (Some e) \<notin> {REAC_RIVAL_UNKNOWN, REAC_RIVAL_PENDING} \<and>
    (\<forall>e' \<in> set (dt_e (hu_table h')). is_foreign_master (Some (hu_our_mac h)) now e' \<longrightarrow> de_last_seen_ns e' \<le> de_last_seen_ns e))"
  define R where "R = (\<exists>e. foreign_streams h' now e \<and> reac_rival_kind_of (Some e) = REAC_RIVAL_UNKNOWN)"
  have SR: "(ar_rival (hu_arb ?a) \<notin> {REAC_RIVAL_UNKNOWN, REAC_RIVAL_PENDING} \<longrightarrow> S) \<and> (ar_rival (hu_arb ?a) = REAC_RIVAL_UNKNOWN \<longrightarrow> R)"
    if f: "ar_state (hu_arb ?a) = REAC_SEGMENT_FOREIGN" and st: "rival_evidence ?a now = RIVAL_STREAMS"
  proof -
    obtain e where e: "foreign_master (hu_table ?a) (Some (hu_our_mac h)) now = Some e"
      and k: "ar_rival (hu_arb ?a) = reac_rival_kind_of (Some e)"
      and ev: "rival_evidence ?a now = RIVAL_STREAMS \<longleftrightarrow> entry_streams e"
      using inv f by (rule arbitrated_foreign)
    note fm = foreign_master_props(2) [OF e]
    then have "foreign_streams h' now e" using st ev by (simp add: foreign_streams_def t m)
    then show ?thesis unfolding S_def R_def k t using fm by blast
  qed
  have vac: "decide_vacant ?a now = REAC_HUNT_MASTER \<longrightarrow> \<not> desk_geometry_live (hu_table h') (Some (hu_our_mac h)) now \<and>
      (hu_silence_proven h \<or> now - hu_opened_ns h \<ge> REAC_HUNT_WINDOW_NS \<and> box_present (hu_table h') now)"
    "decide_vacant ?a now \<noteq> REAC_HUNT_SLAVE" "decide_vacant ?a now \<noteq> REAC_HUNT_REFUSED"
    by (auto simp: decide_vacant_def t not_less)
  show ?thesis
    unfolding S_def [symmetric] R_def [symmetric] v
  proof (cases "hu_pinned h")
    case True
    then show "(decide ?a now = REAC_HUNT_SLAVE \<longrightarrow> hu_pinned h \<and> hu_pin h = REAC_ROLE_SLAVE \<or> S) \<and>
        (decide ?a now = REAC_HUNT_REFUSED \<longrightarrow> \<not> hu_pinned h \<and> R) \<and>
        (decide ?a now = REAC_HUNT_MASTER \<longrightarrow> hu_pinned h \<and> hu_pin h = REAC_ROLE_MASTER \<or>
          \<not> hu_pinned h \<and> \<not> desk_geometry_live (hu_table h') (Some (hu_our_mac h)) now \<and>
          (hu_silence_proven h \<or> now - hu_opened_ns h \<ge> REAC_HUNT_WINDOW_NS \<and> box_present (hu_table h') now))"
      using ne SR by (cases "hu_pin h"; cases "rival_evidence ?a now") (auto simp: decide_def split: if_splits)
  next
    case False
    then show "(decide ?a now = REAC_HUNT_SLAVE \<longrightarrow> hu_pinned h \<and> hu_pin h = REAC_ROLE_SLAVE \<or> S) \<and>
        (decide ?a now = REAC_HUNT_REFUSED \<longrightarrow> \<not> hu_pinned h \<and> R) \<and>
        (decide ?a now = REAC_HUNT_MASTER \<longrightarrow> hu_pinned h \<and> hu_pin h = REAC_ROLE_MASTER \<or>
          \<not> hu_pinned h \<and> \<not> desk_geometry_live (hu_table h') (Some (hu_our_mac h)) now \<and>
          (hu_silence_proven h \<or> now - hu_opened_ns h \<ge> REAC_HUNT_WINDOW_NS \<and> box_present (hu_table h') now))"
      using ne SR vac by (cases "rival_evidence ?a now") (auto simp: decide_def split: if_splits)
  qed
qed

theorem hunt_verdict_earned_witness:
  "hu_verdict (fst (reac_hunt_step (hunt_run None 0 [Hunt_Silence]) 9)) = REAC_HUNT_MASTER \<and>
   hu_silence_proven (hunt_run None 0 [Hunt_Silence])"
proof -
  let ?h = "hunt_run None 0 [Hunt_Silence]"
  have v: "hu_verdict (fst (reac_hunt_step ?h 9)) = REAC_HUNT_MASTER" "hu_verdict ?h = REAC_HUNT_HUNTING" "\<not> hu_pinned ?h"
    by (simp_all add: hunt_run_def reac_hunt_step_def reac_hunt_init_def reac_hunt_silence_proven_def reac_disco_table_init_def
        reac_disco_table_age_def age_loop.simps arbitrate_idle foreign_master_def decide_def decide_vacant_def
        desk_geometry_live_def Let_def)
  then have ne: "hu_verdict (fst (reac_hunt_step ?h 9)) \<noteq> hu_verdict ?h" by simp
  show ?thesis using hunt_verdict_earned [OF refl refl ne] v
    by (auto simp: hunt_run_def reac_hunt_silence_proven_def)
qed

end
