(* ===== verification/Reac_Link_State.thy ===== *)
theory Reac_Link_State
  imports Reac_Disco Reac_Macaddr Reac_Master_Fsm
begin

text \<open>
  What the link publishes, \<^verbatim>\<open>src/reac_link_state.c\<close>. The property setter is a callback; a publisher
  is modelled by the list of its calls, key and value, in order. A null setter makes no call.
\<close>

datatype reac_link_state = REAC_LINK_PROBING | REAC_LINK_GRANTING | REAC_LINK_ESTABLISHED | REAC_LINK_DROPPED

definition reac_link_state_from_master :: "reac_master_state \<Rightarrow> bool \<Rightarrow> reac_link_state" where
  "reac_link_state_from_master st just_dropped =
     (if just_dropped then REAC_LINK_DROPPED
      else case st of
             REAC_M_GRANTING \<Rightarrow> REAC_LINK_GRANTING
           | REAC_M_ESTABLISHED \<Rightarrow> REAC_LINK_ESTABLISHED
           | _ \<Rightarrow> REAC_LINK_PROBING)"

fun reac_link_state_name :: "reac_link_state \<Rightarrow> string" where
  "reac_link_state_name REAC_LINK_PROBING = ''probing''"
| "reac_link_state_name REAC_LINK_GRANTING = ''granting''"
| "reac_link_state_name REAC_LINK_ESTABLISHED = ''established''"
| "reac_link_state_name REAC_LINK_DROPPED = ''dropped''"

definition reac_box_mac_publish :: "u64 \<Rightarrow> (string \<times> string) list" where
  "reac_box_mac_publish mac48 =
     [(''reac.box.mac'', if mac48 = 0 then ''none'' else take 17 (mac_string (reac_mac48_unpack mac48)))]"

definition reac_box_master_identity_publish :: "u32 \<Rightarrow> u64 \<Rightarrow> bool \<Rightarrow> (string \<times> string) list" where
  "reac_box_master_identity_publish width mac48 locked =
     (''reac.link-state'', reac_link_state_name (if locked then REAC_LINK_ESTABLISHED else REAC_LINK_PROBING))
     # (if width > 0 then [(''reac.box-width'', take 11 (dec_nat (unat width)))] else [])
     @ reac_box_mac_publish mac48"

definition hw_string :: "bytes \<Rightarrow> string" where
  "hw_string raw = take 23 (concat (map hex02 (take 4 raw)) @ '' '' @ concat (map hex02 (peek 4 4 raw)))"

definition reac_box_identity_publish :: "reac_identity option \<Rightarrow> (string \<times> string) list" where
  "reac_box_identity_publish ident =
     [(''reac.box-firmware'',
       case ident of
         Some i \<Rightarrow> if id_has_fw i then (case reac_identity_fw_str (id_fw_milli i) REAC_IDENTITY_FW_STR_CAP of
                                         Some s \<Rightarrow> s | None \<Rightarrow> '''') else ''''
       | None \<Rightarrow> ''''),
      (''reac.box.reac_version'',
       case ident of
         Some i \<Rightarrow> if id_has_reac_version i
                  then (case reac_identity_reac_ver_str (id_reac_version_major i) (id_reac_version_minor i)
                               (id_reac_version_patch i) REAC_IDENTITY_REAC_VER_STR_CAP of
                          Some s \<Rightarrow> s | None \<Rightarrow> '''') else ''''
       | None \<Rightarrow> ''''),
      (''reac.box-hw'',
       case ident of
         Some i \<Rightarrow> if id_has_reac_version i then hw_string (id_reac_version_raw i) else ''''
       | None \<Rightarrow> '''')]"

section \<open>A published address names one box\<close>

lemma hex_char_inj: "a < 16 \<Longrightarrow> b < 16 \<Longrightarrow> hex_char a = hex_char b \<longleftrightarrow> a = b"
proof -
  have c: "of_char (hex_char d) = (if d < 10 then 48 + d else 87 + d)" if "d < 16" for d
    using that by (simp add: hex_char_def digit_char_code take_bit_nat_eq_self)
  show "a < 16 \<Longrightarrow> b < 16 \<Longrightarrow> hex_char a = hex_char b \<longleftrightarrow> a = b"
  proof
    assume ab: "a < 16" "b < 16" "hex_char a = hex_char b"
    then have "(if a < 10 then 48 + a else 87 + a) = (if b < 10 then 48 + b else 87 + b)" using c by metis
    then show "a = b" using ab by (auto split: if_splits)
  qed simp
qed

lemma hex02_inj: "hex02 a = hex02 b \<longleftrightarrow> a = b"
proof
  assume "hex02 a = hex02 b"
  then have "unat a div 16 = unat b div 16" "unat a mod 16 = unat b mod 16"
    using unsigned_less [of a, where ?'a = nat] unsigned_less [of b, where ?'a = nat]
    by (simp_all add: hex02_def hex_char_inj)
  then have "unat a = unat b" by (metis div_mult_mod_eq)
  then show "a = b" by (simp only: word_unat_eq_iff)
qed simp

lemma mac_string_inj:
  assumes "length a = 6" and "length b = 6" and "mac_string a = mac_string b"
  shows "a = b"
proof -
  obtain a0 a1 a2 a3 a4 a5 where a: "a = [a0, a1, a2, a3, a4, a5]" using assms(1) by (rule list6)
  obtain b0 b1 b2 b3 b4 b5 where b: "b = [b0, b1, b2, b3, b4, b5]" using assms(2) by (rule list6)
  have l: "length (hex02 x) = 2" for x by (simp add: hex02_def)
  have "hex02 a0 = hex02 b0 \<and> hex02 a1 = hex02 b1 \<and> hex02 a2 = hex02 b2 \<and> hex02 a3 = hex02 b3 \<and> hex02 a4 = hex02 b4 \<and> hex02 a5 = hex02 b5"
    using assms(3) by (simp add: a b mac_string_def hex02_def)
  then show ?thesis by (simp add: a b hex02_inj)
qed

lemma box_mac_published_inj:
  assumes "v < 2 ^ 48" and "w < 2 ^ 48" and "reac_box_mac_publish v = reac_box_mac_publish w"
  shows "v = w"
proof -
  have len: "length (reac_mac48_unpack x) = 6" for x by (simp add: mac48_unpack_eq)
  have t: "take 17 (mac_string m) = mac_string m" for m by simp
  have n: "mac_string m \<noteq> ''none''" for m
  proof
    assume "mac_string m = ''none''"
    then have "length (mac_string m) = 4" by simp
    then show False by simp
  qed
  show ?thesis
  proof (cases "v = 0 \<or> w = 0")
    case True
    then show ?thesis using assms(3) n n [symmetric]
      by (cases "v = 0"; cases "w = 0") (simp_all add: reac_box_mac_publish_def)
  next
    case False
    then have "mac_string (reac_mac48_unpack v) = mac_string (reac_mac48_unpack w)"
      using assms(3) by (simp add: reac_box_mac_publish_def)
    then have "reac_mac48_unpack v = reac_mac48_unpack w" by (rule mac_string_inj [OF len len])
    then show ?thesis using mac48_pack_unpack [OF assms(1)] mac48_pack_unpack [OF assms(2)] by metis
  qed
qed

end
