(* ===== verification/Reac_Pcap.thy ===== *)
theory Reac_Pcap
  imports Reac_Prelude
begin

text \<open>
  Reading a capture file, \<^verbatim>\<open>src/pcap_source.c\<close>. The open file is the list of bytes not yet read; a
  short \<^verbatim>\<open>fread\<close> leaves none. \<open>pcap_source_next\<close> returns the state, the C result, the bytes put in
  the caller's buffer of \<open>cap\<close> bytes and the time stamp; its loop ends because every turn takes a
  record header off the file.
\<close>

record pcap_source =
  ps_f :: "bytes option"
  ps_swapped :: bool
  ps_last_orig_len :: u32
  ps_last_vlan_tagged :: bool
  ps_last_vlan_id :: u16
  ps_skipped_oversized :: u32

definition le32 :: "bytes \<Rightarrow> u32" where
  "le32 p = ucast (p ! 0) OR push_bit 8 (ucast (p ! 1)) OR push_bit 16 (ucast (p ! 2)) OR push_bit 24 (ucast (p ! 3))"

definition bswap32 :: "u32 \<Rightarrow> u32" where
  "bswap32 v = push_bit 24 (v AND 0xff) OR push_bit 8 (v AND 0xff00) OR drop_bit 8 (v AND 0xff0000) OR drop_bit 24 v"

definition rd_u32 :: "bytes \<Rightarrow> bool \<Rightarrow> u32" where
  "rd_u32 p swap = (let v = le32 p in if swap then bswap32 v else v)"

abbreviation (input) PCAP_MAGIC :: u32 where "PCAP_MAGIC \<equiv> 0xA1B2C3D4"
abbreviation (input) PCAP_MAGIC_SWAP :: u32 where "PCAP_MAGIC_SWAP \<equiv> 0xD4C3B2A1"

definition pcap_source_open :: "bytes option \<Rightarrow> pcap_source \<times> int" where
  "pcap_source_open file =
     (let ps = \<lparr> ps_f = file, ps_swapped = False, ps_last_orig_len = 0, ps_last_vlan_tagged = False,
                 ps_last_vlan_id = 0, ps_skipped_oversized = 0 \<rparr>
      in case file of
           None \<Rightarrow> (ps, - 1)
         | Some f \<Rightarrow>
             if length f < 24 then (ps\<lparr> ps_f := None \<rparr>, - 1)
             else if le32 f = PCAP_MAGIC then (ps\<lparr> ps_f := Some (drop 24 f), ps_swapped := False \<rparr>, 0)
             else if le32 f = PCAP_MAGIC_SWAP then (ps\<lparr> ps_f := Some (drop 24 f), ps_swapped := True \<rparr>, 0)
             else (ps\<lparr> ps_f := None \<rparr>, - 1))"

text \<open>Reading past an oversized record, a buffer's worth at a time.\<close>

function skip_chunks :: "nat \<Rightarrow> nat \<Rightarrow> bytes \<Rightarrow> bool \<times> bytes" where
  "skip_chunks cap left f =
     (if left = 0 then (True, f)
      else let chunk = (if left < cap then left else cap)
           in if chunk = 0 then (False, f)
              else if length f < chunk then (False, [])
              else skip_chunks cap (left - chunk) (drop chunk f))"
  by pat_completeness auto

termination
  by (relation "measure (\<lambda>(cap, left, f). left)") (auto split: if_splits)

declare skip_chunks.simps [simp del]

lemma skip_chunks_eq:
  "skip_chunks cap left f =
     (if left = 0 then (True, f) else if cap = 0 then (False, f)
      else if left \<le> length f then (True, drop left f) else (False, []))"
proof (induction cap left f rule: skip_chunks.induct)
  case (1 cap left f)
  show ?case
  proof (cases "left = 0 \<or> cap = 0 \<or> length f < min left cap")
    case True
    then show ?thesis by (subst skip_chunks.simps) (auto simp: min_def split: if_splits)
  next
    case False
    then have "skip_chunks cap left f = skip_chunks cap (left - min left cap) (drop (min left cap) f)"
      by (subst skip_chunks.simps) (auto simp: Let_def min_def)
    moreover have "skip_chunks cap (left - min left cap) (drop (min left cap) f) =
      (if left - min left cap = 0 then (True, drop (min left cap) f) else if cap = 0 then (False, drop (min left cap) f)
       else if left - min left cap \<le> length (drop (min left cap) f)
       then (True, drop (left - min left cap) (drop (min left cap) f)) else (False, []))"
      using 1 [of "min left cap"] False by (auto simp: min_def)
    ultimately show ?thesis using False by (auto simp: min_def split: if_splits)
  qed
qed

lemma skip_chunks_length: "length (snd (skip_chunks cap left f)) \<le> length f"
  by (simp add: skip_chunks_eq)

text \<open>The 802.1Q tag is taken out of the frame and remembered.\<close>

definition strip_vlan :: "bytes \<Rightarrow> bytes \<times> bool \<times> u16" where
  "strip_vlan b =
     (if length b \<ge> 18 \<and> b ! 12 = 0x81 \<and> b ! 13 = 0x00
      then (take 12 b @ drop 16 b, True, u16be (b ! 14) (b ! 15) AND 0x0fff)
      else (b, False, 0))"

function pcap_next_loop :: "pcap_source \<Rightarrow> bytes \<Rightarrow> nat \<Rightarrow> pcap_source \<times> int \<times> bytes \<times> u64" where
  "pcap_next_loop ps f cap =
     (if f = [] then (ps\<lparr> ps_f := Some [] \<rparr>, 0, [], 0)
      else if length f < 16 then (ps\<lparr> ps_f := Some [] \<rparr>, - 1, [], 0)
      else let ph = take 16 f; f = drop 16 f;
               sec = rd_u32 ph (ps_swapped ps);
               usec = rd_u32 (drop 4 ph) (ps_swapped ps);
               incl = unat (rd_u32 (drop 8 ph) (ps_swapped ps))
           in if incl = 0 then pcap_next_loop ps f cap
              else let ps = ps\<lparr> ps_last_orig_len := rd_u32 (drop 12 ph) (ps_swapped ps) \<rparr>
                   in if incl > cap then
                        (let ps = ps\<lparr> ps_skipped_oversized := ps_skipped_oversized ps + 1 \<rparr>;
                             (ok, f) = skip_chunks cap incl f
                         in if ok then pcap_next_loop ps f cap else (ps\<lparr> ps_f := Some f \<rparr>, - 1, [], 0))
                      else if length f < incl then (ps\<lparr> ps_f := Some [] \<rparr>, - 1, [], 0)
                      else let (b, tagged, vid) = strip_vlan (take incl f)
                           in (ps\<lparr> ps_f := Some (drop incl f), ps_last_vlan_tagged := tagged, ps_last_vlan_id := vid \<rparr>,
                               int (length b), b, ucast sec * 1000000 + ucast usec))"
  by pat_completeness auto

termination
proof (relation "measure (\<lambda>(ps, f, cap). length f)", goal_cases)
  case (3 ps f cap ph f' sec usec incl ps1 ps2 x ok f'')
  have "x = skip_chunks cap incl f'" "(ok, f'') = x" using 3 by simp_all
  then have "length f'' \<le> length f'" using skip_chunks_length [of cap incl f'] by (metis snd_conv)
  then show ?case using 3 by simp
qed auto

declare pcap_next_loop.simps [simp del]

definition pcap_source_next :: "pcap_source \<Rightarrow> nat \<Rightarrow> pcap_source \<times> int \<times> bytes \<times> u64" where
  "pcap_source_next ps cap =
     (case ps_f ps of None \<Rightarrow> (ps, - 1, [], 0) | Some f \<Rightarrow> pcap_next_loop ps f cap)"

definition pcap_source_close :: "pcap_source \<Rightarrow> pcap_source" where
  "pcap_source_close ps = ps\<lparr> ps_f := None \<rparr>"

section \<open>Records\<close>

definition enc32 :: "bool \<Rightarrow> u32 \<Rightarrow> bytes" where
  "enc32 swap v =
     (let b = [ucast v, ucast (drop_bit 8 v), ucast (drop_bit 16 v), ucast (drop_bit 24 v)] in if swap then rev b else b)"

record pcap_record =
  pr_sec :: u32
  pr_usec :: u32
  pr_orig :: u32
  pr_data :: bytes

definition enc_record :: "bool \<Rightarrow> pcap_record \<Rightarrow> bytes" where
  "enc_record swap r = enc32 swap (pr_sec r) @ enc32 swap (pr_usec r) @ enc32 swap (of_nat (length (pr_data r)))
     @ enc32 swap (pr_orig r) @ pr_data r"

definition enc_file :: "bool \<Rightarrow> bytes \<Rightarrow> pcap_record list \<Rightarrow> bytes" where
  "enc_file swap hdr rs = enc32 swap PCAP_MAGIC @ hdr @ concat (map (enc_record swap) rs)"

lemma length_enc32 [simp]: "length (enc32 swap v) = 4"
  by (simp add: enc32_def Let_def)

lemma byte_cases:
  fixes n :: nat
  obtains "n < 8" | "8 \<le> n" "n < 16" | "16 \<le> n" "n < 24" | "24 \<le> n" "n < 32" | "32 \<le> n"
  by linarith

lemma le32_bytes:
  "le32 [ucast v, ucast (drop_bit 8 v), ucast (drop_bit 16 v), ucast (drop_bit 24 v)] = v"
proof (rule bit_word_eqI)
  fix n
  show "bit (le32 [ucast v, ucast (drop_bit 8 v), ucast (drop_bit 16 v), ucast (drop_bit 24 v)]) n = bit v n"
    by (cases n rule: byte_cases) (auto simp: le32_def bit_simps less_diff_conv2 dest: bit_imp_le_length)
qed

lemma le32_rev_bytes:
  "bswap32 (le32 [ucast (drop_bit 24 v), ucast (drop_bit 16 v), ucast (drop_bit 8 v), ucast v]) = v"
proof -
  have m: "(0xff :: u32) = mask 8" "(0xff00 :: u32) = push_bit 8 (mask 8)" "(0xff0000 :: u32) = push_bit 16 (mask 8)"
    by (simp_all add: mask_eq_exp_minus_1 push_bit_eq_mult)
  show ?thesis
  proof (rule bit_word_eqI)
    fix n
    show "bit (bswap32 (le32 [ucast (drop_bit 24 v), ucast (drop_bit 16 v), ucast (drop_bit 8 v), ucast v])) n = bit v n"
      unfolding bswap32_def m
      by (cases n rule: byte_cases) (auto simp: le32_def bit_simps less_diff_conv2 dest: bit_imp_le_length)
  qed
qed

lemma rd_u32_enc32 [simp]: "rd_u32 (enc32 swap v @ rest) swap = v"
proof -
  have app: "le32 (a # b # c # d # rest) = le32 [a, b, c, d]" for a b c d
    by (simp add: le32_def)
  show ?thesis
    by (simp add: rd_u32_def enc32_def Let_def app le32_bytes le32_rev_bytes)
qed

lemma enc_record_parts:
  "length (enc_record swap r) = 16 + length (pr_data r)"
  "enc_record swap r \<noteq> []"
  "rd_u32 (take 16 (enc_record swap r)) swap = pr_sec r"
  "rd_u32 (drop 4 (take 16 (enc_record swap r))) swap = pr_usec r"
  "rd_u32 (drop 8 (take 16 (enc_record swap r))) swap = of_nat (length (pr_data r))"
  "rd_u32 (drop 12 (take 16 (enc_record swap r))) swap = pr_orig r"
  "drop 16 (enc_record swap r) = pr_data r"
  using rd_u32_enc32 [of swap "pr_orig r" "[]"] by (simp_all add: enc_record_def flip: length_greater_0_conv)

text \<open>A record a caller with \<open>cap\<close> bytes of room receives, and what the call returns for it.\<close>

definition record_fits :: "nat \<Rightarrow> pcap_record \<Rightarrow> bool" where
  "record_fits cap r = (pr_data r \<noteq> [] \<and> length (pr_data r) \<le> cap)"

definition record_out :: "pcap_record \<Rightarrow> int \<times> bytes \<times> u64" where
  "record_out r = (let b = fst (strip_vlan (pr_data r))
                   in (int (length b), b, ucast (pr_sec r) * 1000000 + ucast (pr_usec r)))"

lemma pcap_next_loop_record:
  assumes "ps_swapped ps = swap" "length (pr_data r) < 2 ^ 32" "0 < cap"
  shows "record_fits cap r \<Longrightarrow> \<exists>ps'. pcap_next_loop ps (enc_record swap r @ rest) cap = (ps', record_out r)
           \<and> ps_f ps' = Some rest \<and> ps_swapped ps' = swap"
    and "\<not> record_fits cap r \<Longrightarrow> \<exists>ps'. pcap_next_loop ps (enc_record swap r @ rest) cap = pcap_next_loop ps' rest cap
           \<and> ps_swapped ps' = swap"
proof -
  let ?f = "enc_record swap r @ rest"
  have len: "unat (of_nat (length (pr_data r)) :: u32) = length (pr_data r)"
    using assms(2) by (simp add: unat_of_nat take_bit_eq_mod)
  note step = pcap_next_loop.simps [of ps ?f cap] enc_record_parts len assms(1) Let_def
  show "\<exists>ps'. pcap_next_loop ps ?f cap = (ps', record_out r) \<and> ps_f ps' = Some rest \<and> ps_swapped ps' = swap"
    if "record_fits cap r"
    using that by (simp add: step record_fits_def record_out_def split: prod.splits)
  show "\<exists>ps'. pcap_next_loop ps ?f cap = pcap_next_loop ps' rest cap \<and> ps_swapped ps' = swap"
    if nofit: "\<not> record_fits cap r"
  proof (cases "pr_data r = []")
    case True
    then have "rd_u32 (drop 8 (enc_record swap r)) swap = 0"
      using enc_record_parts(5) [of swap r] by (simp add: enc_record_parts(1))
    then show ?thesis using True by (intro exI [of _ ps]) (simp add: step)
  next
    case False
    with nofit have "cap < length (pr_data r)" by (simp add: record_fits_def)
    then show ?thesis using False assms(3)
      by (intro exI [of _ "ps\<lparr> ps_last_orig_len := pr_orig r, ps_skipped_oversized := ps_skipped_oversized ps + 1 \<rparr>"])
        (simp add: step skip_chunks_eq)
  qed
qed

text \<open>\<open>n\<close> calls in a row, as a replay tool makes them.\<close>

primrec pcap_reads :: "nat \<Rightarrow> pcap_source \<Rightarrow> nat \<Rightarrow> (int \<times> bytes \<times> u64) list" where
  "pcap_reads 0 ps cap = []"
| "pcap_reads (Suc n) ps cap = (let (ps, out) = pcap_source_next ps cap in out # pcap_reads n ps cap)"

definition records_small :: "pcap_record list \<Rightarrow> bool" where
  "records_small rs = list_all (\<lambda>r. length (pr_data r) < 2 ^ 32) rs"

lemma pcap_next_loop_records:
  assumes "ps_swapped ps = swap" "records_small rs" "0 < cap"
  shows "filter (record_fits cap) rs = [] \<Longrightarrow>
           \<exists>ps'. pcap_next_loop ps (concat (map (enc_record swap) rs)) cap = (ps', 0, [], 0)"
    and "filter (record_fits cap) rs = r # fs \<Longrightarrow>
           \<exists>ps' rs'. pcap_next_loop ps (concat (map (enc_record swap) rs)) cap = (ps', record_out r)
             \<and> ps_f ps' = Some (concat (map (enc_record swap) rs')) \<and> ps_swapped ps' = swap
             \<and> records_small rs' \<and> filter (record_fits cap) rs' = fs"
  using assms(1,2)
proof (induction rs arbitrary: ps)
  case Nil
  {
    case 1
    then show ?case by (simp add: pcap_next_loop.simps)
  next
    case 2
    then show ?case by simp
  }
next
  case (Cons q rs)
  let ?rest = "concat (map (enc_record swap) rs)"
  {
    case 1
    then have small: "length (pr_data q) < 2 ^ 32" "records_small rs" and no: "\<not> record_fits cap q"
      by (auto simp: records_small_def split: if_splits)
    show ?case
      using pcap_next_loop_record(2) [OF 1(2) small(1) assms(3) no, of ?rest] Cons.IH(1) [OF _ _ small(2)] 1(1) no by fastforce
  next
    case 2
    then have small: "length (pr_data q) < 2 ^ 32" "records_small rs" by (auto simp: records_small_def)
    show ?case
    proof (cases "record_fits cap q")
      case True
      then show ?thesis
        using pcap_next_loop_record(1) [OF 2(2) small(1) assms(3) True, of ?rest] small(2) 2(1) by auto
    next
      case False
      then show ?thesis
        using pcap_next_loop_record(2) [OF 2(2) small(1) assms(3) False, of ?rest] Cons.IH(2) [OF _ _ small(2)] 2(1) by fastforce
    qed
  }
qed

lemma pcap_reads_records:
  assumes "ps_swapped ps = swap" "ps_f ps = Some (concat (map (enc_record swap) rs))" "records_small rs" "0 < cap"
  shows "pcap_reads (Suc (length (filter (record_fits cap) rs))) ps cap
       = map record_out (filter (record_fits cap) rs) @ [(0, [], 0)]"
  using assms(1-3)
proof (induction "filter (record_fits cap) rs" arbitrary: ps rs)
  case Nil
  then show ?case
    using pcap_next_loop_records(1) [OF Nil(2,4) assms(4)] by (auto simp: pcap_source_next_def simp flip: Nil(1))
next
  case (Cons r fs)
  obtain ps' rs' where
    "pcap_source_next ps cap = (ps', record_out r)" "ps_f ps' = Some (concat (map (enc_record swap) rs'))"
    "ps_swapped ps' = swap" "records_small rs'" "filter (record_fits cap) rs' = fs"
    using pcap_next_loop_records(2) [OF Cons(3,5) assms(4), of r fs] Cons(2,4) by (auto simp: pcap_source_next_def)
  then show ?case using Cons(1) [of rs' ps'] by (simp flip: Cons(2))
qed

lemma pcap_open_file:
  assumes "length hdr = 20"
  shows "pcap_source_open (Some (enc_file swap hdr rs)) =
    (\<lparr> ps_f = Some (concat (map (enc_record swap) rs)), ps_swapped = swap, ps_last_orig_len = 0, ps_last_vlan_tagged = False,
       ps_last_vlan_id = 0, ps_skipped_oversized = 0 \<rparr>, 0)"
proof -
  have "le32 (enc_file swap hdr rs) = (if swap then PCAP_MAGIC_SWAP else PCAP_MAGIC)"
    by (simp add: enc_file_def enc32_def le32_def)
  then show ?thesis using assms by (simp add: pcap_source_open_def Let_def enc_file_def)
qed

text \<open>C36: Reading a capture file back, whatever the byte order it was written in: opening a file of records
  succeeds, and one call of \<open>pcap_source_next\<close> after another returns the frame (its 802.1Q tag taken out)
  and the time stamp of every record that is not empty and fits the caller's buffer, in the order of the
  file, stepping over the others, and then reports the end of the file.\<close>

theorem pcap_round_trip:
  assumes "length hdr = 20" "records_small rs" "0 < cap"
  shows "snd (pcap_source_open (Some (enc_file swap hdr rs))) = 0
       \<and> pcap_reads (Suc (length (filter (record_fits cap) rs))) (fst (pcap_source_open (Some (enc_file swap hdr rs)))) cap
         = map record_out (filter (record_fits cap) rs) @ [(0, [], 0)]"
  by (simp add: pcap_open_file [OF assms(1)] pcap_reads_records [OF _ _ assms(2,3)] del: pcap_reads.simps)

definition pcap_example :: "pcap_record list" where
  "pcap_example =
     [\<lparr> pr_sec = 1, pr_usec = 2, pr_orig = 3, pr_data = [1, 2, 3] \<rparr>,
      \<lparr> pr_sec = 2, pr_usec = 0, pr_orig = 0, pr_data = [] \<rparr>,
      \<lparr> pr_sec = 3, pr_usec = 0, pr_orig = 30, pr_data = replicate 30 7 \<rparr>,
      \<lparr> pr_sec = 4, pr_usec = 5, pr_orig = 20,
        pr_data = replicate 12 9 @ [0x81, 0x00, 0x00, 0x05, 0x88, 0x19, 1, 2] \<rparr>]"

theorem pcap_round_trip_witness:
  "pcap_reads 3 (fst (pcap_source_open (Some (enc_file True (replicate 20 0) pcap_example)))) 24
   = [(3, [1, 2, 3], 1000002), (16, replicate 12 9 @ [0x88, 0x19, 1, 2], 4000005), (0, [], 0)]"
proof -
  have small: "records_small pcap_example" by (simp add: records_small_def pcap_example_def)
  have ev: "Suc (length (filter (record_fits 24) pcap_example)) = 3"
    "map record_out (filter (record_fits 24) pcap_example) @ [(0, [], 0)]
     = [(3, [1, 2, 3], 1000002), (16, replicate 12 9 @ [0x88, 0x19, 1, 2], 4000005), (0, [], 0)]"
    by code_simp+
  show ?thesis using pcap_round_trip [of "replicate 20 0" pcap_example 24 True] small ev by (simp del: pcap_reads.simps)
qed

section \<open>Arbitrary files\<close>

text \<open>Every call that hands a frame over takes at least its header and one byte off the file.\<close>

lemma strip_vlan_length: "0 < length b \<Longrightarrow> 0 < length (fst (strip_vlan b)) \<and> length (fst (strip_vlan b)) \<le> length b"
  by (auto simp: strip_vlan_def)

definition unread :: "pcap_source \<Rightarrow> nat" where
  "unread ps = (case ps_f ps of None \<Rightarrow> 0 | Some f \<Rightarrow> length f)"

definition next_ok :: "nat \<Rightarrow> nat \<Rightarrow> pcap_source \<times> int \<times> bytes \<times> u64 \<Rightarrow> bool" where
  "next_ok n cap x = (case x of (ps, ret, b, ts) \<Rightarrow>
     ret = - 1 \<and> b = [] \<or> ret = 0 \<and> b = [] \<or>
     0 < ret \<and> ret = int (length b) \<and> length b \<le> cap \<and> unread ps + 17 \<le> n)"

lemma next_ok_mono: "next_ok m cap x \<Longrightarrow> m \<le> n \<Longrightarrow> next_ok n cap x"
  by (auto simp: next_ok_def split: prod.splits)

lemma pcap_next_loop_ok: "next_ok (length f) cap (pcap_next_loop ps f cap)"
proof (induction "length f" arbitrary: ps f rule: less_induct)
  case less
  define incl where "incl = unat (rd_u32 (drop 8 (take 16 f)) (ps_swapped ps))"
  note step = pcap_next_loop.simps [of ps f cap] Let_def incl_def [symmetric]
  consider "length f < 16" | "16 \<le> length f" "incl = 0" | "16 \<le> length f" "0 < incl" "cap < incl"
    | "16 \<le> length f" "0 < incl" "incl \<le> cap" "length f < 16 + incl"
    | "16 \<le> length f" "0 < incl" "incl \<le> cap" "16 + incl \<le> length f" by linarith
  then show ?case
  proof cases
    case 1
    then show ?thesis by (simp add: step next_ok_def)
  next
    case 2
    then have "next_ok (length (drop 16 f)) cap (pcap_next_loop ps (drop 16 f) cap)" by (intro less) auto
    then show ?thesis using 2 by (auto simp: step intro: next_ok_mono)
  next
    case 3
    show ?thesis
    proof (cases "fst (skip_chunks cap incl (drop 16 f))")
      case True
      let ?g = "snd (skip_chunks cap incl (drop 16 f))"
      have g: "length ?g < length f" using skip_chunks_length [of cap incl "drop 16 f"] 3 by simp
      have "next_ok (length f) cap (pcap_next_loop ps' ?g cap)" for ps'
        by (rule next_ok_mono [OF less [OF g]]) (use g in simp)
      then show ?thesis using True 3 by (auto simp: step split: prod.splits)
    next
      case False
      then show ?thesis using 3 by (auto simp: step next_ok_def split: prod.splits)
    qed
  next
    case 4
    then show ?thesis by (auto simp: step next_ok_def)
  next
    case 5
    then show ?thesis using strip_vlan_length [of "take incl (drop 16 f)"]
      by (auto simp: step next_ok_def unread_def split: prod.splits)
  qed
qed

text \<open>A client that reads until a call returns no frame.\<close>

lemma pcap_source_next_ok: "next_ok (unread ps) cap (pcap_source_next ps cap)"
  using pcap_next_loop_ok by (auto simp: pcap_source_next_def unread_def next_ok_def split: option.splits)

lemma pcap_reads_stop:
  assumes "unread ps < 17 * n"
  shows "\<exists>k < n. fst (pcap_reads n ps cap ! k) \<le> 0"
  using assms
proof (induction n arbitrary: ps)
  case 0
  then show ?case by simp
next
  case (Suc n)
  obtain ps' ret b ts where nx: "pcap_source_next ps cap = (ps', ret, b, ts)" by (metis prod_cases4)
  show ?case
  proof (cases "ret \<le> 0")
    case True
    then show ?thesis by (intro exI [of _ 0]) (simp add: nx)
  next
    case False
    then have "unread ps' < 17 * n" using pcap_source_next_ok [of ps cap] Suc.prems by (auto simp: nx next_ok_def)
    from Suc.IH [OF this] obtain k where "k < n" "fst (pcap_reads n ps' cap ! k) \<le> 0" by blast
    then show ?thesis by (intro exI [of _ "Suc k"]) (simp add: nx)
  qed
qed

lemma pcap_reads_shape:
  "list_all (\<lambda>(ret, b, ts). ret = - 1 \<and> b = [] \<or> ret = 0 \<and> b = [] \<or> 0 < ret \<and> ret = int (length b) \<and> length b \<le> cap)
     (pcap_reads n ps cap)"
proof (induction n arbitrary: ps)
  case (Suc n)
  then show ?case using pcap_source_next_ok [of ps cap] by (auto simp: next_ok_def split: prod.splits)
qed simp

text \<open>C40: Reading ends on every file, damaged ones included: whatever the bytes of the file and the size of the
  buffer, every call returns -1, 0 or a frame of at least one byte that fits the buffer, and of
  \<open>length file div 17 + 1\<close> calls at least one reports the end of the file or an error.\<close>

theorem pcap_reading_ends:
  "list_all (\<lambda>(ret, b, ts). ret = - 1 \<and> b = [] \<or> ret = 0 \<and> b = [] \<or> 0 < ret \<and> ret = int (length b) \<and> length b \<le> cap)
     (pcap_reads (length file div 17 + 1) (fst (pcap_source_open (Some file))) cap)
   \<and> (\<exists>k < length file div 17 + 1. fst (pcap_reads (length file div 17 + 1) (fst (pcap_source_open (Some file))) cap ! k) \<le> 0)"
proof -
  have "unread (fst (pcap_source_open (Some file))) \<le> length file"
    by (simp add: pcap_source_open_def unread_def Let_def)
  then have "unread (fst (pcap_source_open (Some file))) < 17 * (length file div 17 + 1)"
    using mod_less_divisor [of 17 "length file"] by (simp add: minus_mod_eq_mult_div [symmetric])
  then show ?thesis using pcap_reads_shape pcap_reads_stop by blast
qed

end
