(* ===== verification/Reac_Topo.thy ===== *)
theory Reac_Topo
  imports Reac_Prelude
begin

text \<open>
  The VLAN topology of a trunk port, \<^verbatim>\<open>transport/src/reac_topo.c\<close>: which parent interfaces are watched,
  which VLANs were heard on each, which of them are served, and the queue of requests (make this VLAN
  interface, take it down) for the process that owns the interfaces.

  The fixed arrays are lists of that length (8 parents, 16 VLANs, 32 events); a slot is free as in the
  source, a parent's by an empty name and a VLAN's by its state. A pointer into the table is an index. An
  interface name is a string; \<^verbatim>\<open>snprintf\<close> into \<^verbatim>\<open>IFNAMSIZ\<close> bytes keeps the first 15 characters. The
  packet socket is not modelled: \<open>reac_topo_tap_read\<close> takes what \<^verbatim>\<open>recvmsg\<close> returned.
\<close>

abbreviation (input) REAC_ETHERTYPE :: u16 where "REAC_ETHERTYPE \<equiv> 0x8819"
abbreviation (input) VLAN_CTAG :: u16 where "VLAN_CTAG \<equiv> 0x8100"
abbreviation (input) VLAN_STAG :: u16 where "VLAN_STAG \<equiv> 0x88a8"
abbreviation (input) REAC_TOPO_MAX_PARENTS :: nat where "REAC_TOPO_MAX_PARENTS \<equiv> 8"
abbreviation (input) REAC_TOPO_MAX_VLANS :: nat where "REAC_TOPO_MAX_VLANS \<equiv> 16"
abbreviation (input) REAC_TOPO_EVENTS :: nat where "REAC_TOPO_EVENTS \<equiv> 32"
abbreviation (input) REAC_TOPO_SILENCE_HOLD_NS :: u64 where "REAC_TOPO_SILENCE_HOLD_NS \<equiv> 30000000000"
abbreviation (input) REAC_TOPO_RETRY_NS :: u64 where "REAC_TOPO_RETRY_NS \<equiv> 10000000000"
abbreviation (input) IFNAMSIZ :: nat where "IFNAMSIZ \<equiv> 16"

datatype reac_topo_kind = REAC_TOPO_NOT_REAC | REAC_TOPO_UNTAGGED | REAC_TOPO_TAGGED | REAC_TOPO_TAGGED_OTHER
datatype reac_topo_vstate = REAC_TOPO_VLAN_FREE | REAC_TOPO_VLAN_HEARD | REAC_TOPO_VLAN_SERVED
datatype reac_topo_verb = REAC_TOPO_NONE | REAC_TOPO_ENSURE | REAC_TOPO_RELEASE

fun reac_topo_kind_name :: "reac_topo_kind \<Rightarrow> string" where
  "reac_topo_kind_name REAC_TOPO_NOT_REAC = ''not-reac''"
| "reac_topo_kind_name REAC_TOPO_UNTAGGED = ''untagged''"
| "reac_topo_kind_name REAC_TOPO_TAGGED = ''tagged''"
| "reac_topo_kind_name REAC_TOPO_TAGGED_OTHER = ''tagged-other''"

fun reac_topo_verb_name :: "reac_topo_verb \<Rightarrow> string" where
  "reac_topo_verb_name REAC_TOPO_NONE = ''none''"
| "reac_topo_verb_name REAC_TOPO_ENSURE = ''ensure''"
| "reac_topo_verb_name REAC_TOPO_RELEASE = ''release''"

section \<open>Reading a frame's tags\<close>

definition be16at :: "bytes \<Rightarrow> nat \<Rightarrow> u16" where
  "be16at b off = u16be (b ! off) (b ! (off + 1))"

text \<open>The loop over at most two tags: the offset of the type field behind them and the VLAN id, or
  nothing when the frame ends inside a tag.\<close>

fun tag_loop :: "nat \<Rightarrow> bytes \<Rightarrow> nat \<Rightarrow> u16 \<Rightarrow> (nat \<times> u16) option" where
  "tag_loop 0 b off vid = Some (off, vid)"
| "tag_loop (Suc depth) b off vid =
     (if be16at b off \<noteq> VLAN_CTAG \<and> be16at b off \<noteq> VLAN_STAG then Some (off, vid)
      else if length b < off + 4 + 2 then None
      else tag_loop depth b (off + 4) (if vid = 0 then be16at b (off + 2) AND 0x0fff else vid))"

definition reac_topo_classify :: "bytes option \<Rightarrow> bool \<Rightarrow> u16 \<Rightarrow> reac_topo_kind \<times> u16" where
  "reac_topo_classify buf tci_valid tci =
     (case buf of
        None \<Rightarrow> (REAC_TOPO_NOT_REAC, 0)
      | Some b \<Rightarrow>
          if length b < 14 then (REAC_TOPO_NOT_REAC, 0)
          else case tag_loop 2 b 12 (if tci_valid then tci AND 0x0fff else 0) of
                 None \<Rightarrow> (REAC_TOPO_NOT_REAC, 0)
               | Some (off, vid) \<Rightarrow>
                   (if be16at b off \<noteq> REAC_ETHERTYPE
                    then (if vid \<noteq> 0 then REAC_TOPO_TAGGED_OTHER else REAC_TOPO_NOT_REAC)
                    else (if vid \<noteq> 0 then REAC_TOPO_TAGGED else REAC_TOPO_UNTAGGED),
                    vid))"

section \<open>The table\<close>

record reac_topo_event =
  te_verb :: reac_topo_verb
  te_parent :: string
  te_vid :: u16
  te_minted :: bool

record reac_topo_vlan =
  tv_vid :: u16
  tv_state :: reac_topo_vstate
  tv_last_ns :: u64
  tv_retry_after_ns :: u64
  tv_frames :: u64
  tv_minted :: bool

record reac_topo_parent =
  tp_name :: string
  tp_v :: "reac_topo_vlan list"
  tp_tagged :: u64
  tp_untagged :: u64
  tp_said_untagged :: bool

record reac_topo =
  to_p :: "reac_topo_parent list"
  to_ev :: "reac_topo_event list"
  to_ev_head :: nat
  to_ev_tail :: nat
  to_unbounded :: u64
  to_dropped_ev :: u64

definition vlan_zero :: reac_topo_vlan where
  "vlan_zero = \<lparr> tv_vid = 0, tv_state = REAC_TOPO_VLAN_FREE, tv_last_ns = 0, tv_retry_after_ns = 0, tv_frames = 0,
     tv_minted = False \<rparr>"

definition parent_zero :: reac_topo_parent where
  "parent_zero = \<lparr> tp_name = '''', tp_v = replicate REAC_TOPO_MAX_VLANS vlan_zero, tp_tagged = 0, tp_untagged = 0,
     tp_said_untagged = False \<rparr>"

definition reac_topo_init :: reac_topo where
  "reac_topo_init = \<lparr> to_p = replicate REAC_TOPO_MAX_PARENTS parent_zero,
     to_ev = replicate REAC_TOPO_EVENTS \<lparr> te_verb = REAC_TOPO_NONE, te_parent = '''', te_vid = 0, te_minted = False \<rparr>,
     to_ev_head = 0, to_ev_tail = 0, to_unbounded = 0, to_dropped_ev = 0 \<rparr>"

definition emit :: "reac_topo \<Rightarrow> reac_topo_verb \<Rightarrow> string \<Rightarrow> u16 \<Rightarrow> bool \<Rightarrow> reac_topo" where
  "emit t v parent vid minted =
     (let nxt = (to_ev_tail t + 1) mod REAC_TOPO_EVENTS in
      if nxt = to_ev_head t then t\<lparr> to_dropped_ev := to_dropped_ev t + 1 \<rparr>
      else t\<lparr> to_ev := (to_ev t)[to_ev_tail t := \<lparr> te_verb = v, te_parent = take (IFNAMSIZ - 1) parent,
                                                  te_vid = vid, te_minted = minted \<rparr>],
             to_ev_tail := nxt \<rparr>)"

definition reac_topo_next :: "reac_topo \<Rightarrow> reac_topo \<times> reac_topo_event option" where
  "reac_topo_next t =
     (if to_ev_head t = to_ev_tail t then (t, None)
      else (t\<lparr> to_ev_head := (to_ev_head t + 1) mod REAC_TOPO_EVENTS \<rparr>, Some (to_ev t ! to_ev_head t)))"

definition parent_of :: "reac_topo \<Rightarrow> string \<Rightarrow> nat option" where
  "parent_of t name = find_index (\<lambda>p. tp_name p \<noteq> '''' \<and> tp_name p = name) (to_p t)"

definition reac_topo_find :: "reac_topo \<Rightarrow> string \<Rightarrow> reac_topo_parent option" where
  "reac_topo_find t parent = List.find (\<lambda>p. tp_name p \<noteq> '''' \<and> tp_name p = parent) (to_p t)"

definition reac_topo_vlan_find :: "reac_topo \<Rightarrow> string \<Rightarrow> u16 \<Rightarrow> reac_topo_vlan option" where
  "reac_topo_vlan_find t parent vid =
     (case reac_topo_find t parent of
        None \<Rightarrow> None
      | Some p \<Rightarrow> List.find (\<lambda>v. tv_state v \<noteq> REAC_TOPO_VLAN_FREE \<and> tv_vid v = vid) (tp_v p))"

definition set_parent :: "reac_topo \<Rightarrow> nat \<Rightarrow> reac_topo_parent \<Rightarrow> reac_topo" where
  "set_parent t i p = t\<lparr> to_p := (to_p t)[i := p] \<rparr>"

definition set_vlan :: "reac_topo \<Rightarrow> nat \<Rightarrow> nat \<Rightarrow> reac_topo_vlan \<Rightarrow> reac_topo" where
  "set_vlan t i j v = set_parent t i ((to_p t ! i)\<lparr> tp_v := (tp_v (to_p t ! i))[j := v] \<rparr>)"

definition reac_topo_watch :: "reac_topo \<Rightarrow> string \<Rightarrow> reac_topo \<times> int" where
  "reac_topo_watch t parent =
     (if parent_of t parent \<noteq> None then (t, 0)
      else case find_index (\<lambda>p. tp_name p = '''') (to_p t) of
             Some i \<Rightarrow> (set_parent t i (parent_zero\<lparr> tp_name := take (IFNAMSIZ - 1) parent \<rparr>), 0)
           | None \<Rightarrow> (t\<lparr> to_unbounded := to_unbounded t + 1 \<rparr>, - 1))"

definition reac_topo_unwatch :: "reac_topo \<Rightarrow> string \<Rightarrow> reac_topo" where
  "reac_topo_unwatch t parent =
     (case parent_of t parent of
        None \<Rightarrow> t
      | Some i \<Rightarrow>
          (let p = to_p t ! i;
               t = foldl (\<lambda>t v. if tv_state v = REAC_TOPO_VLAN_SERVED
                                then emit t REAC_TOPO_RELEASE (tp_name p) (tv_vid v) (tv_minted v) else t) t (tp_v p)
           in set_parent t i parent_zero))"

text \<open>A tagged frame: the slot of its VLAN, or a new one.\<close>

definition vlan_seen :: "reac_topo \<Rightarrow> nat \<Rightarrow> nat \<Rightarrow> u16 \<Rightarrow> u64 \<Rightarrow> reac_topo" where
  "vlan_seen t i j vid now_ns =
     (let v = (tp_v (to_p t ! i) ! j)\<lparr> tv_frames := tv_frames (tp_v (to_p t ! i) ! j) + 1, tv_last_ns := now_ns \<rparr> in
      if tv_state v = REAC_TOPO_VLAN_HEARD \<and> tv_retry_after_ns v \<noteq> 0 \<and> now_ns \<ge> tv_retry_after_ns v
      then emit (set_vlan t i j (v\<lparr> tv_retry_after_ns := 0 \<rparr>)) REAC_TOPO_ENSURE (tp_name (to_p t ! i)) vid False
      else set_vlan t i j v)"

definition vlan_new :: "reac_topo \<Rightarrow> nat \<Rightarrow> u16 \<Rightarrow> u64 \<Rightarrow> reac_topo" where
  "vlan_new t i vid now_ns =
     (case find_index (\<lambda>v. tv_state v = REAC_TOPO_VLAN_FREE) (tp_v (to_p t ! i)) of
        None \<Rightarrow> t\<lparr> to_unbounded := to_unbounded t + 1 \<rparr>
      | Some j \<Rightarrow>
          emit (set_vlan t i j (vlan_zero\<lparr> tv_vid := vid, tv_state := REAC_TOPO_VLAN_HEARD, tv_frames := 1,
                                          tv_last_ns := now_ns \<rparr>))
            REAC_TOPO_ENSURE (tp_name (to_p t ! i)) vid False)"

definition vlan_slot :: "reac_topo_parent \<Rightarrow> u16 \<Rightarrow> nat option" where
  "vlan_slot p vid = find_index (\<lambda>v. tv_state v \<noteq> REAC_TOPO_VLAN_FREE \<and> tv_vid v = vid) (tp_v p)"

definition reac_topo_saw :: "reac_topo \<Rightarrow> string \<Rightarrow> reac_topo_kind \<Rightarrow> u16 \<Rightarrow> u64 \<Rightarrow> reac_topo" where
  "reac_topo_saw t parent kind vid now_ns =
     (case parent_of t parent of
        None \<Rightarrow> t
      | Some i \<Rightarrow>
          (let p = to_p t ! i in
           if kind = REAC_TOPO_NOT_REAC then t
           else if kind = REAC_TOPO_UNTAGGED then set_parent t i (p\<lparr> tp_untagged := tp_untagged p + 1 \<rparr>)
           else if vid = 0 then t
           else let t = (if kind = REAC_TOPO_TAGGED then set_parent t i (p\<lparr> tp_tagged := tp_tagged p + 1 \<rparr>) else t)
                in case vlan_slot p vid of Some j \<Rightarrow> vlan_seen t i j vid now_ns | None \<Rightarrow> vlan_new t i vid now_ns))"

definition vlan_of :: "reac_topo \<Rightarrow> string \<Rightarrow> u16 \<Rightarrow> (nat \<times> nat) option" where
  "vlan_of t parent vid =
     (case parent_of t parent of None \<Rightarrow> None | Some i \<Rightarrow> map_option (Pair i) (vlan_slot (to_p t ! i) vid))"

definition reac_topo_ensured :: "reac_topo \<Rightarrow> string \<Rightarrow> u16 \<Rightarrow> bool \<Rightarrow> reac_topo" where
  "reac_topo_ensured t parent vid minted =
     (case vlan_of t parent vid of
        None \<Rightarrow> t
      | Some (i, j) \<Rightarrow> set_vlan t i j ((tp_v (to_p t ! i) ! j)
                        \<lparr> tv_state := REAC_TOPO_VLAN_SERVED, tv_minted := minted, tv_retry_after_ns := 0 \<rparr>))"

definition reac_topo_ensure_failed :: "reac_topo \<Rightarrow> string \<Rightarrow> u16 \<Rightarrow> u64 \<Rightarrow> reac_topo" where
  "reac_topo_ensure_failed t parent vid now_ns =
     (case vlan_of t parent vid of
        None \<Rightarrow> t
      | Some (i, j) \<Rightarrow> set_vlan t i j ((tp_v (to_p t ! i) ! j)
                        \<lparr> tv_state := REAC_TOPO_VLAN_HEARD, tv_minted := False,
                          tv_retry_after_ns := now_ns + REAC_TOPO_RETRY_NS \<rparr>))"

text \<open>The body of the two loops that take VLANs down, at one slot.\<close>

definition release_if :: "(reac_topo_vlan \<Rightarrow> bool) \<Rightarrow> reac_topo \<Rightarrow> nat \<times> nat \<Rightarrow> reac_topo" where
  "release_if due t ij =
     (let p = to_p t ! fst ij; v = tp_v p ! snd ij in
      if tp_name p = '''' \<or> tv_state v \<noteq> REAC_TOPO_VLAN_SERVED \<or> \<not> due v then t
      else set_vlan (emit t REAC_TOPO_RELEASE (tp_name p) (tv_vid v) (tv_minted v)) (fst ij) (snd ij) vlan_zero)"

definition topo_cells :: "(nat \<times> nat) list" where
  "topo_cells = concat (map (\<lambda>i. map (Pair i) [0..<REAC_TOPO_MAX_VLANS]) [0..<REAC_TOPO_MAX_PARENTS])"

definition reac_topo_tick :: "reac_topo \<Rightarrow> u64 \<Rightarrow> reac_topo" where
  "reac_topo_tick t now_ns = foldl (release_if (\<lambda>v. \<not> now_ns < tv_last_ns v + REAC_TOPO_SILENCE_HOLD_NS)) t topo_cells"

definition reac_topo_release_all :: "reac_topo \<Rightarrow> reac_topo" where
  "reac_topo_release_all t = foldl (release_if (\<lambda>v. True)) t topo_cells"

section \<open>Questions\<close>

definition reac_topo_is_trunk :: "reac_topo \<Rightarrow> string \<Rightarrow> bool" where
  "reac_topo_is_trunk t parent =
     (case reac_topo_find t parent of None \<Rightarrow> False | Some p \<Rightarrow> tp_tagged p > 0)"

definition reac_topo_untagged_on_trunk :: "reac_topo \<Rightarrow> string \<Rightarrow> reac_topo \<times> bool" where
  "reac_topo_untagged_on_trunk t parent =
     (case parent_of t parent of
        None \<Rightarrow> (t, False)
      | Some i \<Rightarrow>
          (let p = to_p t ! i in
           if tp_tagged p = 0 \<or> tp_untagged p = 0 \<or> tp_said_untagged p then (t, False)
           else (set_parent t i (p\<lparr> tp_said_untagged := True \<rparr>), True)))"

definition reac_topo_count :: "reac_topo \<Rightarrow> string \<Rightarrow> reac_topo_vstate \<Rightarrow> int" where
  "reac_topo_count t parent st =
     (case reac_topo_find t parent of
        None \<Rightarrow> 0
      | Some p \<Rightarrow> if st = REAC_TOPO_VLAN_FREE then 0 else int (length (filter (\<lambda>v. tv_state v = st) (tp_v p))))"

text \<open>Without an output array the count alone is returned.\<close>

definition reac_topo_heard_vids :: "reac_topo \<Rightarrow> string \<Rightarrow> int option \<Rightarrow> int \<times> u16 list" where
  "reac_topo_heard_vids t parent room =
     (case reac_topo_find t parent of
        None \<Rightarrow> (0, [])
      | Some p \<Rightarrow>
          (let vids = map tv_vid (filter (\<lambda>v. tv_state v \<noteq> REAC_TOPO_VLAN_FREE) (tp_v p)); n = int (length vids) in
           case room of None \<Rightarrow> (n, []) | Some mx \<Rightarrow> (if n > mx then mx else n, take (nat mx) vids)))"

definition reac_topo_is_stacked :: "(string \<Rightarrow> string list option) \<Rightarrow> string option \<Rightarrow> string option \<Rightarrow> bool" where
  "reac_topo_is_stacked readdir root ifname =
     (case ifname of
        None \<Rightarrow> False
      | Some n \<Rightarrow>
          n \<noteq> '''' \<and>
          (case readdir (take 511 ((case root of Some r \<Rightarrow> r | None \<Rightarrow> ''/sys/class/net'') @ ''/'' @ n)) of
             None \<Rightarrow> False
           | Some es \<Rightarrow> list_ex (\<lambda>e. take 6 e = ''lower_'') es))"

section \<open>One packet of the tap\<close>

record reac_topo_frame =
  tf_kind :: reac_topo_kind
  tf_vid :: u16
  tf_src :: mac
  tf_ifindex :: u32
  tf_outgoing :: bool

text \<open>What \<^verbatim>\<open>recvmsg\<close> gave: nothing yet, an error, or a packet with the tags its control messages carry
  (of each \<^verbatim>\<open>PACKET_AUXDATA\<close> message, whether the tag is valid and its value), the interface and the direction.\<close>

datatype topo_recv = Recv_Again | Recv_Error | Recv_Packet bytes "(bool \<times> u16) list" u32 bool

definition aux_tci :: "(bool \<times> u16) list \<Rightarrow> bool \<times> u16" where
  "aux_tci aux = foldl (\<lambda>(valid, tci) (v, x). if v then (True, x) else (valid, tci)) (False, 0) aux"

fun reac_topo_tap_read :: "topo_recv \<Rightarrow> int \<times> reac_topo_frame option" where
  "reac_topo_tap_read Recv_Again = (0, None)"
| "reac_topo_tap_read Recv_Error = (- 1, None)"
| "reac_topo_tap_read (Recv_Packet frame aux ifindex outgoing) =
     (let (valid, tci) = aux_tci aux; (kind, vid) = reac_topo_classify (Some frame) valid tci
      in (1, Some \<lparr> tf_kind = kind, tf_vid = vid, tf_src = (if length frame \<ge> 12 then peek 6 6 frame else replicate 6 0),
                    tf_ifindex = ifindex, tf_outgoing = outgoing \<rparr>))"

definition reac_topo_tap_next :: "topo_recv \<Rightarrow> int \<times> (reac_topo_kind \<times> u16) option" where
  "reac_topo_tap_next rcv =
     (case reac_topo_tap_read rcv of (r, f) \<Rightarrow>
        (r, if r = 1 then map_option (\<lambda>f. (tf_kind f, tf_vid f)) f else None))"

section \<open>The event queue\<close>

definition pending :: "reac_topo \<Rightarrow> reac_topo_event list" where
  "pending t = map (\<lambda>k. to_ev t ! ((to_ev_head t + k) mod REAC_TOPO_EVENTS))
     [0..<(to_ev_tail t + REAC_TOPO_EVENTS - to_ev_head t) mod REAC_TOPO_EVENTS]"

definition queue_ok :: "reac_topo \<Rightarrow> bool" where
  "queue_ok t \<longleftrightarrow> length (to_ev t) = REAC_TOPO_EVENTS \<and> to_ev_head t < REAC_TOPO_EVENTS \<and> to_ev_tail t < REAC_TOPO_EVENTS"

definition event :: "reac_topo_verb \<Rightarrow> string \<Rightarrow> u16 \<Rightarrow> bool \<Rightarrow> reac_topo_event" where
  "event v parent vid minted = \<lparr> te_verb = v, te_parent = take (IFNAMSIZ - 1) parent, te_vid = vid, te_minted = minted \<rparr>"

lemma event_sel [simp]:
  "te_verb (event v p i m) = v" "te_parent (event v p i m) = take (IFNAMSIZ - 1) p" "te_vid (event v p i m) = i"
  "te_minted (event v p i m) = m"
  by (simp_all add: event_def)

lemma emit_fields [simp]: "to_p (emit t v p vid m) = to_p t" "to_unbounded (emit t v p vid m) = to_unbounded t"
  by (simp_all add: emit_def Let_def)

lemma emit_queue_ok [simp]: "queue_ok t \<Longrightarrow> queue_ok (emit t v p vid m)"
  by (simp add: queue_ok_def emit_def Let_def)

lemma ring_count:
  fixes h l :: nat
  assumes "h < 32" "l < 32"
  obtains n where "n < 32" "(l + 32 - h) mod 32 = n" "l = (h + n) mod 32"
proof (cases "h \<le> l")
  case True
  with assms show ?thesis by (intro that [of "l - h"]) (auto simp: mod_if)
next
  case False
  with assms show ?thesis by (intro that [of "l + 32 - h"]) (auto simp: mod_if)
qed

lemma emit_pending:
  assumes "queue_ok t"
  shows "pending (emit t v p vid m) = take 31 (pending t @ [event v p vid m])"
    and "to_dropped_ev (emit t v p vid m) = to_dropped_ev t + (if length (pending t) < 31 then 0 else 1)"
proof -
  have h: "to_ev_head t < 32" "length (to_ev t) = 32" "to_ev_tail t < 32" using assms by (auto simp: queue_ok_def)
  obtain n where n: "n < 32" "(to_ev_tail t + 32 - to_ev_head t) mod 32 = n" "to_ev_tail t = (to_ev_head t + n) mod 32"
    by (rule ring_count [OF h(1,3)])
  have len: "length (pending t) = n" using n by (simp add: pending_def)
  have full: "(to_ev_tail t + 1) mod 32 = to_ev_head t \<longleftrightarrow> n = 31" using n h by (auto simp: mod_if split: if_splits)
  have nxt: "((to_ev_tail t + 1) mod 32 + 32 - to_ev_head t) mod 32 = n + 1" if "n < 31"
    using n h that by (auto simp: mod_if split: if_splits)
  have ne: "(to_ev_head t + k) mod 32 \<noteq> to_ev_tail t" if "k < n" for k
  proof
    assume "(to_ev_head t + k) mod 32 = to_ev_tail t"
    then have "(to_ev_head t + n) mod 32 = (to_ev_head t + k) mod 32" by (simp only: n(3))
    then have "32 dvd n - k" using that by (simp add: mod_eq_dvd_iff_nat)
    then show False using that n(1) by (auto dest: dvd_imp_le)
  qed
  have app: "pending (emit t v p vid m) = pending t @ [event v p vid m]" if "n < 31"
  proof -
    have "pending (emit t v p vid m) =
        map (\<lambda>k. (to_ev t)[to_ev_tail t := event v p vid m] ! ((to_ev_head t + k) mod 32)) [0..<n + 1]"
      using nxt [OF that] full that by (simp add: emit_def Let_def pending_def event_def del: upt_Suc)
    also have "\<dots> = map (\<lambda>k. to_ev t ! ((to_ev_head t + k) mod 32)) [0..<n] @ [event v p vid m]"
      using ne not_sym [OF ne] h by (auto simp: n(3) [symmetric])
    finally show ?thesis by (simp only: pending_def n(2))
  qed
  show "pending (emit t v p vid m) = take 31 (pending t @ [event v p vid m])"
  proof (cases "n < 31")
    case False
    then show ?thesis using n h full len by (simp add: emit_def pending_def)
  qed (simp add: app len)
  show "to_dropped_ev (emit t v p vid m) = to_dropped_ev t + (if length (pending t) < 31 then 0 else 1)"
    using n full len by (simp add: emit_def Let_def)
qed

lemma pending_length: "queue_ok t \<Longrightarrow> length (pending t) \<le> 31"
  by (simp add: pending_def less_Suc_eq_le [symmetric])

lemma pending_cong [simp]:
  "pending (set_parent t i p) = pending t" "queue_ok (set_parent t i p) = queue_ok t"
  "pending (set_vlan t i j v) = pending t" "queue_ok (set_vlan t i j v) = queue_ok t"
  "pending (t\<lparr> to_unbounded := n \<rparr>) = pending t" "queue_ok (t\<lparr> to_unbounded := n \<rparr>) = queue_ok t"
  by (simp_all add: pending_def queue_ok_def set_parent_def set_vlan_def)

lemma next_pending:
  assumes "queue_ok t"
  shows "reac_topo_next t = (case pending t of [] \<Rightarrow> (t, None) | e # es \<Rightarrow> (fst (reac_topo_next t), Some e))"
    and "pending (fst (reac_topo_next t)) = tl (pending t)" and "queue_ok (fst (reac_topo_next t))"
proof -
  have h: "to_ev_head t < 32" "length (to_ev t) = 32" "to_ev_tail t < 32" using assms by (auto simp: queue_ok_def)
  obtain n where n: "n < 32" "(to_ev_tail t + 32 - to_ev_head t) mod 32 = n" "to_ev_tail t = (to_ev_head t + n) mod 32"
    by (rule ring_count [OF h(1,3)])
  have e: "to_ev_head t = to_ev_tail t \<longleftrightarrow> n = 0" using n h by (auto simp: mod_if split: if_splits)
  have nx: "(to_ev_tail t + 32 - (to_ev_head t + 1) mod 32) mod 32 = n - 1" if "0 < n"
    using n h that by (auto simp: mod_if split: if_splits)
  have r: "[0..<n] = 0 # map Suc [0..<n - 1]" if "0 < n"
    using that by (cases n) (simp_all add: upt_conv_Cons map_Suc_upt del: upt_Suc)
  have p: "pending t = map (\<lambda>k. to_ev t ! ((to_ev_head t + k) mod 32)) [0..<n]" by (simp only: pending_def n(2))
  have p': "pending (fst (reac_topo_next t)) = map (\<lambda>k. to_ev t ! (((to_ev_head t + 1) mod 32 + k) mod 32)) [0..<n - 1]"
    if "0 < n"
    using e nx [OF that] that by (simp add: reac_topo_next_def pending_def)
  show "reac_topo_next t = (case pending t of [] \<Rightarrow> (t, None) | e # es \<Rightarrow> (fst (reac_topo_next t), Some e))"
    using e r h(1) unfolding p by (cases "n = 0") (simp_all add: reac_topo_next_def)
  show "pending (fst (reac_topo_next t)) = tl (pending t)"
  proof (cases "n = 0")
    case True
    then show ?thesis using e p by (simp add: reac_topo_next_def)
  next
    case False
    then show ?thesis using p' r unfolding p by (simp add: mod_simps)
  qed
  show "queue_ok (fst (reac_topo_next t))" using assms by (simp add: reac_topo_next_def queue_ok_def)
qed

text \<open>A run of requests: those that find room are appended, the others are counted.\<close>

definition emit_all :: "reac_topo \<Rightarrow> reac_topo_event list \<Rightarrow> reac_topo" where
  "emit_all t es = foldl (\<lambda>t e. emit t (te_verb e) (te_parent e) (te_vid e) (te_minted e)) t es"

lemma emit_all_simps [simp]:
  "emit_all t [] = t" "emit_all t (e # es) = emit_all (emit t (te_verb e) (te_parent e) (te_vid e) (te_minted e)) es"
  "emit_all t (es @ es') = emit_all (emit_all t es) es'"
  by (simp_all add: emit_all_def)

lemma event_of_fields: "length (te_parent e) \<le> 15 \<Longrightarrow> event (te_verb e) (te_parent e) (te_vid e) (te_minted e) = e"
  by (simp add: event_def)

lemma emit_all_pending:
  assumes "queue_ok t" and "\<forall>e \<in> set es. length (te_parent e) \<le> 15"
  shows "queue_ok (emit_all t es) \<and> to_p (emit_all t es) = to_p t \<and> pending (emit_all t es) = take 31 (pending t @ es)"
  using assms(2)
proof (induction es rule: rev_induct)
  case Nil
  then show ?case using pending_length assms(1) by simp
next
  case (snoc e es)
  then show ?case
    using pending_length [OF assms(1)] by (simp add: emit_pending event_of_fields min_def)
qed

section \<open>The table, slot by slot\<close>

definition vlan_at :: "reac_topo \<Rightarrow> nat \<Rightarrow> nat \<Rightarrow> reac_topo_vlan" where
  "vlan_at t i j = tp_v (to_p t ! i) ! j"

abbreviation (input) name_at :: "reac_topo \<Rightarrow> nat \<Rightarrow> string" where
  "name_at t i \<equiv> tp_name (to_p t ! i)"

text \<open>The slot holds VLAN \<open>vid\<close> of the watched parent \<open>n\<close>.\<close>

definition holds_at :: "reac_topo \<Rightarrow> nat \<Rightarrow> nat \<Rightarrow> string \<Rightarrow> u16 \<Rightarrow> bool" where
  "holds_at t i j n vid \<longleftrightarrow> i < 8 \<and> j < 16 \<and> name_at t i = n \<and> n \<noteq> '''' \<and>
     tv_state (vlan_at t i j) \<noteq> REAC_TOPO_VLAN_FREE \<and> tv_vid (vlan_at t i j) = vid"

definition topo_inv :: "reac_topo \<Rightarrow> bool" where
  "topo_inv t \<longleftrightarrow> queue_ok t \<and> length (to_p t) = 8 \<and>
     (\<forall>i < 8. length (tp_v (to_p t ! i)) = 16 \<and> length (name_at t i) \<le> 15) \<and>
     (\<forall>i < 8. \<forall>i' < 8. name_at t i = name_at t i' \<longrightarrow> name_at t i \<noteq> '''' \<longrightarrow> i = i') \<and>
     (\<forall>i j i' j' n vid. holds_at t i j n vid \<longrightarrow> holds_at t i' j' n vid \<longrightarrow> i = i' \<and> j = j')"

lemma topo_invD:
  assumes "topo_inv t"
  shows "queue_ok t" "length (to_p t) = 8" "i < 8 \<Longrightarrow> length (tp_v (to_p t ! i)) = 16"
    "i < 8 \<Longrightarrow> length (name_at t i) \<le> 15"
    "\<lbrakk>i < 8; i' < 8; name_at t i = name_at t i'; name_at t i \<noteq> ''''\<rbrakk> \<Longrightarrow> i = i'"
    "holds_at t i j n vid \<Longrightarrow> holds_at t i' j' n vid \<Longrightarrow> i = i' \<and> j = j'"
  using assms unfolding topo_inv_def by blast+

lemma find_index_unique:
  assumes "i < length xs" "p (xs ! i)" "\<And>k. k < length xs \<Longrightarrow> p (xs ! k) \<Longrightarrow> k = i"
  shows "find_index p xs = Some i"
proof (rule find_index_SomeI)
  show "i < length xs" "p (xs ! i)" by (fact assms)+
  show "\<not> p (xs ! k)" if "k < i" for k using assms(3) [of k] assms(1) that by force
qed

lemma parent_of_eq:
  assumes "topo_inv t"
  shows "parent_of t n = Some i \<longleftrightarrow> i < 8 \<and> name_at t i = n \<and> n \<noteq> ''''"
proof
  assume "parent_of t n = Some i"
  then show "i < 8 \<and> name_at t i = n \<and> n \<noteq> ''''"
    using topo_invD(2) [OF assms] by (auto simp: parent_of_def dest!: find_index_SomeD)
next
  assume i: "i < 8 \<and> name_at t i = n \<and> n \<noteq> ''''"
  have "k = i" if "k < 8" "name_at t k \<noteq> '''' \<and> name_at t k = n" for k
    using topo_invD(5) [OF assms that(1), of i] that(2) i by simp
  then show "parent_of t n = Some i"
    unfolding parent_of_def topo_invD(2) [OF assms, symmetric]
    using i topo_invD(2) [OF assms] by (intro find_index_unique) (simp, simp, metis)
qed

lemma vlan_slot_eq:
  assumes "topo_inv t" "i < 8" "name_at t i \<noteq> ''''"
  shows "vlan_slot (to_p t ! i) vid = Some j \<longleftrightarrow> holds_at t i j (name_at t i) vid"
proof
  assume "vlan_slot (to_p t ! i) vid = Some j"
  then show "holds_at t i j (name_at t i) vid"
    using topo_invD(3) [OF assms(1,2)] assms(2,3)
      find_index_SomeD [of "\<lambda>v. tv_state v \<noteq> REAC_TOPO_VLAN_FREE \<and> tv_vid v = vid" "tp_v (to_p t ! i)" j]
    by (simp add: vlan_slot_def holds_at_def vlan_at_def)
next
  let ?live = "\<lambda>v. tv_state v \<noteq> REAC_TOPO_VLAN_FREE \<and> tv_vid v = vid"
  assume h: "holds_at t i j (name_at t i) vid"
  then have j: "j < 16" "?live (tp_v (to_p t ! i) ! j)" by (simp_all add: holds_at_def vlan_at_def)
  show "vlan_slot (to_p t ! i) vid = Some j"
    unfolding vlan_slot_def
  proof (rule find_index_unique)
    show "j < length (tp_v (to_p t ! i))" "?live (tp_v (to_p t ! i) ! j)" using topo_invD(3) [OF assms(1,2)] j by simp_all
    fix k
    assume "k < length (tp_v (to_p t ! i))" "?live (tp_v (to_p t ! i) ! k)"
    then have "holds_at t i k (name_at t i) vid"
      using assms(2,3) topo_invD(3) [OF assms(1,2)] by (simp add: holds_at_def vlan_at_def)
    then show "k = j" using topo_invD(6) [OF assms(1), of i k _ _ i j] h by blast
  qed
qed

lemma vlan_of_eq:
  assumes "topo_inv t"
  shows "vlan_of t n vid = Some (i, j) \<longleftrightarrow> holds_at t i j n vid"
proof
  assume "vlan_of t n vid = Some (i, j)"
  then have "parent_of t n = Some i" "vlan_slot (to_p t ! i) vid = Some j" by (auto simp: vlan_of_def split: option.splits)
  then show "holds_at t i j n vid" using parent_of_eq [OF assms, of n i] vlan_slot_eq [OF assms, of i vid j] by simp
next
  assume h: "holds_at t i j n vid"
  then have i: "i < 8" "name_at t i = n" "n \<noteq> ''''" by (simp_all add: holds_at_def)
  then have "parent_of t n = Some i" using parent_of_eq [OF assms, of n i] by simp
  moreover have "vlan_slot (to_p t ! i) vid = Some j" using vlan_slot_eq [OF assms i(1)] i h by simp
  ultimately show "vlan_of t n vid = Some (i, j)" by (simp add: vlan_of_def)
qed

text \<open>A VLAN in service, with the flag that says whether its interface was made for it.\<close>

definition service :: "reac_topo \<Rightarrow> string \<Rightarrow> u16 \<Rightarrow> bool option" where
  "service t n vid =
     (case vlan_of t n vid of
        None \<Rightarrow> None
      | Some (i, j) \<Rightarrow> if tv_state (vlan_at t i j) = REAC_TOPO_VLAN_SERVED then Some (tv_minted (vlan_at t i j)) else None)"

definition serves_at :: "reac_topo \<Rightarrow> nat \<Rightarrow> nat \<Rightarrow> string \<Rightarrow> u16 \<Rightarrow> bool \<Rightarrow> bool" where
  "serves_at t i j n vid m \<longleftrightarrow>
     holds_at t i j n vid \<and> tv_state (vlan_at t i j) = REAC_TOPO_VLAN_SERVED \<and> tv_minted (vlan_at t i j) = m"

lemma service_eq:
  assumes "topo_inv t"
  shows "service t n vid = Some m \<longleftrightarrow> (\<exists>i j. serves_at t i j n vid m)"
proof (cases "vlan_of t n vid")
  case None
  then have "\<not> holds_at t i j n vid" for i j using vlan_of_eq [OF assms, of n vid i j] by simp
  with None show ?thesis by (simp add: service_def serves_at_def)
next
  case (Some ij)
  obtain i j where ij: "ij = (i, j)" by fastforce
  then have h: "holds_at t i j n vid" using vlan_of_eq [OF assms, of n vid i j] Some by simp
  then have "service t n vid = Some m \<longleftrightarrow> serves_at t i j n vid m"
    using Some ij by (simp add: service_def serves_at_def)
  moreover have "serves_at t i j n vid m" if "serves_at t i' j' n vid m" for i' j'
  proof -
    have "i' = i \<and> j' = j" using topo_invD(6) [OF assms, of i' j' n vid i j] that h by (simp add: serves_at_def)
    then show ?thesis using that by simp
  qed
  ultimately show ?thesis by blast
qed

lemma service_cong:
  assumes "topo_inv t" "topo_inv t'" "\<And>m. (\<exists>i j. serves_at t i j n vid m) \<longleftrightarrow> (\<exists>i j. serves_at t' i j n vid m)"
  shows "service t' n vid = service t n vid"
proof -
  have "service t' n vid = Some m \<longleftrightarrow> service t n vid = Some m" for m
    using assms(3) by (simp add: service_eq [OF assms(1)] service_eq [OF assms(2)])
  then show ?thesis by (metis not_Some_eq)
qed

section \<open>What each operation changes\<close>

text \<open>Nothing but counters and the queue.\<close>

definition same_slots :: "reac_topo \<Rightarrow> reac_topo \<Rightarrow> bool" where
  "same_slots t t' \<longleftrightarrow> length (to_p t') = length (to_p t) \<and>
     (\<forall>i < length (to_p t). name_at t' i = name_at t i \<and> tp_v (to_p t' ! i) = tp_v (to_p t ! i))"

lemma same_slots_keep:
  assumes "topo_inv t" "same_slots t t'" "queue_ok t'"
  shows "topo_inv t'" and "service t' n vid = service t n vid"
    and "serves_at t' i j n vid m = serves_at t i j n vid m"
proof -
  have len: "length (to_p t) = 8" using topo_invD(2) [OF assms(1)] .
  then have at: "name_at t' i = name_at t i \<and> tp_v (to_p t' ! i) = tp_v (to_p t ! i)" if "i < 8" for i
    using assms(2) that by (simp add: same_slots_def)
  have h: "holds_at t' i j n vid = holds_at t i j n vid" for i j n vid
    using at [of i] by (cases "i < 8") (simp_all add: holds_at_def vlan_at_def)
  have s: "serves_at t' i j n vid m = serves_at t i j n vid m" for i j n vid m
    using at [of i] h by (cases "i < 8") (simp_all add: serves_at_def vlan_at_def holds_at_def)
  show inv: "topo_inv t'"
    unfolding topo_inv_def h using assms(1,2,3) len at unfolding topo_inv_def same_slots_def by simp
  show "service t' n vid = service t n vid" by (rule service_cong [OF assms(1) inv]) (simp add: s)
  show "serves_at t' i j n vid m = serves_at t i j n vid m" by (rule s)
qed

lemma same_slots_refl [simp]: "same_slots t t"
  by (simp add: same_slots_def)

lemma same_slots_simps [simp]:
  "same_slots t (emit t v n vid m)" "same_slots t (t\<lparr> to_unbounded := k \<rparr>)"
  "tp_name p = name_at t i \<Longrightarrow> tp_v p = tp_v (to_p t ! i) \<Longrightarrow> same_slots t (set_parent t i p)"
  by (simp_all add: same_slots_def set_parent_def) (metis nth_list_update_eq nth_list_update_neq)

lemma emit_keeps:
  assumes "topo_inv t"
  shows "topo_inv (emit t v p vid m)" and "service (emit t v p vid m) n' vid' = service t n' vid'"
  using same_slots_keep [OF assms same_slots_simps(1)] topo_invD(1) [OF assms] by simp_all

lemma set_vlan_at:
  assumes "topo_inv t" "i < 8" "j < 16"
  shows "name_at (set_vlan t i j v) k = name_at t k"
    and "vlan_at (set_vlan t i j v) i' j' = (if i' = i \<and> j' = j then v else vlan_at t i' j')"
    and "k < 8 \<Longrightarrow> length (tp_v (to_p (set_vlan t i j v) ! k)) = 16"
    and "length (to_p (set_vlan t i j v)) = 8"
  using topo_invD(2,3) [OF assms(1)] assms(2,3)
  by (auto simp: set_vlan_def set_parent_def vlan_at_def nth_list_update)

lemma set_vlan_inv:
  assumes "topo_inv t" "i < 8" "j < 16"
    and "\<And>a b c d n vid. holds_at (set_vlan t i j v) a b n vid \<Longrightarrow> holds_at (set_vlan t i j v) c d n vid \<Longrightarrow> a = c \<and> b = d"
  shows "topo_inv (set_vlan t i j v)"
  unfolding topo_inv_def set_vlan_at [OF assms(1-3)]
  using assms(4) set_vlan_at(3,4) [OF assms(1-3)] topo_invD(1,4,5) [OF assms(1)] by simp

text \<open>An occupied slot keeps its VLAN.\<close>

lemma set_vlan_live:
  assumes "topo_inv t" "holds_at t i j n vid" "tv_state v \<noteq> REAC_TOPO_VLAN_FREE" "tv_vid v = vid"
  shows "topo_inv (set_vlan t i j v)"
    and "service (set_vlan t i j v) n' vid' =
      (if n' = n \<and> vid' = vid then if tv_state v = REAC_TOPO_VLAN_SERVED then Some (tv_minted v) else None
       else service t n' vid')"
proof -
  have ij: "i < 8" "j < 16" using assms(2) by (simp_all add: holds_at_def)
  have h: "holds_at (set_vlan t i j v) a b n' vid' = holds_at t a b n' vid'" for a b n' vid'
    using assms(2-4) unfolding holds_at_def set_vlan_at [OF assms(1) ij] by auto
  show inv: "topo_inv (set_vlan t i j v)"
    by (rule set_vlan_inv [OF assms(1) ij]) (use topo_invD(6) [OF assms(1)] in \<open>simp only: h\<close>)
  show "service (set_vlan t i j v) n' vid' =
      (if n' = n \<and> vid' = vid then if tv_state v = REAC_TOPO_VLAN_SERVED then Some (tv_minted v) else None
       else service t n' vid')"
  proof (cases "n' = n \<and> vid' = vid")
    case True
    then have "vlan_of (set_vlan t i j v) n' vid' = Some (i, j)" using vlan_of_eq [OF inv] h assms(2) by simp
    then show ?thesis using True by (simp add: service_def set_vlan_at [OF assms(1) ij])
  next
    case False
    have "serves_at (set_vlan t i j v) a b n' vid' m = serves_at t a b n' vid' m" for a b m
      using False assms(2,4) by (auto simp: serves_at_def h set_vlan_at [OF assms(1) ij] holds_at_def)
    then show ?thesis using service_cong [OF assms(1) inv, of n' vid'] False by auto
  qed
qed

text \<open>A free slot gets a VLAN that is not there yet.\<close>

lemma set_vlan_new:
  assumes "topo_inv t" "i < 8" "j < 16" "tv_state (vlan_at t i j) = REAC_TOPO_VLAN_FREE"
    and "\<And>b. \<not> holds_at t i b (name_at t i) (tv_vid v)" "tv_state v = REAC_TOPO_VLAN_HEARD"
  shows "topo_inv (set_vlan t i j v)" and "service (set_vlan t i j v) n' vid' = service t n' vid'"
proof -
  let ?t = "set_vlan t i j v"
  have h: "holds_at ?t a b n vid \<longleftrightarrow>
      (if a = i \<and> b = j then name_at t i = n \<and> n \<noteq> '''' \<and> tv_vid v = vid else holds_at t a b n vid)" for a b n vid
    using assms(2,3,6) unfolding holds_at_def set_vlan_at [OF assms(1-3)] by auto
  have no: "\<not> holds_at t a b (name_at t i) (tv_vid v)" for a b
  proof
    assume x: "holds_at t a b (name_at t i) (tv_vid v)"
    then have "a = i" using topo_invD(5) [OF assms(1), of a i] assms(2) by (simp add: holds_at_def)
    then show False using assms(5) x by blast
  qed
  show inv: "topo_inv ?t"
  proof (rule set_vlan_inv [OF assms(1-3)])
    fix a b c d n vid
    assume "holds_at ?t a b n vid" "holds_at ?t c d n vid"
    then show "a = c \<and> b = d"
      using no topo_invD(6) [OF assms(1), of a b n vid c d] by (auto simp: h split: if_splits)
  qed
  have "serves_at ?t a b n' vid' m = serves_at t a b n' vid' m" for a b m
    using assms(4,6) by (auto simp: serves_at_def h set_vlan_at [OF assms(1-3)])
  then show "service ?t n' vid' = service t n' vid'" using service_cong [OF assms(1) inv] by simp
qed

text \<open>Slots taken down, one after the other: each is zeroed and announced once.\<close>

definition due_at :: "(reac_topo_vlan \<Rightarrow> bool) \<Rightarrow> reac_topo \<Rightarrow> nat \<times> nat \<Rightarrow> bool" where
  "due_at due t ij \<longleftrightarrow> name_at t (fst ij) \<noteq> '''' \<and> tv_state (vlan_at t (fst ij) (snd ij)) = REAC_TOPO_VLAN_SERVED \<and>
     due (vlan_at t (fst ij) (snd ij))"

definition release_event :: "reac_topo \<Rightarrow> nat \<times> nat \<Rightarrow> reac_topo_event" where
  "release_event t ij = event REAC_TOPO_RELEASE (name_at t (fst ij)) (tv_vid (vlan_at t (fst ij) (snd ij)))
     (tv_minted (vlan_at t (fst ij) (snd ij)))"

definition in_table :: "nat \<times> nat \<Rightarrow> bool" where
  "in_table ij \<longleftrightarrow> fst ij < 8 \<and> snd ij < 16"

lemma release_if_eq:
  "release_if due t ij =
     (if due_at due t ij
      then set_vlan (emit_all t [release_event t ij]) (fst ij) (snd ij) vlan_zero else t)"
  by (simp add: release_if_def due_at_def release_event_def vlan_at_def Let_def emit_def)

lemma release_step_inv:
  assumes "topo_inv t" "in_table ij"
  shows "topo_inv (release_if due t ij)"
proof -
  let ?e = "emit_all t [release_event t ij]"
  have e: "topo_inv ?e" using emit_keeps(1) [OF assms(1)] by simp
  have ij: "fst ij < 8" "snd ij < 16" using assms(2) by (simp_all add: in_table_def)
  have "holds_at (set_vlan ?e (fst ij) (snd ij) vlan_zero) a b n vid \<Longrightarrow> holds_at ?e a b n vid" for a b n vid
    unfolding holds_at_def set_vlan_at [OF e ij] by (auto simp: vlan_zero_def split: if_splits)
  then have "topo_inv (set_vlan ?e (fst ij) (snd ij) vlan_zero)"
    using topo_invD(6) [OF e] by (intro set_vlan_inv [OF e ij]) blast
  then show ?thesis using assms(1) by (simp add: release_if_eq)
qed

lemma release_step_at:
  assumes "topo_inv t" "in_table ij"
  shows "name_at (release_if due t ij) k = name_at t k"
    and "vlan_at (release_if due t ij) i' j' = (if (i', j') = ij \<and> due_at due t ij then vlan_zero else vlan_at t i' j')"
proof -
  let ?e = "emit_all t [release_event t ij]"
  have e: "topo_inv ?e" using emit_keeps(1) [OF assms(1)] by simp
  have ij: "fst ij < 8" "snd ij < 16" using assms(2) by (simp_all add: in_table_def)
  have same: "name_at ?e k = name_at t k" "vlan_at ?e i' j' = vlan_at t i' j'" by (simp_all add: vlan_at_def)
  show "name_at (release_if due t ij) k = name_at t k"
    unfolding release_if_eq using set_vlan_at(1) [OF e ij] same by simp
  show "vlan_at (release_if due t ij) i' j' = (if (i', j') = ij \<and> due_at due t ij then vlan_zero else vlan_at t i' j')"
    unfolding release_if_eq using set_vlan_at(2) [OF e ij] same by (auto simp: prod_eq_iff)
qed

lemma release_run:
  assumes "topo_inv t" "list_all in_table L" "distinct L"
  shows "topo_inv (foldl (release_if due) t L) \<and> name_at (foldl (release_if due) t L) k = name_at t k \<and>
    vlan_at (foldl (release_if due) t L) i j = (if (i, j) \<in> set L \<and> due_at due t (i, j) then vlan_zero else vlan_at t i j) \<and>
    pending (foldl (release_if due) t L) = take 31 (pending t @ map (release_event t) (filter (due_at due t) L))"
  using assms(2,3)
proof (induction L arbitrary: i j k rule: rev_induct)
  case Nil
  then show ?case using assms(1) pending_length [OF topo_invD(1) [OF assms(1)]] by simp
next
  case (snoc ij L)
  let ?t = "foldl (release_if due) t L"
  have L: "list_all in_table L" "distinct L" "in_table ij" "ij \<notin> set L" using snoc.prems by simp_all
  note IH = snoc.IH [OF L(1,2)]
  have inv: "topo_inv ?t" and nm: "name_at ?t k = name_at t k" for k using IH by blast+
  have v: "vlan_at ?t i j = (if (i, j) \<in> set L \<and> due_at due t (i, j) then vlan_zero else vlan_at t i j)" for i j
    using IH by blast
  have here: "vlan_at ?t (fst ij) (snd ij) = vlan_at t (fst ij) (snd ij)" using v [of "fst ij" "snd ij"] L(4) by simp
  then have d: "due_at due ?t ij = due_at due t ij" and e: "release_event ?t ij = release_event t ij"
    using nm by (simp_all add: due_at_def release_event_def)
  have p: "pending ?t = take 31 (pending t @ map (release_event t) (filter (due_at due t) L))" using IH by blast
  have "pending (release_if due ?t ij) =
      take 31 (pending t @ map (release_event t) (filter (due_at due t) (L @ [ij])))"
  proof (cases "due_at due t ij")
    case True
    have "pending (release_if due ?t ij) = take 31 (pending ?t @ [release_event t ij])"
      using True d e emit_pending(1) [OF topo_invD(1) [OF inv]]
      by (simp add: release_if_eq) (simp add: release_event_def event_def)
    then show ?thesis using True p pending_length [OF topo_invD(1) [OF assms(1)]] by (simp add: min_def)
  qed (simp add: release_if_eq d p)
  then show ?case
    using release_step_inv [OF inv L(3)] release_step_at [OF inv L(3)] nm v L(4) d by auto
qed

lemma topo_cells_table: "list_all in_table topo_cells" "distinct topo_cells" "in_table ij \<longleftrightarrow> ij \<in> set topo_cells"
proof -
  show "list_all in_table topo_cells" "distinct topo_cells" unfolding topo_cells_def in_table_def by code_simp+
  show "in_table ij \<longleftrightarrow> ij \<in> set topo_cells" 
    by (cases ij) (force simp: topo_cells_def in_table_def)
qed

section \<open>What is announced\<close>

definition released :: "reac_topo_event list \<Rightarrow> (string \<times> u16 \<times> bool) set" where
  "released es = {(te_parent e, te_vid e, te_minted e) | e. e \<in> set es \<and> te_verb e = REAC_TOPO_RELEASE}"

definition out_of_service :: "reac_topo \<Rightarrow> reac_topo \<Rightarrow> (string \<times> u16 \<times> bool) set" where
  "out_of_service t t' = {(n, vid, m). service t n vid = Some m \<and> service t' n vid = None}"

lemma out_of_service_same [simp]: "(\<And>n vid. service t' n vid = service t n vid) \<Longrightarrow> out_of_service t t' = {}"
  by (simp add: out_of_service_def)

lemma released_simps [simp]: "released [] = {}" "v \<noteq> REAC_TOPO_RELEASE \<Longrightarrow> released [event v n vid m] = {}"
  by (simp_all add: released_def)

text \<open>Going down slot by slot: a set of slots stops serving, and exactly those are announced.\<close>

lemma down_effect:
  assumes t: "topo_inv t" and t': "topo_inv t'"
    and at: "\<And>i j n vid m. serves_at t' i j n vid m \<longleftrightarrow> serves_at t i j n vid m \<and> (i, j) \<notin> D"
    and new: "set new = release_event t ` {(i, j). (i, j) \<in> D \<and> (\<exists>n vid m. serves_at t i j n vid m)}"
  shows "released new = out_of_service t t'"
proof -
  have one: "release_event t (i, j) = event REAC_TOPO_RELEASE n vid m \<and> take 15 n = n" if "serves_at t i j n vid m" for i j n vid m
    using that topo_invD(4) [OF t, of i] by (auto simp: release_event_def serves_at_def holds_at_def)
  have "released new = {(n, vid, m). \<exists>i j. (i, j) \<in> D \<and> serves_at t i j n vid m}"
  proof (intro set_eqI iffI; clarsimp simp: released_def new)
    fix i j n vid m
    assume "(i, j) \<in> D" "serves_at t i j n vid m"
    then show "\<exists>i' j'. (i', j') \<in> D \<and> serves_at t i' j' (te_parent (release_event t (i, j))) (te_vid (release_event t (i, j)))
        (te_minted (release_event t (i, j)))"
      using one [of i j n vid m] by auto
  next
    fix n vid m i j
    assume ij: "(i, j) \<in> D" "serves_at t i j n vid m"
    then show "\<exists>e. n = te_parent e \<and> vid = te_vid e \<and> m = te_minted e \<and>
        e \<in> release_event t ` {(i, j). (i, j) \<in> D \<and> (\<exists>n vid m. serves_at t i j n vid m)} \<and> te_verb e = REAC_TOPO_RELEASE"
    proof (intro exI conjI)
      show "release_event t (i, j) \<in> release_event t ` {(i, j). (i, j) \<in> D \<and> (\<exists>n vid m. serves_at t i j n vid m)}"
        using ij by (intro imageI) blast
    qed (use one [OF ij(2)] in simp_all)
  qed
  also have "\<dots> = out_of_service t t'"
  proof (intro set_eqI iffI; clarsimp simp: out_of_service_def)
    fix n vid m i j
    assume ij: "(i, j) \<in> D" "serves_at t i j n vid m"
    have "\<not> serves_at t' a b n vid m'" for a b m'
    proof
      assume x: "serves_at t' a b n vid m'"
      then have "serves_at t a b n vid m'" "(a, b) \<notin> D" using at by simp_all
      then show False using topo_invD(6) [OF t, of a b n vid i j] ij by (simp add: serves_at_def)
    qed
    then have "service t' n vid \<noteq> Some m'" for m' using service_eq [OF t'] by simp
    then show "service t n vid = Some m \<and> service t' n vid = None" using ij(2) service_eq [OF t] by auto
  next
    fix n vid m
    assume "service t n vid = Some m" "service t' n vid = None"
    then obtain i j where s: "serves_at t i j n vid m" and "\<not> serves_at t' i j n vid m"
      using service_eq [OF t, of n vid m] service_eq [OF t', of n vid m] by auto
    then show "\<exists>i j. (i, j) \<in> D \<and> serves_at t i j n vid m" using at by blast
  qed
  finally show ?thesis .
qed

lemma release_loop_effect:
  assumes "topo_inv t"
  shows "topo_inv (foldl (release_if due) t topo_cells) \<and>
    pending (foldl (release_if due) t topo_cells) = take 31 (pending t @ map (release_event t) (filter (due_at due t) topo_cells)) \<and>
    (serves_at (foldl (release_if due) t topo_cells) i j n vid m \<longleftrightarrow> serves_at t i j n vid m \<and> \<not> due (vlan_at t i j)) \<and>
    released (map (release_event t) (filter (due_at due t) topo_cells)) = out_of_service t (foldl (release_if due) t topo_cells)"
proof -
  let ?t = "foldl (release_if due) t topo_cells" and ?new = "map (release_event t) (filter (due_at due t) topo_cells)"
  note run = release_run [OF assms topo_cells_table(1,2), of due]
  have inv: "topo_inv ?t" and p: "pending ?t = take 31 (pending t @ ?new)" using run by blast+
  have nm: "name_at ?t k = name_at t k" for k using run by blast
  have v: "vlan_at ?t i j = (if (i, j) \<in> set topo_cells \<and> due_at due t (i, j) then vlan_zero else vlan_at t i j)" for i j
    using run by blast
  have at: "serves_at ?t i j n vid m \<longleftrightarrow> serves_at t i j n vid m \<and> \<not> due (vlan_at t i j)" for i j n vid m
    unfolding serves_at_def holds_at_def nm v topo_cells_table(3) [symmetric] in_table_def due_at_def
    by (auto simp: vlan_zero_def)
  have "released ?new = out_of_service t ?t"
  proof (rule down_effect [OF assms inv, where D = "{(i, j). due (vlan_at t i j)}"])
    show "serves_at ?t i j n vid m \<longleftrightarrow> serves_at t i j n vid m \<and> (i, j) \<notin> {(i, j). due (vlan_at t i j)}" for i j n vid m
      using at by simp
    show "set ?new = release_event t ` {(i, j). (i, j) \<in> {(i, j). due (vlan_at t i j)} \<and> (\<exists>n vid m. serves_at t i j n vid m)}"
      unfolding set_map set_filter topo_cells_table(3) [symmetric]
      by (rule arg_cong [where f = "image (release_event t)"])
        (auto simp: in_table_def due_at_def serves_at_def holds_at_def)
  qed
  then show ?thesis using inv p at by blast
qed

text \<open>A parent no longer watched.\<close>

lemma unwatch_eq:
  assumes "parent_of t n = Some i"
  shows "reac_topo_unwatch t n = set_parent (emit_all t (map (\<lambda>v. event REAC_TOPO_RELEASE (name_at t i) (tv_vid v) (tv_minted v))
      (filter (\<lambda>v. tv_state v = REAC_TOPO_VLAN_SERVED) (tp_v (to_p t ! i))))) i parent_zero"
proof -
  have e15: "emit t v (take 15 n) vid m = emit t v n vid m" for t v n vid m by (simp add: emit_def Let_def)
  have f: "foldl (\<lambda>t v. if tv_state v = REAC_TOPO_VLAN_SERVED then emit t REAC_TOPO_RELEASE n (tv_vid v) (tv_minted v) else t) t vs
      = emit_all t (map (\<lambda>v. event REAC_TOPO_RELEASE n (tv_vid v) (tv_minted v)) (filter (\<lambda>v. tv_state v = REAC_TOPO_VLAN_SERVED) vs))" for t n vs
    by (induction vs arbitrary: t) (simp_all add: e15)
  show ?thesis unfolding reac_topo_unwatch_def assms option.case Let_def by (rule arg_cong [OF f])
qed

lemma set_of_slots: "length xs = 16 \<Longrightarrow> set xs = (\<lambda>j. xs ! j) ` {j. j < (16 :: nat)}"
  by (metis set_conv_nth image_Collect mem_Collect_eq)

lemma unwatch_effect:
  assumes "topo_inv t" "parent_of t n = Some i"
  defines "new \<equiv> map (\<lambda>v. event REAC_TOPO_RELEASE (name_at t i) (tv_vid v) (tv_minted v))
      (filter (\<lambda>v. tv_state v = REAC_TOPO_VLAN_SERVED) (tp_v (to_p t ! i)))"
  shows "topo_inv (reac_topo_unwatch t n)" and "pending (reac_topo_unwatch t n) = take 31 (pending t @ new)"
    and "released new = out_of_service t (reac_topo_unwatch t n)"
    and "serves_at (reac_topo_unwatch t n) a b n' vid m \<longleftrightarrow> serves_at t a b n' vid m \<and> a \<noteq> i"
proof -
  let ?t = "reac_topo_unwatch t n"
  have i: "i < 8" "name_at t i = n" "n \<noteq> ''''" using parent_of_eq [OF assms(1)] assms(2) by simp_all
  have eq: "?t = set_parent (emit_all t new) i parent_zero" unfolding new_def by (rule unwatch_eq [OF assms(2)])
  have em: "queue_ok (emit_all t new) \<and> to_p (emit_all t new) = to_p t \<and> pending (emit_all t new) = take 31 (pending t @ new)"
    by (rule emit_all_pending [OF topo_invD(1) [OF assms(1)]]) (auto simp: new_def)
  then have p: "to_p ?t = (to_p t)[i := parent_zero]" and q: "queue_ok ?t" by (simp_all add: eq set_parent_def queue_ok_def)
  show pd: "pending ?t = take 31 (pending t @ new)" using em by (simp add: eq)
  have len: "length (to_p t) = 8" by (rule topo_invD(2) [OF assms(1)])
  have nm: "name_at ?t a = (if a = i then '''' else name_at t a)"
    and vl: "vlan_at ?t a b = (if a = i then replicate 16 vlan_zero ! b else vlan_at t a b)" if "a < 8" for a b
    using that i(1) len by (simp_all add: p parent_zero_def vlan_at_def)
  have h: "holds_at ?t a b n' vid \<longleftrightarrow> holds_at t a b n' vid \<and> a \<noteq> i" for a b n' vid
    by (cases "a < 8") (auto simp: holds_at_def nm vl)
  have at: "serves_at ?t a b n' vid m \<longleftrightarrow> serves_at t a b n' vid m \<and> a \<noteq> i" for a b n' vid m
  proof (cases "holds_at t a b n' vid \<and> a \<noteq> i")
    case True
    then have "a < 8" by (simp add: holds_at_def)
    then show ?thesis using True by (simp add: serves_at_def h vl)
  qed (auto simp: serves_at_def h)
  show inv: "topo_inv ?t"
    unfolding topo_inv_def h
  proof (intro conjI allI impI)
    show "queue_ok ?t" "length (to_p ?t) = 8" using q len p by simp_all
    show "length (tp_v (to_p ?t ! a)) = 16" if "a < 8" for a
      using that len topo_invD(3) [OF assms(1), of a] by (cases "a = i") (simp_all add: p parent_zero_def)
    show "length (name_at ?t a) \<le> 15" if "a < 8" for a using that topo_invD(4) [OF assms(1), of a] by (simp add: nm)
    show "a = b" if "a < 8" "b < 8" "name_at ?t a = name_at ?t b" "name_at ?t a \<noteq> ''''" for a b
      using that topo_invD(5) [OF assms(1), of a b] by (auto simp: nm split: if_splits)
    show "a = c" "b = d" if "holds_at t a b n' vid \<and> a \<noteq> i" "holds_at t c d n' vid \<and> c \<noteq> i" for a b c d n' vid
      using that topo_invD(6) [OF assms(1), of a b n' vid c d] by simp_all
  qed
  show "serves_at ?t a b n' vid m \<longleftrightarrow> serves_at t a b n' vid m \<and> a \<noteq> i" by (rule at)
  show "released new = out_of_service t ?t"
  proof (rule down_effect [OF assms(1) inv, where D = "{(a, b). a = i}"])
    show "serves_at ?t a b n' vid m \<longleftrightarrow> serves_at t a b n' vid m \<and> (a, b) \<notin> {(a, b). a = i}" for a b n' vid m
      using at by simp
    have "set new = (\<lambda>b. release_event t (i, b)) ` {b. b < 16 \<and> tv_state (vlan_at t i b) = REAC_TOPO_VLAN_SERVED}"
      unfolding new_def set_map set_filter set_of_slots [OF topo_invD(3) [OF assms(1) i(1)]]
      by (auto simp: release_event_def vlan_at_def image_iff)
    also have "\<dots> = release_event t ` {(a, b). (a, b) \<in> {(a, b). a = i} \<and> (\<exists>n vid m. serves_at t a b n vid m)}"
      using i by (auto simp: serves_at_def holds_at_def image_iff)
    finally show "set new = release_event t ` {(a, b). (a, b) \<in> {(a, b). a = i} \<and> (\<exists>n vid m. serves_at t a b n vid m)}" .
  qed
qed

section \<open>Runs\<close>

datatype topo_op =
    Topo_Watch string | Topo_Unwatch string | Topo_Saw string reac_topo_kind u16 u64 | Topo_Ensured string u16 bool
  | Topo_Ensure_Failed string u16 u64 | Topo_Tick u64 | Topo_Release_All | Topo_Next | Topo_Untagged string

fun topo_step :: "reac_topo \<Rightarrow> topo_op \<Rightarrow> reac_topo" where
  "topo_step t (Topo_Watch n) = fst (reac_topo_watch t n)"
| "topo_step t (Topo_Unwatch n) = reac_topo_unwatch t n"
| "topo_step t (Topo_Saw n k vid now) = reac_topo_saw t n k vid now"
| "topo_step t (Topo_Ensured n vid m) = reac_topo_ensured t n vid m"
| "topo_step t (Topo_Ensure_Failed n vid now) = reac_topo_ensure_failed t n vid now"
| "topo_step t (Topo_Tick now) = reac_topo_tick t now"
| "topo_step t Topo_Release_All = reac_topo_release_all t"
| "topo_step t Topo_Next = fst (reac_topo_next t)"
| "topo_step t (Topo_Untagged n) = fst (reac_topo_untagged_on_trunk t n)"

text \<open>The kernel gives no interface a name of more than 15 characters.\<close>

fun topo_op_ok :: "topo_op \<Rightarrow> bool" where
  "topo_op_ok (Topo_Watch n) \<longleftrightarrow> length n \<le> 15"
| "topo_op_ok _ \<longleftrightarrow> True"

text \<open>What one operation does: the invariant, what it appends to the queue, what leaves service (unless the
  owner itself reported a failure) and what enters it.\<close>

definition step_effect :: "reac_topo \<Rightarrow> topo_op \<Rightarrow> reac_topo_event list \<Rightarrow> reac_topo \<Rightarrow> bool" where
  "step_effect t op new t' \<longleftrightarrow> topo_inv t' \<and>
     pending t' = (if op = Topo_Next then tl (pending t) else take 31 (pending t @ new)) \<and>
     released new = (case op of Topo_Ensure_Failed _ _ _ \<Rightarrow> {} | _ \<Rightarrow> out_of_service t t') \<and>
     (\<forall>n vid m. service t' n vid = Some m \<longrightarrow> service t n vid = Some m \<or> op = Topo_Ensured n vid m)"

lemma quiet_effect:
  assumes "topo_inv t" "topo_inv t'" "\<And>n vid. service t' n vid = service t n vid" "pending t' = take 31 (pending t @ new)"
    "released new = {}" "op \<noteq> Topo_Next"
  shows "step_effect t op new t'"
  using assms by (cases op) (simp_all add: step_effect_def)

lemma emit_quiet:
  assumes "topo_inv t" "topo_inv t1" "\<And>n vid. service t1 n vid = service t n vid" "pending t1 = pending t" "op \<noteq> Topo_Next"
    "v \<noteq> REAC_TOPO_RELEASE"
  shows "\<exists>new. step_effect t op new (emit t1 v n vid m)"
  using assms emit_keeps [OF assms(2)] emit_pending(1) [OF topo_invD(1) [OF assms(2)]]
  by (intro exI [of _ "[event v n vid m]"] quiet_effect) simp_all

lemma keep_quiet:
  assumes "topo_inv t" "topo_inv t'" "\<And>n vid. service t' n vid = service t n vid" "pending t' = pending t" "op \<noteq> Topo_Next"
  shows "\<exists>new. step_effect t op new t'"
  using assms pending_length [OF topo_invD(1) [OF assms(1)]] by (intro exI [of _ "[]"] quiet_effect) simp_all

lemma same_quiet:
  assumes "topo_inv t" "same_slots t t'" "pending t' = pending t" "queue_ok t'" "op \<noteq> Topo_Next"
  shows "\<exists>new. step_effect t op new t'"
  using same_slots_keep [OF assms(1,2,4)] assms by (intro keep_quiet) simp_all

lemma watch_effect:
  assumes "topo_inv t" "length n \<le> 15"
  shows "\<exists>new. step_effect t (Topo_Watch n) new (fst (reac_topo_watch t n))"
proof (cases "parent_of t n = None \<and> find_index (\<lambda>p. tp_name p = '''') (to_p t) \<noteq> None")
  case False
  have "same_slots t t" by (simp add: same_slots_def)
  then show ?thesis
    using False topo_invD(1) [OF assms(1)] by (intro same_quiet [OF assms(1)])
      (auto simp: reac_topo_watch_def split: option.splits)
next
  case True
  then obtain i where i: "find_index (\<lambda>p. tp_name p = '''') (to_p t) = Some i" and fresh: "parent_of t n = None" by auto
  then have e: "fst (reac_topo_watch t n) = set_parent t i (parent_zero\<lparr> tp_name := n \<rparr>)" (is "_ = ?t")
    using assms(2) by (simp add: reac_topo_watch_def)
  have len: "length (to_p t) = 8" by (rule topo_invD(2) [OF assms(1)])
  have i8: "i < 8" "name_at t i = ''''" using find_index_SomeD [OF i] len by auto
  have no: "name_at t a \<noteq> n" if "a < 8" "n \<noteq> ''''" for a using parent_of_eq [OF assms(1), of n a] fresh that by auto
  have nm: "name_at ?t a = (if a = i then n else name_at t a)"
    and vl: "vlan_at ?t a b = (if a = i then replicate 16 vlan_zero ! b else vlan_at t a b)" if "a < 8" for a b
    using that i8 len by (simp_all add: set_parent_def parent_zero_def vlan_at_def)
  have h: "holds_at ?t a b n' vid = holds_at t a b n' vid" for a b n' vid
    using i8 by (cases "a < 8") (auto simp: holds_at_def nm vl vlan_zero_def)
  have s: "serves_at ?t a b n' vid m = serves_at t a b n' vid m" for a b n' vid m
  proof (cases "holds_at t a b n' vid")
    case True
    then have "a < 8" "a \<noteq> i" using i8 by (auto simp: holds_at_def)
    then show ?thesis using True by (simp add: serves_at_def h vl)
  qed (simp add: serves_at_def h)
  have inv: "topo_inv ?t"
    unfolding topo_inv_def h
  proof (intro conjI allI impI)
    show "queue_ok ?t" "length (to_p ?t) = 8" using topo_invD(1) [OF assms(1)] len by (simp_all add: set_parent_def queue_ok_def)
    show "length (tp_v (to_p ?t ! a)) = 16" if "a < 8" for a
      using that len topo_invD(3) [OF assms(1), of a] by (cases "a = i") (simp_all add: set_parent_def parent_zero_def)
    show "length (name_at ?t a) \<le> 15" if "a < 8" for a
      using that topo_invD(4) [OF assms(1), of a] assms(2) by (simp add: nm)
    show "a = b" if "a < 8" "b < 8" "name_at ?t a = name_at ?t b" "name_at ?t a \<noteq> ''''" for a b
      using that topo_invD(5) [OF assms(1), of a b] no by (auto simp: nm split: if_splits)
    show "a = c" "b = d" if "holds_at t a b n' vid" "holds_at t c d n' vid" for a b c d n' vid
      using that topo_invD(6) [OF assms(1), of a b n' vid c d] by simp_all
  qed
  show ?thesis unfolding e
    by (rule keep_quiet [OF assms(1) inv]) (use service_cong [OF assms(1) inv] s in simp_all)
qed

lemma saw_effect:
  assumes "topo_inv t"
  shows "\<exists>new. step_effect t (Topo_Saw n k vid now) new (reac_topo_saw t n k vid now)"
proof (cases "parent_of t n")
  case None
  then show ?thesis using assms by (intro keep_quiet) (simp_all add: reac_topo_saw_def)
next
  case (Some i)
  then have i: "i < 8" "name_at t i = n" "n \<noteq> ''''" using parent_of_eq [OF assms] by simp_all
  let ?p = "to_p t ! i"
  define t1 where "t1 = (if k = REAC_TOPO_TAGGED then set_parent t i (?p\<lparr> tp_tagged := tp_tagged ?p + 1 \<rparr>) else t)"
  have ss: "same_slots t t1" by (simp add: t1_def)
  have q1: "queue_ok t1" "pending t1 = pending t" using topo_invD(1) [OF assms] by (simp_all add: t1_def)
  note keep = same_slots_keep [OF assms ss q1(1)]
  have p1: "name_at t1 i = n" "tp_v (to_p t1 ! i) = tp_v ?p"
    using ss i topo_invD(2) [OF assms] by (simp_all add: same_slots_def)
  have slot: "vlan_slot ?p vid = vlan_slot (to_p t1 ! i) vid" by (simp add: vlan_slot_def p1)
  consider "k = REAC_TOPO_NOT_REAC" | "k = REAC_TOPO_UNTAGGED" | "k \<noteq> REAC_TOPO_NOT_REAC" "k \<noteq> REAC_TOPO_UNTAGGED" "vid = 0"
    | "k \<noteq> REAC_TOPO_NOT_REAC" "k \<noteq> REAC_TOPO_UNTAGGED" "vid \<noteq> 0" by blast
  then show ?thesis
  proof cases
    case 4
    then have "reac_topo_saw t n k vid now =
        (case vlan_slot ?p vid of Some j \<Rightarrow> vlan_seen t1 i j vid now | None \<Rightarrow> vlan_new t1 i vid now)"
      using Some by (simp add: reac_topo_saw_def Let_def t1_def split: option.split)
    note eq = this [unfolded slot]
    show ?thesis
    proof (cases "vlan_slot (to_p t1 ! i) vid")
      case (Some j)
      then have h: "holds_at t1 i j n vid" using vlan_slot_eq [OF keep(1) i(1)] p1 i by simp
      then have hv: "tv_state (vlan_at t1 i j) \<noteq> REAC_TOPO_VLAN_FREE" "tv_vid (vlan_at t1 i j) = vid" by (simp_all add: holds_at_def)
      define v where "v = (vlan_at t1 i j)\<lparr> tv_frames := tv_frames (vlan_at t1 i j) + 1, tv_last_ns := now \<rparr>"
      define v' where "v' = v\<lparr> tv_retry_after_ns := 0 \<rparr>"
      have "vlan_of t1 n vid = Some (i, j)" using vlan_of_eq [OF keep(1)] h by simp
      then have here: "service t n vid = (if tv_state (vlan_at t1 i j) = REAC_TOPO_VLAN_SERVED then Some (tv_minted (vlan_at t1 i j)) else None)"
        using keep(2) [of n vid] by (simp add: service_def)
      have live: "topo_inv (set_vlan t1 i j w)" "service (set_vlan t1 i j w) n' vid' = service t n' vid'"
        if "w = v \<or> w = v'" for w n' vid'
      proof -
        have w: "tv_state w = tv_state (vlan_at t1 i j)" "tv_vid w = vid" "tv_minted w = tv_minted (vlan_at t1 i j)"
          using that hv(2) by (auto simp: v_def v'_def)
        show "topo_inv (set_vlan t1 i j w)" using set_vlan_live(1) [OF keep(1) h, of w] w hv(1) by simp
        show "service (set_vlan t1 i j w) n' vid' = service t n' vid'"
          using set_vlan_live(2) [OF keep(1) h, of w] w hv(1) here keep(2) by simp
      qed
      have e: "vlan_seen t1 i j vid now = (if tv_state v = REAC_TOPO_VLAN_HEARD \<and> tv_retry_after_ns v \<noteq> 0 \<and> now \<ge> tv_retry_after_ns v
          then emit (set_vlan t1 i j v') REAC_TOPO_ENSURE n vid False else set_vlan t1 i j v)"
        by (simp add: vlan_seen_def v_def v'_def vlan_at_def Let_def p1)
      have "\<exists>new. step_effect t (Topo_Saw n k vid now) new (emit (set_vlan t1 i j v') REAC_TOPO_ENSURE n vid False)"
        using live q1(2) by (intro emit_quiet [OF assms]) simp_all
      moreover have "\<exists>new. step_effect t (Topo_Saw n k vid now) new (set_vlan t1 i j v)"
        using live q1(2) by (intro keep_quiet [OF assms]) simp_all
      ultimately show ?thesis unfolding eq Some option.case e by simp
    next
      case None
      then have no: "\<not> holds_at t1 i b (name_at t1 i) vid" for b
        using vlan_slot_eq [OF keep(1) i(1), of vid b] p1 i by simp
      show ?thesis
      proof (cases "find_index (\<lambda>v. tv_state v = REAC_TOPO_VLAN_FREE) (tp_v (to_p t1 ! i))")
        case None
        then have "reac_topo_saw t n k vid now = t1\<lparr> to_unbounded := to_unbounded t1 + 1 \<rparr>"
          using \<open>vlan_slot (to_p t1 ! i) vid = None\<close> by (simp add: eq vlan_new_def)
        then show ?thesis
          using ss q1 by (intro same_quiet [OF assms]) (simp_all add: same_slots_def)
      next
        case (Some j)
        define v where "v = vlan_zero\<lparr> tv_vid := vid, tv_state := REAC_TOPO_VLAN_HEARD, tv_frames := 1, tv_last_ns := now \<rparr>"
        have j: "j < 16" "tv_state (vlan_at t1 i j) = REAC_TOPO_VLAN_FREE"
          using find_index_SomeD [OF Some] topo_invD(3) [OF keep(1) i(1)] by (simp_all add: vlan_at_def)
        have "reac_topo_saw t n k vid now = emit (set_vlan t1 i j v) REAC_TOPO_ENSURE n vid False"
          using Some \<open>vlan_slot (to_p t1 ! i) vid = None\<close> by (simp add: eq vlan_new_def v_def p1)
        moreover have "topo_inv (set_vlan t1 i j v)" "service (set_vlan t1 i j v) n' vid' = service t n' vid'" for n' vid'
          using set_vlan_new [OF keep(1) i(1) j, of v] no keep(2) by (simp_all add: v_def)
        ultimately show ?thesis using q1(2) by (simp only:) (intro emit_quiet [OF assms]; simp)
      qed
    qed
  qed (use Some assms topo_invD(1) [OF assms] in \<open>auto simp: reac_topo_saw_def Let_def intro!: keep_quiet same_quiet\<close>)
qed

text \<open>The reports of the owner of the interfaces.\<close>

lemma ensured_effect:
  assumes "topo_inv t"
  shows "\<exists>new. step_effect t (Topo_Ensured n vid m) new (reac_topo_ensured t n vid m)"
proof (cases "vlan_of t n vid")
  case None
  then show ?thesis using assms by (intro keep_quiet) (simp_all add: reac_topo_ensured_def)
next
  case (Some ij)
  obtain i j where ij: "ij = (i, j)" by fastforce
  then have h: "holds_at t i j n vid" using vlan_of_eq [OF assms] Some by simp
  define v where "v = (vlan_at t i j)\<lparr> tv_state := REAC_TOPO_VLAN_SERVED, tv_minted := m, tv_retry_after_ns := 0 \<rparr>"
  have e: "reac_topo_ensured t n vid m = set_vlan t i j v" using Some ij by (simp add: reac_topo_ensured_def v_def vlan_at_def)
  have v: "tv_state v = REAC_TOPO_VLAN_SERVED" "tv_vid v = vid" "tv_minted v = m" using h by (simp_all add: v_def holds_at_def)
  have sv: "service (set_vlan t i j v) n' vid' = (if n' = n \<and> vid' = vid then Some m else service t n' vid')" for n' vid'
    using set_vlan_live(2) [OF assms h, of v] v by simp
  have "out_of_service t (set_vlan t i j v) = {}" by (auto simp: out_of_service_def sv split: if_splits)
  then show ?thesis unfolding e step_effect_def
    using set_vlan_live(1) [OF assms h, of v] v pending_length [OF topo_invD(1) [OF assms]]
    by (intro exI [of _ "[]"]) (auto simp: sv split: if_splits)
qed

lemma ensure_failed_effect:
  assumes "topo_inv t"
  shows "\<exists>new. step_effect t (Topo_Ensure_Failed n vid now) new (reac_topo_ensure_failed t n vid now)"
proof (cases "vlan_of t n vid")
  case None
  then show ?thesis using assms by (intro keep_quiet) (simp_all add: reac_topo_ensure_failed_def)
next
  case (Some ij)
  obtain i j where ij: "ij = (i, j)" by fastforce
  then have h: "holds_at t i j n vid" using vlan_of_eq [OF assms] Some by simp
  define v where "v = (vlan_at t i j)\<lparr> tv_state := REAC_TOPO_VLAN_HEARD, tv_minted := False,
    tv_retry_after_ns := now + REAC_TOPO_RETRY_NS \<rparr>"
  have e: "reac_topo_ensure_failed t n vid now = set_vlan t i j v"
    using Some ij by (simp add: reac_topo_ensure_failed_def v_def vlan_at_def)
  have v: "tv_state v = REAC_TOPO_VLAN_HEARD" "tv_vid v = vid" using h by (simp_all add: v_def holds_at_def)
  have sv: "service (set_vlan t i j v) n' vid' = (if n' = n \<and> vid' = vid then None else service t n' vid')" for n' vid'
    using set_vlan_live(2) [OF assms h, of v] v by simp
  then show ?thesis unfolding e step_effect_def
    using set_vlan_live(1) [OF assms h, of v] v pending_length [OF topo_invD(1) [OF assms]]
    by (intro exI [of _ "[]"]) (auto split: if_splits)
qed

lemma release_effect:
  assumes "topo_inv t" "topo_step t op = foldl (release_if due) t topo_cells" "op = Topo_Release_All \<or> op = Topo_Tick now"
  shows "\<exists>new. step_effect t op new (topo_step t op)"
proof -
  note eff = release_loop_effect [OF assms(1), of due]
  let ?t = "foldl (release_if due) t topo_cells"
  have inv: "topo_inv ?t" and at: "serves_at ?t i j n vid m \<Longrightarrow> serves_at t i j n vid m" for i j n vid m using eff by blast+
  have "service t n vid = Some m" if "service ?t n vid = Some m" for n vid m
    using that at service_eq [OF inv, of n vid m] service_eq [OF assms(1), of n vid m] by blast
  then show ?thesis
    unfolding assms(2) step_effect_def using eff assms(3)
    by (intro exI [of _ "map (release_event t) (filter (due_at due t) topo_cells)"]) auto
qed

lemma unwatch_step_effect:
  assumes "topo_inv t"
  shows "\<exists>new. step_effect t (Topo_Unwatch n) new (reac_topo_unwatch t n)"
proof (cases "parent_of t n")
  case None
  then show ?thesis using assms by (intro keep_quiet) (simp_all add: reac_topo_unwatch_def)
next
  case (Some i)
  note eff = unwatch_effect [OF assms Some]
  have "service t n' vid = Some m" if "service (reac_topo_unwatch t n) n' vid = Some m" for n' vid m
    using that eff(4) service_eq [OF eff(1), of n' vid m] service_eq [OF assms, of n' vid m] by blast
  then show ?thesis unfolding step_effect_def using eff(1-3) by (intro exI conjI) auto
qed

lemma next_untagged_effect:
  assumes "topo_inv t"
  shows "\<exists>new. step_effect t Topo_Next new (fst (reac_topo_next t))"
    and "\<exists>new. step_effect t (Topo_Untagged n) new (fst (reac_topo_untagged_on_trunk t n))"
proof -
  let ?t = "fst (reac_topo_next t)"
  have "same_slots t ?t" by (simp add: reac_topo_next_def same_slots_def)
  note k = same_slots_keep [OF assms this next_pending(3) [OF topo_invD(1) [OF assms]]]
  show "\<exists>new. step_effect t Topo_Next new ?t"
    using k(1,2) next_pending(2) [OF topo_invD(1) [OF assms]] by (intro exI [of _ "[]"]) (simp add: step_effect_def)
  show "\<exists>new. step_effect t (Topo_Untagged n) new (fst (reac_topo_untagged_on_trunk t n))"
    using topo_invD(1) [OF assms]
    by (intro same_quiet [OF assms]) (auto simp: reac_topo_untagged_on_trunk_def Let_def split: option.splits)
qed

lemma topo_step_effect:
  assumes "topo_inv t" "topo_op_ok op"
  shows "\<exists>new. step_effect t op new (topo_step t op)"
proof (cases op)
  case (Topo_Tick now)
  then show ?thesis by (intro release_effect [OF assms(1)]) (auto simp: reac_topo_tick_def)
next
  case Topo_Release_All
  then show ?thesis by (intro release_effect [OF assms(1)]) (auto simp: reac_topo_release_all_def)
qed (use assms watch_effect saw_effect ensured_effect ensure_failed_effect unwatch_step_effect next_untagged_effect in simp_all)

lemma topo_inv_init: "topo_inv reac_topo_init"
proof -
  have "\<not> holds_at reac_topo_init i j n vid" for i j n vid
    by (auto simp: holds_at_def reac_topo_init_def parent_zero_def)
  then show ?thesis by (simp add: topo_inv_def) (simp add: reac_topo_init_def queue_ok_def parent_zero_def)
qed

interpretation topo_machine: invariant_machine topo_step topo_inv topo_op_ok
  using topo_step_effect by unfold_locales (auto simp: step_effect_def)

definition last_heard :: "reac_topo \<Rightarrow> string \<Rightarrow> u16 \<Rightarrow> u64" where
  "last_heard t n vid = (case vlan_of t n vid of None \<Rightarrow> 0 | Some (i, j) \<Rightarrow> tv_last_ns (vlan_at t i j))"

lemma tick_silence:
  assumes "topo_inv t" "service t n vid = Some m"
  shows "service (reac_topo_tick t now) n vid = None \<longleftrightarrow> \<not> now < last_heard t n vid + REAC_TOPO_SILENCE_HOLD_NS"
proof -
  obtain i j where s: "serves_at t i j n vid m" using service_eq [OF assms(1)] assms(2) by blast
  then have h: "holds_at t i j n vid" and lh: "last_heard t n vid = tv_last_ns (vlan_at t i j)"
    using vlan_of_eq [OF assms(1), of n vid i j] by (simp_all add: serves_at_def last_heard_def)
  note eff = release_loop_effect [OF assms(1), of "\<lambda>v. \<not> now < tv_last_ns v + REAC_TOPO_SILENCE_HOLD_NS"]
  have inv: "topo_inv (reac_topo_tick t now)" unfolding reac_topo_tick_def using eff by blast
  have at: "serves_at (reac_topo_tick t now) a b n vid m' \<longleftrightarrow>
      serves_at t a b n vid m' \<and> now < tv_last_ns (vlan_at t a b) + REAC_TOPO_SILENCE_HOLD_NS" for a b m'
    unfolding reac_topo_tick_def using eff by blast
  have "service (reac_topo_tick t now) n vid = Some m' \<longleftrightarrow> m' = m \<and> now < last_heard t n vid + REAC_TOPO_SILENCE_HOLD_NS" for m'
    unfolding service_eq [OF inv] at lh using s topo_invD(6) [OF assms(1), of _ _ n vid i j] by (auto simp: serves_at_def)
  then show ?thesis by (cases "service (reac_topo_tick t now) n vid") auto
qed

text \<open>A failure reported by the owner of the interfaces takes that VLAN out of service and queues nothing.\<close>

lemma ensure_failed_exact:
  assumes "topo_inv t"
  shows "pending (reac_topo_ensure_failed t n vid now) = pending t \<and>
    service (reac_topo_ensure_failed t n vid now) n' vid' = (if n' = n \<and> vid' = vid then None else service t n' vid')"
proof (cases "vlan_of t n vid")
  case None
  then show ?thesis by (auto simp: reac_topo_ensure_failed_def service_def)
next
  case (Some ij)
  obtain i j where ij: "ij = (i, j)" by fastforce
  then have h: "holds_at t i j n vid" using vlan_of_eq [OF assms] Some by simp
  define v where "v = (vlan_at t i j)\<lparr> tv_state := REAC_TOPO_VLAN_HEARD, tv_minted := False,
    tv_retry_after_ns := now + REAC_TOPO_RETRY_NS \<rparr>"
  have e: "reac_topo_ensure_failed t n vid now = set_vlan t i j v"
    using Some ij by (simp add: reac_topo_ensure_failed_def v_def vlan_at_def)
  have v: "tv_state v = REAC_TOPO_VLAN_HEARD" "tv_vid v = vid" using h by (simp_all add: v_def holds_at_def)
  show ?thesis unfolding e using set_vlan_live [OF assms h, of v] v by simp
qed

text \<open>C26: VLANs are taken out of service honestly. After any history of watched and unwatched parents, frames
  seen, reports of the interfaces' owner, ticks and collected events, every operation but one announces the release of
  exactly the VLANs it takes out of service, minted and adopted ones alike, each with the flag saying whether its
  interface was made for it (the comments speak of the minted ones only). The one exception is a failure the owner
  reports: it takes that VLAN, and no other, out of service and announces nothing. What does not fit the queue of 31
  events is left out at its end; a VLAN comes into service only by the owner's report; and a tick ends service exactly
  for the VLANs that were silent for thirty seconds.\<close>

theorem topo_release_exact:
  assumes "list_all topo_op_ok ops" and "topo_op_ok op"
    and "t = foldl topo_step reac_topo_init ops" and "t' = topo_step t op"
  shows "(\<exists>new. pending t' = (if op = Topo_Next then tl (pending t) else take 31 (pending t @ new)) \<and>
      {(te_parent e, te_vid e, te_minted e) | e. e \<in> set new \<and> te_verb e = REAC_TOPO_RELEASE} =
        (case op of Topo_Ensure_Failed _ _ _ \<Rightarrow> {} | _ \<Rightarrow> {(n, vid, m). service t n vid = Some m \<and> service t' n vid = None}) \<and>
      (\<forall>n vid m. service t' n vid = Some m \<longrightarrow> service t n vid = Some m \<or> op = Topo_Ensured n vid m) \<and>
      (\<forall>now n vid m. op = Topo_Tick now \<longrightarrow> service t n vid = Some m \<longrightarrow>
         (service t' n vid = None \<longleftrightarrow> \<not> now < last_heard t n vid + REAC_TOPO_SILENCE_HOLD_NS))) \<and>
    (\<forall>n vid now. op = Topo_Ensure_Failed n vid now \<longrightarrow> pending t' = pending t \<and>
       (\<forall>n' vid'. service t' n' vid' = (if n' = n \<and> vid' = vid then None else service t n' vid')))"
proof
  have inv: "topo_inv t" unfolding assms(3) by (rule topo_machine.inv_run [OF topo_inv_init assms(1)])
  obtain new where new: "step_effect t op new t'" using topo_step_effect [OF inv assms(2)] assms(4) by blast
  show "\<exists>new. pending t' = (if op = Topo_Next then tl (pending t) else take 31 (pending t @ new)) \<and>
      {(te_parent e, te_vid e, te_minted e) | e. e \<in> set new \<and> te_verb e = REAC_TOPO_RELEASE} =
        (case op of Topo_Ensure_Failed _ _ _ \<Rightarrow> {} | _ \<Rightarrow> {(n, vid, m). service t n vid = Some m \<and> service t' n vid = None}) \<and>
      (\<forall>n vid m. service t' n vid = Some m \<longrightarrow> service t n vid = Some m \<or> op = Topo_Ensured n vid m) \<and>
      (\<forall>now n vid m. op = Topo_Tick now \<longrightarrow> service t n vid = Some m \<longrightarrow>
         (service t' n vid = None \<longleftrightarrow> \<not> now < last_heard t n vid + REAC_TOPO_SILENCE_HOLD_NS))"
    using new tick_silence [OF inv] assms(4) unfolding step_effect_def released_def out_of_service_def
    by (intro exI [of _ new]) simp
  show "\<forall>n vid now. op = Topo_Ensure_Failed n vid now \<longrightarrow> pending t' = pending t \<and>
       (\<forall>n' vid'. service t' n' vid' = (if n' = n \<and> vid' = vid then None else service t n' vid'))"
    using ensure_failed_exact [OF inv] assms(4) by simp
qed

theorem topo_release_exact_witness:
  "\<exists>new. pending (topo_step (foldl topo_step reac_topo_init [Topo_Watch ''eth0'', Topo_Saw ''eth0'' REAC_TOPO_TAGGED 11 5,
       Topo_Ensured ''eth0'' 11 True]) (Topo_Tick 40000000000))
     = take 31 ([\<lparr> te_verb = REAC_TOPO_ENSURE, te_parent = ''eth0'', te_vid = 11, te_minted = False \<rparr>] @ new) \<and>
     (''eth0'', 11, True) \<in> {(te_parent e, te_vid e, te_minted e) | e. e \<in> set new \<and> te_verb e = REAC_TOPO_RELEASE}"
proof -
  let ?ops = "[Topo_Watch ''eth0'', Topo_Saw ''eth0'' REAC_TOPO_TAGGED 11 5, Topo_Ensured ''eth0'' 11 True]"
  let ?t = "foldl topo_step reac_topo_init ?ops"
  have ev: "pending ?t = [\<lparr> te_verb = REAC_TOPO_ENSURE, te_parent = ''eth0'', te_vid = 11, te_minted = False \<rparr>]"
    "service ?t ''eth0'' 11 = Some True" "service (topo_step ?t (Topo_Tick 40000000000)) ''eth0'' 11 = None"
    by code_simp+
  let ?t' = "topo_step ?t (Topo_Tick 40000000000)"
  obtain new where "pending ?t' = take 31 (pending ?t @ new)"
    and rel: "{(te_parent e, te_vid e, te_minted e) | e. e \<in> set new \<and> te_verb e = REAC_TOPO_RELEASE} =
        {(n, vid, m). service ?t n vid = Some m \<and> service ?t' n vid = None}"
    using topo_release_exact [of ?ops "Topo_Tick 40000000000", OF _ _ refl refl] by (auto simp del: topo_step.simps)
  moreover have "(''eth0'', 11, True) \<in> {(te_parent e, te_vid e, te_minted e) | e. e \<in> set new \<and> te_verb e = REAC_TOPO_RELEASE}"
    unfolding rel using ev(2,3) by simp
  ultimately show ?thesis unfolding ev(1) by blast
qed

end
