(* ===== verification/Reac_Slave.thy ===== *)
theory Reac_Slave
  imports Reac_Link Reac_Ring Reac_Macaddr
begin

text \<open>
  The slave engine, \<^verbatim>\<open>transport/src/reac_slave.c\<close> and \<^verbatim>\<open>transport/src/reac_mac.c\<close>: what one turn of the
  engine's thread does with the link state it is asked for and with what the socket gave it. It drives the
  slave state machine, applies head-amp records, follows the master's counter and builds the frame of the
  turn; the frame handed to \<^verbatim>\<open>sendto\<close> and its socket address are the result. A box that masters
  (\<^verbatim>\<open>box_master\<close>) sends other frames through the same turn.

  Parameters: \<open>pw\<close> is \<^verbatim>\<open>powf\<close>; each place that reads the clock is a value of \<open>clock_site\<close>, read at most
  once per emission, and \<open>clk\<close> gives the time read there; \<open>fails\<close> says whether \<^verbatim>\<open>sendto\<close> fails. Samples
  are rational numbers. The thread, the socket and the log lines are left out.
\<close>

abbreviation (input) REAC_SLAVE_BOX_CHANNELS_DEFAULT :: int where "REAC_SLAVE_BOX_CHANNELS_DEFAULT \<equiv> 16"
abbreviation (input) REAC_BOX_MAX_CHANNELS :: int where "REAC_BOX_MAX_CHANNELS \<equiv> 40"
abbreviation (input) SLAVE_NS :: int where "SLAVE_NS \<equiv> 12"
abbreviation (input) REAC_BM_LISTEN_MS :: int where "REAC_BM_LISTEN_MS \<equiv> 2500"
abbreviation (input) REAC_BM_SCENE_QUIET_NS :: u64 where "REAC_BM_SCENE_QUIET_NS \<equiv> 200000000"
abbreviation (input) REAC_BM_RETRY_NS :: u64 where "REAC_BM_RETRY_NS \<equiv> 2000000000"
abbreviation (input) REAC_BM_DESC_REQUESTING :: u8 where "REAC_BM_DESC_REQUESTING \<equiv> 0x52"
abbreviation (input) REAC_BM_DESC_ESTABLISHED :: u8 where "REAC_BM_DESC_ESTABLISHED \<equiv> 0x7a"

section \<open>Configuration and state\<close>

text \<open>The address of our frames: what the interface has, or the fallback. \<open>hw\<close> is the answer of the
  \<^verbatim>\<open>SIOCGIFHWADDR\<close> request, its family and address, or nothing when the socket or the request failed.\<close>

definition reac_mac_default_src :: "string option \<Rightarrow> (int \<times> mac) option \<Rightarrow> int \<times> mac" where
  "reac_mac_default_src ifname hw =
     (case ifname of
        None \<Rightarrow> (- 1, snd reac_mac_fallback)
      | Some n \<Rightarrow>
          if n = '''' then (- 1, snd reac_mac_fallback)
          else case hw of None \<Rightarrow> (- 1, snd reac_mac_fallback) | Some (family, a) \<Rightarrow> reac_mac_compose family (Some a))"

record reac_slave_cfg =
  sc_ifname :: "string option"
  sc_box_channels :: int
  sc_sample_rate :: int
  sc_src_mac :: "mac option"
  sc_box_master :: bool
  sc_box_master_frame_box :: bool
  sc_box_master_burst_chanmap :: bool
  sc_box_master_fill_noise :: bool
  sc_box_master_presilence_ms :: int
  sc_model :: "reac_box_model option"

record reac_slave =
  sl_fsm :: reac_fsm
  sl_box_channels :: int
  sl_sample_rate :: int
  sl_src :: mac
  sl_tx_ring :: "rat ring option"
  sl_phy_up_seen :: bool
  sl_counter_offset :: u16
  sl_counter_locked :: bool
  sl_coldconnect_phase :: int
  sl_box_master :: bool
  sl_bm_frame_box :: bool
  sl_bm_burst_chanmap :: bool
  sl_bm_chanmap_hit :: bool
  sl_bm_announced :: bool
  sl_bm_fill_noise :: bool
  sl_bm_presilence_ms :: int
  sl_bm_saw_cfea :: bool
  sl_bm_last_scene_ns :: u64
  sl_bm_burst_sent_ns :: u64
  sl_bm_listened :: bool
  sl_bm_announce_sent :: bool
  sl_bm_burst_just_ended :: bool
  sl_bm_start_ns :: u64
  sl_bm_rng :: u32
  sl_bm_seq :: int
  sl_bm_burst :: int
  sl_ch_base :: int
  sl_ha_sens :: bytes
  sl_ha_pad :: "bool list"
  sl_ha_phantom :: "bool list"
  sl_ha_gain :: "rat list"
  sl_master_mac48 :: u64
  sl_rx_master_frames :: u64
  sl_tx_frames :: u64
  sl_tx_errors :: u64
  sl_established :: bool
  sl_model :: "reac_box_model option"

datatype reac_slave_emit = REAC_SLAVE_EMIT_NONE | REAC_SLAVE_EMIT_FLOOD_FILLER | REAC_SLAVE_EMIT_COLDCONNECT
  | REAC_SLAVE_EMIT_UPSTREAM_AUDIO | REAC_SLAVE_EMIT_HEARTBEAT

record reac_slave_decision =
  sd_emit :: reac_slave_emit
  sd_with_heartbeat :: bool
  sd_with_join :: bool
  sd_state :: reac_fsm_state

definition map_action :: "reac_fsm_out \<Rightarrow> reac_slave_decision" where
  "map_action x =
     (let d = \<lparr> sd_emit = REAC_SLAVE_EMIT_NONE, sd_with_heartbeat = False, sd_with_join = False, sd_state = fo_state x \<rparr> in
      case fo_action x of
        FSM_ACT_FLOOD_BCAST \<Rightarrow> d\<lparr> sd_emit := REAC_SLAVE_EMIT_FLOOD_FILLER \<rparr>
      | FSM_ACT_UNICAST_COLDCONNECT \<Rightarrow> d\<lparr> sd_emit := REAC_SLAVE_EMIT_COLDCONNECT, sd_with_join := fo_emit_join x \<rparr>
      | FSM_ACT_UNICAST_AUDIO \<Rightarrow> d\<lparr> sd_emit := REAC_SLAVE_EMIT_UPSTREAM_AUDIO, sd_with_heartbeat := fo_emit_heartbeat x \<rparr>
      | _ \<Rightarrow> d)"

definition slave_width :: "reac_slave_cfg option \<Rightarrow> int" where
  "slave_width cfg =
     (case cfg of
        None \<Rightarrow> REAC_SLAVE_BOX_CHANNELS_DEFAULT
      | Some c \<Rightarrow>
          (case sc_model c of
             Some m \<Rightarrow> reac_box_model_upstream_width m
           | None \<Rightarrow> if sc_box_channels c > 0
                     then if sc_box_channels c > REAC_BOX_MAX_CHANNELS then REAC_BOX_MAX_CHANNELS else sc_box_channels c
                     else REAC_SLAVE_BOX_CHANNELS_DEFAULT))"

definition slave_ch_base :: "reac_slave_cfg option \<Rightarrow> int" where
  "slave_ch_base cfg =
     (case (case cfg of None \<Rightarrow> None | Some c \<Rightarrow> sc_model c) of
        Some m \<Rightarrow> int (unat (bm_headamp_strap m)) * 0x10
      | None \<Rightarrow> if slave_width cfg = 16 then 0x20 else 0x00)"

definition reac_slave_fsm_init :: "(int \<times> mac) option \<Rightarrow> reac_slave_cfg option \<Rightarrow> reac_slave" where
  "reac_slave_fsm_init hw cfg =
     (let on = (\<lambda>get. case cfg of None \<Rightarrow> False | Some c \<Rightarrow> get c);
          rate = (case cfg of None \<Rightarrow> 0 | Some c \<Rightarrow> sc_sample_rate c)
      in \<lparr> sl_fsm = (if rate > 0 then reac_fsm_init\<lparr> fs_heartbeat_period := rate sdiv 12 \<rparr> else reac_fsm_init),
           sl_box_channels = slave_width cfg, sl_sample_rate = rate,
           sl_src = (case cfg of
                       None \<Rightarrow> snd (reac_mac_default_src None hw)
                     | Some c \<Rightarrow> (case sc_src_mac c of Some m \<Rightarrow> m | None \<Rightarrow> snd (reac_mac_default_src (sc_ifname c) hw))),
           sl_tx_ring = None, sl_phy_up_seen = False, sl_counter_offset = 0, sl_counter_locked = False,
           sl_coldconnect_phase = 0, sl_box_master = on sc_box_master, sl_bm_frame_box = on sc_box_master_frame_box,
           sl_bm_burst_chanmap = on sc_box_master_burst_chanmap, sl_bm_chanmap_hit = False, sl_bm_announced = False,
           sl_bm_fill_noise = on sc_box_master_fill_noise,
           sl_bm_presilence_ms = (case cfg of None \<Rightarrow> 0 | Some c \<Rightarrow> sc_box_master_presilence_ms c),
           sl_bm_saw_cfea = False, sl_bm_last_scene_ns = 0, sl_bm_burst_sent_ns = 0, sl_bm_listened = False,
           sl_bm_announce_sent = False, sl_bm_burst_just_ended = False, sl_bm_start_ns = 0, sl_bm_rng = 0x1234567,
           sl_bm_seq = 0, sl_bm_burst = 0, sl_ch_base = slave_ch_base cfg,
           sl_ha_sens = replicate 40 0, sl_ha_pad = replicate 40 False, sl_ha_phantom = replicate 40 False,
           sl_ha_gain = replicate 40 1, sl_master_mac48 = 0, sl_rx_master_frames = 0, sl_tx_frames = 0,
           sl_tx_errors = 0, sl_established = False,
           sl_model = (case cfg of None \<Rightarrow> None | Some c \<Rightarrow> sc_model c) \<rparr>)"

section \<open>The state machine's steps\<close>

definition slave_step :: "reac_slave \<Rightarrow> reac_fsm_event \<Rightarrow> reac_ctrl_parsed option \<Rightarrow> reac_slave \<times> reac_slave_decision" where
  "slave_step s ev rx =
     (case reac_fsm_step (sl_fsm s) ev rx of (f, x) \<Rightarrow>
        (s\<lparr> sl_fsm := f, sl_established := (fs_state f = FSM_ESTABLISHED) \<rparr>, map_action x))"

definition reac_slave_step_rx :: "reac_slave \<Rightarrow> reac_ctrl_parsed \<Rightarrow> reac_slave \<times> reac_slave_decision" where
  "reac_slave_step_rx s rx = slave_step s FSM_EV_RX (Some rx)"

definition reac_slave_step_tick :: "reac_slave \<Rightarrow> reac_slave \<times> reac_slave_decision" where
  "reac_slave_step_tick s = slave_step s FSM_EV_TICK None"

definition reac_slave_step_phy :: "reac_slave \<Rightarrow> bool \<Rightarrow> reac_slave \<times> reac_slave_decision" where
  "reac_slave_step_phy s up = slave_step s (if up then FSM_EV_PHY_UP else FSM_EV_PHY_DOWN) None"

section \<open>Head amps\<close>

definition reac_slave_headamp_gain :: "(rat \<Rightarrow> rat \<Rightarrow> rat) \<Rightarrow> u8 \<Rightarrow> bool \<Rightarrow> rat" where
  "reac_slave_headamp_gain pw sens_value pad_on = pw 10 (of_int (- reac_headamp_sens_cdb sens_value pad_on) / 2000)"

definition reac_slave_headamp_rx :: "(rat \<Rightarrow> rat \<Rightarrow> rat) \<Rightarrow> reac_slave \<Rightarrow> reac_ctrl_parsed \<Rightarrow> reac_slave \<times> int" where
  "reac_slave_headamp_rx pw s p =
     (let idx = int (unat (pc_ch p)) - sl_ch_base s; k = nat idx;
          regain = (\<lambda>s. s\<lparr> sl_ha_gain := (sl_ha_gain s)[k := reac_slave_headamp_gain pw (sl_ha_sens s ! k) (sl_ha_pad s ! k)] \<rparr>)
      in if idx < 0 \<or> idx \<ge> sl_box_channels s then (s, - 1)
         else if pc_param p = REAC_HEADAMP_PHANTOM
         then (s\<lparr> sl_ha_phantom := (sl_ha_phantom s)[k := pc_value p \<noteq> 0] \<rparr>, idx)
         else if pc_param p = REAC_HEADAMP_PAD
         then (regain (s\<lparr> sl_ha_pad := (sl_ha_pad s)[k := pc_value p \<noteq> 0] \<rparr>), idx)
         else if pc_param p = REAC_HEADAMP_SENS
         then (regain (s\<lparr> sl_ha_sens := (sl_ha_sens s)[k := pc_value p] \<rparr>), idx)
         else (s, - 1))"

definition reac_slave_apply_input_gain :: "rat list list \<Rightarrow> rat list \<Rightarrow> rat list list" where
  "reac_slave_apply_input_gain planar gain =
     map2 (\<lambda>b g. if g = 1 then b else map (\<lambda>x. x * g) b) planar gain"

section \<open>Building the frame of a turn\<close>

definition planes_of :: "rat list list \<Rightarrow> planes" where
  "planes_of rows = Some (\<lambda>c. if c < length rows then Some (\<lambda>i. if i < length (rows ! c) then rows ! c ! i else 0) else None)"

definition slave_build_block :: "reac_slave \<Rightarrow> reac_box_block \<Rightarrow> u16 \<Rightarrow> planes \<Rightarrow> int \<Rightarrow> bytes option" where
  "slave_build_block s b counter planar ns =
     (let master = fs_master_mac (sl_fsm s); src = sl_src s; w = sl_box_channels s in
      case sl_model s of
        Some m \<Rightarrow> reac_ctrl_build_as (Some m) b master src counter planar ns
      | None \<Rightarrow>
          (case b of
             REAC_BOX_BLOCK_CONFIG \<Rightarrow> reac_ctrl_build_config_announce master src counter w
           | REAC_BOX_BLOCK_CC0014 \<Rightarrow> reac_ctrl_build_coldconnect master src counter w planar ns
           | REAC_BOX_BLOCK_CC0013 \<Rightarrow> reac_ctrl_build_coldconnect_0013 master src counter w planar ns
           | REAC_BOX_BLOCK_CC0016 \<Rightarrow> reac_ctrl_build_coldconnect_0016 master src counter w planar ns
           | REAC_BOX_BLOCK_CC001A \<Rightarrow> reac_ctrl_build_coldconnect_001a master src counter w planar ns
           | REAC_BOX_BLOCK_IDENT_FIRST \<Rightarrow> reac_ctrl_build_identity_first master src counter w
           | REAC_BOX_BLOCK_IDENT_LAST \<Rightarrow> reac_ctrl_build_identity_last master src counter w))"

text \<open>The input samples of the turn: silence, or what the ring holds with the gains applied. A ring with
  fewer channels than the box leaves the other rows silent.\<close>

definition stage_inputs :: "reac_slave \<Rightarrow> reac_slave \<times> rat list list" where
  "stage_inputs s =
     (let silent = replicate (nat (sl_box_channels s)) (replicate 12 0) in
      case sl_tx_ring s of
        None \<Rightarrow> (s, silent)
      | Some r \<Rightarrow>
          (case reac_ring_read_planar r (word_of_int (sl_box_channels s)) 12 of (r', rows, got) \<Rightarrow>
             (s\<lparr> sl_tx_ring := Some r' \<rparr>,
              let rows = rows @ drop (length rows) silent
              in if got = 0 then rows else reac_slave_apply_input_gain rows (take (length rows) (sl_ha_gain s)))))"

datatype clock_site = Clk_Presilent | Clk_Scene_Quiet | Clk_Burst_Sent | Clk_Retry | Clk_Scene_Rx

definition bm_presilent :: "(clock_site \<Rightarrow> u64) \<Rightarrow> reac_slave \<Rightarrow> reac_slave \<times> bool" where
  "bm_presilent clk s =
     (if \<not> sl_box_master s then (s, False)
      else let hold = (if sl_bm_presilence_ms s > 0 then sl_bm_presilence_ms s else REAC_BM_LISTEN_MS);
               now = clk Clk_Presilent;
               s = (if sl_bm_start_ns s = 0 then s\<lparr> sl_bm_start_ns := now \<rparr> else s)
           in if now - sl_bm_start_ns s < word_of_int hold * 1000000 then (s, True)
              else if \<not> sl_bm_listened s
              then (let s = s\<lparr> sl_bm_listened := True \<rparr>
                    in (if \<not> sl_bm_saw_cfea s then s\<lparr> sl_fsm := (sl_fsm s)\<lparr> fs_flood_frames := 0 \<rparr> \<rparr> else s, False))
              else (s, False))"

definition bm_noise :: "u32 \<Rightarrow> rat" where
  "bm_noise rng = (of_nat (unat (drop_bit 8 rng AND 0xffff)) - 32768) / 32768 * (1 / 1000)"

fun bm_fill_row :: "u32 \<Rightarrow> rat list \<Rightarrow> u32 \<times> rat list" where
  "bm_fill_row rng [] = (rng, [])"
| "bm_fill_row rng (x # xs) =
     (let rng = rng * 1103515245 + 12345; (rng', ys) = bm_fill_row rng xs in (rng', (x + bm_noise rng) # ys))"

fun bm_fill_rows :: "u32 \<Rightarrow> rat list list \<Rightarrow> u32 \<times> rat list list" where
  "bm_fill_rows rng [] = (rng, [])"
| "bm_fill_rows rng (r # rs) =
     (let (rng, r') = bm_fill_row rng r; (rng, rs') = bm_fill_rows rng rs in (rng, r' # rs'))"

definition bm_fill :: "reac_slave \<Rightarrow> rat list list \<Rightarrow> reac_slave \<times> rat list list" where
  "bm_fill s rows = (case bm_fill_rows (sl_bm_rng s) rows of (rng, rows) \<Rightarrow> (s\<lparr> sl_bm_rng := rng \<rparr>, rows))"

definition bm_scene_quiet :: "(clock_site \<Rightarrow> u64) \<Rightarrow> reac_slave \<Rightarrow> bool" where
  "bm_scene_quiet clk s \<longleftrightarrow>
     sl_bm_last_scene_ns s = 0 \<or> clk Clk_Scene_Quiet - sl_bm_last_scene_ns s \<ge> REAC_BM_SCENE_QUIET_NS"

definition bm_mark_descriptor :: "bytes \<Rightarrow> u8 \<Rightarrow> bytes" where
  "bm_mark_descriptor frame d = foldl (\<lambda>f i. f[18 + i * 2 := 0x00, 18 + i * 2 + 1 := d]) frame [0..<16]"

definition bm_downstream :: "reac_slave \<Rightarrow> planes \<Rightarrow> u16 \<Rightarrow> bytes" where
  "bm_downstream s planar counter = reac_downstream_build planar (sl_box_channels s) SLAVE_NS counter (sl_src s)"

text \<open>The control bytes come from a zeroed buffer of 2048 bytes that holds the built frame.\<close>

definition bm_stamp :: "bytes \<Rightarrow> bytes \<Rightarrow> mac \<Rightarrow> bytes" where
  "bm_stamp frame ctl dst = reac_ctrl_checksum_apply (poke 16 (peek 16 34 (ctl @ replicate 2048 0)) (poke 0 dst frame))"

section \<open>A box that masters\<close>

text \<open>The control block of the turn, if there is one.\<close>

definition bm_burst_block :: "reac_slave \<Rightarrow> u16 \<Rightarrow> planes \<Rightarrow> reac_slave \<times> bytes option" where
  "bm_burst_block s counter planar =
     (let master = fs_master_mac (sl_fsm s); src = sl_src s; w = sl_box_channels s;
          (s, cl) =
            (if sl_bm_burst s = 3 then (s, reac_ctrl_build_coldconnect master src counter w planar SLAVE_NS)
             else if sl_bm_burst s = 2 then (s, reac_ctrl_build_coldconnect_head master src counter w planar SLAVE_NS)
             else (s\<lparr> sl_bm_burst_just_ended := True \<rparr>, reac_ctrl_build_coldconnect_0013 master src counter w planar SLAVE_NS))
      in (s\<lparr> sl_bm_burst := sl_bm_burst s - 1 \<rparr>, cl))"

text \<open>The first block of a burst, when one is due.\<close>

definition bm_burst_start :: "reac_slave \<Rightarrow> bytes option \<Rightarrow> u16 \<Rightarrow> planes \<Rightarrow> reac_slave \<times> bytes option" where
  "bm_burst_start s cl counter planar =
     (if sl_bm_burst s = 3
      then (s\<lparr> sl_bm_burst := sl_bm_burst s - 1 \<rparr>,
            reac_ctrl_build_coldconnect (fs_master_mac (sl_fsm s)) (sl_src s) counter (sl_box_channels s) planar SLAVE_NS)
      else (s, cl))"

definition bm_join_chanmap :: "reac_slave \<Rightarrow> u16 \<Rightarrow> planes \<Rightarrow> reac_slave \<times> bytes option" where
  "bm_join_chanmap s counter planar =
     (let (s, cl) =
        (if \<not> sl_bm_announced s
         then (s\<lparr> sl_bm_announce_sent := True, sl_bm_announced := True, sl_bm_chanmap_hit := False \<rparr>,
               reac_ctrl_build_config_announce_box_master (fs_master_mac (sl_fsm s)) (sl_src s) counter (sl_box_channels s))
         else if sl_bm_chanmap_hit s then (s\<lparr> sl_bm_chanmap_hit := False, sl_bm_burst := 3 \<rparr>, None)
         else (s, None));
          (s, cl) = bm_burst_start s cl counter planar;
          s = s\<lparr> sl_bm_seq := sl_bm_seq s + 1 \<rparr>
      in (if sl_bm_seq s \<ge> 24 then s\<lparr> sl_bm_seq := 0, sl_bm_announced := False \<rparr> else s, cl))"

definition bm_join_timed :: "(clock_site \<Rightarrow> u64) \<Rightarrow> reac_slave \<Rightarrow> u16 \<Rightarrow> reac_slave \<times> bytes option" where
  "bm_join_timed clk s counter =
     (if sl_bm_seq s = 0 \<and> bm_scene_quiet clk s
      then (s\<lparr> sl_bm_announce_sent := True \<rparr>,
            reac_ctrl_build_config_announce_box_master (fs_master_mac (sl_fsm s)) (sl_src s) counter (sl_box_channels s))
      else if sl_bm_seq s = 2 then (s\<lparr> sl_bm_burst := 3 \<rparr>, None)
      else (s, None))"

definition bm_retry :: "(clock_site \<Rightarrow> u64) \<Rightarrow> reac_slave \<Rightarrow> reac_slave" where
  "bm_retry clk s =
     (let s = (if sl_bm_burst s = 0 \<and> sl_bm_seq s \<ge> 3 \<and> sl_bm_burst_sent_ns s = 0
               then s\<lparr> sl_bm_burst_sent_ns := clk Clk_Burst_Sent \<rparr> else s)
      in if sl_bm_burst_sent_ns s \<noteq> 0
         then (if clk Clk_Retry - sl_bm_burst_sent_ns s \<ge> REAC_BM_RETRY_NS
               then s\<lparr> sl_bm_burst_sent_ns := 0, sl_bm_seq := 0 \<rparr> else s)
         else let s = s\<lparr> sl_bm_seq := sl_bm_seq s + 1 \<rparr> in if sl_bm_seq s \<ge> 8 then s\<lparr> sl_bm_seq := 0 \<rparr> else s)"

definition bm_control :: "(clock_site \<Rightarrow> u64) \<Rightarrow> reac_slave \<Rightarrow> reac_slave_decision \<Rightarrow> u16 \<Rightarrow> planes \<Rightarrow> reac_slave \<times> bytes option" where
  "bm_control clk s d counter planar =
     (let hb = reac_ctrl_build_box_hb (fs_master_mac (sl_fsm s)) (sl_src s) counter (sl_box_channels s) in
      if sd_emit d = REAC_SLAVE_EMIT_COLDCONNECT \<and> sl_bm_burst_just_ended s
      then (s\<lparr> sl_bm_burst_just_ended := False \<rparr>, hb)
      else if sd_emit d = REAC_SLAVE_EMIT_COLDCONNECT
      then (if sl_bm_burst s > 0 then bm_burst_block s counter planar
            else if sd_with_join d
            then (let (s, cl) = (if sl_bm_burst_chanmap s then bm_join_chanmap s counter planar else bm_join_timed clk s counter);
                      (s, cl) = bm_burst_start s cl counter planar
                  in (bm_retry clk s, cl))
            else (s, None))
      else if sd_emit d = REAC_SLAVE_EMIT_HEARTBEAT \<or> sd_with_heartbeat d then (s, hb)
      else (s, None))"

datatype slave_dest = To_Broadcast | To_Unicast

text \<open>The frame under the control block.\<close>

definition bm_base :: "reac_slave \<Rightarrow> bool \<Rightarrow> bool \<Rightarrow> u16 \<Rightarrow> planes \<Rightarrow> bytes option \<times> slave_dest" where
  "bm_base s flooding linked counter planar =
     (let master = fs_master_mac (sl_fsm s); src = sl_src s; w = sl_box_channels s in
      if sl_bm_frame_box s then
        (if flooding then (reac_ctrl_build_flood_filler BCAST src counter w planar SLAVE_NS, To_Broadcast)
         else if linked then (reac_ctrl_build_upstream_filler master src counter w planar SLAVE_NS, To_Unicast)
         else (map_option (\<lambda>f. if sl_bm_announce_sent s then bm_mark_descriptor f REAC_BM_DESC_REQUESTING else f)
                 (reac_ctrl_build_flood_filler master src counter w planar SLAVE_NS), To_Unicast))
      else (let f = bm_downstream s planar counter
            in (Some (if linked then bm_mark_descriptor f REAC_BM_DESC_ESTABLISHED
                      else if sl_bm_announce_sent s then bm_mark_descriptor f REAC_BM_DESC_REQUESTING else f), To_Broadcast)))"

definition slave_send :: "bool \<Rightarrow> reac_slave \<Rightarrow> bytes option \<Rightarrow> slave_dest \<Rightarrow> reac_slave \<times> (slave_dest \<times> bytes) option" where
  "slave_send fails s frame dest =
     (case frame of
        None \<Rightarrow> (s, None)
      | Some f \<Rightarrow> (if fails then s\<lparr> sl_tx_errors := sl_tx_errors s + 1 \<rparr> else s\<lparr> sl_tx_frames := sl_tx_frames s + 1 \<rparr>,
                  Some (dest, f)))"

definition emit_box_master ::
    "(clock_site \<Rightarrow> u64) \<Rightarrow> bool \<Rightarrow> reac_slave \<Rightarrow> reac_slave_decision \<Rightarrow> reac_slave \<times> (slave_dest \<times> bytes) option" where
  "emit_box_master clk fails s d =
     (let counter = fs_counter (sl_fsm s);
          flooding = (sd_emit d = REAC_SLAVE_EMIT_FLOOD_FILLER);
          (s, rows) = stage_inputs s;
          linked = (fs_state (sl_fsm s) = FSM_ESTABLISHED);
          (s, quiet) = bm_presilent clk s
      in if quiet then (s, None)
         else let (s, rows) = (if \<not> linked \<and> sl_bm_fill_noise s then bm_fill s rows else (s, rows));
                  planar = planes_of rows;
                  (frame, dest) = bm_base s flooding linked counter planar;
                  (s, ctl) = bm_control clk s d counter planar
              in case (ctl, frame) of
                   (Some c, Some f) \<Rightarrow> slave_send fails s (Some (bm_stamp f c (fs_master_mac (sl_fsm s)))) To_Unicast
                 | _ \<Rightarrow> slave_send fails s frame dest)"

section \<open>A plain box\<close>

text \<open>The escalation of the cold connect: eight blocks in turn, with a filler where the box has no identity.\<close>

definition join_frame :: "reac_slave \<Rightarrow> u16 \<Rightarrow> planes \<Rightarrow> bytes option" where
  "join_frame s counter planar =
     (let filler = reac_ctrl_build_upstream_filler (fs_master_mac (sl_fsm s)) (sl_src s) counter (sl_box_channels s) planar SLAVE_NS;
          phase = sl_coldconnect_phase s smod 8;
          or_filler = (\<lambda>f. if f = None then filler else f)
      in if phase = 1 then slave_build_block s REAC_BOX_BLOCK_CC0013 counter planar SLAVE_NS
         else if phase = 2 then slave_build_block s REAC_BOX_BLOCK_CC0016 counter planar SLAVE_NS
         else if phase = 3 then slave_build_block s REAC_BOX_BLOCK_CC001A counter planar SLAVE_NS
         else if phase = 4 then slave_build_block s REAC_BOX_BLOCK_CONFIG counter None 0
         else if phase = 5 then reac_ctrl_build_box_hb (fs_master_mac (sl_fsm s)) (sl_src s) counter (sl_box_channels s)
         else if phase = 6 then or_filler (slave_build_block s REAC_BOX_BLOCK_IDENT_FIRST counter None 0)
         else if phase = 7 then or_filler (slave_build_block s REAC_BOX_BLOCK_IDENT_LAST counter None 0)
         else slave_build_block s REAC_BOX_BLOCK_CC0014 counter planar SLAVE_NS)"

definition emit_plain :: "bool \<Rightarrow> reac_slave \<Rightarrow> reac_slave_decision \<Rightarrow> reac_slave \<times> (slave_dest \<times> bytes) option" where
  "emit_plain fails s d =
     (let counter = fs_counter (sl_fsm s); master = fs_master_mac (sl_fsm s); src = sl_src s; w = sl_box_channels s in
      case sd_emit d of
        REAC_SLAVE_EMIT_NONE \<Rightarrow> (s, None)
      | REAC_SLAVE_EMIT_FLOOD_FILLER \<Rightarrow>
          (let (s, rows) = stage_inputs s
           in slave_send fails s (reac_ctrl_build_flood_filler BCAST src counter w (planes_of rows) SLAVE_NS) To_Broadcast)
      | REAC_SLAVE_EMIT_COLDCONNECT \<Rightarrow>
          (let (s, rows) = stage_inputs s
           in if sd_with_join d
              then slave_send fails (s\<lparr> sl_coldconnect_phase := sl_coldconnect_phase s + 1 \<rparr>)
                     (join_frame s counter (planes_of rows)) To_Unicast
              else slave_send fails s (reac_ctrl_build_upstream_filler master src counter w (planes_of rows) SLAVE_NS) To_Unicast)
      | REAC_SLAVE_EMIT_UPSTREAM_AUDIO \<Rightarrow>
          (let (s, rows) = stage_inputs s
           in slave_send fails s
                (if sd_with_heartbeat d then reac_ctrl_build_box_hb master src counter w
                 else reac_ctrl_build_upstream_filler master src counter w (planes_of rows) SLAVE_NS) To_Unicast)
      | REAC_SLAVE_EMIT_HEARTBEAT \<Rightarrow> slave_send fails s (reac_ctrl_build_box_hb master src counter w) To_Unicast)"

text \<open>The branch of the plain cold connect that tests \<^verbatim>\<open>box_master\<close> again is never reached and is left out.\<close>

definition emit_decision ::
    "(clock_site \<Rightarrow> u64) \<Rightarrow> bool \<Rightarrow> reac_slave \<Rightarrow> reac_slave_decision \<Rightarrow> reac_slave \<times> (slave_dest \<times> bytes) option" where
  "emit_decision clk fails s d =
     (if sl_box_master s \<and> sd_emit d \<noteq> REAC_SLAVE_EMIT_NONE then emit_box_master clk fails s d else emit_plain fails s d)"

section \<open>One turn of the thread\<close>

text \<open>What \<^verbatim>\<open>recv\<close> gave: nothing in time, an interruption, an error that ends the thread, or a frame.\<close>

datatype slave_recv = Recv_Timeout | Recv_Interrupted | Recv_Failed | Recv_Frame bytes

definition slave_phy_turn ::
    "(clock_site \<Rightarrow> u64) \<Rightarrow> bool \<Rightarrow> reac_slave \<Rightarrow> bool \<Rightarrow> reac_slave \<times> (slave_dest \<times> bytes) option" where
  "slave_phy_turn clk fails s want =
     (if want = sl_phy_up_seen s then (s, None)
      else let (s, d) = reac_slave_step_phy s want;
               s = s\<lparr> sl_phy_up_seen := want \<rparr>
           in if want then emit_decision clk fails (s\<lparr> sl_counter_locked := False \<rparr>) d else (s, None))"

definition slave_headamp_turn :: "(rat \<Rightarrow> rat \<Rightarrow> rat) \<Rightarrow> reac_slave \<Rightarrow> bytes \<Rightarrow> reac_ctrl_parsed \<Rightarrow> reac_slave" where
  "slave_headamp_turn pw s frame p =
     (if pc_kind p = REAC_CTRL_HEADAMP \<and> reac_ctrl_headamp_record_verify frame = 0
      then fst (reac_slave_headamp_rx pw s p) else s)"

definition slave_bm_rx :: "(clock_site \<Rightarrow> u64) \<Rightarrow> reac_slave \<Rightarrow> reac_ctrl_parsed \<Rightarrow> reac_slave" where
  "slave_bm_rx clk s p =
     (let s = (if sl_bm_burst_chanmap s \<and> pc_kind p = REAC_CTRL_MASTER_HB then s\<lparr> sl_bm_chanmap_hit := True \<rparr> else s) in
      if \<not> sl_box_master s then s
      else let s = (if pc_kind p = REAC_CTRL_MASTER_ANNOUNCE \<and> \<not> sl_bm_saw_cfea s
                    then let s = s\<lparr> sl_bm_saw_cfea := True \<rparr>
                         in if fs_state (sl_fsm s) = FSM_FLOOD_ANNOUNCE
                            then s\<lparr> sl_fsm := (sl_fsm s)\<lparr> fs_flood_frames := REAC_FSM_FLOOD_BURST \<rparr> \<rparr> else s
                    else s)
           in if pc_kind p = REAC_CTRL_SCENE_TRANSFER then s\<lparr> sl_bm_last_scene_ns := clk Clk_Scene_Rx \<rparr> else s)"

definition follow_master :: "reac_slave \<Rightarrow> reac_ctrl_parsed \<Rightarrow> reac_slave" where
  "follow_master s p =
     (let f = sl_fsm s;
          s = (if fs_have_master f then s\<lparr> sl_master_mac48 := reac_mac48_pack (Some (fs_master_mac f)) \<rparr> else s)
      in if fs_have_master f \<and> pc_src p = fs_master_mac f
         then let s = (if \<not> sl_counter_locked s
                       then s\<lparr> sl_counter_offset := fs_counter f - pc_counter p, sl_counter_locked := True \<rparr> else s)
              in s\<lparr> sl_fsm := f\<lparr> fs_counter := pc_counter p + sl_counter_offset s \<rparr> \<rparr>
         else s)"

definition slave_frame_turn ::
    "(rat \<Rightarrow> rat \<Rightarrow> rat) \<Rightarrow> (clock_site \<Rightarrow> u64) \<Rightarrow> bool \<Rightarrow> reac_slave \<Rightarrow> bytes \<Rightarrow> reac_slave \<times> (slave_dest \<times> bytes) option" where
  "slave_frame_turn pw clk fails s frame =
     (if \<not> reac_frame_is_reac (Some frame) then (s, None)
      else let p = reac_ctrl_parse frame;
               s = slave_headamp_turn pw s frame p
           in if pc_src p = sl_src s then (s, None)
              else let s = slave_bm_rx clk s p;
                       s = s\<lparr> sl_rx_master_frames := sl_rx_master_frames s + 1 \<rparr>;
                       (s, d) = reac_slave_step_rx s p;
                       s = follow_master s p
                   in emit_decision clk fails s d)"

fun slave_recv_turn ::
    "(rat \<Rightarrow> rat \<Rightarrow> rat) \<Rightarrow> (clock_site \<Rightarrow> u64) \<Rightarrow> bool \<Rightarrow> reac_slave \<Rightarrow> slave_recv \<Rightarrow> reac_slave \<times> (slave_dest \<times> bytes) option" where
  "slave_recv_turn pw clk fails s Recv_Timeout = (let (s, d) = reac_slave_step_tick s in emit_decision clk fails s d)"
| "slave_recv_turn pw clk fails s Recv_Interrupted = (s, None)"
| "slave_recv_turn pw clk fails s Recv_Failed = (s, None)"
| "slave_recv_turn pw clk fails s (Recv_Frame frame) = slave_frame_turn pw clk fails s frame"

section \<open>Every frame of the engine\<close>

text \<open>A REAC frame to \<open>dst\<close> from \<open>src\<close> with a counter: its first 16 bytes and its last two.\<close>

definition framed :: "mac \<Rightarrow> mac \<Rightarrow> u16 \<Rightarrow> bytes \<Rightarrow> bool" where
  "framed dst src counter f \<longleftrightarrow> 52 \<le> length f
     \<and> take 16 f = dst @ src @ [0x88, 0x19, lo8 counter, hi8 counter] \<and> drop (length f - 2) f = [0xC2, 0xEA]"

definition framed_opt :: "mac \<Rightarrow> mac \<Rightarrow> u16 \<Rightarrow> bytes option \<Rightarrow> bool" where
  "framed_opt dst src counter f \<longleftrightarrow> (case f of None \<Rightarrow> True | Some f \<Rightarrow> framed dst src counter f)"

lemma framed_opt_simps [simp]:
  "framed_opt dst src counter None" "framed_opt dst src counter (Some f) = framed dst src counter f"
  by (simp_all add: framed_opt_def)

lemma framed_cong:
  assumes f: "framed dst src c f" and l: "length g = length f"
    and e: "\<And>i. i < length f \<Longrightarrow> i < 16 \<or> length f - 2 \<le> i \<Longrightarrow> g ! i = f ! i"
  shows "framed dst src c g"
proof -
  have len: "52 \<le> length f" using f by (simp add: framed_def)
  have "take 16 g = take 16 f" by (rule nth_equalityI) (use e l len in auto)
  moreover have "drop (length f - 2) g = drop (length f - 2) f"
  proof (rule nth_equalityI)
    fix i
    assume "i < length (drop (length f - 2) g)"
    then have "length f - 2 + i < length f" using l len by simp
    from e [OF this] show "drop (length f - 2) g ! i = drop (length f - 2) f ! i" using l by simp
  qed (simp add: l)
  ultimately show ?thesis using f l by (simp add: framed_def)
qed

lemma framed_poke:
  assumes "framed dst src c f" and "16 \<le> off" and "off + length b \<le> 50"
  shows "framed dst src c (poke off b f)"
proof -
  have l: "off + length b \<le> length f" using assms by (simp add: framed_def)
  show ?thesis
    by (rule framed_cong [OF assms(1)]) (use l assms in \<open>auto simp: nth_poke framed_def\<close>)
qed

lemma framed_update:
  "framed dst src c f \<Longrightarrow> 16 \<le> i \<Longrightarrow> i < 50 \<Longrightarrow> framed dst src c (f[i := v])"
  by (rule framed_cong) (auto simp: framed_def nth_list_update)

lemma framed_checksum: "framed dst src c f \<Longrightarrow> framed dst src c (reac_ctrl_checksum_apply f)"
proof -
  assume f: "framed dst src c f"
  then have l: "52 \<le> length f" by (simp add: framed_def)
  show ?thesis by (rule framed_cong [OF f]) (use l in \<open>auto intro: nth_checksum_apply\<close>)
qed

lemma framed_readdress:
  assumes f: "framed dst src c f" and "length dst = 6" and "length dst' = 6"
  shows "framed dst' src c (poke 0 dst' f)"
proof -
  have l: "52 \<le> length f" and t: "take 16 f = dst @ src @ [0x88, 0x19, lo8 c, hi8 c]" using f by (simp_all add: framed_def)
  have p: "poke 0 dst' f = dst' @ drop 6 f" using assms(3) by (simp add: poke_def)
  have "take 10 (drop 6 f) = drop 6 (take 16 f)" by (simp add: drop_take)
  also have "\<dots> = src @ [0x88, 0x19, lo8 c, hi8 c]" using assms(2) by (simp add: t)
  finally have "take 16 (dst' @ drop 6 f) = dst' @ src @ [0x88, 0x19, lo8 c, hi8 c]" using assms(3) by simp
  then show ?thesis using f l assms(3) by (simp add: framed_def p)
qed

lemma drop_end: "drop (length (h @ [a, b]) - 2) (h @ [a, b]) = [a, b]"
  by simp

lemma framed_image:
  assumes "length dst = 6" and "length src = 6" and "length blk = 32"
  shows "framed dst src c (frame_image dst src c t0 t1 blk audio)"
proof -
  let ?h = "dst @ src @ [0x88, 0x19, lo8 c, hi8 c, t0, t1] @ blk @ audio"
  have s: "frame_image dst src c t0 t1 blk audio = ?h @ [0xC2, 0xEA]" by (simp add: frame_image_def)
  show ?thesis using assms drop_end [of ?h "0xC2" "0xEA"] unfolding framed_def s by simp
qed

lemma catalogue_tails: "length (bm_tail (reac_box_catalogue_by_width w)) = 11"
proof -
  have "length (bm_tail m) = 11" if "m \<in> set BOX_CATALOGUE" for m
    using that unfolding BOX_CATALOGUE_def
    by (auto simp: BOX_S1608_def BOX_S0808_def BOX_S4000S_def BOX_S4000S_0832_def BOX_S0816_def BOX_S2416_def
        BOX_S4000D_def BOX_S4000M_def BOX_FR4000_def BOX_FR0040_def BOX_FR2020_def)
  moreover have "BOX_CATALOGUE ! 0 \<in> set BOX_CATALOGUE" by (simp add: BOX_CATALOGUE_def)
  ultimately show ?thesis
    unfolding reac_box_catalogue_by_width_def by (auto simp: find_Some_iff split: option.split)
qed

text \<open>The rows of the frame table the engine uses: all but the head-amp one.\<close>

lemma row_facts:
  assumes "i \<noteq> CTRL_HEADAMP" and "length (bm_tail m) = 11"
  defines "F \<equiv> CTRL_FRAMES i"
  shows "length (laid_block F (Some m) None) = 32" "cf_len F \<noteq> LEN_DOWNSTREAM" "cf_audio F \<Longrightarrow> cf_len F = LEN_ARG_WIDTH"
    "cf_rec_off F = 0"
proof -
  have b: "length (case reac_box_model_block m b of (rc, gen) \<Rightarrow> if rc = 1 then gen else replicate 32 0) = 32" for b
    using length_reac_box_model_block [OF assms(2), of b] by (auto split: prod.split)
  show "length (laid_block F (Some m) None) = 32"
    using assms(1) b unfolding F_def
    by (cases i) (simp_all add: laid_block_def lay_bytes_def ctrl_row_def TMPL_BOX_HB_def length_concat sum_list_replicate
        del: reac_box_model_block.simps)
  show "cf_len F \<noteq> LEN_DOWNSTREAM" "cf_audio F \<Longrightarrow> cf_len F = LEN_ARG_WIDTH" "cf_rec_off F = 0"
    using assms(1) unfolding F_def by (cases i; simp add: ctrl_row_def)+
qed

lemma emit_framed:
  assumes d: "length dst = 6" "length src = 6" and i: "i \<noteq> CTRL_HEADAMP"
    and t: "\<And>m. model = Some m \<Longrightarrow> length (bm_tail m) = 11"
  shows "framed_opt dst src c (ctrl_emit_as (CTRL_FRAMES i) model dst src c n None planar ns)"
    and "reac_box_width_ok n \<Longrightarrow> cf_gate (CTRL_FRAMES i) = GATE_ALWAYS \<Longrightarrow>
      ctrl_emit_as (CTRL_FRAMES i) model dst src c n None planar ns \<noteq> None"
proof -
  let ?F = "CTRL_FRAMES i" and ?f = "ctrl_emit_as (CTRL_FRAMES i) model dst src c n None planar ns"
  define m where "m = (case model of Some mm \<Rightarrow> mm | None \<Rightarrow> reac_box_catalogue_by_width n)"
  have m11: "length (bm_tail m) = 11" using t catalogue_tails by (auto simp: m_def split: option.split)
  note row = row_facts [OF i m11]
  have img: "\<exists>blk audio. length blk = 32 \<and> ?f = Some (frame_image dst src c (cf_type0 ?F) (cf_type1 ?F) blk audio)"
    if "reac_box_width_ok n" "ctrl_gate_ok m (cf_gate ?F)"
  proof -
    have ro: "cf_rec_off ?F \<le> 32" using row(4) by simp
    note e = ctrl_emit_as_image [OF d m_def that(2) that(1) row(3,1) ro refl, of c planar ns]
    show ?thesis by (intro exI conjI, rule length_finish_block [OF row(1) ro], rule e)
  qed
  have none: "?f = None" if "\<not> (reac_box_width_ok n \<and> ctrl_gate_ok m (cf_gate ?F))"
    using that row(2) by (cases "cf_len ?F") (auto simp: ctrl_emit_as_def Let_def m_def [symmetric])
  show "framed_opt dst src c ?f" using img none framed_image [OF d] by (cases "reac_box_width_ok n \<and> ctrl_gate_ok m (cf_gate ?F)") auto
  show "?f \<noteq> None" if "reac_box_width_ok n" "cf_gate ?F = GATE_ALWAYS"
    using img that by (auto simp: ctrl_gate_ok_def)
qed

lemma record_stamp_framed:
  assumes "framed dst src c f" and "off + 7 \<le> 50" and "16 \<le> off"
  shows "framed dst src c (poke off (reac_ctrl_record_cksum_stamp (drop off f) 7) f)"
proof -
  have l: "52 \<le> length f" using assms(1) by (simp add: framed_def)
  have "poke off ((drop off f)[6 := v]) f = f[off + 6 := v]" for v
  proof -
    have "take off f @ (drop off f)[6 := v] = (take off f @ drop off f)[off + 6 := v]"
      using l assms(2) by (simp only: list_update_append) simp
    then show ?thesis using l assms(2) by (simp add: poke_def)
  qed
  then show ?thesis
    using framed_update [OF assms(1), of "off + 6"] assms(2,3) by (simp add: reac_ctrl_record_cksum_stamp_def Let_def)
qed

lemma builders_framed:
  assumes d: "length dst = 6" "length src = 6"
  shows "framed_opt dst src c (reac_ctrl_build_box_hb dst src c w)"
    "framed_opt dst src c (reac_ctrl_build_upstream_filler dst src c w planar ns)"
    "framed_opt dst src c (reac_ctrl_build_flood_filler dst src c w planar ns)"
    "framed_opt dst src c (reac_ctrl_build_config_announce dst src c w)"
    "framed_opt dst src c (reac_ctrl_build_coldconnect dst src c w planar ns)"
    "framed_opt dst src c (reac_ctrl_build_coldconnect_0013 dst src c w planar ns)"
    "framed_opt dst src c (reac_ctrl_build_coldconnect_0016 dst src c w planar ns)"
    "framed_opt dst src c (reac_ctrl_build_coldconnect_001a dst src c w planar ns)"
    "framed_opt dst src c (reac_ctrl_build_identity_first dst src c w)"
    "framed_opt dst src c (reac_ctrl_build_identity_last dst src c w)"
  unfolding reac_ctrl_build_box_hb_def reac_ctrl_build_upstream_filler_def reac_ctrl_build_flood_filler_def
    reac_ctrl_build_config_announce_def reac_ctrl_build_coldconnect_def reac_ctrl_build_coldconnect_0013_def
    reac_ctrl_build_coldconnect_0016_def reac_ctrl_build_coldconnect_001a_def reac_ctrl_build_identity_first_def
    reac_ctrl_build_identity_last_def ctrl_emit_def
  by (rule emit_framed(1) [OF d]; simp)+

lemma builders_build:
  assumes d: "length dst = 6" "length src = 6" and w: "reac_box_width_ok w"
  shows "reac_ctrl_build_box_hb dst src c w \<noteq> None"
    "reac_ctrl_build_upstream_filler dst src c w planar ns \<noteq> None"
    "reac_ctrl_build_flood_filler dst src c w planar ns \<noteq> None"
    "reac_ctrl_build_config_announce dst src c w \<noteq> None"
    "reac_ctrl_build_coldconnect dst src c w planar ns \<noteq> None"
    "reac_ctrl_build_coldconnect_0013 dst src c w planar ns \<noteq> None"
    "reac_ctrl_build_coldconnect_0016 dst src c w planar ns \<noteq> None"
    "reac_ctrl_build_coldconnect_001a dst src c w planar ns \<noteq> None"
  unfolding reac_ctrl_build_box_hb_def reac_ctrl_build_upstream_filler_def reac_ctrl_build_flood_filler_def
    reac_ctrl_build_config_announce_def reac_ctrl_build_coldconnect_def reac_ctrl_build_coldconnect_0013_def
    reac_ctrl_build_coldconnect_0016_def reac_ctrl_build_coldconnect_001a_def ctrl_emit_def
  by (rule emit_framed(2) [OF d _ _ w]; simp add: ctrl_row_def)+

section \<open>The engine's invariant\<close>

definition slave_ok :: "reac_slave \<Rightarrow> bool" where
  "slave_ok s \<longleftrightarrow> fsm_inv (sl_fsm s) \<and> sl_established s = (fs_state (sl_fsm s) = FSM_ESTABLISHED)
     \<and> length (sl_src s) = 6 \<and> length (fs_master_mac (sl_fsm s)) = 6
     \<and> (\<forall>m. sl_model s = Some m \<longrightarrow> length (bm_tail m) = 11 \<and> sl_box_channels s = reac_box_model_upstream_width m)"

lemma build_block_framed:
  assumes s: "slave_ok s"
  shows "framed_opt (fs_master_mac (sl_fsm s)) (sl_src s) c (slave_build_block s b c planar ns)"
    and "reac_box_width_ok (sl_box_channels s) \<Longrightarrow> b \<notin> {REAC_BOX_BLOCK_IDENT_FIRST, REAC_BOX_BLOCK_IDENT_LAST} \<Longrightarrow>
      slave_build_block s b c planar ns \<noteq> None"
proof -
  have d: "length (fs_master_mac (sl_fsm s)) = 6" "length (sl_src s) = 6" using s by (simp_all add: slave_ok_def)
  have m: "length (bm_tail m) = 11" "sl_box_channels s = reac_box_model_upstream_width m" if "sl_model s = Some m" for m
    using s that by (simp_all add: slave_ok_def)
  have h: "box_block_to_ctrl_frame b \<noteq> CTRL_HEADAMP" by (cases b) simp_all
  show "framed_opt (fs_master_mac (sl_fsm s)) (sl_src s) c (slave_build_block s b c planar ns)"
  proof (cases "sl_model s")
    case None
    then show ?thesis using builders_framed [OF d] by (cases b) (simp_all add: slave_build_block_def)
  next
    case (Some mm)
    then show ?thesis using m emit_framed(1) [OF d h, of "Some mm"] by (simp add: slave_build_block_def reac_ctrl_build_as_def)
  qed
  show "slave_build_block s b c planar ns \<noteq> None"
    if w: "reac_box_width_ok (sl_box_channels s)" and b: "b \<notin> {REAC_BOX_BLOCK_IDENT_FIRST, REAC_BOX_BLOCK_IDENT_LAST}"
  proof (cases "sl_model s")
    case None
    then show ?thesis using builders_build [OF d w] b by (cases b) (simp_all add: slave_build_block_def)
  next
    case (Some mm)
    have "cf_gate (CTRL_FRAMES (box_block_to_ctrl_frame b)) = GATE_ALWAYS" using b by (cases b) (simp_all add: ctrl_row_def)
    then show ?thesis
      using m [OF Some] emit_framed(2) [OF d h, of "Some mm"] w Some by (simp add: slave_build_block_def reac_ctrl_build_as_def)
  qed
qed

text \<open>What an emission keeps: all the state other than its own counters. Only the flood length may be
  cleared, when the listening of a box that masters ends.\<close>

definition emit_keeps :: "reac_slave \<Rightarrow> reac_slave \<Rightarrow> bool" where
  "emit_keeps s t \<longleftrightarrow> sl_fsm t \<in> {sl_fsm s, (sl_fsm s)\<lparr> fs_flood_frames := 0 \<rparr>} \<and> sl_established t = sl_established s
     \<and> sl_src t = sl_src s \<and> sl_model t = sl_model s \<and> sl_box_channels t = sl_box_channels s
     \<and> sl_ch_base t = sl_ch_base s \<and> sl_ha_sens t = sl_ha_sens s \<and> sl_ha_pad t = sl_ha_pad s
     \<and> sl_ha_phantom t = sl_ha_phantom s \<and> sl_ha_gain t = sl_ha_gain s \<and> sl_box_master t = sl_box_master s
     \<and> sl_counter_offset t = sl_counter_offset s \<and> sl_counter_locked t = sl_counter_locked s"

lemma emit_keeps_refl [simp]: "emit_keeps s s" by (simp add: emit_keeps_def)

lemma emit_keeps_trans:
  assumes "emit_keeps s t" and "emit_keeps t u"
  shows "emit_keeps s u"
proof -
  have "sl_fsm t \<in> {sl_fsm s, (sl_fsm s)\<lparr> fs_flood_frames := 0 \<rparr>}" "sl_fsm u \<in> {sl_fsm t, (sl_fsm t)\<lparr> fs_flood_frames := 0 \<rparr>}"
    using assms by (simp_all only: emit_keeps_def)
  then have "sl_fsm u \<in> {sl_fsm s, (sl_fsm s)\<lparr> fs_flood_frames := 0 \<rparr>}" by (elim insertE emptyE) simp_all
  then show ?thesis using assms unfolding emit_keeps_def by (elim conjE, intro conjI) (assumption | erule trans)+
qed

lemma emit_keeps_fsm:
  assumes "emit_keeps s t"
  shows "fs_master_mac (sl_fsm t) = fs_master_mac (sl_fsm s)" "fs_have_master (sl_fsm t) = fs_have_master (sl_fsm s)"
    "fs_counter (sl_fsm t) = fs_counter (sl_fsm s)" "fs_state (sl_fsm t) = fs_state (sl_fsm s)" "sl_src t = sl_src s"
    "sl_box_channels t = sl_box_channels s" "sl_model t = sl_model s"
  using assms by (auto simp: emit_keeps_def)

lemma hb_period_updates:
  "hb_period (f\<lparr> fs_flood_frames := n \<rparr>) = hb_period f" "hb_period (f\<lparr> fs_counter := c \<rparr>) = hb_period f"
  by (simp_all add: hb_period_def)

lemma fsm_inv_flood_frames: "fsm_inv f \<Longrightarrow> 0 \<le> n \<Longrightarrow> n \<le> 5460 \<Longrightarrow> fsm_inv (f\<lparr> fs_flood_frames := n \<rparr>)"
  by (cases "fs_state f") (simp_all add: fsm_inv_def fsm_counts_def fsm_state_inv_def hb_period_updates)

lemma fsm_inv_counter: "fsm_inv (f\<lparr> fs_counter := c \<rparr>) = fsm_inv f"
  by (cases "fs_state f") (simp_all add: fsm_inv_def fsm_counts_def fsm_state_inv_def hb_period_updates)

lemma slave_ok_keeps:
  assumes "slave_ok s" and k: "emit_keeps s t"
  shows "slave_ok t"
proof -
  have "fsm_inv (sl_fsm t)"
    using assms fsm_inv_flood_frames [of "sl_fsm s" 0] by (auto simp: slave_ok_def emit_keeps_def)
  then show ?thesis using assms emit_keeps_fsm [OF k] by (simp add: slave_ok_def emit_keeps_def)
qed

lemma stage_inputs_keeps: "emit_keeps s (fst (stage_inputs s))"
  by (auto simp: stage_inputs_def Let_def emit_keeps_def split: option.split prod.split)

lemma bm_presilent_keeps: "emit_keeps s (fst (bm_presilent clk s))"
  by (auto simp: bm_presilent_def Let_def emit_keeps_def)

lemma bm_fill_keeps: "emit_keeps s (fst (bm_fill s rows))"
  by (auto simp: bm_fill_def emit_keeps_def split: prod.split)

lemma bm_burst_keeps:
  "emit_keeps s (fst (bm_burst_block s c planar))" "emit_keeps s (fst (bm_burst_start s cl c planar))"
  by (simp_all add: bm_burst_block_def bm_burst_start_def Let_def emit_keeps_def)

lemma bm_join_keeps:
  "emit_keeps s (fst (bm_join_chanmap s c planar))" "emit_keeps s (fst (bm_join_timed clk s c))" "emit_keeps s (bm_retry clk s)"
  by (simp_all add: bm_join_chanmap_def bm_burst_start_def bm_join_timed_def bm_retry_def Let_def emit_keeps_def)

lemma bm_control_keeps: "emit_keeps s (fst (bm_control clk s d c planar))"
proof -
  have j: "emit_keeps s (fst (let (s, cl) = (if sl_bm_burst_chanmap s then bm_join_chanmap s c planar else bm_join_timed clk s c);
      (s, cl) = bm_burst_start s cl c planar in (bm_retry clk s, cl)))"
    by (auto simp: Let_def split_beta intro: emit_keeps_trans [OF emit_keeps_trans, OF bm_join_keeps(1) bm_burst_keeps(2) bm_join_keeps(3)]
        emit_keeps_trans [OF emit_keeps_trans, OF bm_join_keeps(2) bm_burst_keeps(2) bm_join_keeps(3)])
  show ?thesis unfolding bm_control_def
    using j bm_burst_keeps(1) [of s c planar] by (auto simp: Let_def) (auto simp: emit_keeps_def)
qed

lemma slave_send_keeps: "emit_keeps s (fst (slave_send fails s f dest))"
  by (auto simp: slave_send_def emit_keeps_def split: option.split)

section \<open>What an emission sends\<close>

definition sent_ok :: "reac_slave \<Rightarrow> (slave_dest \<times> bytes) option \<Rightarrow> bool" where
  "sent_ok s out \<longleftrightarrow> (case out of None \<Rightarrow> True
     | Some (dest, f) \<Rightarrow>
         framed (case dest of To_Broadcast \<Rightarrow> BCAST | To_Unicast \<Rightarrow> fs_master_mac (sl_fsm s)) (sl_src s) (fs_counter (sl_fsm s)) f
         \<and> (dest = To_Unicast \<longrightarrow> fs_have_master (sl_fsm s)))"

lemma sent_ok_None [simp]: "sent_ok s None"
  by (simp add: sent_ok_def)

lemma sent_ok_keeps: "emit_keeps s t \<Longrightarrow> sent_ok t out = sent_ok s out"
  unfolding sent_ok_def by (simp only: emit_keeps_fsm)

lemma send_unicast:
  "fs_have_master (sl_fsm s) \<Longrightarrow> framed_opt (fs_master_mac (sl_fsm s)) (sl_src s) (fs_counter (sl_fsm s)) f \<Longrightarrow>
     sent_ok s (snd (slave_send fails s f To_Unicast))"
  by (auto simp: sent_ok_def slave_send_def split: option.split)

lemma send_broadcast:
  "framed_opt BCAST (sl_src s) (fs_counter (sl_fsm s)) f \<Longrightarrow> sent_ok s (snd (slave_send fails s f To_Broadcast))"
  by (auto simp: sent_ok_def slave_send_def split: option.split)

lemma slave_send_None: "snd (slave_send fails s f dest) = None \<longleftrightarrow> f = None"
  by (simp add: slave_send_def split: option.split)

lemma join_frame_framed:
  assumes s: "slave_ok s"
  shows "framed_opt (fs_master_mac (sl_fsm s)) (sl_src s) c (join_frame s c planar)"
    and "reac_box_width_ok (sl_box_channels s) \<Longrightarrow> join_frame s c planar \<noteq> None"
proof -
  have d: "length (fs_master_mac (sl_fsm s)) = 6" "length (sl_src s) = 6" using s by (simp_all add: slave_ok_def)
  show "framed_opt (fs_master_mac (sl_fsm s)) (sl_src s) c (join_frame s c planar)"
    using build_block_framed(1) [OF s] builders_framed(1,2) [OF d] by (simp add: join_frame_def Let_def)
  show "join_frame s c planar \<noteq> None" if "reac_box_width_ok (sl_box_channels s)"
    using build_block_framed(2) [OF s that] builders_build(1,2) [OF d that] by (auto simp: join_frame_def Let_def)
qed

text \<open>The decisions of the machine that send to the master come with a master.\<close>

definition decided :: "reac_slave \<Rightarrow> reac_slave_decision \<Rightarrow> bool" where
  "decided s d \<longleftrightarrow> (sd_emit d \<in> {REAC_SLAVE_EMIT_COLDCONNECT, REAC_SLAVE_EMIT_UPSTREAM_AUDIO, REAC_SLAVE_EMIT_HEARTBEAT} \<longrightarrow>
       fs_have_master (sl_fsm s))
     \<and> (sd_with_heartbeat d \<longrightarrow> sd_emit d = REAC_SLAVE_EMIT_UPSTREAM_AUDIO)"

lemma emit_plain_keeps: "emit_keeps s (fst (emit_plain fails s d))"
proof -
  obtain t rows where t: "stage_inputs s = (t, rows)" by (cases "stage_inputs s")
  have k: "emit_keeps s t" using stage_inputs_keeps [of s] t by simp
  then have kp: "emit_keeps s (t\<lparr> sl_coldconnect_phase := sl_coldconnect_phase t + 1 \<rparr>)" by (simp add: emit_keeps_def)
  note ks = slave_send_keeps emit_keeps_trans [OF k slave_send_keeps] emit_keeps_trans [OF kp slave_send_keeps]
  show ?thesis using ks by (simp add: emit_plain_def t Let_def split: reac_slave_emit.split)
qed

lemma emit_plain_ok:
  assumes s: "slave_ok s" and d: "decided s d"
  shows "sent_ok s (snd (emit_plain fails s d))"
    "reac_box_width_ok (sl_box_channels s) \<Longrightarrow> snd (emit_plain fails s d) = None \<longleftrightarrow> sd_emit d = REAC_SLAVE_EMIT_NONE"
proof -
  obtain t rows where t: "stage_inputs s = (t, rows)" by (cases "stage_inputs s")
  have k: "emit_keeps s t" using stage_inputs_keeps [of s] t by simp
  have ot: "slave_ok t" by (rule slave_ok_keeps [OF s k])
  have m6: "length (fs_master_mac (sl_fsm s)) = 6" "length (sl_src s) = 6" "length BCAST = 6"
    using s by (simp_all add: slave_ok_def)
  note same = emit_keeps_fsm [OF k]
  let ?p = "t\<lparr> sl_coldconnect_phase := sl_coldconnect_phase t + 1 \<rparr>"
  have kp: "emit_keeps s ?p" using k by (simp add: emit_keeps_def)
  have eq: "sent_ok s = sent_ok t" "sent_ok s = sent_ok ?p" using sent_ok_keeps k kp by auto
  have fl: "framed_opt dst (sl_src s) c f = framed_opt dst (sl_src t) c f" for dst c f by (simp add: same)
  consider "sd_emit d = REAC_SLAVE_EMIT_NONE" | "sd_emit d = REAC_SLAVE_EMIT_FLOOD_FILLER"
    | "sd_emit d = REAC_SLAVE_EMIT_COLDCONNECT" | "sd_emit d = REAC_SLAVE_EMIT_UPSTREAM_AUDIO"
    | "sd_emit d = REAC_SLAVE_EMIT_HEARTBEAT" by (cases "sd_emit d") auto
  then show "sent_ok s (snd (emit_plain fails s d))"
  proof cases
    case 1
    then show ?thesis by (simp add: emit_plain_def Let_def sent_ok_def)
  next
    case 2
    then show ?thesis using builders_framed(3) [OF m6(3,2)]
      by (simp add: emit_plain_def t Let_def eq(1) same [symmetric] send_broadcast)
  next
    case 3
    have hm: "fs_have_master (sl_fsm t)" using d 3 same by (simp add: decided_def)
    have a: "sent_ok s (snd (slave_send fails ?p (join_frame t (fs_counter (sl_fsm s)) (planes_of rows)) To_Unicast))"
      using join_frame_framed(1) [OF ot] hm unfolding eq(2) by (intro send_unicast) (simp_all add: same)
    have b: "sent_ok s (snd (slave_send fails t (reac_ctrl_build_upstream_filler (fs_master_mac (sl_fsm s)) (sl_src s)
        (fs_counter (sl_fsm s)) (sl_box_channels s) (planes_of rows) SLAVE_NS) To_Unicast))"
      using builders_framed(2) [OF m6(1,2)] hm unfolding eq(1) by (intro send_unicast) (simp_all add: same)
    show ?thesis using 3 a b by (simp add: emit_plain_def t Let_def)
  next
    case 4
    have hm: "fs_have_master (sl_fsm t)" using d 4 same by (simp add: decided_def)
    show ?thesis using builders_framed(1,2) [OF m6(1,2)] hm 4
      by (simp add: emit_plain_def t Let_def eq(1) send_unicast same)
  next
    case 5
    have hm: "fs_have_master (sl_fsm s)" using d 5 by (simp add: decided_def)
    show ?thesis using builders_framed(1) [OF m6(1,2)] hm 5 by (simp add: emit_plain_def Let_def send_unicast)
  qed
  show "snd (emit_plain fails s d) = None \<longleftrightarrow> sd_emit d = REAC_SLAVE_EMIT_NONE" if w: "reac_box_width_ok (sl_box_channels s)"
    using builders_build [OF m6(1,2) w] builders_build(3) [OF m6(3,2) w] join_frame_framed(2) [OF ot] w
    by (cases "sd_emit d") (simp_all add: emit_plain_def t Let_def slave_send_None same del: not_None_eq)
qed

lemma framed_descriptor: "framed dst src c f \<Longrightarrow> framed dst src c (bm_mark_descriptor f v)"
proof -
  assume f: "framed dst src c f"
  have "framed dst src c (foldl (\<lambda>f i. f[18 + i * 2 := 0x00, 18 + i * 2 + 1 := v]) f is)" if "\<forall>i \<in> set is. i < 16" for "is"
    using that f
  proof (induction "is" arbitrary: f)
    case (Cons i "is")
    have "framed dst src c (f[18 + i * 2 := 0x00, 18 + i * 2 + 1 := v])"
      by (intro framed_update) (use Cons.prems in auto)
    then show ?case using Cons.IH Cons.prems by simp
  qed simp
  then show ?thesis by (simp add: bm_mark_descriptor_def)
qed

lemma framed_downstream: "length src = 6 \<Longrightarrow> framed BCAST src c (reac_downstream_build planar n ns c src)"
proof -
  assume s: "length src = 6"
  let ?a = "reac_braid_encode (replicate 1440 0) 40 planar n ns"
  have a: "length ?a = 1440" using length_reac_braid_encode [of "replicate 1440 0" 40] by simp
  let ?h = "BCAST @ src @ [0x88, 0x19, lo8 c, hi8 c] @ replicate 34 0 @ ?a"
  have f: "reac_downstream_build planar n ns c src = ?h @ [0xC2, 0xEA]"
    unfolding reac_downstream_build_bytes [OF s] by (simp add: numeral_eq_Suc)
  show ?thesis using s a drop_end [of ?h "0xC2" "0xEA"] unfolding framed_def f by simp
qed

lemma framed_stamp:
  assumes "framed dst src c f" and "length dst = 6" and "length m = 6"
  shows "framed m src c (bm_stamp f ctl m)"
  unfolding bm_stamp_def
  by (intro framed_checksum framed_poke framed_readdress [OF assms]) (simp_all add: peek_def)

lemma bm_base_framed:
  assumes s: "slave_ok s" and b: "bm_base s flooding linked c planar = (frame, dest)"
  shows "framed_opt (case dest of To_Broadcast \<Rightarrow> BCAST | To_Unicast \<Rightarrow> fs_master_mac (sl_fsm s)) (sl_src s) c frame"
    and "dest = To_Unicast \<Longrightarrow> \<not> flooding"
proof -
  have d: "length (fs_master_mac (sl_fsm s)) = 6" "length (sl_src s) = 6" "length BCAST = 6"
    using s by (simp_all add: slave_ok_def)
  show "dest = To_Unicast \<Longrightarrow> \<not> flooding" using b by (auto simp: bm_base_def Let_def split: if_splits)
  have mo: "framed_opt dst src k f \<Longrightarrow> framed_opt dst src k (map_option (\<lambda>f. if q then bm_mark_descriptor f v else f) f)"
    for dst src k f q v by (cases f) (simp_all add: framed_descriptor)
  note fs = builders_framed(3) [OF d(3,2)] builders_framed(2,3) [OF d(1,2)] framed_downstream [OF d(2)]
  show "framed_opt (case dest of To_Broadcast \<Rightarrow> BCAST | To_Unicast \<Rightarrow> fs_master_mac (sl_fsm s)) (sl_src s) c frame"
    using b fs mo unfolding bm_base_def bm_downstream_def Let_def by (auto simp: framed_descriptor split: if_splits)
qed

lemma bm_control_sends:
  assumes "decided s d" and "snd (bm_control clk s d c planar) \<noteq> None"
  shows "fs_have_master (sl_fsm s)"
  using assms by (auto simp: bm_control_def Let_def decided_def split: if_splits)

lemma emit_box_master_parts:
  obtains quiet u v w frame dest ctl flooding linked planar where
    "emit_box_master clk fails s d = (if quiet then (u, None) else case (ctl, frame) of
      (Some c, Some f) \<Rightarrow> slave_send fails w (Some (bm_stamp f c (fs_master_mac (sl_fsm w)))) To_Unicast
    | _ \<Rightarrow> slave_send fails w frame dest)"
    "emit_keeps s u" "emit_keeps s v" "emit_keeps s w"
    "bm_base v (sd_emit d = REAC_SLAVE_EMIT_FLOOD_FILLER) linked (fs_counter (sl_fsm s)) planar = (frame, dest)"
    "bm_control clk v d (fs_counter (sl_fsm s)) planar = (w, ctl)"
proof -
  obtain t rows where t: "stage_inputs s = (t, rows)" by (cases "stage_inputs s")
  obtain u quiet where u: "bm_presilent clk t = (u, quiet)" by (cases "bm_presilent clk t")
  let ?linked = "fs_state (sl_fsm t) = FSM_ESTABLISHED"
  obtain v rs where v: "(if \<not> ?linked \<and> sl_bm_fill_noise u then bm_fill u rows else (u, rows)) = (v, rs)"
    by (cases "if \<not> ?linked \<and> sl_bm_fill_noise u then bm_fill u rows else (u, rows)")
  let ?planar = "planes_of rs"
  obtain frame dest where b: "bm_base v (sd_emit d = REAC_SLAVE_EMIT_FLOOD_FILLER) ?linked (fs_counter (sl_fsm s)) ?planar = (frame, dest)"
    by (cases "bm_base v (sd_emit d = REAC_SLAVE_EMIT_FLOOD_FILLER) ?linked (fs_counter (sl_fsm s)) ?planar")
  obtain w ctl where w: "bm_control clk v d (fs_counter (sl_fsm s)) ?planar = (w, ctl)"
    by (cases "bm_control clk v d (fs_counter (sl_fsm s)) ?planar")
  have kt: "emit_keeps s t" using stage_inputs_keeps [of s] t by simp
  have ku: "emit_keeps s u" using emit_keeps_trans [OF kt] bm_presilent_keeps [of t clk] u by simp
  have kv: "emit_keeps s v" using emit_keeps_trans [OF ku] bm_fill_keeps [of u rows] ku v by (auto split: if_splits)
  have kw: "emit_keeps s w" using emit_keeps_trans [OF kv] bm_control_keeps [of v clk d _ ?planar] w by (metis fst_conv)
  have r: "emit_box_master clk fails s d = (if quiet then (u, None) else case (ctl, frame) of
      (Some c, Some f) \<Rightarrow> slave_send fails w (Some (bm_stamp f c (fs_master_mac (sl_fsm w)))) To_Unicast
    | _ \<Rightarrow> slave_send fails w frame dest)"
    unfolding emit_box_master_def Let_def t u v b w prod.case ..
  show thesis by (rule that [OF r ku kv kw b w])
qed

lemma emit_box_master_keeps: "emit_keeps s (fst (emit_box_master clk fails s d))"
proof -
  obtain quiet u w frame dest ctl where r: "emit_box_master clk fails s d = (if quiet then (u, None) else case (ctl, frame) of
      (Some c, Some f) \<Rightarrow> slave_send fails w (Some (bm_stamp f c (fs_master_mac (sl_fsm w)))) To_Unicast
    | _ \<Rightarrow> slave_send fails w frame dest)" and k: "emit_keeps s u" "emit_keeps s w"
    by (rule emit_box_master_parts)
  show ?thesis using k(1) emit_keeps_trans [OF k(2) slave_send_keeps] unfolding r by (auto split: option.split)
qed

lemma emit_box_master_ok:
  assumes s: "slave_ok s" and d: "decided s d" and e: "sd_emit d \<noteq> REAC_SLAVE_EMIT_NONE"
  shows "sent_ok s (snd (emit_box_master clk fails s d))"
proof -
  obtain quiet u v w frame dest ctl linked planar where r: "emit_box_master clk fails s d = (if quiet then (u, None) else case (ctl, frame) of
      (Some c, Some f) \<Rightarrow> slave_send fails w (Some (bm_stamp f c (fs_master_mac (sl_fsm w)))) To_Unicast
    | _ \<Rightarrow> slave_send fails w frame dest)" and ku: "emit_keeps s u" and kv: "emit_keeps s v" and kw: "emit_keeps s w"
    and b: "bm_base v (sd_emit d = REAC_SLAVE_EMIT_FLOOD_FILLER) linked (fs_counter (sl_fsm s)) planar = (frame, dest)"
    and w: "bm_control clk v d (fs_counter (sl_fsm s)) planar = (w, ctl)"
    by (rule emit_box_master_parts)
  have ov: "slave_ok v" by (rule slave_ok_keeps [OF s kv])
  note sv = emit_keeps_fsm [OF kv] and sw = emit_keeps_fsm [OF kw]
  have m6: "length (fs_master_mac (sl_fsm s)) = 6" using s by (simp add: slave_ok_def)
  have fr: "framed_opt (case dest of To_Broadcast \<Rightarrow> BCAST | To_Unicast \<Rightarrow> fs_master_mac (sl_fsm w)) (sl_src w) (fs_counter (sl_fsm w)) frame"
    using bm_base_framed(1) [OF ov b] unfolding sv sw .
  have hm: "fs_have_master (sl_fsm w)" if "dest = To_Unicast \<or> ctl \<noteq> None"
  proof -
    have "fs_have_master (sl_fsm s)" if "dest = To_Unicast"
      using bm_base_framed(2) [OF ov b that] d e by (cases "sd_emit d") (auto simp: decided_def)
    moreover have "fs_have_master (sl_fsm s)" if "ctl \<noteq> None"
      using bm_control_sends [of v d clk _ planar] w that d sv(2) by (metis decided_def snd_conv)
    ultimately show ?thesis using that sw(2) by blast
  qed
  have "sent_ok w (snd (slave_send fails w frame dest))"
  proof (cases dest)
    case To_Broadcast
    then show ?thesis using fr send_broadcast by simp
  next
    case To_Unicast
    then show ?thesis using fr hm send_unicast by simp
  qed
  moreover have "sent_ok w (snd (slave_send fails w (Some (bm_stamp f c (fs_master_mac (sl_fsm w)))) To_Unicast))"
    if "ctl = Some c" "frame = Some f" for c f
    using fr that framed_stamp [of _ "sl_src w" "fs_counter (sl_fsm w)" f "fs_master_mac (sl_fsm w)" c] m6 hm sw(1)
    by (intro send_unicast) (auto split: slave_dest.splits)
  ultimately have "sent_ok s (snd (slave_send fails w frame dest))"
    "ctl = Some c \<Longrightarrow> frame = Some f \<Longrightarrow>
       sent_ok s (snd (slave_send fails w (Some (bm_stamp f c (fs_master_mac (sl_fsm w)))) To_Unicast))" for c f
    using sent_ok_keeps [OF kw] by simp_all
  then show "sent_ok s (snd (emit_box_master clk fails s d))" unfolding r by (cases ctl; cases frame) simp_all
qed

lemma emit_decision_keeps: "emit_keeps s (fst (emit_decision clk fails s d))"
  by (simp add: emit_decision_def emit_plain_keeps emit_box_master_keeps)

lemma emit_decision_ok:
  assumes "slave_ok s" and "decided s d"
  shows "sent_ok s (snd (emit_decision clk fails s d))"
    "sd_emit d = REAC_SLAVE_EMIT_NONE \<Longrightarrow> snd (emit_decision clk fails s d) = None"
    "\<not> sl_box_master s \<Longrightarrow> reac_box_width_ok (sl_box_channels s) \<Longrightarrow>
       snd (emit_decision clk fails s d) = None \<longleftrightarrow> sd_emit d = REAC_SLAVE_EMIT_NONE"
  using emit_plain_ok [OF assms, of fails] emit_box_master_ok [OF assms, of clk fails]
  by (simp_all add: emit_decision_def) (simp add: emit_plain_def Let_def)

section \<open>Turns\<close>

abbreviation (input) FSM_QUIET :: "reac_fsm_state set" where
  "FSM_QUIET \<equiv> {FSM_PHY_DOWN, FSM_TX_MUTE, FSM_DROP, FSM_BACKOFF}"

lemma fsm_step_acts: "fo_action (snd (reac_fsm_step f ev rx)) \<noteq> FSM_ACT_NONE"
  by (cases "fs_state f") (auto simp: fsm_step_defs Let_def split: option.split reac_fsm_event.split prod.split)

lemma learn_if_master_mac:
  "fs_master_mac (learn_if_master f ev rx) = fs_master_mac f \<or> (\<exists>r. rx = Some r \<and> fs_master_mac (learn_if_master f ev rx) = pc_src r)"
  by (auto simp: learn_if_master_def learn_master_def split: option.split)

lemma fsm_step_master:
  "fs_master_mac (fst (reac_fsm_step f ev rx)) = fs_master_mac f \<or> (\<exists>r. rx = Some r \<and> fs_master_mac (fst (reac_fsm_step f ev rx)) = pc_src r)"
proof -
  have o1: "fs_master_mac (fst (fsm_out g a)) = fs_master_mac g" "fs_master_mac (arm_flood g) = fs_master_mac g"
    "fs_master_mac (arm_coldconnect g) = fs_master_mac g" "fs_master_mac (heartbeat_turn g) = fs_master_mac g" for g a
    by (simp_all add: fsm_out_def arm_flood_def arm_coldconnect_def heartbeat_turn_def Let_def)
  have o2: "fs_master_mac (fst (flood_tick g)) = fs_master_mac g" "fs_master_mac (fst (coldconnect_tick g)) = fs_master_mac g" for g
    by (simp_all add: flood_tick_def coldconnect_tick_def Let_def o1)
  have fl: "fs_master_mac (fst (step_flood f ev rx)) = fs_master_mac (learn_if_master f ev rx)"
    by (simp add: step_flood_def Let_def o1 o2 split_beta)
  have cc: "fs_master_mac (fst (step_coldconnect f ev rx)) = fs_master_mac (learn_if_master f ev rx)"
    by (simp add: step_coldconnect_def Let_def o1 o2)
  have es: "fs_master_mac (fst (step_established f ev rx)) = fs_master_mac f"
    by (simp add: step_established_def Let_def o1 o2 split: reac_fsm_event.split option.split)
  have rest: "fs_master_mac (fst (step_phy_down f ev)) = fs_master_mac f" "fs_master_mac (fst (step_backoff f)) = fs_master_mac f"
    "fs_master_mac (fst (step_tx_mute f ev)) = fs_master_mac f" "fs_master_mac (fst (step_drop f ev)) = fs_master_mac f"
    by (simp_all add: step_phy_down_def step_backoff_def step_tx_mute_def step_drop_def Let_def o1 o2)
  show ?thesis
    unfolding reac_fsm_step_def using learn_if_master_mac [of f ev rx]
    by (cases "fs_state f") (simp_all add: o1 fl cc es rest)
qed

lemma slave_step_ok:
  assumes s: "slave_ok s" and r: "\<And>r. rx = Some r \<Longrightarrow> length (pc_src r) = 6"
    and e: "slave_step s ev rx = (t, d)"
  shows "slave_ok t" "decided t d" "sd_emit d = REAC_SLAVE_EMIT_NONE \<longleftrightarrow> fs_state (sl_fsm t) \<in> FSM_QUIET"
    "sl_src t = sl_src s" "sl_box_master t = sl_box_master s" "sl_box_channels t = sl_box_channels s"
proof -
  have i: "fsm_inv (sl_fsm s)" using s by (simp add: slave_ok_def)
  obtain f x where fx: "reac_fsm_step (sl_fsm s) ev rx = (f, x)" by (cases "reac_fsm_step (sl_fsm s) ev rx")
  have t: "t = s\<lparr> sl_fsm := f, sl_established := (fs_state f = FSM_ESTABLISHED) \<rparr>" "d = map_action x"
    using e by (simp_all add: slave_step_def fx)
  have fi: "fsm_inv f" using fsm_inv_step [OF i, of ev rx] fx by simp
  note out = fsm_step_output [OF i, of ev rx, unfolded fx fst_conv snd_conv]
  have "length (fs_master_mac f) = 6"
    using fsm_step_master [of "sl_fsm s" ev rx] fx r s by (auto simp: slave_ok_def)
  then show "slave_ok t" using s fi by (simp add: slave_ok_def t)
  have em: "fs_state f = FSM_ESTABLISHED \<Longrightarrow> fs_have_master f" using fi by (simp add: fsm_inv_def fsm_state_inv_def)
  show "decided t d"
    using out em by (cases "fo_action x") (simp_all add: t map_action_def decided_def Let_def)
  have na: "fo_action x \<noteq> FSM_ACT_NONE" using fsm_step_acts [of "sl_fsm s" ev rx] fx by simp
  show "sd_emit d = REAC_SLAVE_EMIT_NONE \<longleftrightarrow> fs_state (sl_fsm t) \<in> FSM_QUIET"
    using out na by (cases "fo_action x") (auto simp: t map_action_def Let_def)
  show "sl_src t = sl_src s" "sl_box_master t = sl_box_master s" "sl_box_channels t = sl_box_channels s" by (simp_all add: t)
qed

lemma slave_ok_fsm:
  assumes "slave_ok s" and "fsm_inv f" and "fs_state f = fs_state (sl_fsm s)" and "fs_master_mac f = fs_master_mac (sl_fsm s)"
  shows "slave_ok (s\<lparr> sl_fsm := f \<rparr>)"
  using assms by (simp add: slave_ok_def)

text \<open>What the parts of a received frame's turn keep.\<close>

lemma headamp_turn_keeps:
  fixes pw s frame p
  defines "t \<equiv> slave_headamp_turn pw s frame p"
  shows "slave_ok s \<Longrightarrow> slave_ok t" "sl_src t = sl_src s" "sl_box_master t = sl_box_master s" "sl_box_channels t = sl_box_channels s"
  unfolding t_def by (simp_all add: slave_headamp_turn_def reac_slave_headamp_rx_def slave_ok_def Let_def)

lemma bm_rx_keeps:
  fixes clk s p
  defines "t \<equiv> slave_bm_rx clk s p"
  shows "slave_ok s \<Longrightarrow> slave_ok t" "sl_src t = sl_src s" "sl_box_master t = sl_box_master s" "sl_box_channels t = sl_box_channels s"
proof -
  show "slave_ok t" if s: "slave_ok s"
  proof -
    have "fsm_inv ((sl_fsm s)\<lparr> fs_flood_frames := REAC_FSM_FLOOD_BURST \<rparr>)"
      using s by (intro fsm_inv_flood_frames) (simp_all add: slave_ok_def)
    then show ?thesis using s unfolding t_def slave_bm_rx_def by (simp add: slave_ok_def Let_def)
  qed
qed (simp_all add: t_def slave_bm_rx_def Let_def)

lemma follow_master_keeps:
  fixes s p
  defines "t \<equiv> follow_master s p"
  shows "slave_ok s \<Longrightarrow> slave_ok t" "decided s d \<Longrightarrow> decided t d" "sl_src t = sl_src s" "sl_box_master t = sl_box_master s"
    "sl_box_channels t = sl_box_channels s" "fs_state (sl_fsm t) = fs_state (sl_fsm s)"
  unfolding t_def by (simp_all add: follow_master_def slave_ok_def decided_def Let_def fsm_inv_counter)

lemma parsed_src_length: "length (pc_src (reac_ctrl_parse frame)) = 6"
  by (simp add: reac_ctrl_parse_def parsed_zero_def parse_hdr_def Let_def)

datatype slave_input = Turn_Phy bool | Turn_Recv slave_recv | Turn_Ring "rat ring option"

text \<open>A turn with the clock and the outcome of \<^verbatim>\<open>sendto\<close> it meets. The caller of the engine owns the other end
  of the sample ring: a turn of its own changes the ring in any way.\<close>

fun slave_turn ::
    "(rat \<Rightarrow> rat \<Rightarrow> rat) \<Rightarrow> (clock_site \<Rightarrow> u64) \<times> bool \<times> slave_input \<Rightarrow> reac_slave \<Rightarrow> reac_slave \<times> (slave_dest \<times> bytes) option" where
  "slave_turn pw (clk, fails, Turn_Phy up) s = slave_phy_turn clk fails s up"
| "slave_turn pw (clk, fails, Turn_Recv r) s = slave_recv_turn pw clk fails s r"
| "slave_turn pw (clk, fails, Turn_Ring r) s = (s\<lparr> sl_tx_ring := r \<rparr>, None)"

definition turn_ok :: "reac_slave \<Rightarrow> reac_slave \<times> (slave_dest \<times> bytes) option \<Rightarrow> bool" where
  "turn_ok s r \<longleftrightarrow> (case r of (t, out) \<Rightarrow> slave_ok t \<and> sl_src t = sl_src s \<and> sl_box_master t = sl_box_master s
     \<and> sl_box_channels t = sl_box_channels s \<and> sent_ok t out \<and> (out \<noteq> None \<longrightarrow> fs_state (sl_fsm t) \<notin> FSM_QUIET))"

lemma turn_ok_quiet: "slave_ok t \<Longrightarrow> sl_src t = sl_src s \<Longrightarrow> sl_box_master t = sl_box_master s \<Longrightarrow>
    sl_box_channels t = sl_box_channels s \<Longrightarrow> turn_ok s (t, None)"
  by (simp add: turn_ok_def)

lemma emit_turn_ok:
  assumes t: "slave_ok t" "decided t d" and q: "sd_emit d = REAC_SLAVE_EMIT_NONE \<longleftrightarrow> fs_state (sl_fsm t) \<in> FSM_QUIET"
    and s: "sl_src t = sl_src s" "sl_box_master t = sl_box_master s" "sl_box_channels t = sl_box_channels s"
  shows "turn_ok s (emit_decision clk fails t d)"
    and "\<not> sl_box_master s \<Longrightarrow> reac_box_width_ok (sl_box_channels s) \<Longrightarrow>
      snd (emit_decision clk fails t d) = None \<longleftrightarrow> fs_state (sl_fsm (fst (emit_decision clk fails t d))) \<in> FSM_QUIET"
proof -
  note e = emit_decision_ok [OF t, of clk fails]
  note k = emit_keeps_fsm [OF emit_decision_keeps]
  have bm: "sl_box_master (fst (emit_decision clk fails t d)) = sl_box_master t" using emit_decision_keeps by (simp add: emit_keeps_def)
  show "turn_ok s (emit_decision clk fails t d)"
    using slave_ok_keeps [OF t(1) emit_decision_keeps] sent_ok_keeps [OF emit_decision_keeps] e(1,2) k bm s q
    unfolding turn_ok_def by (auto simp: split_beta)
  show "snd (emit_decision clk fails t d) = None \<longleftrightarrow> fs_state (sl_fsm (fst (emit_decision clk fails t d))) \<in> FSM_QUIET"
    if "\<not> sl_box_master s" "reac_box_width_ok (sl_box_channels s)"
    using e(3) that s q k(4) by simp
qed

lemma phy_turn_ok:
  assumes s: "slave_ok s"
  shows "turn_ok s (slave_phy_turn clk fails s up)"
proof -
  obtain t d where t: "reac_slave_step_phy s up = (t, d)" by (cases "reac_slave_step_phy s up")
  note ok = slave_step_ok [OF s _ t [unfolded reac_slave_step_phy_def], simplified]
  let ?t = "t\<lparr> sl_phy_up_seen := up \<rparr>" and ?u = "t\<lparr> sl_phy_up_seen := up, sl_counter_locked := False \<rparr>"
  have tu: "slave_ok ?t" "slave_ok ?u" "decided ?u d" using ok(1,2) by (simp_all add: slave_ok_def decided_def)
  have "turn_ok s (emit_decision clk fails ?u d)" by (rule emit_turn_ok(1) [OF tu(2,3)]) (use ok in simp_all)
  moreover have "turn_ok s (?t, None)" by (rule turn_ok_quiet [OF tu(1)]) (use ok in simp_all)
  moreover have "turn_ok s (s, None)" by (rule turn_ok_quiet [OF s]) simp_all
  ultimately show ?thesis unfolding slave_phy_turn_def t Let_def prod.case by (simp only: split: if_split) simp
qed

text \<open>The turn of a REAC frame of another station, up to the emission.\<close>

lemma frame_turn_prepared:
  assumes s: "slave_ok s" and f: "reac_frame_is_reac (Some frame)" and o: "pc_src (reac_ctrl_parse frame) \<noteq> sl_src s"
  obtains t d where "slave_frame_turn pw clk fails s frame = emit_decision clk fails t d" "slave_ok t" "decided t d"
    "sd_emit d = REAC_SLAVE_EMIT_NONE \<longleftrightarrow> fs_state (sl_fsm t) \<in> FSM_QUIET"
    "sl_src t = sl_src s" "sl_box_master t = sl_box_master s" "sl_box_channels t = sl_box_channels s"
proof -
  let ?p = "reac_ctrl_parse frame"
  define a where "a = slave_headamp_turn pw s frame ?p"
  define b where "b = slave_bm_rx clk a ?p"
  define c where "c = b\<lparr> sl_rx_master_frames := sl_rx_master_frames b + 1 \<rparr>"
  obtain u d where u: "slave_step c FSM_EV_RX (Some ?p) = (u, d)" by (cases "slave_step c FSM_EV_RX (Some ?p)")
  note ha = headamp_turn_keeps [where pw = pw and s = s and frame = frame and p = ?p, folded a_def]
  note hb = bm_rx_keeps [where clk = clk and s = a and p = ?p, folded b_def]
  have oc: "slave_ok c" using hb(1) [OF ha(1) [OF s]] by (simp add: c_def slave_ok_def)
  have cs: "sl_src c = sl_src s" "sl_box_master c = sl_box_master s" "sl_box_channels c = sl_box_channels s"
    using ha(2-4) hb(2-4) by (simp_all add: c_def)
  have len: "length (pc_src r) = 6" if "Some ?p = Some r" for r using that parsed_src_length [of frame] by simp
  note st = slave_step_ok [OF oc len u]
  note fm = follow_master_keeps [where s = u and p = ?p]
  show thesis
  proof (rule that [of "follow_master u ?p" d])
    show "slave_frame_turn pw clk fails s frame = emit_decision clk fails (follow_master u ?p) d"
      unfolding slave_frame_turn_def Let_def a_def [symmetric] b_def [symmetric] c_def [symmetric] reac_slave_step_rx_def u
      using f o ha(2) by simp
    show "slave_ok (follow_master u ?p)" "decided (follow_master u ?p) d" using fm(1,2) st(1,2) by blast+
    show "sd_emit d = REAC_SLAVE_EMIT_NONE \<longleftrightarrow> fs_state (sl_fsm (follow_master u ?p)) \<in> FSM_QUIET"
      using st(3) unfolding fm(6) .
    show "sl_src (follow_master u ?p) = sl_src s" "sl_box_master (follow_master u ?p) = sl_box_master s"
      "sl_box_channels (follow_master u ?p) = sl_box_channels s"
      using st(4-6) cs unfolding fm(3-5) by simp_all
  qed
qed

lemma recv_turn_ok:
  assumes s: "slave_ok s"
  shows "turn_ok s (slave_recv_turn pw clk fails s r)"
proof -
  have q: "turn_ok s (s, None)" by (rule turn_ok_quiet [OF s]) simp_all
  show ?thesis
  proof (cases r)
    case Recv_Timeout
    obtain t d where t: "slave_step s FSM_EV_TICK None = (t, d)" by (cases "slave_step s FSM_EV_TICK None")
    note ok = slave_step_ok [OF s _ t, simplified]
    have "turn_ok s (emit_decision clk fails t d)" by (rule emit_turn_ok(1)) (use ok in simp_all)
    then show ?thesis using Recv_Timeout t by (simp add: reac_slave_step_tick_def)
  next
    case (Recv_Frame frame)
    let ?a = "slave_headamp_turn pw s frame (reac_ctrl_parse frame)"
    have own: "turn_ok s (?a, None)"
      by (rule turn_ok_quiet) (use s headamp_turn_keeps [where pw = pw and s = s and frame = frame] in simp_all)
    show ?thesis
    proof (cases "reac_frame_is_reac (Some frame) \<and> pc_src (reac_ctrl_parse frame) \<noteq> sl_src s")
      case True
      then obtain t d where t: "slave_frame_turn pw clk fails s frame = emit_decision clk fails t d" "slave_ok t" "decided t d"
        "sd_emit d = REAC_SLAVE_EMIT_NONE \<longleftrightarrow> fs_state (sl_fsm t) \<in> FSM_QUIET"
        "sl_src t = sl_src s" "sl_box_master t = sl_box_master s" "sl_box_channels t = sl_box_channels s"
        using frame_turn_prepared [OF s, of frame] by metis
      then show ?thesis using emit_turn_ok(1) [OF t(2-7)] Recv_Frame by simp
    next
      case False
      then show ?thesis using q own Recv_Frame headamp_turn_keeps(2) [of pw s frame "reac_ctrl_parse frame"]
        by (auto simp: slave_frame_turn_def Let_def)
    qed
  qed (use q in simp_all)
qed

lemma slave_turn_ok:
  assumes "slave_ok s"
  shows "turn_ok s (slave_turn pw e s)"
proof -
  obtain clk fails i where e: "e = (clk, fails, i)" by (cases e)
  have "turn_ok s (s\<lparr> sl_tx_ring := r \<rparr>, None)" for r
    using assms by (intro turn_ok_quiet) (simp_all add: slave_ok_def)
  then show ?thesis using assms by (cases i) (simp_all add: e phy_turn_ok recv_turn_ok)
qed

lemma slave_run_ok:
  fixes es pw
  assumes "slave_ok s"
  shows "slave_ok (fst (trace_of (slave_turn pw) es s)) \<and> sl_src (fst (trace_of (slave_turn pw) es s)) = sl_src s
    \<and> sl_box_master (fst (trace_of (slave_turn pw) es s)) = sl_box_master s
    \<and> sl_box_channels (fst (trace_of (slave_turn pw) es s)) = sl_box_channels s"
  using assms
proof (induction es arbitrary: s)
  case (Cons e es)
  then show ?case using Cons.IH [of "fst (slave_turn pw e s)"] slave_turn_ok [OF Cons.prems, of pw e]
    by (simp add: turn_ok_def split_beta Let_def)
qed simp

text \<open>A configuration the caller can pass: addresses of six bytes, a model of the table's shape.\<close>

definition slave_cfg_ok :: "(int \<times> mac) option \<Rightarrow> reac_slave_cfg option \<Rightarrow> bool" where
  "slave_cfg_ok hw cfg \<longleftrightarrow> (case hw of None \<Rightarrow> True | Some (_, a) \<Rightarrow> length a = 6)
     \<and> (case cfg of None \<Rightarrow> True
        | Some c \<Rightarrow> (case sc_src_mac c of None \<Rightarrow> True | Some m \<Rightarrow> length m = 6)
                   \<and> (case sc_model c of None \<Rightarrow> True | Some m \<Rightarrow> length (bm_tail m) = 11))"

lemma slave_init_ok:
  assumes "slave_cfg_ok hw cfg"
  shows "slave_ok (reac_slave_fsm_init hw cfg)"
proof -
  have "fsm_inv (reac_fsm_init\<lparr> fs_heartbeat_period := n \<rparr>)" for n by (simp add: fsm_inv_defs reac_fsm_init_def)
  moreover have "length (snd (reac_mac_default_src n hw)) = 6" for n
    using assms by (auto simp: slave_cfg_ok_def reac_mac_default_src_def reac_mac_fallback_def reac_mac_compose_def fallback_mac_def
        split: option.splits)
  moreover have i0: "fs_state reac_fsm_init = FSM_PHY_DOWN" "length (fs_master_mac reac_fsm_init) = 6"
    by (simp_all add: reac_fsm_init_def)
  ultimately show ?thesis
    using assms fsm_inv_init
    by (cases cfg) (auto simp: slave_ok_def reac_slave_fsm_init_def slave_cfg_ok_def slave_width_def Let_def split: option.splits)
qed

text \<open>The turns the machine answers: a timeout, a REAC frame of another station, the link coming up.\<close>

definition asks :: "reac_slave \<Rightarrow> slave_input \<Rightarrow> bool" where
  "asks s i = (case i of
       Turn_Phy up \<Rightarrow> up \<and> \<not> sl_phy_up_seen s
     | Turn_Recv Recv_Timeout \<Rightarrow> True
     | Turn_Recv (Recv_Frame f) \<Rightarrow> reac_frame_is_reac (Some f) \<and> pc_src (reac_ctrl_parse f) \<noteq> sl_src s
     | _ \<Rightarrow> False)"

lemma asked_turn:
  assumes s: "slave_ok s" and a: "asks s i" and p: "\<not> sl_box_master s" and w: "reac_box_width_ok (sl_box_channels s)"
  shows "snd (slave_turn pw (clk, fails, i) s) = None \<longleftrightarrow> fs_state (sl_fsm (fst (slave_turn pw (clk, fails, i) s))) \<in> FSM_QUIET"
proof -
  consider "i = Turn_Phy True" "\<not> sl_phy_up_seen s" | "i = Turn_Recv Recv_Timeout"
    | f where "i = Turn_Recv (Recv_Frame f)" "reac_frame_is_reac (Some f)" "pc_src (reac_ctrl_parse f) \<noteq> sl_src s"
    using a by (auto simp: asks_def split: slave_input.splits slave_recv.splits)
  then show ?thesis
  proof cases
    case 1
    obtain t d where t: "slave_step s FSM_EV_PHY_UP None = (t, d)" by (cases "slave_step s FSM_EV_PHY_UP None")
    note ok = slave_step_ok [OF s _ t, simplified]
    let ?u = "t\<lparr> sl_phy_up_seen := True, sl_counter_locked := False \<rparr>"
    have u: "slave_ok ?u" "decided ?u d" using ok(1,2) by (simp_all add: slave_ok_def decided_def)
    have e: "slave_turn pw (clk, fails, i) s = emit_decision clk fails ?u d"
      using 1 t by (simp add: slave_phy_turn_def reac_slave_step_phy_def)
    show ?thesis unfolding e by (rule emit_turn_ok(2) [OF u _ _ _ _ p w]) (use ok in simp_all)
  next
    case 2
    obtain t d where t: "slave_step s FSM_EV_TICK None = (t, d)" by (cases "slave_step s FSM_EV_TICK None")
    note ok = slave_step_ok [OF s _ t, simplified]
    have e: "slave_turn pw (clk, fails, i) s = emit_decision clk fails t d"
      using 2 t by (simp add: reac_slave_step_tick_def)
    show ?thesis unfolding e by (rule emit_turn_ok(2) [OF ok(1,2) _ _ _ _ p w]) (use ok in simp_all)
  next
    case 3
    obtain t d where t: "slave_frame_turn pw clk fails s f = emit_decision clk fails t d" "slave_ok t" "decided t d"
      "sd_emit d = REAC_SLAVE_EMIT_NONE \<longleftrightarrow> fs_state (sl_fsm t) \<in> FSM_QUIET"
      "sl_src t = sl_src s" "sl_box_master t = sl_box_master s" "sl_box_channels t = sl_box_channels s"
      using frame_turn_prepared [OF s 3(2,3)] by metis
    have e: "slave_turn pw (clk, fails, i) s = emit_decision clk fails t d" using 3(1) t(1) by simp
    show ?thesis unfolding e by (rule emit_turn_ok(2) [OF t(2-7) p w])
  qed
qed

text \<open>What a turn does to the head amps: a verified record of a received REAC frame is applied, and nothing else is.\<close>

definition headamp_part :: "reac_slave \<Rightarrow> int \<times> int \<times> bytes \<times> bool list \<times> bool list \<times> rat list" where
  "headamp_part s = (sl_box_channels s, sl_ch_base s, sl_ha_sens s, sl_ha_pad s, sl_ha_phantom s, sl_ha_gain s)"

lemma headamp_part_keeps: "emit_keeps s t \<Longrightarrow> headamp_part t = headamp_part s"
  by (simp add: emit_keeps_def headamp_part_def)

lemma headamp_part_steps:
  "headamp_part (fst (slave_step s ev rx)) = headamp_part s" "headamp_part (slave_bm_rx clk s p) = headamp_part s"
  "headamp_part (follow_master s p) = headamp_part s" "headamp_part (fst (slave_phy_turn clk fails s up)) = headamp_part s"
proof -
  have st: "headamp_part (fst (slave_step s ev rx)) = headamp_part s" for s ev rx
    by (simp add: slave_step_def headamp_part_def split_beta)
  show "headamp_part (fst (slave_step s ev rx)) = headamp_part s" by (rule st)
  show "headamp_part (slave_bm_rx clk s p) = headamp_part s" "headamp_part (follow_master s p) = headamp_part s"
    by (simp_all add: slave_bm_rx_def follow_master_def headamp_part_def Let_def)
  obtain t d where t: "reac_slave_step_phy s up = (t, d)" by (cases "reac_slave_step_phy s up")
  have h: "headamp_part t = headamp_part s" using st [of s "if up then FSM_EV_PHY_UP else FSM_EV_PHY_DOWN" None] t
    by (simp add: reac_slave_step_phy_def)
  have "headamp_part (fst (emit_decision clk fails (t\<lparr> sl_phy_up_seen := up, sl_counter_locked := False \<rparr>) d)) = headamp_part s"
    unfolding headamp_part_keeps [OF emit_decision_keeps] using h by (simp add: headamp_part_def)
  moreover have "headamp_part (t\<lparr> sl_phy_up_seen := up \<rparr>) = headamp_part s" using h by (simp add: headamp_part_def)
  ultimately show "headamp_part (fst (slave_phy_turn clk fails s up)) = headamp_part s"
    unfolding slave_phy_turn_def t Let_def prod.case by (cases up) simp_all
qed

lemma headamp_part_frame:
  "headamp_part (fst (slave_frame_turn pw clk fails s frame)) =
     headamp_part (if reac_frame_is_reac (Some frame) then slave_headamp_turn pw s frame (reac_ctrl_parse frame) else s)"
proof -
  let ?p = "reac_ctrl_parse frame" and ?a = "slave_headamp_turn pw s frame (reac_ctrl_parse frame)"
  let ?b = "(slave_bm_rx clk ?a ?p)\<lparr> sl_rx_master_frames := sl_rx_master_frames (slave_bm_rx clk ?a ?p) + 1 \<rparr>"
  obtain u d where u: "slave_step ?b FSM_EV_RX (Some ?p) = (u, d)" by (cases "slave_step ?b FSM_EV_RX (Some ?p)")
  have "headamp_part u = headamp_part ?b" using headamp_part_steps(1) [of ?b FSM_EV_RX "Some ?p"] u by simp
  also have "\<dots> = headamp_part (slave_bm_rx clk ?a ?p)" by (simp add: headamp_part_def)
  also have "\<dots> = headamp_part ?a" by (rule headamp_part_steps)
  finally have "headamp_part (fst (emit_decision clk fails (follow_master u ?p) d)) = headamp_part ?a"
    using headamp_part_keeps [OF emit_decision_keeps] headamp_part_steps(3) by simp
  then show ?thesis unfolding slave_frame_turn_def Let_def reac_slave_step_rx_def u prod.case by simp
qed

fun headamp_input :: "(rat \<Rightarrow> rat \<Rightarrow> rat) \<Rightarrow> slave_input \<Rightarrow> reac_slave \<Rightarrow> reac_slave" where
  "headamp_input pw (Turn_Recv (Recv_Frame f)) s =
     (if reac_frame_is_reac (Some f) then slave_headamp_turn pw s f (reac_ctrl_parse f) else s)"
| "headamp_input pw _ s = s"

lemma headamp_part_turn: "headamp_part (fst (slave_turn pw (clk, fails, i) s)) = headamp_part (headamp_input pw i s)"
proof (cases i)
  case (Turn_Recv r)
  show ?thesis
  proof (cases r)
    case Recv_Timeout
    then show ?thesis using Turn_Recv headamp_part_steps(1) [of s FSM_EV_TICK None] headamp_part_keeps [OF emit_decision_keeps]
      by (simp add: reac_slave_step_tick_def split_beta Let_def)
  qed (use Turn_Recv headamp_part_frame in simp_all)
next
  case (Turn_Ring r)
  then show ?thesis by (simp add: headamp_part_def)
qed (use headamp_part_steps(4) in simp)

text \<open>The head-amp record a turn receives, if any: our channel, the parameter and the value, when the frame is a REAC
  frame with a head-amp record whose checksum holds, for a channel of the box and one of the three parameters.\<close>

definition headamp_record :: "int \<Rightarrow> int \<Rightarrow> slave_input \<Rightarrow> (nat \<times> u8 \<times> u8) option" where
  "headamp_record base w i = (case i of
     Turn_Recv (Recv_Frame f) \<Rightarrow>
       let p = reac_ctrl_parse f; idx = int (unat (pc_ch p)) - base in
       if reac_frame_is_reac (Some f) \<and> pc_kind p = REAC_CTRL_HEADAMP \<and> reac_ctrl_headamp_record_verify f = 0
          \<and> 0 \<le> idx \<and> idx < w \<and> pc_param p \<le> 2
       then Some (nat idx, pc_param p, pc_value p) else None
   | _ \<Rightarrow> None)"

text \<open>The value of the latest record for a channel and a parameter.\<close>

definition latest :: "(nat \<times> u8 \<times> u8) list \<Rightarrow> nat \<Rightarrow> u8 \<Rightarrow> u8 option" where
  "latest recs k q = map_option (\<lambda>r. snd (snd r)) (find (\<lambda>r. fst r = k \<and> fst (snd r) = q) (rev recs))"

lemma latest_simps [simp]:
  "latest [] k q = None" "latest (recs @ [(j, q', v)]) k q = (if j = k \<and> q' = q then Some v else latest recs k q)"
  by (simp_all add: latest_def)

definition register :: "u8 option \<Rightarrow> u8" where
  "register v = (case v of None \<Rightarrow> 0 | Some x \<Rightarrow> x)"

text \<open>The tables say what the records asked for.\<close>

definition headamp_as :: "(rat \<Rightarrow> rat \<Rightarrow> rat) \<Rightarrow> (nat \<times> u8 \<times> u8) list \<Rightarrow> bytes \<Rightarrow> bool list \<Rightarrow> bool list \<Rightarrow> rat list \<Rightarrow> bool" where
  "headamp_as pw recs sens pad ph gain \<longleftrightarrow>
     length sens = 40 \<and> length pad = 40 \<and> length ph = 40 \<and> length gain = 40
     \<and> (\<forall>k < 40. sens ! k = register (latest recs k 2) \<and> (pad ! k \<longleftrightarrow> register (latest recs k 1) \<noteq> 0)
        \<and> (ph ! k \<longleftrightarrow> register (latest recs k 0) \<noteq> 0)
        \<and> gain ! k = (if latest recs k 1 = None \<and> latest recs k 2 = None then 1
                     else reac_slave_headamp_gain pw (sens ! k) (pad ! k)))"

definition headamp_state :: "(rat \<Rightarrow> rat \<Rightarrow> rat) \<Rightarrow> int \<Rightarrow> int \<Rightarrow> (nat \<times> u8 \<times> u8) list \<Rightarrow> int \<times> int \<times> bytes \<times> bool list \<times> bool list \<times> rat list \<Rightarrow> bool" where
  "headamp_state pw base w recs h = (case h of (w', base', sens, pad, ph, gain) \<Rightarrow>
     w' = w \<and> base' = base \<and> w \<le> 40 \<and> headamp_as pw recs sens pad ph gain)"

lemma headamp_rx_at:
  assumes "int k = int (unat (pc_ch p)) - sl_ch_base s" and "int k < sl_box_channels s"
  shows "reac_slave_headamp_rx pw s p =
      (if pc_param p = 0 then (s\<lparr> sl_ha_phantom := (sl_ha_phantom s)[k := pc_value p \<noteq> 0] \<rparr>, int k)
       else if pc_param p = 1
       then (s\<lparr> sl_ha_pad := (sl_ha_pad s)[k := pc_value p \<noteq> 0],
                sl_ha_gain := (sl_ha_gain s)[k := reac_slave_headamp_gain pw (sl_ha_sens s ! k) ((sl_ha_pad s)[k := pc_value p \<noteq> 0] ! k)] \<rparr>, int k)
       else if pc_param p = 2
       then (s\<lparr> sl_ha_sens := (sl_ha_sens s)[k := pc_value p],
                sl_ha_gain := (sl_ha_gain s)[k := reac_slave_headamp_gain pw ((sl_ha_sens s)[k := pc_value p] ! k) (sl_ha_pad s ! k)] \<rparr>, int k)
       else (s, - 1))"
  using assms(2) unfolding reac_slave_headamp_rx_def Let_def assms(1) [symmetric] nat_int by simp

lemma param_cases: "(q :: u8) \<le> 2 \<longleftrightarrow> q = 0 \<or> q = 1 \<or> q = 2"
proof
  assume "q \<le> 2"
  then have "unat q \<le> 2" by (simp add: word_le_nat_alt)
  then have "unat q = 0 \<or> unat q = 1 \<or> unat q = 2" by linarith
  then show "q = 0 \<or> q = 1 \<or> q = 2" by (auto simp: word_unat_eq_iff)
qed auto

lemma headamp_rx_state:
  assumes h: "headamp_state pw (sl_ch_base s) (sl_box_channels s) recs (headamp_part s)"
    and k: "int k = int (unat (pc_ch p)) - sl_ch_base s" "int k < sl_box_channels s" and q: "pc_param p \<le> 2"
  shows "headamp_state pw (sl_ch_base s) (sl_box_channels s) (recs @ [(k, pc_param p, pc_value p)])
    (headamp_part (fst (reac_slave_headamp_rx pw s p)))"
proof -
  have k40: "k < 40" using k h by (simp add: headamp_state_def headamp_part_def)
  from q consider "pc_param p = 0" | "pc_param p = 1" | "pc_param p = 2" by (auto simp: param_cases)
  then show ?thesis
    unfolding headamp_rx_at [OF k]
    by cases (use h k40 in \<open>auto simp: headamp_state_def headamp_as_def headamp_part_def nth_list_update register_def\<close>)
qed

lemma headamp_input_state:
  assumes h: "headamp_state pw base w recs (headamp_part s)"
  shows "headamp_state pw base w (recs @ (case headamp_record base w i of None \<Rightarrow> [] | Some r \<Rightarrow> [r])) (headamp_part (headamp_input pw i s))"
proof -
  have bw: "sl_ch_base s = base" "sl_box_channels s = w" using h by (simp_all add: headamp_state_def headamp_part_def)
  show ?thesis
  proof (cases "headamp_record base w i")
    case (Some r)
    then obtain f where f: "i = Turn_Recv (Recv_Frame f)"
      by (auto simp: headamp_record_def split: slave_input.splits slave_recv.splits)
    let ?p = "reac_ctrl_parse f" and ?k = "nat (int (unat (pc_ch (reac_ctrl_parse f))) - base)"
    from Some have c: "reac_frame_is_reac (Some f)" "pc_kind ?p = REAC_CTRL_HEADAMP" "reac_ctrl_headamp_record_verify f = 0"
      "0 \<le> int (unat (pc_ch ?p)) - base" "int (unat (pc_ch ?p)) - base < w" "pc_param ?p \<le> 2"
      and r: "r = (?k, pc_param ?p, pc_value ?p)"
      by (auto simp: f headamp_record_def Let_def split: if_splits)
    have e: "headamp_input pw i s = fst (reac_slave_headamp_rx pw s ?p)" using c(1-3) by (simp add: f slave_headamp_turn_def)
    show ?thesis
      unfolding e Some option.case r
      using headamp_rx_state [of pw s recs ?k ?p] h c(4-6) bw by simp
  next
    case None
    have "headamp_part (headamp_input pw i s) = headamp_part s"
    proof (cases "(pw, i, s)" rule: headamp_input.cases)
      case (1 pw' f s')
      let ?p = "reac_ctrl_parse f"
      have "fst (reac_slave_headamp_rx pw s ?p) = s"
        if "\<not> (0 \<le> int (unat (pc_ch ?p)) - base \<and> int (unat (pc_ch ?p)) - base < w \<and> pc_param ?p \<le> 2)"
        using that bw unfolding param_cases by (auto simp: reac_slave_headamp_rx_def Let_def)
      then show ?thesis using None 1 by (auto simp: headamp_record_def slave_headamp_turn_def Let_def split: if_splits)
    qed simp_all
    then show ?thesis using h None by simp
  qed
qed

lemma headamp_run_state:
  assumes "headamp_state pw base w recs (headamp_part s)"
  shows "headamp_state pw base w (recs @ List.map_filter (\<lambda>e. headamp_record base w (snd (snd e))) es)
    (headamp_part (fst (trace_of (slave_turn pw) es s)))"
  using assms
proof (induction es arbitrary: s recs)
  case (Cons e es)
  obtain clk fails i where e: "e = (clk, fails, i)" by (cases e)
  from Cons.IH [of "recs @ (case headamp_record base w i of None \<Rightarrow> [] | Some r \<Rightarrow> [r])" "fst (slave_turn pw e s)"]
    headamp_input_state [OF Cons.prems, of i]
  show ?case by (auto simp: e headamp_part_turn split_beta Let_def List.map_filter_simps split: option.splits)
qed (simp add: List.map_filter_simps)

lemma slave_width_le: "slave_width cfg \<le> 40"
  by (auto simp: slave_width_def reac_box_model_upstream_width_def reac_box_width_ok_iff split: option.split)

section \<open>Properties\<close>

text \<open>C7: the slave engine speaks as its state machine allows and never otherwise. After any history of turns
  from a fresh engine, whatever the socket, the clock and the owner of the sample ring did, one more turn keeps
  the source address and reports the link as up exactly when the machine is established. A frame it sends is a
  whole REAC frame with our source address and the machine's counter, addressed to broadcast or, only when a
  master is known, to that master; none is sent in a state that is silent. This holds for a box that masters as
  well, whose broadcast a comment in the code expects to go on in the mute window. A plain box of a legal width
  answers every timeout, every frame of another station (of another box too, which a comment in the code expects to
  be ignored) and the link coming up with a frame, unless the state is silent.\<close>

theorem slave_engine_speaks_as_machine:
  fixes pw :: "rat \<Rightarrow> rat \<Rightarrow> rat" and es :: "((clock_site \<Rightarrow> u64) \<times> bool \<times> slave_input) list"
    and clk :: "clock_site \<Rightarrow> u64" and fails :: bool and i :: slave_input
  assumes "slave_cfg_ok hw cfg"
  defines "s0 \<equiv> reac_slave_fsm_init hw cfg"
  defines "s \<equiv> fst (trace_of (slave_turn pw) es s0)"
  defines "t \<equiv> fst (slave_turn pw (clk, fails, i) s)" and "out \<equiv> snd (slave_turn pw (clk, fails, i) s)"
  shows "sl_src t = sl_src s0 \<and> (sl_established t \<longleftrightarrow> fs_state (sl_fsm t) = FSM_ESTABLISHED)
    \<and> (\<forall>dest f. out = Some (dest, f) \<longrightarrow> fs_state (sl_fsm t) \<notin> {FSM_PHY_DOWN, FSM_TX_MUTE, FSM_DROP, FSM_BACKOFF}
        \<and> framed (case dest of To_Broadcast \<Rightarrow> BCAST | To_Unicast \<Rightarrow> fs_master_mac (sl_fsm t)) (sl_src s0) (fs_counter (sl_fsm t)) f
        \<and> (dest = To_Unicast \<longrightarrow> fs_have_master (sl_fsm t)))
    \<and> (asks s i \<and> \<not> sl_box_master s0 \<and> reac_box_width_ok (sl_box_channels s0) \<longrightarrow>
        (out = None \<longleftrightarrow> fs_state (sl_fsm t) \<in> {FSM_PHY_DOWN, FSM_TX_MUTE, FSM_DROP, FSM_BACKOFF}))"
proof -
  have "slave_ok s0" unfolding s0_def by (rule slave_init_ok [OF assms(1)])
  from slave_run_ok [OF this, of pw es, folded s_def]
  have s: "slave_ok s" "sl_src s = sl_src s0" "sl_box_master s = sl_box_master s0" "sl_box_channels s = sl_box_channels s0" by simp_all
  have "turn_ok s (t, out)" using slave_turn_ok [OF s(1), of pw "(clk, fails, i)"] by (simp add: t_def out_def)
  then have t: "slave_ok t" "sl_src t = sl_src s" "sent_ok t out" "out \<noteq> None \<longrightarrow> fs_state (sl_fsm t) \<notin> FSM_QUIET"
    by (simp_all add: turn_ok_def)
  show ?thesis
  proof (intro conjI allI impI)
    show "sl_src t = sl_src s0" "sl_established t \<longleftrightarrow> fs_state (sl_fsm t) = FSM_ESTABLISHED"
      using t(1,2) s(2) by (simp_all add: slave_ok_def)
  next
    fix dest f
    assume o: "out = Some (dest, f)"
    then show "fs_state (sl_fsm t) \<notin> FSM_QUIET" using t(4) by blast
    show "framed (case dest of To_Broadcast \<Rightarrow> BCAST | To_Unicast \<Rightarrow> fs_master_mac (sl_fsm t)) (sl_src s0) (fs_counter (sl_fsm t)) f"
      "dest = To_Unicast \<Longrightarrow> fs_have_master (sl_fsm t)"
      using t(2,3) s(2) unfolding o sent_ok_def by simp_all
  next
    assume "asks s i \<and> \<not> sl_box_master s0 \<and> reac_box_width_ok (sl_box_channels s0)"
    then show "out = None \<longleftrightarrow> fs_state (sl_fsm t) \<in> FSM_QUIET"
      unfolding t_def out_def using asked_turn [OF s(1), of i] s(3,4) by simp
  qed
qed

theorem slave_engine_speaks_as_machine_witness:
  "sl_src (fst (slave_turn (\<lambda>_ _. 1) (\<lambda>_. 0, False, Turn_Phy True) (reac_slave_fsm_init None None))) = fallback_mac
   \<and> snd (slave_turn (\<lambda>_ _. 1) (\<lambda>_. 0, False, Turn_Phy True) (reac_slave_fsm_init None None)) \<noteq> None"
proof -
  let ?s = "reac_slave_fsm_init None None" and ?r = "slave_turn (\<lambda>_ _. 1) (\<lambda>_. 0, False, Turn_Phy True) (reac_slave_fsm_init None None)"
  have c: "slave_cfg_ok None None" by (simp add: slave_cfg_ok_def)
  have i: "sl_src ?s = fallback_mac" "sl_box_channels ?s = 16" "\<not> sl_box_master ?s" "asks ?s (Turn_Phy True)"
    by (simp_all add: reac_slave_fsm_init_def reac_mac_default_src_def reac_mac_fallback_def slave_width_def asks_def)
  have f: "fs_state (sl_fsm (fst ?r)) = FSM_FLOOD_ANNOUNCE"
    by (simp add: slave_phy_turn_def reac_slave_step_phy_def slave_step_def reac_slave_fsm_init_def reac_fsm_init_def fsm_step_defs
        map_action_def emit_decision_def emit_plain_def stage_inputs_def emit_keeps_fsm(4) [OF slave_send_keeps] Let_def)
  have w: "reac_box_width_ok 16" by (simp add: reac_box_width_ok_iff)
  show ?thesis
    using slave_engine_speaks_as_machine [OF c, of "\<lambda>_ _. 1" "\<lambda>_. 0" False "Turn_Phy True" "[]"] i f w by simp
qed

text \<open>C8: the head-amp tables of the engine say what the latest verified records asked for. After any history of turns
  every table has forty entries, and for each channel the sensitivity, pad and phantom registers hold the value of the
  latest record for it (zero and off before the first), where a record counts when its frame is a REAC frame, its
  checksum holds, its channel is the box's and its parameter is one of the three. The gain of a channel is the one its
  sensitivity and pad registers ask for from the first record that sets either of them, and one before that; a phantom
  record does not change it.\<close>

theorem slave_headamp_tables:
  fixes pw :: "rat \<Rightarrow> rat \<Rightarrow> rat" and es :: "((clock_site \<Rightarrow> u64) \<times> bool \<times> slave_input) list"
    and hw :: "(int \<times> mac) option" and cfg :: "reac_slave_cfg option"
  defines "s \<equiv> fst (trace_of (slave_turn pw) es (reac_slave_fsm_init hw cfg))"
    and "recs \<equiv> List.map_filter (\<lambda>e. headamp_record (slave_ch_base cfg) (slave_width cfg) (snd (snd e))) es"
  shows "length (sl_ha_sens s) = 40 \<and> length (sl_ha_pad s) = 40 \<and> length (sl_ha_phantom s) = 40 \<and> length (sl_ha_gain s) = 40
    \<and> (\<forall>k < 40. sl_ha_sens s ! k = register (latest recs k 2) \<and> (sl_ha_pad s ! k \<longleftrightarrow> register (latest recs k 1) \<noteq> 0)
        \<and> (sl_ha_phantom s ! k \<longleftrightarrow> register (latest recs k 0) \<noteq> 0)
        \<and> sl_ha_gain s ! k = (if latest recs k 1 = None \<and> latest recs k 2 = None then 1
            else reac_slave_headamp_gain pw (sl_ha_sens s ! k) (sl_ha_pad s ! k)))"
proof -
  have "headamp_state pw (slave_ch_base cfg) (slave_width cfg) [] (headamp_part (reac_slave_fsm_init hw cfg))"
    using slave_width_le [of cfg] by (simp add: headamp_state_def headamp_as_def headamp_part_def reac_slave_fsm_init_def Let_def register_def)
  from headamp_run_state [OF this, of es]
  have "headamp_as pw recs (sl_ha_sens s) (sl_ha_pad s) (sl_ha_phantom s) (sl_ha_gain s)"
    unfolding s_def recs_def headamp_state_def headamp_part_def append_Nil prod.case by (elim conjE)
  then show ?thesis unfolding headamp_as_def .
qed

text \<open>A sensitivity of 0x20 for the second channel of a default box.\<close>

definition headamp_wit :: bytes where
  "headamp_wit = the (reac_ctrl_build_headamp (replicate 6 2) (replicate 6 1) 7 (word_of_int (slave_ch_base None) + 1) 2 0x20)"

lemma headamp_wit_record:
  "headamp_record (slave_ch_base None) (slave_width None) (Turn_Recv (Recv_Frame headamp_wit)) = Some (1, 2, 0x20)"
  by code_simp

theorem slave_headamp_tables_witness:
  "let s = fst (trace_of (slave_turn (\<lambda>_ y. y)) [(\<lambda>_. 0, False, Turn_Recv (Recv_Frame headamp_wit))] (reac_slave_fsm_init None None))
   in sl_ha_sens s ! 1 = 0x20 \<and> sl_ha_gain s ! 1 = reac_slave_headamp_gain (\<lambda>_ y. y) 0x20 False
      \<and> sl_ha_sens s ! 0 = 0 \<and> sl_ha_gain s ! 0 = 1"
proof -
  let ?es = "[(\<lambda>_ :: clock_site. 0 :: u64, False, Turn_Recv (Recv_Frame headamp_wit))]"
  have r: "List.map_filter (\<lambda>e. headamp_record (slave_ch_base None) (slave_width None) (snd (snd e))) ?es = [] @ [(1, 2, 0x20)]"
    by (simp add: List.map_filter_simps headamp_wit_record)
  note t = slave_headamp_tables [of "\<lambda>_ y. y" ?es None None, unfolded r latest_simps]
  show ?thesis using t by (simp only: Let_def) (simp add: register_def)
qed

end
