(* ===== verification/Reac_Conf.thy ===== *)
theory Reac_Conf
  imports Reac_Prelude
begin

text \<open>
  The layered configuration, \<^verbatim>\<open>transport/src/reac_conf.c\<close>: reading one key from an environment file and
  asking the layers in turn. A C string is the list of its characters before the terminator. A file is its
  contents or \<open>None\<close> when it cannot be opened; \<open>env\<close> is \<^verbatim>\<open>getenv\<close>, \<open>fs\<close> gives the contents of a path. The
  \<^verbatim>\<open>out\<close> buffer of \<open>cap\<close> characters is the value in the result, and no value is an untouched buffer.
\<close>

datatype reac_conf_layer = REAC_CONF_NONE | REAC_CONF_ARGV | REAC_CONF_ENV | REAC_CONF_SEGMENT
  | REAC_CONF_HOST | REAC_CONF_LAST_RESORT | REAC_CONF_BUILTIN

fun reac_conf_layer_name :: "reac_conf_layer \<Rightarrow> string" where
  "reac_conf_layer_name REAC_CONF_ARGV = ''the command line''"
| "reac_conf_layer_name REAC_CONF_ENV = ''the process environment''"
| "reac_conf_layer_name REAC_CONF_SEGMENT = ''a per-segment key (<KEY>_<segment>) in the environment or a conf file''"
| "reac_conf_layer_name REAC_CONF_HOST = ''~/.config/reac-pw/reac-pw.env (per-host)''"
| "reac_conf_layer_name REAC_CONF_LAST_RESORT = ''~/.config/openmixer/reac.env (last resort)''"
| "reac_conf_layer_name REAC_CONF_BUILTIN = ''the built-in default''"
| "reac_conf_layer_name REAC_CONF_NONE = ''nothing''"

abbreviation (input) TAB :: char where "TAB \<equiv> CHR 0x09"
abbreviation (input) NL :: char where "NL \<equiv> CHR 0x0A"
abbreviation (input) CR :: char where "CR \<equiv> CHR 0x0D"
abbreviation (input) NUL :: char where "NUL \<equiv> CHR 0x00"
abbreviation (input) QUOTE1 :: char where "QUOTE1 \<equiv> CHR 0x27"
abbreviation (input) QUOTE2 :: char where "QUOTE2 \<equiv> CHR 0x22"

section \<open>One line\<close>

text \<open>\<^verbatim>\<open>trim\<close>: the leading blanks are spaces and tabs, the trailing ones also ends of line.\<close>

definition trim :: "string \<Rightarrow> string" where
  "trim s = rev (dropWhile (\<lambda>c. c \<in> {CHR '' '', TAB, NL, CR}) (rev (dropWhile (\<lambda>c. c \<in> {CHR '' '', TAB}) s)))"

text \<open>The quotes around a value come off as a pair.\<close>

definition unquote :: "string \<Rightarrow> string" where
  "unquote v =
     (if length v \<ge> 2 \<and> (v ! 0 = QUOTE2 \<and> v ! (length v - 1) = QUOTE2 \<or> v ! 0 = QUOTE1 \<and> v ! (length v - 1) = QUOTE1)
      then drop 1 (butlast v) else v)"

text \<open>The body of the loop: what the line assigns to the key, if it does.\<close>

definition conf_assign :: "string \<Rightarrow> string \<Rightarrow> string option" where
  "conf_assign key line =
     (let p = trim line in
      if p = [] \<or> hd p = CHR ''#'' then None
      else let p = (if take 7 p = ''export '' then trim (drop 7 p) else p) in
      if take (length key) p \<noteq> key then None
      else let eq = trim (drop (length key) p) in
      if eq = [] \<or> hd eq \<noteq> CHR ''='' then None
      else let v = unquote (trim (drop 1 eq)) in
      if v = [] then None else Some v)"

section \<open>Files\<close>

text \<open>\<^verbatim>\<open>fgets\<close> into a buffer of \<open>n + 1\<close> characters.\<close>

fun fgets :: "nat \<Rightarrow> string \<Rightarrow> string" where
  "fgets 0 s = []"
| "fgets (Suc n) [] = []"
| "fgets (Suc n) (c # s) = (if c = NL then [c] else c # fgets n s)"

abbreviation (input) CONF_LINE :: nat where "CONF_LINE \<equiv> 1023"

lemma fgets_pos: "0 < n \<Longrightarrow> s \<noteq> [] \<Longrightarrow> 0 < length (fgets n s)"
  by (cases n; cases s) auto

function fgets_lines :: "string \<Rightarrow> string list" where
  "fgets_lines s = (if s = [] then [] else fgets CONF_LINE s # fgets_lines (drop (length (fgets CONF_LINE s)) s))"
  by pat_completeness auto
termination
proof (relation "measure length")
  fix s :: string
  assume "s \<noteq> []"
  then show "(drop (length (fgets CONF_LINE s)) s, s) \<in> measure length"
    using fgets_pos [of CONF_LINE s] by (simp add: diff_less)
qed simp

declare fgets_lines.simps [simp del]

text \<open>\<^verbatim>\<open>snprintf(out, cap, "%s", v)\<close>.\<close>

definition put_str :: "nat \<Rightarrow> string \<Rightarrow> string" where
  "put_str cap v = take (cap - 1) v"

definition reac_conf_read_file :: "string option \<Rightarrow> string option \<Rightarrow> nat \<Rightarrow> string option" where
  "reac_conf_read_file file key' cap =
     (case (file, key') of
        (Some content, Some key) \<Rightarrow>
          if cap = 0 then None
          else foldl (\<lambda>hit line. case conf_assign key (takeWhile (\<lambda>c. c \<noteq> NUL) line) of
                                   None \<Rightarrow> hit | Some v \<Rightarrow> Some (put_str cap v)) None (fgets_lines content)
      | _ \<Rightarrow> None)"

section \<open>Layers\<close>

definition env_value :: "(string \<Rightarrow> string option) \<Rightarrow> string \<Rightarrow> string option" where
  "env_value env key = (case env key of Some e \<Rightarrow> if e = [] then None else Some e | None \<Rightarrow> None)"

definition conf_path :: "string \<Rightarrow> string \<Rightarrow> string" where
  "conf_path home rest = put_str 1024 (home @ rest)"

definition lookup_bare ::
    "(string \<Rightarrow> string option) \<Rightarrow> (string \<Rightarrow> string option) \<Rightarrow> string \<Rightarrow> string \<Rightarrow> nat \<Rightarrow> reac_conf_layer \<times> string option" where
  "lookup_bare env fs key home cap =
     (case env_value env key of
        Some e \<Rightarrow> (REAC_CONF_ENV, Some (put_str cap e))
      | None \<Rightarrow>
          (case reac_conf_read_file (fs (conf_path home ''/.config/reac-pw/reac-pw.env'')) (Some key) cap of
             Some v \<Rightarrow> (REAC_CONF_HOST, Some v)
           | None \<Rightarrow>
               (case reac_conf_read_file (fs (conf_path home ''/.config/openmixer/reac.env'')) (Some key) cap of
                  Some v \<Rightarrow> (REAC_CONF_LAST_RESORT, Some v)
                | None \<Rightarrow> (REAC_CONF_NONE, None))))"

definition seg_key :: "string \<Rightarrow> string \<Rightarrow> string" where
  "seg_key key segment = put_str 256 (key @ ''_'' @ segment)"

definition reac_conf_lookup ::
    "(string \<Rightarrow> string option) \<Rightarrow> (string \<Rightarrow> string option) \<Rightarrow> string option \<Rightarrow> string option \<Rightarrow> string option \<Rightarrow> nat
     \<Rightarrow> reac_conf_layer \<times> string option" where
  "reac_conf_lookup env fs key' segment home cap =
     (case key' of
        None \<Rightarrow> (REAC_CONF_NONE, None)
      | Some key \<Rightarrow>
          if cap = 0 then (REAC_CONF_NONE, None)
          else let home = (case home of Some h \<Rightarrow> Some h | None \<Rightarrow> env ''HOME'');
                   seg = (case segment of Some s \<Rightarrow> if s = [] then None else Some (seg_key key s) | None \<Rightarrow> None)
               in if home = None \<or> home = Some []
                  then (case (case seg of Some k \<Rightarrow> env_value env k | None \<Rightarrow> None) of
                          Some e \<Rightarrow> (REAC_CONF_SEGMENT, Some (put_str cap e))
                        | None \<Rightarrow>
                            (case env_value env key of
                               None \<Rightarrow> (REAC_CONF_NONE, None)
                             | Some e \<Rightarrow> (REAC_CONF_ENV, Some (put_str cap e))))
                  else let bare = (\<lambda>k. lookup_bare env fs k (the home) cap)
                       in case seg of
                            None \<Rightarrow> bare key
                          | Some k \<Rightarrow> if fst (bare k) \<noteq> REAC_CONF_NONE then (REAC_CONF_SEGMENT, snd (bare k)) else bare key)"

section \<open>Reading back what was written\<close>

text \<open>A writer of such files: a value may be quoted.\<close>

definition conf_text :: "char option \<Rightarrow> string \<Rightarrow> string \<Rightarrow> string" where
  "conf_text quote key v = key @ ''='' @ (case quote of None \<Rightarrow> v | Some q \<Rightarrow> q # v @ [q])"

definition conf_write :: "(char option \<times> string \<times> string) list \<Rightarrow> string" where
  "conf_write xs = concat (map (\<lambda>(q, k, v). conf_text q k v @ [NL]) xs)"

definition blank :: "char \<Rightarrow> bool" where
  "blank c \<longleftrightarrow> c \<in> {CHR '' '', TAB, NL, CR}"

definition key_ok :: "string \<Rightarrow> bool" where
  "key_ok k \<longleftrightarrow> k \<noteq> [] \<and> hd k \<noteq> CHR ''#'' \<and> list_all (\<lambda>c. \<not> blank c \<and> c \<noteq> CHR ''='' \<and> c \<noteq> NUL) k"

definition value_ok :: "char option \<Rightarrow> string \<Rightarrow> bool" where
  "value_ok quote v \<longleftrightarrow> v \<noteq> [] \<and> list_all (\<lambda>c. c \<noteq> NL \<and> c \<noteq> NUL) v
     \<and> (case quote of None \<Rightarrow> \<not> blank (hd v) \<and> \<not> blank (last v) \<and> hd v \<noteq> QUOTE1 \<and> hd v \<noteq> QUOTE2
        | Some q \<Rightarrow> q = QUOTE1 \<or> q = QUOTE2)"

definition line_ok :: "char option \<times> string \<times> string \<Rightarrow> bool" where
  "line_ok x = (case x of (q, k, v) \<Rightarrow> key_ok k \<and> value_ok q v \<and> length (conf_text q k v) < CONF_LINE)"

lemma trim_id: "s \<noteq> [] \<Longrightarrow> \<not> blank (hd s) \<Longrightarrow> \<not> blank (last s) \<Longrightarrow> trim s = s"
proof -
  assume s: "s \<noteq> []" "\<not> blank (hd s)" "\<not> blank (last s)"
  have "dropWhile (\<lambda>c. c \<in> {CHR '' '', TAB}) s = s" using s(1,2) by (cases s) (simp_all add: blank_def)
  moreover have "dropWhile (\<lambda>c. c \<in> {CHR '' '', TAB, NL, CR}) (rev s) = rev s"
    using s(1,3) by (cases s rule: rev_cases) (simp_all add: blank_def)
  ultimately show ?thesis by (simp add: trim_def)
qed

lemma trim_newline: "s \<noteq> [] \<Longrightarrow> \<not> blank (hd s) \<Longrightarrow> \<not> blank (last s) \<Longrightarrow> trim (s @ [NL]) = s"
proof -
  assume s: "s \<noteq> []" "\<not> blank (hd s)" "\<not> blank (last s)"
  have "dropWhile (\<lambda>c. c \<in> {CHR '' '', TAB}) (s @ [NL]) = s @ [NL]" using s(1,2) by (cases s) (simp_all add: blank_def)
  moreover have "dropWhile (\<lambda>c. c \<in> {CHR '' '', TAB, NL, CR}) (rev s) = rev s"
    using s(1,3) by (cases s rule: rev_cases) (simp_all add: blank_def)
  ultimately show ?thesis by (simp add: trim_def)
qed

lemma dropWhile_keeps_last:
  assumes "\<not> P c"
  shows "\<exists>s. rev (dropWhile P (rev (c # r))) = c # s"
proof (cases "\<exists>x \<in> set (rev r). \<not> P x")
  case True
  then obtain x where "x \<in> set (rev r)" "\<not> P x" by blast
  then have "dropWhile P (rev r @ [c]) = dropWhile P (rev r) @ [c]" by (rule dropWhile_append1)
  then show ?thesis by simp
next
  case False
  then have "dropWhile P (rev r @ [c]) = dropWhile P [c]" by (intro dropWhile_append2) blast
  then show ?thesis using assms by simp
qed

lemma hd_trim: "\<not> blank c \<Longrightarrow> hd (trim (c # r)) = c"
proof -
  assume c: "\<not> blank c"
  have "dropWhile (\<lambda>c. c \<in> {CHR '' '', TAB}) (c # r) = c # r" using c by (simp add: blank_def)
  moreover obtain s where "rev (dropWhile (\<lambda>c. c \<in> {CHR '' '', TAB, NL, CR}) (rev (c # r))) = c # s"
    using dropWhile_keeps_last [of "\<lambda>c. c \<in> {CHR '' '', TAB, NL, CR}" c r] c by (auto simp: blank_def)
  ultimately show ?thesis by (simp only: trim_def list.sel)
qed

definition quoted :: "char option \<Rightarrow> string \<Rightarrow> string" where
  "quoted quote v = (case quote of None \<Rightarrow> v | Some q \<Rightarrow> q # v @ [q])"

lemma quoted_facts:
  assumes "value_ok q v"
  shows "quoted q v \<noteq> []" "\<not> blank (hd (quoted q v))" "\<not> blank (last (quoted q v))" "unquote (quoted q v) = v"
    "list_all (\<lambda>c. c \<noteq> NL \<and> c \<noteq> NUL) (quoted q v)"
proof -
  show "quoted q v \<noteq> []" "\<not> blank (hd (quoted q v))" "\<not> blank (last (quoted q v))" "list_all (\<lambda>c. c \<noteq> NL \<and> c \<noteq> NUL) (quoted q v)"
    using assms by (auto simp: quoted_def value_ok_def blank_def split: option.splits)
  show "unquote (quoted q v) = v"
    using assms by (cases v) (auto simp: quoted_def value_ok_def unquote_def nth_append split: option.splits)
qed

lemma conf_text_quoted: "conf_text q k v = k @ ''='' @ quoted q v"
  by (simp add: conf_text_def quoted_def)

lemma key_take:
  assumes k: "key_ok k" and k': "key_ok k'" and t: "take (length k) (k' @ ''='' @ x) = k"
  shows "k' = k \<or> (\<exists>c r. drop (length k) (k' @ ''='' @ x) = c # r \<and> \<not> blank c \<and> c \<noteq> CHR ''='')"
proof (cases "length k < length k'")
  case True
  then have "drop (length k) (k' @ ''='' @ x) = drop (length k) k' @ ''='' @ x" by simp
  moreover obtain c r where c: "drop (length k) k' = c # r" using True by (cases "drop (length k) k'") auto
  moreover have "c \<in> set k'" using c by (metis in_set_dropD list.set_intros(1))
  ultimately show ?thesis using k' by (auto simp: key_ok_def list_all_iff)
next
  case False
  have "length k = length k'"
  proof (rule ccontr)
    assume "length k \<noteq> length k'"
    then have l: "length k' < length k" using False by simp
    have "k ! length k' = (k' @ ''='' @ x) ! length k'" using nth_take [OF l, of "k' @ ''='' @ x"] unfolding t .
    then have "CHR ''='' \<in> set k" using l by (simp add: nth_append) (metis nth_mem)
    then show False using k by (auto simp: key_ok_def list_all_iff)
  qed
  then show ?thesis using t by simp
qed

lemma not_export:
  assumes "key_ok k"
  shows "take 7 (k @ ''='' @ x) \<noteq> ''export ''"
proof
  assume t: "take 7 (k @ ''='' @ x) = ''export ''"
  have sp: "CHR '' '' \<notin> set k" using assms by (auto simp: key_ok_def list_all_iff blank_def)
  show False
  proof (cases "length k < 7")
    case True
    have "(k @ ''='' @ x) ! length k = ''export '' ! length k" using nth_take [OF True, of "k @ ''='' @ x"] unfolding t by simp
    moreover have "''export '' ! length k \<in> set ''export ''" using True by (intro nth_mem) simp
    ultimately have "CHR ''='' \<in> set ''export ''" by (simp only: nth_append_length append_Cons)
    then show False by simp
  next
    case False
    then have "take 7 k = ''export ''" using t by simp
    then have "CHR '' '' \<in> set (take 7 k)" by simp
    then show False using sp by (meson in_set_takeD)
  qed
qed

lemma conf_assign_line:
  assumes k: "key_ok key" and x: "line_ok (q, k, v)"
  shows "conf_assign key (takeWhile (\<lambda>c. c \<noteq> NUL) (conf_text q k v @ [NL])) = (if k = key then Some v else None)"
proof -
  have k': "key_ok k" and v: "value_ok q v" using x by (simp_all add: line_ok_def)
  note qf = quoted_facts [OF v]
  let ?p = "k @ ''='' @ quoted q v"
  have nn: "takeWhile (\<lambda>c. c \<noteq> NUL) (conf_text q k v @ [NL]) = ?p @ [NL]"
    using k' qf(5) unfolding conf_text_quoted by (intro takeWhile_eq_all_conv [THEN iffD2]) (auto simp: key_ok_def list_all_iff)
  have kf: "k \<noteq> []" "\<not> blank (hd k)" "hd k \<noteq> CHR ''#''" using k' by (auto simp: key_ok_def list_all_iff)
  have p: "trim (?p @ [NL]) = ?p" using kf qf(1,3) by (intro trim_newline) simp_all
  have ca: "conf_assign key (?p @ [NL]) =
      (if take (length key) ?p \<noteq> key then None
       else let eq = trim (drop (length key) ?p) in
       if eq = [] \<or> hd eq \<noteq> CHR ''='' then None
       else let v = unquote (trim (drop 1 eq)) in if v = [] then None else Some v)"
    unfolding conf_assign_def Let_def p using kf not_export [OF k', of "quoted q v"] by simp
  show ?thesis
  proof (cases "k = key")
    case True
    have "trim (''='' @ quoted q v) = ''='' @ quoted q v" using qf(1,3) by (intro trim_id) (simp_all add: blank_def)
    then show ?thesis using True trim_id [OF qf(1-3)] qf(4) v unfolding nn ca by (simp add: Let_def value_ok_def)
  next
    case False
    show ?thesis
    proof (cases "take (length key) ?p = key")
      case True
      then obtain c r where c: "drop (length key) ?p = c # r" "\<not> blank c" "c \<noteq> CHR ''=''"
        using key_take [OF k k'] False by blast
      have "hd (trim (c # r)) = c" using c(2) by (rule hd_trim)
      then show ?thesis using False c(3) unfolding nn ca c(1) by (simp add: Let_def)
    next
      case no: False
      then show ?thesis using False unfolding nn ca by simp
    qed
  qed
qed

lemma fgets_line:
  "list_all (\<lambda>c. c \<noteq> NL) s \<Longrightarrow> length s < n \<Longrightarrow> fgets n (s @ NL # r) = s @ [NL]"
proof (induction s arbitrary: n)
  case Nil
  then show ?case by (cases n) simp_all
next
  case (Cons c s)
  then show ?case by (cases n) auto
qed

lemma fgets_lines_write:
  "list_all line_ok xs \<Longrightarrow> fgets_lines (conf_write xs) = map (\<lambda>(q, k, v). conf_text q k v @ [NL]) xs"
proof (induction xs)
  case Nil
  then show ?case by (simp add: conf_write_def fgets_lines.simps)
next
  case (Cons x xs)
  obtain q k v where x: "x = (q, k, v)" by (cases x)
  let ?t = "conf_text q k v" and ?r = "conf_write xs"
  have ok: "key_ok k" "value_ok q v" "length ?t < CONF_LINE" using Cons.prems x by (simp_all add: line_ok_def)
  have "list_all (\<lambda>c. c \<noteq> NL) ?t"
    using ok(1) quoted_facts(5) [OF ok(2)] by (auto simp: conf_text_quoted key_ok_def list_all_iff blank_def)
  then have f: "fgets CONF_LINE (?t @ NL # ?r) = ?t @ [NL]" by (rule fgets_line) (rule ok(3))
  have d: "drop (length (?t @ [NL])) (?t @ NL # ?r) = ?r" by simp
  have w: "conf_write (x # xs) = ?t @ NL # ?r" by (simp add: conf_write_def x)
  have "fgets_lines (?t @ NL # ?r) = (?t @ [NL]) # fgets_lines ?r"
    by (subst fgets_lines.simps) (simp only: f d append_is_Nil_conv list.distinct if_False simp_thms)
  then show ?case using Cons unfolding w by (simp add: x)
qed

text \<open>The value of the last line that assigns the key.\<close>

definition last_assigned :: "(char option \<times> string \<times> string) list \<Rightarrow> string \<Rightarrow> string option" where
  "last_assigned xs key = map_of (rev (map snd xs)) key"

lemma fold_last_assigned:
  assumes "key_ok key" and "list_all line_ok xs"
  shows "foldl (\<lambda>hit line. case conf_assign key (takeWhile (\<lambda>c. c \<noteq> NUL) line) of None \<Rightarrow> hit | Some v \<Rightarrow> Some (f v)) h
      (map (\<lambda>(q, k, v). conf_text q k v @ [NL]) xs)
    = (case last_assigned xs key of None \<Rightarrow> h | Some v \<Rightarrow> Some (f v))"
  using assms(2)
proof (induction xs rule: rev_induct)
  case Nil
  then show ?case by (simp add: last_assigned_def)
next
  case (snoc x xs)
  obtain q k v where x: "x = (q, k, v)" by (cases x)
  have "line_ok (q, k, v)" using snoc.prems x by simp
  note a = conf_assign_line [OF assms(1) this]
  have ih: "foldl (\<lambda>hit line. case conf_assign key (takeWhile (\<lambda>c. c \<noteq> NUL) line) of None \<Rightarrow> hit | Some v \<Rightarrow> Some (f v)) h
      (map (\<lambda>(q, k, v). conf_text q k v @ [NL]) xs) = (case last_assigned xs key of None \<Rightarrow> h | Some v \<Rightarrow> Some (f v))"
    using snoc by simp
  have l: "last_assigned (xs @ [x]) key = (if k = key then Some v else last_assigned xs key)"
    by (simp add: last_assigned_def x)
  show ?case by (simp only: map_append foldl_append ih list.map x prod.case foldl.simps a l [unfolded x]) simp
qed

section \<open>Properties\<close>

text \<open>A configuration file says what was written to it. For a file of lines \<^verbatim>\<open>KEY=VALUE\<close>, plain or in either
  kind of quotes, reading a key returns the value of its last line, cut to the caller's buffer, and nothing when
  no line assigns it; a key that is the beginning of another one is never confused with it.\<close>

theorem conf_file_roundtrip:
  assumes "key_ok key" and "list_all line_ok xs" and "cap \<noteq> 0"
  shows "reac_conf_read_file (Some (conf_write xs)) (Some key) cap = map_option (take (cap - 1)) (last_assigned xs key)"
  using assms
  by (simp add: reac_conf_read_file_def fgets_lines_write fold_last_assigned put_str_def split: option.split)

theorem conf_file_roundtrip_witness:
  "reac_conf_read_file (Some (conf_write [(None, ''REAC_RATE'', ''48000''), (None, ''REAC_RATE_x'', ''44100''),
      (Some QUOTE2, ''REAC_RATE'', ''96000'')])) (Some ''REAC_RATE'') 16 = Some ''96000''"
proof -
  let ?xs = "[(None, ''REAC_RATE'', ''48000''), (None, ''REAC_RATE_x'', ''44100''), (Some QUOTE2, ''REAC_RATE'', ''96000'')]"
  have "key_ok ''REAC_RATE''" "list_all line_ok ?xs"
    by (simp_all add: key_ok_def line_ok_def value_ok_def conf_text_def blank_def)
  then show ?thesis using conf_file_roundtrip [of "''REAC_RATE''" ?xs 16] by (simp add: last_assigned_def)
qed

text \<open>The questions in the order the code means to ask them: for the per-segment key and then for the bare one,
  the environment, the host's file and the file of last resort; without a home only the environment.\<close>

definition conf_questions ::
    "(string \<Rightarrow> string option) \<Rightarrow> (string \<Rightarrow> string option) \<Rightarrow> string \<Rightarrow> string option \<Rightarrow> string option \<Rightarrow> nat
     \<Rightarrow> (reac_conf_layer \<times> string option) list" where
  "conf_questions env fs key segment home cap =
     (let file = (\<lambda>h rest k. reac_conf_read_file (fs (conf_path h rest)) (Some k) cap);
          ask = (\<lambda>k e h l. (e, map_option (put_str cap) (env_value env k)) #
                   (case home of None \<Rightarrow> [] | Some hm \<Rightarrow> [(h, file hm ''/.config/reac-pw/reac-pw.env'' k),
                                                        (l, file hm ''/.config/openmixer/reac.env'' k)]))
      in (case segment of None \<Rightarrow> [] | Some s \<Rightarrow> ask (seg_key key s) REAC_CONF_SEGMENT REAC_CONF_SEGMENT REAC_CONF_SEGMENT)
         @ ask key REAC_CONF_ENV REAC_CONF_HOST REAC_CONF_LAST_RESORT)"

definition non_empty :: "string option \<Rightarrow> string option" where
  "non_empty s = (if s = Some [] then None else s)"

text \<open>The code asks these questions and takes the first answer.\<close>

lemma conf_lookup_asks:
  assumes "cap \<noteq> 0"
  shows "reac_conf_lookup env fs (Some key) segment home cap =
    (case List.find (\<lambda>x. snd x \<noteq> None)
        (conf_questions env fs key (non_empty segment) (non_empty (if home = None then env ''HOME'' else home)) cap) of
       Some x \<Rightarrow> x | None \<Rightarrow> (REAC_CONF_NONE, None))"
proof -
  define hm where "hm = (case home of Some h \<Rightarrow> Some h | None \<Rightarrow> env ''HOME'')"
  have h: "(if home = None then env ''HOME'' else home) = hm" by (simp add: hm_def split: option.split)
  have s: "(case segment of Some s \<Rightarrow> if s = [] then None else Some (seg_key key s) | None \<Rightarrow> None) = map_option (seg_key key) (non_empty segment)"
    by (simp add: non_empty_def split: option.split)
  show ?thesis
  proof (cases "hm = None \<or> hm = Some []")
    case True
    then have "non_empty hm = None" by (auto simp: non_empty_def)
    then show ?thesis using assms True unfolding reac_conf_lookup_def conf_questions_def hm_def [symmetric] option.case s h Let_def
      by (cases "non_empty segment") (simp_all split: option.split)
  next
    case False
    then obtain d where d: "hm = Some d" by auto
    then have "non_empty hm = Some d" using False by (simp add: non_empty_def)
    note d = d this
    show ?thesis using assms False d unfolding reac_conf_lookup_def conf_questions_def hm_def [symmetric] option.case s h Let_def
      by (cases "non_empty segment") (simp_all add: lookup_bare_def split: option.split)
  qed
qed

text \<open>What a file, if there is one, assigns to a key.\<close>

definition file_says :: "(char option \<times> string \<times> string) list option \<Rightarrow> string \<Rightarrow> string option" where
  "file_says fl k = (case fl of None \<Rightarrow> None | Some xs \<Rightarrow> last_assigned xs k)"

lemma read_written:
  "key_ok k \<Longrightarrow> list_all line_ok (case fl of None \<Rightarrow> [] | Some xs \<Rightarrow> xs) \<Longrightarrow> cap \<noteq> 0 \<Longrightarrow>
     reac_conf_read_file (map_option conf_write fl) (Some k) cap = map_option (put_str cap) (file_says fl k)"
  using conf_file_roundtrip [of k _ cap]
  by (cases fl) (simp_all add: file_says_def put_str_def [abs_def] reac_conf_read_file_def [of None])

text \<open>C38: a configuration key is answered from what was written. With the two files, where they exist, made of lines
  \<^verbatim>\<open>KEY=VALUE\<close>, plain or in either kind of quotes, the lookup of a key for a segment returns the first value that
  there is, cut to the caller's buffer, with the name of its layer, in this order: the key of the segment in the
  environment, its last line in the host's file, its last line in the file of last resort, and then the bare key in the
  same three places; without any it answers that there is none. An empty variable is no answer, and a key that is the
  beginning of another one is never confused with it. This is the order of the code: the header declares the
  environment to be above the key of the segment.\<close>

theorem conf_lookup_written:
  assumes "key_ok key" and "key_ok (seg_key key seg)" and "seg \<noteq> []" and "home \<noteq> []" and "cap \<noteq> 0"
    and "fs (conf_path home ''/.config/reac-pw/reac-pw.env'') = map_option conf_write host"
    and "fs (conf_path home ''/.config/openmixer/reac.env'') = map_option conf_write floor_file"
    and "list_all line_ok (case host of None \<Rightarrow> [] | Some xs \<Rightarrow> xs)"
    and "list_all line_ok (case floor_file of None \<Rightarrow> [] | Some xs \<Rightarrow> xs)"
  shows "reac_conf_lookup env fs (Some key) (Some seg) (Some home) cap =
    (case List.find (\<lambda>x. snd x \<noteq> None)
       [(REAC_CONF_SEGMENT, env_value env (seg_key key seg)), (REAC_CONF_SEGMENT, file_says host (seg_key key seg)),
        (REAC_CONF_SEGMENT, file_says floor_file (seg_key key seg)),
        (REAC_CONF_ENV, env_value env key), (REAC_CONF_HOST, file_says host key), (REAC_CONF_LAST_RESORT, file_says floor_file key)] of
       None \<Rightarrow> (REAC_CONF_NONE, None) | Some (l, v) \<Rightarrow> (l, map_option (take (cap - 1)) v))"
proof -
  have r: "reac_conf_read_file (map_option conf_write host) (Some k) cap = map_option (put_str cap) (file_says host k)"
    "reac_conf_read_file (map_option conf_write floor_file) (Some k) cap = map_option (put_str cap) (file_says floor_file k)"
    if "key_ok k" for k
    using that assms(5,8,9) by (simp_all add: read_written)
  have p: "put_str cap = take (cap - 1)" by (simp add: put_str_def [abs_def])
  show ?thesis
    unfolding conf_lookup_asks [OF assms(5)]
    using assms(3,4) by (simp add: conf_questions_def non_empty_def assms(6,7) r [OF assms(1)] r [OF assms(2)] p)
qed

theorem conf_lookup_written_witness:
  "reac_conf_lookup (\<lambda>k. if k = ''RATE'' then Some ''44100'' else None)
     (\<lambda>p. if p = ''/h/.config/openmixer/reac.env''
          then Some (conf_write [(None, ''RATE_eth0'', ''48000''), (None, ''RATE'', ''1''), (Some QUOTE2, ''RATE_eth0'', ''96000'')]) else None)
     (Some ''RATE'') (Some ''eth0'') (Some ''/h'') 16
   = (REAC_CONF_SEGMENT, Some ''96000'')"
proof -
  let ?xs = "[(None, ''RATE_eth0'', ''48000''), (None, ''RATE'', ''1''), (Some QUOTE2, ''RATE_eth0'', ''96000'')]"
  let ?fs = "\<lambda>p. if p = ''/h/.config/openmixer/reac.env'' then Some (conf_write ?xs) else None"
  have k: "key_ok ''RATE''" "key_ok (seg_key ''RATE'' ''eth0'')" and l: "list_all line_ok ?xs"
    by (simp_all add: key_ok_def line_ok_def value_ok_def conf_text_def blank_def seg_key_def put_str_def)
  show ?thesis
    using conf_lookup_written [OF k, of "''/h''" 16 ?fs None "Some ?xs" "\<lambda>k. if k = ''RATE'' then Some ''44100'' else None"] l
    by (simp add: conf_path_def put_str_def file_says_def last_assigned_def seg_key_def env_value_def)
qed

end
