(* ===== verification/Reac_Ifname.thy ===== *)
theory Reac_Ifname
  imports Reac_Conf "HOL-Library.Multiset"
begin

text \<open>
  Names of interfaces by their place on the bus, \<^verbatim>\<open>transport/src/reac_ifname.c\<close>. \<open>resolve\<close> is
  \<^verbatim>\<open>realpath\<close>; \<^verbatim>\<open>strtok_r(path, "/")\<close> walks the non-empty components of a path.
\<close>

datatype reac_ifname_bus = REAC_IFNAME_BUS_OTHER | REAC_IFNAME_BUS_PCI | REAC_IFNAME_BUS_USB

abbreviation (input) REAC_IFNAME_ADDR_MAX :: nat where "REAC_IFNAME_ADDR_MAX \<equiv> 48"
abbreviation (input) PATH_MAX :: nat where "PATH_MAX \<equiv> 4096"

section \<open>Components of a path\<close>

definition isdigit :: "char \<Rightarrow> bool" where
  "isdigit c \<longleftrightarrow> (let n = of_char c :: nat in 48 \<le> n \<and> n \<le> 57)"

definition isxdigit :: "char \<Rightarrow> bool" where
  "isxdigit c \<longleftrightarrow> (let n = of_char c :: nat in isdigit c \<or> 65 \<le> n \<and> n \<le> 70 \<or> 97 \<le> n \<and> n \<le> 102)"

text \<open>A run of hex digits of the wanted length and the separator after it; the rest of the string.\<close>

definition hex_field :: "nat \<Rightarrow> char \<Rightarrow> string \<Rightarrow> string option" where
  "hex_field n sep s =
     (let r = dropWhile isxdigit s in
      if length (takeWhile isxdigit s) \<noteq> n \<or> r = [] \<or> hd r \<noteq> sep then None else Some (drop 1 r))"

definition is_pci_bdf :: "string \<Rightarrow> bool" where
  "is_pci_bdf s \<longleftrightarrow>
     (case hex_field 4 (CHR '':'') s of None \<Rightarrow> False
      | Some s \<Rightarrow> case hex_field 2 (CHR '':'') s of None \<Rightarrow> False
      | Some s \<Rightarrow> case hex_field 2 (CHR ''.'') s of None \<Rightarrow> False
      | Some s \<Rightarrow> length (takeWhile isxdigit s) \<ge> 1 \<and> dropWhile isxdigit s = [])"

definition is_usbN :: "string \<Rightarrow> bool" where
  "is_usbN s \<longleftrightarrow> take 3 s = ''usb'' \<and> drop 3 s \<noteq> [] \<and> list_all isdigit (drop 3 s)"

fun split_slash :: "string \<Rightarrow> string list" where
  "split_slash [] = [[]]"
| "split_slash (c # s) =
     (if c = CHR ''/'' then [] # split_slash s
      else case split_slash s of [] \<Rightarrow> [[c]] | w # ws \<Rightarrow> (c # w) # ws)"

definition path_components :: "string \<Rightarrow> string list" where
  "path_components s = filter (\<lambda>w. w \<noteq> []) (split_slash s)"

section \<open>The bus address\<close>

text \<open>The loop over the components, with the last PCI address seen.\<close>

fun bus_walk :: "string \<Rightarrow> string list \<Rightarrow> reac_ifname_bus \<times> string" where
  "bus_walk pci [] = (if pci \<noteq> [] then (REAC_IFNAME_BUS_PCI, pci) else (REAC_IFNAME_BUS_OTHER, []))"
| "bus_walk pci (c # cs) =
     (if is_usbN c
      then case cs of next # _ \<Rightarrow> (REAC_IFNAME_BUS_USB, next)
           | [] \<Rightarrow> if pci \<noteq> [] then (REAC_IFNAME_BUS_PCI, pci) else (REAC_IFNAME_BUS_OTHER, [])
      else bus_walk (if is_pci_bdf c then put_str REAC_IFNAME_ADDR_MAX c else pci) cs)"

definition reac_ifname_bus_addr ::
    "(string \<Rightarrow> string option) \<Rightarrow> string option \<Rightarrow> string option \<Rightarrow> nat \<Rightarrow> int \<times> reac_ifname_bus \<times> string" where
  "reac_ifname_bus_addr resolve root ifname' addr_cap =
     (let fail = (- 1, REAC_IFNAME_BUS_OTHER, []) in
      case ifname' of
        None \<Rightarrow> fail
      | Some ifname \<Rightarrow>
          if ifname = [] \<or> addr_cap = 0 then fail
          else let root = (case root of Some r \<Rightarrow> if r = [] then ''/sys/class/net'' else r | None \<Rightarrow> ''/sys/class/net'');
                   path = root @ ''/'' @ ifname @ ''/device''
               in if length path \<ge> PATH_MAX then fail
                  else case resolve path of
                         None \<Rightarrow> fail
                       | Some resolved \<Rightarrow>
                           (case bus_walk [] (path_components (put_str PATH_MAX resolved)) of
                              (kind, addr) \<Rightarrow> (0, kind, put_str addr_cap addr)))"

section \<open>Rank and name\<close>

text \<open>\<^verbatim>\<open>strcmp(a, b) < 0\<close>: characters compare as unsigned bytes.\<close>

fun strcmp_lt :: "string \<Rightarrow> string \<Rightarrow> bool" where
  "strcmp_lt [] [] = False"
| "strcmp_lt [] (d # ds) = True"
| "strcmp_lt (c # cs) [] = False"
| "strcmp_lt (c # cs) (d # ds) =
     ((of_char c :: nat) < of_char d \<or> c = d \<and> strcmp_lt cs ds)"

definition reac_ifname_rank :: "string option list option \<Rightarrow> string option \<Rightarrow> int" where
  "reac_ifname_rank addrs' self' =
     (case (addrs', self') of
        (Some addrs, Some self) \<Rightarrow>
          if addrs = [] \<or> self = [] then - 1
          else if Some self \<notin> set addrs then - 1
          else foldl (\<lambda>rank a. case a of Some x \<Rightarrow> if strcmp_lt x self then rank + 1 else rank | None \<Rightarrow> rank) 1 addrs
      | _ \<Rightarrow> - 1)"

text \<open>\<^verbatim>\<open>%d\<close> of a positive number.\<close>

fun dec :: "nat \<Rightarrow> string" where
  "dec n = (if n < 10 then [char_of (48 + n)] else dec (n div 10) @ [char_of (48 + n mod 10)])"

declare dec.simps [simp del]

definition reac_ifname_derive :: "reac_ifname_bus \<Rightarrow> int \<Rightarrow> string option \<Rightarrow> nat \<Rightarrow> int \<times> string" where
  "reac_ifname_derive kind rank ifname' outlen =
     (case ifname' of
        None \<Rightarrow> (- 1, [])
      | Some ifname \<Rightarrow>
          if outlen = 0 then (- 1, [])
          else let prefix = (case kind of REAC_IFNAME_BUS_USB \<Rightarrow> Some ''usb'' | REAC_IFNAME_BUS_PCI \<Rightarrow> Some ''pci''
                             | REAC_IFNAME_BUS_OTHER \<Rightarrow> None);
                   s = (case prefix of Some p \<Rightarrow> if rank > 0 then p @ dec (nat rank) else ifname | None \<Rightarrow> ifname)
               in if length s \<ge> outlen then (- 1, put_str outlen s) else (int (length s), put_str outlen s))"

section \<open>Order and numerals\<close>

lemma strcmp_lt_irrefl: "\<not> strcmp_lt a a"
  by (induction a) simp_all

lemma strcmp_lt_trans: "strcmp_lt a b \<Longrightarrow> strcmp_lt b c \<Longrightarrow> strcmp_lt a c"
proof (induction a b arbitrary: c rule: strcmp_lt.induct)
  case (2 d ds)
  then show ?case by (cases c) simp_all
next
  case (4 x xs y ys)
  then show ?case by (cases c) auto
qed simp_all

lemma strcmp_lt_linear: "a \<noteq> b \<Longrightarrow> strcmp_lt a b \<or> strcmp_lt b a"
proof (induction a b rule: strcmp_lt.induct)
  case (4 x xs y ys)
  show ?case
  proof (cases "x = y")
    case False
    then have "(of_char x :: nat) \<noteq> of_char y" by simp
    then have "(of_char x :: nat) < of_char y \<or> (of_char y :: nat) < of_char x" by (rule linorder_neqE_nat) simp_all
    then show ?thesis by auto
  qed (use 4 in auto)
qed simp_all

definition below :: "string option list \<Rightarrow> string \<Rightarrow> string list" where
  "below addrs self = filter (\<lambda>x. strcmp_lt x self) (map the (filter (\<lambda>a. a \<noteq> None) addrs))"

lemma rank_fold:
  "foldl (\<lambda>rank a. case a of Some x \<Rightarrow> if strcmp_lt x self then rank + 1 else rank | None \<Rightarrow> rank) (r :: int) addrs
     = r + int (length (below addrs self))"
proof (induction addrs arbitrary: r)
  case (Cons a addrs)
  then show ?case by (cases a) (auto simp: below_def)
qed (simp add: below_def)

text \<open>A decimal numeral read back.\<close>

definition undec :: "string \<Rightarrow> nat" where
  "undec s = foldl (\<lambda>n c. n * 10 + (of_char c - 48)) 0 s"

lemma undec_dec: "undec (dec n) = n"
proof (induction n rule: dec.induct)
  case (1 n)
  have d: "(of_char (char_of (48 + k :: nat)) :: nat) - 48 = k" if "k < 10" for k using that by simp
  show ?case
  proof (cases "n < 10")
    case True
    then show ?thesis by (subst dec.simps) (simp add: undec_def d)
  next
    case False
    then have "undec (dec (n div 10)) = n div 10" using 1 by blast
    then show ?thesis using False d [of "n mod 10"] by (subst dec.simps) (simp add: undec_def)
  qed
qed

lemma dec_inj: "dec a = dec b \<Longrightarrow> a = b"
  using undec_dec by metis

lemma rank_card:
  assumes "distinct xs" and "a \<noteq> []"
  shows "reac_ifname_rank (Some (map Some xs)) (Some a) =
    (if a \<in> set xs then 1 + int (card {x \<in> set xs. strcmp_lt x a}) else - 1)"
proof -
  have "map the (filter (\<lambda>a. a \<noteq> None) (map Some xs)) = xs" by (induction xs) simp_all
  then have "int (length (below (map Some xs) a)) = int (card {x \<in> set xs. strcmp_lt x a})"
    using distinct_card [of "filter (\<lambda>x. strcmp_lt x a) xs"] assms(1) by (simp add: below_def)
  then show ?thesis using assms(2) by (auto simp: reac_ifname_rank_def rank_fold)
qed

lemma below_psubset:
  assumes "a \<in> S" and "strcmp_lt a b" and "finite S"
  shows "card {x \<in> S. strcmp_lt x a} < card {x \<in> S. strcmp_lt x b}"
  using assms strcmp_lt_irrefl [of a] strcmp_lt_trans by (intro psubset_card_mono) auto

lemma derive_distinct:
  assumes "k \<noteq> REAC_IFNAME_BUS_OTHER" and "0 < r" and "0 < r'" and "r \<noteq> r'"
    and "fst (reac_ifname_derive k r (Some i) n) \<noteq> - 1" and "fst (reac_ifname_derive k r' (Some j) m) \<noteq> - 1"
  shows "snd (reac_ifname_derive k r (Some i) n) \<noteq> snd (reac_ifname_derive k r' (Some j) m)"
proof -
  have "dec (nat r) \<noteq> dec (nat r')" using dec_inj [of "nat r" "nat r'"] assms(2-4) by auto
  then show ?thesis
    using assms by (cases k) (auto simp: reac_ifname_derive_def Let_def put_str_def split: if_splits)
qed

section \<open>Properties\<close>

text \<open>A port keeps its name whatever order the ports are found in. For ports of different addresses on a bus, the
  rank of an address in the list depends on the set of addresses only, the ranks are the numbers from one to the
  number of ports in the order of the addresses, and an address outside the list has no rank; two ports of one bus
  that both get a name get different ones.\<close>

theorem ifname_rank_stable:
  assumes "distinct addrs" and "[] \<notin> set addrs"
  defines "rank \<equiv> \<lambda>xs a. reac_ifname_rank (Some (map Some xs)) (Some a)"
  shows "(\<forall>a. rank addrs a \<noteq> - 1 \<longleftrightarrow> a \<in> set addrs)
    \<and> (\<forall>xs a. mset xs = mset addrs \<longrightarrow> rank xs a = rank addrs a)
    \<and> rank addrs ` set addrs = {1..int (length addrs)}
    \<and> (\<forall>a b. a \<in> set addrs \<longrightarrow> b \<in> set addrs \<longrightarrow> (rank addrs a < rank addrs b \<longleftrightarrow> strcmp_lt a b)
        \<and> (\<forall>k n m i j. a \<noteq> b \<longrightarrow> k \<noteq> REAC_IFNAME_BUS_OTHER \<longrightarrow> fst (reac_ifname_derive k (rank addrs a) (Some i) n) \<noteq> - 1 \<longrightarrow>
            fst (reac_ifname_derive k (rank addrs b) (Some j) m) \<noteq> - 1 \<longrightarrow>
            snd (reac_ifname_derive k (rank addrs a) (Some i) n) \<noteq> snd (reac_ifname_derive k (rank addrs b) (Some j) m)))"
proof -
  let ?c = "\<lambda>a. card {x \<in> set addrs. strcmp_lt x a}"
  have rk: "rank addrs a = (if a \<in> set addrs then 1 + int (?c a) else - 1)" for a
  proof (cases "a = []")
    case True
    then show ?thesis using assms(2) by (simp add: rank_def reac_ifname_rank_def)
  qed (use rank_card [OF assms(1)] in \<open>simp add: rank_def\<close>)
  have pm: "rank xs a = rank addrs a" if m: "mset xs = mset addrs" for xs a
  proof -
    have "distinct xs" "set xs = set addrs" using m assms(1) by (metis mset_eq_imp_distinct_iff, metis mset_eq_setD)
    then show ?thesis using rank_card [of xs a] rank_card [OF assms(1), of a] by (cases "a = []") (simp_all add: rank_def reac_ifname_rank_def)
  qed
  have mono: "rank addrs a < rank addrs b" if "a \<in> set addrs" "b \<in> set addrs" "strcmp_lt a b" for a b
    using below_psubset [OF that(1,3)] that by (simp add: rk)
  have iff: "rank addrs a < rank addrs b \<longleftrightarrow> strcmp_lt a b" if "a \<in> set addrs" "b \<in> set addrs" for a b
    using mono [OF that] mono [OF that(2,1)] strcmp_lt_linear [of a b] by (cases "a = b") (auto simp: strcmp_lt_irrefl)
  have inj: "inj_on (rank addrs) (set addrs)"
  proof (rule inj_onI)
    fix a b
    assume ab: "a \<in> set addrs" "b \<in> set addrs" "rank addrs a = rank addrs b"
    then show "a = b" using iff [OF ab(1,2)] iff [OF ab(2,1)] strcmp_lt_linear [of a b] by auto
  qed
  have le: "rank addrs a \<in> {1..int (length addrs)}" if "a \<in> set addrs" for a
  proof -
    have "?c a < card (set addrs)" using that strcmp_lt_irrefl [of a] by (intro psubset_card_mono) auto
    then show ?thesis using that distinct_card [OF assms(1)] by (simp add: rk)
  qed
  have img: "rank addrs ` set addrs = {1..int (length addrs)}"
    by (rule card_subset_eq) (use le inj distinct_card [OF assms(1)] in \<open>auto simp: card_image\<close>)
  have dd: "snd (reac_ifname_derive k (rank addrs a) (Some i) n) \<noteq> snd (reac_ifname_derive k (rank addrs b) (Some j) m)"
    if "a \<in> set addrs" "b \<in> set addrs" "a \<noteq> b" "k \<noteq> REAC_IFNAME_BUS_OTHER"
      "fst (reac_ifname_derive k (rank addrs a) (Some i) n) \<noteq> - 1" "fst (reac_ifname_derive k (rank addrs b) (Some j) m) \<noteq> - 1"
    for a b k i j n m
    using that inj le [OF that(1)] le [OF that(2)] by (intro derive_distinct) (auto simp: inj_on_def)
  have mem: "rank addrs a \<noteq> - 1 \<longleftrightarrow> a \<in> set addrs" for a by (simp add: rk)
  show ?thesis
    by (intro conjI allI impI; (rule mem | rule pm | rule img | rule iff | rule dd); assumption)
qed

theorem ifname_rank_stable_witness:
  "reac_ifname_rank (Some (map Some [''4-2'', ''1-1''])) (Some ''4-2'') = reac_ifname_rank (Some (map Some [''1-1'', ''4-2''])) (Some ''4-2'')"
proof -
  have a: "distinct [''1-1'', ''4-2'']" "[] \<notin> set [''1-1'', ''4-2'']" by simp_all
  have m: "mset [''4-2'', ''1-1''] = mset [''1-1'', ''4-2'']" by simp
  show ?thesis
    by (rule ifname_rank_stable [OF a, THEN conjunct2, THEN conjunct1, THEN spec, THEN spec, THEN mp, OF m])
qed

end
