(* ===== verification/Reac_Segment.thy ===== *)
theory Reac_Segment
  imports Reac_Arbitration Reac_Role Reac_Master_Fsm Reac_Macaddr Reac_Ifname
begin

text \<open>
  What a segment publishes about itself: \<^verbatim>\<open>transport/src/reac_role_swap.c\<close> (a role change under way),
  \<^verbatim>\<open>transport/src/reac_segment_ident.c\<close> (is a master heard, and the strings of the answer) and
  \<^verbatim>\<open>transport/src/reac_pace_watch.c\<close> (does the wire carry the pace we configured). A \<^verbatim>\<open>char[n]\<close> that is
  printed into is the string that fits it.
\<close>

section \<open>Role changes\<close>

datatype reac_role_engine = REAC_ROLE_ENGINE_DOWN | REAC_ROLE_ENGINE_HUNTING | REAC_ROLE_ENGINE_PERFORMING

record reac_role_swap =
  rs_asserted :: reac_role
  rs_running :: reac_role
  rs_engine_up :: bool

definition reac_role_swap_init :: "reac_role \<Rightarrow> reac_role_swap" where
  "reac_role_swap_init boot = \<lparr> rs_asserted = boot, rs_running = boot, rs_engine_up = False \<rparr>"

definition reac_role_swap_request :: "reac_role_swap \<Rightarrow> reac_role \<Rightarrow> reac_role_swap \<times> bool" where
  "reac_role_swap_request s want =
     (s\<lparr> rs_asserted := want \<rparr>, if rs_engine_up s then rs_running s \<noteq> want else True)"

definition reac_role_swap_opened :: "reac_role_swap \<Rightarrow> reac_role \<Rightarrow> reac_role_swap" where
  "reac_role_swap_opened s role = s\<lparr> rs_running := role, rs_engine_up := True \<rparr>"

definition reac_role_swap_closed :: "reac_role_swap \<Rightarrow> reac_role_swap" where
  "reac_role_swap_closed s = s\<lparr> rs_engine_up := False \<rparr>"

definition reac_role_engine_of_master :: "bool \<Rightarrow> reac_master_state \<Rightarrow> reac_role_engine" where
  "reac_role_engine_of_master engine_up fsm =
     (if \<not> engine_up then REAC_ROLE_ENGINE_DOWN
      else if fsm = REAC_M_IDLE then REAC_ROLE_ENGINE_HUNTING else REAC_ROLE_ENGINE_PERFORMING)"

definition reac_role_engine_of_slave :: "bool \<Rightarrow> bool \<Rightarrow> reac_role_engine" where
  "reac_role_engine_of_slave engine_up established =
     (if \<not> engine_up then REAC_ROLE_ENGINE_DOWN
      else if established then REAC_ROLE_ENGINE_PERFORMING else REAC_ROLE_ENGINE_HUNTING)"

definition reac_role_swap_state :: "reac_role_swap option \<Rightarrow> reac_role_engine \<Rightarrow> string" where
  "reac_role_swap_state s' engine =
     (case s' of
        None \<Rightarrow> ''role_reestablish_pending''
      | Some s \<Rightarrow>
          if \<not> rs_engine_up s \<or> engine = REAC_ROLE_ENGINE_DOWN then ''role_reestablish_pending''
          else if rs_running s \<noteq> rs_asserted s then ''role_reestablish_pending''
          else if engine = REAC_ROLE_ENGINE_HUNTING then ''role_hunting''
          else ''applied'')"

definition reac_role_emits_headamp :: "reac_role \<Rightarrow> bool" where
  "reac_role_emits_headamp role \<longleftrightarrow> role = REAC_ROLE_MASTER"

section \<open>Is a master heard\<close>

definition reac_segment_name :: "string option \<Rightarrow> string" where
  "reac_segment_name inst = (case inst of Some i \<Rightarrow> if i = [] then ''default'' else i | None \<Rightarrow> ''default'')"

record reac_segment_heard =
  sh_last_frames :: u64
  sh_quiet_ticks :: int
  sh_heard :: bool

definition reac_segment_heard_init :: "u64 \<Rightarrow> reac_segment_heard" where
  "reac_segment_heard_init frames_ok = \<lparr> sh_last_frames = frames_ok, sh_quiet_ticks = 0, sh_heard = False \<rparr>"

definition reac_segment_heard_step :: "reac_segment_heard \<Rightarrow> u64 \<Rightarrow> int \<Rightarrow> reac_segment_heard \<times> bool" where
  "reac_segment_heard_step h frames_ok quiet_limit =
     (if frames_ok \<noteq> sh_last_frames h
      then (\<lparr> sh_last_frames = frames_ok, sh_quiet_ticks = 0, sh_heard = True \<rparr>, True)
      else let h = (if sh_quiet_ticks h < quiet_limit then h\<lparr> sh_quiet_ticks := sh_quiet_ticks h + 1 \<rparr> else h);
               h = (if sh_quiet_ticks h \<ge> quiet_limit then h\<lparr> sh_heard := False \<rparr> else h)
           in (h, sh_heard h))"

section \<open>The published answer\<close>

record reac_segment_answer =
  sa_master_state :: string
  sa_master_mac :: string
  sa_pace_source :: string
  sa_conflict :: string
  sa_rival_kind :: string
  sa_refusal :: string
  sa_rate :: string

definition hex_digit :: "nat \<Rightarrow> char" where
  "hex_digit n = (if n < 10 then char_of (48 + n) else char_of (87 + n))"

definition hex2 :: "u8 \<Rightarrow> string" where
  "hex2 b = [hex_digit (unat b div 16), hex_digit (unat b mod 16)]"

definition mac_text :: "mac \<Rightarrow> string" where
  "mac_text m = hex2 (m ! 0) @ '':'' @ hex2 (m ! 1) @ '':'' @ hex2 (m ! 2) @ '':'' @ hex2 (m ! 3) @ '':'' @ hex2 (m ! 4)
     @ '':'' @ hex2 (m ! 5)"

definition answer_fill :: "reac_segment_master \<Rightarrow> reac_rival_kind \<Rightarrow> string \<Rightarrow> reac_pace_source \<Rightarrow> u64 \<Rightarrow> int
    \<Rightarrow> reac_segment_answer" where
  "answer_fill state rival refusal pace mac48 rate_hz =
     \<lparr> sa_master_state = put_str 8 (reac_segment_master_name state),
       sa_master_mac = put_str 24 (if mac48 \<noteq> 0 then mac_text (reac_mac48_unpack mac48) else ''none''),
       sa_pace_source = put_str 16 (reac_pace_source_name pace),
       sa_conflict = put_str 2 ''0'',
       sa_rival_kind = put_str 8 (reac_rival_kind_name rival),
       sa_refusal = put_str 24 refusal,
       sa_rate = put_str 8 (dec (nat (if rate_hz > 0 then rate_hz else 0))) \<rparr>"

definition reac_segment_answer_slave_kind :: "bool \<Rightarrow> u64 \<Rightarrow> int \<Rightarrow> reac_rival_kind \<Rightarrow> reac_segment_answer" where
  "reac_segment_answer_slave_kind heard master_mac48 rate_hz peer =
     answer_fill (if heard then REAC_SEGMENT_FOREIGN else REAC_SEGMENT_NONE) (if heard then peer else REAC_RIVAL_NONE)
       (reac_rival_refusal REAC_RIVAL_NONE) (if heard then REAC_PACE_FOREIGN_MASTER else REAC_PACE_FREE_RUN) master_mac48 rate_hz"

definition reac_segment_answer_refused_kind :: "reac_rival_kind \<Rightarrow> u64 \<Rightarrow> int \<Rightarrow> reac_segment_answer" where
  "reac_segment_answer_refused_kind rival rival_mac48 rate_hz =
     answer_fill REAC_SEGMENT_FOREIGN rival (reac_rival_refusal rival) REAC_PACE_FOREIGN_MASTER rival_mac48 rate_hz"

definition reac_segment_answer_slave :: "bool \<Rightarrow> u64 \<Rightarrow> int \<Rightarrow> nat \<Rightarrow> reac_segment_answer" where
  "reac_segment_answer_slave heard master_mac48 rate_hz wire_channels =
     (let rival = (if heard then reac_rival_kind_from_channels wire_channels else REAC_RIVAL_NONE) in
      answer_fill (if heard then REAC_SEGMENT_FOREIGN else REAC_SEGMENT_NONE) rival (reac_rival_refusal REAC_RIVAL_NONE)
        (if heard then REAC_PACE_FOREIGN_MASTER else REAC_PACE_FREE_RUN) master_mac48 rate_hz)"

definition reac_segment_answer_refused :: "nat \<Rightarrow> u64 \<Rightarrow> int \<Rightarrow> reac_segment_answer" where
  "reac_segment_answer_refused rival_channels rival_mac48 rate_hz =
     (let rival = reac_rival_kind_from_channels rival_channels in
      answer_fill REAC_SEGMENT_FOREIGN rival (reac_rival_refusal rival) REAC_PACE_FOREIGN_MASTER rival_mac48 rate_hz)"

section \<open>Pace watch\<close>

abbreviation (input) REAC_PACE_WINDOW_NS :: u64 where "REAC_PACE_WINDOW_NS \<equiv> 2000000000"
abbreviation (input) REAC_PACE_MIN_FRAMES :: u64 where "REAC_PACE_MIN_FRAMES \<equiv> 1000"
abbreviation (input) REAC_PACE_MAX_GAP_NS :: u64 where "REAC_PACE_MAX_GAP_NS \<equiv> 5000000"
abbreviation (input) REAC_PACE_WARN_INTERVAL_NS :: u64 where "REAC_PACE_WARN_INTERVAL_NS \<equiv> 30000000000"

record reac_pace_watch =
  pw_configured_rate :: int
  pw_observed_rate :: int
  pw_win_start_ns :: u64
  pw_win_frames :: u64
  pw_win_last_ns :: u64
  pw_win_max_gap_ns :: u64
  pw_warned_ns :: u64
  pw_windows_bad :: u64
  pw_windows_disturbed :: u64

definition win_open :: "reac_pace_watch \<Rightarrow> u64 \<Rightarrow> reac_pace_watch" where
  "win_open w now = w\<lparr> pw_win_start_ns := now, pw_win_last_ns := now, pw_win_frames := 0, pw_win_max_gap_ns := 0 \<rparr>"

definition reac_pace_watch_init :: "int \<Rightarrow> reac_pace_watch" where
  "reac_pace_watch_init configured =
     \<lparr> pw_configured_rate = configured, pw_observed_rate = 0, pw_win_start_ns = 0, pw_win_frames = 0, pw_win_last_ns = 0,
       pw_win_max_gap_ns = 0, pw_warned_ns = 0, pw_windows_bad = 0, pw_windows_disturbed = 0 \<rparr>"

definition reac_pace_watch_reset :: "reac_pace_watch \<Rightarrow> u64 \<Rightarrow> reac_pace_watch" where
  "reac_pace_watch_reset w now = win_open (w\<lparr> pw_observed_rate := 0 \<rparr>) now"

text \<open>The end of a window of \<open>frames\<close> frames over \<open>elapsed\<close> nanoseconds.\<close>

definition pace_verdict :: "reac_pace_watch \<Rightarrow> u64 \<Rightarrow> u64 \<Rightarrow> u64 \<Rightarrow> u64 \<Rightarrow> reac_pace_watch \<times> bool" where
  "pace_verdict w now frames max_gap elapsed =
     (if frames < REAC_PACE_MIN_FRAMES then (w\<lparr> pw_windows_disturbed := pw_windows_disturbed w + 1 \<rparr>, False)
      else if max_gap > REAC_PACE_MAX_GAP_NS then (w\<lparr> pw_windows_disturbed := pw_windows_disturbed w + 1 \<rparr>, False)
      else let pps = of_nat (unat frames) * 1000000000 / of_nat (unat elapsed);
               observed = reac_rate_snap pps;
               w = w\<lparr> pw_observed_rate := observed \<rparr>
           in if observed = pw_configured_rate w then (w\<lparr> pw_warned_ns := 0 \<rparr>, False)
              else let w = w\<lparr> pw_windows_bad := pw_windows_bad w + 1 \<rparr>
                   in if pw_warned_ns w \<noteq> 0 \<and> now - pw_warned_ns w < REAC_PACE_WARN_INTERVAL_NS then (w, False)
                      else (w\<lparr> pw_warned_ns := now \<rparr>, True))"

definition reac_pace_watch_frame :: "reac_pace_watch \<Rightarrow> u64 \<Rightarrow> reac_pace_watch \<times> bool" where
  "reac_pace_watch_frame w now =
     (if pw_win_start_ns w = 0 then ((win_open w now)\<lparr> pw_win_frames := 1 \<rparr>, False)
      else let gap = now - pw_win_last_ns w;
               w = (if gap > pw_win_max_gap_ns w then w\<lparr> pw_win_max_gap_ns := gap \<rparr> else w);
               w = w\<lparr> pw_win_last_ns := now, pw_win_frames := pw_win_frames w + 1 \<rparr>;
               elapsed = now - pw_win_start_ns w
           in if elapsed < REAC_PACE_WINDOW_NS then (w, False)
              else pace_verdict (win_open w now) now (pw_win_frames w) (pw_win_max_gap_ns w) elapsed)"

definition reac_pace_watch_observed :: "reac_pace_watch \<Rightarrow> int" where
  "reac_pace_watch_observed w = pw_observed_rate w"

definition reac_pace_watch_configured :: "reac_pace_watch \<Rightarrow> int" where
  "reac_pace_watch_configured w = pw_configured_rate w"

section \<open>The latch and its evidence\<close>

text \<open>At step \<open>i\<close> the count differs from the one before.\<close>

definition moved :: "u64 \<Rightarrow> u64 list \<Rightarrow> nat \<Rightarrow> bool" where
  "moved c0 cs i \<longleftrightarrow> i < length cs \<and> cs ! i \<noteq> (c0 # cs) ! i"

definition heard_run :: "int \<Rightarrow> u64 \<Rightarrow> u64 list \<Rightarrow> reac_segment_heard" where
  "heard_run limit c0 cs = foldl (\<lambda>h c. fst (reac_segment_heard_step h c limit)) (reac_segment_heard_init c0) cs"

lemma moved_snoc:
  "moved c0 (cs @ [c]) i \<longleftrightarrow> moved c0 cs i \<or> i = length cs \<and> c \<noteq> last (c0 # cs)"
proof -
  have "(c0 # cs @ [c]) ! length cs = last (c0 # cs)"
    by (metis append_Cons last_conv_nth length_Cons lessI list.distinct(1) nth_append diff_Suc_1)
  moreover have "(c0 # cs @ [c]) ! i = (c0 # cs) ! i" if "i < length cs" using that by (metis append_Cons length_Cons less_SucI nth_append)
  ultimately show ?thesis by (auto simp: moved_def nth_append less_Suc_eq)
qed

lemma heard_run_inv:
  assumes "0 < limit"
  shows "sh_last_frames (heard_run limit c0 cs) = last (c0 # cs) \<and> sh_quiet_ticks (heard_run limit c0 cs) \<ge> 0
    \<and> (sh_heard (heard_run limit c0 cs) \<longrightarrow> sh_quiet_ticks (heard_run limit c0 cs) < limit
        \<and> (\<exists>i. moved c0 cs i \<and> (\<forall>j. moved c0 cs j \<longrightarrow> j \<le> i) \<and> int (length cs) - 1 - int i = sh_quiet_ticks (heard_run limit c0 cs)))
    \<and> (\<not> sh_heard (heard_run limit c0 cs) \<longrightarrow> (\<forall>i. moved c0 cs i \<longrightarrow> limit \<le> int (length cs) - 1 - int i))"
proof (induction cs rule: rev_induct)
  case Nil
  then show ?case using assms by (simp add: heard_run_def reac_segment_heard_init_def moved_def)
next
  case (snoc c cs)
  let ?h = "heard_run limit c0 cs" and ?h' = "heard_run limit c0 (cs @ [c])"
  have h': "?h' = fst (reac_segment_heard_step ?h c limit)" by (simp add: heard_run_def)
  show ?case
  proof (cases "c = last (c0 # cs)")
    case True
    then have m: "moved c0 (cs @ [c]) i = moved c0 cs i" for i by (simp add: moved_snoc)
    have s: "?h' = (let h = (if sh_quiet_ticks ?h < limit then ?h\<lparr> sh_quiet_ticks := sh_quiet_ticks ?h + 1 \<rparr> else ?h)
        in if sh_quiet_ticks h \<ge> limit then h\<lparr> sh_heard := False \<rparr> else h)"
      using True snoc.IH unfolding h' by (simp add: reac_segment_heard_step_def Let_def)
    show ?thesis
    proof (cases "sh_heard ?h")
      case h: True
      then obtain i where i: "moved c0 cs i" "\<And>j. moved c0 cs j \<Longrightarrow> j \<le> i" "int (length cs) - 1 - int i = sh_quiet_ticks ?h"
        "sh_quiet_ticks ?h < limit" using snoc.IH by blast
      have "sh_heard ?h' \<longleftrightarrow> sh_quiet_ticks ?h + 1 < limit" "sh_quiet_ticks ?h' = sh_quiet_ticks ?h + 1"
        "sh_last_frames ?h' = sh_last_frames ?h" using h i(4) unfolding s by (simp_all add: Let_def)
      then show ?thesis using True snoc.IH i unfolding m by fastforce
    next
      case h: False
      then have "\<not> sh_heard ?h'" "sh_quiet_ticks ?h' \<ge> 0" using snoc.IH unfolding s by (simp_all add: Let_def)
      moreover have "sh_last_frames ?h' = sh_last_frames ?h" unfolding s by (simp add: Let_def)
      ultimately show ?thesis using True snoc.IH h unfolding m by fastforce
    qed
  next
    case False
    have s: "?h' = \<lparr> sh_last_frames = c, sh_quiet_ticks = 0, sh_heard = True \<rparr>"
      using False snoc.IH unfolding h' by (simp add: reac_segment_heard_step_def)
    have "moved c0 (cs @ [c]) (length cs)" "\<And>j. moved c0 (cs @ [c]) j \<Longrightarrow> j \<le> length cs"
      using False by (simp_all add: moved_snoc) (auto simp: moved_def)
    then show ?thesis using assms unfolding s by (intro conjI impI exI [of _ "length cs"]) auto
  qed
qed

section \<open>A reference for the pace watch\<close>

text \<open>The watch as it is meant: it keeps the times of the frames of the window and looks at them when the window
  ends. The frame that opens a window is counted only in the first one.\<close>

datatype pace_event = Pace_Frame u64 | Pace_Reset u64

record pace_ref =
  pr_win :: "u64 list"
  pr_first :: bool
  pr_warned :: "u64 option"

definition gaps :: "u64 list \<Rightarrow> u64 list" where
  "gaps ts = map2 (-) (drop 1 ts) ts"

definition pace_rate :: "bool \<Rightarrow> u64 list \<Rightarrow> int" where
  "pace_rate first ts =
     reac_rate_snap (of_nat (length ts - (if first then 0 else 1)) * 1000000000 / of_nat (unat (last ts - hd ts)))"

definition undisturbed :: "bool \<Rightarrow> u64 list \<Rightarrow> bool" where
  "undisturbed first ts \<longleftrightarrow> 1000 \<le> length ts - (if first then 0 else 1) \<and> list_all (\<lambda>g. g \<le> REAC_PACE_MAX_GAP_NS) (gaps ts)"

fun pace_ref_step :: "int \<Rightarrow> pace_event \<Rightarrow> pace_ref \<Rightarrow> pace_ref \<times> bool" where
  "pace_ref_step rate (Pace_Reset now) r = (r\<lparr> pr_win := [now], pr_first := False \<rparr>, False)"
| "pace_ref_step rate (Pace_Frame now) r =
     (if pr_win r = [] then (r\<lparr> pr_win := [now], pr_first := True \<rparr>, False)
      else let ts = pr_win r @ [now]
           in if now - hd ts < REAC_PACE_WINDOW_NS then (r\<lparr> pr_win := ts \<rparr>, False)
              else let r' = r\<lparr> pr_win := [now], pr_first := False \<rparr>
                   in if \<not> undisturbed (pr_first r) ts then (r', False)
                      else if pace_rate (pr_first r) ts = rate then (r'\<lparr> pr_warned := None \<rparr>, False)
                      else case pr_warned r of
                             Some t \<Rightarrow> if now - t < REAC_PACE_WARN_INTERVAL_NS then (r', False) else (r'\<lparr> pr_warned := Some now \<rparr>, True)
                           | None \<Rightarrow> (r'\<lparr> pr_warned := Some now \<rparr>, True))"

fun pace_step :: "pace_event \<Rightarrow> reac_pace_watch \<Rightarrow> reac_pace_watch \<times> bool" where
  "pace_step (Pace_Reset now) w = (reac_pace_watch_reset w now, False)"
| "pace_step (Pace_Frame now) w = reac_pace_watch_frame w now"

fun event_time :: "pace_event \<Rightarrow> u64" where
  "event_time (Pace_Frame t) = t" | "event_time (Pace_Reset t) = t"

definition pace_sim :: "int \<Rightarrow> nat \<Rightarrow> reac_pace_watch \<Rightarrow> pace_ref \<Rightarrow> bool" where
  "pace_sim rate n w r \<longleftrightarrow> pw_configured_rate w = rate
     \<and> pw_warned_ns w = (case pr_warned r of None \<Rightarrow> 0 | Some t \<Rightarrow> t) \<and> pr_warned r \<noteq> Some 0
     \<and> length (pr_win r) \<le> n
     \<and> (if pr_win r = [] then pw_win_start_ns w = 0
        else pw_win_start_ns w = hd (pr_win r) \<and> hd (pr_win r) \<noteq> 0 \<and> pw_win_last_ns w = last (pr_win r)
          \<and> pw_win_frames w = of_nat (length (pr_win r) - (if pr_first r then 0 else 1))
          \<and> pw_win_max_gap_ns w = foldl max 0 (gaps (pr_win r)))"

lemma gaps_snoc: "ts \<noteq> [] \<Longrightarrow> gaps (ts @ [t]) = gaps ts @ [t - last ts]"
proof (induction ts rule: induct_list012)
  case (3 a b ts)
  then show ?case by (simp add: gaps_def)
qed (simp_all add: gaps_def)

lemma foldl_max_greater: "(foldl max m xs :: 'a :: linorder) > b \<longleftrightarrow> m > b \<or> (\<exists>x \<in> set xs. x > b)"
  by (induction xs arbitrary: m) (auto simp: less_max_iff_disj)

lemma pace_sim_frame:
  assumes s: "pace_sim rate n w r" and t: "t \<noteq> 0" and n: "Suc n < 2 ^ 64"
  shows "pace_sim rate (Suc n) (fst (reac_pace_watch_frame w t)) (fst (pace_ref_step rate (Pace_Frame t) r))
    \<and> snd (reac_pace_watch_frame w t) = snd (pace_ref_step rate (Pace_Frame t) r)"
proof (cases "pr_win r = []")
  case True
  then show ?thesis using s t by (simp add: pace_sim_def reac_pace_watch_frame_def win_open_def gaps_def)
next
  case False
  let ?ts = "pr_win r @ [t]" and ?f = "pr_first r"
  define k where "k = length ?ts - (if ?f then 0 else 1)"
  have c: "pw_configured_rate w = rate" "pw_warned_ns w = (case pr_warned r of None \<Rightarrow> 0 | Some t \<Rightarrow> t)" "pr_warned r \<noteq> Some 0"
    "length (pr_win r) \<le> n" "pw_win_start_ns w = hd (pr_win r)" "hd (pr_win r) \<noteq> 0" "pw_win_last_ns w = last (pr_win r)"
    "pw_win_frames w = of_nat (length (pr_win r) - (if ?f then 0 else 1))" "pw_win_max_gap_ns w = foldl max 0 (gaps (pr_win r))"
    using s False by (simp_all add: pace_sim_def)
  have fr: "pw_win_frames w + 1 = of_nat k"
  proof -
    have "k = Suc (length (pr_win r) - (if ?f then 0 else 1))" using False by (cases "pr_win r") (simp_all add: k_def)
    then show ?thesis using c(8) by simp
  qed
  have "k < 2 ^ 64" using n c(4) by (auto simp: k_def)
  then have uk: "unat (of_nat k :: u64) = k" by (simp add: unat_of_nat take_bit_nat_eq_self)
  have mg: "(if t - pw_win_last_ns w > pw_win_max_gap_ns w then t - pw_win_last_ns w else pw_win_max_gap_ns w) = foldl max 0 (gaps ?ts)"
    using False by (simp add: gaps_snoc c(7,9))
  define w1 where "w1 = w\<lparr> pw_win_max_gap_ns := foldl max 0 (gaps ?ts), pw_win_last_ns := t, pw_win_frames := of_nat k \<rparr>"
  have fw: "reac_pace_watch_frame w t =
      (if t - hd ?ts < REAC_PACE_WINDOW_NS then (w1, False)
       else pace_verdict (win_open w1 t) t (of_nat k) (foldl max 0 (gaps ?ts)) (t - hd ?ts))"
    using False c(5,6) mg unfolding reac_pace_watch_frame_def Let_def w1_def fr [symmetric]
    by (cases "pw_win_max_gap_ns w < t - pw_win_last_ns w") (simp_all add: fr win_open_def)
  have dist: "((of_nat k :: u64) < 1000 \<or> foldl max 0 (gaps ?ts) > REAC_PACE_MAX_GAP_NS) \<longleftrightarrow> \<not> undisturbed ?f ?ts"
  proof -
    have "(of_nat k :: u64) < 1000 \<longleftrightarrow> k < 1000" using uk by (simp add: word_less_nat_alt)
    then show ?thesis unfolding undisturbed_def k_def [symmetric] foldl_max_greater list_all_iff by (auto simp: not_less not_le)
  qed
  have pr: "reac_rate_snap (of_nat (unat (of_nat k :: u64)) * 1000000000 / of_nat (unat (t - hd ?ts))) = pace_rate ?f ?ts"
    unfolding pace_rate_def uk k_def [symmetric] by simp
  let ?w2 = "win_open w1 t"
  show ?thesis
  proof (cases "t - hd ?ts < REAC_PACE_WINDOW_NS")
    case True
    have "pace_sim rate (Suc n) w1 (r\<lparr> pr_win := ?ts \<rparr>)"
      using c False by (simp add: pace_sim_def w1_def k_def)
    then show ?thesis using True False unfolding fw by simp
  next
    case big: False
    have v: "pace_verdict ?w2 t (of_nat k) (foldl max 0 (gaps ?ts)) (t - hd ?ts) =
        (if \<not> undisturbed ?f ?ts then (?w2\<lparr> pw_windows_disturbed := pw_windows_disturbed ?w2 + 1 \<rparr>, False)
         else let w = ?w2\<lparr> pw_observed_rate := pace_rate ?f ?ts \<rparr>
              in if pace_rate ?f ?ts = rate then (w\<lparr> pw_warned_ns := 0 \<rparr>, False)
                 else let w = w\<lparr> pw_windows_bad := pw_windows_bad w + 1 \<rparr>
                      in if pw_warned_ns w \<noteq> 0 \<and> t - pw_warned_ns w < REAC_PACE_WARN_INTERVAL_NS then (w, False)
                         else (w\<lparr> pw_warned_ns := t \<rparr>, True))"
      using dist c(1) unfolding pace_verdict_def pr Let_def by (auto simp: win_open_def w1_def)
    show ?thesis
      using big False c(1-3) t unfolding fw v
      by (cases "pr_warned r") (simp_all add: Let_def pace_sim_def win_open_def w1_def gaps_def)
  qed
qed

lemma pace_sim_step:
  assumes "pace_sim rate n w r" and "event_time e \<noteq> 0" and "Suc n < 2 ^ 64"
  shows "pace_sim rate (Suc n) (fst (pace_step e w)) (fst (pace_ref_step rate e r))" "snd (pace_step e w) = snd (pace_ref_step rate e r)"
proof -
  have "pace_sim rate (Suc n) (fst (pace_step e w)) (fst (pace_ref_step rate e r)) \<and> snd (pace_step e w) = snd (pace_ref_step rate e r)"
  proof (cases e)
    case (Pace_Frame t)
    then show ?thesis using pace_sim_frame [OF assms(1) _ assms(3)] assms(2) by (simp del: pace_ref_step.simps)
  next
    case (Pace_Reset t)
    then show ?thesis using assms by (simp add: pace_sim_def reac_pace_watch_reset_def win_open_def gaps_def)
  qed
  then show "pace_sim rate (Suc n) (fst (pace_step e w)) (fst (pace_ref_step rate e r))" "snd (pace_step e w) = snd (pace_ref_step rate e r)"
    by blast+
qed

lemma pace_sim_trace:
  assumes "pace_sim rate n w r" and "\<forall>e \<in> set es. event_time e \<noteq> 0" and "n + length es < 2 ^ 64"
  shows "snd (trace_of pace_step es w) = snd (trace_of (pace_ref_step rate) es r)"
  using assms
proof (induction es arbitrary: n w r)
  case (Cons e es)
  have e: "event_time e \<noteq> 0" "Suc n < 2 ^ 64" using Cons.prems by simp_all
  note st = pace_sim_step [OF Cons.prems(1) e]
  have "snd (trace_of pace_step es (fst (pace_step e w))) = snd (trace_of (pace_ref_step rate) es (fst (pace_ref_step rate e r)))"
    by (rule Cons.IH [OF st(1)]) (use Cons.prems in simp_all)
  then show ?case using st(2) by (simp add: split_beta Let_def)
qed simp

section \<open>Properties\<close>

text \<open>C37: the pace watch warns exactly when it should. For every sequence of frame arrivals and resets at times that are
  not zero, the watch, which keeps four numbers per window, gives the same warnings as the reference that keeps
  all the arrival times: a warning at the end of a window of at least two seconds that holds at least a thousand
  frames with no gap over five milliseconds and whose packet rate is nearest to another rate than the configured
  one, unless one was given less than thirty seconds ago and no window has agreed since.\<close>

theorem pace_watch_matches_reference:
  assumes "\<forall>e \<in> set es. event_time e \<noteq> 0" and "length es < 2 ^ 64"
  shows "snd (trace_of pace_step es (reac_pace_watch_init rate)) =
    snd (trace_of (pace_ref_step rate) es \<lparr> pr_win = [], pr_first = True, pr_warned = None \<rparr>)"
  by (rule pace_sim_trace [of rate 0]) (use assms in \<open>simp_all add: pace_sim_def reac_pace_watch_init_def\<close>)

theorem pace_watch_matches_reference_witness:
  "snd (trace_of pace_step [Pace_Frame 1, Pace_Reset 5, Pace_Frame 3000000000] (reac_pace_watch_init 96000)) =
    snd (trace_of (pace_ref_step 96000) [Pace_Frame 1, Pace_Reset 5, Pace_Frame 3000000000]
      \<lparr> pr_win = [], pr_first = True, pr_warned = None \<rparr>)"
  by (rule pace_watch_matches_reference) simp_all

text \<open>The claim that a master is heard decays. After any sequence of frame counts the segment counts as heard exactly
  when the count has moved within the last \<open>limit\<close> steps, so a master that went away is no longer claimed once that
  many steps have passed, and a count that never moves never is.\<close>

theorem segment_heard_decays:
  assumes "0 < limit"
  shows "sh_heard (heard_run limit c0 cs) \<longleftrightarrow> (\<exists>i. moved c0 cs i \<and> int (length cs) - int i \<le> limit)"
  using heard_run_inv [OF assms, of c0 cs] by fastforce

theorem segment_heard_decays_witness:
  "sh_heard (heard_run 2 7 [8, 8]) \<and> \<not> sh_heard (heard_run 2 7 [8, 8, 8])"
proof -
  have "moved 7 [8, 8] 0" by (simp add: moved_def)
  then have "\<exists>i. moved 7 [8, 8] i \<and> int (length [8 :: u64, 8]) - int i \<le> 2" by (intro exI [of _ 0]) simp
  moreover have "\<not> (\<exists>i. moved 7 [8, 8, 8] i \<and> int (length [8 :: u64, 8, 8]) - int i \<le> 2)"
    by (auto simp: moved_def less_Suc_eq numeral_eq_Suc)
  ultimately show ?thesis using segment_heard_decays [of 2 7 "[8, 8]"] segment_heard_decays [of 2 7 "[8, 8, 8]"] by simp
qed

end
