(* ===== verification/Reac_Frame_Ring.thy ===== *)
theory Reac_Frame_Ring
  imports Reac_Ring
begin

text \<open>
  The frame ring of the pacer, \<^verbatim>\<open>transport/src/reac_pacer.c\<close>: whole frames from the audio callback to the
  pacing thread, and the depth guard that keeps its latency bounded.

  The slots are one byte list, slot \<open>i\<close> at \<open>i * slot_sz\<close>, with the length of each slot beside it. Indices and
  counts stay 32-bit words and wrap as in the code. Whether \<^verbatim>\<open>calloc\<close> succeeds is an argument of the
  initialisation. A pop returns the bytes it copied out.

  The ring refines a bounded queue of frames, operation by operation.
\<close>

section \<open>The ring\<close>

record reac_frame_ring =
  fr_buf :: bytes
  fr_len :: "u16 list"
  fr_slots :: u32
  fr_mask :: u32
  fr_slot_sz :: u32
  fr_head :: u32
  fr_tail :: u32
  fr_overruns :: u64
  fr_underruns :: u64

definition frame_next_pow2 :: "u32 \<Rightarrow> u32" where
  "frame_next_pow2 v0 =
     (if v0 < 2 then 2
      else let v = v0 - 1;
               v = v OR drop_bit 1 v;
               v = v OR drop_bit 2 v;
               v = v OR drop_bit 4 v;
               v = v OR drop_bit 8 v;
               v = v OR drop_bit 16 v
           in v + 1)"

definition reac_frame_ring_init :: "bool \<Rightarrow> u32 \<Rightarrow> u32 \<Rightarrow> reac_frame_ring option" where
  "reac_frame_ring_init calloc_ok slots slot_sz =
     (let n = frame_next_pow2 slots in
      if \<not> calloc_ok then None
      else Some \<lparr> fr_buf = replicate (unat n * unat slot_sz) 0, fr_len = replicate (unat n) 0,
        fr_slots = n, fr_mask = n - 1, fr_slot_sz = slot_sz, fr_head = 0, fr_tail = 0,
        fr_overruns = 0, fr_underruns = 0 \<rparr>)"

definition reac_frame_ring_readable :: "reac_frame_ring \<Rightarrow> u32" where
  "reac_frame_ring_readable r = (fr_head r - fr_tail r) AND fr_mask r"

definition reac_frame_ring_push :: "reac_frame_ring \<Rightarrow> bytes \<Rightarrow> u16 \<Rightarrow> reac_frame_ring \<times> int" where
  "reac_frame_ring_push r frame n0 =
     (let n = (if ucast n0 > fr_slot_sz r then ucast (fr_slot_sz r) else n0);
          h = fr_head r;
          t = fr_tail r
      in if (h + 1) AND fr_mask r = t AND fr_mask r
         then (r\<lparr> fr_overruns := fr_overruns r + 1 \<rparr>, 0)
         else let slot = h AND fr_mask r in
              (r\<lparr> fr_buf := poke (unat slot * unat (fr_slot_sz r)) (take (unat n) frame) (fr_buf r),
                  fr_len := (fr_len r)[unat slot := n],
                  fr_head := (h + 1) AND fr_mask r \<rparr>, 1))"

definition reac_frame_ring_pop :: "reac_frame_ring \<Rightarrow> reac_frame_ring \<times> u16 \<times> bytes" where
  "reac_frame_ring_pop r =
     (let t = fr_tail r;
          h = fr_head r
      in if t AND fr_mask r = h AND fr_mask r
         then (r\<lparr> fr_underruns := fr_underruns r + 1 \<rparr>, 0, [])
         else let slot = t AND fr_mask r;
                  n = fr_len r ! unat slot
              in (r\<lparr> fr_tail := (t + 1) AND fr_mask r \<rparr>, n,
                  peek (unat slot * unat (fr_slot_sz r)) (unat n) (fr_buf r)))"

section \<open>The depth guard\<close>

abbreviation (input) REAC_PACER_GUARD_FLOOR_FRAMES :: u32 where "REAC_PACER_GUARD_FLOOR_FRAMES \<equiv> 512"
abbreviation (input) REAC_PACER_GUARD_FLOOR_MIN :: u32 where "REAC_PACER_GUARD_FLOOR_MIN \<equiv> 96"
abbreviation (input) REAC_PACER_GUARD_FLOOR_MAX :: u32 where "REAC_PACER_GUARD_FLOOR_MAX \<equiv> 4096"
abbreviation (input) REAC_PACER_GUARD_BURST_MULT :: u32 where "REAC_PACER_GUARD_BURST_MULT \<equiv> 4"

text \<open>The floor is resolved once, from the tunable; later calls answer the kept value.\<close>

definition reac_pacer_guard_floor :: "u32 \<Rightarrow> u32 option \<Rightarrow> u32 \<times> u32 option" where
  "reac_pacer_guard_floor v kept =
     (case kept of
        Some resolved \<Rightarrow> (resolved, kept)
      | None \<Rightarrow>
          let resolved = (if v \<noteq> 0 \<and> v \<ge> REAC_PACER_GUARD_FLOOR_MIN \<and> v \<le> REAC_PACER_GUARD_FLOOR_MAX then v
                          else REAC_PACER_GUARD_FLOOR_FRAMES)
          in (resolved, Some resolved))"

definition reac_pacer_guard_high :: "u32 \<Rightarrow> u32 option \<Rightarrow> u32 \<Rightarrow> u32 \<times> u32 option" where
  "reac_pacer_guard_high v kept quantum_frames =
     (let (fl, kept) = reac_pacer_guard_floor v kept;
          burst = REAC_PACER_GUARD_BURST_MULT * quantum_frames
      in (if burst > fl then burst else fl, kept))"

definition reac_frame_ring_trim_count :: "u32 \<Rightarrow> u32 \<Rightarrow> u32 \<Rightarrow> u32" where
  "reac_frame_ring_trim_count depth high target =
     (if depth \<le> high then 0 else if target \<ge> depth then 0 else depth - target)"

definition reac_frame_ring_trim :: "reac_frame_ring \<Rightarrow> u32 \<Rightarrow> u32 \<Rightarrow> reac_frame_ring \<times> u32" where
  "reac_frame_ring_trim r high target =
     (let depth = reac_frame_ring_readable r;
          n = reac_frame_ring_trim_count depth high target
      in if n = 0 then (r, 0)
         else let t = fr_tail r in (r\<lparr> fr_tail := (t + n) AND fr_mask r \<rparr>, n))"

section \<open>The watch on discards\<close>

abbreviation (input) REAC_PACER_DISCARD_WIN_NS :: u64 where "REAC_PACER_DISCARD_WIN_NS \<equiv> 30000000000"
abbreviation (input) REAC_PACER_DISCARD_WIN_RUN :: u32 where "REAC_PACER_DISCARD_WIN_RUN \<equiv> 3"

record reac_discard_watch =
  dw_win_ns :: u64
  dw_win_frames :: u64
  dw_run :: u32
  dw_warned :: bool

text \<open>The rate reported with the warning is the quotient of the frames dropped and the nanoseconds of the
  window; it stands as that pair.\<close>

definition reac_discard_watch_step ::
    "reac_discard_watch \<Rightarrow> u64 \<Rightarrow> u64 \<Rightarrow> reac_discard_watch \<times> (u64 \<times> u64) option" where
  "reac_discard_watch_step w now trim_frames =
     (if dw_win_ns w = 0 then (w\<lparr> dw_win_ns := now, dw_win_frames := trim_frames \<rparr>, None)
      else if now - dw_win_ns w < REAC_PACER_DISCARD_WIN_NS then (w, None)
      else let dropped = trim_frames - dw_win_frames w;
               ns = now - dw_win_ns w;
               (w, warn) =
                 (if dropped \<noteq> 0
                  then let w = w\<lparr> dw_run := dw_run w + 1 \<rparr> in
                       if dw_run w \<ge> REAC_PACER_DISCARD_WIN_RUN \<and> \<not> dw_warned w
                       then (w\<lparr> dw_warned := True \<rparr>, Some (dropped, ns))
                       else (w, None)
                  else (w\<lparr> dw_run := 0 \<rparr>, None))
           in (w\<lparr> dw_win_ns := now, dw_win_frames := trim_frames \<rparr>, warn))"

section \<open>The bounded queue of frames\<close>

lemma frame_next_pow2_eq: "frame_next_pow2 = next_pow2"
  by (rule ext) (simp only: frame_next_pow2_def next_pow2_def)

text \<open>The frames waiting, oldest first, and the two statistics.\<close>

type_synonym frame_fifo = "bytes list \<times> u64 \<times> u64"

datatype frame_op = Frame_Push bytes u16 | Frame_Pop | Frame_Trim u32 u32

fun fifo_step :: "nat \<Rightarrow> nat \<Rightarrow> frame_op \<Rightarrow> frame_fifo \<Rightarrow> frame_fifo \<times> nat \<times> bytes" where
  "fifo_step bound sz (Frame_Push frame n) (q, und, ovr) =
     (if length q = bound then ((q, und, ovr + 1), 0, [])
      else ((q @ [take (min (unat n) sz) frame], und, ovr), 1, []))"
| "fifo_step bound sz Frame_Pop (q, und, ovr) =
     (case q of [] \<Rightarrow> (([], und + 1, ovr), 0, [])
      | f # q' \<Rightarrow> ((q', und, ovr), length f, f))"
| "fifo_step bound sz (Frame_Trim high target) (q, und, ovr) =
     (let n = (if length q \<le> unat high then 0 else length q - unat target)
      in ((drop n q, und, ovr), n, []))"

fun frame_ring_step :: "frame_op \<Rightarrow> reac_frame_ring \<Rightarrow> reac_frame_ring \<times> nat \<times> bytes" where
  "frame_ring_step (Frame_Push frame n) r = (let (r', ok) = reac_frame_ring_push r frame n in (r', nat ok, []))"
| "frame_ring_step Frame_Pop r = (let (r', n, out) = reac_frame_ring_pop r in (r', unat n, out))"
| "frame_ring_step (Frame_Trim high target) r = (let (r', n) = reac_frame_ring_trim r high target in (r', unat n, []))"

fun frame_op_ok :: "frame_op \<Rightarrow> bool" where
  "frame_op_ok (Frame_Push frame n) \<longleftrightarrow> unat n \<le> length frame"
| "frame_op_ok _ \<longleftrightarrow> True"

definition slot_frame :: "reac_frame_ring \<Rightarrow> nat \<Rightarrow> bytes" where
  "slot_frame r p = peek (p * unat (fr_slot_sz r)) (unat (fr_len r ! p)) (fr_buf r)"

definition frame_ring_abs :: "reac_frame_ring \<Rightarrow> frame_fifo" where
  "frame_ring_abs r =
     (map (\<lambda>i. slot_frame r ((unat (fr_tail r) + i) mod unat (fr_slots r))) [0..<unat (reac_frame_ring_readable r)],
      fr_underruns r, fr_overruns r)"

definition frame_ring_inv :: "nat \<Rightarrow> nat \<Rightarrow> reac_frame_ring \<Rightarrow> bool" where
  "frame_ring_inv k sz r \<longleftrightarrow>
     1 \<le> k \<and> k \<le> 31 \<and> fr_slots r = 2 ^ k \<and> fr_mask r = 2 ^ k - 1 \<and> unat (fr_slot_sz r) = sz \<and>
     length (fr_buf r) = 2 ^ k * sz \<and> length (fr_len r) = 2 ^ k \<and>
     unat (fr_head r) < 2 ^ k \<and> unat (fr_tail r) < 2 ^ k \<and>
     (\<forall>p < 2 ^ k. unat (fr_len r ! p) \<le> sz)"

lemma frame_ring_invD:
  assumes "frame_ring_inv k sz r"
  shows "unat (fr_slots r) = 2 ^ k"
    and "unat (reac_frame_ring_readable r) = ring_dist (2 ^ k) (unat (fr_tail r)) (unat (fr_head r))"
    and "unat (fr_head r AND fr_mask r) = unat (fr_head r)"
    and "unat (fr_tail r AND fr_mask r) = unat (fr_tail r)"
    and "unat ((fr_head r + w) AND fr_mask r) = (unat (fr_head r) + unat w) mod 2 ^ k"
    and "unat ((fr_tail r + w) AND fr_mask r) = (unat (fr_tail r) + unat w) mod 2 ^ k"
  using assms unat_pow_word [of k] unat_masked_diff [of k "fr_tail r" "fr_head r"]
    unat_masked_add [of k "fr_head r" w] unat_masked_add [of k "fr_tail r" w]
  by (simp_all add: frame_ring_inv_def reac_frame_ring_readable_def ring_dist_def unat_masked)

text \<open>A slot written does not disturb the others, and reads back what was put there.\<close>

lemma slot_disjoint:
  assumes "p \<noteq> (q :: nat)"
  shows "p * sz + sz \<le> q * sz \<or> q * sz + sz \<le> p * sz"
proof -
  have "Suc p \<le> q \<or> Suc q \<le> p" using assms by linarith
  then show ?thesis using mult_le_mono1 [of "Suc p" q sz] mult_le_mono1 [of "Suc q" p sz] by auto
qed

lemma slot_within:
  assumes "frame_ring_inv k sz r" and "p < 2 ^ k" and "n \<le> sz"
  shows "p * sz + n \<le> length (fr_buf r)"
  using assms mult_le_mono1 [of "Suc p" "2 ^ k" sz] by (simp add: frame_ring_inv_def)

lemma slot_frame_store:
  assumes inv: "frame_ring_inv k sz r" and "p < 2 ^ k" and "q < 2 ^ k"
    and "unat n = length f" and "length f \<le> sz"
    and r': "r' = r\<lparr> fr_buf := poke (p * sz) f (fr_buf r), fr_len := (fr_len r)[p := n], fr_head := h' \<rparr>"
  shows "slot_frame r' q = (if q = p then f else slot_frame r q)"
proof (cases "q = p")
  case True
  then show ?thesis using assms slot_within [OF inv assms(2,5)] peek_poke_same [of "p * sz" f "fr_buf r"]
    by (simp add: slot_frame_def frame_ring_inv_def)
next
  case False
  have "unat (fr_len r ! q) \<le> sz" using inv assms(3) by (simp add: frame_ring_inv_def)
  then have "peek (q * sz) (unat (fr_len r ! q)) (poke (p * sz) f (fr_buf r)) = peek (q * sz) (unat (fr_len r ! q)) (fr_buf r)"
    using slot_within [OF inv assms(2,5)] slot_within [OF inv assms(3)] assms(5) slot_disjoint [OF False, of sz]
    by (intro peek_poke_other) auto
  then show ?thesis using False inv by (simp add: slot_frame_def r' frame_ring_inv_def)
qed

lemma fifo_length:
  "frame_ring_inv k sz r \<Longrightarrow>
     length (fst (frame_ring_abs r)) = ring_dist (2 ^ k) (unat (fr_tail r)) (unat (fr_head r))"
  by (simp add: frame_ring_abs_def frame_ring_invD(2))

lemma frame_ring_abs_eq:
  assumes "frame_ring_inv k sz r"
  shows "frame_ring_abs r =
     (map (\<lambda>i. slot_frame r ((unat (fr_tail r) + i) mod 2 ^ k))
        [0..<ring_dist (2 ^ k) (unat (fr_tail r)) (unat (fr_head r))], fr_underruns r, fr_overruns r)"
  using assms by (simp add: frame_ring_abs_def frame_ring_invD(1) frame_ring_invD(2))

text \<open>The ring is full when its head is one slot behind its tail.\<close>

lemma ring_full_iff:
  assumes "h < K" and "t < K" and "0 < K"
  shows "(h + 1) mod K = t \<longleftrightarrow> ring_dist K t h = K - (1 :: nat)"
  using assms by (cases "Suc h = K") (auto simp: ring_dist_if)

lemma push_full_iff:
  assumes "frame_ring_inv k sz r"
  shows "(fr_head r + 1) AND fr_mask r = fr_tail r AND fr_mask r \<longleftrightarrow>
           ring_dist (2 ^ k) (unat (fr_tail r)) (unat (fr_head r)) = 2 ^ k - 1"
proof -
  have "(fr_head r + 1) AND fr_mask r = fr_tail r AND fr_mask r \<longleftrightarrow>
          (unat (fr_head r) + 1) mod 2 ^ k = unat (fr_tail r)"
    using frame_ring_invD(4,5) [OF assms] by (simp add: word_unat_eq_iff)
  also have "\<dots> \<longleftrightarrow> ring_dist (2 ^ k) (unat (fr_tail r)) (unat (fr_head r)) = 2 ^ k - 1"
    using assms by (intro ring_full_iff) (simp_all add: frame_ring_inv_def)
  finally show ?thesis .
qed

text \<open>The length stored is the smaller of the argument and the slot size.\<close>

definition push_len :: "reac_frame_ring \<Rightarrow> u16 \<Rightarrow> u16" where
  "push_len r n = (if ucast n > fr_slot_sz r then ucast (fr_slot_sz r) else n)"

lemma unat_push_len: "unat (push_len r n) = min (unat n) (unat (fr_slot_sz r))"
proof -
  have "unat n < 2 ^ 32" using unsigned_less [of n, where ?'a = nat] by simp
  then have un16: "unat (ucast n :: u32) = unat n"
    using take_bit_nat_eq_self [of "unat n" 32] by (simp add: unsigned_ucast_eq)
  show ?thesis
  proof (cases "ucast n > fr_slot_sz r")
    case True
    then have lt: "unat (fr_slot_sz r) < unat n" by (simp add: word_less_nat_alt un16)
    then have "unat (fr_slot_sz r) < 2 ^ 16" using unsigned_less [of n, where ?'a = nat] by simp
    then show ?thesis using True lt
      by (simp add: push_len_def unsigned_ucast_eq take_bit_nat_eq_self)
  next
    case False
    then have "unat n \<le> unat (fr_slot_sz r)" by (simp add: word_less_nat_alt un16)
    then show ?thesis using False by (simp add: push_len_def)
  qed
qed

text \<open>Storing a frame in the slot at the head of a ring with room appends it.\<close>

lemma store_appends:
  assumes inv: "frame_ring_inv k sz r"
    and room: "ring_dist (2 ^ k) (unat (fr_tail r)) (unat (fr_head r)) \<noteq> 2 ^ k - 1"
    and n: "unat n = length f" and f: "length f \<le> sz"
    and r': "r' = r\<lparr> fr_buf := poke (unat (fr_head r) * sz) f (fr_buf r),
        fr_len := (fr_len r)[unat (fr_head r) := n], fr_head := (fr_head r + 1) AND fr_mask r \<rparr>"
  shows "frame_ring_inv k sz r'"
    and "frame_ring_abs r' = (fst (frame_ring_abs r) @ [f], fr_underruns r, fr_overruns r)"
proof -
  let ?t = "unat (fr_tail r)" and ?h = "unat (fr_head r)"
  let ?d = "ring_dist (2 ^ k) ?t ?h"
  have bnd: "?h < 2 ^ k" "?t < 2 ^ k" using inv by (simp_all add: frame_ring_inv_def)
  have h': "unat (fr_head r') = (?h + 1) mod 2 ^ k"
    using frame_ring_invD(5) [OF inv, of 1] by (simp add: r')
  have "length (fr_buf r') = 2 ^ k * sz"
    using inv slot_within [OF inv bnd(1) f] by (simp add: r' frame_ring_inv_def)
  moreover have "unat (fr_len r' ! p) \<le> sz" if "p < 2 ^ k" for p
    using that inv n f by (simp add: r' frame_ring_inv_def nth_list_update)
  ultimately show inv': "frame_ring_inv k sz r'"
    using inv h' by (simp add: frame_ring_inv_def r')
  have lt: "?d + 1 < 2 ^ k" using room ring_dist_less [of "2 ^ k" ?t ?h] by simp
  have d': "ring_dist (2 ^ k) ?t (unat (fr_head r')) = Suc ?d"
    using ring_dist_extend [OF bnd(2,1) lt] h' by simp
  have t': "fr_tail r' = fr_tail r" "fr_underruns r' = fr_underruns r" "fr_overruns r' = fr_overruns r"
    by (simp_all add: r')
  have st: "slot_frame r' q = (if q = ?h then f else slot_frame r q)" if "q < 2 ^ k" for q
    by (rule slot_frame_store [OF inv bnd(1) that n f r'])
  have "(?t + i) mod 2 ^ k \<noteq> ?h" if "i < ?d" for i
  proof
    assume "(?t + i) mod 2 ^ k = ?h"
    moreover have "i < 2 ^ k" using that lt by simp
    ultimately show False using ring_dist_add [OF bnd(2), of i] that by simp
  qed
  moreover have "(?t + ?d) mod 2 ^ k = ?h" using ring_dist_reach [OF bnd(2,1), of 0] bnd(1) by simp
  ultimately show "frame_ring_abs r' = (fst (frame_ring_abs r) @ [f], fr_underruns r, fr_overruns r)"
    by (simp add: frame_ring_abs_eq [OF inv] frame_ring_abs_eq [OF inv'] d' t' st)
qed

lemma push_refines:
  assumes inv: "frame_ring_inv k sz r" and ok: "unat n \<le> length frame"
    and p: "reac_frame_ring_push r frame n = (r', res)"
  shows "frame_ring_inv k sz r' \<and>
    fifo_step (2 ^ k - 1) sz (Frame_Push frame n) (frame_ring_abs r) = (frame_ring_abs r', nat res, [])"
proof (cases "ring_dist (2 ^ k) (unat (fr_tail r)) (unat (fr_head r)) = 2 ^ k - 1")
  case True
  then have "r' = r\<lparr> fr_overruns := fr_overruns r + 1 \<rparr>" "res = 0"
    using p push_full_iff [OF inv] by (simp_all add: reac_frame_ring_push_def Let_def)
  moreover from this have "frame_ring_inv k sz r'" using inv by (simp add: frame_ring_inv_def)
  ultimately show ?thesis using True
    by (simp add: frame_ring_abs_eq [OF inv] frame_ring_abs_eq slot_frame_def)
next
  case False
  define f where "f = take (unat (push_len r n)) frame"
  have sz: "unat (fr_slot_sz r) = sz" using inv by (simp add: frame_ring_inv_def)
  have f: "unat (push_len r n) = length f" "length f \<le> sz" "f = take (min (unat n) sz) frame"
    using ok sz by (simp_all add: f_def unat_push_len)
  have r': "r' = r\<lparr> fr_buf := poke (unat (fr_head r) * sz) f (fr_buf r),
      fr_len := (fr_len r)[unat (fr_head r) := push_len r n], fr_head := (fr_head r + 1) AND fr_mask r \<rparr>"
    and res: "res = 1"
    using False p push_full_iff [OF inv] sz frame_ring_invD(3) [OF inv]
    by (simp_all add: reac_frame_ring_push_def Let_def push_len_def f_def)
  show ?thesis using store_appends [OF inv False f(1,2) r'] False res
    by (simp add: frame_ring_abs_eq [OF inv] f(3))
qed

text \<open>Moving the tail on by \<open>j\<close> readable slots drops the \<open>j\<close> oldest frames.\<close>

lemma tail_advance:
  assumes inv: "frame_ring_inv k sz r"
    and j: "unat w \<le> ring_dist (2 ^ k) (unat (fr_tail r)) (unat (fr_head r))"
    and r': "r' = r\<lparr> fr_tail := (fr_tail r + w) AND fr_mask r \<rparr>"
  shows "frame_ring_inv k sz r'"
    and "frame_ring_abs r' = (drop (unat w) (fst (frame_ring_abs r)), fr_underruns r, fr_overruns r)"
proof -
  let ?t = "unat (fr_tail r)" and ?h = "unat (fr_head r)"
  have bnd: "?h < 2 ^ k" "?t < 2 ^ k" using inv by (simp_all add: frame_ring_inv_def)
  have t': "unat (fr_tail r') = (?t + unat w) mod 2 ^ k"
    using frame_ring_invD(6) [OF inv, of w] by (simp add: r')
  show inv': "frame_ring_inv k sz r'"
    using inv t' by (simp add: frame_ring_inv_def r')
  have "ring_dist (2 ^ k) ((?t + unat w) mod 2 ^ k) ?h = ring_dist (2 ^ k) ?t ?h - unat w"
    by (rule ring_dist_shrink [OF bnd(2,1) j])
  moreover have "((?t + unat w) mod 2 ^ k + i) mod 2 ^ k = (?t + (unat w + i)) mod 2 ^ k" for i
    by (simp add: mod_simps add.assoc)
  moreover have "fr_head r' = fr_head r" "slot_frame r' p = slot_frame r p"
    "fr_underruns r' = fr_underruns r" "fr_overruns r' = fr_overruns r" for p
    by (simp_all add: r' slot_frame_def)
  ultimately show "frame_ring_abs r' = (drop (unat w) (fst (frame_ring_abs r)), fr_underruns r, fr_overruns r)"
    by (auto simp: frame_ring_abs_eq [OF inv] frame_ring_abs_eq [OF inv'] t' drop_map intro!: nth_equalityI)
qed

lemma pop_refines:
  assumes inv: "frame_ring_inv k sz r" and p: "reac_frame_ring_pop r = (r', n, out)"
  shows "frame_ring_inv k sz r'"
    and "fifo_step (2 ^ k - 1) sz Frame_Pop (frame_ring_abs r) = (frame_ring_abs r', unat n, out)"
proof -
  let ?t = "unat (fr_tail r)" and ?h = "unat (fr_head r)"
  have bnd: "?h < 2 ^ k" "?t < 2 ^ k" and sz: "unat (fr_slot_sz r) = sz"
    using inv by (simp_all add: frame_ring_inv_def)
  have emp: "fr_tail r AND fr_mask r = fr_head r AND fr_mask r \<longleftrightarrow> ?t = ?h"
    using frame_ring_invD(3,4) [OF inv] by (simp add: word_unat_eq_iff)
  have both: "frame_ring_inv k sz r' \<and>
    fifo_step (2 ^ k - 1) sz Frame_Pop (frame_ring_abs r) = (frame_ring_abs r', unat n, out)"
  proof (cases "?t = ?h")
    case True
    then have r': "r' = r\<lparr> fr_underruns := fr_underruns r + 1 \<rparr>" "n = 0" "out = []"
      using p emp by (simp_all add: reac_frame_ring_pop_def)
    then have "frame_ring_inv k sz r'" using inv by (simp add: frame_ring_inv_def)
    then show ?thesis using True r' bnd by (simp add: frame_ring_abs_eq [OF inv] frame_ring_abs_eq)
  next
    case False
    then have r': "r' = r\<lparr> fr_tail := (fr_tail r + 1) AND fr_mask r \<rparr>"
      and n: "n = fr_len r ! ?t" and out: "out = slot_frame r ?t"
      using p emp frame_ring_invD(4) [OF inv] sz
      by (auto simp: reac_frame_ring_pop_def Let_def slot_frame_def)
    have d: "0 < ring_dist (2 ^ k) ?t ?h" using ring_dist_eq_0 [OF bnd(2,1)] False by auto
    then have j: "unat (1 :: u32) \<le> ring_dist (2 ^ k) ?t ?h" by simp
    have "unat n \<le> sz" using inv bnd n by (simp add: frame_ring_inv_def)
    then have "length out = unat n"
      using slot_within [OF inv bnd(2), of "unat n"] n out sz by (simp add: slot_frame_def)
    moreover have "fst (frame_ring_abs r) = slot_frame r ?t # drop 1 (fst (frame_ring_abs r))"
      using d bnd by (simp add: frame_ring_abs_eq [OF inv] upt_rec drop_map)
    moreover have "snd (frame_ring_abs r) = (fr_underruns r, fr_overruns r)" by (simp add: frame_ring_abs_def)
    ultimately have "fifo_step (2 ^ k - 1) sz Frame_Pop (frame_ring_abs r) =
        ((drop 1 (fst (frame_ring_abs r)), fr_underruns r, fr_overruns r), unat n, out)"
      using out by (cases "frame_ring_abs r" rule: prod_cases3) (auto split: list.splits)
    then show ?thesis using tail_advance [OF inv j r'] by simp
  qed
  then show "frame_ring_inv k sz r'"
    and "fifo_step (2 ^ k - 1) sz Frame_Pop (frame_ring_abs r) = (frame_ring_abs r', unat n, out)"
    by blast+
qed

lemma trim_refines:
  assumes inv: "frame_ring_inv k sz r" and p: "reac_frame_ring_trim r high target = (r', n)"
  shows "frame_ring_inv k sz r'"
    and "fifo_step (2 ^ k - 1) sz (Frame_Trim high target) (frame_ring_abs r) = (frame_ring_abs r', unat n, [])"
proof -
  let ?dep = "reac_frame_ring_readable r"
  define w where "w = reac_frame_ring_trim_count ?dep high target"
  have d: "unat ?dep = ring_dist (2 ^ k) (unat (fr_tail r)) (unat (fr_head r))"
    by (rule frame_ring_invD(2) [OF inv])
  have l: "length (fst (frame_ring_abs r)) = unat ?dep" by (simp add: frame_ring_abs_def)
  have w: "unat w = (if unat ?dep \<le> unat high then 0 else unat ?dep - unat target)"
    by (auto simp: w_def reac_frame_ring_trim_count_def word_le_nat_alt unat_sub_if')
  then have j: "unat w \<le> ring_dist (2 ^ k) (unat (fr_tail r)) (unat (fr_head r))" using d by simp
  define r2 where "r2 = r\<lparr> fr_tail := (fr_tail r + w) AND fr_mask r \<rparr>"
  have n: "n = w" using p by (simp add: reac_frame_ring_trim_def Let_def w_def split: if_splits)
  have r': "r' = (if w = 0 then r else r2)"
    using p by (auto simp: reac_frame_ring_trim_def Let_def w_def r2_def split: if_splits)
  have s: "snd (frame_ring_abs r) = (fr_underruns r, fr_overruns r)" by (simp add: frame_ring_abs_def)
  have e: "frame_ring_inv k sz r' \<and>
      frame_ring_abs r' = (drop (unat w) (fst (frame_ring_abs r)), fr_underruns r, fr_overruns r)"
    using tail_advance [OF inv j r2_def] inv r' s by (cases "w = 0") (auto simp: prod_eq_iff)
  then show "frame_ring_inv k sz r'" by blast
  show "fifo_step (2 ^ k - 1) sz (Frame_Trim high target) (frame_ring_abs r) = (frame_ring_abs r', unat n, [])"
    using e l s w n by (cases "frame_ring_abs r" rule: prod_cases3) (simp add: Let_def)
qed

interpretation frame_ring: data_refinement "frame_ring_inv k sz" frame_ring_abs frame_ring_step
    "fifo_step (2 ^ k - 1) sz" frame_op_ok
proof unfold_locales
  fix r q assume a: "frame_ring_inv k sz r" "frame_op_ok q"
  show "frame_ring_inv k sz (fst (frame_ring_step q r))"
    using a push_refines [OF a(1)] pop_refines(1) [OF a(1)] trim_refines(1) [OF a(1)]
    by (cases q) (auto split: prod.splits)
  show "fifo_step (2 ^ k - 1) sz q (frame_ring_abs r) = (frame_ring_abs (fst (frame_ring_step q r)), snd (frame_ring_step q r))"
    using a push_refines [OF a(1)] pop_refines(2) [OF a(1)] trim_refines(2) [OF a(1)]
    by (cases q) (auto split: prod.splits)
qed

lemma frame_ring_init_ok:
  assumes "reac_frame_ring_init True slots slot_sz = Some r" and "unat slots \<le> 2 ^ 31"
  obtains k where "frame_ring_inv k (unat slot_sz) r" and "unat slots \<le> 2 ^ k"
    and "frame_ring_abs r = ([], 0, 0)"
proof -
  have ex: "\<exists>k. next_pow2 slots = 2 ^ k \<and> 1 \<le> k \<and> k \<le> 31 \<and> unat slots \<le> 2 ^ k"
  proof (cases "slots = 0")
    case True
    then show ?thesis by (intro exI [of _ 1]) (simp add: next_pow2_def)
  next
    case False
    then show ?thesis using assms(2) by (cases rule: next_pow2_cases) auto
  qed
  then obtain k where k: "next_pow2 slots = 2 ^ k" "1 \<le> k" "k \<le> 31" "unat slots \<le> 2 ^ k" by blast
  then have "frame_ring_inv k (unat slot_sz) r"
    using assms(1) unat_pow_word [of k]
    by (auto simp: reac_frame_ring_init_def Let_def frame_ring_inv_def frame_next_pow2_eq)
  moreover have "frame_ring_abs r = ([], 0, 0)"
    using assms(1) by (auto simp: reac_frame_ring_init_def Let_def frame_ring_abs_def reac_frame_ring_readable_def)
  ultimately show ?thesis using that k by blast
qed

text \<open>C16: The frame ring is a bounded first-in first-out queue. From its initialisation, whatever pushes, pops
  and trims follow, every answer (accepted or refused, the length and the bytes popped, the number of frames
  trimmed) and both statistics are those of a queue of at most \<open>2 ^ k - 1\<close> frames, each cut at the slot size.\<close>

theorem frame_ring_refines_fifo:
  assumes "reac_frame_ring_init True slots slot_sz = Some r" and "unat slots \<le> 2 ^ 31"
    and "list_all frame_op_ok ops"
  shows "\<exists>k. unat slots \<le> 2 ^ k \<and>
    trace_of (fifo_step (2 ^ k - 1) (unat slot_sz)) ops ([], 0, 0) =
      (frame_ring_abs (fst (trace_of frame_ring_step ops r)), snd (trace_of frame_ring_step ops r))"
proof -
  obtain k where k: "frame_ring_inv k (unat slot_sz) r" "unat slots \<le> 2 ^ k" "frame_ring_abs r = ([], 0, 0)"
    using frame_ring_init_ok [OF assms(1,2)] .
  show ?thesis using frame_ring.sim_trace [OF k(1) assms(3)] k(2,3) by (intro exI [of _ k]) simp
qed

theorem frame_ring_refines_fifo_witness:
  "\<exists>k. unat (2 :: u32) \<le> 2 ^ k \<and>
    trace_of (fifo_step (2 ^ k - 1) (unat (3 :: u32)))
      [Frame_Push [1, 2, 3, 4] 4, Frame_Push [9] 1, Frame_Pop, Frame_Pop] ([], 0, 0) =
      (frame_ring_abs (fst (trace_of frame_ring_step
         [Frame_Push [1, 2, 3, 4] 4, Frame_Push [9] 1, Frame_Pop, Frame_Pop] (the (reac_frame_ring_init True 2 3)))),
       snd (trace_of frame_ring_step
         [Frame_Push [1, 2, 3, 4] 4, Frame_Push [9] 1, Frame_Pop, Frame_Pop] (the (reac_frame_ring_init True 2 3))))"
proof (rule frame_ring_refines_fifo)
  show "reac_frame_ring_init True 2 3 = Some (the (reac_frame_ring_init True 2 3))"
    by (simp add: reac_frame_ring_init_def Let_def)
qed simp_all

section \<open>When the watch warns\<close>

text \<open>The verdict on a window that a call closes: whether frames were discarded in it.\<close>

definition window_verdict :: "reac_discard_watch \<Rightarrow> u64 \<Rightarrow> u64 \<Rightarrow> bool option" where
  "window_verdict w now trim_frames =
     (if dw_win_ns w = 0 \<or> now - dw_win_ns w < REAC_PACER_DISCARD_WIN_NS then None
      else Some (trim_frames \<noteq> dw_win_frames w))"

text \<open>A run of calls, with the verdicts so far and how many windows were closed at each warning.\<close>

fun discard_call :: "reac_discard_watch \<times> bool list \<times> nat list \<Rightarrow> u64 \<times> u64 \<Rightarrow> reac_discard_watch \<times> bool list \<times> nat list" where
  "discard_call (w, log, warns) (now, trim_frames) =
     (let log' = log @ (case window_verdict w now trim_frames of None \<Rightarrow> [] | Some v \<Rightarrow> [v]);
          (w', warn) = reac_discard_watch_step w now trim_frames
      in (w', log', warns @ (case warn of None \<Rightarrow> [] | Some _ \<Rightarrow> [length log'])))"

definition third_in_a_row :: "bool list \<Rightarrow> nat \<Rightarrow> bool" where
  "third_in_a_row log n \<longleftrightarrow> 3 \<le> n \<and> n \<le> length log \<and> log ! (n - 1) \<and> log ! (n - 2) \<and> log ! (n - 3)"

definition trailing :: "bool list \<Rightarrow> nat" where
  "trailing log = length (takeWhile id (rev log))"

lemma trailing_snoc [simp]: "trailing (log @ [v]) = (if v then Suc (trailing log) else 0)"
  by (simp add: trailing_def)

lemma trailing_third: "3 \<le> trailing log \<longleftrightarrow> third_in_a_row log (length log)"
proof (cases log rule: rev_exhaust)
  case (snoc l1 c)
  show ?thesis
  proof (cases l1 rule: rev_exhaust)
    case (snoc l2 b)
    show ?thesis
      by (cases l2 rule: rev_exhaust)
        (auto simp: \<open>log = l1 @ [c]\<close> snoc third_in_a_row_def nth_append trailing_def)
  qed (auto simp: snoc third_in_a_row_def trailing_def)
qed (simp add: third_in_a_row_def trailing_def)

lemma third_append: "n \<le> length log \<Longrightarrow> third_in_a_row (log @ xs) n = third_in_a_row log n"
  by (auto simp: third_in_a_row_def nth_append)

definition discard_inv :: "reac_discard_watch \<times> bool list \<times> nat list \<Rightarrow> bool" where
  "discard_inv s = (case s of (w, log, warns) \<Rightarrow>
     if dw_warned w
     then \<exists>n. warns = [n] \<and> third_in_a_row log n \<and> (\<forall>m < n. \<not> third_in_a_row log m)
     else warns = [] \<and> unat (dw_run w) = trailing log \<and> trailing log < 3 \<and> (\<forall>m. \<not> third_in_a_row log m))"

lemma third_snoc:
  "third_in_a_row (log @ [v]) m \<longleftrightarrow>
     (if m = Suc (length log) then 3 \<le> trailing (log @ [v]) else third_in_a_row log m)"
proof (cases "m = Suc (length log)")
  case True
  then show ?thesis using trailing_third [of "log @ [v]"] by simp
next
  case False
  show ?thesis
  proof (cases "m \<le> length log")
    case True
    then show ?thesis using third_append [OF True, of "[v]"] by simp
  qed (use False in \<open>auto simp: third_in_a_row_def\<close>)
qed

lemma discard_inv_step:
  assumes "discard_inv (w, log, warns)"
  shows "discard_inv (discard_call (w, log, warns) (now, trim_frames))"
proof (cases "window_verdict w now trim_frames")
  case None
  then show ?thesis
    using assms by (auto simp: window_verdict_def reac_discard_watch_step_def discard_inv_def split: if_splits)
next
  case (Some v)
  then have open_win: "dw_win_ns w \<noteq> 0" "\<not> now - dw_win_ns w < REAC_PACER_DISCARD_WIN_NS"
    and v: "v \<longleftrightarrow> trim_frames - dw_win_frames w \<noteq> 0"
    by (auto simp: window_verdict_def split: if_splits)
  show ?thesis
  proof (cases "dw_warned w")
    case True
    then obtain n where n: "warns = [n]" "third_in_a_row log n" "\<forall>m < n. \<not> third_in_a_row log m"
      using assms by (auto simp: discard_inv_def)
    then have "n \<le> length log" by (simp add: third_in_a_row_def)
    then show ?thesis using True n open_win Some
      by (auto simp: discard_inv_def reac_discard_watch_step_def Let_def third_snoc)
  next
    case False
    then have i: "warns = []" "unat (dw_run w) = trailing log" "trailing log < 3" "\<forall>m. \<not> third_in_a_row log m"
      using assms by (auto simp: discard_inv_def)
    have r: "unat (dw_run w + 1) = Suc (trailing log)" using i by (simp add: unat_word_ariths)
    then have ge: "dw_run w + 1 \<ge> REAC_PACER_DISCARD_WIN_RUN \<longleftrightarrow> 3 \<le> Suc (trailing log)"
      by (simp add: word_le_nat_alt)
    show ?thesis using False i open_win Some v r ge
      by (auto simp: discard_inv_def reac_discard_watch_step_def Let_def third_snoc)
  qed
qed

text \<open>The discard watch warns once, at the right moment. Whatever the calls, a watch that starts cleared
  warns at the first call that closes the third window in a row (each at least 30 seconds long) in which the
  depth guard discarded frames, never before, and never again after; a run with no such three windows stays
  silent.\<close>

theorem discard_watch_warns_once:
  "(case foldl discard_call (\<lparr> dw_win_ns = 0, dw_win_frames = 0, dw_run = 0, dw_warned = False \<rparr>, [], []) calls of
      (w, log, warns) \<Rightarrow>
        warns = (case List.find (third_in_a_row log) [0..<Suc (length log)] of None \<Rightarrow> [] | Some n \<Rightarrow> [n]))"
proof -
  let ?s = "foldl discard_call (\<lparr> dw_win_ns = 0, dw_win_frames = 0, dw_run = 0, dw_warned = False \<rparr>, [], []) calls"
  have "discard_inv ?s"
  proof (induction calls rule: rev_induct)
    case Nil
    show ?case by (simp add: discard_inv_def trailing_def third_in_a_row_def)
  next
    case (snoc c calls)
    then show ?case by (cases c; cases "foldl discard_call (\<lparr> dw_win_ns = 0, dw_win_frames = 0, dw_run = 0, dw_warned = False \<rparr>, [], []) calls" rule: prod_cases3)
        (simp only: foldl_append foldl_Cons foldl_Nil discard_inv_step)
  qed
  moreover obtain w log warns where s: "?s = (w, log, warns)" by (cases ?s rule: prod_cases3)
  ultimately have i: "discard_inv (w, log, warns)" by simp
  have "warns = (case List.find (third_in_a_row log) [0..<Suc (length log)] of None \<Rightarrow> [] | Some n \<Rightarrow> [n])"
  proof (cases "List.find (third_in_a_row log) [0..<Suc (length log)]")
    case None
    then have "\<not> third_in_a_row log m" for m
      by (auto simp: find_None_iff third_in_a_row_def)
    then show ?thesis using None i by (auto simp: discard_inv_def split: if_splits)
  next
    case (Some n)
    then have n: "third_in_a_row log n" "\<forall>m < n. \<not> third_in_a_row log m"
      using find_upt_least [OF Some] by auto
    then obtain n' where n': "warns = [n']" "third_in_a_row log n'" "\<forall>m < n'. \<not> third_in_a_row log m"
      using i by (auto simp: discard_inv_def split: if_splits)
    then have "n' = n" using n by (metis linorder_neqE_nat)
    then show ?thesis using Some n' by simp
  qed
  then show ?thesis by (simp add: s)
qed

end
