(* ===== verification/Reac_Pacer.thy ===== *)
theory Reac_Pacer
  imports Reac_Master_Run Reac_Disco Reac_Clock Reac_Arbitration Reac_Macaddr Reac_Box_Model Reac_Frame_Ring
begin

text \<open>
  The pacer of a master, \<^verbatim>\<open>transport/src/reac_pacer.c\<close>: its state, the event ring, the handling of a received
  frame, the rate changes, the clock discipline and the head-amp commands. One slot of the loop is in theory
  \<open>Reac_Pacer_Loop\<close>.

  One operation takes one reading of the monotonic clock, \<open>now\<close>, where the code may take several. The process-wide
  settings are the record \<open>pacer_world\<close>: the tunables of the master and of the pacer and the scene body the master
  starts from. The head-amp table the master reads is the pacer's own, so the master's environment is computed
  from the pacer. Calls of \<^verbatim>\<open>on_session\<close> are logged in order. Arrays indexed by a clock source are functions of
  it. The text of the log lines and the diagnostics on standard error are not modelled.
\<close>

section \<open>State\<close>

datatype reac_pacer_evkind = REAC_PEV_STATE | REAC_PEV_RX | REAC_PEV_JOIN | REAC_PEV_PRESENCE
  | REAC_PEV_GRANT_TIMEOUT | REAC_PEV_DROP | REAC_PEV_WATCHDOG | REAC_PEV_RECOGNIZED | REAC_PEV_SIGHTING
  | REAC_PEV_CLOCK

abbreviation (input) REAC_PEV_CAUSE_TIMER :: u8 where "REAC_PEV_CAUSE_TIMER \<equiv> 0xff"
abbreviation (input) REAC_PEV_CAUSE_RATE_CHANGE :: int where "REAC_PEV_CAUSE_RATE_CHANGE \<equiv> 0xfe"

record reac_pacer_event =
  pe_mono_ns :: u64
  pe_kind :: reac_pacer_evkind
  pe_a :: u8
  pe_b :: u8
  pe_src :: mac
  pe_blk :: bytes

abbreviation (input) REAC_PACER_EVRING :: nat where "REAC_PACER_EVRING \<equiv> 128"
abbreviation (input) REAC_HEADAMP_CMD_RING :: nat where "REAC_HEADAMP_CMD_RING \<equiv> 128"

record pacer_world =
  pw_tunables :: reac_master_tunables
  pw_scene_body :: bytes
  pw_guard_floor_frames :: u32
  pw_no_headamp :: bool

record reac_clock_label =
  lb_seq :: u32
  lb_name :: string

record reac_pacer =
  pk_ring :: reac_frame_ring
  pk_master :: reac_master
  pk_on_session :: bool
  pk_session_calls :: "(mac option \<times> u32) list"
  pk_headamp :: reac_headamp_tx
  pk_period_ns :: int
  pk_catchup_max_slots :: u32
  pk_catchup_max_slots_cfg :: int
  pk_src :: mac
  pk_tx_frames :: u64
  pk_tx_errors :: u64
  pk_late_wakes :: u64
  pk_slots_catchup :: u64
  pk_slots_dropped :: u64
  pk_slot_debt_max :: u32
  pk_health_win_ns :: u64
  pk_health_tx_frames :: u64
  pk_health_trim_frames :: u64
  pk_health_late_wakes :: u64
  pk_health_slots_dropped :: u64
  pk_health_slots_catchup :: u64
  pk_ring_trims :: u64
  pk_ring_trim_frames :: u64
  pk_ring_depth_peak :: u32
  pk_ring_depth_min :: u32
  pk_graph_quantum :: u32
  pk_guard_kept :: "u32 option"
  pk_fsm_state :: reac_master_state
  pk_rx_box_frames :: u64
  pk_rx_box_ctrl :: u64
  pk_rx_joins :: u64
  pk_recognized_box :: "reac_box_model option"
  pk_recognized_headamp_base :: int
  pk_recognized_box_mac :: u64
  pk_rx_identity :: reac_identity
  pk_identity_seq :: u32
  pk_declared_in :: int
  pk_declared_out :: int
  pk_grant_attempts :: u64
  pk_drops :: "u64 list"
  pk_disco_gate :: reac_disco_gate
  pk_disco :: reac_disco_table
  pk_disco_peer_lock :: reac_disco_peer_lock
  pk_evring :: "reac_pacer_event list"
  pk_ev_head :: u32
  pk_ev_tail :: u32
  pk_ev_drops :: u64
  pk_ha_cmd :: "u32 list"
  pk_ha_cmd_head :: u32
  pk_ha_cmd_tail :: u32
  pk_ha_cmd_drops :: u64
  pk_ha_cmd_applied :: u64
  pk_rate_req_hz :: int
  pk_rate_req_seq :: u32
  pk_rate_req_seen :: u32
  pk_reestab_cause :: int
  pk_drivable_mask :: u32
  pk_rate_hz :: int
  pk_rate_asserted :: bool
  pk_rate_reestablishing :: bool
  pk_clock_follow :: bool
  pk_clock_present :: u32
  pk_clock_ppm_milli :: "reac_clock_source \<Rightarrow> int"
  pk_clock_stamp_ns :: "reac_clock_source \<Rightarrow> u64"
  pk_clock_label :: "reac_clock_source \<Rightarrow> reac_clock_label"
  pk_clock_quality :: "reac_clock_source \<Rightarrow> reac_clock_quality"
  pk_clock_pace :: "reac_clock_source \<times> reac_clock_state"
  pk_clock :: reac_clock_disc
  pk_slot_period_ns :: int
  pk_clock_slots :: u32
  pk_clock_gen_seen :: u32
  pk_clock_stamp_seen :: "reac_clock_source \<Rightarrow> u64"
  pk_fps :: int
  pk_prev_state :: reac_master_state
  pk_presence_seen :: bool
  pk_rx_since_change :: "u32 list"
  pk_probing_slots :: u64
  pk_last_chanmap_ns :: u64
  pk_log_last_ns :: u64
  pk_log_last_trims :: u64
  pk_discard :: reac_discard_watch
  pk_rx_identity_frag :: reac_identity_frag

definition pacer_env :: "pacer_world \<Rightarrow> reac_pacer \<Rightarrow> master_env" where
  "pacer_env w p = \<lparr> en_tunables = pw_tunables w, en_headamp = (\<lambda>_. pk_headamp p) \<rparr>"

text \<open>The numbers of the enumerations an event carries in a byte.\<close>

fun state_no :: "reac_master_state \<Rightarrow> u8" where
  "state_no REAC_M_IDLE = 0" | "state_no REAC_M_PROBING = 1" | "state_no REAC_M_GRANTING = 2"
| "state_no REAC_M_ESTABLISHED = 3"

fun drop_no :: "reac_master_drop_reason \<Rightarrow> u8" where
  "drop_no REAC_M_DROP_NONE = 0" | "drop_no REAC_M_DROP_PEER_GONE = 1" | "drop_no REAC_M_DROP_BYE = 2"
| "drop_no REAC_M_DROP_MAC_CHANGE = 3" | "drop_no REAC_M_DROP_GRANT_TIMEOUT = 4" | "drop_no REAC_M_DROP_BOX_UNKNOWN = 5"

fun rx_no :: "reac_master_rx_event \<Rightarrow> u8" where
  "rx_no REAC_M_RX_BOX_BCAST_FILLER = 0" | "rx_no REAC_M_RX_BOX_JOIN = 1" | "rx_no REAC_M_RX_BOX_UNICAST = 2"
| "rx_no REAC_M_RX_BOX_HEARTBEAT = 3" | "rx_no REAC_M_RX_BOX_BYE = 4" | "rx_no REAC_M_RX_BOX_CONFIG = 5"

fun role_no :: "reac_disco_role \<Rightarrow> u8" where
  "role_no REAC_DISCO_ROLE_UNKNOWN = 0" | "role_no REAC_DISCO_ROLE_BOX = 1" | "role_no REAC_DISCO_ROLE_MASTER = 2"

fun clock_state_no :: "reac_clock_state \<Rightarrow> u8" where
  "clock_state_no REAC_CLOCK_UNLOCKED = 0" | "clock_state_no REAC_CLOCK_LOCKING = 1"
| "clock_state_no REAC_CLOCK_LOCKED = 2" | "clock_state_no REAC_CLOCK_HOLDOVER = 3"

section \<open>Periods\<close>

text \<open>The doubles of these two round their quotient to the nearest integer; the error of a double is far below
  the distance of such a quotient from a tie, so the integer is the exact one.\<close>

definition reac_pacer_period_ns :: "int \<Rightarrow> int" where
  "reac_pacer_period_ns fps0 = (let fps = (if fps0 \<le> 0 then 8000 else fps0) in trunc_long (1000000000 / of_int fps + 1 / 2))"

definition reac_catchup_default_slots :: "int \<Rightarrow> u32" where
  "reac_catchup_default_slots fps =
     (if fps \<le> 0 then 1
      else let n = word_of_int (trunc_long (1000 * of_int fps / 1000000 + 1 / 2)) :: u32 in if n \<noteq> 0 then n else 1)"

definition resolve_catchup_slots :: "int \<Rightarrow> int \<Rightarrow> u32" where
  "resolve_catchup_slots cfg_val fps =
     (if cfg_val = 0 then reac_catchup_default_slots fps else if cfg_val < 0 then 0 else word_of_int cfg_val)"

section \<open>Frames and events\<close>

definition build_silent_filler :: "mac \<Rightarrow> bytes" where
  "build_silent_filler src =
     (let f = replicate REAC_FRAME_BYTES 0;
          f = poke 0 (replicate 6 0xFF) f;
          f = poke 6 (take 6 src) f
      in f[12 := 0x88, 13 := 0x19, REAC_FRAME_BYTES - 2 := REAC_END_MARKER_0, REAC_FRAME_BYTES - 1 := REAC_END_MARKER_1])"

definition pev_push ::
    "u64 \<Rightarrow> reac_pacer \<Rightarrow> reac_pacer_evkind \<Rightarrow> u8 \<Rightarrow> u8 \<Rightarrow> mac option \<Rightarrow> bytes option \<Rightarrow> reac_pacer" where
  "pev_push now p kind a b src blk =
     (let h = pk_ev_head p;
          t = pk_ev_tail p
      in if h - t \<ge> of_nat REAC_PACER_EVRING then p\<lparr> pk_ev_drops := pk_ev_drops p + 1 \<rparr>
         else p\<lparr> pk_evring := (pk_evring p)[unat h mod REAC_PACER_EVRING :=
                   \<lparr> pe_mono_ns = now, pe_kind = kind, pe_a = a, pe_b = b,
                     pe_src = (case src of Some s \<Rightarrow> take 6 s | None \<Rightarrow> replicate 6 0),
                     pe_blk = (case blk of Some x \<Rightarrow> take 32 x | None \<Rightarrow> replicate 32 0) \<rparr>],
                 pk_ev_head := h + 1 \<rparr>)"

text \<open>The session callback: the box and session of an establishment, nothing at its end.\<close>

definition session_call :: "mac option \<Rightarrow> u32 \<Rightarrow> reac_pacer \<Rightarrow> reac_pacer" where
  "session_call m s p = p\<lparr> pk_session_calls := pk_session_calls p @ [(m, s)] \<rparr>"

definition note_transition ::
    "pacer_world \<Rightarrow> u64 \<Rightarrow> reac_pacer \<Rightarrow> reac_master_state \<Rightarrow> reac_master_state \<Rightarrow> u8 \<Rightarrow> reac_pacer" where
  "note_transition w now p0 from to cause =
     (let p = p0\<lparr> pk_prev_state := to \<rparr>;
          p = (if pk_on_session p
               then if to = REAC_M_ESTABLISHED
                    then session_call (Some (ma_box_mac (pk_master p))) (ma_session_seq (pk_master p)) p
                    else if from = REAC_M_ESTABLISHED then session_call None 0 p else p
               else p);
          p = (if to = REAC_M_ESTABLISHED then p\<lparr> pk_rate_reestablishing := False \<rparr> else p);
          p = p\<lparr> pk_fsm_state := to, pk_grant_attempts := ucast (ma_grant_attempts (pk_master p)),
                  pk_rx_since_change := replicate 4 0, pk_probing_slots := 0 \<rparr>;
          p = (if to = REAC_M_ESTABLISHED \<and> from \<noteq> REAC_M_ESTABLISHED \<and> \<not> pw_no_headamp w
               then p\<lparr> pk_headamp := reac_headamp_tx_arm_scene (pk_headamp p) (ga_base (ma_alloc (pk_master p)))
                         (ga_width (ma_alloc (pk_master p))) \<rparr>
               else p)
      in if from = REAC_M_GRANTING \<and> to = REAC_M_PROBING \<and> ma_drop_reason (pk_master p) = REAC_M_DROP_GRANT_TIMEOUT
         then let i = unat (drop_no REAC_M_DROP_GRANT_TIMEOUT);
                  p = p\<lparr> pk_drops := (pk_drops p)[i := pk_drops p ! i + 1] \<rparr>
              in pev_push now p REAC_PEV_GRANT_TIMEOUT (ucast (ma_grant_attempts (pk_master p) AND 0xff)) 0
                   (Some (ma_box_mac (pk_master p))) None
         else if from = REAC_M_ESTABLISHED \<and> to \<noteq> REAC_M_ESTABLISHED
         then let r = ma_drop_reason (pk_master p);
                  i = unat (drop_no r AND 7);
                  p = p\<lparr> pk_drops := (pk_drops p)[i := pk_drops p ! i + 1] \<rparr>
              in pev_push now p REAC_PEV_DROP (drop_no r) (state_no to) (Some (ma_box_mac (pk_master p))) None
         else pev_push now p REAC_PEV_STATE (state_no from) (state_no to) (Some (ma_box_mac (pk_master p)))
                (Some (cause # replicate 31 0)))"

section \<open>What is published about the box\<close>

definition identity_frag_zero :: reac_identity_frag where
  "identity_frag_zero = \<lparr> if_src = replicate 6 0, if_have_first = False, if_len = 0, if_buf = replicate 64 0 \<rparr>"

text \<open>A write of the identity brackets it with two steps of its sequence number.\<close>

definition identity_write :: "reac_identity \<Rightarrow> reac_pacer \<Rightarrow> reac_pacer" where
  "identity_write ident p = p\<lparr> pk_rx_identity := ident, pk_identity_seq := pk_identity_seq p + 2 \<rparr>"

definition sync_published_box :: "reac_pacer \<Rightarrow> reac_pacer" where
  "sync_published_box p0 =
     (let p = p0\<lparr> pk_recognized_box_mac := reac_mac48_pack (Some (ma_box_mac (pk_master p0))) \<rparr> in
      if \<not> reac_master_has_box (pk_master p)
      then let p = p\<lparr> pk_recognized_box := None, pk_recognized_headamp_base := - 1, pk_declared_in := 0, pk_declared_out := 0 \<rparr>;
               p = (if id_has_fw (pk_rx_identity p) \<or> id_has_model_name (pk_rx_identity p) \<or> id_has_reac_version (pk_rx_identity p)
                    then identity_write reac_identity_init p else p)
           in p\<lparr> pk_rx_identity_frag := identity_frag_zero,
                 pk_master := reac_master_identity_answered (pk_master p) 0 \<rparr>
      else p\<lparr> pk_recognized_headamp_base := uint (ga_base (ma_alloc (pk_master p))) \<rparr>)"

definition reac_pacer_box_mac48 :: "reac_pacer option \<Rightarrow> u64" where
  "reac_pacer_box_mac48 p' = (case p' of None \<Rightarrow> 0 | Some p \<Rightarrow> pk_recognized_box_mac p)"

section \<open>A received frame\<close>

definition ingest_sighting :: "u64 \<Rightarrow> bytes \<Rightarrow> reac_pacer \<Rightarrow> reac_pacer" where
  "ingest_sighting now frame p =
     (let (lock, sight) = reac_disco_classify_on_segment (pk_disco_peer_lock p) frame (pk_src p);
          p = p\<lparr> pk_disco_peer_lock := lock \<rparr>
      in case sight of
           None \<Rightarrow> p
         | Some s \<Rightarrow>
             let (g, push) = reac_disco_gate_should_push (pk_disco_gate p) s now;
                 p = p\<lparr> pk_disco_gate := g \<rparr>
             in if push
                then pev_push now p REAC_PEV_SIGHTING (role_no (si_role s)) 0 (Some (si_mac s))
                       (Some ((if si_channels s > 40 then 40 else of_nat (si_channels s))
                              # (if si_has_decl s then 1 else 0) # si_decl_in s # si_decl_out s # si_announced_slots s
                              # replicate 27 0))
                else p)"

definition identity_from_ours :: "reac_pacer \<Rightarrow> bytes \<Rightarrow> bool" where
  "identity_from_ours p frame \<longleftrightarrow>
     \<not> reac_master_has_box (pk_master p) \<or> peek 6 6 frame = ma_box_mac (pk_master p) \<or>
     ma_box_mac (pk_master p) = replicate 6 0"

definition ingest_identity :: "bytes \<Rightarrow> reac_pacer \<Rightarrow> reac_pacer" where
  "ingest_identity frame p =
     (if \<not> identity_from_ours p frame then p
      else let (whole_rc, whole_out) = reac_ctrl_identity_reply (Some frame);
               (p, out) = (if whole_rc = 1 then (p, whole_out)
                           else let (fr, rc, rec_out) = reac_ctrl_identity_fragment (pk_rx_identity_frag p) frame
                                in (p\<lparr> pk_rx_identity_frag := fr \<rparr>, if rc = 1 then rec_out else None))
           in case out of
                None \<Rightarrow> p
              | Some (addr_lo, payload) \<Rightarrow>
                  let p = identity_write (fst (reac_identity_ingest (pk_rx_identity p) addr_lo payload)) p
                  in p\<lparr> pk_master := reac_master_identity_answered (pk_master p)
                          (if id_has_fw (pk_rx_identity p) \<and> id_has_reac_version (pk_rx_identity p) then 1 else 0) \<rparr>)"

definition ingest_ports :: "pacer_world \<Rightarrow> u64 \<Rightarrow> bytes \<Rightarrow> mac \<Rightarrow> reac_pacer \<Rightarrow> reac_pacer" where
  "ingest_ports w now frame src p0 =
     (case (if length frame \<ge> REAC_CTRL_BLOCK_OFF + REAC_CTRL_BLOCK_LEN
            then reac_ports_parse (Some (drop REAC_CTRL_BLOCK_OFF frame)) else None) of
        None \<Rightarrow> p0
      | Some ports \<Rightarrow>
          let p = (case reac_box_catalogue_match frame of
                     Some bm \<Rightarrow> p0\<lparr> pk_recognized_box := Some bm \<rparr> | None \<Rightarrow> p0)
          in if bp_in_ch ports = pk_declared_in p \<and> bp_out_ch ports = pk_declared_out p then p
             else let prev_w = uint (ga_width (ma_alloc (pk_master p)));
                      p = p\<lparr> pk_master := reac_master_set_box (pacer_env w p) (pk_master p) (bp_in_ch ports)
                               (bp_out_ch ports) (bp_headamp_base ports) \<rparr>
                  in if uint (ga_width (ma_alloc (pk_master p))) \<noteq> bp_in_ch ports then p
                     else let p = (if bp_in_ch ports \<noteq> prev_w \<and>
                                      (ma_state (pk_master p) = REAC_M_GRANTING \<or> ma_state (pk_master p) = REAC_M_ESTABLISHED)
                                   then p\<lparr> pk_master := reac_master_regrant (pacer_env w p) (pk_master p) \<rparr> else p);
                              p = p\<lparr> pk_declared_in := bp_in_ch ports, pk_declared_out := bp_out_ch ports \<rparr>;
                              (unknown, code) = reac_ports_unknown (Some (drop REAC_CTRL_BLOCK_OFF frame))
                          in pev_push now p REAC_PEV_RECOGNIZED (word_of_int (bp_in_ch ports)) 0 (Some src)
                               (Some ((if unknown > 0 then word_of_int unknown else 0) # code
                                      # word_of_int (bp_out_ch ports) # replicate 29 0)))"

definition le32_bytes :: "u32 \<Rightarrow> bytes" where
  "le32_bytes v = [ucast v, ucast (drop_bit 8 v), ucast (drop_bit 16 v), ucast (drop_bit 24 v)]"

text \<open>What the log keeps of the frame, after the master has taken it.\<close>

definition log_rx :: "u64 \<Rightarrow> bytes \<Rightarrow> reac_ctrl_parsed \<Rightarrow> reac_master_rx_event \<Rightarrow> reac_pacer \<Rightarrow> reac_pacer" where
  "log_rx now frame parsed ev p =
     (let st = state_no (ma_state (pk_master p)) in
      if ev = REAC_M_RX_BOX_JOIN
      then pev_push now p REAC_PEV_JOIN (if pc_is_broadcast parsed then 1 else 0) st (Some (pc_src parsed)) (Some (drop 18 frame))
      else if ev = REAC_M_RX_BOX_BYE
      then pev_push now p REAC_PEV_RX (rx_no ev) st (Some (pc_src parsed)) (Some (drop 18 frame))
      else let i = unat (rx_no ev AND 3);
               seen = pk_rx_since_change p ! i;
               p = p\<lparr> pk_rx_since_change := (pk_rx_since_change p)[i := seen + 1] \<rparr>;
               is_hb = (ev = REAC_M_RX_BOX_UNICAST \<and> pc_kind parsed = REAC_CTRL_BOX_HB);
               log_it = (seen = 0 \<or> is_hb \<and> seen AND 7 = 0)
           in if log_it \<and> ev \<noteq> REAC_M_RX_BOX_BCAST_FILLER
              then let blk = (if ev = REAC_M_RX_BOX_UNICAST \<and> pk_last_chanmap_ns p \<noteq> 0
                              then le32_bytes (ucast ((now - pk_last_chanmap_ns p) div 1000)) @ replicate 28 0
                              else replicate 32 0)
                   in pev_push now p REAC_PEV_RX (rx_no ev) st (Some (pc_src parsed)) (Some blk)
              else p)"

definition reac_pacer_rx_ingest :: "pacer_world \<Rightarrow> u64 \<Rightarrow> reac_pacer \<Rightarrow> bytes \<Rightarrow> reac_pacer" where
  "reac_pacer_rx_ingest w now p0 raw =
     (let frame = take (reac_frame_clean_len (length raw)) raw;
          p = ingest_identity frame (ingest_sighting now frame p0);
          (parsed, ev') = reac_ctrl_classify_box_frame frame (pk_src p)
      in case ev' of
           None \<Rightarrow> p
         | Some ev \<Rightarrow>
             if \<not> reac_master_peer_accepts (pk_master p) (pc_src parsed) ev then p
             else let p = p\<lparr> pk_rx_box_frames := pk_rx_box_frames p + 1,
                             pk_rx_box_ctrl := (if pc_kind parsed \<noteq> REAC_CTRL_FILLER then pk_rx_box_ctrl p + 1 else pk_rx_box_ctrl p),
                             pk_rx_joins := (if ev = REAC_M_RX_BOX_JOIN then pk_rx_joins p + 1 else pk_rx_joins p) \<rparr>;
                      p = ingest_ports w now frame (pc_src parsed) p;
                      from = ma_state (pk_master p);
                      (m, changed) = reac_master_rx (pacer_env w p) (pk_master p) ev (pc_src parsed)
                                       (if ev = REAC_M_RX_BOX_JOIN then Some (peek 18 32 frame) else None);
                      p = sync_published_box (p\<lparr> pk_master := m \<rparr>);
                      p = (if ma_box_seen (pk_master p) \<and> \<not> pk_presence_seen p
                           then pev_push now p REAC_PEV_PRESENCE 1 (rx_no ev) (Some (pc_src parsed)) None else p);
                      p = p\<lparr> pk_presence_seen := ma_box_seen (pk_master p) \<rparr>;
                      p = log_rx now frame parsed ev p
                  in if changed then note_transition w now p from (ma_state (pk_master p)) (rx_no ev) else p)"

section \<open>Draining the log\<close>

fun family_no :: "reac_box_family \<Rightarrow> u8" where
  "family_no REAC_BOX_FAMILY_UNKNOWN = 0" | "family_no REAC_BOX_FAMILY_S0808 = 1"
| "family_no REAC_BOX_FAMILY_S1608 = 2" | "family_no REAC_BOX_FAMILY_S4000S = 3"

text \<open>The sighting an event carries; of our own box, the declaration kept and the family its identity names fill
  what the frame left open.\<close>

definition event_sighting :: "reac_pacer \<Rightarrow> reac_pacer_event \<Rightarrow> reac_disco_sighting \<times> bool" where
  "event_sighting p e =
     (let blk = pe_blk e;
          role = (if pe_a e = 1 then REAC_DISCO_ROLE_BOX else if pe_a e = 2 then REAC_DISCO_ROLE_MASTER else REAC_DISCO_ROLE_UNKNOWN);
          s = \<lparr> si_mac = pe_src e, si_role = role, si_has_decl = (blk ! 1 \<noteq> 0), si_decl_in = blk ! 2, si_decl_out = blk ! 3,
                si_family = 0, si_announced_slots = blk ! 4, si_channels = unat (blk ! 0) \<rparr>;
          owned = (ma_state (pk_master p) = REAC_M_ESTABLISHED \<and> ma_box_mac (pk_master p) = pe_src e);
          s = (if owned
               then let s = (if \<not> si_has_decl s \<and> pk_declared_in p + pk_declared_out p > 0
                             then s\<lparr> si_has_decl := True, si_decl_in := word_of_int (pk_declared_in p),
                                     si_decl_out := word_of_int (pk_declared_out p) \<rparr> else s)
                    in s\<lparr> si_family := family_no (reac_box_family_of (Some (pk_rx_identity p))) \<rparr>
               else s)
      in (s, owned))"

text \<open>The loop over the events between tail and head; only a sighting changes state besides the tail.\<close>

definition drain_event :: "reac_pacer \<Rightarrow> reac_pacer" where
  "drain_event p =
     (let t = pk_ev_tail p;
          e = pk_evring p ! (unat t mod REAC_PACER_EVRING);
          p = p\<lparr> pk_ev_tail := t + 1 \<rparr>
      in if pe_kind e = REAC_PEV_SIGHTING
         then let (s, owned) = event_sighting p e
              in p\<lparr> pk_disco := fst (reac_disco_table_observe (pk_disco p) s owned (pe_mono_ns e)) \<rparr>
         else p)"

abbreviation (input) REAC_PACER_DEPTH_LOG_HB_NS :: u64 where "REAC_PACER_DEPTH_LOG_HB_NS \<equiv> 10000000000"

text \<open>The result is the number of events, and the discard warning when one is due.\<close>

definition reac_pacer_log_drain :: "u64 \<Rightarrow> reac_pacer \<Rightarrow> reac_pacer \<times> nat \<times> (u64 \<times> u64) option" where
  "reac_pacer_log_drain now p0 =
     (let n = unat (pk_ev_head p0 - pk_ev_tail p0);
          p = (drain_event ^^ n) p0;
          p = p\<lparr> pk_disco := fst (reac_disco_table_age (pk_disco p) now) \<rparr>;
          (dw, warn) = reac_discard_watch_step (pk_discard p) now (pk_ring_trim_frames p);
          p = p\<lparr> pk_discard := dw \<rparr>;
          emit = (pk_ring_trims p \<noteq> pk_log_last_trims p \<or> now - pk_log_last_ns p \<ge> REAC_PACER_DEPTH_LOG_HB_NS);
          p = (if emit
               then let rdepth = reac_frame_ring_readable (pk_ring p)
                    in p\<lparr> pk_ring_depth_peak := rdepth, pk_ring_depth_min := rdepth, pk_log_last_ns := now,
                          pk_log_last_trims := pk_ring_trims p \<rparr>
               else p)
      in (p, n, warn))"

section \<open>Health\<close>

abbreviation (input) REAC_PACER_HEALTH_WINDOW_NS :: u64 where "REAC_PACER_HEALTH_WINDOW_NS \<equiv> 10000000000"

record reac_pacer_health =
  ph_window_s :: real
  ph_drift_ppm :: real
  ph_discard_fps :: real
  ph_discard_ms_per_s :: real
  ph_late_wakes_ps :: real
  ph_slots_dropped_ps :: real
  ph_slots_catchup_ps :: real
  ph_tx_errors :: u64
  ph_late_wakes :: u64
  ph_ring_frames :: u32
  ph_slot_debt_max :: u32
  ph_ring_ms :: real

definition health_rebase :: "u64 \<Rightarrow> reac_pacer \<Rightarrow> reac_pacer" where
  "health_rebase now_ns p =
     p\<lparr> pk_health_win_ns := now_ns, pk_health_tx_frames := pk_tx_frames p, pk_health_trim_frames := pk_ring_trim_frames p,
        pk_health_late_wakes := pk_late_wakes p, pk_health_slots_dropped := pk_slots_dropped p,
        pk_health_slots_catchup := pk_slots_catchup p \<rparr>"

definition reac_pacer_health_poll :: "reac_pacer \<Rightarrow> u64 \<Rightarrow> reac_pacer \<times> reac_pacer_health option" where
  "reac_pacer_health_poll p now_ns =
     (if pk_health_win_ns p = 0 \<or> now_ns < pk_health_win_ns p then (health_rebase now_ns p, None)
      else let dt_ns = now_ns - pk_health_win_ns p in
      if dt_ns < REAC_PACER_HEALTH_WINDOW_NS then (p, None)
      else let dt = of_nat (unat dt_ns) / 1000000000;
               per_s = (\<lambda>a b. of_nat (unat (a - b)) / dt);
               emitted_ps = per_s (pk_tx_frames p) (pk_health_tx_frames p);
               nominal_ps = 1000000000 / of_int (pk_period_ns p);
               rdepth = reac_frame_ring_readable (pk_ring p);
               discard_fps = per_s (pk_ring_trim_frames p) (pk_health_trim_frames p);
               out = \<lparr> ph_window_s = dt, ph_drift_ppm = (nominal_ps - emitted_ps) / nominal_ps * 1000000,
                 ph_discard_fps = discard_fps, ph_discard_ms_per_s = discard_fps * of_int (pk_period_ns p) / 1000000,
                 ph_late_wakes_ps = per_s (pk_late_wakes p) (pk_health_late_wakes p),
                 ph_slots_dropped_ps = per_s (pk_slots_dropped p) (pk_health_slots_dropped p),
                 ph_slots_catchup_ps = per_s (pk_slots_catchup p) (pk_health_slots_catchup p),
                 ph_tx_errors = pk_tx_errors p, ph_late_wakes = pk_late_wakes p, ph_ring_frames = rdepth,
                 ph_slot_debt_max = pk_slot_debt_max p, ph_ring_ms = of_nat (unat rdepth) * of_int (pk_period_ns p) / 1000000 \<rparr>
           in (health_rebase now_ns (p\<lparr> pk_slot_debt_max := 0 \<rparr>), Some out))"

section \<open>Head-amp commands\<close>

definition reac_pacer_headamp_set :: "reac_pacer \<Rightarrow> u8 \<Rightarrow> u8 \<Rightarrow> u8 \<Rightarrow> reac_pacer \<times> int" where
  "reac_pacer_headamp_set p ch param val =
     (let h = pk_ha_cmd_head p;
          t = pk_ha_cmd_tail p
      in if h - t \<ge> of_nat REAC_HEADAMP_CMD_RING then (p\<lparr> pk_ha_cmd_drops := pk_ha_cmd_drops p + 1 \<rparr>, 0)
         else (p\<lparr> pk_ha_cmd := (pk_ha_cmd p)[unat h mod REAC_HEADAMP_CMD_RING := reac_headamp_pack ch param val],
                  pk_ha_cmd_head := h + 1 \<rparr>, 1))"

definition headamp_take :: "reac_pacer \<Rightarrow> reac_pacer" where
  "headamp_take p =
     (let t = pk_ha_cmd_tail p;
          (ch, param, val) = reac_headamp_unpack (pk_ha_cmd p ! (unat t mod REAC_HEADAMP_CMD_RING))
      in p\<lparr> pk_ha_cmd_tail := t + 1, pk_headamp := fst (reac_headamp_tx_set (pk_headamp p) ch param val) \<rparr>)"

definition reac_pacer_headamp_drain :: "reac_pacer \<Rightarrow> reac_pacer \<times> nat" where
  "reac_pacer_headamp_drain p =
     (let n = unat (pk_ha_cmd_head p - pk_ha_cmd_tail p);
          p = (headamp_take ^^ n) p
      in (if n \<noteq> 0 then p\<lparr> pk_ha_cmd_applied := pk_ha_cmd_applied p + of_nat n \<rparr> else p, n))"

section \<open>Changing the rate\<close>

definition reac_pacer_request_rate :: "reac_pacer \<Rightarrow> int \<Rightarrow> reac_pacer" where
  "reac_pacer_request_rate p hz =
     p\<lparr> pk_rate_req_hz := hz, pk_reestab_cause := REAC_PEV_CAUSE_RATE_CHANGE, pk_rate_req_seq := pk_rate_req_seq p + 1 \<rparr>"

definition reac_pacer_request_reestablish :: "reac_pacer \<Rightarrow> int \<Rightarrow> reac_pacer" where
  "reac_pacer_request_reestablish p cause =
     p\<lparr> pk_rate_req_hz := pk_rate_hz p, pk_reestab_cause := cause, pk_rate_req_seq := pk_rate_req_seq p + 1 \<rparr>"

definition reac_pacer_apply_rate :: "pacer_world \<Rightarrow> u64 \<Rightarrow> reac_pacer \<Rightarrow> int \<Rightarrow> reac_pacer \<times> int" where
  "reac_pacer_apply_rate w now p0 hz =
     (let fps = hz sdiv REAC_SAMPLES_PER_PKT;
          period = reac_pacer_period_ns fps;
          p = p0\<lparr> pk_period_ns := period, pk_fps := fps, pk_slot_period_ns := period,
                  pk_clock := reac_clock_disc_init REAC_ROLE_MASTER period,
                  pk_catchup_max_slots := resolve_catchup_slots (pk_catchup_max_slots_cfg p0) fps \<rparr>;
          saved_cfg = (ma_cfg (pk_master p))\<lparr> cc_console_field := reac_pace_code fps \<rparr>;
          ccfg = (if cc_out_channels saved_cfg \<noteq> 0 then Some saved_cfg else None);
          old_state = ma_state (pk_master p);
          old_box_mac = ma_box_mac (pk_master p);
          p = p\<lparr> pk_master := reac_master_init (pw_tunables w) (pw_scene_body w) (pk_src p) ccfg fps \<rparr>;
          p = p\<lparr> pk_master := reac_master_set_headamp_src (pacer_env w p) (pk_master p) (Some 0) \<rparr>;
          p = p\<lparr> pk_headamp := reac_headamp_tx_set_resweep (pk_headamp p) (word_of_int fps * 0),
                 pk_prev_state := REAC_M_IDLE, pk_fsm_state := REAC_M_IDLE, pk_grant_attempts := 0,
                 pk_rx_since_change := replicate 4 0, pk_probing_slots := 0 \<rparr>;
          p = (if pk_on_session p \<and> old_state = REAC_M_ESTABLISHED then session_call None 0 p else p);
          p = p\<lparr> pk_recognized_box := None, pk_recognized_headamp_base := - 1, pk_recognized_box_mac := 0,
                 pk_declared_in := 0, pk_declared_out := 0 \<rparr>;
          cause = (if pk_reestab_cause p = 0 then REAC_PEV_CAUSE_RATE_CHANGE else pk_reestab_cause p);
          p = pev_push now p REAC_PEV_STATE (state_no old_state) (state_no REAC_M_IDLE) (Some old_box_mac)
                (Some (word_of_int cause # replicate 31 0));
          p = p\<lparr> pk_reestab_cause := 0, pk_rate_hz := hz, pk_rate_asserted := True, pk_rate_reestablishing := True \<rparr>
      in (p, fps))"

definition reac_pacer_rate_drain :: "pacer_world \<Rightarrow> u64 \<Rightarrow> reac_pacer \<Rightarrow> reac_pacer \<times> bool" where
  "reac_pacer_rate_drain w now p =
     (let seq = pk_rate_req_seq p in
      if seq = pk_rate_req_seen p then (p, False)
      else (fst (reac_pacer_apply_rate w now (p\<lparr> pk_rate_req_seen := seq \<rparr>) (pk_rate_req_hz p)), True))"

section \<open>Following a clock\<close>

abbreviation (input) REAC_CLOCK_LABEL_MAX :: nat where "REAC_CLOCK_LABEL_MAX \<equiv> 28"
abbreviation (input) REAC_CLOCK_TICK_SLOTS :: u32 where "REAC_CLOCK_TICK_SLOTS \<equiv> 1024"
abbreviation (input) REAC_CLOCK_STALE_NS :: u64 where "REAC_CLOCK_STALE_NS \<equiv> 2000000000"

definition reac_clock_label_set :: "reac_clock_label \<Rightarrow> string option \<Rightarrow> reac_clock_label \<times> bool" where
  "reac_clock_label_set l name' =
     (case name' of
        None \<Rightarrow> (l, False)
      | Some name \<Rightarrow>
          if take REAC_CLOCK_LABEL_MAX (lb_name l) = take REAC_CLOCK_LABEL_MAX name then (l, False)
          else (l\<lparr> lb_name := take (REAC_CLOCK_LABEL_MAX - 1) name, lb_seq := lb_seq l + 2 \<rparr>, True))"

text \<open>A reader that finds the sequence odd takes nothing; read alone, the two samples agree.\<close>

definition reac_clock_label_get :: "reac_clock_label \<Rightarrow> nat \<Rightarrow> string option" where
  "reac_clock_label_get l cap = (if odd (lb_seq l) then None else Some (take (cap - 1) (lb_name l)))"

definition reac_pacer_clock_publish ::
    "reac_pacer \<Rightarrow> reac_clock_source \<Rightarrow> bool \<Rightarrow> int \<Rightarrow> string option \<Rightarrow> reac_clock_quality \<Rightarrow> u64 \<Rightarrow> reac_pacer" where
  "reac_pacer_clock_publish p src present ppm_milli label quality now_ns =
     (if src = REAC_CLOCK_SRC_FREERUN then p
      else if present
      then p\<lparr> pk_clock_label := (pk_clock_label p)(src := fst (reac_clock_label_set (pk_clock_label p src) label)),
              pk_clock_quality := (pk_clock_quality p)(src := quality),
              pk_clock_ppm_milli := (pk_clock_ppm_milli p)(src := ppm_milli),
              pk_clock_stamp_ns := (pk_clock_stamp_ns p)(src := now_ns),
              pk_clock_present := pk_clock_present p OR push_bit (src_code src) 1 \<rparr>
      else p\<lparr> pk_clock_present := pk_clock_present p AND NOT (push_bit (src_code src) 1) \<rparr>)"

definition reac_pacer_clock_publish_graph ::
    "reac_pacer option \<Rightarrow> string option \<Rightarrow> bool \<Rightarrow> real \<Rightarrow> u64 \<Rightarrow> string option \<Rightarrow> reac_pacer option" where
  "reac_pacer_clock_publish_graph p' name freewheel rate_diff nsec clock_ref =
     (case p' of
        None \<Rightarrow> None
      | Some p \<Rightarrow>
          if \<not> pk_clock_follow p then Some p
          else if freewheel \<or> \<not> reac_clock_name_is_hardware name then Some p
          else Some (reac_pacer_clock_publish p REAC_CLOCK_SRC_GRAPH True
                       (trunc_long (reac_clock_ppm_from_rate_diff rate_diff * 1000)) name
                       (reac_clock_grade_name name clock_ref) nsec))"

text \<open>The sources heard of recently, and the grades handed to the discipline.\<close>

definition tick_sources :: "reac_clock_source list" where
  "tick_sources = [REAC_CLOCK_SRC_BOX, REAC_CLOCK_SRC_GRAPH, REAC_CLOCK_SRC_PHC, REAC_CLOCK_SRC_WIRE]"

definition source_present :: "reac_pacer \<Rightarrow> reac_clock_source \<Rightarrow> bool" where
  "source_present p s \<longleftrightarrow> pk_clock_present p AND push_bit (src_code s) 1 \<noteq> 0"

definition source_fresh :: "reac_pacer \<Rightarrow> u64 \<Rightarrow> reac_clock_source \<Rightarrow> bool" where
  "source_fresh p now_ns s \<longleftrightarrow>
     pk_clock_stamp_ns p s \<noteq> 0 \<and> now_ns - pk_clock_stamp_ns p s < REAC_CLOCK_STALE_NS"

definition tick_avail :: "reac_pacer \<Rightarrow> u64 \<Rightarrow> u32" where
  "tick_avail p now_ns =
     foldl (\<lambda>a s. if source_present p s \<and> source_fresh p now_ns s then a OR push_bit (src_code s) 1 else a) 0 tick_sources"

definition tick_grades :: "reac_pacer \<Rightarrow> reac_clock_disc" where
  "tick_grades p =
     foldl (\<lambda>c s. if source_present p s then reac_clock_disc_set_quality c s (pk_clock_quality p s) else c)
       (pk_clock p) tick_sources"

definition clock_event_blk :: "reac_pacer \<Rightarrow> bytes" where
  "clock_event_blk p =
     (let applied = word_of_int (trunc_long (reac_dll_applied_ppm (cd_dll (pk_clock p)) * 1000)) :: u32;
          label = (if cd_src (pk_clock p) \<noteq> REAC_CLOCK_SRC_FREERUN
                   then reac_clock_label_get (pk_clock_label p (cd_src (pk_clock p))) REAC_CLOCK_LABEL_MAX else None);
          name = (case label of Some l \<Rightarrow> map char_byte l | None \<Rightarrow> [])
      in le32_bytes applied @ take REAC_CLOCK_LABEL_MAX (name @ replicate REAC_CLOCK_LABEL_MAX 0))"

definition reac_pacer_clock_tick :: "reac_pacer \<Rightarrow> u64 \<Rightarrow> reac_pacer \<times> int" where
  "reac_pacer_clock_tick p0 now_ns =
     (if \<not> pk_clock_follow p0 then (p0, pk_period_ns p0)
      else let p = p0\<lparr> pk_clock_slots := pk_clock_slots p0 + 1 \<rparr> in
      if pk_clock_slots p < REAC_CLOCK_TICK_SLOTS then (p, pk_slot_period_ns p)
      else let p = p\<lparr> pk_clock_slots := 0 \<rparr>;
               avail = tick_avail p now_ns;
               c = tick_grades p;
               sel = reac_clock_select_graded (cd_role c) avail (Some (cd_quality c)) (cd_min_quality c);
               have_new = (sel \<noteq> REAC_CLOCK_SRC_FREERUN \<and> pk_clock_stamp_ns p sel \<noteq> pk_clock_stamp_seen p sel);
               p = (if have_new
                    then p\<lparr> pk_clock_stamp_seen := (pk_clock_stamp_seen p)(sel := pk_clock_stamp_ns p sel) \<rparr> else p);
               ppm = (if have_new then of_int (pk_clock_ppm_milli p sel) / 1000 else 0);
               p = p\<lparr> pk_clock := reac_clock_disc_update c avail (Some ppm) have_new \<rparr>;
               p = (if cd_generation (pk_clock p) \<noteq> pk_clock_gen_seen p
                    then pev_push now_ns (p\<lparr> pk_clock_gen_seen := cd_generation (pk_clock p) \<rparr>) REAC_PEV_CLOCK
                           (of_nat (src_code (cd_src (pk_clock p))))
                           (clock_state_no (cd_state (pk_clock p)) OR
                              push_bit 4 (of_nat (q_code (reac_clock_disc_quality (pk_clock p)))))
                           None (Some (clock_event_blk p))
                    else p);
               p = p\<lparr> pk_clock_pace := (cd_src (pk_clock p), cd_state (pk_clock p)),
                       pk_slot_period_ns := reac_clock_disc_period_ns (pk_clock p) \<rparr>
           in (p, pk_slot_period_ns p))"

definition reac_pacer_pace_source :: "reac_pacer option \<Rightarrow> reac_pace_source" where
  "reac_pacer_pace_source p' =
     (case p' of
        None \<Rightarrow> REAC_PACE_FREE_RUN
      | Some p \<Rightarrow> if \<not> pk_clock_follow p then REAC_PACE_FREE_RUN
                  else reac_pace_from_clock (fst (pk_clock_pace p)) (snd (pk_clock_pace p)))"

end
