(* ===== verification/Reac_Etf.thy ===== *)
theory Reac_Etf
  imports Reac_Clock Reac_Conf
begin

text \<open>
  Which backend releases a frame, and the launch grid of the kernel-timed one: \<^verbatim>\<open>transport/src/reac_etf.c\<close>
  and the backend choice of \<^verbatim>\<open>transport/src/reac_pacer.c\<close>.

  The grid's instants are 64-bit words and wrap as in the code. The system calls are arguments: \<open>setopt\<close> is the
  result of \<^verbatim>\<open>setsockopt\<close> (\<open>None\<close> on success, the error number otherwise), \<open>tai\<close> the kernel's TAI offset,
  \<open>qdisc\<close> what the probe of the device found. The error queue is the list of messages \<^verbatim>\<open>recvmsg\<close> returns before
  it fails, each with its control messages.
\<close>

datatype reac_etf_refusal = REAC_ETF_OK | REAC_ETF_REFUSE_NO_TXTIME | REAC_ETF_REFUSE_TXTIME_EPERM
  | REAC_ETF_REFUSE_NO_QDISC | REAC_ETF_REFUSE_TAI_UNSET | REAC_ETF_REFUSE_NO_TAI_CLOCK
  | REAC_ETF_REFUSE_BAD_FPS | REAC_ETF_REFUSE_BAD_LEAD

fun reac_etf_refusal_name :: "reac_etf_refusal \<Rightarrow> string" where
  "reac_etf_refusal_name REAC_ETF_OK = ''ok''"
| "reac_etf_refusal_name REAC_ETF_REFUSE_NO_TXTIME = ''this kernel has no SO_TXTIME on this socket''"
| "reac_etf_refusal_name REAC_ETF_REFUSE_TXTIME_EPERM =
     ''SO_TXTIME refused for want of CAP_NET_ADMIN '' @ DASH @ '' the option exists, this process may not set it''"
| "reac_etf_refusal_name REAC_ETF_REFUSE_NO_QDISC =
     ''no etf qdisc on this netdev '' @ DASH @ '' every launch time would be stamped and then ignored''"
| "reac_etf_refusal_name REAC_ETF_REFUSE_TAI_UNSET =
     ''the kernel's TAI offset is 0 '' @ DASH @ '' CLOCK_TAI is really UTC and every launch time would be wrong''"
| "reac_etf_refusal_name REAC_ETF_REFUSE_NO_TAI_CLOCK = ''CLOCK_TAI is unreadable''"
| "reac_etf_refusal_name REAC_ETF_REFUSE_BAD_FPS = ''not one of the closed pace list''"
| "reac_etf_refusal_name REAC_ETF_REFUSE_BAD_LEAD = ''the lead is outside its bounds''"

section \<open>The launch grid\<close>

record reac_etf_grid =
  eg_launch_ns :: u64
  eg_base_ns :: u64
  eg_slot :: u64
  eg_whole :: u32
  eg_rem :: u32
  eg_frac :: u32
  eg_fps :: u32

definition reac_etf_grid_init :: "int \<Rightarrow> u64 \<Rightarrow> reac_etf_grid \<times> reac_etf_refusal" where
  "reac_etf_grid_init fps base_ns =
     (if fps \<le> 0
      then (\<lparr> eg_launch_ns = 0, eg_base_ns = 0, eg_slot = 0, eg_whole = 0, eg_rem = 0, eg_frac = 0, eg_fps = 0 \<rparr>,
            REAC_ETF_REFUSE_BAD_FPS)
      else let f = word_of_int fps :: u32 in
           (\<lparr> eg_launch_ns = base_ns, eg_base_ns = base_ns, eg_slot = 0,
              eg_whole = ucast ((1000000000 :: u64) div ucast f), eg_rem = ucast ((1000000000 :: u64) mod ucast f),
              eg_frac = 0, eg_fps = f \<rparr>, REAC_ETF_OK))"

definition reac_etf_grid_advance :: "reac_etf_grid \<Rightarrow> int \<Rightarrow> reac_etf_grid \<times> u64" where
  "reac_etf_grid_advance g0 steer_ns =
     (let g = g0\<lparr> eg_slot := eg_slot g0 + 1 \<rparr> in
      if steer_ns > 0
      then let g = g\<lparr> eg_launch_ns := eg_launch_ns g + word_of_int steer_ns \<rparr> in (g, eg_launch_ns g)
      else let g = g\<lparr> eg_launch_ns := eg_launch_ns g + ucast (eg_whole g), eg_frac := eg_frac g + eg_rem g \<rparr>;
               g = (if eg_frac g \<ge> eg_fps g
                    then g\<lparr> eg_frac := eg_frac g - eg_fps g, eg_launch_ns := eg_launch_ns g + 1 \<rparr> else g)
           in (g, eg_launch_ns g))"

definition reac_etf_grid_rebase :: "reac_etf_grid \<Rightarrow> u64 \<Rightarrow> reac_etf_grid" where
  "reac_etf_grid_rebase g now_ns =
     fst (reac_etf_grid_advance (g\<lparr> eg_base_ns := now_ns, eg_launch_ns := now_ns, eg_slot := 0 \<rparr>) 0)"

section \<open>The lead and the socket\<close>

abbreviation (input) REAC_ETF_LEAD_US_DEFAULT :: u32 where "REAC_ETF_LEAD_US_DEFAULT \<equiv> 2500"
abbreviation (input) REAC_ETF_LEAD_US_MIN :: u32 where "REAC_ETF_LEAD_US_MIN \<equiv> 50"
abbreviation (input) REAC_ETF_LEAD_US_MAX :: u32 where "REAC_ETF_LEAD_US_MAX \<equiv> 50000"

definition reac_etf_lead_check :: "u32 \<Rightarrow> reac_etf_refusal" where
  "reac_etf_lead_check lead_us =
     (if lead_us < REAC_ETF_LEAD_US_MIN \<or> lead_us > REAC_ETF_LEAD_US_MAX then REAC_ETF_REFUSE_BAD_LEAD else REAC_ETF_OK)"

abbreviation (input) EPERM :: int where "EPERM \<equiv> 1"

definition reac_etf_socket_arm :: "int \<Rightarrow> int option \<Rightarrow> reac_etf_refusal" where
  "reac_etf_socket_arm tai_offset_s setopt =
     (if tai_offset_s \<le> 0 then REAC_ETF_REFUSE_TAI_UNSET
      else case setopt of
             Some errno \<Rightarrow> if errno = EPERM then REAC_ETF_REFUSE_TXTIME_EPERM else REAC_ETF_REFUSE_NO_TXTIME
           | None \<Rightarrow> REAC_ETF_OK)"

text \<open>A control message: whether it is at the packet level, whether it is long enough for an extended error,
  that error's origin and its code.\<close>

record etf_cmsg =
  ec_sol_packet :: bool
  ec_long_enough :: bool
  ec_origin :: u8
  ec_code :: u8

abbreviation (input) SO_EE_ORIGIN_TXTIME :: u8 where "SO_EE_ORIGIN_TXTIME \<equiv> 6"

definition reac_etf_drain_errors :: "etf_cmsg list list \<Rightarrow> u32 \<Rightarrow> u32 \<times> u8 \<times> etf_cmsg list list" where
  "reac_etf_drain_errors queue budget =
     (let hits = filter (\<lambda>c. ec_sol_packet c \<and> ec_long_enough c \<and> ec_origin c = SO_EE_ORIGIN_TXTIME)
                   (concat (take (unat budget) queue))
      in (of_nat (length hits), foldl (\<lambda>seen c. if seen = 0 then ec_code c else seen) 0 hits,
          drop (unat budget) queue))"

section \<open>Choosing the backend\<close>

datatype pacer_backend_kind = REAC_PACER_BACKEND_THREAD | REAC_PACER_BACKEND_ETF

definition reac_pacer_backend_name :: "pacer_backend_kind \<Rightarrow> string" where
  "reac_pacer_backend_name b = (if b = REAC_PACER_BACKEND_ETF then ''etf'' else ''thread'')"

text \<open>The result is the backend, the layer that answered and whether its word was understood.\<close>

definition reac_pacer_backend_resolve ::
    "(string \<Rightarrow> string option) \<Rightarrow> (string \<Rightarrow> string option) \<Rightarrow> string option \<Rightarrow> string option
     \<Rightarrow> pacer_backend_kind \<times> reac_conf_layer \<times> bool" where
  "reac_pacer_backend_resolve env fs segment home =
     (let (l, v) = reac_conf_lookup env fs (Some ''REACPW_PACER'') segment home 32 in
      if l = REAC_CONF_NONE then (REAC_PACER_BACKEND_ETF, l, True)
      else if v = Some ''etf'' then (REAC_PACER_BACKEND_ETF, l, True)
      else if v = Some ''thread'' then (REAC_PACER_BACKEND_THREAD, l, True)
      else (REAC_PACER_BACKEND_ETF, l, False))"

text \<open>\<^verbatim>\<open>strtol(v, &end, 10)\<close>: blanks, a sign, digits; the value saturates at the ends of a 64-bit \<^verbatim>\<open>long\<close>. The
  result is the value and what is left of the text, and the whole text is left when there is no digit.\<close>

definition c_isspace :: "char \<Rightarrow> bool" where
  "c_isspace c \<longleftrightarrow> c \<in> {CHR '' '', CHR 0x09, CHR 0x0A, CHR 0x0B, CHR 0x0C, CHR 0x0D}"

definition c_isdigit :: "char \<Rightarrow> bool" where
  "c_isdigit c \<longleftrightarrow> 48 \<le> (of_char c :: nat) \<and> (of_char c :: nat) \<le> 57"

definition dec_value :: "string \<Rightarrow> int" where
  "dec_value ds = foldl (\<lambda>n c. 10 * n + (of_char c - 48)) 0 ds"

abbreviation (input) LONG_MAX :: int where "LONG_MAX \<equiv> 9223372036854775807"

definition strtol10 :: "string \<Rightarrow> int \<times> string" where
  "strtol10 v =
     (let s = dropWhile c_isspace v;
          neg = (s \<noteq> [] \<and> hd s = CHR ''-'');
          s = (if s \<noteq> [] \<and> (hd s = CHR ''-'' \<or> hd s = CHR ''+'') then drop 1 s else s);
          ds = takeWhile c_isdigit s
      in if ds = [] then (0, v)
         else (max (- LONG_MAX - 1) (min LONG_MAX (if neg then - dec_value ds else dec_value ds)),
               dropWhile c_isdigit s))"

definition reac_pacer_lead_us_resolve ::
    "(string \<Rightarrow> string option) \<Rightarrow> (string \<Rightarrow> string option) \<Rightarrow> string option \<Rightarrow> string option
     \<Rightarrow> u32 \<times> reac_conf_layer \<times> bool" where
  "reac_pacer_lead_us_resolve env fs segment home =
     (let (l, v') = reac_conf_lookup env fs (Some ''REACPW_PACER_LEAD_US'') segment home 32 in
      if l = REAC_CONF_NONE then (REAC_ETF_LEAD_US_DEFAULT, l, True)
      else let v = (case v' of Some v \<Rightarrow> v | None \<Rightarrow> []);
               (n, end_ptr) = strtol10 v
           in if end_ptr = v \<or> end_ptr \<noteq> [] \<or> n \<le> 0 \<or> reac_etf_lead_check (word_of_int n) \<noteq> REAC_ETF_OK
              then (REAC_ETF_LEAD_US_DEFAULT, l, False)
              else (word_of_int n, l, True))"

datatype reac_etf_qdisc_state = REAC_ETF_QDISC_NONE | REAC_ETF_QDISC_PRESENT | REAC_ETF_QDISC_UNREADABLE

text \<open>Arming the backend: the lead kept in nanoseconds, or the refusal.\<close>

definition pacer_arm_etf :: "u32 \<Rightarrow> int \<Rightarrow> reac_etf_qdisc_state \<Rightarrow> int option \<Rightarrow> reac_etf_refusal \<times> u32 option" where
  "pacer_arm_etf lead_us tai q setopt =
     (let r = reac_etf_lead_check lead_us in
      if r \<noteq> REAC_ETF_OK then (r, None)
      else if tai < 0 then (REAC_ETF_REFUSE_NO_TAI_CLOCK, None)
      else if q = REAC_ETF_QDISC_NONE then (REAC_ETF_REFUSE_NO_QDISC, None)
      else let r = reac_etf_socket_arm tai setopt in
      if r \<noteq> REAC_ETF_OK then (r, None) else (REAC_ETF_OK, Some (lead_us * 1000)))"

text \<open>The handle's view of the backend, and the end of \<^verbatim>\<open>reac_pacer_open\<close> that decides it: refused outright, or
  opened with the backend that is on and the refusal it publishes.\<close>

record etf_handle =
  eh_etf_on :: bool
  eh_etf_lead_ns :: u32
  eh_etf_refusal :: "string option"

definition pacer_open_backend ::
    "(string \<Rightarrow> string option) \<Rightarrow> (string \<Rightarrow> string option) \<Rightarrow> string option \<Rightarrow> int \<Rightarrow> reac_etf_qdisc_state \<Rightarrow> int option
     \<Rightarrow> etf_handle option" where
  "pacer_open_backend env fs ifname tai q setopt =
     (let (be, lay, understood) = reac_pacer_backend_resolve env fs ifname None;
          h = \<lparr> eh_etf_on = False, eh_etf_lead_ns = 0, eh_etf_refusal = None \<rparr>
      in if be = REAC_PACER_BACKEND_ETF
         then let (lead_us, llay, lok) = reac_pacer_lead_us_resolve env fs ifname None;
                  (r, armed) = pacer_arm_etf lead_us tai q setopt
              in if r \<noteq> REAC_ETF_OK \<and> lay \<noteq> REAC_CONF_NONE then None
                 else if r \<noteq> REAC_ETF_OK then Some (h\<lparr> eh_etf_refusal := Some (reac_etf_refusal_name r) \<rparr>)
                 else (case armed of Some lead \<Rightarrow> Some (h\<lparr> eh_etf_on := True, eh_etf_lead_ns := lead \<rparr>)
                       | None \<Rightarrow> Some h)
         else Some h)"

definition reac_pacer_backend :: "etf_handle option \<Rightarrow> pacer_backend_kind" where
  "reac_pacer_backend h' =
     (case h' of Some h \<Rightarrow> if eh_etf_on h then REAC_PACER_BACKEND_ETF else REAC_PACER_BACKEND_THREAD
      | None \<Rightarrow> REAC_PACER_BACKEND_THREAD)"

definition reac_pacer_backend_refusal :: "etf_handle option \<Rightarrow> string option" where
  "reac_pacer_backend_refusal h' = (case h' of Some h \<Rightarrow> eh_etf_refusal h | None \<Rightarrow> None)"

section \<open>The grid is exact\<close>

definition grid_run :: "reac_etf_grid \<Rightarrow> int list \<Rightarrow> reac_etf_grid" where
  "grid_run g steers = foldl (\<lambda>g s. fst (reac_etf_grid_advance g s)) g steers"

text \<open>The grid after \<open>n\<close> nominal slots and steered slots worth \<open>acc\<close> nanoseconds.\<close>

definition grid_at :: "nat \<Rightarrow> nat \<Rightarrow> u64 \<Rightarrow> reac_etf_grid \<Rightarrow> bool" where
  "grid_at f n acc g \<longleftrightarrow>
     0 < f \<and> f < 2 ^ 31 \<and> unat (eg_fps g) = f \<and> unat (eg_whole g) = 1000000000 div f \<and> unat (eg_rem g) = 1000000000 mod f \<and>
     unat (eg_frac g) = n * (1000000000 mod f) mod f \<and>
     eg_launch_ns g = acc + of_nat (n * 1000000000 div f)"

lemma div_split_billion: "0 < f \<Longrightarrow> n * 1000000000 div f = n * (1000000000 div f) + n * (1000000000 mod f) div (f :: nat)"
proof -
  assume "0 < f"
  have "n * 1000000000 = n * (1000000000 mod f) + (n * (1000000000 div f)) * f"
    by (metis add_mult_distrib2 mod_div_mult_eq mult.assoc)
  then show ?thesis using \<open>0 < f\<close> by simp
qed

lemma div_mod_once:
  assumes "r < f" and "m < (f :: nat)"
  shows "(r + m) div f = (if f \<le> r + m then 1 else 0)" and "(r + m) mod f = (if f \<le> r + m then r + m - f else r + m)"
proof -
  have "r + m - f < f" using assms by linarith
  then show "(r + m) div f = (if f \<le> r + m then 1 else 0)"
    and "(r + m) mod f = (if f \<le> r + m then r + m - f else r + m)"
    using assms by (simp_all add: le_div_geq le_mod_geq not_le)
qed

lemma div_Suc_step:
  assumes "0 < f" and "m < f"
  shows "Suc n * m div f = n * m div f + (if f \<le> n * m mod f + m then 1 else 0)"
    and "Suc n * m mod f = (if f \<le> n * m mod f + m then n * m mod f + m - f else n * m mod f + (m :: nat))"
proof -
  have e: "Suc n * m = (n * m mod f + m) + (n * m div f) * f" by simp
  have "n * m mod f < f" using assms(1) by simp
  note once = div_mod_once [OF this assms(2)]
  have "Suc n * m div f = (n * m div f) + (n * m mod f + m) div f"
    unfolding e using assms(1) by (intro div_mult_self1) simp
  then show "Suc n * m div f = n * m div f + (if f \<le> n * m mod f + m then 1 else 0)" by (simp only: once)
  have "Suc n * m mod f = (n * m mod f + m) mod f" unfolding e by (rule mod_mult_self1)
  then show "Suc n * m mod f = (if f \<le> n * m mod f + m then n * m mod f + m - f else n * m mod f + m)"
    by (simp only: once)
qed

lemma unat_narrow: "unat (w :: u64) \<le> 1000000000 \<Longrightarrow> unat (ucast w :: u32) = unat w"
  by (simp add: unsigned_ucast_eq take_bit_nat_eq_self)

lemma grid_init_at:
  assumes "0 < fps" and "fps < 2 ^ 31"
  shows "grid_at (nat fps) 0 base (fst (reac_etf_grid_init fps base))"
proof -
  let ?f = "word_of_int fps :: u32"
  have f: "unat ?f = nat fps" using assms by (simp add: unsigned_of_int take_bit_int_eq_self nat_less_iff)
  then have f64: "unat (ucast ?f :: u64) = nat fps"
    using assms by (simp add: unsigned_ucast_eq take_bit_nat_eq_self nat_less_iff)
  have "unat ((1000000000 :: u64) div ucast ?f) = 1000000000 div nat fps"
    and "unat ((1000000000 :: u64) mod ucast ?f) = 1000000000 mod nat fps"
    by (simp_all add: unat_div_distrib unat_mod_distrib f64)
  moreover have "1000000000 div nat fps \<le> 1000000000" "1000000000 mod nat fps \<le> 1000000000" by simp_all
  ultimately have w: "unat (ucast ((1000000000 :: u64) div ucast ?f) :: u32) = 1000000000 div nat fps"
    and r: "unat (ucast ((1000000000 :: u64) mod ucast ?f) :: u32) = 1000000000 mod nat fps"
    using unat_narrow by metis+
  show ?thesis using assms f w r by (simp add: grid_at_def reac_etf_grid_init_def Let_def nat_less_iff)
qed

lemma sum_u32: "a < f \<Longrightarrow> b < f \<Longrightarrow> f < 2 ^ 31 \<Longrightarrow> a + b < (2 ^ 32 :: nat)"
  by simp

lemma grid_nominal_at:
  assumes "grid_at f n acc g" and "s \<le> 0"
  shows "grid_at f (Suc n) acc (fst (reac_etf_grid_advance g s))"
proof -
  let ?m = "1000000000 mod f :: nat"
  have f: "0 < f" "f < 2 ^ 31" and g: "unat (eg_fps g) = f" "unat (eg_whole g) = 1000000000 div f" "unat (eg_rem g) = ?m"
    "unat (eg_frac g) = n * ?m mod f" "eg_launch_ns g = acc + of_nat (n * 1000000000 div f)"
    using assms by (simp_all add: grid_at_def)
  have m: "?m < f" and lt: "n * ?m mod f < f" using f by simp_all
  have sm: "n * ?m mod f + ?m < 2 ^ 32" by (rule sum_u32 [OF lt m f(2)])
  have sum: "unat (eg_frac g + eg_rem g) = n * ?m mod f + ?m"
    using sm g by (simp add: unat_word_ariths)
  then have ge: "eg_frac g + eg_rem g \<ge> eg_fps g \<longleftrightarrow> f \<le> n * ?m mod f + ?m" by (simp add: word_le_nat_alt g)
  have dif: "unat (eg_frac g + eg_rem g - eg_fps g) = n * ?m mod f + ?m - f" if "f \<le> n * ?m mod f + ?m"
    using that sum g by (simp add: unat_sub_if')
  have wh: "ucast (eg_whole g) = (of_nat (1000000000 div f) :: u64)" 
    by (simp flip: g(2))
  have L: "(of_nat (Suc n * 1000000000 div f) :: u64) =
      of_nat (n * 1000000000 div f) + of_nat (1000000000 div f) + (if f \<le> n * ?m mod f + ?m then 1 else 0)"
    using div_split_billion [OF f(1), of "Suc n"] div_split_billion [OF f(1), of n] div_Suc_step(1) [OF f(1) m, of n]
    by (simp add: algebra_simps)
  show ?thesis using assms(2) f g sum ge dif wh L div_Suc_step(2) [OF f(1) m, of n]
    by (cases "f \<le> n * ?m mod f + ?m") (simp_all add: grid_at_def reac_etf_grid_advance_def Let_def algebra_simps)
qed

lemma grid_steered_at:
  assumes "grid_at f n acc g" and "0 < s"
  shows "grid_at f n (acc + word_of_int s) (fst (reac_etf_grid_advance g s))"
  using assms by (simp add: grid_at_def reac_etf_grid_advance_def Let_def)

lemma grid_run_at:
  assumes "grid_at f n acc g"
  shows "grid_at f (n + length (filter (\<lambda>s. s \<le> 0) steers)) (acc + word_of_int (\<Sum>s \<leftarrow> filter (\<lambda>s. 0 < s) steers. s))
    (grid_run g steers)"
  using assms
proof (induction steers arbitrary: n acc g)
  case (Cons s steers)
  show ?case
  proof (cases "0 < s")
    case True
    then show ?thesis using Cons.IH [OF grid_steered_at [OF Cons.prems True]]
      by (simp add: grid_run_def add.assoc)
  next
    case False
    then show ?thesis using Cons.IH [OF grid_nominal_at [OF Cons.prems, of s]] by (simp add: grid_run_def)
  qed
qed (simp add: grid_run_def)

text \<open>C21: The launch grid is exact. However many slots are advanced, some at the nominal pace and some steered by
  the clock discipline, the launch instant is the base plus the steered periods plus the floor of the nominal
  slots' ideal time: \<open>n\<close> nominal slots take \<open>n * 10 ^ 9 div fps\<close> nanoseconds (modulo the 64-bit clock), with no
  accumulated truncation.\<close>

theorem etf_grid_exact:
  assumes "0 < fps" and "fps < 2 ^ 31"
  shows "eg_launch_ns (grid_run (fst (reac_etf_grid_init fps base)) steers) =
    base + word_of_int (\<Sum>s \<leftarrow> filter (\<lambda>s. 0 < s) steers. s)
      + of_nat (length (filter (\<lambda>s. s \<le> 0) steers) * 1000000000 div nat fps)"
  using grid_run_at [OF grid_init_at [OF assms, of base], of steers] by (simp add: grid_at_def)

theorem etf_grid_exact_witness:
  "eg_launch_ns (grid_run (fst (reac_etf_grid_init 7350 1000)) [0, 0, 136000, 0]) =
    1000 + word_of_int (\<Sum>s \<leftarrow> filter (\<lambda>s. 0 < s) [0, 0, 136000, 0 :: int]. s)
      + of_nat (length (filter (\<lambda>s. s \<le> 0) [0, 0, 136000, 0 :: int]) * 1000000000 div nat 7350)"
  by (rule etf_grid_exact) simp_all

text \<open>Rebasing moves the instant and keeps the running remainder.\<close>

lemma etf_rebase_at:
  assumes "grid_at f n acc g"
  shows "grid_at f (Suc n) (now - of_nat (n * 1000000000 div f)) (reac_etf_grid_rebase g now)"
  unfolding reac_etf_grid_rebase_def
  using assms by (intro grid_nominal_at) (simp_all add: grid_at_def)

section \<open>Nobody runs unannounced\<close>

text \<open>The lead is always inside its bounds.\<close>

lemma lead_us_in_bounds:
  assumes "reac_pacer_lead_us_resolve env fs ifname home = (lead, l, ok)"
  shows "50 \<le> lead \<and> lead \<le> 50000"
proof -
  have "reac_etf_lead_check lead = REAC_ETF_OK"
    using assms unfolding reac_pacer_lead_us_resolve_def Let_def
    by (auto simp: reac_etf_lead_check_def split: prod.splits if_splits)
  then show ?thesis by (auto simp: reac_etf_lead_check_def not_less split: if_splits)
qed

lemma arm_etf_result:
  assumes "50 \<le> lead" and "lead \<le> 50000"
  shows "if 0 < tai \<and> q \<noteq> REAC_ETF_QDISC_NONE \<and> setopt = None
    then pacer_arm_etf lead tai q setopt = (REAC_ETF_OK, Some (lead * 1000)) \<and> 50000 \<le> lead * 1000 \<and> lead * 1000 \<le> 50000000
    else \<exists>r. pacer_arm_etf lead tai q setopt = (r, None) \<and> r \<noteq> REAC_ETF_OK"
proof -
  have "50000 \<le> lead * 1000 \<and> lead * 1000 \<le> 50000000"
    using assms by (simp add: word_le_nat_alt unat_word_ariths)
  moreover have "reac_etf_lead_check lead = REAC_ETF_OK" using assms by (auto simp: reac_etf_lead_check_def)
  ultimately show ?thesis by (auto simp: pacer_arm_etf_def reac_etf_socket_arm_def Let_def split: option.splits)
qed

text \<open>C20: The backend that opens follows from the configured word and the machine, and a change is never silent. When a
  layer of the configuration says \<open>thread\<close>, the thread backend runs and nothing is refused. When it says \<open>etf\<close>, or any
  other word (which the code's own message takes for \<open>thread\<close>), the kernel-timed backend runs or the open fails. When
  nothing is configured, the kernel-timed backend runs or the thread backend runs with the refusal published (a comment
  in the code says that the thread backend runs). The kernel-timed backend runs exactly when the TAI offset is set, the
  socket takes the option and the device is not known to lack the queueing discipline; its lead is then inside its
  bounds.\<close>

theorem backend_never_silent:
  fixes tai :: int and q :: reac_etf_qdisc_state and setopt :: "int option"
  assumes "reac_conf_lookup env fs (Some ''REACPW_PACER'') ifname None 32 = (lay, word)"
  defines "opened \<equiv> pacer_open_backend env fs ifname tai q setopt"
  shows "if lay \<noteq> REAC_CONF_NONE \<and> word = Some ''thread''
     then opened \<noteq> None \<and> reac_pacer_backend opened = REAC_PACER_BACKEND_THREAD \<and> reac_pacer_backend_refusal opened = None
     else if 0 < tai \<and> q \<noteq> REAC_ETF_QDISC_NONE \<and> setopt = None
     then (\<exists>h. opened = Some h \<and> reac_pacer_backend (Some h) = REAC_PACER_BACKEND_ETF \<and> reac_pacer_backend_refusal (Some h) = None
             \<and> 50000 \<le> eh_etf_lead_ns h \<and> eh_etf_lead_ns h \<le> 50000000)
     else if lay = REAC_CONF_NONE
     then opened \<noteq> None \<and> reac_pacer_backend opened = REAC_PACER_BACKEND_THREAD \<and> reac_pacer_backend_refusal opened \<noteq> None
     else opened = None"
proof -
  obtain lead llay lok where l: "reac_pacer_lead_us_resolve env fs ifname None = (lead, llay, lok)"
    by (cases "reac_pacer_lead_us_resolve env fs ifname None" rule: prod_cases3)
  have b: "50 \<le> lead" "lead \<le> 50000" using lead_us_in_bounds [OF l] by simp_all
  obtain be und where res: "reac_pacer_backend_resolve env fs ifname None = (be, lay, und)"
    and be: "be = REAC_PACER_BACKEND_THREAD \<longleftrightarrow> lay \<noteq> REAC_CONF_NONE \<and> word = Some ''thread''"
  proof -
    let ?thread = "lay \<noteq> REAC_CONF_NONE \<and> word = Some ''thread''"
    let ?und = "lay = REAC_CONF_NONE \<or> word = Some ''etf'' \<or> word = Some ''thread''"
    have "reac_pacer_backend_resolve env fs ifname None =
        (if ?thread then REAC_PACER_BACKEND_THREAD else REAC_PACER_BACKEND_ETF, lay, ?und)"
      using assms(1) by (auto simp: reac_pacer_backend_resolve_def)
    then show thesis using that by simp
  qed
  obtain r armed where arm: "pacer_arm_etf lead tai q setopt = (r, armed)" by (cases "pacer_arm_etf lead tai q setopt")
  have "be = REAC_PACER_BACKEND_THREAD \<or> be = REAC_PACER_BACKEND_ETF" by (cases be) simp_all
  then show ?thesis
    using be arm_etf_result [OF b, of tai q setopt]
    unfolding opened_def pacer_open_backend_def res l arm Let_def prod.case reac_pacer_backend_def reac_pacer_backend_refusal_def
    by (auto split: if_splits)
qed

theorem backend_never_silent_witness:
  "reac_pacer_backend_refusal
     (pacer_open_backend (\<lambda>_. None) (\<lambda>_. None) (Some ''eth0'') 37 REAC_ETF_QDISC_NONE None) \<noteq> None \<and>
   pacer_open_backend (\<lambda>k. if k = ''REACPW_PACER'' then Some ''etf'' else None) (\<lambda>_. None) (Some ''eth0'') 37 REAC_ETF_QDISC_NONE None = None \<and>
   reac_pacer_backend
     (pacer_open_backend (\<lambda>k. if k = ''REACPW_PACER'' then Some ''thread'' else None) (\<lambda>_. None) (Some ''eth0'') 37 REAC_ETF_QDISC_PRESENT None)
     = REAC_PACER_BACKEND_THREAD"
proof -
  have e: "reac_conf_lookup (\<lambda>_. None) (\<lambda>_. None) (Some ''REACPW_PACER'') (Some ''eth0'') None 32 = (REAC_CONF_NONE, None)"
    "reac_conf_lookup (\<lambda>k. if k = ''REACPW_PACER'' then Some ''etf'' else None) (\<lambda>_. None) (Some ''REACPW_PACER'') (Some ''eth0'') None 32
      = (REAC_CONF_ENV, Some ''etf'')"
    "reac_conf_lookup (\<lambda>k. if k = ''REACPW_PACER'' then Some ''thread'' else None) (\<lambda>_. None) (Some ''REACPW_PACER'') (Some ''eth0'') None 32
      = (REAC_CONF_ENV, Some ''thread'')"
    by code_simp+
  show ?thesis
    using backend_never_silent [OF e(1), of 37 REAC_ETF_QDISC_NONE None] backend_never_silent [OF e(2), of 37 REAC_ETF_QDISC_NONE None]
      backend_never_silent [OF e(3), of 37 REAC_ETF_QDISC_PRESENT None] by simp
qed

text \<open>A value of the lead whose low 32 bits are in range is taken, whatever the high ones are.\<close>

lemma lead_us_wraps:
  "reac_pacer_lead_us_resolve (\<lambda>k. if k = ''REACPW_PACER_LEAD_US'' then Some ''4294969796'' else None) (\<lambda>_. None) None None
     = (2500, REAC_CONF_ENV, True)"
  by code_simp

end
