(* ===== verification/Reac_Pacer_Open.thy ===== *)
theory Reac_Pacer_Open
  imports Reac_Pacer Reac_Etf Reac_Slave
begin

text \<open>
  Opening a pacer, \<^verbatim>\<open>reac_pacer_open\<close> of \<^verbatim>\<open>transport/src/reac_pacer.c\<close>: the cleared state, what the configuration
  sets in it, the resources it needs and the choice of the backend.

  The system calls are the fields of \<open>open_env\<close>: whether the allocation succeeds, the interface index, the socket,
  the handle, the hardware address, and what the choice of the backend reads. Scheduling (priority, processor) and
  the socket options are not modelled.
\<close>

record reac_pacer_cfg =
  pf_ifname :: "string option"
  pf_fps :: int
  pf_src_mac :: "mac option"
  pf_console :: reac_console_cfg
  pf_headamps :: "reac_headamp_setting list"
  pf_clock_follow :: bool
  pf_catchup_max_slots :: int
  pf_drivable_mask :: u32
  pf_rate_asserted :: bool

record open_env =
  oe_calloc_ok :: bool
  oe_ifindex :: u32
  oe_socket_ok :: bool
  oe_handle_ok :: bool
  oe_hw :: "(int \<times> mac) option"
  oe_getenv :: "string \<Rightarrow> string option"
  oe_files :: "string \<Rightarrow> string option"
  oe_tai :: int
  oe_qdisc :: reac_etf_qdisc_state
  oe_setopt :: "int option"

abbreviation (input) REAC_RATE_ALL_BITS :: u32 where "REAC_RATE_ALL_BITS \<equiv> 7"
abbreviation (input) REAC_PACER_SLOT_SZ :: u32 where "REAC_PACER_SLOT_SZ \<equiv> 2048"

definition event_zero :: reac_pacer_event where
  "event_zero = \<lparr> pe_mono_ns = 0, pe_kind = REAC_PEV_STATE, pe_a = 0, pe_b = 0, pe_src = replicate 6 0, pe_blk = replicate 32 0 \<rparr>"

text \<open>The state after \<^verbatim>\<open>memset\<close>, with the members every opening sets.\<close>

definition pacer_zero :: "reac_frame_ring \<Rightarrow> reac_master \<Rightarrow> mac \<Rightarrow> reac_pacer" where
  "pacer_zero ring m src =
     \<lparr> pk_ring = ring, pk_master = m, pk_on_session = False, pk_session_calls = [], pk_headamp = reac_headamp_tx_init,
       pk_period_ns = 0, pk_catchup_max_slots = 0, pk_catchup_max_slots_cfg = 0, pk_src = src, pk_tx_frames = 0,
       pk_tx_errors = 0, pk_late_wakes = 0, pk_slots_catchup = 0, pk_slots_dropped = 0, pk_slot_debt_max = 0,
       pk_health_win_ns = 0, pk_health_tx_frames = 0, pk_health_trim_frames = 0, pk_health_late_wakes = 0,
       pk_health_slots_dropped = 0, pk_health_slots_catchup = 0, pk_ring_trims = 0, pk_ring_trim_frames = 0,
       pk_ring_depth_peak = 0, pk_ring_depth_min = 0xffffffff, pk_graph_quantum = 0, pk_guard_kept = None,
       pk_fsm_state = REAC_M_IDLE, pk_rx_box_frames = 0, pk_rx_box_ctrl = 0, pk_rx_joins = 0, pk_recognized_box = None,
       pk_recognized_headamp_base = - 1, pk_recognized_box_mac = 0, pk_rx_identity = reac_identity_init,
       pk_identity_seq = 0, pk_declared_in = 0, pk_declared_out = 0, pk_grant_attempts = 0, pk_drops = replicate 8 0,
       pk_disco_gate = reac_disco_gate_init, pk_disco = reac_disco_table_init,
       pk_disco_peer_lock = reac_disco_peer_lock_init, pk_evring = replicate REAC_PACER_EVRING event_zero,
       pk_ev_head = 0, pk_ev_tail = 0, pk_ev_drops = 0, pk_ha_cmd = replicate REAC_HEADAMP_CMD_RING 0,
       pk_ha_cmd_head = 0, pk_ha_cmd_tail = 0, pk_ha_cmd_drops = 0, pk_ha_cmd_applied = 0, pk_rate_req_hz = 0,
       pk_rate_req_seq = 0, pk_rate_req_seen = 0, pk_reestab_cause = 0, pk_drivable_mask = 0, pk_rate_hz = 0,
       pk_rate_asserted = False, pk_rate_reestablishing = False, pk_clock_follow = False, pk_clock_present = 0,
       pk_clock_ppm_milli = (\<lambda>_. 0), pk_clock_stamp_ns = (\<lambda>_. 0), pk_clock_label = (\<lambda>_. \<lparr> lb_seq = 0, lb_name = [] \<rparr>),
       pk_clock_quality = (\<lambda>_. REAC_CLOCK_Q_UNUSABLE), pk_clock_pace = (REAC_CLOCK_SRC_FREERUN, REAC_CLOCK_UNLOCKED),
       pk_clock = reac_clock_disc_init REAC_ROLE_MASTER 0, pk_slot_period_ns = 0, pk_clock_slots = 0,
       pk_clock_gen_seen = 0, pk_clock_stamp_seen = (\<lambda>_. 0), pk_fps = 0, pk_prev_state = REAC_M_IDLE,
       pk_presence_seen = False, pk_rx_since_change = replicate 4 0, pk_probing_slots = 0, pk_last_chanmap_ns = 0,
       pk_log_last_ns = 0, pk_log_last_trims = 0,
       pk_discard = \<lparr> dw_win_ns = 0, dw_win_frames = 0, dw_run = 0, dw_warned = False \<rparr>,
       pk_rx_identity_frag = identity_frag_zero \<rparr>"

definition open_ring_depth :: "int \<Rightarrow> u32" where
  "open_ring_depth fps = (let depth = word_of_int (fps sdiv 4) :: u32 in if depth < 8 then 8 else depth)"

definition open_src :: "open_env \<Rightarrow> reac_pacer_cfg \<Rightarrow> mac" where
  "open_src env cfg =
     (case pf_src_mac cfg of Some m \<Rightarrow> take 6 m | None \<Rightarrow> snd (reac_mac_default_src (pf_ifname cfg) (oe_hw env)))"

text \<open>The pacer the configuration describes, before the resources are acquired.\<close>

definition open_state :: "pacer_world \<Rightarrow> open_env \<Rightarrow> reac_pacer_cfg \<Rightarrow> reac_frame_ring \<Rightarrow> reac_pacer" where
  "open_state w env cfg ring =
     (let src = open_src env cfg;
          fps = (if pf_fps cfg > 0 then pf_fps cfg else 8000);
          period = reac_pacer_period_ns (pf_fps cfg);
          ccfg = (if cc_out_channels (pf_console cfg) \<noteq> 0 then pf_console cfg else REAC_CONSOLE_CFG_IDLE)
                   \<lparr> cc_console_field := reac_pace_code (pf_fps cfg) \<rparr>;
          m = reac_master_init (pw_tunables w) (pw_scene_body w) src (Some ccfg) (pf_fps cfg);
          ha = foldl (\<lambda>t s. fst (reac_headamp_tx_set t (hs_ch s) (hs_param s) (hs_value s))) reac_headamp_tx_init
                 (pf_headamps cfg);
          ha = reac_headamp_tx_set_resweep ha (word_of_int fps * 0);
          p = (pacer_zero ring m src)\<lparr> pk_headamp := ha, pk_fps := fps, pk_period_ns := period,
                 pk_catchup_max_slots_cfg := pf_catchup_max_slots cfg,
                 pk_catchup_max_slots := resolve_catchup_slots (pf_catchup_max_slots cfg) (pf_fps cfg),
                 pk_drivable_mask := (if pf_drivable_mask cfg \<noteq> 0 then pf_drivable_mask cfg else REAC_RATE_ALL_BITS),
                 pk_rate_hz := pf_fps cfg * REAC_SAMPLES_PER_PKT, pk_rate_asserted := pf_rate_asserted cfg,
                 pk_clock_follow := pf_clock_follow cfg, pk_slot_period_ns := period,
                 pk_clock := reac_clock_disc_init REAC_ROLE_MASTER period \<rparr>
      in p\<lparr> pk_master := reac_master_set_headamp_src (pacer_env w p) (pk_master p) (Some 0) \<rparr>)"

definition reac_pacer_open :: "pacer_world \<Rightarrow> open_env \<Rightarrow> reac_pacer_cfg \<Rightarrow> (reac_pacer \<times> etf_handle) option" where
  "reac_pacer_open w env cfg =
     (case reac_frame_ring_init (oe_calloc_ok env) (open_ring_depth (pf_fps cfg)) REAC_PACER_SLOT_SZ of
        None \<Rightarrow> None
      | Some ring \<Rightarrow>
          let p = open_state w env cfg ring in
          if oe_ifindex env = 0 \<or> \<not> oe_socket_ok env \<or> \<not> oe_handle_ok env then None
          else map_option (\<lambda>h. (p, h))
                 (pacer_open_backend (oe_getenv env) (oe_files env) (pf_ifname cfg) (oe_tai env) (oe_qdisc env) (oe_setopt env)))"

definition reac_pacer_submit :: "reac_pacer \<Rightarrow> bytes \<Rightarrow> u16 \<Rightarrow> reac_pacer \<times> int" where
  "reac_pacer_submit p frame n =
     (let (r, ok) = reac_frame_ring_push (pk_ring p) frame n in (p\<lparr> pk_ring := r \<rparr>, ok))"

text \<open>A negative frame rate falls back to 8000 everywhere but in the depth of the ring, whose slot count then
  wraps to none.\<close>

lemma negative_fps_ring:
  assumes "reac_frame_ring_init True (open_ring_depth (- 4)) 2048 = Some r"
  shows "fr_slots r = 0 \<and> fr_mask r = 0xffffffff \<and> fr_buf r = []"
proof -
  have "open_ring_depth (- 4) = 0xffffffff" by (simp add: open_ring_depth_def Let_def signed_divide_int_def)
  moreover have "frame_next_pow2 0xffffffff = 0" by (simp add: frame_next_pow2_def Let_def)
  ultimately show ?thesis using assms by (auto simp: reac_frame_ring_init_def Let_def)
qed

end
