(* ===== verification/Reac_Pacer_Queue.thy ===== *)
theory Reac_Pacer_Queue
  imports Reac_Pacer_Open
begin

text \<open>
  The two rings of the pacer that are indexed by free-running 32-bit counters: the event log, written by the
  pacing thread and drained by the housekeeping, and the head-amp commands, written by the control thread and
  drained by the pacing thread. Locale \<open>index_ring\<close> is their common contract; both interpret it.
\<close>

section \<open>A ring of 128 slots under wrapping counters\<close>

definition ring_items :: "'a list \<Rightarrow> u32 \<Rightarrow> u32 \<Rightarrow> 'a list" where
  "ring_items buf h t = map (\<lambda>i. buf ! ((unat t + i) mod 128)) [0..<unat (h - t)]"

lemma unat_add_mod128: "unat (a + b :: u32) mod 128 = (unat a + unat b) mod 128"
proof -
  have "(128 :: nat) dvd 2 ^ 32" by simp
  then show ?thesis by (simp add: unat_word_ariths mod_mod_cancel)
qed

lemma ring_items_push:
  assumes "length buf = 128" and "unat (h - t) < 128"
  shows "ring_items (buf[unat h mod 128 := x]) (h + 1) t = ring_items buf h t @ [x]"
proof -
  let ?n = "unat (h - t)"
  have h: "unat h mod 128 = (unat t + ?n) mod 128" using unat_add_mod128 [of t "h - t"] by simp
  have n': "unat (h + 1 - t) = Suc ?n"
  proof -
    have "h + 1 - t = (h - t) + 1" by simp
    moreover have "unat ((h - t) + 1) = Suc ?n" using assms(2) by (simp add: unat_word_ariths)
    ultimately show ?thesis by (simp only:)
  qed
  have ne: "(unat t + ?n) mod 128 \<noteq> (unat t + i) mod 128" if "i < ?n" for i
  proof
    assume "(unat t + ?n) mod 128 = (unat t + i) mod 128"
    then have "(unat t mod 128 + ?n) mod 128 = (unat t mod 128 + i) mod 128" by (simp only: mod_add_left_eq)
    moreover have "unat t mod 128 < 128" and "i < 128" using that assms(2) by simp_all
    ultimately have "i = ?n" using ring_dist_add [of "unat t mod 128" 128] assms(2) by metis
    then show False using that by simp
  qed
  show ?thesis using ne assms(1) by (simp add: ring_items_def n' h nth_list_update)
qed

lemma ring_items_pop:
  assumes "t \<noteq> h"
  shows "ring_items buf h t = buf ! (unat t mod 128) # ring_items buf h (t + 1)"
proof -
  have "h - t \<noteq> 0" using assms by simp
  then have "0 < unat (h - t)" and "unat (h - t - 1) = unat (h - t) - 1"
    by (simp_all add: unat_minus_one unat_gt_0)
  moreover have "h - (t + 1) = h - t - 1" by simp
  ultimately have n: "unat (h - t) = Suc (unat (h - (t + 1)))" by (simp only:)
  have "(unat (t + 1) + i) mod 128 = (unat t + Suc i) mod 128" for i
    using mod_add_cong [OF unat_add_mod128 [of t 1] refl, of i] by simp
  then show ?thesis by (simp add: ring_items_def n upt_conv_Cons map_Suc_upt [symmetric] o_def del: upt_Suc)
qed

lemma ring_items_length: "length (ring_items buf h t) = unat (h - t)"
  by (simp add: ring_items_def)

lemma ring_items_empty [simp]: "ring_items buf t t = []"
  by (simp add: ring_items_def)

locale index_ring =
  fixes buf :: "'s \<Rightarrow> 'a list" and head_of :: "'s \<Rightarrow> u32" and tail_of :: "'s \<Rightarrow> u32"
    and item :: "'x \<Rightarrow> 'a" and push :: "'x \<Rightarrow> 's \<Rightarrow> 's" and pop :: "'s \<Rightarrow> 's"
  assumes push_full: "128 \<le> unat (head_of s - tail_of s) \<Longrightarrow>
      buf (push x s) = buf s \<and> head_of (push x s) = head_of s \<and> tail_of (push x s) = tail_of s"
    and push_room: "unat (head_of s - tail_of s) < 128 \<Longrightarrow>
      buf (push x s) = (buf s)[unat (head_of s) mod 128 := item x] \<and> head_of (push x s) = head_of s + 1
        \<and> tail_of (push x s) = tail_of s"
    and pop_slot: "buf (pop s) = buf s \<and> head_of (pop s) = head_of s \<and> tail_of (pop s) = tail_of s + 1"
begin

definition items :: "'s \<Rightarrow> 'a list" where
  "items s = ring_items (buf s) (head_of s) (tail_of s)"

definition ok :: "'s \<Rightarrow> bool" where
  "ok s \<longleftrightarrow> length (buf s) = 128 \<and> length (items s) \<le> 128"

lemma items_count: "length (items s) = unat (head_of s - tail_of s)"
  by (simp add: items_def ring_items_length)

lemma push_items:
  assumes "ok s"
  shows "ok (push x s)" and "items (push x s) = (if length (items s) < 128 then items s @ [item x] else items s)"
proof -
  have e: "items (push x s) = (if length (items s) < 128 then items s @ [item x] else items s) \<and> length (buf (push x s)) = 128"
  proof (cases "length (items s) < 128")
    case True
    then show ?thesis using push_room [of s x] assms ring_items_push [of "buf s" "head_of s" "tail_of s" "item x"]
      by (simp add: ok_def items_def ring_items_length)
  next
    case False
    then show ?thesis using push_full [of s x] assms by (simp add: ok_def items_def ring_items_length)
  qed
  then show "items (push x s) = (if length (items s) < 128 then items s @ [item x] else items s)" by blast
  show "ok (push x s)" using e assms by (auto simp: ok_def)
qed

lemma push_all:
  assumes "ok s"
  shows "ok (foldl (\<lambda>s x. push x s) s xs) \<and> items (foldl (\<lambda>s x. push x s) s xs) = take 128 (items s @ map item xs)"
  using assms
proof (induction xs arbitrary: s)
  case (Cons x xs)
  have "ok (push x s)" using push_items(1) [OF Cons.prems] .
  note ih = Cons.IH [OF this]
  have "length (items s) \<le> 128" using Cons.prems by (simp add: ok_def)
  then show ?case using ih push_items(2) [OF Cons.prems, of x] by (auto simp: not_less take_Cons')
qed (simp add: ok_def)

lemma pop_items:
  assumes "items s \<noteq> []"
  shows "items s = buf s ! (unat (tail_of s) mod 128) # items (pop s)"
proof -
  have "tail_of s \<noteq> head_of s" using assms by (auto simp: items_def)
  then show ?thesis using ring_items_pop [of "tail_of s" "head_of s" "buf s"] pop_slot [of s] by (simp add: items_def)
qed

lemma pop_n: "n \<le> length (items s) \<Longrightarrow> items ((pop ^^ n) s) = drop n (items s) \<and> buf ((pop ^^ n) s) = buf s"
proof (induction n)
  case (Suc n)
  then have ih: "items ((pop ^^ n) s) = drop n (items s)" "buf ((pop ^^ n) s) = buf s" by simp_all
  then have "items ((pop ^^ n) s) \<noteq> []" using Suc.prems by simp
  from pop_items [OF this] have "items (pop ((pop ^^ n) s)) = tl (drop n (items s))" using ih by (metis list.sel(3))
  then show ?case using pop_slot [of "(pop ^^ n) s"] ih by (simp add: drop_Suc tl_drop)
qed simp

lemma drained:
  "ok s \<Longrightarrow> items ((pop ^^ unat (head_of s - tail_of s)) s) = [] \<and> ok ((pop ^^ unat (head_of s - tail_of s)) s)"
  using pop_n [of "length (items s)" s] by (simp add: ok_def items_count)

end

section \<open>The event log\<close>

type_synonym pev_args = "u64 \<times> reac_pacer_evkind \<times> u8 \<times> u8 \<times> mac option \<times> bytes option"

definition pev_event :: "pev_args \<Rightarrow> reac_pacer_event" where
  "pev_event x = (case x of (now, kind, a, b, src, blk) \<Rightarrow>
     \<lparr> pe_mono_ns = now, pe_kind = kind, pe_a = a, pe_b = b,
       pe_src = (case src of Some s \<Rightarrow> take 6 s | None \<Rightarrow> replicate 6 0),
       pe_blk = (case blk of Some y \<Rightarrow> take 32 y | None \<Rightarrow> replicate 32 0) \<rparr>)"

definition pev_put :: "pev_args \<Rightarrow> reac_pacer \<Rightarrow> reac_pacer" where
  "pev_put x p = (case x of (now, kind, a, b, src, blk) \<Rightarrow> pev_push now p kind a b src blk)"

lemma u32_ge_128: "(128 :: u32) \<le> w \<longleftrightarrow> 128 \<le> unat w"
  by (simp add: word_le_nat_alt)

lemma drain_event_slot:
  "pk_evring (drain_event p) = pk_evring p" "pk_ev_head (drain_event p) = pk_ev_head p"
  "pk_ev_tail (drain_event p) = pk_ev_tail p + 1"
  by (simp_all add: drain_event_def Let_def split_beta)

interpretation event_log: index_ring pk_evring pk_ev_head pk_ev_tail pev_event pev_put drain_event
proof
  fix p :: reac_pacer and x :: pev_args
  obtain now kind a b src blk where x: "x = (now, kind, a, b, src, blk)" by (rule prod_cases6)
  show "pk_evring (pev_put x p) = pk_evring p \<and> pk_ev_head (pev_put x p) = pk_ev_head p \<and> pk_ev_tail (pev_put x p) = pk_ev_tail p"
    if "128 \<le> unat (pk_ev_head p - pk_ev_tail p)"
    using that by (simp add: x pev_put_def pev_push_def Let_def u32_ge_128)
  show "pk_evring (pev_put x p) = (pk_evring p)[unat (pk_ev_head p) mod 128 := pev_event x] \<and>
      pk_ev_head (pev_put x p) = pk_ev_head p + 1 \<and> pk_ev_tail (pev_put x p) = pk_ev_tail p"
    if "unat (pk_ev_head p - pk_ev_tail p) < 128"
    using that by (simp add: x pev_put_def pev_push_def pev_event_def Let_def u32_ge_128)
  show "pk_evring (drain_event p) = pk_evring p \<and> pk_ev_head (drain_event p) = pk_ev_head p \<and>
      pk_ev_tail (drain_event p) = pk_ev_tail p + 1"
    by (simp add: drain_event_slot)
qed

section \<open>The head-amp commands\<close>

definition headamp_put :: "u8 \<times> u8 \<times> u8 \<Rightarrow> reac_pacer \<Rightarrow> reac_pacer" where
  "headamp_put x p = (case x of (ch, param, val) \<Rightarrow> fst (reac_pacer_headamp_set p ch param val))"

definition headamp_word :: "u8 \<times> u8 \<times> u8 \<Rightarrow> u32" where
  "headamp_word x = (case x of (ch, param, val) \<Rightarrow> reac_headamp_pack ch param val)"

lemma headamp_take_slot:
  "pk_ha_cmd (headamp_take p) = pk_ha_cmd p" "pk_ha_cmd_head (headamp_take p) = pk_ha_cmd_head p"
  "pk_ha_cmd_tail (headamp_take p) = pk_ha_cmd_tail p + 1"
  by (simp_all add: headamp_take_def Let_def split_beta)

interpretation headamp_cmds: index_ring pk_ha_cmd pk_ha_cmd_head pk_ha_cmd_tail headamp_word headamp_put headamp_take
proof
  fix p :: reac_pacer and x :: "u8 \<times> u8 \<times> u8"
  obtain ch param val where x: "x = (ch, param, val)" by (rule prod_cases3)
  show "pk_ha_cmd (headamp_put x p) = pk_ha_cmd p \<and> pk_ha_cmd_head (headamp_put x p) = pk_ha_cmd_head p \<and>
      pk_ha_cmd_tail (headamp_put x p) = pk_ha_cmd_tail p"
    if "128 \<le> unat (pk_ha_cmd_head p - pk_ha_cmd_tail p)"
    using that by (simp add: x headamp_put_def reac_pacer_headamp_set_def Let_def u32_ge_128)
  show "pk_ha_cmd (headamp_put x p) = (pk_ha_cmd p)[unat (pk_ha_cmd_head p) mod 128 := headamp_word x] \<and>
      pk_ha_cmd_head (headamp_put x p) = pk_ha_cmd_head p + 1 \<and> pk_ha_cmd_tail (headamp_put x p) = pk_ha_cmd_tail p"
    if "unat (pk_ha_cmd_head p - pk_ha_cmd_tail p) < 128"
    using that by (simp add: x headamp_put_def reac_pacer_headamp_set_def headamp_word_def Let_def u32_ge_128)
  show "pk_ha_cmd (headamp_take p) = pk_ha_cmd p \<and> pk_ha_cmd_head (headamp_take p) = pk_ha_cmd_head p \<and>
      pk_ha_cmd_tail (headamp_take p) = pk_ha_cmd_tail p + 1"
    by (simp add: headamp_take_slot)
qed

text \<open>Draining applies the waiting commands to the table, oldest first.\<close>

lemma unpack_pack: "reac_headamp_unpack (headamp_word x) = x"
  by (cases x) (simp add: headamp_word_def headamp_pack_roundtrip)

lemma take_headamp:
  "headamp_cmds.items p = headamp_word c # q \<Longrightarrow>
     headamp_cmds.items (headamp_take p) = q \<and>
     pk_headamp (headamp_take p) = fst (reac_headamp_tx_set (pk_headamp p) (fst c) (fst (snd c)) (snd (snd c)))"
  using headamp_cmds.pop_items [of p] unpack_pack [of c] by (simp add: headamp_take_def Let_def split_beta)

lemma take_all_headamp:
  "headamp_cmds.items p = map headamp_word cs \<Longrightarrow>
     pk_headamp ((headamp_take ^^ length cs) p) =
       foldl (\<lambda>t (ch, param, val). fst (reac_headamp_tx_set t ch param val)) (pk_headamp p) cs"
proof (induction cs arbitrary: p)
  case (Cons c cs)
  then have "headamp_cmds.items (headamp_take p) = map headamp_word cs"
    and "pk_headamp (headamp_take p) = fst (reac_headamp_tx_set (pk_headamp p) (fst c) (fst (snd c)) (snd (snd c)))"
    using take_headamp [of p c] by simp_all
  then show ?case using Cons.IH [of "headamp_take p"] by (simp add: funpow_swap1 split_beta)
qed simp

fun headamp_puts :: "reac_pacer \<Rightarrow> (u8 \<times> u8 \<times> u8) list \<Rightarrow> reac_pacer \<times> int list" where
  "headamp_puts p [] = (p, [])"
| "headamp_puts p ((ch, param, val) # cs) =
     (let (p, ok) = reac_pacer_headamp_set p ch param val; (p, oks) = headamp_puts p cs in (p, ok # oks))"

lemma headamp_puts_fst: "fst (headamp_puts p cs) = foldl (\<lambda>p c. headamp_put c p) p cs"
proof (induction cs arbitrary: p)
  case (Cons c cs)
  then show ?case by (cases c) (simp add: Let_def split_beta headamp_put_def)
qed simp

lemma headamp_set_answer:
  assumes "headamp_cmds.ok p"
  shows "snd (reac_pacer_headamp_set p ch param val) = (if length (headamp_cmds.items p) < 128 then 1 else 0)"
    and "pk_headamp (fst (reac_pacer_headamp_set p ch param val)) = pk_headamp p"
  using assms by (simp_all add: reac_pacer_headamp_set_def Let_def u32_ge_128 headamp_cmds.items_count)

lemma headamp_puts_answers:
  assumes "headamp_cmds.ok p"
  shows "snd (headamp_puts p cs) =
      map (\<lambda>i. if length (headamp_cmds.items p) + i < 128 then 1 else 0) [0..<length cs]
    \<and> pk_headamp (fst (headamp_puts p cs)) = pk_headamp p"
  using assms
proof (induction cs arbitrary: p)
  case (Cons c cs)
  obtain ch param val where c: "c = (ch, param, val)" by (rule prod_cases3)
  define p1 where "p1 = fst (reac_pacer_headamp_set p ch param val)"
  have p1: "p1 = headamp_put (ch, param, val) p" by (simp add: p1_def headamp_put_def)
  note put = headamp_cmds.push_items [OF Cons.prems, of "(ch, param, val)", folded p1]
  have ih: "snd (headamp_puts p1 cs) = map (\<lambda>i. if length (headamp_cmds.items p1) + i < 128 then 1 else 0) [0..<length cs]
      \<and> pk_headamp (fst (headamp_puts p1 cs)) = pk_headamp p1"
    using Cons.IH [OF put(1)] .
  have le: "length (headamp_cmds.items p) \<le> 128" using Cons.prems by (simp add: headamp_cmds.ok_def)
  have "(length (headamp_cmds.items p1) + i < 128) = (length (headamp_cmds.items p) + Suc i < 128)" for i
    using put(2) le by auto
  then show ?case using ih headamp_set_answer [OF Cons.prems, of ch param val]
    by (simp add: c Let_def split_beta p1_def [symmetric] upt_conv_Cons map_Suc_upt [symmetric] o_def del: upt_Suc)
qed simp

text \<open>Head-amp commands reach the table in order. With an empty command ring, whatever commands the control
  thread sets before the next slot, the first 128 are accepted and every later one is refused (and says so); the
  drain applies exactly the accepted ones, in the order they were set, and leaves the ring empty.\<close>

theorem headamp_commands_in_order:
  assumes "length (pk_ha_cmd p) = 128" and "pk_ha_cmd_head p = pk_ha_cmd_tail p"
    and "headamp_puts p cs = (p1, answers)" and "reac_pacer_headamp_drain p1 = (p2, n)"
  shows "answers = map (\<lambda>i. if i < 128 then 1 else 0) [0..<length cs] \<and> n = min 128 (length cs) \<and>
    pk_headamp p2 = foldl (\<lambda>t (ch, param, val). fst (reac_headamp_tx_set t ch param val)) (pk_headamp p) (take 128 cs) \<and>
    pk_ha_cmd_head p2 = pk_ha_cmd_tail p2"
proof -
  have emp: "headamp_cmds.items p = []" and ok: "headamp_cmds.ok p"
    using assms(1,2) by (simp_all add: headamp_cmds.items_def headamp_cmds.ok_def)
  have p1: "p1 = foldl (\<lambda>p c. headamp_put c p) p cs" using headamp_puts_fst [of p cs] assms(3) by simp
  have its: "headamp_cmds.ok p1" "headamp_cmds.items p1 = map headamp_word (take 128 cs)"
    using headamp_cmds.push_all [OF ok, of cs] by (simp_all add: p1 emp take_map)
  have ha: "answers = map (\<lambda>i. if i < 128 then 1 else 0) [0..<length cs]" "pk_headamp p1 = pk_headamp p"
    using headamp_puts_answers [OF ok, of cs] assms(3) by (simp_all add: emp)
  have n: "n = unat (pk_ha_cmd_head p1 - pk_ha_cmd_tail p1)" "n = length (take 128 cs)"
    using assms(4) its(2) headamp_cmds.items_count [of p1] by (auto simp: reac_pacer_headamp_drain_def Let_def)
  define q where "q = (headamp_take ^^ n) p1"
  have p2: "p2 = (if n \<noteq> 0 then q\<lparr> pk_ha_cmd_applied := pk_ha_cmd_applied q + of_nat n \<rparr> else q)"
    using assms(4) n(1) by (auto simp: reac_pacer_headamp_drain_def Let_def q_def)
  have "pk_headamp q = foldl (\<lambda>t (ch, param, val). fst (reac_headamp_tx_set t ch param val)) (pk_headamp p) (take 128 cs)"
    using take_all_headamp [OF its(2)] n(2) ha(2) by (simp add: q_def)
  moreover have "headamp_cmds.items q = []" using headamp_cmds.drained [OF its(1)] n(1) by (simp add: q_def)
  then have "pk_ha_cmd_head q = pk_ha_cmd_tail q" using headamp_cmds.items_count [of q] by (simp add: unat_eq_zero)
  ultimately show ?thesis using ha(1) n(2) by (simp add: p2 min.commute)
qed

definition demo_pacer :: reac_pacer where
  "demo_pacer = pacer_zero (the (reac_frame_ring_init True 8 2048)) master_zero [0, 0x40, 0xab, 1, 2, 3]"

lemma demo_pacer_rings:
  "length (pk_ha_cmd demo_pacer) = 128" "pk_ha_cmd_head demo_pacer = pk_ha_cmd_tail demo_pacer"
  "length (pk_evring demo_pacer) = 128" "pk_ev_head demo_pacer = pk_ev_tail demo_pacer"
  by (simp_all add: demo_pacer_def pacer_zero_def)

theorem headamp_commands_in_order_witness:
  "snd (reac_pacer_headamp_drain (fst (headamp_puts demo_pacer [(3, 0, 1), (3, 2, 20)]))) = 2"
proof -
  obtain p1 answers where a: "headamp_puts demo_pacer [(3, 0, 1), (3, 2, 20)] = (p1, answers)" by (rule prod.exhaust)
  obtain p2 n where d: "reac_pacer_headamp_drain p1 = (p2, n)" by (rule prod.exhaust)
  show ?thesis using headamp_commands_in_order [OF demo_pacer_rings(1,2) a d] unfolding a d fst_conv snd_conv by simp
qed

section \<open>Draining the event log\<close>

definition observe_event :: "reac_pacer \<Rightarrow> reac_disco_table \<Rightarrow> reac_pacer_event \<Rightarrow> reac_disco_table" where
  "observe_event p d e =
     (if pe_kind e = REAC_PEV_SIGHTING
      then case event_sighting p e of (s, owned) \<Rightarrow> fst (reac_disco_table_observe d s owned (pe_mono_ns e)) else d)"

definition sighting_view :: "reac_pacer \<Rightarrow> reac_master \<times> int \<times> int \<times> reac_identity" where
  "sighting_view p = (pk_master p, pk_declared_in p, pk_declared_out p, pk_rx_identity p)"

lemma observe_event_view: "sighting_view p = sighting_view q \<Longrightarrow> observe_event p = observe_event q"
  by (intro ext) (simp add: observe_event_def event_sighting_def sighting_view_def Let_def)

lemma drain_event_view [simp]: "sighting_view (drain_event p) = sighting_view p"
  by (simp add: sighting_view_def drain_event_def Let_def split_beta)

lemma drain_event_disco:
  assumes "event_log.items p = e # es"
  shows "pk_disco (drain_event p) = observe_event p (pk_disco p) e" and "event_log.items (drain_event p) = es"
proof -
  have e: "pk_evring p ! (unat (pk_ev_tail p) mod 128) = e" and es: "event_log.items (drain_event p) = es"
    using event_log.pop_items [of p] assms by simp_all
  show "event_log.items (drain_event p) = es" by (rule es)
  have "observe_event (p\<lparr> pk_ev_tail := pk_ev_tail p + 1 \<rparr>) = observe_event p"
    by (rule observe_event_view) (simp add: sighting_view_def)
  then have "observe_event p (pk_disco p) e = observe_event (p\<lparr> pk_ev_tail := pk_ev_tail p + 1 \<rparr>) (pk_disco p) e" by simp
  then show "pk_disco (drain_event p) = observe_event p (pk_disco p) e"
    by (simp add: drain_event_def Let_def e split_beta observe_event_def [of "p\<lparr> pk_ev_tail := pk_ev_tail p + 1 \<rparr>"])
qed

lemma drain_all_disco:
  "event_log.items p = es \<Longrightarrow> pk_disco ((drain_event ^^ length es) p) = foldl (observe_event p) (pk_disco p) es"
proof (induction es arbitrary: p)
  case (Cons e es)
  note d = drain_event_disco [OF Cons.prems]
  have "observe_event (drain_event p) = observe_event p" by (rule observe_event_view) simp
  then show ?case using Cons.IH [OF d(2)] d(1) by (simp add: funpow_swap1)
qed simp

lemma pev_put_frame:
  "pk_disco (pev_put x p) = pk_disco p" "sighting_view (pev_put x p) = sighting_view p"
  by (cases x rule: prod_cases6; simp add: pev_put_def pev_push_def Let_def sighting_view_def)+

lemma pev_puts_frame:
  "pk_disco (foldl (\<lambda>p x. pev_put x p) p xs) = pk_disco p"
  "sighting_view (foldl (\<lambda>p x. pev_put x p) p xs) = sighting_view p"
  by (induction xs arbitrary: p) (simp_all add: pev_put_frame)

lemma pev_put_drops:
  "event_log.ok p \<Longrightarrow> pk_ev_drops (pev_put x p) = pk_ev_drops p + (if length (event_log.items p) < 128 then 0 else 1)"
  by (cases x rule: prod_cases6) (simp add: pev_put_def pev_push_def Let_def u32_ge_128 event_log.items_count not_less)

lemma pev_puts_drops:
  "event_log.ok p \<Longrightarrow>
     pk_ev_drops (foldl (\<lambda>p x. pev_put x p) p xs) = pk_ev_drops p + of_nat (length (event_log.items p) + length xs - 128)"
proof (induction xs arbitrary: p)
  case Nil
  then show ?case by (simp add: event_log.ok_def)
next
  case (Cons x xs)
  have "length (event_log.items p) \<le> 128" using Cons.prems by (simp add: event_log.ok_def)
  moreover note event_log.push_items [OF Cons.prems, of x]
  moreover note pev_put_drops [OF Cons.prems, of x]
  ultimately show ?case using Cons.IH [of "pev_put x p"]
    by (cases "length (event_log.items p) < 128") (auto simp: algebra_simps)
qed

text \<open>The event log is drained whole and in order, oldest kept. With an empty log, whatever events the pacing
  thread pushes, the next drain handles the first 128 of them in the order they were pushed (each sighting enters
  the table of stations at its own time, with what is known of our own box filled in, and the table is then aged),
  counts them, leaves the log empty, and the events beyond 128 are the ones counted as dropped.\<close>

theorem event_log_drained_in_order:
  assumes "length (pk_evring p) = 128" and "pk_ev_head p = pk_ev_tail p"
    and "p1 = foldl (\<lambda>p x. pev_put x p) p xs" and "reac_pacer_log_drain now p1 = (p2, n, warn)"
  shows "n = min 128 (length xs) \<and> pk_ev_head p2 = pk_ev_tail p2 \<and>
    pk_ev_drops p1 = pk_ev_drops p + of_nat (length xs - 128) \<and>
    pk_disco p2 = fst (reac_disco_table_age (foldl (observe_event p) (pk_disco p) (map pev_event (take 128 xs))) now)"
proof -
  have emp: "event_log.items p = []" and ok: "event_log.ok p"
    using assms(1,2) by (simp_all add: event_log.items_def event_log.ok_def)
  have its: "event_log.ok p1" "event_log.items p1 = map pev_event (take 128 xs)"
    using event_log.push_all [OF ok, of xs] by (simp_all add: assms(3) emp take_map)
  define k where "k = unat (pk_ev_head p1 - pk_ev_tail p1)"
  define q where "q = (drain_event ^^ k) p1"
  have k: "k = length (map pev_event (take 128 xs))" using event_log.items_count [of p1] its(2) by (simp add: k_def)
  have obs: "observe_event p1 = observe_event p"
    by (rule observe_event_view) (simp add: assms(3) pev_puts_frame)
  have d: "pk_disco q = foldl (observe_event p) (pk_disco p) (map pev_event (take 128 xs))"
    using drain_all_disco [OF its(2)] obs unfolding q_def k by (simp add: assms(3) pev_puts_frame)
  have "event_log.items q = []" using event_log.drained [OF its(1)] by (simp add: q_def k_def)
  then have e: "pk_ev_head q = pk_ev_tail q" using event_log.items_count [of q] by (simp add: unat_eq_zero)
  have "n = k \<and> pk_ev_head p2 = pk_ev_head q \<and> pk_ev_tail p2 = pk_ev_tail q \<and>
      pk_disco p2 = fst (reac_disco_table_age (pk_disco q) now)"
    using assms(4) unfolding reac_pacer_log_drain_def k_def [symmetric] q_def [symmetric] Let_def
    by (auto simp: split_beta)
  moreover have "pk_ev_drops p1 = pk_ev_drops p + of_nat (length xs - 128)"
    using pev_puts_drops [OF ok, of xs] by (simp add: assms(3) emp)
  ultimately show ?thesis using d e k by (simp add: min.commute)
qed

theorem event_log_drained_in_order_witness:
  "fst (snd (reac_pacer_log_drain 5 (foldl (\<lambda>p x. pev_put x p) demo_pacer
      [(1, REAC_PEV_WATCHDOG, 0, 0, None, None), (2, REAC_PEV_JOIN, 1, 1, None, None)]))) = 2"
proof -
  let ?p1 = "foldl (\<lambda>p x. pev_put x p) demo_pacer [(1, REAC_PEV_WATCHDOG, 0, 0, None, None), (2, REAC_PEV_JOIN, 1, 1, None, None)]"
  obtain p2 n warn where d: "reac_pacer_log_drain 5 ?p1 = (p2, n, warn)" by (rule prod_cases3)
  show ?thesis using event_log_drained_in_order [OF demo_pacer_rings(3,4) refl d] unfolding d fst_conv snd_conv by simp
qed

end
