(* ===== verification/Reac_Pacer_Loop.thy ===== *)
theory Reac_Pacer_Loop
  imports Reac_Pacer_Queue
begin

text \<open>
  The pacing loop, \<^verbatim>\<open>pacer_loop\<close> of \<^verbatim>\<open>transport/src/reac_pacer.c\<close>, one slot at a time, for both backends.

  What a slot gets from outside is the record \<open>slot_in\<close>: the frames \<^verbatim>\<open>recv\<close> has waiting, the reading of the
  monotonic clock during the slot, whether the send succeeds, the socket's error queue, and the reading of the
  backend's clock after the slot. A slot answers with the frame it hands to the socket. The waiting itself, the
  scheduling class and the memory locking are not modelled.
\<close>

section \<open>State of the loop\<close>

record loop_state =
  lp_etf :: "reac_etf_grid option"
  lp_lead_ns :: u32
  lp_deadline :: u64
  lp_drain_countdown :: u64
  lp_etf_refused :: u64
  lp_etf_first_code :: u8

record slot_in =
  in_rx :: "bytes list"
  in_now :: u64
  in_sent :: bool
  in_errq :: "etf_cmsg list list"
  in_after :: u64

abbreviation (input) REAC_PACER_RX_BUDGET :: nat where "REAC_PACER_RX_BUDGET \<equiv> 8"

text \<open>The base of the deadlines: \<open>start\<close> is the reading of the backend's clock.\<close>

definition loop_start :: "reac_pacer \<Rightarrow> etf_handle \<Rightarrow> u64 \<Rightarrow> loop_state" where
  "loop_start p h start =
     (if eh_etf_on h
      then let base = start + ucast (eh_etf_lead_ns h) + word_of_int (pk_period_ns p);
               g = fst (reac_etf_grid_init (pk_fps p) base)
           in \<lparr> lp_etf = Some g, lp_lead_ns = eh_etf_lead_ns h, lp_deadline = eg_launch_ns g - ucast (eh_etf_lead_ns h),
                lp_drain_countdown = 0, lp_etf_refused = 0, lp_etf_first_code = 0 \<rparr>
      else \<lparr> lp_etf = None, lp_lead_ns = eh_etf_lead_ns h, lp_deadline = start + word_of_int (pk_period_ns p),
             lp_drain_countdown = 0, lp_etf_refused = 0, lp_etf_first_code = 0 \<rparr>)"

section \<open>One slot\<close>

definition slot_rx :: "pacer_world \<Rightarrow> slot_in \<Rightarrow> reac_pacer \<Rightarrow> reac_pacer" where
  "slot_rx w inp p =
     foldl (reac_pacer_rx_ingest w (in_now inp)) p
       (map (take 2048) (takeWhile (\<lambda>f. f \<noteq> []) (take REAC_PACER_RX_BUDGET (in_rx inp))))"

definition slot_guard :: "pacer_world \<Rightarrow> reac_pacer \<Rightarrow> reac_pacer" where
  "slot_guard w p =
     (let depth = reac_frame_ring_readable (pk_ring p);
          p = (if depth > pk_ring_depth_peak p then p\<lparr> pk_ring_depth_peak := depth \<rparr> else p);
          p = (if depth < pk_ring_depth_min p then p\<lparr> pk_ring_depth_min := depth \<rparr> else p);
          qframes = pk_graph_quantum p div 12;
          (high, kept) = reac_pacer_guard_high (pw_guard_floor_frames w) (pk_guard_kept p) qframes;
          (ring, trimmed) = reac_frame_ring_trim (pk_ring p) high (high div 2);
          p = p\<lparr> pk_guard_kept := kept, pk_ring := ring \<rparr>
      in if trimmed \<noteq> 0
         then p\<lparr> pk_ring_trims := pk_ring_trims p + 1, pk_ring_trim_frames := pk_ring_trim_frames p + ucast trimmed \<rparr>
         else p)"

text \<open>The frame buffer after the pop, as far as it is sent.\<close>

definition slot_pop :: "reac_pacer \<Rightarrow> reac_pacer \<times> bytes" where
  "slot_pop p =
     (let (ring, n, out) = reac_frame_ring_pop (pk_ring p) in
      (p\<lparr> pk_ring := ring \<rparr>, if unat n < REAC_FRAME_BYTES then build_silent_filler (pk_src p) else take REAC_FRAME_BYTES out))"

abbreviation (input) REAC_HDR_COUNTER_OFF :: nat where "REAC_HDR_COUNTER_OFF \<equiv> 14"

text \<open>The master's turn: its counter and its control block on the frame. A stamp that is refused leaves it.\<close>

definition slot_master :: "pacer_world \<Rightarrow> u64 \<Rightarrow> reac_pacer \<Rightarrow> bytes \<Rightarrow> reac_pacer \<times> bytes \<times> reac_master_emit" where
  "slot_master w now p frame =
     (let (m, counter, emit, idx) = reac_master_next (pacer_env w p) (pk_master p);
          frame = frame[REAC_HDR_COUNTER_OFF := lo8 counter, REAC_HDR_COUNTER_OFF + 1 := hi8 counter];
          frame = (case reac_master_stamp m frame emit idx of Some f \<Rightarrow> f | None \<Rightarrow> frame);
          p = p\<lparr> pk_master := m \<rparr>
      in (if emit = REAC_M_EMIT_CHANMAP then p\<lparr> pk_last_chanmap_ns := now \<rparr> else p, frame, emit))"

definition slot_headamp :: "reac_pacer \<Rightarrow> bytes \<Rightarrow> reac_master_emit \<Rightarrow> reac_pacer \<times> bytes" where
  "slot_headamp p0 frame emit =
     (let p = fst (reac_pacer_headamp_drain p0) in
      if emit = REAC_M_EMIT_FILLER \<and> ma_state (pk_master p) = REAC_M_ESTABLISHED \<and>
         (ht_active (pk_headamp p) \<or> ht_replay_width (pk_headamp p) \<noteq> 0)
      then let (t, out) = reac_headamp_tx_next (pk_headamp p);
               p = p\<lparr> pk_headamp := t \<rparr>
           in case out of
                None \<Rightarrow> (p, frame)
              | Some (ch, param, val) \<Rightarrow>
                  (p, case reac_ctrl_stamp_headamp frame ch param val of Some f \<Rightarrow> f | None \<Rightarrow> frame)
      else (p, frame))"

definition slot_notes :: "pacer_world \<Rightarrow> u64 \<Rightarrow> reac_pacer \<Rightarrow> reac_pacer" where
  "slot_notes w now p =
     (let p = (if ma_state (pk_master p) \<noteq> pk_prev_state p
               then sync_published_box (note_transition w now p (pk_prev_state p) (ma_state (pk_master p)) REAC_PEV_CAUSE_TIMER)
               else p);
          p = (if \<not> ma_box_seen (pk_master p) \<and> pk_presence_seen p
               then (pev_push now p REAC_PEV_PRESENCE 0 0 None None)\<lparr> pk_presence_seen := False \<rparr> else p)
      in if ma_state (pk_master p) = REAC_M_PROBING
         then let p = p\<lparr> pk_probing_slots := pk_probing_slots p + 1 \<rparr>
              in if pk_probing_slots p mod (word_of_int (pk_fps p) * 10) = 0
                 then pev_push now p REAC_PEV_WATCHDOG (if ma_box_seen (pk_master p) then 1 else 0) 0 None None else p
         else p\<lparr> pk_probing_slots := 0 \<rparr>)"

definition slot_sent :: "bool \<Rightarrow> reac_pacer \<Rightarrow> reac_pacer" where
  "slot_sent ok p = (if ok then p\<lparr> pk_tx_frames := pk_tx_frames p + 1 \<rparr> else p\<lparr> pk_tx_errors := pk_tx_errors p + 1 \<rparr>)"

text \<open>Every eighth of a second the kernel-timed backend counts the frames the kernel refused.\<close>

definition slot_etf_errors :: "slot_in \<Rightarrow> loop_state \<Rightarrow> reac_pacer \<Rightarrow> loop_state \<times> reac_pacer" where
  "slot_etf_errors inp l p =
     (if lp_etf l = None then (l, p)
      else if lp_drain_countdown l \<noteq> 0 then (l\<lparr> lp_drain_countdown := lp_drain_countdown l - 1 \<rparr>, p)
      else let l = l\<lparr> lp_drain_countdown := word_of_int (pk_fps p) div 8 \<rparr>;
               (bad, code, rest) = reac_etf_drain_errors (in_errq inp) 8
           in if bad \<noteq> 0
              then (l\<lparr> lp_etf_refused := lp_etf_refused l + ucast bad,
                       lp_etf_first_code := (if lp_etf_first_code l = 0 then code else lp_etf_first_code l) \<rparr>,
                    p\<lparr> pk_tx_errors := pk_tx_errors p + ucast bad \<rparr>)
              else (l, p))"

text \<open>The next deadline: one period on.\<close>

definition slot_advance :: "u64 \<Rightarrow> loop_state \<Rightarrow> reac_pacer \<Rightarrow> loop_state \<times> reac_pacer" where
  "slot_advance now l p0 =
     (let (p, slot_ns) = (if pk_clock_follow p0 then reac_pacer_clock_tick p0 now else (p0, pk_period_ns p0))
      in case lp_etf l of
           Some g \<Rightarrow>
             let (g, launch) = reac_etf_grid_advance g (if pk_clock_follow p then slot_ns else 0)
             in (l\<lparr> lp_etf := Some g, lp_deadline := launch - ucast (lp_lead_ns l) \<rparr>, p)
         | None \<Rightarrow> (l\<lparr> lp_deadline := lp_deadline l + word_of_int slot_ns \<rparr>, p))"

text \<open>A slot that ends late is owed: a small debt is caught up, a larger one dropped.\<close>

definition slots_behind :: "u64 \<Rightarrow> loop_state \<Rightarrow> reac_pacer \<Rightarrow> u64" where
  "slots_behind now l p = (now - lp_deadline l) div word_of_int (pk_period_ns p) + 1"

definition slot_late :: "u64 \<Rightarrow> loop_state \<Rightarrow> reac_pacer \<Rightarrow> loop_state \<times> reac_pacer" where
  "slot_late now l p0 =
     (if \<not> now > lp_deadline l then (l, p0)
      else let p = p0\<lparr> pk_late_wakes := pk_late_wakes p0 + 1 \<rparr>;
               behind = slots_behind now l p;
               b32 = (if behind > 0xffffffff then 0xffffffff else ucast behind) :: u32;
               p = (if b32 > pk_slot_debt_max p then p\<lparr> pk_slot_debt_max := b32 \<rparr> else p)
           in if pk_catchup_max_slots p \<noteq> 0 \<and> behind \<le> ucast (pk_catchup_max_slots p)
              then (l, p\<lparr> pk_slots_catchup := pk_slots_catchup p + 1 \<rparr>)
              else let p = p\<lparr> pk_slots_dropped := pk_slots_dropped p + behind \<rparr>
                   in case lp_etf l of
                        Some g \<Rightarrow>
                          let g = reac_etf_grid_rebase g (now + ucast (lp_lead_ns l))
                          in (l\<lparr> lp_etf := Some g, lp_deadline := eg_launch_ns g - ucast (lp_lead_ns l) \<rparr>, p)
                      | None \<Rightarrow> (l\<lparr> lp_deadline := now + word_of_int (pk_period_ns p) \<rparr>, p))"

text \<open>The body up to the send, and the whole iteration.\<close>

definition slot_emit :: "pacer_world \<Rightarrow> slot_in \<Rightarrow> reac_pacer \<Rightarrow> reac_pacer \<times> bytes" where
  "slot_emit w inp p =
     (let now = in_now inp;
          p = slot_guard w (slot_rx w inp p);
          (p, frame) = slot_pop p;
          p = fst (reac_pacer_rate_drain w now p);
          (p, frame, emit) = slot_master w now p frame;
          (p, frame) = slot_headamp p frame emit
      in (slot_notes w now p, frame))"

definition pacer_slot :: "pacer_world \<Rightarrow> slot_in \<Rightarrow> loop_state \<Rightarrow> reac_pacer \<Rightarrow> loop_state \<times> reac_pacer \<times> bytes" where
  "pacer_slot w inp l p =
     (let (p, frame) = slot_emit w inp p;
          p = slot_sent (in_sent inp) p;
          (l, p) = slot_etf_errors inp l p;
          (l, p) = slot_advance (in_now inp) l p;
          (l, p) = slot_late (in_after inp) l p
      in (l, p, frame))"

end
