(* ===== verification/Reac_Pacer_Run.thy ===== *)
theory Reac_Pacer_Run
  imports Reac_Pacer_Loop
begin

text \<open>
  What the pacer guarantees over any run: every slot sends one well-formed frame with the master's counter and a
  control block a box accepts, and the deadlines never lag by more than the catch-up budget.
\<close>

section \<open>What the operations keep\<close>

definition machines_ok :: "reac_pacer \<Rightarrow> bool" where
  "machines_ok p \<longleftrightarrow> master_inv (pk_master p) \<and> headamp_inv (pk_headamp p) \<and> length (pk_src p) = 6"

text \<open>An operation that leaves the frame ring and the address alone and the two machines well-formed.\<close>

definition keeps :: "reac_pacer \<Rightarrow> reac_pacer \<Rightarrow> bool" where
  "keeps p q \<longleftrightarrow> pk_ring q = pk_ring p \<and> pk_src q = pk_src p \<and> (machines_ok p \<longrightarrow> machines_ok q)"

lemma keeps_refl [simp]: "keeps p p"
  by (simp add: keeps_def)

lemma keeps_trans: "keeps p q \<Longrightarrow> keeps q r \<Longrightarrow> keeps p r"
  by (simp add: keeps_def)

definition same_machines :: "reac_pacer \<Rightarrow> reac_pacer \<Rightarrow> bool" where
  "same_machines p q \<longleftrightarrow> pk_ring q = pk_ring p \<and> pk_src q = pk_src p \<and> pk_master q = pk_master p \<and> pk_headamp q = pk_headamp p"

lemma same_keeps: "same_machines p q \<Longrightarrow> keeps p q"
  by (simp add: same_machines_def keeps_def machines_ok_def)

lemma pev_push_same [simp]: "same_machines p (pev_push now p kind a b src blk)"
  by (simp add: same_machines_def pev_push_def Let_def)

lemma pev_push_fields [simp]:
  "pk_ring (pev_push now p kind a b src blk) = pk_ring p" "pk_src (pev_push now p kind a b src blk) = pk_src p"
  "pk_master (pev_push now p kind a b src blk) = pk_master p" "pk_headamp (pev_push now p kind a b src blk) = pk_headamp p"
  by (simp_all add: pev_push_def Let_def)

lemma env_ok_pacer: "headamp_inv (pk_headamp p) \<Longrightarrow> env_ok (pacer_env w p)"
  by (simp add: env_ok_def pacer_env_def)

lemma keeps_master:
  "(machines_ok p \<Longrightarrow> master_inv m) \<Longrightarrow> keeps p (p\<lparr> pk_master := m \<rparr>)"
  by (simp add: keeps_def machines_ok_def)

lemma machines_okD: "machines_ok p \<Longrightarrow> master_inv (pk_master p)" "machines_ok p \<Longrightarrow> env_ok (pacer_env w p)"
  by (simp_all add: machines_ok_def env_ok_pacer)

text \<open>An operation that also leaves the master alone; its rules follow the shape of the definitions, one \<open>let\<close> at
  a time.\<close>

definition keepsM :: "reac_pacer \<Rightarrow> reac_pacer \<Rightarrow> bool" where
  "keepsM p q \<longleftrightarrow> keeps p q \<and> pk_master q = pk_master p"

lemma keepsM_refl: "keepsM p p"
  by (simp add: keepsM_def)

lemma keepsM_let: "keepsM p t \<Longrightarrow> (\<And>x. keepsM p x \<Longrightarrow> keepsM p (f x)) \<Longrightarrow> keepsM p (Let t f)" for t :: reac_pacer
  by (simp add: Let_def)

lemma keepsM_let_val: "(\<And>x. keepsM p (f x)) \<Longrightarrow> keepsM p (Let t f)"
  by (simp add: Let_def)

lemma keepsM_if: "keepsM p a \<Longrightarrow> keepsM p b \<Longrightarrow> keepsM p (if c then a else b)"
  by simp

lemma keepsM_same: "keepsM p q \<Longrightarrow> same_machines q r \<Longrightarrow> keepsM p r"
  by (simp add: keepsM_def keeps_def same_machines_def machines_ok_def)

lemma keepsM_event: "keepsM p q \<Longrightarrow> keepsM p (pev_push now q kind a b src blk)"
  by (erule keepsM_same) (rule pev_push_same)

lemma keepsM_arm: "keepsM p q \<Longrightarrow> keepsM p (q\<lparr> pk_headamp := reac_headamp_tx_arm_scene (pk_headamp q) a b \<rparr>)"
  by (simp add: keepsM_def keeps_def machines_ok_def headamp_inv_arm)

lemma keepsM_updates:
  "keepsM p q \<Longrightarrow> keepsM p (q\<lparr> pk_prev_state := s \<rparr>)" "keepsM p q \<Longrightarrow> keepsM p (session_call m n q)"
  "keepsM p q \<Longrightarrow> keepsM p (q\<lparr> pk_rate_reestablishing := b \<rparr>)" "keepsM p q \<Longrightarrow> keepsM p (q\<lparr> pk_drops := d \<rparr>)"
  "keepsM p q \<Longrightarrow> keepsM p (q\<lparr> pk_fsm_state := s, pk_grant_attempts := g, pk_rx_since_change := c, pk_probing_slots := k \<rparr>)"
  by (erule keepsM_same; simp add: same_machines_def session_call_def)+

lemmas keepsM_rules = keepsM_if keepsM_event keepsM_arm keepsM_updates

lemma note_transition_keepsM: "keepsM p (note_transition w now p from to cause)"
  unfolding note_transition_def
  by (assumption | rule keepsM_refl keepsM_let keepsM_rules | rule keepsM_let_val)+

lemma note_transition_keeps:
  "keeps p (note_transition w now p s1 s2 cause)" "pk_master (note_transition w now p s1 s2 cause) = pk_master p"
  using note_transition_keepsM [of p w now s1 s2 cause] by (simp_all add: keepsM_def)

lemma sync_keeps: "keeps p (sync_published_box p)"
  by (simp add: sync_published_box_def identity_write_def Let_def keeps_def machines_ok_def
      reac_master_identity_answered_def)

lemma ingest_sighting_keeps: "keeps p (ingest_sighting now frame p)"
  by (rule same_keeps)
    (simp add: ingest_sighting_def Let_def split_beta same_machines_def split: option.split)

lemma identity_answered_inv: "master_inv m \<Longrightarrow> master_inv (reac_master_identity_answered m n)"
  by (simp add: reac_master_identity_answered_def)

lemma ingest_identity_keeps: "keeps p (ingest_identity frame p)"
  by (simp add: ingest_identity_def identity_write_def Let_def split_beta keeps_def machines_ok_def
      identity_answered_inv split: option.split)

lemma regrant_inv: "env_ok env \<Longrightarrow> master_inv m \<Longrightarrow> master_inv (reac_master_regrant env m)"
  by (simp add: reac_master_regrant_def inv_enter_granting)

lemma log_rx_keeps: "keeps p (log_rx now frame parsed ev p)" "pk_master (log_rx now frame parsed ev p) = pk_master p"
  by (simp_all add: log_rx_def Let_def keeps_def machines_ok_def)

lemma ingest_ports_keeps: "keeps p (ingest_ports w now frame src p)"
proof (cases "if length frame \<ge> 18 + 32 then reac_ports_parse (Some (drop 18 frame)) else None")
  case None
  then show ?thesis by (simp add: ingest_ports_def)
next
  case (Some ports)
  define p1 where "p1 = (case reac_box_catalogue_match frame of Some bm \<Rightarrow> p\<lparr> pk_recognized_box := Some bm \<rparr> | None \<Rightarrow> p)"
  define p2 where "p2 = p1\<lparr> pk_master := reac_master_set_box (pacer_env w p1) (pk_master p1) (bp_in_ch ports)
      (bp_out_ch ports) (bp_headamp_base ports) \<rparr>"
  have 1: "keeps p p1" by (simp add: p1_def keeps_def machines_ok_def split: option.split)
  have 2: "keeps p1 p2" unfolding p2_def
    by (rule keeps_master) (simp add: inv_set_box machines_okD)
  have 3: "keeps p2 (p2\<lparr> pk_master := reac_master_regrant (pacer_env w p2) (pk_master p2) \<rparr>)"
    by (rule keeps_master) (simp add: regrant_inv machines_okD)
  have ends: "keeps q (pev_push now (q\<lparr> pk_declared_in := i, pk_declared_out := out \<rparr>) kind a b s blk)" for q i out kind a b s blk
    by (simp add: keeps_def machines_ok_def)
  obtain unknown code where u: "reac_ports_unknown (Some (drop 18 frame)) = (unknown, code)" by (rule prod.exhaust)
  have "ingest_ports w now frame src p =
      (if bp_in_ch ports = pk_declared_in p1 \<and> bp_out_ch ports = pk_declared_out p1 then p1
       else if uint (ga_width (ma_alloc (pk_master p2))) \<noteq> bp_in_ch ports then p2
       else pev_push now ((if bp_in_ch ports \<noteq> uint (ga_width (ma_alloc (pk_master p1))) \<and>
             (ma_state (pk_master p2) = REAC_M_GRANTING \<or> ma_state (pk_master p2) = REAC_M_ESTABLISHED)
           then p2\<lparr> pk_master := reac_master_regrant (pacer_env w p2) (pk_master p2) \<rparr> else p2)
             \<lparr> pk_declared_in := bp_in_ch ports, pk_declared_out := bp_out_ch ports \<rparr>)
           REAC_PEV_RECOGNIZED (word_of_int (bp_in_ch ports)) 0 (Some src)
           (Some ((if unknown > 0 then word_of_int unknown else 0) # code # word_of_int (bp_out_ch ports) # replicate 29 0)))"
    unfolding ingest_ports_def Some option.case Let_def u prod.case p2_def p1_def ..
  then show ?thesis
    using 1 keeps_trans [OF 1 2] keeps_trans [OF keeps_trans [OF 1 2] keeps_trans [OF 3 ends]]
      keeps_trans [OF keeps_trans [OF 1 2] ends]
    by simp
qed

lemma rx_ingest_keeps: "keeps p (reac_pacer_rx_ingest w now p raw)"
proof -
  define frame where "frame = take (reac_frame_clean_len (length raw)) raw"
  define p1 where "p1 = ingest_identity frame (ingest_sighting now frame p)"
  have 1: "keeps p p1" unfolding p1_def by (rule keeps_trans [OF ingest_sighting_keeps ingest_identity_keeps])
  obtain parsed ev' where c: "reac_ctrl_classify_box_frame frame (pk_src p1) = (parsed, ev')" by (rule prod.exhaust)
  show ?thesis
  proof (cases ev')
    case None
    then show ?thesis unfolding reac_pacer_rx_ingest_def Let_def frame_def [symmetric] p1_def [symmetric] c using 1 by simp
  next
    case (Some ev)
    define p2 where "p2 = p1\<lparr> pk_rx_box_frames := pk_rx_box_frames p1 + 1,
      pk_rx_box_ctrl := (if pc_kind parsed \<noteq> REAC_CTRL_FILLER then pk_rx_box_ctrl p1 + 1 else pk_rx_box_ctrl p1),
      pk_rx_joins := (if ev = REAC_M_RX_BOX_JOIN then pk_rx_joins p1 + 1 else pk_rx_joins p1) \<rparr>"
    define p3 where "p3 = ingest_ports w now frame (pc_src parsed) p2"
    obtain m ch where r: "reac_master_rx (pacer_env w p3) (pk_master p3) ev (pc_src parsed)
        (if ev = REAC_M_RX_BOX_JOIN then Some (peek 18 32 frame) else None) = (m, ch)" by (rule prod.exhaust)
    define p4 where "p4 = sync_published_box (p3\<lparr> pk_master := m \<rparr>)"
    define p5 where "p5 = (if ma_box_seen (pk_master p4) \<and> \<not> pk_presence_seen p4
      then pev_push now p4 REAC_PEV_PRESENCE 1 (rx_no ev) (Some (pc_src parsed)) None else p4)"
    define p6 where "p6 = p5\<lparr> pk_presence_seen := ma_box_seen (pk_master p5) \<rparr>"
    define p7 where "p7 = log_rx now frame parsed ev p6"
    have 2: "keeps p1 p2" by (simp add: p2_def keeps_def machines_ok_def)
    have 3: "keeps p2 p3" unfolding p3_def by (rule ingest_ports_keeps)
    have "keeps p3 (p3\<lparr> pk_master := m \<rparr>)"
      by (rule keeps_master) (use r inv_rx [OF machines_okD(2) machines_okD(1), of p3 p3 w] in \<open>metis fst_conv\<close>)
    then have 4: "keeps p3 p4" unfolding p4_def by (rule keeps_trans) (rule sync_keeps)
    have 5: "keeps p4 p6" by (simp add: p6_def p5_def keeps_def machines_ok_def)
    have 7: "keeps p6 p7" unfolding p7_def by (rule log_rx_keeps)
    note all = keeps_trans [OF keeps_trans [OF keeps_trans [OF 1 2] 3] keeps_trans [OF keeps_trans [OF 4 5] 7]]
    have "reac_pacer_rx_ingest w now p raw =
        (if \<not> reac_master_peer_accepts (pk_master p1) (pc_src parsed) ev then p1
         else if ch then note_transition w now p7 (ma_state (pk_master p3)) (ma_state (pk_master p7)) (rx_no ev) else p7)"
      unfolding reac_pacer_rx_ingest_def Let_def frame_def [symmetric] p1_def [symmetric] c prod.case Some option.case
        p2_def [symmetric] p3_def [symmetric] r p4_def [symmetric] p5_def [symmetric] p6_def [symmetric] p7_def [symmetric] ..
    then show ?thesis using 1 all keeps_trans [OF all note_transition_keeps(1)] by simp
  qed
qed

section \<open>Changing the rate keeps the machines\<close>

lemma keeps_let: "keeps p t \<Longrightarrow> (\<And>x. keeps p x \<Longrightarrow> keeps p (f x)) \<Longrightarrow> keeps p (Let t f)" for t :: reac_pacer
  by (simp add: Let_def)

lemma keeps_same: "keeps p q \<Longrightarrow> same_machines q r \<Longrightarrow> keeps p r"
  by (rule keeps_trans, assumption, rule same_keeps)

lemma keeps_set_master: "keeps p q \<Longrightarrow> (machines_ok q \<Longrightarrow> master_inv m) \<Longrightarrow> keeps p (q\<lparr> pk_master := m \<rparr>)"
  by (erule keeps_trans) (erule keeps_master)

lemma keeps_headamp: "keeps p q \<Longrightarrow> (machines_ok q \<Longrightarrow> headamp_inv t) \<Longrightarrow> keeps p (q\<lparr> pk_headamp := t \<rparr>)"
  by (simp add: keeps_def machines_ok_def)

lemma apply_rate_keeps:
  assumes "length (pw_scene_body w) = 8904"
  shows "keeps p (fst (reac_pacer_apply_rate w now p hz))"
proof -
  define fps where "fps = hz sdiv 12"
  define p1 where "p1 = p\<lparr> pk_period_ns := reac_pacer_period_ns fps, pk_fps := fps, pk_slot_period_ns := reac_pacer_period_ns fps,
    pk_clock := reac_clock_disc_init REAC_ROLE_MASTER (reac_pacer_period_ns fps),
    pk_catchup_max_slots := resolve_catchup_slots (pk_catchup_max_slots_cfg p) fps \<rparr>"
  define cfg where "cfg = (ma_cfg (pk_master p1))\<lparr> cc_console_field := reac_pace_code fps \<rparr>"
  define ccfg where "ccfg = (if cc_out_channels cfg \<noteq> 0 then Some cfg else None)"
  define p2 where "p2 = p1\<lparr> pk_master := reac_master_init (pw_tunables w) (pw_scene_body w) (pk_src p1) ccfg fps \<rparr>"
  define p3 where "p3 = p2\<lparr> pk_master := reac_master_set_headamp_src (pacer_env w p2) (pk_master p2) (Some 0) \<rparr>"
  define p4 where "p4 = p3\<lparr> pk_headamp := reac_headamp_tx_set_resweep (pk_headamp p3) (word_of_int fps * 0),
    pk_prev_state := REAC_M_IDLE, pk_fsm_state := REAC_M_IDLE, pk_grant_attempts := 0,
    pk_rx_since_change := replicate 4 0, pk_probing_slots := 0 \<rparr>"
  define p5 where "p5 = (if pk_on_session p4 \<and> ma_state (pk_master p1) = REAC_M_ESTABLISHED then session_call None 0 p4 else p4)"
  define p6 where "p6 = p5\<lparr> pk_recognized_box := None, pk_recognized_headamp_base := - 1, pk_recognized_box_mac := 0,
    pk_declared_in := 0, pk_declared_out := 0 \<rparr>"
  define p7 where "p7 = pev_push now p6 REAC_PEV_STATE (state_no (ma_state (pk_master p1))) (state_no REAC_M_IDLE)
    (Some (ma_box_mac (pk_master p1)))
    (Some (word_of_int (if pk_reestab_cause p6 = 0 then REAC_PEV_CAUSE_RATE_CHANGE else pk_reestab_cause p6) # replicate 31 0))"
  have 1: "keeps p p1" by (rule same_keeps) (simp add: p1_def same_machines_def)
  have 2: "keeps p p2" unfolding p2_def
    by (rule keeps_set_master [OF 1]) (use inv_init assms in \<open>simp add: machines_ok_def\<close>)
  have 3: "keeps p p3" unfolding p3_def
    by (rule keeps_set_master [OF 2]) (simp add: inv_set_headamp_src machines_okD)
  have 4: "keeps p p4" by (rule keeps_trans [OF 3]) (simp add: p4_def keeps_def machines_ok_def headamp_inv_resweep)
  have "same_machines p4 p7" by (simp add: p7_def p6_def p5_def same_machines_def session_call_def)
  with 4 have 7: "keeps p p7" by (rule keeps_same)
  have "fst (reac_pacer_apply_rate w now p hz) =
      p7\<lparr> pk_reestab_cause := 0, pk_rate_hz := hz, pk_rate_asserted := True, pk_rate_reestablishing := True \<rparr>"
    unfolding reac_pacer_apply_rate_def Let_def fps_def [symmetric] p1_def [symmetric] cfg_def [symmetric] ccfg_def [symmetric]
      p2_def [symmetric] p3_def [symmetric] p4_def [symmetric] p5_def [symmetric] p6_def [symmetric] p7_def [symmetric] fst_conv ..
  moreover have "keeps p (p7\<lparr> pk_reestab_cause := 0, pk_rate_hz := hz, pk_rate_asserted := True, pk_rate_reestablishing := True \<rparr>)"
    by (rule keeps_same [OF 7]) (simp add: same_machines_def)
  ultimately show ?thesis by simp
qed

lemma rate_drain_keeps:
  assumes "length (pw_scene_body w) = 8904"
  shows "keeps p (fst (reac_pacer_rate_drain w now p))"
proof -
  have "keeps p (p\<lparr> pk_rate_req_seen := pk_rate_req_seq p \<rparr>)" by (simp add: keeps_def machines_ok_def)
  then show ?thesis
    using keeps_trans [OF _ apply_rate_keeps [OF assms]] by (simp add: reac_pacer_rate_drain_def Let_def)
qed

section \<open>The other operations\<close>

lemma headamp_take_keeps: "keeps p (headamp_take p)"
  by (simp add: headamp_take_def Let_def split_beta keeps_def machines_ok_def headamp_inv_set)

lemma headamp_takes_keeps: "keeps p ((headamp_take ^^ n) p)"
  by (induction n) (auto intro: keeps_trans headamp_take_keeps)

lemma headamp_drain_keeps: "keeps p (fst (reac_pacer_headamp_drain p))"
proof -
  have "keeps ((headamp_take ^^ n) p) ((headamp_take ^^ n) p\<lparr> pk_ha_cmd_applied := a \<rparr>)" for n a
    by (simp add: keeps_def machines_ok_def)
  then show ?thesis using headamp_takes_keeps [of p] keeps_trans
    by (simp add: reac_pacer_headamp_drain_def Let_def) blast
qed

lemma headamp_drain_master: "pk_master (fst (reac_pacer_headamp_drain p)) = pk_master p"
proof -
  have "pk_master ((headamp_take ^^ n) p) = pk_master p" for n
    by (induction n) (simp_all add: headamp_take_def Let_def split_beta)
  then show ?thesis by (simp add: reac_pacer_headamp_drain_def Let_def)
qed

lemma clock_tick_same: "same_machines p (fst (reac_pacer_clock_tick p now))"
  by (simp add: reac_pacer_clock_tick_def Let_def same_machines_def)

lemma slot_rx_keeps: "keeps p (slot_rx w inp p)"
proof -
  have "keeps p (foldl (reac_pacer_rx_ingest w now) p fs)" for now fs
    by (induction fs arbitrary: p) (auto intro: keeps_trans rx_ingest_keeps)
  then show ?thesis by (simp add: slot_rx_def)
qed

lemma slot_notes_keeps: "keeps p (slot_notes w now p)"
proof -
  define q where "q = (if ma_state (pk_master p) \<noteq> pk_prev_state p
    then sync_published_box (note_transition w now p (pk_prev_state p) (ma_state (pk_master p)) REAC_PEV_CAUSE_TIMER) else p)"
  have q: "keeps p q" using keeps_trans [OF note_transition_keeps(1) sync_keeps] by (simp add: q_def)
  have "same_machines q (slot_notes w now p)"
    unfolding slot_notes_def q_def [symmetric] by (simp add: Let_def same_machines_def)
  with q show ?thesis by (rule keeps_same)
qed

section \<open>The frame of a slot\<close>

text \<open>The header, type bytes and end marker a downstream frame carries when it is submitted.\<close>

definition header_ok :: "mac \<Rightarrow> bytes \<Rightarrow> bool" where
  "header_ok src f \<longleftrightarrow> peek 6 6 f = src \<and> f ! 12 = 0x88 \<and> f ! 13 = 0x19 \<and> f ! 16 = 0 \<and> f ! 17 = 0
     \<and> f ! 1490 = REAC_END_MARKER_0 \<and> f ! 1491 = REAC_END_MARKER_1"

definition wire_ok :: "mac \<Rightarrow> bytes \<Rightarrow> bool" where
  "wire_ok src f \<longleftrightarrow> (1492 \<le> length f \<longrightarrow> header_ok src f)"

definition pacer_ok :: "nat \<Rightarrow> reac_pacer \<Rightarrow> bool" where
  "pacer_ok k p \<longleftrightarrow> machines_ok p \<and> frame_ring_inv k 2048 (pk_ring p) \<and>
     list_all (wire_ok (pk_src p)) (fst (frame_ring_abs (pk_ring p)))"

lemma keeps_pacer_ok: "keeps p q \<Longrightarrow> pacer_ok k p \<Longrightarrow> pacer_ok k q"
  by (simp add: keeps_def pacer_ok_def)

lemma filler_header: "length src = 6 \<Longrightarrow> header_ok src (build_silent_filler src) \<and> length (build_silent_filler src) = 1492"
proof -
  assume s: "length src = 6"
  let ?f = "poke 6 src (poke 0 (replicate 6 0xFF) (replicate 1492 0 :: bytes))"
  have l: "length ?f = 1492" using s by simp
  have "peek 6 6 ?f = src" using peek_poke_same [of 6 src] s by simp
  then show ?thesis using s l
    by (simp add: header_ok_def build_silent_filler_def Let_def peek_update_other nth_poke)
qed

lemma header_take: "1492 \<le> length f \<Longrightarrow> header_ok src (take 1492 f) \<longleftrightarrow> header_ok src f"
proof -
  assume "1492 \<le> length f"
  then have "peek 6 6 (take 1492 f) = peek 6 6 f" by (simp add: peek_def drop_take)
  then show ?thesis by (simp add: header_ok_def)
qed

lemma slot_pop_ok:
  assumes ok: "pacer_ok k p" and pop: "slot_pop p = (p', f)"
  shows "pacer_ok k p'" and "length f = 1492" and "header_ok (pk_src p) f"
    and "pk_src p' = pk_src p" and "pk_master p' = pk_master p"
proof -
  obtain ring n out where r: "reac_frame_ring_pop (pk_ring p) = (ring, n, out)" by (rule prod_cases3)
  have inv: "frame_ring_inv k 2048 (pk_ring p)" and wires: "list_all (wire_ok (pk_src p)) (fst (frame_ring_abs (pk_ring p)))"
    and src: "length (pk_src p) = 6" using ok by (simp_all add: pacer_ok_def machines_ok_def)
  have p': "p' = p\<lparr> pk_ring := ring \<rparr>"
    and f: "f = (if unat n < 1492 then build_silent_filler (pk_src p) else take 1492 out)"
    using pop by (simp_all add: slot_pop_def r)
  note ref = pop_refines [OF inv r]
  obtain q und ovr where abs: "frame_ring_abs (pk_ring p) = (q, und, ovr)" by (rule prod_cases3)
  have q: "list_all (wire_ok (pk_src p)) (fst (frame_ring_abs ring)) \<and> length out = unat n \<and> wire_ok (pk_src p) out"
  proof (cases q)
    case Nil
    then show ?thesis using ref(2) abs by (auto simp: wire_ok_def dest: sym)
  next
    case (Cons g q')
    then have "frame_ring_abs ring = (q', und, ovr)" "unat n = length g" "out = g" using ref(2) abs by auto
    then show ?thesis using wires abs Cons by simp
  qed
  have "1492 \<le> unat n \<Longrightarrow> header_ok (pk_src p) out" using q by (simp add: wire_ok_def)
  then show "length f = 1492" and "header_ok (pk_src p) f"
    using filler_header [OF src] q header_take [of out "pk_src p"] by (auto simp: f)
  show "pacer_ok k p'" using ok ref(1) q by (simp add: p' pacer_ok_def machines_ok_def)
qed (use pop in \<open>auto simp: slot_pop_def split: prod.splits\<close>)

lemma slot_guard_ok:
  assumes "pacer_ok k p"
  shows "pacer_ok k (slot_guard w p)" and "pk_src (slot_guard w p) = pk_src p" and "pk_master (slot_guard w p) = pk_master p"
proof -
  have inv: "frame_ring_inv k 2048 (pk_ring p)" and wires: "list_all (wire_ok (pk_src p)) (fst (frame_ring_abs (pk_ring p)))"
    using assms by (simp_all add: pacer_ok_def)
  have trim: "frame_ring_inv k 2048 (fst (reac_frame_ring_trim (pk_ring p) hi lo)) \<and>
      list_all (wire_ok (pk_src p)) (fst (frame_ring_abs (fst (reac_frame_ring_trim (pk_ring p) hi lo))))" for hi lo
  proof -
    obtain ring n where t: "reac_frame_ring_trim (pk_ring p) hi lo = (ring, n)" by (rule prod.exhaust)
    obtain q und ovr where abs: "frame_ring_abs (pk_ring p) = (q, und, ovr)" by (rule prod_cases3)
    have "\<exists>j. fst (frame_ring_abs ring) = drop j q"
      using trim_refines(2) [OF inv t] abs by (auto simp: Let_def intro!: exI [of _ "unat n"] dest: sym)
    then have "list_all (wire_ok (pk_src p)) (fst (frame_ring_abs ring))"
      using wires abs by (metis append_take_drop_id fst_conv list_all_append)
    then show ?thesis using trim_refines(1) [OF inv t] t by simp
  qed
  have e: "\<exists>hi lo. pk_ring (slot_guard w p) = fst (reac_frame_ring_trim (pk_ring p) hi lo)"
    "pk_src (slot_guard w p) = pk_src p" "pk_master (slot_guard w p) = pk_master p" "pk_headamp (slot_guard w p) = pk_headamp p"
    by (auto simp: slot_guard_def Let_def split_beta)
  then show "pacer_ok k (slot_guard w p)" "pk_src (slot_guard w p) = pk_src p" "pk_master (slot_guard w p) = pk_master p"
    using trim assms by (auto simp: pacer_ok_def machines_ok_def)
qed

lemma verify_poke: "50 \<le> length f \<Longrightarrow> blk_ok b \<Longrightarrow> reac_ctrl_checksum_verify (poke 16 b f) = 0"
  using checksum_verify_apply [of "poke 16 b f"] apply_block_poke [of f b] blk_ok_length [of b]
  by (simp add: apply_block_def)

text \<open>What a stamped frame keeps of the frame it was made from, and what its control block is.\<close>

definition stamped :: "bytes \<Rightarrow> bytes \<Rightarrow> bool" where
  "stamped f g \<longleftrightarrow> length g = length f \<and> take 16 g = take 16 f \<and> drop 50 g = drop 50 f \<and>
     (g ! 16 = 0 \<and> g ! 17 = 0 \<or> reac_ctrl_checksum_verify g = 0)"

lemma poke_stamped: "50 \<le> length f \<Longrightarrow> blk_ok b \<Longrightarrow> stamped f (poke 16 b f)"
  using blk_ok_length [of b] by (simp add: stamped_def verify_poke) (simp add: poke_def)

lemma master_stamped:
  assumes "master_inv m" and "can_stamp m e i" and "50 \<le> length f" and "f ! 16 = 0" and "f ! 17 = 0"
  shows "\<exists>g. reac_master_stamp m f e i = Some g \<and> stamped f g \<and> (e = REAC_M_EMIT_FILLER \<longrightarrow> g ! 16 = 0 \<and> g ! 17 = 0)"
proof (cases "e = REAC_M_EMIT_FILLER")
  case True
  let ?g = "stamp_filler_descriptor f (ma_filler_desc m)"
  note g = filler_stamp [where d = "ma_filler_desc m", OF assms(3)]
  have "take 16 ?g = take 16 f" "drop 50 ?g = drop 50 f" using g assms(3) by (auto intro!: nth_equalityI)
  moreover have "?g ! 16 = 0" "?g ! 17 = 0" using g(2) [of 16] g(2) [of 17] assms(3-5) by simp_all
  ultimately show ?thesis using True g(1) by (simp add: stamped_def)
next
  case False
  then show ?thesis using emit_block_ok [OF assms(1,2) False] assms(3) poke_stamped by blast
qed

lemma headamp_stamped:
  assumes "50 \<le> length f" and "reac_ctrl_stamp_headamp f ch param val = Some g"
  shows "stamped f g"
proof -
  let ?b = "[0xcd, 0xea] @ headamp_block ch param val"
  have "list_all row_ok (map (\<lambda>(ch, p, v). [0xcd, 0xea] @ headamp_block ch p v) [(ch, param, val)])" by (rule groupa_rows(2))
  then have b: "blk_ok ?b" by (simp add: row_blk_ok)
  have "g = take 16 f @ ?b @ drop 50 f"
    using assms ctrl_stamp_headamp [OF assms(1), of ch param val]
    by (simp add: reac_ctrl_stamp_headamp_def split: if_splits del: CTRL_FRAMES.simps)
  moreover have "poke 16 ?b f = take 16 f @ ?b @ drop 50 f" using blk_ok_length [OF b] by (simp add: poke_def)
  ultimately show ?thesis using poke_stamped [OF assms(1) b] by simp
qed

lemma stamped_trans:
  "stamped f g \<Longrightarrow> stamped g h \<Longrightarrow> stamped f h"
  by (simp add: stamped_def)

lemma slot_master_ok:
  assumes ok: "machines_ok p" and f: "length f = 1492" "header_ok (pk_src p) f"
    and m: "slot_master w now p f = (p', g, e)"
  shows "keeps p p'" and "stamped (f[14 := lo8 (ma_counter (pk_master p)), 15 := hi8 (ma_counter (pk_master p))]) g"
    and "e = REAC_M_EMIT_FILLER \<longrightarrow> g ! 16 = 0 \<and> g ! 17 = 0"
proof -
  obtain m' c e' i where n: "reac_master_next (pacer_env w p) (pk_master p) = (m', c, e', i)" by (rule prod_cases4)
  note nx = next_ok [OF machines_okD(2) [OF ok] machines_okD(1) [OF ok] n]
  have c: "c = ma_counter (pk_master p)" using n by (auto simp: reac_master_next_def Let_def split: prod.splits)
  let ?f = "f[14 := lo8 c, 15 := hi8 c]"
  have "50 \<le> length ?f" "?f ! 16 = 0" "?f ! 17 = 0" using f by (simp_all add: header_ok_def)
  from master_stamped [OF nx this] obtain h where h: "reac_master_stamp m' ?f e' i = Some h" "stamped ?f h"
    "e' = REAC_M_EMIT_FILLER \<longrightarrow> h ! 16 = 0 \<and> h ! 17 = 0" by blast
  have r: "p' = (if e' = REAC_M_EMIT_CHANMAP then p\<lparr> pk_master := m' \<rparr>\<lparr> pk_last_chanmap_ns := now \<rparr> else p\<lparr> pk_master := m' \<rparr>)"
    "g = h" "e = e'"
    using m unfolding slot_master_def n Let_def prod.case Suc_eq_plus1 [symmetric] by (auto simp: h(1))
  show "keeps p p'" using nx(1) by (simp add: r keeps_def machines_ok_def)
  show "stamped (f[14 := lo8 (ma_counter (pk_master p)), 15 := hi8 (ma_counter (pk_master p))]) g"
    and "e = REAC_M_EMIT_FILLER \<longrightarrow> g ! 16 = 0 \<and> g ! 17 = 0"
    using h c r by simp_all
qed

lemma slot_headamp_ok:
  assumes h: "slot_headamp p f e = (p', g)" and f: "50 \<le> length f" "f ! 16 = 0 \<and> f ! 17 = 0 \<or> reac_ctrl_checksum_verify f = 0"
  shows "keeps p p'" and "stamped f g"
proof -
  define q where "q = fst (reac_pacer_headamp_drain p)"
  obtain t out where n: "reac_headamp_tx_next (pk_headamp q) = (t, out)" by (rule prod.exhaust)
  have "keeps q (q\<lparr> pk_headamp := t \<rparr>)"
    using headamp_inv_next [of "pk_headamp q"] n by (intro keeps_headamp) (simp_all add: machines_ok_def)
  then have k: "keeps p q" "keeps p (q\<lparr> pk_headamp := t \<rparr>)"
    using headamp_drain_keeps [of p] keeps_trans unfolding q_def by blast+
  have s: "stamped f f" using f by (simp add: stamped_def)
  have "keeps p p' \<and> stamped f g"
    using h k s headamp_stamped [OF f(1)] unfolding slot_headamp_def q_def [symmetric] Let_def n
    by (auto split: if_splits option.splits)
  then show "keeps p p'" and "stamped f g" by blast+
qed

text \<open>One slot in a well-formed state.\<close>

lemma slot_emit_ok:
  assumes "length (pw_scene_body w) = 8904" and "pacer_ok k p" and "slot_emit w inp p = (p', f)"
  shows "pacer_ok k p' \<and> pk_src p' = pk_src p \<and> length f = 1492 \<and> peek 6 6 f = pk_src p \<and> f ! 12 = 0x88 \<and> f ! 13 = 0x19 \<and>
    u16le (f ! 14) (f ! 15) = ma_counter (pk_master (fst (reac_pacer_rate_drain w (in_now inp)
        (fst (slot_pop (slot_guard w (slot_rx w inp p))))))) \<and>
    drop 50 f = drop 50 (snd (slot_pop (slot_guard w (slot_rx w inp p)))) \<and>
    f ! 1490 = REAC_END_MARKER_0 \<and> f ! 1491 = REAC_END_MARKER_1 \<and>
    (f ! 16 = 0 \<and> f ! 17 = 0 \<or> reac_ctrl_checksum_verify f = 0)"
proof -
  define p1 where "p1 = slot_guard w (slot_rx w inp p)"
  obtain p2 f2 where 2: "slot_pop p1 = (p2, f2)" by (rule prod.exhaust)
  define p3 where "p3 = fst (reac_pacer_rate_drain w (in_now inp) p2)"
  obtain p4 f4 e where 4: "slot_master w (in_now inp) p3 f2 = (p4, f4, e)" by (rule prod_cases3)
  obtain p5 f5 where 5: "slot_headamp p4 f4 e = (p5, f5)" by (rule prod.exhaust)
  have out: "p' = slot_notes w (in_now inp) p5" "f = f5"
    using assms(3) unfolding slot_emit_def Let_def p1_def [symmetric] 2 prod.case p3_def [symmetric] 4 5 by simp_all
  have rx: "keeps p (slot_rx w inp p)" by (rule slot_rx_keeps)
  have ok1: "pacer_ok k p1" unfolding p1_def by (rule slot_guard_ok(1)) (rule keeps_pacer_ok [OF rx assms(2)])
  have s1: "pk_src p1 = pk_src p" using rx slot_guard_ok(2) [OF keeps_pacer_ok [OF rx assms(2)], of w] by (simp add: p1_def keeps_def)
  note pop = slot_pop_ok [OF ok1 2]
  have k3: "keeps p2 p3" unfolding p3_def by (rule rate_drain_keeps [OF assms(1)])
  have ok3: "pacer_ok k p3" by (rule keeps_pacer_ok [OF k3 pop(1)])
  have s3: "pk_src p3 = pk_src p" using k3 pop(4) s1 by (simp add: keeps_def)
  have m3: "machines_ok p3" using ok3 by (simp add: pacer_ok_def)
  have h3: "header_ok (pk_src p3) f2" using pop(3) s1 s3 by simp
  note mast = slot_master_ok [OF m3 pop(2) h3 4]
  let ?c = "ma_counter (pk_master p3)"
  have l4: "length f4 = 1492" using mast(2) pop(2) by (simp add: stamped_def)
  have b4: "f4 ! 16 = 0 \<and> f4 ! 17 = 0 \<or> reac_ctrl_checksum_verify f4 = 0" using mast(2) by (simp add: stamped_def)
  note head = slot_headamp_ok [OF 5 _ b4]
  have k5: "keeps p3 p'" unfolding out(1)
    using keeps_trans [OF keeps_trans [OF mast(1) head(1)] slot_notes_keeps] l4 by simp
  have st: "stamped (f2[14 := lo8 ?c, 15 := hi8 ?c]) f" unfolding out(2)
    using stamped_trans [OF mast(2) head(2)] l4 by simp
  have len: "length f = 1492" using st pop(2) by (simp add: stamped_def)
  have lo: "f ! i = f2[14 := lo8 ?c, 15 := hi8 ?c] ! i" if "i < 16" for i
    using st that unfolding stamped_def by (metis nth_take)
  have hi: "f ! i = f2 ! i" if "50 \<le> i" "i < 1492" for i
  proof -
    have "drop 50 f ! (i - 50) = drop 50 f2 ! (i - 50)" using st by (simp add: stamped_def drop_update_cancel)
    then show ?thesis using that len pop(2) by simp
  qed
  have "peek 6 6 f = peek 6 6 f2" using lo len pop(2) by (intro peek_cong) simp_all
  moreover have "drop 50 f = drop 50 f2" using st by (simp add: stamped_def)
  moreover have "f ! 14 = lo8 ?c" "f ! 15 = hi8 ?c" using lo pop(2) by simp_all
  ultimately show ?thesis
    using keeps_pacer_ok [OF k5 ok3] k5 s3 len lo [of 12] lo [of 13] hi [of 1490] hi [of 1491] h3 st
    unfolding p1_def [symmetric] 2 fst_conv snd_conv p3_def [symmetric]
    by (simp add: header_ok_def stamped_def keeps_def)
qed

section \<open>Runs\<close>

lemma same_refl: "same_machines p p" and same_trans: "same_machines p q \<Longrightarrow> same_machines q r \<Longrightarrow> same_machines p r"
  by (simp_all add: same_machines_def)

lemma slot_sent_same: "same_machines p (slot_sent ok p)"
  by (simp add: slot_sent_def same_machines_def)

lemma slot_etf_errors_same: "same_machines p (snd (slot_etf_errors inp l p))"
  by (simp add: slot_etf_errors_def Let_def split_beta same_machines_def)

lemma slot_advance_same: "same_machines p (snd (slot_advance now l p))"
  using clock_tick_same [of p now] by (simp add: slot_advance_def Let_def split_beta same_refl split: option.split)

lemma slot_late_same: "same_machines p (snd (slot_late now l p))"
  by (simp add: slot_late_def Let_def same_machines_def split: option.split)

lemma drain_event_same: "same_machines p (drain_event p)"
  by (simp add: drain_event_def Let_def split_beta same_machines_def)

lemma drain_events_same: "same_machines p ((drain_event ^^ n) p)"
  by (induction n) (auto intro: same_refl same_trans drain_event_same)

lemma log_drain_same: "same_machines p (fst (reac_pacer_log_drain now p))"
proof -
  define q where "q = (drain_event ^^ unat (pk_ev_head p - pk_ev_tail p)) p"
  have "same_machines q (fst (reac_pacer_log_drain now p))"
    unfolding reac_pacer_log_drain_def Let_def q_def [symmetric] by (simp add: split_beta same_machines_def)
  then show ?thesis using drain_events_same same_trans unfolding q_def by blast
qed

lemma pacer_slot_frame:
  assumes "pacer_slot w inp l p = (l', p', f)" and "slot_emit w inp p = (q, g)"
  shows "same_machines q p'" and "f = g"
proof -
  define q1 where "q1 = slot_sent (in_sent inp) q"
  obtain l2 q2 where 2: "slot_etf_errors inp l q1 = (l2, q2)" by (rule prod.exhaust)
  obtain l3 q3 where 3: "slot_advance (in_now inp) l2 q2 = (l3, q3)" by (rule prod.exhaust)
  obtain l4 q4 where 4: "slot_late (in_after inp) l3 q3 = (l4, q4)" by (rule prod.exhaust)
  have r: "p' = q4 \<and> f = g"
    using assms(1) unfolding pacer_slot_def assms(2) Let_def prod.case q1_def [symmetric] 2 3 4 by blast
  have "same_machines q q1" unfolding q1_def by (rule slot_sent_same)
  moreover have "same_machines q1 q2" using slot_etf_errors_same [of q1 inp l] unfolding 2 snd_conv .
  moreover have "same_machines q2 q3" using slot_advance_same [of q2 "in_now inp" l2] unfolding 3 snd_conv .
  moreover have "same_machines q3 q4" using slot_late_same [of q3 "in_after inp" l3] unfolding 4 snd_conv .
  ultimately have "same_machines q q4" by (blast intro: same_trans)
  then show "same_machines q p'" using r by blast
  show "f = g" using r by blast
qed

datatype pacer_op = Op_Submit bytes u16 | Op_Headamp u8 u8 u8 | Op_Rate int | Op_Reestablish int
  | Op_Clock reac_clock_source bool int "string option" reac_clock_quality u64 | Op_Log u64 | Op_Health u64 | Op_Slot slot_in

fun pacer_step :: "pacer_world \<Rightarrow> loop_state \<times> reac_pacer \<Rightarrow> pacer_op \<Rightarrow> loop_state \<times> reac_pacer" where
  "pacer_step w (l, p) (Op_Submit frame n) = (l, fst (reac_pacer_submit p frame n))"
| "pacer_step w (l, p) (Op_Headamp ch param val) = (l, fst (reac_pacer_headamp_set p ch param val))"
| "pacer_step w (l, p) (Op_Rate hz) = (l, reac_pacer_request_rate p hz)"
| "pacer_step w (l, p) (Op_Reestablish cause) = (l, reac_pacer_request_reestablish p cause)"
| "pacer_step w (l, p) (Op_Clock src present ppm label q now) = (l, reac_pacer_clock_publish p src present ppm label q now)"
| "pacer_step w (l, p) (Op_Log now) = (l, fst (reac_pacer_log_drain now p))"
| "pacer_step w (l, p) (Op_Health now) = (l, fst (reac_pacer_health_poll p now))"
| "pacer_step w (l, p) (Op_Slot inp) = (let (l, p, frame) = pacer_slot w inp l p in (l, p))"

fun pacer_op_ok :: "mac \<Rightarrow> pacer_op \<Rightarrow> bool" where
  "pacer_op_ok src (Op_Submit frame n) \<longleftrightarrow> unat n \<le> length frame \<and> wire_ok src (take (min (unat n) 2048) frame)"
| "pacer_op_ok src _ \<longleftrightarrow> True"

definition run_inv :: "pacer_world \<Rightarrow> nat \<Rightarrow> mac \<Rightarrow> loop_state \<times> reac_pacer \<Rightarrow> bool" where
  "run_inv w k src s \<longleftrightarrow> length (pw_scene_body w) = 8904 \<and> pacer_ok k (snd s) \<and> pk_src (snd s) = src"

lemma run_inv_same: "run_inv w k src (l, p) \<Longrightarrow> same_machines p q \<Longrightarrow> run_inv w k src (l', q)"
  by (auto simp: run_inv_def pacer_ok_def machines_ok_def same_machines_def)

lemma submit_ok:
  assumes "run_inv w k src (l, p)" and "pacer_op_ok src (Op_Submit frame n)"
  shows "run_inv w k src (l, fst (reac_pacer_submit p frame n))"
proof -
  obtain r res where r: "reac_frame_ring_push (pk_ring p) frame n = (r, res)" by (rule prod.exhaust)
  have inv: "frame_ring_inv k 2048 (pk_ring p)" and n: "unat n \<le> length frame"
    using assms by (simp_all add: run_inv_def pacer_ok_def)
  obtain q und ovr where abs: "frame_ring_abs (pk_ring p) = (q, und, ovr)" by (rule prod_cases3)
  have ref: "frame_ring_inv k 2048 r"
    "fifo_step (2 ^ k - 1) 2048 (Frame_Push frame n) (q, und, ovr) = (frame_ring_abs r, nat res, [])"
    using push_refines [OF inv n r] abs by simp_all
  have "fst (frame_ring_abs r) = q \<or> fst (frame_ring_abs r) = q @ [take (min (unat n) 2048) frame]"
    using ref(2) by (auto split: if_splits dest: sym)
  then have "list_all (wire_ok src) (fst (frame_ring_abs r))"
    using assms abs by (auto simp: run_inv_def pacer_ok_def)
  then show ?thesis using assms(1) ref(1) by (auto simp: run_inv_def reac_pacer_submit_def r pacer_ok_def machines_ok_def)
qed

interpretation pacer_machine: invariant_machine "pacer_step w" "run_inv w k src" "pacer_op_ok src"
proof
  fix s :: "loop_state \<times> reac_pacer" and op
  assume inv: "run_inv w k src s" and ok: "pacer_op_ok src op"
  obtain l p where s: "s = (l, p)" by (rule prod.exhaust)
  note i = inv [unfolded s]
  show "run_inv w k src (pacer_step w s op)"
  proof (cases op)
    case (Op_Submit frame n)
    then show ?thesis using submit_ok [OF i] ok by (simp add: s)
  next
    case (Op_Headamp ch param val)
    have "same_machines p (fst (reac_pacer_headamp_set p ch param val))"
      by (simp add: reac_pacer_headamp_set_def Let_def same_machines_def)
    then show ?thesis using run_inv_same [OF i] by (simp add: s Op_Headamp)
  next
    case (Op_Rate hz)
    have "same_machines p (reac_pacer_request_rate p hz)" by (simp add: reac_pacer_request_rate_def same_machines_def)
    then show ?thesis using run_inv_same [OF i] by (simp add: s Op_Rate)
  next
    case (Op_Reestablish c)
    have "same_machines p (reac_pacer_request_reestablish p c)" by (simp add: reac_pacer_request_reestablish_def same_machines_def)
    then show ?thesis using run_inv_same [OF i] by (simp add: s Op_Reestablish)
  next
    case (Op_Clock c present ppm label q now)
    have "same_machines p (reac_pacer_clock_publish p c present ppm label q now)"
      by (simp add: reac_pacer_clock_publish_def same_machines_def)
    then show ?thesis using run_inv_same [OF i] by (simp add: s Op_Clock)
  next
    case (Op_Log now)
    then show ?thesis using run_inv_same [OF i log_drain_same] by (simp add: s)
  next
    case (Op_Health now)
    have "same_machines p (fst (reac_pacer_health_poll p now))"
      by (simp add: reac_pacer_health_poll_def health_rebase_def Let_def same_machines_def)
    then show ?thesis using run_inv_same [OF i] by (simp add: s Op_Health)
  next
    case (Op_Slot inp)
    obtain q g where e: "slot_emit w inp p = (q, g)" by (rule prod.exhaust)
    obtain l' p' f where sl: "pacer_slot w inp l p = (l', p', f)" by (rule prod_cases3)
    have "run_inv w k src (l, q)"
      using i slot_emit_ok [OF _ _ e, of k] by (simp add: run_inv_def)
    from run_inv_same [OF this pacer_slot_frame(1) [OF sl e]] show ?thesis by (simp add: s Op_Slot sl)
  qed
qed

section \<open>From the opening\<close>

lemma headamps_set_inv:
  "headamp_inv t \<Longrightarrow> headamp_inv (foldl (\<lambda>t s. fst (reac_headamp_tx_set t (hs_ch s) (hs_param s) (hs_value s))) t xs)"
  by (induction xs arbitrary: t) (simp_all add: headamp_inv_set)

lemma open_state_ok:
  assumes "length (pw_scene_body w) = 8904" and "length (open_src env cfg) = 6"
  shows "machines_ok (open_state w env cfg ring)" and "pk_src (open_state w env cfg ring) = open_src env cfg"
    and "pk_ring (open_state w env cfg ring) = ring"
proof -
  show src: "pk_src (open_state w env cfg ring) = open_src env cfg" and "pk_ring (open_state w env cfg ring) = ring"
    by (simp_all add: open_state_def Let_def pacer_zero_def)
  have ha: "headamp_inv (pk_headamp (open_state w env cfg ring))"
    by (simp add: open_state_def Let_def pacer_zero_def headamp_inv_resweep headamps_set_inv headamp_inv_init)
  have "master_inv (pk_master (open_state w env cfg ring))"
    unfolding open_state_def Let_def
    using headamps_set_inv [OF headamp_inv_init, of "pf_headamps cfg"] inv_init [OF assms(2,1)]
    by (simp add: pacer_zero_def inv_set_headamp_src env_ok_def pacer_env_def headamp_inv_resweep)
  then show "machines_ok (open_state w env cfg ring)" using ha src assms(2) by (simp add: machines_ok_def)
qed

lemma open_run_inv:
  assumes "length (pw_scene_body w) = 8904" and "length (open_src env cfg) = 6" and "0 < pf_fps cfg" and "pf_fps cfg < 2 ^ 31"
    and "reac_pacer_open w env cfg = Some (p, h)"
  obtains k where "run_inv w k (open_src env cfg) (l, p)"
proof -
  obtain ring where r: "reac_frame_ring_init (oe_calloc_ok env) (open_ring_depth (pf_fps cfg)) 2048 = Some ring"
    and p: "p = open_state w env cfg ring"
    using assms(5) by (auto simp: reac_pacer_open_def Let_def split: option.splits if_splits)
  have r': "reac_frame_ring_init True (open_ring_depth (pf_fps cfg)) 2048 = Some ring"
    using r by (simp add: reac_frame_ring_init_def Let_def split: if_splits)
  have "unat (open_ring_depth (pf_fps cfg)) \<le> 2 ^ 31"
  proof -
    have d: "pf_fps cfg sdiv 4 = pf_fps cfg div 4" using assms(3) by (simp add: sdiv_nonneg)
    have "0 \<le> pf_fps cfg div 4" "pf_fps cfg div 4 < 2 ^ 31" using assms(3,4) by simp_all
    then have "unat (word_of_int (pf_fps cfg div 4) :: u32) < 2 ^ 31"
      by (simp add: unsigned_of_int take_bit_int_eq_self nat_less_iff)
    then show ?thesis by (simp add: open_ring_depth_def Let_def d)
  qed
  from frame_ring_init_ok [OF r' this] obtain k where k: "frame_ring_inv k 2048 ring" "frame_ring_abs ring = ([], 0, 0)"
    by auto
  then have "run_inv w k (open_src env cfg) (l, p)"
    using open_state_ok [OF assms(1,2), of ring] assms(1) by (simp add: run_inv_def pacer_ok_def p)
  then show ?thesis by (rule that)
qed

text \<open>C2: Every slot of every run puts one well-formed frame on the wire. From the opening, whatever downstream
  frames are submitted, head-amp commands, rate requests and clocks arrive, and whatever is received, the frame the
  next slot sends has the full length, our address, the protocol type and the end marker, the counter of the
  master that speaks in the slot (a rate change restarts it), the audio of the oldest waiting frame or silence, and
  a control block that is filler or passes the checksum.\<close>

theorem pacer_sends_wire_frames:
  assumes "length (pw_scene_body w) = 8904" and "length (open_src env cfg) = 6" and "0 < pf_fps cfg" and "pf_fps cfg < 2 ^ 31"
    and "reac_pacer_open w env cfg = Some (p0, h)" and "list_all (pacer_op_ok (open_src env cfg)) ops"
    and "foldl (pacer_step w) (loop_start p0 h start, p0) ops = (l, p)" and "pacer_slot w inp l p = (l', p', f)"
  shows "length f = 1492 \<and> peek 6 6 f = open_src env cfg \<and> f ! 12 = 0x88 \<and> f ! 13 = 0x19 \<and>
    u16le (f ! 14) (f ! 15) = ma_counter (pk_master (fst (reac_pacer_rate_drain w (in_now inp)
        (fst (slot_pop (slot_guard w (slot_rx w inp p))))))) \<and>
    drop 50 f = drop 50 (snd (slot_pop (slot_guard w (slot_rx w inp p)))) \<and>
    f ! 1490 = REAC_END_MARKER_0 \<and> f ! 1491 = REAC_END_MARKER_1 \<and>
    (f ! 16 = 0 \<and> f ! 17 = 0 \<or> reac_ctrl_checksum_verify f = 0)"
proof -
  obtain k where "run_inv w k (open_src env cfg) (loop_start p0 h start, p0)"
    using open_run_inv [OF assms(1-5)] .
  from pacer_machine.inv_run [OF this assms(6)] have i: "run_inv w k (open_src env cfg) (l, p)" by (simp only: assms(7))
  obtain q g where e: "slot_emit w inp p = (q, g)" by (rule prod.exhaust)
  have "f = g" by (rule pacer_slot_frame(2) [OF assms(8) e])
  then show ?thesis using slot_emit_ok [OF assms(1) _ e, of k] i unfolding run_inv_def snd_conv by simp
qed

definition demo_world :: pacer_world where
  "demo_world = \<lparr> pw_tunables = REAC_MASTER_TUNABLES_DEFAULT, pw_scene_body = replicate 8904 0,
     pw_guard_floor_frames = 0, pw_no_headamp = False \<rparr>"

definition demo_cfg :: reac_pacer_cfg where
  "demo_cfg = \<lparr> pf_ifname = Some ''eth0'', pf_fps = 8000, pf_src_mac = Some [0, 0x40, 0xab, 1, 2, 3],
     pf_console = REAC_CONSOLE_CFG_IDLE, pf_headamps = [], pf_clock_follow = True, pf_catchup_max_slots = 0,
     pf_drivable_mask = 0, pf_rate_asserted = False \<rparr>"

definition demo_env :: open_env where
  "demo_env = \<lparr> oe_calloc_ok = True, oe_ifindex = 2, oe_socket_ok = True, oe_handle_ok = True, oe_hw = None,
     oe_getenv = (\<lambda>_. None), oe_files = (\<lambda>_. None), oe_tai = 37, oe_qdisc = REAC_ETF_QDISC_NONE, oe_setopt = None \<rparr>"

definition demo_slot :: slot_in where
  "demo_slot = \<lparr> in_rx = [[1, 2, 3]], in_now = 7, in_sent = True, in_errq = [], in_after = 9 \<rparr>"

theorem pacer_sends_wire_frames_witness:
  "\<exists>p0 h l p l' p' f. reac_pacer_open demo_world demo_env demo_cfg = Some (p0, h) \<and>
     foldl (pacer_step demo_world) (loop_start p0 h 5, p0) [Op_Headamp 1 0 1, Op_Rate 48000, Op_Slot demo_slot] = (l, p) \<and>
     pacer_slot demo_world demo_slot l p = (l', p', f) \<and> length f = 1492"
proof -
  have "pacer_open_backend (\<lambda>_. None) (\<lambda>_. None) (Some ''eth0'') 37 REAC_ETF_QDISC_NONE None \<noteq> None" by code_simp
  then obtain p0 h where o0: "reac_pacer_open demo_world demo_env demo_cfg = Some (p0, h)"
    by (auto simp: reac_pacer_open_def reac_frame_ring_init_def demo_env_def demo_cfg_def Let_def)
  obtain l p where r: "foldl (pacer_step demo_world) (loop_start p0 h 5, p0) [Op_Headamp 1 0 1, Op_Rate 48000, Op_Slot demo_slot] = (l, p)"
    by (rule prod.exhaust)
  obtain l' p' f where s: "pacer_slot demo_world demo_slot l p = (l', p', f)" by (rule prod_cases3)
  have "length f = 1492"
    using pacer_sends_wire_frames [OF _ _ _ _ o0 _ r s] by (simp add: demo_world_def demo_cfg_def open_src_def)
  then show ?thesis using o0 r s by blast
qed

section \<open>Deadlines\<close>

lemma behind_bound:
  assumes "0 < P" and "P < 2 ^ 32" and "unat now < 2 ^ 63" and "d < now"
    and "(now - d) div word_of_int P + 1 \<le> (ucast (c :: u32) :: u64)"
  shows "unat now \<le> unat d + unat c * nat P"
proof -
  have P: "unat (word_of_int P :: u64) = nat P" using assms(1,2) by (simp add: unsigned_of_int take_bit_int_eq_self)
  have nd: "unat (now - d) = unat now - unat d" using assms(4) by (simp add: unat_sub less_imp_le)
  let ?q = "(unat now - unat d) div nat P"
  have q: "unat ((now - d) div word_of_int P) = ?q" by (simp add: unat_div_distrib nd P)
  have "?q < 2 ^ 63" using div_le_dividend [of "unat now - unat d" "nat P"] assms(3) by linarith
  then have "?q + 1 < 2 ^ 64" by simp
  then have "unat ((now - d) div word_of_int P + 1) = ?q + 1"
    using unat_word_ariths(1) [of "(now - d) div word_of_int P" 1] unfolding q by simp
  moreover have "unat (ucast c :: u64) = unat c" using unsigned_less [of c, where ?'a = nat]
    by (simp add: unsigned_ucast_eq take_bit_nat_eq_self)
  ultimately have "?q + 1 \<le> unat c" using assms(5) by (simp add: word_le_nat_alt)
  then have "(?q + 1) * nat P \<le> unat c * nat P" by (rule mult_le_mono1)
  moreover have "unat now - unat d < (?q + 1) * nat P"
    using assms(1) dividend_less_div_times [of "nat P" "unat now - unat d"] by (simp add: algebra_simps)
  ultimately show ?thesis by linarith
qed

lemma rebase_ahead:
  assumes "unat now < 2 ^ 63"
  shows "now \<le> eg_launch_ns (reac_etf_grid_rebase g (now + ucast lead)) - ucast (lead :: u32)"
proof -
  have lt: "unat (ucast (eg_whole g) :: u64) < 2 ^ 32"
    using unsigned_less [of "eg_whole g", where ?'a = nat] by (simp add: unsigned_ucast_eq take_bit_nat_eq_self)
  have "eg_launch_ns (reac_etf_grid_rebase g (now + ucast lead)) - ucast lead = now + ucast (eg_whole g) \<or>
      eg_launch_ns (reac_etf_grid_rebase g (now + ucast lead)) - ucast lead = now + ucast (eg_whole g) + 1"
    by (simp add: reac_etf_grid_rebase_def reac_etf_grid_advance_def Let_def)
  moreover have "now \<le> now + ucast (eg_whole g)" "now \<le> now + ucast (eg_whole g) + 1"
    using assms lt by (simp_all add: word_le_nat_alt unat_word_ariths)
  ultimately show ?thesis by metis
qed

lemma late_dropped:
  assumes "slot_late now l p = (l', p')" and "lp_deadline l < now" and "0 < pk_period_ns p" and "pk_period_ns p < 2 ^ 32"
    and "unat now < 2 ^ 63" and "\<not> (pk_catchup_max_slots p \<noteq> 0 \<and> slots_behind now l p \<le> ucast (pk_catchup_max_slots p))"
  shows "now \<le> lp_deadline l'"
proof -
  have P: "unat (word_of_int (pk_period_ns p) :: u64) < 2 ^ 32"
    using assms(3,4) by (simp add: unsigned_of_int take_bit_int_eq_self nat_less_iff)
  have n: "now \<le> now + word_of_int (pk_period_ns p)" using assms(5) P by (simp add: word_le_nat_alt unat_word_ariths)
  have "lp_deadline l' = (case lp_etf l of None \<Rightarrow> now + word_of_int (pk_period_ns p)
      | Some g \<Rightarrow> eg_launch_ns (reac_etf_grid_rebase g (now + ucast (lp_lead_ns l))) - ucast (lp_lead_ns l))"
    using assms(1,2,6) by (auto simp: slot_late_def slots_behind_def Let_def split: if_splits option.splits)
  then show ?thesis using n rebase_ahead [OF assms(5)] by (simp split: option.splits)
qed

text \<open>C10: The schedule never lags by more than the catch-up budget. However late a slot ends, with either
  backend, the deadline the loop then waits for is behind the clock by at most the number of slots the budget
  allows, each of one nominal period; and a debt that exceeds the budget is dropped whole, the next deadline
  being then no longer in the past.\<close>

theorem deadline_within_budget:
  assumes "slot_late now l p = (l', p')" and "0 < pk_period_ns p" and "pk_period_ns p < 2 ^ 32" and "unat now < 2 ^ 63"
  shows "unat now \<le> unat (lp_deadline l') + unat (pk_catchup_max_slots p) * nat (pk_period_ns p) \<and>
    (lp_deadline l' = lp_deadline l \<or> now \<le> lp_deadline l')"
proof (cases "now > lp_deadline l")
  case False
  then show ?thesis using assms(1) by (simp add: slot_late_def word_le_nat_alt not_less trans_le_add1)
next
  case late: True
  show ?thesis
  proof (cases "pk_catchup_max_slots p \<noteq> 0 \<and> slots_behind now l p \<le> ucast (pk_catchup_max_slots p)")
    case True
    then have "l' = l" using assms(1) late by (auto simp: slot_late_def slots_behind_def Let_def split: if_splits)
    then show ?thesis using behind_bound [OF assms(2,3,4) late] True by (simp add: slots_behind_def)
  next
    case False
    then show ?thesis using late_dropped [OF assms(1) late assms(2-4)] by (simp add: word_le_nat_alt trans_le_add1)
  qed
qed

definition late_loop :: loop_state where
  "late_loop = \<lparr> lp_etf = None, lp_lead_ns = 0, lp_deadline = 125000, lp_drain_countdown = 0,
     lp_etf_refused = 0, lp_etf_first_code = 0 \<rparr>"

definition late_pacer :: reac_pacer where
  "late_pacer = demo_pacer\<lparr> pk_period_ns := 125000, pk_catchup_max_slots := 8 \<rparr>"

theorem deadline_within_budget_witness:
  "5000000 \<le> unat (lp_deadline (fst (slot_late 5000000 late_loop late_pacer))) + 1000000 \<and>
   lp_deadline (fst (slot_late 5000000 late_loop late_pacer)) = 5125000"
proof -
  obtain l p where s: "slot_late 5000000 late_loop late_pacer = (l, p)" by (rule prod.exhaust)
  have b: "5000000 \<le> unat (lp_deadline l) + 1000000"
    using deadline_within_budget [OF s] by (simp add: late_pacer_def)
  have "lp_deadline (fst (slot_late 5000000 late_loop late_pacer)) = 5125000"
    by (simp add: slot_late_def slots_behind_def late_loop_def late_pacer_def Let_def)
  then show ?thesis using b by (simp add: s)
qed

section \<open>The launch grid and the rate\<close>

text \<open>The step of the launch grid, as the loop start computed it from the rate.\<close>

definition grid_step :: "reac_etf_grid \<Rightarrow> u32 \<times> u32 \<times> u32" where
  "grid_step g = (eg_whole g, eg_rem g, eg_fps g)"

lemma advance_step: "grid_step (fst (reac_etf_grid_advance g s)) = grid_step g"
  by (simp add: grid_step_def reac_etf_grid_advance_def Let_def)

lemma rebase_step: "grid_step (reac_etf_grid_rebase g now) = grid_step g"
  unfolding reac_etf_grid_rebase_def advance_step by (simp add: grid_step_def)

lemma etf_errors_grid: "lp_etf (fst (slot_etf_errors inp l p)) = lp_etf l"
  by (simp add: slot_etf_errors_def Let_def split: prod.split)

lemma advance_grid: "map_option grid_step (lp_etf (fst (slot_advance now l p))) = map_option grid_step (lp_etf l)"
proof -
  have "fst (case reac_etf_grid_advance g s of (g, launch) \<Rightarrow> (l\<lparr> lp_etf := Some g, lp_deadline := launch - x \<rparr>, q)) =
      l\<lparr> lp_etf := Some (fst (reac_etf_grid_advance g s)), lp_deadline := snd (reac_etf_grid_advance g s) - x \<rparr>" for g s x q
    by (simp add: case_prod_beta)
  then show ?thesis by (simp add: slot_advance_def Let_def case_prod_beta advance_step split: option.split)
qed

lemma late_grid: "map_option grid_step (lp_etf (fst (slot_late now l p))) = map_option grid_step (lp_etf l)"
  by (simp add: slot_late_def Let_def rebase_step split: option.split)

text \<open>No slot changes the step of the launch grid, not even one that applies a new rate: unless the clock is
  followed, the frames keep being launched at the rate of the loop's start.\<close>

lemma slot_keeps_grid_step:
  assumes "pacer_slot w inp l p = (l', p', f)"
  shows "map_option grid_step (lp_etf l') = map_option grid_step (lp_etf l)"
proof -
  obtain q1 where q1: "l' = fst (slot_late (in_after inp) (fst (slot_advance (in_now inp) (fst (slot_etf_errors inp l q1))
      (snd (slot_etf_errors inp l q1)))) (snd (slot_advance (in_now inp) (fst (slot_etf_errors inp l q1))
      (snd (slot_etf_errors inp l q1)))))"
    using assms by (auto simp: pacer_slot_def Let_def case_prod_beta)
  show ?thesis unfolding q1 late_grid advance_grid etf_errors_grid ..
qed

end
