(* ===== verification/Reac_Pacer_Clock.thy ===== *)
theory Reac_Pacer_Clock
  imports Reac_Pacer_Queue
begin

text \<open>The clock the pacer follows (the tick of transport/src/reac_pacer.c) composed with the clock discipline:
  which source a due tick may select, and three facts about the pacer's corners: a unicast heartbeat is never
  logged as such, a re-establishment keeps the rate that was stored at the opening, and an opening without a
  frame rate stores none.\<close>

unbundle bit_operations_syntax

section \<open>What a due tick may follow\<close>

lemma avail_bit:
  "tick_avail p now AND push_bit (src_code s) 1 \<noteq> 0 \<longleftrightarrow>
     s \<noteq> REAC_CLOCK_SRC_FREERUN \<and> source_present p s \<and> source_fresh p now s"
  unfolding tick_avail_def tick_sources_def foldl_Cons foldl_Nil
  by (cases s; simp only: src_code.simps reac_clock_source.distinct simp_thms split: if_split; simp)

lemma selected_ok:
  assumes "reac_clock_select_graded role avail (Some q) m = s" and "s \<noteq> REAC_CLOCK_SRC_FREERUN"
  shows "avail AND push_bit (src_code s) 1 \<noteq> 0" and "m \<le> q s" and "s \<in> set (reac_clock_hierarchy role)"
  using assms by (auto simp: reac_clock_select_graded_def find_Some_iff not_less split: option.splits)

lemma set_quality_fields [simp]:
  "cd_role (reac_clock_disc_set_quality c s q) = cd_role c"
  "cd_min_quality (reac_clock_disc_set_quality c s q) = cd_min_quality c"
  by (simp_all add: reac_clock_disc_set_quality_def)

lemma grades_fields [simp]:
  "cd_role (tick_grades p) = cd_role (pk_clock p)" "cd_min_quality (tick_grades p) = cd_min_quality (pk_clock p)"
  by (simp_all add: tick_grades_def tick_sources_def)

lemma grades_present:
  "s \<noteq> REAC_CLOCK_SRC_FREERUN \<Longrightarrow> source_present p s \<Longrightarrow> cd_quality (tick_grades p) s = pk_clock_quality p s"
  by (cases s) (simp_all add: tick_grades_def tick_sources_def reac_clock_disc_set_quality_def)

lemma update_src:
  "cd_src (reac_clock_disc_update c avail m hm) =
     reac_clock_select_graded (cd_role c) avail (Some (cd_quality c)) (cd_min_quality c)"
proof -
  have f: "cd_src (disc_follow d st m hm) = cd_src d" for d st
    by (simp add: disc_follow_def Let_def split: prod.split)
  have "cd_src (disc_switch c s) = s" for s by (simp add: disc_switch_def Let_def)
  then show ?thesis by (simp add: reac_clock_disc_update_def Let_def f)
qed

lemma pev_push_clock [simp]: "pk_clock (pev_push now p kind a b src blk) = pk_clock p"
  by (simp add: pev_push_def Let_def)

text \<open>The sources as a due tick sees them: the slot counter it clears is no part of them.\<close>

lemma tick_views [simp]:
  "source_present (p\<lparr> pk_clock_slots := n \<rparr>) = source_present p"
  "source_fresh (p\<lparr> pk_clock_slots := n \<rparr>) = source_fresh p"
  "tick_avail (p\<lparr> pk_clock_slots := n \<rparr>) = tick_avail p"
  "tick_grades (p\<lparr> pk_clock_slots := n \<rparr>) = tick_grades p"
  by (simp_all add: source_present_def source_fresh_def tick_avail_def tick_grades_def tick_sources_def fun_eq_iff)

lemma tick_src:
  assumes "pk_clock_follow p" and "1024 \<le> pk_clock_slots p + 1"
  shows "cd_src (pk_clock (fst (reac_pacer_clock_tick p now))) =
    reac_clock_select_graded (cd_role (pk_clock p)) (tick_avail p now) (Some (cd_quality (tick_grades p))) (cd_min_quality (pk_clock p))"
  using assms(1) leD [OF assms(2)] by (simp add: reac_pacer_clock_tick_def Let_def update_src)

text \<open>C19: The pacer never follows a clock that has gone silent. After every tick that is due, the source the
  discipline names is the free-running clock, or one that is present, whose last measurement is less than two
  seconds old, whose grade is at least the minimum, and that the role's hierarchy admits.\<close>

theorem clock_never_follows_stale:
  assumes "pk_clock_follow p" and "1024 \<le> pk_clock_slots p + 1"
    and "cd_src (pk_clock (fst (reac_pacer_clock_tick p now))) = s"
  shows "s = REAC_CLOCK_SRC_FREERUN \<or>
    source_present p s \<and> pk_clock_stamp_ns p s \<noteq> 0 \<and> now - pk_clock_stamp_ns p s < 2000000000 \<and>
    cd_min_quality (pk_clock p) \<le> pk_clock_quality p s \<and> s \<in> set (reac_clock_hierarchy (cd_role (pk_clock p)))"
proof (cases "s = REAC_CLOCK_SRC_FREERUN")
  case False
  note sel = selected_ok [OF trans [OF tick_src [OF assms(1,2), symmetric] assms(3)] False]
  have a: "source_present p s" "source_fresh p now s" using sel(1) unfolding avail_bit by blast+
  then show ?thesis using sel(2,3) grades_present [OF False a(1)] by (simp add: source_fresh_def)
qed simp

definition clocked_pacer :: reac_pacer where
  "clocked_pacer = demo_pacer\<lparr> pk_clock_follow := True, pk_clock_slots := 1023, pk_clock_present := 6,
     pk_clock_stamp_ns := (\<lambda>s. if s = REAC_CLOCK_SRC_GRAPH then 1000 else 9000000000),
     pk_clock_quality := (\<lambda>_. REAC_CLOCK_Q_GOOD) \<rparr>"

theorem clock_never_follows_stale_witness:
  "cd_src (pk_clock (fst (reac_pacer_clock_tick clocked_pacer 9000000500))) = REAC_CLOCK_SRC_BOX \<and>
   9000000500 - pk_clock_stamp_ns clocked_pacer REAC_CLOCK_SRC_BOX < 2000000000"
proof -
  have c: "pk_clock_follow clocked_pacer" "1024 \<le> pk_clock_slots clocked_pacer + 1"
    by (simp_all add: clocked_pacer_def)
  have s: "cd_src (pk_clock (fst (reac_pacer_clock_tick clocked_pacer 9000000500))) = REAC_CLOCK_SRC_BOX"
    unfolding tick_src [OF c] reac_clock_select_graded_def avail_bit
    by (simp add: clocked_pacer_def demo_pacer_def pacer_zero_def reac_clock_disc_init_def reac_clock_hierarchy_def
        master_hier_def source_present_def source_fresh_def tick_grades_def tick_sources_def reac_clock_disc_set_quality_def
        less_reac_clock_quality_def)
  then show ?thesis using clock_never_follows_stale [OF c s] by simp
qed

section \<open>Corners\<close>

text \<open>The classifier gives a heartbeat an event of its own, so the branch of the receive log that thins out the
  unicast heartbeats is never taken.\<close>

lemma unicast_is_no_heartbeat:
  "reac_ctrl_classify_box_frame frame our = (parsed, Some REAC_M_RX_BOX_UNICAST) \<Longrightarrow> pc_kind parsed \<noteq> REAC_CTRL_BOX_HB"
  by (auto simp: reac_ctrl_classify_box_frame_def Let_def split: if_splits)

text \<open>An opening whose frame rate is not positive paces at the fallback rate but stores a zero audio rate; the
  re-establishment that follows then runs at a frame rate of zero.\<close>

lemma reestablish_rate:
  assumes "pk_rate_req_seq p = pk_rate_req_seen p"
  shows "pk_fps (fst (reac_pacer_rate_drain w now (reac_pacer_request_reestablish p cause))) = pk_rate_hz p sdiv 12"
proof -
  have e: "pk_fps (pev_push now q kind a b src blk) = pk_fps q" for q kind a b src blk
    by (simp add: pev_push_def Let_def)
  show ?thesis using assms
    by (simp add: reac_pacer_rate_drain_def reac_pacer_request_reestablish_def reac_pacer_apply_rate_def Let_def e session_call_def)
qed

lemma open_without_rate:
  assumes "pf_fps cfg = 0"
  shows "pk_fps (open_state w env cfg ring) = 8000 \<and>
    pk_fps (fst (reac_pacer_rate_drain w now (reac_pacer_request_reestablish (open_state w env cfg ring) cause))) = 0"
proof -
  have "pk_rate_req_seq (open_state w env cfg ring) = pk_rate_req_seen (open_state w env cfg ring)"
    "pk_rate_hz (open_state w env cfg ring) = 0" "pk_fps (open_state w env cfg ring) = 8000"
    using assms by (simp_all add: open_state_def pacer_zero_def Let_def)
  then show ?thesis by (simp add: reestablish_rate signed_divide_int_def)
qed

end
