(* ===== verification/Reac_Rx.thy ===== *)
theory Reac_Rx
  imports Reac_Codec Reac_Ring Reac_Segment Reac_Clock
begin

text \<open>The receiver (transport/src/reac_rx.c): which received frames are the peer's, in which order their audio
  enters the sample ring, and what is counted of the rest.

  The state of the thread is the record of the code, with the ring it shares, and the locals of its loop. One turn
  takes the bytes that were read and the two values of the clock it may read. The clean part of the previous frame
  is one list, its length the stored length. The sleep that paces a capture file and the log lines are left out;
  the peak and fill figures are written by the audio callback and not here. The conversion of the drift to
  \<^verbatim>\<open>int\<close> is exact.\<close>

unbundle bit_operations_syntax

section \<open>State\<close>

datatype reac_rx_kind = REAC_RX_PCAP | REAC_RX_LIVE

datatype reac_rx_accept = REAC_RX_ACCEPT_DOWNSTREAM | REAC_RX_ACCEPT_UPSTREAM

record reac_rx_cfg =
  rc_kind :: reac_rx_kind
  rc_source :: string
  rc_forced_rate :: int
  rc_pcap_realtime :: bool
  rc_accept :: reac_rx_accept

record reac_rx =
  rx_cfg :: reac_rx_cfg
  rx_ring :: "rat ring"
  rx_sample_rate :: int
  rx_pace :: reac_pace_watch
  rx_bound_ifindex :: u32
  rx_iface_lost :: bool
  rx_ppm_error_milli :: int
  rx_ppm_seq :: u32
  rx_ppm_win_start_ns :: u64
  rx_ppm_win_frames :: u32
  rx_ppm_last_counter :: u16
  rx_ppm_have_last :: bool
  rx_up_src :: mac
  rx_up_src_locked :: bool
  rx_peer_session :: u32
  rx_peer_epoch :: u32
  rx_prev_frame :: bytes
  rx_have_prev_frame :: bool
  rx_frames_ok :: u64
  rx_frames_bad :: u64
  rx_frames_other :: u64
  rx_counter_gaps :: u64
  rx_frames_dup :: u64

text \<open>The locals of the loop.\<close>

record rx_locals =
  rl_last_counter :: u16
  rl_have_counter :: bool
  rl_stale_last :: u16
  rl_stale_run :: u32
  rl_conflict_said :: bool
  rl_seen_epoch :: u32
  rl_last_iface_check_ns :: u64

section \<open>The interface under the socket\<close>

definition reac_rx_iface_index :: "(string \<Rightarrow> u32) \<Rightarrow> string option \<Rightarrow> u32" where
  "reac_rx_iface_index if_nametoindex ifname = (case ifname of Some s \<Rightarrow> if_nametoindex s | None \<Rightarrow> 0)"

definition reac_rx_iface_present :: "(string \<Rightarrow> u32) \<Rightarrow> string option \<Rightarrow> bool" where
  "reac_rx_iface_present if_nametoindex ifname \<longleftrightarrow> reac_rx_iface_index if_nametoindex ifname \<noteq> 0"

definition reac_rx_binding_lost :: "u32 \<Rightarrow> u32 \<Rightarrow> bool" where
  "reac_rx_binding_lost bound_ifindex current_ifindex \<longleftrightarrow>
     (if bound_ifindex = 0 then False else current_ifindex \<noteq> bound_ifindex)"

text \<open>The check of a live interface, at most once in two seconds; the result says that the loop ends.\<close>

definition rx_iface_check :: "(string \<Rightarrow> u32) \<Rightarrow> u64 \<Rightarrow> rx_locals \<Rightarrow> reac_rx \<Rightarrow> rx_locals \<times> reac_rx \<times> bool" where
  "rx_iface_check if_nametoindex chk_now l rx =
     (if chk_now - rl_last_iface_check_ns l \<ge> 2000000000
      then let l = l\<lparr> rl_last_iface_check_ns := chk_now \<rparr>
           in if reac_rx_binding_lost (rx_bound_ifindex rx) (reac_rx_iface_index if_nametoindex (Some (rc_source (rx_cfg rx))))
              then (l, rx\<lparr> rx_iface_lost := True \<rparr>, True) else (l, rx, False)
      else (l, rx, False))"

section \<open>Audio into the ring\<close>

definition s24_plane :: "bytes \<Rightarrow> nat \<Rightarrow> rat" where
  "s24_plane s24 i = reac_s24le_to_f32 (s24 ! (3 * i)) (s24 ! (3 * i + 1)) (s24 ! (3 * i + 2))"

definition feed_frame :: "reac_mode \<Rightarrow> bytes \<Rightarrow> reac_rx \<Rightarrow> reac_rx" where
  "feed_frame mode frame rx =
     (let (decoded, nch) =
        (if rc_accept (rx_cfg rx) = REAC_RX_ACCEPT_UPSTREAM
         then let nch = reac_upstream_channels (length frame)
              in (if nch > 0 then reac_upstream_decode (Some frame) else None, nch)
         else (reac_decode frame mode, n_channels mode))
      in case decoded of
           None \<Rightarrow> rx\<lparr> rx_frames_bad := rx_frames_bad rx + 1 \<rparr>
         | Some (ns, s24) \<Rightarrow>
             let ns = (if ns > REAC_SAMPLES_PER_PKT then REAC_SAMPLES_PER_PKT else ns);
                 nch = (if nch > REAC_MAX_CHANNELS then REAC_MAX_CHANNELS else nch);
                 planar = map (s24_plane s24) [0..<nat nch * nat ns]
             in rx\<lparr> rx_ring := fst (reac_ring_write (rx_ring rx) planar (word_of_int ns) (word_of_int nch)),
                    rx_frames_ok := rx_frames_ok rx + 1 \<rparr>)"

section \<open>The peer\<close>

definition reac_rx_session_end :: "reac_rx \<Rightarrow> reac_rx" where
  "reac_rx_session_end rx = rx\<lparr> rx_peer_epoch := rx_peer_epoch rx + 1 \<rparr>"

definition reac_rx_peer_reset :: "mac \<Rightarrow> u32 \<Rightarrow> reac_rx \<Rightarrow> reac_rx" where
  "reac_rx_peer_reset mac session rx =
     (if rx_up_src_locked rx \<and> rx_up_src rx = mac \<and> rx_peer_session rx = session then rx
      else rx\<lparr> rx_peer_session := session, rx_up_src := mac, rx_up_src_locked := True,
               rx_peer_epoch := rx_peer_epoch rx + 1 \<rparr>)"

definition gate_accepts :: "bytes \<Rightarrow> reac_rx \<Rightarrow> reac_rx \<times> bool" where
  "gate_accepts frame rx =
     (let broadcast = (peek 0 6 frame = replicate 6 0xff) in
      if rc_accept (rx_cfg rx) = REAC_RX_ACCEPT_DOWNSTREAM
      then (rx, \<not> (length frame \<noteq> REAC_FRAME_BYTES \<or> \<not> broadcast) \<and>
              (\<not> rx_up_src_locked rx \<or> rx_up_src rx = peek 6 6 frame))
      else if reac_upstream_channels (length frame) < 0 then (rx, False)
      else if \<not> rx_up_src_locked rx
      then (if broadcast then (rx, False)
            else (rx\<lparr> rx_up_src := peek 6 6 frame, rx_up_src_locked := True \<rparr>, True))
      else (rx, rx_up_src rx = peek 6 6 frame))"

section \<open>The order of the counters\<close>

abbreviation (input) REAC_RX_RESYNC_RUN :: u32 where "REAC_RX_RESYNC_RUN \<equiv> 8"

definition counter_ahead :: "u16 \<Rightarrow> u16 \<Rightarrow> bool" where
  "counter_ahead lst cur \<longleftrightarrow> reac_counter_gap lst cur < 0x8000"

text \<open>A frame that is not ahead is refused, unless it is the eighth in a row of refused frames that continue each
  other.\<close>

definition rx_order :: "u16 \<Rightarrow> rx_locals \<Rightarrow> rx_locals \<times> bool" where
  "rx_order counter l =
     (if rl_have_counter l \<and> \<not> counter_ahead (rl_last_counter l) counter
      then let run = (if rl_stale_run l \<noteq> 0 \<and> counter = rl_stale_last l + 1 then rl_stale_run l + 1 else 1);
               l = l\<lparr> rl_stale_run := run, rl_stale_last := counter \<rparr>
           in if run < REAC_RX_RESYNC_RUN
              then (if counter = rl_last_counter l \<and> \<not> rl_conflict_said l then l\<lparr> rl_conflict_said := True \<rparr> else l, False)
              else (l\<lparr> rl_have_counter := False \<rparr>, True)
      else (l, True))"

text \<open>The accepted frame becomes the last one; what it skipped is counted.\<close>

definition rx_gap :: "u16 \<Rightarrow> rx_locals \<Rightarrow> u64" where
  "rx_gap counter l = (if rl_have_counter l then ucast (reac_counter_gap (rl_last_counter l) counter) else 0)"

definition rx_accept :: "u16 \<Rightarrow> rx_locals \<Rightarrow> rx_locals" where
  "rx_accept counter l = l\<lparr> rl_stale_run := 0, rl_last_counter := counter, rl_have_counter := True \<rparr>"

definition update_ppm :: "u16 \<Rightarrow> u64 \<Rightarrow> reac_rx \<Rightarrow> reac_rx" where
  "update_ppm counter now_ns rx =
     (let rx = (if rx_ppm_have_last rx
                then rx\<lparr> rx_ppm_win_frames := rx_ppm_win_frames rx
                          + (ucast (reac_counter_gap (rx_ppm_last_counter rx) counter) + 1) \<rparr>
                else rx\<lparr> rx_ppm_win_start_ns := now_ns, rx_ppm_have_last := True \<rparr>);
          rx = rx\<lparr> rx_ppm_last_counter := counter \<rparr>;
          dt = now_ns - rx_ppm_win_start_ns rx
      in if dt \<ge> 250000000
         then let obs_pps = of_nat (unat (rx_ppm_win_frames rx)) * 1000000000 / of_nat (unat dt) :: real;
                  nom_pps = of_int (rx_sample_rate rx) / of_int REAC_SAMPLES_PER_PKT;
                  ppm = (obs_pps - nom_pps) / nom_pps * 1000000
              in rx\<lparr> rx_ppm_error_milli := trunc_long (ppm * 1000), rx_ppm_seq := rx_ppm_seq rx + 1,
                     rx_ppm_win_start_ns := now_ns, rx_ppm_win_frames := 0 \<rparr>
         else rx)"

section \<open>One turn of the loop\<close>

text \<open>A new session or a new peer forgets the order of the old one.\<close>

definition rx_new_epoch :: "u64 \<Rightarrow> rx_locals \<Rightarrow> reac_rx \<Rightarrow> rx_locals \<times> reac_rx" where
  "rx_new_epoch t l rx =
     (if rx_peer_epoch rx \<noteq> rl_seen_epoch l
      then (l\<lparr> rl_seen_epoch := rx_peer_epoch rx, rl_have_counter := False, rl_stale_run := 0 \<rparr>,
            rx\<lparr> rx_have_prev_frame := False, rx_ppm_have_last := False, rx_ppm_win_frames := 0,
                rx_ppm_error_milli := 0, rx_pace := reac_pace_watch_reset (rx_pace rx) t \<rparr>)
      else (l, rx))"

text \<open>The start of a capture file over again.\<close>

definition rx_rewind :: "rx_locals \<Rightarrow> reac_rx \<Rightarrow> rx_locals \<times> reac_rx" where
  "rx_rewind l rx =
     (l\<lparr> rl_have_counter := False, rl_stale_run := 0 \<rparr>,
      rx\<lparr> rx_have_prev_frame := False, rx_ppm_have_last := False, rx_ppm_win_frames := 0 \<rparr>)"

abbreviation (input) PREV_FRAME_BYTES :: nat where "PREV_FRAME_BYTES \<equiv> 1560"

text \<open>A frame that is the peer's and no twin of the last one.\<close>

definition rx_peer_frame :: "u64 \<Rightarrow> u64 \<Rightarrow> bytes \<Rightarrow> rx_locals \<Rightarrow> reac_rx \<Rightarrow> rx_locals \<times> reac_rx" where
  "rx_peer_frame t now frame l rx =
     (let rx = (if length frame \<le> PREV_FRAME_BYTES then rx\<lparr> rx_prev_frame := frame, rx_have_prev_frame := True \<rparr> else rx);
          counter = reac_frame_counter frame;
          (l, rx) = rx_new_epoch t l rx;
          (l, ok) = rx_order counter l
      in if \<not> ok then (l, rx\<lparr> rx_frames_other := rx_frames_other rx + 1 \<rparr>)
         else let rx = rx\<lparr> rx_counter_gaps := rx_counter_gaps rx + rx_gap counter l \<rparr>;
                  rx = update_ppm counter now rx;
                  rx = feed_frame (reac_mode_for (rx_sample_rate rx)) frame rx
              in (rx_accept counter l, rx\<lparr> rx_pace := fst (reac_pace_watch_frame (rx_pace rx) now) \<rparr>))"

definition rx_turn :: "u64 \<Rightarrow> u64 \<Rightarrow> bytes \<Rightarrow> rx_locals \<Rightarrow> reac_rx \<Rightarrow> rx_locals \<times> reac_rx" where
  "rx_turn t now buf l rx =
     (if \<not> reac_frame_is_reac (Some buf) then (l, rx)
      else let frame = take (reac_frame_clean_len (length buf)) buf;
               (rx, ok) = gate_accepts frame rx
           in if \<not> ok then (l, rx\<lparr> rx_frames_other := rx_frames_other rx + 1 \<rparr>)
              else if rx_have_prev_frame rx \<and> frame = rx_prev_frame rx
              then (l, rx\<lparr> rx_frames_dup := rx_frames_dup rx + 1 \<rparr>)
              else rx_peer_frame t now frame l rx)"

section \<open>Opening\<close>

definition rx_zero :: "reac_rx_cfg \<Rightarrow> rat ring \<Rightarrow> int \<Rightarrow> reac_rx" where
  "rx_zero cfg ring rate =
     \<lparr> rx_cfg = cfg, rx_ring = ring, rx_sample_rate = rate, rx_pace = reac_pace_watch_init rate, rx_bound_ifindex = 0,
       rx_iface_lost = False, rx_ppm_error_milli = 0, rx_ppm_seq = 0, rx_ppm_win_start_ns = 0, rx_ppm_win_frames = 0,
       rx_ppm_last_counter = 0, rx_ppm_have_last = False, rx_up_src = replicate 6 0, rx_up_src_locked = False,
       rx_peer_session = 0, rx_peer_epoch = 0, rx_prev_frame = [], rx_have_prev_frame = False, rx_frames_ok = 0,
       rx_frames_bad = 0, rx_frames_other = 0, rx_counter_gaps = 0, rx_frames_dup = 0 \<rparr>"

text \<open>The capture socket opens or not, and a rate is detected on it (0 for none).\<close>

definition rx_rate :: "reac_rx_cfg \<Rightarrow> int \<Rightarrow> int" where
  "rx_rate cfg detected =
     (if rc_kind cfg = REAC_RX_LIVE
      then (if rc_forced_rate cfg \<noteq> 0 then rc_forced_rate cfg else if detected > 0 then detected else 48000)
      else if rc_forced_rate cfg \<noteq> 0 then rc_forced_rate cfg else 48000)"

definition reac_rx_open :: "bool \<Rightarrow> bool \<Rightarrow> int \<Rightarrow> reac_rx_cfg \<Rightarrow> reac_rx option" where
  "reac_rx_open calloc_ok capture_ok detected cfg =
     (if rc_kind cfg = REAC_RX_LIVE \<and> \<not> capture_ok then None
      else let rate = rx_rate cfg detected;
               depth = word_of_int (rate sdiv 4) :: u32
           in map_option (\<lambda>ring. rx_zero cfg ring rate) (reac_ring_init calloc_ok (word_of_int REAC_MAX_CHANNELS) depth))"

text \<open>The locals at the start of the loop.\<close>

definition rx_locals_start :: "reac_rx \<Rightarrow> rx_locals" where
  "rx_locals_start rx =
     \<lparr> rl_last_counter = 0, rl_have_counter = False, rl_stale_last = 0, rl_stale_run = 0, rl_conflict_said = False,
       rl_seen_epoch = rx_peer_epoch rx, rl_last_iface_check_ns = 0 \<rparr>"

section \<open>The order filter and its reference\<close>

definition order_step :: "u16 \<Rightarrow> rx_locals \<Rightarrow> rx_locals \<times> bool" where
  "order_step c l = (let (l, ok) = rx_order c l in (if ok then rx_accept c l else l, ok))"

text \<open>The reference keeps every counter of the session with its verdict, the newest first.\<close>

definition refused_since :: "(u16 \<times> bool) list \<Rightarrow> u16 list" where
  "refused_since past = map fst (takeWhile (\<lambda>x. \<not> snd x) past)"

definition order_ref :: "(u16 \<times> bool) list \<Rightarrow> u16 \<Rightarrow> bool" where
  "order_ref past c =
     (case dropWhile (\<lambda>x. \<not> snd x) past of
        [] \<Rightarrow> True
      | (a, _) # _ \<Rightarrow> counter_ahead a c \<or>
          7 \<le> length (refused_since past) \<and> (\<forall>i < 7. refused_since past ! i = c - of_nat (Suc i)))"

fun order_refs :: "(u16 \<times> bool) list \<Rightarrow> u16 list \<Rightarrow> bool list" where
  "order_refs past [] = []"
| "order_refs past (c # cs) = order_ref past c # order_refs ((c, order_ref past c) # past) cs"

text \<open>The length of the run at the front of the refused counters.\<close>

fun crun :: "u16 list \<Rightarrow> nat" where
  "crun [] = 0"
| "crun [x] = 1"
| "crun (x # y # r) = (if x = y + 1 then Suc (crun (y # r)) else 1)"

lemma crun_run: "Suc n \<le> crun (c # r) \<longleftrightarrow> n \<le> length r \<and> (\<forall>i < n. r ! i = c - of_nat (Suc i))"
proof (induction n arbitrary: c r)
  case 0
  show ?case by (cases r) auto
next
  case (Suc n)
  show ?case
  proof (cases r)
    case (Cons y s)
    have "Suc (Suc n) \<le> crun (c # r) \<longleftrightarrow> c = y + 1 \<and> Suc n \<le> crun (y # s)" by (simp add: Cons)
    also have "\<dots> \<longleftrightarrow> c = y + 1 \<and> n \<le> length s \<and> (\<forall>i < n. s ! i = y - of_nat (Suc i))" by (simp only: Suc.IH)
    also have "\<dots> \<longleftrightarrow> Suc n \<le> length r \<and> (\<forall>i < Suc n. r ! i = c - of_nat (Suc i))"
      by (auto simp: Cons All_less_Suc2 algebra_simps)
    finally show ?thesis .
  qed simp
qed

definition order_rel :: "(u16 \<times> bool) list \<Rightarrow> rx_locals \<Rightarrow> bool" where
  "order_rel past l \<longleftrightarrow>
     (case dropWhile (\<lambda>x. \<not> snd x) past of
        [] \<Rightarrow> past = [] \<and> \<not> rl_have_counter l
      | (a, _) # _ \<Rightarrow> rl_have_counter l \<and> rl_last_counter l = a) \<and>
     unat (rl_stale_run l) = crun (refused_since past) \<and> crun (refused_since past) < 8 \<and>
     (refused_since past \<noteq> [] \<longrightarrow> rl_stale_last l = hd (refused_since past))"

lemma refused_since_simps [simp]:
  "refused_since [] = []" "refused_since ((c, True) # past) = []"
  "refused_since ((c, False) # past) = c # refused_since past"
  by (simp_all add: refused_since_def)

lemma next_run:
  assumes "order_rel past l"
  shows "unat (if rl_stale_run l \<noteq> 0 \<and> c = rl_stale_last l + 1 then rl_stale_run l + 1 else 1) = crun (c # refused_since past)"
proof (cases "refused_since past")
  case Nil
  then have "rl_stale_run l = 0" using assms by (simp add: order_rel_def unat_eq_0)
  then show ?thesis using Nil by simp
next
  case (Cons y r)
  then have s: "rl_stale_last l = y" "unat (rl_stale_run l) = crun (y # r)" "crun (y # r) < 8"
    using assms by (simp_all add: order_rel_def)
  have "0 < crun (y # r)" by (cases r) auto
  then have "rl_stale_run l \<noteq> 0" using s(2) by auto
  moreover have "unat (rl_stale_run l + 1) = Suc (unat (rl_stale_run l))" using s(2,3) by (simp add: unat_word_ariths)
  ultimately show ?thesis using s by (simp add: Cons)
qed

lemma order_step_ref:
  assumes "order_rel past l"
  shows "snd (order_step c l) = order_ref past c" and "order_rel ((c, order_ref past c) # past) (fst (order_step c l))"
proof -
  define run where "run = (if rl_stale_run l \<noteq> 0 \<and> c = rl_stale_last l + 1 then rl_stale_run l + 1 else 1)"
  have urun: "unat run = crun (c # refused_since past)" unfolding run_def by (rule next_run [OF assms])
  have lt: "run < 8 \<longleftrightarrow> crun (c # refused_since past) < 8"
    using urun by (simp only: word_less_nat_alt unat_numeral) simp
  have e: "8 \<le> crun (c # refused_since past) \<longleftrightarrow>
      7 \<le> length (refused_since past) \<and> (\<forall>i < 7. refused_since past ! i = c - of_nat (Suc i))"
    using crun_run [of 7 c "refused_since past"] by simp
  have acc: "order_rel ((c, True) # past) (rx_accept c l')" for l' by (simp add: order_rel_def rx_accept_def)
  consider (first) "dropWhile (\<lambda>x. \<not> snd x) past = []"
    | (later) a v ps where "dropWhile (\<lambda>x. \<not> snd x) past = (a, v) # ps" "v" by (metis hd_dropWhile list.collapse prod.collapse list.sel(1))
  then have "snd (order_step c l) = order_ref past c \<and> order_rel ((c, order_ref past c) # past) (fst (order_step c l))"
  proof cases
    case first
    then have "\<not> rl_have_counter l" using assms by (simp add: order_rel_def del: dropWhile_eq_Nil_conv)
    moreover have "order_ref past c" using first by (simp add: order_ref_def del: dropWhile_eq_Nil_conv)
    ultimately show ?thesis using acc by (simp add: order_step_def rx_order_def)
  next
    case later
    then have h: "rl_have_counter l" "rl_last_counter l = a" using assms by (simp_all add: order_rel_def)
    show ?thesis
    proof (cases "counter_ahead a c")
      case True
      then show ?thesis using later acc h by (simp add: order_step_def rx_order_def order_ref_def)
    next
      case stale: False
      show ?thesis
      proof (cases "run < 8")
        case True
        then have r: "crun (c # refused_since past) < 8" using lt by blast
        then have n: "\<not> order_ref past c" using later stale e by (simp add: order_ref_def)
        have o: "rx_order c l = ((if c = rl_last_counter l \<and> \<not> rl_conflict_said l
              then l\<lparr> rl_stale_run := run, rl_stale_last := c, rl_conflict_said := True \<rparr>
              else l\<lparr> rl_stale_run := run, rl_stale_last := c \<rparr>), False)"
          using h stale True by (simp add: rx_order_def Let_def flip: run_def)
        have "order_rel ((c, False) # past) (fst (rx_order c l))"
          using later h r urun by (simp only: o) (simp add: order_rel_def del: crun.simps)
        then show ?thesis using n by (simp add: order_step_def o)
      next
        case False
        then have n: "order_ref past c" using lt e later by (simp add: order_ref_def not_less)
        have o: "rx_order c l = (l\<lparr> rl_stale_run := run, rl_stale_last := c, rl_have_counter := False \<rparr>, True)"
          using h stale False by (simp add: rx_order_def Let_def flip: run_def)
        show ?thesis using n acc by (simp add: order_step_def o)
      qed
    qed
  qed
  then show "snd (order_step c l) = order_ref past c" and "order_rel ((c, order_ref past c) # past) (fst (order_step c l))"
    by blast+
qed

lemma order_run_refs: "order_rel past l \<Longrightarrow> snd (trace_of order_step cs l) = order_refs past cs"
proof (induction cs arbitrary: past l)
  case (Cons c cs)
  note s = order_step_ref [OF Cons.prems, of c]
  show ?case using Cons.IH [OF s(2)] s(1) by (simp add: Let_def case_prod_beta)
qed simp

text \<open>C11: The order filter of the receiver is the one its comment describes. From the start of a session, whatever
  counters arrive, a frame is accepted exactly when it is the first, when its counter is ahead of the last
  accepted one, or when the seven frames refused just before it, with none accepted in between, and itself count
  on from each other. One accepted frame of the peer between forged ones therefore breaks a run.\<close>

theorem rx_order_matches_reference:
  "snd (trace_of order_step cs (rx_locals_start rx)) = order_refs [] cs"
  by (rule order_run_refs) (simp add: order_rel_def rx_locals_start_def)

end
