(* ===== verification/Reac_Rx_Stream.thy ===== *)
theory Reac_Rx_Stream
  imports Reac_Rx
begin

text \<open>Runs of the receiver: what every history keeps, and a whole stream from the frames the sender builds to the
  rows a reader finds in the ring.\<close>

unbundle bit_operations_syntax

section \<open>Histories\<close>

datatype rx_event = Rx_Turn u64 u64 bytes | Rx_Peer mac u32 | Rx_End | Rx_Rewind | Rx_Read u32 u32

fun rx_step :: "rx_locals \<times> reac_rx \<Rightarrow> rx_event \<Rightarrow> rx_locals \<times> reac_rx" where
  "rx_step (l, rx) (Rx_Turn t now buf) = rx_turn t now buf l rx"
| "rx_step (l, rx) (Rx_Peer m session) = (l, reac_rx_peer_reset m session rx)"
| "rx_step (l, rx) Rx_End = (l, reac_rx_session_end rx)"
| "rx_step (l, rx) Rx_Rewind = rx_rewind l rx"
| "rx_step (l, rx) (Rx_Read channels n) = (l, rx\<lparr> rx_ring := fst (reac_ring_read_planar (rx_ring rx) channels n) \<rparr>)"

fun rx_reac :: "rx_event \<Rightarrow> bool" where
  "rx_reac (Rx_Turn t now buf) = reac_frame_is_reac (Some buf)"
| "rx_reac _ = False"

definition rx_counted :: "reac_rx \<Rightarrow> u64" where
  "rx_counted rx = rx_frames_ok rx + rx_frames_bad rx + rx_frames_other rx + rx_frames_dup rx"

text \<open>What a turn leaves alone.\<close>

definition same_stream :: "reac_rx \<Rightarrow> reac_rx \<Rightarrow> bool" where
  "same_stream rx rx' \<longleftrightarrow> rx_ring rx' = rx_ring rx \<and> rx_cfg rx' = rx_cfg rx \<and> rx_sample_rate rx' = rx_sample_rate rx \<and>
     rx_frames_ok rx' = rx_frames_ok rx \<and> rx_frames_bad rx' = rx_frames_bad rx \<and>
     rx_frames_other rx' = rx_frames_other rx \<and> rx_frames_dup rx' = rx_frames_dup rx"

lemma same_stream_counted: "same_stream rx rx' \<Longrightarrow> rx_counted rx' = rx_counted rx"
  by (simp add: same_stream_def rx_counted_def)

lemma ppm_same: "same_stream rx (update_ppm c now rx)"
  by (simp add: same_stream_def update_ppm_def Let_def)

lemma epoch_same: "same_stream rx (snd (rx_new_epoch t l rx))"
  by (simp add: same_stream_def rx_new_epoch_def)

lemma gate_same: "same_stream rx (fst (gate_accepts frame rx))"
  by (simp add: same_stream_def gate_accepts_def Let_def)

lemma feed_counted: "rx_counted (feed_frame mode frame rx) = rx_counted rx + 1"
  by (simp add: feed_frame_def rx_counted_def Let_def case_prod_beta algebra_simps split: option.split)

definition rx_kept :: "bytes \<Rightarrow> reac_rx \<Rightarrow> reac_rx" where
  "rx_kept frame rx = (if length frame \<le> 1560 then rx\<lparr> rx_prev_frame := frame, rx_have_prev_frame := True \<rparr> else rx)"

text \<open>The accepted frame: the whole effect on the stream is that of the decoder and the ring.\<close>

lemma peer_frame_cases:
  fixes t now frame l rx
  defines "l1 \<equiv> fst (rx_new_epoch t l (rx_kept frame rx))" and "r1 \<equiv> snd (rx_new_epoch t l (rx_kept frame rx))"
    and "c \<equiv> reac_frame_counter frame"
  obtains (refused) "\<not> snd (rx_order c l1)"
      "rx_peer_frame t now frame l rx = (fst (rx_order c l1), r1\<lparr> rx_frames_other := rx_frames_other r1 + 1 \<rparr>)"
  | (fed) r2 where "snd (rx_order c l1)" "same_stream r1 r2" "rx_prev_frame r2 = rx_prev_frame r1"
      "rx_have_prev_frame r2 = rx_have_prev_frame r1" "rx_up_src_locked r2 = rx_up_src_locked r1"
      "rx_up_src r2 = rx_up_src r1" "rx_peer_epoch r2 = rx_peer_epoch r1"
      "rx_counter_gaps r2 = rx_counter_gaps r1 + rx_gap c (fst (rx_order c l1))"
      "rx_peer_frame t now frame l rx = (rx_accept c (fst (rx_order c l1)),
         (feed_frame (reac_mode_for (rx_sample_rate rx)) frame r2)
           \<lparr> rx_pace := fst (reac_pace_watch_frame (rx_pace (feed_frame (reac_mode_for (rx_sample_rate rx)) frame r2)) now) \<rparr>)"
proof -
  have p: "rx_peer_frame t now frame l rx =
      (if \<not> snd (rx_order c l1) then (fst (rx_order c l1), r1\<lparr> rx_frames_other := rx_frames_other r1 + 1 \<rparr>)
       else let rx2 = update_ppm c now (r1\<lparr> rx_counter_gaps := rx_counter_gaps r1 + rx_gap c (fst (rx_order c l1)) \<rparr>);
                rx3 = feed_frame (reac_mode_for (rx_sample_rate rx2)) frame rx2
            in (rx_accept c (fst (rx_order c l1)), rx3\<lparr> rx_pace := fst (reac_pace_watch_frame (rx_pace rx3) now) \<rparr>))"
    unfolding rx_peer_frame_def rx_kept_def [symmetric] by (simp add: Let_def case_prod_beta l1_def r1_def c_def)
  define r2 where "r2 = update_ppm c now (r1\<lparr> rx_counter_gaps := rx_counter_gaps r1 + rx_gap c (fst (rx_order c l1)) \<rparr>)"
  have s2: "same_stream r1 r2" using ppm_same [of "r1\<lparr> rx_counter_gaps := rx_counter_gaps r1 + rx_gap c (fst (rx_order c l1)) \<rparr>" c now]
    by (simp add: same_stream_def r2_def)
  have "rx_sample_rate r1 = rx_sample_rate rx"
    using epoch_same [of "rx_kept frame rx" t l] by (simp add: r1_def same_stream_def rx_kept_def)
  then have rate: "rx_sample_rate r2 = rx_sample_rate rx" using s2 by (simp add: same_stream_def)
  show ?thesis
  proof (cases "snd (rx_order c l1)")
    case False
    then show ?thesis using p refused by simp
  next
    case True
    show ?thesis
      by (rule fed [of r2]) (use p True s2 rate in \<open>simp_all add: Let_def flip: r2_def, simp_all add: r2_def update_ppm_def Let_def\<close>)
  qed
qed

section \<open>What every history keeps\<close>

lemma unat_small_int: "0 \<le> x \<Longrightarrow> x < 2 ^ 32 \<Longrightarrow> unat (word_of_int x :: u32) = nat x"
  by (simp add: unsigned_of_int take_bit_int_eq_self)

lemma feed_frame_cases:
  obtains (bad) "feed_frame mode frame rx = rx\<lparr> rx_frames_bad := rx_frames_bad rx + 1 \<rparr>"
  | (ok) planar ns nch where "0 \<le> ns" "ns \<le> 12" "0 \<le> nch" "nch \<le> 40" "length planar = nat nch * nat ns"
      "feed_frame mode frame rx = rx\<lparr> rx_ring := fst (reac_ring_write (rx_ring rx) planar (word_of_int ns) (word_of_int nch)),
         rx_frames_ok := rx_frames_ok rx + 1 \<rparr>"
proof -
  define up where "up \<longleftrightarrow> rc_accept (rx_cfg rx) = REAC_RX_ACCEPT_UPSTREAM"
  define nch where "nch = (if up then reac_upstream_channels (length frame) else n_channels mode)"
  define dec where "dec = (if up then if nch > 0 then reac_upstream_decode (Some frame) else None else reac_decode frame mode)"
  have f: "feed_frame mode frame rx = (case dec of None \<Rightarrow> rx\<lparr> rx_frames_bad := rx_frames_bad rx + 1 \<rparr>
      | Some (ns, s24) \<Rightarrow>
          rx\<lparr> rx_ring := fst (reac_ring_write (rx_ring rx) (map (s24_plane s24) [0..<nat (min 40 nch) * nat (min 12 ns)])
                (word_of_int (min 12 ns)) (word_of_int (min 40 nch))), rx_frames_ok := rx_frames_ok rx + 1 \<rparr>)"
  proof -
    have p: "(if up then (if reac_upstream_channels (length frame) > 0 then reac_upstream_decode (Some frame) else None,
          reac_upstream_channels (length frame))
        else (reac_decode frame mode, n_channels mode)) = (dec, nch)"
      by (simp add: dec_def nch_def)
    have m: "(if (x :: int) > a then a else x) = min a x" for x a by (simp add: min_def)
    show ?thesis unfolding feed_frame_def Let_def up_def [symmetric] p prod.case m ..
  qed
  show ?thesis
  proof (cases dec)
    case None
    then show ?thesis using bad f by simp
  next
    case (Some d)
    obtain ns s24 where d: "d = (ns, s24)" by (cases d)
    have "0 \<le> ns \<and> 0 \<le> nch" using Some d
      by (auto simp: dec_def nch_def reac_upstream_decode_def reac_decode_def Let_def split: if_splits)
    then show ?thesis using ok [of "min 12 ns" "min 40 nch" "map (s24_plane s24) [0..<nat (min 40 nch) * nat (min 12 ns)]"] Some d f
      by simp
  qed
qed

lemma feed_ring_inv:
  assumes "ring_inv k 40 (rx_ring rx)"
  shows "ring_inv k 40 (rx_ring (feed_frame mode frame rx))"
proof (cases rule: feed_frame_cases [of mode frame rx])
  case (ok planar ns nch)
  then have "ring_op_ok 40 (Ring_Write planar (word_of_int ns) (word_of_int nch))"
    by (simp add: unat_small_int min_def nat_le_iff)
  from ring_write_sim(1) [OF assms this] show ?thesis using ok by simp
qed (use assms in simp)

text \<open>The four ends of a turn, with the state after the gate.\<close>

lemma turn_cases:
  fixes buf rx
  defines "frame \<equiv> take (reac_frame_clean_len (length buf)) buf"
  defines "r0 \<equiv> fst (gate_accepts frame rx)"
  obtains (none) "\<not> reac_frame_is_reac (Some buf)" "rx_turn t now buf l rx = (l, rx)"
  | (other) "reac_frame_is_reac (Some buf)" "rx_turn t now buf l rx = (l, r0\<lparr> rx_frames_other := rx_frames_other r0 + 1 \<rparr>)"
  | (dup) "reac_frame_is_reac (Some buf)" "rx_turn t now buf l rx = (l, r0\<lparr> rx_frames_dup := rx_frames_dup r0 + 1 \<rparr>)"
  | (peer) "reac_frame_is_reac (Some buf)" "rx_turn t now buf l rx = rx_peer_frame t now frame l r0"
proof -
  define twin where "twin \<longleftrightarrow> rx_have_prev_frame r0 \<and> frame = rx_prev_frame r0"
  have T: "rx_turn t now buf l rx =
      (if \<not> reac_frame_is_reac (Some buf) then (l, rx)
       else if \<not> snd (gate_accepts frame rx) then (l, r0\<lparr> rx_frames_other := rx_frames_other r0 + 1 \<rparr>)
       else if twin then (l, r0\<lparr> rx_frames_dup := rx_frames_dup r0 + 1 \<rparr>)
       else rx_peer_frame t now frame l r0)"
    by (simp only: rx_turn_def Let_def case_prod_beta frame_def r0_def twin_def)
  show ?thesis
  proof (cases "reac_frame_is_reac (Some buf)")
    case True
    show ?thesis
    proof (cases "snd (gate_accepts frame rx)")
      case g: True
      show ?thesis
      proof (cases twin)
        case d: True
        show ?thesis by (rule dup [OF True]) (simp only: T True g d simp_thms if_True if_False)
      next
        case d: False
        show ?thesis by (rule peer [OF True]) (simp only: T True g d simp_thms if_False)
      qed
    qed (use T True other in simp)
  qed (use T none in simp)
qed

lemma peer_frame_counts:
  assumes "rx_peer_frame t now frame l rx = (l', rx')"
  shows "rx_counted rx' = rx_counted rx + 1" and "ring_inv k 40 (rx_ring rx) \<Longrightarrow> ring_inv k 40 (rx_ring rx')"
proof -
  define r1 where "r1 = snd (rx_new_epoch t l (rx_kept frame rx))"
  have "same_stream rx (rx_kept frame rx)" by (simp add: same_stream_def rx_kept_def)
  then have s1: "same_stream rx r1" using epoch_same [of "rx_kept frame rx" t l]
    unfolding r1_def same_stream_def by simp
  have "rx_counted rx' = rx_counted rx + 1 \<and> (ring_inv k 40 (rx_ring rx) \<longrightarrow> ring_inv k 40 (rx_ring rx'))"
  proof (cases rule: peer_frame_cases [of frame t l rx now])
    case refused
    then have "rx' = r1\<lparr> rx_frames_other := rx_frames_other r1 + 1 \<rparr>" using assms unfolding r1_def by simp
    then show ?thesis using s1 by (simp add: same_stream_def rx_counted_def)
  next
    case (fed r2)
    define m where "m = reac_mode_for (rx_sample_rate rx)"
    have s2: "same_stream rx r2" using s1 fed(2) unfolding same_stream_def r1_def by simp
    have e: "rx' = (feed_frame m frame r2)\<lparr> rx_pace := fst (reac_pace_watch_frame (rx_pace (feed_frame m frame r2)) now) \<rparr>"
      using fed(9) assms unfolding m_def by simp
    have "rx_counted rx' = rx_counted r2 + 1" using feed_counted [of m frame r2] by (simp add: e rx_counted_def)
    moreover have "ring_inv k 40 (rx_ring rx) \<longrightarrow> ring_inv k 40 (rx_ring rx')"
      using s2 feed_ring_inv [of k r2 m frame] by (simp add: e same_stream_def)
    ultimately show ?thesis using same_stream_counted [OF s2] by simp
  qed
  then show "rx_counted rx' = rx_counted rx + 1" and "ring_inv k 40 (rx_ring rx) \<Longrightarrow> ring_inv k 40 (rx_ring rx')"
    by blast+
qed

lemma turn_counts:
  assumes "rx_turn t now buf l rx = (l', rx')"
  shows "rx_counted rx' = rx_counted rx + (if reac_frame_is_reac (Some buf) then 1 else 0) \<and>
    (ring_inv k 40 (rx_ring rx) \<longrightarrow> ring_inv k 40 (rx_ring rx'))"
proof -
  define frame where "frame = take (reac_frame_clean_len (length buf)) buf"
  define r0 where "r0 = fst (gate_accepts frame rx)"
  have s0: "same_stream rx r0" unfolding r0_def by (rule gate_same)
  show ?thesis
  proof (cases rule: turn_cases [where buf = buf and rx = rx and t = t and now = now and l = l])
    case none
    then show ?thesis using assms by simp
  next
    case other
    then have "rx' = r0\<lparr> rx_frames_other := rx_frames_other r0 + 1 \<rparr>" using assms unfolding r0_def frame_def by simp
    then show ?thesis using s0 other(1) by (simp add: same_stream_def rx_counted_def)
  next
    case dup
    then have "rx' = r0\<lparr> rx_frames_dup := rx_frames_dup r0 + 1 \<rparr>" using assms unfolding r0_def frame_def by simp
    then show ?thesis using s0 dup(1) by (simp add: same_stream_def rx_counted_def)
  next
    case peer
    then have p: "rx_peer_frame t now frame l r0 = (l', rx')" using assms unfolding r0_def frame_def by simp
    show ?thesis using peer_frame_counts(1) [OF p] peer_frame_counts(2) [OF p, of k] peer(1) same_stream_counted [OF s0] s0
      by (simp add: same_stream_def)
  qed
qed

lemma step_counts:
  assumes "rx_step (l, rx) e = (l', rx')"
  shows "rx_counted rx' = rx_counted rx + (if rx_reac e then 1 else 0) \<and> (ring_inv k 40 (rx_ring rx) \<longrightarrow> ring_inv k 40 (rx_ring rx'))"
proof (cases e)
  case (Rx_Turn t now buf)
  then show ?thesis using assms turn_counts [of t now buf l rx l' rx' k] by simp
next
  case (Rx_Read channels n)
  then show ?thesis using assms ring_read_sim(1) [of k 40 "rx_ring rx" channels n] by (auto simp: rx_counted_def)
qed (use assms in \<open>auto simp: rx_counted_def reac_rx_peer_reset_def reac_rx_session_end_def rx_rewind_def\<close>)

lemma run_counts:
  assumes "foldl rx_step (l, rx) es = (l', rx')"
  shows "rx_counted rx' = rx_counted rx + of_nat (length (filter rx_reac es)) \<and>
    (ring_inv k 40 (rx_ring rx) \<longrightarrow> ring_inv k 40 (rx_ring rx'))"
  using assms
proof (induction es arbitrary: l rx)
  case (Cons e es)
  obtain l1 rx1 where s: "rx_step (l, rx) e = (l1, rx1)" by (rule prod.exhaust)
  show ?case using Cons.IH [of l1 rx1] Cons.prems step_counts [OF s, of k] by (simp add: s algebra_simps)
qed simp

lemma foreign_frame:
  assumes "rx_up_src_locked rx" and "reac_frame_is_reac (Some buf)" and "peek 6 6 buf \<noteq> rx_up_src rx"
  shows "rx_turn t now buf l rx = (l, rx\<lparr> rx_frames_other := rx_frames_other rx + 1 \<rparr>)"
proof -
  define frame where "frame = take (reac_frame_clean_len (length buf)) buf"
  have l: "14 \<le> length buf" using assms(2) by (simp add: reac_frame_is_reac_def)
  then have "12 \<le> reac_frame_clean_len (length buf)" by (auto simp: reac_frame_clean_len_def)
  then have p: "peek 6 6 frame = peek 6 6 buf" by (simp add: frame_def peek_def drop_take min_def)
  have g: "gate_accepts frame rx = (rx, False)"
    using assms(1,3) by (auto simp: gate_accepts_def Let_def p)
  show ?thesis unfolding rx_turn_def Let_def frame_def [symmetric] g using assms(2) by simp
qed

text \<open>C12: The receiver accounts for every frame and listens to one peer. After any history of received bytes, peer
  changes, session ends, file rewinds and reads, every REAC frame has been counted exactly once, as taken, bad, a
  twin or not ours (modulo the 64-bit counters), the ring is well formed, and once a peer is locked a REAC frame
  of any other sender changes nothing but the count of frames that are not ours.\<close>

theorem rx_accounts_every_frame:
  assumes "reac_rx_open calloc_ok capture_ok detected cfg = Some rx0"
    and "foldl rx_step (rx_locals_start rx0, rx0) es = (l, rx)"
  shows "rx_frames_ok rx + rx_frames_bad rx + rx_frames_other rx + rx_frames_dup rx = of_nat (length (filter rx_reac es)) \<and>
    (\<exists>k. ring_inv k 40 (rx_ring rx)) \<and>
    (\<forall>t now buf. rx_up_src_locked rx \<and> reac_frame_is_reac (Some buf) \<and> peek 6 6 buf \<noteq> rx_up_src rx \<longrightarrow>
       rx_turn t now buf l rx = (l, rx\<lparr> rx_frames_other := rx_frames_other rx + 1 \<rparr>))"
proof -
  obtain ring where r: "reac_ring_init True (word_of_int 40) (word_of_int (rx_rate cfg detected sdiv 4)) = Some ring"
    and z: "rx0 = rx_zero cfg ring (rx_rate cfg detected)"
    using assms(1) by (auto simp: reac_rx_open_def Let_def reac_ring_init_def split: if_splits)
  from reac_ring_init_ok [OF r] obtain k where "ring_inv k 40 ring" by auto
  moreover have "rx_counted rx0 = 0" by (simp add: z rx_zero_def rx_counted_def)
  ultimately show ?thesis using run_counts [OF assms(2), of k] foreign_frame by (auto simp: z rx_zero_def rx_counted_def)
qed

section \<open>A stream from the sender to the ring\<close>

declare upt_rec_numeral [simp del]

definition row_value :: "planes \<Rightarrow> int \<Rightarrow> int \<Rightarrow> nat \<Rightarrow> nat \<Rightarrow> rat" where
  "row_value planar nch ns s c = (if int s < ns then of_int (s24_round (plane_sample planar nch c s)) / 8388608 else 0)"

definition frame_rows :: "planes \<Rightarrow> int \<Rightarrow> int \<Rightarrow> rat list list" where
  "frame_rows planar nch ns = map (\<lambda>s. map (row_value planar nch ns s) [0..<40]) [0..<12]"

lemma nth_concat_const:
  "(\<And>x. x < m \<Longrightarrow> length (g x) = n) \<Longrightarrow> i < m \<Longrightarrow> j < n \<Longrightarrow> concat (map g [0..<m]) ! (i * n + j) = g i ! j"
proof (induction m)
  case (Suc m)
  have l: "length (concat (map g [0..<m])) = m * n" using Suc.prems(1) by (subst length_concat_const [where c = n]) auto
  show ?case
  proof (cases "i = m")
    case False
    then have "i < m" using Suc.prems(2) by simp
    then have "i * n + j < m * n" using Suc.prems(3) by (rule cell_bound)
    then show ?thesis using Suc.IH Suc.prems \<open>i < m\<close> by (simp add: nth_append l)
  qed (simp add: nth_append l)
qed simp

lemma planar_cell:
  assumes "\<And>c s. length (cell c s) = 3" and "c < nch" and "s < ns"
  shows "s24_plane (planar_bytes cell nch ns) (c * ns + s) = reac_s24le_to_f32 (cell c s ! 0) (cell c s ! 1) (cell c s ! 2)"
proof -
  have row: "length (concat (map (cell x) [0..<ns])) = ns * 3" for x
    by (subst length_concat_const [where c = 3]) (simp_all add: assms(1))
  have "planar_bytes cell nch ns ! (c * (ns * 3) + (s * 3 + k)) = cell c s ! k" if "k < 3" for k
  proof -
    have "s * 3 + k < ns * 3" using assms(3) that by simp
    then show ?thesis unfolding planar_bytes_def
      using nth_concat_const [of nch "\<lambda>ch. concat (map (cell ch) [0..<ns])" "ns * 3" c "s * 3 + k"]
        nth_concat_const [of ns "cell c" 3 s k] row assms that by simp
  qed
  from this [of 0] this [of 1] this [of 2] show ?thesis by (simp add: s24_plane_def algebra_simps)
qed

lemma downstream_value:
  assumes "c < 40" and "s < 12"
  shows "s24_plane (planar_bytes (\<lambda>ch s. if int s < ns then reac_f32_to_s24le (plane_sample planar nch ch s) else [0, 0, 0]) 40 12)
      (c * 12 + s) = row_value planar nch ns s c"
proof -
  have "reac_s24le_to_f32 0 0 0 = 0" by (simp add: reac_s24le_to_f32_def)
  moreover have "reac_s24le_to_f32 (reac_f32_to_s24le v ! 0) (reac_f32_to_s24le v ! 1) (reac_f32_to_s24le v ! 2) = of_int (s24_round v) / 8388608" for v
    using s24_decode_encode [of v] by (simp add: reac_f32_to_s24le_round)
  ultimately show ?thesis using assms by (subst planar_cell) (simp_all add: row_value_def)
qed

lemma mode_shape: "n_channels (reac_mode_for r) = 40" "samples_per_pkt (reac_mode_for r) = 12"
  by (simp_all add: reac_mode_for_def REAC_MODE_44K1_def REAC_MODE_48K_def REAC_MODE_96K_def)

lemma downstream_decoded:
  assumes "length src = 6"
  shows "reac_decode (reac_downstream_build planar nch ns counter src) (reac_mode_for r) =
    Some (12, planar_bytes (\<lambda>ch s. if int s < ns then reac_f32_to_s24le (plane_sample planar nch ch s) else [0, 0, 0]) 40 12)"
proof -
  have d: "drop 50 (reac_downstream_build planar nch ns counter src) =
      reac_braid_encode (replicate 1440 0) 40 planar nch ns @ [0xC2, 0xEA]"
    using assms by (simp add: reac_downstream_build_bytes)
  show ?thesis using unbraid_encode_silence [of 40 planar nch ns "[0xC2, 0xEA]"] assms
    by (simp add: reac_decode_def Let_def reac_frame_inspect_build d mode_shape)
qed

lemma downstream_counter:
  "length src = 6 \<Longrightarrow> reac_frame_counter (reac_downstream_build planar nch ns counter src) = counter"
  by (simp add: reac_frame_counter_u16le reac_downstream_build_bytes nth_append)

lemma downstream_shape:
  assumes "length src = 6"
  shows "length (reac_downstream_build planar nch ns counter src) = 1492"
    and "peek 0 6 (reac_downstream_build planar nch ns counter src) = replicate 6 0xff"
    and "reac_frame_is_reac (Some (reac_downstream_build planar nch ns counter src @ extra))"
proof -
  have e: "length (reac_braid_encode (replicate 1440 0) 40 planar nch ns) = 1440"
    using length_reac_braid_encode [of "replicate 1440 0" 40] by simp
  show "length (reac_downstream_build planar nch ns counter src) = 1492"
    "peek 0 6 (reac_downstream_build planar nch ns counter src) = replicate 6 0xff"
    "reac_frame_is_reac (Some (reac_downstream_build planar nch ns counter src @ extra))"
    using assms e by (simp_all add: reac_downstream_build_bytes peek_def reac_frame_is_reac_def nth_append)
qed

lemma feed_downstream:
  assumes "rc_accept (rx_cfg rx) = REAC_RX_ACCEPT_DOWNSTREAM" and "length src = 6" and "ring_inv k 40 (rx_ring rx)"
    and "length (ring_frames (rx_ring rx)) + 12 < 2 ^ k"
  obtains ring where
    "feed_frame (reac_mode_for r) (reac_downstream_build planar nch ns counter src) rx =
       rx\<lparr> rx_ring := ring, rx_frames_ok := rx_frames_ok rx + 1 \<rparr>"
    "ring_inv k 40 ring" "ring_frames ring = ring_frames (rx_ring rx) @ frame_rows planar nch ns"
proof -
  define s24 where "s24 = planar_bytes (\<lambda>ch s. if int s < ns then reac_f32_to_s24le (plane_sample planar nch ch s) else [0, 0, 0]) 40 12"
  define xs where "xs = map (s24_plane s24) [0..<480]"
  define ring where "ring = fst (reac_ring_write (rx_ring rx) xs 12 40)"
  have d: "reac_decode (reac_downstream_build planar nch ns counter src) (reac_mode_for r) = Some (12, s24)"
    unfolding s24_def by (rule downstream_decoded [OF assms(2)])
  have f: "feed_frame (reac_mode_for r) (reac_downstream_build planar nch ns counter src) rx =
      rx\<lparr> rx_ring := ring, rx_frames_ok := rx_frames_ok rx + 1 \<rparr>"
    using assms(1) by (simp add: feed_frame_def d mode_shape ring_def xs_def)
  have op: "ring_op_ok 40 (Ring_Write xs 12 40)" by (simp add: xs_def)
  have "queue_step (2 ^ k - 1) 40 (Ring_Write xs 12 40) (ring_abs (rx_ring rx)) =
      (ring_abs ring, [], unat (snd (reac_ring_write (rx_ring rx) xs 12 40)))"
    unfolding ring_def by (rule ring_write_sim(2) [OF assms(3) op])
  then have q: "ring_frames ring = map (mute_above 40) (ring_frames (rx_ring rx)) @
      map (frame_of_planar xs 12 40 40) [0..<min 12 (2 ^ k - 1 - length (ring_frames (rx_ring rx)))]"
    by (auto simp: ring_abs_def Let_def)
  have m: "map (mute_above 40) (ring_frames (rx_ring rx)) = ring_frames (rx_ring rx)"
    by (rule map_idI) (auto simp: mute_above_def ring_frames_eq [OF assms(3)])
  have "frame_of_planar xs 12 40 40 s = map (row_value planar nch ns s) [0..<40]" if "s < 12" for s
  proof -
    have "xs ! (c * 12 + s) = row_value planar nch ns s c" if "c < 40" for c
      using downstream_value [OF that \<open>s < 12\<close>, of ns planar nch] cell_bound [OF that \<open>s < 12\<close>] by (simp add: xs_def s24_def)
    then show ?thesis by (simp add: frame_of_planar_def)
  qed
  then have "map (frame_of_planar xs 12 40 40) [0..<12] = frame_rows planar nch ns" by (simp add: frame_rows_def)
  moreover have "min 12 (2 ^ k - 1 - length (ring_frames (rx_ring rx))) = 12" using assms(4) by simp
  ultimately have "ring_frames ring = ring_frames (rx_ring rx) @ frame_rows planar nch ns" using q m by simp
  moreover have "ring_inv k 40 ring" unfolding ring_def by (rule ring_write_sim(1) [OF assms(3) op])
  ultimately show ?thesis using that f by blast
qed

text \<open>The frames of one sender with consecutive counters; each is received at least once, as it is or with the two
  bytes a capture path leaves behind it.\<close>

type_synonym sent_frame = "planes \<times> int \<times> int \<times> (u64 \<times> u64 \<times> bytes) list"

fun send_stream :: "u16 \<Rightarrow> mac \<Rightarrow> sent_frame list \<Rightarrow> rx_event list" where
  "send_stream c src [] = []"
| "send_stream c src ((planar, nch, ns, copies) # xs) =
     map (\<lambda>(t, now, extra). Rx_Turn t now (reac_downstream_build planar nch ns c src @ extra)) copies @
     send_stream (c + 1) src xs"

fun sent_ok :: "sent_frame \<Rightarrow> bool" where
  "sent_ok (planar, nch, ns, copies) \<longleftrightarrow>
     copies \<noteq> [] \<and> list_all (\<lambda>(t, now, extra). length extra = 0 \<or> length extra = 2) copies"

definition stream_inv :: "nat \<Rightarrow> rat list list \<Rightarrow> u64 \<Rightarrow> u16 \<Rightarrow> rx_locals \<times> reac_rx \<Rightarrow> bool" where
  "stream_inv k rows n c = (\<lambda>(l, rx). rc_accept (rx_cfg rx) = REAC_RX_ACCEPT_DOWNSTREAM \<and> \<not> rx_up_src_locked rx \<and>
     ring_inv k 40 (rx_ring rx) \<and> ring_frames (rx_ring rx) = rows \<and> rx_frames_ok rx = n \<and> rx_frames_bad rx = 0 \<and>
     rx_frames_other rx = 0 \<and> rx_counter_gaps rx = 0 \<and> rl_seen_epoch l = rx_peer_epoch rx \<and>
     (rl_have_counter l \<longrightarrow> rl_last_counter l = c - 1) \<and>
     (rx_have_prev_frame rx \<longrightarrow> reac_frame_counter (rx_prev_frame rx) = c - 1))"

lemma stream_gate:
  assumes "length src = 6" and "length extra = 0 \<or> length extra = 2" and "\<not> rx_up_src_locked rx"
    and "rc_accept (rx_cfg rx) = REAC_RX_ACCEPT_DOWNSTREAM"
  shows "rx_turn t now (reac_downstream_build planar nch ns c src @ extra) l rx =
    (if rx_have_prev_frame rx \<and> reac_downstream_build planar nch ns c src = rx_prev_frame rx
     then (l, rx\<lparr> rx_frames_dup := rx_frames_dup rx + 1 \<rparr>)
     else rx_peer_frame t now (reac_downstream_build planar nch ns c src) l rx)"
proof -
  define f where "f = reac_downstream_build planar nch ns c src"
  have f: "length f = 1492" "peek 0 6 f = replicate 6 0xff" "reac_frame_is_reac (Some (f @ extra))"
    unfolding f_def by (rule downstream_shape [OF assms(1)])+
  have "take (reac_frame_clean_len (length (f @ extra))) (f @ extra) = f"
    using assms(2) f(1) by (auto simp: reac_frame_clean_len_def)
  moreover have "gate_accepts f rx = (rx, True)" using assms(3,4) f(1,2) by (simp add: gate_accepts_def Let_def)
  ultimately show ?thesis using f(3) unfolding f_def [symmetric] by (simp add: rx_turn_def Let_def)
qed

lemma stream_frame:
  assumes inv: "stream_inv k rows n c (l, rx)" and "length src = 6" and "length extra = 0 \<or> length extra = 2"
    and "length rows + 12 < 2 ^ k"
    and e: "rx_turn t now (reac_downstream_build planar nch ns c src @ extra) l rx = (l', rx')"
  shows "stream_inv k (rows @ frame_rows planar nch ns) (n + 1) (c + 1) (l', rx')" and "rx_have_prev_frame rx'"
    and "rx_prev_frame rx' = reac_downstream_build planar nch ns c src"
proof -
  define f where "f = reac_downstream_build planar nch ns c src"
  have i: "rc_accept (rx_cfg rx) = REAC_RX_ACCEPT_DOWNSTREAM" "\<not> rx_up_src_locked rx" "ring_inv k 40 (rx_ring rx)"
    "ring_frames (rx_ring rx) = rows" "rx_frames_ok rx = n" "rx_frames_bad rx = 0" "rx_frames_other rx = 0"
    "rx_counter_gaps rx = 0" "rl_seen_epoch l = rx_peer_epoch rx" "rl_have_counter l \<longrightarrow> rl_last_counter l = c - 1"
    "rx_have_prev_frame rx \<longrightarrow> reac_frame_counter (rx_prev_frame rx) = c - 1"
    using inv by (simp_all add: stream_inv_def)
  have fc: "reac_frame_counter f = c" and fl: "length f = 1492"
    unfolding f_def by (rule downstream_counter [OF assms(2)], rule downstream_shape(1) [OF assms(2)])
  have "\<not> (rx_have_prev_frame rx \<and> f = rx_prev_frame rx)" using i(11) fc by auto
  then have p: "rx_peer_frame t now f l rx = (l', rx')"
    using e stream_gate [OF assms(2,3) i(2,1), of t now planar nch ns c l] unfolding f_def by (simp split: if_splits)
  define r1 where "r1 = rx\<lparr> rx_prev_frame := f, rx_have_prev_frame := True \<rparr>"
  have ep: "rx_new_epoch t l (rx_kept f rx) = (l, r1)" using fl i(9) by (simp add: rx_new_epoch_def rx_kept_def r1_def)
  have a: "counter_ahead (c - 1) c" by (simp add: counter_ahead_def reac_counter_gap_def)
  have "\<not> (rl_have_counter l \<and> \<not> counter_ahead (rl_last_counter l) c)" using i(10) a by auto
  then have o: "rx_order c l = (l, True)" unfolding rx_order_def by (rule if_not_P)
  have g: "rx_gap c l = 0" using i(10) by (simp add: rx_gap_def reac_counter_gap_def)
  have "stream_inv k (rows @ frame_rows planar nch ns) (n + 1) (c + 1) (l', rx') \<and> rx_have_prev_frame rx' \<and> rx_prev_frame rx' = f"
  proof (cases rule: peer_frame_cases [of f t l rx now])
    case refused
    then show ?thesis by (simp add: ep fc o)
  next
    case (fed r2)
    have r2: "rc_accept (rx_cfg r2) = REAC_RX_ACCEPT_DOWNSTREAM" "ring_inv k 40 (rx_ring r2)" "ring_frames (rx_ring r2) = rows"
      "rx_frames_ok r2 = n" "rx_frames_bad r2 = 0" "rx_frames_other r2 = 0" "\<not> rx_up_src_locked r2"
      "rx_prev_frame r2 = f" "rx_have_prev_frame r2" "rx_counter_gaps r2 = 0" "rx_peer_epoch r2 = rl_seen_epoch l"
      using fed(2-8) i by (simp_all add: ep fc o g r1_def same_stream_def)
    obtain ring where ring: "feed_frame (reac_mode_for (rx_sample_rate rx)) f r2 = r2\<lparr> rx_ring := ring, rx_frames_ok := rx_frames_ok r2 + 1 \<rparr>"
      "ring_inv k 40 ring" "ring_frames ring = rows @ frame_rows planar nch ns"
      unfolding f_def
      by (rule feed_downstream [OF r2(1) assms(2) r2(2), of "rx_sample_rate rx" planar nch ns c])
        (use assms(4) r2(3) in simp_all)
    have "l' = rx_accept c l" "rx' = r2\<lparr> rx_ring := ring, rx_frames_ok := rx_frames_ok r2 + 1,
        rx_pace := fst (reac_pace_watch_frame (rx_pace r2) now) \<rparr>"
      using fed(9) p unfolding ep fst_conv snd_conv fc o ring(1) by simp_all
    then show ?thesis using ring(2,3) r2 by (simp add: stream_inv_def rx_accept_def fc)
  qed
  then show "stream_inv k (rows @ frame_rows planar nch ns) (n + 1) (c + 1) (l', rx')" and "rx_have_prev_frame rx'"
    and "rx_prev_frame rx' = reac_downstream_build planar nch ns c src" unfolding f_def by blast+
qed

lemma stream_twins:
  assumes "stream_inv k rows n c (l, rx)" and "length src = 6" and "rx_have_prev_frame rx"
    and "rx_prev_frame rx = reac_downstream_build planar nch ns c' src"
    and "list_all (\<lambda>(t, now, extra). length extra = 0 \<or> length extra = 2) copies"
  shows "stream_inv k rows n c (foldl rx_step (l, rx)
    (map (\<lambda>(t, now, extra). Rx_Turn t now (reac_downstream_build planar nch ns c' src @ extra)) copies))"
  using assms
proof (induction copies arbitrary: rx)
  case (Cons x copies)
  obtain t now extra where x: "x = (t, now, extra)" by (cases x rule: prod_cases3)
  have ex: "length extra = 0 \<or> length extra = 2" "\<not> rx_up_src_locked rx" "rc_accept (rx_cfg rx) = REAC_RX_ACCEPT_DOWNSTREAM"
    using Cons.prems(1,5) by (simp_all add: x stream_inv_def)
  have "rx_turn t now (reac_downstream_build planar nch ns c' src @ extra) l rx = (l, rx\<lparr> rx_frames_dup := rx_frames_dup rx + 1 \<rparr>)"
    using stream_gate [OF Cons.prems(2) ex, of t now planar nch ns c' l] Cons.prems(3,4) by simp
  moreover have "stream_inv k rows n c (l, rx\<lparr> rx_frames_dup := rx_frames_dup rx + 1 \<rparr>)"
    using Cons.prems(1) by (simp add: stream_inv_def)
  ultimately show ?case using Cons.IH [of "rx\<lparr> rx_frames_dup := rx_frames_dup rx + 1 \<rparr>"] Cons.prems by (simp add: x)
qed simp

lemma stream_run:
  assumes "stream_inv k rows n c s" and "length src = 6" and "list_all sent_ok xs" and "length rows + 12 * length xs < 2 ^ k"
  shows "stream_inv k (rows @ concat (map (\<lambda>(planar, nch, ns, copies). frame_rows planar nch ns) xs)) (n + of_nat (length xs))
    (c + of_nat (length xs)) (foldl rx_step s (send_stream c src xs))"
  using assms
proof (induction xs arbitrary: rows n c s)
  case (Cons x xs)
  obtain planar nch ns copies where x: "x = (planar, nch, ns, copies)" by (cases x rule: prod_cases4)
  obtain t now extra cs where cs: "copies = (t, now, extra) # cs"
    using Cons.prems(3) by (cases copies) (auto simp: x)
  obtain l rx where s: "s = (l, rx)" by (rule prod.exhaust)
  obtain l1 rx1 where t: "rx_turn t now (reac_downstream_build planar nch ns c src @ extra) l rx = (l1, rx1)" by (rule prod.exhaust)
  have ok: "length extra = 0 \<or> length extra = 2" "list_all (\<lambda>(t, now, extra). length extra = 0 \<or> length extra = 2) cs"
    using Cons.prems(3) by (simp_all add: x cs)
  have room: "length rows + 12 < 2 ^ k" using Cons.prems(4) by simp
  note f = stream_frame [OF Cons.prems(1) [unfolded s] Cons.prems(2) ok(1) room t]
  define s2 where "s2 = foldl rx_step (l1, rx1)
    (map (\<lambda>(t, now, extra). Rx_Turn t now (reac_downstream_build planar nch ns c src @ extra)) cs)"
  have "stream_inv k (rows @ frame_rows planar nch ns) (n + 1) (c + 1) s2"
    unfolding s2_def by (rule stream_twins [OF f(1) Cons.prems(2) f(2,3) ok(2)])
  from Cons.IH [OF this Cons.prems(2)] Cons.prems(3,4) show ?case
    by (simp add: x cs s t s2_def frame_rows_def algebra_simps)
qed simp

text \<open>C3: A stream reaches the reader whole and in order. When a receiver of downstream audio has been opened and
  one sender's frames with consecutive counters arrive, each once or several times, with or without the residue of
  a mirrored port, then (as long as the ring has room) the ring holds exactly the samples the sender put in, row by
  row and rounded to 24 bits; each frame is taken once, and nothing is counted as lost, bad or foreign.\<close>

theorem stream_delivered:
  assumes "reac_rx_open calloc_ok capture_ok detected cfg = Some rx0" and "rc_accept cfg = REAC_RX_ACCEPT_DOWNSTREAM"
    and "length src = 6" and "list_all sent_ok xs"
    and "12 * length xs < unat (word_of_int (rx_rate cfg detected sdiv 4) :: u32)"
    and "foldl rx_step (rx_locals_start rx0, rx0) (send_stream c src xs) = (l, rx)"
  shows "ring_frames (rx_ring rx) = concat (map (\<lambda>(planar, nch, ns, copies). frame_rows planar nch ns) xs) \<and>
    rx_frames_ok rx = of_nat (length xs) \<and> rx_frames_bad rx = 0 \<and> rx_frames_other rx = 0 \<and> rx_counter_gaps rx = 0"
proof -
  obtain ring where r: "reac_ring_init True (word_of_int 40) (word_of_int (rx_rate cfg detected sdiv 4)) = Some ring"
    and z: "rx0 = rx_zero cfg ring (rx_rate cfg detected)"
    using assms(1) by (auto simp: reac_rx_open_def Let_def reac_ring_init_def split: if_splits)
  from reac_ring_init_ok [OF r] obtain k where k: "ring_inv k 40 ring" "ring_frames ring = []"
    "unat (word_of_int (rx_rate cfg detected sdiv 4) :: u32) \<le> 2 ^ k" by (auto simp: ring_abs_def)
  have "stream_inv k [] 0 c (rx_locals_start rx0, rx0)"
    using k(1,2) assms(2) by (simp add: stream_inv_def z rx_zero_def rx_locals_start_def)
  from stream_run [OF this assms(3,4)] k(3) assms(5,6) show ?thesis by (simp add: stream_inv_def)
qed

definition demo_rx_cfg :: reac_rx_cfg where
  "demo_rx_cfg = \<lparr> rc_kind = REAC_RX_LIVE, rc_source = ''eth0'', rc_forced_rate = 48000, rc_pcap_realtime = False,
     rc_accept = REAC_RX_ACCEPT_DOWNSTREAM \<rparr>"

lemma demo_rx_rate: "rx_rate demo_rx_cfg 0 = 48000" "word_of_int (48000 sdiv 4) = (12000 :: u32)"
  by (simp_all add: rx_rate_def demo_rx_cfg_def signed_divide_int_def)

lemma demo_rx_open:
  obtains rx0 where "reac_rx_open True True 0 demo_rx_cfg = Some rx0"
proof -
  have "reac_ring_init True 40 (12000 :: u32) \<noteq> (None :: rat ring option)"
    by (simp add: reac_ring_init_def Let_def next_pow2_def)
  then show ?thesis using that demo_rx_rate by (auto simp: reac_rx_open_def Let_def demo_rx_cfg_def [THEN arg_cong, of rc_kind])
qed

theorem stream_delivered_witness:
  "\<exists>rx0 l rx. reac_rx_open True True 0 demo_rx_cfg = Some rx0 \<and>
     foldl rx_step (rx_locals_start rx0, rx0) (send_stream 0xffff [0, 0x40, 0xab, 1, 2, 3]
       [(Some (\<lambda>ch. Some (\<lambda>s. of_nat s / 16)), 2, 12, [(1, 2, []), (3, 4, [7, 7])]), (None, 0, 12, [(5, 6, [7, 7])])]) = (l, rx) \<and>
     ring_frames (rx_ring rx) = frame_rows (Some (\<lambda>ch. Some (\<lambda>s. of_nat s / 16))) 2 12 @ frame_rows None 0 12 \<and> rx_frames_ok rx = 2"
proof -
  obtain rx0 where o: "reac_rx_open True True 0 demo_rx_cfg = Some rx0" by (rule demo_rx_open)
  obtain l rx where r: "foldl rx_step (rx_locals_start rx0, rx0) (send_stream 0xffff [0, 0x40, 0xab, 1, 2, 3]
       [(Some (\<lambda>ch. Some (\<lambda>s. of_nat s / 16)), 2, 12, [(1, 2, []), (3, 4, [7, 7])]), (None, 0, 12, [(5, 6, [7, 7])])]) = (l, rx)"
    by (rule prod.exhaust)
  have "rc_accept demo_rx_cfg = REAC_RX_ACCEPT_DOWNSTREAM" by (simp add: demo_rx_cfg_def)
  from stream_delivered [OF o this _ _ _ r] o r show ?thesis by (simp add: demo_rx_rate del: send_stream.simps)
qed

theorem rx_accounts_every_frame_witness:
  "\<exists>rx0 l rx. reac_rx_open True True 0 demo_rx_cfg = Some rx0 \<and>
     foldl rx_step (rx_locals_start rx0, rx0) [Rx_Peer [1, 2, 3, 4, 5, 6] 1, Rx_Turn 1 2 (replicate 12 0 @ [0x88, 0x19]), Rx_End, Rx_Turn 3 4 [9]] = (l, rx) \<and>
     rx_frames_ok rx + rx_frames_bad rx + rx_frames_other rx + rx_frames_dup rx = 1"
proof -
  obtain rx0 where o: "reac_rx_open True True 0 demo_rx_cfg = Some rx0" by (rule demo_rx_open)
  let ?es = "[Rx_Peer [1, 2, 3, 4, 5, 6] 1, Rx_Turn 1 2 (replicate 12 0 @ [0x88, 0x19]), Rx_End, Rx_Turn 3 4 [9]]"
  obtain l rx where r: "foldl rx_step (rx_locals_start rx0, rx0) ?es = (l, rx)" by (rule prod.exhaust)
  have "length (filter rx_reac ?es) = 1" by (simp add: reac_frame_is_reac_def nth_append)
  then show ?thesis using rx_accounts_every_frame [OF o r] o r by auto
qed

section \<open>A jump of the counter\<close>

text \<open>A sender whose counter jumps ahead within one window gives a drift that no 32-bit \<^verbatim>\<open>int\<close> holds.\<close>

lemma drift_out_of_range:
  assumes "rx_ppm_have_last rx" and "rx_ppm_last_counter rx = 0" and "rx_ppm_win_frames rx = 0"
    and "rx_ppm_win_start_ns rx = 0" and "rx_sample_rate rx = 48000"
  shows "rx_ppm_error_milli (update_ppm 20000 250000000 rx) = 19000000000"
  using assms by (simp add: update_ppm_def Let_def reac_counter_gap_def trunc_long_def)

end
