(* ===== verification/Reac_Tap.thy ===== *)
theory Reac_Tap
  imports Reac_Rx Reac_Pcap
begin

text \<open>
  The passive role, \<^verbatim>\<open>transport/src/reac_tap.c\<close>: a survey of the streams on a mirrored segment, and one
  receiver for each stream it resolved.

  The first \<^verbatim>\<open>n\<close> streams of the survey are a list. The previous frame of a stream is the list of its clean
  bytes, so its length is \<^verbatim>\<open>prev_clean_len\<close>. The pace of a stream is an exact quotient. The live capture is a
  list of turns of its loop: the three readings of the clock in the condition, what the socket gave (\<open>None\<close> for
  nothing) and the reading that stamps the frame. A loop whose turns run out before it ends is \<open>None\<close>.
\<close>

abbreviation (input) REAC_TAP_MAX_STREAMS :: nat where "REAC_TAP_MAX_STREAMS \<equiv> 9"
abbreviation (input) REAC_TAP_NOT_REAC :: int where "REAC_TAP_NOT_REAC \<equiv> - 1"
abbreviation (input) REAC_TAP_DUPLICATE :: int where "REAC_TAP_DUPLICATE \<equiv> - 2"
abbreviation (input) REAC_TAP_FULL :: int where "REAC_TAP_FULL \<equiv> - 3"
abbreviation (input) REAC_TAP_SELF :: int where "REAC_TAP_SELF \<equiv> - 4"
abbreviation (input) REAC_TAP_DEFAULT_SURVEY_MS :: u32 where "REAC_TAP_DEFAULT_SURVEY_MS \<equiv> 1000"
abbreviation (input) REAC_TAP_DEFAULT_SURVEY_FRAMES :: u32 where "REAC_TAP_DEFAULT_SURVEY_FRAMES \<equiv> 20000"
abbreviation (input) TAP_BUF :: nat where "TAP_BUF \<equiv> REAC_FRAME_BYTES + 64"

section \<open>The survey\<close>

datatype reac_tap_stream_kind = REAC_TAP_STREAM_MASTER | REAC_TAP_STREAM_BOX | REAC_TAP_STREAM_UNRESOLVED

record reac_tap_stream =
  tst_kind :: reac_tap_stream_kind
  tst_src :: mac
  tst_channels :: u32
  tst_announced :: bool
  tst_announced_channels :: u32
  tst_announced_out :: u32
  tst_width_disagrees :: bool
  tst_frames :: u64
  tst_dups :: u64
  tst_gaps :: u64
  tst_first_ts_usec :: u64
  tst_last_ts_usec :: u64
  tst_last_counter :: u16
  tst_have_counter :: bool
  tst_have_prev :: bool
  tst_prev :: bytes

record reac_tap_survey =
  tsv_stream :: "reac_tap_stream list"
  tsv_frames_seen :: u64
  tsv_frames_ungeometric :: u64
  tsv_frames_overflow :: u64
  tsv_frames_self :: u64
  tsv_self_mac :: mac
  tsv_have_self :: bool

definition reac_tap_survey_init :: reac_tap_survey where
  "reac_tap_survey_init =
     \<lparr> tsv_stream = [], tsv_frames_seen = 0, tsv_frames_ungeometric = 0, tsv_frames_overflow = 0,
       tsv_frames_self = 0, tsv_self_mac = replicate 6 0, tsv_have_self = False \<rparr>"

definition reac_tap_survey_set_self :: "mac option \<Rightarrow> reac_tap_survey \<Rightarrow> reac_tap_survey" where
  "reac_tap_survey_set_self mac s =
     (case mac of None \<Rightarrow> s\<lparr> tsv_have_self := False \<rparr>
      | Some m \<Rightarrow> s\<lparr> tsv_self_mac := m, tsv_have_self := True \<rparr>)"

definition tap_stream_new :: "mac \<Rightarrow> reac_tap_stream_kind \<Rightarrow> u32 \<Rightarrow> reac_tap_stream" where
  "tap_stream_new src kind channels =
     \<lparr> tst_kind = kind, tst_src = src, tst_channels = channels, tst_announced = False,
       tst_announced_channels = 0, tst_announced_out = 0, tst_width_disagrees = False, tst_frames = 0,
       tst_dups = 0, tst_gaps = 0, tst_first_ts_usec = 0, tst_last_ts_usec = 0, tst_last_counter = 0,
       tst_have_counter = False, tst_have_prev = False, tst_prev = [] \<rparr>"

definition stream_for :: "mac \<Rightarrow> reac_tap_stream_kind \<Rightarrow> u32 \<Rightarrow> reac_tap_survey \<Rightarrow> reac_tap_survey \<times> int" where
  "stream_for src kind channels s =
     (case find_index (\<lambda>st. tst_src st = src) (tsv_stream s) of
        Some i \<Rightarrow> (s, int i)
      | None \<Rightarrow>
          if length (tsv_stream s) \<ge> REAC_TAP_MAX_STREAMS
          then (s\<lparr> tsv_frames_overflow := tsv_frames_overflow s + 1 \<rparr>, REAC_TAP_FULL)
          else (s\<lparr> tsv_stream := tsv_stream s @ [tap_stream_new src kind channels] \<rparr>, int (length (tsv_stream s))))"

definition resolve_by_role :: "mac \<Rightarrow> bytes \<Rightarrow> reac_tap_stream \<Rightarrow> reac_tap_stream" where
  "resolve_by_role self frame st =
     (if tst_kind st \<noteq> REAC_TAP_STREAM_UNRESOLVED then st
      else case reac_disco_classify frame self of
             None \<Rightarrow> st
           | Some sg \<Rightarrow>
               if si_has_decl sg \<or> si_role sg = REAC_DISCO_ROLE_BOX \<or> tst_announced st
               then st\<lparr> tst_kind := REAC_TAP_STREAM_BOX \<rparr>
               else if si_role sg = REAC_DISCO_ROLE_MASTER then st\<lparr> tst_kind := REAC_TAP_STREAM_MASTER \<rparr>
               else st)"

definition stream_fps :: "reac_tap_stream \<Rightarrow> int" where
  "stream_fps st =
     (let advance = tst_frames st + tst_gaps st in
      if advance < 2 \<or> tst_first_ts_usec st = 0 \<or> tst_last_ts_usec st \<le> tst_first_ts_usec st then 0
      else \<lfloor>(of_nat (unat (advance - 1)) * 1000000 / of_nat (unat (tst_last_ts_usec st - tst_first_ts_usec st)) + 1 / 2 :: rat)\<rfloor>)"

definition resolve_by_frames :: "reac_tap_stream \<Rightarrow> reac_tap_stream" where
  "resolve_by_frames st =
     (if tst_kind st \<noteq> REAC_TAP_STREAM_UNRESOLVED then st
      else let fps = stream_fps st;
               window = (if fps > 0 then reac_master_only_cadence_frames fps else REAC_MASTER_ONLY_CADENCE_FRAMES_96K)
           in if tst_frames st + tst_gaps st > ucast window then st\<lparr> tst_kind := REAC_TAP_STREAM_BOX \<rparr> else st)"

definition resolve_by_time :: "u64 \<Rightarrow> reac_tap_stream \<Rightarrow> reac_tap_stream" where
  "resolve_by_time now_usec st =
     (if tst_kind st \<noteq> REAC_TAP_STREAM_UNRESOLVED \<or> tst_first_ts_usec st = 0 then st
      else if now_usec > tst_first_ts_usec st \<and>
              (now_usec - tst_first_ts_usec st) * 1000 \<ge> reac_master_only_cadence_ns (stream_fps st)
      then st\<lparr> tst_kind := REAC_TAP_STREAM_BOX \<rparr> else st)"

definition reac_tap_survey_resolve :: "u64 \<Rightarrow> reac_tap_survey \<Rightarrow> reac_tap_survey \<times> nat" where
  "reac_tap_survey_resolve now_usec s =
     (let sts = map (resolve_by_time now_usec) (tsv_stream s)
      in (s\<lparr> tsv_stream := sts \<rparr>, length (filter (\<lambda>st. tst_kind st = REAC_TAP_STREAM_UNRESOLVED) sts)))"

definition note_model :: "bytes \<Rightarrow> reac_tap_stream \<Rightarrow> reac_tap_stream" where
  "note_model frame st =
     (if tst_announced st \<or> length frame < REAC_CTRL_BLOCK_OFF + REAC_CTRL_BLOCK_LEN then st
      else case reac_ports_parse (Some (drop REAC_CTRL_BLOCK_OFF frame)) of
             None \<Rightarrow> st
           | Some ports \<Rightarrow>
               let st = st\<lparr> tst_announced := True,
                            tst_announced_channels := (if bp_in_ch ports > 0 then word_of_int (bp_in_ch ports) else 0),
                            tst_announced_out := (if bp_out_ch ports > 0 then word_of_int (bp_out_ch ports) else 0) \<rparr>
               in if tst_announced_channels st \<noteq> 0 \<and> tst_channels st \<noteq> 0
                  then st\<lparr> tst_width_disagrees := (tst_announced_channels st \<noteq> tst_channels st) \<rparr> else st)"

text \<open>What a frame accepted into a stream changes in it: the books first, then what it says of the sender.\<close>

definition tap_count :: "bytes \<Rightarrow> u64 \<Rightarrow> reac_tap_stream \<Rightarrow> reac_tap_stream" where
  "tap_count frame ts_usec st =
     (let st = (if length frame \<le> TAP_BUF then st\<lparr> tst_prev := frame, tst_have_prev := True \<rparr> else st);
          counter = reac_frame_counter frame;
          st = (if tst_have_counter st
                then st\<lparr> tst_gaps := tst_gaps st + ucast (reac_counter_gap (tst_last_counter st) counter) \<rparr> else st);
          st = st\<lparr> tst_last_counter := counter, tst_have_counter := True \<rparr>;
          st = (if ts_usec \<noteq> 0
                then (if tst_first_ts_usec st = 0 then st\<lparr> tst_first_ts_usec := ts_usec \<rparr> else st)
                       \<lparr> tst_last_ts_usec := ts_usec \<rparr>
                else st)
      in st\<lparr> tst_frames := tst_frames st + 1 \<rparr>)"

definition tap_take :: "mac \<Rightarrow> bytes \<Rightarrow> u64 \<Rightarrow> reac_tap_stream \<Rightarrow> reac_tap_stream" where
  "tap_take self frame ts_usec st =
     resolve_by_frames (resolve_by_role self frame (note_model frame (tap_count frame ts_usec st)))"

definition tap_self :: "reac_tap_survey \<Rightarrow> mac" where
  "tap_self s = (if tsv_have_self s then tsv_self_mac s else replicate 6 0)"

text \<open>A frame with no audio geometry can only say more of a stream that is there already.\<close>

definition tap_control :: "mac \<Rightarrow> bytes \<Rightarrow> reac_tap_survey \<Rightarrow> reac_tap_survey" where
  "tap_control src frame s =
     s\<lparr> tsv_frames_ungeometric := tsv_frames_ungeometric s + 1,
        tsv_stream := map (\<lambda>st. if tst_src st = src then resolve_by_role (tap_self s) frame (note_model frame st) else st)
                        (tsv_stream s) \<rparr>"

text \<open>An audio frame for the stream that was found, or a refusal.\<close>

definition tap_audio :: "bytes \<Rightarrow> u64 \<Rightarrow> reac_tap_survey \<times> int \<Rightarrow> reac_tap_survey \<times> int" where
  "tap_audio frame ts_usec si =
     (let (s, idx) = si in
      if idx < 0 then (s, idx)
      else let i = nat idx; st = tsv_stream s ! i
           in if tst_have_prev st \<and> length frame \<le> TAP_BUF \<and> frame = tst_prev st
              then (s\<lparr> tsv_stream := (tsv_stream s)[i := st\<lparr> tst_dups := tst_dups st + 1 \<rparr>] \<rparr>, REAC_TAP_DUPLICATE)
              else (s\<lparr> tsv_stream := (tsv_stream s)[i := tap_take (tap_self s) frame ts_usec st] \<rparr>, idx))"

definition reac_tap_survey_frame :: "bytes option \<Rightarrow> u64 \<Rightarrow> reac_tap_survey \<Rightarrow> reac_tap_survey \<times> int" where
  "reac_tap_survey_frame frame' ts_usec s =
     (case frame' of
        None \<Rightarrow> (s, REAC_TAP_NOT_REAC)
      | Some raw \<Rightarrow>
          if \<not> reac_frame_is_reac (Some raw) then (s, REAC_TAP_NOT_REAC)
          else
            let s = s\<lparr> tsv_frames_seen := tsv_frames_seen s + 1 \<rparr>;
                frame = take (reac_frame_clean_len (length raw)) raw;
                src = peek 6 6 raw
            in if tsv_have_self s \<and> src = tsv_self_mac s
               then (s\<lparr> tsv_frames_self := tsv_frames_self s + 1 \<rparr>, REAC_TAP_SELF)
               else
                 let unicast = (peek 0 6 raw \<noteq> replicate 6 0xff);
                     width = reac_upstream_channels (length frame)
                 in if width > 0
                    then tap_audio frame ts_usec
                           (stream_for src (if unicast then REAC_TAP_STREAM_BOX else REAC_TAP_STREAM_UNRESOLVED)
                              (word_of_int width) s)
                    else (tap_control src frame s, REAC_TAP_NOT_REAC))"

definition reac_tap_survey_master :: "reac_tap_survey \<Rightarrow> reac_tap_stream option" where
  "reac_tap_survey_master s = find (\<lambda>st. tst_kind st = REAC_TAP_STREAM_MASTER) (tsv_stream s)"

definition reac_tap_survey_box :: "reac_tap_survey \<Rightarrow> mac option \<Rightarrow> reac_tap_stream option" where
  "reac_tap_survey_box s mac =
     (case mac of None \<Rightarrow> None
      | Some m \<Rightarrow> find (\<lambda>st. tst_kind st = REAC_TAP_STREAM_BOX \<and> tst_src st = m) (tsv_stream s))"

definition reac_tap_survey_rate :: "reac_tap_survey \<Rightarrow> int" where
  "reac_tap_survey_rate s =
     (case reac_tap_survey_master s of
        None \<Rightarrow> 0
      | Some m \<Rightarrow>
          let advance = tst_frames m - 1 + tst_gaps m in
          if tst_frames m < 2 \<or> tst_first_ts_usec m = 0 \<or> tst_last_ts_usec m \<le> tst_first_ts_usec m then 0
          else reac_rate_snap (of_nat (unat advance) * 1000000 / of_nat (unat (tst_last_ts_usec m - tst_first_ts_usec m))))"

section \<open>The sources\<close>

record reac_tap_cfg =
  tc_kind :: reac_rx_kind
  tc_source :: "string option"
  tc_forced_rate :: int
  tc_survey_ms :: int
  tc_survey_frames :: u32
  tc_self_mac :: "mac option"

text \<open>The records of a capture file, as long as the budget lasts.\<close>

fun survey_file :: "nat \<Rightarrow> pcap_source \<Rightarrow> u64 \<Rightarrow> reac_tap_survey \<Rightarrow> reac_tap_survey \<times> u64" where
  "survey_file 0 ps last_ts s = (s, last_ts)"
| "survey_file (Suc k) ps last_ts s =
     (let (ps, n, frame, ts) = pcap_source_next ps TAP_BUF in
      if n = 0 then (s, last_ts)
      else if n < 0 then survey_file k ps last_ts s
      else survey_file k ps (if ts > last_ts then ts else last_ts) (fst (reac_tap_survey_frame (Some frame) ts s)))"

record tap_turn =
  tt_cond :: u64
  tt_hold :: u64
  tt_resolve :: u64
  tt_frame :: "bytes option"
  tt_stamp :: u64

fun survey_live :: "u64 \<Rightarrow> u64 \<Rightarrow> tap_turn list \<Rightarrow> reac_tap_survey \<Rightarrow> reac_tap_survey option" where
  "survey_live deadline hold_end [] s = None"
| "survey_live deadline hold_end (t # ts) s =
     (let (s, go) = (if tt_cond t < deadline then (s, True)
                     else if tt_hold t < hold_end
                     then let (s, left) = reac_tap_survey_resolve (tt_resolve t) s in (s, left > 0)
                     else (s, False))
      in if \<not> go then Some s
         else case tt_frame t of
                None \<Rightarrow> survey_live deadline hold_end ts s
              | Some frame \<Rightarrow> survey_live deadline hold_end ts (fst (reac_tap_survey_frame (Some frame) (tt_stamp t) s)))"

text \<open>What the system gives the tap: the bytes of the file, whether the capture opens, the clock at the start of
  the survey, the turns of its loop, and what each receiver finds when it is opened.\<close>

record tap_env =
  te_file :: "bytes option"
  te_capture_ok :: bool
  te_start :: u64
  te_turns :: "tap_turn list"
  te_calloc_ok :: "nat \<Rightarrow> bool"
  te_rx_capture_ok :: "nat \<Rightarrow> bool"
  te_detected :: "nat \<Rightarrow> int"

text \<open>\<open>None\<close> is a survey that goes on; otherwise the survey with 0 or -1.\<close>

definition survey_source :: "tap_env \<Rightarrow> reac_tap_cfg \<Rightarrow> reac_tap_survey \<Rightarrow> (reac_tap_survey \<times> int) option" where
  "survey_source env cfg s =
     (if tc_kind cfg = REAC_RX_PCAP
      then let (ps, rc) = pcap_source_open (te_file env) in
           if rc \<noteq> 0 then Some (s, - 1)
           else let budget = (if tc_survey_frames cfg \<noteq> 0 then tc_survey_frames cfg else REAC_TAP_DEFAULT_SURVEY_FRAMES);
                    (s, last_ts) = survey_file (unat budget) ps 0 s
                in Some (fst (reac_tap_survey_resolve last_ts s), 0)
      else if \<not> te_capture_ok env then Some (s, - 1)
      else let ms = (if tc_survey_ms cfg \<noteq> 0 then word_of_int (tc_survey_ms cfg) else REAC_TAP_DEFAULT_SURVEY_MS) :: u32;
               deadline = te_start env + ucast ms * 1000;
               hold_end = deadline + reac_master_only_cadence_ns 0 div 1000
           in map_option (\<lambda>s. (s, 0)) (survey_live deadline hold_end (te_turns env) s))"

section \<open>The tap\<close>

text \<open>The receivers carry their rings; \<open>tap_running\<close> has the flag each receiver's thread reads.\<close>

record reac_tap =
  tap_cfg :: reac_tap_cfg
  tap_survey :: reac_tap_survey
  tap_sample_rate :: int
  tap_n :: nat
  tap_rx :: "reac_rx list"
  tap_running :: "bool list"
  tap_started :: bool

definition tap_zero :: "reac_tap_cfg \<Rightarrow> reac_tap" where
  "tap_zero cfg =
     \<lparr> tap_cfg = cfg, tap_survey = reac_tap_survey_set_self (tc_self_mac cfg) reac_tap_survey_init, tap_sample_rate = 0,
       tap_n = 0, tap_rx = [], tap_running = [], tap_started = False \<rparr>"

definition tap_keep :: "reac_tap_survey \<Rightarrow> reac_tap_survey" where
  "tap_keep s = s\<lparr> tsv_stream := filter (\<lambda>st. tst_kind st \<noteq> REAC_TAP_STREAM_UNRESOLVED) (tsv_stream s) \<rparr>"

definition tap_rx_cfg :: "reac_tap_cfg \<Rightarrow> int \<Rightarrow> reac_tap_stream \<Rightarrow> reac_rx_cfg" where
  "tap_rx_cfg cfg rate st =
     \<lparr> rc_kind = tc_kind cfg, rc_source = the (tc_source cfg), rc_forced_rate = rate,
       rc_pcap_realtime = (tc_kind cfg = REAC_RX_PCAP),
       rc_accept = (if tst_kind st = REAC_TAP_STREAM_MASTER then REAC_RX_ACCEPT_DOWNSTREAM else REAC_RX_ACCEPT_UPSTREAM) \<rparr>"

text \<open>The receivers from index \<open>i\<close> on; \<open>None\<close> when one cannot be opened.\<close>

fun tap_feeders :: "tap_env \<Rightarrow> reac_tap_cfg \<Rightarrow> int \<Rightarrow> nat \<Rightarrow> reac_tap_stream list \<Rightarrow> reac_rx list option" where
  "tap_feeders env cfg rate i [] = Some []"
| "tap_feeders env cfg rate i (st # sts) =
     (case reac_rx_open (te_calloc_ok env i) (te_rx_capture_ok env i) (te_detected env i) (tap_rx_cfg cfg rate st) of
        None \<Rightarrow> None
      | Some rx \<Rightarrow> map_option (\<lambda>rxs. reac_rx_peer_reset (tst_src st) 1 rx # rxs) (tap_feeders env cfg rate (Suc i) sts))"

definition reac_tap_open :: "tap_env \<Rightarrow> reac_tap_cfg \<Rightarrow> reac_tap \<Rightarrow> (reac_tap \<times> int) option" where
  "reac_tap_open env cfg t =
     (if tc_source cfg = None then Some (t, - 1)
      else let t = tap_zero cfg in
           case survey_source env cfg (tap_survey t) of
             None \<Rightarrow> None
           | Some (s, rc) \<Rightarrow>
               if rc \<noteq> 0 then Some (t\<lparr> tap_survey := s \<rparr>, - 1)
               else let s = tap_keep s;
                        rate = (if tc_forced_rate cfg \<noteq> 0 then tc_forced_rate cfg else reac_tap_survey_rate s);
                        n = length (tsv_stream s);
                        t = t\<lparr> tap_survey := s, tap_sample_rate := rate, tap_n := n \<rparr>
                    in if n = 0 then Some (t, 0)
                       else if rate \<le> 0 then Some (t, - 1)
                       else case tap_feeders env cfg rate 0 (tsv_stream s) of
                              None \<Rightarrow> Some (t\<lparr> tap_n := 0 \<rparr>, - 1)
                            | Some rxs \<Rightarrow> Some (t\<lparr> tap_rx := rxs, tap_running := replicate n False \<rparr>, 0))"

definition reac_tap_stream_count :: "reac_tap option \<Rightarrow> nat" where
  "reac_tap_stream_count t = (case t of Some t \<Rightarrow> tap_n t | None \<Rightarrow> 0)"

definition reac_tap_stream_at :: "reac_tap option \<Rightarrow> nat \<Rightarrow> reac_tap_stream option" where
  "reac_tap_stream_at t i =
     (case t of Some t \<Rightarrow> if i < tap_n t then Some (tsv_stream (tap_survey t) ! i) else None | None \<Rightarrow> None)"

text \<open>A ring that was never made is all zero.\<close>

definition ring_none :: "rat ring" where
  "ring_none = \<lparr> rg_buf = [], rg_capacity = 0, rg_mask = 0, rg_channels = 0, rg_wrote_channels = 0, rg_head = 0,
     rg_tail = 0, rg_underruns = 0, rg_overruns = 0 \<rparr>"

definition reac_tap_ring_at :: "reac_tap option \<Rightarrow> nat \<Rightarrow> rat ring option" where
  "reac_tap_ring_at t i =
     (case t of
        Some t \<Rightarrow> if i < tap_n t then Some (if i < length (tap_rx t) then rx_ring (tap_rx t ! i) else ring_none) else None
      | None \<Rightarrow> None)"

text \<open>Starting sets the flag of each receiver before its thread is made; the argument says which thread cannot be
  made. The receivers started before it are stopped.\<close>

definition reac_tap_start :: "nat option \<Rightarrow> reac_tap \<Rightarrow> reac_tap \<times> int" where
  "reac_tap_start failing t =
     (if tap_n t = 0 \<or> tap_started t then (t, - 1)
      else case failing of
             Some i \<Rightarrow>
               if i < tap_n t
               then (t\<lparr> tap_running := map (\<lambda>j. if j < i then False else if j = i then True else tap_running t ! j) [0..<tap_n t] \<rparr>, - 1)
               else (t\<lparr> tap_running := replicate (tap_n t) True, tap_started := True \<rparr>, 0)
           | None \<Rightarrow> (t\<lparr> tap_running := replicate (tap_n t) True, tap_started := True \<rparr>, 0))"

definition reac_tap_stop :: "reac_tap \<Rightarrow> reac_tap" where
  "reac_tap_stop t =
     (if \<not> tap_started t then t else t\<lparr> tap_running := replicate (tap_n t) False, tap_started := False \<rparr>)"

definition reac_tap_close :: "reac_tap \<Rightarrow> reac_tap" where
  "reac_tap_close t = (reac_tap_stop t)\<lparr> tap_rx := [], tap_n := 0 \<rparr>"

section \<open>The books of the survey\<close>

lemma resolve_by_role_fields [simp]:
  "tst_src (resolve_by_role m f st) = tst_src st" "tst_frames (resolve_by_role m f st) = tst_frames st"
  "tst_dups (resolve_by_role m f st) = tst_dups st" "tst_prev (resolve_by_role m f st) = tst_prev st"
  "tst_have_prev (resolve_by_role m f st) = tst_have_prev st"
  "tst_announced (resolve_by_role m f st) = tst_announced st"
  by (simp_all add: resolve_by_role_def split: option.splits)

lemma note_model_fields [simp]:
  "tst_src (note_model f st) = tst_src st" "tst_frames (note_model f st) = tst_frames st"
  "tst_dups (note_model f st) = tst_dups st" "tst_prev (note_model f st) = tst_prev st"
  "tst_have_prev (note_model f st) = tst_have_prev st" "tst_kind (note_model f st) = tst_kind st"
  by (simp_all add: note_model_def Let_def split: option.splits)

lemma resolve_by_frames_fields [simp]:
  "tst_src (resolve_by_frames st) = tst_src st" "tst_frames (resolve_by_frames st) = tst_frames st"
  "tst_dups (resolve_by_frames st) = tst_dups st" "tst_prev (resolve_by_frames st) = tst_prev st"
  "tst_have_prev (resolve_by_frames st) = tst_have_prev st"
  by (simp_all add: resolve_by_frames_def Let_def)

lemma resolve_by_time_fields [simp]:
  "tst_src (resolve_by_time n st) = tst_src st" "tst_frames (resolve_by_time n st) = tst_frames st"
  "tst_dups (resolve_by_time n st) = tst_dups st"
  by (simp_all add: resolve_by_time_def)

lemma tap_take_fields [simp]:
  "tst_src (tap_take m f ts st) = tst_src st" "tst_frames (tap_take m f ts st) = tst_frames st + 1"
  "tst_dups (tap_take m f ts st) = tst_dups st"
  by (simp_all add: tap_take_def tap_count_def Let_def)

lemma tap_take_prev:
  "length f \<le> 1556 \<Longrightarrow> tst_prev (tap_take m f ts st) = f \<and> tst_have_prev (tap_take m f ts st)"
  by (simp add: tap_take_def tap_count_def Let_def)

datatype tap_op = TapFrame "bytes option" u64 | TapResolve u64

definition tap_step :: "reac_tap_survey \<Rightarrow> tap_op \<Rightarrow> reac_tap_survey" where
  "tap_step s op = (case op of TapFrame f ts \<Rightarrow> fst (reac_tap_survey_frame f ts s)
                    | TapResolve now \<Rightarrow> fst (reac_tap_survey_resolve now s))"

text \<open>The frames a survey has seen are those its streams took or dropped as repeats and those it refused.\<close>

definition tap_accounted :: "reac_tap_survey \<Rightarrow> u64" where
  "tap_accounted s = sum_list (map (\<lambda>st. tst_frames st + tst_dups st) (tsv_stream s)) +
     tsv_frames_ungeometric s + tsv_frames_overflow s + tsv_frames_self s"

text \<open>The books are open by the frames that are being dealt with.\<close>

definition tap_books :: "u64 \<Rightarrow> reac_tap_survey \<Rightarrow> bool" where
  "tap_books d s \<longleftrightarrow> length (tsv_stream s) \<le> 9 \<and> distinct (map tst_src (tsv_stream s)) \<and>
     (tsv_have_self s \<longrightarrow> tsv_self_mac s \<notin> set (map tst_src (tsv_stream s))) \<and>
     tsv_frames_seen s = tap_accounted s + d"

lemma sum_list_update_word:
  "i < length xs \<Longrightarrow> sum_list (map f (xs[i := y])) = sum_list (map f xs) + (f y - f (xs ! i) :: 'a :: ring_1)"
  by (induction xs arbitrary: i) (auto split: nat.splits simp: nth_Cons' algebra_simps)

lemma map_update_same: "i < length xs \<Longrightarrow> f y = f (xs ! i) \<Longrightarrow> map f (xs[i := y]) = map f xs"
  by (simp add: map_update) (metis list_update_id map_update nth_map)

lemma tap_books_update:
  assumes "tap_books d s" and "i < length (tsv_stream s)" and "tst_src y = tst_src (tsv_stream s ! i)"
    and "tst_frames y + tst_dups y = tst_frames (tsv_stream s ! i) + tst_dups (tsv_stream s ! i) + d"
  shows "tap_books 0 (s\<lparr> tsv_stream := (tsv_stream s)[i := y] \<rparr>)"
proof -
  have "map tst_src ((tsv_stream s)[i := y]) = map tst_src (tsv_stream s)"
    using assms(2,3) by (rule map_update_same)
  moreover have "sum_list (map (\<lambda>st. tst_frames st + tst_dups st) ((tsv_stream s)[i := y])) =
      sum_list (map (\<lambda>st. tst_frames st + tst_dups st) (tsv_stream s)) + d"
    using assms(2,4) by (simp add: sum_list_update_word)
  ultimately show ?thesis using assms(1) by (simp only: tap_books_def tap_accounted_def) simp
qed

lemma tap_books_map:
  assumes "tap_books d s" and "\<And>st. tst_src (g st) = tst_src st"
    and "\<And>st. tst_frames (g st) = tst_frames st" and "\<And>st. tst_dups (g st) = tst_dups st"
  shows "tap_books d (s\<lparr> tsv_stream := map g (tsv_stream s) \<rparr>)"
  using assms by (simp add: tap_books_def tap_accounted_def comp_def)

lemma stream_for_cases:
  obtains (known) i where "stream_for src kind ch s = (s, int i)" "i < length (tsv_stream s)" "tst_src (tsv_stream s ! i) = src"
  | (full) "stream_for src kind ch s = (s\<lparr> tsv_frames_overflow := tsv_frames_overflow s + 1 \<rparr>, - 3)"
      "9 \<le> length (tsv_stream s)" "src \<notin> set (map tst_src (tsv_stream s))"
  | (fresh) "stream_for src kind ch s = (s\<lparr> tsv_stream := tsv_stream s @ [tap_stream_new src kind ch] \<rparr>, int (length (tsv_stream s)))"
      "length (tsv_stream s) < 9" "src \<notin> set (map tst_src (tsv_stream s))"
proof (cases "find_index (\<lambda>st. tst_src st = src) (tsv_stream s)")
  case None
  then have "src \<notin> set (map tst_src (tsv_stream s))" by (auto simp: find_index_None)
  then show thesis using None fresh full by (cases "length (tsv_stream s) < 9") (simp_all add: stream_for_def)
next
  case (Some i)
  then show thesis using known [of i] find_index_SomeD [OF Some] by (simp add: stream_for_def)
qed

lemma tap_books_stream_for:
  assumes "tap_books 1 s" and "\<not> (tsv_have_self s \<and> src = tsv_self_mac s)" and "stream_for src kind ch s = (s', idx)"
  shows "if idx < 0 then tap_books 0 s' else tap_books 1 s' \<and> nat idx < length (tsv_stream s')"
proof (cases rule: stream_for_cases [of src kind ch s])
  case (known i)
  then show ?thesis using assms by auto
next
  case full
  then show ?thesis using assms by (auto simp: tap_books_def tap_accounted_def)
next
  case fresh
  then show ?thesis using assms by (auto simp: tap_books_def tap_accounted_def tap_stream_new_def)
qed

lemma tap_books_audio:
  assumes "tap_books 1 s" and "\<not> (tsv_have_self s \<and> src = tsv_self_mac s)"
  shows "tap_books 0 (fst (tap_audio frame ts (stream_for src kind ch s)))"
proof -
  obtain s' idx where e: "stream_for src kind ch s = (s', idx)" by fastforce
  note b = tap_books_stream_for [OF assms e]
  show ?thesis
  proof (cases "idx < 0")
    case True
    then show ?thesis using b e by (simp add: tap_audio_def)
  next
    case False
    then have "tap_books 1 s'" and "nat idx < length (tsv_stream s')" using b by auto
    note u = tap_books_update [OF this]
    show ?thesis using False by (simp add: e tap_audio_def Let_def u)
  qed
qed

lemma tap_books_control: "tap_books 1 s \<Longrightarrow> tap_books 0 (tap_control src frame s)"
  unfolding tap_control_def
  by (drule tap_books_map [where g = "\<lambda>st. if tst_src st = src then resolve_by_role (tap_self s) frame (note_model frame st) else st"])
    (simp_all add: tap_books_def tap_accounted_def)

lemma survey_frame_books:
  assumes "tap_books 0 s"
  shows "tap_books 0 (fst (reac_tap_survey_frame f ts s))"
proof -
  have "tap_books 1 (s\<lparr> tsv_frames_seen := tsv_frames_seen s + 1 \<rparr>)"
    using assms by (simp add: tap_books_def tap_accounted_def)
  then show ?thesis
    using assms
    by (simp add: reac_tap_survey_frame_def Let_def tap_books_audio tap_books_control split: option.splits)
      (simp add: tap_books_def tap_accounted_def)
qed

lemma survey_resolve_books:
  "tap_books 0 s \<Longrightarrow> tap_books 0 (fst (reac_tap_survey_resolve now s))"
  by (simp add: reac_tap_survey_resolve_def Let_def tap_books_map)

interpretation tap_machine: invariant_machine tap_step "tap_books 0" "\<lambda>_. True"
  by unfold_locales (auto simp: tap_step_def survey_frame_books survey_resolve_books split: tap_op.splits)

section \<open>Repeats on a mirrored port\<close>

text \<open>The roster without the counts of repeats and refusals: what the survey says of the streams.\<close>

definition tap_roster :: "reac_tap_survey \<Rightarrow> reac_tap_survey" where
  "tap_roster s = s\<lparr> tsv_stream := map (tst_dups_update (\<lambda>_. 0)) (tsv_stream s), tsv_frames_seen := 0,
     tsv_frames_ungeometric := 0, tsv_frames_overflow := 0, tsv_frames_self := 0 \<rparr>"

definition tap_clean :: "bytes \<Rightarrow> bytes" where
  "tap_clean raw = take (reac_frame_clean_len (length raw)) raw"

text \<open>The sender and the clean bytes of an audio frame.\<close>

definition tap_key :: "tap_op \<Rightarrow> (mac \<times> bytes) option" where
  "tap_key op =
     (case op of
        TapFrame (Some raw) ts \<Rightarrow>
          if reac_frame_is_reac (Some raw) \<and> reac_upstream_channels (length (tap_clean raw)) > 0
          then Some (peek 6 6 raw, tap_clean raw) else None
      | _ \<Rightarrow> None)"

text \<open>A history without the audio frames that repeat the one before them from the same sender.\<close>

fun tap_thin :: "(mac \<Rightarrow> bytes option) \<Rightarrow> tap_op list \<Rightarrow> tap_op list" where
  "tap_thin m [] = []"
| "tap_thin m (op # ops) =
     (case tap_key op of
        None \<Rightarrow> op # tap_thin m ops
      | Some (src, c) \<Rightarrow> if m src = Some c then tap_thin m ops else op # tap_thin (m(src \<mapsto> c)) ops)"

definition heard_by :: "(mac \<Rightarrow> bytes option) \<Rightarrow> reac_tap_survey \<Rightarrow> bool" where
  "heard_by m s \<longleftrightarrow> (\<forall>src c. m src = Some c \<longrightarrow>
     (tsv_have_self s \<and> src = tsv_self_mac s) \<or>
     (\<exists>st \<in> set (tsv_stream s). tst_src st = src \<and> tst_have_prev st \<and> tst_prev st = c) \<or>
     9 \<le> length (tsv_stream s) \<and> src \<notin> set (map tst_src (tsv_stream s)))"

lemma dups_commute [simp]:
  "note_model f (st\<lparr> tst_dups := d \<rparr>) = (note_model f st)\<lparr> tst_dups := d \<rparr>"
  "resolve_by_role m f (st\<lparr> tst_dups := d \<rparr>) = (resolve_by_role m f st)\<lparr> tst_dups := d \<rparr>"
  "stream_fps (st\<lparr> tst_dups := d \<rparr>) = stream_fps st"
  "resolve_by_time n (st\<lparr> tst_dups := d \<rparr>) = (resolve_by_time n st)\<lparr> tst_dups := d \<rparr>"
  by (simp_all add: note_model_def resolve_by_role_def stream_fps_def resolve_by_time_def Let_def split: option.splits)

lemma dups_commute_frames [simp]:
  "resolve_by_frames (st\<lparr> tst_dups := d \<rparr>) = (resolve_by_frames st)\<lparr> tst_dups := d \<rparr>"
  by (simp add: resolve_by_frames_def Let_def)

lemma dups_commute_take [simp]:
  "tap_count f ts (st\<lparr> tst_dups := d \<rparr>) = (tap_count f ts st)\<lparr> tst_dups := d \<rparr>"
  "tap_take m f ts (st\<lparr> tst_dups := d \<rparr>) = (tap_take m f ts st)\<lparr> tst_dups := d \<rparr>"
proof -
  show e: "tap_count f ts (st\<lparr> tst_dups := d \<rparr>) = (tap_count f ts st)\<lparr> tst_dups := d \<rparr>"
    by (cases st) (simp add: tap_count_def Let_def)
  show "tap_take m f ts (st\<lparr> tst_dups := d \<rparr>) = (tap_take m f ts st)\<lparr> tst_dups := d \<rparr>"
    by (simp add: tap_take_def e)
qed

lemma tap_roster_idem [simp]: "tap_roster (tap_roster s) = tap_roster s"
  by (simp add: tap_roster_def comp_def)

lemma tap_roster_self [simp]: "tap_self (tap_roster s) = tap_self s"
  by (simp add: tap_roster_def tap_self_def)

lemma find_index_map: "find_index p (map f xs) = find_index (\<lambda>x. p (f x)) xs"
  by (induction xs) simp_all

lemma stream_for_roster:
  "snd (stream_for src kind ch (tap_roster s)) = snd (stream_for src kind ch s)"
  "tap_roster (fst (stream_for src kind ch (tap_roster s))) = tap_roster (fst (stream_for src kind ch s))"
  by (simp_all add: stream_for_def tap_roster_def find_index_map comp_def tap_stream_new_def split: option.splits)

lemma tap_audio_roster:
  assumes "tap_roster (fst x) = tap_roster (fst y)" and "snd x = snd y"
    and "snd x < 0 \<or> nat (snd x) < length (tsv_stream (fst x))"
  shows "tap_roster (fst (tap_audio f ts x)) = tap_roster (fst (tap_audio f ts y))"
proof -
  obtain a i b where xy: "x = (a, i)" "y = (b, i)" using assms(2) by (cases x; cases y) simp
  have r: "tap_roster a = tap_roster b" using assms(1) xy by simp
  show ?thesis
  proof (cases "i < 0")
    case True
    then show ?thesis using r by (simp add: xy tap_audio_def)
  next
    case False
    let ?z = "tst_dups_update (\<lambda>_. 0)"
    have m: "map ?z (tsv_stream a) = map ?z (tsv_stream b)"
      using arg_cong [OF r, of tsv_stream] by (simp add: tap_roster_def)
    have self: "tap_self a = tap_self b" using arg_cong [OF r, of tap_self] by simp
    have l: "nat i < length (tsv_stream a)" using assms(3) xy False by simp
    then have lb: "nat i < length (tsv_stream b)" using map_eq_imp_length_eq [OF m] by simp
    have e: "?z (tsv_stream a ! nat i) = ?z (tsv_stream b ! nat i)"
      using arg_cong [OF m, of "\<lambda>l. l ! nat i"] l lb by simp
    have p: "tst_have_prev (tsv_stream a ! nat i) = tst_have_prev (tsv_stream b ! nat i)"
      "tst_prev (tsv_stream a ! nat i) = tst_prev (tsv_stream b ! nat i)"
      using arg_cong [OF e, of tst_have_prev] arg_cong [OF e, of tst_prev] by simp_all
    have t: "?z (tap_take (tap_self a) f ts (tsv_stream a ! nat i)) = ?z (tap_take (tap_self b) f ts (tsv_stream b ! nat i))"
      using arg_cong [OF e, of "tap_take (tap_self a) f ts"] self by simp
    have u: "tap_roster (a\<lparr> tsv_stream := (tsv_stream a)[nat i := v] \<rparr>) = tap_roster (b\<lparr> tsv_stream := (tsv_stream b)[nat i := w] \<rparr>)"
      if "?z v = ?z w" for v w
      using r m that by (cases a; cases b) (simp add: tap_roster_def map_update)
    define q where "q = (tst_have_prev (tsv_stream b ! nat i) \<and> length f \<le> TAP_BUF \<and> f = tst_prev (tsv_stream b ! nat i))"
    have d: "?z ((tsv_stream a ! nat i)\<lparr> tst_dups := k \<rparr>) = ?z ((tsv_stream b ! nat i)\<lparr> tst_dups := l \<rparr>)" for k l
      using e by simp
    show ?thesis
      unfolding xy tap_audio_def Let_def prod.case p q_def [symmetric] using False u [OF t] u [OF d]
      by (cases q) simp_all
  qed
qed

text \<open>What a frame does to the roster depends on the roster alone.\<close>

lemma stream_for_index:
  "snd (stream_for src kind ch s) < 0 \<or> nat (snd (stream_for src kind ch s)) < length (tsv_stream (fst (stream_for src kind ch s)))"
  by (cases rule: stream_for_cases [of src kind ch s]) simp_all

lemma tap_control_roster: "tap_roster (tap_control src f (tap_roster s)) = tap_roster (tap_control src f s)"
proof -
  define m where "m = tap_self s"
  have e: "tap_self (tap_roster s) = m" "tap_self s = m" by (simp_all add: m_def)
  show ?thesis unfolding tap_control_def e by (simp add: tap_roster_def)
qed

lemma tap_roster_seen [simp]: "tap_roster (s\<lparr> tsv_frames_seen := x \<rparr>) = tap_roster s"
  "tap_roster (s\<lparr> tsv_frames_self := x \<rparr>) = tap_roster s" "tap_roster (s\<lparr> tsv_frames_overflow := x \<rparr>) = tap_roster s"
  by (simp_all add: tap_roster_def)

lemma tap_roster_have_self [simp]:
  "tsv_have_self (tap_roster s) = tsv_have_self s" "tsv_self_mac (tap_roster s) = tsv_self_mac s"
  by (simp_all add: tap_roster_def)

lemma tap_step_roster: "tap_roster (tap_step (tap_roster s) op) = tap_roster (tap_step s op)"
proof (cases op)
  case (TapResolve now)
  then show ?thesis by (simp add: tap_step_def reac_tap_survey_resolve_def tap_roster_def Let_def comp_def)
next
  case (TapFrame f ts)
  define u :: "reac_tap_survey \<Rightarrow> reac_tap_survey" where "u s = s\<lparr> tsv_frames_seen := tsv_frames_seen s + 1 \<rparr>" for s
  have r: "tap_roster (u s) = tap_roster s" "tap_roster (u (tap_roster s)) = tap_roster s" by (simp_all add: u_def)
  have a: "tap_roster (fst (tap_audio g ts (stream_for src k c (u (tap_roster s))))) =
      tap_roster (fst (tap_audio g ts (stream_for src k c (u s))))" for g src k c
    by (rule tap_audio_roster)
      (metis r stream_for_roster stream_for_index)+
  have c: "tap_roster (tap_control src g (u (tap_roster s))) = tap_roster (tap_control src g (u s))" for src g
    by (metis r tap_control_roster)
  have h: "tsv_have_self (u s) = tsv_have_self s" "tsv_self_mac (u s) = tsv_self_mac s" for s by (simp_all add: u_def)
  show ?thesis
    unfolding TapFrame tap_step_def reac_tap_survey_frame_def tap_op.case u_def [symmetric]
    by (cases f) (simp_all add: Let_def a c h r)
qed

lemma tap_step_cong: "tap_roster s = tap_roster s' \<Longrightarrow> tap_roster (tap_step s op) = tap_roster (tap_step s' op)"
  by (metis tap_step_roster)

lemma resolve_by_time_prev [simp]:
  "tst_prev (resolve_by_time n st) = tst_prev st" "tst_have_prev (resolve_by_time n st) = tst_have_prev st"
  by (simp_all add: resolve_by_time_def)

lemma upstream_width_fits: "0 < reac_upstream_channels n \<Longrightarrow> n \<le> 1492"
proof -
  assume w: "0 < reac_upstream_channels n"
  then have a: "124 \<le> n" and m: "(n - 52) mod 36 = 0" and b: "(n - 52) div 36 \<le> 40"
    by (auto simp: reac_upstream_channels_def Let_def reac_box_width_ok_iff split: if_splits)
  have "n - 52 = (n - 52) div 36 * 36" using m div_mult_mod_eq [of "n - 52" 36] by simp
  then show ?thesis using a b by linarith
qed

lemma tap_roster_update:
  assumes "i < length (tsv_stream s)" and "tst_dups_update (\<lambda>_. 0) y = tst_dups_update (\<lambda>_. 0) (tsv_stream s ! i)"
  shows "tap_roster (s\<lparr> tsv_stream := (tsv_stream s)[i := y] \<rparr>) = tap_roster s"
proof -
  have "map (tst_dups_update (\<lambda>_. 0)) ((tsv_stream s)[i := y]) = map (tst_dups_update (\<lambda>_. 0)) (tsv_stream s)"
    using assms by (rule map_update_same)
  then show ?thesis by (cases s) (simp add: tap_roster_def)
qed

text \<open>What the survey does with an audio frame: the stream of its sender has it as its last frame, or there is none.\<close>

lemma tap_audio_cases:
  assumes "length c \<le> 1492"
  obtains (full) "tap_audio c ts (stream_for src k ch s) = (s\<lparr> tsv_frames_overflow := tsv_frames_overflow s + 1 \<rparr>, - 3)"
      "9 \<le> length (tsv_stream s)" "src \<notin> set (map tst_src (tsv_stream s))"
  | (known) i y r where "tap_audio c ts (stream_for src k ch s) = (s\<lparr> tsv_stream := (tsv_stream s)[i := y] \<rparr>, r)"
      "i < length (tsv_stream s)" "tst_src (tsv_stream s ! i) = src" "tst_src y = src" "tst_have_prev y" "tst_prev y = c"
      "tst_have_prev (tsv_stream s ! i) \<and> tst_prev (tsv_stream s ! i) = c \<longrightarrow> y = (tsv_stream s ! i)\<lparr> tst_dups := tst_dups (tsv_stream s ! i) + 1 \<rparr>"
  | (fresh) y r where "tap_audio c ts (stream_for src k ch s) = (s\<lparr> tsv_stream := tsv_stream s @ [y] \<rparr>, r)"
      "length (tsv_stream s) < 9" "src \<notin> set (map tst_src (tsv_stream s))" "tst_src y = src" "tst_have_prev y" "tst_prev y = c"
proof (cases rule: stream_for_cases [of src k ch s])
  case known': (known i)
  let ?st = "tsv_stream s ! i"
  note p = tap_take_prev [of c "tap_self s" ts ?st]
  show thesis
  proof (cases "tst_have_prev ?st \<and> tst_prev ?st = c")
    case True
    then show thesis using known [of i "?st\<lparr> tst_dups := tst_dups ?st + 1 \<rparr>" "- 2"] known' assms
      by (auto simp: tap_audio_def Let_def)
  next
    case False
    then show thesis using known [of i "tap_take (tap_self s) c ts ?st" "int i"] known' assms p
      by (auto simp: tap_audio_def Let_def)
  qed
next
  case full': full
  then show thesis using full by (simp add: tap_audio_def)
next
  case fresh': fresh
  let ?n = "tap_stream_new src k ch"
  define s' where "s' = s\<lparr> tsv_stream := tsv_stream s @ [?n] \<rparr>"
  have n: "tsv_stream s' ! length (tsv_stream s) = ?n" by (simp add: s'_def)
  have "\<not> tst_have_prev ?n" by (simp add: tap_stream_new_def)
  then have "tap_audio c ts (stream_for src k ch s) =
      (s'\<lparr> tsv_stream := (tsv_stream s')[length (tsv_stream s) := tap_take (tap_self s') c ts ?n] \<rparr>, int (length (tsv_stream s)))"
    unfolding fresh'(1) s'_def [symmetric] by (simp add: tap_audio_def Let_def n)
  moreover have "(tsv_stream s')[length (tsv_stream s) := y] = tsv_stream s @ [y]" for y by (simp add: s'_def)
  ultimately have e: "tap_audio c ts (stream_for src k ch s) =
      (s\<lparr> tsv_stream := tsv_stream s @ [tap_take (tap_self s') c ts ?n] \<rparr>, int (length (tsv_stream s)))"
    by (simp add: s'_def)
  show thesis using fresh [OF e] fresh' tap_take_prev [of c "tap_self s'" ts ?n] assms by (simp add: tap_stream_new_def)
qed

lemma heard_by_map:
  assumes "heard_by m s" and "tsv_stream s' = map g (tsv_stream s)"
    and "tsv_have_self s' = tsv_have_self s" and "tsv_self_mac s' = tsv_self_mac s"
    and "\<And>st. tst_src (g st) = tst_src st \<and> tst_have_prev (g st) = tst_have_prev st \<and> tst_prev (g st) = tst_prev st"
  shows "heard_by m s'"
  using assms by (simp add: heard_by_def image_image)

lemma heard_by_audio:
  assumes "heard_by m s" and "length c \<le> 1492"
  shows "heard_by (m(src \<mapsto> c)) (fst (tap_audio c ts (stream_for src k ch s)))"
using assms(2)
proof (cases rule: tap_audio_cases [where ts = ts and src = src and k = k and ch = ch and s = s])
  case full
  then show ?thesis using assms(1) by (simp add: heard_by_def)
next
  case (known i y r)
  have srcs: "map tst_src ((tsv_stream s)[i := y]) = map tst_src (tsv_stream s)"
    using known by (intro map_update_same) simp_all
  have keep: "st \<in> set ((tsv_stream s)[i := y])" if "st \<in> set (tsv_stream s)" "tst_src st \<noteq> src" for st
    using that known(2,3) by (metis in_set_conv_nth length_list_update nth_list_update_neq)
  have y: "y \<in> set ((tsv_stream s)[i := y])" using known(2) by (rule set_update_memI)
  have l: "length ((tsv_stream s)[i := y]) = length (tsv_stream s)" by simp
  let ?s = "s\<lparr> tsv_stream := (tsv_stream s)[i := y] \<rparr>"
  have f: "tsv_stream ?s = (tsv_stream s)[i := y]" "tsv_have_self ?s = tsv_have_self s" "tsv_self_mac ?s = tsv_self_mac s"
    by simp_all
  show ?thesis
    unfolding heard_by_def known(1) fst_conv f srcs l
  proof (intro allI impI, goal_cases)
    case (1 src' c')
    show ?case
    proof (cases "src' = src")
      case True
      then show ?thesis using 1 known(4-6) y by auto
    next
      case False
      then have "m src' = Some c'" using 1 by simp
      then show ?thesis using assms(1) keep False unfolding heard_by_def by blast
    qed
  qed
next
  case (fresh y r)
  then show ?thesis using assms(1) by (auto simp: heard_by_def)
qed

section \<open>Thinned histories\<close>

lemma tap_step_audio:
  assumes "tap_key (TapFrame (Some raw) ts) = Some (src, c)"
  shows "length c \<le> 1492" and "\<exists>k ch. tap_step s (TapFrame (Some raw) ts) =
    (if tsv_have_self s \<and> src = tsv_self_mac s
     then s\<lparr> tsv_frames_seen := tsv_frames_seen s + 1, tsv_frames_self := tsv_frames_self s + 1 \<rparr>
     else fst (tap_audio c ts (stream_for src k ch (s\<lparr> tsv_frames_seen := tsv_frames_seen s + 1 \<rparr>))))"
proof -
  from assms have k: "reac_frame_is_reac (Some raw)" "0 < reac_upstream_channels (length (tap_clean raw))"
    "src = peek 6 6 raw" "c = tap_clean raw" by (auto simp: tap_key_def split: if_splits)
  show "length c \<le> 1492" using upstream_width_fits k by simp
  define w where "w = reac_upstream_channels (length (tap_clean raw))"
  have "0 < w" using k by (simp add: w_def)
  then show "\<exists>k ch. tap_step s (TapFrame (Some raw) ts) =
    (if tsv_have_self s \<and> src = tsv_self_mac s
     then s\<lparr> tsv_frames_seen := tsv_frames_seen s + 1, tsv_frames_self := tsv_frames_self s + 1 \<rparr>
     else fst (tap_audio c ts (stream_for src k ch (s\<lparr> tsv_frames_seen := tsv_frames_seen s + 1 \<rparr>))))"
    unfolding tap_step_def reac_tap_survey_frame_def tap_op.case option.case tap_clean_def [symmetric] Let_def w_def [symmetric]
    using k by (auto simp del: not_None_eq)
qed

lemma tap_repeat_keeps_roster:
  assumes "tap_books 0 s" and "heard_by m s" and "tap_key op = Some (src, c)" and "m src = Some c"
  shows "tap_roster (tap_step s op) = tap_roster s"
proof -
  obtain raw ts where op: "op = TapFrame (Some raw) ts"
    using assms(3) by (auto simp: tap_key_def split: tap_op.splits option.splits)
  define s1 where "s1 = s\<lparr> tsv_frames_seen := tsv_frames_seen s + 1 \<rparr>"
  note st = tap_step_audio [OF assms(3) [unfolded op]]
  obtain k ch where e: "tap_step s op = (if tsv_have_self s \<and> src = tsv_self_mac s
     then s\<lparr> tsv_frames_seen := tsv_frames_seen s + 1, tsv_frames_self := tsv_frames_self s + 1 \<rparr>
     else fst (tap_audio c ts (stream_for src k ch s1)))" using st(2) [of s] unfolding op s1_def by blast
  show ?thesis
  proof (cases "tsv_have_self s \<and> src = tsv_self_mac s")
    case True
    then show ?thesis by (simp add: e)
  next
    case False
    from st(1) have "tap_roster (fst (tap_audio c ts (stream_for src k ch s1))) = tap_roster s1"
    proof (cases rule: tap_audio_cases [where ts = ts and src = src and k = k and ch = ch and s = s1])
      case (known i y r)
      then have "src \<in> set (map tst_src (tsv_stream s))" by (force simp: s1_def)
      then obtain x where x: "x \<in> set (tsv_stream s)" "tst_src x = src" "tst_have_prev x" "tst_prev x = c"
        using assms(2,4) False unfolding heard_by_def by blast
      have "x = tsv_stream s ! i"
        using assms(1) x known(2,3) by (auto simp: tap_books_def s1_def distinct_map in_set_conv_nth dest!: inj_onD)
      then have "x = tsv_stream s1 ! i" by (simp add: s1_def)
      then show ?thesis using known x by (simp add: tap_roster_update)
    next
      case (fresh y r)
      have "tsv_stream s1 = tsv_stream s" by (simp add: s1_def)
      moreover have "src \<in> set (map tst_src (tsv_stream s)) \<or> 9 \<le> length (tsv_stream s)"
        using assms(2,4) False unfolding heard_by_def by force
      ultimately show ?thesis using fresh by simp
    qed simp
    then show ?thesis using False by (simp add: e s1_def)
  qed
qed

lemma heard_by_step:
  assumes "heard_by m s"
  shows "heard_by (case tap_key op of None \<Rightarrow> m | Some (src, c) \<Rightarrow> m(src \<mapsto> c)) (tap_step s op)"
proof (cases op)
  case (TapResolve now)
  then show ?thesis
    using assms by (auto simp: tap_key_def tap_step_def reac_tap_survey_resolve_def Let_def intro: heard_by_map)
next
  case (TapFrame f ts)
  show ?thesis
  proof (cases "tap_key op")
    case (Some a)
    then obtain raw src c where a: "a = (src, c)" "f = Some raw"
      using TapFrame by (cases a; cases f) (auto simp: tap_key_def)
    define s1 where "s1 = s\<lparr> tsv_frames_seen := tsv_frames_seen s + 1 \<rparr>"
    have "heard_by m s1" using assms by (simp add: s1_def heard_by_def)
    note st = tap_step_audio [OF Some [unfolded TapFrame a]]
    from st(2) [of s] obtain k ch where e: "tap_step s op = (if tsv_have_self s \<and> src = tsv_self_mac s
       then s\<lparr> tsv_frames_seen := tsv_frames_seen s + 1, tsv_frames_self := tsv_frames_self s + 1 \<rparr>
       else fst (tap_audio c ts (stream_for src k ch s1)))" unfolding TapFrame a s1_def by blast
    show ?thesis
    proof (cases "tsv_have_self s \<and> src = tsv_self_mac s")
      case True
      then show ?thesis using assms Some a e by (simp add: heard_by_def) blast
    next
      case False
      then have "tap_step s op = fst (tap_audio c ts (stream_for src k ch s1))" using e by presburger
      then show ?thesis using heard_by_audio [OF \<open>heard_by m s1\<close> st(1)] Some a by simp
    qed
  next
    case None
    have "heard_by m (s\<lparr> tsv_frames_seen := x, tsv_frames_self := y \<rparr>)" for x y
      using assms by (simp add: heard_by_def)
    moreover have "heard_by m (tap_control src g (s\<lparr> tsv_frames_seen := x \<rparr>))" for x src g
      using assms
      by (rule heard_by_map [where g = "\<lambda>st. if tst_src st = src
            then resolve_by_role (tap_self (s\<lparr> tsv_frames_seen := x \<rparr>)) g (note_model g st) else st"])
        (simp_all add: tap_control_def)
    ultimately show ?thesis
      using None assms unfolding TapFrame
      by (auto simp: tap_key_def tap_step_def reac_tap_survey_frame_def tap_clean_def Let_def split: option.splits if_splits)
  qed
qed

lemma tap_thin_roster:
  assumes "tap_books 0 s" and "heard_by m s" and "tap_roster s = tap_roster s'"
  shows "tap_roster (foldl tap_step s ops) = tap_roster (foldl tap_step s' (tap_thin m ops))"
  using assms
proof (induction ops arbitrary: s s' m)
  case Nil
  then show ?case by simp
next
  case (Cons op ops)
  have b: "tap_books 0 (tap_step s op)" using Cons.prems(1) by (rule tap_machine.inv_step) simp
  note h = heard_by_step [OF Cons.prems(2), of op] and c = tap_step_cong [OF Cons.prems(3), of op]
  show ?case
  proof (cases "\<exists>src c. tap_key op = Some (src, c) \<and> m src = Some c")
    case True
    then obtain src c where k: "tap_key op = Some (src, c)" "m src = Some c" by blast
    then have "tap_roster (tap_step s op) = tap_roster s'"
      using tap_repeat_keeps_roster [OF Cons.prems(1,2)] Cons.prems(3) by simp
    moreover have "m(src \<mapsto> c) = m" using k by auto
    ultimately show ?thesis using Cons.IH [OF b, of m s'] h k by simp
  next
    case False
    then show ?thesis using Cons.IH [OF b h c] by (auto split: option.splits)
  qed
qed

definition tap_reac_op :: "tap_op \<Rightarrow> bool" where
  "tap_reac_op op = (case op of TapFrame f ts \<Rightarrow> reac_frame_is_reac f | TapResolve now \<Rightarrow> False)"

lemma stream_for_seen [simp]: "tsv_frames_seen (fst (stream_for src k ch s)) = tsv_frames_seen s"
  by (simp add: stream_for_def split: option.splits)

lemma tap_step_seen: "tsv_frames_seen (tap_step s op) = tsv_frames_seen s + (if tap_reac_op op then 1 else 0)"
  by (cases op)
    (auto simp: tap_step_def tap_reac_op_def reac_tap_survey_resolve_def reac_tap_survey_frame_def tap_audio_def
      tap_control_def Let_def split_beta reac_frame_is_reac_def split: option.splits)

lemma tap_run_seen:
  "tsv_frames_seen (foldl tap_step s ops) = tsv_frames_seen s + of_nat (length (filter tap_reac_op ops))"
  by (induction ops arbitrary: s) (simp_all add: tap_step_seen)

lemma tap_step_self [simp]:
  "tsv_have_self (tap_step s op) = tsv_have_self s" "tsv_self_mac (tap_step s op) = tsv_self_mac s"
  by (cases op;
      auto simp: tap_step_def reac_tap_survey_resolve_def reac_tap_survey_frame_def tap_audio_def stream_for_def
        tap_control_def Let_def split_beta split: option.splits)+

lemma tap_run_self [simp]:
  "tsv_have_self (foldl tap_step s ops) = tsv_have_self s" "tsv_self_mac (foldl tap_step s ops) = tsv_self_mac s"
  by (induction ops arbitrary: s) simp_all

definition tap_start :: "mac option \<Rightarrow> reac_tap_survey" where
  "tap_start self = reac_tap_survey_set_self self reac_tap_survey_init"

lemma tap_start_fields:
  "tap_books 0 (tap_start self)" "tsv_frames_seen (tap_start self) = 0" "tsv_have_self (tap_start self) \<longleftrightarrow> self \<noteq> None"
  "self = Some m \<Longrightarrow> tsv_self_mac (tap_start self) = m" "heard_by Map.empty (tap_start self)"
  by (simp_all add: tap_start_def reac_tap_survey_set_self_def reac_tap_survey_init_def tap_books_def tap_accounted_def
      heard_by_def split: option.splits)

lemma tap_books_run: "tap_books 0 (foldl tap_step (tap_start self) ops)"
  using tap_machine.inv_run [OF tap_start_fields(1), of ops] by (simp add: list_all_iff)

text \<open>C15: The survey of a tap accounts for what it hears. After any history of frames and limits there are at most nine
  streams, from distinct senders and none of them from our own address, and (modulo 2^64) every REAC frame was counted
  once: taken into a stream, dropped there as a repeat, or refused as our own, as having no audio geometry, or
  because the roster is full.\<close>

theorem tap_survey_accounts:
  "let s = foldl tap_step (tap_start self) ops
   in length (tsv_stream s) \<le> 9 \<and> distinct (map tst_src (tsv_stream s)) \<and> self \<notin> Some ` set (map tst_src (tsv_stream s)) \<and>
      tsv_frames_seen s = of_nat (length (filter tap_reac_op ops)) \<and>
      tsv_frames_seen s = sum_list (map (\<lambda>st. tst_frames st + tst_dups st) (tsv_stream s)) +
        tsv_frames_ungeometric s + tsv_frames_overflow s + tsv_frames_self s"
proof -
  define s where "s = foldl tap_step (tap_start self) ops"
  have b: "tap_books 0 s" unfolding s_def by (rule tap_books_run)
  have "self \<notin> Some ` set (map tst_src (tsv_stream s))"
    using b tap_start_fields(3,4) [of self] by (cases self) (auto simp: tap_books_def s_def)
  moreover have "tsv_frames_seen s = of_nat (length (filter tap_reac_op ops))"
    by (simp add: s_def tap_run_seen tap_start_fields)
  ultimately show ?thesis using b unfolding s_def [symmetric] Let_def tap_books_def tap_accounted_def by simp
qed

text \<open>C13: A tap on a mirrored port, where frames arrive twice, gets the roster of the frames heard once. For every history
  of frames and limits, the senders, kinds, widths, declarations, counts of frames, losses and times of the streams
  are those of the history without the audio frames whose clean bytes repeat the last audio frame of the same sender,
  with whatever other frames are between the two copies.\<close>

theorem tap_mirror_transparent:
  "tap_roster (foldl tap_step (tap_start self) ops) = tap_roster (foldl tap_step (tap_start self) (tap_thin Map.empty ops))"
  by (rule tap_thin_roster [OF tap_start_fields(1,5) refl])

text \<open>The two copies a mirrored port delivers, one with two bytes of the frame check sequence.\<close>

lemma tap_clean_residue:
  "length f = 52 + n * 36 \<Longrightarrow> tap_clean f = f \<and> tap_clean (f @ [x, y]) = f"
  using reac_frame_clean_len_residue [of n] reac_frame_clean_len_clean [of n] by (simp add: tap_clean_def)

section \<open>Serving\<close>

lemma survey_file_books: "tap_books 0 s \<Longrightarrow> tap_books 0 (fst (survey_file k ps ts s))"
  by (induction k arbitrary: ps ts s) (simp_all add: Let_def split_beta survey_frame_books)

lemma survey_live_books: "survey_live d h turns s = Some s' \<Longrightarrow> tap_books 0 s \<Longrightarrow> tap_books 0 s'"
proof (induction turns arbitrary: s)
  case (Cons t ts)
  then show ?case
    using survey_resolve_books [OF Cons.prems(2), of "tt_resolve t"]
    by (auto simp: Let_def split_beta survey_frame_books split: if_splits option.splits)
qed simp

lemma survey_source_books:
  "survey_source env cfg s = Some (s', rc) \<Longrightarrow> tap_books 0 s \<Longrightarrow> tap_books 0 s'"
  by (auto simp: survey_source_def Let_def split_beta survey_file_books survey_resolve_books survey_live_books split: if_splits)

text \<open>A survey of a live segment ends once the clock has passed the declared limit.\<close>

lemma survey_live_ends:
  "t \<in> set turns \<Longrightarrow> d \<le> tt_cond t \<Longrightarrow> h \<le> tt_hold t \<Longrightarrow> survey_live d h turns s \<noteq> None"
  by (induction turns arbitrary: s) (auto simp: Let_def split_beta split: option.splits)

text \<open>At the end of a survey a stream is held back only while it was heard for less than the limit.\<close>

lemma resolve_limit:
  assumes "reac_tap_survey_resolve now s = (s', left)"
  shows "left = length (filter (\<lambda>st. tst_kind st = REAC_TAP_STREAM_UNRESOLVED) (tsv_stream s'))"
    and "\<forall>st \<in> set (tsv_stream s'). tst_kind st = REAC_TAP_STREAM_UNRESOLVED \<and> tst_first_ts_usec st \<noteq> 0 \<longrightarrow>
      now \<le> tst_first_ts_usec st \<or> (now - tst_first_ts_usec st) * 1000 < reac_master_only_cadence_ns (stream_fps st)"
  using assms by (auto simp: reac_tap_survey_resolve_def Let_def resolve_by_time_def not_less)

text \<open>The receivers of an opened tap.\<close>

lemma rx_open_shape:
  assumes "reac_rx_open a b d cfg = Some rx"
  shows "\<exists>ring rate. rx = rx_zero cfg ring rate"
  using assms by (auto simp: reac_rx_open_def Let_def split: if_splits)

lemma tap_feeders_nth:
  assumes "tap_feeders env cfg rate k sts = Some rxs"
  shows "length rxs = length sts" and "i < length sts \<Longrightarrow>
    rx_up_src (rxs ! i) = tst_src (sts ! i) \<and> rx_up_src_locked (rxs ! i) \<and> rx_cfg (rxs ! i) = tap_rx_cfg cfg rate (sts ! i)"
proof -
  have "length rxs = length sts \<and> (\<forall>i < length sts.
    rx_up_src (rxs ! i) = tst_src (sts ! i) \<and> rx_up_src_locked (rxs ! i) \<and> rx_cfg (rxs ! i) = tap_rx_cfg cfg rate (sts ! i))"
    using assms
  proof (induction sts arbitrary: k rxs)
    case (Cons st sts)
    then obtain rx rs where e: "reac_rx_open (te_calloc_ok env k) (te_rx_capture_ok env k) (te_detected env k) (tap_rx_cfg cfg rate st) = Some rx"
      "tap_feeders env cfg rate (Suc k) sts = Some rs" "rxs = reac_rx_peer_reset (tst_src st) 1 rx # rs"
      by (auto split: option.splits)
    then show ?case
      using Cons.IH [OF e(2)] rx_open_shape [OF e(1)] by (auto simp: nth_Cons' reac_rx_peer_reset_def rx_zero_def)
  qed simp
  then show "length rxs = length sts" and "i < length sts \<Longrightarrow>
    rx_up_src (rxs ! i) = tst_src (sts ! i) \<and> rx_up_src_locked (rxs ! i) \<and> rx_cfg (rxs ! i) = tap_rx_cfg cfg rate (sts ! i)"
    by auto
qed

lemma gate_pinned:
  assumes "rx_up_src_locked rx"
  shows "fst (gate_accepts f rx) = rx" and "snd (gate_accepts f rx) \<Longrightarrow> peek 6 6 f = rx_up_src rx"
  using assms by (auto simp: gate_accepts_def Let_def split: if_splits)

lemma tap_keep_books:
  "tap_books 0 s \<Longrightarrow> distinct (map tst_src (tsv_stream (tap_keep s))) \<and> length (tsv_stream (tap_keep s)) \<le> 9 \<and>
     (tsv_have_self s \<longrightarrow> tsv_self_mac s \<notin> set (map tst_src (tsv_stream (tap_keep s))))"
  by (auto simp: tap_books_def tap_keep_def distinct_map_filter intro: le_trans [OF length_filter_le])

lemma survey_self [simp]:
  "tsv_have_self (fst (reac_tap_survey_frame f ts s)) = tsv_have_self s"
  "tsv_self_mac (fst (reac_tap_survey_frame f ts s)) = tsv_self_mac s"
  "tsv_have_self (fst (reac_tap_survey_resolve now s)) = tsv_have_self s"
  "tsv_self_mac (fst (reac_tap_survey_resolve now s)) = tsv_self_mac s"
  using tap_step_self [of s "TapFrame f ts"] tap_step_self [of s "TapResolve now"] by (simp_all add: tap_step_def)

lemma survey_file_self [simp]:
  "tsv_have_self (fst (survey_file k ps ts s)) = tsv_have_self s" "tsv_self_mac (fst (survey_file k ps ts s)) = tsv_self_mac s"
  by (induction k arbitrary: ps ts s) (simp_all add: Let_def split_beta)

lemma survey_live_self:
  "survey_live d h turns s = Some s' \<Longrightarrow> tsv_have_self s' = tsv_have_self s \<and> tsv_self_mac s' = tsv_self_mac s"
  by (induction turns arbitrary: s) (auto simp: Let_def split_beta split: if_splits option.splits)

lemma survey_source_self:
  "survey_source env cfg s = Some (s', rc) \<Longrightarrow> tsv_have_self s' = tsv_have_self s \<and> tsv_self_mac s' = tsv_self_mac s"
  by (auto simp: survey_source_def Let_def split_beta survey_live_self split: if_splits)

lemma tap_open_cases:
  assumes "reac_tap_open env cfg t0 = Some (t, 0)"
  obtains s where "survey_source env cfg (tap_start (tc_self_mac cfg)) = Some (s, 0)" and "tap_survey t = tap_keep s"
    and "tap_n t = length (tsv_stream (tap_keep s))"
    and "tap_sample_rate t = (if tc_forced_rate cfg \<noteq> 0 then tc_forced_rate cfg else reac_tap_survey_rate (tap_keep s))"
    and "0 < tap_n t \<longrightarrow> 0 < tap_sample_rate t \<and>
      tap_feeders env cfg (tap_sample_rate t) 0 (tsv_stream (tap_keep s)) = Some (tap_rx t)"
proof -
  have z: "tap_survey (tap_zero cfg) = tap_start (tc_self_mac cfg)" by (simp add: tap_zero_def tap_start_def)
  from assms obtain s where s: "survey_source env cfg (tap_start (tc_self_mac cfg)) = Some (s, 0)"
    by (auto simp: reac_tap_open_def Let_def z split: if_splits option.splits)
  then show thesis
    using that [OF s] assms by (auto simp: reac_tap_open_def Let_def z split: if_splits option.splits)
qed

text \<open>C14: A tap that opened and serves streams serves each of them exactly once. There are at most nine receivers, one
  for each stream of the roster, all streams are resolved, none is our own, and the rate is positive. A frame that the
  gate of a receiver accepts comes from the sender of its stream, so no frame is accepted by two receivers; the gate
  stays pinned, and it reads downstream frames for the master and upstream frames for a box.\<close>

theorem tap_serves_each_once:
  assumes "reac_tap_open env cfg t0 = Some (t, 0)" and "0 < tap_n t"
  shows "tap_n t \<le> 9 \<and> length (tap_rx t) = tap_n t \<and> length (tsv_stream (tap_survey t)) = tap_n t \<and> 0 < tap_sample_rate t \<and>
    (\<forall>i < tap_n t. let st = tsv_stream (tap_survey t) ! i; rx = tap_rx t ! i in
       tst_kind st \<noteq> REAC_TAP_STREAM_UNRESOLVED \<and> tc_self_mac cfg \<noteq> Some (tst_src st) \<and>
       (rc_accept (rx_cfg rx) = REAC_RX_ACCEPT_DOWNSTREAM \<longleftrightarrow> tst_kind st = REAC_TAP_STREAM_MASTER) \<and>
       (\<forall>f. fst (gate_accepts f rx) = rx \<and> (snd (gate_accepts f rx) \<longrightarrow> peek 6 6 f = tst_src st))) \<and>
    (\<forall>f. \<forall>i < tap_n t. \<forall>j < tap_n t. snd (gate_accepts f (tap_rx t ! i)) \<and> snd (gate_accepts f (tap_rx t ! j)) \<longrightarrow> i = j)"
proof -
  obtain s where s: "survey_source env cfg (tap_start (tc_self_mac cfg)) = Some (s, 0)" "tap_survey t = tap_keep s"
    "tap_n t = length (tsv_stream (tap_keep s))" "0 < tap_sample_rate t"
    "tap_feeders env cfg (tap_sample_rate t) 0 (tsv_stream (tap_keep s)) = Some (tap_rx t)"
    using tap_open_cases [OF assms(1)] assms(2) by metis
  have b: "tap_books 0 s" using survey_source_books [OF s(1)] by (simp add: tap_start_fields)
  note k = tap_keep_books [OF b] and f = tap_feeders_nth [OF s(5)] and self = survey_source_self [OF s(1)]
  have own: "tc_self_mac cfg \<noteq> Some (tst_src (tsv_stream (tap_keep s) ! i))" if "i < tap_n t" for i
  proof
    assume e: "tc_self_mac cfg = Some (tst_src (tsv_stream (tap_keep s) ! i))"
    then have "tsv_have_self s" and "tsv_self_mac s = tst_src (tsv_stream (tap_keep s) ! i)"
      using self tap_start_fields(3,4) [of "tc_self_mac cfg"] by auto
    then show False using k that s(3) by simp
  qed
  have src: "peek 6 6 g = tst_src (tsv_stream (tap_keep s) ! i)" if "i < tap_n t" "snd (gate_accepts g (tap_rx t ! i))" for g i
    using that f(2) [of i] gate_pinned(2) s(3) by fastforce
  have one: "i = j" if "i < tap_n t" "j < tap_n t" "snd (gate_accepts g (tap_rx t ! i))" "snd (gate_accepts g (tap_rx t ! j))" for g i j
    using that src [of i g] src [of j g] k s(3) by (simp add: distinct_conv_nth) metis
  have res: "tst_kind (tsv_stream (tap_keep s) ! i) \<noteq> REAC_TAP_STREAM_UNRESOLVED" if "i < tap_n t" for i
    using nth_mem [of i "tsv_stream (tap_keep s)"] that s(3) by (auto simp: tap_keep_def)
  have acc: "rc_accept (rx_cfg (tap_rx t ! i)) = REAC_RX_ACCEPT_DOWNSTREAM \<longleftrightarrow> tst_kind (tsv_stream (tap_keep s) ! i) = REAC_TAP_STREAM_MASTER"
    if "i < tap_n t" for i
    using f(2) [of i] that s(3) by (simp add: tap_rx_cfg_def)
  have pin: "fst (gate_accepts g (tap_rx t ! i)) = tap_rx t ! i" if "i < tap_n t" for g i
    using f(2) [of i] that s(3) gate_pinned(1) by simp
  show ?thesis
    unfolding Let_def s(2) using k f(1) s(3,4) own src one res acc pin by (intro conjI allI impI) auto
qed

definition tap_wit_frame :: bytes where
  "tap_wit_frame = [0x00, 0x40, 0xab, 0xc4, 0, 1, 0x00, 0x40, 0xab, 0xc4, 0, 2, 0x88, 0x19] @ replicate 110 0"

definition tap_wit_env :: tap_env where
  "tap_wit_env = \<lparr> te_file = None, te_capture_ok = True, te_start = 5,
     te_turns = [\<lparr> tt_cond = 6, tt_hold = 6, tt_resolve = 6, tt_frame = Some tap_wit_frame, tt_stamp = 7 \<rparr>,
                 \<lparr> tt_cond = 8, tt_hold = 8, tt_resolve = 8, tt_frame = None, tt_stamp = 8 \<rparr>,
                 \<lparr> tt_cond = 2000, tt_hold = 2001, tt_resolve = 2002, tt_frame = None, tt_stamp = 0 \<rparr>],
     te_calloc_ok = (\<lambda>_. True), te_rx_capture_ok = (\<lambda>_. True), te_detected = (\<lambda>_. 0) \<rparr>"

definition tap_wit_cfg :: reac_tap_cfg where
  "tap_wit_cfg = \<lparr> tc_kind = REAC_RX_LIVE, tc_source = Some ''eth0'', tc_forced_rate = 4, tc_survey_ms = 1,
     tc_survey_frames = 0, tc_self_mac = Some [0x00, 0x40, 0xab, 0xc4, 0, 9] \<rparr>"

definition tap_wit :: "reac_tap \<times> int" where
  "tap_wit = the (reac_tap_open tap_wit_env tap_wit_cfg (tap_zero tap_wit_cfg))"

lemma tap_wit_open:
  "reac_tap_open tap_wit_env tap_wit_cfg (tap_zero tap_wit_cfg) \<noteq> None" "snd tap_wit = 0" "tap_n (fst tap_wit) = 1"
  by code_simp+

theorem tap_serves_each_once_witness:
  "reac_tap_open tap_wit_env tap_wit_cfg (tap_zero tap_wit_cfg) = Some (fst tap_wit, 0) \<and> tap_n (fst tap_wit) = 1 \<and>
   length (tap_rx (fst tap_wit)) = 1 \<and> 0 < tap_sample_rate (fst tap_wit)"
proof -
  have e: "reac_tap_open tap_wit_env tap_wit_cfg (tap_zero tap_wit_cfg) = Some (fst tap_wit, 0)"
    using tap_wit_open(1,2) by (auto simp: tap_wit_def)
  show ?thesis using tap_serves_each_once [OF e] tap_wit_open(3) e by simp
qed

section \<open>Two corners\<close>

text \<open>Two frames one microsecond apart with a jump of the counter give a pace past the range of \<^verbatim>\<open>int\<close>.\<close>

lemma stream_fps_past_int:
  "stream_fps ((tap_stream_new src REAC_TAP_STREAM_UNRESOLVED 40)\<lparr> tst_frames := 2, tst_gaps := 65000,
     tst_first_ts_usec := 1, tst_last_ts_usec := 2 \<rparr>) > 2147483647"
  by (simp add: stream_fps_def tap_stream_new_def word_le_nat_alt)

text \<open>A tap refused for want of a rate still counts its streams, and their rings were never made.\<close>

lemma tap_refused_counts_streams:
  assumes "survey_source env cfg (tap_start (tc_self_mac cfg)) = Some (s, 0)" and "tc_source cfg \<noteq> None"
    and "tc_forced_rate cfg = 0" and "tsv_stream (tap_keep s) \<noteq> []" and "reac_tap_survey_rate (tap_keep s) \<le> 0"
  shows "\<exists>t. reac_tap_open env cfg t0 = Some (t, - 1) \<and> reac_tap_stream_count (Some t) = length (tsv_stream (tap_keep s)) \<and>
    reac_tap_ring_at (Some t) 0 = Some ring_none"
proof -
  let ?t = "(tap_zero cfg)\<lparr> tap_survey := tap_keep s, tap_sample_rate := reac_tap_survey_rate (tap_keep s),
    tap_n := length (tsv_stream (tap_keep s)) \<rparr>"
  have "tap_survey (tap_zero cfg) = tap_start (tc_self_mac cfg)" by (simp add: tap_zero_def tap_start_def)
  then have "reac_tap_open env cfg t0 = Some (?t, - 1)"
    unfolding reac_tap_open_def using assms by (auto simp: Let_def)
  moreover have "tap_rx ?t = []" by (simp add: tap_zero_def)
  ultimately show ?thesis using assms(4) by (intro exI [of _ ?t]) (simp add: reac_tap_stream_count_def reac_tap_ring_at_def)
qed

end
