(* ===== verification/Reac_Netlink.thy ===== *)
theory Reac_Netlink
  imports Reac_Prelude
begin

text \<open>Link messages of the kernel's routing socket, as transport/src/reac_ifscan.c and transport/src/reac_linkmon.c
  read them: both walk the attributes of a message with the same loop.

  A read at an offset outside the received bytes is \<open>None\<close>; lengths that the code keeps in \<^verbatim>\<open>size_t\<close> and
  subtracts are 64-bit words and wrap. The message layout and the constants are those of the kernel's headers
  on a little-endian machine.\<close>

unbundle bit_operations_syntax

section \<open>Reading\<close>

abbreviation (input) RTM_NEWLINK :: u16 where "RTM_NEWLINK \<equiv> 16"
abbreviation (input) RTM_DELLINK :: u16 where "RTM_DELLINK \<equiv> 17"
abbreviation (input) NLMSG_ERROR :: u16 where "NLMSG_ERROR \<equiv> 2"
abbreviation (input) NLMSG_DONE :: u16 where "NLMSG_DONE \<equiv> 3"
abbreviation (input) IFLA_IFNAME :: u16 where "IFLA_IFNAME \<equiv> 3"
abbreviation (input) ARPHRD_ETHER :: u16 where "ARPHRD_ETHER \<equiv> 1"
abbreviation (input) IFF_LOOPBACK :: u32 where "IFF_LOOPBACK \<equiv> 0x8"
abbreviation (input) IFF_LOWER_UP :: u32 where "IFF_LOWER_UP \<equiv> 0x10000"
abbreviation (input) NLMSG_HDRLEN :: nat where "NLMSG_HDRLEN \<equiv> 16"
abbreviation (input) IFINFO_LEN :: nat where "IFINFO_LEN \<equiv> 16"

definition nl_align :: "nat \<Rightarrow> nat" where
  "nl_align n = 4 * ((n + 3) div 4)"

definition nl_u16 :: "bytes \<Rightarrow> nat \<Rightarrow> u16 option" where
  "nl_u16 buf i = (if i + 2 \<le> length buf then Some (u16le (buf ! i) (buf ! (i + 1))) else None)"

definition nl_u32 :: "bytes \<Rightarrow> nat \<Rightarrow> u32 option" where
  "nl_u32 buf i =
     (if i + 4 \<le> length buf
      then Some (ucast (u16le (buf ! i) (buf ! (i + 1))) OR push_bit 16 (ucast (u16le (buf ! (i + 2)) (buf ! (i + 3)))))
      else None)"

definition nl_str :: "bytes \<Rightarrow> string" where
  "nl_str bs = map (\<lambda>b. char_of (unat b)) (takeWhile (\<lambda>b. b \<noteq> 0) bs)"

text \<open>How much is left, as the unsigned difference of two positions.\<close>

definition nl_left :: "nat \<Rightarrow> nat \<Rightarrow> u64" where
  "nl_left e a = of_nat e - of_nat a"

lemma nl_step16:
  assumes "nl_u16 buf a = Some w" and "\<not> w < 4"
  shows "length buf - (a + nl_align (unat w)) < length buf - a"
proof -
  have "w \<noteq> 0" using assms(2) by auto
  then have "0 < unat w" by (simp add: unat_gt_0)
  then have "0 < nl_align (unat w)" by (simp add: nl_align_def)
  moreover have "a < length buf" using assms(1) by (simp add: nl_u16_def split: if_splits)
  ultimately show ?thesis by linarith
qed

lemma nl_step32:
  assumes "nl_u32 buf a = Some w" and "\<not> w < 16"
  shows "length buf - (a + nl_align (unat w)) < length buf - a"
proof -
  have "w \<noteq> 0" using assms(2) by auto
  then have "0 < unat w" by (simp add: unat_gt_0)
  then have "0 < nl_align (unat w)" by (simp add: nl_align_def)
  moreover have "a < length buf" using assms(1) by (simp add: nl_u32_def split: if_splits)
  ultimately show ?thesis by linarith
qed

text \<open>The name among the attributes; the last one that fits wins.\<close>

function link_name :: "bytes \<Rightarrow> nat \<Rightarrow> nat \<Rightarrow> string \<Rightarrow> string option" where
  "link_name buf a e name =
     (if nl_left e a \<ge> 4
      then case nl_u16 buf a of
             None \<Rightarrow> None
           | Some rta_len \<Rightarrow>
               if rta_len < 4 \<or> ucast rta_len > nl_left e a then Some name
               else case nl_u16 buf (a + 2) of
                      None \<Rightarrow> None
                    | Some rta_type \<Rightarrow>
                        let vlen = unat rta_len - 4 in
                        if rta_type = IFLA_IFNAME \<and> vlen > 0 \<and> vlen \<le> 16
                        then if a + 4 + vlen \<le> length buf
                             then link_name buf (a + nl_align (unat rta_len)) e (nl_str (take (vlen - 1) (drop (a + 4) buf)))
                             else None
                        else link_name buf (a + nl_align (unat rta_len)) e name
      else Some name)"
  by pat_completeness auto

termination
  by (relation "measure (\<lambda>(buf, a, e, name). length buf - a)") (auto dest: nl_step16)

declare link_name.simps [simp del]

text \<open>One link message: its kind, the interface and its flags. \<open>Some None\<close> is a message that is not ours.\<close>

record link_msg =
  lm_del :: bool
  lm_name :: string
  lm_type :: u16
  lm_index :: int
  lm_flags :: u32

definition nl_link :: "bytes \<Rightarrow> nat \<Rightarrow> nat \<Rightarrow> u16 \<Rightarrow> link_msg option option" where
  "nl_link buf off l ty =
     (if ty \<noteq> RTM_NEWLINK \<and> ty \<noteq> RTM_DELLINK then Some None
      else if l < NLMSG_HDRLEN + nl_align IFINFO_LEN then Some None
      else let body = off + NLMSG_HDRLEN in
           case link_name buf (body + nl_align IFINFO_LEN) (off + l) '''' of
             None \<Rightarrow> None
           | Some name \<Rightarrow>
               if name = '''' then Some None
               else case (nl_u16 buf (body + 2), nl_u32 buf (body + 4), nl_u32 buf (body + 8)) of
                      (Some t, Some i, Some f) \<Rightarrow>
                        Some (Some \<lparr> lm_del = (ty = RTM_DELLINK), lm_name = name, lm_type = t, lm_index = sint i, lm_flags = f \<rparr>)
                    | _ \<Rightarrow> None)"

text \<open>The walk over the messages of one datagram, up to a terminator when \<open>stops\<close>; the handler folds over the
  link messages. The result says whether a terminator was seen.\<close>

function nl_feed :: "bool \<Rightarrow> (link_msg \<Rightarrow> 's \<Rightarrow> 's) \<Rightarrow> bytes \<Rightarrow> nat \<Rightarrow> bool \<Rightarrow> 's \<Rightarrow> ('s \<times> bool) option" where
  "nl_feed stops f buf off seen s =
     (if nl_left (length buf) off \<ge> of_nat NLMSG_HDRLEN
      then case nl_u32 buf off of
             None \<Rightarrow> None
           | Some l \<Rightarrow>
               if l < of_nat NLMSG_HDRLEN \<or> ucast l > nl_left (length buf) off then Some (s, seen)
               else case nl_u16 buf (off + 4) of
                      None \<Rightarrow> None
                    | Some ty \<Rightarrow>
                        if ty = NLMSG_DONE \<or> ty = NLMSG_ERROR
                        then if stops then Some (s, True) else nl_feed stops f buf (off + nl_align (unat l)) True s
                        else case nl_link buf off (unat l) ty of
                               None \<Rightarrow> None
                             | Some None \<Rightarrow> nl_feed stops f buf (off + nl_align (unat l)) seen s
                             | Some (Some m) \<Rightarrow> nl_feed stops f buf (off + nl_align (unat l)) seen (f m s)
      else Some (s, seen))"
  by pat_completeness auto

termination
  by (relation "measure (\<lambda>(stops, f, buf, off, seen, s). length buf - off)") (auto dest: nl_step32)

declare nl_feed.simps [simp del]

section \<open>Datagrams as the kernel writes them\<close>

text \<open>Attributes are padded to four bytes and a message's length covers the padding.\<close>

definition nl_le16 :: "u16 \<Rightarrow> bytes" where
  "nl_le16 w = [lo8 w, hi8 w]"

definition nl_le32 :: "u32 \<Rightarrow> bytes" where
  "nl_le32 w = nl_le16 (ucast w) @ nl_le16 (ucast (drop_bit 16 w))"

type_synonym nl_attribute = "u16 \<times> bytes"

definition nl_attr :: "nl_attribute \<Rightarrow> bytes" where
  "nl_attr = (\<lambda>(ty, v). nl_le16 (of_nat (4 + length v)) @ nl_le16 ty @ v @ replicate (nl_align (length v) - length v) 0)"

record link_out =
  lo_kind :: u16
  lo_type :: u16
  lo_index :: u32
  lo_flags :: u32
  lo_attrs :: "nl_attribute list"

definition nl_message :: "link_out \<Rightarrow> bytes" where
  "nl_message m =
     (let attrs = concat (map nl_attr (lo_attrs m)) in
      nl_le32 (of_nat (32 + length attrs)) @ nl_le16 (lo_kind m) @ replicate 10 0 @
      [0, 0] @ nl_le16 (lo_type m) @ nl_le32 (lo_index m) @ nl_le32 (lo_flags m) @ replicate 4 0 @ attrs)"

definition nl_pick :: "string \<Rightarrow> nl_attribute \<Rightarrow> string" where
  "nl_pick name = (\<lambda>(ty, v). if ty = 3 \<and> 0 < length v \<and> length v \<le> 16 then nl_str (butlast v) else name)"

definition nl_read :: "link_out \<Rightarrow> link_msg option" where
  "nl_read m =
     (let name = foldl nl_pick '''' (lo_attrs m) in
      if lo_kind m \<noteq> 16 \<and> lo_kind m \<noteq> 17 \<or> name = '''' then None
      else Some \<lparr> lm_del = (lo_kind m = 17), lm_name = name, lm_type = lo_type m, lm_index = sint (lo_index m), lm_flags = lo_flags m \<rparr>)"

definition link_out_ok :: "link_out \<Rightarrow> bool" where
  "link_out_ok m \<longleftrightarrow> lo_kind m \<noteq> 2 \<and> lo_kind m \<noteq> 3 \<and> list_all (\<lambda>(ty, v). length v < 65532) (lo_attrs m)"

lemma nl_lengths [simp]: "length (nl_le16 w) = 2" "length (nl_le32 v) = 4"
  by (simp_all add: nl_le16_def nl_le32_def)

lemma nl_align_ge: "n \<le> nl_align n" by (simp add: nl_align_def)

lemma nl_align_add4: "nl_align (4 + n) = 4 + nl_align n"
proof -
  have "4 + n + 3 = (n + 3) + 4" by simp
  then show ?thesis unfolding nl_align_def by (simp only:) (simp only: div_add_self2 [of 4] zero_neq_numeral not_False_eq_True, simp)
qed

lemma nl_align_dvd: "4 dvd n \<Longrightarrow> nl_align n = n" by (auto simp: nl_align_def elim!: dvdE)

lemma length_nl_attr: "length (nl_attr (ty, v)) = nl_align (4 + length v)"
  using nl_align_ge [of "length v"] by (simp add: nl_attr_def nl_align_add4)

lemma attrs_aligned: "4 dvd length (concat (map nl_attr as))"
  by (induction as) (auto simp: length_nl_attr nl_align_def)

lemma nl_u16_at: "i = length pre \<Longrightarrow> nl_u16 (pre @ nl_le16 w @ post) i = Some w"
  by (simp add: nl_u16_def nl_le16_def nth_append)

lemma nl_u32_at:
  assumes "i = length pre"
  shows "nl_u32 (pre @ nl_le32 w @ post) i = Some w"
proof -
  have "(ucast (ucast w :: u16) :: u32) OR push_bit 16 (ucast (ucast (drop_bit 16 w) :: u16)) = w"
    by (rule bit_word_eqI) (auto simp: bit_simps dest: bit_imp_le_length)
  then show ?thesis using assms by (simp add: nl_u32_def nl_le32_def nl_le16_def nth_append)
qed

lemma nl_left_nat:
  assumes "a \<le> e" and "e < 2 ^ 64"
  shows "unat (nl_left e a) = e - a"
proof -
  have "nl_left e a = of_nat (e - a)" using assms(1) by (simp add: nl_left_def)
  then show ?thesis using assms(2) by (simp only: unat_of_nat) simp
qed

lemma link_name_attrs:
  assumes "list_all (\<lambda>(ty, v). length v < 65532) as" and "length pre + length (concat (map nl_attr as)) + length post < 2 ^ 64"
  shows "link_name (pre @ concat (map nl_attr as) @ post) (length pre) (length pre + length (concat (map nl_attr as))) name
    = Some (foldl nl_pick name as)"
  using assms
proof (induction as arbitrary: pre name)
  case Nil
  then show ?case by (simp add: link_name.simps nl_left_def)
next
  case (Cons x as)
  obtain ty v where x: "x = (ty, v)" by (rule prod.exhaust)
  define rest where "rest = concat (map nl_attr as)"
  define len where "len = (of_nat (4 + length v) :: u16)"
  define pad where "pad = replicate (nl_align (length v) - length v) (0 :: u8)"
  define buf where "buf = pre @ nl_attr x @ rest @ post"
  define e where "e = length pre + length (nl_attr x @ rest)"
  have lv: "length v < 65532" using Cons.prems(1) by (simp add: x)
  have ulen: "unat len = 4 + length v" unfolding len_def unat_of_nat using lv by simp
  have al: "length (nl_attr x) = nl_align (4 + length v)" by (simp add: x length_nl_attr)
  have ge: "4 + length v \<le> nl_align (4 + length v)" by (rule nl_align_ge)
  have e64: "e < 2 ^ 64" using Cons.prems(2) by (simp add: e_def rest_def)
  have left: "unat (nl_left e (length pre)) = nl_align (4 + length v) + length rest"
    using nl_left_nat [of "length pre" e] e64 al by (simp add: e_def)
  have b: "buf = pre @ nl_le16 len @ (nl_le16 ty @ v @ pad @ rest @ post)"
    by (simp add: buf_def x nl_attr_def len_def pad_def)
  have u1: "nl_u16 buf (length pre) = Some len" unfolding b by (rule nl_u16_at) simp
  have b2: "buf = (pre @ nl_le16 len) @ nl_le16 ty @ (v @ pad @ rest @ post)" by (simp add: b)
  have u2: "nl_u16 buf (length pre + 2) = Some ty" unfolding b2 by (rule nl_u16_at) simp
  have val: "take (length v - 1) (drop (length pre + 4) buf) = butlast v" and inb: "length pre + 4 + length v \<le> length buf"
    by (simp_all add: b butlast_conv_take)
  have c1: "nl_left e (length pre) \<ge> 4" using left ge by (simp add: word_le_nat_alt)
  have ul64: "unat (ucast len :: u64) = 4 + length v"
    using ulen lv by (simp add: unsigned_ucast_eq take_bit_nat_eq_self)
  have c2: "\<not> (len < 4 \<or> (ucast len :: u64) > nl_left e (length pre))"
    using left ge ulen ul64 by (simp add: word_less_nat_alt)
  have c3: "unat len - 4 = length v" using ulen by simp
  have nx: "link_name buf (length pre + nl_align (unat len)) e n = Some (foldl nl_pick n as)" for n
  proof -
    have "link_name ((pre @ nl_attr x) @ rest @ post) (length (pre @ nl_attr x)) (length (pre @ nl_attr x) + length rest) n
        = Some (foldl nl_pick n as)"
      unfolding rest_def by (rule Cons.IH) (use Cons.prems in \<open>simp_all add: x\<close>)
    then show ?thesis by (simp add: buf_def e_def al ulen add.assoc)
  qed
  have "link_name buf (length pre) e name = Some (foldl nl_pick (nl_pick name x) as)"
    by (subst link_name.simps)
      (simp only: c1 if_True u1 option.case c2 if_False u2 Let_def c3 val inb nx x nl_pick_def prod.case split: if_split, auto)
  then show ?case by (simp add: buf_def e_def rest_def)
qed

lemma nl_link_message:
  assumes "link_out_ok m" and "length pre + length (nl_message m) + length post < 2 ^ 64"
  shows "nl_link (pre @ nl_message m @ post) (length pre) (32 + length (concat (map nl_attr (lo_attrs m)))) (lo_kind m) = Some (nl_read m)"
proof -
  define as where "as = concat (map nl_attr (lo_attrs m))"
  define buf where "buf = pre @ nl_message m @ post"
  define hd where "hd = nl_le32 (of_nat (32 + length as)) @ nl_le16 (lo_kind m) @ replicate 10 0"
  define info where "info = [0, 0] @ nl_le16 (lo_type m) @ nl_le32 (lo_index m) @ nl_le32 (lo_flags m) @ replicate 4 (0 :: u8)"
  have msg: "nl_message m = hd @ info @ as" by (simp add: nl_message_def Let_def hd_def info_def as_def)
  have lens: "length hd = 16" "length info = 16" by (simp_all add: hd_def info_def)
  have b: "buf = (pre @ hd @ info) @ as @ post" by (simp add: buf_def msg)
  have name: "link_name buf (length pre + 32) (length pre + (32 + length as)) '''' = Some (foldl nl_pick '''' (lo_attrs m))"
    using link_name_attrs [of "lo_attrs m" "pre @ hd @ info" post "''''"] assms lens unfolding b as_def
    by (simp add: link_out_ok_def msg as_def add.assoc)
  have t: "nl_u16 buf (length pre + 16 + 2) = Some (lo_type m)"
  proof -
    have "buf = (pre @ hd @ [0, 0]) @ nl_le16 (lo_type m) @ (nl_le32 (lo_index m) @ nl_le32 (lo_flags m) @ replicate 4 0 @ as @ post)"
      by (simp add: b info_def)
    then show ?thesis by (simp only:) (rule nl_u16_at, simp add: lens)
  qed
  have i: "nl_u32 buf (length pre + 16 + 4) = Some (lo_index m)"
  proof -
    have "buf = (pre @ hd @ [0, 0] @ nl_le16 (lo_type m)) @ nl_le32 (lo_index m) @ (nl_le32 (lo_flags m) @ replicate 4 0 @ as @ post)"
      by (simp add: b info_def)
    then show ?thesis by (simp only:) (rule nl_u32_at, simp add: lens)
  qed
  have f: "nl_u32 buf (length pre + 16 + 8) = Some (lo_flags m)"
  proof -
    have "buf = (pre @ hd @ [0, 0] @ nl_le16 (lo_type m) @ nl_le32 (lo_index m)) @ nl_le32 (lo_flags m) @ (replicate 4 0 @ as @ post)"
      by (simp add: b info_def)
    then show ?thesis by (simp only:) (rule nl_u32_at, simp add: lens)
  qed
  have "nl_align 16 = 16" by (simp add: nl_align_def)
  then have "nl_link buf (length pre) (32 + length as) (lo_kind m) = Some (nl_read m)"
    using name t i f by (simp add: nl_link_def nl_read_def Let_def add.assoc)
  then show ?thesis by (simp only: buf_def as_def)
qed

text \<open>A datagram of padded messages is read to its end, without a read outside it, and each link message reaches
  the handler once, in order.\<close>

definition handle :: "(link_msg \<Rightarrow> 's \<Rightarrow> 's) \<Rightarrow> 's \<Rightarrow> link_out \<Rightarrow> 's" where
  "handle f s m = (case nl_read m of None \<Rightarrow> s | Some x \<Rightarrow> f x s)"

lemma feed_messages:
  assumes "list_all link_out_ok ms" and "length pre + length (concat (map nl_message ms)) < 2 ^ 32"
  shows "nl_feed stops f (pre @ concat (map nl_message ms)) (length pre) seen s = Some (foldl (handle f) s ms, seen)"
  using assms
proof (induction ms arbitrary: pre s)
  case Nil
  then show ?case by (simp add: nl_feed.simps nl_left_def)
next
  case (Cons m ms)
  define as where "as = concat (map nl_attr (lo_attrs m))"
  define l where "l = (of_nat (32 + length as) :: u32)"
  define rest where "rest = concat (map nl_message ms)"
  define buf where "buf = pre @ nl_message m @ rest"
  define tail where "tail = replicate 10 0 @ [0, 0] @ nl_le16 (lo_type m) @ nl_le32 (lo_index m) @ nl_le32 (lo_flags m) @ replicate 4 0 @ as"
  have msg: "nl_message m = nl_le32 l @ nl_le16 (lo_kind m) @ tail" by (simp add: nl_message_def Let_def l_def as_def tail_def)
  have lm: "length (nl_message m) = 32 + length as" by (simp add: msg tail_def)
  have small: "length pre + (32 + length as) + length rest < 2 ^ 32" using Cons.prems(2) lm by (simp add: rest_def)
  have ul: "unat l = 32 + length as" unfolding l_def unat_of_nat using small by simp
  have lb: "length buf = length pre + (32 + length as) + length rest" by (simp add: buf_def lm)
  have left: "unat (nl_left (length buf) (length pre)) = 32 + length as + length rest"
    using nl_left_nat [of "length pre" "length buf"] small lb by simp
  have u1: "nl_u32 buf (length pre) = Some l" unfolding buf_def msg by (simp only: append_assoc) (rule nl_u32_at, rule refl)
  have u2: "nl_u16 buf (length pre + 4) = Some (lo_kind m)"
  proof -
    have "buf = (pre @ nl_le32 l) @ nl_le16 (lo_kind m) @ (tail @ rest)" by (simp add: buf_def msg)
    then show ?thesis by (simp only:) (rule nl_u16_at, simp)
  qed
  have ok: "link_out_ok m" using Cons.prems(1) by simp
  have lk: "nl_link buf (length pre) (unat l) (lo_kind m) = Some (nl_read m)"
    unfolding ul as_def buf_def by (rule nl_link_message [OF ok]) (use small lm in simp)
  have c1: "nl_left (length buf) (length pre) \<ge> of_nat 16" using left by (simp add: word_le_nat_alt)
  have "unat (ucast l :: u64) = 32 + length as" using ul small by (simp add: unsigned_ucast_eq take_bit_nat_eq_self)
  then have c2: "\<not> (l < of_nat 16 \<or> (ucast l :: u64) > nl_left (length buf) (length pre))"
    using left ul by (simp add: word_less_nat_alt)
  have c3: "\<not> (lo_kind m = 3 \<or> lo_kind m = 2)" using ok by (simp add: link_out_ok_def)
  have al: "nl_align (unat l) = length (nl_message m)"
    unfolding ul lm by (rule nl_align_dvd) (simp add: as_def attrs_aligned)
  have nx: "nl_feed stops f buf (length pre + nl_align (unat l)) seen t = Some (foldl (handle f) t ms, seen)" for t
    using Cons.IH [of "pre @ nl_message m" t] Cons.prems unfolding al buf_def rest_def by simp
  have "nl_feed stops f buf (length pre) seen s = Some (foldl (handle f) (handle f s m) ms, seen)"
    by (subst nl_feed.simps)
      (simp only: c1 if_True u1 option.case c2 if_False u2 c3 lk nx handle_def split: option.split, simp)
  then show ?case by (simp add: buf_def rest_def)
qed

end
