(* ===== verification/Reac_Ifscan.thy ===== *)
theory Reac_Ifscan
  imports Reac_Netlink
begin

text \<open>The interface scan (transport/src/reac_ifscan.c): the table of wired interfaces, the events it raises for its
  client, and the kernel messages that feed it.

  The table has sixteen slots, the event ring sixty-four. Whether a path exists and the list of allowed wireless
  interfaces are arguments. A datagram is a byte list; what a read outside it would give is \<open>None\<close>.\<close>

unbundle bit_operations_syntax

section \<open>State\<close>

abbreviation (input) REAC_IFSCAN_MAX :: nat where "REAC_IFSCAN_MAX \<equiv> 16"
abbreviation (input) REAC_IFSCAN_EVENTS :: nat where "REAC_IFSCAN_EVENTS \<equiv> 64"
abbreviation (input) REAC_IFSCAN_DOWN_HOLD_NS :: u64 where "REAC_IFSCAN_DOWN_HOLD_NS \<equiv> 3000000000"
abbreviation (input) REAC_IFSCAN_RETRY_NS :: u64 where "REAC_IFSCAN_RETRY_NS \<equiv> 5000000000"
abbreviation (input) IF_NAMESIZE :: nat where "IF_NAMESIZE \<equiv> 16"

datatype reac_ifscan_state = REAC_IFSCAN_ABSENT | REAC_IFSCAN_DOWN | REAC_IFSCAN_LINKED | REAC_IFSCAN_SEGMENT | REAC_IFSCAN_HOLD

fun reac_ifscan_state_name :: "reac_ifscan_state \<Rightarrow> string" where
  "reac_ifscan_state_name REAC_IFSCAN_ABSENT = ''absent''"
| "reac_ifscan_state_name REAC_IFSCAN_DOWN = ''down''"
| "reac_ifscan_state_name REAC_IFSCAN_LINKED = ''linked''"
| "reac_ifscan_state_name REAC_IFSCAN_SEGMENT = ''segment''"
| "reac_ifscan_state_name REAC_IFSCAN_HOLD = ''hold''"

datatype reac_ifscan_verb =
    REAC_IFSCAN_NONE | REAC_IFSCAN_LISTEN | REAC_IFSCAN_UNLISTEN | REAC_IFSCAN_SERVE | REAC_IFSCAN_DROP | REAC_IFSCAN_KEPT

fun reac_ifscan_verb_name :: "reac_ifscan_verb \<Rightarrow> string" where
  "reac_ifscan_verb_name REAC_IFSCAN_NONE = ''none''"
| "reac_ifscan_verb_name REAC_IFSCAN_LISTEN = ''listen''"
| "reac_ifscan_verb_name REAC_IFSCAN_UNLISTEN = ''unlisten''"
| "reac_ifscan_verb_name REAC_IFSCAN_SERVE = ''serve''"
| "reac_ifscan_verb_name REAC_IFSCAN_DROP = ''drop''"
| "reac_ifscan_verb_name REAC_IFSCAN_KEPT = ''kept''"

record reac_ifscan_entry =
  ie_name :: string
  ie_ifindex :: int
  ie_state :: reac_ifscan_state
  ie_hold_until_ns :: u64
  ie_retry_after_ns :: u64
  ie_flaps :: u32

record reac_ifscan_event =
  iv_verb :: reac_ifscan_verb
  iv_name :: string

record reac_ifscan =
  is_ifs :: "reac_ifscan_entry list"
  is_ev :: "reac_ifscan_event list"
  is_ev_head :: nat
  is_ev_tail :: nat
  is_msgs :: u64
  is_overruns :: u64
  is_unbounded :: u64
  is_dropped_ev :: u64

definition entry_zero :: reac_ifscan_entry where
  "entry_zero = \<lparr> ie_name = '''', ie_ifindex = 0, ie_state = REAC_IFSCAN_ABSENT, ie_hold_until_ns = 0,
     ie_retry_after_ns = 0, ie_flaps = 0 \<rparr>"

definition reac_ifscan_init :: reac_ifscan where
  "reac_ifscan_init = \<lparr> is_ifs = replicate REAC_IFSCAN_MAX entry_zero,
     is_ev = replicate REAC_IFSCAN_EVENTS \<lparr> iv_verb = REAC_IFSCAN_NONE, iv_name = '''' \<rparr>, is_ev_head = 0, is_ev_tail = 0,
     is_msgs = 0, is_overruns = 0, is_unbounded = 0, is_dropped_ev = 0 \<rparr>"

section \<open>Events\<close>

definition ifscan_emit :: "reac_ifscan_verb \<Rightarrow> string \<Rightarrow> reac_ifscan \<Rightarrow> reac_ifscan" where
  "ifscan_emit v name s =
     (let nxt = (is_ev_tail s + 1) mod REAC_IFSCAN_EVENTS in
      if nxt = is_ev_head s then s\<lparr> is_dropped_ev := is_dropped_ev s + 1 \<rparr>
      else s\<lparr> is_ev := (is_ev s)[is_ev_tail s := \<lparr> iv_verb = v, iv_name = take (IF_NAMESIZE - 1) name \<rparr>], is_ev_tail := nxt \<rparr>)"

definition reac_ifscan_next :: "reac_ifscan \<Rightarrow> reac_ifscan \<times> reac_ifscan_event option" where
  "reac_ifscan_next s =
     (if is_ev_head s = is_ev_tail s then (s, None)
      else (s\<lparr> is_ev_head := (is_ev_head s + 1) mod REAC_IFSCAN_EVENTS \<rparr>, Some (is_ev s ! is_ev_head s)))"

section \<open>The table\<close>

definition ifscan_find :: "reac_ifscan \<Rightarrow> string \<Rightarrow> nat option" where
  "ifscan_find s name = find_index (\<lambda>e. ie_state e \<noteq> REAC_IFSCAN_ABSENT \<and> ie_name e = name) (is_ifs s)"

definition reac_ifscan_find :: "reac_ifscan \<Rightarrow> string \<Rightarrow> reac_ifscan_entry option" where
  "reac_ifscan_find s name = List.find (\<lambda>e. ie_state e \<noteq> REAC_IFSCAN_ABSENT \<and> ie_name e = name) (is_ifs s)"

definition reac_ifscan_count :: "reac_ifscan \<Rightarrow> reac_ifscan_state \<Rightarrow> int" where
  "reac_ifscan_count s st = int (length (filter (\<lambda>e. ie_state e = st) (is_ifs s)))"

definition ifscan_set :: "nat \<Rightarrow> reac_ifscan_entry \<Rightarrow> reac_ifscan \<Rightarrow> reac_ifscan" where
  "ifscan_set i e s = s\<lparr> is_ifs := (is_ifs s)[i := e] \<rparr>"

definition ifscan_leave :: "nat \<Rightarrow> reac_ifscan \<Rightarrow> reac_ifscan" where
  "ifscan_leave i s =
     (let e = is_ifs s ! i;
          s = (case ie_state e of
                 REAC_IFSCAN_LINKED \<Rightarrow> ifscan_emit REAC_IFSCAN_UNLISTEN (ie_name e) s
               | REAC_IFSCAN_SEGMENT \<Rightarrow> ifscan_emit REAC_IFSCAN_DROP (ie_name e) s
               | REAC_IFSCAN_HOLD \<Rightarrow> ifscan_emit REAC_IFSCAN_DROP (ie_name e) s
               | _ \<Rightarrow> s)
      in ifscan_set i entry_zero s)"

text \<open>The link edge of an entry.\<close>

definition ifscan_edge :: "nat \<Rightarrow> bool \<Rightarrow> u64 \<Rightarrow> reac_ifscan \<Rightarrow> reac_ifscan" where
  "ifscan_edge i lower_up now s =
     (let e = is_ifs s ! i in
      case ie_state e of
        REAC_IFSCAN_DOWN \<Rightarrow>
          if lower_up
          then ifscan_emit REAC_IFSCAN_LISTEN (ie_name e)
                 (ifscan_set i (e\<lparr> ie_state := REAC_IFSCAN_LINKED, ie_retry_after_ns := 0 \<rparr>) s)
          else s
      | REAC_IFSCAN_LINKED \<Rightarrow>
          if \<not> lower_up
          then ifscan_emit REAC_IFSCAN_UNLISTEN (ie_name e) (ifscan_set i (e\<lparr> ie_state := REAC_IFSCAN_DOWN \<rparr>) s)
          else s
      | REAC_IFSCAN_SEGMENT \<Rightarrow>
          if \<not> lower_up
          then ifscan_set i (e\<lparr> ie_state := REAC_IFSCAN_HOLD, ie_hold_until_ns := now + REAC_IFSCAN_DOWN_HOLD_NS \<rparr>) s
          else s
      | REAC_IFSCAN_HOLD \<Rightarrow>
          if lower_up
          then ifscan_emit REAC_IFSCAN_KEPT (ie_name e)
                 (ifscan_set i (e\<lparr> ie_state := REAC_IFSCAN_SEGMENT, ie_hold_until_ns := 0, ie_flaps := ie_flaps e + 1 \<rparr>) s)
          else s
      | REAC_IFSCAN_ABSENT \<Rightarrow> s)"

definition reac_ifscan_observe :: "string \<Rightarrow> int \<Rightarrow> bool \<Rightarrow> bool \<Rightarrow> u64 \<Rightarrow> reac_ifscan \<Rightarrow> reac_ifscan" where
  "reac_ifscan_observe name ifindex ether lower_up now s =
     (if name = '''' \<or> length name \<ge> IF_NAMESIZE then s
      else let found = ifscan_find s name in
      if \<not> ether then (case found of Some i \<Rightarrow> ifscan_leave i s | None \<Rightarrow> s)
      else let (s, found) = (case found of
             Some i \<Rightarrow> if ie_ifindex (is_ifs s ! i) \<noteq> ifindex then (ifscan_leave i s, None) else (s, Some i)
           | None \<Rightarrow> (s, None))
      in case found of
           Some i \<Rightarrow> ifscan_edge i lower_up now s
         | None \<Rightarrow>
             (case find_index (\<lambda>e. ie_state e = REAC_IFSCAN_ABSENT) (is_ifs s) of
                None \<Rightarrow> s\<lparr> is_unbounded := is_unbounded s + 1 \<rparr>
              | Some i \<Rightarrow>
                  ifscan_edge i lower_up now
                    (ifscan_set i (entry_zero\<lparr> ie_name := name, ie_ifindex := ifindex, ie_state := REAC_IFSCAN_DOWN \<rparr>) s)))"

definition reac_ifscan_gone :: "string \<Rightarrow> int \<Rightarrow> reac_ifscan \<Rightarrow> reac_ifscan" where
  "reac_ifscan_gone name ifindex s =
     (if name = '''' then s
      else case ifscan_find s name of
             None \<Rightarrow> s
           | Some i \<Rightarrow> if ifindex \<noteq> 0 \<and> ie_ifindex (is_ifs s ! i) \<noteq> ifindex then s else ifscan_leave i s)"

definition reac_ifscan_heard :: "string \<Rightarrow> u64 \<Rightarrow> reac_ifscan \<Rightarrow> reac_ifscan" where
  "reac_ifscan_heard name now s =
     (case ifscan_find s name of
        None \<Rightarrow> s
      | Some i \<Rightarrow>
          let e = is_ifs s ! i in
          if ie_state e \<noteq> REAC_IFSCAN_LINKED then s
          else if ie_retry_after_ns e \<noteq> 0 \<and> now < ie_retry_after_ns e then s
          else ifscan_emit REAC_IFSCAN_SERVE (ie_name e)
                 (ifscan_set i (e\<lparr> ie_state := REAC_IFSCAN_SEGMENT, ie_retry_after_ns := 0 \<rparr>) s))"

definition reac_ifscan_serve_failed :: "string \<Rightarrow> u64 \<Rightarrow> reac_ifscan \<Rightarrow> reac_ifscan" where
  "reac_ifscan_serve_failed name now s =
     (case ifscan_find s name of
        None \<Rightarrow> s
      | Some i \<Rightarrow>
          let e = is_ifs s ! i in
          if ie_state e \<noteq> REAC_IFSCAN_SEGMENT \<and> ie_state e \<noteq> REAC_IFSCAN_HOLD then s
          else let had_link = (ie_state e = REAC_IFSCAN_SEGMENT);
                   s = ifscan_set i (e\<lparr> ie_state := (if had_link then REAC_IFSCAN_LINKED else REAC_IFSCAN_DOWN),
                         ie_hold_until_ns := 0, ie_retry_after_ns := now + REAC_IFSCAN_RETRY_NS \<rparr>) s
               in if had_link then ifscan_emit REAC_IFSCAN_LISTEN (ie_name e) s else s)"

definition ifscan_expire :: "u64 \<Rightarrow> nat \<Rightarrow> reac_ifscan \<Rightarrow> reac_ifscan" where
  "ifscan_expire now i s =
     (let e = is_ifs s ! i in
      if ie_state e \<noteq> REAC_IFSCAN_HOLD \<or> now < ie_hold_until_ns e then s
      else ifscan_emit REAC_IFSCAN_DROP (ie_name e)
             (ifscan_set i (e\<lparr> ie_state := REAC_IFSCAN_DOWN, ie_hold_until_ns := 0 \<rparr>) s))"

definition reac_ifscan_tick :: "u64 \<Rightarrow> reac_ifscan \<Rightarrow> reac_ifscan" where
  "reac_ifscan_tick now s = fold (ifscan_expire now) [0..<REAC_IFSCAN_MAX] s"

section \<open>Wireless interfaces\<close>

abbreviation (input) IFSCAN_PATH :: nat where "IFSCAN_PATH \<equiv> 512"

definition ifscan_path_ok :: "(string \<Rightarrow> bool) \<Rightarrow> string \<Rightarrow> bool" where
  "ifscan_path_ok stat_ok path \<longleftrightarrow> path \<noteq> '''' \<and> length path < IFSCAN_PATH \<and> stat_ok path"

definition reac_ifscan_is_wireless :: "(string \<Rightarrow> bool) \<Rightarrow> string option \<Rightarrow> string \<Rightarrow> bool" where
  "reac_ifscan_is_wireless stat_ok root ifname =
     (if ifname = '''' then False
      else let root = (case root of None \<Rightarrow> ''/sys/class/net'' | Some r \<Rightarrow> if r = '''' then ''/sys/class/net'' else r)
           in ifscan_path_ok stat_ok (root @ ''/'' @ ifname @ ''/wireless'') \<or>
              ifscan_path_ok stat_ok (root @ ''/'' @ ifname @ ''/phy80211''))"

text \<open>The loop over the comma-separated names.\<close>

function allow_loop :: "string \<Rightarrow> string \<Rightarrow> bool" where
  "allow_loop p ifname =
     (if p = '''' then False
      else let seg = takeWhile (\<lambda>c. c \<noteq> CHR '','') p in
           if seg = ifname then True
           else let p = drop (length seg) p
                in allow_loop (case p of c # cs \<Rightarrow> if c = CHR '','' then cs else p | [] \<Rightarrow> []) ifname)"
  by pat_completeness auto

termination
proof (relation "measure (\<lambda>(p, ifname). length p)", goal_cases)
  case (2 p ifname x xa)
  then show ?case by (cases p) (auto split: list.split dest!: arg_cong [where f = length])
qed simp

declare allow_loop.simps [simp del]

definition reac_ifscan_wireless_allowed :: "string option \<Rightarrow> string \<Rightarrow> bool" where
  "reac_ifscan_wireless_allowed allowlist ifname =
     (case allowlist of
        None \<Rightarrow> False
      | Some a \<Rightarrow> if a = '''' \<or> ifname = '''' then False else if a = ''*'' then True else allow_loop a ifname)"

section \<open>Messages\<close>

definition ifscan_msg :: "(string \<Rightarrow> bool) \<Rightarrow> string option \<Rightarrow> u64 \<Rightarrow> link_msg \<Rightarrow> reac_ifscan \<Rightarrow> reac_ifscan" where
  "ifscan_msg stat_ok allow now m s0 =
     (let s = s0\<lparr> is_msgs := is_msgs s0 + 1 \<rparr> in
      if lm_del m then reac_ifscan_gone (lm_name m) (lm_index m) s
      else let wireless_ok = (\<not> reac_ifscan_is_wireless stat_ok None (lm_name m) \<or>
                               reac_ifscan_wireless_allowed allow (lm_name m));
               ether = (lm_type m = ARPHRD_ETHER \<and> lm_flags m AND IFF_LOOPBACK = 0 \<and> wireless_ok)
           in reac_ifscan_observe (lm_name m) (lm_index m) ether (lm_flags m AND IFF_LOWER_UP \<noteq> 0) now s)"

definition reac_ifscan_feed ::
    "(string \<Rightarrow> bool) \<Rightarrow> string option \<Rightarrow> u64 \<Rightarrow> bytes \<Rightarrow> reac_ifscan \<Rightarrow> (reac_ifscan \<times> bool) option" where
  "reac_ifscan_feed stat_ok allow now buf s = nl_feed True (ifscan_msg stat_ok allow now) buf 0 False s"

text \<open>A dump: at most 64 datagrams, up to the one with the terminator.\<close>

fun ifscan_dump ::
    "(string \<Rightarrow> bool) \<Rightarrow> string option \<Rightarrow> u64 \<Rightarrow> nat \<Rightarrow> bytes list \<Rightarrow> reac_ifscan \<Rightarrow> (reac_ifscan \<times> bool) option" where
  "ifscan_dump stat_ok allow now (Suc n) (buf # bufs) s =
     (case reac_ifscan_feed stat_ok allow now buf s of
        None \<Rightarrow> None
      | Some (s, done) \<Rightarrow> if done then Some (s, True) else ifscan_dump stat_ok allow now n bufs s)"
| "ifscan_dump stat_ok allow now _ _ s = Some (s, False)"

definition reac_ifscan_resync ::
    "(string \<Rightarrow> bool) \<Rightarrow> string option \<Rightarrow> u64 \<Rightarrow> bool \<Rightarrow> bytes list \<Rightarrow> reac_ifscan \<Rightarrow> (reac_ifscan \<times> int) option" where
  "reac_ifscan_resync stat_ok allow now sent answer s =
     (if \<not> sent then Some (s, - 1)
      else map_option (\<lambda>(s, done). (s, if done then 0 else - 1)) (ifscan_dump stat_ok allow now 64 answer s))"

text \<open>The socket has data, or it has lost some and a new dump is asked for.\<close>

datatype ifscan_recv = Scan_Recv bytes | Scan_Overrun bool "bytes list"

fun reac_ifscan_drain ::
    "(string \<Rightarrow> bool) \<Rightarrow> string option \<Rightarrow> u64 \<Rightarrow> ifscan_recv list \<Rightarrow> reac_ifscan \<Rightarrow> reac_ifscan option" where
  "reac_ifscan_drain stat_ok allow now [] s = Some s"
| "reac_ifscan_drain stat_ok allow now (Scan_Recv buf # rs) s =
     (case reac_ifscan_feed stat_ok allow now buf s of
        None \<Rightarrow> None | Some (s, _) \<Rightarrow> reac_ifscan_drain stat_ok allow now rs s)"
| "reac_ifscan_drain stat_ok allow now (Scan_Overrun sent answer # rs) s =
     (case reac_ifscan_resync stat_ok allow now sent answer (s\<lparr> is_overruns := is_overruns s + 1 \<rparr>) of
        None \<Rightarrow> None | Some (s, _) \<Rightarrow> reac_ifscan_drain stat_ok allow now rs s)"

text \<open>Opening fails without a socket, and when the first dump does not end.\<close>

definition reac_ifscan_open ::
    "(string \<Rightarrow> bool) \<Rightarrow> string option \<Rightarrow> u64 \<Rightarrow> bool \<Rightarrow> bool \<Rightarrow> bytes list \<Rightarrow> reac_ifscan option option" where
  "reac_ifscan_open stat_ok allow now socket_ok sent answer =
     (if \<not> socket_ok then Some None
      else map_option (\<lambda>(s, rc). if rc \<noteq> 0 then None else Some s)
             (reac_ifscan_resync stat_ok allow now sent answer reac_ifscan_init))"

section \<open>The event ring as a list\<close>

text \<open>A ring of \<open>N\<close> slots that keeps one of them free.\<close>

definition ring_items :: "nat \<Rightarrow> 'e list \<Rightarrow> nat \<Rightarrow> nat \<Rightarrow> 'e list" where
  "ring_items N buf h t = map (\<lambda>k. buf ! ((h + k) mod N)) [0..<(t + (N - h)) mod N]"

lemma ring_items_count:
  assumes "h < N" and "t < N"
  obtains n where "n < N" "(t + (N - h)) mod N = n" "t = (h + n) mod N" "(t + 1) mod N = h \<longleftrightarrow> Suc n = N"
proof (cases "h \<le> t")
  case True
  show ?thesis
  proof (rule that [of "t - h"])
    show "(t + (N - h)) mod N = t - h" using assms True by (simp add: mod_if)
    show "(t + 1) mod N = h \<longleftrightarrow> Suc (t - h) = N" using assms True by (cases "Suc t = N") (auto simp: mod_if)
  qed (use assms True in auto)
next
  case False
  show ?thesis
  proof (rule that [of "t + (N - h)"])
    show "(t + 1) mod N = h \<longleftrightarrow> Suc (t + (N - h)) = N" using assms False by (auto simp: mod_if)
  qed (use assms False in \<open>auto simp: mod_if\<close>)
qed

lemma ring_items_put:
  assumes "h < N" and "t < N" and "length buf = N" and "(t + 1) mod N \<noteq> h"
  shows "ring_items N (buf[t := x]) h ((t + 1) mod N) = ring_items N buf h t @ [x]"
proof -
  obtain n where n: "n < N" "(t + (N - h)) mod N = n" "t = (h + n) mod N" "(t + 1) mod N = h \<longleftrightarrow> Suc n = N"
    by (rule ring_items_count [OF assms(1,2)])
  have lt: "Suc n < N" using n(1,4) assms(4) by auto
  have "((t + 1) mod N + (N - h)) mod N = (t + (N - h) + 1) mod N"
    by (simp add: mod_simps)
  also have "\<dots> = (n + 1) mod N" using n(2) by (metis mod_add_left_eq)
  finally have c: "((t + 1) mod N + (N - h)) mod N = Suc n" using lt by simp
  have ne: "(h + k) mod N \<noteq> t" if "k < n" for k
  proof
    assume "(h + k) mod N = t"
    then have "(h + n) mod N = (h + k) mod N" by (simp only: n(3))
    then have "N dvd n - k" using that by (simp add: mod_eq_dvd_iff_nat)
    then show False using that n(1) by (auto dest: dvd_imp_le)
  qed
  have "ring_items N (buf[t := x]) h ((t + 1) mod N) = map (\<lambda>k. buf[t := x] ! ((h + k) mod N)) [0..<n] @ [buf[t := x] ! t]"
    unfolding ring_items_def c using n(3) by simp
  also have "map (\<lambda>k. buf[t := x] ! ((h + k) mod N)) [0..<n] = ring_items N buf h t"
    unfolding ring_items_def n(2) using ne by (intro map_cong refl nth_list_update_neq) (metis atLeastLessThan_iff set_upt)
  finally show ?thesis using assms(2,3) by simp
qed

lemma ring_items_take:
  assumes "h < N" and "t < N" and "h \<noteq> t"
  shows "ring_items N buf h t = buf ! h # ring_items N buf ((h + 1) mod N) t"
proof -
  obtain n where n: "n < N" "(t + (N - h)) mod N = n" "t = (h + n) mod N" by (rule ring_items_count [OF assms(1,2)])
  have "n \<noteq> 0" using n(3) assms by (cases n) auto
  then obtain m where m: "n = Suc m" by (cases n) auto
  have "(h + 1) mod N < N" using assms(1) by simp
  then obtain k where k: "k < N" "(t + (N - (h + 1) mod N)) mod N = k" "t = ((h + 1) mod N + k) mod N"
    by (rule ring_items_count [OF _ assms(2)])
  have "(h + Suc k) mod N = (h + Suc m) mod N" using k(3) n(3) m by (simp add: mod_simps)
  then have "(h + Suc k) mod N = (h + Suc m) mod N" .
  then have km: "k = m"
  proof (cases "k \<le> m")
    case True
    then have "N dvd m - k" using \<open>(h + Suc k) mod N = (h + Suc m) mod N\<close> [symmetric] by (simp add: mod_eq_dvd_iff_nat)
    then show ?thesis using True n(1) m by (auto dest: dvd_imp_le)
  next
    case False
    then have "N dvd k - m" using \<open>(h + Suc k) mod N = (h + Suc m) mod N\<close> by (simp add: mod_eq_dvd_iff_nat)
    then show ?thesis using False k(1) by (auto dest: dvd_imp_le)
  qed
  have "map (\<lambda>k. buf ! ((h + k) mod N)) [0..<Suc m] = buf ! h # map (\<lambda>k. buf ! ((h + Suc k) mod N)) [0..<m]"
    using assms(1) by (simp add: upt_conv_Cons map_Suc_upt [symmetric] o_def del: upt_Suc)
  then show ?thesis unfolding ring_items_def n(2) k(2) m km by (simp add: mod_simps)
qed

definition ifscan_pending :: "reac_ifscan \<Rightarrow> reac_ifscan_event list" where
  "ifscan_pending s = ring_items 64 (is_ev s) (is_ev_head s) (is_ev_tail s)"

section \<open>What the client makes of the events\<close>

datatype client = Idle | Listening | Serving

datatype client_log = Told reac_ifscan_event | Failed string

text \<open>An event out of order is refused.\<close>

fun client_step :: "client_log \<Rightarrow> (string \<Rightarrow> client) \<Rightarrow> (string \<Rightarrow> client) option" where
  "client_step (Told ev) v =
     (let n = iv_name ev in
      case (iv_verb ev, v n) of
        (REAC_IFSCAN_LISTEN, Idle) \<Rightarrow> Some (v(n := Listening))
      | (REAC_IFSCAN_UNLISTEN, Listening) \<Rightarrow> Some (v(n := Idle))
      | (REAC_IFSCAN_SERVE, Listening) \<Rightarrow> Some (v(n := Serving))
      | (REAC_IFSCAN_DROP, Serving) \<Rightarrow> Some (v(n := Idle))
      | (REAC_IFSCAN_KEPT, Serving) \<Rightarrow> Some v
      | _ \<Rightarrow> None)"
| "client_step (Failed n) v = Some (if v n = Serving then v(n := Idle) else v)"

fun client_replay :: "client_log list \<Rightarrow> (string \<Rightarrow> client) \<Rightarrow> (string \<Rightarrow> client) option" where
  "client_replay [] v = Some v"
| "client_replay (x # xs) v = Option.bind (client_step x v) (client_replay xs)"

lemma replay_append: "client_replay (xs @ ys) v = Option.bind (client_replay xs v) (client_replay ys)"
  by (induction xs arbitrary: v) (auto split: Option.bind_splits)

definition entry_on :: "reac_ifscan_entry \<Rightarrow> bool" where
  "entry_on e \<longleftrightarrow> ie_state e \<noteq> REAC_IFSCAN_ABSENT"

definition view_of :: "reac_ifscan_entry \<Rightarrow> client" where
  "view_of e = (case ie_state e of REAC_IFSCAN_LINKED \<Rightarrow> Listening | REAC_IFSCAN_SEGMENT \<Rightarrow> Serving | REAC_IFSCAN_HOLD \<Rightarrow> Serving | _ \<Rightarrow> Idle)"

definition table_view :: "reac_ifscan \<Rightarrow> string \<Rightarrow> client" where
  "table_view s n = (case ifscan_find s n of None \<Rightarrow> Idle | Some i \<Rightarrow> view_of (is_ifs s ! i))"

definition names_ok :: "reac_ifscan_entry list \<Rightarrow> bool" where
  "names_ok es \<longleftrightarrow> length es = 16 \<and> (\<forall>i < 16. entry_on (es ! i) \<longrightarrow> length (ie_name (es ! i)) \<le> 15) \<and>
     (\<forall>i < 16. \<forall>j < 16. entry_on (es ! i) \<longrightarrow> entry_on (es ! j) \<longrightarrow> ie_name (es ! i) = ie_name (es ! j) \<longrightarrow> i = j)"

definition ifscan_inv :: "reac_ifscan \<Rightarrow> bool" where
  "ifscan_inv s \<longleftrightarrow> names_ok (is_ifs s) \<and> length (is_ev s) = 64 \<and> is_ev_head s < 64 \<and> is_ev_tail s < 64"

lemma find_Some:
  assumes "names_ok (is_ifs s)"
  shows "ifscan_find s n = Some i \<longleftrightarrow> i < 16 \<and> entry_on (is_ifs s ! i) \<and> ie_name (is_ifs s ! i) = n"
proof
  assume "ifscan_find s n = Some i"
  then show "i < 16 \<and> entry_on (is_ifs s ! i) \<and> ie_name (is_ifs s ! i) = n"
    using assms by (auto simp: ifscan_find_def entry_on_def names_ok_def dest!: find_index_SomeD)
next
  assume i: "i < 16 \<and> entry_on (is_ifs s ! i) \<and> ie_name (is_ifs s ! i) = n"
  show "ifscan_find s n = Some i" unfolding ifscan_find_def
  proof (rule find_index_SomeI)
    fix j assume "j < i"
    then show "\<not> (ie_state (is_ifs s ! j) \<noteq> REAC_IFSCAN_ABSENT \<and> ie_name (is_ifs s ! j) = n)"
      using assms i unfolding names_ok_def entry_on_def by (metis less_trans less_irrefl)
  qed (use assms i in \<open>auto simp: names_ok_def entry_on_def\<close>)
qed

lemma find_None:
  "names_ok (is_ifs s) \<Longrightarrow> ifscan_find s n = None \<longleftrightarrow> (\<forall>i < 16. entry_on (is_ifs s ! i) \<longrightarrow> ie_name (is_ifs s ! i) \<noteq> n)"
  using find_Some [of s n] by (metis not_Some_eq)

lemma view_on:
  "names_ok (is_ifs s) \<Longrightarrow> i < 16 \<Longrightarrow> entry_on (is_ifs s ! i) \<Longrightarrow> table_view s (ie_name (is_ifs s ! i)) = view_of (is_ifs s ! i)"
  using find_Some [of s "ie_name (is_ifs s ! i)" i] by (simp add: table_view_def)

lemma view_off:
  "names_ok (is_ifs s) \<Longrightarrow> (\<And>i. i < 16 \<Longrightarrow> entry_on (is_ifs s ! i) \<Longrightarrow> ie_name (is_ifs s ! i) \<noteq> n) \<Longrightarrow> table_view s n = Idle"
  using find_None [of s n] by (simp add: table_view_def)

lemma view_cong: "is_ifs s = is_ifs s' \<Longrightarrow> table_view s = table_view s'"
  by (auto simp: table_view_def ifscan_find_def fun_eq_iff split: option.split)

lemma set_entry:
  assumes "names_ok (is_ifs s)" and "i < 16" and "length (ie_name e) \<le> 15"
    and "entry_on e \<longrightarrow> entry_on (is_ifs s ! i) \<and> ie_name e = ie_name (is_ifs s ! i) \<or> ifscan_find s (ie_name e) = None"
  shows "names_ok (is_ifs (ifscan_set i e s))"
    and "table_view (ifscan_set i e s) = (\<lambda>n. if entry_on e \<and> ie_name e = n then view_of e
        else if entry_on (is_ifs s ! i) \<and> ie_name (is_ifs s ! i) = n then Idle else table_view s n)"
proof -
  have len: "length (is_ifs s) = 16" using assms(1) by (simp add: names_ok_def)
  have nth: "is_ifs (ifscan_set i e s) ! j = (if j = i then e else is_ifs s ! j)" if "j < 16" for j
    using that len assms(2) by (simp add: ifscan_set_def)
  have free: "ie_name (is_ifs s ! j) \<noteq> ie_name e" if "entry_on e" "j < 16" "j \<noteq> i" "entry_on (is_ifs s ! j)" for j
  proof (cases "ifscan_find s (ie_name e) = None")
    case True
    then show ?thesis using find_None [OF assms(1)] that by blast
  next
    case False
    then have "entry_on (is_ifs s ! i) \<and> ie_name e = ie_name (is_ifs s ! i)" using assms(4) that(1) by metis
    then show ?thesis using assms(1,2) that unfolding names_ok_def by metis
  qed
  show ok: "names_ok (is_ifs (ifscan_set i e s))"
    unfolding names_ok_def
  proof (intro conjI allI impI)
    show "length (is_ifs (ifscan_set i e s)) = 16" using len by (simp add: ifscan_set_def)
    show "length (ie_name (is_ifs (ifscan_set i e s) ! j)) \<le> 15" if "j < 16" "entry_on (is_ifs (ifscan_set i e s) ! j)" for j
      using that nth [OF that(1)] assms(1,3) by (auto simp: names_ok_def split: if_splits)
    show "j = k" if "j < 16" "k < 16" "entry_on (is_ifs (ifscan_set i e s) ! j)" "entry_on (is_ifs (ifscan_set i e s) ! k)"
        "ie_name (is_ifs (ifscan_set i e s) ! j) = ie_name (is_ifs (ifscan_set i e s) ! k)" for j k
    proof (cases "j = i \<or> k = i")
      case True
      show ?thesis
      proof (rule ccontr)
        assume ne: "j \<noteq> k"
        show False using True
        proof
          assume i: "j = i"
          then have "entry_on e" "entry_on (is_ifs s ! k)" "ie_name (is_ifs s ! k) = ie_name e"
            using that(3-5) nth [OF that(1)] nth [OF that(2)] ne by simp_all
          then show False using free [OF _ that(2)] ne i by simp
        next
          assume i: "k = i"
          then have "entry_on e" "entry_on (is_ifs s ! j)" "ie_name (is_ifs s ! j) = ie_name e"
            using that(3-5) nth [OF that(1)] nth [OF that(2)] ne by simp_all
          then show False using free [OF _ that(1)] ne i by simp
        qed
      qed
    next
      case False
      then show ?thesis using that nth [OF that(1)] nth [OF that(2)] assms(1) unfolding names_ok_def by simp
    qed
  qed
  show "table_view (ifscan_set i e s) = (\<lambda>n. if entry_on e \<and> ie_name e = n then view_of e
        else if entry_on (is_ifs s ! i) \<and> ie_name (is_ifs s ! i) = n then Idle else table_view s n)"
  proof
    fix n
    consider (new) "entry_on e" "ie_name e = n"
      | (old) "\<not> (entry_on e \<and> ie_name e = n)" "entry_on (is_ifs s ! i)" "ie_name (is_ifs s ! i) = n"
      | (other) "\<not> (entry_on e \<and> ie_name e = n)" "\<not> (entry_on (is_ifs s ! i) \<and> ie_name (is_ifs s ! i) = n)"
      by blast
    then show "table_view (ifscan_set i e s) n = (if entry_on e \<and> ie_name e = n then view_of e
        else if entry_on (is_ifs s ! i) \<and> ie_name (is_ifs s ! i) = n then Idle else table_view s n)"
    proof cases
      case new
      then show ?thesis using view_on [OF ok assms(2)] nth [OF assms(2)] by simp
    next
      case old
      have "table_view (ifscan_set i e s) n = Idle"
      proof (rule view_off [OF ok])
        fix j assume j: "j < 16" "entry_on (is_ifs (ifscan_set i e s) ! j)"
        show "ie_name (is_ifs (ifscan_set i e s) ! j) \<noteq> n"
        proof (cases "j = i")
          case True
          then show ?thesis using j nth [OF j(1)] old(1) by auto
        next
          case False
          then have "entry_on (is_ifs s ! j)" using j nth [OF j(1)] by simp
          then have "ie_name (is_ifs s ! j) \<noteq> ie_name (is_ifs s ! i)"
            using assms(1,2) j(1) old(2) False unfolding names_ok_def by blast
          then show ?thesis using old(3) nth [OF j(1)] False by simp
        qed
      qed
      then show ?thesis using old by auto
    next
      case other
      have "table_view (ifscan_set i e s) n = table_view s n"
      proof (cases "ifscan_find s n")
        case None
        then have "table_view (ifscan_set i e s) n = Idle"
          using find_None [OF assms(1), of n] nth other by (intro view_off [OF ok]) (auto split: if_splits)
        then show ?thesis using None by (simp add: table_view_def)
      next
        case (Some j)
        then have j: "j < 16" "entry_on (is_ifs s ! j)" "ie_name (is_ifs s ! j) = n" using find_Some [OF assms(1)] by auto
        then have "j \<noteq> i" using other by auto
        then show ?thesis using view_on [OF ok j(1)] view_on [OF assms(1) j(1)] nth [OF j(1)] j by simp
      qed
      then show ?thesis using other by auto
    qed
  qed
qed

text \<open>A step that tells a client with the view \<open>v\<close> the events \<open>es\<close>, unless the ring drops some (at most \<open>n\<close>).\<close>

definition tells :: "(string \<Rightarrow> client) \<Rightarrow> nat \<Rightarrow> reac_ifscan_event list \<Rightarrow> reac_ifscan \<Rightarrow> reac_ifscan \<Rightarrow> bool" where
  "tells v n es s s' \<longleftrightarrow> ifscan_inv s' \<and> client_replay (map Told es) v = Some (table_view s') \<and>
     (\<exists>k \<le> n. is_dropped_ev s' = is_dropped_ev s + of_nat k \<and> (k = 0 \<longrightarrow> ifscan_pending s' = ifscan_pending s @ es))"

lemma tells_trans:
  assumes "tells v n es s s1" and "tells (table_view s1) m es' s1 s2"
  shows "tells v (n + m) (es @ es') s s2"
proof -
  obtain k k' where k: "k \<le> n" "is_dropped_ev s1 = is_dropped_ev s + of_nat k" "k = 0 \<longrightarrow> ifscan_pending s1 = ifscan_pending s @ es"
    "k' \<le> m" "is_dropped_ev s2 = is_dropped_ev s1 + of_nat k'" "k' = 0 \<longrightarrow> ifscan_pending s2 = ifscan_pending s1 @ es'"
    using assms by (auto simp: tells_def)
  have "\<exists>j \<le> n + m. is_dropped_ev s2 = is_dropped_ev s + of_nat j \<and> (j = 0 \<longrightarrow> ifscan_pending s2 = ifscan_pending s @ es @ es')"
    using k by (intro exI [of _ "k + k'"]) (auto simp: algebra_simps)
  then show ?thesis using assms by (simp add: tells_def replay_append)
qed

lemma tells_mono: "tells v n es s s' \<Longrightarrow> n \<le> m \<Longrightarrow> tells v m es s s'"
  by (auto simp: tells_def intro: order_trans)

lemma tells_same: "ifscan_inv s \<Longrightarrow> is_ifs s' = is_ifs s \<Longrightarrow> is_ev s' = is_ev s \<Longrightarrow> is_ev_head s' = is_ev_head s \<Longrightarrow>
    is_ev_tail s' = is_ev_tail s \<Longrightarrow> is_dropped_ev s' = is_dropped_ev s \<Longrightarrow> tells (table_view s) n [] s s'"
  using view_cong [of s s'] by (auto simp: tells_def ifscan_inv_def ifscan_pending_def intro!: exI [of _ "0 :: nat"])

lemma emit_ring:
  assumes "ifscan_inv s" and "length name \<le> 15"
  shows "is_ifs (ifscan_emit v name s) = is_ifs s" and "ifscan_inv (ifscan_emit v name s)"
    and "\<exists>k \<le> 1. is_dropped_ev (ifscan_emit v name s) = is_dropped_ev s + of_nat k \<and>
      (k = 0 \<longrightarrow> ifscan_pending (ifscan_emit v name s) = ifscan_pending s @ [\<lparr> iv_verb = v, iv_name = name \<rparr>])"
proof -
  show "is_ifs (ifscan_emit v name s) = is_ifs s" by (simp add: ifscan_emit_def Let_def)
  show "ifscan_inv (ifscan_emit v name s)" using assms(1) by (simp add: ifscan_emit_def Let_def ifscan_inv_def)
  show "\<exists>k \<le> 1. is_dropped_ev (ifscan_emit v name s) = is_dropped_ev s + of_nat k \<and>
      (k = 0 \<longrightarrow> ifscan_pending (ifscan_emit v name s) = ifscan_pending s @ [\<lparr> iv_verb = v, iv_name = name \<rparr>])"
  proof (cases "(is_ev_tail s + 1) mod 64 = is_ev_head s")
    case True
    then show ?thesis by (intro exI [of _ "1 :: nat"]) (simp add: ifscan_emit_def)
  next
    case False
    then have "ifscan_pending (ifscan_emit v name s) = ifscan_pending s @ [\<lparr> iv_verb = v, iv_name = name \<rparr>]"
      using ring_items_put [of "is_ev_head s" 64 "is_ev_tail s" "is_ev s"] assms
      by (simp add: ifscan_emit_def Let_def ifscan_pending_def ifscan_inv_def)
    then show ?thesis using False by (intro exI [of _ "0 :: nat"]) (simp add: ifscan_emit_def Let_def)
  qed
qed

text \<open>Setting an entry and then telling the client, or only setting it.\<close>

lemma tells_set_emit:
  assumes "ifscan_inv s" and "names_ok (is_ifs (ifscan_set i e s))" and "length name \<le> 15"
    and "client_step (Told \<lparr> iv_verb = v, iv_name = name \<rparr>) w = Some (table_view (ifscan_set i e s))"
  shows "tells w 1 [\<lparr> iv_verb = v, iv_name = name \<rparr>] s (ifscan_emit v name (ifscan_set i e s))"
proof -
  have i: "ifscan_inv (ifscan_set i e s)" using assms(1,2) by (simp add: ifscan_inv_def ifscan_set_def)
  have p: "ifscan_pending (ifscan_set i e s) = ifscan_pending s" "is_dropped_ev (ifscan_set i e s) = is_dropped_ev s"
    by (simp_all add: ifscan_pending_def ifscan_set_def)
  show ?thesis unfolding tells_def list.map client_replay.simps
    using emit_ring [OF i assms(3), of v] view_cong [OF emit_ring(1) [OF i assms(3), of v]] assms(4) p by simp
qed

lemma tells_set:
  assumes "ifscan_inv s" and "names_ok (is_ifs (ifscan_set i e s))"
  shows "tells (table_view (ifscan_set i e s)) n [] s (ifscan_set i e s)"
  using assms by (auto simp: tells_def ifscan_inv_def ifscan_set_def ifscan_pending_def intro!: exI [of _ "0 :: nat"])

text \<open>An entry that stays under its name changes only its own view.\<close>

lemma set_same_name:
  assumes "ifscan_inv s" and "i < 16" and "entry_on (is_ifs s ! i)" and "entry_on e" and "ie_name e = ie_name (is_ifs s ! i)"
  shows "names_ok (is_ifs (ifscan_set i e s))"
    and "table_view (ifscan_set i e s) = (table_view s)(ie_name (is_ifs s ! i) := view_of e)"
    and "length (ie_name (is_ifs s ! i)) \<le> 15" and "table_view s (ie_name (is_ifs s ! i)) = view_of (is_ifs s ! i)"
proof -
  have n: "names_ok (is_ifs s)" using assms(1) by (simp add: ifscan_inv_def)
  show l: "length (ie_name (is_ifs s ! i)) \<le> 15" using n assms(2,3) unfolding names_ok_def by simp
  then have l': "length (ie_name e) \<le> 15" using assms(5) by simp
  show "names_ok (is_ifs (ifscan_set i e s))" by (rule set_entry(1) [OF n assms(2) l']) (use assms in simp)
  show "table_view (ifscan_set i e s) = (table_view s)(ie_name (is_ifs s ! i) := view_of e)"
    by (subst set_entry(2) [OF n assms(2) l']) (use assms in \<open>auto simp: fun_eq_iff\<close>)
  show "table_view s (ie_name (is_ifs s ! i)) = view_of (is_ifs s ! i)" by (rule view_on [OF n assms(2,3)])
qed

lemma tells_told:
  assumes "ifscan_inv s" and "i < 16" and "entry_on (is_ifs s ! i)" and "entry_on e" and "ie_name e = ie_name (is_ifs s ! i)"
    and "client_step (Told \<lparr> iv_verb = v, iv_name = ie_name (is_ifs s ! i) \<rparr>) w = Some ((table_view s)(ie_name (is_ifs s ! i) := view_of e))"
  shows "\<exists>es. tells w 1 es s (ifscan_emit v (ie_name (is_ifs s ! i)) (ifscan_set i e s))"
  using tells_set_emit [OF assms(1) set_same_name(1) [OF assms(1-5)] set_same_name(3) [OF assms(1-5)], of v w]
    set_same_name(2) [OF assms(1-5)] assms(6) by auto

lemma tells_quiet:
  assumes "ifscan_inv s" and "i < 16" and "entry_on (is_ifs s ! i)" and "entry_on e" and "ie_name e = ie_name (is_ifs s ! i)"
    and "w = (table_view s)(ie_name (is_ifs s ! i) := view_of e)"
  shows "\<exists>es. tells w 1 es s (ifscan_set i e s)"
  using tells_set [OF assms(1) set_same_name(1) [OF assms(1-5)], of 1] set_same_name(2) [OF assms(1-5)] assms(6) by auto

lemma tells_nothing: "ifscan_inv s \<Longrightarrow> \<exists>es. tells (table_view s) n es s s"
  using tells_same by blast

section \<open>Every operation tells what it does\<close>

lemma tells_edge:
  assumes "ifscan_inv s" and "i < 16" and "entry_on (is_ifs s ! i)"
  shows "\<exists>es. tells (table_view s) 1 es s (ifscan_edge i up now s)"
proof -
  define e where "e = is_ifs s ! i"
  note keep = tells_nothing [OF assms(1), of 1] and told = tells_told [OF assms, folded e_def] and quiet = tells_quiet [OF assms, folded e_def]
  have v: "table_view s (ie_name e) = view_of e" using set_same_name(4) [OF assms assms(3) refl] by (simp add: e_def)
  note ds = ifscan_edge_def Let_def e_def [symmetric] entry_on_def view_of_def v
  show ?thesis
  proof (cases "ie_state e")
    case REAC_IFSCAN_ABSENT
    then show ?thesis using assms(3) by (simp add: entry_on_def e_def)
  next
    case REAC_IFSCAN_DOWN
    then show ?thesis using keep told [of "e\<lparr> ie_state := REAC_IFSCAN_LINKED, ie_retry_after_ns := 0 \<rparr>" REAC_IFSCAN_LISTEN "table_view s"]
      by (cases up) (simp_all add: ds del: One_nat_def)
  next
    case REAC_IFSCAN_LINKED
    then show ?thesis using keep told [of "e\<lparr> ie_state := REAC_IFSCAN_DOWN \<rparr>" REAC_IFSCAN_UNLISTEN "table_view s"]
      by (cases up) (simp_all add: ds del: One_nat_def)
  next
    case REAC_IFSCAN_SEGMENT
    then show ?thesis
      using keep quiet [of "e\<lparr> ie_state := REAC_IFSCAN_HOLD, ie_hold_until_ns := now + 3000000000 \<rparr>" "table_view s"]
      by (cases up) (simp_all add: ds fun_upd_idem del: One_nat_def)
  next
    case REAC_IFSCAN_HOLD
    then show ?thesis
      using keep told [of "e\<lparr> ie_state := REAC_IFSCAN_SEGMENT, ie_hold_until_ns := 0, ie_flaps := ie_flaps e + 1 \<rparr>" REAC_IFSCAN_KEPT "table_view s"]
      by (cases up) (simp_all add: ds fun_upd_idem del: One_nat_def)
  qed
qed

lemma tells_expire:
  assumes "ifscan_inv s" and "i < 16"
  shows "\<exists>es. tells (table_view s) 1 es s (ifscan_expire now i s)"
proof (cases "ie_state (is_ifs s ! i) \<noteq> REAC_IFSCAN_HOLD \<or> now < ie_hold_until_ns (is_ifs s ! i)")
  case True
  then show ?thesis using tells_nothing [OF assms(1), of 1] by (simp add: ifscan_expire_def del: One_nat_def)
next
  case False
  then have on: "entry_on (is_ifs s ! i)" by (simp add: entry_on_def)
  show ?thesis
    using False set_same_name(4) [OF assms on on refl]
      tells_told [OF assms on, of "(is_ifs s ! i)\<lparr> ie_state := REAC_IFSCAN_DOWN, ie_hold_until_ns := 0 \<rparr>" REAC_IFSCAN_DROP "table_view s"]
    by (simp add: ifscan_expire_def Let_def entry_on_def view_of_def del: One_nat_def)
qed

lemma tells_tick: "ifscan_inv s \<Longrightarrow> \<exists>es. tells (table_view s) 16 es s (reac_ifscan_tick now s)"
proof -
  have "\<exists>es. tells (table_view s) (length xs) es s (fold (ifscan_expire now) xs s)"
    if "ifscan_inv s" "list_all (\<lambda>i. i < 16) xs" for xs s
    using that
  proof (induction xs arbitrary: s)
    case Nil
    then show ?case using tells_nothing [of s 0] by simp
  next
    case (Cons i xs)
    obtain es where es: "tells (table_view s) 1 es s (ifscan_expire now i s)" using tells_expire [of s i now] Cons.prems by auto
    then have "ifscan_inv (ifscan_expire now i s)" by (simp add: tells_def)
    then obtain es' where "tells (table_view (ifscan_expire now i s)) (length xs) es' (ifscan_expire now i s)
        (fold (ifscan_expire now) xs (ifscan_expire now i s))"
      using Cons.IH Cons.prems by auto
    from tells_trans [OF es this] show ?case by auto
  qed
  from this [of s "[0..<16]"] show "ifscan_inv s \<Longrightarrow> ?thesis" by (simp add: reac_ifscan_tick_def list_all_iff del: upt_rec_numeral)
qed

lemma tells_leave:
  assumes "ifscan_inv s" and "i < 16" and "entry_on (is_ifs s ! i)"
  shows "\<exists>es. tells (table_view s) 1 es s (ifscan_leave i s)"
    and "ifscan_find (ifscan_leave i s) (ie_name (is_ifs s ! i)) = None"
proof -
  define e where "e = is_ifs s ! i"
  have n: "names_ok (is_ifs s)" using assms(1) by (simp add: ifscan_inv_def)
  have z: "\<not> entry_on entry_zero" "ie_name entry_zero = ''''" by (simp_all add: entry_on_def entry_zero_def)
  have ok: "names_ok (is_ifs (ifscan_set i entry_zero s))"
    by (rule set_entry(1) [OF n assms(2)]) (simp_all add: z)
  have view: "table_view (ifscan_set i entry_zero s) = (table_view s)(ie_name e := Idle)"
    by (subst set_entry(2) [OF n assms(2)]) (use z assms(3) in \<open>auto simp: fun_eq_iff e_def\<close>)
  have l: "length (ie_name e) \<le> 15" using n assms(2,3) unfolding names_ok_def e_def by simp
  have v: "table_view s (ie_name e) = view_of e" using view_on [OF n assms(2,3)] by (simp add: e_def)
  have swap: "ifscan_set i entry_zero (ifscan_emit w m s) = ifscan_emit w m (ifscan_set i entry_zero s)" for w m
    by (simp add: ifscan_set_def ifscan_emit_def Let_def)
  have told: "\<exists>es. tells (table_view s) 1 es s (ifscan_set i entry_zero (ifscan_emit w (ie_name e) s))"
    if "client_step (Told \<lparr> iv_verb = w, iv_name = ie_name e \<rparr>) (table_view s) = Some ((table_view s)(ie_name e := Idle))" for w
    unfolding swap using tells_set_emit [OF assms(1) ok l, of w "table_view s"] that view by auto
  have quiet: "\<exists>es. tells (table_view s) 1 es s (ifscan_set i entry_zero s)" if "view_of e = Idle"
    using tells_set [OF assms(1) ok, of 1] that v view by (auto simp: fun_upd_idem)
  show "\<exists>es. tells (table_view s) 1 es s (ifscan_leave i s)"
    using told [of REAC_IFSCAN_UNLISTEN] told [of REAC_IFSCAN_DROP] quiet
    by (cases "ie_state e") (simp_all add: ifscan_leave_def Let_def e_def [symmetric] v view_of_def del: One_nat_def)
  have "is_ifs (ifscan_leave i s) = is_ifs (ifscan_set i entry_zero s)"
    by (simp add: ifscan_leave_def Let_def ifscan_set_def ifscan_emit_def split: reac_ifscan_state.split)
  then have f: "ifscan_find (ifscan_leave i s) m = ifscan_find (ifscan_set i entry_zero s) m" for m by (simp add: ifscan_find_def)
  have "ie_name (is_ifs (ifscan_set i entry_zero s) ! j) \<noteq> ie_name e" if "j < 16" "entry_on (is_ifs (ifscan_set i entry_zero s) ! j)" for j
  proof (cases "j = i")
    case True
    then show ?thesis using that n assms(2) z by (simp add: ifscan_set_def names_ok_def)
  next
    case False
    then have "entry_on (is_ifs s ! j)" "is_ifs (ifscan_set i entry_zero s) ! j = is_ifs s ! j" using that(2) by (simp_all add: ifscan_set_def)
    then show ?thesis using n assms(2,3) that(1) False unfolding names_ok_def e_def by auto
  qed
  then show "ifscan_find (ifscan_leave i s) (ie_name (is_ifs s ! i)) = None"
    unfolding f using find_None [OF ok] by (simp add: e_def)
qed

lemma tells_insert:
  assumes "ifscan_inv s" and "ifscan_find s name = None" and "length name \<le> 15"
  shows "\<exists>es. tells (table_view s) 2 es s
    (case find_index (\<lambda>e. ie_state e = REAC_IFSCAN_ABSENT) (is_ifs s) of
       None \<Rightarrow> s\<lparr> is_unbounded := is_unbounded s + 1 \<rparr>
     | Some i \<Rightarrow> ifscan_edge i up now
         (ifscan_set i (entry_zero\<lparr> ie_name := name, ie_ifindex := ix, ie_state := REAC_IFSCAN_DOWN \<rparr>) s))"
proof (cases "find_index (\<lambda>e. ie_state e = REAC_IFSCAN_ABSENT) (is_ifs s)")
  case None
  have "tells (table_view s) 2 [] s (s\<lparr> is_unbounded := is_unbounded s + 1 \<rparr>)" by (rule tells_same [OF assms(1)]) simp_all
  then show ?thesis using None by auto
next
  case (Some i)
  define e where "e = entry_zero\<lparr> ie_name := name, ie_ifindex := ix, ie_state := REAC_IFSCAN_DOWN \<rparr>"
  have n: "names_ok (is_ifs s)" using assms(1) by (simp add: ifscan_inv_def)
  have i: "i < 16" "\<not> entry_on (is_ifs s ! i)"
    using Some n by (auto simp: names_ok_def entry_on_def dest!: find_index_SomeD)
  have e: "ie_name e = name" "entry_on e" "view_of e = Idle" by (simp_all add: e_def entry_on_def view_of_def)
  have "length (ie_name e) \<le> 15" using assms(3) e by simp
  note s = set_entry [OF n i(1) this]
  have ok: "names_ok (is_ifs (ifscan_set i e s))" by (rule s(1)) (simp add: e assms(2))
  have "table_view s name = Idle" using assms(2) by (simp add: table_view_def)
  then have view: "table_view (ifscan_set i e s) = table_view s"
    by (subst s(2)) (use e i assms(2) in \<open>auto simp: fun_eq_iff\<close>)
  have t: "tells (table_view s) 1 [] s (ifscan_set i e s)" using tells_set [OF assms(1) ok, of 1] view by simp
  have inv: "ifscan_inv (ifscan_set i e s)" using t by (simp add: tells_def)
  have on: "entry_on (is_ifs (ifscan_set i e s) ! i)" using n i(1) e by (simp add: ifscan_set_def names_ok_def)
  obtain es where "tells (table_view (ifscan_set i e s)) 1 es (ifscan_set i e s) (ifscan_edge i up now (ifscan_set i e s))"
    using tells_edge [OF inv i(1) on] by blast
  from tells_trans [OF t this] show ?thesis using Some by (auto simp: e_def numeral_2_eq_2)
qed

lemma tells_observe: "ifscan_inv s \<Longrightarrow> \<exists>es. tells (table_view s) 3 es s (reac_ifscan_observe name ix ether up now s)"
proof -
  assume inv: "ifscan_inv s"
  then have n: "names_ok (is_ifs s)" by (simp add: ifscan_inv_def)
  have still: "\<exists>es. tells (table_view s) 3 es s s" by (rule tells_nothing [OF inv])
  have mono: "\<exists>es. tells (table_view s) 3 es s s'" if "\<exists>es. tells (table_view s) k es s s'" "k \<le> 3" for k s'
    using that tells_mono by blast
  show ?thesis
  proof (cases "name = '''' \<or> length name \<ge> 16")
    case True
    then have o: "reac_ifscan_observe name ix ether up now s = s" by (auto simp: reac_ifscan_observe_def)
    show ?thesis unfolding o by (rule still)
  next
    case named: False
    then have l: "length name \<le> 15" by simp
    show ?thesis
    proof (cases "ifscan_find s name")
      case None
      then show ?thesis using named still mono [OF tells_insert [OF inv None l, of up now ix]]
        by (cases ether) (simp_all add: reac_ifscan_observe_def)
    next
      case (Some i)
      then have i: "i < 16" "entry_on (is_ifs s ! i)" "ie_name (is_ifs s ! i) = name" using find_Some [OF n] by auto
      note lv = tells_leave [OF inv i(1,2)]
      show ?thesis
      proof (cases "ether \<and> ie_ifindex (is_ifs s ! i) \<noteq> ix")
        case True
        obtain es where es: "tells (table_view s) 1 es s (ifscan_leave i s)" using lv(1) by blast
        have inv': "ifscan_inv (ifscan_leave i s)" using es by (simp add: tells_def)
        have none: "ifscan_find (ifscan_leave i s) name = None" using lv(2) i(3) by simp
        obtain es' where "tells (table_view (ifscan_leave i s)) 2 es' (ifscan_leave i s)
            (reac_ifscan_observe name ix ether up now s)"
          using tells_insert [OF inv' none l, of up now ix] named Some True by (auto simp: reac_ifscan_observe_def Let_def)
        from tells_trans [OF es this] show ?thesis by (auto simp: numeral_3_eq_3 numeral_2_eq_2)
      next
        case False
        then show ?thesis using named Some mono [OF lv(1)] mono [OF tells_edge [OF inv i(1,2), of up now]]
          by (cases ether) (simp_all add: reac_ifscan_observe_def)
      qed
    qed
  qed
qed

lemma tells_gone: "ifscan_inv s \<Longrightarrow> \<exists>es. tells (table_view s) 1 es s (reac_ifscan_gone name ix s)"
proof (cases "ifscan_find s name")
  case (Some i)
  assume inv: "ifscan_inv s"
  then have i: "i < 16" "entry_on (is_ifs s ! i)" using Some find_Some [of s name i] by (auto simp: ifscan_inv_def)
  show ?thesis using Some tells_leave(1) [OF inv i] tells_nothing [OF inv, of 1] by (simp add: reac_ifscan_gone_def del: One_nat_def)
qed (use tells_nothing in \<open>simp add: reac_ifscan_gone_def\<close>)

lemma tells_heard: "ifscan_inv s \<Longrightarrow> \<exists>es. tells (table_view s) 1 es s (reac_ifscan_heard name now s)"
proof (cases "ifscan_find s name")
  case (Some i)
  assume inv: "ifscan_inv s"
  then have i: "i < 16" "entry_on (is_ifs s ! i)" using Some find_Some [of s name i] by (auto simp: ifscan_inv_def)
  define e where "e = is_ifs s ! i"
  show ?thesis
  proof (cases "ie_state e = REAC_IFSCAN_LINKED \<and> \<not> (ie_retry_after_ns e \<noteq> 0 \<and> now < ie_retry_after_ns e)")
    case True
    then have "\<not> (ie_retry_after_ns e \<noteq> 0 \<and> now < ie_retry_after_ns e)" by blast
    then have h: "reac_ifscan_heard name now s = ifscan_emit REAC_IFSCAN_SERVE (ie_name e)
        (ifscan_set i (e\<lparr> ie_state := REAC_IFSCAN_SEGMENT, ie_retry_after_ns := 0 \<rparr>) s)"
      using True Some by (auto simp: reac_ifscan_heard_def Let_def e_def)
    show ?thesis unfolding h
      using True set_same_name(4) [OF inv i i(2) refl]
        tells_told [OF inv i, of "e\<lparr> ie_state := REAC_IFSCAN_SEGMENT, ie_retry_after_ns := 0 \<rparr>" REAC_IFSCAN_SERVE "table_view s"]
      by (simp add: e_def entry_on_def view_of_def del: One_nat_def)
  next
    case False
    then have "reac_ifscan_heard name now s = s" using Some by (auto simp: reac_ifscan_heard_def Let_def e_def)
    then show ?thesis using tells_nothing [OF inv, of 1] by simp
  qed
qed (use tells_nothing in \<open>simp add: reac_ifscan_heard_def\<close>)

text \<open>The client that could not serve has left the segment before the table answers.\<close>

definition after_failure :: "string \<Rightarrow> reac_ifscan \<Rightarrow> string \<Rightarrow> client" where
  "after_failure name s = (if table_view s name = Serving then (table_view s)(name := Idle) else table_view s)"

lemma tells_failed: "ifscan_inv s \<Longrightarrow> \<exists>es. tells (after_failure name s) 1 es s (reac_ifscan_serve_failed name now s)"
proof (cases "ifscan_find s name")
  case None
  assume inv: "ifscan_inv s"
  have "after_failure name s = table_view s" using None by (simp add: after_failure_def table_view_def)
  then show ?thesis using None tells_nothing [OF inv, of 1] by (simp add: reac_ifscan_serve_failed_def)
next
  case (Some i)
  assume inv: "ifscan_inv s"
  then have i: "i < 16" "entry_on (is_ifs s ! i)" "ie_name (is_ifs s ! i) = name"
    using Some find_Some [of s name i] by (auto simp: ifscan_inv_def)
  define e where "e = is_ifs s ! i"
  have v: "table_view s name = view_of e" using set_same_name(4) [OF inv i(1,2) i(2) refl] i(3) by (simp add: e_def)
  let ?l = "e\<lparr> ie_state := REAC_IFSCAN_LINKED, ie_hold_until_ns := 0, ie_retry_after_ns := now + 5000000000 \<rparr>"
  let ?d = "e\<lparr> ie_state := REAC_IFSCAN_DOWN, ie_hold_until_ns := 0, ie_retry_after_ns := now + 5000000000 \<rparr>"
  consider "ie_state e = REAC_IFSCAN_SEGMENT" | "ie_state e = REAC_IFSCAN_HOLD"
    | "ie_state e \<noteq> REAC_IFSCAN_SEGMENT" "ie_state e \<noteq> REAC_IFSCAN_HOLD" by blast
  then show ?thesis
  proof cases
    case 1
    then have "after_failure name s = (table_view s)(name := Idle)" using v by (simp add: after_failure_def view_of_def)
    then show ?thesis using 1 Some i tells_told [OF inv i(1,2), of ?l REAC_IFSCAN_LISTEN "after_failure name s"]
      by (simp add: reac_ifscan_serve_failed_def Let_def e_def entry_on_def view_of_def del: One_nat_def)
  next
    case 2
    then have "after_failure name s = (table_view s)(name := Idle)" using v by (simp add: after_failure_def view_of_def)
    then show ?thesis using 2 Some i tells_quiet [OF inv i(1,2), of ?d "after_failure name s"]
      by (simp add: reac_ifscan_serve_failed_def Let_def e_def entry_on_def view_of_def del: One_nat_def)
  next
    case 3
    then have "view_of e \<noteq> Serving" by (cases "ie_state e") (simp_all add: view_of_def)
    then have "after_failure name s = table_view s" using v by (simp add: after_failure_def)
    moreover have "reac_ifscan_serve_failed name now s = s" using 3 Some by (simp add: reac_ifscan_serve_failed_def Let_def e_def)
    ultimately show ?thesis using tells_nothing [OF inv, of 1] by simp
  qed
qed

section \<open>Histories\<close>

datatype ifscan_op =
    Scan_Observe string int bool bool u64 | Scan_Gone string int | Scan_Heard string u64 | Scan_Failed string u64
  | Scan_Tick u64 | Scan_Next

fun ifscan_do :: "ifscan_op \<Rightarrow> reac_ifscan \<Rightarrow> reac_ifscan" where
  "ifscan_do (Scan_Observe name ix ether up now) s = reac_ifscan_observe name ix ether up now s"
| "ifscan_do (Scan_Gone name ix) s = reac_ifscan_gone name ix s"
| "ifscan_do (Scan_Heard name now) s = reac_ifscan_heard name now s"
| "ifscan_do (Scan_Failed name now) s = reac_ifscan_serve_failed name now s"
| "ifscan_do (Scan_Tick now) s = reac_ifscan_tick now s"
| "ifscan_do Scan_Next s = fst (reac_ifscan_next s)"

fun op_report :: "ifscan_op \<Rightarrow> client_log list" where
  "op_report (Scan_Failed name now) = [Failed name]"
| "op_report _ = []"

text \<open>The history with everything that was told, in the order it was raised, with the failures the client reported;
  what the client has taken so far; and whether the ring has dropped nothing.\<close>

type_synonym ifscan_run = "reac_ifscan \<times> client_log list \<times> reac_ifscan_event list \<times> bool"

fun ifscan_step :: "ifscan_run \<Rightarrow> ifscan_op \<Rightarrow> ifscan_run" where
  "ifscan_step (s, log, taken, whole) Scan_Next =
     (fst (reac_ifscan_next s), log, taken @ (case snd (reac_ifscan_next s) of Some e \<Rightarrow> [e] | None \<Rightarrow> []), whole)"
| "ifscan_step (s, log, taken, whole) op =
     (let s' = ifscan_do op s in
      (s', log @ op_report op @ map Told (drop (length (ifscan_pending s)) (ifscan_pending s')), taken,
       whole \<and> is_dropped_ev s' = is_dropped_ev s))"

fun log_events :: "client_log list \<Rightarrow> reac_ifscan_event list" where
  "log_events [] = []"
| "log_events (Told e # xs) = e # log_events xs"
| "log_events (Failed n # xs) = log_events xs"

lemma log_events_append [simp]: "log_events (xs @ ys) = log_events xs @ log_events ys"
  by (induction xs rule: log_events.induct) auto

lemma log_events_told [simp]: "log_events (map Told es) = es" by (induction es) auto

definition mirror :: "ifscan_run \<Rightarrow> bool" where
  "mirror = (\<lambda>(s, log, taken, whole). ifscan_inv s \<and>
     (whole \<longrightarrow> log_events log = taken @ ifscan_pending s \<and> client_replay log (\<lambda>_. Idle) = Some (table_view s)))"

lemma op_tells:
  assumes "ifscan_inv s" and "op \<noteq> Scan_Next"
  shows "\<exists>w es. client_replay (op_report op) (table_view s) = Some w \<and> tells w 16 es s (ifscan_do op s)"
proof -
  have m: "\<exists>w es. w0 = w \<and> tells w 16 es s s'" if "\<exists>es. tells w0 k es s s'" "k \<le> 16" for w0 k s'
    using that tells_mono by blast
  show ?thesis
    using m [OF tells_observe [OF assms(1)]] m [OF tells_gone [OF assms(1)]] m [OF tells_heard [OF assms(1)]]
      m [OF tells_failed [OF assms(1)]] m [OF tells_tick [OF assms(1)]] assms(2)
    by (cases op) (simp_all add: after_failure_def)
qed

lemma mirror_next:
  assumes "mirror (s, log, taken, whole)"
  shows "mirror (ifscan_step (s, log, taken, whole) Scan_Next)"
proof (cases "is_ev_head s = is_ev_tail s")
  case True
  then show ?thesis using assms by (simp add: reac_ifscan_next_def)
next
  case False
  define s' where "s' = s\<lparr> is_ev_head := (is_ev_head s + 1) mod 64 \<rparr>"
  have inv: "ifscan_inv s" using assms by (simp add: mirror_def)
  then have p: "ifscan_pending s = is_ev s ! is_ev_head s # ifscan_pending s'"
    using ring_items_take [OF _ _ False, of 64 "is_ev s"] by (simp add: ifscan_pending_def ifscan_inv_def s'_def)
  have "ifscan_inv s'" "table_view s' = table_view s"
    using inv view_cong [of s' s] by (simp_all add: ifscan_inv_def s'_def)
  moreover have "reac_ifscan_next s = (s', Some (is_ev s ! is_ev_head s))" using False by (simp add: reac_ifscan_next_def s'_def)
  ultimately show ?thesis using assms p by (simp add: mirror_def)
qed

lemma mirror_step: "mirror r \<Longrightarrow> mirror (ifscan_step r op)"
proof -
  assume r: "mirror r"
  obtain s log taken whole where e: "r = (s, log, taken, whole)" by (cases r rule: prod_cases4)
  show ?thesis
  proof (cases "op = Scan_Next")
    case True
    then show ?thesis using r mirror_next unfolding e by blast
  next
    case False
    have inv: "ifscan_inv s" using r by (simp add: e mirror_def)
    obtain w es where t: "client_replay (op_report op) (table_view s) = Some w" "tells w 16 es s (ifscan_do op s)"
      using op_tells [OF inv False] by blast
    define s' where "s' = ifscan_do op s"
    obtain k where k: "k \<le> 16" "is_dropped_ev s' = is_dropped_ev s + of_nat k" "k = 0 \<longrightarrow> ifscan_pending s' = ifscan_pending s @ es"
      "ifscan_inv s'" "client_replay (map Told es) w = Some (table_view s')"
      using t(2) by (auto simp: tells_def s'_def)
    have st: "ifscan_step r op = (s', log @ op_report op @ map Told (drop (length (ifscan_pending s)) (ifscan_pending s')), taken,
        whole \<and> is_dropped_ev s' = is_dropped_ev s)"
      using False by (cases op) (simp_all add: e s'_def Let_def)
    have p: "ifscan_pending s' = ifscan_pending s @ es" if "is_dropped_ev s' = is_dropped_ev s"
    proof -
      have "(of_nat k :: u64) = 0" using k(2) that by simp
      moreover have "unat (of_nat k :: u64) = k" using k(1) by (simp add: unat_of_nat)
      ultimately have "k = 0" by simp
      then show ?thesis using k(3) by blast
    qed
    have rep: "log_events (op_report op) = []" by (cases op) simp_all
    show ?thesis unfolding st mirror_def using r k(4,5) t(1) p rep
      by (auto simp: e mirror_def replay_append)
  qed
qed

interpretation ifscan_machine: invariant_machine ifscan_step mirror "\<lambda>_. True"
  by unfold_locales (rule mirror_step)

lemma mirror_init: "mirror (reac_ifscan_init, [], [], True)"
proof -
  have "table_view reac_ifscan_init = (\<lambda>_. Idle)"
    by (intro ext view_off) (auto simp: reac_ifscan_init_def names_ok_def entry_on_def entry_zero_def)
  moreover have "ifscan_inv reac_ifscan_init"
    by (simp add: ifscan_inv_def reac_ifscan_init_def names_ok_def entry_on_def entry_zero_def)
  ultimately show ?thesis by (simp add: mirror_def ifscan_pending_def ring_items_def reac_ifscan_init_def)
qed

text \<open>C17: The client of the interface scan always knows what the scan knows. After any history of link messages,
  withdrawals, frames heard, failures reported, ticks and events taken, as long as the event ring has dropped
  nothing: the client has taken, in order, what the scan raised, the rest waits in the ring, no event comes out of
  order (listen only when idle, serve and unlisten only when listening, drop and kept only when serving), and a
  client that follows them listens to exactly the interfaces the table holds as linked and serves exactly its
  segments, those on hold included.\<close>

theorem ifscan_events_mirror_table:
  assumes "foldl ifscan_step (reac_ifscan_init, [], [], True) ops = (s, log, taken, True)"
  shows "log_events log = taken @ ifscan_pending s \<and>
    client_replay log (\<lambda>_. Idle) = Some (\<lambda>name. case reac_ifscan_find s name of
        None \<Rightarrow> Idle
      | Some e \<Rightarrow> (case ie_state e of REAC_IFSCAN_LINKED \<Rightarrow> Listening | REAC_IFSCAN_SEGMENT \<Rightarrow> Serving
                   | REAC_IFSCAN_HOLD \<Rightarrow> Serving | _ \<Rightarrow> Idle))"
proof -
  have f: "reac_ifscan_find s name = map_option (\<lambda>i. is_ifs s ! i) (ifscan_find s name)" for name
  proof -
    have "List.find P xs = map_option (\<lambda>i. xs ! i) (find_index P xs)" for P and xs :: "reac_ifscan_entry list"
      by (induction xs) (auto simp: option.map_comp o_def)
    then show ?thesis by (simp add: reac_ifscan_find_def ifscan_find_def)
  qed
  have "mirror (s, log, taken, True)"
    using ifscan_machine.inv_run [OF mirror_init, of ops] by (simp add: assms list_all_iff)
  moreover have "table_view s = (\<lambda>name. case reac_ifscan_find s name of None \<Rightarrow> Idle
      | Some e \<Rightarrow> (case ie_state e of REAC_IFSCAN_LINKED \<Rightarrow> Listening | REAC_IFSCAN_SEGMENT \<Rightarrow> Serving
                   | REAC_IFSCAN_HOLD \<Rightarrow> Serving | _ \<Rightarrow> Idle))"
    by (auto simp: fun_eq_iff f table_view_def view_of_def split: option.split)
  ultimately show ?thesis by (simp add: mirror_def)
qed

definition demo_ops :: "ifscan_op list" where
  "demo_ops = [Scan_Observe ''eth0'' 2 True True 0, Scan_Next, Scan_Heard ''eth0'' 5, Scan_Observe ''eth0'' 2 True False 6,
     Scan_Tick 10000000000]"

theorem ifscan_events_mirror_table_witness:
  "\<exists>s log taken. foldl ifscan_step (reac_ifscan_init, [], [], True) demo_ops = (s, log, taken, True) \<and>
     log_events log = taken @ ifscan_pending s \<and> length (ifscan_pending s) = 2 \<and> client_replay log (\<lambda>_. Idle) \<noteq> None"
proof -
  obtain s log taken whole where r: "foldl ifscan_step (reac_ifscan_init, [], [], True) demo_ops = (s, log, taken, whole)"
    by (rule prod_cases4)
  have "case foldl ifscan_step (reac_ifscan_init, [], [], True) demo_ops of (s, log, taken, whole) \<Rightarrow>
      whole \<and> length (ifscan_pending s) = 2" by code_simp
  then have w: "whole" "length (ifscan_pending s) = 2" by (simp_all add: r)
  show ?thesis using ifscan_events_mirror_table [OF r [unfolded eqTrueI [OF w(1)]]] r w by auto
qed

section \<open>A datagram whose last message is not padded\<close>

text \<open>The walk steps by the aligned length and subtracts the position from the length: after a last message whose
  length is no multiple of four the difference wraps, and the walk reads past the end.\<close>

definition unpadded_datagram :: bytes where
  "unpadded_datagram = [17, 0, 0, 0, 4, 0, 0, 0, 0, 0, 0, 0, 0, 0, 0, 0, 0]"

lemma ifscan_reads_past_end: "reac_ifscan_feed stat_ok allow now unpadded_datagram s = None"
proof -
  have l: "nl_u32 unpadded_datagram 0 = Some 17" "nl_u16 unpadded_datagram 4 = Some 4" "nl_u32 unpadded_datagram 20 = None"
    "nl_align 17 = 20" "length unpadded_datagram = 17"
    by (simp_all add: unpadded_datagram_def nl_u32_def nl_u16_def nl_align_def u16le_def)
  have "nl_feed True f unpadded_datagram 20 b t = None" for f :: "link_msg \<Rightarrow> reac_ifscan \<Rightarrow> reac_ifscan" and b t
    by (simp add: nl_feed.simps [of _ _ _ 20] l nl_left_def)
  then show ?thesis
    by (simp add: reac_ifscan_feed_def nl_feed.simps [of _ _ _ 0] l nl_left_def nl_link_def)
qed

section \<open>A padded datagram\<close>

text \<open>C18: The interface scan reads a datagram of the kernel whole. For every sequence of messages, padded as the
  kernel pads them, whatever attributes they carry, the walk stays inside the bytes received, each message about a
  named link changes the table as its kind, type, index and flags say, in order, and every other message is passed
  over.\<close>

theorem link_datagram_read:
  assumes "list_all link_out_ok ms" and "length (concat (map nl_message ms)) < 2 ^ 32"
  shows "reac_ifscan_feed stat_ok allow now (concat (map nl_message ms)) s =
    Some (foldl (\<lambda>s m. case nl_read m of None \<Rightarrow> s | Some x \<Rightarrow> ifscan_msg stat_ok allow now x s) s ms, False)"
  using feed_messages [of ms "[]" True "ifscan_msg stat_ok allow now" False s] assms
  by (simp add: reac_ifscan_feed_def handle_def [abs_def])

definition demo_link :: link_out where
  "demo_link = \<lparr> lo_kind = 16, lo_type = 1, lo_index = 2, lo_flags = 0x10043,
     lo_attrs = [(4, [1, 2]), (3, [101, 116, 104, 48, 0])] \<rparr>"

theorem link_datagram_read_witness:
  "\<exists>s. reac_ifscan_feed (\<lambda>_. False) None 7 (concat (map nl_message [demo_link])) reac_ifscan_init = Some (s, False) \<and>
     map_option ie_state (reac_ifscan_find s ''eth0'') = Some REAC_IFSCAN_LINKED"
proof -
  have ok: "list_all link_out_ok [demo_link]" "length (concat (map nl_message [demo_link])) < 2 ^ 32"
    by (simp_all add: link_out_ok_def demo_link_def nl_message_def Let_def nl_attr_def nl_align_def)
  have "map_option ie_state (reac_ifscan_find
      (case nl_read demo_link of None \<Rightarrow> reac_ifscan_init | Some x \<Rightarrow> ifscan_msg (\<lambda>_. False) None 7 x reac_ifscan_init) ''eth0'')
      = Some REAC_IFSCAN_LINKED" by code_simp
  then show ?thesis using link_datagram_read [OF ok, of "\<lambda>_. False" None 7 reac_ifscan_init] by simp
qed

end
