(* ===== verification/Reac_Linkmon.thy ===== *)
theory Reac_Linkmon
  imports Reac_Netlink
begin

text \<open>The link monitor (transport/src/reac_linkmon.c): the carrier of one interface from the kernel's messages, and
  the edges its owner acts on.

  What the socket returns is an argument: datagrams, and after an overrun the datagrams of a new dump.\<close>

unbundle bit_operations_syntax

section \<open>State and operations\<close>

datatype reac_link_edge = REAC_LINK_EDGE_NONE | REAC_LINK_EDGE_UP | REAC_LINK_EDGE_DOWN

record reac_linkmon =
  lk_ifname :: string
  lk_carrier :: int
  lk_acted :: int
  lk_ups :: u64
  lk_downs :: u64
  lk_msgs :: u64
  lk_overruns :: u64

definition reac_linkmon_init :: "string option \<Rightarrow> reac_linkmon" where
  "reac_linkmon_init ifname =
     \<lparr> lk_ifname = (case ifname of Some s \<Rightarrow> if s \<noteq> '''' \<and> length s < 16 then s else '''' | None \<Rightarrow> ''''),
       lk_carrier = - 1, lk_acted = - 1, lk_ups = 0, lk_downs = 0, lk_msgs = 0, lk_overruns = 0 \<rparr>"

definition reac_linkmon_observe :: "string option \<Rightarrow> int \<Rightarrow> reac_linkmon \<Rightarrow> reac_linkmon" where
  "reac_linkmon_observe ifname carrier m0 =
     (if lk_ifname m0 = '''' \<or> ifname \<noteq> Some (lk_ifname m0) then m0
      else let m = m0\<lparr> lk_msgs := lk_msgs m0 + 1 \<rparr> in
           if carrier < 0 then m else m\<lparr> lk_carrier := (if carrier \<noteq> 0 then 1 else 0) \<rparr>)"

definition reac_linkmon_take :: "reac_linkmon \<Rightarrow> reac_linkmon \<times> reac_link_edge" where
  "reac_linkmon_take m =
     (if lk_carrier m < 0 then (m, REAC_LINK_EDGE_NONE)
      else if lk_carrier m = lk_acted m then (m, REAC_LINK_EDGE_NONE)
      else if lk_carrier m = 1 then (m\<lparr> lk_acted := 1, lk_ups := lk_ups m + 1 \<rparr>, REAC_LINK_EDGE_UP)
      else if lk_acted m \<noteq> 1 then (m\<lparr> lk_acted := 0 \<rparr>, REAC_LINK_EDGE_NONE)
      else (m\<lparr> lk_acted := 0, lk_downs := lk_downs m + 1 \<rparr>, REAC_LINK_EDGE_DOWN))"

definition reac_linkmon_carrier :: "reac_linkmon \<Rightarrow> int" where
  "reac_linkmon_carrier m = lk_carrier m"

definition linkmon_msg :: "link_msg \<Rightarrow> reac_linkmon \<Rightarrow> reac_linkmon" where
  "linkmon_msg x m =
     reac_linkmon_observe (Some (lm_name x))
       (if lm_del x then - 1 else if lm_flags x AND IFF_LOWER_UP \<noteq> 0 then 1 else 0) m"

definition linkmon_feed_ex :: "bytes \<Rightarrow> reac_linkmon \<Rightarrow> (reac_linkmon \<times> bool) option" where
  "linkmon_feed_ex buf m = nl_feed False linkmon_msg buf 0 False m"

definition reac_linkmon_feed :: "bytes \<Rightarrow> reac_linkmon \<Rightarrow> reac_linkmon option" where
  "reac_linkmon_feed buf m = map_option fst (linkmon_feed_ex buf m)"

text \<open>A dump: at most 64 datagrams, up to the one with the terminator. The second part says that it was seen.\<close>

fun linkmon_dump :: "nat \<Rightarrow> bytes list \<Rightarrow> reac_linkmon \<Rightarrow> (reac_linkmon \<times> bool) option" where
  "linkmon_dump (Suc n) (buf # bufs) m =
     (case linkmon_feed_ex buf m of
        None \<Rightarrow> None
      | Some (m, done) \<Rightarrow> if done then Some (m, True) else linkmon_dump n bufs m)"
| "linkmon_dump _ _ m = Some (m, False)"

definition reac_linkmon_resync :: "bool \<Rightarrow> bytes list \<Rightarrow> reac_linkmon \<Rightarrow> (reac_linkmon \<times> int) option" where
  "reac_linkmon_resync sent answer m =
     (if \<not> sent then Some (m, - 1)
      else map_option (\<lambda>(m, done). (m, if done then 0 else - 1)) (linkmon_dump 64 answer m))"

datatype link_recv = Recv bytes | Overrun bool "bytes list"

definition linkmon_recv :: "link_recv \<Rightarrow> reac_linkmon \<Rightarrow> reac_linkmon option" where
  "linkmon_recv r m =
     (case r of
        Recv buf \<Rightarrow> map_option fst (linkmon_feed_ex buf m)
      | Overrun sent answer \<Rightarrow>
          map_option fst (reac_linkmon_resync sent answer (m\<lparr> lk_overruns := lk_overruns m + 1 \<rparr>)))"

fun linkmon_recvs :: "link_recv list \<Rightarrow> reac_linkmon \<Rightarrow> reac_linkmon option" where
  "linkmon_recvs [] m = Some m"
| "linkmon_recvs (r # rs) m = Option.bind (linkmon_recv r m) (linkmon_recvs rs)"

definition reac_linkmon_drain :: "link_recv list \<Rightarrow> reac_linkmon \<Rightarrow> (reac_linkmon \<times> reac_link_edge) option" where
  "reac_linkmon_drain rs m = map_option reac_linkmon_take (linkmon_recvs rs m)"

text \<open>Opening: the socket, the first dump, and the carrier found then is not an edge.\<close>

definition reac_linkmon_open :: "bool \<Rightarrow> bool \<Rightarrow> bytes list \<Rightarrow> string option \<Rightarrow> reac_linkmon option option" where
  "reac_linkmon_open socket_ok sent answer ifname =
     (let m = reac_linkmon_init ifname in
      if lk_ifname m = '''' \<or> \<not> socket_ok then Some None
      else map_option (\<lambda>(m, rc). Some (m\<lparr> lk_acted := lk_carrier m \<rparr>)) (reac_linkmon_resync sent answer m))"

section \<open>Edges\<close>

definition edge_state :: "reac_linkmon \<Rightarrow> bool" where
  "edge_state m \<longleftrightarrow> lk_carrier m \<in> {- 1, 0, 1} \<and> lk_acted m \<in> {- 1, 0, 1} \<and> (lk_carrier m = - 1 \<longrightarrow> lk_acted m = - 1)"

datatype linkmon_op = Link_Observe "string option" int | Link_Take

fun linkmon_step :: "linkmon_op \<Rightarrow> reac_linkmon \<Rightarrow> reac_linkmon \<times> reac_link_edge" where
  "linkmon_step (Link_Observe name c) m = (reac_linkmon_observe name c m, REAC_LINK_EDGE_NONE)"
| "linkmon_step Link_Take m = reac_linkmon_take m"

lemma step_state: "edge_state m \<Longrightarrow> edge_state (fst (linkmon_step q m))"
  by (cases q) (auto simp: edge_state_def reac_linkmon_observe_def reac_linkmon_take_def Let_def)

text \<open>The edges reported, seen from whether the owner holds the link as up: up only when it does not, down only
  when it does.\<close>

fun edges_ok :: "bool \<Rightarrow> reac_link_edge list \<Rightarrow> bool" where
  "edges_ok up [] = True"
| "edges_ok up (REAC_LINK_EDGE_NONE # es) = edges_ok up es"
| "edges_ok up (REAC_LINK_EDGE_UP # es) = (\<not> up \<and> edges_ok True es)"
| "edges_ok up (REAC_LINK_EDGE_DOWN # es) = (up \<and> edges_ok False es)"

lemma step_edges:
  assumes "edge_state m" and "linkmon_step q m = (m', e)"
  shows "edges_ok (lk_acted m = 1) (e # es) = edges_ok (lk_acted m' = 1) es"
  using assms
  by (cases q) (auto simp: edge_state_def reac_linkmon_observe_def reac_linkmon_take_def Let_def split: if_splits)

lemma linkmon_edges_alternate: "edge_state m \<Longrightarrow> edges_ok (lk_acted m = 1) (snd (trace_of linkmon_step qs m))"
proof (induction qs arbitrary: m)
  case (Cons q qs)
  obtain m' e where s: "linkmon_step q m = (m', e)" by (rule prod.exhaust)
  have "edge_state m'" using step_state [OF Cons.prems, of q] by (simp add: s)
  then show ?case using Cons.IH [of m'] step_edges [OF Cons.prems s] by (simp add: s Let_def case_prod_beta)
qed simp

text \<open>After a take, the owner holds the link as the last known carrier says.\<close>

lemma linkmon_take_settles: "edge_state m \<Longrightarrow> 0 \<le> lk_carrier m \<Longrightarrow> lk_acted (fst (reac_linkmon_take m)) = lk_carrier m"
  by (auto simp: edge_state_def reac_linkmon_take_def)

lemma linkmon_init_state: "edge_state (reac_linkmon_init ifname)" and linkmon_open_state:
  "edge_state m \<Longrightarrow> edge_state (m\<lparr> lk_acted := lk_carrier m \<rparr>)"
  by (auto simp: edge_state_def reac_linkmon_init_def)

text \<open>The monitor's walk has the same flaw as the scan's.\<close>

lemma linkmon_reads_past_end:
  "reac_linkmon_feed [17, 0, 0, 0, 4, 0, 0, 0, 0, 0, 0, 0, 0, 0, 0, 0, 0] m = None"
proof -
  let ?b = "[17, 0, 0, 0, 4, 0, 0, 0, 0, 0, 0, 0, 0, 0, 0, 0, 0] :: bytes"
  have l: "nl_u32 ?b 0 = Some 17" "nl_u16 ?b 4 = Some 4" "nl_u32 ?b 20 = None" "nl_align 17 = 20" "length ?b = 17"
    by (simp_all add: nl_u32_def nl_u16_def nl_align_def u16le_def)
  have "nl_feed False f ?b 20 b t = None" for f :: "link_msg \<Rightarrow> reac_linkmon \<Rightarrow> reac_linkmon" and b t
    by (simp add: nl_feed.simps [of _ _ _ 20] l nl_left_def)
  then show ?thesis
    by (simp add: reac_linkmon_feed_def linkmon_feed_ex_def nl_feed.simps [of _ _ _ 0] l nl_left_def nl_link_def)
qed

end
