(* ===== verification/Spec2Isabelle.thy ===== *)
theory Spec2Isabelle
  imports Reac_Codec Reac_Scene_Run Reac_Link Reac_Boxreg Reac_Ring_Spsc Reac_Macaddr Reac_Knock Reac_Hunt
    Reac_Clock Reac_Link_State Reac_Pcap Reac_Topo Reac_Slave Reac_Segment Reac_Pacer_Run Reac_Pacer_Clock Reac_Rx_Stream Reac_Tap Reac_Ifscan Reac_Linkmon
begin

text \<open>
  Verification of libreac, two C libraries for the REAC audio network: \<^verbatim>\<open>libreac\<close> (the protocol,
  \<^verbatim>\<open>src/src\<close> and \<^verbatim>\<open>src/include/reac\<close>) and \<^verbatim>\<open>libreac-transport\<close> (rings, pacing, topology,
  \<^verbatim>\<open>src/transport/src\<close>).

  \<^bold>\<open>The program.\<close> One master and a few boxes share an Ethernet segment. The master broadcasts one
  frame per twelve samples: a header with a counter, a control block of 32 bytes with a checksum, and 40
  channels of 24-bit samples in a braided byte order. A box answers with narrower frames. Before a box is
  granted its channels it announces itself, the master sends it a scene and a sweep of head-amp records,
  and both ends run a state machine for this. An end that does not know its role listens first, keeps a
  table of the stations it hears and decides whether to master, to follow or to stay out. A master
  disciplines its frame clock to a reference.

  \<^bold>\<open>Conventions.\<close> \<^verbatim>\<open>uintN_t\<close> is a word of that width and wraps; \<^verbatim>\<open>int\<close> is an integer with C's
  truncating division; \<^verbatim>\<open>size_t\<close> is a natural number; a buffer with its length is a byte list; a pointer
  that may be \<^verbatim>\<open>NULL\<close> is an option; a struct is a record whose fields carry a two-letter prefix; an
  out-parameter is part of the result; refusals are kept as the code returns them or are \<open>None\<close>. Floats and
  doubles are exact numbers (rational or real), so statements about them are statements about the formulas
  and not about rounding. Environment variables, files, sockets and clocks are arguments. Loops are folds,
  searches or recursive functions with a termination proof: no definition takes fuel.

  \<^bold>\<open>Theories, sources and results.\<close>

  \<^item> \<open>Reac_Prelude\<close>: byte buffers (locale \<open>byte_store\<close>, interpreted on lists), words as bytes, searches,
    the locales \<open>invariant_machine\<close> (an invariant kept by every allowed event) and \<open>data_refinement\<close> (an
    implementation answers as its specification does). Every state machine and the ring interpret them.
  \<^item> \<open>Reac_Frame\<close> (\<^verbatim>\<open>reac.c\<close>, \<^verbatim>\<open>reac.h\<close>): geometry, counters, rate snapping and detection. A steady
    stream is measured as its own rate; counter gaps count lost frames.
  \<^item> \<open>Reac_Braid\<close>, \<open>Reac_Codec\<close> (\<^verbatim>\<open>reac_braid.h\<close>, \<^verbatim>\<open>reac_sample.h\<close>, \<^verbatim>\<open>reac_decode.c\<close>,
    \<^verbatim>\<open>reac_encode.c\<close>, \<^verbatim>\<open>reac_upstream.c\<close>): the braid is a bijection on the audio bytes; building and
    decoding a frame returns the samples up to quantisation.
  \<^item> \<open>Reac_Checksum\<close>, \<open>Reac_Ctrl_Parse\<close>, \<open>Reac_Ctrl_Emit\<close>, \<open>Reac_Scene\<close>, \<open>Reac_Ports\<close>,
    \<open>Reac_Identity\<close>, \<open>Reac_Box_Model\<close>, \<open>Reac_Box_Facts\<close> (\<^verbatim>\<open>reac_ctrlblk.c\<close>, \<^verbatim>\<open>reac_ctrl.c\<close>,
    \<^verbatim>\<open>reac_ports.c\<close>, \<^verbatim>\<open>reac_identity.c\<close>, \<^verbatim>\<open>reac_box_synth.c\<close>, \<^verbatim>\<open>reac_box_facts.c\<close>): every block the
    library writes checksums and is read back as what it was; the catalogue's generated blocks are the
    recorded ones; names fit their buffers or are refused.
  \<^item> \<open>Reac_Boxreg\<close>, \<open>Reac_Headamp\<close> (\<^verbatim>\<open>reac_boxreg.c\<close>, \<^verbatim>\<open>reac_headamp_tx.c\<close>, \<^verbatim>\<open>reac_grant.c\<close>): ranges
    of boxes never overlap; pending head-amp values and scenes are delivered; a grant covers its
    allocation.
  \<^item> \<open>Reac_Fsm\<close>, \<open>Reac_Link\<close> (\<^verbatim>\<open>reac_fsm.c\<close>, \<^verbatim>\<open>reac_link.c\<close>): the slave. What it sends fits its state,
    a grant leads to an established link on an exact timetable, silence ends it.
  \<^item> \<open>Reac_Master_Fsm\<close>, \<open>Reac_Master\<close>, \<open>Reac_Session\<close>, \<open>Reac_Master_Run\<close>, \<open>Reac_Scene_Run\<close>
    (\<^verbatim>\<open>reac_master_fsm.c\<close>, \<^verbatim>\<open>reac_master.c\<close>): the master. Whatever was received, every slot can be
    stamped and is read as what was meant; scene transfers and grants are delivered whole; a silent box is
    dropped at the end of its budget.
  \<^item> \<open>Reac_Knock\<close>, \<open>Reac_Role\<close>, \<open>Reac_Macaddr\<close>, \<open>Reac_Disco\<close>, \<open>Reac_Arbitration\<close>, \<open>Reac_Hunt\<close>,
    \<open>Reac_Link_State\<close> (the files of those names): taking a wire. The wire is claimed once and only after
    silence; the table of stations is bounded, has no duplicates and prints into its buffer; a role is
    taken only on the evidence the code names.
  \<^item> \<open>Reac_Clock\<close> (\<^verbatim>\<open>reac_clock.c\<close>): the discipline reports a lock only when it has one, moves within its
    limits and locks on a steady reference.
  \<^item> \<open>Reac_Pcap\<close> (\<^verbatim>\<open>pcap_source.c\<close>): files of records are read back; reading ends on every file.
  \<^item> \<open>Reac_Ring\<close>, \<open>Reac_Ring_Spsc\<close> (\<^verbatim>\<open>transport/src/reac_ring.c\<close>): the ring refines a bounded queue of
    frames, and stays first-in first-out under every interleaving of one writer and one reader, with writes of
    any width and trims; the one loss is silence in a channel a narrowing write retires before it was read.
  \<^item> \<open>Reac_Slave\<close> (\<^verbatim>\<open>transport/src/reac_slave.c\<close>, \<^verbatim>\<open>reac_mac.c\<close>): the engine around the slave machine and the
    frame builders. Every frame it sends is whole, from us, to broadcast or to the master known, and is sent in
    no silent state; the head-amp tables hold what the latest verified records asked for.
  \<^item> \<open>Reac_Conf\<close>, \<open>Reac_Ifname\<close>, \<open>Reac_Segment\<close> (\<^verbatim>\<open>transport/src/reac_conf.c\<close>, \<^verbatim>\<open>reac_ifname.c\<close>,
    \<^verbatim>\<open>reac_role_swap.c\<close>, \<^verbatim>\<open>reac_segment_ident.c\<close>, \<^verbatim>\<open>reac_pace_watch.c\<close>): a key is answered from what the
    environment and the files say, in the order of the code; port names do not depend on the order of discovery; a heard master
    decays; the pace watch warns as a reference that keeps every arrival time does.
  \<^item> \<open>Reac_Topo\<close> (\<^verbatim>\<open>transport/src/reac_topo.c\<close>): tagged frames, the table of VLANs and its event queue;
    what leaves service is announced, a failure the owner reports excepted.
  \<^item> \<open>Reac_Frame_Ring\<close>, \<open>Reac_Etf\<close> (\<^verbatim>\<open>transport/src/reac_pacer.c\<close>, \<^verbatim>\<open>reac_etf.c\<close>): the queue of frames
    between the graph and the wire refines a bounded queue, its depth guard trims to the mark and the watch over
    what it discards warns once; the launch grid has no accumulated error; the configured word decides
    the backend, and one that cannot run is refused or published.
  \<^item> \<open>Reac_Pacer\<close>, \<open>Reac_Pacer_Open\<close>, \<open>Reac_Pacer_Queue\<close>, \<open>Reac_Pacer_Loop\<close>, \<open>Reac_Pacer_Clock\<close>,
    \<open>Reac_Pacer_Run\<close> (\<^verbatim>\<open>transport/src/reac_pacer.c\<close>): the master's pacing thread, which joins the master
    machine, the head-amp table, the clock discipline, the discovery table and the frame ring in one slot. The
    first theory holds its state and what the threads ask of it, the second the opening, the fourth the slot as
    \<open>pacer_slot\<close>. The event log and the command ring are instances of one locale \<open>index_ring\<close>: what was
    accepted is taken out in order. A due clock tick follows only a live source. Every slot of every run sends a
    whole, stamped frame, and the schedule is never behind by more than the catch-up budget.

  \<^item> \<open>Reac_Rx\<close>, \<open>Reac_Rx_Stream\<close> (\<^verbatim>\<open>transport/src/reac_rx.c\<close>): the receiver, one turn of its loop as
    \<open>rx_turn\<close>. Its order filter equals a reference over the whole session; every frame is counted once and only
    the peer is heard; the frames a sender builds end in the ring as the samples it put in.

  \<^item> \<open>Reac_Tap\<close> (\<^verbatim>\<open>transport/src/reac_tap.c\<close>): the passive role. The survey accounts for every frame,
    its roster does not change when frames arrive twice, and an opened tap has one receiver for each stream, pinned
    to its sender. A live survey ends once the clock passes its limit (\<open>survey_live_ends\<close>).

  \<^item> \<open>Reac_Netlink\<close>, \<open>Reac_Ifscan\<close>, \<open>Reac_Linkmon\<close> (\<^verbatim>\<open>transport/src/reac_ifscan.c\<close>,
    \<^verbatim>\<open>reac_linkmon.c\<close>): interfaces and carriers from the kernel's link messages. Reads outside a datagram are
    values of the model, so the walk is shown to stay inside padded datagrams, and to leave others. A client
    that follows the scan's events knows what its table knows; the monitor's edges alternate.

  \<^bold>\<open>Bounds.\<close> Where the code has a fixed size the model has the same one (8 stations, 8 parents of 16 VLANs,
  32 events, 40 channels); hypotheses of the form \<open>length hdr = 20\<close> or \<open>env_ok\<close> state the sizes C's types
  guarantee.

  \<^bold>\<open>Interleaving.\<close> The sample ring is modelled at the grain of its single loads and stores. Elsewhere the
  operations of the threads are atomic steps of a sequence: the pacer's other threads reach it only through
  indices, sequence numbers and single words.

  \<^bold>\<open>Not modelled.\<close> System calls and threads (packet sockets, netlink, scheduling classes, timers), the text of
  log lines, the bytes of the captured scene body (\<^verbatim>\<open>reac_scene_body.c\<close>, a parameter), the tools, fuzzers, tests, bindings and
  packaging. The manifest lists them with their reasons.
\<close>

end
